(* ===== verification/Prelude.thy ===== *)
theory Prelude
  imports Main "HOL-Library.Word" "HOL-Library.AList" "HOL-Library.Multiset" "HOL-Library.Char_ord"
    "HOL-Library.List_Lexorder"
begin

text \<open>
  Shared vocabulary of the development: the Rust types the sources use (bytes, \<open>u64\<close>, \<open>i64\<close>,
  \<open>Result<_, ()>\<close>, panics), the \<open>HashMap\<close> and \<open>HashSet\<close> of the standard library, the interface
  of a key-value map as a locale, and the generic facts on lists and maps the components share.

  \<^item> A byte is a \<open>char\<close> (256 values), a byte slice or a UTF-8 string is a \<open>string\<close>.
  \<^item> A \<open>u64\<close> is a 64-bit word. An \<open>i64\<close> is an \<open>int\<close> whose range is stated (\<open>in_i64\<close>) and whose
    wrap-around and saturation are written out.
  \<^item> A \<open>HashMap\<close> is an association list with distinct keys. Rust leaves the iteration order of
    a \<open>HashMap\<close> open; the list order stands for one such order, and every theorem about an
    iteration speaks of the set or the multiset of what it yields.
\<close>

named_theorems hm_simps "rewriting of hash-map reads after hash-map writes"

section \<open>Machine types\<close>

type_synonym byte = char
type_synonym bytes = string
type_synonym u64 = "64 word"
type_synonym u32 = "32 word"

definition i64_min :: int where
  "i64_min = - (2 ^ 63)"

definition i64_max :: int where
  "i64_max = 2 ^ 63 - 1"

definition in_i64 :: "int \<Rightarrow> bool" where
  "in_i64 n \<longleftrightarrow> i64_min \<le> n \<and> n \<le> i64_max"

text \<open>\<open>i64::saturating_add\<close>, two's complement wrap-around (\<open>wrapping_add\<close>, unchecked negation
  in a release build), and \<open>u64::saturating_add\<close>.\<close>

definition i64_saturating_add :: "int \<Rightarrow> int \<Rightarrow> int" where
  "i64_saturating_add a b = max i64_min (min i64_max (a + b))"

definition i64_wrap :: "int \<Rightarrow> int" where
  "i64_wrap n = (n + 2 ^ 63) mod 2 ^ 64 - 2 ^ 63"

definition u64_saturating_add :: "u64 \<Rightarrow> u64 \<Rightarrow> u64" where
  "u64_saturating_add a b = (if unat a + unat b < 2 ^ 64 then a + b else - 1)"

definition u64_saturating_sub :: "u64 \<Rightarrow> u64 \<Rightarrow> u64" where
  "u64_saturating_sub a b = (if b \<le> a then a - b else 0)"

lemma i64_bounds_eval: "i64_min = -9223372036854775808" "i64_max = 9223372036854775807"
  by (simp_all add: i64_min_def i64_max_def)

lemma in_i64_iff: "in_i64 n \<longleftrightarrow> -9223372036854775808 \<le> n \<and> n \<le> 9223372036854775807"
  by (simp add: in_i64_def i64_bounds_eval)

lemma in_i64_saturating_add [simp, intro]: "in_i64 (i64_saturating_add a b)"
  by (simp add: i64_saturating_add_def in_i64_iff i64_bounds_eval)

lemma saturating_add_exact: "in_i64 (a + b) \<Longrightarrow> i64_saturating_add a b = a + b"
  by (auto simp: i64_saturating_add_def in_i64_def)

lemma i64_wrap_eval:
  "i64_wrap n = (n + 9223372036854775808) mod 18446744073709551616 - 9223372036854775808"
  by (simp add: i64_wrap_def)

lemma in_i64_wrap [simp, intro]: "in_i64 (i64_wrap n)"
proof -
  have "0 \<le> (n + 9223372036854775808) mod (18446744073709551616 :: int)" by simp
  moreover have "(n + 9223372036854775808) mod (18446744073709551616 :: int) < 18446744073709551616"
    by simp
  ultimately show ?thesis unfolding in_i64_iff i64_wrap_eval by linarith
qed

lemma i64_wrap_id: "in_i64 n \<Longrightarrow> i64_wrap n = n"
  unfolding in_i64_iff i64_wrap_eval by (simp add: mod_pos_pos_trivial)

lemma u64_saturating_add_ge: "a \<le> u64_saturating_add a b"
proof (cases "unat a + unat b < 2 ^ 64")
  case True
  then have "unat (a + b) = unat a + unat b"
    by (simp add: unat_word_ariths)
  with True show ?thesis
    by (simp add: u64_saturating_add_def word_le_nat_alt)
qed (simp add: u64_saturating_add_def)

section \<open>Results and panics\<close>

text \<open>\<open>Result<T, ()>\<close>: the store reports every failure as the same error value.\<close>

datatype 'a result = Ok 'a | Err

text \<open>A call that may abort the process: the release profile of the crate sets
  \<open>panic = "abort"\<close>, so a panic is the end of the run.\<close>

datatype 'a outcome = Done 'a | Panic

fun map_result :: "('a \<Rightarrow> 'b) \<Rightarrow> 'a result \<Rightarrow> 'b result" where
  "map_result f (Ok x) = Ok (f x)"
| "map_result f Err = Err"

section \<open>The standard hash map\<close>

type_synonym ('k, 'v) hashmap = "('k \<times> 'v) list"

definition hm_get :: "('k, 'v) hashmap \<Rightarrow> 'k \<Rightarrow> 'v option" where
  "hm_get m k = map_of m k"

definition hm_put :: "'k \<Rightarrow> 'v \<Rightarrow> ('k, 'v) hashmap \<Rightarrow> ('k, 'v) hashmap" where
  "hm_put k v m = AList.update k v m"

definition hm_del :: "'k \<Rightarrow> ('k, 'v) hashmap \<Rightarrow> ('k, 'v) hashmap" where
  "hm_del k m = AList.delete k m"

definition hm_ok :: "('k, 'v) hashmap \<Rightarrow> bool" where
  "hm_ok m \<longleftrightarrow> distinct (map fst m)"

lemma hm_get_Nil [simp]: "hm_get [] k = None"
  by (simp add: hm_get_def)

lemma hm_get_put [simp, hm_simps]: "hm_get (hm_put k v m) = (hm_get m)(k \<mapsto> v)"
  by (auto simp: hm_get_def hm_put_def update_conv' fun_eq_iff)

lemma hm_get_del [simp, hm_simps]: "hm_get (hm_del k m) = (hm_get m)(k := None)"
  by (auto simp: hm_get_def hm_del_def delete_conv' fun_eq_iff)

lemma hm_ok_Nil [simp]: "hm_ok []"
  by (simp add: hm_ok_def)

lemma hm_ok_put [simp, intro]: "hm_ok m \<Longrightarrow> hm_ok (hm_put k v m)"
  by (simp add: hm_ok_def hm_put_def distinct_update)

lemma hm_ok_del [simp, intro]: "hm_ok m \<Longrightarrow> hm_ok (hm_del k m)"
  by (simp add: hm_ok_def hm_del_def distinct_delete)

lemma hm_ok_filter [simp, intro]: "hm_ok m \<Longrightarrow> hm_ok (filter P m)"
  by (simp add: hm_ok_def distinct_map_filter)

lemma hm_get_filter:
  "hm_ok m \<Longrightarrow> hm_get (filter (\<lambda>(k, v). P k v) m) k =
     (case hm_get m k of Some v \<Rightarrow> if P k v then Some v else None | None \<Rightarrow> None)"
  by (induction m) (auto simp: hm_get_def hm_ok_def split: option.splits dest: map_of_SomeD,
      (metis fst_conv imageI map_of_SomeD)+)

lemma hm_pairs_iff: "hm_ok m \<Longrightarrow> (k, v) \<in> set m \<longleftrightarrow> hm_get m k = Some v"
  by (simp add: hm_ok_def hm_get_def)

lemma hm_keys_iff: "k \<in> fst ` set m \<longleftrightarrow> hm_get m k \<noteq> None"
  by (simp add: hm_get_def map_of_eq_None_iff)

section \<open>Vectors\<close>

text \<open>\<open>Iterator::position\<close> and \<open>Vec::swap_remove\<close> (the last element takes the removed one's place).\<close>

fun position :: "('a \<Rightarrow> bool) \<Rightarrow> 'a list \<Rightarrow> nat option" where
  "position P [] = None"
| "position P (x # xs) = (if P x then Some 0 else map_option Suc (position P xs))"

definition swap_remove :: "nat \<Rightarrow> 'a list \<Rightarrow> 'a list" where
  "swap_remove i xs = butlast (xs[i := last xs])"

lemma position_None_iff: "position P xs = None \<longleftrightarrow> (\<forall>x \<in> set xs. \<not> P x)"
  by (induction xs) auto

lemma position_SomeD:
  "position P xs = Some i \<Longrightarrow> i < length xs \<and> P (xs ! i) \<and> (\<forall>j < i. \<not> P (xs ! j))"
proof (induction xs arbitrary: i)
  case (Cons x xs)
  show ?case
  proof (cases "P x")
    case False
    with Cons.prems obtain j where j: "position P xs = Some j" "i = Suc j" by auto
    from Cons.IH [OF j(1)] False j(2) show ?thesis by (auto simp: less_Suc_eq_0_disj)
  qed (use Cons.prems in auto)
qed simp

lemma position_split:
  "position P xs = Some i \<Longrightarrow> xs = take i xs @ xs ! i # drop (Suc i) xs"
  by (drule position_SomeD) (simp add: id_take_nth_drop)

lemma mset_swap_remove:
  assumes "i < length xs"
  shows "mset (swap_remove i xs) = mset xs - {# xs ! i #}"
proof -
  have ne: "xs[i := last xs] \<noteq> []" using assms by auto
  have last_upd: "last (xs[i := last xs]) = last xs"
    using assms by (subst last_list_update) auto
  have "mset (xs[i := last xs]) = mset (swap_remove i xs) + {# last xs #}"
    using append_butlast_last_id [OF ne] unfolding swap_remove_def last_upd
    by (metis mset.simps(1) mset.simps(2) mset_append)
  moreover have "mset (xs[i := last xs]) = add_mset (last xs) (mset xs - {# xs ! i #})"
    using assms by (rule mset_update)
  ultimately show ?thesis by simp
qed

section \<open>The interface of a key-value map\<close>

text \<open>
  What a client of a map relies on: reads after writes, the size, and the pairs an iteration
  yields. Both the standard \<open>HashMap\<close> (below) and the store's two-representation \<open>HashStore\<close>
  provide it; the lemmas about loops over a map are proved once here.
\<close>

locale kv_map =
  fixes get :: "'m \<Rightarrow> 'k \<Rightarrow> 'v option"
    and put :: "'k \<Rightarrow> 'v \<Rightarrow> 'm \<Rightarrow> 'm"
    and del :: "'k \<Rightarrow> 'm \<Rightarrow> 'm"
    and pairs :: "'m \<Rightarrow> ('k \<times> 'v) list"
    and ok :: "'m \<Rightarrow> bool"
  assumes get_put: "ok m \<Longrightarrow> get (put k v m) = (get m)(k \<mapsto> v)"
    and get_del: "ok m \<Longrightarrow> get (del k m) = (get m)(k := None)"
    and get_pairs: "ok m \<Longrightarrow> get m = map_of (pairs m)"
    and distinct_pairs: "ok m \<Longrightarrow> distinct (map fst (pairs m))"
    and ok_put: "ok m \<Longrightarrow> ok (put k v m)"
    and ok_del: "ok m \<Longrightarrow> ok (del k m)"
begin

lemma finite_dom_get: "ok m \<Longrightarrow> finite (dom (get m))"
  by (simp add: get_pairs finite_dom_map_of)

lemma length_pairs: "ok m \<Longrightarrow> length (pairs m) = card (dom (get m))"
proof -
  assume m: "ok m"
  have "card (dom (get m)) = card (set (map fst (pairs m)))"
    by (simp add: get_pairs [OF m] dom_map_of_conv_image_fst)
  also have "\<dots> = length (map fst (pairs m))"
    by (rule distinct_card) (rule distinct_pairs [OF m])
  finally show ?thesis by simp
qed

lemma pairs_empty_iff: "ok m \<Longrightarrow> pairs m = [] \<longleftrightarrow> get m = (\<lambda>_. None)"
  using length_pairs [of m] finite_dom_get [of m] by auto

text \<open>Removing the keys of a list one after the other: the loop behind \<open>HDEL\<close> and \<open>ZREM\<close>
  counts the keys that were present, each of them once.\<close>

lemma del_loop:
  assumes "ok m"
  shows "ok (fold del ks m)"
    and "get (fold del ks m) = (\<lambda>k. if k \<in> set ks then None else get m k)"
  using assms by (induction ks arbitrary: m) (auto simp: get_del ok_del fun_eq_iff)

lemma put_loop:
  assumes "ok m"
  shows "ok (fold (\<lambda>(k, v). put k v) kvs m)"
    and "get (fold (\<lambda>(k, v). put k v) kvs m) = get m ++ map_of (rev kvs)"
proof -
  show "ok (fold (\<lambda>(k, v). put k v) kvs m)"
    using assms by (induction kvs arbitrary: m) (auto simp: ok_put)
  show "get (fold (\<lambda>(k, v). put k v) kvs m) = get m ++ map_of (rev kvs)"
    using assms
  proof (induction kvs arbitrary: m)
    case (Cons kv kvs)
    obtain k v where kv: "kv = (k, v)" by (cases kv)
    have "get (fold (\<lambda>(k, v). put k v) kvs (put k v m)) = get (put k v m) ++ map_of (rev kvs)"
      by (rule Cons.IH) (rule ok_put [OF Cons.prems])
    also have "get (put k v m) = (get m)(k \<mapsto> v)" by (rule get_put [OF Cons.prems])
    finally show ?case by (auto simp: kv map_add_def fun_eq_iff split: option.splits)
  qed simp
qed

end

interpretation hm: kv_map hm_get hm_put hm_del "\<lambda>m. m" hm_ok
  by unfold_locales (simp_all, simp_all add: hm_get_def hm_ok_def fun_eq_iff)

text \<open>The counting loop over a removal function, as the source writes it: the accumulator is
  incremented when the removal returned a value.\<close>

fun remove_loop :: "('k \<Rightarrow> 'm \<Rightarrow> bool) \<Rightarrow> ('k \<Rightarrow> 'm \<Rightarrow> 'm) \<Rightarrow> 'k list \<Rightarrow> 'm \<Rightarrow> int \<Rightarrow> 'm \<times> int" where
  "remove_loop has rem [] m n = (m, n)"
| "remove_loop has rem (k # ks) m n =
     (if has k m then remove_loop has rem ks (rem k m) (n + 1)
      else remove_loop has rem ks (rem k m) n)"

context kv_map
begin

lemma remove_loop_fst: "fst (remove_loop has del ks m n) = fold del ks m"
  by (induction ks arbitrary: m n) auto

lemma remove_loop_snd:
  "ok m \<Longrightarrow> snd (remove_loop (\<lambda>k m. get m k \<noteq> None) del ks m n) =
     n + int (card (dom (get m) \<inter> set ks))"
proof (induction ks arbitrary: m n)
  case (Cons k ks)
  have m': "ok (del k m)" by (rule ok_del [OF Cons.prems])
  have dom': "dom (get (del k m)) = dom (get m) - {k}"
    by (auto simp: get_del [OF Cons.prems] split: if_splits)
  have split: "dom (get m) \<inter> set (k # ks) =
      (if get m k \<noteq> None then insert k (dom (get (del k m)) \<inter> set ks)
       else dom (get (del k m)) \<inter> set ks)"
    by (auto simp: dom')
  have "card (insert k (dom (get (del k m)) \<inter> set ks)) =
      Suc (card (dom (get (del k m)) \<inter> set ks))"
    by (rule card_insert_disjoint) (auto simp: dom')
  with split Cons.IH [OF m'] show ?case by auto
qed simp

end

end
