(* ===== verification/Sharding.thy ===== *)
theory Sharding
  imports Prelude
begin

text \<open>
  Routing of keys to buckets, independent of what a bucket is. A sharded store is a list of
  buckets and an index function; it is well placed when every bucket holds only keys of its own
  index. The locale \<open>sharded\<close> shows that such a store is one map: an operation that is local to its
  key in a bucket is local to its key in the whole store, and what the buckets hold together is
  exactly the map, each key once.
\<close>

text \<open>Take the bucket of a key, run an operation on it, put it back.\<close>

definition route :: "('k \<Rightarrow> nat) \<Rightarrow> 'k \<Rightarrow> ('s \<Rightarrow> 's \<times> 'r) \<Rightarrow> 's list \<Rightarrow> 's list \<times> 'r" where
  "route index k f xs = (let (s, r) = f (xs ! index k) in (xs[index k := s], r))"

definition lookup :: "('k \<Rightarrow> nat) \<Rightarrow> ('s \<Rightarrow> 'k \<Rightarrow> 'v option) \<Rightarrow> 's list \<Rightarrow> 'k \<Rightarrow> 'v option" where
  "lookup index get xs k = get (xs ! index k) k"

definition placed ::
  "('k \<Rightarrow> nat) \<Rightarrow> nat \<Rightarrow> ('s \<Rightarrow> 'k \<Rightarrow> 'v option) \<Rightarrow> ('s \<Rightarrow> bool) \<Rightarrow> 's list \<Rightarrow> bool" where
  "placed index n get ok xs \<longleftrightarrow>
     length xs = n \<and> (\<forall>i < n. ok (xs ! i) \<and> (\<forall>k. get (xs ! i) k \<noteq> None \<longrightarrow> index k = i))"

text \<open>The contract of an operation on one key, for any bucket type.\<close>

definition local_to ::
  "('s \<Rightarrow> 'k \<Rightarrow> 'v option) \<Rightarrow> ('s \<Rightarrow> bool) \<Rightarrow> 'k \<Rightarrow> ('s \<Rightarrow> 's \<times> 'r) \<Rightarrow> ('v option \<Rightarrow> 'v option \<times> 'r) \<Rightarrow> bool" where
  "local_to get ok k f g \<longleftrightarrow> (\<forall>s. ok s \<longrightarrow>
     ok (fst (f s)) \<and> get (fst (f s)) = (get s)(k := fst (g (get s k))) \<and> snd (f s) = snd (g (get s k)))"

locale sharded =
  fixes index :: "'k \<Rightarrow> nat"
    and n :: nat
    and get :: "'s \<Rightarrow> 'k \<Rightarrow> 'v option"
    and pairs :: "'s \<Rightarrow> ('k \<times> 'v) list"
    and ok :: "'s \<Rightarrow> bool"
  assumes index_less: "index k < n"
    and ok_distinct: "ok s \<Longrightarrow> distinct (map fst (pairs s))"
    and ok_pairs: "ok s \<Longrightarrow> get s = map_of (pairs s)"
begin

lemma placedD:
  assumes "placed index n get ok xs"
  shows "length xs = n" "i < n \<Longrightarrow> ok (xs ! i)" "i < n \<Longrightarrow> get (xs ! i) k \<noteq> None \<Longrightarrow> index k = i"
  using assms by (auto simp: placed_def)

lemma route_local:
  assumes xs: "placed index n get ok xs" and f: "local_to get ok k f g"
  shows "placed index n get ok (fst (route index k f xs))"
    and "lookup index get (fst (route index k f xs)) = (lookup index get xs)(k := fst (g (lookup index get xs k)))"
    and "snd (route index k f xs) = snd (g (lookup index get xs k))"
proof -
  let ?i = "index k" and ?s = "xs ! index k"
  have i: "?i < length xs" using placedD(1) [OF xs] index_less [of k] by simp
  obtain s r where sr: "f ?s = (s, r)" by (cases "f ?s")
  have "ok ?s" by (rule placedD(2) [OF xs index_less])
  with f sr have s: "ok s" "get s = (get ?s)(k := fst (g (get ?s k)))" "r = snd (g (get ?s k))"
    unfolding local_to_def by (metis fst_conv, metis fst_conv, metis snd_conv)
  have rt: "route index k f xs = (xs[?i := s], r)" by (simp add: route_def sr)
  show "placed index n get ok (fst (route index k f xs))"
    unfolding placed_def rt
  proof (intro conjI allI impI)
    fix j k' assume j: "j < n"
    show "ok (fst (xs[?i := s], r) ! j)"
      using placedD(1,2) [OF xs] j s(1) by (cases "j = ?i") auto
    assume "get (fst (xs[?i := s], r) ! j) k' \<noteq> None"
    then show "index k' = j"
      using placedD(1) [OF xs] placedD(3) [OF xs j] i s(2) by (cases "j = ?i") (auto split: if_splits)
  qed (use placedD(1) [OF xs] in simp)
  show "lookup index get (fst (route index k f xs)) = (lookup index get xs)(k := fst (g (lookup index get xs k)))"
  proof
    fix k'
    show "lookup index get (fst (route index k f xs)) k' =
        ((lookup index get xs)(k := fst (g (lookup index get xs k)))) k'"
      using i s(2) by (cases "index k' = ?i") (auto simp: lookup_def rt)
  qed
  show "snd (route index k f xs) = snd (g (lookup index get xs k))"
    using s(3) by (simp add: rt lookup_def)
qed

text \<open>Replacing one bucket.\<close>

lemma set_bucket:
  assumes xs: "placed index n get ok xs" and i: "i < n" and s: "ok s"
    and home: "\<And>k. get s k \<noteq> None \<Longrightarrow> index k = i"
  shows "placed index n get ok (xs[i := s])"
    and "lookup index get (xs[i := s]) k = (if index k = i then get s k else lookup index get xs k)"
proof -
  note px = placedD [OF xs]
  show "placed index n get ok (xs[i := s])"
    unfolding placed_def
  proof (intro conjI allI impI)
    fix j k assume j: "j < n"
    show "ok (xs[i := s] ! j)" using px(1) px(2) [OF j] s i by (cases "j = i") auto
    assume "get (xs[i := s] ! j) k \<noteq> None"
    then show "index k = j" using px(1) px(3) [OF j] home i by (cases "j = i") auto
  qed (use px(1) in simp)
  show "lookup index get (xs[i := s]) k = (if index k = i then get s k else lookup index get xs k)"
    using px(1) i by (simp add: lookup_def)
qed

text \<open>An operation on every bucket that changes each cell by a function of its key's index.\<close>

lemma each_bucket:
  assumes xs: "placed index n get ok xs"
    and h: "\<And>i s. ok s \<Longrightarrow> ok (h i s) \<and> (\<forall>k. get (h i s) k = \<phi> i (get s k))"
    and none: "\<And>i. \<phi> i None = None"
  shows "placed index n get ok (map (\<lambda>i. h i (xs ! i)) [0..<length xs])"
    and "lookup index get (map (\<lambda>i. h i (xs ! i)) [0..<length xs]) k = \<phi> (index k) (lookup index get xs k)"
proof -
  have len: "length xs = n" by (rule placedD(1) [OF xs])
  have o: "ok (xs ! i)" if "i < n" for i using placedD(2) [OF xs that] .
  have place: "index k = i" if "i < n" "get (h i (xs ! i)) k \<noteq> None" for i k
  proof -
    have "get (xs ! i) k \<noteq> None" using h [OF o [OF that(1)], of i] that(2) none [of i] by metis
    then show ?thesis by (rule placedD(3) [OF xs that(1)])
  qed
  show "placed index n get ok (map (\<lambda>i. h i (xs ! i)) [0..<length xs])"
    unfolding placed_def using len h [OF o] place by auto
  show "lookup index get (map (\<lambda>i. h i (xs ! i)) [0..<length xs]) k = \<phi> (index k) (lookup index get xs k)"
    using len index_less [of k] h [OF o [OF index_less]] by (simp add: lookup_def)
qed

lemma distinct_concat_by_index:
  assumes "\<And>j. j < length rs \<Longrightarrow> distinct (map fst (rs ! j)) \<and> (\<forall>x \<in> set (rs ! j). index (fst x) = i0 + j)"
  shows "distinct (map fst (concat rs)) \<and> (\<forall>x \<in> set (concat rs). i0 \<le> index (fst x))"
  using assms
proof (induction rs arbitrary: i0)
  case (Cons r rs)
  have r: "distinct (map fst r)" "\<forall>x \<in> set r. index (fst x) = i0" using Cons.prems [of 0] by auto
  have "distinct (map fst (concat rs)) \<and> (\<forall>x \<in> set (concat rs). Suc i0 \<le> index (fst x))"
    by (rule Cons.IH) (use Cons.prems [of "Suc _"] in auto)
  then show ?case using r by (fastforce simp: image_iff)
qed simp

lemma all_pairs:
  assumes xs: "placed index n get ok xs"
  shows "distinct (map fst (concat (map pairs xs)))"
    and "map_of (concat (map pairs xs)) = lookup index get xs"
proof -
  have len: "length xs = n" by (rule placedD(1) [OF xs])
  have home: "index (fst x) = i" if "i < n" "x \<in> set (pairs (xs ! i))" for i x
  proof (rule placedD(3) [OF xs that(1)])
    show "get (xs ! i) (fst x) \<noteq> None"
      using that ok_pairs [OF placedD(2) [OF xs that(1)]] by (simp add: map_of_eq_None_iff)
  qed
  show d: "distinct (map fst (concat (map pairs xs)))"
    using distinct_concat_by_index [of "map pairs xs" 0] ok_distinct placedD(2) [OF xs] home
    by (auto simp: len)
  show "map_of (concat (map pairs xs)) = lookup index get xs"
  proof
    fix k
    have i: "index k < n" by (rule index_less)
    have mem: "(k, v) \<in> set (concat (map pairs xs)) \<longleftrightarrow> (k, v) \<in> set (pairs (xs ! index k))" for v
    proof
      assume "(k, v) \<in> set (concat (map pairs xs))"
      then obtain j where j: "j < n" "(k, v) \<in> set (pairs (xs ! j))" 
        using len by (auto simp: in_set_conv_nth [of _ xs])
      with home [of j "(k, v)"] show "(k, v) \<in> set (pairs (xs ! index k))" by simp
    qed (use i len in auto)
    have oki: "ok (xs ! index k)" by (rule placedD(2) [OF xs i])
    have "map_of (concat (map pairs xs)) k = Some v \<longleftrightarrow> lookup index get xs k = Some v" for v
      using mem d ok_distinct [OF oki] by (simp add: lookup_def ok_pairs [OF oki] map_of_eq_Some_iff)
    then show "map_of (concat (map pairs xs)) k = lookup index get xs k" by (metis option.exhaust)
  qed
qed

lemma count_all: "placed index n get ok xs \<Longrightarrow>
    sum_list (map (\<lambda>s. length (pairs s)) xs) = card (dom (lookup index get xs))"
proof -
  assume xs: "placed index n get ok xs"
  have "sum_list (map (\<lambda>s. length (pairs s)) xs) = length (map fst (concat (map pairs xs)))"
    by (simp add: length_concat comp_def)
  also have "\<dots> = card (set (map fst (concat (map pairs xs))))"
    by (rule distinct_card [symmetric]) (rule all_pairs(1) [OF xs])
  also have "set (map fst (concat (map pairs xs))) = dom (lookup index get xs)"
    unfolding all_pairs(2) [OF xs, symmetric] by (simp add: dom_map_of_conv_image_fst)
  finally show ?thesis .
qed

end

end
