(* ===== verification/Hash_Store.thy ===== *)
theory Hash_Store
  imports Prelude
begin

text \<open>
  The two-representation hash of \<open>src/muon_cache/store.rs\<close>: up to \<open>HASH_LINEAR_THRESHOLD\<close>
  fields live in an unsorted vector, searched linearly and shrunk with \<open>swap_remove\<close>; the
  insertion that would exceed the threshold promotes the vector to a hash map. The theory shows
  that clients cannot tell the two representations apart: \<open>HashStore\<close> implements the map
  interface \<open>kv_map\<close>, whatever the sequence of insertions and removals.
\<close>

section \<open>Model\<close>

definition HASH_LINEAR_THRESHOLD :: nat where
  "HASH_LINEAR_THRESHOLD = 8"

datatype hash_store = Linear "(bytes \<times> bytes) list" | Map "(bytes, bytes) hashmap"

definition hs_with_single :: "bytes \<Rightarrow> bytes \<Rightarrow> hash_store" where
  "hs_with_single field val = Linear [(field, val)]"

fun hs_get :: "hash_store \<Rightarrow> bytes \<Rightarrow> bytes option" where
  "hs_get (Linear v) field = map_option snd (List.find (\<lambda>p. fst p = field) v)"
| "hs_get (Map m) field = hm_get m field"

text \<open>The in-place overwrite of \<open>insert\<close> and of \<open>get_mut\<close>: \<open>None\<close> when the field is absent.\<close>

fun linear_replace :: "bytes \<Rightarrow> bytes \<Rightarrow> (bytes \<times> bytes) list \<Rightarrow> (bytes \<times> (bytes \<times> bytes) list) option" where
  "linear_replace field val [] = None"
| "linear_replace field val ((k, existing) # v) =
     (if k = field then Some (existing, (k, val) # v)
      else map_option (\<lambda>(old, v'). (old, (k, existing) # v')) (linear_replace field val v))"

fun hs_insert :: "bytes \<Rightarrow> bytes \<Rightarrow> hash_store \<Rightarrow> bytes option \<times> hash_store" where
  "hs_insert field val (Linear v) =
     (case linear_replace field val v of
        Some (old, v') \<Rightarrow> (Some old, Linear v')
      | None \<Rightarrow>
          if length v < HASH_LINEAR_THRESHOLD then (None, Linear (v @ [(field, val)]))
          else (None, Map (hm_put field val (fold (\<lambda>(k, x). hm_put k x) v []))))"
| "hs_insert field val (Map m) = (hm_get m field, Map (hm_put field val m))"

text \<open>\<open>get_mut\<close> followed by an assignment through the reference: \<open>None\<close> when there is no slot.\<close>

fun hs_assign :: "bytes \<Rightarrow> bytes \<Rightarrow> hash_store \<Rightarrow> hash_store option" where
  "hs_assign field val (Linear v) = map_option (\<lambda>(old, v'). Linear v') (linear_replace field val v)"
| "hs_assign field val (Map m) =
     (case hm_get m field of None \<Rightarrow> None | Some _ \<Rightarrow> Some (Map (hm_put field val m)))"

fun hs_remove :: "bytes \<Rightarrow> hash_store \<Rightarrow> bytes option \<times> hash_store" where
  "hs_remove field (Linear v) =
     (case position (\<lambda>p. fst p = field) v of
        Some pos \<Rightarrow> (Some (snd (v ! pos)), Linear (swap_remove pos v))
      | None \<Rightarrow> (None, Linear v))"
| "hs_remove field (Map m) = (hm_get m field, Map (hm_del field m))"

fun hs_len :: "hash_store \<Rightarrow> nat" where
  "hs_len (Linear v) = length v"
| "hs_len (Map m) = length m"

fun hs_contains_key :: "hash_store \<Rightarrow> bytes \<Rightarrow> bool" where
  "hs_contains_key (Linear v) field = list_ex (\<lambda>p. fst p = field) v"
| "hs_contains_key (Map m) field = (hm_get m field \<noteq> None)"

fun hs_keys :: "hash_store \<Rightarrow> bytes list" where
  "hs_keys (Linear v) = map fst v"
| "hs_keys (Map m) = map fst m"

fun hs_iter :: "hash_store \<Rightarrow> (bytes \<times> bytes) list" where
  "hs_iter (Linear v) = v"
| "hs_iter (Map m) = m"

text \<open>The invariant: fields are distinct, and a vector never exceeds the threshold.\<close>

fun hs_ok :: "hash_store \<Rightarrow> bool" where
  "hs_ok (Linear v) \<longleftrightarrow> distinct (map fst v) \<and> length v \<le> HASH_LINEAR_THRESHOLD"
| "hs_ok (Map m) \<longleftrightarrow> hm_ok m"

section \<open>The vector representation\<close>

lemma find_fst_map_of: "map_option snd (List.find (\<lambda>p. fst p = k) v) = map_of v k"
  by (induction v) auto

lemma linear_replace_None: "linear_replace f x v = None \<longleftrightarrow> f \<notin> fst ` set v"
  by (induction f x v rule: linear_replace.induct) auto

lemma linear_replace_Some:
  "linear_replace f x v = Some (old, v') \<Longrightarrow>
     map_of v f = Some old \<and> v' = AList.update f x v \<and> map fst v' = map fst v"
  by (induction f x v arbitrary: v' rule: linear_replace.induct)
    (auto split: if_splits)

lemma linear_put:
  "snd (hs_insert f x (Linear v)) =
     (if f \<in> fst ` set v \<or> length v < HASH_LINEAR_THRESHOLD then Linear (AList.update f x v)
      else Map (hm_put f x (fold (\<lambda>(k, x). hm_put k x) v [])))"
proof (cases "linear_replace f x v")
  case None
  then have nin: "f \<notin> fst ` set v" by (simp add: linear_replace_None)
  then have "AList.update f x v = v @ [(f, x)]" by (induction v) auto
  with None nin show ?thesis by simp
next
  case (Some p)
  obtain old v' where p: "p = (old, v')" by (cases p)
  from Some have "f \<in> fst ` set v" using linear_replace_None [of f x v] by auto
  with Some linear_replace_Some [of f x v old v'] show ?thesis by (simp add: p)
qed

lemma swap_remove_alist:
  assumes d: "distinct (map fst v)" and pos: "position (\<lambda>p. fst p = k) v = Some i"
  shows "distinct (map fst (swap_remove i v))"
    and "map_of (swap_remove i v) = (map_of v)(k := None)"
    and "length (swap_remove i v) = length v - 1"
proof -
  from position_SomeD [OF pos] have i: "i < length v" and ki: "fst (v ! i) = k" by auto
  have dv: "distinct v" using d by (simp add: distinct_map)
  have ms: "mset (swap_remove i v) = mset (remove1 (v ! i) v)"
    using mset_swap_remove [OF i] by simp
  have dr: "distinct (swap_remove i v)"
    using mset_eq_imp_distinct_iff [OF ms] dv by simp
  have set': "set (swap_remove i v) = set v - {v ! i}"
    using mset_eq_setD [OF ms] dv by simp
  show dk: "distinct (map fst (swap_remove i v))"
    using dr d unfolding distinct_map set' by (auto simp: inj_on_def)
  have sub: "(a, b) \<in> set (swap_remove i v) \<longleftrightarrow> (a, b) \<in> set v \<and> a \<noteq> k" for a b
  proof -
    have vi: "v ! i = (k, snd (v ! i))" using ki by (cases "v ! i") auto
    have "(k, snd (v ! i)) \<in> set v" using i vi by (metis nth_mem)
    with d have "(k, b) \<in> set v \<Longrightarrow> b = snd (v ! i)" by (metis eq_key_imp_eq_value)
    with vi show ?thesis unfolding set' by (metis DiffD1 DiffD2 DiffI fst_conv singletonD singletonI)
  qed
  show "map_of (swap_remove i v) = (map_of v)(k := None)"
  proof
    fix a
    have "map_of (swap_remove i v) a = Some b \<longleftrightarrow> ((map_of v)(k := None)) a = Some b" for b
      using dk d sub by (simp add: map_of_eq_Some_iff)
    then show "map_of (swap_remove i v) a = ((map_of v)(k := None)) a"
      by (metis option.exhaust)
  qed
  show "length (swap_remove i v) = length v - 1" by (simp add: swap_remove_def)
qed

section \<open>Both representations implement the map interface\<close>

lemma hs_get_iter: "hs_get hs = map_of (hs_iter hs)"
  by (cases hs) (auto simp: fun_eq_iff find_fst_map_of hm_get_def)

lemma hs_get_insert: "hs_ok hs \<Longrightarrow> hs_get (snd (hs_insert f x hs)) = (hs_get hs)(f \<mapsto> x)"
proof (cases hs)
  case (Linear v)
  have "hm_get (fold (\<lambda>(k, x). hm_put k x) v []) = map_of (rev v)"
    using hm.put_loop(2) [of "[]" v] by (simp add: fun_eq_iff map_add_def split: option.splits)
  moreover assume "hs_ok hs"
  then have "map_of (rev v) = map_of v"
    using Linear by (simp add: map_of_inject_set rev_map [symmetric])
  ultimately show ?thesis
    using Linear
    by (auto simp: hs_get_iter linear_put update_conv' fun_eq_iff hm_get_def hm_put_def
        simp del: hs_insert.simps)
qed (simp add: fun_eq_iff)

lemma hs_ok_insert: "hs_ok hs \<Longrightarrow> hs_ok (snd (hs_insert f x hs))"
proof (cases hs)
  case (Linear v)
  assume ok: "hs_ok hs"
  have len: "length (AList.update f x v) = (if f \<in> fst ` set v then length v else Suc (length v))"
    using arg_cong [OF AList.update_keys [of f x v], of length] by simp
  show ?thesis
    using ok Linear
    by (auto simp: linear_put distinct_update len hm.put_loop(1) image_iff simp del: hs_insert.simps)
qed auto

lemma hs_get_remove: "hs_ok hs \<Longrightarrow> hs_get (snd (hs_remove f hs)) = (hs_get hs)(f := None)"
proof (cases hs)
  case (Linear v)
  assume ok: "hs_ok hs"
  show ?thesis
  proof (cases "position (\<lambda>p. fst p = f) v")
    case None
    then have "f \<notin> fst ` set v" by (auto simp: position_None_iff)
    then have "map_of v f = None" by (simp add: map_of_eq_None_iff)
    then have "(map_of v)(f := None) = map_of v" by (auto simp: fun_eq_iff)
    then show ?thesis using Linear None by (simp add: hs_get_iter)
  next
    case (Some pos)
    with ok Linear swap_remove_alist [of v f pos] show ?thesis by (simp add: hs_get_iter)
  qed
qed (simp add: fun_eq_iff)

lemma hs_ok_remove: "hs_ok hs \<Longrightarrow> hs_ok (snd (hs_remove f hs))"
proof (cases hs)
  case (Linear v)
  assume "hs_ok hs"
  with Linear swap_remove_alist [of v f] show ?thesis by (auto split: option.splits)
qed auto

interpretation hs: kv_map hs_get "\<lambda>f x hs. snd (hs_insert f x hs)" "\<lambda>f hs. snd (hs_remove f hs)"
  hs_iter hs_ok
proof unfold_locales
  show "hs_ok m \<Longrightarrow> distinct (map fst (hs_iter m))" for m
    by (cases m) (auto simp: hm_ok_def)
qed (simp_all add: hs_get_insert hs_get_remove hs_ok_insert hs_ok_remove, simp add: hs_get_iter)

lemma hs_insert_old: "fst (hs_insert f x hs) = hs_get hs f"
proof (cases hs)
  case (Linear v)
  show ?thesis
  proof (cases "linear_replace f x v")
    case None
    then have "map_of v f = None" by (simp add: linear_replace_None map_of_eq_None_iff)
    with None Linear show ?thesis by (simp add: find_fst_map_of)
  next
    case (Some p)
    with Linear linear_replace_Some [of f x v] show ?thesis
      by (cases p) (auto simp: find_fst_map_of)
  qed
qed simp

lemma hs_remove_old: "hs_ok hs \<Longrightarrow> fst (hs_remove f hs) = hs_get hs f"
proof (cases hs)
  case (Linear v)
  assume ok: "hs_ok hs"
  show ?thesis
  proof (cases "position (\<lambda>p. fst p = f) v")
    case None
    then have "map_of v f = None" by (auto simp: position_None_iff map_of_eq_None_iff)
    with None Linear show ?thesis by (simp add: find_fst_map_of)
  next
    case (Some pos)
    from position_SomeD [OF Some] have "v ! pos \<in> set v" and "fst (v ! pos) = f" by auto
    then have "map_of v f = Some (snd (v ! pos))"
      using ok Linear by (auto simp: map_of_eq_Some_iff)
    with Some Linear show ?thesis by (simp add: find_fst_map_of)
  qed
qed simp

lemma hs_contains_key_iff: "hs_contains_key hs f \<longleftrightarrow> hs_get hs f \<noteq> None"
  by (cases hs) (auto simp: find_fst_map_of list_ex_iff map_of_eq_None_iff)

lemma hs_len_iter: "hs_len hs = length (hs_iter hs)"
  by (cases hs) auto

lemma hs_keys_iter: "hs_keys hs = map fst (hs_iter hs)"
  by (cases hs) auto

lemma hs_assign_eq:
  "hs_assign f x hs = (if hs_get hs f = None then None else Some (snd (hs_insert f x hs)))"
proof (cases hs)
  case (Linear v)
  then show ?thesis
    using linear_replace_None [of f x v]
    by (auto simp: find_fst_map_of map_of_eq_None_iff split: option.splits prod.splits)
next
  case (Map m)
  then show ?thesis by (auto split: option.splits)
qed

lemma hs_with_single [simp]: "hs_ok (hs_with_single f x)" "hs_get (hs_with_single f x) = [f \<mapsto> x]"
  "hs_len (hs_with_single f x) = 1" "hs_iter (hs_with_single f x) = [(f, x)]"
  by (auto simp: hs_with_single_def HASH_LINEAR_THRESHOLD_def fun_eq_iff)

section \<open>Properties\<close>

text \<open>A run of insertions and removals on a store, with the value each one returns, and the same run on a
  finite map.\<close>

datatype hs_op = HsInsert bytes bytes | HsRemove bytes

fun hs_run :: "hs_op list \<Rightarrow> hash_store \<Rightarrow> hash_store \<times> bytes option list" where
  "hs_run [] hs = (hs, [])"
| "hs_run (HsInsert f x # ops) hs =
     (case hs_run ops (snd (hs_insert f x hs)) of (hs', rs) \<Rightarrow> (hs', fst (hs_insert f x hs) # rs))"
| "hs_run (HsRemove f # ops) hs =
     (case hs_run ops (snd (hs_remove f hs)) of (hs', rs) \<Rightarrow> (hs', fst (hs_remove f hs) # rs))"

fun map_run :: "hs_op list \<Rightarrow> (bytes \<Rightarrow> bytes option) \<Rightarrow> (bytes \<Rightarrow> bytes option) \<times> bytes option list" where
  "map_run [] m = (m, [])"
| "map_run (HsInsert f x # ops) m = (case map_run ops (m(f \<mapsto> x)) of (m', rs) \<Rightarrow> (m', m f # rs))"
| "map_run (HsRemove f # ops) m = (case map_run ops (m(f := None)) of (m', rs) \<Rightarrow> (m', m f # rs))"

lemma hs_run_refines:
  "hs_ok hs \<Longrightarrow> hs_ok (fst (hs_run ops hs)) \<and> hs_get (fst (hs_run ops hs)) = fst (map_run ops (hs_get hs)) \<and>
     snd (hs_run ops hs) = snd (map_run ops (hs_get hs))"
proof (induction ops arbitrary: hs)
  case (Cons op ops)
  show ?case
  proof (cases op)
    case (HsInsert f x)
    with Cons.IH [OF hs_ok_insert [OF Cons.prems]] show ?thesis
      by (simp add: case_prod_beta hs_get_insert [OF Cons.prems] hs_insert_old fun_upd_def)
  next
    case (HsRemove f)
    with Cons.IH [OF hs_ok_remove [OF Cons.prems]] show ?thesis
      by (simp add: case_prod_beta hs_get_remove [OF Cons.prems] hs_remove_old [OF Cons.prems] fun_upd_def)
  qed
qed simp

text \<open>C11: Whatever insertions and removals are applied to a hash that starts with one field, across the switch
  from the linear to the map representation, the store answers like a finite map: the returned previous
  values, the lookups, the membership test, the size and the enumerated pairs all agree with it.\<close>

theorem hash_store_refines_map:
  assumes "hs = fst (hs_run ops (hs_with_single f v))" and "m = fst (map_run ops [f \<mapsto> v])"
  shows "snd (hs_run ops (hs_with_single f v)) = snd (map_run ops [f \<mapsto> v]) \<and> hs_get hs = m \<and>
    (\<forall>g. hs_contains_key hs g \<longleftrightarrow> m g \<noteq> None) \<and> hs_len hs = card (dom m) \<and>
    distinct (hs_keys hs) \<and> map_of (hs_iter hs) = m"
proof -
  have r: "hs_ok hs" "hs_get hs = m" "snd (hs_run ops (hs_with_single f v)) = snd (map_run ops [f \<mapsto> v])"
    using hs_run_refines [of "hs_with_single f v" ops] assms by auto
  then show ?thesis
    using hs.length_pairs [OF r(1)] hs.distinct_pairs [OF r(1)]
    by (simp add: hs_contains_key_iff hs_len_iter hs_keys_iter hs_get_iter [symmetric])
qed

theorem hash_store_refines_map_witness:
  "hs_get (fst (hs_run [HsInsert ''b'' ''2'', HsRemove ''a''] (hs_with_single ''a'' ''1''))) =
     fst (map_run [HsInsert ''b'' ''2'', HsRemove ''a''] [''a'' \<mapsto> ''1''])"
  using hash_store_refines_map [OF refl refl, of "[HsInsert ''b'' ''2'', HsRemove ''a'']" "''a''" "''1''"] by blast

end
