(* ===== verification/Decimal.thy ===== *)
theory Decimal
  imports Prelude
begin

text \<open>
  The decimal codecs of the cache: \<open>parse_i64_bytes\<close> and \<open>write_i64_bytes\<close> of
  \<open>src/muon_cache/store.rs\<close> (values of \<open>INCR\<close>), \<open>push_usize\<close>, \<open>push_i64\<close> and the other
  \<open>parse_i64_bytes\<close> of \<open>src/muon_cache/resp.rs\<close> (lengths and integers on the wire), against
  one reference: decimal notation as the standard library prints it (\<open>i64_to_string\<close>) and
  reads it (\<open>i64_from_str\<close>).
\<close>

named_theorems decimal_simps "rewriting of decimal digits"

section \<open>Reference: the standard library's decimal notation\<close>

definition is_digit :: "byte \<Rightarrow> bool" where
  "is_digit b \<longleftrightarrow> CHR ''0'' \<le> b \<and> b \<le> CHR ''9''"

definition digit_val :: "byte \<Rightarrow> nat" where
  "digit_val b = of_char b - 48"

definition digit_char :: "nat \<Rightarrow> byte" where
  "digit_char d = char_of (48 + d)"

fun dec_of_nat :: "nat \<Rightarrow> bytes" where
  "dec_of_nat n = (if n < 10 then [digit_char n] else dec_of_nat (n div 10) @ [digit_char (n mod 10)])"

declare dec_of_nat.simps [simp del]

definition i64_to_string :: "int \<Rightarrow> bytes" where
  "i64_to_string n = (if n < 0 then CHR ''-'' # dec_of_nat (nat (- n)) else dec_of_nat (nat n))"

definition nat_of_dec :: "bytes \<Rightarrow> nat" where
  "nat_of_dec ds = foldl (\<lambda>v b. 10 * v + digit_val b) 0 ds"

text \<open>\<open>str::parse::<i64>\<close>: an optional sign, at least one digit, and a value in range.\<close>

definition i64_from_str :: "bytes \<Rightarrow> int result" where
  "i64_from_str s =
     (let (neg, ds) = (case s of c # rest \<Rightarrow>
                          if c = CHR ''-'' then (True, rest)
                          else if c = CHR ''+'' then (False, rest) else (False, s)
                        | [] \<Rightarrow> (False, []));
          v = (if neg then - int (nat_of_dec ds) else int (nat_of_dec ds))
      in if ds \<noteq> [] \<and> list_all is_digit ds \<and> in_i64 v then Ok v else Err)"

section \<open>store.rs\<close>

fun parse_digits_loop :: "bytes \<Rightarrow> int \<Rightarrow> int result" where
  "parse_digits_loop [] v = Ok v"
| "parse_digits_loop (b # bs) v =
     (if b < CHR ''0'' \<or> b > CHR ''9'' then Err
      else let v' = v * 10 + (int (of_char b) - 48)
           in if v' > i64_max + 1 then Err else parse_digits_loop bs v')"

definition parse_i64_bytes :: "bytes \<Rightarrow> int result" where
  "parse_i64_bytes input =
     (case input of [] \<Rightarrow> Err
      | c # rest \<Rightarrow>
          let (sign, ds) = (if c = CHR ''-'' then (- 1, rest)
                            else if c = CHR ''+'' then (1, rest) else (1, input))
          in if ds = [] then Err
             else (case parse_digits_loop ds 0 of Err \<Rightarrow> Err
                   | Ok v \<Rightarrow> let v' = v * sign
                            in if v' < i64_min \<or> v' > i64_max then Err else Ok v'))"

text \<open>The digit loop of \<open>write_i64_bytes\<close> fills a 20-byte buffer from its end; \<open>acc\<close> is the
  filled part \<open>tmp[idx..]\<close>.\<close>

fun write_digits_loop :: "nat \<Rightarrow> bytes \<Rightarrow> bytes" where
  "write_digits_loop v acc =
     (let acc' = digit_char (v mod 10) # acc
      in if v div 10 = 0 then acc' else write_digits_loop (v div 10) acc')"

declare write_digits_loop.simps [simp del]

definition write_i64_bytes :: "int \<Rightarrow> bytes" where
  "write_i64_bytes n =
     (let negative = n < 0; v = (if negative then - n else n); tmp = write_digits_loop (nat v) []
      in if negative then CHR ''-'' # tmp else tmp)"

section \<open>resp.rs\<close>

fun push_digits_loop :: "nat \<Rightarrow> bytes \<Rightarrow> bytes" where
  "push_digits_loop n acc =
     (if n > 0 then push_digits_loop (n div 10) (digit_char (n mod 10) # acc) else acc)"

declare push_digits_loop.simps [simp del]

definition push_usize :: "bytes \<Rightarrow> nat \<Rightarrow> bytes" where
  "push_usize buf n = (if n = 0 then buf @ ''0'' else buf @ push_digits_loop n [])"

definition push_i64 :: "bytes \<Rightarrow> int \<Rightarrow> bytes" where
  "push_i64 buf n =
     (if n = 0 then buf @ ''0''
      else if n < 0 then buf @ ''-'' @ push_digits_loop (nat (- n)) []
      else buf @ push_digits_loop (nat n) [])"

fun resp_parse_loop :: "bytes \<Rightarrow> int \<Rightarrow> int option" where
  "resp_parse_loop [] v = Some v"
| "resp_parse_loop (c # cs) v =
     (if \<not> is_digit c then None
      else if \<not> in_i64 (v * 10) then None
      else if \<not> in_i64 (v * 10 + (int (of_char c) - 48)) then None
      else resp_parse_loop cs (v * 10 + (int (of_char c) - 48)))"

definition resp_parse_i64_bytes :: "bytes \<Rightarrow> int option" where
  "resp_parse_i64_bytes bs =
     (case bs of [] \<Rightarrow> None
      | c # rest \<Rightarrow>
          let negative = (c = CHR ''-''); ds = (if negative then rest else bs)
          in if ds = [] then None
             else (case resp_parse_loop ds 0 of None \<Rightarrow> None
                   | Some v \<Rightarrow> Some (if negative then - v else v)))"

text \<open>\<open>int_to_decimal_bytes\<close> of \<open>src/api/mod.rs\<close> writes the digits from the end of its buffer.\<close>

fun digits_back :: "nat \<Rightarrow> bytes \<Rightarrow> bytes" where
  "digits_back n out = (if n = 0 then out else digits_back (n div 10) (digit_char (n mod 10) # out))"

declare digits_back.simps [simp del]

definition int_to_decimal_bytes :: "int \<Rightarrow> bytes" where
  "int_to_decimal_bytes n =
     (if n = 0 then ''0''
      else let buf = digits_back (nat (if n < 0 then - n else n)) [] in if n < 0 then CHR ''-'' # buf else buf)"

section \<open>Digits\<close>

lemma is_digit_iff: "is_digit b \<longleftrightarrow> 48 \<le> (of_char b :: nat) \<and> of_char b \<le> (57 :: nat)"
  by (simp add: is_digit_def less_eq_char_def)

lemma not_digit_iff: "b < CHR ''0'' \<or> b > CHR ''9'' \<longleftrightarrow> \<not> is_digit b"
  by (auto simp: is_digit_def)

lemma digit_int: "is_digit b \<Longrightarrow> int (of_char b) - 48 = int (digit_val b)"
  by (simp add: is_digit_iff digit_val_def)

lemma is_digit_digit_char [simp, decimal_simps]: "d < 10 \<Longrightarrow> is_digit (digit_char d)"
  by (simp add: is_digit_iff digit_char_def)

lemma digit_val_digit_char [simp, decimal_simps]: "d < 10 \<Longrightarrow> digit_val (digit_char d) = d"
  by (simp add: digit_val_def digit_char_def)

lemma is_digit_not_sign: "is_digit b \<Longrightarrow> b \<noteq> CHR ''-'' \<and> b \<noteq> CHR ''+''"
  by (auto simp: is_digit_iff)

lemma nat_of_dec_snoc [simp]: "nat_of_dec (ds @ [b]) = 10 * nat_of_dec ds + digit_val b"
  by (simp add: nat_of_dec_def)

lemma nat_of_dec_Nil [simp]: "nat_of_dec [] = 0"
  by (simp add: nat_of_dec_def)

lemma nat_of_dec_dec_of_nat [simp]: "nat_of_dec (dec_of_nat n) = n"
proof (induction n rule: dec_of_nat.induct)
  case (1 n)
  show ?case
  proof (cases "n < 10")
    case True
    then show ?thesis by (simp add: dec_of_nat.simps [of n] nat_of_dec_def)
  next
    case False
    with "1.IH" show ?thesis by (simp add: dec_of_nat.simps [of n])
  qed
qed

lemma digits_dec_of_nat [simp]: "list_all is_digit (dec_of_nat n)"
  by (induction n rule: dec_of_nat.induct, subst dec_of_nat.simps) auto

lemma dec_of_nat_nonempty [simp]: "dec_of_nat n \<noteq> []"
  by (subst dec_of_nat.simps) simp

lemma dec_of_nat_hd: "is_digit (hd (dec_of_nat n))"
  using digits_dec_of_nat [of n] dec_of_nat_nonempty [of n]
  by (cases "dec_of_nat n") (auto simp del: digits_dec_of_nat dec_of_nat_nonempty)

lemma length_dec_of_nat: "n < 10 ^ Suc k \<Longrightarrow> length (dec_of_nat n) \<le> Suc k"
proof (induction k arbitrary: n)
  case 0
  then show ?case by (simp add: dec_of_nat.simps [of n])
next
  case (Suc k)
  show ?case
  proof (cases "n < 10")
    case True
    then show ?thesis by (simp add: dec_of_nat.simps [of n])
  next
    case False
    from Suc.prems have "n div 10 < 10 ^ Suc k" by simp
    from Suc.IH [OF this] False show ?thesis by (simp add: dec_of_nat.simps [of n])
  qed
qed

section \<open>The writers agree with the reference\<close>

lemma write_digits_loop_eq: "write_digits_loop v acc = dec_of_nat v @ acc"
proof (induction v acc rule: write_digits_loop.induct)
  case (1 v acc)
  show ?case
  proof (cases "v < 10")
    case True
    then show ?thesis
      by (simp add: write_digits_loop.simps [of v acc] dec_of_nat.simps [of v])
  next
    case False
    with "1.IH" [OF refl] show ?thesis
      by (simp add: write_digits_loop.simps [of v acc] dec_of_nat.simps [of v] Let_def)
  qed
qed

lemma push_digits_loop_eq: "n > 0 \<Longrightarrow> push_digits_loop n acc = dec_of_nat n @ acc"
proof (induction n acc rule: push_digits_loop.induct)
  case (1 n acc)
  show ?case
  proof (cases "n < 10")
    case True
    with "1.prems" show ?thesis
      by (simp add: push_digits_loop.simps [of n acc] push_digits_loop.simps [of 0]
          dec_of_nat.simps [of n])
  next
    case False
    with "1.IH" show ?thesis
      by (simp add: push_digits_loop.simps [of n acc] dec_of_nat.simps [of n])
  qed
qed

lemma write_i64_bytes_eq: "write_i64_bytes n = i64_to_string n"
  by (simp add: write_i64_bytes_def i64_to_string_def write_digits_loop_eq)

lemma digit_char_0: "digit_char 0 = CHR ''0''"
  by code_simp

lemma push_usize_eq: "push_usize buf n = buf @ dec_of_nat n"
  by (simp add: push_usize_def push_digits_loop_eq dec_of_nat.simps [of 0] digit_char_0)

lemma push_i64_eq: "push_i64 buf n = buf @ i64_to_string n"
  by (simp add: push_i64_def i64_to_string_def push_digits_loop_eq dec_of_nat.simps [of 0]
      digit_char_0)

section \<open>The readers agree with the reference\<close>

lemma foldl_dec_ge: "v \<le> foldl (\<lambda>v b. 10 * v + digit_val b) v ds"
proof (induction ds arbitrary: v)
  case (Cons b ds)
  have "v \<le> 10 * v + digit_val b" by simp
  also have "\<dots> \<le> foldl (\<lambda>v b. 10 * v + digit_val b) (10 * v + digit_val b) ds" by (rule Cons.IH)
  finally show ?case by simp
qed simp

lemma parse_digits_loop_eq:
  "0 \<le> v \<Longrightarrow> parse_digits_loop ds v =
     (let r = foldl (\<lambda>v b. 10 * v + digit_val b) (nat v) ds
      in if list_all is_digit ds \<and> (ds = [] \<or> int r \<le> i64_max + 1) then Ok (if ds = [] then v else int r)
         else Err)"
proof (induction ds arbitrary: v)
  case (Cons b ds)
  show ?case
  proof (cases "is_digit b")
    case False
    then show ?thesis by (auto simp: not_digit_iff)
  next
    case True
    let ?v = "v * 10 + (int (of_char b) - 48)"
    have v: "?v = 10 * v + int (digit_val b)" by (simp add: digit_int [OF True])
    have nv: "nat ?v = 10 * nat v + digit_val b" using Cons.prems by (simp add: v nat_add_distrib nat_mult_distrib)
    have "0 \<le> ?v" using Cons.prems by (simp add: v)
    note IH = Cons.IH [OF this]
    have ge: "?v \<le> int (foldl (\<lambda>v b. 10 * v + digit_val b) (nat ?v) ds)"
      using foldl_dec_ge [of "nat ?v" ds] \<open>0 \<le> ?v\<close> by linarith
    show ?thesis
    proof (cases "?v > i64_max + 1")
      case big: True
      with ge show ?thesis using True by (simp add: not_digit_iff Let_def nv [symmetric])
    next
      case small: False
      have "parse_digits_loop (b # ds) v = parse_digits_loop ds ?v"
        using True small by (simp add: not_digit_iff Let_def)
      also note IH
      finally show ?thesis using True small \<open>0 \<le> ?v\<close>
        by (auto simp: Let_def nv [symmetric])
    qed
  qed
qed simp

lemma resp_parse_loop_eq:
  "0 \<le> v \<Longrightarrow> in_i64 v \<Longrightarrow> resp_parse_loop ds v =
     (let r = foldl (\<lambda>v b. 10 * v + digit_val b) (nat v) ds
      in if list_all is_digit ds \<and> in_i64 (int r) then Some (int r) else None)"
proof (induction ds arbitrary: v)
  case (Cons b ds)
  show ?case
  proof (cases "is_digit b")
    case True
    let ?v = "v * 10 + (int (of_char b) - 48)"
    have v: "?v = 10 * v + int (digit_val b)" by (simp add: digit_int [OF True])
    have nv: "nat ?v = 10 * nat v + digit_val b"
      using Cons.prems by (simp add: v nat_add_distrib nat_mult_distrib)
    have pos: "0 \<le> ?v" using Cons.prems by (simp add: v)
    have ge: "?v \<le> int (foldl (\<lambda>v b. 10 * v + digit_val b) (nat ?v) ds)"
      using foldl_dec_ge [of "nat ?v" ds] pos by linarith
    show ?thesis
    proof (cases "in_i64 ?v")
      case ok: True
      then have "in_i64 (v * 10)" using Cons.prems(1) by (auto simp: v in_i64_iff)
      then have "resp_parse_loop (b # ds) v = resp_parse_loop ds ?v" using True ok by simp
      also note Cons.IH [OF pos ok]
      finally show ?thesis using True by (simp add: Let_def nv [symmetric])
    next
      case big: False
      with ge pos have "\<not> in_i64 (int (foldl (\<lambda>v b. 10 * v + digit_val b) (nat ?v) ds))"
        by (auto simp: in_i64_iff)
      with big True show ?thesis by (simp add: Let_def nv [symmetric])
    qed
  qed simp
qed simp

lemma parse_i64_bytes_eq: "parse_i64_bytes s = i64_from_str s"
proof (cases s)
  case (Cons c rest)
  have core: "ds \<noteq> [] \<Longrightarrow> parse_digits_loop ds 0 =
      (if list_all is_digit ds \<and> int (nat_of_dec ds) \<le> i64_max + 1
       then Ok (int (nat_of_dec ds)) else Err)" for ds
    using parse_digits_loop_eq [of 0 ds] by (simp add: nat_of_dec_def Let_def)
  have num: "(case parse_digits_loop ds 0 of Err \<Rightarrow> Err
       | Ok v \<Rightarrow> let v' = v * sg in if v' < i64_min \<or> v' > i64_max then Err else Ok v') =
      (let v = sg * int (nat_of_dec ds)
       in if list_all is_digit ds \<and> in_i64 v then Ok v else Err)"
    if "ds \<noteq> []" and "sg = 1 \<or> sg = - 1" for ds sg
    using that(2) unfolding core [OF that(1)] Let_def in_i64_iff i64_bounds_eval
    by (elim disjE) (simp_all add: not_less)
  consider "c = CHR ''-''" | "c = CHR ''+''" | "c \<noteq> CHR ''-''" "c \<noteq> CHR ''+''" by blast
  then show ?thesis
  proof cases
    case 1
    then show ?thesis
      using num [of rest "- 1"] by (simp add: Cons parse_i64_bytes_def i64_from_str_def Let_def)
  next
    case 2
    then show ?thesis
      using num [of rest 1] by (simp add: Cons parse_i64_bytes_def i64_from_str_def Let_def)
  next
    case 3
    then show ?thesis
      using num [of "c # rest" 1]
      by (simp add: Cons parse_i64_bytes_def i64_from_str_def Let_def del: parse_digits_loop.simps)
  qed
qed (simp add: parse_i64_bytes_def i64_from_str_def)

lemma resp_parse_i64_bytes_eq:
  "resp_parse_i64_bytes bs =
     (let neg = (bs \<noteq> [] \<and> hd bs = CHR ''-''); ds = (if neg then tl bs else bs)
      in if ds \<noteq> [] \<and> list_all is_digit ds \<and> int (nat_of_dec ds) \<le> i64_max
         then Some (if neg then - int (nat_of_dec ds) else int (nat_of_dec ds)) else None)"
proof (cases bs)
  case (Cons c rest)
  have core: "resp_parse_loop ds 0 =
      (if list_all is_digit ds \<and> in_i64 (int (nat_of_dec ds))
       then Some (int (nat_of_dec ds)) else None)" for ds
    using resp_parse_loop_eq [of 0 ds] by (simp add: nat_of_dec_def Let_def in_i64_iff)
  show ?thesis
    by (auto simp: Cons resp_parse_i64_bytes_def core Let_def in_i64_iff i64_bounds_eval)
qed (simp add: resp_parse_i64_bytes_def)

lemma i64_to_string_cases:
  "i64_to_string n = (if n < 0 then CHR ''-'' # dec_of_nat (nat (- n)) else dec_of_nat (nat n))"
  by (simp add: i64_to_string_def)

lemma i64_from_str_to_string: "in_i64 n \<Longrightarrow> i64_from_str (i64_to_string n) = Ok n"
proof (cases "n < 0")
  case True
  assume "in_i64 n"
  with True show ?thesis by (simp add: i64_from_str_def i64_to_string_def)
next
  case False
  assume n: "in_i64 n"
  obtain c ds where ds: "dec_of_nat (nat n) = c # ds" and c: "is_digit c"
    using dec_of_nat_hd [of "nat n"] by (cases "dec_of_nat (nat n)") auto
  have dg: "list_all is_digit (c # ds)" using digits_dec_of_nat [of "nat n"] by (simp add: ds)
  have val: "nat_of_dec (c # ds) = nat n" using nat_of_dec_dec_of_nat [of "nat n"] by (simp add: ds)
  show ?thesis using is_digit_not_sign [OF c] dg val n False
    by (simp add: i64_from_str_def i64_to_string_def ds)
qed

lemma resp_parse_push_i64:
  assumes "in_i64 n" and "n \<noteq> i64_min"
  shows "resp_parse_i64_bytes (i64_to_string n) = Some n"
proof (cases "n < 0")
  case True
  with assms show ?thesis
    by (auto simp: resp_parse_i64_bytes_eq i64_to_string_def in_i64_iff i64_bounds_eval Let_def)
next
  case False
  obtain c ds where ds: "dec_of_nat (nat n) = c # ds" and c: "is_digit c"
    using dec_of_nat_hd [of "nat n"] by (cases "dec_of_nat (nat n)") auto
  have dg: "list_all is_digit (c # ds)" using digits_dec_of_nat [of "nat n"] by (simp add: ds)
  have val: "nat_of_dec (c # ds) = nat n" using nat_of_dec_dec_of_nat [of "nat n"] by (simp add: ds)
  show ?thesis using is_digit_not_sign [OF c] dg val assms False
    by (auto simp: resp_parse_i64_bytes_eq i64_to_string_def ds in_i64_iff i64_bounds_eval Let_def)
qed

lemma resp_parse_dec_of_nat:
  assumes "int n \<le> i64_max"
  shows "resp_parse_i64_bytes (dec_of_nat n) = Some (int n)"
proof -
  have "in_i64 (int n)" "int n \<noteq> i64_min" using assms by (auto simp: in_i64_iff i64_bounds_eval)
  from resp_parse_push_i64 [OF this] show ?thesis by (simp add: i64_to_string_def)
qed

lemma length_i64_to_string: "in_i64 n \<Longrightarrow> length (i64_to_string n) \<le> 20"
proof -
  assume n: "in_i64 n"
  have "nat n < 10 ^ Suc 18" "nat (- n) < 10 ^ Suc 18" using n by (auto simp: in_i64_iff nat_less_iff)
  from this [THEN length_dec_of_nat] show ?thesis by (simp add: i64_to_string_def)
qed

text \<open>What a signed decimal number denotes.\<close>

definition signed_decimal :: "bytes \<Rightarrow> bytes \<Rightarrow> int \<Rightarrow> bool" where
  "signed_decimal sign ds n \<longleftrightarrow> ds \<noteq> [] \<and> list_all is_digit ds \<and>
     n = (if sign = ''-'' then - int (nat_of_dec ds) else int (nat_of_dec ds)) \<and> in_i64 n"

lemma i64_from_str_signs:
  "i64_from_str (CHR ''-'' # ds) =
     (if ds \<noteq> [] \<and> list_all is_digit ds \<and> in_i64 (- int (nat_of_dec ds)) then Ok (- int (nat_of_dec ds)) else Err)"
  "i64_from_str (CHR ''+'' # ds) =
     (if ds \<noteq> [] \<and> list_all is_digit ds \<and> in_i64 (int (nat_of_dec ds)) then Ok (int (nat_of_dec ds)) else Err)"
  "(\<And>rest. ds \<noteq> CHR ''-'' # rest) \<Longrightarrow> (\<And>rest. ds \<noteq> CHR ''+'' # rest) \<Longrightarrow> i64_from_str ds =
     (if ds \<noteq> [] \<and> list_all is_digit ds \<and> in_i64 (int (nat_of_dec ds)) then Ok (int (nat_of_dec ds)) else Err)"
  by (simp_all add: i64_from_str_def Let_def split: list.split)

lemma i64_from_str_OkD:
  assumes "i64_from_str s = Ok n"
  shows "\<exists>sign ds. s = sign @ ds \<and> sign \<in> {[], ''+'', ''-''} \<and> signed_decimal sign ds n"
proof -
  consider (minus) ds where "s = CHR ''-'' # ds" | (plus) ds where "s = CHR ''+'' # ds"
    | (bare) "\<And>rest. s \<noteq> CHR ''-'' # rest" "\<And>rest. s \<noteq> CHR ''+'' # rest" by blast
  then show ?thesis
  proof cases
    case minus
    with assms have "signed_decimal ''-'' ds n"
      by (simp add: i64_from_str_signs signed_decimal_def split: if_splits)
    with minus show ?thesis by (intro exI [of _ "''-''"] exI [of _ ds]) simp
  next
    case plus
    with assms have "signed_decimal ''+'' ds n"
      by (simp add: i64_from_str_signs signed_decimal_def split: if_splits)
    with plus show ?thesis by (intro exI [of _ "''+''"] exI [of _ ds]) simp
  next
    case bare
    with assms have "signed_decimal [] s n"
      by (simp add: i64_from_str_signs signed_decimal_def split: if_splits)
    then show ?thesis by (intro exI [of _ "[]"] exI [of _ s]) simp
  qed
qed

lemma i64_from_str_signed:
  assumes "sign = [] \<or> sign = ''+'' \<or> sign = ''-''" and d: "signed_decimal sign ds n"
  shows "i64_from_str (sign @ ds) = Ok n"
proof -
  have "ds \<noteq> CHR ''-'' # rest \<and> ds \<noteq> CHR ''+'' # rest" for rest
    using d is_digit_not_sign by (cases ds) (auto simp: signed_decimal_def)
  with assms show ?thesis by (elim disjE) (auto simp: i64_from_str_signs signed_decimal_def)
qed

section \<open>Properties\<close>

text \<open>Writing an \<open>i64\<close> as the store does and parsing it back gives the number, and the text fits the
  20-byte buffer of \<open>write_i64_bytes\<close>, so the buffer index never goes below zero.\<close>

theorem decimal_roundtrip:
  assumes "in_i64 n"
  shows "parse_i64_bytes (write_i64_bytes n) = Ok n \<and> length (write_i64_bytes n) \<le> 20"
  using assms by (simp add: parse_i64_bytes_eq write_i64_bytes_eq i64_from_str_to_string length_i64_to_string)

theorem decimal_roundtrip_witness:
  "parse_i64_bytes (write_i64_bytes (- 9223372036854775808)) = Ok (- 9223372036854775808) \<and>
   length (write_i64_bytes (- 9223372036854775808)) \<le> 20"
  using decimal_roundtrip [of "- 9223372036854775808"] by (simp add: in_i64_iff)

text \<open>The store's hand-written parser accepts exactly the texts that are an optional sign and at least
  one digit with a value in the \<open>i64\<close> range, and returns that value.\<close>

theorem parse_i64_bytes_spec:
  "parse_i64_bytes s = Ok n \<longleftrightarrow>
     (\<exists>sign ds. s = sign @ ds \<and> sign \<in> {[], ''+'', ''-''} \<and> signed_decimal sign ds n)"
proof
  assume "parse_i64_bytes s = Ok n"
  then have "i64_from_str s = Ok n" by (simp add: parse_i64_bytes_eq)
  from i64_from_str_OkD [OF this]
  show "\<exists>sign ds. s = sign @ ds \<and> sign \<in> {[], ''+'', ''-''} \<and> signed_decimal sign ds n" .
next
  assume "\<exists>sign ds. s = sign @ ds \<and> sign \<in> {[], ''+'', ''-''} \<and> signed_decimal sign ds n"
  then show "parse_i64_bytes s = Ok n" by (auto simp: parse_i64_bytes_eq intro: i64_from_str_signed)
qed

text \<open>The protocol's integer parser reads back every \<open>i64\<close> the encoder writes except the smallest one,
  \<open>-2^63\<close>, which it rejects: the digits are accumulated as a positive number before the sign is applied.\<close>

theorem resp_decimal_roundtrip:
  assumes "in_i64 n"
  shows "resp_parse_i64_bytes (push_i64 [] n) = (if n = i64_min then None else Some n)"
proof (cases "n = i64_min")
  case True
  have "resp_parse_i64_bytes (i64_to_string i64_min) = None"
    by (simp add: resp_parse_i64_bytes_eq i64_to_string_def i64_bounds_eval Let_def)
  with True show ?thesis by (simp add: push_i64_eq)
next
  case False
  with resp_parse_push_i64 [OF assms] show ?thesis by (simp add: push_i64_eq)
qed

theorem resp_decimal_roundtrip_witness:
  "resp_parse_i64_bytes (push_i64 [] (- 9223372036854775808)) = None \<and> resp_parse_i64_bytes (push_i64 [] 42) = Some 42"
  using resp_decimal_roundtrip [of "- 9223372036854775808"] resp_decimal_roundtrip [of 42]
  by (simp add: in_i64_iff i64_bounds_eval)

end
