(* ===== verification/Shard.thy ===== *)
theory Shard
  imports Hash_Store Decimal
begin

text \<open>
  The data of one storage bucket of \<open>src/muon_cache/store.rs\<close>: the value types, an entry with
  its optional expiry time, the bucket (\<open>Shard\<close>) as a record around a hash map, and the lazy
  expiry every command starts with. The clock (\<open>now_ms\<close>) is an argument of the operations; one
  operation sees one reading of it.

  \<open>key_local\<close> is the contract between a bucket and its clients: an operation on a key reads and
  writes the cell of that key only, and its effect on the cell and its result are given by a
  function on cells, the operation's specification.
\<close>

named_theorems shard_simps "unfolding of the bucket operations and their specifications"

section \<open>Floating-point scores\<close>

text \<open>An \<open>f64\<close> is its bit pattern. The magnitude of a non-NaN pattern orders the numbers of one
  sign, so the comparison of two scores is the comparison of signed magnitudes (both zeros have
  magnitude 0); a magnitude beyond that of infinity is a NaN.\<close>

type_synonym f64 = "64 word"

datatype ordering = Less | Equal | Greater

definition f64_magnitude :: "f64 \<Rightarrow> nat" where
  "f64_magnitude w = unat w mod 2 ^ 63"

definition f64_is_nan :: "f64 \<Rightarrow> bool" where
  "f64_is_nan w \<longleftrightarrow> f64_magnitude w > 0x7FF0000000000000"

definition f64_key :: "f64 \<Rightarrow> int" where
  "f64_key w = (if unat w < 2 ^ 63 then int (f64_magnitude w) else - int (f64_magnitude w))"

definition cmp_of :: "'a::linorder \<Rightarrow> 'a \<Rightarrow> ordering" where
  "cmp_of a b = (if a < b then Less else if a = b then Equal else Greater)"

definition f64_partial_cmp :: "f64 \<Rightarrow> f64 \<Rightarrow> ordering option" where
  "f64_partial_cmp a b =
     (if f64_is_nan a \<or> f64_is_nan b then None else Some (cmp_of (f64_key a) (f64_key b)))"

section \<open>Values, entries, buckets\<close>

type_synonym stream_items = "(bytes \<times> (bytes \<times> bytes) list) list"

datatype val =
    String bytes
  | Int64 int
  | List "bytes list"
  | Set "bytes list"
  | Hash hash_store
  | ZSet "(bytes, f64) hashmap"
  | Stream stream_items

record entry =
  e_value :: val
  expires_at :: "u64 option"

record shard =
  data :: "(bytes, entry) hashmap"

definition shard_default :: shard where
  "shard_default = \<lparr>data = []\<rparr>"

abbreviation fresh :: "val \<Rightarrow> entry" where
  "fresh v \<equiv> \<lparr>e_value = v, expires_at = None\<rparr>"

definition shard_get :: "shard \<Rightarrow> bytes \<Rightarrow> entry option" where
  "shard_get s k = hm_get (data s) k"

text \<open>\<open>self.data.insert(key, entry)\<close>, and the assignment through \<open>get_mut(key)\<close>.\<close>

definition shard_put :: "bytes \<Rightarrow> entry \<Rightarrow> shard \<Rightarrow> shard" where
  "shard_put k e s = s\<lparr>data := hm_put k e (data s)\<rparr>"

definition sh_remove :: "bytes \<Rightarrow> shard \<Rightarrow> shard \<times> bool" where
  "sh_remove k s = (s\<lparr>data := hm_del k (data s)\<rparr>, hm_get (data s) k \<noteq> None)"

definition expired :: "u64 \<Rightarrow> entry \<Rightarrow> bool" where
  "expired now e = (case expires_at e of Some ts \<Rightarrow> ts \<le> now | None \<Rightarrow> False)"

definition sh_is_expired :: "u64 \<Rightarrow> bytes \<Rightarrow> shard \<Rightarrow> bool" where
  "sh_is_expired now k s = (case shard_get s k of Some e \<Rightarrow> expired now e | None \<Rightarrow> False)"

text \<open>The idiom \<open>if self.is_expired(key) { self.remove(key); }\<close>.\<close>

definition expire_key :: "u64 \<Rightarrow> bytes \<Rightarrow> shard \<Rightarrow> shard" where
  "expire_key now k s = (if sh_is_expired now k s then fst (sh_remove k s) else s)"

section \<open>Well-formed buckets\<close>

fun value_ok :: "val \<Rightarrow> bool" where
  "value_ok (String b) = True"
| "value_ok (Int64 n) = in_i64 n"
| "value_ok (List l) = (l \<noteq> [])"
| "value_ok (Set s) = (distinct s \<and> s \<noteq> [])"
| "value_ok (Hash h) = (hs_ok h \<and> hs_len h \<noteq> 0)"
| "value_ok (ZSet z) = (hm_ok z \<and> z \<noteq> [])"
| "value_ok (Stream items) = True"

fun cell_ok :: "entry option \<Rightarrow> bool" where
  "cell_ok None = True"
| "cell_ok (Some e) = value_ok (e_value e)"

definition shard_ok :: "shard \<Rightarrow> bool" where
  "shard_ok s \<longleftrightarrow> hm_ok (data s) \<and> (\<forall>k. cell_ok (shard_get s k))"

definition live :: "u64 \<Rightarrow> entry option \<Rightarrow> entry option" where
  "live now c = (case c of Some e \<Rightarrow> if expired now e then None else Some e | None \<Rightarrow> None)"

definition key_local ::
  "bytes \<Rightarrow> (shard \<Rightarrow> shard \<times> 'r) \<Rightarrow> (entry option \<Rightarrow> entry option \<times> 'r) \<Rightarrow> bool" where
  "key_local k f g \<longleftrightarrow> (\<forall>s. shard_ok s \<longrightarrow>
     shard_ok (fst (f s)) \<and>
     shard_get (fst (f s)) = (shard_get s)(k := fst (g (shard_get s k))) \<and>
     snd (f s) = snd (g (shard_get s k)))"

section \<open>Times\<close>

lemma sint_small:
  fixes w :: u64
  assumes "unat w < 2 ^ 63"
  shows "sint w = int (unat w)"
proof -
  have "nat (uint w) < nat (2 ^ 63)" using assms by (simp add: nat_power_eq)
  then have "uint w < 2 ^ 63" by (subst (asm) nat_less_eq_zless) simp_all
  then have "signed_take_bit 63 (uint w) = uint w" by (intro signed_take_bit_int_eq_self order_trans [OF _ uint_nonnegative]) simp_all
  moreover have "sint w = signed_take_bit 63 (uint w)" unfolding sint_uint by simp
  ultimately show ?thesis by simp
qed

lemma u64_later:
  fixes now ttl :: u64
  assumes "0 < ttl" and "unat now + unat ttl < 2 ^ 64"
  shows "\<not> now + ttl \<le> now"
proof -
  have "unat (now + ttl) = unat now + unat ttl" using assms by (simp add: unat_plus_if_size word_size)
  moreover have "0 < unat ttl" using assms(1) by (simp add: unat_gt_0 word_gt_0)
  ultimately show ?thesis by (simp add: word_le_nat_alt)
qed

section \<open>Reads after writes\<close>

lemma shard_get_put [simp, shard_simps]: "shard_get (shard_put k e s) = (shard_get s)(k \<mapsto> e)"
  by (auto simp: shard_get_def shard_put_def fun_eq_iff)

lemma shard_get_remove [simp, shard_simps]:
  "shard_get (fst (sh_remove k s)) = (shard_get s)(k := None)"
  by (auto simp: shard_get_def sh_remove_def fun_eq_iff)

lemma snd_sh_remove [simp, shard_simps]: "snd (sh_remove k s) = (shard_get s k \<noteq> None)"
  by (simp add: sh_remove_def shard_get_def)

lemma hm_ok_put_shard [simp]: "hm_ok (data s) \<Longrightarrow> hm_ok (data (shard_put k e s))"
  by (simp add: shard_put_def)

lemma hm_ok_remove_shard [simp]: "hm_ok (data s) \<Longrightarrow> hm_ok (data (fst (sh_remove k s)))"
  by (simp add: sh_remove_def)

lemma live_None [simp]: "live now None = None"
  by (simp add: live_def)

lemma update_value_same: "e_value e = v \<Longrightarrow> e\<lparr>e_value := v\<rparr> = e"
  by (cases e) simp

lemma live_Some_if [simp]:
  "expired now e \<Longrightarrow> live now (Some e) = None" "\<not> expired now e \<Longrightarrow> live now (Some e) = Some e"
  by (simp_all add: live_def)

lemma live_NoneD: "live now c = None \<Longrightarrow> c = None \<or> (\<exists>e. c = Some e \<and> expired now e)"
  by (auto simp: live_def split: option.splits if_splits)

lemma live_cases: "live now c = None \<or> live now c = c"
  by (auto simp: live_def split: option.splits)

lemma live_SomeD: "live now c = Some e \<Longrightarrow> c = Some e \<and> \<not> expired now e"
  by (auto simp: live_def split: option.splits if_splits)

lemma cell_ok_live [simp, intro]: "cell_ok c \<Longrightarrow> cell_ok (live now c)"
  by (auto simp: live_def split: option.splits)

lemma expired_fresh [simp]: "\<not> expired now (fresh v)"
  by (simp add: expired_def)

lemma live_fresh [simp]: "live now (Some (fresh v)) = Some (fresh v)"
  by (simp add: live_def)

lemma shard_get_expire [simp, shard_simps]:
  "shard_get (expire_key now k s) = (shard_get s)(k := live now (shard_get s k))"
  by (auto simp: expire_key_def sh_is_expired_def live_def fun_eq_iff split: option.splits)

lemma hm_ok_expire [simp]: "hm_ok (data s) \<Longrightarrow> hm_ok (data (expire_key now k s))"
  by (simp add: expire_key_def)

lemma shard_ok_default [simp]: "shard_ok shard_default"
  by (simp add: shard_ok_def shard_default_def shard_get_def)

lemma shard_get_default [simp]: "shard_get shard_default k = None"
  by (simp add: shard_default_def shard_get_def)

lemma shard_okD: "shard_ok s \<Longrightarrow> cell_ok (shard_get s k)"
  by (simp add: shard_ok_def)

lemma shard_ok_expire [simp, intro]: "shard_ok s \<Longrightarrow> shard_ok (expire_key now k s)"
  by (simp add: shard_ok_def)

lemma shard_ok_update:
  assumes "shard_ok s" and "hm_ok (data s')" and "shard_get s' = (shard_get s)(k := c)" and "cell_ok c"
  shows "shard_ok s'"
  using assms by (auto simp: shard_ok_def)

section \<open>The contract of a key-local operation\<close>

lemma key_localI:
  assumes "\<And>s. shard_ok s \<Longrightarrow> hm_ok (data (fst (f s)))"
    and "\<And>s. shard_ok s \<Longrightarrow> shard_get (fst (f s)) = (shard_get s)(k := fst (g (shard_get s k)))"
    and "\<And>s. shard_ok s \<Longrightarrow> snd (f s) = snd (g (shard_get s k))"
    and "\<And>c. cell_ok c \<Longrightarrow> cell_ok (fst (g c))"
  shows "key_local k f g"
  unfolding key_local_def
proof (intro allI impI)
  fix s
  assume s: "shard_ok s"
  have "cell_ok (fst (g (shard_get s k)))" using assms(4) shard_okD [OF s] by blast
  then have "shard_ok (fst (f s))" using shard_ok_update s assms(1,2) by blast
  then show "shard_ok (fst (f s)) \<and> shard_get (fst (f s)) = (shard_get s)(k := fst (g (shard_get s k)))
      \<and> snd (f s) = snd (g (shard_get s k))"
    using assms(2,3) s by simp
qed

lemma key_localD:
  assumes "key_local k f g" and "shard_ok s"
  shows "shard_ok (fst (f s))"
    and "shard_get (fst (f s)) = (shard_get s)(k := fst (g (shard_get s k)))"
    and "snd (f s) = snd (g (shard_get s k))"
  using assms by (auto simp: key_local_def)

text \<open>The common shape of the commands: expire the key, then act on what is left. \<open>key_local\<close> of
  the action alone is enough.\<close>

lemma key_local_expire:
  assumes "key_local k f g"
  shows "key_local k (\<lambda>s. f (expire_key now k s)) (\<lambda>c. g (live now c))"
  using assms unfolding key_local_def by (simp add: shard_ok_expire)

end
