(* ===== verification/Glob.thy ===== *)
theory Glob
  imports Prelude
begin

text \<open>
  Key-pattern matching of \<open>KEYS\<close> and \<open>SCAN\<close>: \<open>glob_class_match\<close> and \<open>glob_match\<close> of
  \<open>src/muon_cache/store.rs\<close>. The matcher is a single loop over two indices that remembers only
  the last \<open>*\<close> it passed and retries from there. The theory shows that the loop terminates and
  decides exactly the nondeterministic meaning of a pattern (\<open>gmatch\<close>), where every \<open>*\<close> may
  take any number of bytes: forgetting the earlier stars loses no match.
\<close>

section \<open>Model\<close>

text \<open>One member of a class, from index \<open>i\<close>: the index after it and whether it covers the byte.
  A backslash escapes the next byte; \<open>a-b\<close> is a range unless the class ends at \<open>b\<close>.\<close>

definition glob_class_item :: "bytes \<Rightarrow> byte \<Rightarrow> nat \<Rightarrow> nat \<times> bool" where
  "glob_class_item pattern ch i =
     (let i' = (if pattern ! i = CHR 0x5C \<and> i + 1 < length pattern then i + 1 else i);
          c = pattern ! i'
      in if i' + 2 < length pattern \<and> pattern ! (i' + 1) = CHR ''-''
            \<and> pattern ! (i' + 2) \<noteq> CHR '']'' then
           let en = (if pattern ! (i' + 2) = CHR 0x5C \<and> i' + 3 < length pattern
                     then pattern ! (i' + 3) else pattern ! (i' + 2))
           in (i' + 3, c \<le> ch \<and> ch \<le> en)
         else (i' + 1, c = ch))"

lemma glob_class_item_bounds:
  "i < length p \<Longrightarrow> i < fst (glob_class_item p ch i) \<and> fst (glob_class_item p ch i) \<le> length p"
  unfolding glob_class_item_def Let_def by (simp split: if_split)

function glob_class_loop :: "bytes \<Rightarrow> nat \<Rightarrow> bool \<Rightarrow> byte \<Rightarrow> nat \<Rightarrow> bool \<Rightarrow> (bool \<times> nat) option" where
  "glob_class_loop pattern start neg ch i matched =
     (if i < length pattern then
        if pattern ! i = CHR '']'' \<and> i > start then Some (if neg then \<not> matched else matched, i + 1)
        else glob_class_loop pattern start neg ch (fst (glob_class_item pattern ch i))
               (matched \<or> snd (glob_class_item pattern ch i))
      else None)"
  by pat_completeness auto
termination
proof (relation "measure (\<lambda>(pattern, start, neg, ch, i, matched). length pattern - i)", simp)
  fix pattern :: bytes and start i :: nat and neg matched :: bool and ch :: byte
  assume "i < length pattern"
  with glob_class_item_bounds [OF this, of ch]
  show "((pattern, start, neg, ch, fst (glob_class_item pattern ch i),
           matched \<or> snd (glob_class_item pattern ch i)), pattern, start, neg, ch, i, matched)
        \<in> measure (\<lambda>(pattern, start, neg, ch, i, matched). length pattern - i)"
    by (simp add: diff_less_mono2)
qed

declare glob_class_loop.simps [simp del]

definition glob_class_match :: "bytes \<Rightarrow> nat \<Rightarrow> byte \<Rightarrow> (bool \<times> nat) option" where
  "glob_class_match pattern i ch =
     (if i \<ge> length pattern then None
      else if pattern ! i = CHR ''^'' \<or> pattern ! i = CHR ''!''
      then glob_class_loop pattern (i + 1) True ch (i + 1) False
      else glob_class_loop pattern i False ch i False)"

text \<open>What one iteration of the loop of \<open>glob_match\<close> decides: a star, an immediate
  \<open>return false\<close>, one text byte consumed (with the new pattern index), the end of both inputs, or
  none of these, in which case control reaches the retry code at the bottom of the loop.\<close>

datatype glob_step_result = GStar | GReject | GAdvance nat | GAccept | GMiss

definition glob_step :: "bytes \<Rightarrow> bytes \<Rightarrow> nat \<Rightarrow> nat \<Rightarrow> glob_step_result" where
  "glob_step text pattern ti pi =
     (if pi < length pattern then
        let c = pattern ! pi in
        if c = CHR ''*'' then GStar
        else if c = CHR ''?'' then
          if ti \<ge> length text then GReject else GAdvance (pi + 1)
        else if c = CHR ''['' then
          if ti \<ge> length text then GReject
          else case glob_class_match pattern (pi + 1) (text ! ti) of
                 Some (ok, next_pi) \<Rightarrow> if ok then GAdvance next_pi else GMiss
               | None \<Rightarrow> if text ! ti = CHR ''['' then GAdvance (pi + 1) else GMiss
        else if c = CHR 0x5C then
          let pi' = (if pi + 1 < length pattern then pi + 1 else pi)
          in if ti < length text \<and> pattern ! pi' = text ! ti then GAdvance (pi' + 1) else GMiss
        else if ti < length text \<and> c = text ! ti then GAdvance (pi + 1) else GMiss
      else if ti = length text then GAccept else GMiss)"

function skip_stars :: "bytes \<Rightarrow> nat \<Rightarrow> nat" where
  "skip_stars pattern pi =
     (if pi < length pattern \<and> pattern ! pi = CHR ''*'' then skip_stars pattern (pi + 1) else pi)"
  by pat_completeness auto
termination
  by (relation "measure (\<lambda>(pattern, pi). length pattern - pi)") auto

declare skip_stars.simps [simp del]

lemma glob_class_loop_bounds:
  "glob_class_loop p start neg ch i m = Some (r, n) \<Longrightarrow> i < n \<and> n \<le> length p"
proof (induction p start neg ch i m rule: glob_class_loop.induct)
  case (1 p start neg ch i m)
  show ?case
    using "1.prems" "1.IH" glob_class_item_bounds [of i p ch]
    by (subst (asm) glob_class_loop.simps) (auto split: if_splits)
qed

lemma glob_class_match_bounds:
  "glob_class_match p i ch = Some (r, n) \<Longrightarrow> i < n \<and> n \<le> length p"
  by (auto simp: glob_class_match_def split: if_splits dest!: glob_class_loop_bounds)

lemma glob_step_advance_bounds:
  "glob_step text p ti pi = GAdvance n \<Longrightarrow> pi < n \<and> n \<le> length p \<and> ti < length text"
  by (auto simp: glob_step_def Let_def split: if_splits option.splits prod.splits
      dest!: glob_class_match_bounds)

lemma glob_step_star_bounds:
  "glob_step text p ti pi = GStar \<Longrightarrow> pi < length p \<and> p ! pi = CHR ''*''"
  by (auto simp: glob_step_def Let_def split: if_splits option.splits prod.splits)

text \<open>The loop of \<open>glob_match\<close>. States in which the retry point lies ahead of the current
  indices do not arise; they are the first component of the termination measure.\<close>

function glob_loop :: "bytes \<Rightarrow> bytes \<Rightarrow> nat \<Rightarrow> nat \<Rightarrow> nat option \<Rightarrow> nat \<Rightarrow> bool" where
  "glob_loop text pattern ti pi star_pi star_ti =
     (if ti \<le> length text then
        case glob_step text pattern ti pi of
          GStar \<Rightarrow> glob_loop text pattern ti (pi + 1) (Some pi) ti
        | GReject \<Rightarrow> False
        | GAdvance next_pi \<Rightarrow> glob_loop text pattern (ti + 1) next_pi star_pi star_ti
        | GAccept \<Rightarrow> True
        | GMiss \<Rightarrow>
            (case star_pi of
               Some sp \<Rightarrow> glob_loop text pattern (star_ti + 1) (sp + 1) (Some sp) (star_ti + 1)
             | None \<Rightarrow> False)
      else skip_stars pattern pi = length pattern \<and> ti = length text)"
  by pat_completeness auto
termination
  by (relation "measures [\<lambda>(text, p, ti, pi, spo, sti).
         if ti < sti \<or> (case spo of Some sp \<Rightarrow> pi \<le> sp | None \<Rightarrow> False) then 1 else 0,
       \<lambda>(text, p, ti, pi, spo, sti). length text + 1 - sti,
       \<lambda>(text, p, ti, pi, spo, sti). length p - pi]")
    (auto dest!: glob_step_star_bounds glob_step_advance_bounds split: option.splits)

declare glob_loop.simps [simp del]

definition glob_match :: "bytes \<Rightarrow> bytes \<Rightarrow> bool" where
  "glob_match text pattern = glob_loop text pattern 0 0 None 0"

section \<open>The meaning of a pattern\<close>

text \<open>\<open>glob_elem p pi ch\<close>: the pattern element at \<open>pi\<close> (not a star) accepts the byte \<open>ch\<close>, and
  the next element starts at the returned index.\<close>

definition glob_elem :: "bytes \<Rightarrow> nat \<Rightarrow> byte \<Rightarrow> nat option" where
  "glob_elem p pi ch =
     (if p ! pi = CHR ''?'' then Some (pi + 1)
      else if p ! pi = CHR ''['' then
        (case glob_class_match p (pi + 1) ch of
           Some (ok, n) \<Rightarrow> if ok then Some n else None
         | None \<Rightarrow> if ch = CHR ''['' then Some (pi + 1) else None)
      else if p ! pi = CHR 0x5C then
        (let q = (if pi + 1 < length p then pi + 1 else pi)
         in if p ! q = ch then Some (q + 1) else None)
      else if p ! pi = ch then Some (pi + 1) else None)"

inductive gmatch :: "bytes \<Rightarrow> nat \<Rightarrow> bytes \<Rightarrow> bool" for p :: bytes where
  gm_done: "gmatch p (length p) []"
| gm_star_empty: "pi < length p \<Longrightarrow> p ! pi = CHR ''*'' \<Longrightarrow> gmatch p (pi + 1) t \<Longrightarrow> gmatch p pi t"
| gm_star_more: "pi < length p \<Longrightarrow> p ! pi = CHR ''*'' \<Longrightarrow> gmatch p pi t \<Longrightarrow> gmatch p pi (c # t)"
| gm_elem: "pi < length p \<Longrightarrow> p ! pi \<noteq> CHR ''*'' \<Longrightarrow> glob_elem p pi c = Some n \<Longrightarrow> gmatch p n t \<Longrightarrow>
     gmatch p pi (c # t)"

inductive_cases gmatch_NilE: "gmatch p pi []"
inductive_cases gmatch_ConsE: "gmatch p pi (c # t)"

text \<open>The index after a class does not depend on the byte that is tested.\<close>

lemma glob_class_item_index: "fst (glob_class_item p ch i) = fst (glob_class_item p ch' i)"
  unfolding glob_class_item_def Let_def by (auto split: if_split)

lemma glob_class_loop_index:
  "map_option snd (glob_class_loop p start neg ch i m) =
   map_option snd (glob_class_loop p start neg ch' i m')"
proof (induction p start neg ch i m arbitrary: m' rule: glob_class_loop.induct)
  case (1 p start neg ch i m)
  show ?case
    unfolding glob_class_loop.simps [of p start neg ch i m]
      glob_class_loop.simps [of p start neg ch' i m']
    using "1.IH" by (simp add: glob_class_item_index [of p ch' i ch])
qed

lemma glob_class_match_index:
  "map_option snd (glob_class_match p i ch) = map_option snd (glob_class_match p i ch')"
  unfolding glob_class_match_def by (auto intro: glob_class_loop_index)

lemma glob_elem_index: "glob_elem p pi c = Some a \<Longrightarrow> glob_elem p pi d = Some b \<Longrightarrow> a = b"
  using glob_class_match_index [of p "pi + 1" c d]
  by (auto simp: glob_elem_def Let_def split: if_splits option.splits prod.splits)

lemma glob_step_elem:
  "pi < length p \<Longrightarrow> p ! pi \<noteq> CHR ''*'' \<Longrightarrow> ti < length text \<Longrightarrow>
   glob_step text p ti pi = (case glob_elem p pi (text ! ti) of Some n \<Rightarrow> GAdvance n | None \<Rightarrow> GMiss)"
  by (auto simp: glob_step_def glob_elem_def Let_def split: option.splits prod.splits)

lemma glob_step_at_end:
  "pi < length p \<Longrightarrow> p ! pi \<noteq> CHR ''*'' \<Longrightarrow> \<not> ti < length text \<Longrightarrow>
   glob_step text p ti pi \<in> {GReject, GMiss}"
  by (auto simp: glob_step_def Let_def)

lemma gmatch_star_drop:
  assumes "pi < length p" and "p ! pi = CHR ''*''"
  shows "gmatch p pi (drop k t) \<Longrightarrow> gmatch p pi t"
proof (induction k arbitrary: t)
  case (Suc k)
  show ?case
  proof (cases t)
    case (Cons c t')
    with Suc have "gmatch p pi t'" by simp
    with assms Cons show ?thesis by (simp add: gm_star_more)
  qed (use Suc.prems in simp)
qed simp

lemma gmatch_star_iff:
  assumes "pi < length p" and "p ! pi = CHR ''*''"
  shows "gmatch p pi t \<longleftrightarrow> (\<exists>k \<le> length t. gmatch p (pi + 1) (drop k t))"
proof
  assume "gmatch p pi t"
  then show "\<exists>k \<le> length t. gmatch p (pi + 1) (drop k t)"
    using assms
  proof (induction pi t rule: gmatch.induct)
    case (gm_star_empty pi t)
    then show ?case by (metis drop0 le0)
  next
    case (gm_star_more pi t c)
    then obtain k where "k \<le> length t" "gmatch p (pi + 1) (drop k t)" by blast
    then have "Suc k \<le> length (c # t) \<and> gmatch p (pi + 1) (drop (Suc k) (c # t))" by simp
    then show ?case by blast
  qed auto
next
  assume "\<exists>k \<le> length t. gmatch p (pi + 1) (drop k t)"
  then obtain k where "gmatch p (pi + 1) (drop k t)" by blast
  then have "gmatch p pi (drop k t)" by (rule gm_star_empty [OF assms])
  then show "gmatch p pi t" by (rule gmatch_star_drop [OF assms])
qed

lemma gmatch_elem_iff:
  assumes "pi < length p" and "p ! pi \<noteq> CHR ''*''"
  shows "gmatch p pi (c # t) \<longleftrightarrow> (\<exists>n. glob_elem p pi c = Some n \<and> gmatch p n t)"
  using assms by (auto elim: gmatch_ConsE intro: gm_elem)

lemma gmatch_elem_Nil: "pi < length p \<Longrightarrow> p ! pi \<noteq> CHR ''*'' \<Longrightarrow> \<not> gmatch p pi []"
  by (auto elim: gmatch_NilE)

lemma gmatch_end_iff: "\<not> pi < length p \<Longrightarrow> gmatch p pi t \<longleftrightarrow> pi = length p \<and> t = []"
  by (auto elim: gmatch.cases intro: gm_done)

section \<open>Segments between stars\<close>

text \<open>\<open>chain p a b n\<close>: \<open>n\<close> elements, none of them a star, lie between the indices \<open>a\<close> and \<open>b\<close>.
  Each of them takes exactly one byte, so a match that starts at \<open>a\<close> reaches \<open>b\<close> after exactly
  \<open>n\<close> bytes.\<close>

inductive chain :: "bytes \<Rightarrow> nat \<Rightarrow> nat \<Rightarrow> nat \<Rightarrow> bool" for p :: bytes and a :: nat where
  chain_start: "chain p a a 0"
| chain_next: "chain p a b n \<Longrightarrow> b < length p \<Longrightarrow> p ! b \<noteq> CHR ''*'' \<Longrightarrow>
     glob_elem p b c = Some b' \<Longrightarrow> chain p a b' (Suc n)"

lemma chain_gmatch:
  "chain p a b n \<Longrightarrow> gmatch p a t \<Longrightarrow> n \<le> length t \<and> gmatch p b (drop n t)"
proof (induction rule: chain.induct)
  case (chain_next b n c b')
  then have le: "n \<le> length t" and m: "gmatch p b (drop n t)" by auto
  from chain_next m have "drop n t \<noteq> []" using gmatch_elem_Nil [of b p] by auto
  then obtain d u where u: "drop n t = d # u" by (cases "drop n t") auto
  with m chain_next obtain b'' where "glob_elem p b d = Some b''" "gmatch p b'' u"
    by (auto simp: gmatch_elem_iff)
  moreover from this chain_next have "b'' = b'" by (auto intro: glob_elem_index)
  moreover have "drop (Suc n) t = u"
    using arg_cong [OF u, of "drop 1"] by simp
  moreover have "Suc n \<le> length t"
    using arg_cong [OF u, of length] by simp
  ultimately show ?case by simp
qed simp

section \<open>The loop decides the meaning\<close>

text \<open>The text not yet matched can be matched from the current position, or from the remembered
  star with more bytes given to it.\<close>

definition glob_pending :: "bytes \<Rightarrow> bytes \<Rightarrow> nat \<Rightarrow> nat \<Rightarrow> nat option \<Rightarrow> nat \<Rightarrow> bool" where
  "glob_pending text p ti pi star_pi star_ti \<longleftrightarrow>
     gmatch p pi (drop ti text) \<or>
     (case star_pi of None \<Rightarrow> False
      | Some sp \<Rightarrow> \<exists>k. star_ti < k \<and> k \<le> length text \<and> gmatch p (sp + 1) (drop k text))"

definition glob_inv :: "bytes \<Rightarrow> nat \<Rightarrow> nat \<Rightarrow> nat option \<Rightarrow> nat \<Rightarrow> bool" where
  "glob_inv p ti pi star_pi star_ti \<longleftrightarrow>
     pi \<le> length p \<and>
     (case star_pi of None \<Rightarrow> True
      | Some sp \<Rightarrow> sp < length p \<and> star_ti \<le> ti \<and> chain p (sp + 1) pi (ti - star_ti))"

lemma pending_later_star:
  assumes inv: "glob_inv p ti pi (Some sp) star_ti" and ti: "ti \<le> length text"
    and k: "star_ti < k" "k \<le> length text" "gmatch p (sp + 1) (drop k text)"
  shows "\<exists>j. ti < j \<and> j \<le> length text \<and> gmatch p pi (drop j text)"
proof -
  from inv have le: "star_ti \<le> ti" and ch: "chain p (sp + 1) pi (ti - star_ti)"
    by (auto simp: glob_inv_def)
  from chain_gmatch [OF ch k(3)]
  have "ti - star_ti \<le> length text - k" "gmatch p pi (drop (ti - star_ti) (drop k text))" by auto
  moreover from this(1) le k have "ti < k + (ti - star_ti)" "k + (ti - star_ti) \<le> length text" by auto
  ultimately show ?thesis by (auto simp: add.commute)
qed

lemma glob_pending_star:
  assumes "glob_inv p ti pi star_pi star_ti" "ti \<le> length text" "pi < length p" "p ! pi = CHR ''*''"
  shows "glob_pending text p ti pi star_pi star_ti \<longleftrightarrow>
         glob_pending text p ti (pi + 1) (Some pi) ti"
proof -
  have later: "gmatch p pi (drop j text) \<Longrightarrow> ti < j \<Longrightarrow> gmatch p pi (drop ti text)" for j
    using gmatch_star_drop [OF assms(3,4), of "j - ti" "drop ti text"] by simp
  have "glob_pending text p ti pi star_pi star_ti \<longleftrightarrow> gmatch p pi (drop ti text)"
    using pending_later_star [OF _ assms(2)] later assms(1)
    by (auto simp: glob_pending_def split: option.splits) blast
  also have "\<dots> \<longleftrightarrow> (\<exists>k \<le> length text - ti. gmatch p (pi + 1) (drop (k + ti) text))"
    by (simp add: gmatch_star_iff [OF assms(3,4)])
  also have "\<dots> \<longleftrightarrow> (\<exists>j. ti \<le> j \<and> j \<le> length text \<and> gmatch p (pi + 1) (drop j text))"
  proof
    assume "\<exists>j. ti \<le> j \<and> j \<le> length text \<and> gmatch p (pi + 1) (drop j text)"
    then obtain j where "ti \<le> j" "j \<le> length text" "gmatch p (pi + 1) (drop j text)" by blast
    then have "j - ti \<le> length text - ti \<and> gmatch p (pi + 1) (drop (j - ti + ti) text)" by auto
    then show "\<exists>k \<le> length text - ti. gmatch p (pi + 1) (drop (k + ti) text)" by blast
  next
    assume "\<exists>k \<le> length text - ti. gmatch p (pi + 1) (drop (k + ti) text)"
    then obtain k where "k \<le> length text - ti" "gmatch p (pi + 1) (drop (k + ti) text)" by blast
    then have "ti \<le> k + ti \<and> k + ti \<le> length text \<and> gmatch p (pi + 1) (drop (k + ti) text)"
      using assms(2) by auto
    then show "\<exists>j. ti \<le> j \<and> j \<le> length text \<and> gmatch p (pi + 1) (drop j text)" by blast
  qed
  also have "\<dots> \<longleftrightarrow> glob_pending text p ti (pi + 1) (Some pi) ti"
    using assms(2) by (auto simp: glob_pending_def le_less)
  finally show ?thesis .
qed

lemma glob_pending_stuck:
  assumes "glob_inv p ti pi star_pi star_ti" "ti = length text"
    and "pi < length p" "p ! pi \<noteq> CHR ''*''"
  shows "\<not> glob_pending text p ti pi star_pi star_ti"
proof -
  have "\<not> gmatch p pi (drop ti text)" using assms gmatch_elem_Nil by simp
  moreover have "\<not> (\<exists>j. ti < j \<and> j \<le> length text \<and> gmatch p pi (drop j text))" using assms(2) by auto
  ultimately show ?thesis
    using pending_later_star [of p ti pi _ star_ti "text"] assms(1,2)
    by (auto simp: glob_pending_def split: option.splits) (meson leD)
qed

lemma glob_pending_retry:
  assumes "star_ti < length text"
  shows "(\<exists>k. star_ti < k \<and> k \<le> length text \<and> gmatch p (sp + 1) (drop k text)) \<longleftrightarrow>
     glob_pending text p (star_ti + 1) (sp + 1) (Some sp) (star_ti + 1)"
  using assms unfolding glob_pending_def option.case
  by (metis Suc_eq_plus1 Suc_leI Suc_lessD Suc_lessI lessI)

lemma glob_loop_pending:
  "glob_inv p ti pi star_pi star_ti \<Longrightarrow> ti \<le> length text \<Longrightarrow>
   glob_loop text p ti pi star_pi star_ti \<longleftrightarrow> glob_pending text p ti pi star_pi star_ti"
proof (induction "text" p ti pi star_pi star_ti rule: glob_loop.induct)
  case (1 tx p ti pi star_pi star_ti)
  note inv = "1.prems"(1) and ti = "1.prems"(2)
  have miss: "glob_loop tx p ti pi star_pi star_ti \<longleftrightarrow> glob_pending tx p ti pi star_pi star_ti"
    if step: "glob_step tx p ti pi = GMiss" and no: "\<not> gmatch p pi (drop ti tx)"
  proof (cases star_pi)
    case None
    with step no ti show ?thesis by (simp add: glob_loop.simps [of tx p ti] glob_pending_def)
  next
    case (Some sp)
    have eq: "glob_loop tx p ti pi star_pi star_ti =
        glob_loop tx p (star_ti + 1) (sp + 1) (Some sp) (star_ti + 1)"
      using step ti Some by (simp add: glob_loop.simps [of tx p ti])
    have inv': "glob_inv p (star_ti + 1) (sp + 1) (Some sp) (star_ti + 1)"
      using inv Some by (simp add: glob_inv_def chain_start)
    show ?thesis
    proof (cases "star_ti < length tx")
      case True
      then show ?thesis
        using "1.IH"(3) [OF ti step Some inv'] glob_pending_retry [OF True, of p sp] eq no Some
        by (simp add: glob_pending_def [of tx p ti])
    next
      case False
      then have "\<not> glob_pending tx p ti pi star_pi star_ti" using no Some
        by (auto simp: glob_pending_def)
      moreover have "\<not> glob_loop tx p (star_ti + 1) (sp + 1) (Some sp) (star_ti + 1)"
        using False by (simp add: glob_loop.simps [of tx p "Suc star_ti"])
      ultimately show ?thesis using eq by simp
    qed
  qed
  consider (fin) "pi = length p" | (star) "pi < length p" "p ! pi = CHR ''*''"
    | (last) "pi < length p" "p ! pi \<noteq> CHR ''*''" "ti = length tx"
    | (elem) "pi < length p" "p ! pi \<noteq> CHR ''*''" "ti < length tx"
    using inv ti by (auto simp: glob_inv_def le_less)
  then show ?case
  proof cases
    case fin
    show ?thesis
    proof (cases "ti = length tx")
      case True
      with fin show ?thesis
        by (simp add: glob_loop.simps [of tx p "length tx"] glob_step_def glob_pending_def gm_done)
    next
      case False
      with fin ti show ?thesis by (intro miss) (auto simp: glob_step_def gmatch_end_iff)
    qed
  next
    case star
    then have step: "glob_step tx p ti pi = GStar" by (simp add: glob_step_def)
    have inv': "glob_inv p ti (pi + 1) (Some pi) ti"
      using star by (simp add: glob_inv_def chain_start)
    show ?thesis
      using "1.IH"(1) [OF ti step inv' ti] glob_pending_star [OF inv ti star] step ti
      by (simp add: glob_loop.simps [of tx p ti])
  next
    case last
    have "glob_step tx p ti pi = GReject \<or> glob_step tx p ti pi = GMiss"
      using glob_step_at_end [of pi p ti tx] last by simp
    then show ?thesis
    proof
      assume "glob_step tx p ti pi = GReject"
      with glob_pending_stuck [OF inv last(3,1,2)] ti show ?thesis
        by (simp add: glob_loop.simps [of tx p ti])
    next
      assume "glob_step tx p ti pi = GMiss"
      with last show ?thesis by (intro miss) (simp_all add: gmatch_elem_Nil)
    qed
  next
    case elem
    have drop: "drop ti tx = tx ! ti # drop (Suc ti) tx"
      using elem(3) by (simp add: Cons_nth_drop_Suc)
    show ?thesis
    proof (cases "glob_elem p pi (tx ! ti)")
      case None
      with elem drop show ?thesis
        by (intro miss) (auto simp: glob_step_elem gmatch_elem_iff)
    next
      case (Some n)
      then have step: "glob_step tx p ti pi = GAdvance n" using elem by (simp add: glob_step_elem)
      have inv': "glob_inv p (ti + 1) n star_pi star_ti"
        using inv glob_step_advance_bounds [OF step] chain_next [OF _ elem(1,2) Some]
        by (auto simp: glob_inv_def Suc_diff_le split: option.splits)
      have "gmatch p pi (drop ti tx) \<longleftrightarrow> gmatch p n (drop (ti + 1) tx)"
        using Some by (simp add: drop gmatch_elem_iff [OF elem(1,2)])
      then show ?thesis
        using "1.IH"(2) [OF ti step inv'] elem step
        by (simp add: glob_loop.simps [of tx p ti] glob_pending_def)
    qed
  qed
qed

lemma glob_match_gmatch: "glob_match text p \<longleftrightarrow> gmatch p 0 text"
  using glob_loop_pending [of p 0 0 None 0 "text"]
  by (simp add: glob_match_def glob_inv_def glob_pending_def)

section \<open>Properties\<close>

text \<open>C22: The iterative matcher behind \<open>KEYS\<close>, which remembers only the last star and retries from there,
  accepts exactly the texts the declarative relation derives, where a star stands for any stretch of
  text: one level of backtracking loses no match, and the loop always ends.\<close>

theorem glob_match_iff: "glob_match text p \<longleftrightarrow> gmatch p 0 text"
  by (rule glob_match_gmatch)

end
