(* ===== verification/Store_Keys.thy ===== *)
theory Store_Keys
  imports Shard Glob
begin

text \<open>
  Key, expiry and string operations of a bucket (\<open>impl Shard\<close> in \<open>src/muon_cache/store.rs\<close>):
  \<open>set\<close>, \<open>exists\<close>, \<open>ttl_ms\<close>, \<open>set_expire_ms\<close>, \<open>persist\<close>, \<open>purge_expired_all\<close>, the iterations over all
  keys, and \<open>get_string\<close>, \<open>set_string\<close>, \<open>set_nx\<close>, \<open>append\<close>, \<open>incr_by\<close>. Each single-key operation is
  shown to be key-local with the specification that stands next to it. In the specifications a
  stored integer and its decimal notation are the same string: the native integer
  representation introduced by \<open>INCR\<close> cannot be observed.
\<close>

section \<open>Keys and expiry\<close>

definition sh_set :: "bytes \<Rightarrow> val \<Rightarrow> u64 option \<Rightarrow> shard \<Rightarrow> shard \<times> unit" where
  "sh_set key v expire_at s = (shard_put key \<lparr>e_value = v, expires_at = expire_at\<rparr> s, ())"

definition sh_set_with_expire_at :: "bytes \<Rightarrow> val \<Rightarrow> u64 option \<Rightarrow> shard \<Rightarrow> shard \<times> unit" where
  "sh_set_with_expire_at key v expire_at s = sh_set key v expire_at s"

definition sh_exists :: "u64 \<Rightarrow> bytes \<Rightarrow> shard \<Rightarrow> shard \<times> bool" where
  "sh_exists now key s =
     (if sh_is_expired now key s then (fst (sh_remove key s), False)
      else (s, shard_get s key \<noteq> None))"

definition sh_ttl_ms :: "u64 \<Rightarrow> bytes \<Rightarrow> shard \<Rightarrow> shard \<times> int option" where
  "sh_ttl_ms now key s =
     (case shard_get s key of
        None \<Rightarrow> (s, None)
      | Some e \<Rightarrow>
          (case expires_at e of
             Some ts \<Rightarrow> if ts \<le> now then (fst (sh_remove key s), None)
                        else (s, Some (sint (ts - now)))
           | None \<Rightarrow> (s, Some (- 1))))"

definition sh_set_expire_ms :: "u64 \<Rightarrow> bytes \<Rightarrow> u64 \<Rightarrow> shard \<Rightarrow> shard \<times> bool" where
  "sh_set_expire_ms now key ttl_ms s =
     (case shard_get s key of
        Some e \<Rightarrow> (shard_put key (e\<lparr>expires_at := Some (u64_saturating_add now ttl_ms)\<rparr>) s, True)
      | None \<Rightarrow> (s, False))"

definition sh_persist :: "u64 \<Rightarrow> bytes \<Rightarrow> shard \<Rightarrow> shard \<times> int" where
  "sh_persist now key s =
     (if sh_is_expired now key s then (fst (sh_remove key s), 0)
      else case shard_get s key of
             Some e \<Rightarrow> if expires_at e \<noteq> None then (shard_put key (e\<lparr>expires_at := None\<rparr>) s, 1)
                       else (s, 0)
           | None \<Rightarrow> (s, 0))"

definition sh_value_type :: "u64 \<Rightarrow> bytes \<Rightarrow> shard \<Rightarrow> shard \<times> string option" where
  "sh_value_type now key s =
     (if sh_is_expired now key s then (fst (sh_remove key s), None)
      else (s, case map_option e_value (shard_get s key) of
                 Some (String _) \<Rightarrow> Some ''string''
               | Some (Int64 _) \<Rightarrow> Some ''string''
               | Some (List _) \<Rightarrow> Some ''list''
               | Some (Set _) \<Rightarrow> Some ''set''
               | Some (Hash _) \<Rightarrow> Some ''hash''
               | Some (ZSet _) \<Rightarrow> Some ''zset''
               | Some (Stream _) \<Rightarrow> Some ''stream''
               | None \<Rightarrow> None))"

section \<open>Operations over all keys of a bucket\<close>

definition sh_purge_expired_all :: "u64 \<Rightarrow> shard \<Rightarrow> shard" where
  "sh_purge_expired_all now s = s\<lparr>data := filter (\<lambda>(k, e). \<not> expired now e) (data s)\<rparr>"

definition sh_snapshot_items :: "u64 \<Rightarrow> shard \<Rightarrow> shard \<times> (bytes \<times> val \<times> u64 option) list" where
  "sh_snapshot_items now s =
     (let s = sh_purge_expired_all now s
      in (s, map (\<lambda>(k, e). (k, e_value e, expires_at e)) (data s)))"

definition sh_len :: "u64 \<Rightarrow> shard \<Rightarrow> shard \<times> nat" where
  "sh_len now s = (let s = sh_purge_expired_all now s in (s, length (data s)))"

definition sh_keys :: "u64 \<Rightarrow> shard \<Rightarrow> shard \<times> bytes list" where
  "sh_keys now s = (let s = sh_purge_expired_all now s in (s, map fst (data s)))"

definition sh_keys_matching :: "u64 \<Rightarrow> bytes \<Rightarrow> shard \<Rightarrow> shard \<times> bytes list" where
  "sh_keys_matching now pattern s =
     (let s = sh_purge_expired_all now s
      in (s, sort (filter (\<lambda>key. glob_match key pattern) (map fst (data s)))))"

definition sh_flush :: "shard \<Rightarrow> shard \<times> nat" where
  "sh_flush s = (s\<lparr>data := []\<rparr>, length (data s))"

section \<open>Strings\<close>

definition sh_get_string :: "u64 \<Rightarrow> bytes \<Rightarrow> shard \<Rightarrow> shard \<times> bytes option result" where
  "sh_get_string now key s =
     (let s = expire_key now key s
      in (s, case map_option e_value (shard_get s key) of
               Some (String v) \<Rightarrow> Ok (Some v)
             | Some (Int64 n) \<Rightarrow> Ok (Some (write_i64_bytes n))
             | Some _ \<Rightarrow> Err
             | None \<Rightarrow> Ok None))"

definition sh_set_string :: "bytes \<Rightarrow> bytes \<Rightarrow> u64 option \<Rightarrow> shard \<Rightarrow> shard \<times> unit" where
  "sh_set_string key v expire_at s = sh_set key (String v) expire_at s"

definition sh_set_string_ref :: "bytes \<Rightarrow> bytes \<Rightarrow> u64 option \<Rightarrow> shard \<Rightarrow> shard \<times> unit" where
  "sh_set_string_ref key v expire_at s =
     (case shard_get s key of
        Some e \<Rightarrow> (shard_put key (e\<lparr>e_value := String v, expires_at := expire_at\<rparr>) s, ())
      | None \<Rightarrow> (shard_put key \<lparr>e_value = String v, expires_at = expire_at\<rparr> s, ()))"

definition sh_set_string_from_slices :: "bytes \<Rightarrow> bytes \<Rightarrow> u64 option \<Rightarrow> shard \<Rightarrow> shard \<times> unit" where
  "sh_set_string_from_slices key v expire_at s = sh_set_string_ref key v expire_at s"

definition sh_set_nx :: "u64 \<Rightarrow> bytes \<Rightarrow> bytes \<Rightarrow> shard \<Rightarrow> shard \<times> bool result" where
  "sh_set_nx now key v s =
     (let s = expire_key now key s
      in if shard_get s key \<noteq> None then (s, Ok False)
         else (shard_put key (fresh (String v)) s, Ok True))"

definition sh_append :: "u64 \<Rightarrow> bytes \<Rightarrow> bytes \<Rightarrow> shard \<Rightarrow> shard \<times> int result" where
  "sh_append now key x s =
     (let s = expire_key now key s
      in case shard_get s key of
           Some e \<Rightarrow>
             (case e_value e of
                String buf \<Rightarrow> (shard_put key (e\<lparr>e_value := String (buf @ x)\<rparr>) s, Ok (int (length (buf @ x))))
              | Int64 n \<Rightarrow> (let v = write_i64_bytes n @ x
                           in (shard_put key (e\<lparr>e_value := String v\<rparr>) s, Ok (int (length v))))
              | _ \<Rightarrow> (s, Err))
         | None \<Rightarrow> (shard_put key (fresh (String x)) s, Ok (int (length x))))"

definition sh_incr_by :: "u64 \<Rightarrow> bytes \<Rightarrow> int \<Rightarrow> shard \<Rightarrow> shard \<times> int result" where
  "sh_incr_by now key delta s =
     (let s = expire_key now key s
      in case shard_get s key of
           Some e \<Rightarrow>
             (case e_value e of
                Int64 n \<Rightarrow> (let nxt = i64_saturating_add n delta
                           in (shard_put key (e\<lparr>e_value := Int64 nxt\<rparr>) s, Ok nxt))
              | String buf \<Rightarrow>
                  (case parse_i64_bytes buf of
                     Err \<Rightarrow> (s, Err)
                   | Ok n \<Rightarrow> (let nxt = i64_saturating_add n delta
                             in (shard_put key (e\<lparr>e_value := Int64 nxt\<rparr>) s, Ok nxt)))
              | _ \<Rightarrow> (s, Err))
         | None \<Rightarrow> (shard_put key (fresh (Int64 delta)) s, Ok delta))"

section \<open>Specifications on cells\<close>

fun string_of_val :: "val \<Rightarrow> bytes option" where
  "string_of_val (String b) = Some b"
| "string_of_val (Int64 n) = Some (i64_to_string n)"
| "string_of_val _ = None"

fun type_name :: "val \<Rightarrow> string" where
  "type_name (String b) = ''string''"
| "type_name (Int64 n) = ''string''"
| "type_name (List l) = ''list''"
| "type_name (Set l) = ''set''"
| "type_name (Hash h) = ''hash''"
| "type_name (ZSet z) = ''zset''"
| "type_name (Stream i) = ''stream''"

definition spec_set :: "val \<Rightarrow> u64 option \<Rightarrow> entry option \<Rightarrow> entry option \<times> unit" where
  "spec_set v expire_at c = (Some \<lparr>e_value = v, expires_at = expire_at\<rparr>, ())"

definition spec_remove :: "entry option \<Rightarrow> entry option \<times> bool" where
  "spec_remove c = (None, c \<noteq> None)"

definition spec_exists :: "u64 \<Rightarrow> entry option \<Rightarrow> entry option \<times> bool" where
  "spec_exists now c = (live now c, live now c \<noteq> None)"

definition spec_ttl_ms :: "u64 \<Rightarrow> entry option \<Rightarrow> entry option \<times> int option" where
  "spec_ttl_ms now c =
     (live now c, map_option (\<lambda>e. case expires_at e of Some ts \<Rightarrow> sint (ts - now) | None \<Rightarrow> - 1)
                    (live now c))"

definition spec_set_expire_ms :: "u64 \<Rightarrow> u64 \<Rightarrow> entry option \<Rightarrow> entry option \<times> bool" where
  "spec_set_expire_ms now ttl c =
     (map_option (\<lambda>e. e\<lparr>expires_at := Some (u64_saturating_add now ttl)\<rparr>) c, c \<noteq> None)"

definition spec_persist :: "u64 \<Rightarrow> entry option \<Rightarrow> entry option \<times> int" where
  "spec_persist now c =
     (map_option (\<lambda>e. e\<lparr>expires_at := None\<rparr>) (live now c),
      case live now c of Some e \<Rightarrow> if expires_at e = None then 0 else 1 | None \<Rightarrow> 0)"

definition spec_value_type :: "u64 \<Rightarrow> entry option \<Rightarrow> entry option \<times> string option" where
  "spec_value_type now c = (live now c, map_option (\<lambda>e. type_name (e_value e)) (live now c))"

definition spec_get_string :: "u64 \<Rightarrow> entry option \<Rightarrow> entry option \<times> bytes option result" where
  "spec_get_string now c =
     (live now c,
      case live now c of None \<Rightarrow> Ok None
      | Some e \<Rightarrow> (case string_of_val (e_value e) of Some b \<Rightarrow> Ok (Some b) | None \<Rightarrow> Err))"

definition spec_set_nx :: "u64 \<Rightarrow> bytes \<Rightarrow> entry option \<Rightarrow> entry option \<times> bool result" where
  "spec_set_nx now v c =
     (case live now c of None \<Rightarrow> (Some (fresh (String v)), Ok True) | Some e \<Rightarrow> (Some e, Ok False))"

definition spec_append :: "u64 \<Rightarrow> bytes \<Rightarrow> entry option \<Rightarrow> entry option \<times> int result" where
  "spec_append now x c =
     (case live now c of
        None \<Rightarrow> (Some (fresh (String x)), Ok (int (length x)))
      | Some e \<Rightarrow>
          (case string_of_val (e_value e) of
             Some b \<Rightarrow> (Some (e\<lparr>e_value := String (b @ x)\<rparr>), Ok (int (length b + length x)))
           | None \<Rightarrow> (Some e, Err)))"

definition spec_incr_by :: "u64 \<Rightarrow> int \<Rightarrow> entry option \<Rightarrow> entry option \<times> int result" where
  "spec_incr_by now delta c =
     (case live now c of
        None \<Rightarrow> (Some (fresh (Int64 delta)), Ok delta)
      | Some e \<Rightarrow>
          (case Option.bind (string_of_val (e_value e))
                  (\<lambda>b. case i64_from_str b of Ok n \<Rightarrow> Some n | Err \<Rightarrow> None) of
             Some n \<Rightarrow> (let r = max i64_min (min i64_max (n + delta))
                        in (Some (e\<lparr>e_value := Int64 r\<rparr>), Ok r))
           | None \<Rightarrow> (Some e, Err)))"

section \<open>Every single-key operation is key-local\<close>

lemma hm_ok_data: "shard_ok s \<Longrightarrow> hm_ok (data s)"
  by (simp add: shard_ok_def)

lemma key_local_remove: "key_local k (sh_remove k) spec_remove"
  by (rule key_localI) (auto simp: spec_remove_def hm_ok_data)

lemma key_local_set: "value_ok v \<Longrightarrow> key_local k (sh_set k v x) (spec_set v x)"
  by (rule key_localI) (auto simp: sh_set_def spec_set_def hm_ok_data)

lemma key_local_set_with_expire_at:
  "value_ok v \<Longrightarrow> key_local k (sh_set_with_expire_at k v x) (spec_set v x)"
  using key_local_set [of v k x] by (simp add: key_local_def sh_set_with_expire_at_def)

lemma key_local_exists: "key_local k (sh_exists now k) (spec_exists now)"
  by (rule key_localI)
    (auto simp: sh_exists_def spec_exists_def sh_is_expired_def hm_ok_data fun_eq_iff live_def
      split: option.splits)

lemma key_local_ttl_ms: "key_local k (sh_ttl_ms now k) (spec_ttl_ms now)"
  by (rule key_localI)
    (auto simp: sh_ttl_ms_def spec_ttl_ms_def hm_ok_data live_def expired_def fun_eq_iff
      split: option.splits)

lemma key_local_set_expire_ms: "key_local k (sh_set_expire_ms now k ttl) (spec_set_expire_ms now ttl)"
  by (rule key_localI)
    (auto simp: sh_set_expire_ms_def spec_set_expire_ms_def hm_ok_data fun_eq_iff split: option.splits,
     case_tac c, auto)

lemma key_local_persist: "key_local k (sh_persist now k) (spec_persist now)"
proof (rule key_localI)
  fix c assume "cell_ok c"
  then show "cell_ok (fst (spec_persist now c))"
    by (cases "live now c") (auto simp: spec_persist_def dest!: live_SomeD)
qed (auto simp: sh_persist_def spec_persist_def sh_is_expired_def hm_ok_data live_def expired_def
    fun_eq_iff split: option.splits)

lemma key_local_value_type: "key_local k (sh_value_type now k) (spec_value_type now)"
  by (rule key_localI)
    (auto simp: sh_value_type_def spec_value_type_def sh_is_expired_def hm_ok_data live_def
      fun_eq_iff split: option.splits val.splits)

lemma key_local_get_string: "key_local k (sh_get_string now k) (spec_get_string now)"
  by (rule key_localI)
    (auto simp: sh_get_string_def spec_get_string_def Let_def hm_ok_data write_i64_bytes_eq
      split: option.splits val.splits)

lemma key_local_set_string: "key_local k (sh_set_string k v x) (spec_set (String v) x)"
  using key_local_set [of "String v" k x] by (simp add: key_local_def sh_set_string_def)

lemma key_local_set_string_ref: "key_local k (sh_set_string_ref k v x) (spec_set (String v) x)"
  by (rule key_localI)
    (auto simp: sh_set_string_ref_def spec_set_def hm_ok_data fun_eq_iff split: option.splits)

lemma key_local_set_string_from_slices:
  "key_local k (sh_set_string_from_slices k v x) (spec_set (String v) x)"
  using key_local_set_string_ref [of k v x] by (simp add: key_local_def sh_set_string_from_slices_def)

lemma key_local_set_nx: "key_local k (sh_set_nx now k v) (spec_set_nx now v)"
proof (rule key_localI)
  fix c assume "cell_ok c"
  then show "cell_ok (fst (spec_set_nx now v c))"
    by (cases "live now c") (auto simp: spec_set_nx_def dest!: live_SomeD)
qed (auto simp: sh_set_nx_def spec_set_nx_def Let_def hm_ok_data fun_eq_iff split: option.splits)

lemma key_local_append: "key_local k (sh_append now k x) (spec_append now x)"
proof (rule key_localI)
  fix c assume "cell_ok c"
  then show "cell_ok (fst (spec_append now x c))"
    by (cases "live now c") (auto simp: spec_append_def dest!: live_SomeD split: option.splits)
qed (auto simp: sh_append_def spec_append_def Let_def hm_ok_data fun_eq_iff write_i64_bytes_eq
    split: option.splits val.splits)

lemma key_local_incr_by:
  assumes "in_i64 d"
  shows "key_local k (sh_incr_by now k d) (spec_incr_by now d)"
proof (rule key_localI)
  fix c assume "cell_ok c"
  then show "cell_ok (fst (spec_incr_by now d c))"
    using assms in_i64_saturating_add
    by (cases "live now c")
      (auto simp: spec_incr_by_def Let_def i64_saturating_add_def dest!: live_SomeD split: option.splits)
next
  fix s assume s: "shard_ok s"
  have n: "in_i64 n" if "live now (shard_get s k) = Some e" "e_value e = Int64 n" for e n
    using shard_okD [OF s, of k] live_SomeD [OF that(1)] that(2) by simp
  show "shard_get (fst (sh_incr_by now k d s)) =
      (shard_get s)(k := fst (spec_incr_by now d (shard_get s k)))"
    "snd (sh_incr_by now k d s) = snd (spec_incr_by now d (shard_get s k))"
    by (auto simp: sh_incr_by_def spec_incr_by_def Let_def parse_i64_bytes_eq i64_from_str_to_string
        i64_saturating_add_def fun_eq_iff dest: n split: option.splits val.splits result.splits)
qed (auto simp: sh_incr_by_def Let_def hm_ok_data split: option.splits val.splits result.splits)

section \<open>Properties\<close>

text \<open>C16: The string commands act on the cell of their key alone and as specified: \<open>SET\<close> (all three
  variants) overwrites value and expiry time, \<open>GET\<close> returns a string or the decimal form of a counter and
  refuses other types, \<open>SETNX\<close> writes only when no live value is there, \<open>APPEND\<close> extends the text and
  \<open>INCRBY\<close> adds to the number the text denotes, with saturation at the \<open>i64\<close> bounds, or refuses; the last
  two keep the expiry time.\<close>

theorem string_commands:
  assumes "in_i64 d"
  shows "key_local k (sh_set_string k v x) (spec_set (String v) x) \<and>
    key_local k (sh_set_string_ref k v x) (spec_set (String v) x) \<and>
    key_local k (sh_set_string_from_slices k v x) (spec_set (String v) x) \<and>
    key_local k (sh_get_string now k) (spec_get_string now) \<and>
    key_local k (sh_set_nx now k v) (spec_set_nx now v) \<and>
    key_local k (sh_append now k v) (spec_append now v) \<and>
    key_local k (sh_incr_by now k d) (spec_incr_by now d)"
  by (intro conjI key_local_set_string key_local_set_string_ref key_local_set_string_from_slices
      key_local_get_string key_local_set_nx key_local_append key_local_incr_by assms)

theorem string_commands_witness:
  "key_local ''k'' (sh_incr_by 7 ''k'' 5) (spec_incr_by 7 5)"
  using string_commands [of 5 "''k''" "''v''" None 7] by (simp add: in_i64_iff)

text \<open>What a client reads back: after \<open>SET\<close>, \<open>GET\<close> returns the value; after a further \<open>APPEND\<close> it
  returns the concatenation; incrementing a key set to the decimal text of a number gives the sum when it
  is in range, and \<open>GET\<close> then returns the sum in decimal. No step changes another key.\<close>

theorem string_read_back:
  assumes "shard_ok s" and "in_i64 n" and "in_i64 d" and "in_i64 (n + d)" and "k' \<noteq> k"
  shows "snd (sh_get_string now k (fst (sh_set_string k v None s))) = Ok (Some v) \<and>
    snd (sh_get_string now k (fst (sh_append now k w (fst (sh_set_string k v None s))))) = Ok (Some (v @ w)) \<and>
    snd (sh_incr_by now k d (fst (sh_set_string k (i64_to_string n) None s))) = Ok (n + d) \<and>
    snd (sh_get_string now k (fst (sh_incr_by now k d (fst (sh_set_string k (i64_to_string n) None s))))) =
      Ok (Some (i64_to_string (n + d))) \<and>
    shard_get (fst (sh_incr_by now k d (fst (sh_set_string k v None s)))) k' = shard_get s k'"
proof -
  note s1 = key_localD [OF key_local_set_string assms(1), of k _ None]
  note ap = key_localD [OF key_local_append s1(1)]
  note inc = key_localD [OF key_local_incr_by [OF assms(3)] s1(1)]
  note g = key_localD(3) [OF key_local_get_string]
  have clamp: "max i64_min (min i64_max (n + d)) = n + d" using assms(4) by (auto simp: in_i64_def)
  show ?thesis
    using assms(5) clamp
    by (simp add: g [OF s1(1)] g [OF ap(1)] g [OF inc(1)] s1(2) ap(2) inc(2,3) spec_set_def spec_get_string_def
        spec_append_def spec_incr_by_def i64_from_str_to_string assms(2) Let_def)
qed

theorem string_read_back_witness:
  "snd (sh_incr_by 0 ''c'' 5 (fst (sh_set_string ''c'' (i64_to_string 37) None shard_default))) = Ok 42"
  using string_read_back [of shard_default 37 5 "''other''" "''c''" 0 "''v''" "''w''"]
  by (simp add: in_i64_iff)

text \<open>A key whose expiry time has passed is gone for every reader: \<open>EXISTS\<close>, \<open>TTL\<close>, \<open>TYPE\<close>, \<open>GET\<close> and
  \<open>PERSIST\<close> answer as for an absent key, and each of them deletes it.\<close>

theorem expired_key_absent:
  assumes "shard_ok s" and "shard_get s k = Some e" and "expired now e"
  shows "sh_exists now k s = (fst (sh_remove k s), False) \<and> sh_ttl_ms now k s = (fst (sh_remove k s), None) \<and>
    sh_value_type now k s = (fst (sh_remove k s), None) \<and> sh_get_string now k s = (fst (sh_remove k s), Ok None) \<and>
    sh_persist now k s = (fst (sh_remove k s), 0) \<and> shard_get (fst (sh_remove k s)) k = None"
  using assms(2,3)
  by (auto simp: sh_exists_def sh_ttl_ms_def sh_value_type_def sh_get_string_def sh_persist_def sh_is_expired_def
      expired_def expire_key_def Let_def split: option.splits)

theorem expired_key_absent_witness:
  "snd (sh_get_string 10 ''k'' (fst (sh_set_string ''k'' ''v'' (Some 9) shard_default))) = Ok None"
  using expired_key_absent [of "fst (sh_set_string ''k'' ''v'' (Some 9) shard_default)" "''k''"
      "\<lparr>e_value = String ''v'', expires_at = Some 9\<rparr>" 10] key_localD(1,2) [OF key_local_set_string shard_ok_default]
  by (simp add: spec_set_def expired_def)

text \<open>\<open>EXPIRE\<close> does not look at the old expiry time: on a key that has already expired but was not yet
  swept it returns true and the key is live again, with its old value.\<close>

theorem expire_revives:
  assumes "shard_get s k = Some e" and "expired now e" and "0 < ttl" and "unat now + unat ttl < 2 ^ 64"
  shows "snd (sh_exists now k s) = False \<and> snd (sh_set_expire_ms now k ttl s) = True \<and>
    live now (shard_get (fst (sh_set_expire_ms now k ttl s)) k) = Some (e\<lparr>expires_at := Some (now + ttl)\<rparr>)"
proof -
  have "\<not> now + ttl \<le> now" by (rule u64_later [OF assms(3,4)])
  with assms show ?thesis
    by (simp add: sh_exists_def sh_is_expired_def sh_set_expire_ms_def u64_saturating_add_def live_def expired_def)
qed

theorem expire_revives_witness:
  "live 10 (shard_get (fst (sh_set_expire_ms 10 ''k'' 5 (fst (sh_set_string ''k'' ''v'' (Some 9) shard_default)))) ''k'') =
     Some \<lparr>e_value = String ''v'', expires_at = Some 15\<rparr>"
  using expire_revives [of "fst (sh_set_string ''k'' ''v'' (Some 9) shard_default)" "''k''"
      "\<lparr>e_value = String ''v'', expires_at = Some 9\<rparr>" 10 5] key_localD(1,2) [OF key_local_set_string shard_ok_default]
  by (simp add: spec_set_def expired_def)

end
