(* ===== verification/Store_Lists.thy ===== *)
theory Store_Lists
  imports Store_Keys
begin

text \<open>
  List operations of a bucket (\<open>list_push\<close> to \<open>list_trim\<close> in \<open>src/muon_cache/store.rs\<close>). A
  \<open>VecDeque\<close> is a list. Loops with an index (\<open>LREM\<close>) are modelled as loops and shown to meet
  closed-form specifications. \<open>list_trim\<close> can panic: its result is an \<open>outcome\<close>.
\<close>

section \<open>Model\<close>

definition push_values :: "bool \<Rightarrow> bytes list \<Rightarrow> bytes list \<Rightarrow> bytes list" where
  "push_values left values list =
     (if left then fold (\<lambda>v l. v # l) values list else fold (\<lambda>v l. l @ [v]) values list)"

definition sh_list_push :: "u64 \<Rightarrow> bytes \<Rightarrow> bytes list \<Rightarrow> bool \<Rightarrow> shard \<Rightarrow> shard \<times> int result" where
  "sh_list_push now key values left s =
     (let s = expire_key now key s
      in case shard_get s key of
           Some e \<Rightarrow>
             (case e_value e of
                List list \<Rightarrow>
                  (let list = push_values left values list
                   in (shard_put key (e\<lparr>e_value := List list\<rparr>) s, Ok (int (length list))))
              | _ \<Rightarrow> (s, Err))
         | None \<Rightarrow>
             (let list = push_values left values []
              in (shard_put key (fresh (List list)) s, Ok (int (length list)))))"

definition sh_list_pop :: "u64 \<Rightarrow> bytes \<Rightarrow> bool \<Rightarrow> shard \<Rightarrow> shard \<times> bytes option result" where
  "sh_list_pop now key left s =
     (let s = expire_key now key s
      in case shard_get s key of
           Some e \<Rightarrow>
             (case e_value e of
                List list \<Rightarrow>
                  (let (out, list') =
                         (if list = [] then (None, list)
                          else if left then (Some (hd list), tl list)
                          else (Some (last list), butlast list));
                       s = shard_put key (e\<lparr>e_value := List list'\<rparr>) s
                   in (if list' = [] then fst (sh_remove key s) else s, Ok out))
              | _ \<Rightarrow> (s, Err))
         | None \<Rightarrow> (s, Ok None))"

text \<open>The index window of \<open>LRANGE\<close> and \<open>ZRANGE\<close>: \<open>None\<close> is the early \<open>return Ok(Vec::new())\<close>.\<close>

definition range_window :: "int \<Rightarrow> int \<Rightarrow> int \<Rightarrow> (nat \<times> nat) option" where
  "range_window len start stop =
     (let s = (if start < 0 then len + start else start);
          e = (if stop < 0 then len + stop else stop);
          s = (if s < 0 then 0 else s)
      in if e < 0 then None
         else if s \<ge> len then None
         else let e = (if e \<ge> len then len - 1 else e)
              in if s > e then None else Some (nat s, nat (e - s + 1)))"

text \<open>Copying \<open>cnt\<close> elements from \<open>start_idx\<close> out of the two halves of a ring buffer
  (\<open>VecDeque::as_slices\<close>).\<close>

definition copy_slices :: "bytes list \<Rightarrow> bytes list \<Rightarrow> nat \<Rightarrow> nat \<Rightarrow> bytes list" where
  "copy_slices front back start_idx cnt =
     (if start_idx < length front then
        let en = min (start_idx + cnt) (length front);
            out = take (en - start_idx) (drop start_idx front)
        in if length out < cnt
           then out @ take (min (cnt - length out) (length back)) back else out
      else let back_start = start_idx - length front;
               en = min (back_start + cnt) (length back)
           in take (en - back_start) (drop back_start back))"

definition sh_list_range ::
  "u64 \<Rightarrow> (bytes list \<Rightarrow> nat) \<Rightarrow> bytes \<Rightarrow> int \<Rightarrow> int \<Rightarrow> shard \<Rightarrow> shard \<times> bytes list result" where
  "sh_list_range now split_at key start stop s =
     (let s = expire_key now key s
      in (s, case map_option e_value (shard_get s key) of
               Some (List list) \<Rightarrow>
                 (let len = int (length list)
                  in if len = 0 then Ok []
                     else case range_window len start stop of
                            None \<Rightarrow> Ok []
                          | Some (start_idx, cnt) \<Rightarrow>
                              Ok (copy_slices (take (split_at list) list) (drop (split_at list) list)
                                    start_idx cnt))
             | Some _ \<Rightarrow> Err
             | None \<Rightarrow> Ok []))"

definition sh_list_len :: "u64 \<Rightarrow> bytes \<Rightarrow> shard \<Rightarrow> shard \<times> int result" where
  "sh_list_len now key s =
     (let s = expire_key now key s
      in (s, case map_option e_value (shard_get s key) of
               Some (List list) \<Rightarrow> Ok (int (length list)) | Some _ \<Rightarrow> Err | None \<Rightarrow> Ok 0))"

definition sh_list_index :: "u64 \<Rightarrow> bytes \<Rightarrow> int \<Rightarrow> shard \<Rightarrow> shard \<times> bytes option result" where
  "sh_list_index now key index s =
     (let s = expire_key now key s
      in (s, case map_option e_value (shard_get s key) of
               Some (List list) \<Rightarrow>
                 (let len = int (length list); idx = (if index < 0 then len + index else index)
                  in if idx < 0 \<or> idx \<ge> len then Ok None else Ok (Some (list ! nat idx)))
             | Some _ \<Rightarrow> Err
             | None \<Rightarrow> Ok None))"

definition sh_list_set :: "u64 \<Rightarrow> bytes \<Rightarrow> int \<Rightarrow> bytes \<Rightarrow> shard \<Rightarrow> shard \<times> unit result" where
  "sh_list_set now key index v s =
     (let s = expire_key now key s
      in case shard_get s key of
           Some e \<Rightarrow>
             (case e_value e of
                List list \<Rightarrow>
                  (let len = int (length list); idx = (if index < 0 then len + index else index)
                   in if idx < 0 \<or> idx \<ge> len then (s, Err)
                      else (shard_put key (e\<lparr>e_value := List (list[nat idx := v])\<rparr>) s, Ok ()))
              | _ \<Rightarrow> (s, Err))
         | None \<Rightarrow> (s, Err))"

definition sh_list_insert :: "u64 \<Rightarrow> bytes \<Rightarrow> bool \<Rightarrow> bytes \<Rightarrow> bytes \<Rightarrow> shard \<Rightarrow> shard \<times> int result" where
  "sh_list_insert now key before pivot v s =
     (let s = expire_key now key s
      in case shard_get s key of
           Some e \<Rightarrow>
             (case e_value e of
                List list \<Rightarrow>
                  (case position (\<lambda>x. x = pivot) list of
                     Some idx \<Rightarrow>
                       (let insert_at = (if before then idx else idx + 1);
                            list = take insert_at list @ v # drop insert_at list
                        in (shard_put key (e\<lparr>e_value := List list\<rparr>) s, Ok (int (length list))))
                   | None \<Rightarrow> (s, Ok (- 1)))
              | _ \<Rightarrow> (s, Err))
         | None \<Rightarrow> (s, Ok 0))"

text \<open>The three loops of \<open>LREM\<close>: \<open>retain\<close> for count 0, forward for a positive count, backward for
  a negative one. \<open>VecDeque::remove(i)\<close> deletes by index.\<close>

definition remove_at :: "nat \<Rightarrow> 'a list \<Rightarrow> 'a list" where
  "remove_at i xs = take i xs @ drop (Suc i) xs"

lemma length_remove_at [simp]: "i < length xs \<Longrightarrow> length (remove_at i xs) = length xs - 1"
  by (simp add: remove_at_def)

function lrem_forward :: "bytes \<Rightarrow> int \<Rightarrow> nat \<Rightarrow> bytes list \<Rightarrow> int \<Rightarrow> bytes list \<times> int" where
  "lrem_forward v cnt i list removed =
     (if i < length list \<and> removed < cnt then
        if list ! i = v then lrem_forward v cnt i (remove_at i list) (removed + 1)
        else lrem_forward v cnt (i + 1) list removed
      else (list, removed))"
  by pat_completeness auto
termination
  by (relation "measure (\<lambda>(v, cnt, i, list, removed). length list - i)") auto

declare lrem_forward.simps [simp del]

fun lrem_backward :: "bytes \<Rightarrow> int \<Rightarrow> nat \<Rightarrow> bytes list \<Rightarrow> int \<Rightarrow> bytes list \<times> int" where
  "lrem_backward v limit 0 list removed = (list, removed)"
| "lrem_backward v limit (Suc i) list removed =
     (if removed < limit then
        if i < length list \<and> list ! i = v then lrem_backward v limit i (remove_at i list) (removed + 1)
        else lrem_backward v limit i list removed
      else (list, removed))"

definition sh_list_rem :: "u64 \<Rightarrow> bytes \<Rightarrow> int \<Rightarrow> bytes \<Rightarrow> shard \<Rightarrow> shard \<times> int result" where
  "sh_list_rem now key cnt v s =
     (let s = expire_key now key s
      in case shard_get s key of
           Some e \<Rightarrow>
             (case e_value e of
                List list \<Rightarrow>
                  (let (list', removed) =
                         (if cnt = 0 then
                            (filter (\<lambda>x. x \<noteq> v) list, int (length (filter (\<lambda>x. x = v) list)))
                          else if cnt > 0 then lrem_forward v cnt 0 list 0
                          else lrem_backward v (i64_wrap (- cnt)) (length list) list 0);
                       s = shard_put key (e\<lparr>e_value := List list'\<rparr>) s
                   in (if list' = [] then fst (sh_remove key s) else s, Ok removed))
              | _ \<Rightarrow> (s, Err))
         | None \<Rightarrow> (s, Ok 0))"

definition sh_list_push_x :: "u64 \<Rightarrow> bytes \<Rightarrow> bytes list \<Rightarrow> bool \<Rightarrow> shard \<Rightarrow> shard \<times> int result" where
  "sh_list_push_x now key values left s =
     (let s = expire_key now key s
      in case shard_get s key of
           Some e \<Rightarrow>
             (case e_value e of
                List list \<Rightarrow>
                  (let list = push_values left values list
                   in (shard_put key (e\<lparr>e_value := List list\<rparr>) s, Ok (int (length list))))
              | _ \<Rightarrow> (s, Err))
         | None \<Rightarrow> (s, Ok 0))"

text \<open>\<open>LTRIM\<close> in a release build. \<open>(-1) as usize\<close> is the largest \<open>usize\<close>, to which \<open>e + 1\<close> adds
  without an overflow check; \<open>drain(..s)\<close> panics when \<open>s\<close> exceeds the length.\<close>

definition as_usize :: "int \<Rightarrow> nat" where
  "as_usize n = nat (n mod 2 ^ 64)"

definition usize_add :: "nat \<Rightarrow> nat \<Rightarrow> nat" where
  "usize_add a b = (a + b) mod 2 ^ 64"

definition trim_list :: "bytes list \<Rightarrow> int \<Rightarrow> int \<Rightarrow> bytes list outcome" where
  "trim_list list start stop =
     (let len = int (length list);
          s = as_usize (if start < 0 then max (len + start) 0 else min start len);
          e = as_usize (if stop < 0 then max (len + stop) (- 1) else min stop (len - 1))
      in if s > e \<or> s \<ge> length list then Done []
         else let list = take (usize_add e 1) list
              in if s > length list then Panic else Done (drop s list))"

definition sh_list_trim :: "u64 \<Rightarrow> bytes \<Rightarrow> int \<Rightarrow> int \<Rightarrow> shard \<Rightarrow> (shard \<times> unit result) outcome" where
  "sh_list_trim now key start stop s =
     (let s = expire_key now key s
      in case shard_get s key of
           Some e \<Rightarrow>
             (case e_value e of
                List list \<Rightarrow>
                  (case trim_list list start stop of
                     Panic \<Rightarrow> Panic
                   | Done list' \<Rightarrow>
                       (let s = shard_put key (e\<lparr>e_value := List list'\<rparr>) s
                        in Done (if list' = [] then fst (sh_remove key s) else s, Ok ())))
              | _ \<Rightarrow> Done (s, Err))
         | None \<Rightarrow> Done (s, Ok ()))"

section \<open>Specifications\<close>

text \<open>The elements between two inclusive bounds; a negative bound counts from the end.\<close>

definition abs_index :: "int \<Rightarrow> int \<Rightarrow> int" where
  "abs_index len i = (if i < 0 then len + i else i)"

definition list_slice :: "'a list \<Rightarrow> int \<Rightarrow> int \<Rightarrow> 'a list" where
  "list_slice xs start stop =
     nths xs {i. abs_index (int (length xs)) start \<le> int i \<and> int i \<le> abs_index (int (length xs)) stop}"

fun remove_first :: "nat \<Rightarrow> 'a \<Rightarrow> 'a list \<Rightarrow> 'a list" where
  "remove_first n v [] = []"
| "remove_first 0 v (x # xs) = x # xs"
| "remove_first (Suc n) v (x # xs) = (if x = v then remove_first n v xs else x # remove_first (Suc n) v xs)"

definition insert_around :: "bool \<Rightarrow> 'a \<Rightarrow> 'a \<Rightarrow> 'a list \<Rightarrow> 'a list" where
  "insert_around before pivot v xs =
     takeWhile (\<lambda>x. x \<noteq> pivot) xs
     @ (if before then v # dropWhile (\<lambda>x. x \<noteq> pivot) xs
        else pivot # v # tl (dropWhile (\<lambda>x. x \<noteq> pivot) xs))"

text \<open>The shape of a list command on a cell: an absent key gives a default, another type an
  error, and a list that becomes empty removes the key.\<close>

definition on_list ::
  "u64 \<Rightarrow> 'r result \<Rightarrow> (bytes list \<Rightarrow> bytes list \<times> 'r result) \<Rightarrow> entry option \<Rightarrow> entry option \<times> 'r result" where
  "on_list now dflt f c =
     (case live now c of
        None \<Rightarrow> (None, dflt)
      | Some e \<Rightarrow>
          (case e_value e of
             List l \<Rightarrow> (if fst (f l) = [] then None else Some (e\<lparr>e_value := List (fst (f l))\<rparr>), snd (f l))
           | _ \<Rightarrow> (Some e, Err)))"

definition spec_push :: "bool \<Rightarrow> bytes list \<Rightarrow> bytes list \<Rightarrow> bytes list" where
  "spec_push left values l = (if left then rev values @ l else l @ values)"

definition spec_list_push :: "u64 \<Rightarrow> bytes list \<Rightarrow> bool \<Rightarrow> entry option \<Rightarrow> entry option \<times> int result" where
  "spec_list_push now values left c =
     (if live now c = None
      then (Some (fresh (List (spec_push left values []))), Ok (int (length values)))
      else on_list now Err (\<lambda>l. (spec_push left values l, Ok (int (length l + length values)))) c)"

definition spec_list_push_x :: "u64 \<Rightarrow> bytes list \<Rightarrow> bool \<Rightarrow> entry option \<Rightarrow> entry option \<times> int result" where
  "spec_list_push_x now values left =
     on_list now (Ok 0) (\<lambda>l. (spec_push left values l, Ok (int (length l + length values))))"

definition spec_list_pop :: "u64 \<Rightarrow> bool \<Rightarrow> entry option \<Rightarrow> entry option \<times> bytes option result" where
  "spec_list_pop now left =
     on_list now (Ok None)
       (\<lambda>l. if left then (tl l, Ok (Some (hd l))) else (butlast l, Ok (Some (last l))))"

definition spec_list_range :: "u64 \<Rightarrow> int \<Rightarrow> int \<Rightarrow> entry option \<Rightarrow> entry option \<times> bytes list result" where
  "spec_list_range now start stop = on_list now (Ok []) (\<lambda>l. (l, Ok (list_slice l start stop)))"

definition spec_list_len :: "u64 \<Rightarrow> entry option \<Rightarrow> entry option \<times> int result" where
  "spec_list_len now = on_list now (Ok 0) (\<lambda>l. (l, Ok (int (length l))))"

definition spec_list_index :: "u64 \<Rightarrow> int \<Rightarrow> entry option \<Rightarrow> entry option \<times> bytes option result" where
  "spec_list_index now index =
     on_list now (Ok None)
       (\<lambda>l. (l, let i = abs_index (int (length l)) index
                in if 0 \<le> i \<and> i < int (length l) then Ok (Some (l ! nat i)) else Ok None))"

definition spec_list_set :: "u64 \<Rightarrow> int \<Rightarrow> bytes \<Rightarrow> entry option \<Rightarrow> entry option \<times> unit result" where
  "spec_list_set now index v =
     on_list now Err
       (\<lambda>l. let i = abs_index (int (length l)) index
            in if 0 \<le> i \<and> i < int (length l) then (l[nat i := v], Ok ()) else (l, Err))"

definition spec_list_insert :: "u64 \<Rightarrow> bool \<Rightarrow> bytes \<Rightarrow> bytes \<Rightarrow> entry option \<Rightarrow> entry option \<times> int result" where
  "spec_list_insert now before pivot v =
     on_list now (Ok 0)
       (\<lambda>l. if pivot \<in> set l then (insert_around before pivot v l, Ok (int (length l) + 1))
            else (l, Ok (- 1)))"

definition lrem_spec :: "int \<Rightarrow> bytes \<Rightarrow> bytes list \<Rightarrow> bytes list" where
  "lrem_spec cnt v l =
     (if cnt = 0 then filter (\<lambda>x. x \<noteq> v) l
      else if cnt > 0 then remove_first (nat cnt) v l
      else rev (remove_first (nat (- cnt)) v (rev l)))"

definition spec_list_rem :: "u64 \<Rightarrow> int \<Rightarrow> bytes \<Rightarrow> entry option \<Rightarrow> entry option \<times> int result" where
  "spec_list_rem now cnt v =
     on_list now (Ok 0) (\<lambda>l. (lrem_spec cnt v l, Ok (int (length l) - int (length (lrem_spec cnt v l)))))"

section \<open>Loops meet their specifications\<close>

lemma push_values_eq: "push_values left values l = spec_push left values l"
proof -
  have "fold (\<lambda>v l. v # l) vs l = rev vs @ l" for vs l :: "bytes list"
    by (induction vs arbitrary: l) auto
  moreover have "fold (\<lambda>v l. l @ [v]) vs l = l @ vs" for vs l :: "bytes list"
    by (induction vs arbitrary: l) auto
  ultimately show ?thesis by (simp add: push_values_def spec_push_def)
qed

lemma nths_interval: "nths xs {i. a \<le> i \<and> i < b} = take (b - a) (drop a xs)"
proof -
  have "{i. a \<le> i \<and> i < b} = (+) a ` {..<b - a}"
    by (auto simp: image_def Bex_def) presburger
  then show ?thesis by (simp add: nths_drop [symmetric] nths_upt_eq_take)
qed

lemma take_min_length: "take (min n (length xs)) xs = take n xs"
  by (simp add: min_def)

lemma copy_slices_append: "copy_slices front back i cnt = take cnt (drop i (front @ back))"
proof (cases "i < length front")
  case True
  let ?out = "take cnt (drop i front)"
  have out: "take (min (i + cnt) (length front) - i) (drop i front) = ?out"
    using True take_min_length [of cnt "drop i front"] by (simp add: min_def)
  have "copy_slices front back i cnt =
      (if length ?out < cnt then ?out @ take (cnt - length ?out) back else ?out)"
    using True unfolding copy_slices_def Let_def out by (simp add: take_min_length)
  also have "\<dots> = take cnt (drop i (front @ back))"
    using True by (auto simp: min_def)
  finally show ?thesis .
next
  case False
  have "min (i - length front + cnt) (length back) - (i - length front) =
      min cnt (length (drop (i - length front) back))" by simp
  then show ?thesis using False take_min_length [of cnt "drop (i - length front) back"]
    by (simp add: copy_slices_def Let_def)
qed

lemma list_slice_eq:
  "list_slice xs start stop =
     (let lo = nat (abs_index (int (length xs)) start); hi = nat (abs_index (int (length xs)) stop + 1)
      in take (hi - lo) (drop lo xs))"
proof -
  have "{i. a \<le> int i \<and> int i \<le> b} = {i. nat a \<le> i \<and> i < nat (b + 1)}" for a b by auto
  then show ?thesis by (simp add: list_slice_def nths_interval Let_def)
qed

lemma range_window_slice:
  "(case range_window (int (length xs)) start stop of None \<Rightarrow> []
    | Some (i, cnt) \<Rightarrow> take cnt (drop i xs)) = list_slice xs start stop"
proof -
  define n where "n = int (length xs)"
  define lo where "lo = abs_index n start"
  define hi where "hi = abs_index n stop"
  have w: "range_window n start stop =
      (if hi < 0 \<or> n \<le> max 0 lo \<or> max 0 lo > min hi (n - 1) then None
       else Some (nat lo, nat (min hi (n - 1) - max 0 lo + 1)))"
    by (auto simp: range_window_def Let_def lo_def hi_def abs_index_def max_def min_def)
  show ?thesis
  proof (cases "hi < 0 \<or> n \<le> max 0 lo \<or> max 0 lo > min hi (n - 1)")
    case True
    then have "nat (hi + 1) \<le> nat lo \<or> length xs \<le> nat lo" unfolding n_def by linarith
    then show ?thesis using True
      by (auto simp: w [unfolded n_def] list_slice_eq lo_def hi_def n_def Let_def)
  next
    case False
    have "take (nat (min hi (n - 1) - max 0 lo + 1)) (drop (nat lo) xs)
        = take (nat (hi + 1) - nat lo) (drop (nat lo) xs)"
    proof (cases "hi \<le> n - 1")
      case True
      then have "nat (min hi (n - 1) - max 0 lo + 1) = nat (hi + 1) - nat lo" using False by linarith
      then show ?thesis by simp
    next
      case big: False
      have "length (drop (nat lo) xs) \<le> nat (min hi (n - 1) - max 0 lo + 1)"
        "length (drop (nat lo) xs) \<le> nat (hi + 1) - nat lo"
        using False big unfolding length_drop n_def by linarith+
      then show ?thesis by simp
    qed
    with False show ?thesis
      by (simp add: w [unfolded n_def] list_slice_eq lo_def hi_def n_def Let_def)
  qed
qed
text \<open>\<open>LREM\<close>\<close>

lemma remove_first_0 [simp]: "remove_first 0 v xs = xs"
  by (cases xs) auto

lemma remove_first_append:
  "remove_first n v (xs @ ys) =
     remove_first n v xs @ remove_first (n - count_list xs v) v ys"
  by (induction n v xs rule: remove_first.induct) auto

lemma length_remove_first: "length (remove_first n v xs) = length xs - min n (count_list xs v)"
proof (induction n v xs rule: remove_first.induct)
  case (3 n v x xs)
  then show ?case using count_le_length [of xs v] by (auto simp: Suc_diff_le min_def)
qed auto

lemma remove_at_here: "i < length xs \<Longrightarrow> remove_at i xs = take i xs @ drop (Suc i) xs"
  by (simp add: remove_at_def)

lemma lrem_forward_eq:
  "removed \<le> cnt \<Longrightarrow> i \<le> length list \<Longrightarrow>
   lrem_forward v cnt i list removed =
     (take i list @ remove_first (nat (cnt - removed)) v (drop i list),
      removed + int (min (nat (cnt - removed)) (count_list (drop i list) v)))"
proof (induction v cnt i list removed rule: lrem_forward.induct)
  case (1 v cnt i list removed)
  show ?case
  proof (cases "i < length list \<and> removed < cnt")
    case True
    then have d: "drop i list = list ! i # drop (Suc i) list" by (simp add: Cons_nth_drop_Suc)
    have n: "nat (cnt - removed) = Suc (nat (cnt - (removed + 1)))" using True by linarith
    show ?thesis
    proof (cases "list ! i = v")
      case hit: True
      have "lrem_forward v cnt i list removed = lrem_forward v cnt i (remove_at i list) (removed + 1)"
        using True hit by (simp add: lrem_forward.simps [of v cnt i list])
      also have "\<dots> = (take i (remove_at i list) @
          remove_first (nat (cnt - (removed + 1))) v (drop i (remove_at i list)),
          removed + 1 + int (min (nat (cnt - (removed + 1))) (count_list (drop i (remove_at i list)) v)))"
        using True hit by (intro "1.IH"(1)) auto
      also have "drop i (remove_at i list) = drop (Suc i) list" using True by (simp add: remove_at_def)
      also have "take i (remove_at i list) = take i list" using True by (simp add: remove_at_def)
      finally show ?thesis using hit by (simp add: d n)
    next
      case miss: False
      have "lrem_forward v cnt i list removed = lrem_forward v cnt (i + 1) list removed"
        using True miss by (simp add: lrem_forward.simps [of v cnt i list])
      also have "\<dots> = (take (i + 1) list @ remove_first (nat (cnt - removed)) v (drop (i + 1) list),
          removed + int (min (nat (cnt - removed)) (count_list (drop (i + 1) list) v)))"
        using True miss by (intro "1.IH"(2)) auto
      finally show ?thesis using True miss by (simp add: d n take_Suc_conv_app_nth)
    qed
  next
    case False
    then have "cnt \<le> removed \<or> drop i list = []" by auto
    with False show ?thesis using "1.prems" by (auto simp: lrem_forward.simps [of v cnt i list])
  qed
qed

lemma count_list_rev: "count_list (rev xs) v = count_list xs v"
  by (induction xs) auto

lemma lrem_backward_eq:
  "i \<le> length list \<Longrightarrow>
   lrem_backward v limit i list removed =
     (rev (remove_first (nat (limit - removed)) v (rev (take i list))) @ drop i list,
      removed + int (min (nat (limit - removed)) (count_list (take i list) v)))"
proof (induction v limit i list removed rule: lrem_backward.induct)
  case (2 v limit i list removed)
  have i: "i < length list" using "2.prems" by simp
  then have t: "take (Suc i) list = take i list @ [list ! i]" by (simp add: take_Suc_conv_app_nth)
  have d: "drop i list = list ! i # drop (Suc i) list" using i by (simp add: Cons_nth_drop_Suc)
  show ?case
  proof (cases "removed < limit")
    case True
    then have n: "nat (limit - removed) = Suc (nat (limit - (removed + 1)))" by linarith
    show ?thesis
    proof (cases "list ! i = v")
      case hit: True
      have "lrem_backward v limit (Suc i) list removed =
          lrem_backward v limit i (remove_at i list) (removed + 1)" using True hit i by simp
      also have "\<dots> = (rev (remove_first (nat (limit - (removed + 1))) v (rev (take i (remove_at i list))))
            @ drop i (remove_at i list),
          removed + 1 + int (min (nat (limit - (removed + 1))) (count_list (take i (remove_at i list)) v)))"
        using True hit i by (intro "2.IH"(1)) auto
      also have "take i (remove_at i list) = take i list" using i by (simp add: remove_at_def)
      also have "drop i (remove_at i list) = drop (Suc i) list" using i by (simp add: remove_at_def)
      finally show ?thesis using hit by (simp add: t n)
    next
      case miss: False
      with True i "2.IH"(2) have "lrem_backward v limit (Suc i) list removed =
          (rev (remove_first (nat (limit - removed)) v (rev (take i list))) @ drop i list,
           removed + int (min (nat (limit - removed)) (count_list (take i list) v)))" by simp
      with miss show ?thesis by (simp add: t n d)
    qed
  next
    case False
    then show ?thesis using t d id_take_nth_drop [OF i] by simp
  qed
qed simp

text \<open>The count of \<open>i64::MIN\<close> negates to itself, so the loop then removes nothing: the closed form
  holds for every other count.\<close>

lemma lrem_loops:
  assumes "in_i64 cnt" and "cnt \<noteq> i64_min"
  shows "(if cnt = 0 then (filter (\<lambda>x. x \<noteq> v) l, int (length (filter (\<lambda>x. x = v) l)))
          else if cnt > 0 then lrem_forward v cnt 0 l 0
          else lrem_backward v (i64_wrap (- cnt)) (length l) l 0) =
         (lrem_spec cnt v l, int (length l) - int (length (lrem_spec cnt v l)))"
proof -
  have w: "i64_wrap (- cnt) = - cnt" using assms by (intro i64_wrap_id) (auto simp: in_i64_iff i64_bounds_eval)
  have "length (filter (\<lambda>x. x = v) l) + length (filter (\<lambda>x. x \<noteq> v) l) = length l"
    using sum_length_filter_compl [of "\<lambda>x. x = v" l] by simp
  moreover have "int (min n (count_list l v)) = int (length l) - int (length l - min n (count_list l v))" for n
    using count_le_length [of l v] by auto
  ultimately show ?thesis
    by (auto simp: lrem_spec_def lrem_forward_eq lrem_backward_eq w length_remove_first count_list_rev)
qed

section \<open>LTRIM\<close>

text \<open>The panic: a stop before the first element together with a start inside the list but not
  at its head.\<close>

definition trim_panics :: "bytes list \<Rightarrow> int \<Rightarrow> int \<Rightarrow> bool" where
  "trim_panics l start stop \<longleftrightarrow>
     abs_index (int (length l)) stop < 0 \<and>
     0 < abs_index (int (length l)) start \<and> abs_index (int (length l)) start < int (length l)"

lemma as_usize_small: "0 \<le> n \<Longrightarrow> n < 2 ^ 64 \<Longrightarrow> as_usize n = nat n"
  by (simp add: as_usize_def mod_pos_pos_trivial)

lemma as_usize_minus_1: "as_usize (- 1) = 2 ^ 64 - 1"
  by (simp add: as_usize_def zmod_minus1 nat_diff_distrib)

lemma trim_list_eq:
  assumes l: "l \<noteq> []" "int (length l) \<le> i64_max"
  shows "trim_list l start stop =
     (if trim_panics l start stop then Panic else Done (list_slice l start stop))"
proof -
  define n where "n = int (length l)"
  define lo where "lo = abs_index n start"
  define hi where "hi = abs_index n stop"
  have n: "0 < n" "n < 2 ^ 63" using l by (auto simp: n_def i64_bounds_eval)
  have s: "as_usize (if start < 0 then max (n + start) 0 else min start n) = nat (min lo n)"
    using n by (subst as_usize_small) (auto simp: lo_def abs_index_def max_def min_def)
  have sl: "list_slice l start stop = take (nat (hi + 1) - nat lo) (drop (nat lo) l)"
    by (simp add: list_slice_eq lo_def hi_def n_def Let_def)
  show ?thesis
  proof (cases "hi < 0")
    case True
    then have e: "as_usize (if stop < 0 then max (n + stop) (- 1) else min stop (n - 1)) = 2 ^ 64 - 1"
      using n as_usize_minus_1 by (auto simp: hi_def abs_index_def max_def split: if_splits)
    have "list_slice l start stop = []" using True by (simp add: sl)
    moreover have "\<not> nat (min lo n) > 2 ^ 64 - 1" using n by (simp add: min_def) linarith
    moreover have "nat (min lo n) \<ge> length l \<longleftrightarrow> n \<le> lo" using n unfolding n_def by linarith
    moreover have "usize_add (2 ^ 64 - 1) 1 = 0" by (simp add: usize_add_def)
    ultimately show ?thesis
      using True s e n unfolding trim_list_def trim_panics_def Let_def n_def [symmetric]
        lo_def [symmetric] hi_def [symmetric]
      by auto
  next
    case False
    then have e: "as_usize (if stop < 0 then max (n + stop) (- 1) else min stop (n - 1)) = nat (min hi (n - 1))"
      using n by (subst as_usize_small) (auto simp: hi_def abs_index_def max_def min_def)
    have e1: "usize_add (nat (min hi (n - 1))) 1 = nat (min hi (n - 1) + 1)"
      using False n by (auto simp: usize_add_def min_def nat_add_distrib)
    have np: "\<not> trim_panics l start stop"
      using False by (simp add: trim_panics_def hi_def n_def)
    show ?thesis
    proof (cases "nat (min lo n) > nat (min hi (n - 1)) \<or> nat (min lo n) \<ge> length l")
      case empty: True
      then have "nat (hi + 1) - nat lo = 0 \<or> length l \<le> nat lo"
        using False n unfolding n_def by linarith
      then have "list_slice l start stop = []" by (auto simp: sl)
      with empty np s e show ?thesis
        unfolding trim_list_def Let_def n_def [symmetric] by simp
    next
      case keep: False
      then have "nat (min lo n) = nat lo" and le: "nat lo \<le> nat (min hi (n - 1))" and "nat lo < length l"
        using n unfolding n_def by linarith+
      moreover have "\<not> nat lo > length (take (nat (min hi (n - 1) + 1)) l)"
        using le \<open>nat lo < length l\<close> False n by (auto simp: n_def)
      moreover have "drop (nat lo) (take (nat (min hi (n - 1) + 1)) l) = list_slice l start stop"
        using False n unfolding sl drop_take
        by (cases "hi \<le> n - 1") (auto simp: n_def)
      ultimately show ?thesis
        using keep np unfolding trim_list_def Let_def n_def [symmetric] s e e1 by auto
    qed
  qed
qed

section \<open>Every list operation is key-local\<close>

lemma on_list_ok:
  assumes "cell_ok c"
  shows "cell_ok (fst (on_list now dflt f c))"
  using assms by (auto simp: on_list_def dest!: live_SomeD split: option.splits val.splits)

text \<open>The last step of \<open>LPOP\<close>, \<open>LREM\<close> and \<open>LTRIM\<close>: store the shortened list, or remove the key.\<close>

lemma shard_get_store_or_remove:
  "shard_get (if l = [] then fst (sh_remove k (shard_put k e s)) else shard_put k e s) =
     (shard_get s)(k := if l = [] then None else Some e)"
  by (auto simp: fun_eq_iff)

lemmas list_op_simps = on_list_def Let_def hm_ok_data fun_eq_iff push_values_eq

lemma spec_push_nonempty: "values \<noteq> [] \<or> l \<noteq> [] \<Longrightarrow> spec_push left values l \<noteq> []"
  by (auto simp: spec_push_def)

lemma length_spec_push [simp]: "length (spec_push left values l) = length l + length values"
  by (simp add: spec_push_def)

text \<open>In a well-formed bucket a live list is not empty.\<close>

lemma live_list_nonempty:
  assumes "shard_ok s" and "live now (shard_get s k) = Some e" and "e_value e = List l"
  shows "l \<noteq> []"
  using shard_okD [OF assms(1), of k] live_SomeD [OF assms(2)] assms(3) by auto

lemma key_local_list_push:
  assumes "values \<noteq> []"
  shows "key_local k (sh_list_push now k values left) (spec_list_push now values left)"
proof (rule key_localI)
  fix c assume "cell_ok c"
  then show "cell_ok (fst (spec_list_push now values left c))"
    using on_list_ok [of c now] assms by (auto simp: spec_list_push_def spec_push_nonempty)
qed (auto simp: sh_list_push_def spec_list_push_def list_op_simps spec_push_nonempty assms
    split: option.splits val.splits)

lemma key_local_list_push_x:
  assumes "values \<noteq> []"
  shows "key_local k (sh_list_push_x now k values left) (spec_list_push_x now values left)"
proof (rule key_localI)
  fix c assume "cell_ok c"
  then show "cell_ok (fst (spec_list_push_x now values left c))"
    by (simp add: spec_list_push_x_def on_list_ok)
qed (auto simp: sh_list_push_x_def spec_list_push_x_def list_op_simps spec_push_nonempty assms
    split: option.splits val.splits)

lemma key_local_list_pop: "key_local k (sh_list_pop now k left) (spec_list_pop now left)"
proof (rule key_localI)
  fix c assume "cell_ok c"
  then show "cell_ok (fst (spec_list_pop now left c))" by (simp add: spec_list_pop_def on_list_ok)
next
  fix s assume s: "shard_ok s"
  show "shard_get (fst (sh_list_pop now k left s)) =
      (shard_get s)(k := fst (spec_list_pop now left (shard_get s k)))"
    "snd (sh_list_pop now k left s) = snd (spec_list_pop now left (shard_get s k))"
    by (auto simp: sh_list_pop_def spec_list_pop_def list_op_simps
        dest: live_list_nonempty [OF s] split: option.splits val.splits)
qed (auto simp: sh_list_pop_def list_op_simps split: option.splits val.splits)

lemma key_local_list_range:
  "key_local k (sh_list_range now split_at k start stop) (spec_list_range now start stop)"
proof (rule key_localI)
  fix c assume "cell_ok c"
  then show "cell_ok (fst (spec_list_range now start stop c))" by (simp add: spec_list_range_def on_list_ok)
next
  fix s assume s: "shard_ok s"
  have win: "range_window (int (length l)) start stop = None \<Longrightarrow> list_slice l start stop = []"
    "range_window (int (length l)) start stop = Some (i, cnt) \<Longrightarrow> take cnt (drop i l) = list_slice l start stop"
    for l :: "bytes list" and i cnt
    using range_window_slice [of l start stop] by (auto split: option.splits)
  show "shard_get (fst (sh_list_range now split_at k start stop s)) =
      (shard_get s)(k := fst (spec_list_range now start stop (shard_get s k)))"
    "snd (sh_list_range now split_at k start stop s) = snd (spec_list_range now start stop (shard_get s k))"
    by (auto simp: sh_list_range_def spec_list_range_def list_op_simps copy_slices_append win
        dest: live_list_nonempty [OF s] split: option.splits val.splits)
qed (auto simp: sh_list_range_def list_op_simps)

lemma key_local_list_len: "key_local k (sh_list_len now k) (spec_list_len now)"
proof (rule key_localI)
  fix c assume "cell_ok c"
  then show "cell_ok (fst (spec_list_len now c))" by (simp add: spec_list_len_def on_list_ok)
next
  fix s assume s: "shard_ok s"
  show "shard_get (fst (sh_list_len now k s)) = (shard_get s)(k := fst (spec_list_len now (shard_get s k)))"
    "snd (sh_list_len now k s) = snd (spec_list_len now (shard_get s k))"
    by (auto simp: sh_list_len_def spec_list_len_def list_op_simps
        dest: live_list_nonempty [OF s] split: option.splits val.splits)
qed (auto simp: sh_list_len_def list_op_simps)

lemma key_local_list_index: "key_local k (sh_list_index now k index) (spec_list_index now index)"
proof (rule key_localI)
  fix c assume "cell_ok c"
  then show "cell_ok (fst (spec_list_index now index c))" by (simp add: spec_list_index_def on_list_ok)
next
  fix s assume s: "shard_ok s"
  show "shard_get (fst (sh_list_index now k index s)) =
      (shard_get s)(k := fst (spec_list_index now index (shard_get s k)))"
    "snd (sh_list_index now k index s) = snd (spec_list_index now index (shard_get s k))"
    by (auto simp: sh_list_index_def spec_list_index_def list_op_simps abs_index_def
        dest: live_list_nonempty [OF s] split: option.splits val.splits)
qed (auto simp: sh_list_index_def list_op_simps)

lemma key_local_list_set: "key_local k (sh_list_set now k index v) (spec_list_set now index v)"
proof (rule key_localI)
  fix c assume "cell_ok c"
  then show "cell_ok (fst (spec_list_set now index v c))" by (simp add: spec_list_set_def on_list_ok)
next
  fix s assume s: "shard_ok s"
  show "shard_get (fst (sh_list_set now k index v s)) =
      (shard_get s)(k := fst (spec_list_set now index v (shard_get s k)))"
    "snd (sh_list_set now k index v s) = snd (spec_list_set now index v (shard_get s k))"
    by (auto simp: sh_list_set_def spec_list_set_def list_op_simps abs_index_def
        dest: live_list_nonempty [OF s] split: option.splits val.splits)
qed (auto simp: sh_list_set_def list_op_simps split: option.splits val.splits)

lemma insert_at_position:
  assumes "position (\<lambda>x. x = pivot) l = Some i"
  shows "take (if before then i else i + 1) l @ v # drop (if before then i else i + 1) l =
         insert_around before pivot v l"
proof -
  from position_SomeD [OF assms] have i: "i < length l" "l ! i = pivot" "\<forall>j < i. l ! j \<noteq> pivot" by auto
  have l: "l = take i l @ pivot # drop (Suc i) l" using id_take_nth_drop [OF i(1)] i(2) by simp
  have pre: "\<forall>x \<in> set (take i l). x \<noteq> pivot" using i by (auto simp: in_set_conv_nth)
  have "takeWhile (\<lambda>x. x \<noteq> pivot) l = take i l" "dropWhile (\<lambda>x. x \<noteq> pivot) l = pivot # drop (Suc i) l"
    using pre by (subst l, simp add: takeWhile_append2, subst l, simp add: dropWhile_append2)
  moreover have "drop i l = pivot # drop (Suc i) l" "take (Suc i) l = take i l @ [pivot]"
    using i by (simp_all add: Cons_nth_drop_Suc [symmetric] take_Suc_conv_app_nth)
  ultimately show ?thesis by (simp add: insert_around_def)
qed

lemma length_insert_around: "pivot \<in> set l \<Longrightarrow> length (insert_around before pivot v l) = Suc (length l)"
proof -
  assume "pivot \<in> set l"
  then have "dropWhile (\<lambda>x. x \<noteq> pivot) l \<noteq> []" by (simp add: dropWhile_eq_Nil_conv)
  moreover have "length (takeWhile (\<lambda>x. x \<noteq> pivot) l) + length (dropWhile (\<lambda>x. x \<noteq> pivot) l) = length l"
    by (metis length_append takeWhile_dropWhile_id)
  ultimately show ?thesis by (cases "dropWhile (\<lambda>x. x \<noteq> pivot) l") (auto simp: insert_around_def)
qed

lemma insert_list_step:
  "(case position (\<lambda>x. x = pivot) l of
      Some idx \<Rightarrow>
        (let insert_at = (if before then idx else idx + 1);
             list = take insert_at l @ v # drop insert_at l
         in (shard_put k (e\<lparr>e_value := List list\<rparr>) s, Ok (int (length list))))
    | None \<Rightarrow> (s, Ok (- 1))) =
   (if pivot \<in> set l
    then (shard_put k (e\<lparr>e_value := List (insert_around before pivot v l)\<rparr>) s, Ok (int (length l) + 1))
    else (s, Ok (- 1)))"
proof (cases "position (\<lambda>x. x = pivot) l")
  case None
  then have "pivot \<notin> set l" by (auto simp: position_None_iff)
  with None show ?thesis by simp
next
  case (Some i)
  then have "pivot \<in> set l" using position_SomeD [OF Some] nth_mem [of i l] by auto
  then show ?thesis
    unfolding Some Let_def option.case insert_at_position [OF Some] by (simp add: length_insert_around)
qed

lemma key_local_list_insert:
  "key_local k (sh_list_insert now k before pivot v) (spec_list_insert now before pivot v)"
proof (rule key_localI)
  fix c assume "cell_ok c"
  then show "cell_ok (fst (spec_list_insert now before pivot v c))"
    by (simp add: spec_list_insert_def on_list_ok)
next
  have ne: "insert_around before pivot v l \<noteq> []" for l :: "bytes list"
    by (simp add: insert_around_def)
  fix s assume s: "shard_ok s"
  show "shard_get (fst (sh_list_insert now k before pivot v s)) =
      (shard_get s)(k := fst (spec_list_insert now before pivot v (shard_get s k)))"
    "snd (sh_list_insert now k before pivot v s) = snd (spec_list_insert now before pivot v (shard_get s k))"
    unfolding sh_list_insert_def insert_list_step
    by (auto simp: spec_list_insert_def list_op_simps ne
        dest: live_list_nonempty [OF s] split: option.splits val.splits)
qed (auto simp: sh_list_insert_def list_op_simps split: option.splits val.splits)

lemma key_local_list_rem:
  assumes "in_i64 cnt" and "cnt \<noteq> i64_min"
  shows "key_local k (sh_list_rem now k cnt v) (spec_list_rem now cnt v)"
proof (rule key_localI)
  fix c assume "cell_ok c"
  then show "cell_ok (fst (spec_list_rem now cnt v c))" by (simp add: spec_list_rem_def on_list_ok)
next
  fix s assume s: "shard_ok s"
  show "shard_get (fst (sh_list_rem now k cnt v s)) =
      (shard_get s)(k := fst (spec_list_rem now cnt v (shard_get s k)))"
    "snd (sh_list_rem now k cnt v s) = snd (spec_list_rem now cnt v (shard_get s k))"
    unfolding sh_list_rem_def lrem_loops [OF assms] Let_def prod.case
    by (auto simp: spec_list_rem_def list_op_simps split: option.splits val.splits)
qed (auto simp: sh_list_rem_def list_op_simps split: option.splits val.splits prod.splits)

text \<open>The negation of \<open>i64::MIN\<close> wraps around and stays negative, so the loop from the end stops before its first
  step.\<close>

definition spec_list_rem_min :: "u64 \<Rightarrow> entry option \<Rightarrow> entry option \<times> int result" where
  "spec_list_rem_min now = on_list now (Ok 0) (\<lambda>l. (l, Ok 0))"

lemma lrem_backward_min: "lrem_backward v (i64_wrap (- i64_min)) n l 0 = (l, 0)"
  by (cases n) (simp_all add: i64_wrap_eval i64_bounds_eval)

lemma key_local_list_rem_min: "key_local k (sh_list_rem now k i64_min v) (spec_list_rem_min now)"
proof (rule key_localI)
  fix c assume "cell_ok c"
  then show "cell_ok (fst (spec_list_rem_min now c))" by (simp add: spec_list_rem_min_def on_list_ok)
next
  fix s assume s: "shard_ok s"
  have "i64_min < 0" by (simp add: i64_bounds_eval)
  then show "shard_get (fst (sh_list_rem now k i64_min v s)) = (shard_get s)(k := fst (spec_list_rem_min now (shard_get s k)))"
    "snd (sh_list_rem now k i64_min v s) = snd (spec_list_rem_min now (shard_get s k))"
    by (auto simp: sh_list_rem_def spec_list_rem_min_def lrem_backward_min Let_def list_op_simps
        dest: live_list_nonempty [OF s] split: option.splits val.splits)
qed (auto simp: sh_list_rem_def list_op_simps split: option.splits val.splits prod.splits)

text \<open>\<open>LTRIM\<close> may panic; when it does not, it acts on the cell like the slice it keeps.\<close>

definition spec_list_trim :: "u64 \<Rightarrow> int \<Rightarrow> int \<Rightarrow> entry option \<Rightarrow> entry option \<times> unit result" where
  "spec_list_trim now start stop = on_list now (Ok ()) (\<lambda>l. (list_slice l start stop, Ok ()))"

definition trim_panics_at :: "u64 \<Rightarrow> int \<Rightarrow> int \<Rightarrow> entry option \<Rightarrow> bool" where
  "trim_panics_at now start stop c =
     (case map_option e_value (live now c) of Some (List l) \<Rightarrow> trim_panics l start stop | _ \<Rightarrow> False)"

definition list_fits :: "entry option \<Rightarrow> bool" where
  "list_fits c = (case map_option e_value c of Some (List l) \<Rightarrow> int (length l) \<le> i64_max | _ \<Rightarrow> True)"

lemma sh_list_trim_cases:
  assumes s: "shard_ok s" and fits: "list_fits (shard_get s k)"
  shows "trim_panics_at now start stop (shard_get s k) \<Longrightarrow> sh_list_trim now k start stop s = Panic"
    and "\<not> trim_panics_at now start stop (shard_get s k) \<Longrightarrow>
      \<exists>s'. sh_list_trim now k start stop s = Done (s', snd (spec_list_trim now start stop (shard_get s k)))
        \<and> shard_ok s'
        \<and> shard_get s' = (shard_get s)(k := fst (spec_list_trim now start stop (shard_get s k)))"
proof -
  have ne: "l \<noteq> []" "int (length l) \<le> i64_max"
    if "live now (shard_get s k) = Some e" "e_value e = List l" for e l
    using live_list_nonempty [OF s that] fits live_SomeD [OF that(1)] that(2)
    by (auto simp: list_fits_def)
  note tl = trim_list_eq [OF ne]
  show "trim_panics_at now start stop (shard_get s k) \<Longrightarrow> sh_list_trim now k start stop s = Panic"
    by (auto simp: trim_panics_at_def sh_list_trim_def Let_def tl split: option.splits val.splits)
  assume np: "\<not> trim_panics_at now start stop (shard_get s k)"
  have ok: "cell_ok (fst (spec_list_trim now start stop (shard_get s k)))"
    using shard_okD [OF s, of k] by (simp add: spec_list_trim_def on_list_ok)
  obtain s' where s': "sh_list_trim now k start stop s = Done (s', snd (spec_list_trim now start stop (shard_get s k)))"
    and g: "shard_get s' = (shard_get s)(k := fst (spec_list_trim now start stop (shard_get s k)))"
    and d: "hm_ok (data s')"
    using np hm_ok_data [OF s]
    by (auto simp: trim_panics_at_def sh_list_trim_def spec_list_trim_def list_op_simps tl
        split: option.splits val.splits)
  then show "\<exists>s'. sh_list_trim now k start stop s = Done (s', snd (spec_list_trim now start stop (shard_get s k)))
      \<and> shard_ok s' \<and> shard_get s' = (shard_get s)(k := fst (spec_list_trim now start stop (shard_get s k)))"
    using shard_ok_update [OF s d g ok] by blast
qed

lemma sh_list_trim_outcome:
  assumes "shard_ok s" and "list_fits (shard_get s k)"
  shows "(sh_list_trim now k start stop s = Panic \<longleftrightarrow> trim_panics_at now start stop (shard_get s k)) \<and>
    (\<not> trim_panics_at now start stop (shard_get s k) \<longrightarrow>
      (\<exists>s'. sh_list_trim now k start stop s = Done (s', snd (spec_list_trim now start stop (shard_get s k))) \<and>
        shard_ok s' \<and> shard_get s' = (shard_get s)(k := fst (spec_list_trim now start stop (shard_get s k)))))"
  using sh_list_trim_cases [OF assms, of now start stop]
  by (cases "trim_panics_at now start stop (shard_get s k)") auto

section \<open>Properties\<close>

text \<open>C15: Every list operation acts on the cell of its key alone and as specified on the list it holds: pushes of at
  least one value at either end (the handlers refuse a push without values), pops, \<open>LRANGE\<close> as the slice between
  two possibly negative positions (whatever the split of the ring buffer into its two halves), \<open>LINDEX\<close>, \<open>LSET\<close>,
  \<open>LINSERT\<close> around the first occurrence of the pivot, \<open>LREM\<close> of the first or last occurrences (with the count
  \<open>i64::MIN\<close> it removes nothing), and \<open>LTRIM\<close> to a slice, except that \<open>LTRIM\<close> panics exactly when the end position lies
  before the list and the start position inside it behind the first element. A list that becomes empty is removed,
  the expiry time is kept, a key of another type is refused unchanged.\<close>

theorem list_commands:
  assumes "values \<noteq> []" and "in_i64 cnt"
  shows "key_local k (sh_list_push now k values left) (spec_list_push now values left) \<and>
    key_local k (sh_list_push_x now k values left) (spec_list_push_x now values left) \<and>
    key_local k (sh_list_pop now k left) (spec_list_pop now left) \<and>
    key_local k (sh_list_range now split_at k start stop) (spec_list_range now start stop) \<and>
    key_local k (sh_list_len now k) (spec_list_len now) \<and>
    key_local k (sh_list_index now k index) (spec_list_index now index) \<and>
    key_local k (sh_list_set now k index v) (spec_list_set now index v) \<and>
    key_local k (sh_list_insert now k before pivot v) (spec_list_insert now before pivot v) \<and>
    key_local k (sh_list_rem now k cnt v) (if cnt = i64_min then spec_list_rem_min now else spec_list_rem now cnt v) \<and>
    (shard_ok s \<and> list_fits (shard_get s k) \<longrightarrow>
      (sh_list_trim now k start stop s = Panic \<longleftrightarrow> trim_panics_at now start stop (shard_get s k)) \<and>
      (\<not> trim_panics_at now start stop (shard_get s k) \<longrightarrow>
        (\<exists>s'. sh_list_trim now k start stop s = Done (s', snd (spec_list_trim now start stop (shard_get s k))) \<and>
          shard_ok s' \<and> shard_get s' = (shard_get s)(k := fst (spec_list_trim now start stop (shard_get s k))))))"
proof (intro conjI key_local_list_push key_local_list_push_x key_local_list_pop key_local_list_range
      key_local_list_len key_local_list_index key_local_list_set key_local_list_insert assms)
  show "key_local k (sh_list_rem now k cnt v) (if cnt = i64_min then spec_list_rem_min now else spec_list_rem now cnt v)"
    using key_local_list_rem [OF assms(2)] key_local_list_rem_min by simp
qed (use sh_list_trim_outcome in blast)

theorem list_commands_witness:
  "key_local ''l'' (sh_list_rem 0 ''l'' (- 2) ''x'') (spec_list_rem 0 (- 2) ''x'')"
  using list_commands [of "[''x'']" "- 2" "''l''" 0 True "\<lambda>_. 0" 0 0 0 "''x''" True "''p''" shard_default]
  by (simp add: in_i64_iff i64_bounds_eval)

lemma list_slice_all: "list_slice l 0 (- 1) = l"
  by (simp add: list_slice_eq abs_index_def)

text \<open>What is pushed is read back in order: \<open>LRANGE 0 -1\<close> after a push returns the old elements with the
  new ones behind them, or in front of them and reversed for \<open>LPUSH\<close>, also when the list did not exist.\<close>

theorem list_push_read_back:
  assumes "shard_ok s" and "values \<noteq> []"
    and "case live now (shard_get s k) of None \<Rightarrow> l = [] | Some e \<Rightarrow> e_value e = List l"
  shows "snd (sh_list_range now split_at k 0 (- 1) (fst (sh_list_push now k values left s))) =
    Ok (if left then rev values @ l else l @ values)"
proof -
  note p = key_localD [OF key_local_list_push [OF assms(2), of k now left] assms(1)]
  note r = key_localD(3) [OF key_local_list_range [of k now split_at 0 "- 1"] p(1)]
  have "\<exists>e. live now (fst (spec_list_push now values left (shard_get s k))) = Some e \<and>
      e_value e = List (spec_push left values l)"
  proof (cases "live now (shard_get s k)")
    case None
    with assms(3) show ?thesis by (simp add: spec_list_push_def)
  next
    case (Some e)
    with assms show ?thesis
      by (auto simp: spec_list_push_def on_list_def spec_push_nonempty live_def expired_def split: option.splits if_splits)
  qed
  then show ?thesis using r p(2) by (auto simp: spec_list_range_def on_list_def list_slice_all spec_push_def)
qed

theorem list_push_read_back_witness:
  "snd (sh_list_range 0 (\<lambda>_. 0) ''l'' 0 (- 1) (fst (sh_list_push 0 ''l'' [''a'', ''b''] True shard_default))) =
     Ok [''b'', ''a'']"
proof -
  have "snd (sh_list_range 0 (\<lambda>_. 0) ''l'' 0 (- 1) (fst (sh_list_push 0 ''l'' [''a'', ''b''] True shard_default))) =
      Ok (if True then rev [''a'', ''b''] @ [] else [] @ [''a'', ''b''])"
    by (rule list_push_read_back [OF shard_ok_default]) simp_all
  then show ?thesis by simp
qed

text \<open>\<open>LTRIM key 1 -100\<close> panics on a list of two elements.\<close>

theorem list_trim_panics:
  "sh_list_trim 0 ''l'' 1 (- 100) (fst (sh_list_push 0 ''l'' [''a'', ''b''] False shard_default)) = Panic"
proof -
  note p = key_localD [OF key_local_list_push [of "[''a'', ''b'']" "''l''" 0 False] shard_ok_default]
  have g: "shard_get (fst (sh_list_push 0 ''l'' [''a'', ''b''] False shard_default)) ''l'' =
      Some (fresh (List [''a'', ''b'']))"
    using p(2) by (simp add: spec_list_push_def spec_push_def)
  show ?thesis
    using sh_list_trim_outcome [OF p(1), of "''l''" 0 1 "- 100"]
    by (simp add: g list_fits_def i64_bounds_eval trim_panics_at_def trim_panics_def abs_index_def)
qed

end
