(* ===== verification/Cell_View.thy ===== *)
theory Cell_View
  imports Store_Keys
begin

text \<open>
  The contract shared by the hash, set and sorted-set commands. A collection type is a
  constructor of \<open>val\<close> together with what its representation stands for: a map for a hash, a set
  for a set. The commands are specified on that abstract content and on the expiry time of the
  key; an absent key is the empty collection without expiry, and a collection that becomes empty
  is removed with its expiry time. The locale \<open>collection\<close> states what a type has to provide, and
  shows once that a key-local command in the common shape implements its abstract specification.
\<close>

section \<open>Commands on one collection\<close>

text \<open>The common shape of a command: an absent (or expired) key gives \<open>dflt\<close>, a key of another type
  is left alone and gives an error, otherwise the content is updated by \<open>f\<close>.\<close>

definition on_coll ::
  "('c \<Rightarrow> val) \<Rightarrow> (val \<Rightarrow> 'c option) \<Rightarrow> ('c \<Rightarrow> bool) \<Rightarrow> u64 \<Rightarrow> entry option \<times> 'r result \<Rightarrow>
   ('c \<Rightarrow> 'c \<times> 'r result) \<Rightarrow> entry option \<Rightarrow> entry option \<times> 'r result" where
  "on_coll con out none now dflt f c =
     (case live now c of
        None \<Rightarrow> dflt
      | Some e \<Rightarrow>
          (case out (e_value e) of
             Some x \<Rightarrow> (if none (fst (f x)) then None else Some (e\<lparr>e_value := con (fst (f x))\<rparr>), snd (f x))
           | None \<Rightarrow> (Some e, Err)))"

text \<open>What a client sees of a cell: the content and the expiry time, or a type error.\<close>

definition coll_view ::
  "(val \<Rightarrow> 'c option) \<Rightarrow> ('c \<Rightarrow> 'a) \<Rightarrow> 'a \<Rightarrow> u64 \<Rightarrow> entry option \<Rightarrow> ('a \<times> u64 option) result" where
  "coll_view out cont zero now c =
     (case live now c of
        None \<Rightarrow> Ok (zero, None)
      | Some e \<Rightarrow> (case out (e_value e) of Some x \<Rightarrow> Ok (cont x, expires_at e) | None \<Rightarrow> Err))"

text \<open>A bucket operation implements an abstract command when it keeps the bucket well-formed,
  touches no other key, refuses a key of another type without changing it, and otherwise changes
  the content by \<open>F\<close> and returns a result allowed by \<open>R\<close>.\<close>

definition implements ::
  "(entry option \<Rightarrow> ('a \<times> u64 option) result) \<Rightarrow> 'a \<Rightarrow> bytes \<Rightarrow> (shard \<Rightarrow> shard \<times> 'r result) \<Rightarrow>
   ('a \<Rightarrow> 'a) \<Rightarrow> ('a \<Rightarrow> 'r result \<Rightarrow> bool) \<Rightarrow> bool" where
  "implements view zero k f F R \<longleftrightarrow> (\<forall>s. shard_ok s \<longrightarrow>
     shard_ok (fst (f s)) \<and>
     (\<forall>k'. k' \<noteq> k \<longrightarrow> shard_get (fst (f s)) k' = shard_get s k') \<and>
     (case view (shard_get s k) of
        Err \<Rightarrow> snd (f s) = Err \<and> shard_get (fst (f s)) k = shard_get s k
      | Ok (a, t) \<Rightarrow>
          view (shard_get (fst (f s)) k) = Ok (F a, if F a = zero then None else t) \<and> R a (snd (f s))))"

locale collection =
  fixes con :: "'c \<Rightarrow> val"
    and out :: "val \<Rightarrow> 'c option"
    and good :: "'c \<Rightarrow> bool"
    and none :: "'c \<Rightarrow> bool"
    and cont :: "'c \<Rightarrow> 'a"
    and zero :: 'a
  assumes out_iff: "out v = Some x \<longleftrightarrow> v = con x"
    and ok_con: "value_ok (con x) \<longleftrightarrow> good x \<and> \<not> none x"
    and none_iff: "good x \<Longrightarrow> none x \<longleftrightarrow> cont x = zero"
begin

lemma out_con: "out (con x) = Some x"
  by (simp add: out_iff)

lemma live_good:
  assumes "cell_ok c" and "live now c = Some e" and "e_value e = con x"
  shows "good x" "\<not> none x"
  using assms live_SomeD [OF assms(2)] ok_con [of x] by auto

lemma on_coll_ok:
  assumes "cell_ok c" and "cell_ok (fst dflt)" and "\<And>x. good x \<Longrightarrow> good (fst (f x))"
  shows "cell_ok (fst (on_coll con out none now dflt f c))"
proof (cases "live now c")
  case (Some e)
  then show ?thesis
    using assms live_good [OF assms(1) Some] live_SomeD [OF Some]
    by (auto simp: on_coll_def out_iff ok_con split: option.splits)
qed (use assms in \<open>simp add: on_coll_def\<close>)

text \<open>A command that leaves the content alone leaves the live cell.\<close>

lemma on_coll_idle:
  assumes "cell_ok c" and "live now c = None \<Longrightarrow> fst dflt = None"
    and "\<And>x. good x \<Longrightarrow> \<not> none x \<Longrightarrow> map_option e_value (live now c) = Some (con x) \<Longrightarrow> fst (f x) = x"
  shows "fst (on_coll con out none now dflt f c) = live now c"
proof (cases "live now c")
  case (Some e)
  then show ?thesis
    using assms(3) live_good [OF assms(1) Some]
    by (auto simp: on_coll_def out_iff update_value_same split: option.splits)
qed (use assms in \<open>simp add: on_coll_def\<close>)

lemma live_update: "live now c = Some e \<Longrightarrow> live now (Some (e\<lparr>e_value := v\<rparr>)) = Some (e\<lparr>e_value := v\<rparr>)"
  by (auto simp: live_def expired_def split: option.splits if_splits)

lemma view_on_coll:
  assumes c: "cell_ok c"
    and f: "\<And>x. good x \<Longrightarrow> good (fst (f x)) \<and> cont (fst (f x)) = F (cont x) \<and> R (cont x) (snd (f x))"
    and dflt: "R zero (snd dflt)"
      "fst dflt = None \<and> F zero = zero \<or>
       (\<exists>x. fst dflt = Some (fresh (con x)) \<and> good x \<and> \<not> none x \<and> cont x = F zero)"
  shows "case coll_view out cont zero now c of
      Err \<Rightarrow> on_coll con out none now dflt f c = (c, Err)
    | Ok (a, t) \<Rightarrow>
        coll_view out cont zero now (fst (on_coll con out none now dflt f c))
          = Ok (F a, if F a = zero then None else t) \<and>
        R a (snd (on_coll con out none now dflt f c))"
proof (cases "live now c")
  case None
  then have v: "coll_view out cont zero now c = Ok (zero, None)"
    and d: "on_coll con out none now dflt f c = dflt"
    by (simp_all add: coll_view_def on_coll_def)
  have "coll_view out cont zero now (fst dflt) = Ok (F zero, None)"
    using dflt(2) by (auto simp: coll_view_def out_con)
  with v d dflt(1) show ?thesis by simp
next
  case (Some e)
  show ?thesis
  proof (cases "out (e_value e)")
    case None
    with Some live_SomeD [OF Some] show ?thesis by (simp add: coll_view_def on_coll_def)
  next
    case x: (Some x)
    then have e: "e_value e = con x" by (simp add: out_iff)
    have "good x" by (rule live_good [OF c Some e])
    from f [OF this] none_iff [of "fst (f x)"] show ?thesis
      using live_update [OF Some]
      by (auto simp: coll_view_def on_coll_def Some x out_con)
  qed
qed

lemma implements_on_coll:
  assumes "key_local k op (on_coll con out none now dflt f)"
    and "\<And>x. good x \<Longrightarrow> good (fst (f x)) \<and> cont (fst (f x)) = F (cont x) \<and> R (cont x) (snd (f x))"
    and "R zero (snd dflt)"
      "fst dflt = None \<and> F zero = zero \<or>
       (\<exists>x. fst dflt = Some (fresh (con x)) \<and> good x \<and> \<not> none x \<and> cont x = F zero)"
  shows "implements (coll_view out cont zero now) zero k op F R"
  unfolding implements_def
proof (intro allI impI)
  fix s assume s: "shard_ok s"
  note kl = key_localD [OF assms(1) s]
  note vw = view_on_coll [OF shard_okD [OF s, of k] assms(2-4), where now = now]
  have "case coll_view out cont zero now (shard_get s k) of
      Err \<Rightarrow> snd (op s) = Err \<and> shard_get (fst (op s)) k = shard_get s k
    | Ok (a, t) \<Rightarrow> coll_view out cont zero now (shard_get (fst (op s)) k)
        = Ok (F a, if F a = zero then None else t) \<and> R a (snd (op s))"
    using vw kl(2,3) by (auto split: result.splits)
  then show "shard_ok (fst (op s)) \<and> (\<forall>k'. k' \<noteq> k \<longrightarrow> shard_get (fst (op s)) k' = shard_get s k') \<and>
     (case coll_view out cont zero now (shard_get s k) of
        Err \<Rightarrow> snd (op s) = Err \<and> shard_get (fst (op s)) k = shard_get s k
      | Ok (a, t) \<Rightarrow> coll_view out cont zero now (shard_get (fst (op s)) k)
          = Ok (F a, if F a = zero then None else t) \<and> R a (snd (op s)))"
    using kl by simp
qed

text \<open>The obligations of a command in the common shape, one per outcome of the lookup.\<close>

lemma key_local_collI:
  assumes data: "\<And>s. shard_ok s \<Longrightarrow> hm_ok (data (fst (op s)))"
    and absent: "\<And>s. shard_ok s \<Longrightarrow> live now (shard_get s k) = None \<Longrightarrow>
      shard_get (fst (op s)) = (shard_get s)(k := fst dflt) \<and> snd (op s) = snd dflt"
    and other: "\<And>s e. shard_ok s \<Longrightarrow> shard_get s k = Some e \<Longrightarrow> \<not> expired now e \<Longrightarrow> out (e_value e) = None \<Longrightarrow>
      shard_get (fst (op s)) = shard_get s \<and> snd (op s) = Err"
    and present: "\<And>s e x. shard_ok s \<Longrightarrow> shard_get s k = Some e \<Longrightarrow> \<not> expired now e \<Longrightarrow>
      e_value e = con x \<Longrightarrow> good x \<Longrightarrow> \<not> none x \<Longrightarrow>
      shard_get (fst (op s)) =
        (shard_get s)(k := if none (fst (f x)) then None else Some (e\<lparr>e_value := con (fst (f x))\<rparr>)) \<and>
      snd (op s) = snd (f x)"
    and ok: "cell_ok (fst dflt)" "\<And>x. good x \<Longrightarrow> good (fst (f x))"
  shows "key_local k op (on_coll con out none now dflt f)"
proof (rule key_localI)
  fix s assume s: "shard_ok s"
  have "shard_get (fst (op s)) = (shard_get s)(k := fst (on_coll con out none now dflt f (shard_get s k)))
      \<and> snd (op s) = snd (on_coll con out none now dflt f (shard_get s k))"
  proof (cases "live now (shard_get s k)")
    case None
    with absent [OF s] show ?thesis by (simp add: on_coll_def)
  next
    case (Some e)
    show ?thesis
    proof (cases "out (e_value e)")
      case None
      with other [OF s] live_SomeD [OF Some] Some show ?thesis
        by (auto simp: on_coll_def fun_eq_iff)
    next
      case x: (Some x)
      then have e: "e_value e = con x" by (simp add: out_iff)
      have "good x" "\<not> none x" using live_good [OF shard_okD [OF s] Some e] by auto
      with present [OF s _ _ e] live_SomeD [OF Some] show ?thesis
        by (simp add: on_coll_def Some x)
    qed
  qed
  then show "shard_get (fst (op s)) = (shard_get s)(k := fst (on_coll con out none now dflt f (shard_get s k)))"
    "snd (op s) = snd (on_coll con out none now dflt f (shard_get s k))" by auto
next
  fix c assume "cell_ok c"
  then show "cell_ok (fst (on_coll con out none now dflt f c))" using ok by (rule on_coll_ok)
qed (rule data)

end

end
