(* ===== verification/Store_Hashes.thy ===== *)
theory Store_Hashes
  imports Cell_View
begin

text \<open>
  Hash commands of a bucket (\<open>hash_set\<close> to \<open>hash_getall\<close>, \<open>hash_incr_by\<close> and \<open>hash_set_nx\<close> of
  \<open>src/muon_cache/store.rs\<close>). The abstract content of a hash is a finite map from fields to
  values; every command is shown to implement its specification on that map, for both
  representations of the hash.
\<close>

section \<open>Model\<close>

text \<open>\<open>hash_set\<close> and \<open>hash_set_bytes\<close> look the key up once and overwrite an expired entry in place.\<close>

definition sh_hash_set :: "u64 \<Rightarrow> bytes \<Rightarrow> bytes \<Rightarrow> bytes \<Rightarrow> shard \<Rightarrow> shard \<times> bool result" where
  "sh_hash_set now key field v s =
     (case shard_get s key of
        Some e \<Rightarrow>
          if (case expires_at e of Some ts \<Rightarrow> ts \<le> now | None \<Rightarrow> False) then
            (shard_put key (e\<lparr>e_value := Hash (hs_with_single field v), expires_at := None\<rparr>) s, Ok True)
          else (case e_value e of
                  Hash hs \<Rightarrow>
                    (let (old, hs') = hs_insert field v hs
                     in (shard_put key (e\<lparr>e_value := Hash hs'\<rparr>) s, Ok (old = None)))
                | _ \<Rightarrow> (s, Err))
      | None \<Rightarrow> (shard_put key (fresh (Hash (hs_with_single field v))) s, Ok True))"

definition sh_hash_set_ref :: "u64 \<Rightarrow> bytes \<Rightarrow> bytes \<Rightarrow> bytes \<Rightarrow> shard \<Rightarrow> shard \<times> bool result" where
  "sh_hash_set_ref now key field v s =
     (case shard_get s key of
        Some e \<Rightarrow>
          if (case expires_at e of Some ts \<Rightarrow> ts \<le> now | None \<Rightarrow> False) then
            (shard_put key (e\<lparr>e_value := Hash (hs_with_single field v), expires_at := None\<rparr>) s, Ok True)
          else (case e_value e of
                  Hash hs \<Rightarrow>
                    (case hs_assign field v hs of
                       Some hs' \<Rightarrow> (shard_put key (e\<lparr>e_value := Hash hs'\<rparr>) s, Ok False)
                     | None \<Rightarrow>
                         (shard_put key (e\<lparr>e_value := Hash (snd (hs_insert field v hs))\<rparr>) s, Ok True))
                | _ \<Rightarrow> (s, Err))
      | None \<Rightarrow> (shard_put key (fresh (Hash (hs_with_single field v))) s, Ok True))"

definition sh_hash_set_bytes :: "u64 \<Rightarrow> bytes \<Rightarrow> bytes \<Rightarrow> bytes \<Rightarrow> shard \<Rightarrow> shard \<times> bool result" where
  "sh_hash_set_bytes now key field v s =
     (case shard_get s key of
        Some e \<Rightarrow>
          if (case expires_at e of Some ts \<Rightarrow> ts \<le> now | None \<Rightarrow> False) then
            (shard_put key (e\<lparr>e_value := Hash (hs_with_single field v), expires_at := None\<rparr>) s, Ok True)
          else (case e_value e of
                  Hash hs \<Rightarrow>
                    (let (old, hs') = hs_insert field v hs
                     in (shard_put key (e\<lparr>e_value := Hash hs'\<rparr>) s, Ok (old = None)))
                | _ \<Rightarrow> (s, Err))
      | None \<Rightarrow> (shard_put key (fresh (Hash (hs_with_single field v))) s, Ok True))"

definition sh_hash_get :: "u64 \<Rightarrow> bytes \<Rightarrow> bytes \<Rightarrow> shard \<Rightarrow> shard \<times> bytes option result" where
  "sh_hash_get now key field s =
     (let s = expire_key now key s
      in (s, case map_option e_value (shard_get s key) of
               Some (Hash hs) \<Rightarrow> Ok (hs_get hs field) | Some _ \<Rightarrow> Err | None \<Rightarrow> Ok None))"

definition sh_hash_del :: "u64 \<Rightarrow> bytes \<Rightarrow> bytes list \<Rightarrow> shard \<Rightarrow> shard \<times> int result" where
  "sh_hash_del now key flds s =
     (let s = expire_key now key s
      in case shard_get s key of
           Some e \<Rightarrow>
             (case e_value e of
                Hash hs \<Rightarrow>
                  (let (hs', removed) =
                         remove_loop (\<lambda>f hs. fst (hs_remove f hs) \<noteq> None) (\<lambda>f hs. snd (hs_remove f hs))
                           flds hs 0;
                       s = shard_put key (e\<lparr>e_value := Hash hs'\<rparr>) s
                   in (if hs_len hs' = 0 then fst (sh_remove key s) else s, Ok removed))
              | _ \<Rightarrow> (s, Err))
         | None \<Rightarrow> (s, Ok 0))"

definition sh_hash_len :: "u64 \<Rightarrow> bytes \<Rightarrow> shard \<Rightarrow> shard \<times> int result" where
  "sh_hash_len now key s =
     (let s = expire_key now key s
      in (s, case map_option e_value (shard_get s key) of
               Some (Hash hs) \<Rightarrow> Ok (int (hs_len hs)) | Some _ \<Rightarrow> Err | None \<Rightarrow> Ok 0))"

definition sh_hash_exists :: "u64 \<Rightarrow> bytes \<Rightarrow> bytes \<Rightarrow> shard \<Rightarrow> shard \<times> bool result" where
  "sh_hash_exists now key field s =
     (let s = expire_key now key s
      in (s, case map_option e_value (shard_get s key) of
               Some (Hash hs) \<Rightarrow> Ok (hs_contains_key hs field) | Some _ \<Rightarrow> Err | None \<Rightarrow> Ok False))"

definition sh_hash_getall :: "u64 \<Rightarrow> bytes \<Rightarrow> shard \<Rightarrow> shard \<times> (bytes \<times> bytes) list result" where
  "sh_hash_getall now key s =
     (let s = expire_key now key s
      in (s, case map_option e_value (shard_get s key) of
               Some (Hash hs) \<Rightarrow> Ok (hs_iter hs) | Some _ \<Rightarrow> Err | None \<Rightarrow> Ok []))"

text \<open>\<open>from_utf8\<close> fails on bytes that \<open>str::parse::<i64>\<close> would refuse anyway (both give \<open>Err(())\<close>), so
  the parse of the bytes is the composition of the two.\<close>

definition sh_hash_incr_by :: "u64 \<Rightarrow> bytes \<Rightarrow> bytes \<Rightarrow> int \<Rightarrow> shard \<Rightarrow> shard \<times> int result" where
  "sh_hash_incr_by now key field delta s =
     (let s = expire_key now key s
      in case shard_get s key of
           Some e \<Rightarrow>
             (case e_value e of
                Hash hs \<Rightarrow>
                  (case (case hs_get hs field of Some v \<Rightarrow> i64_from_str v | None \<Rightarrow> Ok 0) of
                     Err \<Rightarrow> (s, Err)
                   | Ok current \<Rightarrow>
                       (let new_val = i64_wrap (current + delta)
                        in (shard_put key
                              (e\<lparr>e_value := Hash (snd (hs_insert field (i64_to_string new_val) hs))\<rparr>) s,
                            Ok new_val)))
              | _ \<Rightarrow> (s, Err))
         | None \<Rightarrow>
             (shard_put key (fresh (Hash (hs_with_single field (i64_to_string delta)))) s, Ok delta))"

definition sh_hash_set_nx :: "u64 \<Rightarrow> bytes \<Rightarrow> bytes \<Rightarrow> bytes \<Rightarrow> shard \<Rightarrow> shard \<times> bool result" where
  "sh_hash_set_nx now key field v s =
     (let s = expire_key now key s
      in case shard_get s key of
           Some e \<Rightarrow>
             (case e_value e of
                Hash hs \<Rightarrow>
                  (if hs_contains_key hs field then (s, Ok False)
                   else (shard_put key (e\<lparr>e_value := Hash (snd (hs_insert field v hs))\<rparr>) s, Ok True))
              | _ \<Rightarrow> (s, Err))
         | None \<Rightarrow> (shard_put key (fresh (Hash (hs_with_single field v))) s, Ok True))"

section \<open>Hashes as a collection\<close>

fun hash_of :: "val \<Rightarrow> hash_store option" where
  "hash_of (Hash hs) = Some hs"
| "hash_of _ = None"

abbreviation hash_view :: "u64 \<Rightarrow> entry option \<Rightarrow> ((bytes \<Rightarrow> bytes option) \<times> u64 option) result" where
  "hash_view \<equiv> coll_view hash_of hs_get Map.empty"

abbreviation on_hash ::
  "u64 \<Rightarrow> entry option \<times> 'r result \<Rightarrow> (hash_store \<Rightarrow> hash_store \<times> 'r result) \<Rightarrow> entry option \<Rightarrow>
   entry option \<times> 'r result" where
  "on_hash \<equiv> on_coll Hash hash_of (\<lambda>hs. hs_len hs = 0)"

lemma hs_len_0_iff: "hs_ok hs \<Longrightarrow> hs_len hs = 0 \<longleftrightarrow> hs_get hs = Map.empty"
  using hs.pairs_empty_iff [of hs] by (simp add: hs_len_iter)

interpretation hcoll: collection Hash hash_of hs_ok "\<lambda>hs. hs_len hs = 0" hs_get Map.empty
proof unfold_locales
  show "hash_of v = Some x \<longleftrightarrow> v = Hash x" for v x by (cases v) auto
qed (auto simp: hs_len_0_iff)

lemma hs_len_insert: "hs_ok hs \<Longrightarrow> hs_len (snd (hs_insert f x hs)) \<noteq> 0"
  by (simp add: hs_len_0_iff hs_ok_insert hs_get_insert fun_eq_iff) metis

lemma live_hash:
  assumes "shard_ok s" and "live now (shard_get s k) = Some e" and "e_value e = Hash hs"
  shows "hs_ok hs" and "hs_len hs \<noteq> 0"
  using hcoll.live_good [OF shard_okD [OF assms(1), of k] assms(2,3)] by auto

lemma hs_remove_loop:
  assumes "hs_ok hs"
  shows "remove_loop (\<lambda>f hs. fst (hs_remove f hs) \<noteq> None) (\<lambda>f hs. snd (hs_remove f hs)) fs hs n =
    (fold (\<lambda>f hs. snd (hs_remove f hs)) fs hs, n + int (card (dom (hs_get hs) \<inter> set fs)))"
proof -
  have "remove_loop (\<lambda>f hs. fst (hs_remove f hs) \<noteq> None) (\<lambda>f hs. snd (hs_remove f hs)) fs hs n =
      remove_loop (\<lambda>f hs. hs_get hs f \<noteq> None) (\<lambda>f hs. snd (hs_remove f hs)) fs hs n"
    using assms by (induction fs arbitrary: hs n) (auto simp: hs_remove_old hs_ok_remove)
  with hs.remove_loop_fst [of "\<lambda>f hs. hs_get hs f \<noteq> None" fs hs n] hs.remove_loop_snd [OF assms, of fs n]
  show ?thesis by (metis prod.collapse)
qed

section \<open>Every hash command is key-local\<close>

definition spec_hash_set :: "u64 \<Rightarrow> bytes \<Rightarrow> bytes \<Rightarrow> entry option \<Rightarrow> entry option \<times> bool result" where
  "spec_hash_set now f v =
     on_hash now (Some (fresh (Hash (hs_with_single f v))), Ok True)
       (\<lambda>hs. (snd (hs_insert f v hs), Ok (hs_get hs f = None)))"

definition spec_hash_get :: "u64 \<Rightarrow> bytes \<Rightarrow> entry option \<Rightarrow> entry option \<times> bytes option result" where
  "spec_hash_get now f = on_hash now (None, Ok None) (\<lambda>hs. (hs, Ok (hs_get hs f)))"

definition spec_hash_del :: "u64 \<Rightarrow> bytes list \<Rightarrow> entry option \<Rightarrow> entry option \<times> int result" where
  "spec_hash_del now fs =
     on_hash now (None, Ok 0)
       (\<lambda>hs. (fold (\<lambda>f hs. snd (hs_remove f hs)) fs hs, Ok (int (card (dom (hs_get hs) \<inter> set fs)))))"

definition spec_hash_len :: "u64 \<Rightarrow> entry option \<Rightarrow> entry option \<times> int result" where
  "spec_hash_len now = on_hash now (None, Ok 0) (\<lambda>hs. (hs, Ok (int (hs_len hs))))"

definition spec_hash_exists :: "u64 \<Rightarrow> bytes \<Rightarrow> entry option \<Rightarrow> entry option \<times> bool result" where
  "spec_hash_exists now f = on_hash now (None, Ok False) (\<lambda>hs. (hs, Ok (hs_get hs f \<noteq> None)))"

definition spec_hash_getall :: "u64 \<Rightarrow> entry option \<Rightarrow> entry option \<times> (bytes \<times> bytes) list result" where
  "spec_hash_getall now = on_hash now (None, Ok []) (\<lambda>hs. (hs, Ok (hs_iter hs)))"

definition hash_number :: "(bytes \<Rightarrow> bytes option) \<Rightarrow> bytes \<Rightarrow> int result" where
  "hash_number m f = (case m f of Some v \<Rightarrow> i64_from_str v | None \<Rightarrow> Ok 0)"

definition spec_hash_incr_by :: "u64 \<Rightarrow> bytes \<Rightarrow> int \<Rightarrow> entry option \<Rightarrow> entry option \<times> int result" where
  "spec_hash_incr_by now f d =
     on_hash now (Some (fresh (Hash (hs_with_single f (i64_to_string d)))), Ok d)
       (\<lambda>hs. case hash_number (hs_get hs) f of
               Err \<Rightarrow> (hs, Err)
             | Ok n \<Rightarrow> (snd (hs_insert f (i64_to_string (i64_wrap (n + d))) hs), Ok (i64_wrap (n + d))))"

definition spec_hash_set_nx :: "u64 \<Rightarrow> bytes \<Rightarrow> bytes \<Rightarrow> entry option \<Rightarrow> entry option \<times> bool result" where
  "spec_hash_set_nx now f v =
     on_hash now (Some (fresh (Hash (hs_with_single f v))), Ok True)
       (\<lambda>hs. if hs_get hs f \<noteq> None then (hs, Ok False) else (snd (hs_insert f v hs), Ok True))"

lemmas hash_local_simps = hm_ok_data Let_def hs_insert_old hs_len_insert hs_contains_key_iff
  hs_remove_loop hs_assign_eq hash_number_def hs_ok_insert hs.del_loop(1) fun_upd_idem case_prod_beta

lemma key_local_hash_set: "key_local k (sh_hash_set now k f v) (spec_hash_set now f v)"
  unfolding spec_hash_set_def
  by (rule hcoll.key_local_collI)
    (auto simp: sh_hash_set_def hash_local_simps expired_def dest!: live_NoneD
      split: option.splits val.splits)

lemma key_local_hash_set_ref: "key_local k (sh_hash_set_ref now k f v) (spec_hash_set now f v)"
  unfolding spec_hash_set_def
  by (rule hcoll.key_local_collI)
    (auto simp: sh_hash_set_ref_def hash_local_simps expired_def dest!: live_NoneD
      split: option.splits val.splits)

lemma key_local_hash_set_bytes: "key_local k (sh_hash_set_bytes now k f v) (spec_hash_set now f v)"
  using key_local_hash_set [of k now f v] by (simp add: key_local_def sh_hash_set_def sh_hash_set_bytes_def)

lemma key_local_hash_get: "key_local k (sh_hash_get now k f) (spec_hash_get now f)"
  unfolding spec_hash_get_def
  by (rule hcoll.key_local_collI)
    (auto simp: sh_hash_get_def hash_local_simps split: option.splits val.splits)

lemma key_local_hash_del: "key_local k (sh_hash_del now k fs) (spec_hash_del now fs)"
  unfolding spec_hash_del_def
  by (rule hcoll.key_local_collI)
    (auto simp: sh_hash_del_def hash_local_simps simp del: not_None_eq split: option.splits val.splits)

lemma key_local_hash_len: "key_local k (sh_hash_len now k) (spec_hash_len now)"
  unfolding spec_hash_len_def
  by (rule hcoll.key_local_collI)
    (auto simp: sh_hash_len_def hash_local_simps split: option.splits val.splits)

lemma key_local_hash_exists: "key_local k (sh_hash_exists now k f) (spec_hash_exists now f)"
  unfolding spec_hash_exists_def
  by (rule hcoll.key_local_collI)
    (auto simp: sh_hash_exists_def hash_local_simps split: option.splits val.splits)

lemma key_local_hash_getall: "key_local k (sh_hash_getall now k) (spec_hash_getall now)"
  unfolding spec_hash_getall_def
  by (rule hcoll.key_local_collI)
    (auto simp: sh_hash_getall_def hash_local_simps split: option.splits val.splits)

lemma key_local_hash_incr_by: "key_local k (sh_hash_incr_by now k f d) (spec_hash_incr_by now f d)"
  unfolding spec_hash_incr_by_def
  by (rule hcoll.key_local_collI)
    (auto simp: sh_hash_incr_by_def hash_local_simps split: option.splits val.splits result.splits)

lemma key_local_hash_set_nx: "key_local k (sh_hash_set_nx now k f v) (spec_hash_set_nx now f v)"
  unfolding spec_hash_set_nx_def
  by (rule hcoll.key_local_collI)
    (auto simp: sh_hash_set_nx_def hash_local_simps split: option.splits val.splits)

section \<open>Hash commands on the map of fields\<close>

abbreviation implements_hash ::
  "u64 \<Rightarrow> bytes \<Rightarrow> (shard \<Rightarrow> shard \<times> 'r result) \<Rightarrow>
   ((bytes \<Rightarrow> bytes option) \<Rightarrow> (bytes \<Rightarrow> bytes option)) \<Rightarrow>
   ((bytes \<Rightarrow> bytes option) \<Rightarrow> 'r result \<Rightarrow> bool) \<Rightarrow> bool" where
  "implements_hash now \<equiv> implements (hash_view now) Map.empty"

lemmas hash_impl_simps = hs_ok_insert hs_get_insert hs.del_loop fun_eq_iff

lemma implements_hash_set:
  "implements_hash now k (sh_hash_set now k f v) (\<lambda>m. m(f \<mapsto> v)) (\<lambda>m r. r = Ok (m f = None))"
  "implements_hash now k (sh_hash_set_ref now k f v) (\<lambda>m. m(f \<mapsto> v)) (\<lambda>m r. r = Ok (m f = None))"
  "implements_hash now k (sh_hash_set_bytes now k f v) (\<lambda>m. m(f \<mapsto> v)) (\<lambda>m r. r = Ok (m f = None))"
  by (rule hcoll.implements_on_coll [OF key_local_hash_set [unfolded spec_hash_set_def]]
        hcoll.implements_on_coll [OF key_local_hash_set_ref [unfolded spec_hash_set_def]]
        hcoll.implements_on_coll [OF key_local_hash_set_bytes [unfolded spec_hash_set_def]];
      auto simp: hash_impl_simps intro!: exI [of _ "hs_with_single f v"])+

lemma implements_hash_get:
  "implements_hash now k (sh_hash_get now k f) (\<lambda>m. m) (\<lambda>m r. r = Ok (m f))"
  by (rule hcoll.implements_on_coll [OF key_local_hash_get [unfolded spec_hash_get_def]]) auto

lemma implements_hash_del:
  "implements_hash now k (sh_hash_del now k fs) (\<lambda>m f. if f \<in> set fs then None else m f)
     (\<lambda>m r. r = Ok (int (card (dom m \<inter> set fs))))"
  by (rule hcoll.implements_on_coll [OF key_local_hash_del [unfolded spec_hash_del_def]])
    (auto simp: hash_impl_simps)

lemma implements_hash_len:
  "implements_hash now k (sh_hash_len now k) (\<lambda>m. m) (\<lambda>m r. r = Ok (int (card (dom m))))"
  by (rule hcoll.implements_on_coll [OF key_local_hash_len [unfolded spec_hash_len_def]])
    (auto simp: hs_len_iter hs.length_pairs)

lemma implements_hash_exists:
  "implements_hash now k (sh_hash_exists now k f) (\<lambda>m. m) (\<lambda>m r. r = Ok (m f \<noteq> None))"
  by (rule hcoll.implements_on_coll [OF key_local_hash_exists [unfolded spec_hash_exists_def]]) auto

lemma implements_hash_getall:
  "implements_hash now k (sh_hash_getall now k) (\<lambda>m. m)
     (\<lambda>m r. \<exists>kvs. r = Ok kvs \<and> distinct (map fst kvs) \<and> map_of kvs = m)"
  by (rule hcoll.implements_on_coll [OF key_local_hash_getall [unfolded spec_hash_getall_def]])
    (auto simp: hs.distinct_pairs hs_get_iter)

lemma implements_hash_incr_by:
  "in_i64 d \<Longrightarrow> implements_hash now k (sh_hash_incr_by now k f d)
     (\<lambda>m. case hash_number m f of Ok n \<Rightarrow> m(f \<mapsto> i64_to_string (i64_wrap (n + d))) | Err \<Rightarrow> m)
     (\<lambda>m r. r = map_result (\<lambda>n. i64_wrap (n + d)) (hash_number m f))"
  by (rule hcoll.implements_on_coll [OF key_local_hash_incr_by [unfolded spec_hash_incr_by_def]])
    (auto simp: hash_impl_simps hash_number_def i64_wrap_id
      intro!: exI [of _ "hs_with_single f (i64_to_string d)"] split: result.splits)

lemma implements_hash_set_nx:
  "implements_hash now k (sh_hash_set_nx now k f v)
     (\<lambda>m. if m f = None then m(f \<mapsto> v) else m) (\<lambda>m r. r = Ok (m f = None))"
  by (rule hcoll.implements_on_coll [OF key_local_hash_set_nx [unfolded spec_hash_set_nx_def]])
    (auto simp: hash_impl_simps intro!: exI [of _ "hs_with_single f v"])

section \<open>Properties\<close>

text \<open>C12: Every hash command implements its specification on the map of fields. \<open>HSET\<close> in its three variants
  writes the field and says whether it is new, \<open>HSETNX\<close> writes only a new field, \<open>HDEL\<close> removes fields and
  counts those present, \<open>HGET\<close>, \<open>HEXISTS\<close>, \<open>HLEN\<close> and \<open>HGETALL\<close> read, \<open>HINCRBY\<close> adds to a numeric field with
  64-bit wrap-around. Each refuses a key of another type without changing it, keeps the expiry time of
  the key, removes the key with its last field and touches no other key.\<close>

theorem hash_commands:
  assumes "in_i64 d"
  shows "implements_hash now k (sh_hash_set now k f v) (\<lambda>m. m(f \<mapsto> v)) (\<lambda>m r. r = Ok (m f = None)) \<and>
    implements_hash now k (sh_hash_set_ref now k f v) (\<lambda>m. m(f \<mapsto> v)) (\<lambda>m r. r = Ok (m f = None)) \<and>
    implements_hash now k (sh_hash_set_bytes now k f v) (\<lambda>m. m(f \<mapsto> v)) (\<lambda>m r. r = Ok (m f = None)) \<and>
    implements_hash now k (sh_hash_set_nx now k f v)
      (\<lambda>m. if m f = None then m(f \<mapsto> v) else m) (\<lambda>m r. r = Ok (m f = None)) \<and>
    implements_hash now k (sh_hash_del now k fs) (\<lambda>m f. if f \<in> set fs then None else m f)
      (\<lambda>m r. r = Ok (int (card (dom m \<inter> set fs)))) \<and>
    implements_hash now k (sh_hash_get now k f) (\<lambda>m. m) (\<lambda>m r. r = Ok (m f)) \<and>
    implements_hash now k (sh_hash_exists now k f) (\<lambda>m. m) (\<lambda>m r. r = Ok (m f \<noteq> None)) \<and>
    implements_hash now k (sh_hash_len now k) (\<lambda>m. m) (\<lambda>m r. r = Ok (int (card (dom m)))) \<and>
    implements_hash now k (sh_hash_getall now k) (\<lambda>m. m)
      (\<lambda>m r. \<exists>kvs. r = Ok kvs \<and> distinct (map fst kvs) \<and> map_of kvs = m) \<and>
    implements_hash now k (sh_hash_incr_by now k f d)
      (\<lambda>m. case hash_number m f of Ok n \<Rightarrow> m(f \<mapsto> i64_to_string (i64_wrap (n + d))) | Err \<Rightarrow> m)
      (\<lambda>m r. r = map_result (\<lambda>n. i64_wrap (n + d)) (hash_number m f))"
  by (intro conjI implements_hash_set implements_hash_set_nx implements_hash_del implements_hash_get
      implements_hash_exists implements_hash_len implements_hash_getall implements_hash_incr_by assms)

theorem hash_commands_witness:
  "implements_hash 0 ''k'' (sh_hash_get 0 ''k'' ''f'') (\<lambda>m. m) (\<lambda>m r. r = Ok (m ''f''))"
  using hash_commands [of 1 0 "''k''" "''f''" "''v''" "[]"] by (simp add: in_i64_iff)

end
