(* ===== verification/Store_Sets.thy ===== *)
theory Store_Sets
  imports Cell_View
begin

text \<open>
  Set commands of a bucket (\<open>set_add\<close> to \<open>set_move\<close>, \<open>set_union\<close>, \<open>set_inter\<close> of
  \<open>src/muon_cache/store.rs\<close>). A \<open>HashSet\<close> is a list without duplicates, in some iteration order;
  the abstract content is the set of its elements.
\<close>

section \<open>Model\<close>

text \<open>\<open>HashSet::insert\<close> (true when the element was new) and \<open>HashSet::remove\<close> (true when it was there).\<close>

definition hset_insert :: "bytes \<Rightarrow> bytes list \<Rightarrow> bytes list \<times> bool" where
  "hset_insert x s = (if x \<in> set s then (s, False) else (s @ [x], True))"

definition hset_remove :: "bytes \<Rightarrow> bytes list \<Rightarrow> bytes list \<times> bool" where
  "hset_remove x s = (filter (\<lambda>y. y \<noteq> x) s, x \<in> set s)"

fun set_add_loop :: "bytes list \<Rightarrow> bytes list \<Rightarrow> int \<Rightarrow> bytes list \<times> int" where
  "set_add_loop [] s added = (s, added)"
| "set_add_loop (m # ms) s added =
     (case hset_insert m s of (s', new) \<Rightarrow> set_add_loop ms s' (if new then added + 1 else added))"

definition sh_set_add :: "u64 \<Rightarrow> bytes \<Rightarrow> bytes list \<Rightarrow> shard \<Rightarrow> shard \<times> int result" where
  "sh_set_add now key members s =
     (let s = expire_key now key s
      in case shard_get s key of
           Some e \<Rightarrow>
             (case e_value e of
                Set xs \<Rightarrow> (let (xs', added) = set_add_loop members xs 0
                           in (shard_put key (e\<lparr>e_value := Set xs'\<rparr>) s, Ok added))
              | _ \<Rightarrow> (s, Err))
         | None \<Rightarrow> (let (xs', added) = set_add_loop members [] 0
                    in (shard_put key (fresh (Set xs')) s, Ok added)))"

definition sh_set_add_single_bytes :: "u64 \<Rightarrow> bytes \<Rightarrow> bytes \<Rightarrow> shard \<Rightarrow> shard \<times> int result" where
  "sh_set_add_single_bytes now key member s =
     (let s = expire_key now key s
      in case shard_get s key of
           Some e \<Rightarrow>
             (case e_value e of
                Set xs \<Rightarrow> (if member \<in> set xs then (s, Ok 0)
                           else (shard_put key (e\<lparr>e_value := Set (fst (hset_insert member xs))\<rparr>) s, Ok 1))
              | _ \<Rightarrow> (s, Err))
         | None \<Rightarrow> (shard_put key (fresh (Set (fst (hset_insert member [])))) s, Ok 1))"

definition sh_set_remove :: "u64 \<Rightarrow> bytes \<Rightarrow> bytes list \<Rightarrow> shard \<Rightarrow> shard \<times> int result" where
  "sh_set_remove now key members s =
     (let s = expire_key now key s
      in case shard_get s key of
           Some e \<Rightarrow>
             (case e_value e of
                Set xs \<Rightarrow>
                  (let (xs', removed) =
                         remove_loop (\<lambda>m xs. snd (hset_remove m xs)) (\<lambda>m xs. fst (hset_remove m xs)) members xs 0;
                       s = shard_put key (e\<lparr>e_value := Set xs'\<rparr>) s
                   in (if xs' = [] then fst (sh_remove key s) else s, Ok removed))
              | _ \<Rightarrow> (s, Err))
         | None \<Rightarrow> (s, Ok 0))"

definition sh_set_members :: "u64 \<Rightarrow> bytes \<Rightarrow> shard \<Rightarrow> shard \<times> bytes list result" where
  "sh_set_members now key s =
     (let s = expire_key now key s
      in (s, case map_option e_value (shard_get s key) of
               Some (Set xs) \<Rightarrow> Ok xs | Some _ \<Rightarrow> Err | None \<Rightarrow> Ok []))"

definition sh_set_is_member :: "u64 \<Rightarrow> bytes \<Rightarrow> bytes \<Rightarrow> shard \<Rightarrow> shard \<times> bool result" where
  "sh_set_is_member now key member s =
     (let s = expire_key now key s
      in (s, case map_option e_value (shard_get s key) of
               Some (Set xs) \<Rightarrow> Ok (member \<in> set xs) | Some _ \<Rightarrow> Err | None \<Rightarrow> Ok False))"

definition sh_set_card :: "u64 \<Rightarrow> bytes \<Rightarrow> shard \<Rightarrow> shard \<times> int result" where
  "sh_set_card now key s =
     (let s = expire_key now key s
      in (s, case map_option e_value (shard_get s key) of
               Some (Set xs) \<Rightarrow> Ok (int (length xs)) | Some _ \<Rightarrow> Err | None \<Rightarrow> Ok 0))"

text \<open>\<open>set_move\<close> within one bucket: the member is taken out of the source (which goes away when it
  becomes empty) before the type of the destination is looked at.\<close>

definition sh_set_move :: "u64 \<Rightarrow> bytes \<Rightarrow> bytes \<Rightarrow> bytes \<Rightarrow> shard \<Rightarrow> shard \<times> bool result" where
  "sh_set_move now source dest member s =
     (let s = expire_key now source s;
          s = expire_key now dest s
      in case shard_get s source of
           None \<Rightarrow> (s, Ok False)
         | Some e \<Rightarrow>
             (case e_value e of
                Set xs \<Rightarrow>
                  (let (xs', removed) = hset_remove member xs;
                       s = shard_put source (e\<lparr>e_value := Set xs'\<rparr>) s
                   in if \<not> removed then (s, Ok False)
                      else
                        let s = (if xs' = [] then fst (sh_remove source s) else s)
                        in case shard_get s dest of
                             Some e \<Rightarrow>
                               (case e_value e of
                                  Set ys \<Rightarrow>
                                    (shard_put dest (e\<lparr>e_value := Set (fst (hset_insert member ys))\<rparr>) s, Ok True)
                                | _ \<Rightarrow> (s, Err))
                           | None \<Rightarrow> (shard_put dest (fresh (Set (fst (hset_insert member [])))) s, Ok True))
              | _ \<Rightarrow> (s, Err)))"

text \<open>\<open>set_union\<close> and \<open>set_inter\<close> within one bucket. The body of the inner loop of \<open>set_inter\<close> falls
  through, continues the outer loop, or returns.\<close>

fun sh_union_loop :: "u64 \<Rightarrow> bytes list \<Rightarrow> bytes list \<Rightarrow> shard \<Rightarrow> shard \<times> bytes list result" where
  "sh_union_loop now [] acc s = (s, Ok acc)"
| "sh_union_loop now (key # ks) acc s =
     (let s = expire_key now key s
      in case map_option e_value (shard_get s key) of
           Some (Set xs) \<Rightarrow> sh_union_loop now ks (fold (\<lambda>m a. fst (hset_insert m a)) xs acc) s
         | Some _ \<Rightarrow> (s, Err)
         | None \<Rightarrow> sh_union_loop now ks acc s)"

definition sh_set_union :: "u64 \<Rightarrow> bytes list \<Rightarrow> shard \<Rightarrow> shard \<times> bytes list result" where
  "sh_set_union now ks s = sh_union_loop now ks [] s"

datatype 'a flow = Next | Continue | Return 'a

fun sh_inter_keys :: "shard \<Rightarrow> bytes \<Rightarrow> bytes list \<Rightarrow> bytes list result flow" where
  "sh_inter_keys s member [] = Next"
| "sh_inter_keys s member (key # ks) =
     (case map_option e_value (shard_get s key) of
        Some (Set xs) \<Rightarrow> if member \<notin> set xs then Continue else sh_inter_keys s member ks
      | Some _ \<Rightarrow> Return Err
      | None \<Rightarrow> Return (Ok []))"

fun sh_inter_members :: "shard \<Rightarrow> bytes list \<Rightarrow> bytes list \<Rightarrow> bytes list \<Rightarrow> bytes list result" where
  "sh_inter_members s ks [] acc = Ok acc"
| "sh_inter_members s ks (m # ms) acc =
     (case sh_inter_keys s m ks of
        Next \<Rightarrow> sh_inter_members s ks ms (acc @ [m])
      | Continue \<Rightarrow> sh_inter_members s ks ms acc
      | Return r \<Rightarrow> r)"

definition sh_set_inter :: "u64 \<Rightarrow> bytes list \<Rightarrow> shard \<Rightarrow> shard \<times> bytes list result" where
  "sh_set_inter now ks s =
     (case ks of
        [] \<Rightarrow> (s, Ok [])
      | first_key # rest \<Rightarrow>
          (let s = fold (expire_key now) ks s
           in (s, case map_option e_value (shard_get s first_key) of
                    Some (Set first_set) \<Rightarrow> sh_inter_members s rest first_set []
                  | Some _ \<Rightarrow> Err
                  | None \<Rightarrow> Ok [])))"

section \<open>Sets as a collection\<close>

fun set_of :: "val \<Rightarrow> bytes list option" where
  "set_of (Set xs) = Some xs"
| "set_of _ = None"

abbreviation set_view :: "u64 \<Rightarrow> entry option \<Rightarrow> (bytes set \<times> u64 option) result" where
  "set_view \<equiv> coll_view set_of set {}"

abbreviation on_set ::
  "u64 \<Rightarrow> entry option \<times> 'r result \<Rightarrow> (bytes list \<Rightarrow> bytes list \<times> 'r result) \<Rightarrow> entry option \<Rightarrow>
   entry option \<times> 'r result" where
  "on_set \<equiv> on_coll Set set_of (\<lambda>xs. xs = [])"

interpretation scoll: collection Set set_of distinct "\<lambda>xs. xs = []" set "{}"
proof unfold_locales
  show "set_of v = Some x \<longleftrightarrow> v = Set x" for v x by (cases v) auto
qed auto

abbreviation implements_set ::
  "u64 \<Rightarrow> bytes \<Rightarrow> (shard \<Rightarrow> shard \<times> 'r result) \<Rightarrow> (bytes set \<Rightarrow> bytes set) \<Rightarrow>
   (bytes set \<Rightarrow> 'r result \<Rightarrow> bool) \<Rightarrow> bool" where
  "implements_set now \<equiv> implements (set_view now) {}"

lemma hset_insert_simps [simp]:
  "set (fst (hset_insert x xs)) = insert x (set xs)"
  "distinct xs \<Longrightarrow> distinct (fst (hset_insert x xs))"
  "snd (hset_insert x xs) \<longleftrightarrow> x \<notin> set xs"
  "fst (hset_insert x xs) \<noteq> []"
  by (auto simp: hset_insert_def)

lemma hset_remove_simps [simp]:
  "set (fst (hset_remove x xs)) = set xs - {x}"
  "distinct xs \<Longrightarrow> distinct (fst (hset_remove x xs))"
  "snd (hset_remove x xs) \<longleftrightarrow> x \<in> set xs"
  by (auto simp: hset_remove_def)

lemma set_add_loop_eq:
  "distinct xs \<Longrightarrow>
     distinct (fst (set_add_loop ms xs n)) \<and> set (fst (set_add_loop ms xs n)) = set xs \<union> set ms \<and>
     snd (set_add_loop ms xs n) = n + int (card (set ms - set xs))"
proof (induction ms arbitrary: xs n)
  case (Cons m ms)
  obtain xs' new where ins: "hset_insert m xs = (xs', new)" by (cases "hset_insert m xs")
  have xs': "distinct xs'" "set xs' = insert m (set xs)" "new \<longleftrightarrow> m \<notin> set xs"
    using hset_insert_simps [where x = m and xs = xs] Cons.prems ins by auto
  have "set (m # ms) - set xs =
      (if m \<in> set xs then set ms - set xs' else insert m (set ms - set xs'))"
    using xs'(2) by auto
  moreover have "card (insert m (set ms - set xs')) = Suc (card (set ms - set xs'))"
    using xs'(2) by (intro card_insert_disjoint) auto
  ultimately show ?case using Cons.IH [OF xs'(1)] ins xs' by auto
qed simp

lemma set_remove_loop_eq:
  "distinct xs \<Longrightarrow>
     distinct (fst (remove_loop (\<lambda>m xs. snd (hset_remove m xs)) (\<lambda>m xs. fst (hset_remove m xs)) ms xs n)) \<and>
     set (fst (remove_loop (\<lambda>m xs. snd (hset_remove m xs)) (\<lambda>m xs. fst (hset_remove m xs)) ms xs n))
       = set xs - set ms \<and>
     snd (remove_loop (\<lambda>m xs. snd (hset_remove m xs)) (\<lambda>m xs. fst (hset_remove m xs)) ms xs n)
       = n + int (card (set xs \<inter> set ms))"
proof (induction ms arbitrary: xs n)
  case (Cons m ms)
  let ?xs = "fst (hset_remove m xs)"
  have d: "distinct ?xs" using Cons.prems by simp
  have "set xs \<inter> set (m # ms) =
      (if m \<in> set xs then insert m (set ?xs \<inter> set ms) else set ?xs \<inter> set ms)"
    by auto
  moreover have "card (insert m (set ?xs \<inter> set ms)) = Suc (card (set ?xs \<inter> set ms))"
    by (intro card_insert_disjoint) auto
  ultimately show ?case using Cons.IH [OF d] by auto
qed simp

lemmas set_remove_loop_simps = set_remove_loop_eq [unfolded hset_remove_simps(3)]

section \<open>Every single-key set command is key-local and implements its specification\<close>

definition spec_set_add :: "u64 \<Rightarrow> bytes list \<Rightarrow> entry option \<Rightarrow> entry option \<times> int result" where
  "spec_set_add now ms =
     (let add = (\<lambda>xs. (fst (set_add_loop ms xs 0), Ok (snd (set_add_loop ms xs 0))))
      in on_set now (Some (fresh (Set (fst (add [])))), snd (add [])) add)"

definition spec_set_remove :: "u64 \<Rightarrow> bytes list \<Rightarrow> entry option \<Rightarrow> entry option \<times> int result" where
  "spec_set_remove now ms =
     on_set now (None, Ok 0)
       (\<lambda>xs. (fst (remove_loop (\<lambda>m xs. snd (hset_remove m xs)) (\<lambda>m xs. fst (hset_remove m xs)) ms xs 0),
              Ok (int (card (set xs \<inter> set ms)))))"

definition spec_set_read :: "u64 \<Rightarrow> 'r \<Rightarrow> (bytes list \<Rightarrow> 'r) \<Rightarrow> entry option \<Rightarrow> entry option \<times> 'r result" where
  "spec_set_read now d g = on_set now (None, Ok d) (\<lambda>xs. (xs, Ok (g xs)))"

lemmas set_local_simps = hm_ok_data Let_def fun_upd_idem case_prod_beta set_add_loop_eq
  set_remove_loop_simps

lemma set_add_loop_nonempty: "ms \<noteq> [] \<or> xs \<noteq> [] \<Longrightarrow> distinct xs \<Longrightarrow> fst (set_add_loop ms xs n) \<noteq> []"
  using set_add_loop_eq [of xs ms n] by (metis Un_empty set_empty)

lemma key_local_set_add:
  assumes "ms \<noteq> []"
  shows "key_local k (sh_set_add now k ms) (spec_set_add now ms)"
  unfolding spec_set_add_def Let_def
  by (rule scoll.key_local_collI)
    (auto simp: sh_set_add_def set_local_simps set_add_loop_nonempty assms split: option.splits val.splits)

lemma key_local_set_add_single_bytes:
  "key_local k (sh_set_add_single_bytes now k m) (spec_set_add now [m])"
  unfolding spec_set_add_def Let_def
  by (rule scoll.key_local_collI)
    (auto simp: sh_set_add_single_bytes_def set_local_simps hset_insert_def split: option.splits val.splits)

lemma key_local_set_remove: "key_local k (sh_set_remove now k ms) (spec_set_remove now ms)"
  unfolding spec_set_remove_def
  by (rule scoll.key_local_collI)
    (auto simp: sh_set_remove_def set_local_simps split: option.splits val.splits)

lemma key_local_set_members: "key_local k (sh_set_members now k) (spec_set_read now [] (\<lambda>xs. xs))"
  unfolding spec_set_read_def
  by (rule scoll.key_local_collI)
    (auto simp: sh_set_members_def set_local_simps split: option.splits val.splits)

lemma key_local_set_is_member:
  "key_local k (sh_set_is_member now k m) (spec_set_read now False (\<lambda>xs. m \<in> set xs))"
  unfolding spec_set_read_def
  by (rule scoll.key_local_collI)
    (auto simp: sh_set_is_member_def set_local_simps split: option.splits val.splits)

lemma key_local_set_card: "key_local k (sh_set_card now k) (spec_set_read now 0 (\<lambda>xs. int (length xs)))"
  unfolding spec_set_read_def
  by (rule scoll.key_local_collI)
    (auto simp: sh_set_card_def set_local_simps split: option.splits val.splits)

lemma implements_set_add:
  assumes "ms \<noteq> []"
  shows "implements_set now k (sh_set_add now k ms) (\<lambda>X. X \<union> set ms) (\<lambda>X r. r = Ok (int (card (set ms - X))))"
  by (rule scoll.implements_on_coll [OF key_local_set_add [OF assms, unfolded spec_set_add_def Let_def]])
    (auto simp: set_add_loop_eq set_add_loop_nonempty assms intro!: exI [of _ "fst (set_add_loop ms [] 0)"])

lemma implements_set_add_single_bytes:
  "implements_set now k (sh_set_add_single_bytes now k m) (insert m) (\<lambda>X r. r = Ok (if m \<in> X then 0 else 1))"
  by (rule scoll.implements_on_coll [OF key_local_set_add_single_bytes [unfolded spec_set_add_def Let_def]])
    (auto simp: case_prod_beta hset_insert_def)

lemma implements_set_remove:
  "implements_set now k (sh_set_remove now k ms) (\<lambda>X. X - set ms) (\<lambda>X r. r = Ok (int (card (X \<inter> set ms))))"
  by (rule scoll.implements_on_coll [OF key_local_set_remove [unfolded spec_set_remove_def]])
    (auto simp: set_remove_loop_simps)

lemma implements_set_members:
  "implements_set now k (sh_set_members now k) (\<lambda>X. X) (\<lambda>X r. \<exists>xs. r = Ok xs \<and> distinct xs \<and> set xs = X)"
  by (rule scoll.implements_on_coll [OF key_local_set_members [unfolded spec_set_read_def]]) auto

lemma implements_set_is_member:
  "implements_set now k (sh_set_is_member now k m) (\<lambda>X. X) (\<lambda>X r. r = Ok (m \<in> X))"
  by (rule scoll.implements_on_coll [OF key_local_set_is_member [unfolded spec_set_read_def]]) auto

lemma implements_set_card:
  "implements_set now k (sh_set_card now k) (\<lambda>X. X) (\<lambda>X r. r = Ok (int (card X)))"
  by (rule scoll.implements_on_coll [OF key_local_set_card [unfolded spec_set_read_def]])
    (auto simp: distinct_card)

section \<open>SMOVE between two keys of one bucket\<close>

text \<open>The effect of a move on the source cell and the destination cell.\<close>

definition move_cells ::
  "u64 \<Rightarrow> bytes \<Rightarrow> entry option \<Rightarrow> entry option \<Rightarrow> entry option \<times> entry option \<times> bool result" where
  "move_cells now m c d =
     (case live now c of
        None \<Rightarrow> (None, live now d, Ok False)
      | Some e \<Rightarrow>
          (case set_of (e_value e) of
             None \<Rightarrow> (Some e, live now d, Err)
           | Some xs \<Rightarrow>
               if m \<notin> set xs then (Some e, live now d, Ok False)
               else
                 let xs' = fst (hset_remove m xs);
                     c' = (if xs' = [] then None else Some (e\<lparr>e_value := Set xs'\<rparr>))
                 in case live now d of
                      None \<Rightarrow> (c', Some (fresh (Set [m])), Ok True)
                    | Some e' \<Rightarrow>
                        (case set_of (e_value e') of
                           Some ys \<Rightarrow> (c', Some (e'\<lparr>e_value := Set (fst (hset_insert m ys))\<rparr>), Ok True)
                         | None \<Rightarrow> (c', Some e', Err))))"

lemma hset_remove_absent: "m \<notin> set xs \<Longrightarrow> hset_remove m xs = (xs, False)"
  by (auto simp: hset_remove_def intro!: filter_True)

lemma hset_insert_Nil: "hset_insert m [] = ([m], True)"
  by (simp add: hset_insert_def)

lemma hset_remove_pair: "hset_remove m xs = (fst (hset_remove m xs), m \<in> set xs)"
  by (simp add: hset_remove_def)

lemma move_cells_ok:
  assumes "cell_ok c" and "cell_ok d"
  shows "cell_ok (fst (move_cells now m c d))" and "cell_ok (fst (snd (move_cells now m c d)))"
proof -
  show "cell_ok (fst (move_cells now m c d))"
    using cell_ok_live [OF assms(1), of now]
    by (auto simp: move_cells_def Let_def scoll.out_iff split: option.splits)
  show "cell_ok (fst (snd (move_cells now m c d)))"
    using cell_ok_live [OF assms(2), of now]
    by (auto simp: move_cells_def Let_def scoll.out_iff split: option.splits)
qed

lemma sh_set_move_eq:
  assumes "source \<noteq> dest" and s: "shard_ok s"
    and mv: "move_cells now m (shard_get s source) (shard_get s dest) = (c', d', r)"
  shows "shard_ok (fst (sh_set_move now source dest m s))"
    and "shard_get (fst (sh_set_move now source dest m s)) = (shard_get s)(source := c', dest := d')"
    and "snd (sh_set_move now source dest m s) = r"
proof -
  have g: "shard_get (fst (sh_set_move now source dest m s)) = (shard_get s)(source := c', dest := d')
      \<and> snd (sh_set_move now source dest m s) = r"
    using assms(1) mv
    by (auto simp: sh_set_move_def move_cells_def Let_def case_prod_beta fun_eq_iff hset_remove_absent
        hset_insert_Nil update_value_same scoll.out_iff split: option.splits val.splits if_splits)
  then show "shard_get (fst (sh_set_move now source dest m s)) = (shard_get s)(source := c', dest := d')"
    "snd (sh_set_move now source dest m s) = r" by auto
  have d: "hm_ok (data (fst (sh_set_move now source dest m s)))"
    using hm_ok_data [OF s]
    by (auto simp: sh_set_move_def Let_def case_prod_beta split: option.splits val.splits)
  have "cell_ok c'" "cell_ok d'"
    using move_cells_ok [OF shard_okD [OF s, of source] shard_okD [OF s, of dest], of now m] mv by auto
  with s d g show "shard_ok (fst (sh_set_move now source dest m s))"
    by (auto simp: shard_ok_def)
qed

text \<open>What a move does to the contents. The last case is a type error that has already taken the
  member out of the source.\<close>

lemma set_view_Err: "set_view now c = Err \<longleftrightarrow> (\<exists>e. live now c = Some e \<and> set_of (e_value e) = None)"
  by (auto simp: coll_view_def split: option.splits)

lemma set_view_Ok:
  "set_view now c = Ok (X, t) \<longleftrightarrow>
     live now c = None \<and> X = {} \<and> t = None \<or>
     (\<exists>e xs. live now c = Some e \<and> e_value e = Set xs \<and> X = set xs \<and> t = expires_at e)"
  by (auto simp: coll_view_def scoll.out_iff split: option.splits)

lemma view_after_remove:
  assumes "live now c = Some e"
  shows "set_view now (if fst (hset_remove m xs) = [] then None
      else Some (e\<lparr>e_value := Set (fst (hset_remove m xs))\<rparr>)) =
    Ok (set xs - {m}, if set xs - {m} = {} then None else expires_at e)"
proof -
  have "fst (hset_remove m xs) = [] \<longleftrightarrow> set xs - {m} = {}"
    by (metis hset_remove_simps(1) set_empty)
  then show ?thesis using scoll.live_update [OF assms, of "Set (fst (hset_remove m xs))"]
    by (simp add: coll_view_def)
qed

lemma view_after_insert:
  assumes "live now d = Some e"
  shows "set_view now (Some (e\<lparr>e_value := Set (fst (hset_insert m ys))\<rparr>)) = Ok (insert m (set ys), expires_at e)"
  using scoll.live_update [OF assms, of "Set (fst (hset_insert m ys))"] by (simp add: coll_view_def)

lemma move_cells_refused:
  assumes "move_cells now m c d = (c', d', r)" and "set_view now c = Err"
  shows "r = Err \<and> c' = c \<and> d' = live now d"
  using assms by (auto simp: move_cells_def set_view_Err dest: live_SomeD)

lemma move_cells_absent:
  assumes "move_cells now m c d = (c', d', r)" and "set_view now c = Ok (X, t)" and "m \<notin> X"
  shows "r = Ok False \<and> c' = live now c \<and> d' = live now d"
  using assms by (auto simp: move_cells_def set_view_Ok)

lemma move_cells_moved:
  assumes mv: "move_cells now m c d = (c', d', r)" and c: "set_view now c = Ok (X, t)" and m: "m \<in> X"
    and d: "set_view now d = Ok (Y, u)"
  shows "r = Ok True \<and> set_view now c' = Ok (X - {m}, if X - {m} = {} then None else t) \<and>
    set_view now d' = Ok (insert m Y, u)"
proof -
  obtain e xs where e: "live now c = Some e" "e_value e = Set xs" "X = set xs" "t = expires_at e"
    using c m by (auto simp: set_view_Ok)
  have c': "c' = (if fst (hset_remove m xs) = [] then None
      else Some (e\<lparr>e_value := Set (fst (hset_remove m xs))\<rparr>))"
    using mv e m by (auto simp: move_cells_def Let_def split: option.splits)
  have v: "set_view now c' = Ok (X - {m}, if X - {m} = {} then None else t)"
    unfolding c' e(3,4) by (rule view_after_remove [OF e(1)])
  have "r = Ok True \<and> set_view now d' = Ok (insert m Y, u)"
  proof (cases "live now d")
    case None
    then show ?thesis using mv e m d by (auto simp: move_cells_def Let_def coll_view_def)
  next
    case (Some e')
    then obtain ys where ys: "e_value e' = Set ys" "Y = set ys" "u = expires_at e'"
      using d by (auto simp: set_view_Ok)
    then have "r = Ok True \<and> d' = Some (e'\<lparr>e_value := Set (fst (hset_insert m ys))\<rparr>)"
      using mv e m Some by (auto simp: move_cells_def Let_def)
    with view_after_insert [OF Some, of m ys] ys show ?thesis by simp
  qed
  with v show ?thesis by simp
qed

lemma move_cells_lost:
  assumes mv: "move_cells now m c d = (c', d', r)" and c: "set_view now c = Ok (X, t)" and m: "m \<in> X"
    and d: "set_view now d = Err"
  shows "r = Err \<and> set_view now c' = Ok (X - {m}, if X - {m} = {} then None else t) \<and> d' = d"
proof -
  obtain e xs where e: "live now c = Some e" "e_value e = Set xs" "X = set xs" "t = expires_at e"
    using c m by (auto simp: set_view_Ok)
  obtain e' where e': "live now d = Some e'" "set_of (e_value e') = None" using d by (auto simp: set_view_Err)
  have "c' = (if fst (hset_remove m xs) = [] then None
      else Some (e\<lparr>e_value := Set (fst (hset_remove m xs))\<rparr>)) \<and> d' = d \<and> r = Err"
    using mv e e' m live_SomeD [OF e'(1)] by (auto simp: move_cells_def Let_def)
  with view_after_remove [OF e(1), of m xs] e show ?thesis by simp
qed

section \<open>Properties\<close>

text \<open>C13: Every command on one set implements its specification on the set of members: \<open>SADD\<close> (also the
  single-member variant) adds members and counts the new ones, \<open>SREM\<close> removes members and counts those
  present, \<open>SMEMBERS\<close>, \<open>SISMEMBER\<close> and \<open>SCARD\<close> read; no member is returned twice, the key disappears with
  its last member, and a key of another type is refused unchanged.\<close>

theorem set_commands:
  assumes "ms \<noteq> []"
  shows "implements_set now k (sh_set_add now k ms) (\<lambda>X. X \<union> set ms) (\<lambda>X r. r = Ok (int (card (set ms - X)))) \<and>
    implements_set now k (sh_set_add_single_bytes now k m) (insert m) (\<lambda>X r. r = Ok (if m \<in> X then 0 else 1)) \<and>
    implements_set now k (sh_set_remove now k ms) (\<lambda>X. X - set ms) (\<lambda>X r. r = Ok (int (card (X \<inter> set ms)))) \<and>
    implements_set now k (sh_set_members now k) (\<lambda>X. X) (\<lambda>X r. \<exists>xs. r = Ok xs \<and> distinct xs \<and> set xs = X) \<and>
    implements_set now k (sh_set_is_member now k m) (\<lambda>X. X) (\<lambda>X r. r = Ok (m \<in> X)) \<and>
    implements_set now k (sh_set_card now k) (\<lambda>X. X) (\<lambda>X r. r = Ok (int (card X)))"
  by (intro conjI implements_set_add implements_set_add_single_bytes implements_set_remove implements_set_members
      implements_set_is_member implements_set_card assms)

theorem set_commands_witness:
  "implements_set 0 ''s'' (sh_set_card 0 ''s'') (\<lambda>X. X) (\<lambda>X r. r = Ok (int (card X)))"
  using set_commands [of "[''a'']" 0 "''s''" "''a''"] by simp

end
