(* ===== verification/Store_Zsets.thy ===== *)
theory Store_Zsets
  imports Cell_View Store_Lists "HOL-Library.Product_Lexorder"
begin

text \<open>
  Sorted-set and stream commands of a bucket (\<open>zadd\<close>, \<open>zrem\<close>, \<open>zcard\<close>, \<open>zrange\<close>, \<open>stream_add\<close>,
  \<open>stream_range\<close>, \<open>stream_len\<close>, \<open>stream_rev_range\<close>, \<open>stream_del\<close> of \<open>src/muon_cache/store.rs\<close>). A
  sorted set is a hash map from members to scores that \<open>zrange\<close> sorts on every call, by score and
  then by member. Scores are bit patterns of \<open>f64\<close>; without NaN scores the comparison is a total
  order and the result of the sort is determined.
\<close>

section \<open>Model: sorted sets\<close>

definition sh_zadd :: "u64 \<Rightarrow> bytes \<Rightarrow> f64 \<Rightarrow> bytes \<Rightarrow> shard \<Rightarrow> shard \<times> bool result" where
  "sh_zadd now key score member s =
     (let s = expire_key now key s
      in case shard_get s key of
           Some e \<Rightarrow>
             (case e_value e of
                ZSet items \<Rightarrow> (shard_put key (e\<lparr>e_value := ZSet (hm_put member score items)\<rparr>) s,
                               Ok (hm_get items member = None))
              | _ \<Rightarrow> (s, Err))
         | None \<Rightarrow> (shard_put key (fresh (ZSet (hm_put member score []))) s, Ok True))"

definition sh_zrem :: "u64 \<Rightarrow> bytes \<Rightarrow> bytes list \<Rightarrow> shard \<Rightarrow> shard \<times> int result" where
  "sh_zrem now key members s =
     (let s = expire_key now key s
      in case shard_get s key of
           Some e \<Rightarrow>
             (case e_value e of
                ZSet items \<Rightarrow>
                  (let (items', removed) = remove_loop (\<lambda>m z. hm_get z m \<noteq> None) hm_del members items 0;
                       s = shard_put key (e\<lparr>e_value := ZSet items'\<rparr>) s
                   in (if items' = [] then fst (sh_remove key s) else s, Ok removed))
              | _ \<Rightarrow> (s, Err))
         | None \<Rightarrow> (s, Ok 0))"

definition sh_zcard :: "u64 \<Rightarrow> bytes \<Rightarrow> shard \<Rightarrow> shard \<times> int result" where
  "sh_zcard now key s =
     (let s = expire_key now key s
      in (s, case map_option e_value (shard_get s key) of
               Some (ZSet items) \<Rightarrow> Ok (int (length items)) | Some _ \<Rightarrow> Err | None \<Rightarrow> Ok 0))"

text \<open>The comparator of \<open>zrange\<close> and a stable sort with it (\<open>slice::sort_by\<close>). With scores that are NaN the comparator is not
  a total order; the library then leaves the result open and may panic, and nothing is claimed for that case.\<close>

definition then_with :: "ordering \<Rightarrow> ordering \<Rightarrow> ordering" where
  "then_with a b = (if a = Equal then b else a)"

definition zcmp :: "bytes \<times> f64 \<Rightarrow> bytes \<times> f64 \<Rightarrow> ordering" where
  "zcmp a b =
     then_with (case f64_partial_cmp (snd a) (snd b) of Some ord \<Rightarrow> ord | None \<Rightarrow> Equal)
       (cmp_of (fst a) (fst b))"

fun insert_by :: "('a \<Rightarrow> 'a \<Rightarrow> ordering) \<Rightarrow> 'a \<Rightarrow> 'a list \<Rightarrow> 'a list" where
  "insert_by cmp x [] = [x]"
| "insert_by cmp x (y # ys) = (if cmp x y = Greater then y # insert_by cmp x ys else x # y # ys)"

definition sort_by :: "('a \<Rightarrow> 'a \<Rightarrow> ordering) \<Rightarrow> 'a list \<Rightarrow> 'a list" where
  "sort_by cmp xs = foldr (insert_by cmp) xs []"

definition sh_zrange :: "u64 \<Rightarrow> bytes \<Rightarrow> int \<Rightarrow> int \<Rightarrow> shard \<Rightarrow> shard \<times> bytes list result" where
  "sh_zrange now key start stop s =
     (let s = expire_key now key s
      in (s, case map_option e_value (shard_get s key) of
               Some (ZSet items) \<Rightarrow>
                 (if items = [] then Ok []
                  else let sorted = sort_by zcmp items;
                           len = int (length sorted)
                       in case range_window len start stop of
                            None \<Rightarrow> Ok []
                          | Some (start_idx, cnt) \<Rightarrow> Ok (map fst (take cnt (drop start_idx sorted))))
             | Some _ \<Rightarrow> Err
             | None \<Rightarrow> Ok []))"

section \<open>Model: streams\<close>

definition stream_id :: "nat \<Rightarrow> bytes" where
  "stream_id n = dec_of_nat n @ ''-0''"

definition sh_stream_add ::
  "u64 \<Rightarrow> bytes \<Rightarrow> bytes \<Rightarrow> (bytes \<times> bytes) list \<Rightarrow> shard \<Rightarrow> shard \<times> bytes result" where
  "sh_stream_add now key xid flds s =
     (let s = expire_key now key s
      in if xid \<noteq> ''*'' then (s, Err)
         else case shard_get s key of
                Some e \<Rightarrow>
                  (case e_value e of
                     Stream items \<Rightarrow>
                       (let next_id = stream_id (length items + 1)
                        in (shard_put key (e\<lparr>e_value := Stream (items @ [(next_id, flds)])\<rparr>) s, Ok next_id))
                   | _ \<Rightarrow> (s, Err))
              | None \<Rightarrow> (shard_put key (fresh (Stream [(''1-0'', flds)])) s, Ok ''1-0''))"

definition sh_stream_range ::
  "u64 \<Rightarrow> bytes \<Rightarrow> bytes \<Rightarrow> bytes \<Rightarrow> shard \<Rightarrow> shard \<times> stream_items result" where
  "sh_stream_range now key start stop s =
     (let s = expire_key now key s
      in (s, case map_option e_value (shard_get s key) of
               Some (Stream items) \<Rightarrow> if start = ''-'' \<and> stop = ''+'' then Ok items else Ok []
             | Some _ \<Rightarrow> Err
             | None \<Rightarrow> Ok []))"

definition sh_stream_len :: "u64 \<Rightarrow> bytes \<Rightarrow> shard \<Rightarrow> shard \<times> int result" where
  "sh_stream_len now key s =
     (let s = expire_key now key s
      in (s, case map_option e_value (shard_get s key) of
               Some (Stream items) \<Rightarrow> Ok (int (length items)) | Some _ \<Rightarrow> Err | None \<Rightarrow> Ok 0))"

definition sh_stream_rev_range ::
  "u64 \<Rightarrow> bytes \<Rightarrow> bytes \<Rightarrow> bytes \<Rightarrow> shard \<Rightarrow> shard \<times> stream_items result" where
  "sh_stream_rev_range now key start stop s =
     (let s = expire_key now key s
      in (s, case map_option e_value (shard_get s key) of
               Some (Stream items) \<Rightarrow> if start = ''+'' \<and> stop = ''-'' then Ok (rev items) else Ok []
             | Some _ \<Rightarrow> Err
             | None \<Rightarrow> Ok []))"

definition sh_stream_del :: "u64 \<Rightarrow> bytes \<Rightarrow> bytes list \<Rightarrow> shard \<Rightarrow> shard \<times> int result" where
  "sh_stream_del now key ids s =
     (let s = expire_key now key s
      in case shard_get s key of
           Some e \<Rightarrow>
             (case e_value e of
                Stream items \<Rightarrow>
                  (let items' = filter (\<lambda>(xid, _). xid \<notin> set ids) items
                   in (shard_put key (e\<lparr>e_value := Stream items'\<rparr>) s,
                       Ok (int (length items) - int (length items'))))
              | _ \<Rightarrow> (s, Err))
         | None \<Rightarrow> (s, Ok 0))"

section \<open>Sorted sets as a collection\<close>

fun zset_of :: "val \<Rightarrow> (bytes, f64) hashmap option" where
  "zset_of (ZSet z) = Some z"
| "zset_of _ = None"

abbreviation zset_view :: "u64 \<Rightarrow> entry option \<Rightarrow> ((bytes \<Rightarrow> f64 option) \<times> u64 option) result" where
  "zset_view \<equiv> coll_view zset_of hm_get Map.empty"

abbreviation on_zset ::
  "u64 \<Rightarrow> entry option \<times> 'r result \<Rightarrow> ((bytes, f64) hashmap \<Rightarrow> (bytes, f64) hashmap \<times> 'r result) \<Rightarrow>
   entry option \<Rightarrow> entry option \<times> 'r result" where
  "on_zset \<equiv> on_coll ZSet zset_of (\<lambda>z. z = [])"

abbreviation implements_zset ::
  "u64 \<Rightarrow> bytes \<Rightarrow> (shard \<Rightarrow> shard \<times> 'r result) \<Rightarrow> ((bytes \<Rightarrow> f64 option) \<Rightarrow> (bytes \<Rightarrow> f64 option)) \<Rightarrow>
   ((bytes \<Rightarrow> f64 option) \<Rightarrow> 'r result \<Rightarrow> bool) \<Rightarrow> bool" where
  "implements_zset now \<equiv> implements (zset_view now) Map.empty"

interpretation zcoll: collection ZSet zset_of hm_ok "\<lambda>z. z = []" hm_get Map.empty
proof unfold_locales
  show "zset_of v = Some x \<longleftrightarrow> v = ZSet x" for v x by (cases v) auto
qed (use hm.pairs_empty_iff in auto)

section \<open>The sort behind ZRANGE\<close>

definition zkey :: "bytes \<times> f64 \<Rightarrow> int \<times> bytes" where
  "zkey a = (f64_key (snd a), fst a)"

lemma zcmp_Greater:
  assumes "\<not> f64_is_nan (snd a)" and "\<not> f64_is_nan (snd b)"
  shows "zcmp a b = Greater \<longleftrightarrow> zkey b < zkey a"
  using assms by (auto simp: zcmp_def then_with_def f64_partial_cmp_def cmp_of_def zkey_def)

lemma insert_by_zcmp:
  assumes "\<not> f64_is_nan (snd x)" and "\<forall>y \<in> set ys. \<not> f64_is_nan (snd y)"
  shows "insert_by zcmp x ys = insort_key zkey x ys"
  using assms by (induction ys) (auto simp: zcmp_Greater not_le)

lemma sort_by_zcmp:
  assumes "\<forall>x \<in> set xs. \<not> f64_is_nan (snd x)"
  shows "sort_by zcmp xs = sort_key zkey xs"
  using assms
proof (induction xs)
  case (Cons x xs)
  then have "sort_by zcmp (x # xs) = insert_by zcmp x (sort_key zkey xs)" by (simp add: sort_by_def)
  also have "\<dots> = insort_key zkey x (sort_key zkey xs)" using Cons.prems by (intro insert_by_zcmp) auto
  finally show ?case by simp
qed (simp add: sort_by_def)

lemma mset_sort_by: "mset (sort_by cmp xs) = mset xs"
proof -
  have "mset (insert_by cmp x ys) = add_mset x (mset ys)" for x ys by (induction ys) auto
  then show ?thesis by (induction xs) (auto simp: sort_by_def)
qed

lemma length_sort_by [simp]: "length (sort_by cmp xs) = length xs"
  using mset_eq_length [OF mset_sort_by] .

section \<open>Every sorted-set command is key-local and implements its specification\<close>

definition zrange_of :: "(bytes, f64) hashmap \<Rightarrow> int \<Rightarrow> int \<Rightarrow> bytes list" where
  "zrange_of items start stop = map fst (list_slice (sort_by zcmp items) start stop)"

definition spec_zadd :: "u64 \<Rightarrow> f64 \<Rightarrow> bytes \<Rightarrow> entry option \<Rightarrow> entry option \<times> bool result" where
  "spec_zadd now score m =
     on_zset now (Some (fresh (ZSet [(m, score)])), Ok True) (\<lambda>z. (hm_put m score z, Ok (hm_get z m = None)))"

definition spec_zrem :: "u64 \<Rightarrow> bytes list \<Rightarrow> entry option \<Rightarrow> entry option \<times> int result" where
  "spec_zrem now ms =
     on_zset now (None, Ok 0) (\<lambda>z. (fold hm_del ms z, Ok (int (card (dom (hm_get z) \<inter> set ms)))))"

definition spec_zread :: "u64 \<Rightarrow> 'r \<Rightarrow> ((bytes, f64) hashmap \<Rightarrow> 'r) \<Rightarrow> entry option \<Rightarrow> entry option \<times> 'r result" where
  "spec_zread now d g = on_zset now (None, Ok d) (\<lambda>z. (z, Ok (g z)))"

lemma hm_put_Nil: "hm_put k v [] = [(k, v)]"
  by (simp add: hm_put_def)

lemma hm_put_nonempty: "hm_put k v m \<noteq> []"
  by (cases m) (auto simp: hm_put_def)

lemma hm_remove_loop:
  assumes "hm_ok z"
  shows "remove_loop (\<lambda>m z. hm_get z m \<noteq> None) hm_del ms z n =
    (fold hm_del ms z, n + int (card (dom (hm_get z) \<inter> set ms)))"
  using hm.remove_loop_fst [of "\<lambda>m z. hm_get z m \<noteq> None" ms z n] hm.remove_loop_snd [OF assms, of ms n]
  by (metis prod.collapse)

lemma zrange_window:
  "range_window (int (length z)) start stop = None \<Longrightarrow> zrange_of z start stop = []"
  "range_window (int (length z)) start stop = Some (i, cnt) \<Longrightarrow>
     map fst (take cnt (drop i (sort_by zcmp z))) = zrange_of z start stop"
  using range_window_slice [of "sort_by zcmp z" start stop] by (auto simp: zrange_of_def)

lemmas zset_local_simps = hm_ok_data Let_def fun_upd_idem case_prod_beta hm_put_Nil hm_put_nonempty
  hm_remove_loop hm.del_loop(1)

lemma hm_ok_single [simp]: "hm_ok [(k, v)]"
  by (simp add: hm_ok_def)

lemma key_local_zadd: "key_local k (sh_zadd now k sc m) (spec_zadd now sc m)"
  unfolding spec_zadd_def
  by (rule zcoll.key_local_collI)
    (auto simp: sh_zadd_def zset_local_simps split: option.splits val.splits)

lemma key_local_zrem: "key_local k (sh_zrem now k ms) (spec_zrem now ms)"
  unfolding spec_zrem_def
  by (rule zcoll.key_local_collI)
    (auto simp: sh_zrem_def zset_local_simps simp del: not_None_eq split: option.splits val.splits)

lemma key_local_zcard: "key_local k (sh_zcard now k) (spec_zread now 0 (\<lambda>z. int (length z)))"
  unfolding spec_zread_def
  by (rule zcoll.key_local_collI)
    (auto simp: sh_zcard_def zset_local_simps split: option.splits val.splits)

lemma key_local_zrange:
  "key_local k (sh_zrange now k start stop) (spec_zread now [] (\<lambda>z. zrange_of z start stop))"
  unfolding spec_zread_def
  by (rule zcoll.key_local_collI)
    (auto simp: sh_zrange_def zset_local_simps zrange_window split: option.splits val.splits)

lemma implements_zadd:
  "implements_zset now k (sh_zadd now k sc m) (\<lambda>z. z(m \<mapsto> sc)) (\<lambda>z r. r = Ok (z m = None))"
  by (rule zcoll.implements_on_coll [OF key_local_zadd [unfolded spec_zadd_def]])
    (auto simp: hm_get_def fun_eq_iff)

lemma implements_zrem:
  "implements_zset now k (sh_zrem now k ms) (\<lambda>z m. if m \<in> set ms then None else z m)
     (\<lambda>z r. r = Ok (int (card (dom z \<inter> set ms))))"
  by (rule zcoll.implements_on_coll [OF key_local_zrem [unfolded spec_zrem_def]])
    (auto simp: hm.del_loop fun_eq_iff)

lemma implements_zcard:
  "implements_zset now k (sh_zcard now k) (\<lambda>z. z) (\<lambda>z r. r = Ok (int (card (dom z))))"
  by (rule zcoll.implements_on_coll [OF key_local_zcard [unfolded spec_zread_def]])
    (auto simp: hm.length_pairs)

text \<open>The members of a range, for a sorted set without NaN scores: the slice of the one list that
  holds every member once with its score and ascends in (score, member).\<close>

definition zrange_allowed :: "int \<Rightarrow> int \<Rightarrow> (bytes \<Rightarrow> f64 option) \<Rightarrow> bytes list \<Rightarrow> bool" where
  "zrange_allowed start stop z ms \<longleftrightarrow>
     (\<forall>sc \<in> ran z. \<not> f64_is_nan sc) \<longrightarrow>
     (\<exists>L. distinct (map fst L) \<and> map_of L = z \<and> sorted (map zkey L) \<and> ms = map fst (list_slice L start stop))"

lemma zrange_of_allowed:
  assumes z: "hm_ok z"
  shows "zrange_allowed start stop (hm_get z) (zrange_of z start stop)"
  unfolding zrange_allowed_def
proof
  assume "\<forall>sc \<in> ran (hm_get z). \<not> f64_is_nan sc"
  then have "\<forall>x \<in> set z. \<not> f64_is_nan (snd x)"
    using z by (auto simp: ran_def hm_pairs_iff) (metis prod.collapse hm_pairs_iff)
  then have srt: "sort_by zcmp z = sort_key zkey z" by (rule sort_by_zcmp)
  have d: "distinct (map fst (sort_by zcmp z))"
    using z mset_eq_imp_distinct_iff [of "map fst (sort_by zcmp z)" "map fst z"]
    by (simp add: hm_ok_def mset_sort_by)
  have "map_of (sort_by zcmp z) = hm_get z"
    using z d mset_eq_setD [OF mset_sort_by [of zcmp z]]
    by (simp add: hm_get_def [abs_def] hm_ok_def map_of_inject_set)
  with d srt show "\<exists>L. distinct (map fst L) \<and> map_of L = hm_get z \<and> sorted (map zkey L) \<and>
      zrange_of z start stop = map fst (list_slice L start stop)"
    by (auto simp: zrange_of_def intro!: exI [of _ "sort_by zcmp z"])
qed

lemma implements_zrange:
  "implements_zset now k (sh_zrange now k start stop) (\<lambda>z. z)
     (\<lambda>z r. \<exists>ms. r = Ok ms \<and> zrange_allowed start stop z ms)"
proof (rule zcoll.implements_on_coll [OF key_local_zrange [unfolded spec_zread_def]])
  show "\<exists>ms. snd (None, Ok []) = Ok ms \<and> zrange_allowed start stop Map.empty ms"
    using zrange_of_allowed [of "[]" start stop]
    by (simp add: zrange_of_def sort_by_def list_slice_eq hm_get_def [abs_def])
qed (auto simp: zrange_of_allowed)

section \<open>Streams\<close>

definition on_stream ::
  "u64 \<Rightarrow> entry option \<times> 'r result \<Rightarrow> (stream_items \<Rightarrow> stream_items \<times> 'r result) \<Rightarrow> entry option \<Rightarrow>
   entry option \<times> 'r result" where
  "on_stream now dflt f c =
     (case live now c of
        None \<Rightarrow> dflt
      | Some e \<Rightarrow>
          (case e_value e of
             Stream items \<Rightarrow> (Some (e\<lparr>e_value := Stream (fst (f items))\<rparr>), snd (f items))
           | _ \<Rightarrow> (Some e, Err)))"

definition spec_stream_add :: "u64 \<Rightarrow> bytes \<Rightarrow> (bytes \<times> bytes) list \<Rightarrow> entry option \<Rightarrow> entry option \<times> bytes result" where
  "spec_stream_add now xid flds c =
     (if xid \<noteq> ''*'' then (live now c, Err)
      else on_stream now (Some (fresh (Stream [(stream_id 1, flds)])), Ok (stream_id 1))
             (\<lambda>items. (items @ [(stream_id (length items + 1), flds)], Ok (stream_id (length items + 1)))) c)"

definition spec_stream_read :: "u64 \<Rightarrow> 'r \<Rightarrow> (stream_items \<Rightarrow> 'r) \<Rightarrow> entry option \<Rightarrow> entry option \<times> 'r result" where
  "spec_stream_read now d g = on_stream now (None, Ok d) (\<lambda>items. (items, Ok (g items)))"

definition spec_stream_del :: "u64 \<Rightarrow> bytes list \<Rightarrow> entry option \<Rightarrow> entry option \<times> int result" where
  "spec_stream_del now ids =
     on_stream now (None, Ok 0)
       (\<lambda>items. (filter (\<lambda>(xid, _). xid \<notin> set ids) items,
                 Ok (int (length (filter (\<lambda>(xid, _). xid \<in> set ids) items)))))"

lemma stream_id_1: "stream_id (Suc 0) = ''1-0''"
  by code_simp

lemma on_stream_ok: "cell_ok c \<Longrightarrow> cell_ok (fst dflt) \<Longrightarrow> cell_ok (fst (on_stream now dflt f c))"
  by (auto simp: on_stream_def dest!: live_SomeD split: option.splits val.splits)

lemma length_filter_compl: "int (length xs) - int (length (filter (\<lambda>(a, _). a \<notin> S) xs)) =
    int (length (filter (\<lambda>(a, _). a \<in> S) xs))"
  by (induction xs) auto

lemmas stream_local_simps = hm_ok_data Let_def fun_eq_iff on_stream_def stream_id_1 update_value_same

lemma key_local_stream_add: "key_local k (sh_stream_add now k xid flds) (spec_stream_add now xid flds)"
proof (rule key_localI)
  fix c assume "cell_ok c"
  then show "cell_ok (fst (spec_stream_add now xid flds c))"
    by (auto simp: spec_stream_add_def intro!: on_stream_ok)
qed (auto simp: sh_stream_add_def spec_stream_add_def stream_local_simps split: option.splits val.splits)

lemma spec_stream_read_ok: "cell_ok c \<Longrightarrow> cell_ok (fst (spec_stream_read now d g c))"
  by (simp add: spec_stream_read_def on_stream_ok)

lemma key_local_stream_read:
  "key_local k (sh_stream_range now k start stop)
     (spec_stream_read now [] (\<lambda>items. if start = ''-'' \<and> stop = ''+'' then items else []))"
  "key_local k (sh_stream_rev_range now k start stop)
     (spec_stream_read now [] (\<lambda>items. if start = ''+'' \<and> stop = ''-'' then rev items else []))"
  "key_local k (sh_stream_len now k) (spec_stream_read now 0 (\<lambda>items. int (length items)))"
proof -
  show "key_local k (sh_stream_range now k start stop)
     (spec_stream_read now [] (\<lambda>items. if start = ''-'' \<and> stop = ''+'' then items else []))"
    by (rule key_localI [OF _ _ _ spec_stream_read_ok])
      (auto simp: sh_stream_range_def spec_stream_read_def stream_local_simps split: option.splits val.splits)
  show "key_local k (sh_stream_rev_range now k start stop)
     (spec_stream_read now [] (\<lambda>items. if start = ''+'' \<and> stop = ''-'' then rev items else []))"
    by (rule key_localI [OF _ _ _ spec_stream_read_ok])
      (auto simp: sh_stream_rev_range_def spec_stream_read_def stream_local_simps split: option.splits val.splits)
  show "key_local k (sh_stream_len now k) (spec_stream_read now 0 (\<lambda>items. int (length items)))"
    by (rule key_localI [OF _ _ _ spec_stream_read_ok])
      (auto simp: sh_stream_len_def spec_stream_read_def stream_local_simps split: option.splits val.splits)
qed

lemma key_local_stream_del: "key_local k (sh_stream_del now k ids) (spec_stream_del now ids)"
proof (rule key_localI)
  fix c assume "cell_ok c"
  then show "cell_ok (fst (spec_stream_del now ids c))" by (simp add: spec_stream_del_def on_stream_ok)
qed (auto simp: sh_stream_del_def spec_stream_del_def stream_local_simps length_filter_compl
    split: option.splits val.splits)

text \<open>The identifiers are numbers in decimal notation: distinct lengths of the stream give distinct
  identifiers, so a stream that only grows never repeats one.\<close>

lemma stream_id_inj: "stream_id m = stream_id n \<longleftrightarrow> m = n"
proof
  assume "stream_id m = stream_id n"
  then have "nat_of_dec (dec_of_nat m) = nat_of_dec (dec_of_nat n)" by (simp add: stream_id_def)
  then show "m = n" by simp
qed simp

section \<open>Properties\<close>

text \<open>C14: Every sorted-set command implements its specification on the map from members to scores: \<open>ZADD\<close>
  writes the score and says whether the member is new, \<open>ZREM\<close> counts the members removed, \<open>ZCARD\<close> counts,
  and \<open>ZRANGE\<close> returns the requested slice of the members ordered by score and then by name, as long as
  no score is a NaN.\<close>

theorem zset_commands:
  "implements_zset now k (sh_zadd now k sc m) (\<lambda>z. z(m \<mapsto> sc)) (\<lambda>z r. r = Ok (z m = None)) \<and>
   implements_zset now k (sh_zrem now k ms) (\<lambda>z m. if m \<in> set ms then None else z m)
     (\<lambda>z r. r = Ok (int (card (dom z \<inter> set ms)))) \<and>
   implements_zset now k (sh_zcard now k) (\<lambda>z. z) (\<lambda>z r. r = Ok (int (card (dom z)))) \<and>
   implements_zset now k (sh_zrange now k start stop) (\<lambda>z. z)
     (\<lambda>z r. \<exists>ms. r = Ok ms \<and> zrange_allowed start stop z ms)"
  by (intro conjI implements_zadd implements_zrem implements_zcard implements_zrange)

text \<open>A run of \<open>XADD\<close> commands on one key.\<close>

fun xadd_all :: "u64 \<Rightarrow> bytes \<Rightarrow> (bytes \<times> bytes) list list \<Rightarrow> shard \<Rightarrow> shard \<times> bytes result list" where
  "xadd_all now k [] s = (s, [])"
| "xadd_all now k (flds # rest) s =
     (case sh_stream_add now k ''*'' flds s of (s, r) \<Rightarrow> case xadd_all now k rest s of (s, rs) \<Rightarrow> (s, r # rs))"

lemma xadd_step:
  assumes s: "shard_ok s" and e: "live now (shard_get s k) = Some e" "e_value e = Stream its"
  shows "shard_ok (fst (sh_stream_add now k ''*'' flds s))"
    and "snd (sh_stream_add now k ''*'' flds s) = Ok (stream_id (length its + 1))"
    and "live now (shard_get (fst (sh_stream_add now k ''*'' flds s)) k) =
      Some (e\<lparr>e_value := Stream (its @ [(stream_id (length its + 1), flds)])\<rparr>)"
proof -
  note kl = key_localD [OF key_local_stream_add [of k now "''*''" flds] s]
  show "shard_ok (fst (sh_stream_add now k ''*'' flds s))" by (rule kl(1))
  show "snd (sh_stream_add now k ''*'' flds s) = Ok (stream_id (length its + 1))"
    using kl(3) e by (simp add: spec_stream_add_def on_stream_def)
  show "live now (shard_get (fst (sh_stream_add now k ''*'' flds s)) k) =
      Some (e\<lparr>e_value := Stream (its @ [(stream_id (length its + 1), flds)])\<rparr>)"
    using kl(2) e zcoll.live_update [OF e(1)] by (simp add: spec_stream_add_def on_stream_def)
qed

lemma xadd_all_results:
  "shard_ok s \<Longrightarrow> live now (shard_get s k) = Some e \<Longrightarrow> e_value e = Stream its \<Longrightarrow>
     snd (xadd_all now k fls s) = map (\<lambda>i. Ok (stream_id i)) [Suc (length its)..<Suc (length its) + length fls]"
proof (induction fls arbitrary: s e its)
  case (Cons flds fls)
  note st = xadd_step [OF Cons.prems, of flds]
  from Cons.IH [OF st(1,3)] st(2) show ?case
    by (simp add: case_prod_beta upt_conv_Cons del: upt_Suc)
qed simp

text \<open>Entries appended to a new stream get the identifiers \<open>1-0\<close>, \<open>2-0\<close>, and so on: as long as nothing is
  deleted, all identifiers are different.\<close>

theorem stream_ids_fresh:
  assumes "shard_ok s" and "live now (shard_get s k) = None"
  shows "snd (xadd_all now k fls s) = map (\<lambda>i. Ok (stream_id i)) [1..<Suc (length fls)] \<and>
    distinct (snd (xadd_all now k fls s))"
proof -
  have "snd (xadd_all now k fls s) = map (\<lambda>i. Ok (stream_id i)) [1..<Suc (length fls)]"
  proof (cases fls)
    case (Cons flds rest)
    note kl = key_localD [OF key_local_stream_add [of k now "''*''" flds] assms(1)]
    have "snd (sh_stream_add now k ''*'' flds s) = Ok (stream_id 1)"
      "live now (shard_get (fst (sh_stream_add now k ''*'' flds s)) k) = Some (fresh (Stream [(stream_id 1, flds)]))"
      using kl(2,3) assms(2) by (simp_all add: spec_stream_add_def on_stream_def)
    with xadd_all_results [OF kl(1), of now k _ "[(stream_id 1, flds)]" rest] show ?thesis
      by (simp add: Cons case_prod_beta upt_conv_Cons del: upt_Suc)
  qed simp
  then show ?thesis by (simp add: distinct_map inj_on_def stream_id_inj)
qed

theorem stream_ids_fresh_witness:
  "distinct (snd (xadd_all 0 ''s'' [[], [(''a'', ''b'')]] shard_default))"
  by (rule stream_ids_fresh [THEN conjunct2]) simp_all

text \<open>After a deletion the identifiers are no longer unique: the next one is computed from the number of
  entries, so deleting the first of two entries and adding one gives the identifier of the entry that is
  still there.\<close>

theorem stream_id_reused:
  assumes "shard_ok s" and "live now (shard_get s k) = None"
    and "s1 = fst (xadd_all now k [a, b] s)" and "s2 = fst (sh_stream_del now k [stream_id 1] s1)"
  shows "snd (sh_stream_range now k ''-'' ''+'' (fst (sh_stream_add now k ''*'' c s2))) =
    Ok [(stream_id 2, b), (stream_id 2, c)]"
proof -
  note k1 = key_localD [OF key_local_stream_add [of k now "''*''" a] assms(1)]
  have l1: "live now (shard_get (fst (sh_stream_add now k ''*'' a s)) k) = Some (fresh (Stream [(stream_id 1, a)]))"
    using k1(2) assms(2) by (simp add: spec_stream_add_def on_stream_def)
  note k2 = xadd_step [OF k1(1) l1, where flds = b, simplified]
  have s1: "s1 = fst (sh_stream_add now k ''*'' b (fst (sh_stream_add now k ''*'' a s)))"
    using assms(3) by (simp add: case_prod_beta)
  note k3 = key_localD [OF key_local_stream_del [of k now "[stream_id 1]"] k2(1), folded s1, folded assms(4)]
  have "live now (shard_get s2 k) = Some (fresh (Stream [(stream_id 2, b)]))"
    using k3(2) k2(3) by (simp add: s1 spec_stream_del_def on_stream_def stream_id_inj numeral_2_eq_2)
  note k4 = xadd_step [OF k3(1) this, where flds = c, simplified]
  note k5 = key_localD [OF key_local_stream_read(1) [of k now "''-''" "''+''"] k4(1)]
  show ?thesis using k5(3) k4(3) by (simp add: spec_stream_read_def on_stream_def numeral_2_eq_2)
qed

theorem stream_id_reused_witness:
  "snd (sh_stream_range 0 ''s'' ''-'' ''+'' (fst (sh_stream_add 0 ''s'' ''*'' []
     (fst (sh_stream_del 0 ''s'' [stream_id 1] (fst (xadd_all 0 ''s'' [[], []] shard_default))))))) =
   Ok [(stream_id 2, []), (stream_id 2, [])]"
  using stream_id_reused [OF shard_ok_default _ refl refl, of 0 "''s''" "[]" "[]" "[]"]
  by (simp del: xadd_all.simps)

end
