(* ===== verification/Store_Db.thy ===== *)
theory Store_Db
  imports Sharding Store_Lists Store_Hashes Store_Sets Store_Zsets
begin

text \<open>
  The sharded database (\<open>Db\<close> in \<open>src/muon_cache/store.rs\<close>): 64 buckets, a key lives in the bucket its
  FNV-1a hash selects. The methods of \<open>Db\<close> delegate to the bucket of the key; the commands on
  several keys and on all keys combine buckets. The theory shows that sharding cannot be
  observed: the database behaves like one map from keys to entries. The routing argument is made
  once, in the locale \<open>sharded\<close>, for any index function and any bucket type.
\<close>

section \<open>Model\<close>

unbundle bit_operations_syntax

definition NUM_SHARDS :: nat where
  "NUM_SHARDS = 64"

definition fnv_write :: "bytes \<Rightarrow> u64 \<Rightarrow> u64" where
  "fnv_write bs h = fold (\<lambda>b h. (h XOR of_nat (of_char b)) * 0x100000001b3) bs h"

definition shard_index :: "bytes \<Rightarrow> nat" where
  "shard_index key = unat (fnv_write key 0xcbf29ce484222325) mod NUM_SHARDS"

record db =
  shards :: "shard list"

definition db_new :: db where
  "db_new = \<lparr>shards = replicate NUM_SHARDS shard_default\<rparr>"

text \<open>Lock the bucket of a key, run a bucket operation on it, put it back.\<close>

definition db_at :: "bytes \<Rightarrow> (shard \<Rightarrow> shard \<times> 'r) \<Rightarrow> db \<Rightarrow> db \<times> 'r" where
  "db_at key f d = (let (ss, r) = route shard_index key f (shards d) in (d\<lparr>shards := ss\<rparr>, r))"

subsection \<open>Delegation to one bucket\<close>

definition db_set :: "bytes \<Rightarrow> val \<Rightarrow> u64 option \<Rightarrow> db \<Rightarrow> db \<times> unit" where
  "db_set key v x = db_at key (sh_set key v x)"

definition db_set_with_expire_at :: "bytes \<Rightarrow> val \<Rightarrow> u64 option \<Rightarrow> db \<Rightarrow> db \<times> unit" where
  "db_set_with_expire_at key v x = db_at key (sh_set_with_expire_at key v x)"

definition db_remove :: "bytes \<Rightarrow> db \<Rightarrow> db \<times> bool" where
  "db_remove key = db_at key (sh_remove key)"

definition db_exists :: "u64 \<Rightarrow> bytes \<Rightarrow> db \<Rightarrow> db \<times> bool" where
  "db_exists now key = db_at key (sh_exists now key)"

definition db_ttl_ms :: "u64 \<Rightarrow> bytes \<Rightarrow> db \<Rightarrow> db \<times> int option" where
  "db_ttl_ms now key = db_at key (sh_ttl_ms now key)"

definition db_set_expire_ms :: "u64 \<Rightarrow> bytes \<Rightarrow> u64 \<Rightarrow> db \<Rightarrow> db \<times> bool" where
  "db_set_expire_ms now key ttl = db_at key (sh_set_expire_ms now key ttl)"

definition db_persist :: "u64 \<Rightarrow> bytes \<Rightarrow> db \<Rightarrow> db \<times> int" where
  "db_persist now key = db_at key (sh_persist now key)"

definition db_value_type :: "u64 \<Rightarrow> bytes \<Rightarrow> db \<Rightarrow> db \<times> string option" where
  "db_value_type now key = db_at key (sh_value_type now key)"

definition db_get_string :: "u64 \<Rightarrow> bytes \<Rightarrow> db \<Rightarrow> db \<times> bytes option result" where
  "db_get_string now key = db_at key (sh_get_string now key)"

definition db_set_string :: "bytes \<Rightarrow> bytes \<Rightarrow> u64 option \<Rightarrow> db \<Rightarrow> db \<times> unit" where
  "db_set_string key v x = db_at key (sh_set_string key v x)"

definition db_set_string_ref :: "bytes \<Rightarrow> bytes \<Rightarrow> u64 option \<Rightarrow> db \<Rightarrow> db \<times> unit" where
  "db_set_string_ref key v x = db_at key (sh_set_string_ref key v x)"

definition db_set_string_from_slices :: "bytes \<Rightarrow> bytes \<Rightarrow> u64 option \<Rightarrow> db \<Rightarrow> db \<times> unit" where
  "db_set_string_from_slices key v x = db_at key (sh_set_string_from_slices key v x)"

definition db_set_nx :: "u64 \<Rightarrow> bytes \<Rightarrow> bytes \<Rightarrow> db \<Rightarrow> db \<times> bool result" where
  "db_set_nx now key v = db_at key (sh_set_nx now key v)"

definition db_append :: "u64 \<Rightarrow> bytes \<Rightarrow> bytes \<Rightarrow> db \<Rightarrow> db \<times> int result" where
  "db_append now key x = db_at key (sh_append now key x)"

definition db_incr_by :: "u64 \<Rightarrow> bytes \<Rightarrow> int \<Rightarrow> db \<Rightarrow> db \<times> int result" where
  "db_incr_by now key delta = db_at key (sh_incr_by now key delta)"

definition db_list_push :: "u64 \<Rightarrow> bytes \<Rightarrow> bytes list \<Rightarrow> bool \<Rightarrow> db \<Rightarrow> db \<times> int result" where
  "db_list_push now key values left = db_at key (sh_list_push now key values left)"

definition db_list_pop :: "u64 \<Rightarrow> bytes \<Rightarrow> bool \<Rightarrow> db \<Rightarrow> db \<times> bytes option result" where
  "db_list_pop now key left = db_at key (sh_list_pop now key left)"

definition db_list_range ::
  "u64 \<Rightarrow> (bytes list \<Rightarrow> nat) \<Rightarrow> bytes \<Rightarrow> int \<Rightarrow> int \<Rightarrow> db \<Rightarrow> db \<times> bytes list result" where
  "db_list_range now split_at key start stop = db_at key (sh_list_range now split_at key start stop)"

definition db_list_len :: "u64 \<Rightarrow> bytes \<Rightarrow> db \<Rightarrow> db \<times> int result" where
  "db_list_len now key = db_at key (sh_list_len now key)"

definition db_list_index :: "u64 \<Rightarrow> bytes \<Rightarrow> int \<Rightarrow> db \<Rightarrow> db \<times> bytes option result" where
  "db_list_index now key index = db_at key (sh_list_index now key index)"

definition db_list_set :: "u64 \<Rightarrow> bytes \<Rightarrow> int \<Rightarrow> bytes \<Rightarrow> db \<Rightarrow> db \<times> unit result" where
  "db_list_set now key index v = db_at key (sh_list_set now key index v)"

definition db_list_insert :: "u64 \<Rightarrow> bytes \<Rightarrow> bool \<Rightarrow> bytes \<Rightarrow> bytes \<Rightarrow> db \<Rightarrow> db \<times> int result" where
  "db_list_insert now key before pivot v = db_at key (sh_list_insert now key before pivot v)"

definition db_list_rem :: "u64 \<Rightarrow> bytes \<Rightarrow> int \<Rightarrow> bytes \<Rightarrow> db \<Rightarrow> db \<times> int result" where
  "db_list_rem now key cnt v = db_at key (sh_list_rem now key cnt v)"

definition db_hash_set :: "u64 \<Rightarrow> bytes \<Rightarrow> bytes \<Rightarrow> bytes \<Rightarrow> db \<Rightarrow> db \<times> bool result" where
  "db_hash_set now key field v = db_at key (sh_hash_set now key field v)"

definition db_hash_set_ref :: "u64 \<Rightarrow> bytes \<Rightarrow> bytes \<Rightarrow> bytes \<Rightarrow> db \<Rightarrow> db \<times> bool result" where
  "db_hash_set_ref now key field v = db_at key (sh_hash_set_ref now key field v)"

definition db_hash_set_bytes :: "u64 \<Rightarrow> bytes \<Rightarrow> bytes \<Rightarrow> bytes \<Rightarrow> db \<Rightarrow> db \<times> bool result" where
  "db_hash_set_bytes now key field v = db_at key (sh_hash_set_bytes now key field v)"

definition db_hash_get :: "u64 \<Rightarrow> bytes \<Rightarrow> bytes \<Rightarrow> db \<Rightarrow> db \<times> bytes option result" where
  "db_hash_get now key field = db_at key (sh_hash_get now key field)"

definition db_hash_del :: "u64 \<Rightarrow> bytes \<Rightarrow> bytes list \<Rightarrow> db \<Rightarrow> db \<times> int result" where
  "db_hash_del now key flds = db_at key (sh_hash_del now key flds)"

definition db_hash_len :: "u64 \<Rightarrow> bytes \<Rightarrow> db \<Rightarrow> db \<times> int result" where
  "db_hash_len now key = db_at key (sh_hash_len now key)"

definition db_hash_exists :: "u64 \<Rightarrow> bytes \<Rightarrow> bytes \<Rightarrow> db \<Rightarrow> db \<times> bool result" where
  "db_hash_exists now key field = db_at key (sh_hash_exists now key field)"

definition db_hash_getall :: "u64 \<Rightarrow> bytes \<Rightarrow> db \<Rightarrow> db \<times> (bytes \<times> bytes) list result" where
  "db_hash_getall now key = db_at key (sh_hash_getall now key)"

definition db_set_add :: "u64 \<Rightarrow> bytes \<Rightarrow> bytes list \<Rightarrow> db \<Rightarrow> db \<times> int result" where
  "db_set_add now key members = db_at key (sh_set_add now key members)"

definition db_set_add_single_bytes :: "u64 \<Rightarrow> bytes \<Rightarrow> bytes \<Rightarrow> db \<Rightarrow> db \<times> int result" where
  "db_set_add_single_bytes now key member = db_at key (sh_set_add_single_bytes now key member)"

definition db_set_remove :: "u64 \<Rightarrow> bytes \<Rightarrow> bytes list \<Rightarrow> db \<Rightarrow> db \<times> int result" where
  "db_set_remove now key members = db_at key (sh_set_remove now key members)"

definition db_set_members :: "u64 \<Rightarrow> bytes \<Rightarrow> db \<Rightarrow> db \<times> bytes list result" where
  "db_set_members now key = db_at key (sh_set_members now key)"

definition db_set_is_member :: "u64 \<Rightarrow> bytes \<Rightarrow> bytes \<Rightarrow> db \<Rightarrow> db \<times> bool result" where
  "db_set_is_member now key member = db_at key (sh_set_is_member now key member)"

definition db_set_card :: "u64 \<Rightarrow> bytes \<Rightarrow> db \<Rightarrow> db \<times> int result" where
  "db_set_card now key = db_at key (sh_set_card now key)"

definition db_zadd :: "u64 \<Rightarrow> bytes \<Rightarrow> f64 \<Rightarrow> bytes \<Rightarrow> db \<Rightarrow> db \<times> bool result" where
  "db_zadd now key score member = db_at key (sh_zadd now key score member)"

definition db_zrem :: "u64 \<Rightarrow> bytes \<Rightarrow> bytes list \<Rightarrow> db \<Rightarrow> db \<times> int result" where
  "db_zrem now key members = db_at key (sh_zrem now key members)"

definition db_zcard :: "u64 \<Rightarrow> bytes \<Rightarrow> db \<Rightarrow> db \<times> int result" where
  "db_zcard now key = db_at key (sh_zcard now key)"

definition db_zrange :: "u64 \<Rightarrow> bytes \<Rightarrow> int \<Rightarrow> int \<Rightarrow> db \<Rightarrow> db \<times> bytes list result" where
  "db_zrange now key start stop = db_at key (sh_zrange now key start stop)"

definition db_stream_add :: "u64 \<Rightarrow> bytes \<Rightarrow> bytes \<Rightarrow> (bytes \<times> bytes) list \<Rightarrow> db \<Rightarrow> db \<times> bytes result" where
  "db_stream_add now key xid flds = db_at key (sh_stream_add now key xid flds)"

definition db_stream_range :: "u64 \<Rightarrow> bytes \<Rightarrow> bytes \<Rightarrow> bytes \<Rightarrow> db \<Rightarrow> db \<times> stream_items result" where
  "db_stream_range now key start stop = db_at key (sh_stream_range now key start stop)"

definition db_list_push_x :: "u64 \<Rightarrow> bytes \<Rightarrow> bytes list \<Rightarrow> bool \<Rightarrow> db \<Rightarrow> db \<times> int result" where
  "db_list_push_x now key values left = db_at key (sh_list_push_x now key values left)"

definition db_hash_incr_by :: "u64 \<Rightarrow> bytes \<Rightarrow> bytes \<Rightarrow> int \<Rightarrow> db \<Rightarrow> db \<times> int result" where
  "db_hash_incr_by now key field delta = db_at key (sh_hash_incr_by now key field delta)"

definition db_hash_set_nx :: "u64 \<Rightarrow> bytes \<Rightarrow> bytes \<Rightarrow> bytes \<Rightarrow> db \<Rightarrow> db \<times> bool result" where
  "db_hash_set_nx now key field v = db_at key (sh_hash_set_nx now key field v)"

definition db_stream_len :: "u64 \<Rightarrow> bytes \<Rightarrow> db \<Rightarrow> db \<times> int result" where
  "db_stream_len now key = db_at key (sh_stream_len now key)"

definition db_stream_rev_range :: "u64 \<Rightarrow> bytes \<Rightarrow> bytes \<Rightarrow> bytes \<Rightarrow> db \<Rightarrow> db \<times> stream_items result" where
  "db_stream_rev_range now key start stop = db_at key (sh_stream_rev_range now key start stop)"

definition db_stream_del :: "u64 \<Rightarrow> bytes \<Rightarrow> bytes list \<Rightarrow> db \<Rightarrow> db \<times> int result" where
  "db_stream_del now key ids = db_at key (sh_stream_del now key ids)"

definition db_list_trim :: "u64 \<Rightarrow> bytes \<Rightarrow> int \<Rightarrow> int \<Rightarrow> db \<Rightarrow> (db \<times> unit result) outcome" where
  "db_list_trim now key start stop d =
     (case sh_list_trim now key start stop (shards d ! shard_index key) of
        Panic \<Rightarrow> Panic
      | Done (s, r) \<Rightarrow> Done (d\<lparr>shards := (shards d)[shard_index key := s]\<rparr>, r))"

subsection \<open>Operations on all buckets\<close>

text \<open>A loop over the buckets; every bucket operation reads the clock again, so the readings are a
  function of the bucket number.\<close>

definition each_shard :: "(nat \<Rightarrow> shard \<Rightarrow> shard \<times> 'r) \<Rightarrow> db \<Rightarrow> db \<times> 'r list" where
  "each_shard f d =
     (let outs = map (\<lambda>i. f i (shards d ! i)) [0..<length (shards d)]
      in (d\<lparr>shards := map fst outs\<rparr>, map snd outs))"

definition db_purge_expired_all :: "(nat \<Rightarrow> u64) \<Rightarrow> db \<Rightarrow> db" where
  "db_purge_expired_all clock d = fst (each_shard (\<lambda>i s. (sh_purge_expired_all (clock i) s, ())) d)"

definition db_snapshot_items :: "(nat \<Rightarrow> u64) \<Rightarrow> db \<Rightarrow> db \<times> (bytes \<times> val \<times> u64 option) list" where
  "db_snapshot_items clock d =
     (let (d, outs) = each_shard (\<lambda>i. sh_snapshot_items (clock i)) d in (d, concat outs))"

definition db_len :: "(nat \<Rightarrow> u64) \<Rightarrow> db \<Rightarrow> db \<times> nat" where
  "db_len clock d = (let (d, ns) = each_shard (\<lambda>i. sh_len (clock i)) d in (d, sum_list ns))"

definition db_keys :: "(nat \<Rightarrow> u64) \<Rightarrow> db \<Rightarrow> db \<times> bytes list" where
  "db_keys clock d = (let (d, outs) = each_shard (\<lambda>i. sh_keys (clock i)) d in (d, concat outs))"

definition db_keys_matching :: "(nat \<Rightarrow> u64) \<Rightarrow> bytes \<Rightarrow> db \<Rightarrow> db \<times> bytes list" where
  "db_keys_matching clock pattern d =
     (let (d, outs) = each_shard (\<lambda>i. sh_keys_matching (clock i) pattern) d in (d, sort (concat outs)))"

definition db_flush :: "db \<Rightarrow> db \<times> nat" where
  "db_flush d = (let (d, ns) = each_shard (\<lambda>i. sh_flush) d in (d, sum_list ns))"

subsection \<open>Operations on several keys\<close>

text \<open>\<open>set_move\<close>: within one bucket, or across two (both locked, lower index first).\<close>

definition db_set_move :: "u64 \<Rightarrow> bytes \<Rightarrow> bytes \<Rightarrow> bytes \<Rightarrow> db \<Rightarrow> db \<times> bool result" where
  "db_set_move now source dest member d =
     (let si = shard_index source; di = shard_index dest
      in if si = di then db_at source (sh_set_move now source dest member) d
         else
           let src = expire_key now source (shards d ! si);
               dst = expire_key now dest (shards d ! di);
               put_back = (\<lambda>src dst. d\<lparr>shards := (shards d)[si := src, di := dst]\<rparr>)
           in case shard_get src source of
                None \<Rightarrow> (put_back src dst, Ok False)
              | Some e \<Rightarrow>
                  (case e_value e of
                     Set xs \<Rightarrow>
                       (let (xs', removed) = hset_remove member xs;
                            src = shard_put source (e\<lparr>e_value := Set xs'\<rparr>) src
                        in if \<not> removed then (put_back src dst, Ok False)
                           else
                             let src = (if xs' = [] then fst (sh_remove source src) else src)
                             in case shard_get dst dest of
                                  Some e \<Rightarrow>
                                    (case e_value e of
                                       Set ys \<Rightarrow>
                                         (put_back src
                                            (shard_put dest (e\<lparr>e_value := Set (fst (hset_insert member ys))\<rparr>) dst),
                                          Ok True)
                                     | _ \<Rightarrow> (put_back src dst, Err))
                                | None \<Rightarrow>
                                    (put_back src (shard_put dest (fresh (Set (fst (hset_insert member [])))) dst),
                                     Ok True))
                   | _ \<Rightarrow> (put_back src dst, Err)))"

fun db_union_loop :: "u64 \<Rightarrow> bytes list \<Rightarrow> bytes list \<Rightarrow> db \<Rightarrow> db \<times> bytes list result" where
  "db_union_loop now [] acc d = (d, Ok acc)"
| "db_union_loop now (key # ks) acc d =
     (case db_set_members now key d of
        (d, Ok members) \<Rightarrow> db_union_loop now ks (fold (\<lambda>m a. fst (hset_insert m a)) members acc) d
      | (d, Err) \<Rightarrow> (d, Err))"

definition db_set_union :: "u64 \<Rightarrow> bytes list \<Rightarrow> db \<Rightarrow> db \<times> bytes list result" where
  "db_set_union now ks d = db_union_loop now ks [] d"

text \<open>The two loops of \<open>set_inter\<close>; \<open>Return\<close> carries the early return out of the function.\<close>

fun db_inter_keys :: "u64 \<Rightarrow> bytes \<Rightarrow> bytes list \<Rightarrow> db \<Rightarrow> db \<times> bytes list result flow" where
  "db_inter_keys now member [] d = (d, Next)"
| "db_inter_keys now member (key # ks) d =
     (case db_set_is_member now key member d of
        (d, Ok True) \<Rightarrow> db_inter_keys now member ks d
      | (d, Ok False) \<Rightarrow> (d, Continue)
      | (d, Err) \<Rightarrow> (d, Return Err))"

fun db_inter_members :: "u64 \<Rightarrow> bytes list \<Rightarrow> bytes list \<Rightarrow> bytes list \<Rightarrow> db \<Rightarrow> db \<times> bytes list result" where
  "db_inter_members now ks [] acc d = (d, Ok acc)"
| "db_inter_members now ks (m # ms) acc d =
     (case db_inter_keys now m ks d of
        (d, Next) \<Rightarrow> db_inter_members now ks ms (acc @ [m]) d
      | (d, Continue) \<Rightarrow> db_inter_members now ks ms acc d
      | (d, Return r) \<Rightarrow> (d, r))"

definition db_set_inter :: "u64 \<Rightarrow> bytes list \<Rightarrow> db \<Rightarrow> db \<times> bytes list result" where
  "db_set_inter now ks d =
     (case ks of
        [] \<Rightarrow> (d, Ok [])
      | key # rest \<Rightarrow>
          (case db_set_members now key d of
             (d, Err) \<Rightarrow> (d, Err)
           | (d, Ok first) \<Rightarrow> if first = [] then (d, Ok []) else db_inter_members now rest first [] d))"

section \<open>The database as one map\<close>

definition db_get :: "db \<Rightarrow> bytes \<Rightarrow> entry option" where
  "db_get d = lookup shard_index shard_get (shards d)"

definition db_ok :: "db \<Rightarrow> bool" where
  "db_ok d \<longleftrightarrow> placed shard_index NUM_SHARDS shard_get shard_ok (shards d)"

text \<open>The contract of a database operation on one key: it changes the cell of that key and returns a
  result as its specification on cells says, whatever the other keys are.\<close>

definition db_local :: "bytes \<Rightarrow> (db \<Rightarrow> db \<times> 'r) \<Rightarrow> (entry option \<Rightarrow> entry option \<times> 'r) \<Rightarrow> bool" where
  "db_local k f g \<longleftrightarrow> (\<forall>d. db_ok d \<longrightarrow>
     db_ok (fst (f d)) \<and>
     db_get (fst (f d)) = (db_get d)(k := fst (g (db_get d k))) \<and>
     snd (f d) = snd (g (db_get d k)))"

interpretation sh: sharded shard_index NUM_SHARDS shard_get data shard_ok
proof unfold_locales
  show "shard_index k < NUM_SHARDS" for k by (simp add: shard_index_def NUM_SHARDS_def)
  show "shard_ok s \<Longrightarrow> distinct (map fst (data s))" for s
    by (simp add: shard_ok_def hm_ok_def)
  show "shard_ok s \<Longrightarrow> shard_get s = map_of (data s)" for s
    by (auto simp: shard_get_def hm_get_def)
qed

lemma db_ok_new: "db_ok db_new"
  by (simp add: db_ok_def db_new_def placed_def shard_get_def shard_default_def [symmetric]) 
    (simp add: shard_default_def)

lemma db_get_new: "db_get db_new = Map.empty"
proof
  fix k
  have "shard_index k < NUM_SHARDS" by (rule sh.index_less)
  then show "db_get db_new k = None"
    by (simp add: db_get_def lookup_def db_new_def shard_get_def shard_default_def)
qed

lemma db_local_at:
  assumes "key_local k f g"
  shows "db_local k (db_at k f) g"
proof -
  have f: "local_to shard_get shard_ok k f g"
    using assms by (simp add: local_to_def key_local_def)
  show ?thesis
    unfolding db_local_def db_at_def db_get_def db_ok_def
    using sh.route_local [OF _ f] by (auto simp: case_prod_beta Let_def)
qed

lemma db_localD:
  assumes "db_local k f g" and "db_ok d"
  shows "db_ok (fst (f d))"
    and "db_get (fst (f d)) = (db_get d)(k := fst (g (db_get d k)))"
    and "snd (f d) = snd (g (db_get d k))"
  using assms by (auto simp: db_local_def)

lemma db_ok_cell: "db_ok d \<Longrightarrow> cell_ok (db_get d k)"
  using sh.placedD(2) [of "shards d" "shard_index k"] sh.index_less [of k] shard_okD
  by (auto simp: db_ok_def db_get_def lookup_def)

text \<open>Every method that delegates to one bucket, with the specification of the bucket operation.\<close>

lemmas db_local_set = db_local_at [OF key_local_set, folded db_set_def]
lemmas db_local_set_with_expire_at = db_local_at [OF key_local_set_with_expire_at, folded db_set_with_expire_at_def]
lemmas db_local_remove = db_local_at [OF key_local_remove, folded db_remove_def]
lemmas db_local_exists = db_local_at [OF key_local_exists, folded db_exists_def]
lemmas db_local_ttl_ms = db_local_at [OF key_local_ttl_ms, folded db_ttl_ms_def]
lemmas db_local_set_expire_ms = db_local_at [OF key_local_set_expire_ms, folded db_set_expire_ms_def]
lemmas db_local_persist = db_local_at [OF key_local_persist, folded db_persist_def]
lemmas db_local_value_type = db_local_at [OF key_local_value_type, folded db_value_type_def]
lemmas db_local_get_string = db_local_at [OF key_local_get_string, folded db_get_string_def]
lemmas db_local_set_string = db_local_at [OF key_local_set_string, folded db_set_string_def]
lemmas db_local_set_string_ref = db_local_at [OF key_local_set_string_ref, folded db_set_string_ref_def]
lemmas db_local_set_string_from_slices = db_local_at [OF key_local_set_string_from_slices, folded db_set_string_from_slices_def]
lemmas db_local_set_nx = db_local_at [OF key_local_set_nx, folded db_set_nx_def]
lemmas db_local_append = db_local_at [OF key_local_append, folded db_append_def]
lemmas db_local_incr_by = db_local_at [OF key_local_incr_by, folded db_incr_by_def]
lemmas db_local_list_push = db_local_at [OF key_local_list_push, folded db_list_push_def]
lemmas db_local_list_pop = db_local_at [OF key_local_list_pop, folded db_list_pop_def]
lemmas db_local_list_range = db_local_at [OF key_local_list_range, folded db_list_range_def]
lemmas db_local_list_len = db_local_at [OF key_local_list_len, folded db_list_len_def]
lemmas db_local_list_index = db_local_at [OF key_local_list_index, folded db_list_index_def]
lemmas db_local_list_set = db_local_at [OF key_local_list_set, folded db_list_set_def]
lemmas db_local_list_insert = db_local_at [OF key_local_list_insert, folded db_list_insert_def]
lemmas db_local_list_rem = db_local_at [OF key_local_list_rem, folded db_list_rem_def]
lemmas db_local_hash_set = db_local_at [OF key_local_hash_set, folded db_hash_set_def]
lemmas db_local_hash_set_ref = db_local_at [OF key_local_hash_set_ref, folded db_hash_set_ref_def]
lemmas db_local_hash_set_bytes = db_local_at [OF key_local_hash_set_bytes, folded db_hash_set_bytes_def]
lemmas db_local_hash_get = db_local_at [OF key_local_hash_get, folded db_hash_get_def]
lemmas db_local_hash_del = db_local_at [OF key_local_hash_del, folded db_hash_del_def]
lemmas db_local_hash_len = db_local_at [OF key_local_hash_len, folded db_hash_len_def]
lemmas db_local_hash_exists = db_local_at [OF key_local_hash_exists, folded db_hash_exists_def]
lemmas db_local_hash_getall = db_local_at [OF key_local_hash_getall, folded db_hash_getall_def]
lemmas db_local_set_add = db_local_at [OF key_local_set_add, folded db_set_add_def]
lemmas db_local_set_add_single_bytes = db_local_at [OF key_local_set_add_single_bytes, folded db_set_add_single_bytes_def]
lemmas db_local_set_remove = db_local_at [OF key_local_set_remove, folded db_set_remove_def]
lemmas db_local_set_members = db_local_at [OF key_local_set_members, folded db_set_members_def]
lemmas db_local_set_is_member = db_local_at [OF key_local_set_is_member, folded db_set_is_member_def]
lemmas db_local_set_card = db_local_at [OF key_local_set_card, folded db_set_card_def]
lemmas db_local_zadd = db_local_at [OF key_local_zadd, folded db_zadd_def]
lemmas db_local_zrem = db_local_at [OF key_local_zrem, folded db_zrem_def]
lemmas db_local_zcard = db_local_at [OF key_local_zcard, folded db_zcard_def]
lemmas db_local_zrange = db_local_at [OF key_local_zrange, folded db_zrange_def]
lemmas db_local_stream_add = db_local_at [OF key_local_stream_add, folded db_stream_add_def]
lemmas db_local_stream_range = db_local_at [OF key_local_stream_read(1), folded db_stream_range_def]
lemmas db_local_list_push_x = db_local_at [OF key_local_list_push_x, folded db_list_push_x_def]
lemmas db_local_hash_incr_by = db_local_at [OF key_local_hash_incr_by, folded db_hash_incr_by_def]
lemmas db_local_hash_set_nx = db_local_at [OF key_local_hash_set_nx, folded db_hash_set_nx_def]
lemmas db_local_stream_len = db_local_at [OF key_local_stream_read(3), folded db_stream_len_def]
lemmas db_local_stream_rev_range = db_local_at [OF key_local_stream_read(2), folded db_stream_rev_range_def]
lemmas db_local_stream_del = db_local_at [OF key_local_stream_del, folded db_stream_del_def]

section \<open>Operations on all buckets\<close>

lemma shard_get_purge:
  "hm_ok (data s) \<Longrightarrow> shard_get (sh_purge_expired_all now s) k = live now (shard_get s k)"
  using hm_get_filter [of "data s" "\<lambda>k e. \<not> expired now e" k]
  by (auto simp: sh_purge_expired_all_def shard_get_def live_def split: option.splits)

lemma shard_ok_purge: "shard_ok s \<Longrightarrow> shard_ok (sh_purge_expired_all now s)"
  unfolding shard_ok_def
proof (elim conjE, intro conjI allI)
  assume d: "hm_ok (data s)" and c: "\<forall>k. cell_ok (shard_get s k)"
  show "hm_ok (data (sh_purge_expired_all now s))" using d by (simp add: sh_purge_expired_all_def)
  show "cell_ok (shard_get (sh_purge_expired_all now s) k)" for k
    unfolding shard_get_purge [OF d] using c by blast
qed

lemma shards_each: "shards (fst (each_shard f d)) = map (\<lambda>i. fst (f i (shards d ! i))) [0..<length (shards d)]"
  by (simp add: each_shard_def Let_def comp_def)

lemma outs_each: "snd (each_shard f d) = map (\<lambda>i. snd (f i (shards d ! i))) [0..<length (shards d)]"
  by (simp add: each_shard_def Let_def comp_def)

lemma shards_purge: "shards (db_purge_expired_all clock d) =
    map (\<lambda>i. sh_purge_expired_all (clock i) (shards d ! i)) [0..<length (shards d)]"
  by (simp add: db_purge_expired_all_def shards_each)

lemma db_purge:
  assumes "db_ok d"
  shows "db_ok (db_purge_expired_all clock d)"
    and "db_get (db_purge_expired_all clock d) k = live (clock (shard_index k)) (db_get d k)"
proof -
  have p: "placed shard_index NUM_SHARDS shard_get shard_ok (shards d)"
    using assms by (simp add: db_ok_def)
  have h: "shard_ok (sh_purge_expired_all (clock i) s) \<and>
      (\<forall>k. shard_get (sh_purge_expired_all (clock i) s) k = live (clock i) (shard_get s k))"
    if "shard_ok s" for i s
    using shard_get_purge [OF hm_ok_data [OF that]] shard_ok_purge [OF that] by blast
  note eb = sh.each_bucket [OF p h live_None]
  show "db_ok (db_purge_expired_all clock d)"
    using eb(1) by (simp add: db_ok_def shards_purge)
  show "db_get (db_purge_expired_all clock d) k = live (clock (shard_index k)) (db_get d k)"
    using eb(2) by (simp add: db_get_def shards_purge)
qed

lemma map_nth_all: "map (\<lambda>i. f (xs ! i)) [0..<length xs] = map f xs"
  by (rule nth_equalityI) auto

text \<open>The readers purge first and then collect what is left in the buckets.\<close>

lemma db_readers_purge:
  "fst (db_snapshot_items clock d) = db_purge_expired_all clock d"
  "fst (db_len clock d) = db_purge_expired_all clock d"
  "fst (db_keys clock d) = db_purge_expired_all clock d"
  "fst (db_keys_matching clock p d) = db_purge_expired_all clock d"
  by (simp_all add: db_snapshot_items_def db_len_def db_keys_def db_keys_matching_def
      db_purge_expired_all_def each_shard_def Let_def sh_snapshot_items_def sh_len_def sh_keys_def
      sh_keys_matching_def comp_def)

lemma db_readers_collect:
  "snd (db_snapshot_items clock d) =
     map (\<lambda>(k, e). (k, e_value e, expires_at e)) (concat (map data (shards (db_purge_expired_all clock d))))"
  "snd (db_len clock d) = sum_list (map (\<lambda>s. length (data s)) (shards (db_purge_expired_all clock d)))"
  "snd (db_keys clock d) = map fst (concat (map data (shards (db_purge_expired_all clock d))))"
  by (simp_all add: db_snapshot_items_def db_len_def db_keys_def outs_each sh_snapshot_items_def
      sh_len_def sh_keys_def Let_def case_prod_beta shards_purge map_concat comp_def)

lemma sort_concat_sort: "sort (concat (map (\<lambda>x. sort (f x)) xs)) = sort (concat (map f xs))"
proof -
  have "mset (concat (map (\<lambda>x. sort (f x)) xs)) = mset (concat (map f xs))"
    by (induction xs) auto
  then show ?thesis by (intro properties_for_sort) auto
qed

lemma db_keys_matching_collect:
  "snd (db_keys_matching clock p d) =
     sort (filter (\<lambda>k. glob_match k p) (map fst (concat (map data (shards (db_purge_expired_all clock d))))))"
  by (simp add: db_keys_matching_def outs_each sh_keys_matching_def Let_def case_prod_beta
      shards_purge sort_concat_sort filter_concat map_concat comp_def)

lemma purged_pairs:
  assumes "db_ok d"
  shows "distinct (map fst (concat (map data (shards (db_purge_expired_all clock d)))))"
    and "map_of (concat (map data (shards (db_purge_expired_all clock d)))) = db_get (db_purge_expired_all clock d)"
  using sh.all_pairs [OF db_purge(1) [OF assms, unfolded db_ok_def]] by (auto simp: db_get_def)

lemma dom_purged:
  assumes "db_ok d"
  shows "dom (db_get (db_purge_expired_all clock d)) = {k. live (clock (shard_index k)) (db_get d k) \<noteq> None}"
  by (auto simp: dom_def db_purge(2) [OF assms])

lemma set_purged_keys:
  assumes "db_ok d"
  shows "set (map fst (concat (map data (shards (db_purge_expired_all clock d))))) =
    {k. live (clock (shard_index k)) (db_get d k) \<noteq> None}"
  unfolding dom_purged [OF assms, symmetric] purged_pairs(2) [OF assms, symmetric]
  by (simp add: dom_map_of_conv_image_fst)

lemma db_flush_eq:
  assumes d: "db_ok d"
  shows "db_ok (fst (db_flush d))" and "db_get (fst (db_flush d)) = Map.empty"
    and "snd (db_flush d) = card (dom (db_get d))"
proof -
  have c: "shard_ok (fst (sh_flush s)) \<and> (\<forall>k. shard_get (fst (sh_flush s)) k = None)" for s
    by (simp add: sh_flush_def shard_ok_def shard_get_def)
  have f: "shards (fst (db_flush d)) = map (\<lambda>i. fst (sh_flush (shards d ! i))) [0..<length (shards d)]"
    using shards_each [of "\<lambda>i. sh_flush" d] by (simp add: db_flush_def case_prod_beta)
  note eb = sh.each_bucket [of "shards d" "\<lambda>i s. fst (sh_flush s)" "\<lambda>i c. None", folded f]
  show "db_ok (fst (db_flush d))" using eb(1) c d by (simp add: db_ok_def)
  show "db_get (fst (db_flush d)) = Map.empty"
    using eb(2) c d by (auto simp: db_ok_def db_get_def)
  have "snd (db_flush d) = sum_list (map (\<lambda>s. length (data s)) (shards d))"
    using map_nth_all [of "\<lambda>s. length (data s)" "shards d"]
    by (simp add: db_flush_def outs_each case_prod_beta sh_flush_def)
  also have "\<dots> = card (dom (db_get d))"
    using sh.count_all [of "shards d"] d by (simp add: db_ok_def db_get_def)
  finally show "snd (db_flush d) = card (dom (db_get d))" .
qed

section \<open>Properties\<close>

text \<open>C9: Sharding is not observable: an operation on one key gives the same result and the same contents on
  the database of 64 buckets as on one single bucket holding all keys, and keeps every key in its home
  bucket.\<close>

theorem sharding_unobservable:
  assumes "key_local k f g" and "db_ok d" and "shard_ok s" and "db_get d = shard_get s"
  shows "snd (db_at k f d) = snd (f s) \<and> db_get (fst (db_at k f d)) = shard_get (fst (f s)) \<and>
    db_ok (fst (db_at k f d)) \<and> shard_ok (fst (f s))"
  using db_localD [OF db_local_at [OF assms(1)] assms(2)] key_localD [OF assms(1,3)] assms(4) by simp

theorem sharding_unobservable_witness:
  "snd (db_at ''k'' (sh_append 0 ''k'' ''ab'') db_new) = snd (sh_append 0 ''k'' ''ab'' shard_default)"
  using sharding_unobservable [OF key_local_append db_ok_new shard_ok_default, of "''k''" 0 "''ab''"]
  by (simp add: db_get_new fun_eq_iff)

lemma in_snapshot:
  "(k, v, x) \<in> set (map (\<lambda>(k, e). (k, e_value e, expires_at e)) ps) \<longleftrightarrow> (k, \<lparr>e_value = v, expires_at = x\<rparr>) \<in> set ps"
proof (induction ps)
  case (Cons a ps)
  obtain k' e where a: "a = (k', e)" by (cases a)
  have "(k, v, x) = (k', e_value e, expires_at e) \<longleftrightarrow> (k, \<lparr>e_value = v, expires_at = x\<rparr>) = (k', e)"
    by (cases e) auto
  with Cons.IH show ?case by (simp add: a)
qed simp

text \<open>C30: \<open>DBSIZE\<close>, \<open>KEYS\<close> and the snapshot of all buckets report exactly the live keys, each once: the count is
  their number, the key list enumerates them, the snapshot has the value and expiry time of each. The
  buckets are swept one after the other, each with its own reading of the clock.\<close>

theorem whole_db_readers:
  assumes "db_ok d" and "alive = {k. live (clock (shard_index k)) (db_get d k) \<noteq> None}"
  shows "snd (db_len clock d) = card alive \<and>
    distinct (snd (db_keys clock d)) \<and> set (snd (db_keys clock d)) = alive \<and>
    distinct (map fst (snd (db_snapshot_items clock d))) \<and>
    (\<forall>k v x. (k, v, x) \<in> set (snd (db_snapshot_items clock d)) \<longleftrightarrow>
       live (clock (shard_index k)) (db_get d k) = Some \<lparr>e_value = v, expires_at = x\<rparr>)"
proof -
  let ?ps = "concat (map data (shards (db_purge_expired_all clock d)))"
  note pp = purged_pairs [OF assms(1), of clock]
  have snap: "(k, v, x) \<in> set (map (\<lambda>(k, e). (k, e_value e, expires_at e)) ?ps) \<longleftrightarrow>
      (k, \<lparr>e_value = v, expires_at = x\<rparr>) \<in> set ?ps" for k v x
    by (rule in_snapshot)
  have mem: "(k, e) \<in> set ?ps \<longleftrightarrow> live (clock (shard_index k)) (db_get d k) = Some e" for k e
    using pp db_purge(2) [OF assms(1), of clock k] by (metis map_of_eq_Some_iff)
  have dist: "distinct (map fst (map (\<lambda>(k, e). (k, e_value e, expires_at e)) ?ps))"
    using pp(1) by (simp add: comp_def case_prod_beta)
  have len: "snd (db_len clock d) = card alive"
    using sh.count_all [of "shards (db_purge_expired_all clock d)"] db_purge(1) [OF assms(1), of clock]
      dom_purged [OF assms(1), of clock]
    by (simp add: db_readers_collect assms(2) db_ok_def db_get_def)
  have keys: "set (snd (db_keys clock d)) = alive"
    using set_purged_keys [OF assms(1), of clock] by (simp only: db_readers_collect assms(2))
  show ?thesis
    using len keys dist pp(1) snap mem by (simp only: db_readers_collect) blast
qed

theorem whole_db_readers_witness: "snd (db_len (\<lambda>_. 5) db_new) = 0"
  using whole_db_readers [OF db_ok_new refl, of "\<lambda>_. 5"] by (simp add: db_get_new)

text \<open>\<open>KEYS pattern\<close> returns the live keys that match the pattern, sorted and without repetition.\<close>

theorem keys_matching_correct:
  assumes "db_ok d"
  shows "sorted (snd (db_keys_matching clock p d)) \<and> distinct (snd (db_keys_matching clock p d)) \<and>
    set (snd (db_keys_matching clock p d)) =
      {k. live (clock (shard_index k)) (db_get d k) \<noteq> None \<and> gmatch p 0 k}"
  using purged_pairs(1) [OF assms, of clock] set_purged_keys [OF assms, of clock]
  unfolding db_keys_matching_collect glob_match_gmatch by (auto simp del: set_map not_None_eq)

theorem keys_matching_correct_witness:
  "set (snd (db_keys_matching (\<lambda>_. 0) ''*'' db_new)) = {}"
  using keys_matching_correct [OF db_ok_new, of "\<lambda>_. 0" "''*''"] by (simp add: db_get_new)

text \<open>\<open>FLUSHDB\<close> leaves an empty database and returns the number of keys that were stored, expired keys not
  yet swept included.\<close>

theorem flush_correct:
  assumes "db_ok d"
  shows "db_ok (fst (db_flush d)) \<and> db_get (fst (db_flush d)) = Map.empty \<and> snd (db_flush d) = card (dom (db_get d))"
  using db_flush_eq [OF assms] by simp

theorem flush_correct_witness: "snd (db_flush db_new) = 0"
  using flush_correct [OF db_ok_new] by (simp add: db_get_new)

text \<open>The key and expiry commands of the database act on the one map from keys to entries as specified:
  \<open>SET\<close> and the restore of a snapshot entry write value and expiry time, \<open>DEL\<close> removes, \<open>EXISTS\<close>, \<open>TTL\<close> and
  \<open>TYPE\<close> read the live entry and sweep an expired one, \<open>EXPIRE\<close> sets the time (saturating), \<open>PERSIST\<close> clears it.\<close>

theorem db_key_commands:
  assumes "value_ok v"
  shows "db_local k (db_set k v x) (spec_set v x) \<and>
    db_local k (db_set_with_expire_at k v x) (spec_set v x) \<and>
    db_local k (db_remove k) spec_remove \<and>
    db_local k (db_exists now k) (spec_exists now) \<and>
    db_local k (db_ttl_ms now k) (spec_ttl_ms now) \<and>
    db_local k (db_set_expire_ms now k ttl) (spec_set_expire_ms now ttl) \<and>
    db_local k (db_persist now k) (spec_persist now) \<and>
    db_local k (db_value_type now k) (spec_value_type now)"
  by (intro conjI db_local_set db_local_set_with_expire_at db_local_remove db_local_exists db_local_ttl_ms
      db_local_set_expire_ms db_local_persist db_local_value_type assms)

theorem db_key_commands_witness:
  "db_local ''k'' (db_set ''k'' (Int64 7) None) (spec_set (Int64 7) None)"
  using db_key_commands [of "Int64 7" "''k''" None 0 0] by (simp add: in_i64_iff)

text \<open>The expiry time a client sets is the one it reads: after \<open>EXPIRE\<close> with a time to live below \<open>2^63\<close>
  milliseconds that does not overflow the clock, \<open>TTL\<close> at the same moment returns it, and from the moment
  \<open>now + ttl\<close> on the key does not exist.\<close>

theorem expire_then_ttl:
  assumes "db_ok d" and "db_get d k = Some e" and "0 < ttl" and "unat ttl < 2 ^ 63"
    and "unat now + unat ttl < 2 ^ 64" and "now + ttl \<le> later"
  shows "snd (db_ttl_ms now k (fst (db_set_expire_ms now k ttl d))) = Some (int (unat ttl)) \<and>
    snd (db_exists later k (fst (db_set_expire_ms now k ttl d))) = False"
proof -
  note ex = db_localD [OF db_local_set_expire_ms [of k now ttl] assms(1)]
  note tt = db_localD(3) [OF db_local_ttl_ms [of k now] ex(1)]
  note el = db_localD(3) [OF db_local_exists [of k later] ex(1)]
  have gt: "\<not> now + ttl \<le> now" by (rule u64_later [OF assms(3,5)])
  have "sint ttl = int (unat ttl)" by (rule sint_small [OF assms(4)])
  then have "snd (db_ttl_ms now k (fst (db_set_expire_ms now k ttl d))) = Some (int (unat ttl))"
    using tt ex(2) gt assms(2,5)
    by (simp add: spec_ttl_ms_def spec_set_expire_ms_def u64_saturating_add_def live_def expired_def)
  moreover have "snd (db_exists later k (fst (db_set_expire_ms now k ttl d))) = False"
    using el ex(2) assms(2,5,6)
    by (simp add: spec_exists_def spec_set_expire_ms_def u64_saturating_add_def live_def expired_def)
  ultimately show ?thesis ..
qed

theorem expire_then_ttl_witness:
  "snd (db_ttl_ms 100 ''k'' (fst (db_set_expire_ms 100 ''k'' 50 (fst (db_set ''k'' (Int64 7) None db_new))))) = Some 50"
proof -
  note s = db_localD [OF db_local_set [of "Int64 7" "''k''" None] db_ok_new]
  show ?thesis
    using expire_then_ttl [OF s(1), of "''k''" "fresh (Int64 7)" 50 100 150] s(2)
    by (simp add: in_i64_iff spec_set_def)
qed

end
