(* ===== verification/Db_Multi.thy ===== *)
theory Db_Multi
  imports Store_Db
begin

text \<open>
  The commands of the database that touch several keys: \<open>set_move\<close> in its one-bucket and its
  two-bucket form, \<open>set_union\<close> and \<open>set_inter\<close>. Both forms of \<open>set_move\<close> are shown to have the same
  effect on the source and the destination cell, so where the hash sends the two keys does not
  matter. Union and intersection are shown to be the union and the intersection of the live sets.
\<close>

section \<open>SMOVE\<close>

lemma shard_home:
  assumes "db_ok d" and "shard_get (shards d ! i) k \<noteq> None" and "i < NUM_SHARDS"
  shows "shard_index k = i"
  using sh.placedD(3) [of "shards d" i k] assms by (simp add: db_ok_def)

lemma shard_of_ok: "db_ok d \<Longrightarrow> shard_ok (shards d ! shard_index k)"
  using sh.placedD(2) [of "shards d"] sh.index_less by (simp add: db_ok_def)

lemma db_get_shard: "shard_get (shards d ! shard_index k) k = db_get d k"
  by (simp add: db_get_def lookup_def)

lemma db_set_bucket:
  assumes d: "db_ok d" and i: "i < NUM_SHARDS" and s: "shard_ok s"
    and home: "\<And>k. shard_get s k \<noteq> None \<Longrightarrow> shard_index k = i"
  shows "db_ok (d\<lparr>shards := (shards d)[i := s]\<rparr>)"
    and "db_get (d\<lparr>shards := (shards d)[i := s]\<rparr>) k = (if shard_index k = i then shard_get s k else db_get d k)"
  using sh.set_bucket [of "shards d" i s] assms by (simp_all add: db_ok_def db_get_def)

lemma db_set_move_same_shard:
  assumes "source \<noteq> dest" and d: "db_ok d" and same: "shard_index source = shard_index dest"
    and mv: "move_cells now m (db_get d source) (db_get d dest) = (c', e', r)"
  shows "db_ok (fst (db_set_move now source dest m d))"
    and "db_get (fst (db_set_move now source dest m d)) = (db_get d)(source := c', dest := e')"
    and "snd (db_set_move now source dest m d) = r"
proof -
  let ?i = "shard_index source"
  let ?s = "fst (sh_set_move now source dest m (shards d ! ?i))"
  have mv': "move_cells now m (shard_get (shards d ! ?i) source) (shard_get (shards d ! ?i) dest) = (c', e', r)"
    using mv same db_get_shard [of d source] db_get_shard [of d dest] by simp
  note mvs = sh_set_move_eq [OF assms(1) shard_of_ok [OF d] mv']
  have eq: "db_set_move now source dest m d = (d\<lparr>shards := (shards d)[?i := ?s]\<rparr>, r)"
    using mvs(3) same by (simp add: db_set_move_def db_at_def route_def Let_def case_prod_beta)
  have home: "shard_index k = ?i" if "shard_get ?s k \<noteq> None" for k
    using that mvs(2) same shard_home [OF d, of ?i k] sh.index_less by (auto split: if_splits)
  note sb = db_set_bucket [OF d sh.index_less mvs(1) home]
  show "db_ok (fst (db_set_move now source dest m d))" using sb(1) by (simp add: eq)
  show "db_get (fst (db_set_move now source dest m d)) = (db_get d)(source := c', dest := e')"
  proof
    fix k
    show "db_get (fst (db_set_move now source dest m d)) k = ((db_get d)(source := c', dest := e')) k"
      using sb(2) [of k] mvs(2) same db_get_shard [of d k] by (auto simp: eq)
  qed
  show "snd (db_set_move now source dest m d) = r" by (simp add: eq)
qed

lemma db_set_move_cross_form:
  assumes "shard_index source \<noteq> shard_index dest"
    and mv: "move_cells now m (shard_get S source) (shard_get D dest) = (c', e', r)"
    and S: "S = shards d ! shard_index source" "shard_ok S" and D: "D = shards d ! shard_index dest" "shard_ok D"
  shows "\<exists>src dst. db_set_move now source dest m d =
      (d\<lparr>shards := (shards d)[shard_index source := src, shard_index dest := dst]\<rparr>, r) \<and>
    hm_ok (data src) \<and> shard_get src = (shard_get S)(source := c') \<and>
    hm_ok (data dst) \<and> shard_get dst = (shard_get D)(dest := e')"
  using assms(1) mv hm_ok_data [OF S(2)] hm_ok_data [OF D(2)] unfolding S(1) D(1)
  by (simp add: db_set_move_def move_cells_def Let_def case_prod_beta hset_remove_absent
      hset_insert_Nil update_value_same scoll.out_iff split: option.splits val.splits if_splits)
    (auto intro!: exI)

lemma db_set_move_cross_shard:
  assumes cross: "shard_index source \<noteq> shard_index dest" and d: "db_ok d"
    and mv: "move_cells now m (db_get d source) (db_get d dest) = (c', e', r)"
  shows "db_ok (fst (db_set_move now source dest m d))"
    and "db_get (fst (db_set_move now source dest m d)) = (db_get d)(source := c', dest := e')"
    and "snd (db_set_move now source dest m d) = r"
proof -
  let ?si = "shard_index source" and ?di = "shard_index dest"
  obtain src dst where eq: "db_set_move now source dest m d =
      (d\<lparr>shards := (shards d)[?si := src, ?di := dst]\<rparr>, r)"
    and src: "hm_ok (data src)" "shard_get src = (shard_get (shards d ! ?si))(source := c')"
    and dst: "hm_ok (data dst)" "shard_get dst = (shard_get (shards d ! ?di))(dest := e')"
    using db_set_move_cross_form [OF cross mv [folded db_get_shard] refl shard_of_ok [OF d] refl shard_of_ok [OF d]]
    by blast
  have cells: "cell_ok c'" "cell_ok e'"
    using move_cells_ok [OF db_ok_cell [OF d, of source] db_ok_cell [OF d, of dest], of now m] mv by auto
  have "shard_ok src" by (rule shard_ok_update [OF shard_of_ok [OF d] src cells(1)])
  moreover have "shard_index k = ?si" if "shard_get src k \<noteq> None" for k
    using that src(2) shard_home [OF d, of ?si k] sh.index_less by (auto split: if_splits)
  ultimately have d1: "db_ok (d\<lparr>shards := (shards d)[?si := src]\<rparr>)"
    and g1: "db_get (d\<lparr>shards := (shards d)[?si := src]\<rparr>) k =
      (if shard_index k = ?si then shard_get src k else db_get d k)" for k
    using db_set_bucket [OF d sh.index_less, of src source] by blast+
  have "shard_ok dst" by (rule shard_ok_update [OF shard_of_ok [OF d] dst cells(2)])
  moreover have "shard_index k = ?di" if "shard_get dst k \<noteq> None" for k
    using that dst(2) shard_home [OF d, of ?di k] sh.index_less by (auto split: if_splits)
  ultimately have d2: "db_ok (d\<lparr>shards := (shards d)[?si := src, ?di := dst]\<rparr>)"
    and g2: "db_get (d\<lparr>shards := (shards d)[?si := src, ?di := dst]\<rparr>) k =
      (if shard_index k = ?di then shard_get dst k else if shard_index k = ?si then shard_get src k else db_get d k)"
    for k
    using db_set_bucket [OF d1 sh.index_less, of dst dest] g1 by simp_all
  show "db_ok (fst (db_set_move now source dest m d))" using d2 by (simp add: eq)
  show "db_get (fst (db_set_move now source dest m d)) = (db_get d)(source := c', dest := e')"
  proof
    fix k
    show "db_get (fst (db_set_move now source dest m d)) k = ((db_get d)(source := c', dest := e')) k"
      using g2 [of k] src(2) dst(2) cross db_get_shard [of d k] by (auto simp: eq)
  qed
  show "snd (db_set_move now source dest m d) = r" by (simp add: eq)
qed

lemma db_set_move_eq:
  assumes "source \<noteq> dest" and "db_ok d"
    and "move_cells now m (db_get d source) (db_get d dest) = (c', e', r)"
  shows "db_ok (fst (db_set_move now source dest m d))"
    and "db_get (fst (db_set_move now source dest m d)) = (db_get d)(source := c', dest := e')"
    and "snd (db_set_move now source dest m d) = r"
  using db_set_move_same_shard [OF assms(1,2) _ assms(3)] db_set_move_cross_shard [OF _ assms(2,3)]
  by blast+

section \<open>SUNION and SINTER\<close>

text \<open>The reads remove expired keys; what is live stays the same.\<close>

definition same_live :: "u64 \<Rightarrow> db \<Rightarrow> db \<Rightarrow> bool" where
  "same_live now d d' \<longleftrightarrow> db_ok d' \<and> (\<forall>k. live now (db_get d' k) = live now (db_get d k))"

lemma same_live_refl: "db_ok d \<Longrightarrow> same_live now d d"
  by (simp add: same_live_def)

lemma same_live_trans: "same_live now d d' \<Longrightarrow> same_live now d' d'' \<Longrightarrow> same_live now d d''"
  by (simp add: same_live_def)

lemma same_live_view: "same_live now d d' \<Longrightarrow> set_view now (db_get d' k) = set_view now (db_get d k)"
  by (simp add: same_live_def coll_view_def)

definition live_set :: "u64 \<Rightarrow> db \<Rightarrow> bytes \<Rightarrow> bytes set" where
  "live_set now d k = (case set_view now (db_get d k) of Ok (X, t) \<Rightarrow> X | Err \<Rightarrow> {})"

definition not_a_set :: "u64 \<Rightarrow> db \<Rightarrow> bytes \<Rightarrow> bool" where
  "not_a_set now d k \<longleftrightarrow> set_view now (db_get d k) = Err"

lemma same_live_sets:
  "same_live now d d' \<Longrightarrow> live_set now d' k = live_set now d k"
  "same_live now d d' \<Longrightarrow> not_a_set now d' k = not_a_set now d k"
  by (simp_all add: live_set_def not_a_set_def same_live_view)

lemma live_live [simp]: "live now (live now c) = live now c"
  by (auto simp: live_def split: option.splits)

lemma spec_set_read_cell:
  assumes "cell_ok c"
  shows "fst (spec_set_read now dflt g c) = live now c"
  using assms unfolding spec_set_read_def on_coll_def
  by (auto simp: scoll.out_iff update_value_same dest!: live_SomeD split: option.splits)

lemma spec_set_read_result:
  "snd (spec_set_read now dflt g c) =
     (case live now c of None \<Rightarrow> Ok dflt
      | Some e \<Rightarrow> (case set_of (e_value e) of Some xs \<Rightarrow> Ok (g xs) | None \<Rightarrow> Err))"
  by (auto simp: spec_set_read_def on_coll_def split: option.splits)

lemma db_set_members_result:
  assumes d: "db_ok d"
  shows "same_live now d (fst (db_set_members now k d))"
    and "not_a_set now d k \<Longrightarrow> snd (db_set_members now k d) = Err"
    and "\<not> not_a_set now d k \<Longrightarrow>
      \<exists>xs. snd (db_set_members now k d) = Ok xs \<and> distinct xs \<and> set xs = live_set now d k"
proof -
  note dl = db_localD [OF db_local_set_members d, of now k]
  show "same_live now d (fst (db_set_members now k d))"
    using dl(1,2) by (simp add: same_live_def spec_set_read_cell [OF db_ok_cell [OF d]])
  show "not_a_set now d k \<Longrightarrow> snd (db_set_members now k d) = Err"
    by (auto simp: dl(3) spec_set_read_result not_a_set_def set_view_Err)
  have x: "distinct xs" if "live now (db_get d k) = Some e" "e_value e = Set xs" for e xs
    using scoll.live_good [OF db_ok_cell [OF d] that] by simp
  show "\<not> not_a_set now d k \<Longrightarrow>
      \<exists>xs. snd (db_set_members now k d) = Ok xs \<and> distinct xs \<and> set xs = live_set now d k"
    using x by (auto simp: dl(3) spec_set_read_result not_a_set_def live_set_def coll_view_def
        scoll.out_iff split: option.splits)
qed

lemma db_set_is_member_result:
  assumes d: "db_ok d"
  shows "same_live now d (fst (db_set_is_member now k m d))"
    and "snd (db_set_is_member now k m d) = (if not_a_set now d k then Err else Ok (m \<in> live_set now d k))"
proof -
  note dl = db_localD [OF db_local_set_is_member d, of now k m]
  show "same_live now d (fst (db_set_is_member now k m d))"
    using dl(1,2) by (simp add: same_live_def spec_set_read_cell [OF db_ok_cell [OF d]])
  show "snd (db_set_is_member now k m d) = (if not_a_set now d k then Err else Ok (m \<in> live_set now d k))"
    by (auto simp: dl(3) spec_set_read_result not_a_set_def live_set_def coll_view_def split: option.splits)
qed

lemma fold_hset_insert:
  "distinct acc \<Longrightarrow> distinct (fold (\<lambda>m a. fst (hset_insert m a)) ms acc)"
  "set (fold (\<lambda>m a. fst (hset_insert m a)) ms acc) = set acc \<union> set ms"
  by (induction ms arbitrary: acc) auto

lemma db_union_loop_eq:
  assumes "db_ok d" and "distinct acc"
  shows "same_live now d (fst (db_union_loop now ks acc d)) \<and>
    (if \<exists>k \<in> set ks. not_a_set now d k then snd (db_union_loop now ks acc d) = Err
     else \<exists>xs. snd (db_union_loop now ks acc d) = Ok xs \<and> distinct xs \<and>
       set xs = set acc \<union> (\<Union>k \<in> set ks. live_set now d k))"
  using assms
proof (induction ks arbitrary: acc d)
  case Nil
  then show ?case by (simp add: same_live_refl)
next
  case (Cons k ks)
  obtain d1 r where mem: "db_set_members now k d = (d1, r)" by (cases "db_set_members now k d")
  note res = db_set_members_result [OF Cons.prems(1), of now k, unfolded mem fst_conv snd_conv]
  have d1: "db_ok d1" using res(1) by (simp add: same_live_def)
  show ?case
  proof (cases "not_a_set now d k")
    case True
    with res mem show ?thesis by simp
  next
    case False
    obtain xs where xs: "r = Ok xs" "distinct xs" "set xs = live_set now d k" using res(3) [OF False] by blast
    let ?acc = "fold (\<lambda>m a. fst (hset_insert m a)) xs acc"
    have "distinct ?acc" using fold_hset_insert(1) Cons.prems(2) by blast
    note ih = Cons.IH [OF d1 this, unfolded same_live_sets [OF res(1)]]
    show ?thesis
      using ih False same_live_trans [OF res(1)] by (auto simp: mem xs fold_hset_insert(2) split: if_splits)
  qed
qed

lemma db_inter_keys_eq:
  assumes "db_ok d" and "\<forall>k \<in> set ks. \<not> not_a_set now d k"
  shows "same_live now d (fst (db_inter_keys now m ks d)) \<and>
    snd (db_inter_keys now m ks d) = (if \<forall>k \<in> set ks. m \<in> live_set now d k then Next else Continue)"
  using assms
proof (induction ks arbitrary: d)
  case Nil
  then show ?case by (simp add: same_live_refl)
next
  case (Cons k ks)
  obtain d1 r where mem: "db_set_is_member now k m d = (d1, r)" by (cases "db_set_is_member now k m d")
  note res = db_set_is_member_result [OF Cons.prems(1), of now k m, unfolded mem fst_conv snd_conv]
  have d1: "db_ok d1" using res(1) by (simp add: same_live_def)
  have "\<forall>k \<in> set ks. \<not> not_a_set now d1 k" using Cons.prems(2) same_live_sets(2) [OF res(1)] by simp
  note ih = Cons.IH [OF d1 this, unfolded same_live_sets [OF res(1)]]
  show ?case using ih res Cons.prems(2) same_live_trans [OF res(1)]
    by (cases "m \<in> live_set now d k") (auto simp: mem split: if_splits)
qed

lemma db_inter_members_eq:
  assumes "db_ok d" and "\<forall>k \<in> set ks. \<not> not_a_set now d k"
  shows "same_live now d (fst (db_inter_members now ks ms acc d)) \<and>
    snd (db_inter_members now ks ms acc d) =
      Ok (acc @ filter (\<lambda>m. \<forall>k \<in> set ks. m \<in> live_set now d k) ms)"
  using assms
proof (induction ms arbitrary: acc d)
  case Nil
  then show ?case by (simp add: same_live_refl)
next
  case (Cons m ms)
  obtain d1 r where mem: "db_inter_keys now m ks d = (d1, r)" by (cases "db_inter_keys now m ks d")
  note res = db_inter_keys_eq [OF Cons.prems, of m, unfolded mem fst_conv snd_conv]
  then have d1: "db_ok d1" and sl: "same_live now d d1" by (auto simp: same_live_def)
  have "\<forall>k \<in> set ks. \<not> not_a_set now d1 k" using Cons.prems(2) same_live_sets(2) [OF sl] by simp
  note ih = Cons.IH [OF d1 this, unfolded same_live_sets [OF sl]]
  show ?case using ih res same_live_trans [OF sl] by (auto simp: mem)
qed

lemma db_set_inter_eq:
  assumes d: "db_ok d" and ks: "\<forall>k \<in> set ks. \<not> not_a_set now d k" "ks \<noteq> []"
  shows "same_live now d (fst (db_set_inter now ks d)) \<and>
    (\<exists>xs. snd (db_set_inter now ks d) = Ok xs \<and> distinct xs \<and> set xs = (\<Inter>k \<in> set ks. live_set now d k))"
proof -
  obtain k rest where k: "ks = k # rest" using ks(2) by (cases ks) auto
  obtain d1 r where mem: "db_set_members now k d = (d1, r)" by (cases "db_set_members now k d")
  note res = db_set_members_result [OF d, of now k, unfolded mem fst_conv snd_conv]
  have d1: "db_ok d1" using res(1) by (simp add: same_live_def)
  obtain xs where xs: "r = Ok xs" "distinct xs" "set xs = live_set now d k" using res(3) ks(1) k by auto
  have "\<forall>k \<in> set rest. \<not> not_a_set now d1 k" using ks(1) k same_live_sets(2) [OF res(1)] by simp
  note im = db_inter_members_eq [OF d1 this, of xs "[]", unfolded same_live_sets [OF res(1)]]
  show ?thesis
    using im xs res(1) same_live_trans [OF res(1)] by (auto simp: db_set_inter_def k mem)
qed

section \<open>Properties\<close>

text \<open>C29: \<open>SMOVE\<close> between two different set keys behaves the same whether they share a bucket or not: it takes
  the member out of the source and puts it into the destination, both or neither, keeps the expiry times,
  and changes no other key.\<close>

theorem smove_correct:
  assumes "db_ok d" and "source \<noteq> dest" and "set_view now (db_get d source) = Ok (X, t)"
    and "set_view now (db_get d dest) = Ok (Y, u)" and "db_set_move now source dest m d = (d', r)"
  shows "db_ok d' \<and> r = Ok (m \<in> X) \<and>
    (\<forall>k. k \<noteq> source \<longrightarrow> k \<noteq> dest \<longrightarrow> db_get d' k = db_get d k) \<and>
    set_view now (db_get d' source) =
      Ok (if m \<in> X then X - {m} else X, if m \<in> X \<and> X - {m} = {} then None else t) \<and>
    set_view now (db_get d' dest) = Ok (if m \<in> X then insert m Y else Y, u)"
proof -
  obtain c' e' r' where mv: "move_cells now m (db_get d source) (db_get d dest) = (c', e', r')"
    by (metis prod_cases3)
  note eq = db_set_move_eq [OF assms(2,1) mv, unfolded assms(5), simplified]
  show ?thesis
  proof (cases "m \<in> X")
    case True
    with move_cells_moved [OF mv assms(3) True assms(4)] eq assms(2) show ?thesis by simp
  next
    case False
    with move_cells_absent [OF mv assms(3) False] eq assms(2-4) show ?thesis by (simp add: coll_view_def)
  qed
qed

theorem smove_correct_witness:
  "snd (db_set_move 0 ''a'' ''b'' ''m'' db_new) = Ok False"
  using smove_correct [OF db_ok_new, of "''a''" "''b''" 0 "{}" None "{}" None "''m''"
      "fst (db_set_move 0 ''a'' ''b'' ''m'' db_new)" "snd (db_set_move 0 ''a'' ''b'' ''m'' db_new)"]
  by (simp add: db_get_new coll_view_def)

text \<open>When the destination holds another type, \<open>SMOVE\<close> reports the type error after the member has been
  taken out of the source: the member is lost.\<close>

theorem smove_loses_member:
  assumes "db_ok d" and "source \<noteq> dest" and "set_view now (db_get d source) = Ok (X, t)" and "m \<in> X"
    and "set_view now (db_get d dest) = Err" and "db_set_move now source dest m d = (d', r)"
  shows "r = Err \<and> db_get d' dest = db_get d dest \<and>
    set_view now (db_get d' source) = Ok (X - {m}, if X - {m} = {} then None else t)"
proof -
  obtain c' e' r' where mv: "move_cells now m (db_get d source) (db_get d dest) = (c', e', r')"
    by (metis prod_cases3)
  note eq = db_set_move_eq [OF assms(2,1) mv, unfolded assms(6), simplified]
  from move_cells_lost [OF mv assms(3,4,5)] eq assms(2) show ?thesis by simp
qed

definition smove_example :: db where
  "smove_example = fst (db_set_string ''b'' ''text'' None (fst (db_set_add 0 ''a'' [''m''] db_new)))"

lemma smove_example:
  "db_ok smove_example" "set_view 0 (db_get smove_example ''a'') = Ok ({''m''}, None)"
  "set_view 0 (db_get smove_example ''b'') = Err"
proof -
  note a = db_localD [OF db_local_set_add [of "[''m'']" "''a''" 0, simplified] db_ok_new]
  note b = db_localD [OF db_local_set_string [of "''b''" "''text''" None] a(1)]
  show "db_ok smove_example" "set_view 0 (db_get smove_example ''a'') = Ok ({''m''}, None)"
    "set_view 0 (db_get smove_example ''b'') = Err"
    using a b by (simp_all add: smove_example_def db_get_new spec_set_def spec_set_add_def coll_view_def on_coll_def
        hset_insert_def)
qed

theorem smove_loses_member_witness:
  "snd (db_set_move 0 ''a'' ''b'' ''m'' smove_example) = Err \<and>
   set_view 0 (db_get (fst (db_set_move 0 ''a'' ''b'' ''m'' smove_example)) ''a'') = Ok ({}, None)"
  using smove_loses_member [OF smove_example(1) _ smove_example(2) _ smove_example(3), of "''m''"
      "fst (db_set_move 0 ''a'' ''b'' ''m'' smove_example)" "snd (db_set_move 0 ''a'' ''b'' ''m'' smove_example)"]
  by simp

text \<open>\<open>SUNION\<close> across buckets returns the union of the live sets without repetition, or a type error when
  some key holds another type; it only sweeps expired keys.\<close>

theorem sunion_correct:
  assumes "db_ok d"
  shows "same_live now d (fst (db_set_union now ks d)) \<and>
    (if \<exists>k \<in> set ks. not_a_set now d k then snd (db_set_union now ks d) = Err
     else \<exists>xs. snd (db_set_union now ks d) = Ok xs \<and> distinct xs \<and> set xs = (\<Union>k \<in> set ks. live_set now d k))"
  using db_union_loop_eq [OF assms, of "[]" now ks] unfolding db_set_union_def by (simp split: if_splits)

theorem sunion_correct_witness: "same_live 0 db_new (fst (db_set_union 0 [''a'', ''b''] db_new))"
  using sunion_correct [OF db_ok_new, of 0 "[''a'', ''b'']"] by blast

text \<open>\<open>SINTER\<close> of at least one key, all of them sets or absent, returns the members common to all the live
  sets, without repetition; it only sweeps expired keys.\<close>

theorem sinter_correct:
  assumes "db_ok d" and "\<forall>k \<in> set ks. \<not> not_a_set now d k" and "ks \<noteq> []"
  shows "same_live now d (fst (db_set_inter now ks d)) \<and>
    (\<exists>xs. snd (db_set_inter now ks d) = Ok xs \<and> distinct xs \<and> set xs = (\<Inter>k \<in> set ks. live_set now d k))"
  by (rule db_set_inter_eq [OF assms])

theorem sinter_correct_witness:
  "\<exists>xs. snd (db_set_inter 0 [''a'', ''b''] db_new) = Ok xs \<and> set xs = {}"
  using sinter_correct [OF db_ok_new, of "[''a'', ''b'']" 0]
  by (auto simp: not_a_set_def live_set_def db_get_new coll_view_def)

end
