(* ===== verification/Utf8.thy ===== *)
theory Utf8
  imports Prelude
begin

text \<open>
  \<open>String::from_utf8_lossy\<close> of the standard library, as the server uses it on stored bytes and on
  lines of the wire protocol: well-formed UTF-8 is kept, every maximal ill-formed part becomes
  U+FFFD. A Rust \<open>String\<close> is a byte list for which \<open>utf8_ok\<close> holds.
\<close>

definition byte_in :: "nat \<Rightarrow> nat \<Rightarrow> byte \<Rightarrow> bool" where
  "byte_in lo hi c \<longleftrightarrow> lo \<le> of_char c \<and> of_char c \<le> hi"

abbreviation cont_byte :: "byte \<Rightarrow> bool" where
  "cont_byte \<equiv> byte_in 0x80 0xBF"

text \<open>The second byte a three-byte or four-byte sequence may have (no overlong forms, no surrogates,
  nothing beyond U+10FFFF).\<close>

definition second3 :: "byte \<Rightarrow> byte \<Rightarrow> bool" where
  "second3 b c \<longleftrightarrow>
     (if of_char b = (0xE0 :: nat) then byte_in 0xA0 0xBF c
      else if of_char b = (0xED :: nat) then byte_in 0x80 0x9F c else cont_byte c)"

definition second4 :: "byte \<Rightarrow> byte \<Rightarrow> bool" where
  "second4 b c \<longleftrightarrow>
     (if of_char b = (0xF0 :: nat) then byte_in 0x90 0xBF c
      else if of_char b = (0xF4 :: nat) then byte_in 0x80 0x8F c else cont_byte c)"

text \<open>The first chunk of a non-empty input: how many bytes it has, and whether it is a character.\<close>

fun utf8_chunk :: "bytes \<Rightarrow> nat \<times> bool" where
  "utf8_chunk [] = (0, True)"
| "utf8_chunk (b # rest) =
     (if byte_in 0 0x7F b then (1, True)
      else if byte_in 0xC2 0xDF b then
        (case rest of c # _ \<Rightarrow> if cont_byte c then (2, True) else (1, False) | [] \<Rightarrow> (1, False))
      else if byte_in 0xE0 0xEF b then
        (case rest of
           c # rest2 \<Rightarrow>
             if second3 b c then
               (case rest2 of c2 # _ \<Rightarrow> if cont_byte c2 then (3, True) else (2, False) | [] \<Rightarrow> (2, False))
             else (1, False)
         | [] \<Rightarrow> (1, False))
      else if byte_in 0xF0 0xF4 b then
        (case rest of
           c # rest2 \<Rightarrow>
             if second4 b c then
               (case rest2 of
                  c2 # rest3 \<Rightarrow>
                    if cont_byte c2 then
                      (case rest3 of c3 # _ \<Rightarrow> if cont_byte c3 then (4, True) else (3, False) | [] \<Rightarrow> (3, False))
                    else (2, False)
                | [] \<Rightarrow> (2, False))
             else (1, False)
         | [] \<Rightarrow> (1, False))
      else (1, False))"

definition REPLACEMENT :: bytes where
  "REPLACEMENT = [CHR 0xEF, CHR 0xBF, CHR 0xBD]"

declare utf8_chunk.simps [simp del]

lemma utf8_chunk_bounds:
  "xs \<noteq> [] \<Longrightarrow> 0 < fst (utf8_chunk xs) \<and> fst (utf8_chunk xs) \<le> length xs"
  by (cases xs) (auto simp: utf8_chunk.simps split: list.splits)

function utf8_lossy :: "bytes \<Rightarrow> bytes" where
  "utf8_lossy xs =
     (if xs = [] then []
      else let (n, valid) = utf8_chunk xs
           in (if valid then take n xs else REPLACEMENT) @ utf8_lossy (drop n xs))"
  by pat_completeness auto
termination
proof (relation "measure length")
  fix xs x n v
  assume "xs \<noteq> []" "x = utf8_chunk xs" "(n, v) = x"
  then show "(drop n xs, xs) \<in> measure length"
    using utf8_chunk_bounds [of xs] by (metis drop_eq_Nil2 fst_conv in_measure length_drop
        diff_less length_greater_0_conv)
qed simp

declare utf8_lossy.simps [simp del]

function utf8_ok :: "bytes \<Rightarrow> bool" where
  "utf8_ok xs =
     (if xs = [] then True
      else if snd (utf8_chunk xs) then utf8_ok (drop (fst (utf8_chunk xs)) xs) else False)"
  by pat_completeness auto
termination
proof (relation "measure length")
  fix xs :: bytes
  assume "xs \<noteq> []"
  then show "(drop (fst (utf8_chunk xs)) xs, xs) \<in> measure length"
    using utf8_chunk_bounds [of xs] by simp
qed simp

declare utf8_ok.simps [simp del]

lemma utf8_ok_Nil [simp]: "utf8_ok []"
  by (simp add: utf8_ok.simps)

lemma utf8_lossy_Nil [simp]: "utf8_lossy [] = []"
  by (simp add: utf8_lossy.simps)

lemma utf8_lossy_id: "utf8_ok xs \<Longrightarrow> utf8_lossy xs = xs"
proof (induction xs rule: utf8_ok.induct)
  case (1 xs)
  show ?case
  proof (cases "xs = []")
    case False
    with "1.prems" have v: "snd (utf8_chunk xs)" "utf8_ok (drop (fst (utf8_chunk xs)) xs)"
      by (simp_all add: utf8_ok.simps [of xs] split: if_splits)
    with "1.IH" False have "utf8_lossy (drop (fst (utf8_chunk xs)) xs) = drop (fst (utf8_chunk xs)) xs"
      by simp
    with v False show ?thesis by (simp add: utf8_lossy.simps [of xs] case_prod_beta)
  qed simp
qed

text \<open>A valid chunk is recognised by itself, whatever follows it.\<close>

lemma utf8_chunk_prefix:
  "utf8_chunk xs = (n, True) \<Longrightarrow> xs \<noteq> [] \<Longrightarrow> utf8_chunk (take n xs @ ys) = (n, True)"
  by (cases xs) (auto simp: utf8_chunk.simps split: list.splits if_splits)

lemma utf8_chunk_replacement: "utf8_chunk (REPLACEMENT @ ys) = (3, True)"
  by (simp add: REPLACEMENT_def utf8_chunk.simps byte_in_def second3_def)

lemma utf8_ok_step: "utf8_chunk (zs @ ys) = (length zs, True) \<Longrightarrow> utf8_ok ys \<Longrightarrow> utf8_ok (zs @ ys)"
  by (subst utf8_ok.simps) simp

lemma utf8_ok_lossy: "utf8_ok (utf8_lossy xs)"
proof (induction xs rule: utf8_lossy.induct)
  case (1 xs)
  show ?case
  proof (cases "xs = []")
    case False
    obtain n v where c: "utf8_chunk xs = (n, v)" by (cases "utf8_chunk xs")
    have n: "n \<le> length xs" using utf8_chunk_bounds [OF False] c by simp
    have ih: "utf8_ok (utf8_lossy (drop n xs))" using "1.IH" False c by simp
    have "utf8_ok ((if v then take n xs else REPLACEMENT) @ utf8_lossy (drop n xs))"
      using utf8_chunk_prefix [of xs n] c False n utf8_chunk_replacement
      by (intro utf8_ok_step [OF _ ih]) (auto simp: REPLACEMENT_def)
    then show ?thesis using False c by (simp add: utf8_lossy.simps [of xs])
  qed simp
qed

lemma utf8_lossy_idem: "utf8_lossy (utf8_lossy xs) = utf8_lossy xs"
  by (rule utf8_lossy_id [OF utf8_ok_lossy])

text \<open>ASCII text is well-formed.\<close>

lemma utf8_ok_ascii: "list_all (byte_in 0 0x7F) xs \<Longrightarrow> utf8_ok xs"
  by (induction xs) (simp_all, subst utf8_ok.simps, simp add: utf8_chunk.simps)

section \<open>Properties\<close>

text \<open>The lossy decoding of a reply always gives valid UTF-8, leaves valid text unchanged and is
  idempotent.\<close>

theorem lossy_decoding:
  "utf8_ok (utf8_lossy xs) \<and> utf8_lossy (utf8_lossy xs) = utf8_lossy xs \<and> (utf8_ok xs \<longleftrightarrow> utf8_lossy xs = xs)"
  using utf8_ok_lossy [of xs] utf8_lossy_idem [of xs] utf8_lossy_id [of xs] by metis

end
