(* ===== verification/Core.thy ===== *)
theory Core
  imports Db_Multi Utf8
begin

text \<open>
  The embedded command executor (\<open>src/muon_cache/core.rs\<close>): commands, responses, the metrics it keeps
  and the execution of single commands and batches on the database. Clock readings (milliseconds
  for the store, microseconds for the metrics) are arguments. The percentile estimate of the
  metrics snapshot is floating-point arithmetic and is left out.

  The specification \<open>core_spec\<close> runs a command on one map from keys to entries; executing a batch is
  shown to be running its commands in order on that map.
\<close>

section \<open>Model\<close>

definition WRONGTYPE :: string where
  "WRONGTYPE = ''WRONGTYPE Operation against a key holding the wrong kind of value''"

definition ERR_HASH_INT :: string where
  "ERR_HASH_INT = ''ERR hash value is not an integer''"

definition MAX_LATENCY_SAMPLES :: nat where
  "MAX_LATENCY_SAMPLES = 4096"

datatype core_command =
    CSet bytes bytes
  | CGet bytes
  | CHset bytes bytes bytes
  | CHget bytes bytes
  | CHincrby bytes bytes int
  | CZadd bytes f64 bytes
  | CZrange bytes int int
  | CZcard bytes
  | CDel "bytes list"
  | CFlushdb

datatype core_data = CNull | CInteger int | CString bytes | CStrings "bytes list"

record core_response =
  r_ok :: bool
  r_data :: "core_data option"
  r_error :: "string option"

definition response_ok :: "core_data \<Rightarrow> core_response" where
  "response_ok x = \<lparr>r_ok = True, r_data = Some x, r_error = None\<rparr>"

definition response_err :: "string \<Rightarrow> core_response" where
  "response_err msg = \<lparr>r_ok = False, r_data = None, r_error = Some msg\<rparr>"

record core_metrics =
  ops_total :: u64
  errors_total :: u64
  command_mix :: "(string, u64) hashmap"
  op_timestamps_us :: "u64 list"
  latencies_us :: "u32 list"
  queue_depth :: u32
  batch_ops_total :: u64
  batch_count :: u64

definition metrics_default :: core_metrics where
  "metrics_default =
     \<lparr>ops_total = 0, errors_total = 0, command_mix = [], op_timestamps_us = [], latencies_us = [],
      queue_depth = 0, batch_ops_total = 0, batch_count = 0\<rparr>"

definition record_batch :: "nat \<Rightarrow> core_metrics \<Rightarrow> core_metrics" where
  "record_batch sz m =
     (if sz > 0 then m\<lparr>batch_ops_total := batch_ops_total m + of_nat sz, batch_count := batch_count m + 1\<rparr>
      else m)"

text \<open>The two loops that pop from the front of a queue.\<close>

fun drop_old :: "u64 \<Rightarrow> u64 list \<Rightarrow> u64 list" where
  "drop_old cutoff [] = []"
| "drop_old cutoff (front # q) = (if front \<ge> cutoff then front # q else drop_old cutoff q)"

fun drop_excess :: "'a list \<Rightarrow> 'a list" where
  "drop_excess [] = []"
| "drop_excess (x # q) = (if length (x # q) > MAX_LATENCY_SAMPLES then drop_excess q else x # q)"

definition record_op :: "u64 \<Rightarrow> string \<Rightarrow> u64 \<Rightarrow> bool \<Rightarrow> core_metrics \<Rightarrow> core_metrics" where
  "record_op now_us command latency_us is_error m =
     m\<lparr>ops_total := ops_total m + 1,
       errors_total := (if is_error then errors_total m + 1 else errors_total m),
       command_mix :=
         hm_put command ((case hm_get (command_mix m) command of Some n \<Rightarrow> n | None \<Rightarrow> 0) + 1) (command_mix m),
       op_timestamps_us := drop_old (u64_saturating_sub now_us 1000000) (op_timestamps_us m @ [now_us]),
       latencies_us := drop_excess (latencies_us m @ [ucast (min latency_us 0xFFFFFFFF)])\<rparr>"

record core_executor =
  dbs :: "db list"
  current_db :: nat
  metrics :: core_metrics

definition core_new :: "nat \<Rightarrow> core_executor" where
  "core_new databases =
     \<lparr>dbs = replicate (max databases 1) db_new, current_db = 0, metrics = metrics_default\<rparr>"

definition core_reset :: "core_executor \<Rightarrow> core_executor" where
  "core_reset ex =
     ex\<lparr>dbs := replicate (max (length (dbs ex)) 1) db_new, current_db := 0, metrics := metrics_default\<rparr>"

definition set_queue_depth :: "u32 \<Rightarrow> core_executor \<Rightarrow> core_executor" where
  "set_queue_depth depth ex = ex\<lparr>metrics := (metrics ex)\<lparr>queue_depth := depth\<rparr>\<rparr>"

fun core_del_loop :: "bytes list \<Rightarrow> db \<Rightarrow> int \<Rightarrow> db \<times> int" where
  "core_del_loop [] d removed = (d, removed)"
| "core_del_loop (key # ks) d removed =
     (case db_remove key d of (d, gone) \<Rightarrow> core_del_loop ks d (if gone then removed + 1 else removed))"

fun execute_db :: "u64 \<Rightarrow> core_command \<Rightarrow> db \<Rightarrow> db \<times> core_response \<times> string" where
  "execute_db now (CSet key v) d =
     (case db_set_string_from_slices key v None d of (d, _) \<Rightarrow> (d, response_ok (CString ''OK''), ''SET''))"
| "execute_db now (CGet key) d =
     (case db_get_string now key d of
        (d, Ok (Some v)) \<Rightarrow> (d, response_ok (CString (utf8_lossy v)), ''GET'')
      | (d, Ok None) \<Rightarrow> (d, response_ok CNull, ''GET'')
      | (d, Err) \<Rightarrow> (d, response_err WRONGTYPE, ''GET''))"
| "execute_db now (CHset key field v) d =
     (case db_hash_set_bytes now key field v d of
        (d, Ok inserted) \<Rightarrow> (d, response_ok (CInteger (if inserted then 1 else 0)), ''HSET'')
      | (d, Err) \<Rightarrow> (d, response_err WRONGTYPE, ''HSET''))"
| "execute_db now (CHget key field) d =
     (case db_hash_get now key field d of
        (d, Ok (Some v)) \<Rightarrow> (d, response_ok (CString (utf8_lossy v)), ''HGET'')
      | (d, Ok None) \<Rightarrow> (d, response_ok CNull, ''HGET'')
      | (d, Err) \<Rightarrow> (d, response_err WRONGTYPE, ''HGET''))"
| "execute_db now (CHincrby key field delta) d =
     (case db_hash_incr_by now key field delta d of
        (d, Ok n) \<Rightarrow> (d, response_ok (CInteger n), ''HINCRBY'')
      | (d, Err) \<Rightarrow> (d, response_err ERR_HASH_INT, ''HINCRBY''))"
| "execute_db now (CZadd key score member) d =
     (case db_zadd now key score member d of
        (d, Ok inserted) \<Rightarrow> (d, response_ok (CInteger (if inserted then 1 else 0)), ''ZADD'')
      | (d, Err) \<Rightarrow> (d, response_err WRONGTYPE, ''ZADD''))"
| "execute_db now (CZrange key start stop) d =
     (case db_zrange now key start stop d of
        (d, Ok items) \<Rightarrow> (d, response_ok (CStrings (map utf8_lossy items)), ''ZRANGE'')
      | (d, Err) \<Rightarrow> (d, response_err WRONGTYPE, ''ZRANGE''))"
| "execute_db now (CZcard key) d =
     (case db_zcard now key d of
        (d, Ok n) \<Rightarrow> (d, response_ok (CInteger n), ''ZCARD'')
      | (d, Err) \<Rightarrow> (d, response_err WRONGTYPE, ''ZCARD''))"
| "execute_db now (CDel ks) d =
     (case core_del_loop ks d 0 of (d, removed) \<Rightarrow> (d, response_ok (CInteger removed), ''DEL''))"
| "execute_db now CFlushdb d =
     (case db_flush d of (d, _) \<Rightarrow> (d, response_ok (CString ''OK''), ''FLUSHDB''))"

definition execute_inner :: "u64 \<Rightarrow> core_command \<Rightarrow> core_executor \<Rightarrow> core_executor \<times> core_response \<times> string" where
  "execute_inner now cmd ex =
     (case execute_db now cmd (dbs ex ! current_db ex) of
        (d, resp, name) \<Rightarrow> (ex\<lparr>dbs := (dbs ex)[current_db ex := d]\<rparr>, resp, name))"

text \<open>\<open>execute\<close> reads the microsecond clock before, after, and once more for the record.\<close>

definition core_execute ::
  "u64 \<Rightarrow> u64 \<times> u64 \<times> u64 \<Rightarrow> core_command \<Rightarrow> core_executor \<Rightarrow> core_executor \<times> core_response" where
  "core_execute now us cmd ex =
     (case us of (start_us, end_us, now_us) \<Rightarrow>
      case execute_inner now cmd ex of (ex, resp, name) \<Rightarrow>
        (ex\<lparr>metrics := record_op now_us name (u64_saturating_sub end_us start_us) (\<not> r_ok resp) (metrics ex)\<rparr>,
         resp))"

fun batch_loop ::
  "(u64 \<times> core_command) list \<Rightarrow> core_executor \<Rightarrow> core_executor \<times> core_response list \<times> (string \<times> bool) list" where
  "batch_loop [] ex = (ex, [], [])"
| "batch_loop ((now, cmd) # cmds) ex =
     (case execute_inner now cmd ex of (ex, resp, name) \<Rightarrow>
      case batch_loop cmds ex of (ex, out, names) \<Rightarrow> (ex, resp # out, (name, \<not> r_ok resp) # names))"

definition execute_batch ::
  "u64 \<times> u64 \<times> u64 \<Rightarrow> (u64 \<times> core_command) list \<Rightarrow> core_executor \<Rightarrow> core_executor \<times> core_response list" where
  "execute_batch us cmds ex =
     (case us of (batch_start, batch_end, now) \<Rightarrow>
      let ex = ex\<lparr>metrics := record_batch (length cmds) (metrics ex)\<rparr>
      in case batch_loop cmds ex of (ex, out, names) \<Rightarrow>
           let batch_elapsed = u64_saturating_sub batch_end batch_start;
               per_cmd_us = (if cmds = [] then 0 else batch_elapsed div of_nat (length cmds))
           in (ex\<lparr>metrics := fold (\<lambda>(name, is_error). record_op now name per_cmd_us is_error) names (metrics ex)\<rparr>,
               out))"

section \<open>Commands on one map\<close>

type_synonym keyspace = "bytes \<Rightarrow> entry option"

definition at_cell :: "bytes \<Rightarrow> (entry option \<Rightarrow> entry option \<times> 'r) \<Rightarrow> keyspace \<Rightarrow> keyspace \<times> 'r" where
  "at_cell k g m = (m(k := fst (g (m k))), snd (g (m k)))"

fun reply :: "string \<Rightarrow> ('r \<Rightarrow> core_data) \<Rightarrow> 'r result \<Rightarrow> core_response" where
  "reply msg f (Ok x) = response_ok (f x)"
| "reply msg f Err = response_err msg"

definition reply_text :: "bytes option \<Rightarrow> core_data" where
  "reply_text v = (case v of Some b \<Rightarrow> CString (utf8_lossy b) | None \<Rightarrow> CNull)"

definition reply_flag :: "bool \<Rightarrow> core_data" where
  "reply_flag b = CInteger (if b then 1 else 0)"

fun core_spec :: "u64 \<Rightarrow> core_command \<Rightarrow> keyspace \<Rightarrow> keyspace \<times> core_response" where
  "core_spec now (CSet k v) m = (m(k \<mapsto> fresh (String v)), response_ok (CString ''OK''))"
| "core_spec now (CGet k) m =
     map_prod (\<lambda>m. m) (reply WRONGTYPE reply_text) (at_cell k (spec_get_string now) m)"
| "core_spec now (CHset k f v) m =
     map_prod (\<lambda>m. m) (reply WRONGTYPE reply_flag) (at_cell k (spec_hash_set now f v) m)"
| "core_spec now (CHget k f) m =
     map_prod (\<lambda>m. m) (reply WRONGTYPE reply_text) (at_cell k (spec_hash_get now f) m)"
| "core_spec now (CHincrby k f d) m =
     map_prod (\<lambda>m. m) (reply ERR_HASH_INT CInteger) (at_cell k (spec_hash_incr_by now f d) m)"
| "core_spec now (CZadd k sc mem) m =
     map_prod (\<lambda>m. m) (reply WRONGTYPE reply_flag) (at_cell k (spec_zadd now sc mem) m)"
| "core_spec now (CZrange k start stop) m =
     map_prod (\<lambda>m. m) (reply WRONGTYPE (\<lambda>ms. CStrings (map utf8_lossy ms)))
       (at_cell k (spec_zread now [] (\<lambda>z. zrange_of z start stop)) m)"
| "core_spec now (CZcard k) m =
     map_prod (\<lambda>m. m) (reply WRONGTYPE CInteger) (at_cell k (spec_zread now 0 (\<lambda>z. int (length z))) m)"
| "core_spec now (CDel ks) m =
     (\<lambda>k. if k \<in> set ks then None else m k, response_ok (CInteger (int (card (dom m \<inter> set ks)))))"
| "core_spec now CFlushdb m = (Map.empty, response_ok (CString ''OK''))"

fun core_specs :: "(u64 \<times> core_command) list \<Rightarrow> keyspace \<Rightarrow> keyspace \<times> core_response list" where
  "core_specs [] m = (m, [])"
| "core_specs ((now, cmd) # cmds) m =
     (case core_spec now cmd m of (m, r) \<Rightarrow> case core_specs cmds m of (m, rs) \<Rightarrow> (m, r # rs))"

fun name_of :: "core_command \<Rightarrow> string" where
  "name_of (CSet k v) = ''SET''"
| "name_of (CGet k) = ''GET''"
| "name_of (CHset k f v) = ''HSET''"
| "name_of (CHget k f) = ''HGET''"
| "name_of (CHincrby k f d) = ''HINCRBY''"
| "name_of (CZadd k s m) = ''ZADD''"
| "name_of (CZrange k a b) = ''ZRANGE''"
| "name_of (CZcard k) = ''ZCARD''"
| "name_of (CDel ks) = ''DEL''"
| "name_of CFlushdb = ''FLUSHDB''"

text \<open>An \<open>i64\<close> argument is in range by its type.\<close>

fun command_ok :: "core_command \<Rightarrow> bool" where
  "command_ok (CHincrby k f d) = in_i64 d"
| "command_ok _ = True"

section \<open>The executor implements the specification\<close>

lemma at_cell_db:
  assumes "db_local k f g" and "db_ok d"
  shows "db_ok (fst (f d))" and "db_get (fst (f d)) = fst (at_cell k g (db_get d))"
    and "snd (f d) = snd (at_cell k g (db_get d))"
  using db_localD [OF assms] by (simp_all add: at_cell_def)

lemma core_del_loop_eq:
  "db_ok d \<Longrightarrow>
     db_ok (fst (core_del_loop ks d n)) \<and>
     db_get (fst (core_del_loop ks d n)) = (\<lambda>k. if k \<in> set ks then None else db_get d k) \<and>
     snd (core_del_loop ks d n) = n + int (card (dom (db_get d) \<inter> set ks))"
proof (induction ks arbitrary: d n)
  case (Cons k ks)
  obtain d' gone where r: "db_remove k d = (d', gone)" by (cases "db_remove k d")
  have d': "db_ok d'" "db_get d' = (db_get d)(k := None)" "gone \<longleftrightarrow> db_get d k \<noteq> None"
    using db_localD [OF db_local_remove Cons.prems, of k] by (auto simp: r spec_remove_def)
  have "dom (db_get d) \<inter> set (k # ks) =
      (if db_get d k \<noteq> None then insert k (dom (db_get d') \<inter> set ks) else dom (db_get d') \<inter> set ks)"
    by (auto simp: d'(2))
  moreover have "card (insert k (dom (db_get d') \<inter> set ks)) = Suc (card (dom (db_get d') \<inter> set ks))"
    by (rule card_insert_disjoint) (auto simp: d'(2))
  ultimately have cnt: "(if gone then n + 1 else n) + int (card (dom (db_get d') \<inter> set ks)) =
      n + int (card (dom (db_get d) \<inter> set (k # ks)))"
    using d'(3) by (cases "db_get d k = None") (simp_all del: list.set)
  have rest: "(\<lambda>x. if x \<in> set ks then None else db_get d' x) =
      (\<lambda>x. if x \<in> set (k # ks) then None else db_get d x)"
    by (auto simp: d'(2))
  have "core_del_loop (k # ks) d n = core_del_loop ks d' (if gone then n + 1 else n)" by (simp add: r)
  then show ?case
    using Cons.IH [OF d'(1), of "if gone then n + 1 else n"] unfolding cnt rest by simp
qed simp

lemma execute_db_name: "snd (snd (execute_db now cmd d)) = name_of cmd"
  by (cases cmd) (auto split: prod.splits result.splits option.splits)

lemma execute_db_refines:
  assumes d: "db_ok d" and cmd: "command_ok cmd"
  shows "db_ok (fst (execute_db now cmd d))"
    and "db_get (fst (execute_db now cmd d)) = fst (core_spec now cmd (db_get d))"
    and "fst (snd (execute_db now cmd d)) = snd (core_spec now cmd (db_get d))"
proof -
  have "db_ok (fst (execute_db now cmd d)) \<and>
    db_get (fst (execute_db now cmd d)) = fst (core_spec now cmd (db_get d)) \<and>
    fst (snd (execute_db now cmd d)) = snd (core_spec now cmd (db_get d))"
  proof (cases cmd)
    case (CSet k v)
    show ?thesis
      using at_cell_db [OF db_local_set_string_from_slices d, of k v None]
      by (simp add: CSet case_prod_beta at_cell_def spec_set_def)
  next
    case (CGet k)
    show ?thesis
      using at_cell_db [OF db_local_get_string d, of now k]
      by (cases "db_get_string now k d") (auto simp: CGet reply_text_def split: result.splits option.splits)
  next
    case (CHset k f v)
    show ?thesis
      using at_cell_db [OF db_local_hash_set_bytes d, of now k f v]
      by (cases "db_hash_set_bytes now k f v d") (auto simp: CHset reply_flag_def split: result.splits)
  next
    case (CHget k f)
    show ?thesis
      using at_cell_db [OF db_local_hash_get d, of now k f]
      by (cases "db_hash_get now k f d") (auto simp: CHget reply_text_def split: result.splits option.splits)
  next
    case (CHincrby k f dl)
    show ?thesis
      using at_cell_db [OF db_local_hash_incr_by d, of now k f dl]
      by (cases "db_hash_incr_by now k f dl d") (auto simp: CHincrby split: result.splits)
  next
    case (CZadd k sc mem)
    show ?thesis
      using at_cell_db [OF db_local_zadd d, of now k sc mem]
      by (cases "db_zadd now k sc mem d") (auto simp: CZadd reply_flag_def split: result.splits)
  next
    case (CZrange k a b)
    show ?thesis
      using at_cell_db [OF db_local_zrange d, of now k a b]
      by (cases "db_zrange now k a b d") (auto simp: CZrange split: result.splits)
  next
    case (CZcard k)
    show ?thesis
      using at_cell_db [OF db_local_zcard d, of now k]
      by (cases "db_zcard now k d") (auto simp: CZcard split: result.splits)
  next
    case (CDel ks)
    show ?thesis using core_del_loop_eq [OF d, of ks 0] by (simp add: CDel case_prod_beta)
  next
    case CFlushdb
    show ?thesis using db_flush_eq [OF d] by (simp add: CFlushdb case_prod_beta)
  qed
  then show "db_ok (fst (execute_db now cmd d))"
    "db_get (fst (execute_db now cmd d)) = fst (core_spec now cmd (db_get d))"
    "fst (snd (execute_db now cmd d)) = snd (core_spec now cmd (db_get d))" by auto
qed

definition core_ok :: "core_executor \<Rightarrow> bool" where
  "core_ok ex \<longleftrightarrow> current_db ex < length (dbs ex) \<and> list_all db_ok (dbs ex)"

definition keyspace_of :: "core_executor \<Rightarrow> keyspace" where
  "keyspace_of ex = db_get (dbs ex ! current_db ex)"

lemma core_ok_new: "core_ok (core_new n)" and keyspace_new: "keyspace_of (core_new n) = Map.empty"
  by (auto simp: core_ok_def core_new_def keyspace_of_def list_all_iff db_ok_new db_get_new)

lemma execute_inner_refines:
  assumes ex: "core_ok ex" and cmd: "command_ok cmd"
  shows "core_ok (fst (execute_inner now cmd ex))"
    and "keyspace_of (fst (execute_inner now cmd ex)) = fst (core_spec now cmd (keyspace_of ex))"
    and "fst (snd (execute_inner now cmd ex)) = snd (core_spec now cmd (keyspace_of ex))"
    and "snd (snd (execute_inner now cmd ex)) = name_of cmd"
    and "metrics (fst (execute_inner now cmd ex)) = metrics ex"
proof -
  let ?d = "dbs ex ! current_db ex"
  have d: "db_ok ?d" using ex by (auto simp: core_ok_def list_all_length)
  note r = execute_db_refines [OF d cmd, of now]
  show "core_ok (fst (execute_inner now cmd ex))"
    using ex r(1) by (auto simp: execute_inner_def core_ok_def case_prod_beta list_all_length nth_list_update)
  show "keyspace_of (fst (execute_inner now cmd ex)) = fst (core_spec now cmd (keyspace_of ex))"
    using ex r(2) by (simp add: execute_inner_def core_ok_def keyspace_of_def case_prod_beta)
  show "fst (snd (execute_inner now cmd ex)) = snd (core_spec now cmd (keyspace_of ex))"
    using r(3) by (simp add: execute_inner_def keyspace_of_def case_prod_beta)
  show "snd (snd (execute_inner now cmd ex)) = name_of cmd"
    using execute_db_name by (simp add: execute_inner_def case_prod_beta)
  show "metrics (fst (execute_inner now cmd ex)) = metrics ex"
    by (simp add: execute_inner_def case_prod_beta)
qed

lemma batch_loop_refines:
  "core_ok ex \<Longrightarrow> list_all (\<lambda>(now, cmd). command_ok cmd) cmds \<Longrightarrow>
     core_ok (fst (batch_loop cmds ex)) \<and>
     keyspace_of (fst (batch_loop cmds ex)) = fst (core_specs cmds (keyspace_of ex)) \<and>
     fst (snd (batch_loop cmds ex)) = snd (core_specs cmds (keyspace_of ex)) \<and>
     snd (snd (batch_loop cmds ex)) =
       zip (map (\<lambda>(now, cmd). name_of cmd) cmds) (map (\<lambda>r. \<not> r_ok r) (snd (core_specs cmds (keyspace_of ex)))) \<and>
     metrics (fst (batch_loop cmds ex)) = metrics ex"
proof (induction cmds arbitrary: ex)
  case (Cons nc cmds)
  obtain now cmd where nc: "nc = (now, cmd)" by (cases nc)
  have cmd: "command_ok cmd" using Cons.prems(2) nc by simp
  note r = execute_inner_refines [OF Cons.prems(1) cmd, of now]
  have "list_all (\<lambda>(now, cmd). command_ok cmd) cmds" using Cons.prems(2) by simp
  note ih = Cons.IH [OF r(1) this]
  show ?case using ih r by (simp add: nc case_prod_beta)
qed simp

lemma metrics_frame:
  "core_ok (ex\<lparr>metrics := m\<rparr>) = core_ok ex" "keyspace_of (ex\<lparr>metrics := m\<rparr>) = keyspace_of ex"
  by (simp_all add: core_ok_def keyspace_of_def)

section \<open>Metrics\<close>

definition metrics_ok :: "core_metrics \<Rightarrow> bool" where
  "metrics_ok m \<longleftrightarrow> hm_ok (command_mix m) \<and> sum_list (map snd (command_mix m)) = ops_total m \<and>
     length (latencies_us m) \<le> MAX_LATENCY_SAMPLES"

lemma drop_excess_eq: "drop_excess q = drop (length q - MAX_LATENCY_SAMPLES) q"
  by (induction q) (auto simp: Suc_diff_le not_less)

lemma drop_old_eq: "sorted q \<Longrightarrow> drop_old cutoff q = filter (\<lambda>t. cutoff \<le> t) q"
proof (induction q)
  case (Cons x q)
  then have "\<forall>y \<in> set q. x \<le> y" "sorted q" by auto
  moreover from this have "cutoff \<le> x \<Longrightarrow> filter (\<lambda>t. cutoff \<le> t) q = q"
    by (intro filter_True) (auto intro: order_trans)
  ultimately show ?case using Cons.IH by simp
qed simp

lemma sum_hm_put:
  fixes mix :: "('k, 'a :: comm_ring_1) hashmap"
  assumes "hm_ok mix"
  shows "sum_list (map snd (hm_put k ((case hm_get mix k of Some n \<Rightarrow> n | None \<Rightarrow> 0) + d) mix)) =
    sum_list (map snd mix) + d"
  using assms by (induction mix) (auto simp: hm_put_def hm_get_def hm_ok_def)

lemma metrics_ok_default: "metrics_ok metrics_default"
  by (simp add: metrics_ok_def metrics_default_def)

lemma metrics_ok_record_batch: "metrics_ok m \<Longrightarrow> metrics_ok (record_batch n m)"
  by (simp add: metrics_ok_def record_batch_def)

lemma metrics_ok_record_op: "metrics_ok m \<Longrightarrow> metrics_ok (record_op now name lat err m)"
  using sum_hm_put [of "command_mix m" name 1]
  by (simp add: metrics_ok_def record_op_def drop_excess_eq)

lemma metrics_ok_fold: "metrics_ok m \<Longrightarrow> metrics_ok (fold (\<lambda>(name, err). record_op now name lat err) ns m)"
  by (induction ns arbitrary: m) (auto simp: metrics_ok_record_op)

lemma ops_total_fold:
  "ops_total (fold (\<lambda>(name, err). record_op now name lat err) ns m) = ops_total m + of_nat (length ns)"
  by (induction ns arbitrary: m) (auto simp: record_op_def algebra_simps)

lemma errors_total_fold:
  "errors_total (fold (\<lambda>(name, err). record_op now name lat err) ns m) =
     errors_total m + of_nat (length (filter snd ns))"
  by (induction ns arbitrary: m) (auto simp: record_op_def algebra_simps)

lemma length_core_specs [simp]: "length (snd (core_specs cmds m)) = length cmds"
  by (induction cmds m rule: core_specs.induct) (auto split: prod.splits)

lemma execute_batch_refines:
  assumes "core_ok ex" and "list_all (\<lambda>(now, cmd). command_ok cmd) cmds"
  shows "core_ok (fst (execute_batch us cmds ex))"
    and "keyspace_of (fst (execute_batch us cmds ex)) = fst (core_specs cmds (keyspace_of ex))"
    and "snd (execute_batch us cmds ex) = snd (core_specs cmds (keyspace_of ex))"
  using batch_loop_refines [of "ex\<lparr>metrics := record_batch (length cmds) (metrics ex)\<rparr>" cmds] assms
  by (auto simp: execute_batch_def Let_def case_prod_beta metrics_frame)

section \<open>Properties\<close>

text \<open>C1: A batch of commands behaves like the commands run one after the other on a single map from keys to
  entries: the executor returns one response per command, in order, each the one the specification gives,
  and its current database holds the resulting map. Buckets, metrics and the current database index are
  not observable.\<close>

theorem execute_batch_correct:
  assumes "core_ok ex" and "list_all (\<lambda>(now, cmd). command_ok cmd) cmds" and "execute_batch us cmds ex = (ex', out)"
  shows "core_ok ex' \<and> keyspace_of ex' = fst (core_specs cmds (keyspace_of ex)) \<and>
    out = snd (core_specs cmds (keyspace_of ex)) \<and> length out = length cmds"
  using execute_batch_refines [OF assms(1,2), of us] assms(3) by simp

theorem execute_batch_correct_witness:
  "snd (execute_batch (0, 0, 0) [(1, CSet ''k'' ''v''), (2, CGet ''k''), (3, CDel [''k'', ''x'']), (4, CGet ''k'')]
     (core_new 1)) =
   [response_ok (CString ''OK''), response_ok (CString (utf8_lossy ''v'')), response_ok (CInteger 1), response_ok CNull]"
  using execute_batch_correct [OF core_ok_new _ surjective_pairing, of
      "[(1, CSet ''k'' ''v''), (2, CGet ''k''), (3, CDel [''k'', ''x'']), (4, CGet ''k'')]" "(0, 0, 0)" 1]
  by (simp add: keyspace_new at_cell_def spec_get_string_def reply_text_def case_prod_beta)

text \<open>One command through \<open>execute\<close> gives the response and the new contents the specification gives, and
  the counters record it: one more operation, one more error exactly when the response is an error.\<close>

theorem core_execute_correct:
  assumes "core_ok ex" and "command_ok cmd" and "core_execute now us cmd ex = (ex', resp)"
  shows "core_ok ex' \<and> keyspace_of ex' = fst (core_spec now cmd (keyspace_of ex)) \<and>
    resp = snd (core_spec now cmd (keyspace_of ex)) \<and>
    ops_total (metrics ex') = ops_total (metrics ex) + 1 \<and>
    errors_total (metrics ex') = errors_total (metrics ex) + (if r_ok resp then 0 else 1)"
  using execute_inner_refines [OF assms(1,2), of now] assms(3)
  by (auto simp: core_execute_def case_prod_beta metrics_frame record_op_def split: prod.splits)

theorem core_execute_correct_witness:
  "snd (core_execute 0 (0, 0, 0) (CGet ''k'') (core_new 1)) = response_ok CNull"
  using core_execute_correct [OF core_ok_new _ surjective_pairing, of "CGet ''k''" 0 "(0, 0, 0)" 1]
  by (simp add: keyspace_new at_cell_def spec_get_string_def reply_text_def case_prod_beta)

text \<open>The commands that may change the key \<open>k\<close>.\<close>

fun names_key :: "bytes \<Rightarrow> core_command \<Rightarrow> bool" where
  "names_key k (CSet k' v) = (k = k')"
| "names_key k (CGet k') = (k = k')"
| "names_key k (CHset k' f v) = (k = k')"
| "names_key k (CHget k' f) = (k = k')"
| "names_key k (CHincrby k' f d) = (k = k')"
| "names_key k (CZadd k' s m) = (k = k')"
| "names_key k (CZrange k' a b) = (k = k')"
| "names_key k (CZcard k') = (k = k')"
| "names_key k (CDel ks) = (k \<in> set ks)"
| "names_key k CFlushdb = True"

lemma core_spec_frame: "\<not> names_key k cmd \<Longrightarrow> fst (core_spec now cmd m) k = m k"
  by (cases cmd) (auto simp: at_cell_def)

lemma core_specs_frame: "\<forall>(now, cmd) \<in> set cmds. \<not> names_key k cmd \<Longrightarrow> fst (core_specs cmds m) k = m k"
proof (induction cmds arbitrary: m)
  case (Cons c cmds)
  then show ?case by (cases c) (auto simp: case_prod_beta core_spec_frame)
qed simp

lemma core_specs_append:
  "core_specs (xs @ ys) m =
     (fst (core_specs ys (fst (core_specs xs m))), snd (core_specs xs m) @ snd (core_specs ys (fst (core_specs xs m))))"
  by (induction xs arbitrary: m) (auto simp: case_prod_beta)

text \<open>A value written through the executor is the value read back, whatever commands on other keys are in
  between in the same batch.\<close>

theorem read_your_writes:
  assumes "core_ok ex" and "list_all (\<lambda>(now, cmd). command_ok cmd) cmds"
    and "\<forall>(now, cmd) \<in> set cmds. \<not> names_key k cmd"
  shows "last (snd (execute_batch us ((t, CSet k v) # cmds @ [(now, CGet k)]) ex)) = response_ok (CString (utf8_lossy v))"
proof -
  let ?m = "fst (core_specs cmds ((keyspace_of ex)(k \<mapsto> fresh (String v))))"
  have "?m k = Some (fresh (String v))" by (simp add: core_specs_frame [OF assms(3)])
  moreover have "snd (execute_batch us ((t, CSet k v) # cmds @ [(now, CGet k)]) ex) =
      snd (core_specs ((t, CSet k v) # cmds @ [(now, CGet k)]) (keyspace_of ex))"
    by (rule execute_batch_refines(3) [OF assms(1)]) (use assms(2) in simp)
  ultimately show ?thesis
    by (simp add: case_prod_beta core_specs_append at_cell_def spec_get_string_def reply_text_def)
qed

theorem read_your_writes_witness:
  "last (snd (execute_batch (0, 0, 0) ((1, CSet ''k'' ''v'') # [(1, CSet ''x'' ''y'')] @ [(2, CGet ''k'')]) (core_new 1))) =
     response_ok (CString (utf8_lossy ''v''))"
  by (rule read_your_writes [OF core_ok_new]) simp_all

lemma filter_snd_zip: "length xs = length ys \<Longrightarrow> length (filter snd (zip xs (map P ys))) = length (filter P ys)"
  by (induction xs ys rule: list_induct2) auto

text \<open>The counters stay consistent through any batch: the per-command counts add up to the total number of
  operations (modulo \<open>2^64\<close>), at most 4096 latency samples are kept, and a batch adds its length to the
  operations and the number of its error responses to the errors.\<close>

theorem metrics_consistent:
  assumes "metrics_ok (metrics ex)" and "core_ok ex" and "list_all (\<lambda>(now, cmd). command_ok cmd) cmds"
    and "execute_batch us cmds ex = (ex', out)"
  shows "metrics_ok (metrics ex') \<and> ops_total (metrics ex') = ops_total (metrics ex) + of_nat (length cmds) \<and>
    errors_total (metrics ex') = errors_total (metrics ex) + of_nat (length (filter (\<lambda>r. \<not> r_ok r) out))"
proof -
  let ?ex = "ex\<lparr>metrics := record_batch (length cmds) (metrics ex)\<rparr>"
  have ex: "core_ok ?ex" "metrics_ok (metrics ?ex)" "keyspace_of ?ex = keyspace_of ex"
    using assms(1,2) by (simp_all add: metrics_frame metrics_ok_record_batch)
  note b = batch_loop_refines [OF ex(1) assms(3)]
  let ?ns = "zip (map (\<lambda>(now, cmd). name_of cmd) cmds) (map (\<lambda>r. \<not> r_ok r) (snd (core_specs cmds (keyspace_of ex))))"
  obtain start fin now where us: "us = (start, fin, now)" by (cases us)
  have m: "\<exists>lat. metrics ex' = fold (\<lambda>(name, err). record_op now name lat err) ?ns (metrics ?ex)"
    and out: "out = snd (core_specs cmds (keyspace_of ex))"
    using assms(4) b ex(3) by (auto simp: us execute_batch_def Let_def case_prod_beta)
  have "length (filter snd ?ns) = length (filter (\<lambda>r. \<not> r_ok r) out)"
    by (simp add: filter_snd_zip out)
  with m ex show ?thesis
    by (auto simp: metrics_ok_fold ops_total_fold errors_total_fold record_batch_def)
qed

theorem metrics_consistent_witness:
  "ops_total (metrics (fst (execute_batch (0, 0, 0) [(0, CGet ''a''), (0, CFlushdb)] (core_new 1)))) = 2"
  using metrics_consistent [OF _ core_ok_new _ surjective_pairing, of 1 "[(0, CGet ''a''), (0, CFlushdb)]" "(0, 0, 0)"]
    metrics_ok_default by (simp add: core_new_def metrics_default_def)

end
