(* ===== verification/Resp.thy ===== *)
theory Resp
  imports Decimal Utf8 "HOL-Library.Sublist"
begin

text \<open>
  The wire protocol (\<open>src/muon_cache/resp.rs\<close>): the encoder, and the decoder with its iterative array
  parser that keeps the unfinished arrays on an explicit stack. A reader is the list of the bytes
  that are still to come (everything up to the end of the connection); reading returns the rest.
  The theory shows that decoding inverts encoding at any nesting depth, and that every successful
  read consumes input. Memory for announced lengths is not modelled.
\<close>

section \<open>Model: encoding\<close>

datatype resp_value =
    Simple bytes
  | Error bytes
  | Integer int
  | Blob bytes
  | Null
  | Array "resp_value list"
  | StaticSimple bytes
  | StaticError bytes

definition CRLF :: bytes where
  "CRLF = [CHR 0x0D, CHR 0x0A]"

fun encode :: "resp_value \<Rightarrow> bytes \<Rightarrow> bytes" where
  "encode (Simple s) out = out @ ''+'' @ s @ CRLF"
| "encode (StaticSimple s) out = out @ ''+'' @ s @ CRLF"
| "encode (Error s) out = out @ ''-'' @ s @ CRLF"
| "encode (StaticError s) out = out @ ''-'' @ s @ CRLF"
| "encode (Integer n) out = push_i64 (out @ '':'') n @ CRLF"
| "encode (Blob bs) out = push_usize (out @ ''$'') (length bs) @ CRLF @ bs @ CRLF"
| "encode Null out = out @ ''_'' @ CRLF"
| "encode (Array items) out = fold encode items (push_usize (out @ ''*'') (length items) @ CRLF)"

fun blob_loop :: "bytes list \<Rightarrow> bytes \<Rightarrow> bytes" where
  "blob_loop [] out = out"
| "blob_loop (item # items) out =
     blob_loop items (push_usize (out @ ''$'') (length item) @ CRLF @ item @ CRLF)"

definition encode_array_of_blobs :: "bytes list \<Rightarrow> bytes \<Rightarrow> bytes" where
  "encode_array_of_blobs items out = blob_loop items (push_usize (out @ ''*'') (length items) @ CRLF)"

fun estimate_encoded_len :: "resp_value \<Rightarrow> nat" where
  "estimate_encoded_len (Simple s) = 3 + length s"
| "estimate_encoded_len (Error s) = 3 + length s"
| "estimate_encoded_len (StaticSimple s) = 3 + length s"
| "estimate_encoded_len (StaticError s) = 3 + length s"
| "estimate_encoded_len (Integer n) = 24"
| "estimate_encoded_len (Blob bs) = 16 + length bs"
| "estimate_encoded_len Null = 3"
| "estimate_encoded_len (Array items) = 16 + sum_list (map estimate_encoded_len items)"

text \<open>The writers clear or create the buffer, encode, and hand the buffer to the socket: what is
  written is the result.\<close>

definition write_value :: "resp_value \<Rightarrow> bytes" where
  "write_value v = encode v []"

definition write_value_buf :: "resp_value \<Rightarrow> bytes \<Rightarrow> bytes" where
  "write_value_buf v buf = (let buf = [] in encode v buf)"

definition write_array_of_blobs_buf :: "bytes list \<Rightarrow> bytes \<Rightarrow> bytes" where
  "write_array_of_blobs_buf items buf = (let buf = [] in encode_array_of_blobs items buf)"

section \<open>Model: decoding\<close>

text \<open>\<open>io::Result<Option<_>>\<close>: an I/O error, end of input, or a value.\<close>

datatype 'a read = IoError | Closed | Got 'a

definition read_prefix :: "bytes \<Rightarrow> (byte \<times> bytes) read" where
  "read_prefix inp = (case inp of [] \<Rightarrow> Closed | c # rest \<Rightarrow> Got (c, rest))"

text \<open>\<open>read_until(b'\n')\<close> appends up to and including the delimiter, or to the end of the input.\<close>

fun read_until :: "byte \<Rightarrow> bytes \<Rightarrow> bytes \<times> bytes" where
  "read_until d [] = ([], [])"
| "read_until d (c # cs) =
     (if c = d then ([c], cs) else case read_until d cs of (l, rest) \<Rightarrow> (c # l, rest))"

definition ends_with :: "bytes \<Rightarrow> bytes \<Rightarrow> bool" where
  "ends_with line suf \<longleftrightarrow> length suf \<le> length line \<and> drop (length line - length suf) line = suf"

definition strip_newline :: "bytes \<Rightarrow> bytes" where
  "strip_newline line =
     (if ends_with line CRLF then take (length line - 2) line
      else if ends_with line [CHR 0x0A] then take (length line - 1) line
      else line)"

definition read_line_bytes :: "bytes \<Rightarrow> bytes \<times> bytes" where
  "read_line_bytes inp = (case read_until (CHR 0x0A) inp of (line, rest) \<Rightarrow> (strip_newline line, rest))"

definition read_array_len :: "bytes \<Rightarrow> int \<times> bytes" where
  "read_array_len inp =
     (case read_line_bytes inp of (line, rest) \<Rightarrow>
        (case resp_parse_i64_bytes line of Some n \<Rightarrow> n | None \<Rightarrow> - 1, rest))"

definition read_exact :: "nat \<Rightarrow> bytes \<Rightarrow> (bytes \<times> bytes) read" where
  "read_exact n inp = (if length inp < n then IoError else Got (take n inp, drop n inp))"

definition is_ascii_whitespace :: "byte \<Rightarrow> bool" where
  "is_ascii_whitespace c \<longleftrightarrow>
     c = CHR 0x20 \<or> c = CHR 0x09 \<or> c = CHR 0x0A \<or> c = CHR 0x0C \<or> c = CHR 0x0D"

text \<open>\<open>slice::split\<close>: the parts between separators, empty ones included.\<close>

fun split_on :: "('a \<Rightarrow> bool) \<Rightarrow> 'a list \<Rightarrow> 'a list list" where
  "split_on P [] = [[]]"
| "split_on P (x # xs) =
     (if P x then [] # split_on P xs
      else case split_on P xs of [] \<Rightarrow> [[x]] | part # parts \<Rightarrow> (x # part) # parts)"

definition read_inline_command :: "byte \<Rightarrow> bytes \<Rightarrow> (resp_value \<times> bytes) read" where
  "read_inline_command first_byte inp =
     (case read_until (CHR 0x0A) inp of (more, rest) \<Rightarrow>
        let line = strip_newline (first_byte # more);
            args = map Blob (filter (\<lambda>part. part \<noteq> []) (split_on is_ascii_whitespace line))
        in Got (Array args, rest))"

definition read_single_element :: "byte \<Rightarrow> bool \<Rightarrow> bytes \<Rightarrow> (resp_value \<times> bytes) read" where
  "read_single_element tag allow_inline inp =
     (if tag = CHR ''+'' then
        (case read_line_bytes inp of (line, rest) \<Rightarrow> Got (Simple (utf8_lossy line), rest))
      else if tag = CHR ''-'' then
        (case read_line_bytes inp of (line, rest) \<Rightarrow> Got (Error (utf8_lossy line), rest))
      else if tag = CHR '':'' then
        (case read_line_bytes inp of (line, rest) \<Rightarrow>
           Got (Integer (case resp_parse_i64_bytes line of Some n \<Rightarrow> n | None \<Rightarrow> 0), rest))
      else if tag = CHR ''_'' then
        (case read_line_bytes inp of (line, rest) \<Rightarrow> Got (Null, rest))
      else if tag = CHR ''$'' then
        (case read_line_bytes inp of (line, rest) \<Rightarrow>
           let len = (case resp_parse_i64_bytes line of Some n \<Rightarrow> n | None \<Rightarrow> - 1)
           in if len < 0 then Got (Null, rest)
              else case read_exact (nat len) rest of
                     IoError \<Rightarrow> IoError
                   | Closed \<Rightarrow> Closed
                   | Got (buf, rest) \<Rightarrow>
                       (case read_exact 2 rest of
                          IoError \<Rightarrow> IoError
                        | Closed \<Rightarrow> Closed
                        | Got (crlf, rest) \<Rightarrow> Got (Blob buf, rest)))
      else if allow_inline then read_inline_command tag inp
      else Got (StaticError ''ERR unknown RESP type'', inp))"

record array_frame =
  remaining :: nat
  items :: "resp_value list"

definition frame_new :: "nat \<Rightarrow> array_frame" where
  "frame_new len = \<lparr>remaining = len, items = []\<rparr>"

definition frame_push :: "resp_value \<Rightarrow> array_frame \<Rightarrow> array_frame" where
  "frame_push v f = \<lparr>remaining = remaining f - 1, items = items f @ [v]\<rparr>"

lemma read_until_split: "fst (read_until d xs) @ snd (read_until d xs) = xs"
  by (induction xs) (auto split: prod.splits)

lemma read_line_bytes_length: "length (snd (read_line_bytes inp)) \<le> length inp"
  using arg_cong [OF read_until_split [of "CHR 0x0A" inp], of length]
  by (simp add: read_line_bytes_def case_prod_beta)

lemma read_array_len_length: "length (snd (read_array_len inp)) \<le> length inp"
  using read_line_bytes_length [of inp] by (simp add: read_array_len_def case_prod_beta)

lemma read_single_element_length:
  "read_single_element tag inl inp = Got (v, rest) \<Longrightarrow> length rest \<le> length inp"
  using read_line_bytes_length [of inp] arg_cong [OF read_until_split [of "CHR 0x0A" inp], of length]
  by (auto simp: read_single_element_def read_inline_command_def read_exact_def Let_def
      split: if_splits prod.splits)

function read_array_loop ::
  "array_frame \<Rightarrow> array_frame list \<Rightarrow> bytes \<Rightarrow> (resp_value \<times> bytes) read" where
  "read_array_loop current stack inp =
     (if remaining current = 0 then
        (case stack of
           parent # stack' \<Rightarrow> read_array_loop (frame_push (Array (items current)) parent) stack' inp
         | [] \<Rightarrow> Got (Array (items current), inp))
      else
        case inp of
          [] \<Rightarrow> Closed
        | tag # inp' \<Rightarrow>
            if tag = CHR ''*'' then
              (if fst (read_array_len inp') < 0
               then read_array_loop (frame_push Null current) stack (snd (read_array_len inp'))
               else read_array_loop (frame_new (nat (fst (read_array_len inp')))) (current # stack)
                      (snd (read_array_len inp')))
            else
              (case read_single_element tag False inp' of
                 IoError \<Rightarrow> IoError
               | Closed \<Rightarrow> Closed
               | Got (v, rest) \<Rightarrow> read_array_loop (frame_push v current) stack rest))"
  by pat_completeness auto
termination
  by (relation "measures [\<lambda>(current, stack, inp). length inp, \<lambda>(current, stack, inp). length stack]")
    (use read_array_len_length read_single_element_length in \<open>fastforce simp: less_Suc_eq_le\<close>)+

declare read_array_loop.simps [simp del]

definition read_value_from_tag :: "byte \<Rightarrow> bytes \<Rightarrow> (resp_value \<times> bytes) read" where
  "read_value_from_tag tag inp =
     (if tag \<noteq> CHR ''*'' then read_single_element tag True inp
      else case read_array_len inp of (len, rest) \<Rightarrow>
             if len < 0 then Got (Null, rest) else read_array_loop (frame_new (nat len)) [] rest)"

definition read_value :: "bytes \<Rightarrow> (resp_value \<times> bytes) read" where
  "read_value inp =
     (case read_prefix inp of
        IoError \<Rightarrow> IoError
      | Closed \<Rightarrow> Closed
      | Got (tag, rest) \<Rightarrow> read_value_from_tag tag rest)"

section \<open>What can be sent, and how it arrives\<close>

text \<open>A static string arrives as an ordinary one. A line must not contain a line feed; a \<open>String\<close> is
  UTF-8; \<open>i64::MIN\<close> cannot be read back.\<close>

fun received :: "resp_value \<Rightarrow> resp_value" where
  "received (StaticSimple s) = Simple s"
| "received (StaticError s) = Error s"
| "received (Array vs) = Array (map received vs)"
| "received v = v"

definition line_ok :: "bytes \<Rightarrow> bool" where
  "line_ok s \<longleftrightarrow> utf8_ok s \<and> CHR 0x0A \<notin> set s"

fun wire_ok :: "resp_value \<Rightarrow> bool" where
  "wire_ok (Simple s) = line_ok s"
| "wire_ok (StaticSimple s) = line_ok s"
| "wire_ok (Error s) = line_ok s"
| "wire_ok (StaticError s) = line_ok s"
| "wire_ok (Integer n) = (in_i64 n \<and> n \<noteq> i64_min)"
| "wire_ok (Blob bs) = (int (length bs) \<le> i64_max)"
| "wire_ok Null = True"
| "wire_ok (Array vs) = (int (length vs) \<le> i64_max \<and> list_all wire_ok vs)"

section \<open>The encoder appends\<close>

lemma fold_encode_append:
  assumes "\<And>v out. v \<in> set vs \<Longrightarrow> encode v out = out @ encode v []"
  shows "fold encode vs out = out @ concat (map (\<lambda>v. encode v []) vs)"
  using assms
proof (induction vs arbitrary: out)
  case (Cons v vs)
  have "encode v out = out @ encode v []" by (rule Cons.prems) simp
  then have "fold encode (v # vs) out = fold encode vs (out @ encode v [])"
    by (simp only: fold_simps)
  also have "\<dots> = (out @ encode v []) @ concat (map (\<lambda>v. encode v []) vs)"
    by (rule Cons.IH) (rule Cons.prems, simp)
  finally show ?case by simp
qed simp

lemma encode_append: "encode v out = out @ encode v []"
proof (induction v arbitrary: out)
  case (Array vs)
  have "fold encode vs o' = o' @ concat (map (\<lambda>v. encode v []) vs)" for o'
    by (rule fold_encode_append) (rule Array.IH)
  then show ?case by (simp only: encode.simps push_usize_eq) simp
qed (simp_all add: push_i64_eq push_usize_eq)

lemma encode_Array:
  "encode (Array vs) [] = ''*'' @ dec_of_nat (length vs) @ CRLF @ concat (map (\<lambda>v. encode v []) vs)"
  unfolding encode.simps push_usize_eq fold_encode_append [OF encode_append] by simp

lemma blob_loop_eq: "blob_loop xs out = fold encode (map Blob xs) out"
  by (induction xs arbitrary: out) auto

section \<open>Lines\<close>

lemma read_until_line: "d \<notin> set l \<Longrightarrow> read_until d (l @ d # rest) = (l @ [d], rest)"
  by (induction l) auto

lemma read_line_crlf: "CHR 0x0A \<notin> set l \<Longrightarrow> read_line_bytes (l @ CRLF @ rest) = (l, rest)"
proof -
  assume "CHR 0x0A \<notin> set l"
  then have "read_until (CHR 0x0A) ((l @ [CHR 0x0D]) @ CHR 0x0A # rest) = ((l @ [CHR 0x0D]) @ [CHR 0x0A], rest)"
    by (intro read_until_line) simp
  moreover have "strip_newline (l @ CRLF) = l"
    by (simp add: strip_newline_def ends_with_def CRLF_def)
  ultimately show ?thesis by (simp add: read_line_bytes_def CRLF_def)
qed

lemma no_newline_digits: "list_all is_digit ds \<Longrightarrow> CHR 0x0A \<notin> set ds"
  by (induction ds) (auto simp: is_digit_iff)

lemma no_newline_dec [simp]: "CHR 0x0A \<notin> set (dec_of_nat n)"
  by (rule no_newline_digits) simp

lemma no_newline_i64 [simp]: "CHR 0x0A \<notin> set (i64_to_string n)"
  by (simp add: i64_to_string_def)

lemma read_array_len_dec:
  "int n \<le> i64_max \<Longrightarrow> read_array_len (dec_of_nat n @ CRLF @ rest) = (int n, rest)"
  by (simp add: read_array_len_def read_line_crlf resp_parse_dec_of_nat)

section \<open>Decoding inverts encoding\<close>

fun is_resp_array :: "resp_value \<Rightarrow> bool" where
  "is_resp_array (Array vs) = True"
| "is_resp_array _ = False"

text \<open>A scalar: one tag byte, which is not the array tag, then the element.\<close>

lemma read_scalar:
  assumes "wire_ok v" and "\<not> is_resp_array v"
  shows "\<exists>tag body. encode v [] = tag # body \<and> tag \<noteq> CHR ''*'' \<and>
    (\<forall>inl rest. read_single_element tag inl (body @ rest) = Got (received v, rest))"
proof (cases v)
  case (Blob bs)
  have "read_single_element (CHR ''$'') inl ((dec_of_nat (length bs) @ CRLF @ bs @ CRLF) @ rest) = Got (Blob bs, rest)"
    for inl rest
    using assms Blob read_line_crlf [of "dec_of_nat (length bs)" "bs @ CRLF @ rest"]
    by (simp add: read_single_element_def resp_parse_dec_of_nat read_exact_def Let_def CRLF_def)
  then show ?thesis by (simp add: Blob push_usize_eq)
qed (use assms in \<open>auto simp: push_i64_eq read_single_element_def read_line_crlf line_ok_def utf8_lossy_id
      resp_parse_push_i64 read_line_crlf [of "[]", simplified]\<close>)

lemma frame_push_simps [simp]:
  "remaining (frame_push v f) = remaining f - 1" "items (frame_push v f) = items f @ [v]"
  by (simp_all add: frame_push_def)

lemma frame_new_simps [simp]: "remaining (frame_new n) = n" "items (frame_new n) = []"
  by (simp_all add: frame_new_def)

lemma frame_same: "\<lparr>remaining = remaining f, items = items f\<rparr> = f"
  by (cases f) simp

lemma loop_reads_scalar:
  assumes "wire_ok v" and "\<not> is_resp_array v" and "0 < remaining f"
  shows "read_array_loop f stack (encode v [] @ rest) = read_array_loop (frame_push (received v) f) stack rest"
proof -
  from read_scalar [OF assms(1,2)] obtain tag body where v: "encode v [] = tag # body" "tag \<noteq> CHR ''*''"
    "read_single_element tag False (body @ rest) = Got (received v, rest)" by blast
  with assms(3) show ?thesis by (simp add: read_array_loop.simps [of f stack "tag # body @ rest"])
qed

text \<open>The parser reads one encoded value into the current frame, at any stack.\<close>

lemma loop_reads_value:
  "wire_ok v \<Longrightarrow> 0 < remaining f \<Longrightarrow>
     read_array_loop f stack (encode v [] @ rest) = read_array_loop (frame_push (received v) f) stack rest"
proof (induction v arbitrary: f stack rest)
  case (Array vs)
  have vs: "read_array_loop g st (concat (map (\<lambda>v. encode v []) vs) @ rest) =
      read_array_loop \<lparr>remaining = remaining g - length vs, items = items g @ map received vs\<rparr> st rest"
    if "length vs \<le> remaining g" for g st
    using that Array.IH Array.prems(1)
  proof (induction vs arbitrary: g)
    case (Cons w ws)
    have "read_array_loop g st (encode w [] @ (concat (map (\<lambda>v. encode v []) ws) @ rest)) =
        read_array_loop (frame_push (received w) g) st (concat (map (\<lambda>v. encode v []) ws) @ rest)"
      by (rule Cons.prems(2)) (use Cons.prems in auto)
    also have "\<dots> = read_array_loop \<lparr>remaining = remaining (frame_push (received w) g) - length ws,
        items = items (frame_push (received w) g) @ map received ws\<rparr> st rest"
      by (rule Cons.IH) (use Cons.prems in auto)
    finally show ?case by simp
  qed (simp add: frame_same)
  let ?n = "length vs"
  let ?body = "concat (map (\<lambda>v. encode v []) vs) @ rest"
  have n: "int ?n \<le> i64_max" using Array.prems by simp
  have "read_array_loop f stack (encode (Array vs) [] @ rest) =
      read_array_loop f stack (CHR ''*'' # dec_of_nat ?n @ CRLF @ ?body)"
    by (simp add: encode_Array del: encode.simps)
  also have "\<dots> = read_array_loop (frame_new ?n) (f # stack) ?body"
    using Array.prems(2) read_array_len_dec [OF n, of ?body]
    by (simp add: read_array_loop.simps [of f])
  also have "\<dots> = read_array_loop \<lparr>remaining = 0, items = map received vs\<rparr> (f # stack) rest"
    using vs [of "frame_new ?n" "f # stack"] by simp
  also have "\<dots> = read_array_loop (frame_push (received (Array vs)) f) stack rest"
    by (simp add: read_array_loop.simps [of "\<lparr>remaining = 0, items = map received vs\<rparr>"])
  finally show ?case .
qed (rule loop_reads_scalar; simp)+

lemma loop_reads_values:
  "list_all wire_ok vs \<Longrightarrow> length vs \<le> remaining f \<Longrightarrow>
     read_array_loop f stack (concat (map (\<lambda>v. encode v []) vs) @ rest) =
     read_array_loop \<lparr>remaining = remaining f - length vs, items = items f @ map received vs\<rparr> stack rest"
proof (induction vs arbitrary: f)
  case (Cons v vs)
  have "read_array_loop f stack (encode v [] @ (concat (map (\<lambda>v. encode v []) vs) @ rest)) =
      read_array_loop (frame_push (received v) f) stack (concat (map (\<lambda>v. encode v []) vs) @ rest)"
    by (rule loop_reads_value) (use Cons.prems in auto)
  with Cons.IH [of "frame_push (received v) f"] Cons.prems show ?case by simp
qed (simp add: frame_same)

lemma read_written:
  assumes "wire_ok v"
  shows "read_value (encode v [] @ rest) = Got (received v, rest)"
proof (cases "is_resp_array v")
  case False
  from read_scalar [OF assms False] obtain tag body where v: "encode v [] = tag # body" "tag \<noteq> CHR ''*''"
    "read_single_element tag True (body @ rest) = Got (received v, rest)" by blast
  then show ?thesis by (simp add: read_value_def read_prefix_def read_value_from_tag_def)
next
  case True
  then obtain vs where vs: "v = Array vs" by (cases v) auto
  let ?body = "concat (map (\<lambda>v. encode v []) vs) @ rest"
  have "read_value (encode v [] @ rest) = read_value (CHR ''*'' # dec_of_nat (length vs) @ CRLF @ ?body)"
    by (simp add: vs encode_Array del: encode.simps)
  also have "\<dots> = read_array_loop (frame_new (length vs)) [] ?body"
    using assms read_array_len_dec [of "length vs" ?body]
    by (simp add: vs read_value_def read_prefix_def read_value_from_tag_def)
  also have "\<dots> = read_array_loop \<lparr>remaining = 0, items = map received vs\<rparr> [] rest"
    using loop_reads_values [of vs "frame_new (length vs)" "[]" rest] assms by (simp add: vs)
  also have "\<dots> = Got (received v, rest)"
    by (simp add: vs read_array_loop.simps [of "\<lparr>remaining = 0, items = map received vs\<rparr>"])
  finally show ?thesis .
qed

section \<open>Every successful read consumes input\<close>

lemma suffix_read_line: "suffix (snd (read_line_bytes inp)) inp"
  using read_until_split [of "CHR 0x0A" inp]
  by (auto simp: read_line_bytes_def suffix_def case_prod_beta intro!: exI [of _ "fst (read_until (CHR 0x0A) inp)"])

lemma suffix_read_array_len: "suffix (snd (read_array_len inp)) inp"
  using suffix_read_line [of inp] by (simp add: read_array_len_def case_prod_beta)

lemma suffix_read_single_element:
  assumes "read_single_element tag inl inp = Got (v, rest)"
  shows "suffix rest inp"
proof -
  have line: "suffix rest inp" if "read_line_bytes inp = (l, rest)" for l rest
    using suffix_read_line [of inp] that by simp
  have blob: "suffix (drop 2 (drop n r)) inp" if "read_line_bytes inp = (l, r)" for l r n
    using line [OF that] suffix_drop suffix_order.trans by blast
  have inline: "suffix rest inp" if "read_until (CHR 0x0A) inp = (l, rest)" for l rest
    using read_until_split [of "CHR 0x0A" inp] that by (auto simp: suffix_def)
  show ?thesis
    using assms line blob inline
    by (auto simp: read_single_element_def read_inline_command_def read_exact_def Let_def
        split: if_splits prod.splits)
qed

lemma suffix_read_array_loop:
  "read_array_loop f stack inp = Got (v, rest) \<Longrightarrow> suffix rest inp"
proof (induction f stack inp rule: read_array_loop.induct)
  case (1 f stack inp)
  show ?case
  proof (cases "remaining f = 0")
    case True
    then show ?thesis
      using "1.IH"(1) [OF True] "1.prems" by (cases stack) (auto simp: read_array_loop.simps [of f])
  next
    case False
    then obtain tag inp' where inp: "inp = tag # inp'"
      using "1.prems" by (cases inp) (auto simp: read_array_loop.simps [of f])
    have "suffix rest inp'"
    proof (cases "tag = CHR ''*''")
      case True
      then have "suffix rest (snd (read_array_len inp'))"
        using "1.IH"(2,3) [OF False inp True] "1.prems" False
        by (auto simp: read_array_loop.simps [of f] inp split: if_splits)
      then show ?thesis using suffix_read_array_len suffix_order.trans by blast
    next
      case nt: False
      obtain w r where w: "read_single_element tag False inp' = Got (w, r)"
        using "1.prems" False nt
        by (auto simp: read_array_loop.simps [of f] inp split: read.splits)
      then have "suffix rest r"
        using "1.IH"(4) [OF False inp nt w refl] "1.prems" False nt
        by (simp add: read_array_loop.simps [of f] inp)
      then show ?thesis using suffix_read_single_element [OF w] suffix_order.trans by blast
    qed
    then show ?thesis by (auto simp: inp suffix_Cons)
  qed
qed

lemma read_value_consumes:
  assumes "read_value inp = Got (v, rest)"
  shows "strict_suffix rest inp"
proof -
  obtain tag r where inp: "inp = tag # r" "read_value_from_tag tag r = Got (v, rest)"
    using assms by (auto simp: read_value_def read_prefix_def split: list.splits)
  have "suffix rest r"
  proof (cases "tag = CHR ''*''")
    case True
    then show ?thesis
      using inp(2) suffix_read_array_len [of r] suffix_read_array_loop suffix_order.trans
      by (fastforce simp: read_value_from_tag_def split: prod.splits if_splits)
  next
    case False
    with inp(2) show ?thesis by (auto simp: read_value_from_tag_def dest: suffix_read_single_element)
  qed
  then show ?thesis by (auto simp: inp strict_suffix_def suffix_Cons dest: suffix_length_le)
qed

section \<open>Sizes\<close>

fun lengths_below :: "nat \<Rightarrow> resp_value \<Rightarrow> bool" where
  "lengths_below b (Blob bs) = (length bs < b)"
| "lengths_below b (Array vs) = (length vs < b \<and> list_all (lengths_below b) vs)"
| "lengths_below b (Integer n) = in_i64 n"
| "lengths_below b v = True"

lemma estimate_bound: "lengths_below (10 ^ 11) v \<Longrightarrow> length (encode v []) \<le> estimate_encoded_len v"
proof (induction v)
  case (Integer n)
  then show ?case using length_i64_to_string [of n] by (simp add: push_i64_eq CRLF_def)
next
  case (Blob bs)
  then show ?case using length_dec_of_nat [of "length bs" 10] by (simp add: push_usize_eq CRLF_def)
next
  case (Array vs)
  have "length (dec_of_nat (length vs)) \<le> 11" using Array.prems length_dec_of_nat [of "length vs" 10] by simp
  moreover have "(\<Sum>v \<leftarrow> vs. length (encode v [])) \<le> sum_list (map estimate_encoded_len vs)"
    using Array by (intro sum_list_mono) (auto simp: list_all_iff)
  ultimately show ?case by (simp add: encode_Array CRLF_def length_concat comp_def del: encode.simps)
qed (simp_all add: CRLF_def)

section \<open>Properties\<close>

text \<open>C10: A value the server writes is read back by the reader, whatever follows it on the connection: the
  reader returns the same value (a static string as an ordinary one) and leaves exactly the bytes behind
  it. Lines must be valid UTF-8 without a newline, and an integer must not be \<open>i64::MIN\<close>.\<close>

theorem resp_roundtrip:
  assumes "wire_ok v"
  shows "read_value (write_value v @ rest) = Got (received v, rest)"
  unfolding write_value_def by (rule read_written [OF assms])

theorem resp_roundtrip_witness:
  "read_value (write_value (Array [Blob ''GET'', Array [Null, Integer 7]]) @ ''x'') =
     Got (Array [Blob ''GET'', Array [Null, Integer 7]], ''x'')"
  using resp_roundtrip [of "Array [Blob ''GET'', Array [Null, Integer 7]]" "''x''"]
  by (simp add: in_i64_iff i64_bounds_eval)

lemma read_value_Nil: "read_value [] = Closed"
  by (simp add: read_value_def read_prefix_def)

text \<open>Reading a pipeline: one value after the other until the input is used up.\<close>

function read_all :: "bytes \<Rightarrow> resp_value list option" where
  "read_all inp =
     (if inp = [] then Some []
      else case read_value inp of
             Got (v, rest) \<Rightarrow> map_option (\<lambda>vs. v # vs) (read_all rest)
           | _ \<Rightarrow> None)"
  by pat_completeness auto

termination
proof (relation "measure length")
  fix inp :: bytes and x1 v rest
  assume "inp \<noteq> []" "read_value inp = Got x1" "(v, rest) = x1"
  then have "strict_suffix rest inp" using read_value_consumes [of inp v rest] by simp
  then show "(rest, inp) \<in> measure length" by (simp add: suffix_length_less)
qed simp

declare read_all.simps [simp del]

text \<open>A pipeline of written values is read back as the same sequence: no value runs into the next.\<close>

theorem resp_pipeline:
  assumes "list_all wire_ok vs"
  shows "read_all (concat (map write_value vs)) = Some (map received vs)"
  using assms
proof (induction vs)
  case Nil
  show ?case by (simp add: read_all.simps)
next
  case (Cons v vs)
  have r: "read_value (write_value v @ concat (map write_value vs)) = Got (received v, concat (map write_value vs))"
    unfolding write_value_def using Cons.prems by (intro read_written) simp
  then have "write_value v @ concat (map write_value vs) \<noteq> []" using read_value_Nil by fastforce
  with r Cons show ?case by (simp add: read_all.simps [of "write_value v @ _"])
qed

theorem resp_pipeline_witness:
  "read_all (concat (map write_value [Blob ''a'', Null])) = Some [Blob ''a'', Null]"
  using resp_pipeline [of "[Blob ''a'', Null]"] by (simp add: i64_bounds_eval)

text \<open>C31: The reader makes progress: every value it returns used up at least one byte, and what it leaves
  is a suffix of its input.\<close>

theorem read_value_progress:
  assumes "read_value inp = Got (v, rest)"
  shows "\<exists>used. used \<noteq> [] \<and> inp = used @ rest"
  using read_value_consumes [OF assms] by (auto simp: strict_suffix_def suffix_def)

theorem read_value_progress_witness: "\<exists>used. used \<noteq> [] \<and> ''_'' = used @ []"
proof (rule read_value_progress)
  show "read_value ''_'' = Got (Null, [])"
    by (simp add: read_value_def read_prefix_def read_value_from_tag_def read_single_element_def
        read_line_bytes_def strip_newline_def ends_with_def CRLF_def)
qed

text \<open>The buffer size the writer reserves is enough for every value whose lengths have at most eleven
  digits, so encoding never grows the buffer.\<close>

theorem estimate_suffices:
  assumes "lengths_below (10 ^ 11) v"
  shows "length (write_value v) \<le> estimate_encoded_len v"
  unfolding write_value_def by (rule estimate_bound [OF assms])

theorem estimate_suffices_witness:
  "length (write_value (Array [Integer 1, Blob ''ab''])) \<le> estimate_encoded_len (Array [Integer 1, Blob ''ab''])"
  by (rule estimate_suffices) (simp add: in_i64_iff)

text \<open>The direct encoder for a list of byte strings writes the same bytes as the general encoder for the
  array of blobs, and both write-to-buffer functions discard what the buffer held.\<close>

theorem array_of_blobs_encoding:
  "encode_array_of_blobs xs out = encode (Array (map Blob xs)) out \<and>
   write_array_of_blobs_buf xs buf = write_value (Array (map Blob xs)) \<and>
   write_value_buf v buf = write_value v"
  by (simp add: encode_array_of_blobs_def blob_loop_eq write_array_of_blobs_buf_def write_value_def write_value_buf_def)

text \<open>The smallest integer does not survive the wire: the encoder writes all its digits, and the reader
  returns the integer 0 for them.\<close>

theorem resp_min_integer_lost: "read_value (write_value (Integer i64_min)) = Got (Integer 0, [])"
proof -
  have "resp_parse_i64_bytes (i64_to_string i64_min) = None"
    by (simp add: resp_parse_i64_bytes_eq i64_to_string_def i64_bounds_eval Let_def)
  then show ?thesis
    using read_line_crlf [of "i64_to_string i64_min" "[]"]
    by (simp add: write_value_def push_i64_eq read_value_def read_prefix_def read_value_from_tag_def
        read_single_element_def)
qed

end
