(* ===== verification/JS_Source.thy ===== *)
theory JS_Source
  imports Decimal
begin

text \<open>
  Source positions of the JavaScript engine (\<open>src/context.rs\<close>): the table of line starts built by
  \<open>set_current_source\<close>, the binary search of \<open>compute_line_col\<close> and the stack text of
  \<open>format_stack\<close>. The search is shown to give the line and column a reader would count, for every
  offset inside the source.
\<close>

section \<open>Model\<close>

record source_state =
  src_filename :: bytes
  src_text :: bytes
  line_starts :: "nat list"
  error_offset :: "nat option"
  stmt_offset :: nat

abbreviation NL :: byte where
  "NL \<equiv> CHR 0x0A"

definition line_start_loop :: "bytes \<Rightarrow> nat list" where
  "line_start_loop source =
     fold (\<lambda>i starts. if source ! i = NL \<and> i + 1 < length source then starts @ [i + 1] else starts)
       [0..<length source] [0]"

definition set_current_source :: "bytes \<Rightarrow> bytes \<Rightarrow> source_state" where
  "set_current_source filename source =
     \<lparr>src_filename = filename, src_text = source, line_starts = line_start_loop source,
      error_offset = None, stmt_offset = 0\<rparr>"

definition current_filename :: "source_state \<Rightarrow> bytes" where
  "current_filename st = (if src_filename st = [] then ''<eval>'' else src_filename st)"

definition set_error_offset :: "nat \<Rightarrow> source_state \<Rightarrow> source_state" where
  "set_error_offset off st = st\<lparr>error_offset := Some off\<rparr>"

definition clear_error_offset :: "source_state \<Rightarrow> source_state" where
  "clear_error_offset st = st\<lparr>error_offset := None\<rparr>"

definition set_current_stmt_offset :: "nat \<Rightarrow> source_state \<Rightarrow> source_state" where
  "set_current_stmt_offset off st = st\<lparr>stmt_offset := off\<rparr>"

function line_search :: "nat list \<Rightarrow> nat \<Rightarrow> nat \<Rightarrow> nat \<Rightarrow> nat" where
  "line_search starts end lo hi =
     (if lo < hi then
        let mid = (lo + hi) div 2
        in if starts ! mid \<le> end then line_search starts end (mid + 1) hi else line_search starts end lo mid
      else lo)"
  by pat_completeness auto
termination
  by (relation "measure (\<lambda>(starts, end, lo, hi). hi - lo)") auto

declare line_search.simps [simp del]

definition compute_line_col :: "source_state \<Rightarrow> nat \<Rightarrow> nat \<times> nat" where
  "compute_line_col st off =
     (let end = min off (length (src_text st))
      in if line_starts st = [] then (1, end + 1)
         else
           let lo = line_search (line_starts st) end 0 (length (line_starts st));
               line_idx = lo - 1;
               line_start = line_starts st ! line_idx
           in (line_idx + 1, end - line_start + 1))"

definition format_stack :: "source_state \<Rightarrow> bytes option" where
  "format_stack st =
     (case error_offset st of
        None \<Rightarrow> None
      | Some off \<Rightarrow>
          (case compute_line_col st off of (line, col) \<Rightarrow>
             let at = ''at '' @ current_filename st @ '':'' @ dec_of_nat line @ '':'' @ dec_of_nat col
             in Some (at @ [NL] @ at)))"

section \<open>The binary search\<close>

lemma line_search_result:
  assumes "sorted starts" and "lo \<le> hi" and "hi \<le> length starts"
    and "\<And>j. j < lo \<Longrightarrow> starts ! j \<le> e" and "\<And>j. hi \<le> j \<Longrightarrow> j < length starts \<Longrightarrow> e < starts ! j"
  shows "line_search starts e lo hi \<le> length starts \<and>
    (\<forall>j < line_search starts e lo hi. starts ! j \<le> e) \<and>
    (\<forall>j. line_search starts e lo hi \<le> j \<longrightarrow> j < length starts \<longrightarrow> e < starts ! j)"
  using assms
proof (induction starts e lo hi rule: line_search.induct)
  case (1 starts e lo hi)
  let ?mid = "(lo + hi) div 2"
  show ?case
  proof (cases "lo < hi")
    case True
    then have mid: "?mid < hi" "lo \<le> ?mid" "?mid < length starts" using "1.prems"(3) by auto
    show ?thesis
    proof (cases "starts ! ?mid \<le> e")
      case le: True
      have low: "starts ! j \<le> e" if "j < ?mid + 1" for j
        using that le mid(3) sorted_nth_mono [OF "1.prems"(1), of j ?mid] by simp
      have eq: "line_search starts e lo hi = line_search starts e (?mid + 1) hi"
        using True le by (subst line_search.simps) (simp only: Let_def if_True)
      show ?thesis unfolding eq
        by (rule "1.IH"(1) [OF True refl le]) (use mid low "1.prems" in \<open>simp_all only: Suc_leI Suc_eq_plus1 [symmetric]\<close>)
    next
      case gt: False
      have high: "e < starts ! j" if "?mid \<le> j" "j < length starts" for j
        using that gt sorted_nth_mono [OF "1.prems"(1), of ?mid j] by simp
      have eq: "line_search starts e lo hi = line_search starts e lo ?mid"
        using True gt by (subst line_search.simps) (simp only: Let_def if_True if_False)
      show ?thesis unfolding eq
        by (rule "1.IH"(2) [OF True refl gt]) (use mid high "1.prems" in \<open>simp_all only: less_imp_le\<close>)
    qed
  next
    case False
    then have "line_search starts e lo hi = lo" by (subst line_search.simps) simp
    with False "1.prems" show ?thesis by simp
  qed
qed

section \<open>Lines as a reader counts them\<close>

definition starts_upto :: "bytes \<Rightarrow> nat \<Rightarrow> nat list" where
  "starts_upto src n = 0 # map Suc (filter (\<lambda>i. src ! i = NL) [0..<n])"

lemma line_start_loop_eq:
  "line_start_loop src = 0 # map Suc (filter (\<lambda>i. src ! i = NL \<and> i + 1 < length src) [0..<length src])"
proof -
  have "fold (\<lambda>i s. if P i then s @ [i + 1] else s) xs acc = acc @ map Suc (filter P xs)" for P xs acc
    by (induction xs arbitrary: acc) auto
  then show ?thesis by (simp add: line_start_loop_def)
qed

lemma sorted_line_starts: "sorted (line_start_loop src)"
proof -
  have "sorted (filter P [0..<n])" for P and n :: nat by (rule sorted_wrt_filter) simp
  then show ?thesis by (auto simp: line_start_loop_eq sorted_map intro: sorted_wrt_mono_rel [rotated])
qed

lemma filter_upt_le: "e \<le> n \<Longrightarrow> filter (\<lambda>i. P i \<and> i < e) [0..<n] = filter P [0..<e]"
proof -
  assume "e \<le> n"
  then have "[0..<n] = [0..<e] @ [e..<n]" by (metis le_add_diff_inverse upt_add_eq_append zero_le)
  moreover have "filter (\<lambda>i. P i \<and> i < e) [0..<e] = filter P [0..<e]" by (rule filter_cong) auto
  moreover have "filter (\<lambda>i. P i \<and> i < e) [e..<n] = []" by (simp add: filter_empty_conv)
  ultimately show ?thesis by simp
qed

lemma starts_below:
  assumes "e < length src"
  shows "filter (\<lambda>s. s \<le> e) (line_start_loop src) = starts_upto src e"
proof -
  have "filter (\<lambda>i. (src ! i = NL \<and> Suc i < length src) \<and> Suc i \<le> e) [0..<length src] =
      filter (\<lambda>i. src ! i = NL \<and> i < e) [0..<length src]"
    using assms by (intro filter_cong) auto
  also have "\<dots> = filter (\<lambda>i. src ! i = NL) [0..<e]" using assms by (intro filter_upt_le) simp
  finally show ?thesis
    by (simp add: line_start_loop_eq starts_upto_def filter_map comp_def conj_commute)
qed

lemma starts_upto_count:
  "n \<le> length src \<Longrightarrow> length (starts_upto src n) = Suc (count_list (take n src) NL)"
proof (induction n)
  case (Suc n)
  then show ?case by (simp add: starts_upto_def take_Suc_conv_app_nth)
qed (simp add: starts_upto_def)

lemma starts_upto_last:
  "n \<le> length src \<Longrightarrow>
     last (starts_upto src n) \<le> n \<and>
     n - last (starts_upto src n) = length (takeWhile (\<lambda>b. b \<noteq> NL) (rev (take n src)))"
proof (induction n)
  case (Suc n)
  then have ih: "last (starts_upto src n) \<le> n"
    "n - last (starts_upto src n) = length (takeWhile (\<lambda>b. b \<noteq> NL) (rev (take n src)))" by auto
  have t: "take (Suc n) src = take n src @ [src ! n]" using Suc.prems by (simp add: take_Suc_conv_app_nth)
  show ?case
  proof (cases "src ! n = NL")
    case True
    then show ?thesis by (simp add: t starts_upto_def)
  next
    case False
    then have "starts_upto src (Suc n) = starts_upto src n" by (simp add: starts_upto_def)
    with False ih show ?thesis by (simp add: t)
  qed
qed (simp add: starts_upto_def)

lemma filter_le_take:
  assumes "sorted xs" and "k \<le> length xs" and "\<forall>j < k. xs ! j \<le> e" and "\<forall>j. k \<le> j \<longrightarrow> j < length xs \<longrightarrow> e < xs ! j"
  shows "filter (\<lambda>s. s \<le> e) xs = take k xs"
proof -
  have "filter (\<lambda>s. s \<le> e) (take k xs) = take k xs"
    using assms(2,3) by (intro filter_True) (auto simp: in_set_conv_nth)
  moreover have "filter (\<lambda>s. s \<le> e) (drop k xs) = []"
  proof -
    have "e < xs ! (k + i)" if "i < length xs - k" for i using assms(4) that by simp
    then show ?thesis by (auto simp: filter_empty_conv in_set_conv_nth not_le)
  qed
  ultimately show ?thesis by (metis append_Nil2 append_take_drop_id filter_append)
qed

lemma compute_line_col_eq:
  assumes off: "off < length src"
  shows "compute_line_col (set_current_source fname src) off =
    (Suc (count_list (take off src) NL), Suc (length (takeWhile (\<lambda>b. b \<noteq> NL) (rev (take off src)))))"
proof -
  let ?s = "line_start_loop src"
  let ?k = "line_search ?s off 0 (length ?s)"
  have "?k \<le> length ?s \<and> (\<forall>j < ?k. ?s ! j \<le> off) \<and> (\<forall>j. ?k \<le> j \<longrightarrow> j < length ?s \<longrightarrow> off < ?s ! j)"
    by (rule line_search_result [OF sorted_line_starts]) auto
  then have kl: "?k \<le> length ?s" and tk: "take ?k ?s = starts_upto src off"
    using filter_le_take [OF sorted_line_starts] starts_below [OF off] by auto
  have k: "?k = Suc (count_list (take off src) NL)"
    using arg_cong [OF tk, of length] kl off starts_upto_count [of off src] by simp
  have "?s ! (?k - 1) = last (starts_upto src off)"
    using kl k by (simp add: tk [symmetric] take_Suc_conv_app_nth)
  then show ?thesis
    using starts_upto_last [of off src] off k line_start_loop_eq [of src]
    by (simp add: compute_line_col_def set_current_source_def Let_def)
qed

section \<open>Properties\<close>

text \<open>C40: The position reported for an offset inside the source is the true one: the line is one more than the
  number of newlines before the offset, the column one more than the distance to the last of them. The
  binary search over the table of line starts finds it for every source.\<close>

theorem line_and_column:
  assumes "offset < length src"
  shows "compute_line_col (set_current_source fname src) offset =
    (Suc (count_list (take offset src) NL), Suc (length (takeWhile (\<lambda>b. b \<noteq> NL) (rev (take offset src)))))"
  by (rule compute_line_col_eq [OF assms])

theorem line_and_column_witness:
  "compute_line_col (set_current_source ''f.js'' (''ab'' @ [NL] @ ''cde'')) 4 = (2, 2)"
  using line_and_column [of 4 "''ab'' @ [NL] @ ''cde''" "''f.js''"] by (simp add: take_Cons')

end
