(* ===== verification/JS_Value.thy ===== *)
theory JS_Value
  imports Prelude
begin

text \<open>
  The tagged value word of the JavaScript engine (\<open>src/value.rs\<close>) on a 64-bit target: an even word is
  a 31-bit-shifted integer, a word with low bits 001 is a pointer to an 8-byte aligned heap cell,
  a word with low bits 11 is one of the special values. The theory shows that the encodings are
  disjoint and that every decoder inverts its encoder.
\<close>

unbundle bit_operations_syntax

section \<open>Model\<close>

type_synonym js_value = u64
type_synonym i32 = "32 word"

definition PTR_MASK :: u64 where "PTR_MASK = 7"
definition TAG_INT :: u64 where "TAG_INT = 0"
definition TAG_PTR :: u64 where "TAG_PTR = 1"
definition TAG_SPECIAL :: u64 where "TAG_SPECIAL = 3"
definition TAG_SPECIAL_BITS :: nat where "TAG_SPECIAL_BITS = 5"

definition TAG_BOOL :: u64 where "TAG_BOOL = TAG_SPECIAL OR push_bit 2 0"
definition TAG_NULL :: u64 where "TAG_NULL = TAG_SPECIAL OR push_bit 2 1"
definition TAG_UNDEFINED :: u64 where "TAG_UNDEFINED = TAG_SPECIAL OR push_bit 2 2"
definition TAG_EXCEPTION :: u64 where "TAG_EXCEPTION = TAG_SPECIAL OR push_bit 2 3"
definition TAG_SHORT_FUNC :: u64 where "TAG_SHORT_FUNC = TAG_SPECIAL OR push_bit 2 4"
definition TAG_UNINITIALIZED :: u64 where "TAG_UNINITIALIZED = TAG_SPECIAL OR push_bit 2 5"
definition TAG_STRING_CHAR :: u64 where "TAG_STRING_CHAR = TAG_SPECIAL OR push_bit 2 6"
definition TAG_CATCH_OFFSET :: u64 where "TAG_CATCH_OFFSET = TAG_SPECIAL OR push_bit 2 7"

definition make_special :: "u64 \<Rightarrow> u64 \<Rightarrow> js_value" where
  "make_special tag v = tag OR push_bit TAG_SPECIAL_BITS v"

definition JS_NULL :: js_value where "JS_NULL = make_special TAG_NULL 0"
definition JS_UNDEFINED :: js_value where "JS_UNDEFINED = make_special TAG_UNDEFINED 0"
definition JS_UNINITIALIZED :: js_value where "JS_UNINITIALIZED = make_special TAG_UNINITIALIZED 0"
definition JS_FALSE :: js_value where "JS_FALSE = make_special TAG_BOOL 0"
definition JS_TRUE :: js_value where "JS_TRUE = make_special TAG_BOOL 1"
definition JS_EXCEPTION :: js_value where "JS_EXCEPTION = make_special TAG_EXCEPTION 0"

definition from_int32 :: "i32 \<Rightarrow> js_value" where
  "from_int32 v = push_bit 1 (scast v) OR TAG_INT"

definition is_int :: "js_value \<Rightarrow> bool" where
  "is_int w \<longleftrightarrow> w AND 1 = TAG_INT"

text \<open>An arithmetic shift of the word, then truncation to 32 bits.\<close>

definition int32 :: "js_value \<Rightarrow> i32 option" where
  "int32 w = (if is_int w then Some (ucast (signed_drop_bit 1 w)) else None)"

definition is_ptr :: "js_value \<Rightarrow> bool" where
  "is_ptr w \<longleftrightarrow> w AND PTR_MASK = TAG_PTR"

definition special_value :: "js_value \<Rightarrow> u64" where
  "special_value w = drop_bit TAG_SPECIAL_BITS w"

definition special_tag :: "js_value \<Rightarrow> u64" where
  "special_tag w = w AND (push_bit TAG_SPECIAL_BITS 1 - 1)"

definition is_bool :: "js_value \<Rightarrow> bool" where
  "is_bool w \<longleftrightarrow> special_tag w = TAG_BOOL"

definition is_null :: "js_value \<Rightarrow> bool" where
  "is_null w \<longleftrightarrow> w = JS_NULL"

definition is_undefined :: "js_value \<Rightarrow> bool" where
  "is_undefined w \<longleftrightarrow> w = JS_UNDEFINED"

definition is_uninitialized :: "js_value \<Rightarrow> bool" where
  "is_uninitialized w \<longleftrightarrow> w = JS_UNINITIALIZED"

definition is_exception :: "js_value \<Rightarrow> bool" where
  "is_exception w \<longleftrightarrow> w = JS_EXCEPTION"

definition is_number :: "js_value \<Rightarrow> bool" where
  "is_number w \<longleftrightarrow> is_int w"

definition from_ptr :: "u64 \<Rightarrow> js_value" where
  "from_ptr p = p OR TAG_PTR"

definition as_ptr :: "js_value \<Rightarrow> u64" where
  "as_ptr w = w AND NOT PTR_MASK"

definition new_bool :: "bool \<Rightarrow> js_value" where
  "new_bool b = (if b then JS_TRUE else JS_FALSE)"

section \<open>Tags\<close>

lemmas tag_defs = PTR_MASK_def TAG_INT_def TAG_PTR_def TAG_SPECIAL_def TAG_SPECIAL_BITS_def TAG_BOOL_def
  TAG_NULL_def TAG_UNDEFINED_def TAG_EXCEPTION_def TAG_SHORT_FUNC_def TAG_UNINITIALIZED_def
  TAG_STRING_CHAR_def TAG_CATCH_OFFSET_def

lemma special_consts:
  "JS_NULL = 7" "JS_UNDEFINED = 11" "JS_UNINITIALIZED = 23" "JS_FALSE = 3" "JS_TRUE = 35" "JS_EXCEPTION = 15"
  by (simp_all add: JS_NULL_def JS_UNDEFINED_def JS_UNINITIALIZED_def JS_FALSE_def JS_TRUE_def
      JS_EXCEPTION_def make_special_def tag_defs push_bit_eq_mult)

lemma is_int_iff: "is_int w \<longleftrightarrow> \<not> bit w 0"
  by (simp add: is_int_def TAG_INT_def and_one_eq bit_0 even_iff_mod_2_eq_zero [symmetric])

lemma is_ptr_iff: "is_ptr w \<longleftrightarrow> w mod 8 = 1"
proof -
  have "w AND 7 = take_bit 3 w" by (simp add: take_bit_eq_mask mask_eq_exp_minus_1)
  then show ?thesis by (simp add: is_ptr_def PTR_MASK_def TAG_PTR_def take_bit_eq_mod)
qed


lemma int32_from_int32: "int32 (from_int32 v) = Some v"
proof -
  have d: "bit (x * 2 :: u64) (Suc n) \<longleftrightarrow> Suc n < 64 \<and> bit x n" for x n
    using bit_double_iff [of x "Suc n"] by (auto simp: mult.commute)
  have "ucast (signed_drop_bit 1 (push_bit 1 (scast v :: u64))) = v"
    by (rule bit_word_eqI) (auto simp: bit_ucast_iff bit_signed_drop_bit_iff bit_word_scast_iff min_def d)
  then show ?thesis by (simp add: int32_def from_int32_def is_int_iff TAG_INT_def bit_0)
qed

lemma ptr_roundtrip:
  assumes "p AND 7 = 0"
  shows "is_ptr (from_ptr p)" and "as_ptr (from_ptr p) = p"
proof -
  have m7: "(7 :: u64) = mask 3" by (simp add: mask_eq_exp_minus_1)
  have b: "\<not> bit p n" if "n < 3" for n
  proof -
    have "bit (p AND 7) n \<longleftrightarrow> bit p n \<and> bit (mask 3 :: u64) n" unfolding m7 by (simp add: bit_and_iff)
    with that assms show ?thesis by (simp add: bit_mask_iff)
  qed
  show "as_ptr (from_ptr p) = p"
    unfolding as_ptr_def from_ptr_def PTR_MASK_def TAG_PTR_def m7
    by (rule bit_word_eqI) (use b in \<open>auto simp: bit_and_iff bit_or_iff bit_not_iff bit_mask_iff bit_1_iff\<close>)
  show "is_ptr (from_ptr p)"
    using assms by (simp add: is_ptr_def from_ptr_def PTR_MASK_def TAG_PTR_def bit.conj_disj_distrib2)
qed

lemma special_roundtrip:
  assumes "tag < 32" and "v < 2 ^ 59"
  shows "special_tag (make_special tag v) = tag" and "special_value (make_special tag v) = v"
proof -
  have small: "take_bit n w = w" if "unat w < 2 ^ n" for n and w :: u64
  proof -
    have "unat (take_bit n w) = unat w" using that by (simp add: unsigned_take_bit_eq take_bit_nat_eq_self)
    then show ?thesis by (simp only: word_unat_eq_iff)
  qed
  have t: "take_bit 5 tag = tag" using assms(1) by (intro small) (simp add: word_less_nat_alt)
  have v: "take_bit 59 v = v" using assms(2) by (intro small) (simp add: word_less_nat_alt)
  have m: "(31 :: u64) = mask 5" by (simp add: mask_eq_exp_minus_1)
  have vb: "n < 59" if "bit v n" for n
    using that by (subst (asm) v [symmetric]) (simp add: bit_take_bit_iff)
  have tb: "n < 5" if "bit tag n" for n
    using that by (subst (asm) t [symmetric]) (simp add: bit_take_bit_iff)
  show "special_tag (make_special tag v) = tag"
    by (rule bit_word_eqI)
      (use tb in \<open>auto simp: special_tag_def make_special_def tag_defs m bit_and_iff bit_or_iff bit_mask_iff bit_push_bit_iff\<close>)
  show "special_value (make_special tag v) = v"
    by (rule bit_word_eqI)
      (use tb [of "_ + 5"] vb in \<open>auto simp: special_value_def make_special_def tag_defs bit_drop_bit_eq bit_or_iff bit_push_bit_iff dest!: tb\<close>)
qed

lemma is_int_excludes:
  assumes "is_int w"
  shows "\<not> is_ptr w" "\<not> is_bool w" "\<not> is_null w" "\<not> is_undefined w" "\<not> is_uninitialized w" "\<not> is_exception w"
proof -
  have e: "\<not> bit w 0" using assms by (simp add: is_int_iff)
  show "\<not> is_ptr w"
  proof
    assume "is_ptr w"
    then have "bit (w AND PTR_MASK) 0" by (simp add: is_ptr_def TAG_PTR_def)
    with e show False by (simp add: bit_and_iff)
  qed
  show "\<not> is_bool w"
  proof
    assume "is_bool w"
    then have "bit (special_tag w) 0" by (simp add: is_bool_def tag_defs)
    with e show False by (simp add: special_tag_def bit_and_iff)
  qed
qed (use assms in \<open>auto simp: is_int_iff is_null_def is_undefined_def is_uninitialized_def is_exception_def
    special_consts\<close>)

lemma is_ptr_excludes:
  assumes "is_ptr w"
  shows "\<not> is_int w" "\<not> is_bool w" "\<not> is_null w" "\<not> is_undefined w" "\<not> is_uninitialized w" "\<not> is_exception w"
proof -
  have e: "\<not> bit w 1"
  proof
    assume "bit w 1"
    then have "bit (w AND PTR_MASK) 1" by (simp add: bit_and_iff PTR_MASK_def)
    with assms show False by (simp add: is_ptr_def TAG_PTR_def)
  qed
  show "\<not> is_int w" using assms is_int_excludes(1) by blast
  show "\<not> is_bool w"
  proof
    assume "is_bool w"
    then have "bit (special_tag w) 1" by (simp add: is_bool_def tag_defs)
    with e show False by (simp add: special_tag_def bit_and_iff)
  qed
qed (use assms in \<open>auto simp: is_ptr_def is_null_def is_undefined_def is_uninitialized_def is_exception_def
    special_consts PTR_MASK_def TAG_PTR_def\<close>)

section \<open>Properties\<close>

text \<open>The kinds of values are told apart: of the seven kind tests at most one holds of any word, so no
  pattern of bits is both, say, an integer and a pointer.\<close>

theorem value_kinds_exclusive:
  "length (filter (\<lambda>P. P w) [is_int, is_ptr, is_bool, is_null, is_undefined, is_uninitialized, is_exception]) \<le> 1"
proof -
  have "\<not> is_bool JS_NULL" "\<not> is_bool JS_UNDEFINED" "\<not> is_bool JS_UNINITIALIZED" "\<not> is_bool JS_EXCEPTION"
    by (simp_all add: is_bool_def special_consts special_tag_def TAG_SPECIAL_BITS_def TAG_BOOL_def TAG_SPECIAL_def
        take_bit_eq_mask mask_numeral)
  then have "\<not> is_int w \<Longrightarrow> \<not> is_ptr w \<Longrightarrow> ?thesis"
    by (auto simp: is_null_def is_undefined_def is_uninitialized_def is_exception_def special_consts)
  then show ?thesis using is_int_excludes [of w] is_ptr_excludes [of w] by auto
qed

text \<open>Every payload survives its encoding: a 32-bit integer, an 8-byte aligned address, a boolean and the
  tag and payload of a special value are read back as they were put in.\<close>

theorem value_roundtrips:
  assumes "p AND 7 = 0" and "tag < 32" and "v < 2 ^ 59"
  shows "is_int (from_int32 n) \<and> int32 (from_int32 n) = Some n \<and> is_ptr (from_ptr p) \<and> as_ptr (from_ptr p) = p \<and>
    special_tag (make_special tag v) = tag \<and> special_value (make_special tag v) = v \<and>
    is_bool (new_bool b) \<and> (new_bool b = JS_TRUE \<longleftrightarrow> b)"
proof -
  have "is_int (from_int32 n)" using int32_from_int32 [of n] by (auto simp: int32_def split: if_splits)
  moreover have "is_bool (new_bool b) \<and> (new_bool b = JS_TRUE \<longleftrightarrow> b)"
    by (cases b) (simp_all add: new_bool_def is_bool_def special_consts special_tag_def TAG_SPECIAL_BITS_def TAG_BOOL_def TAG_SPECIAL_def)
  ultimately show ?thesis using int32_from_int32 [of n] ptr_roundtrip [OF assms(1)] special_roundtrip [OF assms(2,3)] by simp
qed

theorem value_roundtrips_witness: "as_ptr (from_ptr 0x1000) = 0x1000"
  using value_roundtrips [of "0x1000" 3 1 0 True] by simp

end
