(* ===== verification/JS_Memory.thy ===== *)
theory JS_Memory
  imports JS_Value
begin

text \<open>
  The bump allocator of the JavaScript engine (\<open>MemoryRegion\<close> in \<open>src/context.rs\<close>) on 64-bit words. It
  hands out blocks of one buffer in ascending order and never frees. The theory shows that blocks
  lie inside the buffer, are aligned relative to its start, and never overlap.
\<close>

section \<open>Model\<close>

record mem_region =
  m_start :: u64
  m_size :: u64
  m_offset :: u64

definition region_new :: "u64 \<Rightarrow> u64 \<Rightarrow> mem_region" where
  "region_new start len = \<lparr>m_start = start, m_size = len, m_offset = 0\<rparr>"

definition align_up :: "u64 \<Rightarrow> u64 \<Rightarrow> u64" where
  "align_up v a = (if a = 0 then v else (v + a - 1) AND NOT (a - 1))"

definition checked_add :: "u64 \<Rightarrow> u64 \<Rightarrow> u64 option" where
  "checked_add a b = (if unat a + unat b < 2 ^ 64 then Some (a + b) else None)"

definition mem_alloc :: "u64 \<Rightarrow> u64 \<Rightarrow> mem_region \<Rightarrow> (u64 \<times> mem_region) option" where
  "mem_alloc sz a m =
     (let aligned = align_up (m_offset m) a
      in case checked_add aligned sz of
           None \<Rightarrow> None
         | Some new_offset \<Rightarrow>
             if new_offset > m_size m then None
             else Some (m_start m + aligned, m\<lparr>m_offset := new_offset\<rparr>))"

definition mem_used :: "mem_region \<Rightarrow> u64 \<times> u64" where
  "mem_used m = (m_offset m, m_size m)"

text \<open>A buffer of the language: at most \<open>isize::MAX\<close> bytes, not wrapping around the address space.\<close>

definition region_ok :: "mem_region \<Rightarrow> bool" where
  "region_ok m \<longleftrightarrow> m_offset m \<le> m_size m \<and> unat (m_size m) < 2 ^ 63 \<and>
     unat (m_start m) + unat (m_size m) < 2 ^ 64"

section \<open>Rounding up to a power of two\<close>

lemma and_not_mask: "x AND NOT (mask k) = x - take_bit k x" for x :: u64
proof -
  have "x AND NOT (mask k) = push_bit k (drop_bit k x)"
    by (rule bit_word_eqI) (auto simp: bit_and_iff bit_not_iff bit_mask_iff bit_push_bit_iff bit_drop_bit_eq)
  then show ?thesis using bits_ident [of k x] by (simp add: eq_diff_eq)
qed

lemma unat_and_not_mask: "unat (x AND NOT (mask k)) = unat x - unat x mod 2 ^ k" for x :: u64
proof -
  have t: "unat (take_bit k x) = unat x mod 2 ^ k"
    by (simp only: unsigned_take_bit_eq) (simp only: take_bit_eq_mod)
  then have "take_bit k x \<le> x" by (simp add: word_le_nat_alt)
  then show ?thesis by (simp add: and_not_mask unat_sub t)
qed

lemma unat_2p: "k < 64 \<Longrightarrow> unat (2 ^ k :: u64) = 2 ^ k"
proof -
  assume k: "k < 64"
  have "(2 ^ k :: u64) = of_nat (2 ^ k)" by simp
  then have "unat (2 ^ k :: u64) = take_bit 64 (2 ^ k :: nat)" by (simp only: unsigned_of_nat) simp
  also have "\<dots> = 2 ^ k" using k by (simp add: take_bit_nat_eq_self)
  finally show ?thesis .
qed

lemma align_up_spec:
  assumes a: "a = 2 ^ k" "k < 64" and v: "unat v + unat a \<le> 2 ^ 64"
  shows "v \<le> align_up v a" and "unat (align_up v a) < unat v + unat a" and "unat a dvd unat (align_up v a)"
proof -
  have ua: "unat a = 2 ^ k" using a by (simp add: unat_2p)
  have a0: "a \<noteq> 0" using ua by (metis power_not_zero unsigned_0 zero_neq_numeral)
  have m: "a - 1 = mask k" using a by (simp add: mask_eq_exp_minus_1)
  define x where "x = v + a - 1"
  have "unat (v + (a - 1)) = unat v + (unat a - 1)"
    using v ua a0 by (subst unat_add_lem [THEN iffD1]) (auto simp: unat_sub word_le_nat_alt unat_minus_one)
  then have x: "unat x = unat v + 2 ^ k - 1" by (simp add: x_def ua add_diff_eq)
  have al: "unat (align_up v a) = unat x - unat x mod 2 ^ k"
    using a0 unat_and_not_mask [of x k] by (simp add: align_up_def m x_def)
  have md: "unat x mod 2 ^ k < 2 ^ k" by simp
  show "v \<le> align_up v a" unfolding word_le_nat_alt al using md x by linarith
  show "unat (align_up v a) < unat v + unat a" unfolding al x ua by (simp add: less_imp_diff_less)
  show "unat a dvd unat (align_up v a)" unfolding al ua by (simp add: dvd_minus_mod)
qed

section \<open>Allocation\<close>

lemma checked_add_Some: "checked_add a b = Some c \<Longrightarrow> unat c = unat a + unat b"
  by (auto simp: checked_add_def unat_word_ariths split: if_splits)

text \<open>A successful allocation: the block starts at or after the old offset, ends at the new one, and
  the new offset stays inside the buffer.\<close>

lemma mem_alloc_block:
  assumes m: "region_ok m" and a: "a = 2 ^ k" "k < 63" and al: "mem_alloc sz a m = Some (p, m')"
  shows "region_ok m'" and "m_start m' = m_start m" and "m_size m' = m_size m"
    and "unat (m_start m) + unat (m_offset m) \<le> unat p"
    and "unat p + unat sz = unat (m_start m) + unat (m_offset m')"
    and "2 ^ k dvd unat p - unat (m_start m)"
proof -
  let ?al = "align_up (m_offset m) a"
  have ua: "unat a = 2 ^ k" using a by (simp add: unat_2p)
  have "(2 :: nat) ^ k \<le> 2 ^ 62" using a(2) by (intro power_increasing) auto
  then have bound: "unat (m_offset m) + unat a \<le> 2 ^ 64"
    using m by (simp add: ua region_ok_def word_le_nat_alt)
  have "k < 64" using a(2) by simp
  note sp = align_up_spec [OF a(1) this bound]
  obtain c where c: "checked_add ?al sz = Some c" "\<not> c > m_size m" "p = m_start m + ?al" "m' = m\<lparr>m_offset := c\<rparr>"
    using al by (auto simp: mem_alloc_def Let_def split: option.splits if_splits)
  have uc: "unat c = unat ?al + unat sz" by (rule checked_add_Some [OF c(1)])
  have le: "unat c \<le> unat (m_size m)" using c(2) by (simp add: word_le_nat_alt not_less)
  have p: "unat p = unat (m_start m) + unat ?al"
    using m le uc unfolding c(3) region_ok_def by (subst unat_add_lem [THEN iffD1]) auto
  show "region_ok m'" using m c(2,4) by (auto simp: region_ok_def)
  show "m_start m' = m_start m" "m_size m' = m_size m" by (simp_all add: c(4))
  show "unat (m_start m) + unat (m_offset m) \<le> unat p" using sp(1) by (simp add: p word_le_nat_alt)
  show "unat p + unat sz = unat (m_start m) + unat (m_offset m')" by (simp add: p c(4) uc)
  show "2 ^ k dvd unat p - unat (m_start m)" using sp(3) by (simp add: p ua)
qed

text \<open>A sequence of requests; each either yields a block or is refused and changes nothing.\<close>

fun alloc_all :: "(u64 \<times> u64) list \<Rightarrow> mem_region \<Rightarrow> (u64 \<times> u64) list \<times> mem_region" where
  "alloc_all [] m = ([], m)"
| "alloc_all ((sz, a) # reqs) m =
     (case mem_alloc sz a m of
        None \<Rightarrow> alloc_all reqs m
      | Some (p, m) \<Rightarrow> (case alloc_all reqs m of (bs, m) \<Rightarrow> ((p, sz) # bs, m)))"

definition block_set :: "u64 \<times> u64 \<Rightarrow> nat set" where
  "block_set b = {unat (fst b)..<unat (fst b) + unat (snd b)}"

definition power_of_two :: "u64 \<Rightarrow> bool" where
  "power_of_two a \<longleftrightarrow> (\<exists>k < 63. a = 2 ^ k)"

lemma alloc_all_blocks:
  assumes "region_ok m" and "\<forall>(sz, a) \<in> set reqs. power_of_two a"
  shows "region_ok (snd (alloc_all reqs m)) \<and> m_start (snd (alloc_all reqs m)) = m_start m \<and>
    m_size (snd (alloc_all reqs m)) = m_size m \<and>
    (\<forall>b \<in> set (fst (alloc_all reqs m)).
       block_set b \<subseteq> {unat (m_start m) + unat (m_offset m)..<unat (m_start m) + unat (m_size m)}) \<and>
    (sorted_wrt (\<lambda>b c. block_set b \<inter> block_set c = {}) (fst (alloc_all reqs m)))"
  using assms
proof (induction reqs arbitrary: m)
  case (Cons r reqs)
  obtain sz a where r: "r = (sz, a)" by (cases r)
  obtain k where k: "a = 2 ^ k" "k < 63" using Cons.prems(2) r by (auto simp: power_of_two_def)
  have rest: "\<forall>(sz, a) \<in> set reqs. power_of_two a" using Cons.prems(2) by simp
  show ?case
  proof (cases "mem_alloc sz a m")
    case None
    with Cons.IH [OF Cons.prems(1) rest] r show ?thesis by simp
  next
    case (Some pm)
    obtain p m' where pm: "mem_alloc sz a m = Some (p, m')" using Some by (cases pm) auto
    note b = mem_alloc_block [OF Cons.prems(1) k pm]
    note ih = Cons.IH [OF b(1) rest]
    obtain bs m'' where bs: "alloc_all reqs m' = (bs, m'')" by (cases "alloc_all reqs m'")
    have off: "unat (m_offset m') \<le> unat (m_size m)" using b(1,3) by (simp add: region_ok_def word_le_nat_alt)
    have mono: "unat (m_offset m) \<le> unat (m_offset m')" using b(4,5) by linarith
    have first: "block_set (p, sz) = {unat p..<unat (m_start m) + unat (m_offset m')}"
      using b(5) by (simp add: block_set_def)
    have later: "block_set c \<subseteq> {unat (m_start m) + unat (m_offset m')..<unat (m_start m) + unat (m_size m)}"
      if "c \<in> set bs" for c
      using ih that b(2,3) bs by simp
    have "block_set (p, sz) \<inter> block_set c = {}" if "c \<in> set bs" for c
      using first later [OF that] by auto
    moreover have "block_set c \<subseteq> {unat (m_start m) + unat (m_offset m)..<unat (m_start m) + unat (m_size m)}"
      if "c \<in> set ((p, sz) # bs)" for c
      using that first later [of c] b(4,5) off mono by (fastforce simp: subset_iff)
    ultimately show ?thesis using ih bs b(2,3) by (simp add: r pm)
  qed
qed simp

text \<open>Evaluation of requests on concrete regions.\<close>

lemmas mem_eval = mem_alloc_def checked_add_def align_up_def region_new_def Let_def

section \<open>Properties\<close>

text \<open>C27: The bump allocator never hands out the same byte twice: whatever requests with power-of-two alignment
  are made, the blocks lie inside the region and are pairwise disjoint; a request that does not fit is
  refused and changes nothing.\<close>

theorem allocator_blocks_disjoint:
  assumes "unat start + unat len < 2 ^ 64" and "unat len < 2 ^ 63" and "\<forall>(sz, a) \<in> set reqs. power_of_two a"
  shows "sorted_wrt (\<lambda>b c. block_set b \<inter> block_set c = {}) (fst (alloc_all reqs (region_new start len))) \<and>
    (\<forall>b \<in> set (fst (alloc_all reqs (region_new start len))). block_set b \<subseteq> {unat start..<unat start + unat len})"
  using alloc_all_blocks [of "region_new start len" reqs] assms by (simp add: region_ok_def region_new_def)

theorem allocator_blocks_disjoint_witness:
  "sorted_wrt (\<lambda>b c. block_set b \<inter> block_set c = {}) (fst (alloc_all [(24, 8), (5, 8)] (region_new 4096 64)))"
proof -
  have "power_of_two 8" unfolding power_of_two_def by (intro exI [of _ 3]) simp
  then show ?thesis using allocator_blocks_disjoint [of 4096 64 "[(24, 8), (5, 8)]"] by simp
qed

end
