(* ===== verification/JS_Props.thy ===== *)
theory JS_Props
  imports JS_Memory
begin

text \<open>
  The property store of one JavaScript object (\<open>find_prop_value\<close>, \<open>set_prop_value\<close>,
  \<open>delete_prop_value\<close>, \<open>alloc_property\<close> of \<open>src/context.rs\<close>): a linked list in insertion order, and
  an overflow hash map that answers lookups once the object has more than eight properties. The
  linked list is a list; the node of a new property is taken from the bump allocator.

  As long as no deletion brings an object back to eight properties, the store is a map; the
  deletion that does leaves a map behind that is no longer maintained.
\<close>

section \<open>Model\<close>

definition PROP_KEY_ATOM :: u32 where "PROP_KEY_ATOM = 0"
definition PROP_KEY_INDEX :: u32 where "PROP_KEY_INDEX = 1"
definition PROP_MAP_THRESHOLD :: nat where "PROP_MAP_THRESHOLD = 8"

definition prop_map_key :: "u32 \<Rightarrow> u32 \<Rightarrow> u64" where
  "prop_map_key kind key = push_bit 32 (ucast kind) OR ucast key"

type_synonym prop_key = "u32 \<times> u32"

record prop_store =
  prop_list :: "(prop_key \<times> js_value) list"
  prop_count :: nat
  prop_map :: "(u64, js_value) hashmap option"

definition props_empty :: prop_store where
  "props_empty = \<lparr>prop_list = [], prop_count = 0, prop_map = None\<rparr>"

fun prop_scan :: "prop_key \<Rightarrow> (prop_key \<times> js_value) list \<Rightarrow> js_value option" where
  "prop_scan k [] = None"
| "prop_scan k ((k', v) # ps) = (if k' = k then Some v else prop_scan k ps)"

fun prop_overwrite :: "prop_key \<Rightarrow> js_value \<Rightarrow> (prop_key \<times> js_value) list \<Rightarrow> (prop_key \<times> js_value) list option" where
  "prop_overwrite k v [] = None"
| "prop_overwrite k v ((k', v') # ps) =
     (if k' = k then Some ((k', v) # ps) else map_option (\<lambda>ps'. (k', v') # ps') (prop_overwrite k v ps))"

fun prop_unlink :: "prop_key \<Rightarrow> (prop_key \<times> js_value) list \<Rightarrow> (prop_key \<times> js_value) list option" where
  "prop_unlink k [] = None"
| "prop_unlink k ((k', v') # ps) =
     (if k' = k then Some ps else map_option (\<lambda>ps'. (k', v') # ps') (prop_unlink k ps))"

definition find_prop_value :: "prop_key \<Rightarrow> prop_store \<Rightarrow> js_value option" where
  "find_prop_value k st =
     (case (if prop_count st > PROP_MAP_THRESHOLD then prop_map st else None) of
        Some m \<Rightarrow> hm_get m (prop_map_key (fst k) (snd k))
      | None \<Rightarrow> prop_scan k (prop_list st))"

text \<open>\<open>u32::saturating_add\<close> on the property count; a property node has 24 bytes.\<close>

definition count_up :: "nat \<Rightarrow> nat" where
  "count_up n = min (n + 1) (2 ^ 32 - 1)"

definition alloc_property :: "mem_region \<Rightarrow> mem_region option" where
  "alloc_property mem = map_option snd (mem_alloc 24 8 mem)"

definition build_map :: "(prop_key \<times> js_value) list \<Rightarrow> (u64, js_value) hashmap" where
  "build_map ps = fold (\<lambda>(k, v). hm_put (prop_map_key (fst k) (snd k)) v) ps []"

definition set_prop_value ::
  "prop_key \<Rightarrow> js_value \<Rightarrow> prop_store \<Rightarrow> mem_region \<Rightarrow> prop_store \<times> mem_region \<times> bool" where
  "set_prop_value k v st mem =
     (let mk = prop_map_key (fst k) (snd k)
      in case (if prop_count st > PROP_MAP_THRESHOLD then prop_map st else None) of
           Some m \<Rightarrow>
             (case hm_get m mk of
                Some _ \<Rightarrow>
                  (st\<lparr>prop_map := Some (hm_put mk v m),
                      prop_list := (case prop_overwrite k v (prop_list st) of Some ps \<Rightarrow> ps | None \<Rightarrow> prop_list st)\<rparr>,
                   mem, True)
              | None \<Rightarrow>
                  (let st = st\<lparr>prop_map := Some (hm_put mk v m)\<rparr>
                   in case alloc_property mem of
                        None \<Rightarrow> (st, mem, False)
                      | Some mem \<Rightarrow>
                          (st\<lparr>prop_list := prop_list st @ [(k, v)], prop_count := count_up (prop_count st)\<rparr>, mem, True)))
         | None \<Rightarrow>
             (case prop_overwrite k v (prop_list st) of
                Some ps \<Rightarrow> (st\<lparr>prop_list := ps\<rparr>, mem, True)
              | None \<Rightarrow>
                  (case alloc_property mem of
                     None \<Rightarrow> (st, mem, False)
                   | Some mem \<Rightarrow>
                       (let st = st\<lparr>prop_list := prop_list st @ [(k, v)], prop_count := count_up (prop_count st)\<rparr>
                        in (if prop_count st > PROP_MAP_THRESHOLD \<and> prop_map st = None
                            then st\<lparr>prop_map := Some (build_map (prop_list st))\<rparr> else st,
                            mem, True)))))"

definition delete_prop_value :: "prop_key \<Rightarrow> prop_store \<Rightarrow> prop_store \<times> bool" where
  "delete_prop_value k st =
     (let st = (case (if prop_count st > PROP_MAP_THRESHOLD then prop_map st else None) of
                  Some m \<Rightarrow> st\<lparr>prop_map := Some (hm_del (prop_map_key (fst k) (snd k)) m)\<rparr>
                | None \<Rightarrow> st)
      in case prop_unlink k (prop_list st) of
           Some ps \<Rightarrow> (st\<lparr>prop_list := ps, prop_count := prop_count st - 1\<rparr>, True)
         | None \<Rightarrow> (st, False))"

section \<open>The linked list\<close>

lemma prop_scan_eq: "prop_scan k ps = map_of ps k"
  by (induction ps) auto

lemma prop_overwrite_eq:
  "prop_overwrite k v ps = (if map_of ps k = None then None else Some (AList.update k v ps))"
  by (induction ps) auto

lemma prop_unlink_eq:
  "distinct (map fst ps) \<Longrightarrow> prop_unlink k ps = (if map_of ps k = None then None else Some (AList.delete k ps))"
proof (induction ps)
  case (Cons p ps)
  then show ?case by (cases p) (auto simp: delete_id)
qed simp

lemma prop_map_key_inj: "prop_map_key a b = prop_map_key c d \<longleftrightarrow> a = c \<and> b = d"
proof
  assume e: "prop_map_key a b = prop_map_key c d"
  have "bit a n = bit c n \<and> bit b n = bit d n" if "n < 32" for n
  proof -
    have "bit (prop_map_key a b) n = bit (prop_map_key c d) n"
      "bit (prop_map_key a b) (n + 32) = bit (prop_map_key c d) (n + 32)" using e by simp_all
    moreover have "\<not> bit (x :: u32) (n + 32)" for x using bit_imp_le_length [of x "n + 32"] by auto
    ultimately show ?thesis using that
      by (simp add: prop_map_key_def bit_or_iff bit_push_bit_iff bit_ucast_iff)
  qed
  then show "a = c \<and> b = d" by (auto intro: bit_word_eqI)
qed simp

section \<open>The store as a map\<close>

definition map_consistent :: "(prop_key \<times> js_value) list \<Rightarrow> (u64, js_value) hashmap \<Rightarrow> bool" where
  "map_consistent ps m \<longleftrightarrow> (\<forall>k. hm_get m (prop_map_key (fst k) (snd k)) = map_of ps k)"

definition props_ok :: "prop_store \<Rightarrow> bool" where
  "props_ok st \<longleftrightarrow> distinct (map fst (prop_list st)) \<and> prop_count st = length (prop_list st) \<and>
     (if prop_count st \<le> PROP_MAP_THRESHOLD then prop_map st = None
      else \<exists>m. prop_map st = Some m \<and> map_consistent (prop_list st) m)"

lemma map_consistent_put:
  "map_consistent ps m \<Longrightarrow> map_of ps' = (map_of ps)(k \<mapsto> v) \<Longrightarrow>
     map_consistent ps' (hm_put (prop_map_key (fst k) (snd k)) v m)"
  by (auto simp: map_consistent_def prop_map_key_inj)

lemma map_consistent_del:
  "map_consistent ps m \<Longrightarrow> map_of ps' = (map_of ps)(k := None) \<Longrightarrow>
     map_consistent ps' (hm_del (prop_map_key (fst k) (snd k)) m)"
  by (auto simp: map_consistent_def prop_map_key_inj)

lemma build_map_consistent: "distinct (map fst ps) \<Longrightarrow> map_consistent ps (build_map ps)"
proof -
  have "map_consistent (rev ps @ qs) (fold (\<lambda>(k, v). hm_put (prop_map_key (fst k) (snd k)) v) ps m)"
    if "map_consistent qs m" for qs m
    using that
  proof (induction ps arbitrary: qs m)
    case (Cons p ps)
    obtain k v where p: "p = (k, v)" by (cases p)
    have "map_consistent (p # qs) (hm_put (prop_map_key (fst k) (snd k)) v m)"
      by (rule map_consistent_put [OF Cons.prems]) (simp add: p)
    from Cons.IH [OF this] show ?case by (simp add: p)
  qed simp
  from this [of "[]" "[]"] have "map_consistent (rev ps) (build_map ps)"
    by (simp add: build_map_def map_consistent_def)
  moreover assume "distinct (map fst ps)"
  then have "map_of (rev ps) = map_of ps" by (simp add: map_of_inject_set rev_map [symmetric])
  ultimately show ?thesis by (simp add: map_consistent_def)
qed

lemma find_prop_value_eq:
  assumes "props_ok st"
  shows "find_prop_value k st = map_of (prop_list st) k"
  using assms by (auto simp: props_ok_def find_prop_value_def prop_scan_eq map_consistent_def split: if_splits)

lemma map_of_snoc: "map_of ps k = None \<Longrightarrow> map_of (ps @ [(k, v)]) = (map_of ps)(k \<mapsto> v)"
  by (auto simp: fun_eq_iff map_add_def split: option.splits)

lemma update_keys_same: "map_of ps k \<noteq> None \<Longrightarrow> map fst (AList.update k v ps) = map fst ps"
  by (induction ps) (auto split: if_splits)

lemma length_update_same: "map_of ps k \<noteq> None \<Longrightarrow> length (AList.update k v ps) = length ps"
  by (induction ps) (auto split: if_splits)

lemma delete_facts:
  assumes "distinct (map fst ps)" and "map_of ps k \<noteq> None"
  shows "distinct (map fst (AList.delete k ps))" and "length (AList.delete k ps) = length ps - 1"
    and "map_of (AList.delete k ps) = (map_of ps)(k := None)"
proof -
  show "distinct (map fst (AList.delete k ps))" using assms(1) by (rule distinct_delete)
  show "map_of (AList.delete k ps) = (map_of ps)(k := None)" by (rule delete_conv')
  show "length (AList.delete k ps) = length ps - 1"
    using assms
  proof (induction ps)
    case (Cons p ps)
    show ?case
    proof (cases "fst p = k")
      case True
      with Cons.prems show ?thesis by (cases p) (auto simp: delete_id)
    next
      case False
      with Cons have "map_of ps k \<noteq> None" "ps \<noteq> []" by (cases p; auto)+
      with False Cons show ?thesis by (cases p; cases ps) auto
    qed
  qed simp
qed

text \<open>Setting a property, when a new one gets its node. The order of the keys is the order of first
  insertion.\<close>

lemma set_prop_value_ok:
  assumes st: "props_ok st" and small: "prop_count st < 2 ^ 32 - 1"
    and room: "map_of (prop_list st) k = None \<Longrightarrow> alloc_property mem = Some mem'"
  obtains st' mem'' where "set_prop_value k v st mem = (st', mem'', True)" and "props_ok st'"
    and "map_of (prop_list st') = (map_of (prop_list st))(k \<mapsto> v)"
    and "map fst (prop_list st') =
      (if map_of (prop_list st) k = None then map fst (prop_list st) @ [k] else map fst (prop_list st))"
proof (cases "prop_count st \<le> PROP_MAP_THRESHOLD")
  case True
  then have pm: "prop_map st = None" and d: "distinct (map fst (prop_list st))"
    and c: "prop_count st = length (prop_list st)" using st by (auto simp: props_ok_def)
  show thesis
  proof (cases "map_of (prop_list st) k = None")
    case new: True
    let ?ps = "prop_list st @ [(k, v)]"
    have d': "distinct (map fst ?ps)" using d new by (simp add: map_of_eq_None_iff)
    have cu: "count_up (prop_count st) = length ?ps" using small c by (simp add: count_up_def)
    show thesis
    proof (cases "PROP_MAP_THRESHOLD < length ?ps")
      case True
      show thesis
        by (rule that)
          (use \<open>prop_count st \<le> PROP_MAP_THRESHOLD\<close> True pm new room [OF new] d' cu map_of_snoc [OF new]
              build_map_consistent [OF d'] in
            \<open>auto simp: set_prop_value_def Let_def prop_overwrite_eq props_ok_def\<close>)
    next
      case False
      show thesis
        by (rule that)
          (use \<open>prop_count st \<le> PROP_MAP_THRESHOLD\<close> False pm new room [OF new] d' cu map_of_snoc [OF new] in
            \<open>auto simp: set_prop_value_def Let_def prop_overwrite_eq props_ok_def\<close>)
    qed
  next
    case old: False
    show thesis
      by (rule that)
        (use True pm old d c update_keys_same [OF old] length_update_same [OF old] in
          \<open>auto simp: set_prop_value_def Let_def prop_overwrite_eq props_ok_def update_conv'\<close>)
  qed
next
  case False
  then obtain m where m: "prop_map st = Some m" "map_consistent (prop_list st) m"
    and d: "distinct (map fst (prop_list st))" and c: "prop_count st = length (prop_list st)"
    using st by (auto simp: props_ok_def)
  have get: "hm_get m (prop_map_key (fst k) (snd k)) = map_of (prop_list st) k"
    using m(2) by (simp add: map_consistent_def)
  show thesis
  proof (cases "map_of (prop_list st) k = None")
    case new: True
    let ?ps = "prop_list st @ [(k, v)]"
    have d': "distinct (map fst ?ps)" using d new by (simp add: map_of_eq_None_iff)
    have cu: "count_up (prop_count st) = length ?ps" using small c by (simp add: count_up_def)
    show thesis
      by (rule that)
        (use False m new get room [OF new] d' cu c map_of_snoc [OF new]
            map_consistent_put [OF m(2) map_of_snoc [OF new]] in
          \<open>auto simp: set_prop_value_def Let_def props_ok_def\<close>)
  next
    case old: False
    have mu: "map_of (AList.update k v (prop_list st)) = (map_of (prop_list st))(k \<mapsto> v)" by (rule update_conv')
    show thesis
      by (rule that)
        (use False m old get d c mu map_consistent_put [OF m(2) mu] update_keys_same [OF old]
            length_update_same [OF old] in
          \<open>auto simp: set_prop_value_def Let_def prop_overwrite_eq props_ok_def\<close>)
  qed
qed

text \<open>Deleting a property, unless the object has exactly nine.\<close>

lemma delete_prop_value_ok:
  assumes st: "props_ok st" and nine: "prop_count st \<noteq> Suc PROP_MAP_THRESHOLD \<or> map_of (prop_list st) k = None"
  obtains st' where "delete_prop_value k st = (st', map_of (prop_list st) k \<noteq> None)" and "props_ok st'"
    and "map_of (prop_list st') = (map_of (prop_list st))(k := None)"
proof -
  have d: "distinct (map fst (prop_list st))" and c: "prop_count st = length (prop_list st)"
    using st by (auto simp: props_ok_def)
  note un = prop_unlink_eq [OF d, of k]
  show thesis
  proof (cases "prop_count st \<le> PROP_MAP_THRESHOLD")
    case True
    then have pm: "prop_map st = None" using st by (simp add: props_ok_def)
    show thesis
    proof (cases "map_of (prop_list st) k = None")
      case absent: True
      then show thesis
        using True pm un st by (intro that [of st]) (auto simp: delete_prop_value_def)
    next
      case False
      note df = delete_facts [OF d False]
      show thesis
        by (rule that) (use True pm un False df c in \<open>auto simp: delete_prop_value_def props_ok_def\<close>)
    qed
  next
    case big: False
    then obtain m where m: "prop_map st = Some m" "map_consistent (prop_list st) m"
      using st by (auto simp: props_ok_def)
    show thesis
    proof (cases "map_of (prop_list st) k = None")
      case absent: True
      then have same: "(map_of (prop_list st))(k := None) = map_of (prop_list st)" by (auto simp: fun_eq_iff)
      show thesis
        by (rule that [of "st\<lparr>prop_map := Some (hm_del (prop_map_key (fst k) (snd k)) m)\<rparr>"])
          (use big m un absent d c same map_consistent_del [OF m(2), of "prop_list st" k] in
            \<open>auto simp: delete_prop_value_def props_ok_def Let_def\<close>)
    next
      case False
      note df = delete_facts [OF d False]
      have "\<not> prop_count st - 1 \<le> PROP_MAP_THRESHOLD" using nine False big by auto
      then show thesis
        by (intro that) (use big m un False df c map_consistent_del [OF m(2) df(3)] in
            \<open>auto simp: delete_prop_value_def props_ok_def Let_def\<close>)
    qed
  qed
qed

text \<open>A run of assignments.\<close>

fun set_all :: "(prop_key \<times> js_value) list \<Rightarrow> prop_store \<Rightarrow> mem_region \<Rightarrow> prop_store \<times> mem_region \<times> bool" where
  "set_all [] st mem = (st, mem, True)"
| "set_all ((k, v) # kvs) st mem =
     (case set_prop_value k v st mem of
        (st, mem, True) \<Rightarrow> set_all kvs st mem
      | (st, mem, False) \<Rightarrow> (st, mem, False))"

lemma set_prop_value_True:
  assumes st: "props_ok st" and small: "prop_count st < 2 ^ 32 - 1"
    and r: "set_prop_value k v st mem = (st', mem', True)"
  shows "props_ok st'" and "map_of (prop_list st') = (map_of (prop_list st))(k \<mapsto> v)"
    and "prop_count st' \<le> Suc (prop_count st)"
proof -
  have room: "\<exists>mm. alloc_property mem = Some mm" if "map_of (prop_list st) k = None"
  proof (rule ccontr)
    assume "\<not> ?thesis"
    then have al: "alloc_property mem = None" by auto
    have "\<not> snd (snd (set_prop_value k v st mem))"
    proof (cases "prop_count st \<le> PROP_MAP_THRESHOLD")
      case True
      then show ?thesis using st that al by (auto simp: set_prop_value_def Let_def props_ok_def prop_overwrite_eq)
    next
      case False
      then obtain m where "prop_map st = Some m" "map_consistent (prop_list st) m"
        using st by (auto simp: props_ok_def)
      with False that al show ?thesis by (auto simp: set_prop_value_def Let_def map_consistent_def)
    qed
    with r show False by simp
  qed
  then have "map_of (prop_list st) k = None \<Longrightarrow> alloc_property mem = Some (the (alloc_property mem))"
    by fastforce
  note facts = set_prop_value_ok [OF st small this, where v = v]
  obtain st2 mem2 where s2: "set_prop_value k v st mem = (st2, mem2, True)" "props_ok st2"
    "map_of (prop_list st2) = (map_of (prop_list st))(k \<mapsto> v)"
    "map fst (prop_list st2) =
      (if map_of (prop_list st) k = None then map fst (prop_list st) @ [k] else map fst (prop_list st))"
    by (rule facts) blast+
  have "st2 = st'" using s2(1) r by simp
  then have f: "props_ok st'" "map_of (prop_list st') = (map_of (prop_list st))(k \<mapsto> v)"
    "map fst (prop_list st') =
      (if map_of (prop_list st) k = None then map fst (prop_list st) @ [k] else map fst (prop_list st))"
    using s2(2-4) by simp_all
  then show "props_ok st'" "map_of (prop_list st') = (map_of (prop_list st))(k \<mapsto> v)" by auto
  have "length (prop_list st') \<le> Suc (length (prop_list st))"
    using arg_cong [OF f(3), of length] by (auto split: if_splits)
  then show "prop_count st' \<le> Suc (prop_count st)" using f(1) st by (simp add: props_ok_def)
qed

lemma set_all_ok:
  assumes "props_ok st" and "prop_count st + length kvs < 2 ^ 32" and "set_all kvs st mem = (st', mem', True)"
  shows "props_ok st' \<and> map_of (prop_list st') = map_of (prop_list st) ++ map_of (rev kvs)"
  using assms
proof (induction kvs arbitrary: st mem)
  case (Cons kv kvs)
  obtain k v where kv: "kv = (k, v)" by (cases kv)
  obtain st1 mem1 b where s: "set_prop_value k v st mem = (st1, mem1, b)" by (cases "set_prop_value k v st mem")
  have b: b and rest: "set_all kvs st1 mem1 = (st', mem', True)"
    using Cons.prems(3) by (auto simp: kv s split: bool.splits)
  have small: "prop_count st < 2 ^ 32 - 1" using Cons.prems(2) by simp
  note sv = set_prop_value_True [OF Cons.prems(1) small s [unfolded b [THEN eqTrueI]]]
  have "props_ok st' \<and> map_of (prop_list st') = map_of (prop_list st1) ++ map_of (rev kvs)"
    by (rule Cons.IH [OF sv(1) _ rest]) (use sv(3) Cons.prems(2) in simp)
  then show ?case by (auto simp: sv(2) kv fun_eq_iff map_add_def split: option.splits)
qed simp

text \<open>A store with nine properties, one more than the threshold.\<close>

definition small_heap :: mem_region where
  "small_heap = region_new 4096 4096"

definition nine_keys :: "(prop_key \<times> js_value) list" where
  "nine_keys = map (\<lambda>i. ((0, i), 2 * ucast i)) [1, 2, 3, 4, 5, 6, 7, 8, 9]"

lemmas prop_eval = set_prop_value_def delete_prop_value_def find_prop_value_def alloc_property_def mem_eval
  props_empty_def count_up_def PROP_MAP_THRESHOLD_def build_map_def prop_map_key_inj hm_get_def hm_put_def hm_del_def

lemma set_nine_keys:
  "set_all nine_keys props_empty small_heap =
     (\<lparr>prop_list = nine_keys, prop_count = 9, prop_map = Some (build_map nine_keys)\<rparr>,
      small_heap\<lparr>m_offset := 216\<rparr>, True)"
  by (simp add: nine_keys_def small_heap_def prop_eval)

section \<open>Properties\<close>

text \<open>C23: An object's property store is a map, whatever the number of properties: after any sequence of
  successful writes to a new object the lookup of a key returns the value written last, or nothing for a
  key that was never written, below and above the switch from the list scan to the overflow map.\<close>

theorem property_writes_read_back:
  assumes "set_all kvs props_empty mem = (st, mem', True)" and "length kvs < 2 ^ 32"
  shows "find_prop_value k st = map_of (rev kvs) k"
proof -
  have e: "props_ok props_empty" by (simp add: props_ok_def props_empty_def)
  have "props_ok st \<and> map_of (prop_list st) = map_of (prop_list props_empty) ++ map_of (rev kvs)"
    by (rule set_all_ok [OF e _ assms(1)]) (use assms(2) in \<open>simp add: props_empty_def\<close>)
  then show ?thesis by (simp add: find_prop_value_eq props_empty_def)
qed

theorem property_writes_read_back_witness:
  "find_prop_value (0, 4) (fst (set_all nine_keys props_empty small_heap)) = Some 8"
  using property_writes_read_back [OF set_nine_keys, of "(0, 4)"]
  by (simp only: set_nine_keys fst_conv) (simp add: nine_keys_def)

text \<open>Deleting a property makes it unreadable and leaves the others, on a consistent store, except at the one
  point where the count drops from nine to eight with the overflow map left behind.\<close>

theorem property_delete:
  assumes "props_ok st" and "prop_count st \<noteq> Suc PROP_MAP_THRESHOLD"
    and "delete_prop_value k st = (st', ok)"
  shows "props_ok st' \<and> ok = (find_prop_value k st \<noteq> None) \<and>
    find_prop_value k' st' = (if k' = k then None else find_prop_value k' st)"
proof -
  obtain st2 where d: "delete_prop_value k st = (st2, map_of (prop_list st) k \<noteq> None)" "props_ok st2"
      "map_of (prop_list st2) = (map_of (prop_list st))(k := None)"
    using delete_prop_value_ok [OF assms(1)] assms(2) by blast
  then show ?thesis using assms by (simp add: find_prop_value_eq)
qed

theorem property_delete_witness:
  "find_prop_value (0, 1) (fst (delete_prop_value (0, 1) props_empty)) = None"
  using property_delete [of props_empty "(0, 1)" "fst (delete_prop_value (0, 1) props_empty)"
      "snd (delete_prop_value (0, 1) props_empty)" "(0, 1)"]
  by (simp add: props_ok_def props_empty_def PROP_MAP_THRESHOLD_def)

text \<open>The overflow map goes stale when the count drops from nine properties to eight and grows again: the
  property added then is written only to the list, while the lookup goes back to the old map, so a
  successful write is not readable.\<close>

theorem stale_overflow_map:
  "let (st, m, _) = set_all nine_keys props_empty small_heap;
       st = fst (delete_prop_value (0, 1) st);
       (st, m, ok) = set_prop_value (0, 77) 42 st m
   in ok \<and> find_prop_value (0, 77) st = None \<and> map_of (prop_list st) (0, 77) = Some 42"
  by (simp add: set_nine_keys nine_keys_def small_heap_def prop_eval)

end
