(* ===== verification/JS_Array.thy ===== *)
theory JS_Array
  imports JS_Memory
begin

text \<open>
  Arrays of the JavaScript engine (\<open>alloc_array\<close>, \<open>array_get\<close>, \<open>array_set\<close>, \<open>array_set_length\<close>,
  \<open>array_grow\<close>, \<open>array_push\<close>, \<open>array_pop\<close> of \<open>src/context.rs\<close>): a length, a capacity and a block of
  values from the bump allocator. Casts to \<open>u32\<close> are written out. The theory shows that the array is
  the list of its elements: writes past the end fill the gap with \<open>undefined\<close>, and growing keeps
  the elements.
\<close>

section \<open>Model\<close>

record js_array =
  array_len :: nat
  array_cap :: nat
  elements :: "js_value list option"

definition as_u32 :: "nat \<Rightarrow> nat" where
  "as_u32 n = n mod 2 ^ 32"

definition checked_mul8 :: "nat \<Rightarrow> u64 option" where
  "checked_mul8 n = (if n * 8 < 2 ^ 64 then Some (of_nat (n * 8)) else None)"

definition alloc_values :: "nat \<Rightarrow> mem_region \<Rightarrow> mem_region option" where
  "alloc_values n mem =
     (case checked_mul8 n of None \<Rightarrow> None | Some sz \<Rightarrow> map_option snd (mem_alloc sz 8 mem))"

definition alloc_array :: "nat \<Rightarrow> mem_region \<Rightarrow> (js_array \<times> mem_region) option" where
  "alloc_array initial_len mem =
     (if initial_len = 0 then Some (\<lparr>array_len = 0, array_cap = 0, elements = None\<rparr>, mem)
      else case alloc_values initial_len mem of
             None \<Rightarrow> None
           | Some mem \<Rightarrow>
               Some (\<lparr>array_len = as_u32 initial_len, array_cap = as_u32 initial_len,
                      elements = Some (replicate initial_len JS_UNDEFINED)\<rparr>, mem))"

definition array_grow :: "nat \<Rightarrow> js_array \<Rightarrow> mem_region \<Rightarrow> (js_array \<times> mem_region) option" where
  "array_grow needed a mem =
     (let current = array_cap a;
          new_cap = (if current = 0 then 4 else current * 2);
          new_cap = (if new_cap < needed then needed else new_cap)
      in case alloc_values new_cap mem of
           None \<Rightarrow> None
         | Some mem \<Rightarrow>
             (let fresh_elems = replicate new_cap JS_UNDEFINED;
                  new_elems =
                    (case elements a of
                       None \<Rightarrow> fresh_elems
                     | Some old \<Rightarrow> fold (\<lambda>i es. es[i := old ! i]) [0..<array_len a] fresh_elems)
              in Some (a\<lparr>elements := Some new_elems, array_cap := as_u32 new_cap\<rparr>, mem)))"

definition array_get :: "js_array \<Rightarrow> nat \<Rightarrow> js_value" where
  "array_get a idx =
     (if idx \<ge> array_len a then JS_UNDEFINED
      else case elements a of None \<Rightarrow> JS_UNDEFINED | Some es \<Rightarrow> es ! idx)"

definition array_set :: "nat \<Rightarrow> js_value \<Rightarrow> js_array \<Rightarrow> mem_region \<Rightarrow> js_array \<times> mem_region \<times> unit result" where
  "array_set idx v a mem =
     (let len = array_len a
      in if idx \<ge> len then
           let new_len = idx + 1
           in case (if new_len > array_cap a then array_grow new_len a mem else Some (a, mem)) of
                None \<Rightarrow> (a, mem, Err)
              | Some (a, mem) \<Rightarrow>
                  (case elements a of
                     None \<Rightarrow> (a, mem, Err)
                   | Some es \<Rightarrow>
                       (let es = fold (\<lambda>i es. es[i := JS_UNDEFINED]) [len..<idx] es
                        in (a\<lparr>elements := Some (es[idx := v]), array_len := as_u32 new_len\<rparr>, mem, Ok ())))
         else case elements a of
                None \<Rightarrow> (a, mem, Err)
              | Some es \<Rightarrow> (a\<lparr>elements := Some (es[idx := v])\<rparr>, mem, Ok ()))"

definition array_set_length :: "js_value \<Rightarrow> js_array \<Rightarrow> mem_region \<Rightarrow> js_array \<times> mem_region \<times> unit result" where
  "array_set_length v a mem =
     (case int32 v of
        None \<Rightarrow> (a, mem, Err)
      | Some n \<Rightarrow>
          if sint n < 0 then (a, mem, Err)
          else
            let new_len = nat (sint n); current = array_len a
            in if new_len > current then
                 case (if new_len > array_cap a then array_grow new_len a mem else Some (a, mem)) of
                   None \<Rightarrow> (a, mem, Err)
                 | Some (a, mem) \<Rightarrow>
                     (a\<lparr>elements := map_option (fold (\<lambda>i es. es[i := JS_UNDEFINED]) [current..<new_len]) (elements a),
                        array_len := as_u32 new_len\<rparr>, mem, Ok ())
               else
                 (a\<lparr>elements := map_option (fold (\<lambda>i es. es[i := JS_UNDEFINED]) [new_len..<current]) (elements a),
                    array_len := as_u32 new_len\<rparr>, mem, Ok ()))"

definition array_push :: "js_value \<Rightarrow> js_array \<Rightarrow> mem_region \<Rightarrow> js_array \<times> mem_region \<times> nat option" where
  "array_push v a mem =
     (case array_set (array_len a) v a mem of
        (a, mem, Ok _) \<Rightarrow> (a, mem, Some (array_len a))
      | (a, mem, Err) \<Rightarrow> (a, mem, None))"

definition array_pop :: "js_array \<Rightarrow> js_array \<times> js_value" where
  "array_pop a =
     (let len = array_len a
      in if len = 0 then (a, JS_UNDEFINED)
         else let idx = len - 1; v = array_get a idx in (a\<lparr>array_len := idx\<rparr>, v))"

section \<open>Arrays as lists\<close>

definition arr_ok :: "js_array \<Rightarrow> bool" where
  "arr_ok a \<longleftrightarrow> array_cap a < 2 ^ 32 \<and> array_len a \<le> array_cap a \<and>
     (case elements a of None \<Rightarrow> array_cap a = 0 | Some es \<Rightarrow> length es = array_cap a)"

definition arr_list :: "js_array \<Rightarrow> js_value list" where
  "arr_list a = take (array_len a) (case elements a of None \<Rightarrow> [] | Some es \<Rightarrow> es)"

text \<open>A region that cannot hold \<open>2 ^ 32\<close> values: then no length exceeds a \<open>u32\<close>.\<close>

definition region_small :: "mem_region \<Rightarrow> bool" where
  "region_small m \<longleftrightarrow> region_ok m \<and> unat (m_size m) < 2 ^ 35"

lemma fold_fill: "fold (\<lambda>i es. es[i := u]) [a..<b] es = map (\<lambda>j. if a \<le> j \<and> j < b then u else es ! j) [0..<length es]"
proof (induction b)
  case 0
  show ?case by (simp add: map_nth)
next
  case (Suc b)
  show ?case
  proof (cases "a \<le> b")
    case True
    then have "fold (\<lambda>i es. es[i := u]) [a..<Suc b] es = (fold (\<lambda>i es. es[i := u]) [a..<b] es)[b := u]" by simp
    moreover have "(map (\<lambda>j. if a \<le> j \<and> j < b then u else es ! j) [0..<length es])[b := u] =
        map (\<lambda>j. if a \<le> j \<and> j < Suc b then u else es ! j) [0..<length es]"
      using True by (intro nth_equalityI) (auto simp: nth_list_update less_Suc_eq)
    ultimately show ?thesis using Suc by simp
  next
    case False
    then show ?thesis by (simp add: map_nth) (rule nth_equalityI, auto)
  qed
qed

lemma fold_copy: "fold (\<lambda>i es. es[i := old ! i]) [0..<n] es =
    map (\<lambda>j. if j < n then old ! j else es ! j) [0..<length es]"
proof (induction n)
  case 0
  show ?case by (simp add: map_nth)
next
  case (Suc n)
  then show ?case by simp (rule nth_equalityI, auto simp: nth_list_update less_Suc_eq)
qed

lemma power_of_two_8: "power_of_two 8"
  unfolding power_of_two_def by (rule exI [of _ 3]) simp

lemma alloc_values_ok:
  assumes "region_small mem" and "alloc_values n mem = Some mem'"
  shows "region_small mem'" and "n < 2 ^ 32"
proof -
  obtain sz p where sz: "n * 8 < 2 ^ 64" "sz = of_nat (n * 8)" "mem_alloc sz 8 mem = Some (p, mem')"
    using assms(2) by (auto simp: alloc_values_def checked_mul8_def split: if_splits option.splits)
  have r: "region_ok mem" using assms(1) by (simp add: region_small_def)
  note b = mem_alloc_block [OF r _ _ sz(3), of 3]
  show "region_small mem'" using b(1,3) assms(1) by (simp add: region_small_def)
  have "unat sz = take_bit 64 (n * 8)" unfolding sz(2) by (simp only: unsigned_of_nat) simp
  then have "unat sz = n * 8" using sz(1) by (simp only: take_bit_nat_eq_self)
  moreover have "unat sz \<le> unat (m_offset mem')" using b(4,5) by simp
  moreover have "unat (m_offset mem') \<le> unat (m_size mem')" using b(1) by (simp add: region_ok_def word_le_nat_alt)
  ultimately show "n < 2 ^ 32" using b(3) assms(1) by (simp add: region_small_def)
qed

lemma array_grow_ok:
  assumes a: "arr_ok a" and mem: "region_small mem" and g: "array_grow needed a mem = Some (a', mem')"
  shows "arr_ok a'" and "region_small mem'" and "needed \<le> array_cap a'" and "array_len a' = array_len a"
    and "elements a' \<noteq> None" and "arr_list a' = arr_list a" and "needed < 2 ^ 32"
proof -
  define nc where "nc = (let c = (if array_cap a = 0 then 4 else array_cap a * 2) in if c < needed then needed else c)"
  obtain es where al: "alloc_values nc mem = Some mem'" and a': "a' = a\<lparr>elements := Some es, array_cap := as_u32 nc\<rparr>"
    and es: "es = (case elements a of None \<Rightarrow> replicate nc JS_UNDEFINED
      | Some old \<Rightarrow> fold (\<lambda>i es. es[i := old ! i]) [0..<array_len a] (replicate nc JS_UNDEFINED))"
    using g by (auto simp: array_grow_def nc_def Let_def split: option.splits)
  note av = alloc_values_ok [OF mem al]
  have cap: "as_u32 nc = nc" using av(2) by (simp add: as_u32_def)
  have big: "needed \<le> nc" "array_len a \<le> nc" using a by (auto simp: nc_def Let_def arr_ok_def)
  have len: "length es = nc" by (simp add: es fold_copy split: option.split)
  show "region_small mem'" by (rule av(1))
  show "arr_ok a'" using big len av(2) cap by (simp add: arr_ok_def a')
  show "needed \<le> array_cap a'" "array_len a' = array_len a" "elements a' \<noteq> None" "needed < 2 ^ 32"
    using big cap av(2) by (simp_all add: a')
  show "arr_list a' = arr_list a"
  proof (cases "elements a")
    case None
    then show ?thesis using a by (simp add: arr_list_def a' arr_ok_def)
  next
    case (Some old)
    then have "array_len a \<le> length old" using a by (simp add: arr_ok_def)
    then show ?thesis using Some big(2)
      by (simp add: arr_list_def a' es fold_copy) (rule nth_equalityI, auto)
  qed
qed

lemma array_get_eq:
  assumes "arr_ok a"
  shows "array_get a i = (if i < length (arr_list a) then arr_list a ! i else JS_UNDEFINED)"
  using assms by (auto simp: array_get_def arr_list_def arr_ok_def split: option.splits)

lemma length_arr_list: "arr_ok a \<Longrightarrow> length (arr_list a) = array_len a"
  by (auto simp: arr_list_def arr_ok_def split: option.splits)

text \<open>What a write does to the list.\<close>

definition list_write :: "nat \<Rightarrow> js_value \<Rightarrow> js_value list \<Rightarrow> js_value list" where
  "list_write i v xs = (if i < length xs then xs[i := v] else xs @ replicate (i - length xs) JS_UNDEFINED @ [v])"

definition list_resize :: "nat \<Rightarrow> js_value list \<Rightarrow> js_value list" where
  "list_resize n xs = take n xs @ replicate (n - length xs) JS_UNDEFINED"

text \<open>The room for a new length: the old array when the capacity is enough, a grown one otherwise.\<close>

lemma room_ok:
  assumes a: "arr_ok a" and mem: "region_small mem" and n: "array_len a < n"
    and r: "(if n > array_cap a then array_grow n a mem else Some (a, mem)) = Some (a', mem')"
  shows "arr_ok a'" and "region_small mem'" and "n \<le> array_cap a'" and "array_len a' = array_len a"
    and "arr_list a' = arr_list a" and "\<exists>es. elements a' = Some es \<and> length es = array_cap a'" and "n < 2 ^ 32"
proof -
  show ok: "arr_ok a'" and "region_small mem'" and cap: "n \<le> array_cap a'" and "array_len a' = array_len a"
    and "arr_list a' = arr_list a" and "n < 2 ^ 32"
    using r a mem array_grow_ok [OF a mem] by (auto simp: arr_ok_def split: if_splits)
  show "\<exists>es. elements a' = Some es \<and> length es = array_cap a'"
    using ok cap n by (cases "elements a'") (auto simp: arr_ok_def)
qed

lemma fill_take:
  assumes "len \<le> n" and "n \<le> length es"
  shows "take n (fold (\<lambda>i es. es[i := u]) [len..<n] es) = take len es @ replicate (n - len) u"
  using assms by (intro nth_equalityI) (auto simp: fold_fill nth_append)

lemma arr_list_update: "arr_list (a\<lparr>elements := Some es, array_len := n\<rparr>) = take n es"
  by (simp add: arr_list_def)

lemma array_set_ok:
  assumes a: "arr_ok a" and mem: "region_small mem" and s: "array_set i v a mem = (a', mem', r)"
  shows "arr_ok a' \<and> region_small mem' \<and>
    (case r of Ok _ \<Rightarrow> arr_list a' = list_write i v (arr_list a) | Err \<Rightarrow> a' = a \<and> mem' = mem)"
proof (cases "i < array_len a")
  case True
  then obtain es where es: "elements a = Some es" "length es = array_cap a" "array_len a \<le> array_cap a"
    using a by (cases "elements a") (auto simp: arr_ok_def)
  then have "a' = a\<lparr>elements := Some (es[i := v])\<rparr>" "mem' = mem" "r = Ok ()"
    using s True by (auto simp: array_set_def Let_def)
  then show ?thesis using a mem es True by (simp add: arr_ok_def arr_list_def list_write_def take_update_swap)
next
  case False
  show ?thesis
  proof (cases "if Suc i > array_cap a then array_grow (Suc i) a mem else Some (a, mem)")
    case None
    then show ?thesis using s a mem False by (auto simp: array_set_def Let_def split: if_splits)
  next
    case (Some am)
    obtain a1 mem1 where am: "(if Suc i > array_cap a then array_grow (Suc i) a mem else Some (a, mem)) = Some (a1, mem1)"
      using Some by (cases am) auto
    have "array_len a < Suc i" using False by simp
    note ro = room_ok [OF a mem this am]
    obtain es where es: "elements a1 = Some es" "length es = array_cap a1" using ro(6) by blast
    let ?es = "(fold (\<lambda>i es. es[i := JS_UNDEFINED]) [array_len a..<i] es)[i := v]"
    have eq: "a' = a1\<lparr>elements := Some ?es, array_len := Suc i\<rparr>" "mem' = mem1" "r = Ok ()"
      using s am False es ro(7) by (auto simp: array_set_def Let_def as_u32_def)
    have len: "length ?es = array_cap a1" using es by (simp add: fold_fill)
    have i: "i < length (fold (\<lambda>i es. es[i := JS_UNDEFINED]) [array_len a..<i] es)"
      using ro(3) es by (simp add: fold_fill)
    have "take (Suc i) ?es = take i ?es @ [?es ! i]" using len ro(3) by (intro take_Suc_conv_app_nth) simp
    also have "?es ! i = v" using i by simp
    also have "take i ?es = take (array_len a) es @ replicate (i - array_len a) JS_UNDEFINED"
      using fill_take [of "array_len a" i es] False ro(3) es by simp
    also have "take (array_len a) es = arr_list a" using ro(4,5) es by (simp add: arr_list_def)
    finally have "arr_list a' = list_write i v (arr_list a)"
      using False by (simp add: eq arr_list_update list_write_def length_arr_list [OF a])
    then show ?thesis using ro(1,2,3) len by (simp add: eq arr_ok_def)
  qed
qed

lemma take_fold_upt: "take n (fold (\<lambda>i es. es[i := u]) [n..<m] es) = take n es"
  by (intro nth_equalityI) (auto simp: fold_fill)

lemma array_set_length_ok:
  assumes a: "arr_ok a" and mem: "region_small mem" and n: "int32 v = Some n" "0 \<le> sint n"
    and s: "array_set_length v a mem = (a', mem', r)"
  shows "arr_ok a' \<and> region_small mem' \<and>
    (case r of Ok _ \<Rightarrow> arr_list a' = list_resize (nat (sint n)) (arr_list a) | Err \<Rightarrow> a' = a \<and> mem' = mem)"
proof (cases "nat (sint n) > array_len a")
  case False
  let ?n = "nat (sint n)"
  have u: "as_u32 ?n = ?n" using a False by (simp add: as_u32_def arr_ok_def)
  have eq: "a' = a\<lparr>elements := map_option (fold (\<lambda>i es. es[i := JS_UNDEFINED]) [?n..<array_len a]) (elements a),
      array_len := ?n\<rparr>" "mem' = mem" "r = Ok ()"
    using s n False u by (auto simp: array_set_length_def Let_def)
  show ?thesis
  proof (cases "elements a")
    case None
    then show ?thesis using a mem False by (auto simp: eq arr_ok_def arr_list_def list_resize_def)
  next
    case (Some es)
    then show ?thesis
      using a mem False by (auto simp: eq arr_ok_def arr_list_def list_resize_def take_fold_upt fold_fill min_def)
        (intro nth_equalityI, auto)
  qed
next
  case True
  let ?n = "nat (sint n)"
  show ?thesis
  proof (cases "if ?n > array_cap a then array_grow ?n a mem else Some (a, mem)")
    case None
    then show ?thesis using s a mem True n by (auto simp: array_set_length_def Let_def split: if_splits)
  next
    case (Some am)
    obtain a1 mem1 where am: "(if ?n > array_cap a then array_grow ?n a mem else Some (a, mem)) = Some (a1, mem1)"
      using Some by (cases am) auto
    note ro = room_ok [OF a mem True am]
    obtain es where es: "elements a1 = Some es" "length es = array_cap a1" using ro(6) by blast
    let ?es = "fold (\<lambda>i es. es[i := JS_UNDEFINED]) [array_len a..<?n] es"
    have eq: "a' = a1\<lparr>elements := Some ?es, array_len := ?n\<rparr>" "mem' = mem1" "r = Ok ()"
      using s am True es ro(7) n by (auto simp: array_set_length_def Let_def as_u32_def)
    have len: "length ?es = array_cap a1" using es by (simp add: fold_fill)
    have "take ?n ?es = take (array_len a) es @ replicate (?n - array_len a) JS_UNDEFINED"
      using fill_take [of "array_len a" ?n es] True ro(3) es by simp
    also have "take (array_len a) es = arr_list a" using ro(4,5) es by (simp add: arr_list_def)
    finally have "arr_list a' = list_resize ?n (arr_list a)"
      using True by (simp add: eq arr_list_update list_resize_def length_arr_list [OF a])
    then show ?thesis using ro(1,2,3) len by (simp add: eq arr_ok_def)
  qed
qed

lemma array_pop_ok:
  assumes "arr_ok a"
  shows "arr_ok (fst (array_pop a)) \<and> arr_list (fst (array_pop a)) = butlast (arr_list a) \<and>
    snd (array_pop a) = (if arr_list a = [] then JS_UNDEFINED else last (arr_list a))"
proof (cases "array_len a = 0")
  case True
  then show ?thesis using assms by (auto simp: array_pop_def arr_list_def)
next
  case False
  then obtain es where es: "elements a = Some es" "length es = array_cap a" "array_len a \<le> array_cap a"
    using assms by (cases "elements a") (auto simp: arr_ok_def)
  then show ?thesis
    using False assms
    by (auto simp: array_pop_def Let_def arr_ok_def arr_list_def array_get_def butlast_take last_conv_nth)
qed

lemmas array_eval = array_set_def array_grow_def alloc_values_def checked_mul8_def as_u32_def mem_eval

section \<open>Properties\<close>

text \<open>Writing an element of an array and reading any position gives what a growing list gives: the element
  at its index, the old elements elsewhere, \<open>undefined\<close> in the gap and beyond the end; when there is no room
  the array is unchanged.\<close>

theorem array_write_read:
  assumes "arr_ok a" and "region_small mem" and "array_set i v a mem = (a', mem', r)"
  shows "arr_ok a' \<and> array_get a' j =
    (if r = Err then array_get a j else if j = i then v else array_get a j)"
proof -
  note s = array_set_ok [OF assms]
  show ?thesis
  proof (cases r)
    case (Ok u)
    with s have a': "arr_ok a'" "arr_list a' = list_write i v (arr_list a)" by auto
    then show ?thesis
      by (auto simp: Ok array_get_eq [OF a'(1)] array_get_eq [OF assms(1)] list_write_def nth_append nth_list_update)
  next
    case Err
    with s assms(1) show ?thesis by simp
  qed
qed

theorem array_write_read_witness:
  "array_get (fst (array_set 2 9 \<lparr>array_len = 0, array_cap = 0, elements = None\<rparr> (region_new 4096 1024))) 2 = 9"
proof -
  let ?a = "\<lparr>array_len = 0, array_cap = 0, elements = None\<rparr>" and ?m = "region_new 4096 1024"
  have r: "snd (snd (array_set 2 9 ?a ?m)) = Ok ()" by (simp add: array_eval)
  have "array_set 2 9 ?a ?m = (fst (array_set 2 9 ?a ?m), fst (snd (array_set 2 9 ?a ?m)), snd (snd (array_set 2 9 ?a ?m)))"
    by simp
  from array_write_read [OF _ _ this, of 2] r show ?thesis
    by (simp add: arr_ok_def region_small_def region_ok_def region_new_def)
qed

text \<open>Pushing a value and popping gives the value back and restores the elements; popping an empty array gives
  \<open>undefined\<close>.\<close>

theorem array_push_pop:
  assumes "arr_ok a" and "region_small mem" and "array_push v a mem = (a', mem', Some n)"
  shows "snd (array_pop a') = v \<and> arr_list (fst (array_pop a')) = arr_list a \<and> n = Suc (length (arr_list a))"
proof -
  obtain r where s: "array_set (array_len a) v a mem = (a', mem', r)" and r: "r = Ok ()" and n: "n = array_len a'"
    using assms(3) by (auto simp: array_push_def Let_def split: prod.splits result.splits)
  have ok: "arr_ok a'" "arr_list a' = arr_list a @ [v]"
    using array_set_ok [OF assms(1,2) s] r length_arr_list [OF assms(1)] by (auto simp: list_write_def)
  then show ?thesis using array_pop_ok [OF ok(1)] length_arr_list [OF ok(1)] n by simp
qed

theorem array_push_pop_witness:
  "snd (array_pop (fst (array_push 7 \<lparr>array_len = 0, array_cap = 0, elements = None\<rparr> (region_new 4096 1024)))) = 7"
proof -
  let ?a = "\<lparr>array_len = 0, array_cap = 0, elements = None\<rparr>" and ?m = "region_new 4096 1024"
  have "snd (snd (array_push 7 ?a ?m)) = Some 1" by (simp add: array_push_def array_eval)
  then have "array_push 7 ?a ?m = (fst (array_push 7 ?a ?m), fst (snd (array_push 7 ?a ?m)), Some 1)" by (metis prod.collapse)
  from array_push_pop [OF _ _ this] show ?thesis
    by (simp add: arr_ok_def region_small_def region_ok_def region_new_def)
qed

end
