(* ===== verification/JS_Atoms.thy ===== *)
theory JS_Atoms
  imports JS_Memory Decimal
begin

text \<open>
  Interned strings of the JavaScript engine (\<open>AtomTable\<close>, \<open>intern_string\<close>, \<open>parse_index\<close> of
  \<open>src/context.rs\<close>). The table finds an atom through a hash index that keeps one atom per hash value
  and falls back to a scan when the atom there has other bytes. The theory shows that interning is
  exact whatever the hash function does: equal bytes get the same atom, different bytes different
  ones, and an atom never changes its bytes.
\<close>

section \<open>Model\<close>

record atom_entry =
  atom_bytes :: "bytes option"
  atom_ptr :: u64
  ref_count :: nat

record atom_table =
  atom_entries :: "atom_entry list"
  atom_index :: "(u64, nat) hashmap"

definition fnv1a_hash :: "bytes \<Rightarrow> u64" where
  "fnv1a_hash bs = fold (\<lambda>b h. (h XOR of_nat (of_char b)) * 0x100000001b3) bs 0xcbf29ce484222325"

definition atoms_new :: atom_table where
  "atoms_new = \<lparr>atom_entries = [\<lparr>atom_bytes = None, atom_ptr = 0, ref_count = 1\<rparr>], atom_index = []\<rparr>"

definition bytes_equal :: "atom_entry \<Rightarrow> bytes \<Rightarrow> bool" where
  "bytes_equal e bs = (case atom_bytes e of None \<Rightarrow> False | Some b \<Rightarrow> length b = length bs \<and> b = bs)"

definition atoms_find :: "atom_table \<Rightarrow> bytes \<Rightarrow> nat option" where
  "atoms_find t bs =
     (case hm_get (atom_index t) (fnv1a_hash bs) of
        None \<Rightarrow> None
      | Some i \<Rightarrow>
          if i < length (atom_entries t) \<and> bytes_equal (atom_entries t ! i) bs then Some i
          else position (\<lambda>e. bytes_equal e bs) (atom_entries t))"

definition atoms_push :: "atom_entry \<Rightarrow> atom_table \<Rightarrow> atom_table \<times> nat" where
  "atoms_push e t =
     (let i = length (atom_entries t);
          t = (case atom_bytes e of
                 None \<Rightarrow> t
               | Some bs \<Rightarrow> t\<lparr>atom_index := hm_put (fnv1a_hash bs) i (atom_index t)\<rparr>)
      in (t\<lparr>atom_entries := atom_entries t @ [e]\<rparr>, i))"

definition atoms_add_ref :: "nat \<Rightarrow> atom_table \<Rightarrow> atom_table \<times> bool" where
  "atoms_add_ref i t =
     (if i < length (atom_entries t)
      then (t\<lparr>atom_entries := (atom_entries t)
                [i := (atom_entries t ! i)\<lparr>ref_count := min (ref_count (atom_entries t ! i) + 1) (2 ^ 32 - 1)\<rparr>]\<rparr>, True)
      else (t, False))"

definition atoms_release :: "nat \<Rightarrow> atom_table \<Rightarrow> atom_table" where
  "atoms_release i t =
     (if i < length (atom_entries t)
      then t\<lparr>atom_entries := (atom_entries t)
               [i := (atom_entries t ! i)\<lparr>ref_count := ref_count (atom_entries t ! i) - 1\<rparr>]\<rparr>
      else t)"

text \<open>The atoms in use, for the collector; the pointer of an atom is the address of its string cell.\<close>

definition atoms_mark_live :: "atom_table \<Rightarrow> js_value list" where
  "atoms_mark_live t =
     map (\<lambda>e. from_ptr (atom_ptr e)) (filter (\<lambda>e. ref_count e > 0 \<and> atom_bytes e \<noteq> None) (atom_entries t))"

text \<open>A string cell: an 8-byte header, the bytes, a terminating zero.\<close>

definition alloc_string :: "bytes \<Rightarrow> mem_region \<Rightarrow> (u64 \<times> mem_region) option" where
  "alloc_string bs mem = mem_alloc (of_nat (8 + length bs + 1)) 8 mem"

definition intern_string :: "bytes \<Rightarrow> atom_table \<Rightarrow> mem_region \<Rightarrow> (nat \<times> atom_table \<times> mem_region) option" where
  "intern_string bs t mem =
     (case atoms_find t bs of
        Some i \<Rightarrow> Some (i, fst (atoms_add_ref i t), mem)
      | None \<Rightarrow>
          (case alloc_string bs mem of
             None \<Rightarrow> None
           | Some (p, mem) \<Rightarrow>
               (case atoms_push \<lparr>atom_bytes = Some bs, atom_ptr = p, ref_count = 1\<rparr> t of (t, i) \<Rightarrow> Some (i, t, mem))))"

text \<open>Array indices: digits only, no overflow of \<open>u32\<close>.\<close>

fun parse_index_loop :: "bytes \<Rightarrow> nat \<Rightarrow> nat option" where
  "parse_index_loop [] v = Some v"
| "parse_index_loop (b # bs) v =
     (if b < CHR ''0'' \<or> b > CHR ''9'' then None
      else if v * 10 \<ge> 2 ^ 32 then None
      else if v * 10 + digit_val b \<ge> 2 ^ 32 then None
      else parse_index_loop bs (v * 10 + digit_val b))"

definition parse_index :: "bytes \<Rightarrow> nat option" where
  "parse_index name = (if name = [] then None else parse_index_loop name 0)"

section \<open>Interning\<close>

definition bytes_of_atom :: "atom_table \<Rightarrow> nat \<Rightarrow> bytes option" where
  "bytes_of_atom t i = (if i < length (atom_entries t) then atom_bytes (atom_entries t ! i) else None)"

definition atoms_ok :: "atom_table \<Rightarrow> bool" where
  "atoms_ok t \<longleftrightarrow>
     (\<forall>i j bs. bytes_of_atom t i = Some bs \<longrightarrow> bytes_of_atom t j = Some bs \<longrightarrow> i = j) \<and>
     (\<forall>i bs. bytes_of_atom t i = Some bs \<longrightarrow> hm_get (atom_index t) (fnv1a_hash bs) \<noteq> None)"

lemma bytes_equal_iff: "bytes_equal e bs \<longleftrightarrow> atom_bytes e = Some bs"
  by (auto simp: bytes_equal_def split: option.splits)

lemma atoms_find_iff:
  assumes "atoms_ok t"
  shows "atoms_find t bs = Some i \<longleftrightarrow> bytes_of_atom t i = Some bs"
proof
  assume f: "atoms_find t bs = Some i"
  then show "bytes_of_atom t i = Some bs"
    by (auto simp: atoms_find_def bytes_of_atom_def bytes_equal_iff dest: position_SomeD
        split: option.splits if_splits)
next
  assume b: "bytes_of_atom t i = Some bs"
  then have i: "i < length (atom_entries t)" "atom_bytes (atom_entries t ! i) = Some bs"
    by (auto simp: bytes_of_atom_def split: if_splits)
  have uniq: "j = i" if "bytes_of_atom t j = Some bs" for j
    using assms b that unfolding atoms_ok_def by blast
  obtain h where h: "hm_get (atom_index t) (fnv1a_hash bs) = Some h"
    using assms b unfolding atoms_ok_def by blast
  have "\<exists>j. position (\<lambda>e. bytes_equal e bs) (atom_entries t) = Some j"
    using i position_None_iff [of "\<lambda>e. bytes_equal e bs" "atom_entries t"]
    by (cases "position (\<lambda>e. bytes_equal e bs) (atom_entries t)") (auto simp: bytes_equal_iff)
  then obtain j where j: "position (\<lambda>e. bytes_equal e bs) (atom_entries t) = Some j" by blast
  then have "j = i"
    using position_SomeD [OF j] by (intro uniq) (auto simp: bytes_of_atom_def bytes_equal_iff)
  then show "atoms_find t bs = Some i"
    using h j uniq [of h] by (auto simp: atoms_find_def bytes_of_atom_def bytes_equal_iff)
qed

lemma bytes_of_push:
  "bytes_of_atom (fst (atoms_push \<lparr>atom_bytes = Some bs, atom_ptr = p, ref_count = n\<rparr> t)) i =
     (if i = length (atom_entries t) then Some bs else bytes_of_atom t i)"
  by (auto simp: atoms_push_def bytes_of_atom_def nth_append Let_def)

lemma atoms_ok_push:
  assumes t: "atoms_ok t" and new: "\<And>i. bytes_of_atom t i \<noteq> Some bs"
  shows "atoms_ok (fst (atoms_push \<lparr>atom_bytes = Some bs, atom_ptr = p, ref_count = n\<rparr> t))"
proof -
  let ?t = "fst (atoms_push \<lparr>atom_bytes = Some bs, atom_ptr = p, ref_count = n\<rparr> t)"
  have ix: "hm_get (atom_index ?t) = (hm_get (atom_index t))(fnv1a_hash bs \<mapsto> length (atom_entries t))"
    by (simp add: atoms_push_def Let_def)
  show ?thesis
    unfolding atoms_ok_def bytes_of_push ix
  proof (intro conjI allI impI)
    fix i j cs
    assume "(if i = length (atom_entries t) then Some bs else bytes_of_atom t i) = Some cs"
      "(if j = length (atom_entries t) then Some bs else bytes_of_atom t j) = Some cs"
    then show "i = j" using t new unfolding atoms_ok_def by (auto split: if_splits)
  next
    fix i cs
    assume "(if i = length (atom_entries t) then Some bs else bytes_of_atom t i) = Some cs"
    then have "cs = bs \<or> hm_get (atom_index t) (fnv1a_hash cs) \<noteq> None"
      using t unfolding atoms_ok_def by (auto split: if_splits)
    then show "((hm_get (atom_index t))(fnv1a_hash bs \<mapsto> length (atom_entries t))) (fnv1a_hash cs) \<noteq> None"
      by auto
  qed
qed

lemma bytes_of_refs:
  "bytes_of_atom (fst (atoms_add_ref j t)) i = bytes_of_atom t i"
  "bytes_of_atom (atoms_release j t) i = bytes_of_atom t i"
  by (auto simp: atoms_add_ref_def atoms_release_def bytes_of_atom_def nth_list_update)

lemma index_of_refs: "atom_index (fst (atoms_add_ref j t)) = atom_index t" "atom_index (atoms_release j t) = atom_index t"
  by (simp_all add: atoms_add_ref_def atoms_release_def)

lemma atoms_ok_refs: "atoms_ok t \<Longrightarrow> atoms_ok (fst (atoms_add_ref j t))" "atoms_ok t \<Longrightarrow> atoms_ok (atoms_release j t)"
  unfolding atoms_ok_def bytes_of_refs index_of_refs by assumption+

lemma atoms_ok_new: "atoms_ok atoms_new"
  by (auto simp: atoms_ok_def atoms_new_def bytes_of_atom_def split: if_splits)

lemma intern_string_ok:
  assumes t: "atoms_ok t" and r: "intern_string bs t mem = Some (i, t', mem')"
  shows "atoms_ok t'" and "bytes_of_atom t' i = Some bs"
    and "bytes_of_atom t j = Some cs \<Longrightarrow> bytes_of_atom t' j = Some cs"
proof -
  have "atoms_ok t' \<and> bytes_of_atom t' i = Some bs \<and> (bytes_of_atom t j = Some cs \<longrightarrow> bytes_of_atom t' j = Some cs)"
  proof (cases "atoms_find t bs")
    case None
    have new: "bytes_of_atom t k \<noteq> Some bs" for k using atoms_find_iff [OF t, of bs k] None by auto
    obtain p where p: "alloc_string bs mem = Some (p, mem')"
      and t': "t' = fst (atoms_push \<lparr>atom_bytes = Some bs, atom_ptr = p, ref_count = 1\<rparr> t)"
      and i: "i = length (atom_entries t)"
      using r None by (auto simp: intern_string_def atoms_push_def Let_def split: option.splits)
    have "bytes_of_atom t j = Some cs \<Longrightarrow> j \<noteq> length (atom_entries t)"
      by (auto simp: bytes_of_atom_def split: if_splits)
    then show ?thesis using atoms_ok_push [OF t new] by (auto simp: t' i bytes_of_push)
  next
    case (Some k)
    then have "i = k" "t' = fst (atoms_add_ref k t)" using r by (auto simp: intern_string_def)
    then show ?thesis
      using atoms_find_iff [OF t, of bs k] Some atoms_ok_refs(1) [OF t] by (simp add: bytes_of_refs)
  qed
  then show "atoms_ok t'" "bytes_of_atom t' i = Some bs"
    "bytes_of_atom t j = Some cs \<Longrightarrow> bytes_of_atom t' j = Some cs" by auto
qed

section \<open>Array indices\<close>

lemma parse_index_loop_eq:
  "v < 2 ^ 32 \<Longrightarrow> parse_index_loop bs v =
     (if list_all is_digit bs \<and> foldl (\<lambda>v b. 10 * v + digit_val b) v bs < 2 ^ 32
      then Some (foldl (\<lambda>v b. 10 * v + digit_val b) v bs) else None)"
proof (induction bs arbitrary: v)
  case (Cons b bs)
  let ?v = "10 * v + digit_val b"
  have ge: "?v \<le> foldl (\<lambda>v b. 10 * v + digit_val b) ?v bs" by (rule foldl_dec_ge)
  show ?case
  proof (cases "?v < 2 ^ 32")
    case True
    then show ?thesis using Cons.IH [OF True] by (auto simp: not_digit_iff mult.commute)
  next
    case False
    then have "\<not> foldl (\<lambda>v b. 10 * v + digit_val b) ?v bs < 2 ^ 32" using ge by linarith
    then show ?thesis using False by (auto simp: not_digit_iff mult.commute)
  qed
qed simp

lemma parse_index_eq:
  "parse_index bs =
     (if bs \<noteq> [] \<and> list_all is_digit bs \<and> nat_of_dec bs < 2 ^ 32 then Some (nat_of_dec bs) else None)"
  using parse_index_loop_eq [of 0 bs] by (auto simp: parse_index_def nat_of_dec_def)

lemma parse_index_dec: "n < 2 ^ 32 \<Longrightarrow> parse_index (dec_of_nat n) = Some n"
  by (simp add: parse_index_eq)

section \<open>Properties\<close>

text \<open>C39: Interning is injective and stable: interning a text gives an identifier whose text it is, interning it
  again gives the same identifier without using memory, and every identifier given out before keeps its
  text, also when hashes collide.\<close>

theorem interning_stable:
  assumes "atoms_ok t" and "intern_string bs t mem = Some (i, t', mem')"
  shows "atoms_ok t' \<and> bytes_of_atom t' i = Some bs \<and>
    (\<exists>t''. intern_string bs t' mem2 = Some (i, t'', mem2)) \<and>
    (bytes_of_atom t j = Some cs \<longrightarrow> bytes_of_atom t' j = Some cs)"
proof -
  note k = intern_string_ok [OF assms]
  have "atoms_find t' bs = Some i" using atoms_find_iff [OF k(1)] k(2) by simp
  then have "\<exists>t''. intern_string bs t' mem2 = Some (i, t'', mem2)" by (simp add: intern_string_def)
  with k show ?thesis by blast
qed

theorem interning_stable_witness:
  "bytes_of_atom (fst (snd (the (intern_string ''x'' atoms_new (region_new 4096 64))))) 1 = Some ''x''"
proof -
  have "intern_string ''x'' atoms_new (region_new 4096 64) =
      Some (1, fst (snd (the (intern_string ''x'' atoms_new (region_new 4096 64)))),
            snd (snd (the (intern_string ''x'' atoms_new (region_new 4096 64)))))"
    by (simp add: intern_string_def atoms_find_def atoms_new_def hm_get_def alloc_string_def mem_eval atoms_push_def)
  from interning_stable [OF atoms_ok_new this] show ?thesis by blast
qed

text \<open>A property name is taken as an array index exactly when it is a non-empty string of digits with a value
  below \<open>2^32\<close>. Leading zeros are accepted, so names such as \<open>01\<close> and \<open>1\<close> denote the same property.\<close>

theorem index_names:
  "parse_index name =
     (if name \<noteq> [] \<and> list_all is_digit name \<and> nat_of_dec name < 2 ^ 32 then Some (nat_of_dec name) else None) \<and>
   parse_index ''01'' = parse_index ''1''"
proof -
  have "parse_index ''01'' = Some 1" "parse_index ''1'' = Some 1"
    by (simp_all add: parse_index_def digit_val_def)
  then show ?thesis by (simp add: parse_index_eq)
qed

end
