(* ===== verification/JS_Context.thy ===== *)
theory JS_Context
  imports JS_Props JS_Array JS_Atoms Utf8
begin

text \<open>
  The object heap of the JavaScript engine (\<open>Context\<close> in \<open>src/context.rs\<close>): cells at the addresses
  the bump allocator handed out, objects and arrays with their property store, property access by
  name and by index along the prototype chain, deletion, key enumeration, and the marking phase of
  the collector. The overflow map that the source keeps per object address is part of the object's
  property store here. Reading a cell through a value that is not a valid pointer is the outcome
  \<open>None\<close>; the source relies on values being valid.
\<close>

section \<open>Model: heap\<close>

record heap_object =
  is_array :: bool
  class_id :: u32
  proto :: js_value
  props :: prop_store
  arr :: js_array
  opaque_ptr :: u64
  func_idx :: i32
  func_params :: js_value

datatype heap_cell = HString bytes | HFloat u64 | HObj heap_object

record js_ctx =
  mem :: mem_region
  cells :: "u64 \<Rightarrow> heap_cell option"
  atoms :: atom_table
  gc_objects :: "u64 list"
  global_object :: js_value
  env_stack :: "js_value list"
  call_stack :: "js_value list"
  last_exception :: js_value
  return_value :: js_value
  gcref_vals :: "js_value list"
  object_proto_default :: js_value
  array_proto :: js_value
  array_push_fn :: js_value
  array_pop_fn :: js_value

definition CLASS_OBJECT :: u32 where "CLASS_OBJECT = 0"
definition CLASS_ARRAY :: u32 where "CLASS_ARRAY = 1"
definition PROTO_SEARCH_LIMIT :: nat where "PROTO_SEARCH_LIMIT = 64"
definition HEAP_OBJECT_SIZE :: u64 where "HEAP_OBJECT_SIZE = 80"

definition object_ptr :: "js_ctx \<Rightarrow> js_value \<Rightarrow> (u64 \<times> heap_object) option" where
  "object_ptr c v =
     (if \<not> is_ptr v then None
      else if as_ptr v = 0 then None
      else case cells c (as_ptr v) of Some (HObj ob) \<Rightarrow> Some (as_ptr v, ob) | _ \<Rightarrow> None)"

definition put_object :: "u64 \<Rightarrow> heap_object \<Rightarrow> js_ctx \<Rightarrow> js_ctx" where
  "put_object p ob c = c\<lparr>cells := (cells c)(p \<mapsto> HObj ob)\<rparr>"

definition alloc_object :: "u32 \<Rightarrow> js_ctx \<Rightarrow> js_ctx \<times> u64 option" where
  "alloc_object cls c =
     (case mem_alloc HEAP_OBJECT_SIZE 8 (mem c) of
        None \<Rightarrow> (c, None)
      | Some (p, m) \<Rightarrow>
          (c\<lparr>mem := m, gc_objects := gc_objects c @ [p],
             cells := (cells c)(p \<mapsto> HObj
               \<lparr>is_array = (cls = CLASS_ARRAY), class_id = cls, proto = JS_NULL, props = props_empty,
                arr = \<lparr>array_len = 0, array_cap = 0, elements = None\<rparr>, opaque_ptr = 0, func_idx = 0,
                func_params = JS_UNDEFINED\<rparr>)\<rparr>, Some p))"

text \<open>An object whose element block cannot be allocated stays behind, unreachable.\<close>

definition alloc_array_object :: "nat \<Rightarrow> js_ctx \<Rightarrow> js_ctx \<times> u64 option" where
  "alloc_array_object initial_len c =
     (case alloc_object CLASS_ARRAY c of
        (c, None) \<Rightarrow> (c, None)
      | (c, Some p) \<Rightarrow>
          (case (cells c p, alloc_array initial_len (mem c)) of
             (Some (HObj ob), Some (a, m)) \<Rightarrow> (put_object p (ob\<lparr>arr := a\<rparr>) (c\<lparr>mem := m\<rparr>), Some p)
           | _ \<Rightarrow> (c, None)))"

definition set_proto_at :: "u64 \<Rightarrow> js_value \<Rightarrow> js_ctx \<Rightarrow> js_ctx" where
  "set_proto_at p v c = (case cells c p of Some (HObj ob) \<Rightarrow> put_object p (ob\<lparr>proto := v\<rparr>) c | _ \<Rightarrow> c)"

definition new_object :: "u32 \<Rightarrow> js_ctx \<Rightarrow> js_ctx \<times> js_value option" where
  "new_object cls c =
     (case alloc_object cls c of
        (c, None) \<Rightarrow> (c, None)
      | (c, Some p) \<Rightarrow>
          (if cls = CLASS_OBJECT \<and> \<not> is_undefined (object_proto_default c)
           then set_proto_at p (object_proto_default c) c else c, Some (from_ptr p)))"

definition new_array_bare :: "nat \<Rightarrow> js_ctx \<Rightarrow> js_ctx \<times> js_value option" where
  "new_array_bare initial_len c =
     (case alloc_array_object initial_len c of
        (c, None) \<Rightarrow> (c, None)
      | (c, Some p) \<Rightarrow>
          (if \<not> is_undefined (array_proto c) then set_proto_at p (array_proto c) c else c, Some (from_ptr p)))"

section \<open>Model: property access\<close>

text \<open>The loop shared by the readers: look at the object itself, then follow the prototype, at most
  \<open>PROTO_SEARCH_LIMIT\<close> objects. \<open>None\<close> is a value on the chain that is not an object.\<close>

fun chain_lookup :: "(heap_object \<Rightarrow> 'a option) \<Rightarrow> 'a \<Rightarrow> nat \<Rightarrow> js_ctx \<Rightarrow> js_value \<Rightarrow> 'a option" where
  "chain_lookup own dflt 0 c cur = Some dflt"
| "chain_lookup own dflt (Suc n) c cur =
     (case object_ptr c cur of
        None \<Rightarrow> None
      | Some (p, ob) \<Rightarrow>
          (case own ob of
             Some v \<Rightarrow> Some v
           | None \<Rightarrow>
               if is_null (proto ob) \<or> is_undefined (proto ob) then Some dflt
               else chain_lookup own dflt n c (proto ob)))"

definition own_index :: "nat \<Rightarrow> heap_object \<Rightarrow> js_value option" where
  "own_index idx ob =
     (if is_array ob \<and> idx < array_len (arr ob) then Some (array_get (arr ob) idx)
      else find_prop_value (PROP_KEY_INDEX, of_nat idx) (props ob))"

definition own_atom :: "nat \<Rightarrow> bytes \<Rightarrow> heap_object \<Rightarrow> js_value option" where
  "own_atom atom name ob =
     (if is_array ob \<and> name = ''length'' then Some (from_int32 (of_nat (array_len (arr ob))))
      else find_prop_value (PROP_KEY_ATOM, of_nat atom) (props ob))"

definition get_property_index :: "js_ctx \<Rightarrow> js_value \<Rightarrow> nat \<Rightarrow> js_value option" where
  "get_property_index c v idx = chain_lookup (own_index idx) JS_UNDEFINED PROTO_SEARCH_LIMIT c v"

definition get_property_atom :: "js_ctx \<Rightarrow> js_value \<Rightarrow> nat \<Rightarrow> bytes \<Rightarrow> js_value option" where
  "get_property_atom c v atom name = chain_lookup (own_atom atom name) JS_UNDEFINED PROTO_SEARCH_LIMIT c v"

definition get_property_atom_id :: "js_ctx \<Rightarrow> js_value \<Rightarrow> nat \<Rightarrow> js_value option" where
  "get_property_atom_id c v atom =
     chain_lookup (\<lambda>ob. find_prop_value (PROP_KEY_ATOM, of_nat atom) (props ob)) JS_UNDEFINED
       PROTO_SEARCH_LIMIT c v"

definition has_property_index :: "js_ctx \<Rightarrow> js_value \<Rightarrow> nat \<Rightarrow> bool" where
  "has_property_index c v idx =
     (chain_lookup (\<lambda>ob. map_option (\<lambda>_. True) (own_index idx ob)) False PROTO_SEARCH_LIMIT c v = Some True)"

definition string_bytes :: "js_ctx \<Rightarrow> js_value \<Rightarrow> bytes option" where
  "string_bytes c v =
     (if \<not> is_ptr v then None else case cells c (as_ptr v) of Some (HString bs) \<Rightarrow> Some bs | _ \<Rightarrow> None)"

definition intern :: "bytes \<Rightarrow> js_ctx \<Rightarrow> js_ctx \<times> nat option" where
  "intern bs c =
     (case atoms_find (atoms c) bs of
        Some i \<Rightarrow> (c\<lparr>atoms := fst (atoms_add_ref i (atoms c))\<rparr>, Some i)
      | None \<Rightarrow>
          (case alloc_string bs (mem c) of
             None \<Rightarrow> (c, None)
           | Some (p, m) \<Rightarrow>
               (case atoms_push \<lparr>atom_bytes = Some bs, atom_ptr = p, ref_count = 1\<rparr> (atoms c) of (t, i) \<Rightarrow>
                  (c\<lparr>mem := m, gc_objects := gc_objects c @ [p], cells := (cells c)(p \<mapsto> HString bs), atoms := t\<rparr>,
                   Some i))))"

definition get_property_str :: "js_ctx \<Rightarrow> js_value \<Rightarrow> bytes \<Rightarrow> js_ctx \<times> js_value option" where
  "get_property_str c v name =
     (case (if name = ''length'' then string_bytes c v else None) of
        Some bs \<Rightarrow> (c, Some (from_int32 (of_nat (length bs))))
      | None \<Rightarrow>
          (case parse_index name of
             Some idx \<Rightarrow> (c, get_property_index c v idx)
           | None \<Rightarrow>
               (case intern name c of
                  (c, None) \<Rightarrow> (c, None)
                | (c, Some atom) \<Rightarrow> (c, get_property_atom c v atom name))))"

definition has_property_str :: "js_ctx \<Rightarrow> js_value \<Rightarrow> bytes \<Rightarrow> js_ctx \<times> bool" where
  "has_property_str c v name =
     (if name = ''length'' \<and> string_bytes c v \<noteq> None then (c, True)
      else case parse_index name of
             Some idx \<Rightarrow> (c, has_property_index c v idx)
           | None \<Rightarrow>
               (case intern name c of
                  (c, None) \<Rightarrow> (c, False)
                | (c, Some atom) \<Rightarrow>
                    (c, chain_lookup (\<lambda>ob. map_option (\<lambda>_. True) (own_atom atom name ob)) False
                          PROTO_SEARCH_LIMIT c v = Some True)))"

definition set_props_at :: "prop_key \<Rightarrow> js_value \<Rightarrow> u64 \<Rightarrow> heap_object \<Rightarrow> js_ctx \<Rightarrow> js_ctx \<times> bool" where
  "set_props_at k v p ob c =
     (case set_prop_value k v (props ob) (mem c) of
        (st, m, ok) \<Rightarrow> (put_object p (ob\<lparr>props := st\<rparr>) (c\<lparr>mem := m\<rparr>), ok))"

definition set_property_index :: "js_value \<Rightarrow> nat \<Rightarrow> js_value \<Rightarrow> js_ctx \<Rightarrow> js_ctx \<times> bool" where
  "set_property_index v idx x c =
     (case object_ptr c v of
        None \<Rightarrow> (c, False)
      | Some (p, ob) \<Rightarrow>
          if is_array ob then
            (case array_set idx x (arr ob) (mem c) of
               (a, m, r) \<Rightarrow> (put_object p (ob\<lparr>arr := a\<rparr>) (c\<lparr>mem := m\<rparr>), r = Ok ()))
          else set_props_at (PROP_KEY_INDEX, of_nat idx) x p ob c)"

definition set_property_atom_id :: "js_value \<Rightarrow> nat \<Rightarrow> js_value \<Rightarrow> js_ctx \<Rightarrow> js_ctx \<times> bool" where
  "set_property_atom_id v atom x c =
     (case object_ptr c v of
        None \<Rightarrow> (c, False)
      | Some (p, ob) \<Rightarrow> set_props_at (PROP_KEY_ATOM, of_nat atom) x p ob c)"

text \<open>The object pointer is taken before the name is interned; interning leaves the object as it is.\<close>

definition set_property_str :: "js_value \<Rightarrow> bytes \<Rightarrow> js_value \<Rightarrow> js_ctx \<Rightarrow> js_ctx \<times> bool" where
  "set_property_str v name x c =
     (case object_ptr c v of
        None \<Rightarrow> (c, False)
      | Some (p, ob) \<Rightarrow>
          (case parse_index name of
             Some idx \<Rightarrow> set_property_index v idx x c
           | None \<Rightarrow>
               if is_array ob \<and> name = ''length'' then
                 (case array_set_length x (arr ob) (mem c) of
                    (a, m, r) \<Rightarrow> (put_object p (ob\<lparr>arr := a\<rparr>) (c\<lparr>mem := m\<rparr>), r = Ok ()))
               else
                 (case intern name c of
                    (c, None) \<Rightarrow> (c, False)
                  | (c, Some atom) \<Rightarrow> set_props_at (PROP_KEY_ATOM, of_nat atom) x p ob c)))"

definition delete_property_index :: "js_value \<Rightarrow> nat \<Rightarrow> js_ctx \<Rightarrow> js_ctx \<times> bool" where
  "delete_property_index v idx c =
     (case object_ptr c v of
        None \<Rightarrow> (c, False)
      | Some (p, ob) \<Rightarrow>
          if is_array ob \<and> idx < array_len (arr ob) then
            (put_object p (ob\<lparr>arr := (arr ob)\<lparr>elements := map_option (\<lambda>es. es[idx := JS_UNDEFINED]) (elements (arr ob))\<rparr>\<rparr>) c,
             True)
          else
            (case delete_prop_value (PROP_KEY_INDEX, of_nat idx) (props ob) of
               (st, ok) \<Rightarrow> (put_object p (ob\<lparr>props := st\<rparr>) c, ok)))"

definition delete_property_str :: "js_value \<Rightarrow> bytes \<Rightarrow> js_ctx \<Rightarrow> js_ctx \<times> bool" where
  "delete_property_str v name c =
     (case object_ptr c v of
        None \<Rightarrow> (c, False)
      | Some (p, ob) \<Rightarrow>
          (case parse_index name of
             Some idx \<Rightarrow> delete_property_index v idx c
           | None \<Rightarrow>
               (case intern name c of
                  (c, None) \<Rightarrow> (c, False)
                | (c, Some atom) \<Rightarrow>
                    (case delete_prop_value (PROP_KEY_ATOM, of_nat atom) (props ob) of
                       (st, ok) \<Rightarrow> (put_object p (ob\<lparr>props := st\<rparr>) c, ok)))))"

definition object_keys :: "js_ctx \<Rightarrow> js_value \<Rightarrow> bytes list option" where
  "object_keys c v =
     (case object_ptr c v of
        None \<Rightarrow> None
      | Some (p, ob) \<Rightarrow>
          Some ((if is_array ob then map dec_of_nat [0..<array_len (arr ob)] else [])
            @ concat (map (\<lambda>((kind, key), x).
                if kind = PROP_KEY_INDEX then [dec_of_nat (unat key)]
                else case bytes_of_atom (atoms c) (unat key) of
                       Some bs \<Rightarrow> if utf8_ok bs then [bs] else []
                     | None \<Rightarrow> []) (prop_list (props ob)))))"

definition new_array :: "nat \<Rightarrow> js_ctx \<Rightarrow> js_ctx \<times> js_value option" where
  "new_array initial_len c =
     (case alloc_array_object initial_len c of
        (c, None) \<Rightarrow> (c, None)
      | (c, Some p) \<Rightarrow>
          let v = from_ptr p;
              c = (if \<not> is_undefined (array_proto c) then set_proto_at p (array_proto c) c else c);
              c = (if is_undefined (array_proto c) \<and> \<not> is_undefined (array_push_fn c)
                   then fst (set_property_str v ''push'' (array_push_fn c) c) else c);
              c = (if is_undefined (array_proto c) \<and> \<not> is_undefined (array_pop_fn c)
                   then fst (set_property_str v ''pop'' (array_pop_fn c) c) else c)
          in (c, Some v))"

section \<open>Well-formed contexts\<close>

text \<open>Every cell lies below the allocation offset of the region, so a new cell never lands on an old
  one; every object has a consistent property store and array.\<close>

definition ctx_ok :: "js_ctx \<Rightarrow> bool" where
  "ctx_ok c \<longleftrightarrow> region_small (mem c) \<and> atoms_ok (atoms c) \<and>
     (\<forall>p. cells c p \<noteq> None \<longrightarrow> unat p < unat (m_start (mem c)) + unat (m_offset (mem c))) \<and>
     (\<forall>p ob. cells c p = Some (HObj ob) \<longrightarrow> props_ok (props ob) \<and> arr_ok (arr ob))"

lemma ctx_okD:
  assumes "ctx_ok c"
  shows "region_small (mem c)" "atoms_ok (atoms c)"
    "cells c p \<noteq> None \<Longrightarrow> unat p < unat (m_start (mem c)) + unat (m_offset (mem c))"
    "cells c p = Some (HObj ob) \<Longrightarrow> props_ok (props ob) \<and> arr_ok (arr ob)"
  using assms unfolding ctx_ok_def by blast+

lemma object_ptr_Some:
  "object_ptr c v = Some (p, ob) \<longleftrightarrow> is_ptr v \<and> as_ptr v = p \<and> p \<noteq> 0 \<and> cells c p = Some (HObj ob)"
  by (auto simp: object_ptr_def split: option.splits heap_cell.splits)

text \<open>A block of at least one byte from the region is new.\<close>

lemma alloc_fresh:
  assumes c: "ctx_ok c" and al: "mem_alloc sz 8 (mem c) = Some (p, m)" and sz: "0 < unat sz"
  shows "cells c p = None" and "region_small m" and "unat p < unat (m_start m) + unat (m_offset m)"
    and "cells c q \<noteq> None \<Longrightarrow> unat q < unat (m_start m) + unat (m_offset m)"
proof -
  have r: "region_ok (mem c)" "unat (m_size (mem c)) < 2 ^ 35"
    using ctx_okD(1) [OF c] by (auto simp: region_small_def)
  note b = mem_alloc_block [OF r(1) _ _ al, of 3, simplified]
  show "cells c p = None"
  proof (rule ccontr)
    assume "cells c p \<noteq> None"
    from ctx_okD(3) [OF c this] b(4) show False by simp
  qed
  show "region_small m" using b(1,3) r(2) by (simp add: region_small_def)
  show "unat p < unat (m_start m) + unat (m_offset m)" unfolding b(2) using b(5) sz by linarith
  assume "cells c q \<noteq> None"
  from ctx_okD(3) [OF c this] show "unat q < unat (m_start m) + unat (m_offset m)"
    unfolding b(2) using b(4,5) by linarith
qed

lemma ctx_ok_put_object:
  assumes c: "ctx_ok c" and p: "cells c p = Some (HObj ob0)"
    and ob: "props_ok (props ob)" "arr_ok (arr ob)"
    and m: "region_small m" "m_start m = m_start (mem c)" "m_offset (mem c) \<le> m_offset m"
  shows "ctx_ok (put_object p ob (c\<lparr>mem := m\<rparr>))"
proof -
  have le: "unat (m_start (mem c)) + unat (m_offset (mem c)) \<le> unat (m_start m) + unat (m_offset m)"
    using m(2,3) by (simp add: word_le_nat_alt)
  have "unat q < unat (m_start m) + unat (m_offset m)" if "cells c q \<noteq> None" for q
    using ctx_okD(3) [OF c that] le by linarith
  moreover have "cells c p \<noteq> None" using p by simp
  ultimately show ?thesis
    using c ob m(1) unfolding ctx_ok_def put_object_def by (auto split: if_splits)
qed

section \<open>Interning inside a context\<close>

lemma intern_intern_string:
  "intern bs c =
     (case intern_string bs (atoms c) (mem c) of
        None \<Rightarrow> (c, None)
      | Some (i, t, m) \<Rightarrow>
          (if atoms_find (atoms c) bs = None
           then c\<lparr>mem := m, gc_objects := gc_objects c @ [fst (the (alloc_string bs (mem c)))],
                  cells := (cells c)(fst (the (alloc_string bs (mem c))) \<mapsto> HString bs), atoms := t\<rparr>
           else c\<lparr>atoms := t\<rparr>, Some i))"
  by (auto simp: intern_def intern_string_def split: option.splits prod.splits)

lemma intern_ok:
  assumes c: "ctx_ok c" and i: "intern bs c = (c', Some i)" and len: "length bs < 2 ^ 32"
  shows "ctx_ok c'" and "bytes_of_atom (atoms c') i = Some bs"
    and "\<And>j cs. bytes_of_atom (atoms c) j = Some cs \<Longrightarrow> bytes_of_atom (atoms c') j = Some cs"
    and "\<And>q x. cells c q = Some x \<Longrightarrow> cells c' q = Some x"
    and "\<And>q ob. cells c' q = Some (HObj ob) \<Longrightarrow> cells c q = Some (HObj ob)"
proof -
  obtain t m where s: "intern_string bs (atoms c) (mem c) = Some (i, t, m)"
    using i by (auto simp: intern_intern_string split: option.splits prod.splits)
  note io = intern_string_ok [OF ctx_okD(2) [OF c] s]
  have at: "atoms c' = t" using i s by (auto simp: intern_intern_string split: if_splits)
  show "bytes_of_atom (atoms c') i = Some bs" using io(2) at by simp
  show "\<And>j cs. bytes_of_atom (atoms c) j = Some cs \<Longrightarrow> bytes_of_atom (atoms c') j = Some cs"
    using io(3) at by simp
  have "ctx_ok c' \<and> (\<forall>q x. cells c q = Some x \<longrightarrow> cells c' q = Some x) \<and>
      (\<forall>q ob. cells c' q = Some (HObj ob) \<longrightarrow> cells c q = Some (HObj ob))"
  proof (cases "atoms_find (atoms c) bs")
    case (Some k)
    then have "c' = c\<lparr>atoms := t\<rparr>" using i s by (auto simp: intern_intern_string)
    then show ?thesis using c io(1) by (simp add: ctx_ok_def)
  next
    case None
    then obtain p where p: "alloc_string bs (mem c) = Some (p, m)"
      using s by (auto simp: intern_string_def split: option.splits prod.splits)
    then have c': "c' = c\<lparr>mem := m, gc_objects := gc_objects c @ [p], cells := (cells c)(p \<mapsto> HString bs), atoms := t\<rparr>"
      using i s None by (auto simp: intern_intern_string)
    have "unat (of_nat (8 + length bs + 1) :: u64) = take_bit 64 (8 + length bs + 1)"
      by (simp only: unsigned_of_nat) simp
    also have "\<dots> = 8 + length bs + 1" using len by (intro take_bit_nat_eq_self) simp
    finally have sz: "0 < unat (of_nat (8 + length bs + 1) :: u64)" by linarith
    note af = alloc_fresh [OF c p [unfolded alloc_string_def] sz]
    show ?thesis
      using c io(1) af unfolding ctx_ok_def c' by (auto split: if_splits)
  qed
  then show "ctx_ok c'" "\<And>q x. cells c q = Some x \<Longrightarrow> cells c' q = Some x"
    "\<And>q ob. cells c' q = Some (HObj ob) \<Longrightarrow> cells c q = Some (HObj ob)" by blast+
qed

section \<open>Writing and reading a named property\<close>

lemma set_prop_value_mem:
  "set_prop_value k v st m = (st', m', b) \<Longrightarrow> m' = m \<or> alloc_property m = Some m'"
  by (auto simp: set_prop_value_def Let_def split: option.splits if_splits)

lemma alloc_property_mem:
  assumes "region_small m" and "alloc_property m = Some m'"
  shows "region_small m'" and "m_start m' = m_start m" and "m_offset m \<le> m_offset m'"
proof -
  obtain p where p: "mem_alloc 24 8 m = Some (p, m')" using assms(2) by (auto simp: alloc_property_def)
  have r: "region_ok m" using assms(1) by (simp add: region_small_def)
  note b = mem_alloc_block [OF r _ _ p, of 3, simplified]
  show "region_small m'" using b(1,3) assms(1) by (simp add: region_small_def)
  show "m_start m' = m_start m" by (rule b(2))
  have "unat (m_offset m) \<le> unat (m_offset m')" using b(4,5) by linarith
  then show "m_offset m \<le> m_offset m'" by (simp add: word_le_nat_alt)
qed

text \<open>A successful assignment into the property store of an object.\<close>

lemma set_props_at_ok:
  assumes c: "ctx_ok c" and p: "cells c p = Some (HObj ob)" and small: "prop_count (props ob) < 2 ^ 32 - 1"
    and s: "set_props_at k x p ob c = (c', True)"
  obtains ob' where "ctx_ok c'" and "cells c' = (cells c)(p \<mapsto> HObj ob')" and "atoms c' = atoms c"
    and "is_array ob' = is_array ob" and "proto ob' = proto ob" and "arr ob' = arr ob"
    and "map_of (prop_list (props ob')) = (map_of (prop_list (props ob)))(k \<mapsto> x)"
proof -
  obtain st m where sv: "set_prop_value k x (props ob) (mem c) = (st, m, True)"
    and c': "c' = put_object p (ob\<lparr>props := st\<rparr>) (c\<lparr>mem := m\<rparr>)"
    using s by (auto simp: set_props_at_def split: prod.splits)
  have po: "props_ok (props ob)" "arr_ok (arr ob)" using ctx_okD(4) [OF c p] by auto
  note sp = set_prop_value_True [OF po(1) small sv]
  have m: "region_small m \<and> m_start m = m_start (mem c) \<and> m_offset (mem c) \<le> m_offset m"
    using set_prop_value_mem [OF sv] alloc_property_mem [OF ctx_okD(1) [OF c]] ctx_okD(1) [OF c] by auto
  have "ctx_ok c'"
    unfolding c' using m po sp(1) by (intro ctx_ok_put_object [OF c p]) auto
  then show thesis
    by (intro that [of "ob\<lparr>props := st\<rparr>"]) (auto simp: c' put_object_def sp(2))
qed

lemma chain_lookup_own:
  "object_ptr c v = Some (p, ob) \<Longrightarrow> own ob = Some x \<Longrightarrow> chain_lookup own d PROTO_SEARCH_LIMIT c v = Some x"
proof -
  assume a: "object_ptr c v = Some (p, ob)" "own ob = Some x"
  have lim: "PROTO_SEARCH_LIMIT = Suc 63" by (simp add: PROTO_SEARCH_LIMIT_def)
  show ?thesis unfolding lim chain_lookup.simps using a by simp
qed

lemma set_get_property_str:
  assumes c: "ctx_ok c" and ob: "object_ptr c v = Some (p, ob)"
    and name: "parse_index name = None" "name \<noteq> ''length''" "length name < 2 ^ 32"
    and small: "prop_count (props ob) < 2 ^ 32 - 1"
    and s: "set_property_str v name x c = (c', True)"
  shows "ctx_ok c'" and "snd (get_property_str c' v name) = Some x"
    and "\<And>w q ob2. object_ptr c w = Some (q, ob2) \<Longrightarrow> q \<noteq> p \<Longrightarrow> object_ptr c' w = Some (q, ob2)"
proof -
  have v: "is_ptr v" "as_ptr v = p" "p \<noteq> 0" "cells c p = Some (HObj ob)" using ob by (auto simp: object_ptr_Some)
  obtain c1 atom where i: "intern name c = (c1, Some atom)"
    and sp: "set_props_at (PROP_KEY_ATOM, of_nat atom) x p ob c1 = (c', True)"
    using s ob name(1,2) by (auto simp: set_property_str_def split: prod.splits option.splits)
  note io = intern_ok [OF c i name(3)]
  have p1: "cells c1 p = Some (HObj ob)" using io(4) v(4) by blast
  obtain ob' where o: "ctx_ok c'" "cells c' = (cells c1)(p \<mapsto> HObj ob')" "atoms c' = atoms c1"
    "is_array ob' = is_array ob" "map_of (prop_list (props ob')) = (map_of (prop_list (props ob)))((PROP_KEY_ATOM, of_nat atom) \<mapsto> x)"
    by (rule set_props_at_ok [OF io(1) p1 small sp]) blast
  show "ctx_ok c'" by (rule o(1))
  show "\<And>w q ob2. object_ptr c w = Some (q, ob2) \<Longrightarrow> q \<noteq> p \<Longrightarrow> object_ptr c' w = Some (q, ob2)"
    using io(4) by (auto simp: object_ptr_Some o(2))
  have find: "atoms_find (atoms c') name = Some atom"
    using atoms_find_iff [OF ctx_okD(2) [OF o(1)]] io(2) o(3) by simp
  have op: "object_ptr (c'\<lparr>atoms := t\<rparr>) v = Some (p, ob')" for t
    using v by (simp add: object_ptr_Some o(2))
  have "find_prop_value (PROP_KEY_ATOM, of_nat atom) (props ob') = Some x"
    using find_prop_value_eq [of "props ob'"] ctx_okD(4) [OF o(1), of p ob'] o(2,5) by simp
  then have own: "own_atom atom name ob' = Some x" using name(2) by (simp add: own_atom_def)
  have "intern name c' = (c'\<lparr>atoms := fst (atoms_add_ref atom (atoms c'))\<rparr>, Some atom)"
    using find by (simp add: intern_def)
  then show "snd (get_property_str c' v name) = Some x"
    using name(1,2) chain_lookup_own [of _ v p ob' "own_atom atom name", OF op own]
    by (simp add: get_property_str_def get_property_atom_def)
qed

section \<open>The prototype chain\<close>

text \<open>The prototype links, without regard to any limit: from \<open>v\<close> over the objects \<open>obs\<close> to the value \<open>w\<close> that the
  last of them has as its prototype.\<close>

inductive links :: "js_ctx \<Rightarrow> js_value \<Rightarrow> heap_object list \<Rightarrow> js_value \<Rightarrow> bool" for c where
  links_refl: "links c v [] v"
| links_step: "object_ptr c v = Some (p, ob) \<Longrightarrow> links c (proto ob) obs w \<Longrightarrow> links c v (ob # obs) w"

inductive_simps links_Nil: "links c v [] w"
inductive_simps links_Cons: "links c v (ob # obs) w"

text \<open>The own properties of an object, on its abstract contents: the list of its properties and the list of its
  elements.\<close>

definition own_named :: "nat \<Rightarrow> bytes \<Rightarrow> heap_object \<Rightarrow> js_value option" where
  "own_named atom name ob =
     (if is_array ob \<and> name = ''length'' then Some (from_int32 (of_nat (length (arr_list (arr ob)))))
      else map_of (prop_list (props ob)) (0, of_nat atom))"

definition own_at :: "nat \<Rightarrow> heap_object \<Rightarrow> js_value option" where
  "own_at idx ob =
     (if is_array ob \<and> idx < length (arr_list (arr ob)) then Some (arr_list (arr ob) ! idx)
      else map_of (prop_list (props ob)) (1, of_nat idx))"

text \<open>What a read from \<open>v\<close> has to return: the value of the first object that has the property, if it is among the
  first 64; \<open>undefined\<close> when the chain ends without it or has 64 objects without it; an error when the chain
  leads to something that is not an object before that.\<close>

definition reads_chain :: "js_ctx \<Rightarrow> js_value \<Rightarrow> (heap_object \<Rightarrow> js_value option) \<Rightarrow> js_value option \<Rightarrow> bool" where
  "reads_chain c v own r \<longleftrightarrow>
     (\<forall>obs ob w x. links c v (obs @ [ob]) w \<and> length obs < 64 \<and> (\<forall>o' \<in> set obs. own o' = None) \<and> own ob = Some x
        \<longrightarrow> r = Some x) \<and>
     (\<forall>obs w. links c v obs w \<and> (\<forall>o' \<in> set obs. own o' = None) \<and>
        (length obs = 64 \<or> length obs < 64 \<and> obs \<noteq> [] \<and> (w = JS_NULL \<or> w = JS_UNDEFINED)) \<longrightarrow> r = Some JS_UNDEFINED) \<and>
     (\<forall>obs w. links c v obs w \<and> (\<forall>o' \<in> set obs. own o' = None) \<and> length obs < 64 \<and> object_ptr c w = None \<and>
        (obs = [] \<or> w \<noteq> JS_NULL \<and> w \<noteq> JS_UNDEFINED) \<longrightarrow> r = None)"

lemma links_append: "links c v (obs @ obs') w \<longleftrightarrow> (\<exists>u. links c v obs u \<and> links c u obs' w)"
  by (induction obs arbitrary: v) (auto simp: links_Nil links_Cons)

lemma no_object: "object_ptr c JS_NULL = None" "object_ptr c JS_UNDEFINED = None"
  using is_ptr_excludes(3,4) unfolding object_ptr_def is_null_def is_undefined_def by auto

lemma lookup_skip:
  "links c v obs w \<Longrightarrow> \<forall>ob \<in> set obs. own ob = None \<Longrightarrow> length obs \<le> n \<Longrightarrow> w \<noteq> JS_NULL \<Longrightarrow> w \<noteq> JS_UNDEFINED \<Longrightarrow>
     chain_lookup own d n c v = chain_lookup own d (n - length obs) c w"
proof (induction arbitrary: n rule: links.induct)
  case (links_step v p ob obs w)
  obtain m where n: "n = Suc m" using links_step.prems(2) by (cases n) auto
  have "proto ob \<noteq> JS_NULL" "proto ob \<noteq> JS_UNDEFINED"
    using links_step.hyps(2) links_step.prems(3,4) by (cases obs; auto simp: links_Nil links_Cons no_object)+
  with links_step show ?case by (simp add: n is_null_def is_undefined_def)
qed simp

lemma lookup_end:
  "links c v obs w \<Longrightarrow> \<forall>ob \<in> set obs. own ob = None \<Longrightarrow> length obs \<le> n \<Longrightarrow> obs \<noteq> [] \<Longrightarrow> w = JS_NULL \<or> w = JS_UNDEFINED \<Longrightarrow>
     chain_lookup own d n c v = Some d"
proof (induction arbitrary: n rule: links.induct)
  case (links_step v p ob obs w)
  obtain m where n: "n = Suc m" using links_step.prems(2) by (cases n) auto
  show ?case
  proof (cases "obs = []")
    case True
    with links_step show ?thesis by (auto simp: n is_null_def is_undefined_def links_Nil)
  next
    case False
    with links_step show ?thesis by (simp add: n)
  qed
qed simp

lemma chain_lookup_reads: "reads_chain c v own (chain_lookup own JS_UNDEFINED PROTO_SEARCH_LIMIT c v)"
proof -
  let ?r = "chain_lookup own JS_UNDEFINED PROTO_SEARCH_LIMIT c v"
  have lim: "PROTO_SEARCH_LIMIT = 64" by (rule PROTO_SEARCH_LIMIT_def)
  have at: "?r = chain_lookup own JS_UNDEFINED (64 - length obs) c w"
    if "links c v obs w" "\<forall>o' \<in> set obs. own o' = None" "length obs \<le> 64" "w \<noteq> JS_NULL" "w \<noteq> JS_UNDEFINED" for obs w
    using lookup_skip [OF that(1,2,3,4,5)] by (simp only: lim)
  have "?r = Some x" if found: "links c v (obs @ [ob]) w" "length obs < 64" "\<forall>o' \<in> set obs. own o' = None" "own ob = Some x"
    for obs ob w x
  proof -
    obtain u p where u: "links c v obs u" "object_ptr c u = Some (p, ob)"
      using found(1) by (auto simp: links_append links_Cons)
    moreover have "64 - length obs = Suc (63 - length obs)" using found(2) by simp
    ultimately show ?thesis using at [OF u(1) found(3)] found(2,4) no_object by (cases "u = JS_NULL \<or> u = JS_UNDEFINED") auto
  qed
  moreover have "?r = Some JS_UNDEFINED"
    if "links c v obs w" "\<forall>o' \<in> set obs. own o' = None"
      "length obs = 64 \<or> length obs < 64 \<and> obs \<noteq> [] \<and> (w = JS_NULL \<or> w = JS_UNDEFINED)" for obs w
  proof (cases "w = JS_NULL \<or> w = JS_UNDEFINED")
    case True
    with that show ?thesis using lookup_end [OF that(1,2), of 64] by (cases obs) (auto simp: lim)
  next
    case False
    with that show ?thesis using at [OF that(1,2)] by auto
  qed
  moreover have "?r = None"
    if "links c v obs w" "\<forall>o' \<in> set obs. own o' = None" "length obs < 64" "object_ptr c w = None"
      "obs = [] \<or> w \<noteq> JS_NULL \<and> w \<noteq> JS_UNDEFINED" for obs w
  proof -
    have "?r = chain_lookup own JS_UNDEFINED (64 - length obs) c w"
      using that(1,5) at [OF that(1,2) less_imp_le [OF that(3)]] by (cases "obs = []") (auto simp: links_Nil lim)
    moreover have "64 - length obs = Suc (63 - length obs)" using that(3) by simp
    ultimately show ?thesis using that(4) by simp
  qed
  ultimately show ?thesis unfolding reads_chain_def by blast
qed

lemma reads_chainD:
  assumes "reads_chain c v own r" and "\<forall>o' \<in> set obs. own o' = None"
  shows "links c v (obs @ [ob]) w \<Longrightarrow> length obs < 64 \<Longrightarrow> own ob = Some x \<Longrightarrow> r = Some x"
    and "links c v obs w \<Longrightarrow> length obs = 64 \<or> length obs < 64 \<and> obs \<noteq> [] \<and> (w = JS_NULL \<or> w = JS_UNDEFINED) \<Longrightarrow>
      r = Some JS_UNDEFINED"
    and "links c v obs w \<Longrightarrow> length obs < 64 \<Longrightarrow> object_ptr c w = None \<Longrightarrow>
      obs = [] \<or> w \<noteq> JS_NULL \<and> w \<noteq> JS_UNDEFINED \<Longrightarrow> r = None"
  using assms unfolding reads_chain_def by blast+

text \<open>On the objects of a well-formed context the reader's test of one object agrees with the contents.\<close>

lemma links_objects:
  "links c v obs w \<Longrightarrow> ctx_ok c \<Longrightarrow> ob \<in> set obs \<Longrightarrow> props_ok (props ob) \<and> arr_ok (arr ob)"
  by (induction rule: links.induct) (auto simp: object_ptr_Some dest: ctx_okD(4))

lemma own_contents:
  assumes "props_ok (props ob)" and "arr_ok (arr ob)"
  shows "own_atom atom name ob = own_named atom name ob" and "own_index idx ob = own_at idx ob"
  using assms by (simp_all add: own_atom_def own_named_def own_index_def own_at_def find_prop_value_eq length_arr_list
      array_get_eq PROP_KEY_ATOM_def PROP_KEY_INDEX_def)

lemma reads_chain_cong:
  assumes r: "reads_chain c v own r"
    and eq: "\<And>obs w ob. links c v obs w \<Longrightarrow> ob \<in> set obs \<Longrightarrow> own ob = own' ob"
  shows "reads_chain c v own' r"
  unfolding reads_chain_def
proof (intro conjI allI impI; elim conjE)
  fix obs ob w x
  assume a: "links c v (obs @ [ob]) w" "length obs < 64" "\<forall>o' \<in> set obs. own' o' = None" "own' ob = Some x"
  have "\<forall>o' \<in> set obs. own o' = None" "own ob = Some x" using eq [OF a(1)] a(3,4) by simp_all
  from reads_chainD(1) [OF r this(1) a(1,2) this(2)] show "r = Some x" .
next
  fix obs w
  assume a: "links c v obs w" "\<forall>o' \<in> set obs. own' o' = None"
    "length obs = 64 \<or> length obs < 64 \<and> obs \<noteq> [] \<and> (w = JS_NULL \<or> w = JS_UNDEFINED)"
  have "\<forall>o' \<in> set obs. own o' = None" using eq [OF a(1)] a(2) by simp
  from reads_chainD(2) [OF r this a(1,3)] show "r = Some JS_UNDEFINED" .
next
  fix obs w
  assume a: "links c v obs w" "\<forall>o' \<in> set obs. own' o' = None" "length obs < 64" "object_ptr c w = None"
    "obs = [] \<or> w \<noteq> JS_NULL \<and> w \<noteq> JS_UNDEFINED"
  have "\<forall>o' \<in> set obs. own o' = None" using eq [OF a(1)] a(2) by simp
  from reads_chainD(3) [OF r this a(1,3-5)] show "r = None" .
qed

section \<open>Marking\<close>

text \<open>The children of a cell, in the order the source pushes them.\<close>

definition cell_children :: "heap_cell \<Rightarrow> js_value list" where
  "cell_children x =
     (case x of
        HObj ob \<Rightarrow>
          [proto ob]
          @ (if is_undefined (func_params ob) then [] else [func_params ob])
          @ map snd (prop_list (props ob))
          @ (if is_array ob then arr_list (arr ob) else [])
      | _ \<Rightarrow> [])"

definition gc_mark_value :: "js_ctx \<Rightarrow> js_value \<Rightarrow> u64 set \<times> js_value list \<Rightarrow> u64 set \<times> js_value list" where
  "gc_mark_value c v st =
     (case st of (marks, stack) \<Rightarrow>
        if \<not> is_ptr v \<or> as_ptr v = 0 \<or> as_ptr v \<in> marks then (marks, stack)
        else (insert (as_ptr v) marks,
              case cells c (as_ptr v) of Some x \<Rightarrow> rev (cell_children x) @ stack | None \<Rightarrow> stack))"

lemma gc_step_measure:
  assumes p: "gc_mark_value c v (marks, stack) = (marks', stack')"
  shows "card (- marks') < card (- marks) \<or> card (- marks') = card (- marks) \<and> length stack' < Suc (length stack)"
proof (cases "\<not> is_ptr v \<or> as_ptr v = 0 \<or> as_ptr v \<in> marks")
  case True
  with p show ?thesis by (auto simp: gc_mark_value_def)
next
  case False
  then have "marks' = insert (as_ptr v) marks" using p by (auto simp: gc_mark_value_def)
  moreover have "card (- insert (as_ptr v) marks) < card (- marks)"
    using False by (intro psubset_card_mono) auto
  ultimately show ?thesis by simp
qed

text \<open>The loop \<open>while let Some(val) = stack.pop()\<close>; the top of the stack is the head of the list.\<close>

function gc_loop :: "js_ctx \<Rightarrow> u64 set \<Rightarrow> js_value list \<Rightarrow> u64 set" where
  "gc_loop c marks [] = marks"
| "gc_loop c marks (v # stack) =
     (case gc_mark_value c v (marks, stack) of (marks', stack') \<Rightarrow> gc_loop c marks' stack')"
  by pat_completeness auto

termination
  by (relation "measures [\<lambda>(c, marks, stack). card (- marks), \<lambda>(c, marks, stack). length stack]")
    (auto split: prod.splits dest: gc_step_measure)

text \<open>The roots: those marked at once, and those pushed on the stack (the references held outside and
  the atoms in use).\<close>

definition gc_direct_roots :: "js_ctx \<Rightarrow> js_value list" where
  "gc_direct_roots c =
     [global_object c] @ env_stack c @ call_stack c @ [last_exception c, return_value c,
      object_proto_default c, array_proto c, array_push_fn c, array_pop_fn c]"

definition gc_pushed_roots :: "js_ctx \<Rightarrow> js_value list" where
  "gc_pushed_roots c = gcref_vals c @ atoms_mark_live (atoms c)"

definition gc_collect :: "js_ctx \<Rightarrow> u64 set" where
  "gc_collect c =
     (case fold (gc_mark_value c) (gc_direct_roots c) ({}, []) of (marks, stack) \<Rightarrow>
        gc_loop c marks (rev (gc_pushed_roots c) @ stack))"

text \<open>Reachability: from a root through children of cells.\<close>

inductive reachable :: "js_ctx \<Rightarrow> js_value list \<Rightarrow> u64 \<Rightarrow> bool" for c roots where
  root: "v \<in> set roots \<Longrightarrow> is_ptr v \<Longrightarrow> as_ptr v \<noteq> 0 \<Longrightarrow> reachable c roots (as_ptr v)"
| child: "reachable c roots p \<Longrightarrow> cells c p = Some x \<Longrightarrow> v \<in> set (cell_children x) \<Longrightarrow> is_ptr v \<Longrightarrow>
    as_ptr v \<noteq> 0 \<Longrightarrow> reachable c roots (as_ptr v)"

definition heap_refs :: "js_value \<Rightarrow> u64 set" where
  "heap_refs v = (if is_ptr v \<and> as_ptr v \<noteq> 0 then {as_ptr v} else {})"

definition closed_marks :: "js_ctx \<Rightarrow> u64 set \<Rightarrow> js_value list \<Rightarrow> bool" where
  "closed_marks c marks stack \<longleftrightarrow>
     (\<forall>p \<in> marks. \<forall>x. cells c p = Some x \<longrightarrow>
        (\<forall>v \<in> set (cell_children x). heap_refs v \<subseteq> marks \<union> (\<Union>w \<in> set stack. heap_refs w)))"

lemma gc_mark_value_effect:
  assumes "gc_mark_value c v (marks, stack) = (marks', stack')"
  shows "marks' = marks \<union> heap_refs v"
    and "set stack \<subseteq> set stack'"
    and "closed_marks c marks (v # stack) \<Longrightarrow> closed_marks c marks' stack'"
    and "\<And>w. w \<in> set stack' \<Longrightarrow> w \<in> set stack \<or>
      (\<exists>x. is_ptr v \<and> as_ptr v \<noteq> 0 \<and> cells c (as_ptr v) = Some x \<and> w \<in> set (cell_children x))"
proof -
  show m: "marks' = marks \<union> heap_refs v"
    using assms by (auto simp: gc_mark_value_def heap_refs_def split: if_splits)
  show s: "set stack \<subseteq> set stack'"
    using assms by (auto simp: gc_mark_value_def split: if_splits option.splits)
  show "\<And>w. w \<in> set stack' \<Longrightarrow> w \<in> set stack \<or>
      (\<exists>x. is_ptr v \<and> as_ptr v \<noteq> 0 \<and> cells c (as_ptr v) = Some x \<and> w \<in> set (cell_children x))"
    using assms by (auto simp: gc_mark_value_def split: if_splits option.splits)
  assume cl: "closed_marks c marks (v # stack)"
  show "closed_marks c marks' stack'"
    unfolding closed_marks_def
  proof (intro ballI allI impI)
    fix p x w
    assume p: "p \<in> marks'" and x: "cells c p = Some x" and w: "w \<in> set (cell_children x)"
    show "heap_refs w \<subseteq> marks' \<union> (\<Union>w \<in> set stack'. heap_refs w)"
    proof (cases "p \<in> marks")
      case True
      then have "heap_refs w \<subseteq> marks \<union> (\<Union>w \<in> set (v # stack). heap_refs w)"
        using cl x w unfolding closed_marks_def by blast
      then show ?thesis using m s by auto
    next
      case False
      then have "p = as_ptr v" "is_ptr v" "as_ptr v \<noteq> 0"
        using p m by (auto simp: heap_refs_def split: if_splits)
      then have "set (cell_children x) \<subseteq> set stack'"
        using assms x False by (auto simp: gc_mark_value_def)
      with w show ?thesis by auto
    qed
  qed
qed

lemma gc_loop_closed:
  "closed_marks c marks stack \<Longrightarrow>
     marks \<subseteq> gc_loop c marks stack \<and> (\<forall>v \<in> set stack. heap_refs v \<subseteq> gc_loop c marks stack) \<and>
     closed_marks c (gc_loop c marks stack) []"
proof (induction c marks stack rule: gc_loop.induct)
  case (2 c marks v stack)
  obtain marks' stack' where g: "gc_mark_value c v (marks, stack) = (marks', stack')"
    by (cases "gc_mark_value c v (marks, stack)")
  note e = gc_mark_value_effect [OF g]
  from "2.IH" [OF g [symmetric] e(3) [OF "2.prems"]] e(1,2) show ?case by (auto simp: g)
qed simp

lemma gc_mark_reachable:
  assumes g: "gc_mark_value c v (marks, stack) = (marks', stack')"
    and m: "\<forall>p \<in> marks. reachable c roots p" and s: "\<forall>v \<in> set stack. \<forall>p \<in> heap_refs v. reachable c roots p"
    and v: "\<forall>p \<in> heap_refs v. reachable c roots p"
  shows "\<forall>p \<in> marks'. reachable c roots p" and "\<forall>v \<in> set stack'. \<forall>p \<in> heap_refs v. reachable c roots p"
proof -
  note e = gc_mark_value_effect [OF g]
  show "\<forall>p \<in> marks'. reachable c roots p" using m v e(1) by auto
  show "\<forall>v \<in> set stack'. \<forall>p \<in> heap_refs v. reachable c roots p"
  proof (intro ballI)
    fix w p assume w: "w \<in> set stack'" "p \<in> heap_refs w"
    from e(4) [OF w(1)] show "reachable c roots p"
    proof
      assume "w \<in> set stack"
      then show ?thesis using s w(2) by auto
    next
      assume "\<exists>x. is_ptr v \<and> as_ptr v \<noteq> 0 \<and> cells c (as_ptr v) = Some x \<and> w \<in> set (cell_children x)"
      then obtain x where x: "is_ptr v" "as_ptr v \<noteq> 0" "cells c (as_ptr v) = Some x" "w \<in> set (cell_children x)"
        by blast
      have "reachable c roots (as_ptr v)" using v x(1,2) by (simp add: heap_refs_def)
      then show ?thesis
        using reachable.child [OF _ x(3,4)] w(2) by (auto simp: heap_refs_def split: if_splits)
    qed
  qed
qed

lemma gc_loop_reachable:
  "\<forall>p \<in> marks. reachable c roots p \<Longrightarrow> \<forall>v \<in> set stack. \<forall>p \<in> heap_refs v. reachable c roots p \<Longrightarrow>
     \<forall>p \<in> gc_loop c marks stack. reachable c roots p"
proof (induction c marks stack rule: gc_loop.induct)
  case (2 c marks v stack)
  obtain marks' stack' where g: "gc_mark_value c v (marks, stack) = (marks', stack')"
    by (cases "gc_mark_value c v (marks, stack)")
  have "\<forall>v \<in> set stack. \<forall>p \<in> heap_refs v. reachable c roots p" "\<forall>p \<in> heap_refs v. reachable c roots p"
    using "2.prems"(2) by auto
  note mr = gc_mark_reachable [OF g "2.prems"(1) this]
  show ?case using "2.IH" [OF g [symmetric] mr] by (simp add: g)
qed simp

definition gc_roots :: "js_ctx \<Rightarrow> js_value list" where
  "gc_roots c = gc_direct_roots c @ gc_pushed_roots c"

text \<open>Marking a list of roots directly keeps both invariants.\<close>

lemma gc_fold_closed:
  assumes "closed_marks c marks stack" and "fold (gc_mark_value c) vs (marks, stack) = (marks', stack')"
  shows "closed_marks c marks' stack' \<and> marks \<subseteq> marks' \<and> (\<forall>v \<in> set vs. heap_refs v \<subseteq> marks') \<and> set stack \<subseteq> set stack'"
  using assms
proof (induction vs arbitrary: marks stack)
  case (Cons v vs)
  obtain m1 s1 where g: "gc_mark_value c v (marks, stack) = (m1, s1)" by (cases "gc_mark_value c v (marks, stack)")
  note e = gc_mark_value_effect [OF g]
  have "closed_marks c marks (v # stack)" using Cons.prems(1) by (auto simp: closed_marks_def)
  from Cons.IH [OF e(3) [OF this]] Cons.prems(2) e(1,2) show ?case by (auto simp: g)
qed simp

lemma gc_fold_reachable:
  assumes "\<forall>p \<in> marks. reachable c roots p" and "\<forall>v \<in> set stack. \<forall>p \<in> heap_refs v. reachable c roots p"
    and "\<forall>v \<in> set vs. \<forall>p \<in> heap_refs v. reachable c roots p"
    and "fold (gc_mark_value c) vs (marks, stack) = (marks', stack')"
  shows "(\<forall>p \<in> marks'. reachable c roots p) \<and> (\<forall>v \<in> set stack'. \<forall>p \<in> heap_refs v. reachable c roots p)"
  using assms
proof (induction vs arbitrary: marks stack)
  case (Cons v vs)
  obtain m1 s1 where g: "gc_mark_value c v (marks, stack) = (m1, s1)" by (cases "gc_mark_value c v (marks, stack)")
  have v: "\<forall>p \<in> heap_refs v. reachable c roots p" using Cons.prems(3) by simp
  note mr = gc_mark_reachable [OF g Cons.prems(1,2) v]
  show ?case by (rule Cons.IH [of m1 s1]) (use mr Cons.prems g in auto)
qed simp

lemma gc_collect_reachable: "p \<in> gc_collect c \<longleftrightarrow> reachable c (gc_roots c) p"
proof -
  obtain marks stack where f: "fold (gc_mark_value c) (gc_direct_roots c) ({}, []) = (marks, stack)"
    by (cases "fold (gc_mark_value c) (gc_direct_roots c) ({}, [])")
  have col: "gc_collect c = gc_loop c marks (rev (gc_pushed_roots c) @ stack)" by (simp add: gc_collect_def f)
  have r: "\<forall>v \<in> set (gc_roots c). \<forall>p \<in> heap_refs v. reachable c (gc_roots c) p"
    using reachable.root by (auto simp: heap_refs_def)
  have fr: "(\<forall>p \<in> marks. reachable c (gc_roots c) p) \<and> (\<forall>v \<in> set stack. \<forall>p \<in> heap_refs v. reachable c (gc_roots c) p)"
    by (rule gc_fold_reachable [OF _ _ _ f]) (use r in \<open>auto simp: gc_roots_def\<close>)
  have fc: "closed_marks c marks stack \<and> {} \<subseteq> marks \<and> (\<forall>v \<in> set (gc_direct_roots c). heap_refs v \<subseteq> marks) \<and>
      set [] \<subseteq> set stack"
    by (rule gc_fold_closed [OF _ f]) (simp add: closed_marks_def)
  then have "closed_marks c marks (rev (gc_pushed_roots c) @ stack)" by (fastforce simp: closed_marks_def)
  note g = gc_loop_closed [OF this, folded col]
  have roots: "heap_refs v \<subseteq> gc_collect c" if "v \<in> set (gc_roots c)" for v
    using that g fc by (auto simp: gc_roots_def)
  show ?thesis
  proof
    assume "p \<in> gc_collect c"
    moreover have "\<forall>p \<in> gc_loop c marks (rev (gc_pushed_roots c) @ stack). reachable c (gc_roots c) p"
      by (rule gc_loop_reachable) (use fr r in \<open>auto simp: gc_roots_def\<close>)
    ultimately show "reachable c (gc_roots c) p" by (simp add: col)
  next
    assume "reachable c (gc_roots c) p"
    then show "p \<in> gc_collect c"
    proof induction
      case (root v)
      then show ?case using roots [of v] by (auto simp: heap_refs_def)
    next
      case (child p x v)
      then show ?case using g by (fastforce simp: closed_marks_def heap_refs_def)
    qed
  qed
qed

text \<open>A context with one object.\<close>

definition example_object :: heap_object where
  "example_object = \<lparr>is_array = False, class_id = CLASS_OBJECT, proto = JS_NULL, props = props_empty,
     arr = \<lparr>array_len = 0, array_cap = 0, elements = None\<rparr>, opaque_ptr = 0, func_idx = 0, func_params = JS_UNDEFINED\<rparr>"

definition example_ctx :: js_ctx where
  "example_ctx = \<lparr>mem = (region_new 4096 4096)\<lparr>m_offset := 80\<rparr>, cells = [4096 \<mapsto> HObj example_object],
     atoms = atoms_new, gc_objects = [4096], global_object = from_ptr 4096, env_stack = [], call_stack = [],
     last_exception = JS_UNDEFINED, return_value = JS_UNDEFINED, gcref_vals = [], object_proto_default = JS_UNDEFINED,
     array_proto = JS_UNDEFINED, array_push_fn = JS_UNDEFINED, array_pop_fn = JS_UNDEFINED\<rparr>"

lemma example_ctx_ok: "ctx_ok example_ctx"
  by (auto simp: ctx_ok_def example_ctx_def example_object_def region_small_def region_ok_def region_new_def
      atoms_ok_new props_ok_def props_empty_def arr_ok_def PROP_MAP_THRESHOLD_def)

lemma example_ptr: "object_ptr example_ctx (from_ptr 4096) = Some (4096, example_object)"
  using ptr_roundtrip [of 4096] by (simp add: object_ptr_def example_ctx_def)

section \<open>Properties\<close>

text \<open>C18: Writing a named property of an object and reading it back gives the value, the context stays
  well-formed, and no other object changes.\<close>

theorem property_set_get:
  assumes "ctx_ok c" and "object_ptr c v = Some (p, ob)" and "parse_index name = None" and "name \<noteq> ''length''"
    and "length name < 2 ^ 32" and "prop_count (props ob) < 2 ^ 32 - 1" and "set_property_str v name x c = (c', True)"
  shows "ctx_ok c' \<and> snd (get_property_str c' v name) = Some x \<and>
    (\<forall>w q ob2. object_ptr c w = Some (q, ob2) \<longrightarrow> q \<noteq> p \<longrightarrow> object_ptr c' w = Some (q, ob2))"
  using set_get_property_str [OF assms] by blast

theorem property_set_get_witness:
  "snd (get_property_str (fst (set_property_str (from_ptr 4096) ''x'' 42 example_ctx)) (from_ptr 4096) ''x'') = Some 42"
proof -
  have "snd (set_property_str (from_ptr 4096) ''x'' 42 example_ctx) = True"
    by (simp add: set_property_str_def example_ptr parse_index_def example_object_def intern_def atoms_find_def
        set_props_at_def prop_eval,
        simp add: example_ctx_def atoms_new_def hm_get_def alloc_string_def mem_eval atoms_push_def)
  then have "set_property_str (from_ptr 4096) ''x'' 42 example_ctx =
      (fst (set_property_str (from_ptr 4096) ''x'' 42 example_ctx), True)" by (metis prod.collapse)
  from property_set_get [OF example_ctx_ok example_ptr _ _ _ _ this] show ?thesis
    by (simp add: parse_index_def example_object_def props_empty_def)
qed

text \<open>C38: A read walks the prototype chain, and reads nothing else: in a well-formed context it gives the value of the
  first object along the prototype links that has the property itself (for a name its entry in the list of
  properties, or the length of an array; for an index the element of an array, or the entry in the list of
  properties), provided it is among the first 64 objects. It gives \<open>undefined\<close> when the chain ends without the
  property, and also when 64 objects do not have it, so on a cycle of prototypes and on longer chains; and no
  value when the chain leads to something that is not an object.\<close>

theorem prototype_lookup:
  assumes "ctx_ok c"
  shows "reads_chain c v (own_named atom name) (get_property_atom c v atom name) \<and>
    reads_chain c v (own_at idx) (get_property_index c v idx)"
  unfolding get_property_atom_def get_property_index_def
  using links_objects [OF _ assms] own_contents
  by (auto intro!: reads_chain_cong [OF chain_lookup_reads])

text \<open>An object without properties whose prototype is an array with one element.\<close>

definition chain_array :: heap_object where
  "chain_array = example_object\<lparr>is_array := True, class_id := CLASS_ARRAY,
     arr := \<lparr>array_len = 1, array_cap = 1, elements = Some [42]\<rparr>\<rparr>"

definition chain_ctx :: js_ctx where
  "chain_ctx = example_ctx\<lparr>cells := [4096 \<mapsto> HObj (example_object\<lparr>proto := from_ptr 4104\<rparr>), 4104 \<mapsto> HObj chain_array]\<rparr>"

lemma chain_ctx_ok: "ctx_ok chain_ctx"
  using example_ctx_ok unfolding ctx_ok_def chain_ctx_def
  by (auto simp: chain_array_def example_ctx_def example_object_def region_new_def arr_ok_def props_ok_def props_empty_def
      PROP_MAP_THRESHOLD_def)

lemma chain_links:
  "links chain_ctx (from_ptr 4096) [example_object\<lparr>proto := from_ptr 4104\<rparr>, chain_array] JS_NULL"
proof -
  have "object_ptr chain_ctx (from_ptr 4096) = Some (4096, example_object\<lparr>proto := from_ptr 4104\<rparr>)"
    "object_ptr chain_ctx (from_ptr 4104) = Some (4104, chain_array)"
    using ptr_roundtrip [of 4096] ptr_roundtrip [of 4104] by (simp_all add: object_ptr_Some chain_ctx_def)
  then show ?thesis by (simp add: links_Cons links_Nil) (simp add: chain_array_def example_object_def)
qed

lemma chain_own:
  "own_at i (example_object\<lparr>proto := w\<rparr>) = None" "own_at i chain_array = (if i = 0 then Some 42 else None)"
  by (simp_all add: own_at_def chain_array_def example_object_def arr_list_def props_empty_def)

theorem prototype_lookup_witness:
  "get_property_index chain_ctx (from_ptr 4096) 0 = Some 42 \<and> get_property_index chain_ctx (from_ptr 4096) 1 = Some JS_UNDEFINED"
proof -
  let ?child = "example_object\<lparr>proto := from_ptr 4104\<rparr>"
  have r: "reads_chain chain_ctx (from_ptr 4096) (own_at i) (get_property_index chain_ctx (from_ptr 4096) i)" for i
    using prototype_lookup [OF chain_ctx_ok, of "from_ptr 4096" 0 "[]" i] by (rule conjunct2)
  have "get_property_index chain_ctx (from_ptr 4096) 0 = Some 42"
    by (rule reads_chainD(1) [where obs = "[?child]" and ob = chain_array and w = JS_NULL, OF r])
      (simp_all add: chain_own chain_links)
  moreover have "get_property_index chain_ctx (from_ptr 4096) 1 = Some JS_UNDEFINED"
    by (rule reads_chainD(2) [where obs = "[?child, chain_array]", OF r _ chain_links]) (simp_all add: chain_own)
  ultimately show ?thesis by blast
qed

text \<open>C17: The marking phase of the collector marks exactly the cells reachable from the roots through
  prototypes, function parameters, properties and array elements, and it always ends, also on cyclic
  structures.\<close>

theorem gc_marks_reachable: "gc_collect c = {p. reachable c (gc_roots c) p}"
  using gc_collect_reachable [of _ c] by blast

end
