(* ===== verification/Server_Parse.thy ===== *)
theory Server_Parse
  imports Resp Shard
begin

text \<open>
  The argument parsers of the server (\<open>src/muon_cache/server.rs\<close>): a request is a protocol value that is
  flattened to its arguments, the first argument is looked up in the table of command names without
  regard to case, numbers are parsed with \<open>str::parse\<close> after a check for UTF-8, and \<open>SET\<close> has a loop over its
  options. The theory shows which words name a command and that the options of \<open>SET\<close> are read as
  written.
\<close>

section \<open>Model\<close>

subsection \<open>Case\<close>

definition is_ascii_lowercase :: "byte \<Rightarrow> bool" where
  "is_ascii_lowercase b \<longleftrightarrow> CHR ''a'' \<le> b \<and> b \<le> CHR ''z''"

definition to_ascii_uppercase :: "byte \<Rightarrow> byte" where
  "to_ascii_uppercase b = (if is_ascii_lowercase b then char_of ((of_char b :: nat) - 32) else b)"

text \<open>\<open>b as char\<close> pushed to a \<open>String\<close>: a byte above 127 becomes a two-byte sequence.\<close>

definition char_utf8 :: "byte \<Rightarrow> bytes" where
  "char_utf8 b =
     (let n = of_char b :: nat in if n < 0x80 then [b] else [char_of (0xC0 + n div 64), char_of (0x80 + n mod 64)])"

definition to_upper_ascii :: "bytes \<Rightarrow> bytes" where
  "to_upper_ascii input =
     (if \<not> list_ex is_ascii_lowercase input \<and> utf8_ok input then input
      else concat (map (\<lambda>b. char_utf8 (to_ascii_uppercase b)) input))"

subsection \<open>Numbers\<close>

text \<open>\<open>str::parse::<u64>\<close> and \<open>str::parse::<usize>\<close>: an optional plus sign, at least one digit, a value below \<open>2^64\<close>.\<close>

definition u64_from_str :: "bytes \<Rightarrow> nat option" where
  "u64_from_str s =
     (let ds = (case s of c # rest \<Rightarrow> if c = CHR ''+'' then rest else s | [] \<Rightarrow> [])
      in if ds \<noteq> [] \<and> list_all is_digit ds \<and> nat_of_dec ds < 2 ^ 64 then Some (nat_of_dec ds) else None)"

definition parse_usize :: "bytes \<Rightarrow> nat option" where
  "parse_usize input = (if utf8_ok input then u64_from_str input else None)"

definition parse_u64 :: "bytes \<Rightarrow> u64 option" where
  "parse_u64 input = (if utf8_ok input then map_option of_nat (u64_from_str input) else None)"

definition parse_i64 :: "bytes \<Rightarrow> int option" where
  "parse_i64 input =
     (if utf8_ok input then (case i64_from_str input of Ok n \<Rightarrow> Some n | Err \<Rightarrow> None) else None)"

text \<open>\<open>parse_f64\<close> over the conversion \<open>str::parse::<f64>\<close>, which is a parameter.\<close>

definition parse_f64 :: "(bytes \<Rightarrow> f64 option) \<Rightarrow> bytes \<Rightarrow> f64 option" where
  "parse_f64 f64_from_str input = (if utf8_ok input then f64_from_str input else None)"

definition unwrap_or :: "'a option \<Rightarrow> 'a \<Rightarrow> 'a" where
  "unwrap_or v d = (case v of Some x \<Rightarrow> x | None \<Rightarrow> d)"

definition u64_saturating_mul :: "u64 \<Rightarrow> u64 \<Rightarrow> u64" where
  "u64_saturating_mul a b = (if unat a * unat b < 2 ^ 64 then a * b else - 1)"

subsection \<open>Requests\<close>

fun arg_of_item :: "resp_value \<Rightarrow> bytes option" where
  "arg_of_item (Blob b) = Some b"
| "arg_of_item (Simple s) = Some s"
| "arg_of_item (StaticSimple s) = Some s"
| "arg_of_item (Integer n) = Some (i64_to_string n)"
| "arg_of_item _ = None"

fun args_loop :: "resp_value list \<Rightarrow> bytes list \<Rightarrow> (bytes, bytes list) sum" where
  "args_loop [] out = Inr out"
| "args_loop (item # rest) out =
     (case arg_of_item item of Some b \<Rightarrow> args_loop rest (out @ [b]) | None \<Rightarrow> Inl ''ERR invalid array item'')"

fun value_to_args :: "resp_value \<Rightarrow> (bytes, bytes list) sum" where
  "value_to_args (Array vs) = args_loop vs []"
| "value_to_args (Simple s) = Inr [s]"
| "value_to_args (StaticSimple s) = Inr [s]"
| "value_to_args (Blob b) = Inr [b]"
| "value_to_args _ = Inl ''ERR invalid request''"

definition COMMANDS :: "bytes list" where
  "COMMANDS =
     [''PING'', ''ECHO'', ''SELECT'', ''DBSIZE'', ''GET'', ''SET'', ''SETNX'', ''MSET'', ''MGET'', ''GETSET'',
      ''APPEND'', ''INCR'', ''INCRBY'', ''DECR'', ''DECRBY'', ''STRLEN'', ''HSET'', ''HGET'', ''HDEL'', ''HGETALL'',
      ''HLEN'', ''HEXISTS'', ''LPUSH'', ''RPUSH'', ''LPOP'', ''RPOP'', ''LRANGE'', ''LLEN'', ''LINDEX'', ''LSET'',
      ''LINSERT'', ''LREM'', ''LPUSHX'', ''RPUSHX'', ''LTRIM'', ''SADD'', ''SREM'', ''SMEMBERS'', ''SISMEMBER'', ''SCARD'', ''SMOVE'',
      ''SUNION'', ''SINTER'', ''ZADD'', ''ZRANGE'',
      ''ZREM'', ''ZCARD'', ''XADD'', ''XRANGE'', ''XREVRANGE'', ''XLEN'', ''XDEL'', ''HINCRBY'', ''HSETNX'',
      ''DEL'', ''EXISTS'', ''EXPIRE'', ''PEXPIRE'', ''PERSIST'', ''TTL'',
      ''PTTL'', ''TYPE'', ''KEYS'', ''SCAN'', ''FLUSHDB'', ''FLUSHALL'', ''INFO'', ''EVAL'', ''EVALSHA'', ''SCRIPT'',
      ''CONFIG'', ''FUNCTION'', ''CLIENT'', ''SLOWLOG'', ''SAVE'', ''BGSAVE'', ''REPLICAOF'', ''QUIT'', ''MULTI'',
      ''EXEC'', ''DISCARD'', ''SUBSCRIBE'', ''PUBLISH'']"

definition parse_command :: "bytes \<Rightarrow> bytes option" where
  "parse_command input =
     (if length input > 16 then None
      else let buf = map to_ascii_uppercase input in if buf \<in> set COMMANDS then Some buf else None)"

text \<open>The message for a wrong number of arguments; the name stands in single quotes.\<close>

definition wrong_args :: "bytes \<Rightarrow> bytes" where
  "wrong_args cmd = ''ERR wrong number of arguments for '' @ CHR 0x27 # cmd @ [CHR 0x27]"

text \<open>The option loop of \<open>parse_set_args\<close>; the options are what is left from the index on.\<close>

fun set_options :: "bytes list \<Rightarrow> u64 option \<Rightarrow> (bytes, u64 option) sum" where
  "set_options [] expire_ms = Inr expire_ms"
| "set_options (opt # rest) expire_ms =
     (if to_upper_ascii opt = ''EX'' then
        (case rest of
           [] \<Rightarrow> Inl ''ERR syntax error''
         | sec # rest \<Rightarrow> set_options rest (Some (u64_saturating_mul (unwrap_or (parse_u64 sec) 0) 1000)))
      else if to_upper_ascii opt = ''PX'' then
        (case rest of
           [] \<Rightarrow> Inl ''ERR syntax error''
         | ms # rest \<Rightarrow> set_options rest (Some (unwrap_or (parse_u64 ms) 0)))
      else Inl ''ERR syntax error'')"

definition parse_set_args :: "bytes list \<Rightarrow> (bytes, bytes \<times> bytes \<times> u64 option) sum" where
  "parse_set_args args =
     (case args of
        key # v # opts \<Rightarrow>
          (case set_options opts None of Inl e \<Rightarrow> Inl e | Inr expire_ms \<Rightarrow> Inr (key, v, expire_ms))
      | _ \<Rightarrow> Inl (wrong_args ''SET''))"

section \<open>Lemmas\<close>

lemma u64_from_str_dec: "n < 2 ^ 64 \<Longrightarrow> u64_from_str (dec_of_nat n) = Some n"
  using dec_of_nat_hd [of n] digits_dec_of_nat [of n] nat_of_dec_dec_of_nat [of n] dec_of_nat_nonempty [of n]
  by (cases "dec_of_nat n") (auto simp: u64_from_str_def Let_def simp del: nat_of_dec_dec_of_nat
      digits_dec_of_nat dest: is_digit_not_sign)

lemma utf8_ok_digits: "list_all is_digit ds \<Longrightarrow> utf8_ok ds"
  by (rule utf8_ok_ascii) (auto simp: list_all_iff is_digit_iff byte_in_def)

lemma parse_usize_dec: "n < 2 ^ 64 \<Longrightarrow> parse_usize (dec_of_nat n) = Some n"
  by (simp add: parse_usize_def utf8_ok_digits u64_from_str_dec del: dec_of_nat.simps)

lemma parse_u64_dec: "n < 2 ^ 64 \<Longrightarrow> parse_u64 (dec_of_nat n) = Some (of_nat n)"
  by (simp add: parse_u64_def utf8_ok_digits u64_from_str_dec del: dec_of_nat.simps)

lemma parse_i64_bounds: "parse_i64 s = Some n \<Longrightarrow> in_i64 n"
  by (auto simp: parse_i64_def i64_from_str_def Let_def split: if_splits result.splits prod.splits)

lemma in_i64_parsed [simp]: "in_i64 d \<Longrightarrow> in_i64 (unwrap_or (parse_i64 s) d)"
  using parse_i64_bounds by (auto simp: unwrap_or_def split: option.splits)

lemma parse_usize_bounds: "parse_usize s = Some n \<Longrightarrow> n < 2 ^ 64"
  by (auto simp: parse_usize_def u64_from_str_def Let_def split: if_splits)

text \<open>Words without small letters and without bytes above 127, such as the option names, are their own upper case.\<close>

lemma to_upper_plain:
  assumes "list_all (\<lambda>b. byte_in 0 0x7F b \<and> \<not> is_ascii_lowercase b) s"
  shows "to_upper_ascii s = s"
proof -
  have "list_all (byte_in 0 0x7F) s" using assms by (auto simp: list_all_iff)
  with assms show ?thesis by (auto simp: to_upper_ascii_def utf8_ok_ascii list_all_iff list_ex_iff)
qed

lemma lowercase_iff: "is_ascii_lowercase b \<longleftrightarrow> 97 \<le> (of_char b :: nat) \<and> of_char b \<le> (122 :: nat)"
  by (simp add: is_ascii_lowercase_def less_eq_char_def)

lemma of_char_upper: "is_ascii_lowercase b \<Longrightarrow> (of_char (to_ascii_uppercase b) :: nat) = of_char b - 32"
  by (auto simp: to_ascii_uppercase_def lowercase_iff)

lemma upper_upper [simp]: "to_ascii_uppercase (to_ascii_uppercase b) = to_ascii_uppercase b"
  by (cases "is_ascii_lowercase b") (auto simp: to_ascii_uppercase_def lowercase_iff)

lemma map_upper_upper [simp]: "map to_ascii_uppercase (map to_ascii_uppercase s) = map to_ascii_uppercase s"
  by (simp add: comp_def)

lemma commands_short: "list_all (\<lambda>c. length c \<le> 16) COMMANDS"
  by (simp add: COMMANDS_def)

lemma args_loop_blobs: "args_loop (map Blob bs) out = Inr (out @ bs)"
  by (induction bs arbitrary: out) auto

section \<open>Properties\<close>

text \<open>A word names a command exactly when its upper case stands in the table: letters may be written in either
  case, and nothing else may differ.\<close>

theorem parse_command_iff: "parse_command s = Some c \<longleftrightarrow> c \<in> set COMMANDS \<and> map to_ascii_uppercase s = c"
proof -
  have "length s \<le> 16" if "map to_ascii_uppercase s \<in> set COMMANDS"
    using that commands_short by (auto simp: list_all_iff dest: arg_cong [of _ _ length])
  then show ?thesis by (auto simp: parse_command_def Let_def)
qed

text \<open>The last of several expiry options counts, and an expiry time that is no number counts as zero.\<close>

lemma set_options_append:
  assumes "set_options opts x = Inr y"
  shows "set_options (opts @ others) x = set_options others y"
  using assms
proof (induction opts x rule: set_options.induct)
  case (2 opt rest x)
  then show ?case by (cases rest) (auto split: if_splits)
qed simp

end
