(* ===== verification/Handler_Base.thy ===== *)
theory Handler_Base
  imports Db_Multi Server_Parse
begin

text \<open>
  What the command handlers of the server share (\<open>src/muon_cache/cmd_handlers.rs\<close>): the request they are
  given, the state they change (the selected database and the append-only log of
  \<open>src/muon_cache/persist.rs\<close>), and the function that logs a command. The handlers read the clock once for
  every store operation; the \<open>i\<close>-th reading during a command is \<open>rq_clock i\<close>.

  The contract of a handler is \<open>handled\<close>: either the command is logged and changes only the keys it names,
  or it is not logged and nothing happens but the removal of expired keys; an error reply is of the
  second kind.
\<close>

section \<open>Model\<close>

subsection \<open>The append-only log\<close>

record aof_entry =
  ae_db :: int
  ae_encoded :: bytes

text \<open>The sending end of the channel to the log worker: what was sent so far, and whether the worker
  still listens.\<close>

record aof_sender =
  sent :: "aof_entry list"
  listening :: bool

record libsql_persist =
  lp_aof_enabled :: bool
  lp_aof_tx :: "aof_sender option"

datatype persist = Noop | Libsql libsql_persist

fun aof_enabled :: "persist \<Rightarrow> bool" where
  "aof_enabled Noop = False"
| "aof_enabled (Libsql p) = lp_aof_enabled p"

fun encode_args_loop :: "bytes list \<Rightarrow> bytes \<Rightarrow> bytes" where
  "encode_args_loop [] out = out"
| "encode_args_loop (item # rest) out =
     encode_args_loop rest (out @ ''$'' @ dec_of_nat (length item) @ CRLF @ item @ CRLF)"

definition encode_cmd :: "bytes \<Rightarrow> bytes list \<Rightarrow> bytes" where
  "encode_cmd cmd args =
     encode_args_loop args
       (''*'' @ dec_of_nat (length args + 1) @ CRLF @ ''$'' @ dec_of_nat (length cmd) @ CRLF @ cmd @ CRLF)"

definition lp_log_command_nowait :: "nat \<Rightarrow> bytes \<Rightarrow> bytes list \<Rightarrow> libsql_persist \<Rightarrow> libsql_persist \<times> unit result" where
  "lp_log_command_nowait db cmd args p =
     (if \<not> lp_aof_enabled p then (p, Ok ())
      else case lp_aof_tx p of
        Some tx \<Rightarrow>
          if listening tx
          then (p\<lparr>lp_aof_tx := Some (tx\<lparr>sent := sent tx @ [\<lparr>ae_db = int db, ae_encoded = encode_cmd cmd args\<rparr>]\<rparr>)\<rparr>, Ok ())
          else (p, Err)
      | None \<Rightarrow> (p, Err))"

fun log_command_nowait :: "nat \<Rightarrow> bytes \<Rightarrow> bytes list \<Rightarrow> persist \<Rightarrow> persist \<times> unit result" where
  "log_command_nowait db cmd args Noop = (Noop, Ok ())"
| "log_command_nowait db cmd args (Libsql p) = (let (p, r) = lp_log_command_nowait db cmd args p in (Libsql p, r))"

subsection \<open>Requests and the state of a handler\<close>

record request =
  rq_cmd :: bytes
  rq_args :: "bytes list"
  rq_db_index :: nat
  rq_skip_aof :: bool
  rq_clock :: "nat \<Rightarrow> u64"
  rq_f64 :: "bytes \<Rightarrow> f64 option"
  rq_split :: "bytes list \<Rightarrow> nat"

record hstate =
  h_db :: db
  h_persist :: "persist option"

abbreviation rq_now :: "request \<Rightarrow> u64" where
  "rq_now rq \<equiv> rq_clock rq 0"

definition log_cmd :: "request \<Rightarrow> hstate \<Rightarrow> hstate" where
  "log_cmd rq st =
     (if rq_skip_aof rq then st
      else case h_persist st of
        Some p \<Rightarrow>
          if aof_enabled p
          then st\<lparr>h_persist := Some (fst (log_command_nowait (rq_db_index rq) (rq_cmd rq) (rq_args rq) p))\<rparr>
          else st
      | None \<Rightarrow> st)"

text \<open>A method call on the database.\<close>

definition on_db :: "(db \<Rightarrow> db \<times> 'r) \<Rightarrow> hstate \<Rightarrow> hstate \<times> 'r" where
  "on_db f st = (let (d, r) = f (h_db st) in (st\<lparr>h_db := d\<rparr>, r))"

subsection \<open>Replies\<close>

definition WRONGTYPE :: bytes where
  "WRONGTYPE = ''WRONGTYPE Operation against a key holding the wrong kind of value''"

definition NOT_INTEGER :: bytes where
  "NOT_INTEGER = ''ERR value is not an integer or out of range''"

definition arity_error :: "bytes \<Rightarrow> resp_value" where
  "arity_error cmd = StaticError (wrong_args cmd)"

definition flag :: "bool \<Rightarrow> resp_value" where
  "flag b = Integer (if b then 1 else 0)"

definition blob_or_null :: "bytes option \<Rightarrow> resp_value" where
  "blob_or_null v = (case v of Some b \<Rightarrow> Blob b | None \<Rightarrow> Null)"

section \<open>The contract of a handler\<close>

fun is_error :: "resp_value \<Rightarrow> bool" where
  "is_error (Error e) = True"
| "is_error (StaticError e) = True"
| "is_error v = False"

text \<open>The cell of a key is unchanged, or it was removed after it had expired.\<close>

definition swept :: "request \<Rightarrow> entry option \<Rightarrow> entry option \<Rightarrow> bool" where
  "swept rq c c' \<longleftrightarrow> c' = c \<or> c' = None \<and> (\<exists>i. live (rq_clock rq i) c = None)"

definition keeps :: "request \<Rightarrow> bytes set \<Rightarrow> hstate \<Rightarrow> hstate \<Rightarrow> bool" where
  "keeps rq K st st' \<longleftrightarrow>
     db_ok (h_db st') \<and> h_persist st' = h_persist st \<and>
     (\<forall>k. k \<notin> K \<longrightarrow> swept rq (db_get (h_db st) k) (db_get (h_db st') k))"

definition handled :: "request \<Rightarrow> bytes set \<Rightarrow> hstate \<Rightarrow> hstate \<times> resp_value \<Rightarrow> bool" where
  "handled rq K st out \<longleftrightarrow>
     keeps rq {} st (fst out) \<or>
     (\<exists>st'. keeps rq K st st' \<and> fst out = log_cmd rq st' \<and> \<not> is_error (snd out))"

lemma swept_refl [simp, intro]: "swept rq c c"
  by (simp add: swept_def)

lemma swept_live [simp, intro]: "swept rq c (live (rq_clock rq i) c)"
  by (cases c) (auto simp: swept_def live_def)

lemma swept_None [simp, intro]: "live (rq_clock rq i) c = None \<Longrightarrow> swept rq c None"
  by (auto simp: swept_def)

lemma swept_Some [simp, intro]: "live (rq_clock rq i) c = Some e \<Longrightarrow> swept rq c (Some e)"
  by (auto simp: swept_def dest: live_SomeD)

lemma swept_trans: "swept rq c c' \<Longrightarrow> swept rq c' c'' \<Longrightarrow> swept rq c c''"
  by (auto simp: swept_def)

lemma keeps_refl [simp, intro]: "db_ok (h_db st) \<Longrightarrow> keeps rq K st st"
  by (simp add: keeps_def)

lemma keeps_trans: "keeps rq K st st' \<Longrightarrow> keeps rq K st' st'' \<Longrightarrow> keeps rq K st st''"
  by (auto simp: keeps_def intro: swept_trans)

lemma keeps_mono: "keeps rq K st st' \<Longrightarrow> K \<subseteq> K' \<Longrightarrow> keeps rq K' st st'"
  by (auto simp: keeps_def)

lemma keeps_db_ok: "keeps rq K st st' \<Longrightarrow> db_ok (h_db st')"
  by (simp add: keeps_def)

lemma handled_reply [simp, intro]: "db_ok (h_db st) \<Longrightarrow> handled rq K st (st, r)"
  by (simp add: handled_def)

lemma handled_quiet: "keeps rq {} st st' \<Longrightarrow> handled rq K st (st', r)"
  by (simp add: handled_def)

lemma handled_logged: "keeps rq K st st' \<Longrightarrow> \<not> is_error r \<Longrightarrow> handled rq K st (log_cmd rq st', r)"
  by (auto simp: handled_def)

lemma is_error_simps [simp]:
  "\<not> is_error (flag b)" "\<not> is_error (blob_or_null v)" "is_error (arity_error c)"
  by (simp_all add: flag_def blob_or_null_def arity_error_def split: option.splits)

text \<open>A call that is local to one key.\<close>

lemma on_db_eq: "on_db f st = (st\<lparr>h_db := fst (f (h_db st))\<rparr>, snd (f (h_db st)))"
  by (simp add: on_db_def case_prod_beta)

lemma on_db_local:
  assumes "db_local k f g" and "db_ok (h_db st)"
  shows "keeps rq {k} st (fst (on_db f st))"
    and "swept rq (db_get (h_db st) k) (fst (g (db_get (h_db st) k))) \<Longrightarrow> keeps rq {} st (fst (on_db f st))"
    and "db_get (h_db (fst (on_db f st))) = (db_get (h_db st))(k := fst (g (db_get (h_db st) k)))"
    and "snd (on_db f st) = snd (g (db_get (h_db st) k))"
  using db_localD [OF assms] by (auto simp: on_db_eq keeps_def)

text \<open>A handler that makes one call and then logs or not, depending on the result.\<close>

lemma handled_local:
  assumes "db_local k f g" and "db_ok (h_db st)" and "k \<in> K"
    and body: "\<And>c st'. cell_ok c \<Longrightarrow>
      (fst (body st' (snd (g c))) = log_cmd rq st' \<and> \<not> is_error (snd (body st' (snd (g c))))) \<or>
      (fst (body st' (snd (g c))) = st' \<and> swept rq c (fst (g c)))"
  shows "handled rq K st (case on_db f st of (st', r) \<Rightarrow> body st' r)"
proof -
  let ?c = "db_get (h_db st) k" and ?st = "fst (on_db f st)"
  note loc = on_db_local [OF assms(1,2)]
  have K: "keeps rq K st ?st" using keeps_mono [OF loc(1)] assms(3) by simp
  from body [OF db_ok_cell [OF assms(2), of k], of ?st] loc(2,4) K show ?thesis
    by (auto simp: handled_def case_prod_beta)
qed

lemma handled_read:
  assumes "db_local k f g" and "db_ok (h_db st)" and "\<And>c. cell_ok c \<Longrightarrow> swept rq c (fst (g c))"
  shows "handled rq K st (case on_db f st of (st', r) \<Rightarrow> (st', body r))"
  using on_db_local [OF assms(1,2)] assms(3) [OF db_ok_cell [OF assms(2), of k]]
  by (auto simp: case_prod_beta intro: handled_quiet)

text \<open>What a handler without a key does: read all buckets.\<close>

lemma keeps_purge:
  assumes "db_ok (h_db st)" and "fst (f (h_db st)) = db_purge_expired_all (rq_clock rq) (h_db st)"
  shows "keeps rq {} st (fst (on_db f st))"
  using db_purge [OF assms(1), of "rq_clock rq"] assms(2) by (auto simp: keeps_def on_db_eq)

end
