(* ===== verification/Handlers_Keys.thy ===== *)
theory Handlers_Keys
  imports Handler_Base
begin

text \<open>
  The handlers of the string commands and of the commands on keys in general
  (\<open>string_cmds\<close> and \<open>key_cmds\<close> in \<open>src/muon_cache/cmd_handlers.rs\<close>), one definition per arm of the match, and the
  proof that each satisfies the contract of a handler.
\<close>

section \<open>Model: string commands\<close>

type_synonym handler = "request \<Rightarrow> hstate \<Rightarrow> hstate \<times> resp_value"

definition cmd_dbsize :: handler where
  "cmd_dbsize rq st = (case on_db (db_len (rq_clock rq)) st of (st, n) \<Rightarrow> (st, Integer (int n)))"

text \<open>The reply for a string that was read.\<close>

definition string_reply :: "bytes option result \<Rightarrow> resp_value" where
  "string_reply r = (case r of Ok v \<Rightarrow> blob_or_null v | Err \<Rightarrow> StaticError WRONGTYPE)"

definition cmd_get :: handler where
  "cmd_get rq st =
     (case rq_args rq of
        key # _ \<Rightarrow> (case on_db (db_get_string (rq_now rq) key) st of (st, r) \<Rightarrow> (st, string_reply r))
      | [] \<Rightarrow> (st, arity_error ''GET''))"

definition cmd_setnx :: handler where
  "cmd_setnx rq st =
     (case rq_args rq of
        key # v # _ \<Rightarrow>
          (case on_db (db_set_nx (rq_now rq) key v) st of (st, r) \<Rightarrow>
             (case r of
                Ok fresh_key \<Rightarrow> (if fresh_key then log_cmd rq st else st, flag fresh_key)
              | Err \<Rightarrow> (st, StaticError WRONGTYPE)))
      | _ \<Rightarrow> (st, arity_error ''SETNX''))"

fun mset_loop :: "bytes list \<Rightarrow> hstate \<Rightarrow> hstate" where
  "mset_loop (key # v # rest) st = mset_loop rest (fst (on_db (db_set_string key v None) st))"
| "mset_loop _ st = st"

definition cmd_mset :: handler where
  "cmd_mset rq st =
     (if length (rq_args rq) < 2 \<or> length (rq_args rq) mod 2 \<noteq> 0 then (st, arity_error ''MSET'')
      else (log_cmd rq (mset_loop (rq_args rq) st), StaticSimple ''OK''))"

fun mget_loop :: "(nat \<Rightarrow> u64) \<Rightarrow> nat \<Rightarrow> bytes list \<Rightarrow> resp_value list \<Rightarrow> hstate \<Rightarrow> hstate \<times> resp_value" where
  "mget_loop clock i [] out st = (st, Array out)"
| "mget_loop clock i (key # rest) out st =
     (case on_db (db_get_string (clock i) key) st of (st, r) \<Rightarrow>
        (case r of
           Ok v \<Rightarrow> mget_loop clock (Suc i) rest (out @ [blob_or_null v]) st
         | Err \<Rightarrow> (st, StaticError WRONGTYPE)))"

definition cmd_mget :: handler where
  "cmd_mget rq st =
     (if rq_args rq = [] then (st, arity_error ''MGET'') else mget_loop (rq_clock rq) 0 (rq_args rq) [] st)"

definition cmd_getset :: handler where
  "cmd_getset rq st =
     (case rq_args rq of
        key # v # _ \<Rightarrow>
          (case on_db (db_get_string (rq_now rq) key) st of (st, r) \<Rightarrow>
             (case r of
                Ok prev \<Rightarrow> (log_cmd rq (fst (on_db (db_set_string key v None) st)), blob_or_null prev)
              | Err \<Rightarrow> (st, StaticError WRONGTYPE)))
      | _ \<Rightarrow> (st, arity_error ''GETSET''))"

definition cmd_append :: handler where
  "cmd_append rq st =
     (case rq_args rq of
        key # v # _ \<Rightarrow>
          (case on_db (db_append (rq_now rq) key v) st of (st, r) \<Rightarrow>
             (case r of
                Ok len \<Rightarrow> (log_cmd rq st, Integer len)
              | Err \<Rightarrow> (st, StaticError WRONGTYPE)))
      | _ \<Rightarrow> (st, arity_error ''APPEND''))"

text \<open>The common end of the four counter commands.\<close>

definition incr_reply :: "request \<Rightarrow> bytes \<Rightarrow> int \<Rightarrow> hstate \<Rightarrow> hstate \<times> resp_value" where
  "incr_reply rq key delta st =
     (case on_db (db_incr_by (rq_now rq) key delta) st of (st, r) \<Rightarrow>
        (case r of
           Ok v \<Rightarrow> (log_cmd rq st, Integer v)
         | Err \<Rightarrow> (st, StaticError NOT_INTEGER)))"

definition cmd_incr :: handler where
  "cmd_incr rq st =
     (case rq_args rq of key # _ \<Rightarrow> incr_reply rq key 1 st | [] \<Rightarrow> (st, arity_error ''INCR''))"

definition cmd_incrby :: handler where
  "cmd_incrby rq st =
     (case rq_args rq of
        key # delta # _ \<Rightarrow> incr_reply rq key (unwrap_or (parse_i64 delta) 0) st
      | _ \<Rightarrow> (st, arity_error ''INCRBY''))"

definition cmd_decr :: handler where
  "cmd_decr rq st =
     (case rq_args rq of key # _ \<Rightarrow> incr_reply rq key (- 1) st | [] \<Rightarrow> (st, arity_error ''DECR''))"

definition cmd_decrby :: handler where
  "cmd_decrby rq st =
     (case rq_args rq of
        key # delta # _ \<Rightarrow> incr_reply rq key (i64_wrap (- unwrap_or (parse_i64 delta) 0)) st
      | _ \<Rightarrow> (st, arity_error ''DECRBY''))"

definition cmd_strlen :: handler where
  "cmd_strlen rq st =
     (case rq_args rq of
        key # _ \<Rightarrow>
          (case on_db (db_get_string (rq_now rq) key) st of (st, r) \<Rightarrow>
             (st, case r of
                    Ok (Some v) \<Rightarrow> Integer (int (length v))
                  | Ok None \<Rightarrow> Integer 0
                  | Err \<Rightarrow> StaticError WRONGTYPE))
      | [] \<Rightarrow> (st, arity_error ''STRLEN''))"

definition string_table :: "(bytes \<times> handler) list" where
  "string_table =
     [(''DBSIZE'', cmd_dbsize), (''GET'', cmd_get), (''SETNX'', cmd_setnx), (''MSET'', cmd_mset),
      (''MGET'', cmd_mget), (''GETSET'', cmd_getset), (''APPEND'', cmd_append), (''INCR'', cmd_incr),
      (''INCRBY'', cmd_incrby), (''DECR'', cmd_decr), (''DECRBY'', cmd_decrby), (''STRLEN'', cmd_strlen)]"

section \<open>Model: commands on keys\<close>

definition cmd_set :: handler where
  "cmd_set rq st =
     (case rq_args rq of
        [key, v] \<Rightarrow> (log_cmd rq (fst (on_db (db_set_string_ref key v None) st)), StaticSimple ''OK'')
      | args \<Rightarrow>
          (case parse_set_args args of
             Inr (key, v, expire_ms) \<Rightarrow>
               (let expire_at = map_option (\<lambda>ms. u64_saturating_add (rq_now rq) ms) expire_ms
                in (log_cmd rq (fst (on_db (db_set_string_ref key v expire_at) st)), StaticSimple ''OK''))
           | Inl e \<Rightarrow> (st, Error e)))"

fun del_loop :: "bytes list \<Rightarrow> int \<Rightarrow> hstate \<Rightarrow> hstate \<times> int" where
  "del_loop [] removed st = (st, removed)"
| "del_loop (key # rest) removed st =
     (case on_db (db_remove key) st of (st, b) \<Rightarrow> del_loop rest (if b then removed + 1 else removed) st)"

definition cmd_del :: handler where
  "cmd_del rq st = (case del_loop (rq_args rq) 0 st of (st, removed) \<Rightarrow> (log_cmd rq st, Integer removed))"

fun exists_loop :: "(nat \<Rightarrow> u64) \<Rightarrow> nat \<Rightarrow> bytes list \<Rightarrow> int \<Rightarrow> hstate \<Rightarrow> hstate \<times> int" where
  "exists_loop clock i [] n st = (st, n)"
| "exists_loop clock i (key # rest) n st =
     (case on_db (db_exists (clock i) key) st of (st, b) \<Rightarrow>
        exists_loop clock (Suc i) rest (if b then n + 1 else n) st)"

definition cmd_exists :: handler where
  "cmd_exists rq st =
     (case exists_loop (rq_clock rq) 0 (rq_args rq) 0 st of (st, n) \<Rightarrow> (st, Integer n))"

definition expire_reply :: "request \<Rightarrow> bytes \<Rightarrow> u64 \<Rightarrow> hstate \<Rightarrow> hstate \<times> resp_value" where
  "expire_reply rq key ms st =
     (case on_db (db_set_expire_ms (rq_now rq) key ms) st of (st, ok) \<Rightarrow> (if ok then log_cmd rq st else st, flag ok))"

definition cmd_expire :: handler where
  "cmd_expire rq st =
     (case rq_args rq of
        key # sec # _ \<Rightarrow> expire_reply rq key (u64_saturating_mul (unwrap_or (parse_u64 sec) 0) 1000) st
      | _ \<Rightarrow> (st, arity_error ''EXPIRE''))"

definition cmd_pexpire :: handler where
  "cmd_pexpire rq st =
     (case rq_args rq of
        key # ms # _ \<Rightarrow> expire_reply rq key (unwrap_or (parse_u64 ms) 0) st
      | _ \<Rightarrow> (st, arity_error ''PEXPIRE''))"

definition cmd_persist :: handler where
  "cmd_persist rq st =
     (case rq_args rq of
        key # _ \<Rightarrow>
          (case on_db (db_persist (rq_now rq) key) st of (st, removed) \<Rightarrow>
             (if removed = 1 then log_cmd rq st else st, Integer removed))
      | [] \<Rightarrow> (st, arity_error ''PERSIST''))"

definition cmd_ttl :: handler where
  "cmd_ttl rq st =
     (case rq_args rq of
        key # _ \<Rightarrow>
          (case on_db (db_ttl_ms (rq_now rq) key) st of (st, r) \<Rightarrow>
             (st, case r of Some ms \<Rightarrow> Integer (if ms \<ge> 0 then ms div 1000 else ms) | None \<Rightarrow> Integer (- 2)))
      | [] \<Rightarrow> (st, arity_error ''TTL''))"

definition cmd_pttl :: handler where
  "cmd_pttl rq st =
     (case rq_args rq of
        key # _ \<Rightarrow>
          (case on_db (db_ttl_ms (rq_now rq) key) st of (st, r) \<Rightarrow>
             (st, case r of Some ms \<Rightarrow> Integer ms | None \<Rightarrow> Integer (- 2)))
      | [] \<Rightarrow> (st, arity_error ''PTTL''))"

definition cmd_type :: handler where
  "cmd_type rq st =
     (case rq_args rq of
        key # _ \<Rightarrow>
          (case on_db (db_value_type (rq_now rq) key) st of (st, r) \<Rightarrow>
             (st, case r of Some t \<Rightarrow> Simple t | None \<Rightarrow> Simple ''none''))
      | [] \<Rightarrow> (st, arity_error ''TYPE''))"

definition cmd_keys :: handler where
  "cmd_keys rq st =
     (case rq_args rq of
        pattern # _ \<Rightarrow>
          (case on_db (db_keys_matching (rq_clock rq) pattern) st of (st, ks) \<Rightarrow> (st, Array (map Blob ks)))
      | [] \<Rightarrow> (st, arity_error ''KEYS''))"

fun scan_options :: "bytes list \<Rightarrow> bytes \<Rightarrow> nat \<Rightarrow> (bytes, bytes \<times> nat) sum" where
  "scan_options [] pattern cnt = Inr (pattern, cnt)"
| "scan_options (opt # rest) pattern cnt =
     (if map to_ascii_uppercase opt = ''MATCH'' then
        (case rest of
           [] \<Rightarrow> Inl ''ERR syntax error''
         | p # rest \<Rightarrow> scan_options rest p cnt)
      else if map to_ascii_uppercase opt = ''COUNT'' then
        (case rest of
           [] \<Rightarrow> Inl ''ERR syntax error''
         | s # rest \<Rightarrow>
             (case parse_usize s of
                Some n \<Rightarrow> scan_options rest pattern n
              | None \<Rightarrow> Inl ''ERR invalid COUNT''))
      else Inl ''ERR syntax error'')"

text \<open>One page of the sorted keys. The addition wraps around at \<open>2^64\<close>; a slice whose end lies before
  its start panics.\<close>

definition scan_page :: "bytes list \<Rightarrow> nat \<Rightarrow> nat \<Rightarrow> (nat \<times> bytes list) outcome" where
  "scan_page ks cursor cnt =
     (let cursor = min cursor (length ks);
          stop = min ((cursor + cnt) mod 2 ^ 64) (length ks)
      in if stop < cursor then Panic
         else Done (if stop \<ge> length ks then 0 else stop, take (stop - cursor) (drop cursor ks)))"

definition cmd_scan :: "request \<Rightarrow> hstate \<Rightarrow> (hstate \<times> resp_value) outcome" where
  "cmd_scan rq st =
     (case rq_args rq of
        [] \<Rightarrow> Done (st, arity_error ''SCAN'')
      | cursor # opts \<Rightarrow>
          (case parse_usize cursor of
             None \<Rightarrow> Done (st, StaticError ''ERR invalid cursor'')
           | Some cursor \<Rightarrow>
               (case scan_options opts ''*'' 10 of
                  Inl e \<Rightarrow> Done (st, StaticError e)
                | Inr (pattern, cnt) \<Rightarrow>
                    (case on_db (db_keys_matching (rq_clock rq) pattern) st of (st, ks) \<Rightarrow>
                       (case scan_page ks cursor cnt of
                          Panic \<Rightarrow> Panic
                        | Done (next_cursor, batch) \<Rightarrow>
                            Done (st, Array [Blob (dec_of_nat next_cursor), Array (map Blob batch)]))))))"

definition cmd_flushdb :: handler where
  "cmd_flushdb rq st =
     (if rq_args rq \<noteq> [] then (st, arity_error ''FLUSHDB'')
      else (log_cmd rq (fst (on_db db_flush st)), StaticSimple ''OK''))"

definition key_table :: "(bytes \<times> handler) list" where
  "key_table =
     [(''SET'', cmd_set), (''DEL'', cmd_del), (''EXISTS'', cmd_exists), (''EXPIRE'', cmd_expire),
      (''PEXPIRE'', cmd_pexpire), (''PERSIST'', cmd_persist), (''TTL'', cmd_ttl), (''PTTL'', cmd_pttl),
      (''TYPE'', cmd_type), (''KEYS'', cmd_keys), (''FLUSHDB'', cmd_flushdb)]"

text \<open>The two groups: \<open>None\<close> says that the command belongs to another group.\<close>

definition string_cmds :: "request \<Rightarrow> hstate \<Rightarrow> (hstate \<times> resp_value) option" where
  "string_cmds rq st = map_option (\<lambda>h. h rq st) (map_of string_table (rq_cmd rq))"

definition key_cmds :: "request \<Rightarrow> hstate \<Rightarrow> (hstate \<times> resp_value) outcome option" where
  "key_cmds rq st =
     (if rq_cmd rq = ''SCAN'' then Some (cmd_scan rq st)
      else map_option (\<lambda>h. Done (h rq st)) (map_of key_table (rq_cmd rq)))"

section \<open>The handlers satisfy their contract\<close>

fun evens :: "'a list \<Rightarrow> 'a list" where
  "evens (x # y # rest) = x # evens rest"
| "evens [x] = [x]"
| "evens [] = []"

text \<open>Reads leave the live cell, so they only sweep.\<close>

lemma cell_specs_live [simp]:
  "fst (spec_get_string now c) = live now c" "fst (spec_ttl_ms now c) = live now c"
  "fst (spec_exists now c) = live now c" "fst (spec_value_type now c) = live now c"
  by (simp_all add: spec_get_string_def spec_ttl_ms_def spec_exists_def spec_value_type_def)

lemma handled_dbsize: "db_ok (h_db st) \<Longrightarrow> handled rq K st (cmd_dbsize rq st)"
  using keeps_purge [of st "db_len (rq_clock rq)" rq]
  by (auto simp: cmd_dbsize_def case_prod_beta db_readers_purge intro: handled_quiet)

lemma handled_get: "db_ok (h_db st) \<Longrightarrow> handled rq K st (cmd_get rq st)"
  by (auto simp: cmd_get_def split: list.splits intro!: handled_read [OF db_local_get_string])

lemma handled_strlen: "db_ok (h_db st) \<Longrightarrow> handled rq K st (cmd_strlen rq st)"
  by (auto simp: cmd_strlen_def split: list.splits intro!: handled_read [OF db_local_get_string])

lemma handled_ttl: "db_ok (h_db st) \<Longrightarrow> handled rq K st (cmd_ttl rq st)"
  by (auto simp: cmd_ttl_def split: list.splits intro!: handled_read [OF db_local_ttl_ms])

lemma handled_pttl: "db_ok (h_db st) \<Longrightarrow> handled rq K st (cmd_pttl rq st)"
  by (auto simp: cmd_pttl_def split: list.splits intro!: handled_read [OF db_local_ttl_ms])

lemma handled_type: "db_ok (h_db st) \<Longrightarrow> handled rq K st (cmd_type rq st)"
  by (auto simp: cmd_type_def split: list.splits intro!: handled_read [OF db_local_value_type])

lemma handled_keys: "db_ok (h_db st) \<Longrightarrow> handled rq K st (cmd_keys rq st)"
  using keeps_purge [of st "db_keys_matching (rq_clock rq) p" rq for p]
  by (auto simp: cmd_keys_def case_prod_beta db_readers_purge split: list.splits intro: handled_quiet)

lemma handled_setnx: "db_ok (h_db st) \<Longrightarrow> set (take 1 (rq_args rq)) \<subseteq> K \<Longrightarrow> handled rq K st (cmd_setnx rq st)"
  by (auto simp: cmd_setnx_def split: list.splits intro!: handled_local [OF db_local_set_nx])
    (auto simp: spec_set_nx_def split: option.splits dest: live_SomeD)

lemma handled_append: "db_ok (h_db st) \<Longrightarrow> set (take 1 (rq_args rq)) \<subseteq> K \<Longrightarrow> handled rq K st (cmd_append rq st)"
  by (auto simp: cmd_append_def split: list.splits intro!: handled_local [OF db_local_append])
    (auto simp: spec_append_def split: option.splits dest: live_SomeD)

lemma handled_incr_reply:
  "db_ok (h_db st) \<Longrightarrow> k \<in> K \<Longrightarrow> in_i64 d \<Longrightarrow> handled rq K st (incr_reply rq k d st)"
  unfolding incr_reply_def
  by (rule handled_local [OF db_local_incr_by])
    (auto simp: spec_incr_by_def Let_def split: option.splits dest: live_SomeD)

lemma in_i64_small [simp]: "in_i64 0" "in_i64 1" "in_i64 (- 1)"
  by (simp_all add: in_i64_iff)

lemma handled_counters:
  assumes "db_ok (h_db st)" and "set (take 1 (rq_args rq)) \<subseteq> K"
  shows "handled rq K st (cmd_incr rq st)" "handled rq K st (cmd_incrby rq st)"
    "handled rq K st (cmd_decr rq st)" "handled rq K st (cmd_decrby rq st)"
  using assms
  by (auto simp: cmd_incr_def cmd_incrby_def cmd_decr_def cmd_decrby_def
      split: list.splits intro!: handled_incr_reply)

lemma handled_expire_reply: "db_ok (h_db st) \<Longrightarrow> k \<in> K \<Longrightarrow> handled rq K st (expire_reply rq k ms st)"
  unfolding expire_reply_def
  by (rule handled_local [OF db_local_set_expire_ms]) (auto simp: spec_set_expire_ms_def)

lemma handled_expire:
  assumes "db_ok (h_db st)" and "set (take 1 (rq_args rq)) \<subseteq> K"
  shows "handled rq K st (cmd_expire rq st)" "handled rq K st (cmd_pexpire rq st)"
  using assms by (auto simp: cmd_expire_def cmd_pexpire_def split: list.splits intro!: handled_expire_reply)

lemma expires_at_None: "expires_at e = None \<Longrightarrow> e\<lparr>expires_at := None\<rparr> = e"
  by (cases e) simp

lemma handled_persist: "db_ok (h_db st) \<Longrightarrow> set (take 1 (rq_args rq)) \<subseteq> K \<Longrightarrow> handled rq K st (cmd_persist rq st)"
  by (auto simp: cmd_persist_def split: list.splits intro!: handled_local [OF db_local_persist])
    (auto simp: spec_persist_def expires_at_None split: option.splits if_splits dest: live_SomeD)

lemma keeps_set_string: "db_ok (h_db st) \<Longrightarrow> k \<in> K \<Longrightarrow> keeps rq K st (fst (on_db (db_set_string k v x) st))"
  using keeps_mono [OF on_db_local(1) [OF db_local_set_string]] by auto

lemma keeps_set_string_ref:
  "db_ok (h_db st) \<Longrightarrow> k \<in> K \<Longrightarrow> keeps rq K st (fst (on_db (db_set_string_ref k v x) st))"
  using keeps_mono [OF on_db_local(1) [OF db_local_set_string_ref]] by auto

lemma keeps_mset_loop: "db_ok (h_db st) \<Longrightarrow> set (evens args) \<subseteq> K \<Longrightarrow> keeps rq K st (mset_loop args st)"
proof (induction args st rule: mset_loop.induct)
  case (1 key v rest st)
  have k: "keeps rq K st (fst (on_db (db_set_string key v None) st))"
    using 1 by (intro keeps_set_string) auto
  from keeps_trans [OF k 1(1) [OF keeps_db_ok [OF k]]] 1(3) show ?case by simp
qed auto

lemma handled_mset: "db_ok (h_db st) \<Longrightarrow> set (evens (rq_args rq)) \<subseteq> K \<Longrightarrow> handled rq K st (cmd_mset rq st)"
  by (auto simp: cmd_mset_def intro!: handled_logged keeps_mset_loop)

lemma keeps_get_string:
  "db_ok (h_db st) \<Longrightarrow> keeps rq {} st (fst (on_db (db_get_string (rq_clock rq i) k) st))"
  by (rule on_db_local(2) [OF db_local_get_string]) auto

lemma keeps_mget_loop: "db_ok (h_db st) \<Longrightarrow> keeps rq {} st (fst (mget_loop (rq_clock rq) i ks out st))"
proof (induction ks arbitrary: i out st)
  case (Cons k ks)
  note k = keeps_get_string [OF Cons.prems, of rq i k]
  show ?case using keeps_trans [OF k Cons.IH [OF keeps_db_ok [OF k]]] k
    by (auto simp: case_prod_beta split: result.splits)
qed simp

lemma handled_mget: "db_ok (h_db st) \<Longrightarrow> handled rq K st (cmd_mget rq st)"
  using keeps_mget_loop [of st rq 0 "rq_args rq" "[]"]
  by (auto simp: cmd_mget_def handled_def)

lemma keeps_getset:
  assumes "db_ok (h_db st)" and "k \<in> K"
  shows "keeps rq K st (fst (on_db (db_set_string k v None) (fst (on_db (db_get_string (rq_clock rq i) k) st))))"
proof -
  note g = keeps_get_string [OF assms(1), of rq i k]
  have "keeps rq K st (fst (on_db (db_get_string (rq_clock rq i) k) st))" by (rule keeps_mono [OF g]) simp
  then show ?thesis by (rule keeps_trans) (rule keeps_set_string [OF keeps_db_ok [OF g] assms(2)])
qed

lemma handled_getset: "db_ok (h_db st) \<Longrightarrow> set (take 1 (rq_args rq)) \<subseteq> K \<Longrightarrow> handled rq K st (cmd_getset rq st)"
  using keeps_get_string [of st rq 0]
  by (auto simp: cmd_getset_def case_prod_beta split: list.splits result.splits
      intro!: handled_logged keeps_getset intro: handled_quiet)

lemma set_args_key: "parse_set_args args = Inr (k, v, x) \<Longrightarrow> set (take 1 args) = {k}"
  by (auto simp: parse_set_args_def split: list.splits sum.splits)

lemma handled_set: "db_ok (h_db st) \<Longrightarrow> set (take 1 (rq_args rq)) \<subseteq> K \<Longrightarrow> handled rq K st (cmd_set rq st)"
  unfolding cmd_set_def
  by (auto simp: Let_def split: list.splits sum.splits dest!: set_args_key
      intro!: handled_logged keeps_set_string_ref)

lemma keeps_del_loop: "db_ok (h_db st) \<Longrightarrow> set ks \<subseteq> K \<Longrightarrow> keeps rq K st (fst (del_loop ks n st))"
proof (induction ks arbitrary: n st)
  case (Cons k ks)
  have k: "keeps rq K st (fst (on_db (db_remove k) st))"
    using keeps_mono [OF on_db_local(1) [OF db_local_remove]] Cons.prems by auto
  show ?case using keeps_trans [OF k Cons.IH [OF keeps_db_ok [OF k]]] Cons.prems by (simp add: case_prod_beta)
qed simp

lemma handled_del: "db_ok (h_db st) \<Longrightarrow> set (rq_args rq) \<subseteq> K \<Longrightarrow> handled rq K st (cmd_del rq st)"
  by (auto simp: cmd_del_def case_prod_beta intro!: handled_logged keeps_del_loop)

lemma keeps_exists_loop: "db_ok (h_db st) \<Longrightarrow> keeps rq {} st (fst (exists_loop (rq_clock rq) i ks n st))"
proof (induction ks arbitrary: i n st)
  case (Cons k ks)
  have k: "keeps rq {} st (fst (on_db (db_exists (rq_clock rq i) k) st))"
    by (rule on_db_local(2) [OF db_local_exists Cons.prems]) auto
  show ?case using keeps_trans [OF k Cons.IH [OF keeps_db_ok [OF k]]] by (simp add: case_prod_beta)
qed simp

lemma handled_exists: "db_ok (h_db st) \<Longrightarrow> handled rq K st (cmd_exists rq st)"
  by (auto simp: cmd_exists_def case_prod_beta intro!: handled_quiet keeps_exists_loop)

lemma handled_flushdb: "db_ok (h_db st) \<Longrightarrow> handled rq UNIV st (cmd_flushdb rq st)"
  using db_flush_eq [of "h_db st"]
  by (auto simp: cmd_flushdb_def on_db_eq keeps_def intro!: handled_logged)

lemma handled_scan:
  assumes "db_ok (h_db st)" and "cmd_scan rq st = Done out"
  shows "handled rq K st out"
  using assms keeps_purge [of st "db_keys_matching (rq_clock rq) p" rq for p]
  by (auto simp: cmd_scan_def case_prod_beta db_readers_purge intro!: handled_quiet
      split: list.splits option.splits sum.splits outcome.splits)

end
