(* ===== verification/Handlers_Colls.thy ===== *)
theory Handlers_Colls
  imports Handlers_Keys
begin

text \<open>
  The handlers of the collection commands (\<open>hash_cmds\<close>, \<open>list_cmds\<close>, \<open>set_cmds\<close>, \<open>zset_cmds\<close> and \<open>stream_cmds\<close> in
  \<open>src/muon_cache/cmd_handlers.rs\<close>), one definition per arm of the match. The theory \<open>Colls_Contract\<close> shows that
  each satisfies the contract of a handler.
\<close>

section \<open>Model: hash commands\<close>

text \<open>The loops of \<open>HSET\<close> and \<open>ZADD\<close> over the pairs that follow the key; a type error ends them.\<close>

fun hset_loop :: "(nat \<Rightarrow> u64) \<Rightarrow> nat \<Rightarrow> bytes \<Rightarrow> bytes list \<Rightarrow> int \<Rightarrow> hstate \<Rightarrow> hstate \<times> int result" where
  "hset_loop clock i key (field # v # rest) added st =
     (case on_db (db_hash_set_ref (clock i) key field v) st of (st, r) \<Rightarrow>
        (case r of
           Ok is_new \<Rightarrow> hset_loop clock (Suc i) key rest (if is_new then added + 1 else added) st
         | Err \<Rightarrow> (st, Err)))"
| "hset_loop clock i key _ added st = (st, Ok added)"

definition cmd_hset :: handler where
  "cmd_hset rq st =
     (case rq_args rq of
        key # pairs \<Rightarrow>
          if length (rq_args rq) < 3 \<or> length (rq_args rq) mod 2 = 0 then (st, arity_error ''HSET'')
          else (case hset_loop (rq_clock rq) 0 key pairs 0 st of (st, r) \<Rightarrow>
                  (case r of
                     Ok added \<Rightarrow> (log_cmd rq st, Integer added)
                   | Err \<Rightarrow> (st, StaticError WRONGTYPE)))
      | [] \<Rightarrow> (st, arity_error ''HSET''))"

definition cmd_hget :: handler where
  "cmd_hget rq st =
     (case rq_args rq of
        key # field # _ \<Rightarrow>
          (case on_db (db_hash_get (rq_now rq) key field) st of (st, r) \<Rightarrow> (st, string_reply r))
      | _ \<Rightarrow> (st, arity_error ''HGET''))"

text \<open>The reply of a command that counts, and the one of a command that answers yes or no.\<close>

definition int_reply :: "int result \<Rightarrow> resp_value" where
  "int_reply r = (case r of Ok n \<Rightarrow> Integer n | Err \<Rightarrow> StaticError WRONGTYPE)"

definition bool_reply :: "bool result \<Rightarrow> resp_value" where
  "bool_reply r = (case r of Ok b \<Rightarrow> flag b | Err \<Rightarrow> StaticError WRONGTYPE)"

definition blobs_reply :: "bytes list result \<Rightarrow> resp_value" where
  "blobs_reply r = (case r of Ok vs \<Rightarrow> Array (map Blob vs) | Err \<Rightarrow> StaticError WRONGTYPE)"

definition cmd_hdel :: handler where
  "cmd_hdel rq st =
     (case rq_args rq of
        key # field # flds \<Rightarrow>
          (case on_db (db_hash_del (rq_now rq) key (field # flds)) st of (st, r) \<Rightarrow>
             (case r of
                Ok removed \<Rightarrow> (log_cmd rq st, Integer removed)
              | Err \<Rightarrow> (st, StaticError WRONGTYPE)))
      | _ \<Rightarrow> (st, arity_error ''HDEL''))"

definition cmd_hgetall :: handler where
  "cmd_hgetall rq st =
     (case rq_args rq of
        key # _ \<Rightarrow>
          (case on_db (db_hash_getall (rq_now rq) key) st of (st, r) \<Rightarrow>
             (st, case r of
                    Ok pairs \<Rightarrow> Array (concat (map (\<lambda>(field, v). [Blob field, Blob v]) pairs))
                  | Err \<Rightarrow> StaticError WRONGTYPE))
      | [] \<Rightarrow> (st, arity_error ''HGETALL''))"

definition cmd_hlen :: handler where
  "cmd_hlen rq st =
     (case rq_args rq of
        key # _ \<Rightarrow> (case on_db (db_hash_len (rq_now rq) key) st of (st, r) \<Rightarrow> (st, int_reply r))
      | [] \<Rightarrow> (st, arity_error ''HLEN''))"

definition cmd_hexists :: handler where
  "cmd_hexists rq st =
     (case rq_args rq of
        key # field # _ \<Rightarrow>
          (case on_db (db_hash_exists (rq_now rq) key field) st of (st, r) \<Rightarrow> (st, bool_reply r))
      | _ \<Rightarrow> (st, arity_error ''HEXISTS''))"

definition cmd_hincrby :: handler where
  "cmd_hincrby rq st =
     (case rq_args rq of
        key # field # delta # _ \<Rightarrow>
          (case parse_i64 delta of
             Some delta \<Rightarrow>
               (case on_db (db_hash_incr_by (rq_now rq) key field delta) st of (st, r) \<Rightarrow>
                  (case r of
                     Ok v \<Rightarrow> (log_cmd rq st, Integer v)
                   | Err \<Rightarrow> (st, StaticError ''ERR hash value is not an integer'')))
           | None \<Rightarrow> (st, StaticError NOT_INTEGER))
      | _ \<Rightarrow> (st, arity_error ''HINCRBY''))"

definition cmd_hsetnx :: handler where
  "cmd_hsetnx rq st =
     (case rq_args rq of
        key # field # v # _ \<Rightarrow>
          (case on_db (db_hash_set_nx (rq_now rq) key field v) st of (st, r) \<Rightarrow>
             (case r of
                Ok inserted \<Rightarrow> (if inserted then log_cmd rq st else st, flag inserted)
              | Err \<Rightarrow> (st, StaticError WRONGTYPE)))
      | _ \<Rightarrow> (st, arity_error ''HSETNX''))"

definition hash_table :: "(bytes \<times> handler) list" where
  "hash_table =
     [(''HSET'', cmd_hset), (''HGET'', cmd_hget), (''HDEL'', cmd_hdel), (''HGETALL'', cmd_hgetall),
      (''HLEN'', cmd_hlen), (''HEXISTS'', cmd_hexists), (''HINCRBY'', cmd_hincrby), (''HSETNX'', cmd_hsetnx)]"

section \<open>Model: list commands\<close>

definition cmd_push :: handler where
  "cmd_push rq st =
     (case rq_args rq of
        key # v # vs \<Rightarrow>
          (case on_db (db_list_push (rq_now rq) key (v # vs) (rq_cmd rq = ''LPUSH'')) st of (st, r) \<Rightarrow>
             (case r of
                Ok len \<Rightarrow> (log_cmd rq st, Integer len)
              | Err \<Rightarrow> (st, StaticError WRONGTYPE)))
      | _ \<Rightarrow> (st, Error (wrong_args (rq_cmd rq))))"

text \<open>The loop \<open>for _ in 0..count\<close> of \<open>LPOP key count\<close>: it ends early when the list is used up.\<close>

fun pop_loop :: "(nat \<Rightarrow> u64) \<Rightarrow> nat \<Rightarrow> bytes \<Rightarrow> bool \<Rightarrow> nat \<Rightarrow> bytes list \<Rightarrow> hstate \<Rightarrow> hstate \<times> bytes list result" where
  "pop_loop clock i key left 0 out st = (st, Ok out)"
| "pop_loop clock i key left (Suc n) out st =
     (case on_db (db_list_pop (clock i) key left) st of (st, r) \<Rightarrow>
        (case r of
           Ok (Some v) \<Rightarrow> pop_loop clock (Suc i) key left n (out @ [v]) st
         | Ok None \<Rightarrow> (st, Ok out)
         | Err \<Rightarrow> (st, Err)))"

definition pop_many :: "request \<Rightarrow> bytes \<Rightarrow> bool \<Rightarrow> nat \<Rightarrow> hstate \<Rightarrow> hstate \<times> resp_value" where
  "pop_many rq key left n st =
     (case pop_loop (rq_clock rq) 0 key left n [] st of (st, r) \<Rightarrow>
        (case r of
           Ok out \<Rightarrow> if out = [] then (st, Null) else (log_cmd rq st, Array (map Blob out))
         | Err \<Rightarrow> (st, Error WRONGTYPE)))"

definition pop_one :: "request \<Rightarrow> bytes \<Rightarrow> bool \<Rightarrow> hstate \<Rightarrow> hstate \<times> resp_value" where
  "pop_one rq key left st =
     (case on_db (db_list_pop (rq_now rq) key left) st of (st, r) \<Rightarrow>
        (case r of
           Ok (Some v) \<Rightarrow> (log_cmd rq st, Blob v)
         | Ok None \<Rightarrow> (st, Null)
         | Err \<Rightarrow> (st, Error WRONGTYPE)))"

definition cmd_pop :: handler where
  "cmd_pop rq st =
     (case rq_args rq of
        [key] \<Rightarrow> pop_one rq key (rq_cmd rq = ''LPOP'') st
      | [key, s] \<Rightarrow>
          (let n = unwrap_or (parse_i64 s) 0
           in if n \<le> 0 then (st, StaticError NOT_INTEGER)
              else pop_many rq key (rq_cmd rq = ''LPOP'') (nat n) st)
      | _ \<Rightarrow> (st, Error (wrong_args (rq_cmd rq))))"

definition cmd_lrange :: handler where
  "cmd_lrange rq st =
     (case rq_args rq of
        key # start # stop # _ \<Rightarrow>
          (case on_db (db_list_range (rq_now rq) (rq_split rq) key
                         (unwrap_or (parse_i64 start) 0) (unwrap_or (parse_i64 stop) (- 1))) st of
             (st, r) \<Rightarrow> (st, blobs_reply r))
      | _ \<Rightarrow> (st, arity_error ''LRANGE''))"

definition cmd_llen :: handler where
  "cmd_llen rq st =
     (case rq_args rq of
        key # _ \<Rightarrow> (case on_db (db_list_len (rq_now rq) key) st of (st, r) \<Rightarrow> (st, int_reply r))
      | [] \<Rightarrow> (st, arity_error ''LLEN''))"

definition cmd_lindex :: handler where
  "cmd_lindex rq st =
     (case rq_args rq of
        key # index # _ \<Rightarrow>
          (case parse_i64 index of
             Some idx \<Rightarrow> (case on_db (db_list_index (rq_now rq) key idx) st of (st, r) \<Rightarrow> (st, string_reply r))
           | None \<Rightarrow> (st, StaticError NOT_INTEGER))
      | _ \<Rightarrow> (st, arity_error ''LINDEX''))"

definition cmd_lset :: handler where
  "cmd_lset rq st =
     (case rq_args rq of
        key # index # v # _ \<Rightarrow>
          (case parse_i64 index of
             Some idx \<Rightarrow>
               (case on_db (db_list_set (rq_now rq) key idx v) st of (st, r) \<Rightarrow>
                  (case r of
                     Ok u \<Rightarrow> (log_cmd rq st, StaticSimple ''OK'')
                   | Err \<Rightarrow> (st, StaticError WRONGTYPE)))
           | None \<Rightarrow> (st, StaticError NOT_INTEGER))
      | _ \<Rightarrow> (st, arity_error ''LSET''))"

text \<open>The end shared by \<open>LINSERT\<close>, \<open>LREM\<close>, \<open>LPUSHX\<close> and \<open>RPUSHX\<close>: the command is logged when the count is positive.\<close>

definition count_reply :: "request \<Rightarrow> hstate \<times> int result \<Rightarrow> hstate \<times> resp_value" where
  "count_reply rq out =
     (case out of (st, r) \<Rightarrow>
        (case r of
           Ok n \<Rightarrow> (if n > 0 then log_cmd rq st else st, Integer n)
         | Err \<Rightarrow> (st, StaticError WRONGTYPE)))"

definition cmd_linsert :: handler where
  "cmd_linsert rq st =
     (case rq_args rq of
        key # pos # pivot # v # _ \<Rightarrow>
          (let p = map to_ascii_uppercase pos
           in if p = ''BEFORE'' then count_reply rq (on_db (db_list_insert (rq_now rq) key True pivot v) st)
              else if p = ''AFTER'' then count_reply rq (on_db (db_list_insert (rq_now rq) key False pivot v) st)
              else (st, StaticError ''ERR syntax error''))
      | _ \<Rightarrow> (st, arity_error ''LINSERT''))"

definition cmd_lrem :: handler where
  "cmd_lrem rq st =
     (case rq_args rq of
        key # cnt # v # _ \<Rightarrow>
          (case parse_i64 cnt of
             Some cnt \<Rightarrow> count_reply rq (on_db (db_list_rem (rq_now rq) key cnt v) st)
           | None \<Rightarrow> (st, StaticError NOT_INTEGER))
      | _ \<Rightarrow> (st, arity_error ''LREM''))"

definition cmd_pushx :: handler where
  "cmd_pushx rq st =
     (case rq_args rq of
        key # v # vs \<Rightarrow>
          count_reply rq (on_db (db_list_push_x (rq_now rq) key (v # vs) (rq_cmd rq = ''LPUSHX'')) st)
      | _ \<Rightarrow> (st, Error (wrong_args (rq_cmd rq))))"

definition cmd_ltrim :: "request \<Rightarrow> hstate \<Rightarrow> (hstate \<times> resp_value) outcome" where
  "cmd_ltrim rq st =
     (case rq_args rq of
        key # start # stop # _ \<Rightarrow>
          (case db_list_trim (rq_now rq) key (unwrap_or (parse_i64 start) 0) (unwrap_or (parse_i64 stop) (- 1)) (h_db st) of
             Panic \<Rightarrow> Panic
           | Done (d, r) \<Rightarrow>
               (let st = st\<lparr>h_db := d\<rparr>
                in case r of
                     Ok u \<Rightarrow> Done (log_cmd rq st, StaticSimple ''OK'')
                   | Err \<Rightarrow> Done (st, StaticError WRONGTYPE)))
      | _ \<Rightarrow> Done (st, arity_error ''LTRIM''))"

definition list_table :: "(bytes \<times> handler) list" where
  "list_table =
     [(''LPUSH'', cmd_push), (''RPUSH'', cmd_push), (''LPOP'', cmd_pop), (''RPOP'', cmd_pop), (''LRANGE'', cmd_lrange),
      (''LLEN'', cmd_llen), (''LINDEX'', cmd_lindex), (''LSET'', cmd_lset), (''LINSERT'', cmd_linsert),
      (''LREM'', cmd_lrem), (''LPUSHX'', cmd_pushx), (''RPUSHX'', cmd_pushx)]"

section \<open>Model: set commands\<close>

definition cmd_sadd :: handler where
  "cmd_sadd rq st =
     (case rq_args rq of
        key # m # ms \<Rightarrow>
          (case on_db (db_set_add (rq_now rq) key (m # ms)) st of (st, r) \<Rightarrow>
             (case r of
                Ok added \<Rightarrow> (log_cmd rq st, Integer added)
              | Err \<Rightarrow> (st, StaticError WRONGTYPE)))
      | _ \<Rightarrow> (st, arity_error ''SADD''))"

definition cmd_srem :: handler where
  "cmd_srem rq st =
     (case rq_args rq of
        key # m # ms \<Rightarrow>
          (case on_db (db_set_remove (rq_now rq) key (m # ms)) st of (st, r) \<Rightarrow>
             (case r of
                Ok removed \<Rightarrow> (log_cmd rq st, Integer removed)
              | Err \<Rightarrow> (st, StaticError WRONGTYPE)))
      | _ \<Rightarrow> (st, arity_error ''SREM''))"

definition cmd_smembers :: handler where
  "cmd_smembers rq st =
     (case rq_args rq of
        key # _ \<Rightarrow> (case on_db (db_set_members (rq_now rq) key) st of (st, r) \<Rightarrow> (st, blobs_reply r))
      | [] \<Rightarrow> (st, arity_error ''SMEMBERS''))"

definition cmd_sismember :: handler where
  "cmd_sismember rq st =
     (case rq_args rq of
        key # m # _ \<Rightarrow>
          (case on_db (db_set_is_member (rq_now rq) key m) st of (st, r) \<Rightarrow> (st, bool_reply r))
      | _ \<Rightarrow> (st, arity_error ''SISMEMBER''))"

definition cmd_scard :: handler where
  "cmd_scard rq st =
     (case rq_args rq of
        key # _ \<Rightarrow> (case on_db (db_set_card (rq_now rq) key) st of (st, r) \<Rightarrow> (st, int_reply r))
      | [] \<Rightarrow> (st, arity_error ''SCARD''))"

definition cmd_smove :: handler where
  "cmd_smove rq st =
     (case rq_args rq of
        source # dest # m # _ \<Rightarrow>
          (case on_db (db_set_move (rq_now rq) source dest m) st of (st, r) \<Rightarrow>
             (case r of
                Ok moved \<Rightarrow> (if moved then log_cmd rq st else st, flag moved)
              | Err \<Rightarrow> (st, StaticError WRONGTYPE)))
      | _ \<Rightarrow> (st, arity_error ''SMOVE''))"

definition cmd_sunion :: handler where
  "cmd_sunion rq st =
     (if rq_args rq = [] then (st, arity_error ''SUNION'')
      else case on_db (db_set_union (rq_now rq) (rq_args rq)) st of (st, r) \<Rightarrow> (st, blobs_reply r))"

definition cmd_sinter :: handler where
  "cmd_sinter rq st =
     (if rq_args rq = [] then (st, arity_error ''SINTER'')
      else case on_db (db_set_inter (rq_now rq) (rq_args rq)) st of (st, r) \<Rightarrow> (st, blobs_reply r))"

definition set_table :: "(bytes \<times> handler) list" where
  "set_table =
     [(''SADD'', cmd_sadd), (''SREM'', cmd_srem), (''SMEMBERS'', cmd_smembers), (''SISMEMBER'', cmd_sismember),
      (''SCARD'', cmd_scard), (''SMOVE'', cmd_smove), (''SUNION'', cmd_sunion), (''SINTER'', cmd_sinter)]"

section \<open>Model: sorted sets and streams\<close>

fun zadd_loop :: "request \<Rightarrow> nat \<Rightarrow> bytes \<Rightarrow> bytes list \<Rightarrow> int \<Rightarrow> hstate \<Rightarrow> hstate \<times> int result" where
  "zadd_loop rq i key (score # member # rest) added st =
     (case on_db (db_zadd (rq_clock rq i) key (unwrap_or (parse_f64 (rq_f64 rq) score) 0) member) st of (st, r) \<Rightarrow>
        (case r of
           Ok is_new \<Rightarrow> zadd_loop rq (Suc i) key rest (if is_new then added + 1 else added) st
         | Err \<Rightarrow> (st, Err)))"
| "zadd_loop rq i key _ added st = (st, Ok added)"

definition cmd_zadd :: handler where
  "cmd_zadd rq st =
     (case rq_args rq of
        key # pairs \<Rightarrow>
          if length (rq_args rq) < 3 \<or> (length (rq_args rq) - 1) mod 2 \<noteq> 0 then (st, arity_error ''ZADD'')
          else (case zadd_loop rq 0 key pairs 0 st of (st, r) \<Rightarrow>
                  (case r of
                     Ok added \<Rightarrow> (log_cmd rq st, Integer added)
                   | Err \<Rightarrow> (st, StaticError WRONGTYPE)))
      | [] \<Rightarrow> (st, arity_error ''ZADD''))"

definition cmd_zrange :: handler where
  "cmd_zrange rq st =
     (case rq_args rq of
        key # start # stop # _ \<Rightarrow>
          (case on_db (db_zrange (rq_now rq) key (unwrap_or (parse_i64 start) 0) (unwrap_or (parse_i64 stop) (- 1))) st of
             (st, r) \<Rightarrow> (st, blobs_reply r))
      | _ \<Rightarrow> (st, arity_error ''ZRANGE''))"

definition cmd_zrem :: handler where
  "cmd_zrem rq st =
     (case rq_args rq of
        key # m # ms \<Rightarrow> count_reply rq (on_db (db_zrem (rq_now rq) key (m # ms)) st)
      | _ \<Rightarrow> (st, arity_error ''ZREM''))"

definition cmd_zcard :: handler where
  "cmd_zcard rq st =
     (case rq_args rq of
        key # _ \<Rightarrow> (case on_db (db_zcard (rq_now rq) key) st of (st, r) \<Rightarrow> (st, int_reply r))
      | [] \<Rightarrow> (st, arity_error ''ZCARD''))"

definition zset_table :: "(bytes \<times> handler) list" where
  "zset_table = [(''ZADD'', cmd_zadd), (''ZRANGE'', cmd_zrange), (''ZREM'', cmd_zrem), (''ZCARD'', cmd_zcard)]"

fun field_pairs :: "bytes list \<Rightarrow> (bytes \<times> bytes) list" where
  "field_pairs (field # v # rest) = (field, v) # field_pairs rest"
| "field_pairs _ = []"

definition cmd_xadd :: handler where
  "cmd_xadd rq st =
     (case rq_args rq of
        key # xid # flds \<Rightarrow>
          if length (rq_args rq) < 4 \<or> length (rq_args rq) mod 2 \<noteq> 0 then (st, arity_error ''XADD'')
          else if \<not> utf8_ok xid then (st, StaticError ''ERR invalid stream ID'')
          else (case on_db (db_stream_add (rq_now rq) key xid (field_pairs flds)) st of (st, r) \<Rightarrow>
                  (case r of
                     Ok new_id \<Rightarrow> (log_cmd rq st, Blob new_id)
                   | Err \<Rightarrow> (st, StaticError ''ERR invalid stream ID'')))
      | _ \<Rightarrow> (st, arity_error ''XADD''))"

definition stream_reply :: "stream_items result \<Rightarrow> resp_value" where
  "stream_reply r =
     (case r of
        Ok entries \<Rightarrow>
          Array (map (\<lambda>(xid, flds). Array [Blob xid, Array (concat (map (\<lambda>(field, v). [Blob field, Blob v]) flds))]) entries)
      | Err \<Rightarrow> StaticError WRONGTYPE)"

definition utf8_or :: "bytes \<Rightarrow> bytes \<Rightarrow> bytes" where
  "utf8_or b d = (if utf8_ok b then b else d)"

definition cmd_xrange :: handler where
  "cmd_xrange rq st =
     (case rq_args rq of
        key # start # stop # _ \<Rightarrow>
          (case on_db (db_stream_range (rq_now rq) key (utf8_or start ''-'') (utf8_or stop ''+'')) st of
             (st, r) \<Rightarrow> (st, stream_reply r))
      | _ \<Rightarrow> (st, arity_error ''XRANGE''))"

definition cmd_xrevrange :: handler where
  "cmd_xrevrange rq st =
     (case rq_args rq of
        key # stop # start # _ \<Rightarrow>
          (case on_db (db_stream_rev_range (rq_now rq) key (utf8_or stop ''+'') (utf8_or start ''-'')) st of
             (st, r) \<Rightarrow> (st, stream_reply r))
      | _ \<Rightarrow> (st, arity_error ''XREVRANGE''))"

definition cmd_xlen :: handler where
  "cmd_xlen rq st =
     (case rq_args rq of
        key # _ \<Rightarrow> (case on_db (db_stream_len (rq_now rq) key) st of (st, r) \<Rightarrow> (st, int_reply r))
      | [] \<Rightarrow> (st, arity_error ''XLEN''))"

definition cmd_xdel :: handler where
  "cmd_xdel rq st =
     (case rq_args rq of
        key # xid # ids \<Rightarrow>
          (case on_db (db_stream_del (rq_now rq) key (filter utf8_ok (xid # ids))) st of (st, r) \<Rightarrow>
             (case r of
                Ok deleted \<Rightarrow> (log_cmd rq st, Integer deleted)
              | Err \<Rightarrow> (st, StaticError WRONGTYPE)))
      | _ \<Rightarrow> (st, arity_error ''XDEL''))"

definition stream_table :: "(bytes \<times> handler) list" where
  "stream_table =
     [(''XADD'', cmd_xadd), (''XRANGE'', cmd_xrange), (''XREVRANGE'', cmd_xrevrange), (''XLEN'', cmd_xlen),
      (''XDEL'', cmd_xdel)]"

subsection \<open>The groups\<close>

definition hash_cmds :: "request \<Rightarrow> hstate \<Rightarrow> (hstate \<times> resp_value) option" where
  "hash_cmds rq st = map_option (\<lambda>h. h rq st) (map_of hash_table (rq_cmd rq))"

definition list_cmds :: "request \<Rightarrow> hstate \<Rightarrow> (hstate \<times> resp_value) outcome option" where
  "list_cmds rq st =
     (if rq_cmd rq = ''LTRIM'' then Some (cmd_ltrim rq st)
      else map_option (\<lambda>h. Done (h rq st)) (map_of list_table (rq_cmd rq)))"

definition set_cmds :: "request \<Rightarrow> hstate \<Rightarrow> (hstate \<times> resp_value) option" where
  "set_cmds rq st = map_option (\<lambda>h. h rq st) (map_of set_table (rq_cmd rq))"

definition zset_cmds :: "request \<Rightarrow> hstate \<Rightarrow> (hstate \<times> resp_value) option" where
  "zset_cmds rq st = map_option (\<lambda>h. h rq st) (map_of zset_table (rq_cmd rq))"

definition stream_cmds :: "request \<Rightarrow> hstate \<Rightarrow> (hstate \<times> resp_value) option" where
  "stream_cmds rq st = map_option (\<lambda>h. h rq st) (map_of stream_table (rq_cmd rq))"

end
