(* ===== verification/Colls_Contract.thy ===== *)
theory Colls_Contract
  imports Handlers_Colls
begin

text \<open>
  The handlers of the collection commands satisfy the contract of a handler: a command is logged and
  changes only the keys it names, or it does nothing but remove expired keys. The loops of \<open>HSET\<close>, \<open>ZADD\<close>
  and \<open>LPOP\<close> make several calls; the locale \<open>typed_calls\<close> shows once why a type error can only stop them before
  they have changed anything. \<open>SMOVE\<close> is the exception: it satisfies the contract unless the destination
  holds another type.
\<close>

section \<open>The handlers satisfy their contract\<close>

subsection \<open>Reads leave the live cell\<close>

lemma on_list_idle:
  assumes "cell_ok c" and "\<And>l. map_option e_value (live now c) = Some (List l) \<Longrightarrow> fst (f l) = l"
  shows "fst (on_list now dflt f c) = live now c"
proof (cases "live now c")
  case (Some e)
  then show ?thesis
    using assms live_SomeD [OF Some] by (auto simp: on_list_def update_value_same split: val.splits)
qed (simp add: on_list_def)

lemma on_stream_idle:
  assumes "live now c = None \<Longrightarrow> fst dflt = None"
    and "\<And>l. map_option e_value (live now c) = Some (Stream l) \<Longrightarrow> fst (f l) = l"
  shows "fst (on_stream now dflt f c) = live now c"
  using assms by (auto simp: on_stream_def update_value_same split: option.splits val.splits)

lemma hash_reads_live:
  assumes "cell_ok c"
  shows "fst (spec_hash_get now f c) = live now c" "fst (spec_hash_len now c) = live now c"
    "fst (spec_hash_exists now f c) = live now c" "fst (spec_hash_getall now c) = live now c"
  unfolding spec_hash_get_def spec_hash_len_def spec_hash_exists_def spec_hash_getall_def
  by (rule hcoll.on_coll_idle [OF assms], simp_all)+

lemma list_reads_live:
  assumes "cell_ok c"
  shows "fst (spec_list_range now a b c) = live now c" "fst (spec_list_len now c) = live now c"
    "fst (spec_list_index now i c) = live now c"
  unfolding spec_list_range_def spec_list_len_def spec_list_index_def
  by (rule on_list_idle [OF assms], simp)+

lemma zset_reads_live: "cell_ok c \<Longrightarrow> fst (spec_zread now d g c) = live now c"
  unfolding spec_zread_def by (rule zcoll.on_coll_idle) simp_all

lemma stream_reads_live: "fst (spec_stream_read now d g c) = live now c"
  unfolding spec_stream_read_def by (rule on_stream_idle) simp_all

lemmas coll_reads_live = hash_reads_live list_reads_live spec_set_read_cell zset_reads_live stream_reads_live

lemma handled_coll_reads:
  assumes "db_ok (h_db st)"
  shows "handled rq K st (cmd_hget rq st)" "handled rq K st (cmd_hgetall rq st)"
    "handled rq K st (cmd_hlen rq st)" "handled rq K st (cmd_hexists rq st)"
    "handled rq K st (cmd_lrange rq st)" "handled rq K st (cmd_llen rq st)" "handled rq K st (cmd_lindex rq st)"
    "handled rq K st (cmd_smembers rq st)" "handled rq K st (cmd_sismember rq st)" "handled rq K st (cmd_scard rq st)"
    "handled rq K st (cmd_zrange rq st)" "handled rq K st (cmd_zcard rq st)"
    "handled rq K st (cmd_xrange rq st)" "handled rq K st (cmd_xrevrange rq st)" "handled rq K st (cmd_xlen rq st)"
  using assms
  by (auto simp: coll_reads_live cmd_hget_def cmd_hgetall_def cmd_hlen_def cmd_hexists_def cmd_lrange_def cmd_llen_def
      cmd_lindex_def cmd_smembers_def cmd_sismember_def cmd_scard_def cmd_zrange_def cmd_zcard_def
      cmd_xrange_def cmd_xrevrange_def cmd_xlen_def split: list.splits option.splits
      intro!: handled_read [OF db_local_hash_get] handled_read [OF db_local_hash_getall]
        handled_read [OF db_local_hash_len] handled_read [OF db_local_hash_exists]
        handled_read [OF db_local_list_range] handled_read [OF db_local_list_len]
        handled_read [OF db_local_list_index] handled_read [OF db_local_set_members]
        handled_read [OF db_local_set_is_member] handled_read [OF db_local_set_card]
        handled_read [OF db_local_zrange] handled_read [OF db_local_zcard]
        handled_read [OF db_local_stream_range] handled_read [OF db_local_stream_rev_range]
        handled_read [OF db_local_stream_len])

subsection \<open>Writes that are refused leave the live cell\<close>

lemma on_coll_Err:
  assumes "\<And>x. snd (f x) \<noteq> Err" and "snd dflt \<noteq> Err" and "snd (on_coll con out none now dflt f c) = Err"
  shows "fst (on_coll con out none now dflt f c) = live now c"
  using assms by (auto simp: on_coll_def split: option.splits)


text \<open>A loop of calls on one key that ends at a type error: once a call has succeeded the key holds the right
  type (or nothing), so an error can only come from the first call, which then changed nothing.\<close>

locale typed_calls =
  fixes op :: "'p \<Rightarrow> db \<Rightarrow> db \<times> 'r result"
    and g :: "'p \<Rightarrow> entry option \<Rightarrow> entry option \<times> 'r result"
    and rq :: request
    and good :: "entry option \<Rightarrow> bool"
    and k :: bytes
  assumes op_local: "db_local k (op p) (g p)"
    and refused: "cell_ok c \<Longrightarrow> snd (g p c) = Err \<Longrightarrow> swept rq c (fst (g p c))"
    and accepted: "snd (g p c) = Ok r \<Longrightarrow> good (fst (g p c))"
    and typed: "good c \<Longrightarrow> snd (g p c) \<noteq> Err"
begin

lemma call_refused:
  assumes "db_ok (h_db st)" and "on_db (op p) st = (st', Err)"
  shows "keeps rq {} st st'"
  using on_db_local(2,4) [OF op_local assms(1)] refused [OF db_ok_cell [OF assms(1)]] assms(2)
  by (metis fst_conv snd_conv)

lemma call_accepted:
  assumes "db_ok (h_db st)" and "on_db (op p) st = (st', Ok r)"
  shows "keeps rq {k} st st'" and "good (db_get (h_db st') k)"
  using on_db_local(1) [OF op_local assms(1), of rq p] on_db_local(3,4) [OF op_local assms(1), of p] assms(2)
    accepted [of p "db_get (h_db st) k" r]
  by auto

lemma call_typed:
  assumes "db_ok (h_db st)" and "good (db_get (h_db st) k)"
  shows "on_db (op p) st \<noteq> (st', Err)"
  using on_db_local(4) [OF op_local assms(1), of p] typed [OF assms(2), of p] by (metis snd_conv)

end

definition holds :: "(val \<Rightarrow> bool) \<Rightarrow> entry option \<Rightarrow> bool" where
  "holds P c \<longleftrightarrow> (case c of None \<Rightarrow> True | Some e \<Rightarrow> P (e_value e))"

interpretation hset_calls: typed_calls "\<lambda>(i, f, v). db_hash_set_ref (rq_clock rq i) k f v"
  "\<lambda>(i, f, v). spec_hash_set (rq_clock rq i) f v" rq "holds (\<lambda>v. hash_of v \<noteq> None)" k for rq :: request and k
proof unfold_locales
  show "db_local k (case p of (i, f, v) \<Rightarrow> db_hash_set_ref (rq_clock rq i) k f v)
      (case p of (i, f, v) \<Rightarrow> spec_hash_set (rq_clock rq i) f v)" for p
    using db_local_hash_set_ref by (auto split: prod.splits)
qed (auto simp: spec_hash_set_def on_coll_def holds_def live_def split: prod.splits option.splits if_splits)

interpretation zadd_calls: typed_calls "\<lambda>(i, s, m). db_zadd (rq_clock rq i) k s m"
  "\<lambda>(i, s, m). spec_zadd (rq_clock rq i) s m" rq "holds (\<lambda>v. zset_of v \<noteq> None)" k for rq :: request and k
proof unfold_locales
  show "db_local k (case p of (i, s, m) \<Rightarrow> db_zadd (rq_clock rq i) k s m)
      (case p of (i, s, m) \<Rightarrow> spec_zadd (rq_clock rq i) s m)" for p
    using db_local_zadd by (auto split: prod.splits)
qed (auto simp: spec_zadd_def on_coll_def holds_def live_def split: prod.splits option.splits if_splits)

interpretation pop_calls: typed_calls "\<lambda>i. db_list_pop (rq_clock rq i) k left"
  "\<lambda>i. spec_list_pop (rq_clock rq i) left" rq "holds (\<lambda>v. \<exists>l. v = List l)" k for rq :: request and k left
proof unfold_locales
  show "db_local k (db_list_pop (rq_clock rq i) k left) (spec_list_pop (rq_clock rq i) left)" for i
    by (rule db_local_list_pop)
qed (auto simp: spec_list_pop_def on_list_def holds_def live_def split: option.splits if_splits val.splits)

lemma hset_loop_typed:
  fixes rq :: request
  shows "db_ok (h_db st) \<Longrightarrow> holds (\<lambda>v. hash_of v \<noteq> None) (db_get (h_db st) k) \<Longrightarrow>
     snd (hset_loop (rq_clock rq) i k args n st) \<noteq> Err"
proof (induction "rq_clock rq" i k args n st rule: hset_loop.induct)
  case (1 i k f v rest n st)
  obtain st' r where call: "on_db (db_hash_set_ref (rq_clock rq i) k f v) st = (st', r)" by fastforce
  with hset_calls.call_typed [OF 1(2,3), of rq "(i, f, v)" st'] obtain b where r: "r = Ok b" by (cases r) auto
  note acc = hset_calls.call_accepted [OF 1(2), of rq k "(i, f, v)" st' b]
  show ?case using 1(1) acc call keeps_db_ok by (simp add: r)
qed auto

lemma hset_loop_keeps:
  fixes rq :: request
  shows "db_ok (h_db st) \<Longrightarrow> keeps rq {k} st (fst (hset_loop (rq_clock rq) i k args n st)) \<and>
     (snd (hset_loop (rq_clock rq) i k args n st) = Err \<longrightarrow> keeps rq {} st (fst (hset_loop (rq_clock rq) i k args n st)))"
proof (induction "rq_clock rq" i k args n st rule: hset_loop.induct)
  case (1 i k f v rest n st)
  obtain st' r where call: "on_db (db_hash_set_ref (rq_clock rq i) k f v) st = (st', r)" by fastforce
  show ?case
  proof (cases r)
    case (Ok b)
    note acc = hset_calls.call_accepted [OF 1(2), of rq k "(i, f, v)" st' b]
    show ?thesis
      using 1(1) keeps_trans [of rq "{k}" st st'] acc call keeps_db_ok
        hset_loop_typed [of st' k rq "Suc i" rest] by (simp add: Ok)
  next
    case Err
    with hset_calls.call_refused [OF 1(2), of rq k "(i, f, v)" st'] call show ?thesis
      by (auto intro: keeps_mono)
  qed
qed auto

lemma zadd_loop_typed:
  "db_ok (h_db st) \<Longrightarrow> holds (\<lambda>v. zset_of v \<noteq> None) (db_get (h_db st) k) \<Longrightarrow> snd (zadd_loop rq i k args n st) \<noteq> Err"
proof (induction rq i k args n st rule: zadd_loop.induct)
  case (1 rq i k s m rest n st)
  let ?p = "(i, unwrap_or (parse_f64 (rq_f64 rq) s) 0, m)"
  obtain st' r where call: "on_db (db_zadd (rq_clock rq i) k (unwrap_or (parse_f64 (rq_f64 rq) s) 0) m) st = (st', r)"
    by fastforce
  with zadd_calls.call_typed [OF 1(2,3), of rq ?p st'] obtain b where r: "r = Ok b" by (cases r) auto
  note acc = zadd_calls.call_accepted [OF 1(2), of rq k ?p st' b]
  show ?case using 1(1) acc call keeps_db_ok by (simp add: r)
qed auto

lemma zadd_loop_keeps:
  "db_ok (h_db st) \<Longrightarrow> keeps rq {k} st (fst (zadd_loop rq i k args n st)) \<and>
     (snd (zadd_loop rq i k args n st) = Err \<longrightarrow> keeps rq {} st (fst (zadd_loop rq i k args n st)))"
proof (induction rq i k args n st rule: zadd_loop.induct)
  case (1 rq i k s m rest n st)
  let ?p = "(i, unwrap_or (parse_f64 (rq_f64 rq) s) 0, m)"
  obtain st' r where call: "on_db (db_zadd (rq_clock rq i) k (unwrap_or (parse_f64 (rq_f64 rq) s) 0) m) st = (st', r)"
    by fastforce
  show ?case
  proof (cases r)
    case (Ok b)
    note acc = zadd_calls.call_accepted [OF 1(2), of rq k ?p st' b]
    show ?thesis
      using 1(1) keeps_trans [of rq "{k}" st st'] acc call keeps_db_ok
        zadd_loop_typed [of st' k rq "Suc i" rest] by (simp add: Ok)
  next
    case Err
    with zadd_calls.call_refused [OF 1(2), of rq k ?p st'] call show ?thesis
      by (auto intro: keeps_mono)
  qed
qed auto

lemma pop_Ok_None: "cell_ok c \<Longrightarrow> snd (spec_list_pop now left c) = Ok None \<Longrightarrow> fst (spec_list_pop now left c) = live now c"
  by (auto simp: spec_list_pop_def on_list_def split: option.splits val.splits if_splits)

lemma pop_loop_typed:
  fixes rq :: request
  shows "db_ok (h_db st) \<Longrightarrow> holds (\<lambda>v. \<exists>l. v = List l) (db_get (h_db st) k) \<Longrightarrow>
     snd (pop_loop (rq_clock rq) i k left n out st) \<noteq> Err"
proof (induction "rq_clock rq" i k left n out st rule: pop_loop.induct)
  case (2 i k left n out st)
  obtain st' r where call: "on_db (db_list_pop (rq_clock rq i) k left) st = (st', r)" by fastforce
  with pop_calls.call_typed [OF 2(2,3), where p = i and rq = rq and left = left and st' = st'] obtain b where r: "r = Ok b" by (cases r) auto
  note acc = pop_calls.call_accepted [OF 2(2), where p = i and rq = rq and left = left and k = k and st' = st' and r = b]
  show ?case using 2(1) acc call keeps_db_ok by (cases b) (simp_all add: r)
qed auto

lemma pop_loop_keeps:
  fixes rq :: request
  shows "db_ok (h_db st) \<Longrightarrow> keeps rq {k} st (fst (pop_loop (rq_clock rq) i k left n out st)) \<and>
     (case snd (pop_loop (rq_clock rq) i k left n out st) of
        Err \<Rightarrow> keeps rq {} st (fst (pop_loop (rq_clock rq) i k left n out st))
      | Ok vs \<Rightarrow> (\<exists>ws. vs = out @ ws \<and> (ws = [] \<longrightarrow> keeps rq {} st (fst (pop_loop (rq_clock rq) i k left n out st)))))"
proof (induction "rq_clock rq" i k left n out st rule: pop_loop.induct)
  case (2 i k left n out st)
  obtain st' r where call: "on_db (db_list_pop (rq_clock rq i) k left) st = (st', r)" by fastforce
  show ?case
  proof (cases r)
    case (Ok b)
    note acc = pop_calls.call_accepted [OF 2(2), where p = i and rq = rq and left = left and k = k and st' = st' and r = b]
    show ?thesis
    proof (cases b)
      case None
      have "fst (spec_list_pop (rq_clock rq i) left (db_get (h_db st) k)) = live (rq_clock rq i) (db_get (h_db st) k)"
        using on_db_local(4) [OF db_local_list_pop [of k "rq_clock rq i" left] 2(2)] call Ok None
        by (intro pop_Ok_None [OF db_ok_cell [OF 2(2)]]) simp
      then have "keeps rq {} st st'"
        using on_db_local(2) [OF db_local_list_pop [of k "rq_clock rq i" left] 2(2), of rq] call by simp
      with acc call Ok None show ?thesis by simp
    next
      case (Some v)
      note acc = acc [OF call [unfolded Ok]]
      note ih = 2(1) [OF call [symmetric], unfolded Ok Some, OF refl refl keeps_db_ok [OF acc(1)]]
      show ?thesis
        using ih keeps_trans [OF acc(1)] keeps_db_ok [OF acc(1)] acc(2) call Ok Some
          pop_loop_typed [of st' k rq "Suc i" left n "out @ [v]"] by (auto split: result.splits)
    qed
  next
    case Err
    with pop_calls.call_refused [OF 2(2), where p = i and rq = rq and left = left and k = k and st' = st'] call show ?thesis
      by (auto intro: keeps_mono)
  qed
qed auto

subsection \<open>Hash, sorted-set and stream commands\<close>

text \<open>A refused write leaves the live cell.\<close>

lemma refused_live:
  assumes "cell_ok c"
  shows "snd (spec_hash_del now fs c) = Err \<Longrightarrow> fst (spec_hash_del now fs c) = live now c"
    "snd (spec_hash_incr_by now f d c) = Err \<Longrightarrow> fst (spec_hash_incr_by now f d c) = live now c"
    "snd (spec_hash_set_nx now f v c) \<noteq> Ok True \<Longrightarrow> fst (spec_hash_set_nx now f v c) = live now c"
    "snd (spec_stream_add now xid flds c) = Err \<Longrightarrow> fst (spec_stream_add now xid flds c) = live now c"
    "snd (spec_stream_del now ids c) = Err \<Longrightarrow> fst (spec_stream_del now ids c) = live now c"
    "snd (spec_list_push now vs left c) = Err \<Longrightarrow> fst (spec_list_push now vs left c) = live now c"
    "snd (spec_list_set now i v c) = Err \<Longrightarrow> fst (spec_list_set now i v c) = live now c"
    "snd (spec_list_trim now start stop c) = Err \<Longrightarrow> fst (spec_list_trim now start stop c) = live now c"
    "snd (spec_set_add now ms c) = Err \<Longrightarrow> fst (spec_set_add now ms c) = live now c"
    "snd (spec_set_remove now ms c) = Err \<Longrightarrow> fst (spec_set_remove now ms c) = live now c"
  using hcoll.live_good [OF assms] scoll.live_good [OF assms] assms
  by (auto simp: spec_hash_del_def spec_hash_incr_by_def spec_hash_set_nx_def spec_stream_add_def
      spec_stream_del_def spec_list_push_def spec_list_set_def spec_list_trim_def spec_set_add_def
      spec_set_remove_def on_coll_def on_stream_def on_list_def Let_def hcoll.out_iff update_value_same
      dest: live_SomeD split: option.splits val.splits if_splits result.splits)

lemma handled_write:
  assumes "db_local k f g" and "db_ok (h_db st)" and "k \<in> K"
    and "\<And>c. cell_ok c \<Longrightarrow> snd (g c) = Err \<Longrightarrow> fst (g c) = live (rq_clock rq i) c" and "\<And>v. \<not> is_error (h v)"
  shows "handled rq K st (case on_db f st of (st', r) \<Rightarrow> (case r of Ok v \<Rightarrow> (log_cmd rq st', h v) | Err \<Rightarrow> (st', e)))"
  by (rule handled_local [OF assms(1-3)]) (use assms(4,5) in \<open>auto split: result.splits\<close>)

lemma handled_hash_writes:
  assumes "db_ok (h_db st)" and "set (take 1 (rq_args rq)) \<subseteq> K"
  shows "handled rq K st (cmd_hdel rq st)" "handled rq K st (cmd_hincrby rq st)"
  using assms
  by (auto simp: cmd_hdel_def cmd_hincrby_def refused_live split: list.splits option.splits
      intro!: handled_write [OF db_local_hash_del] handled_write [OF db_local_hash_incr_by])

lemma handled_hsetnx: "db_ok (h_db st) \<Longrightarrow> set (take 1 (rq_args rq)) \<subseteq> K \<Longrightarrow> handled rq K st (cmd_hsetnx rq st)"
  by (auto simp: cmd_hsetnx_def split: list.splits intro!: handled_local [OF db_local_hash_set_nx])
    (auto simp: refused_live split: result.splits)

lemma handled_hset:
  assumes "db_ok (h_db st)" and "set (take 1 (rq_args rq)) \<subseteq> K"
  shows "handled rq K st (cmd_hset rq st)"
proof -
  have "handled rq K st (case hset_loop (rq_clock rq) 0 k ps 0 st of (st, r) \<Rightarrow>
      (case r of Ok added \<Rightarrow> (log_cmd rq st, Integer added) | Err \<Rightarrow> (st, StaticError WRONGTYPE)))" if "k \<in> K" for k ps
    using hset_loop_keeps [OF assms(1), of rq k 0 ps 0] keeps_mono [of rq "{k}" st _ K] that
    by (auto simp: case_prod_beta split: result.splits intro!: handled_logged intro: handled_quiet)
  then show ?thesis using assms by (auto simp: cmd_hset_def split: list.splits)
qed

lemma handled_zadd:
  assumes "db_ok (h_db st)" and "set (take 1 (rq_args rq)) \<subseteq> K"
  shows "handled rq K st (cmd_zadd rq st)"
proof -
  have "handled rq K st (case zadd_loop rq 0 k ps 0 st of (st, r) \<Rightarrow>
      (case r of Ok added \<Rightarrow> (log_cmd rq st, Integer added) | Err \<Rightarrow> (st, StaticError WRONGTYPE)))" if "k \<in> K" for k ps
    using zadd_loop_keeps [OF assms(1), of rq k 0 ps 0] keeps_mono [of rq "{k}" st _ K] that
    by (auto simp: case_prod_beta split: result.splits intro!: handled_logged intro: handled_quiet)
  then show ?thesis using assms by (auto simp: cmd_zadd_def split: list.splits)
qed

lemma handled_stream_writes:
  assumes "db_ok (h_db st)" and "set (take 1 (rq_args rq)) \<subseteq> K"
  shows "handled rq K st (cmd_xadd rq st)" "handled rq K st (cmd_xdel rq st)"
  using assms
  by (auto simp: cmd_xadd_def cmd_xdel_def refused_live split: list.splits
      intro!: handled_write [OF db_local_stream_add] handled_write [OF db_local_stream_del])

lemma handled_count:
  assumes "db_local k f g" and "db_ok (h_db st)" and "k \<in> K"
    and "\<And>c. cell_ok c \<Longrightarrow> (case snd (g c) of Ok n \<Rightarrow> n \<le> 0 | Err \<Rightarrow> True) \<Longrightarrow> swept rq c (fst (g c))"
  shows "handled rq K st (count_reply rq (on_db f st))"
  unfolding count_reply_def
  by (rule handled_local [OF assms(1-3)]) (use assms(4) in \<open>auto split: result.splits\<close>)

lemma hm_del_absent: "hm_get m k = None \<Longrightarrow> hm_del k m = m"
  by (induction m) (auto simp: hm_get_def hm_del_def split: if_splits)

lemma fold_hm_del_absent: "dom (hm_get m) \<inter> set ks = {} \<Longrightarrow> fold hm_del ks m = m"
proof (induction ks)
  case (Cons k ks)
  then have "hm_get m k = None" "dom (hm_get m) \<inter> set ks = {}" by auto
  with Cons.IH show ?case by (simp add: hm_del_absent)
qed simp

lemma zrem_live:
  assumes "cell_ok c" and "case snd (spec_zrem now ms c) of Ok n \<Rightarrow> n \<le> 0 | Err \<Rightarrow> True"
  shows "fst (spec_zrem now ms c) = live now c"
proof (cases "live now c")
  case (Some e)
  have "dom (hm_get z) \<inter> set ms = {}" if "e_value e = ZSet z" for z
    using assms(2) that by (auto simp: spec_zrem_def on_coll_def Some)
  with zcoll.live_good [OF assms(1) Some] show ?thesis
    by (auto simp: spec_zrem_def on_coll_def Some zcoll.out_iff update_value_same fold_hm_del_absent split: option.splits)
qed (simp add: spec_zrem_def on_coll_def)

lemma handled_zrem: "db_ok (h_db st) \<Longrightarrow> set (take 1 (rq_args rq)) \<subseteq> K \<Longrightarrow> handled rq K st (cmd_zrem rq st)"
  by (auto simp: cmd_zrem_def zrem_live split: list.splits intro!: handled_count [OF db_local_zrem])

subsection \<open>List commands\<close>

lemma handled_list_writes:
  assumes "db_ok (h_db st)" and "set (take 1 (rq_args rq)) \<subseteq> K"
  shows "handled rq K st (cmd_push rq st)" "handled rq K st (cmd_lset rq st)"
  using assms
  by (auto simp: cmd_push_def cmd_lset_def refused_live split: list.splits option.splits
      intro!: handled_write [OF db_local_list_push] handled_write [OF db_local_list_set])

lemma handled_pop: "db_ok (h_db st) \<Longrightarrow> set (take 1 (rq_args rq)) \<subseteq> K \<Longrightarrow> handled rq K st (cmd_pop rq st)"
proof -
  assume d: "db_ok (h_db st)" and K: "set (take 1 (rq_args rq)) \<subseteq> K"
  have one: "handled rq K st (pop_one rq k left st)" if "k \<in> K" for k left
    unfolding pop_one_def using d that
    by (intro handled_local [OF db_local_list_pop])
      (auto simp: pop_Ok_None split: result.splits option.splits dest: pop_calls.refused)
  have many: "handled rq K st (pop_many rq k left n st)" if "k \<in> K" for k left n
    using pop_loop_keeps [OF d, of rq k 0 left n "[]"] that unfolding pop_many_def
    by (auto simp: case_prod_beta split: result.splits intro!: handled_logged intro: handled_quiet keeps_mono)
  show ?thesis using d K one many by (auto simp: cmd_pop_def Let_def split: list.splits)
qed

text \<open>A count that is not positive leaves the live cell.\<close>

lemma remove_first_same: "length (remove_first n v l) = length l \<Longrightarrow> remove_first n v l = l"
proof (induction n v l rule: remove_first.induct)
  case (3 n v x xs)
  have "length (remove_first n v xs) \<le> length xs" by (simp add: length_remove_first)
  with 3 show ?case by (auto split: if_splits)
qed simp_all

lemma filter_same_length: "length (filter P l) = length l \<Longrightarrow> filter P l = l"
  by (metis filter_id_conv length_filter_less less_irrefl)

lemma lrem_spec_same:
  assumes "int (length l) - int (length (lrem_spec cnt v l)) \<le> 0"
  shows "lrem_spec cnt v l = l"
proof -
  have "length (lrem_spec cnt v l) \<le> length l" by (simp add: lrem_spec_def length_remove_first)
  with assms have len: "length (lrem_spec cnt v l) = length l" by simp
  consider "cnt = 0" | "0 < cnt" | "cnt < 0" by linarith
  then show ?thesis
  proof cases
    case 1
    with len show ?thesis using filter_same_length [of "\<lambda>x. x \<noteq> v" l] by (simp add: lrem_spec_def)
  next
    case 2
    with len show ?thesis using remove_first_same [of "nat cnt" v l] by (simp add: lrem_spec_def)
  next
    case 3
    with len show ?thesis using remove_first_same [of "nat (- cnt)" v "rev l"] by (simp add: lrem_spec_def)
  qed
qed

lemma push_count: "vs \<noteq> [] \<Longrightarrow> \<not> int (length l) + int (length vs) \<le> 0"
  by (cases vs) simp_all

lemma no_count_live:
  assumes "cell_ok c"
  shows "(case snd (spec_list_push_x now vs left c) of Ok n \<Rightarrow> n \<le> 0 | Err \<Rightarrow> True) \<Longrightarrow> vs \<noteq> [] \<Longrightarrow>
      fst (spec_list_push_x now vs left c) = live now c"
    "(case snd (spec_list_insert now before pivot v c) of Ok n \<Rightarrow> n \<le> 0 | Err \<Rightarrow> True) \<Longrightarrow>
      fst (spec_list_insert now before pivot v c) = live now c"
    "(case snd (spec_list_rem now cnt v c) of Ok n \<Rightarrow> n \<le> 0 | Err \<Rightarrow> True) \<Longrightarrow>
      fst (spec_list_rem now cnt v c) = live now c"
  using assms lrem_spec_same [of _ cnt v]
  by (auto simp: push_count spec_list_push_x_def spec_list_insert_def spec_list_rem_def on_list_def update_value_same
      dest: live_SomeD split: option.splits val.splits if_splits result.splits)


lemma handled_list_counts:
  assumes "db_ok (h_db st)" and "set (take 1 (rq_args rq)) \<subseteq> K"
  shows "handled rq K st (cmd_pushx rq st)" "handled rq K st (cmd_linsert rq st)" "handled rq K st (cmd_lrem rq st)"
proof -
  have rem: "handled rq K st (count_reply rq (on_db (db_list_rem (rq_now rq) k cnt v) st))"
    if "in_i64 cnt" "k \<in> K" for k cnt v
  proof (cases "cnt = i64_min")
    case True
    note loc = db_local_at [OF key_local_list_rem_min [of k "rq_now rq" v]]
    show ?thesis unfolding True db_list_rem_def
      using assms(1) that by (intro handled_count [OF loc]) (auto simp: spec_list_rem_min_def on_list_idle)
  next
    case False
    with that assms(1) show ?thesis
      by (intro handled_count [OF db_local_list_rem]) (simp_all add: no_count_live)
  qed
  show "handled rq K st (cmd_pushx rq st)" "handled rq K st (cmd_linsert rq st)" "handled rq K st (cmd_lrem rq st)"
    using assms rem
    by (auto simp: cmd_pushx_def cmd_linsert_def cmd_lrem_def Let_def no_count_live parse_i64_bounds
        split: list.splits option.splits
        intro!: handled_count [OF db_local_list_push_x] handled_count [OF db_local_list_insert])
qed

text \<open>\<open>LTRIM\<close> panics or trims.\<close>

lemma db_list_trim_cases:
  assumes d: "db_ok d" and "list_fits (db_get d k)"
  shows "trim_panics_at now start stop (db_get d k) \<Longrightarrow> db_list_trim now k start stop d = Panic"
    and "\<not> trim_panics_at now start stop (db_get d k) \<Longrightarrow>
      \<exists>d'. db_list_trim now k start stop d = Done (d', snd (spec_list_trim now start stop (db_get d k))) \<and> db_ok d' \<and>
        db_get d' = (db_get d)(k := fst (spec_list_trim now start stop (db_get d k)))"
proof -
  note tc = sh_list_trim_cases [OF shard_of_ok [OF d, of k], where k = k, unfolded db_get_shard, OF assms(2), of now start stop]
  show "trim_panics_at now start stop (db_get d k) \<Longrightarrow> db_list_trim now k start stop d = Panic"
    using tc(1) by (simp add: db_list_trim_def)
  assume "\<not> trim_panics_at now start stop (db_get d k)"
  from tc(2) [OF this] obtain s' where s': "sh_list_trim now k start stop (shards d ! shard_index k) =
        Done (s', snd (spec_list_trim now start stop (db_get d k)))" "shard_ok s'"
      "shard_get s' = (shard_get (shards d ! shard_index k))(k := fst (spec_list_trim now start stop (db_get d k)))"
    by blast
  have home: "shard_index k' = shard_index k" if "shard_get s' k' \<noteq> None" for k'
    using that s'(3) shard_home [OF d, of "shard_index k" k'] sh.index_less by (auto split: if_splits)
  note sb = db_set_bucket [OF d sh.index_less s'(2) home]
  show "\<exists>d'. db_list_trim now k start stop d = Done (d', snd (spec_list_trim now start stop (db_get d k))) \<and> db_ok d' \<and>
        db_get d' = (db_get d)(k := fst (spec_list_trim now start stop (db_get d k)))"
    using sb(1) s'(1) sb(2) s'(3) by (auto simp: db_list_trim_def fun_eq_iff) (metis db_get_shard)
qed

lemma handled_ltrim:
  assumes d: "db_ok (h_db st)" and "set (take 1 (rq_args rq)) \<subseteq> K" and "\<forall>k. list_fits (db_get (h_db st) k)"
    and "cmd_ltrim rq st = Done out"
  shows "handled rq K st out"
proof -
  have trim: "(\<exists>d'. db_list_trim now k a b (h_db st) = Done (d', snd (spec_list_trim now a b (db_get (h_db st) k))) \<and>
      db_ok d' \<and> db_get d' = (db_get (h_db st))(k := fst (spec_list_trim now a b (db_get (h_db st) k))))"
    if "db_list_trim now k a b (h_db st) \<noteq> Panic" for now k a b
    using db_list_trim_cases [OF d, of k now a b] assms(3) that by blast
  have ref: "fst (spec_list_trim now a b (db_get (h_db st) k)) = live now (db_get (h_db st) k)"
    if "snd (spec_list_trim now a b (db_get (h_db st) k)) = Err" for now k a b
    by (rule refused_live(8) [OF db_ok_cell [OF d] that])
  show ?thesis
  proof (cases "rq_args rq")
    case (Cons k rest)
    show ?thesis
    proof (cases rest rule: field_pairs.cases)
      case (1 a b vs)
      let ?a = "unwrap_or (parse_i64 a) 0" and ?b = "unwrap_or (parse_i64 b) (- 1)"
      have "db_list_trim (rq_now rq) k ?a ?b (h_db st) \<noteq> Panic"
        using assms(4) by (auto simp: cmd_ltrim_def Cons 1)
      from trim [OF this] obtain d' where d': "db_list_trim (rq_now rq) k ?a ?b (h_db st) =
          Done (d', snd (spec_list_trim (rq_now rq) ?a ?b (db_get (h_db st) k)))"
        "db_ok d'" "db_get d' = (db_get (h_db st))(k := fst (spec_list_trim (rq_now rq) ?a ?b (db_get (h_db st) k)))" by blast
      have "keeps rq K st (st\<lparr>h_db := d'\<rparr>)" using d' assms(2) by (auto simp: keeps_def Cons)
      moreover have "keeps rq {} st (st\<lparr>h_db := d'\<rparr>)"
        if "snd (spec_list_trim (rq_now rq) ?a ?b (db_get (h_db st) k)) = Err"
        using d' ref [OF that] by (auto simp: keeps_def)
      ultimately show ?thesis
        using assms(4) d'(1) by (auto simp: cmd_ltrim_def Cons 1 Let_def split: result.splits
            intro: handled_logged handled_quiet)
    qed (use assms in \<open>auto simp: cmd_ltrim_def Cons\<close>)
  qed (use assms in \<open>auto simp: cmd_ltrim_def\<close>)
qed

subsection \<open>Set commands\<close>

lemma handled_set_writes:
  assumes "db_ok (h_db st)" and "set (take 1 (rq_args rq)) \<subseteq> K"
  shows "handled rq K st (cmd_sadd rq st)" "handled rq K st (cmd_srem rq st)"
  using assms
  by (auto simp: cmd_sadd_def cmd_srem_def refused_live split: list.splits
      intro!: handled_write [OF db_local_set_add] handled_write [OF db_local_set_remove])

text \<open>The loops over several keys read one key after the other.\<close>

definition sweeps :: "request \<Rightarrow> db \<Rightarrow> db \<Rightarrow> bool" where
  "sweeps rq d d' \<longleftrightarrow> db_ok d' \<and> (\<forall>k. swept rq (db_get d k) (db_get d' k))"

lemma sweeps_refl: "db_ok d \<Longrightarrow> sweeps rq d d"
  by (simp add: sweeps_def)

lemma sweeps_trans: "sweeps rq d d' \<Longrightarrow> sweeps rq d' d'' \<Longrightarrow> sweeps rq d d''"
  by (auto simp: sweeps_def intro: swept_trans)

lemma sweeps_ok: "sweeps rq d d' \<Longrightarrow> db_ok d'"
  by (simp add: sweeps_def)

lemma sweeps_set_read:
  assumes "db_ok d"
  shows "sweeps rq d (fst (db_set_members (rq_clock rq i) k d))"
    and "sweeps rq d (fst (db_set_is_member (rq_clock rq i) k m d))"
  using db_localD(1,2) [OF db_local_set_members assms] db_localD(1,2) [OF db_local_set_is_member assms]
  by (auto simp: sweeps_def spec_set_read_cell [OF db_ok_cell [OF assms]])

lemma sweeps_union_loop: "db_ok d \<Longrightarrow> sweeps rq d (fst (db_union_loop (rq_clock rq i) ks acc d))"
proof (induction ks arbitrary: acc d)
  case (Cons k ks)
  note r = sweeps_set_read(1) [OF Cons.prems, of rq i k]
  show ?case using r sweeps_trans [OF r Cons.IH [OF sweeps_ok [OF r]]]
    by (auto split: prod.splits result.splits)
qed (simp add: sweeps_refl)

lemma sweeps_inter_keys: "db_ok d \<Longrightarrow> sweeps rq d (fst (db_inter_keys (rq_clock rq i) m ks d))"
proof (induction ks arbitrary: d)
  case (Cons k ks)
  note r = sweeps_set_read(2) [OF Cons.prems, of rq i k m]
  show ?case using r sweeps_trans [OF r Cons.IH [OF sweeps_ok [OF r]]]
    by (auto split: prod.splits result.splits bool.splits)
qed (simp add: sweeps_refl)

lemma sweeps_inter_members: "db_ok d \<Longrightarrow> sweeps rq d (fst (db_inter_members (rq_clock rq i) ks ms acc d))"
proof (induction ms arbitrary: acc d)
  case (Cons m ms)
  note r = sweeps_inter_keys [OF Cons.prems, of rq i m ks]
  show ?case using r sweeps_trans [OF r Cons.IH [OF sweeps_ok [OF r]]]
    by (auto split: prod.splits flow.splits)
qed (simp add: sweeps_refl)

lemma sweeps_set_inter: "db_ok d \<Longrightarrow> sweeps rq d (fst (db_set_inter (rq_clock rq i) ks d))"
proof (cases ks)
  case (Cons k rest)
  assume d: "db_ok d"
  note r = sweeps_set_read(1) [OF d, of rq i k]
  show ?thesis using r sweeps_trans [OF r sweeps_inter_members [OF sweeps_ok [OF r]]]
    by (auto simp: db_set_inter_def Cons split: prod.splits result.splits)
qed (simp add: db_set_inter_def sweeps_refl)

lemma keeps_sweeps: "sweeps rq (h_db st) (fst (f (h_db st))) \<Longrightarrow> keeps rq {} st (fst (on_db f st))"
  by (simp add: keeps_def sweeps_def on_db_eq)

lemma handled_set_algebra:
  assumes "db_ok (h_db st)"
  shows "handled rq K st (cmd_sunion rq st)" "handled rq K st (cmd_sinter rq st)"
  using assms sweeps_union_loop [OF assms, of rq 0] sweeps_set_inter [OF assms, of rq 0]
  by (auto simp: cmd_sunion_def cmd_sinter_def db_set_union_def case_prod_beta intro!: handled_quiet keeps_sweeps)

text \<open>\<open>SMOVE\<close> of a key onto itself.\<close>

definition move_self :: "u64 \<Rightarrow> bytes \<Rightarrow> entry option \<Rightarrow> entry option \<times> bool result" where
  "move_self now m c =
     (case live now c of
        None \<Rightarrow> (None, Ok False)
      | Some e \<Rightarrow>
          (case set_of (e_value e) of
             None \<Rightarrow> (Some e, Err)
           | Some xs \<Rightarrow>
               if m \<notin> set xs then (Some e, Ok False)
               else let xs' = fst (hset_remove m xs)
                    in (Some (if xs' = [] then fresh (Set [m]) else e\<lparr>e_value := Set (fst (hset_insert m xs'))\<rparr>), Ok True)))"

lemma live_again: "live now c = Some e \<Longrightarrow> live now (Some e) = Some e"
  by (auto simp: live_def split: option.splits if_splits)

lemma key_local_set_move_self: "key_local k (sh_set_move now k k m) (move_self now m)"
proof (rule key_localI)
  fix c assume c: "cell_ok c"
  have "distinct (fst (hset_insert m (fst (hset_remove m xs)))) \<and> fst (hset_insert m (fst (hset_remove m xs))) \<noteq> []"
    if "distinct xs" for xs
    using that by (auto simp: hset_insert_def)
  with c show "cell_ok (fst (move_self now m c))"
    using scoll.live_good [OF c]
    by (auto simp: move_self_def Let_def scoll.out_iff dest: live_SomeD split: option.splits)
qed (auto simp: sh_set_move_def move_self_def Let_def hm_ok_data fun_eq_iff case_prod_beta hset_remove_absent
    update_value_same live_again scoll.out_iff hset_insert_Nil split: option.splits val.splits if_splits)

text \<open>The case in which the member is lost: it is in the source and the destination holds another type.\<close>

definition smove_clash :: "u64 \<Rightarrow> bytes list \<Rightarrow> db \<Rightarrow> bool" where
  "smove_clash now args d \<longleftrightarrow>
     (case args of
        source # dest # m # _ \<Rightarrow> source \<noteq> dest \<and> m \<in> live_set now d source \<and> not_a_set now d dest
      | _ \<Rightarrow> False)"

lemma move_refused_cells:
  assumes "move_cells now m c d = (c', d', r)" and "r \<noteq> Ok True"
    and "\<not> ((\<exists>e xs. live now c = Some e \<and> set_of (e_value e) = Some xs \<and> m \<in> set xs) \<and> set_view now d = Err)"
  shows "c' = live now c \<and> d' = live now d"
  using assms by (auto simp: move_cells_def Let_def coll_view_def split: option.splits if_splits)

lemma handled_smove:
  assumes d: "db_ok (h_db st)" and K: "set (take 2 (rq_args rq)) \<subseteq> K"
    and clash: "\<not> smove_clash (rq_now rq) (rq_args rq) (h_db st)"
  shows "handled rq K st (cmd_smove rq st)"
proof -
  have self: "handled rq K st (case on_db (db_set_move (rq_now rq) k k m) st of (st, r) \<Rightarrow>
      (case r of Ok moved \<Rightarrow> (if moved then log_cmd rq st else st, flag moved) | Err \<Rightarrow> (st, StaticError WRONGTYPE)))"
    if "k \<in> K" for k m
  proof -
    have "db_set_move (rq_now rq) k k m = db_at k (sh_set_move (rq_now rq) k k m)"
      by (simp add: db_set_move_def fun_eq_iff)
    with db_local_at [OF key_local_set_move_self] have loc: "db_local k (db_set_move (rq_now rq) k k m) (move_self (rq_now rq) m)"
      by simp
    show ?thesis
      by (rule handled_local [OF loc d that]) (auto simp: move_self_def Let_def split: option.splits result.splits)
  qed
  have two: "handled rq K st (case on_db (db_set_move (rq_now rq) k k' m) st of (st, r) \<Rightarrow>
      (case r of Ok moved \<Rightarrow> (if moved then log_cmd rq st else st, flag moved) | Err \<Rightarrow> (st, StaticError WRONGTYPE)))"
    if kk: "k \<in> K" "k' \<in> K" "k \<noteq> k'" and no: "\<not> (m \<in> live_set (rq_now rq) (h_db st) k \<and> not_a_set (rq_now rq) (h_db st) k')"
    for k k' m
  proof -
    let ?now = "rq_now rq" and ?c = "db_get (h_db st)"
    obtain c' e' r where mv: "move_cells ?now m (?c k) (?c k') = (c', e', r)" by (metis prod_cases3)
    note eq = db_set_move_eq [OF kk(3) d mv]
    have loc: "on_db (db_set_move ?now k k' m) st = (st\<lparr>h_db := fst (db_set_move ?now k k' m (h_db st))\<rparr>, r)"
      using eq(3) by (simp add: on_db_eq)
    have kp: "keeps rq K st (st\<lparr>h_db := fst (db_set_move ?now k k' m (h_db st))\<rparr>)"
      using eq kk by (auto simp: keeps_def)
    have "c' = live ?now (?c k) \<and> e' = live ?now (?c k')" if "r \<noteq> Ok True"
      by (rule move_refused_cells [OF mv that])
        (use no in \<open>auto simp: live_set_def not_a_set_def coll_view_def\<close>)
    then have "keeps rq {} st (st\<lparr>h_db := fst (db_set_move ?now k k' m (h_db st))\<rparr>)" if "r \<noteq> Ok True"
      using eq that by (auto simp: keeps_def)
    with kp show ?thesis
      by (auto simp: loc split: result.splits intro: handled_logged handled_quiet)
  qed
  have any: "handled rq K st (case on_db (db_set_move (rq_now rq) k k' m) st of (st, r) \<Rightarrow>
      (case r of Ok moved \<Rightarrow> (if moved then log_cmd rq st else st, flag moved) | Err \<Rightarrow> (st, StaticError WRONGTYPE)))"
    if "k \<in> K" "k' \<in> K" "k \<noteq> k' \<Longrightarrow> \<not> (m \<in> live_set (rq_now rq) (h_db st) k \<and> not_a_set (rq_now rq) (h_db st) k')" for k k' m
    using self [of k m] two [of k k' m] that by (cases "k = k'") auto
  show ?thesis
    using d K clash by (auto simp: cmd_smove_def smove_clash_def split: list.splits intro!: any)
qed

end
