(* ===== verification/Scripts.thy ===== *)
theory Scripts
  imports Server_Parse
begin

text \<open>
  The script cache of the server (\<open>src/muon_cache/server.rs\<close>): scripts are stored under the SHA-1 digest of
  their text. The digest is modelled on 32-bit words; the commands \<open>SCRIPT\<close> and \<open>FUNCTION\<close> change the cache.
  The theory shows that every script in the cache stands under its own digest and that a digest is
  written with 40 hexadecimal digits.
\<close>

section \<open>Model: SHA-1\<close>

unbundle bit_operations_syntax

type_synonym u32word = "32 word"

fun be_bytes :: "nat \<Rightarrow> nat \<Rightarrow> bytes" where
  "be_bytes 0 v = []"
| "be_bytes (Suc n) v = char_of ((v div 256 ^ n) mod 256) # be_bytes n v"

definition pad_distance :: "nat \<Rightarrow> nat" where
  "pad_distance r = (if r \<le> 56 then 56 - r else 120 - r)"

lemma pad_distance_Suc:
  "r \<noteq> 56 \<Longrightarrow> r < 64 \<Longrightarrow> pad_distance (if Suc r = 64 then 0 else Suc r) < pad_distance r"
  by (auto simp: pad_distance_def)

text \<open>Zero bytes are appended until the length is 56 modulo 64.\<close>

function sha1_pad_loop :: "bytes \<Rightarrow> bytes" where
  "sha1_pad_loop msg = (if length msg mod 64 \<noteq> 56 then sha1_pad_loop (msg @ [CHR 0x00]) else msg)"
  by pat_completeness auto
termination
proof (relation "measure (\<lambda>msg. pad_distance (length msg mod 64))")
  fix msg :: bytes
  assume "length msg mod 64 \<noteq> 56"
  moreover have "length msg mod 64 < 64" by simp
  ultimately show "(msg @ [CHR 0x00], msg) \<in> measure (\<lambda>msg. pad_distance (length msg mod 64))"
    using pad_distance_Suc [of "length msg mod 64"] by (simp add: mod_Suc)
qed simp

declare sha1_pad_loop.simps [simp del]

definition sha1_message :: "bytes \<Rightarrow> bytes" where
  "sha1_message input =
     sha1_pad_loop (input @ [CHR 0x80]) @ be_bytes 8 ((length input * 8) mod 2 ^ 64)"

definition be_word :: "bytes \<Rightarrow> u32word" where
  "be_word bs = foldl (\<lambda>w b. w * 256 + of_nat (of_char b)) 0 bs"

text \<open>The schedule: sixteen words of the chunk, then each further word from four earlier ones.\<close>

definition sha1_schedule :: "bytes \<Rightarrow> u32word list" where
  "sha1_schedule chunk =
     foldl (\<lambda>w i. w @ [word_rotl 1 (w ! (i - 3) XOR w ! (i - 8) XOR w ! (i - 14) XOR w ! (i - 16))])
       (map (\<lambda>i. be_word (take 4 (drop (i * 4) chunk))) [0..<16]) [16..<80]"

type_synonym sha1_regs = "u32word \<times> u32word \<times> u32word \<times> u32word \<times> u32word"

definition sha1_round :: "u32word list \<Rightarrow> nat \<Rightarrow> sha1_regs \<Rightarrow> sha1_regs" where
  "sha1_round w i regs =
     (let (a, b, c, d, e) = regs;
          (f, k) =
            (if i < 20 then ((b AND c) OR (NOT b AND d), 0x5A827999)
             else if i < 40 then (b XOR c XOR d, 0x6ED9EBA1)
             else if i < 60 then ((b AND c) OR (b AND d) OR (c AND d), 0x8F1BBCDC)
             else (b XOR c XOR d, 0xCA62C1D6));
          temp = word_rotl 5 a + f + e + k + w ! i
      in (temp, a, word_rotl 30 b, c, d))"

definition sha1_chunk :: "bytes \<Rightarrow> sha1_regs \<Rightarrow> sha1_regs" where
  "sha1_chunk chunk h =
     (let w = sha1_schedule chunk;
          (h0, h1, h2, h3, h4) = h;
          (a, b, c, d, e) = fold (sha1_round w) [0..<80] h
      in (h0 + a, h1 + b, h2 + c, h3 + d, h4 + e))"

function chunks64 :: "'a list \<Rightarrow> 'a list list" where
  "chunks64 xs = (if xs = [] then [] else take 64 xs # chunks64 (drop 64 xs))"
  by pat_completeness auto
termination by (relation "measure length") auto

declare chunks64.simps [simp del]

definition hex_digit :: "nat \<Rightarrow> byte" where
  "hex_digit n = (if n < 10 then char_of (48 + n) else char_of (87 + n))"

text \<open>The format \<open>{:08x}\<close>.\<close>

definition hex8 :: "u32word \<Rightarrow> bytes" where
  "hex8 w = map (\<lambda>i. hex_digit (unat w div 16 ^ (7 - i) mod 16)) [0..<8]"

definition sha1_hex :: "bytes \<Rightarrow> bytes" where
  "sha1_hex input =
     (let (h0, h1, h2, h3, h4) =
            fold sha1_chunk (chunks64 (sha1_message input))
              (0x67452301, 0xEFCDAB89, 0x98BADCFE, 0x10325476, 0xC3D2E1F0)
      in hex8 h0 @ hex8 h1 @ hex8 h2 @ hex8 h3 @ hex8 h4)"

section \<open>Model: the cache commands\<close>

type_synonym script_cache = "(bytes, bytes) hashmap"

definition strip_lua_shebang :: "bytes \<Rightarrow> bytes" where
  "strip_lua_shebang script =
     (if take 2 script = ''#!''
      then (case position (\<lambda>c. c = CHR 0x0A) script of Some nl \<Rightarrow> drop (nl + 1) script | None \<Rightarrow> [])
      else script)"

definition wrap_eval_script :: "bytes \<Rightarrow> bytes" where
  "wrap_eval_script script =
     ''function __redis_script__(){'' @ CHR 0x0A # script @ CHR 0x0A # ''}'' @ CHR 0x0A # ''__redis_script__()''"

definition handle_script_command :: "bytes list \<Rightarrow> script_cache \<Rightarrow> script_cache \<times> resp_value" where
  "handle_script_command args cache =
     (case args of
        [] \<Rightarrow> (cache, StaticError (wrong_args ''SCRIPT''))
      | sub # rest \<Rightarrow>
          (let s = to_upper_ascii sub
           in if s = ''LOAD'' then
                (case rest of
                   [script] \<Rightarrow>
                     if utf8_ok script
                     then (hm_put (sha1_hex script) script cache, Blob (sha1_hex script))
                     else (cache, StaticError ''ERR invalid script'')
                 | _ \<Rightarrow> (cache, StaticError (wrong_args ''SCRIPT LOAD'')))
              else if s = ''EXISTS'' then
                (if rest = [] then (cache, StaticError (wrong_args ''SCRIPT EXISTS''))
                 else (cache, Array (map (\<lambda>sha. Integer (if hm_get cache (if utf8_ok sha then sha else []) \<noteq> None then 1 else 0)) rest)))
              else if s = ''FLUSH'' then ([], StaticSimple ''OK'')
              else (cache, StaticError ''ERR unknown subcommand for SCRIPT'')))"

definition handle_function_command :: "bytes list \<Rightarrow> script_cache \<Rightarrow> script_cache \<times> resp_value" where
  "handle_function_command args cache =
     (case args of
        [] \<Rightarrow> (cache, StaticError (wrong_args ''FUNCTION''))
      | sub # rest \<Rightarrow>
          (let s = to_upper_ascii sub
           in if s = ''LIST'' then (cache, Array [])
              else if s = ''FLUSH'' then ([], StaticSimple ''OK'')
              else if s = ''LOAD'' then
                (case rest of
                   [] \<Rightarrow> (cache, StaticError (wrong_args ''FUNCTION LOAD''))
                 | first # others \<Rightarrow>
                     (let body = (if length args = 3 \<and> to_upper_ascii first = ''REPLACE'' then others ! 0 else first)
                      in if utf8_ok body
                         then (let js_body = strip_lua_shebang body
                               in (hm_put (sha1_hex js_body) js_body cache, StaticSimple ''OK''))
                         else (cache, StaticError ''ERR invalid function'')))
              else (cache, StaticError ''ERR unknown subcommand for FUNCTION'')))"

text \<open>The lookup of \<open>EVALSHA\<close>, and the split of its arguments into keys and values. For the largest \<open>usize\<close> the sum
  \<open>1 + numkeys\<close> overflows: it panics, or wraps to zero and then the slice \<open>args[1..0]\<close> panics.\<close>

definition evalsha_lookup :: "bytes \<Rightarrow> script_cache \<Rightarrow> (bytes, bytes) sum" where
  "evalsha_lookup sha cache =
     (if \<not> utf8_ok sha then Inl ''ERR invalid script''
      else case hm_get cache sha of
        Some s \<Rightarrow> Inr s
      | None \<Rightarrow> Inl ''NOSCRIPT No matching script. Please use EVAL.'')"

definition split_keys_argv :: "bytes list \<Rightarrow> (bytes list \<times> bytes list) option outcome" where
  "split_keys_argv args =
     (case args of
        [] \<Rightarrow> Done None
      | n # rest \<Rightarrow>
          (case parse_usize n of
             None \<Rightarrow> Done None
           | Some numkeys \<Rightarrow>
               if numkeys = 2 ^ 64 - 1 then Panic
               else if length args < 1 + numkeys then Done None
               else Done (Some (take numkeys rest, drop numkeys rest))))"

section \<open>The shape of a digest\<close>

definition is_hex :: "byte \<Rightarrow> bool" where
  "is_hex c \<longleftrightarrow> is_digit c \<or> CHR ''a'' \<le> c \<and> c \<le> CHR ''f''"

lemma is_hex_digit: "n < 16 \<Longrightarrow> is_hex (hex_digit n)"
  by (auto simp: is_hex_def hex_digit_def is_digit_iff less_eq_char_def)

lemma hex8_shape: "length (hex8 w) = 8" "list_all is_hex (hex8 w)"
  by (simp_all add: hex8_def list_all_iff is_hex_digit)

lemma sha1_hex_shape: "length (sha1_hex s) = 40" "list_all is_hex (sha1_hex s)"
  by (simp_all add: sha1_hex_def case_prod_beta hex8_shape)

lemma utf8_ok_sha1 [simp]: "utf8_ok (sha1_hex s)"
proof (rule utf8_ok_ascii)
  have "byte_in 0 0x7F c" if "is_hex c" for c
    using that by (auto simp: is_hex_def is_digit_iff less_eq_char_def byte_in_def)
  then show "list_all (byte_in 0 0x7F) (sha1_hex s)"
    using sha1_hex_shape(2) [of s] by (auto simp: list_all_iff)
qed

lemma pad_loop_shape: "length (sha1_pad_loop msg) mod 64 = 56 \<and> (\<exists>zs. sha1_pad_loop msg = msg @ zs)"
proof (induction msg rule: sha1_pad_loop.induct)
  case (1 msg)
  then show ?case by (subst (1 2) sha1_pad_loop.simps) (auto simp del: length_append)
qed

lemma length_be_bytes [simp]: "length (be_bytes n v) = n"
  by (induction n) auto

lemma sha1_message_shape: "length (sha1_message s) mod 64 = 0 \<and> (\<exists>zs. sha1_message s = s @ CHR 0x80 # zs)"
proof -
  obtain zs where "sha1_pad_loop (s @ [CHR 0x80]) = (s @ [CHR 0x80]) @ zs"
    using pad_loop_shape by blast
  moreover have "(length (sha1_pad_loop (s @ [CHR 0x80])) + 8) mod 64 = 0"
    using pad_loop_shape [of "s @ [CHR 0x80]"] by (metis mod_add_left_eq mod_self numeral_plus_numeral add_num_simps)
  ultimately show ?thesis by (auto simp: sha1_message_def ac_simps)
qed

section \<open>The cache\<close>

definition cache_ok :: "script_cache \<Rightarrow> bool" where
  "cache_ok cache \<longleftrightarrow> hm_ok cache \<and> (\<forall>sha s. hm_get cache sha = Some s \<longrightarrow> sha = sha1_hex s)"

lemma cache_ok_Nil [simp]: "cache_ok []"
  by (simp add: cache_ok_def)

lemma cache_ok_put [simp]: "cache_ok cache \<Longrightarrow> cache_ok (hm_put (sha1_hex s) s cache)"
  by (auto simp: cache_ok_def)

lemma cache_ok_script: "cache_ok cache \<Longrightarrow> cache_ok (fst (handle_script_command args cache))"
  by (auto simp: handle_script_command_def Let_def split: list.splits)

lemma cache_ok_function: "cache_ok cache \<Longrightarrow> cache_ok (fst (handle_function_command args cache))"
  by (auto simp: handle_function_command_def Let_def split: list.splits)

lemma evalsha_found:
  assumes "cache_ok cache" and "evalsha_lookup sha cache = Inr s"
  shows "sha1_hex s = sha"
proof -
  have "hm_get cache sha = Some s" using assms(2) by (simp add: evalsha_lookup_def split: if_splits option.splits)
  with assms(1) show ?thesis unfolding cache_ok_def by blast
qed

section \<open>Properties\<close>

text \<open>The script cache answers for the text it was given: \<open>SCRIPT LOAD\<close> of a text returns its digest, the
  following \<open>EVALSHA\<close> with that digest finds exactly this text, and whatever \<open>EVALSHA\<close> finds under a digest
  is a text with that digest.\<close>

theorem script_load_evalsha:
  assumes "cache_ok cache" and "utf8_ok script" and "to_upper_ascii sub = ''LOAD''"
    and "handle_script_command [sub, script] cache = (cache', r)"
  shows "r = Blob (sha1_hex script) \<and> cache_ok cache' \<and> evalsha_lookup (sha1_hex script) cache' = Inr script \<and>
    (\<forall>sha s. evalsha_lookup sha cache' = Inr s \<longrightarrow> sha1_hex s = sha)"
proof -
  have "handle_script_command [sub, script] cache =
      (hm_put (sha1_hex script) script cache, Blob (sha1_hex script))"
    using assms(2,3) by (simp add: handle_script_command_def)
  with assms(4) have c: "cache' = hm_put (sha1_hex script) script cache" "r = Blob (sha1_hex script)" by simp_all
  have ok: "cache_ok cache'" using assms(1) by (simp add: c)
  have "evalsha_lookup (sha1_hex script) cache' = Inr script" by (simp add: c evalsha_lookup_def)
  with c(2) ok show ?thesis using evalsha_found [OF ok] by blast
qed

lemma upper_LOAD: "to_upper_ascii ''load'' = ''LOAD''" "to_upper_ascii ''LOAD'' = ''LOAD''"
  by (simp_all add: to_upper_ascii_def is_ascii_lowercase_def less_eq_char_def char_utf8_def to_ascii_uppercase_def
      utf8_ok_ascii byte_in_def) code_simp

theorem script_load_evalsha_witness:
  "evalsha_lookup (sha1_hex ''return 1'') (fst (handle_script_command [''load'', ''return 1''] [])) = Inr ''return 1''"
  using script_load_evalsha [OF cache_ok_Nil _ upper_LOAD(1) surjective_pairing, of "''return 1''"]
  by (simp add: utf8_ok_ascii byte_in_def)

end
