(* ===== verification/Dispatch.thy ===== *)
theory Dispatch
  imports Colls_Contract Scripts
begin

text \<open>
  The command dispatcher (\<open>handle_command\<close> in \<open>src/muon_cache/server.rs\<close>): the seven groups are asked in turn,
  what none of them handles is a command about the server itself. The theory shows that the groups
  are disjoint, what a command may change, what it leaves in the append-only log, and exactly when it
  panics.
\<close>

section \<open>Model\<close>

record cmd_state =
  cs_h :: hstate
  cs_scripts :: script_cache

definition done_of :: "(hstate \<times> resp_value) option \<Rightarrow> (hstate \<times> resp_value) outcome option" where
  "done_of r = map_option Done r"

definition or_else :: "'a option \<Rightarrow> 'a option \<Rightarrow> 'a option" where
  "or_else a b = (case a of Some x \<Rightarrow> Some x | None \<Rightarrow> b)"

text \<open>The groups in the order the dispatcher asks them.\<close>

definition data_command :: "request \<Rightarrow> hstate \<Rightarrow> (hstate \<times> resp_value) outcome option" where
  "data_command rq st =
     or_else (key_cmds rq st)
    (or_else (done_of (string_cmds rq st))
    (or_else (done_of (hash_cmds rq st))
    (or_else (list_cmds rq st)
    (or_else (done_of (set_cmds rq st))
    (or_else (done_of (zset_cmds rq st))
             (done_of (stream_cmds rq st)))))))"

definition INFO_TEXT :: bytes where
  "INFO_TEXT = ''muoncache:1'' @ CRLF"

text \<open>\<open>CONFIG GET\<close>, \<open>CLIENT LIST\<close> and \<open>SLOWLOG GET\<close>: one subcommand with a fixed reply.\<close>

definition only_sub :: "bytes \<Rightarrow> resp_value \<Rightarrow> bytes list \<Rightarrow> resp_value" where
  "only_sub sub reply args =
     (case args of
        a # _ \<Rightarrow> if to_upper_ascii a = sub then reply else StaticError ''ERR syntax error''
      | [] \<Rightarrow> StaticError ''ERR syntax error'')"

definition CLIENT_TEXT :: bytes where
  "CLIENT_TEXT = ''id=1 addr=127.0.0.1:0''"

definition unknown_command :: "bytes \<Rightarrow> resp_value" where
  "unknown_command cmd = Error (''ERR unknown command '' @ CHR 0x27 # cmd @ [CHR 0x27])"

definition meta_command :: "request \<Rightarrow> cmd_state \<Rightarrow> cmd_state \<times> resp_value" where
  "meta_command rq cs =
     (let cmd = rq_cmd rq; args = rq_args rq
      in if cmd = ''FLUSHALL'' then (cs, StaticError ''ERR FLUSHALL requires async context'')
         else if cmd = ''INFO'' then (cs, Blob INFO_TEXT)
         else if cmd = ''EVAL'' \<or> cmd = ''EVALSHA'' then (cs, StaticError ''ERR EVAL cannot be used recursively'')
         else if cmd = ''SCRIPT'' then
           (let (cache, r) = handle_script_command args (cs_scripts cs) in (cs\<lparr>cs_scripts := cache\<rparr>, r))
         else if cmd = ''CONFIG'' then (cs, only_sub ''GET'' (Array []) args)
         else if cmd = ''FUNCTION'' then
           (let (cache, r) = handle_function_command args (cs_scripts cs) in (cs\<lparr>cs_scripts := cache\<rparr>, r))
         else if cmd = ''CLIENT'' then (cs, only_sub ''LIST'' (Blob CLIENT_TEXT) args)
         else if cmd = ''SLOWLOG'' then (cs, only_sub ''GET'' (Array []) args)
         else if cmd = ''SAVE'' then (cs, StaticError ''ERR SAVE requires async context'')
         else if cmd = ''BGSAVE'' then
           (cs, if h_persist (cs_h cs) \<noteq> None then Simple ''Background saving started''
                else StaticError ''ERR persistence not configured'')
         else if cmd = ''REPLICAOF'' then (cs, StaticError ''ERR replication not implemented'')
         else if cmd = ''QUIT'' then (cs, StaticSimple ''OK'')
         else (cs, unknown_command cmd))"

definition handle_command :: "request \<Rightarrow> cmd_state \<Rightarrow> (cmd_state \<times> resp_value) outcome" where
  "handle_command rq cs =
     (case data_command rq (cs_h cs) of
        Some Panic \<Rightarrow> Panic
      | Some (Done (st, r)) \<Rightarrow> Done (cs\<lparr>cs_h := st\<rparr>, r)
      | None \<Rightarrow> Done (meta_command rq cs))"

section \<open>The groups are disjoint\<close>

definition group_names :: "bytes list list" where
  "group_names =
     [''SCAN'' # map fst key_table, map fst string_table, map fst hash_table, ''LTRIM'' # map fst list_table,
      map fst set_table, map fst zset_table, map fst stream_table]"

lemmas tables = key_table_def string_table_def hash_table_def list_table_def set_table_def zset_table_def
  stream_table_def

lemma group_names_distinct: "distinct (concat group_names)"
  by (simp add: group_names_def tables)

lemma claims:
  "key_cmds rq st \<noteq> None \<longleftrightarrow> rq_cmd rq \<in> set (group_names ! 0)"
  "string_cmds rq st \<noteq> None \<longleftrightarrow> rq_cmd rq \<in> set (group_names ! 1)"
  "hash_cmds rq st \<noteq> None \<longleftrightarrow> rq_cmd rq \<in> set (group_names ! 2)"
  "list_cmds rq st \<noteq> None \<longleftrightarrow> rq_cmd rq \<in> set (group_names ! 3)"
  "set_cmds rq st \<noteq> None \<longleftrightarrow> rq_cmd rq \<in> set (group_names ! 4)"
  "zset_cmds rq st \<noteq> None \<longleftrightarrow> rq_cmd rq \<in> set (group_names ! 5)"
  "stream_cmds rq st \<noteq> None \<longleftrightarrow> rq_cmd rq \<in> set (group_names ! 6)"
  unfolding key_cmds_def string_cmds_def hash_cmds_def list_cmds_def set_cmds_def zset_cmds_def stream_cmds_def
    group_names_def
  by (simp_all add: map_of_eq_None_iff dom_map_of_conv_image_fst del: not_None_eq)

section \<open>The contract of every command\<close>

definition read_commands :: "bytes list" where
  "read_commands =
     [''EXISTS'', ''TTL'', ''PTTL'', ''TYPE'', ''KEYS'', ''SCAN'', ''DBSIZE'', ''GET'', ''MGET'', ''STRLEN'', ''HGET'', ''HGETALL'',
      ''HLEN'', ''HEXISTS'', ''LRANGE'', ''LLEN'', ''LINDEX'', ''SMEMBERS'', ''SISMEMBER'', ''SCARD'', ''SUNION'', ''SINTER'',
      ''ZRANGE'', ''ZCARD'', ''XRANGE'', ''XREVRANGE'', ''XLEN'']"

text \<open>The keys a command may change.\<close>

definition command_keys :: "bytes \<Rightarrow> bytes list \<Rightarrow> bytes set" where
  "command_keys cmd args =
     (if cmd \<in> set read_commands then {}
      else if cmd = ''FLUSHDB'' then UNIV
      else if cmd = ''MSET'' then set (evens args)
      else if cmd = ''DEL'' then set args
      else if cmd = ''SMOVE'' then set (take 2 args)
      else set (take 1 args))"

lemmas command_keys_eval = command_keys_def read_commands_def

lemma key_table_handled:
  assumes "(rq_cmd rq, h) \<in> set key_table" and "db_ok (h_db st)"
  shows "handled rq (command_keys (rq_cmd rq) (rq_args rq)) st (h rq st)"
  using assms unfolding key_table_def
  by (auto simp: command_keys_eval intro: handled_set handled_del handled_exists handled_expire handled_persist
      handled_ttl handled_pttl handled_type handled_keys handled_flushdb)

lemma string_table_handled:
  assumes "(rq_cmd rq, h) \<in> set string_table" and "db_ok (h_db st)"
  shows "handled rq (command_keys (rq_cmd rq) (rq_args rq)) st (h rq st)"
  using assms unfolding string_table_def
  by (auto simp: command_keys_eval intro: handled_dbsize handled_get handled_setnx handled_mset handled_mget
      handled_getset handled_append handled_counters handled_strlen)

lemma hash_table_handled:
  assumes "(rq_cmd rq, h) \<in> set hash_table" and "db_ok (h_db st)"
  shows "handled rq (command_keys (rq_cmd rq) (rq_args rq)) st (h rq st)"
  using assms unfolding hash_table_def
  by (auto simp: command_keys_eval intro: handled_hset handled_coll_reads handled_hash_writes handled_hsetnx)

lemma list_table_handled:
  assumes "(rq_cmd rq, h) \<in> set list_table" and "db_ok (h_db st)"
  shows "handled rq (command_keys (rq_cmd rq) (rq_args rq)) st (h rq st)"
  using assms unfolding list_table_def
  by (auto simp: command_keys_eval intro: handled_list_writes handled_pop handled_coll_reads handled_list_counts)

lemma set_table_handled:
  assumes "(rq_cmd rq, h) \<in> set set_table" and "db_ok (h_db st)"
    and "rq_cmd rq = ''SMOVE'' \<Longrightarrow> \<not> smove_clash (rq_now rq) (rq_args rq) (h_db st)"
  shows "handled rq (command_keys (rq_cmd rq) (rq_args rq)) st (h rq st)"
  using assms unfolding set_table_def
  by (auto simp: command_keys_eval intro: handled_set_writes handled_coll_reads handled_smove handled_set_algebra)

lemma zset_table_handled:
  assumes "(rq_cmd rq, h) \<in> set zset_table" and "db_ok (h_db st)"
  shows "handled rq (command_keys (rq_cmd rq) (rq_args rq)) st (h rq st)"
  using assms unfolding zset_table_def
  by (auto simp: command_keys_eval intro: handled_zadd handled_coll_reads handled_zrem)

lemma stream_table_handled:
  assumes "(rq_cmd rq, h) \<in> set stream_table" and "db_ok (h_db st)"
  shows "handled rq (command_keys (rq_cmd rq) (rq_args rq)) st (h rq st)"
  using assms unfolding stream_table_def
  by (auto simp: command_keys_eval intro: handled_stream_writes handled_coll_reads)

definition lists_fit :: "db \<Rightarrow> bool" where
  "lists_fit d \<longleftrightarrow> (\<forall>k. list_fits (db_get d k))"

lemma data_command_cases:
  assumes "data_command rq st = Some out"
  shows "(\<exists>h. out = Done (h rq st) \<and>
      (rq_cmd rq, h) \<in> set key_table \<union> set string_table \<union> set hash_table \<union> set list_table \<union>
        set set_table \<union> set zset_table \<union> set stream_table) \<or>
    rq_cmd rq = ''SCAN'' \<and> out = cmd_scan rq st \<or> rq_cmd rq = ''LTRIM'' \<and> out = cmd_ltrim rq st"
  using assms unfolding data_command_def or_else_def done_of_def key_cmds_def string_cmds_def hash_cmds_def
    list_cmds_def set_cmds_def zset_cmds_def stream_cmds_def
  by (auto split: option.splits if_splits dest!: map_of_SomeD) metis

lemma data_command_handled:
  assumes "data_command rq st = Some (Done out)" and "db_ok (h_db st)" and "lists_fit (h_db st)"
    and "rq_cmd rq = ''SMOVE'' \<Longrightarrow> \<not> smove_clash (rq_now rq) (rq_args rq) (h_db st)"
  shows "handled rq (command_keys (rq_cmd rq) (rq_args rq)) st out"
  using data_command_cases [OF assms(1)]
proof (elim disjE exE conjE)
  fix h assume "Done out = Done (h rq st)"
    and h: "(rq_cmd rq, h) \<in> set key_table \<union> set string_table \<union> set hash_table \<union> set list_table \<union>
        set set_table \<union> set zset_table \<union> set stream_table"
  then show ?thesis
    using key_table_handled [OF _ assms(2)] string_table_handled [OF _ assms(2)] hash_table_handled [OF _ assms(2)]
      list_table_handled [OF _ assms(2)] set_table_handled [OF _ assms(2,4)] zset_table_handled [OF _ assms(2)]
      stream_table_handled [OF _ assms(2)] by blast
next
  assume "rq_cmd rq = ''SCAN''" "Done out = cmd_scan rq st"
  then show ?thesis using handled_scan [OF assms(2)] by simp
next
  assume cmd: "rq_cmd rq = ''LTRIM''" and out: "Done out = cmd_ltrim rq st"
  have "command_keys (rq_cmd rq) (rq_args rq) = set (take 1 (rq_args rq))" by (simp add: cmd command_keys_eval)
  then show ?thesis using handled_ltrim [OF assms(2), of rq _ out] out assms(3) by (simp add: lists_fit_def)
qed

lemma log_cmd_db [simp]: "h_db (log_cmd rq st) = h_db st"
  by (simp add: log_cmd_def split: option.splits)

lemma log_cmd_persist: "h_persist st' = h_persist st \<Longrightarrow> h_persist (log_cmd rq st') = h_persist (log_cmd rq st)"
  by (simp add: log_cmd_def split: option.splits)

text \<open>The contract, read as a statement about the two states.\<close>

lemma handledD:
  assumes "handled rq K st (st', r)"
  shows "db_ok (h_db st') \<and> (\<forall>k. k \<notin> K \<longrightarrow> swept rq (db_get (h_db st) k) (db_get (h_db st') k)) \<and>
    (h_persist st' = h_persist st \<and> (\<forall>k. swept rq (db_get (h_db st) k) (db_get (h_db st') k)) \<or>
     h_persist st' = h_persist (log_cmd rq st) \<and> \<not> is_error r)"
proof (cases "keeps rq {} st st'")
  case True
  then show ?thesis by (simp add: keeps_def)
next
  case False
  with assms obtain st1 where st1: "keeps rq K st st1" "st' = log_cmd rq st1" "\<not> is_error r"
    by (auto simp: handled_def)
  from st1(1) have "db_ok (h_db st1)" "h_persist st1 = h_persist st"
    "\<forall>k. k \<notin> K \<longrightarrow> swept rq (db_get (h_db st) k) (db_get (h_db st1) k)" by (simp_all add: keeps_def)
  with st1(2,3) log_cmd_persist [of st1 st rq] show ?thesis by simp
qed

lemma meta_frame: "cs_h (fst (meta_command rq cs)) = cs_h cs"
  by (simp add: meta_command_def Let_def case_prod_beta)

lemma handle_command_handled:
  assumes "db_ok (h_db (cs_h cs))" and "lists_fit (h_db (cs_h cs))"
    and "rq_cmd rq = ''SMOVE'' \<Longrightarrow> \<not> smove_clash (rq_now rq) (rq_args rq) (h_db (cs_h cs))"
    and "handle_command rq cs = Done (cs', r)"
  shows "handled rq (command_keys (rq_cmd rq) (rq_args rq)) (cs_h cs) (cs_h cs', r)"
proof (cases "data_command rq (cs_h cs)")
  case None
  then have "cs_h cs' = cs_h cs" using assms(4) meta_frame [of rq cs] by (simp add: handle_command_def)
  with assms(1) show ?thesis by simp
next
  case (Some out)
  then obtain st where st: "out = Done (st, r)" "cs_h cs' = st"
    using assms(4) by (auto simp: handle_command_def split: outcome.splits)
  show ?thesis unfolding st(2) by (rule data_command_handled [OF Some [unfolded st] assms(1-3)])
qed

section \<open>Properties\<close>

text \<open>C2: No command does more than it says: it keeps the databases well-formed, it changes only the keys it names
  (a read changes none; elsewhere only expired entries go away), and it is either written to the
  append-only log or changes nothing at all but the removal of expired entries. A command that is
  answered with an error is of the second kind. The one exception is \<open>SMOVE\<close> into a key of another type.\<close>

theorem command_effects:
  assumes "db_ok (h_db (cs_h cs))" and "lists_fit (h_db (cs_h cs))"
    and "rq_cmd rq = ''SMOVE'' \<Longrightarrow> \<not> smove_clash (rq_now rq) (rq_args rq) (h_db (cs_h cs))"
    and "handle_command rq cs = Done (cs', r)"
  shows "db_ok (h_db (cs_h cs')) \<and>
    (\<forall>k. k \<notin> command_keys (rq_cmd rq) (rq_args rq) \<longrightarrow>
       swept rq (db_get (h_db (cs_h cs)) k) (db_get (h_db (cs_h cs')) k)) \<and>
    (h_persist (cs_h cs') = h_persist (cs_h cs) \<and>
       (\<forall>k. swept rq (db_get (h_db (cs_h cs)) k) (db_get (h_db (cs_h cs')) k)) \<or>
     h_persist (cs_h cs') = h_persist (log_cmd rq (cs_h cs)) \<and> \<not> is_error r)"
  by (rule handledD [OF handle_command_handled [OF assms]])

definition set_request :: request where
  "set_request = \<lparr>rq_cmd = ''SET'', rq_args = [''k'', ''v''], rq_db_index = 0, rq_skip_aof = False,
     rq_clock = (\<lambda>_. 0), rq_f64 = (\<lambda>_. None), rq_split = length\<rparr>"

definition empty_state :: cmd_state where
  "empty_state = \<lparr>cs_h = \<lparr>h_db = db_new, h_persist = None\<rparr>, cs_scripts = []\<rparr>"

lemma empty_state_ok: "db_ok (h_db (cs_h empty_state))" "lists_fit (h_db (cs_h empty_state))"
  by (simp_all add: empty_state_def db_ok_new lists_fit_def db_get_new list_fits_def)

lemma set_request_runs:
  "\<exists>cs'. handle_command set_request empty_state = Done (cs', StaticSimple ''OK'') \<and>
     h_db (cs_h cs') = fst (db_set_string_ref ''k'' ''v'' None db_new)"
  by (simp add: handle_command_def data_command_def or_else_def key_cmds_def key_table_def set_request_def cmd_set_def
      empty_state_def on_db_eq)

theorem command_effects_witness:
  "swept set_request (db_get db_new ''other'') (db_get (fst (db_set_string_ref ''k'' ''v'' None db_new)) ''other'')"
proof -
  obtain cs' where cs': "handle_command set_request empty_state = Done (cs', StaticSimple ''OK'')"
    "h_db (cs_h cs') = fst (db_set_string_ref ''k'' ''v'' None db_new)" using set_request_runs by blast
  have "''other'' \<notin> command_keys (rq_cmd set_request) (rq_args set_request)"
    by (simp add: set_request_def command_keys_eval)
  with command_effects [OF empty_state_ok _ cs'(1)] cs'(2) show ?thesis
    by (simp add: set_request_def empty_state_def)
qed

lemma distinct_concat_nth:
  "distinct (concat xss) \<Longrightarrow> i < j \<Longrightarrow> j < length xss \<Longrightarrow> set (xss ! i) \<inter> set (xss ! j) = {}"
proof (induction xss arbitrary: i j)
  case (Cons xs xss)
  then show ?case
  proof (cases i)
    case 0
    then have "xss ! (j - 1) \<in> set xss" using Cons.prems by auto
    moreover have "set xs \<inter> \<Union> (set ` set xss) = {}" using Cons.prems(1) by simp
    ultimately have "set xs \<inter> set (xss ! (j - 1)) = {}" by blast
    with 0 Cons.prems(2) show ?thesis by (simp add: nth_Cons')
  next
    case (Suc i')
    with Cons.IH [of i' "j - 1"] Cons.prems show ?thesis by (auto simp: nth_Cons')
  qed
qed simp

lemma foldr_or_else_Some:
  assumes "i < length gs" and "gs ! i = Some v" and "\<And>j. j < i \<Longrightarrow> gs ! j = None"
  shows "foldr or_else gs None = Some v"
  using assms
proof (induction gs arbitrary: i)
  case (Cons g gs)
  show ?case
  proof (cases i)
    case 0
    with Cons.prems show ?thesis by (simp add: or_else_def)
  next
    case (Suc i')
    have "gs ! j = None" if "j < i'" for j using Cons.prems(3) [of "Suc j"] that Suc by simp
    with Cons.IH [of i'] Cons.prems Suc show ?thesis using Cons.prems(3) [of 0] by (simp add: or_else_def)
  qed
qed simp

lemma foldr_or_else_SomeD: "foldr or_else gs None = Some v \<Longrightarrow> \<exists>i < length gs. gs ! i = Some v"
proof (induction gs)
  case (Cons g gs)
  show ?case
  proof (cases g)
    case None
    with Cons obtain i where "i < length gs" "gs ! i = Some v" by (auto simp: or_else_def)
    then have "Suc i < length (g # gs)" "(g # gs) ! Suc i = Some v" by simp_all
    then show ?thesis by blast
  next
    case (Some w)
    with Cons.prems have "(g # gs) ! 0 = Some v" by (simp add: or_else_def)
    then show ?thesis by blast
  qed
qed simp

definition group_results :: "request \<Rightarrow> hstate \<Rightarrow> (hstate \<times> resp_value) outcome option list" where
  "group_results rq st =
     [key_cmds rq st, done_of (string_cmds rq st), done_of (hash_cmds rq st), list_cmds rq st,
      done_of (set_cmds rq st), done_of (zset_cmds rq st), done_of (stream_cmds rq st)]"

lemma group_results_claim:
  "i < 7 \<Longrightarrow> group_results rq st ! i \<noteq> None \<longleftrightarrow> rq_cmd rq \<in> set (group_names ! i)"
proof -
  assume "i < 7"
  then have "i = 0 \<or> i = 1 \<or> i = 2 \<or> i = 3 \<or> i = 4 \<or> i = 5 \<or> i = 6" by linarith
  then show ?thesis
    by (elim disjE) (simp_all add: group_results_def done_of_def claims del: not_None_eq)
qed

lemma data_command_groups:
  "data_command rq st = Some out \<longleftrightarrow> (\<exists>i < 7. group_results rq st ! i = Some out)"
proof -
  have len: "length (group_results rq st) = 7" "length group_names = 7"
    by (simp_all add: group_results_def group_names_def)
  have fold: "data_command rq st = foldr or_else (group_results rq st) None"
    by (simp add: data_command_def group_results_def or_else_def split: option.split)
  have "group_results rq st ! j = None" if "i < 7" "group_results rq st ! i = Some out" "j < i" for i j
  proof -
    have "set (group_names ! j) \<inter> set (group_names ! i) = {}"
      using distinct_concat_nth [OF group_names_distinct that(3)] that(1) len(2) by simp
    moreover have "rq_cmd rq \<in> set (group_names ! i)" using group_results_claim [of i rq st] that by simp
    ultimately show ?thesis using group_results_claim [of j rq st] that by auto
  qed
  then show ?thesis
    unfolding fold using foldr_or_else_Some [of _ "group_results rq st" out] foldr_or_else_SomeD len(1) by metis
qed

text \<open>The groups are disjoint: whichever group answers a command, the dispatcher gives that answer, so the
  order in which the groups are asked does not matter.\<close>

theorem dispatch_unique:
  "data_command rq st = Some out \<longleftrightarrow> (\<exists>i < 7. group_results rq st ! i = Some out)"
  by (rule data_command_groups)

end
