(* ===== verification/Command_Facts.thy ===== *)
theory Command_Facts
  imports Dispatch
begin

text \<open>
  What clients rely on, stated about the command handlers: the append-only log holds every command that
  changed something and its records can be read back as requests, a full iteration of \<open>SCAN\<close> returns what
  \<open>KEYS\<close> returns, \<open>MGET\<close> returns what \<open>MSET\<close> wrote, \<open>LPOP\<close> with a count takes a prefix of the list, and the only
  commands that can panic are \<open>LTRIM\<close> and \<open>SCAN\<close>, each on known arguments.
\<close>

section \<open>The append-only log\<close>

lemma encode_args_loop_eq: "encode_args_loop args out = fold encode (map Blob args) out"
  by (induction args arbitrary: out) (simp_all add: push_usize_eq)

lemma encode_cmd_eq: "encode_cmd cmd args = encode (Array (map Blob (cmd # args))) []"
  by (simp add: encode_cmd_def encode_args_loop_eq push_usize_eq del: dec_of_nat.simps)

definition sizes_ok :: "bytes list \<Rightarrow> bool" where
  "sizes_ok bs \<longleftrightarrow> int (length bs) \<le> i64_max \<and> list_all (\<lambda>b. int (length b) \<le> i64_max) bs"

text \<open>A record of the append-only log is a request: the reader of the server decodes it, whatever follows, to
  the command and its arguments.\<close>

theorem log_record_readable:
  assumes "sizes_ok (cmd # args)"
  shows "\<exists>v. read_value (encode_cmd cmd args @ rest) = Got (v, rest) \<and> value_to_args v = Inr (cmd # args)"
proof -
  have "wire_ok (Array (map Blob (cmd # args)))"
    using assms by (simp add: sizes_ok_def list_all_iff)
  note r = read_written [OF this, of rest]
  have "value_to_args (received (Array (map Blob (cmd # args)))) = Inr (cmd # args)"
    using args_loop_blobs [of "cmd # args" "[]"] by (simp add: comp_def)
  with r show ?thesis unfolding encode_cmd_eq by blast
qed

theorem log_record_readable_witness:
  "\<exists>v. read_value (encode_cmd ''SET'' [''k'', ''v''] @ ''x'') = Got (v, ''x'') \<and> value_to_args v = Inr [''SET'', ''k'', ''v'']"
  by (rule log_record_readable) (simp add: sizes_ok_def i64_bounds_eval)



definition logging_state :: cmd_state where
  "logging_state = \<lparr>cs_h = \<lparr>h_db = db_new, h_persist = Some (Libsql \<lparr>lp_aof_enabled = True,
     lp_aof_tx = Some \<lparr>sent = [], listening = True\<rparr>\<rparr>)\<rparr>, cs_scripts = []\<rparr>"


text \<open>The exception.\<close>

definition smove_request :: request where
  "smove_request = set_request\<lparr>rq_cmd := ''SMOVE'', rq_args := [''a'', ''b'', ''m'']\<rparr>"

definition clash_state :: cmd_state where
  "clash_state = logging_state\<lparr>cs_h := (cs_h logging_state)\<lparr>h_db := smove_example\<rparr>\<rparr>"

theorem smove_unlogged:
  "\<exists>cs'. handle_command smove_request clash_state = Done (cs', StaticError WRONGTYPE) \<and>
     h_persist (cs_h cs') = h_persist (cs_h clash_state) \<and>
     set_view 0 (db_get (h_db (cs_h clash_state)) ''a'') = Ok ({''m''}, None) \<and>
     set_view 0 (db_get (h_db (cs_h cs')) ''a'') = Ok ({}, None)"
proof -
  note m = smove_loses_member_witness
  show ?thesis
    using m smove_example
    by (cases "db_set_move 0 ''a'' ''b'' ''m'' smove_example")
      (simp add: handle_command_def data_command_def or_else_def done_of_def tables key_cmds_def string_cmds_def hash_cmds_def list_cmds_def
        set_cmds_def cmd_smove_def smove_request_def clash_state_def set_request_def on_db_eq logging_state_def)
qed

section \<open>SCAN\<close>

lemma scan_page_Panic:
  assumes "length ks < 2 ^ 64" and "cnt < 2 ^ 64"
  shows "scan_page ks cursor cnt = Panic \<longleftrightarrow> 2 ^ 64 \<le> min cursor (length ks) + cnt"
proof -
  define c where "c = min cursor (length ks)"
  have c: "c \<le> length ks" by (simp add: c_def)
  have wrap: "(c + cnt) mod 2 ^ 64 = (if 2 ^ 64 \<le> c + cnt then c + cnt - 2 ^ 64 else c + cnt)"
  proof (cases "2 ^ 64 \<le> c + cnt")
    case True
    moreover have "c + cnt - 2 ^ 64 < 2 ^ 64" using True assms c by linarith
    ultimately show ?thesis by (simp add: le_mod_geq)
  qed simp
  have "scan_page ks cursor cnt = Panic \<longleftrightarrow> min ((c + cnt) mod 2 ^ 64) (length ks) < c"
    by (simp add: scan_page_def Let_def c_def)
  also have "\<dots> \<longleftrightarrow> 2 ^ 64 \<le> c + cnt"
    using c assms(2) unfolding wrap by (auto simp: min_def)
  finally show ?thesis by (simp add: c_def)
qed

lemma scan_page_Done:
  assumes "cursor \<le> length ks" and "length ks + cnt < 2 ^ 64"
  shows "scan_page ks cursor cnt =
    Done (if length ks \<le> cursor + cnt then 0 else cursor + cnt, take cnt (drop cursor ks))"
proof -
  have "cursor + cnt < 2 ^ 64" using assms by linarith
  with assms(1) show ?thesis by (auto simp: scan_page_def Let_def min_def)
qed

text \<open>A client that iterates: it sends \<open>SCAN\<close> with the cursor of the last reply until the cursor is 0 again.\<close>

fun blob_of :: "resp_value \<Rightarrow> bytes" where
  "blob_of (Blob b) = b"
| "blob_of _ = []"

fun scan_session :: "nat \<Rightarrow> request \<Rightarrow> bytes list \<Rightarrow> bytes \<Rightarrow> hstate \<Rightarrow> bytes list option" where
  "scan_session 0 rq opts cursor st = None"
| "scan_session (Suc n) rq opts cursor st =
     (case cmd_scan (rq\<lparr>rq_args := cursor # opts\<rparr>) st of
        Done (st, Array [Blob next_cursor, Array batch]) \<Rightarrow>
          (if next_cursor = ''0'' then Some (map blob_of batch)
           else map_option ((@) (map blob_of batch)) (scan_session n rq opts next_cursor st))
      | _ \<Rightarrow> None)"

lemma purge_idem: "shards (db_purge_expired_all clock (db_purge_expired_all clock d)) = shards (db_purge_expired_all clock d)"
  by (simp add: shards_purge sh_purge_expired_all_def)

lemma keys_matching_purged:
  "snd (db_keys_matching clock p (db_purge_expired_all clock d)) = snd (db_keys_matching clock p d)"
  by (simp only: db_keys_matching_collect purge_idem)

lemma dec_of_nat_0 [simp]: "dec_of_nat 0 = ''0''"
  by (simp add: dec_of_nat.simps [of 0] digit_char_0)

lemma dec_of_nat_eq_0: "dec_of_nat n = ''0'' \<longleftrightarrow> n = 0"
proof
  assume "dec_of_nat n = ''0''"
  then have "dec_of_nat n = dec_of_nat 0" by simp
  then have "nat_of_dec (dec_of_nat n) = nat_of_dec (dec_of_nat 0)" by (rule arg_cong)
  then show "n = 0" by (simp only: nat_of_dec_dec_of_nat)
qed simp

lemma scan_step:
  assumes "scan_options opts ''*'' 10 = Inr (p, cnt)" and "ks = snd (db_keys_matching (rq_clock rq) p (h_db st))"
    and "cursor \<le> length ks" and "length ks + cnt < 2 ^ 64"
  shows "cmd_scan (rq\<lparr>rq_args := dec_of_nat cursor # opts\<rparr>) st =
    Done (st\<lparr>h_db := db_purge_expired_all (rq_clock rq) (h_db st)\<rparr>,
      Array [Blob (dec_of_nat (if length ks \<le> cursor + cnt then 0 else cursor + cnt)),
        Array (map Blob (take cnt (drop cursor ks)))])"
proof -
  have "cursor < 2 ^ 64" using assms(3,4) by linarith
  with assms show ?thesis
    using scan_page_Done [OF assms(3,4)]
    by (simp add: cmd_scan_def parse_usize_dec on_db_eq db_readers_purge)
qed

lemma scan_session_from:
  assumes "scan_options opts ''*'' 10 = Inr (p, cnt)" and "0 < cnt" and "length ks + cnt < 2 ^ 64"
  shows "ks = snd (db_keys_matching (rq_clock rq) p (h_db st)) \<Longrightarrow> cursor \<le> length ks \<Longrightarrow> length ks - cursor \<le> n \<Longrightarrow>
    scan_session (Suc n) rq opts (dec_of_nat cursor) st = Some (drop cursor ks)"
proof (induction n arbitrary: cursor st)
  case (Suc n)
  let ?st = "st\<lparr>h_db := db_purge_expired_all (rq_clock rq) (h_db st)\<rparr>"
  note step = scan_step [OF assms(1) Suc.prems(1,2) assms(3)]
  show ?case
  proof (cases "length ks \<le> cursor + cnt")
    case True
    then show ?thesis using step by (simp add: comp_def)
  next
    case False
    have "scan_session (Suc n) rq opts (dec_of_nat (cursor + cnt)) ?st = Some (drop (cursor + cnt) ks)"
      using Suc.prems False assms(2) by (intro Suc.IH) (simp_all add: keys_matching_purged)
    moreover have "take cnt (drop cursor ks) @ drop (cursor + cnt) ks = drop cursor ks"
      by (metis append_take_drop_id drop_drop add.commute)
    ultimately show ?thesis
      using step False assms(2) by (simp add: comp_def dec_of_nat_eq_0 del: scan_session.simps(2))
        (simp add: comp_def dec_of_nat_eq_0)
  qed
qed (use scan_step [OF assms(1) _ _ assms(3)] in \<open>simp add: comp_def del: dec_of_nat.simps\<close>)

text \<open>C21: A full iteration of \<open>SCAN\<close> ends and returns what \<open>KEYS\<close> returns for the same pattern: every live key that
  matches, once, in order, whatever the page size, as long as it is not 0 and the sum of the page size
  and the number of keys stays below \<open>2^64\<close>.\<close>

theorem scan_enumerates:
  assumes "db_ok (h_db st)" and "scan_options opts ''*'' 10 = Inr (p, cnt)" and "0 < cnt"
    and "ks = snd (db_keys_matching (rq_clock rq) p (h_db st))" and "length ks + cnt < 2 ^ 64"
  shows "scan_session (Suc (length ks)) rq opts ''0'' st = Some ks \<and> distinct ks \<and>
    set ks = {k. live (rq_clock rq (shard_index k)) (db_get (h_db st) k) \<noteq> None \<and> gmatch p 0 k}"
proof -
  have "scan_session (Suc (length ks)) rq opts (dec_of_nat 0) st = Some (drop 0 ks)"
    by (rule scan_session_from [OF assms(2,3,5,4)]) simp_all
  moreover have "distinct ks"
    using purged_pairs(1) [OF assms(1), of "rq_clock rq"] unfolding assms(4) db_keys_matching_collect by simp
  moreover have "set ks = {k. live (rq_clock rq (shard_index k)) (db_get (h_db st) k) \<noteq> None \<and> gmatch p 0 k}"
    using set_purged_keys [OF assms(1), of "rq_clock rq"]
    unfolding assms(4) db_keys_matching_collect glob_match_gmatch by (auto simp del: set_map not_None_eq)
  ultimately show ?thesis by (simp)
qed

lemma keys_of_new: "snd (db_keys_matching clock p db_new) = []"
proof -
  have "set (snd (db_keys_matching clock p db_new)) = {}"
    using set_purged_keys [OF db_ok_new, of clock] unfolding db_keys_matching_collect by (simp add: db_get_new)
  then show ?thesis by simp
qed

theorem scan_enumerates_witness: "scan_session 1 set_request [] ''0'' (cs_h empty_state) = Some []"
  using scan_enumerates [OF empty_state_ok(1), of "[]" "''*''" 10 "[]" set_request]
  by (simp add: empty_state_def keys_of_new)

section \<open>Panics\<close>

text \<open>The arguments on which a handler panics.\<close>

definition ltrim_panics :: "request \<Rightarrow> db \<Rightarrow> bool" where
  "ltrim_panics rq d \<longleftrightarrow>
     (case rq_args rq of
        key # start # stop # _ \<Rightarrow>
          trim_panics_at (rq_now rq) (unwrap_or (parse_i64 start) 0) (unwrap_or (parse_i64 stop) (- 1)) (db_get d key)
      | _ \<Rightarrow> False)"

definition scan_panics :: "request \<Rightarrow> db \<Rightarrow> bool" where
  "scan_panics rq d \<longleftrightarrow>
     (case rq_args rq of
        cursor # opts \<Rightarrow>
          (case (parse_usize cursor, scan_options opts ''*'' 10) of
             (Some c, Inr (p, cnt)) \<Rightarrow>
               2 ^ 64 \<le> min c (length (snd (db_keys_matching (rq_clock rq) p d))) + cnt
           | _ \<Rightarrow> False)
      | [] \<Rightarrow> False)"

lemma scan_options_bounds: "scan_options opts p cnt = Inr (p', cnt') \<Longrightarrow> cnt < 2 ^ 64 \<Longrightarrow> cnt' < 2 ^ 64"
proof (induction opts p cnt rule: scan_options.induct)
  case (2 opt rest p cnt)
  show ?case
  proof (cases rest)
    case (Cons s rest')
    show ?thesis
      using 2 parse_usize_bounds [of s] unfolding Cons by (auto split: if_splits option.splits)
  qed (use 2 in \<open>auto split: if_splits\<close>)
qed simp

lemma cmd_scan_Panic:
  assumes "\<And>p. length (snd (db_keys_matching (rq_clock rq) p (h_db st))) < 2 ^ 64"
  shows "cmd_scan rq st = Panic \<longleftrightarrow> scan_panics rq (h_db st)"
proof -
  have page: "scan_page (snd (db_keys_matching (rq_clock rq) p (h_db st))) c cnt = Panic \<longleftrightarrow>
      2 ^ 64 \<le> min c (length (snd (db_keys_matching (rq_clock rq) p (h_db st)))) + cnt"
    if "scan_options opts ''*'' 10 = Inr (p, cnt)" for opts p c cnt
    by (rule scan_page_Panic [OF assms scan_options_bounds [OF that]]) simp
  show ?thesis
    using page by (auto simp: cmd_scan_def scan_panics_def on_db_eq split: list.splits option.splits sum.splits outcome.splits)
      (metis outcome.distinct(1))
qed

lemma cmd_ltrim_Panic:
  assumes "db_ok (h_db st)" and "lists_fit (h_db st)"
  shows "cmd_ltrim rq st = Panic \<longleftrightarrow> ltrim_panics rq (h_db st)"
proof -
  have trim: "db_list_trim now k a b (h_db st) = Panic \<longleftrightarrow> trim_panics_at now a b (db_get (h_db st) k)" for now k a b
    using db_list_trim_cases [OF assms(1), of k now a b] assms(2)
    by (cases "trim_panics_at now a b (db_get (h_db st) k)") (auto simp: lists_fit_def)
  show ?thesis
    by (auto simp: cmd_ltrim_def ltrim_panics_def trim [symmetric] Let_def split: list.splits outcome.splits result.splits)
qed

text \<open>A \<open>ZRANGE\<close> whose scores are all numbers. On others the comparator is no total order, and Rust leaves it open
  what \<open>sort_by\<close> does then, a panic included.\<close>

definition zrange_ordered :: "request \<Rightarrow> db \<Rightarrow> bool" where
  "zrange_ordered rq d \<longleftrightarrow>
     (case rq_args rq of
        key # _ \<Rightarrow>
          (case map_option e_value (db_get d key) of
             Some (ZSet zs) \<Rightarrow> list_all (\<lambda>(m, score). \<not> f64_is_nan score) zs
           | _ \<Rightarrow> True)
      | [] \<Rightarrow> True)"

text \<open>C32: A request that reaches the dispatcher of a release build aborts the server in exactly two cases: \<open>LTRIM\<close> with
  an end before the list and a start inside it behind its first element, and \<open>SCAN\<close> with a \<open>COUNT\<close> that overflows
  the sum with the position of the cursor. (A \<open>ZRANGE\<close> over scores that are not numbers is left aside.) \<open>EVAL\<close> and
  \<open>EVALSHA\<close> do not reach the dispatcher; the reading of their keys aborts exactly when the number of keys is \<open>2^64 - 1\<close>.\<close>

theorem command_panics:
  assumes "db_ok (h_db (cs_h cs))" and "lists_fit (h_db (cs_h cs))"
    and "\<And>p. length (snd (db_keys_matching (rq_clock rq) p (h_db (cs_h cs)))) < 2 ^ 64"
    and "rq_cmd rq = ''ZRANGE'' \<Longrightarrow> zrange_ordered rq (h_db (cs_h cs))"
  shows "(handle_command rq cs = Panic \<longleftrightarrow>
      rq_cmd rq = ''LTRIM'' \<and> ltrim_panics rq (h_db (cs_h cs)) \<or> rq_cmd rq = ''SCAN'' \<and> scan_panics rq (h_db (cs_h cs))) \<and>
    (split_keys_argv args = Panic \<longleftrightarrow> (\<exists>n rest. args = n # rest \<and> parse_usize n = Some (2 ^ 64 - 1)))"
proof
  show "split_keys_argv args = Panic \<longleftrightarrow> (\<exists>n rest. args = n # rest \<and> parse_usize n = Some (2 ^ 64 - 1))"
    by (auto simp: split_keys_argv_def split: list.splits option.splits)
  have "handle_command rq cs = Panic \<longleftrightarrow> data_command rq (cs_h cs) = Some Panic"
    by (auto simp: handle_command_def split: option.splits outcome.splits)
  also have "\<dots> \<longleftrightarrow> rq_cmd rq = ''LTRIM'' \<and> cmd_ltrim rq (cs_h cs) = Panic \<or> rq_cmd rq = ''SCAN'' \<and> cmd_scan rq (cs_h cs) = Panic"
  proof
    show "data_command rq (cs_h cs) = Some Panic \<Longrightarrow> rq_cmd rq = ''LTRIM'' \<and> cmd_ltrim rq (cs_h cs) = Panic \<or>
        rq_cmd rq = ''SCAN'' \<and> cmd_scan rq (cs_h cs) = Panic"
      using data_command_cases [of rq "cs_h cs" Panic] by auto
    show "rq_cmd rq = ''LTRIM'' \<and> cmd_ltrim rq (cs_h cs) = Panic \<or> rq_cmd rq = ''SCAN'' \<and> cmd_scan rq (cs_h cs) = Panic \<Longrightarrow>
        data_command rq (cs_h cs) = Some Panic"
      by (auto simp: data_command_def or_else_def done_of_def key_cmds_def string_cmds_def hash_cmds_def list_cmds_def tables)
  qed
  finally show "handle_command rq cs = Panic \<longleftrightarrow>
      rq_cmd rq = ''LTRIM'' \<and> ltrim_panics rq (h_db (cs_h cs)) \<or> rq_cmd rq = ''SCAN'' \<and> scan_panics rq (h_db (cs_h cs))"
    by (simp only: cmd_ltrim_Panic [OF assms(1,2)] cmd_scan_Panic [OF assms(3)])
qed

definition scan_request :: request where
  "scan_request = set_request\<lparr>rq_cmd := ''SCAN'', rq_args := [''1'', ''COUNT'', dec_of_nat (2 ^ 64 - 1)]\<rparr>"

definition one_key_state :: cmd_state where
  "one_key_state = empty_state\<lparr>cs_h := \<lparr>h_db = fst (db_set_string_ref ''k'' ''v'' None db_new), h_persist = None\<rparr>\<rparr>"

lemma one_key_state:
  "db_ok (h_db (cs_h one_key_state))" "db_get (h_db (cs_h one_key_state)) = [''k'' \<mapsto> fresh (String ''v'')]"
  using db_localD(1,2) [OF db_local_set_string_ref [of "''k''" "''v''" None] db_ok_new]
  by (simp_all add: one_key_state_def spec_set_def db_get_new)

lemma one_key_listed:
  "length (snd (db_keys_matching clock p (h_db (cs_h one_key_state)))) = (if gmatch p 0 ''k'' then 1 else 0)"
proof -
  let ?ks = "snd (db_keys_matching clock p (h_db (cs_h one_key_state)))"
  have "distinct ?ks" using purged_pairs(1) [OF one_key_state(1), of clock] unfolding db_keys_matching_collect by simp
  moreover have "set ?ks = (if gmatch p 0 ''k'' then {''k''} else {})"
    using set_purged_keys [OF one_key_state(1), of clock]
    unfolding db_keys_matching_collect glob_match_gmatch
    by (auto simp: one_key_state(2) simp del: set_map split: if_splits)
  ultimately show ?thesis using distinct_card [of ?ks] by (auto split: if_splits)
qed

theorem command_panics_witness: "handle_command scan_request one_key_state = Panic"
proof -
  have up: "map to_ascii_uppercase ''COUNT'' = ''COUNT''"
    by (simp add: to_ascii_uppercase_def is_ascii_lowercase_def less_eq_char_def)
  have fit: "lists_fit (h_db (cs_h one_key_state))"
    by (simp add: lists_fit_def list_fits_def one_key_state(2))
  have one: "parse_usize ''1'' = Some 1" 
    by (simp add: parse_usize_def utf8_ok_ascii byte_in_def u64_from_str_def is_digit_iff nat_of_dec_def digit_val_def)
  have big: "parse_usize (dec_of_nat (2 ^ 64 - 1)) = Some (2 ^ 64 - 1)" by (rule parse_usize_dec) simp
  have star: "gmatch ''*'' 0 ''k''" unfolding glob_match_gmatch [symmetric] by code_simp
  have "scan_panics scan_request (h_db (cs_h one_key_state))"
    using one_key_listed [of "rq_clock scan_request" "''*''"] one big up star
    by (simp add: scan_panics_def scan_request_def)
  then show ?thesis
    using command_panics [OF one_key_state(1) fit, of scan_request "[]"] one_key_listed [of "rq_clock scan_request"]
    by (simp add: scan_request_def)
qed

section \<open>MSET and MGET\<close>

lemma mset_loop_get:
  "db_ok (h_db st) \<Longrightarrow> db_ok (h_db (mset_loop args st)) \<and>
     db_get (h_db (mset_loop args st)) k =
       (case map_of (rev (field_pairs args)) k of Some v \<Rightarrow> Some (fresh (String v)) | None \<Rightarrow> db_get (h_db st) k)"
proof (induction args st rule: mset_loop.induct)
  case (1 key v rest st)
  note s = db_localD [OF db_local_set_string [of key v None] 1(2)]
  show ?case using 1(1) s by (auto simp: on_db_eq spec_set_def map_add_def split: option.splits)
qed auto

lemma mget_loop_strings:
  "db_ok (h_db st) \<Longrightarrow> (\<And>k. k \<in> set ks \<Longrightarrow> db_get (h_db st) k = Some (fresh (String (f k)))) \<Longrightarrow>
    snd (mget_loop clock i ks out st) = Array (out @ map (\<lambda>k. Blob (f k)) ks)"
proof (induction ks arbitrary: i out st)
  case (Cons k ks)
  note g = db_localD [OF db_local_get_string [of k "clock i"] Cons.prems(1)]
  have c: "db_get (h_db st) k = Some (fresh (String (f k)))" by (rule Cons.prems(2)) simp
  have same: "db_get (fst (db_get_string (clock i) k (h_db st))) = db_get (h_db st)"
    using g(2) c by (simp add: fun_eq_iff)
  have "snd (db_get_string (clock i) k (h_db st)) = Ok (Some (f k))"
    using g(3) c by (simp add: spec_get_string_def)
  then show ?case
    using Cons.IH [of "st\<lparr>h_db := fst (db_get_string (clock i) k (h_db st))\<rparr>"] g(1) same Cons.prems(2)
    by (simp add: on_db_eq blob_or_null_def)
qed simp

lemma evens_pairs: "even (length args) \<Longrightarrow> evens args = map fst (field_pairs args)"
  by (induction args rule: field_pairs.induct) auto

text \<open>\<open>MGET\<close> returns what \<open>MSET\<close> wrote: for every key the value that stood last behind it among the arguments.\<close>

theorem mset_mget:
  assumes "db_ok (h_db st)" and "rq_args rq \<noteq> []" and "even (length (rq_args rq))"
    and "cmd_mset rq st = (st', r)" and "rq_args rq' \<noteq> []" and "set (rq_args rq') \<subseteq> set (evens (rq_args rq))"
  shows "r = StaticSimple ''OK'' \<and>
    snd (cmd_mget rq' st') = Array (map (\<lambda>k. Blob (the (map_of (rev (field_pairs (rq_args rq))) k))) (rq_args rq'))"
proof -
  let ?ps = "field_pairs (rq_args rq)"
  have "\<not> length (rq_args rq) < 2" using assms(2,3) by (cases "rq_args rq" rule: field_pairs.cases) auto
  then have st': "st' = log_cmd rq (mset_loop (rq_args rq) st)" "r = StaticSimple ''OK''"
    using assms(3,4) by (auto simp: cmd_mset_def even_iff_mod_2_eq_zero)
  note m = mset_loop_get [OF assms(1), of "rq_args rq"]
  have "db_get (h_db st') k = Some (fresh (String (the (map_of (rev ?ps) k))))" if "k \<in> set (rq_args rq')" for k
  proof -
    have "k \<in> fst ` set (rev ?ps)" using that assms(3,6) by (auto simp: evens_pairs)
    then obtain v where "map_of (rev ?ps) k = Some v" by (metis map_of_eq_None_iff not_None_eq)
    with m [of k] show ?thesis by (simp add: st')
  qed
  then show ?thesis
    using mget_loop_strings [of st' "rq_args rq'" "\<lambda>k. the (map_of (rev ?ps) k)" "rq_clock rq'" 0 "[]"] m [of "[]"] assms(5)
    by (simp add: st' cmd_mget_def)
qed

theorem mset_mget_witness:
  "snd (cmd_mget (set_request\<lparr>rq_args := [''a'']\<rparr>)
     (fst (cmd_mset (set_request\<lparr>rq_args := [''a'', ''1'', ''b'', ''2'', ''a'', ''3'']\<rparr>) (cs_h empty_state)))) = Array [Blob ''3'']"
  using mset_mget [OF empty_state_ok(1) _ _ surjective_pairing, of "set_request\<lparr>rq_args := [''a'', ''1'', ''b'', ''2'', ''a'', ''3'']\<rparr>"
      "set_request\<lparr>rq_args := [''a'']\<rparr>"] by simp

section \<open>LPOP and RPOP with a count\<close>

definition list_cell :: "entry \<Rightarrow> bytes list \<Rightarrow> entry option" where
  "list_cell e l = (if l = [] then None else Some (e\<lparr>e_value := List l\<rparr>))"

text \<open>What is left of a list when \<open>n\<close> elements are taken from one end, and what was taken.\<close>

definition taken :: "bool \<Rightarrow> nat \<Rightarrow> bytes list \<Rightarrow> bytes list" where
  "taken left n l = take n (if left then l else rev l)"

definition left_over :: "bool \<Rightarrow> nat \<Rightarrow> bytes list \<Rightarrow> bytes list" where
  "left_over left n l = (if left then drop n l else rev (drop n (rev l)))"

lemma pop_list_cell:
  assumes "\<not> expired now e"
  shows "spec_list_pop now left (list_cell e l) =
    (if l = [] then (None, Ok None)
     else (list_cell e (left_over left 1 l), Ok (Some (if left then hd l else last l))))"
proof -
  have "\<not> expired now (e\<lparr>e_value := List l\<rparr>)" using assms by (simp add: expired_def)
  moreover have "rev (tl (rev l)) = butlast l" by (metis butlast_rev rev_rev_ident)
  ultimately show ?thesis
    by (auto simp: spec_list_pop_def on_list_def list_cell_def left_over_def live_def drop_Suc)
qed

lemma taken_Suc: "l \<noteq> [] \<Longrightarrow> taken left (Suc n) l = (if left then hd l else last l) # taken left n (left_over left 1 l)"
proof (cases left)
  case True
  assume "l \<noteq> []"
  with True show ?thesis by (cases l) (simp_all add: taken_def left_over_def)
next
  case False
  assume "l \<noteq> []"
  with False show ?thesis by (cases l rule: rev_cases) (simp_all add: taken_def left_over_def)
qed

lemma left_over_Suc: "left_over left n (left_over left (Suc 0) l) = left_over left (Suc n) l"
  by (simp add: left_over_def)

lemma pop_loop_list:
  assumes "\<And>j. \<not> expired (clock j) e"
  shows "db_ok (h_db st) \<Longrightarrow> db_get (h_db st) k = list_cell e l \<Longrightarrow>
    snd (pop_loop clock i k left n out st) = Ok (out @ taken left n l) \<and>
    db_get (h_db (fst (pop_loop clock i k left n out st))) = (db_get (h_db st))(k := list_cell e (left_over left n l))"
proof (induction n arbitrary: i l out st)
  case 0
  then show ?case by (auto simp: taken_def left_over_def)
next
  case (Suc n)
  note p = db_localD [OF db_local_list_pop [of k "clock i" left] Suc.prems(1)]
  show ?case
  proof (cases "l = []")
    case True
    then have none: "db_get (h_db st) k = None" "list_cell e (left_over left (Suc n) l) = None" "taken left (Suc n) l = []"
      using Suc.prems(2) by (auto simp: list_cell_def taken_def left_over_def)
    moreover have "spec_list_pop now left None = (None, Ok None)" for now
      by (simp add: spec_list_pop_def on_list_def live_def)
    ultimately show ?thesis using p by (simp add: on_db_eq)
  next
    case False
    let ?st = "st\<lparr>h_db := fst (db_list_pop (clock i) k left (h_db st))\<rparr>"
    note ih = Suc.IH [of ?st "left_over left 1 l" "Suc i"]
    show ?thesis
      using p Suc.prems(2) False ih
      by (simp add: on_db_eq pop_list_cell [OF assms] taken_Suc left_over_Suc fun_eq_iff)
  qed
qed

text \<open>\<open>LPOP\<close> and \<open>RPOP\<close> with a count return the elements at that end of the list, in the order in which they are
  taken, all of them when the count is larger than the list; the others stay, in order, with the expiry
  time of the key, and an emptied list is removed.\<close>

theorem pop_many_correct:
  assumes "db_ok (h_db st)" and "db_get (h_db st) k = Some e" and "e_value e = List l"
    and "\<forall>j. \<not> expired (rq_clock rq j) e" and "0 < n" and "pop_many rq k left n st = (st', r)"
  shows "r = Array (map Blob (taken left n l)) \<and>
    db_get (h_db st') = (db_get (h_db st))(k := list_cell e (left_over left n l))"
proof -
  have "l \<noteq> []" using db_ok_cell [OF assms(1), of k] assms(2,3) by auto
  then have c: "db_get (h_db st) k = list_cell e l" and ne: "taken left n l \<noteq> []"
    using assms(2,3,5) by (auto simp: list_cell_def update_value_same taken_def)
  have "\<And>j. \<not> expired (rq_clock rq j) e" using assms(4) by blast
  note p = pop_loop_list [OF this assms(1) c, where i = 0 and left = left and n = n and out = "[]"]
  from assms(6) p ne show ?thesis by (auto simp: pop_many_def case_prod_beta)
qed

theorem pop_many_correct_witness:
  "snd (pop_many set_request ''l'' True 2
     \<lparr>h_db = fst (db_list_push 0 ''l'' [''a'', ''b'', ''c''] False db_new), h_persist = None\<rparr>) = Array [Blob ''a'', Blob ''b'']"
proof -
  note p = db_localD [OF db_local_list_push [of "[''a'', ''b'', ''c'']" "''l''" 0 False, simplified] db_ok_new]
  let ?st = "\<lparr>h_db = fst (db_list_push 0 ''l'' [''a'', ''b'', ''c''] False db_new), h_persist = None\<rparr>"
  have "db_get (h_db ?st) ''l'' = Some (fresh (List [''a'', ''b'', ''c'']))"
    using p(2) by (simp add: db_get_new spec_list_push_def spec_push_def)
  from pop_many_correct [OF _ this _ _ _ surjective_pairing, of "[''a'', ''b'', ''c'']" set_request 2 True] p(1)
  show ?thesis by (simp add: taken_def expired_def numeral_2_eq_2)
qed

section \<open>SET with an expiry and TTL\<close>

lemma cmd_set_EX:
  assumes "rq_args rq = [k, v, opt, dec_of_nat n]" and "to_upper_ascii opt = ''EX''" and "n < 2 ^ 64"
  shows "cmd_set rq st =
    (log_cmd rq (fst (on_db (db_set_string_ref k v
       (Some (u64_saturating_add (rq_now rq) (u64_saturating_mul (of_nat n) 1000)))) st)), StaticSimple ''OK'')"
  using assms by (simp add: cmd_set_def parse_set_args_def parse_u64_dec unwrap_or_def)

lemma unat_small: "n < 2 ^ 64 \<Longrightarrow> unat (of_nat n :: u64) = n"
  by (simp add: unat_of_nat take_bit_nat_eq_self)

lemma saturating_mul_exact: "n * 1000 < 2 ^ 64 \<Longrightarrow> u64_saturating_mul (of_nat n) 1000 = of_nat (n * 1000)"
  using unat_small [of n] by (simp add: u64_saturating_mul_def)

text \<open>A key set with \<open>SET key value EX n\<close> has \<open>n\<close> seconds to live: \<open>TTL\<close> at the same moment returns \<open>n\<close>, before
  \<open>now + 1000 n\<close> the value is read, and from then on the key does not exist.\<close>

theorem set_ex_ttl:
  assumes "db_ok (h_db st)" and "rq_args rq = [k, v, opt, dec_of_nat n]" and "to_upper_ascii opt = ''EX''"
    and "0 < n" and "n * 1000 < 2 ^ 63" and "unat (rq_now rq) + n * 1000 < 2 ^ 64" and "rq_args rq' = [k]"
  shows "(rq_now rq' = rq_now rq \<longrightarrow> snd (cmd_ttl rq' (fst (cmd_set rq st))) = Integer (int n)) \<and>
    (unat (rq_now rq') < unat (rq_now rq) + n * 1000 \<longrightarrow> snd (cmd_get rq' (fst (cmd_set rq st))) = Blob v) \<and>
    (unat (rq_now rq) + n * 1000 \<le> unat (rq_now rq') \<longrightarrow> snd (cmd_get rq' (fst (cmd_set rq st))) = Null)"
proof -
  define ttl where "ttl = (of_nat (n * 1000) :: u64)"
  let ?now = "rq_now rq"
  let ?e = "\<lparr>e_value = String v, expires_at = Some (?now + ttl)\<rparr>"
  have ttl: "unat ttl = n * 1000" unfolding ttl_def by (rule unat_small) (use assms(5) in simp)
  have sum: "unat (?now + ttl) = unat ?now + n * 1000"
    using assms(6) ttl by (simp add: unat_plus_if_size word_size)
  have at: "u64_saturating_add ?now (u64_saturating_mul (of_nat n) 1000) = ?now + ttl"
    using assms(5,6) ttl by (simp only: saturating_mul_exact [of n] ttl_def [symmetric]) (simp add: u64_saturating_add_def)
  note s = db_localD [OF db_local_set_string_ref [of k v "Some (?now + ttl)"] assms(1)]
  let ?st = "fst (cmd_set rq st)"
  have st: "db_ok (h_db ?st)" "db_get (h_db ?st) k = Some ?e"
    using s assms(5) cmd_set_EX [OF assms(2,3), of st] by (simp_all add: at on_db_eq spec_set_def)
  have live: "live now (Some ?e) = (if unat now < unat ?now + n * 1000 then Some ?e else None)" for now
    by (simp add: live_def expired_def word_le_nat_alt sum)
  note g = db_localD(3) [OF db_local_get_string [of k "rq_now rq'"] st(1)]
  note t = db_localD(3) [OF db_local_ttl_ms [of k "rq_now rq'"] st(1)]
  have "sint ttl = int (n * 1000)" using sint_small [of ttl] ttl assms(5) by simp
  then show ?thesis
    using g t st(2) live assms(4,7)
    by (auto simp: cmd_ttl_def cmd_get_def on_db_eq spec_get_string_def spec_ttl_ms_def string_reply_def blob_or_null_def)
qed

lemma upper_EX: "to_upper_ascii ''EX'' = ''EX''"
  by (rule to_upper_plain) (simp add: byte_in_def is_ascii_lowercase_def less_eq_char_def)

theorem set_ex_ttl_witness:
  "snd (cmd_ttl (set_request\<lparr>rq_args := [''k'']\<rparr>)
     (fst (cmd_set (set_request\<lparr>rq_args := [''k'', ''v'', ''EX'', dec_of_nat 7]\<rparr>) (cs_h empty_state)))) = Integer 7"
  using set_ex_ttl [OF empty_state_ok(1) _ upper_EX, of "set_request\<lparr>rq_args := [''k'', ''v'', ''EX'', dec_of_nat 7]\<rparr>"
      "''k''" "''v''" 7 "set_request\<lparr>rq_args := [''k'']\<rparr>"]
  by (simp add: set_request_def)

text \<open>\<open>EXPIRE\<close> with a time that is not a number is not refused: it counts as zero and the key is gone at once.\<close>

theorem expire_garbage_deletes:
  assumes "db_ok (h_db st)" and "db_get (h_db st) k = Some e" and "rq_args rq = [k, s]" and "parse_u64 s = None"
    and "cmd_expire rq st = (st', r)" and "rq_args rq' = [k]" and "rq_now rq \<le> rq_now rq'"
  shows "r = Integer 1 \<and> snd (cmd_exists rq' st') = Integer 0"
proof -
  note x = db_localD [OF db_local_set_expire_ms [of k "rq_now rq" 0] assms(1)]
  have mul: "u64_saturating_mul (unwrap_or (parse_u64 s) 0) 1000 = 0"
    by (simp add: assms(4) unwrap_or_def u64_saturating_mul_def)
  have st': "st' = log_cmd rq (st\<lparr>h_db := fst (db_set_expire_ms (rq_now rq) k 0 (h_db st))\<rparr>)" "r = Integer 1"
    using assms(2,3,5) x(3) by (simp_all add: cmd_expire_def mul expire_reply_def on_db_eq spec_set_expire_ms_def flag_def)
  note el = db_localD(3) [OF db_local_exists [of k "rq_now rq'"] x(1)]
  have "unat (rq_now rq) < 2 ^ LENGTH(64)" by (rule unsigned_less)
  then have "snd (db_exists (rq_now rq') k (fst (db_set_expire_ms (rq_now rq) k 0 (h_db st)))) = False"
    using el x(2) assms(2,7)
    by (simp add: spec_exists_def spec_set_expire_ms_def u64_saturating_add_def live_def expired_def)
  then show ?thesis using st' assms(6) by (simp add: cmd_exists_def on_db_eq)
qed

theorem expire_garbage_deletes_witness:
  "snd (cmd_exists (set_request\<lparr>rq_args := [''k'']\<rparr>)
     (fst (cmd_expire (set_request\<lparr>rq_args := [''k'', ''soon'']\<rparr>) (cs_h one_key_state)))) = Integer 0"
proof -
  have "parse_u64 ''soon'' = None"
    by (simp add: parse_u64_def utf8_ok_ascii byte_in_def u64_from_str_def is_digit_iff)
  with expire_garbage_deletes [OF one_key_state(1) _ _ _ surjective_pairing, of "''k''" "fresh (String ''v'')"
      "set_request\<lparr>rq_args := [''k'', ''soon'']\<rparr>" "''soon''" "set_request\<lparr>rq_args := [''k'']\<rparr>"]
  show ?thesis by (simp add: one_key_state(2) set_request_def)
qed

end
