(* ===== verification/Server_State.thy ===== *)
theory Server_State
  imports Command_Facts
begin

text \<open>
  The server (\<open>src/muon_cache/server.rs\<close>): the state shared by all connections, the state of one connection,
  and the commands that need no database or all of them. \<open>PUBLISH\<close> puts messages into the bounded channels of
  the subscribers; \<open>SAVE\<close> copies the live entries of every database and hands the copies to the SQL backend,
  a parameter.
\<close>

section \<open>Model: state\<close>

text \<open>The channel from the publishers to one connection: the messages under way and whether the receiving end
  still exists.\<close>

record inbox =
  ib_queue :: "resp_value list"
  ib_open :: bool

definition PUBSUB_CHANNEL_CAPACITY :: nat where
  "PUBSUB_CHANNEL_CAPACITY = 1024"

record server =
  sv_dbs :: "db list"
  sv_persist :: "persist option"
  sv_scripts :: script_cache
  sv_pubsub :: "(bytes, nat list) hashmap"
  sv_inbox :: "nat \<Rightarrow> inbox"

text \<open>The memory block of a JavaScript interpreter; a connection gets one with its first script.\<close>

type_synonym js_heap = bytes

record client =
  cl_id :: nat
  cl_db :: nat
  cl_in_multi :: bool
  cl_queued :: "(bytes \<times> bytes list) list"
  cl_script :: "js_heap option"

datatype snapshot_result = Saved | NotFound | Failed bytes

text \<open>The clock of a request: the number of the call (a script makes several), the database, then the reading.\<close>

type_synonym req_clock = "nat \<Rightarrow> nat \<Rightarrow> nat \<Rightarrow> u64"

section \<open>Model: the commands outside the dispatcher\<close>

text \<open>\<open>persist_state.is_none()\<close>, read once when a connection starts.\<close>

definition no_persist :: "server \<Rightarrow> bool" where
  "no_persist sv \<longleftrightarrow> sv_persist sv = None"

subsection \<open>Publish and subscribe\<close>

fun subscribe_loop :: "nat \<Rightarrow> bytes list \<Rightarrow> (bytes, nat list) hashmap \<Rightarrow> int \<Rightarrow> (bytes, nat list) hashmap \<times> int" where
  "subscribe_loop me [] m cnt = (m, cnt)"
| "subscribe_loop me (ch # rest) m cnt =
     subscribe_loop me rest (hm_put ch ((case hm_get m ch of Some l \<Rightarrow> l | None \<Rightarrow> []) @ [me]) m) (cnt + 1)"

definition handle_subscribe :: "nat \<Rightarrow> bytes list \<Rightarrow> server \<Rightarrow> server \<times> resp_value" where
  "handle_subscribe me channels sv =
     (case channels of
        [] \<Rightarrow> (sv, StaticError (wrong_args ''SUBSCRIBE''))
      | channel # _ \<Rightarrow>
          (let (m, cnt) = subscribe_loop me channels (sv_pubsub sv) 0
           in (sv\<lparr>sv_pubsub := m\<rparr>, Array [Blob ''subscribe'', Blob channel, Integer cnt])))"

text \<open>\<open>try_send\<close> on a bounded channel.\<close>

definition try_send :: "resp_value \<Rightarrow> inbox \<Rightarrow> inbox \<times> bool" where
  "try_send msg ib =
     (if ib_open ib \<and> length (ib_queue ib) < PUBSUB_CHANNEL_CAPACITY
      then (ib\<lparr>ib_queue := ib_queue ib @ [msg]\<rparr>, True) else (ib, False))"

fun publish_loop :: "resp_value \<Rightarrow> nat list \<Rightarrow> (nat \<Rightarrow> inbox) \<Rightarrow> int \<Rightarrow> (nat \<Rightarrow> inbox) \<times> int" where
  "publish_loop msg [] inb delivered = (inb, delivered)"
| "publish_loop msg (tx # rest) inb delivered =
     (case try_send msg (inb tx) of (ib, ok) \<Rightarrow>
        publish_loop msg rest (inb(tx := ib)) (if ok then delivered + 1 else delivered))"

definition handle_publish :: "bytes list \<Rightarrow> server \<Rightarrow> server \<times> resp_value" where
  "handle_publish args sv =
     (case args of
        [channel, message] \<Rightarrow>
          (let receivers = (case hm_get (sv_pubsub sv) channel of Some l \<Rightarrow> l | None \<Rightarrow> []);
               (inb, delivered) =
                 publish_loop (Array [Blob ''message'', Blob channel, Blob message]) receivers (sv_inbox sv) 0
           in (sv\<lparr>sv_inbox := inb\<rparr>, Integer delivered))
      | _ \<Rightarrow> (sv, StaticError (wrong_args ''PUBLISH'')))"

subsection \<open>Commands that need no database\<close>

definition handle_no_db_command :: "bytes \<Rightarrow> bytes list \<Rightarrow> server \<times> client \<Rightarrow> ((server \<times> client) \<times> resp_value) option" where
  "handle_no_db_command cmd args sc =
     (let (sv, cl) = sc
      in if cmd = ''PING'' then Some (sc, case args of a # _ \<Rightarrow> Blob a | [] \<Rightarrow> StaticSimple ''PONG'')
         else if cmd = ''ECHO'' then Some (sc, case args of a # _ \<Rightarrow> Blob a | [] \<Rightarrow> StaticError (wrong_args ''ECHO''))
         else if cmd = ''SELECT'' then
           (case Option.bind (case args of a # _ \<Rightarrow> Some a | [] \<Rightarrow> None) parse_usize of
              Some idx \<Rightarrow>
                if idx < length (sv_dbs sv) then Some ((sv, cl\<lparr>cl_db := idx\<rparr>), StaticSimple ''OK'')
                else Some (sc, StaticError ''ERR invalid DB index'')
            | None \<Rightarrow> Some (sc, StaticError ''ERR invalid DB index''))
         else if cmd = ''INFO'' then Some (sc, Blob INFO_TEXT)
         else if cmd = ''SCRIPT'' then
           (let (cache, r) = handle_script_command args (sv_scripts sv) in Some ((sv\<lparr>sv_scripts := cache\<rparr>, cl), r))
         else if cmd = ''CONFIG'' then Some (sc, only_sub ''GET'' (Array []) args)
         else if cmd = ''FUNCTION'' then
           (let (cache, r) = handle_function_command args (sv_scripts sv) in Some ((sv\<lparr>sv_scripts := cache\<rparr>, cl), r))
         else if cmd = ''CLIENT'' then Some (sc, only_sub ''LIST'' (Blob CLIENT_TEXT) args)
         else if cmd = ''SLOWLOG'' then Some (sc, only_sub ''GET'' (Array []) args)
         else if cmd = ''REPLICAOF'' then Some (sc, StaticError ''ERR replication not implemented'')
         else if cmd = ''QUIT'' then Some (sc, StaticSimple ''OK'')
         else None)"

subsection \<open>SAVE and FLUSHALL\<close>

text \<open>The copy of one database that is handed to the snapshot; taking it sweeps the original.\<close>

definition snapshot_db :: "(nat \<Rightarrow> u64) \<Rightarrow> db \<Rightarrow> db \<times> db" where
  "snapshot_db clock d =
     (let (d, entries) = db_snapshot_items clock d
      in (d, fold (\<lambda>(k, v, x) c. fst (db_set_with_expire_at k v x c)) entries db_new))"

definition snapshot_dbs_for_persistence :: "req_clock \<Rightarrow> db list \<Rightarrow> db list \<times> db list" where
  "snapshot_dbs_for_persistence clk ds =
     (let outs = map (\<lambda>i. snapshot_db (clk 0 i) (ds ! i)) [0..<length ds] in (map fst outs, map snd outs))"

definition persist_snapshot :: "(db list \<Rightarrow> snapshot_result) \<Rightarrow> persist \<Rightarrow> db list \<Rightarrow> snapshot_result" where
  "persist_snapshot sql p ds = (case p of Noop \<Rightarrow> Saved | Libsql _ \<Rightarrow> sql ds)"

definition handle_save_like_command ::
  "(db list \<Rightarrow> snapshot_result) \<Rightarrow> req_clock \<Rightarrow> bytes \<Rightarrow> bytes list \<Rightarrow> server \<Rightarrow> (server \<times> resp_value) option" where
  "handle_save_like_command sql clk cmd args sv =
     (if cmd \<noteq> ''SAVE'' \<and> cmd \<noteq> ''BGSAVE'' then None
      else if args \<noteq> [] then Some (sv, Error (wrong_args cmd))
      else let (ds, copies) = snapshot_dbs_for_persistence clk (sv_dbs sv);
               sv = sv\<lparr>sv_dbs := ds\<rparr>
           in Some (sv,
                case sv_persist sv of
                  Some p \<Rightarrow>
                    (case persist_snapshot sql p copies of
                       Saved \<Rightarrow> StaticSimple ''OK''
                     | NotFound \<Rightarrow> StaticError ''ERR persistence not configured''
                     | Failed e \<Rightarrow> Error (''ERR persistence failed: '' @ e))
                | None \<Rightarrow> StaticError ''ERR persistence not configured''))"

definition handle_flushall_command :: "bytes list \<Rightarrow> bool \<Rightarrow> server \<Rightarrow> server \<times> resp_value" where
  "handle_flushall_command args skip_aof sv =
     (if args \<noteq> [] then (sv, StaticError (wrong_args ''FLUSHALL''))
      else let sv = sv\<lparr>sv_dbs := map (\<lambda>d. fst (db_flush d)) (sv_dbs sv)\<rparr>
           in (if skip_aof then sv
               else case sv_persist sv of
                 Some p \<Rightarrow>
                   if aof_enabled p
                   then sv\<lparr>sv_persist := Some (fst (log_command_nowait 0 ''FLUSHALL'' args p))\<rparr> else sv
               | None \<Rightarrow> sv,
               StaticSimple ''OK''))"

end
