(* ===== verification/Script_Calls.thy ===== *)
theory Script_Calls
  imports Server_State
begin

text \<open>
  What a script can do to the databases (\<open>redis_call\<close> and its neighbours in \<open>src/muon_cache/server.rs\<close>): a call
  \<open>redis.call(...)\<close> or \<open>redis.pcall(...)\<close> is first tried by a fast path that works on the arguments as they are on
  the JavaScript heap; otherwise the arguments become strings, the command runs through the dispatcher,
  and its reply becomes a JavaScript value.

  JavaScript values are trees here, the interpreter itself is a parameter: conversions of floats and
  objects are functions in \<open>js_params\<close>, and a script is a tree of calls (\<open>js_proc\<close>), each of which goes on with the
  value it is given. Allocation failures in the interpreter's heap are left to that parameter.
\<close>

section \<open>Model: JavaScript values\<close>

text \<open>An object has its properties \<open>err\<close> and \<open>ok\<close> and an identity; an exception value has its message.\<close>

datatype js_val =
    JInt int
  | JNull
  | JUndefined
  | JBool bool
  | JStr bytes
  | JFloat f64
  | JArr "js_val list"
  | JObj js_val js_val nat
  | JException bytes

record js_params =
  je_float_str :: "f64 \<Rightarrow> bytes"
  je_prim :: "js_val \<Rightarrow> bytes option"
  je_of_int :: "int \<Rightarrow> f64"
  je_as_int :: "f64 \<Rightarrow> int option"

subsection \<open>Numbers\<close>

definition i32_to_stack_bytes :: "int \<Rightarrow> bytes" where
  "i32_to_stack_bytes n =
     (if n = 0 then ''0''
      else let buf = digits_back (nat (if n < 0 then - n else n)) [] in if n < 0 then CHR ''-'' # buf else buf)"

definition js_new_int64 :: "js_params \<Rightarrow> int \<Rightarrow> js_val" where
  "js_new_int64 je v = (if v \<ge> - (2 ^ 31) \<and> v \<le> 2 ^ 31 - 1 then JInt v else JFloat (je_of_int je v))"

subsection \<open>Strings\<close>

fun js_to_string :: "js_params \<Rightarrow> js_val \<Rightarrow> bytes option" where
  "js_to_string je (JInt n) = Some (int_to_decimal_bytes n)"
| "js_to_string je (JFloat f) = Some (je_float_str je f)"
| "js_to_string je (JStr s) = Some s"
| "js_to_string je (JBool b) = Some (if b then ''true'' else ''false'')"
| "js_to_string je JNull = Some ''null''"
| "js_to_string je JUndefined = Some ''undefined''"
| "js_to_string je (JArr vs) = Some (case je_prim je (JArr vs) of Some s \<Rightarrow> s | None \<Rightarrow> ''[object Array]'')"
| "js_to_string je (JObj e k i) = Some (case je_prim je (JObj e k i) of Some s \<Rightarrow> s | None \<Rightarrow> ''[object Object]'')"
| "js_to_string je (JException m) = None"

text \<open>\<open>JS_ToCString\<close> returns the empty string for bytes that are not UTF-8.\<close>

definition js_to_cstring :: "js_params \<Rightarrow> js_val \<Rightarrow> bytes" where
  "js_to_cstring je v = (case js_to_string je v of Some s \<Rightarrow> if utf8_ok s then s else [] | None \<Rightarrow> [])"

definition js_value_as_bytes :: "js_val \<Rightarrow> bytes" where
  "js_value_as_bytes v = (case v of JStr s \<Rightarrow> s | JInt n \<Rightarrow> i32_to_stack_bytes n | _ \<Rightarrow> [])"

subsection \<open>Replies and JavaScript values\<close>

definition throw_or_err :: "bool \<Rightarrow> bytes \<Rightarrow> js_val" where
  "throw_or_err pcall msg = (if pcall then JObj (JStr msg) JUndefined 0 else JException msg)"

definition wrongtype_error :: "bool \<Rightarrow> js_val" where
  "wrongtype_error pcall = throw_or_err pcall WRONGTYPE"

definition int_range_error :: "bool \<Rightarrow> js_val" where
  "int_range_error pcall = throw_or_err pcall NOT_INTEGER"

fun resp_to_js :: "js_params \<Rightarrow> bool \<Rightarrow> resp_value \<Rightarrow> js_val" where
  "resp_to_js je pcall (Simple s) = JStr s"
| "resp_to_js je pcall (StaticSimple s) = JStr s"
| "resp_to_js je pcall (Blob b) = JStr b"
| "resp_to_js je pcall (Integer n) = js_new_int64 je n"
| "resp_to_js je pcall Null = JNull"
| "resp_to_js je pcall (Array vs) = JArr (map (resp_to_js je pcall) vs)"
| "resp_to_js je pcall (Error msg) = throw_or_err pcall msg"
| "resp_to_js je pcall (StaticError msg) = throw_or_err pcall msg"

definition nullish :: "js_val \<Rightarrow> bool" where
  "nullish v \<longleftrightarrow> v = JUndefined \<or> v = JNull"

fun js_to_resp :: "js_params \<Rightarrow> js_val \<Rightarrow> resp_value" where
  "js_to_resp je (JInt n) = Integer n"
| "js_to_resp je JNull = Null"
| "js_to_resp je JUndefined = Null"
| "js_to_resp je (JBool b) = Integer (if b then 1 else 0)"
| "js_to_resp je (JStr s) = Blob s"
| "js_to_resp je (JArr vs) = Array (map (js_to_resp je) vs)"
| "js_to_resp je (JFloat f) = (case je_as_int je f of Some n \<Rightarrow> Integer n | None \<Rightarrow> Blob (je_float_str je f))"
| "js_to_resp je (JObj err ok i) =
     (if \<not> nullish err then Error (js_to_cstring je err)
      else if \<not> nullish ok then Simple (js_to_cstring je ok)
      else Blob (js_to_cstring je (JObj err ok i)))"
| "js_to_resp je (JException m) = Blob (js_to_cstring je (JException m))"

section \<open>Model: the fast path\<close>

text \<open>The commands are chosen by the length of the name and then compared without regard to case. The
  arguments are what follows the command's name; an empty key leaves the call to the dispatcher.\<close>

definition eq_ignore_ascii_case :: "bytes \<Rightarrow> bytes \<Rightarrow> bool" where
  "eq_ignore_ascii_case a b \<longleftrightarrow> map to_ascii_uppercase a = map to_ascii_uppercase b"

definition with_key :: "js_val list \<Rightarrow> (bytes \<Rightarrow> db \<times> js_val) \<Rightarrow> (db \<times> js_val) option" where
  "with_key args f = (let key = js_value_as_bytes (args ! 0) in if key = [] then None else Some (f key))"

definition js_int_result :: "js_params \<Rightarrow> bool \<Rightarrow> db \<times> int result \<Rightarrow> db \<times> js_val" where
  "js_int_result je pcall out = (case out of (d, r) \<Rightarrow> (d, case r of Ok n \<Rightarrow> js_new_int64 je n | Err \<Rightarrow> wrongtype_error pcall))"

definition js_string_result :: "bool \<Rightarrow> db \<times> bytes option result \<Rightarrow> db \<times> js_val" where
  "js_string_result pcall out =
     (case out of (d, r) \<Rightarrow> (d, case r of Ok (Some v) \<Rightarrow> JStr v | Ok None \<Rightarrow> JNull | Err \<Rightarrow> wrongtype_error pcall))"

definition js_list_result :: "bool \<Rightarrow> db \<times> bytes list result \<Rightarrow> db \<times> js_val" where
  "js_list_result pcall out =
     (case out of (d, r) \<Rightarrow> (d, case r of Ok vs \<Rightarrow> JArr (map JStr vs) | Err \<Rightarrow> wrongtype_error pcall))"

definition js_incr_result :: "js_params \<Rightarrow> bool \<Rightarrow> db \<times> int result \<Rightarrow> db \<times> js_val" where
  "js_incr_result je pcall out = (case out of (d, r) \<Rightarrow> (d, case r of Ok n \<Rightarrow> js_new_int64 je n | Err \<Rightarrow> int_range_error pcall))"

text \<open>An index or an increment: a number as it is, anything else parsed, zero when that fails.\<close>

definition js_i64_arg :: "js_val \<Rightarrow> int" where
  "js_i64_arg v = (case v of JInt n \<Rightarrow> n | _ \<Rightarrow> unwrap_or (parse_i64 (js_value_as_bytes v)) 0)"

fun fast_del_loop :: "js_val list \<Rightarrow> int \<Rightarrow> db \<Rightarrow> db \<times> int" where
  "fast_del_loop [] removed d = (d, removed)"
| "fast_del_loop (v # rest) removed d =
     (let key = js_value_as_bytes v
      in if key = [] then fast_del_loop rest removed d
         else case db_remove key d of (d, b) \<Rightarrow> fast_del_loop rest (if b then removed + 1 else removed) d)"

definition fast_call_3 ::
  "js_params \<Rightarrow> (nat \<Rightarrow> u64) \<Rightarrow> bool \<Rightarrow> bytes \<Rightarrow> js_val list \<Rightarrow> db \<Rightarrow> (db \<times> js_val) option" where
  "fast_call_3 je clock pcall cmd args d =
     (if eq_ignore_ascii_case cmd ''GET'' \<and> length args = 1 then
        with_key args (\<lambda>key. js_string_result pcall (db_get_string (clock 0) key d))
      else if eq_ignore_ascii_case cmd ''SET'' \<and> length args = 2 then
        with_key args (\<lambda>key. (fst (db_set_string_from_slices key (js_value_as_bytes (args ! 1)) None d), JStr ''OK''))
      else if eq_ignore_ascii_case cmd ''DEL'' \<and> length args \<ge> 1 then
        Some (case fast_del_loop args 0 d of (d, removed) \<Rightarrow> (d, js_new_int64 je removed))
      else None)"

fun fast_hset_loop :: "(nat \<Rightarrow> u64) \<Rightarrow> nat \<Rightarrow> bytes \<Rightarrow> js_val list \<Rightarrow> int \<Rightarrow> db \<Rightarrow> db \<times> int result" where
  "fast_hset_loop clock i key (field # v # rest) added d =
     (case db_hash_set (clock i) key (js_value_as_bytes field) (js_value_as_bytes v) d of (d, r) \<Rightarrow>
        (case r of
           Ok is_new \<Rightarrow> fast_hset_loop clock (Suc i) key rest (if is_new then added + 1 else added) d
         | Err \<Rightarrow> (d, Err)))"
| "fast_hset_loop clock i key _ added d = (d, Ok added)"

definition fast_call_4 ::
  "js_params \<Rightarrow> (nat \<Rightarrow> u64) \<Rightarrow> bool \<Rightarrow> bytes \<Rightarrow> js_val list \<Rightarrow> db \<Rightarrow> (db \<times> js_val) option" where
  "fast_call_4 je clock pcall cmd args d =
     (if eq_ignore_ascii_case cmd ''HSET'' \<and> length args = 3 then
        with_key args (\<lambda>key.
          (case db_hash_set_bytes (clock 0) key (js_value_as_bytes (args ! 1)) (js_value_as_bytes (args ! 2)) d of (d, r) \<Rightarrow>
             (d, case r of Ok is_new \<Rightarrow> js_new_int64 je (if is_new then 1 else 0) | Err \<Rightarrow> wrongtype_error pcall)))
      else if eq_ignore_ascii_case cmd ''HSET'' \<and> length args \<ge> 5 \<and> odd (length args) then
        with_key args (\<lambda>key. js_int_result je pcall (fast_hset_loop clock 0 key (drop 1 args) 0 d))
      else if eq_ignore_ascii_case cmd ''HGET'' \<and> length args = 2 then
        with_key args (\<lambda>key. js_string_result pcall (db_hash_get (clock 0) key (js_value_as_bytes (args ! 1)) d))
      else if eq_ignore_ascii_case cmd ''INCR'' \<and> length args = 1 then
        with_key args (\<lambda>key. js_incr_result je pcall (db_incr_by (clock 0) key 1 d))
      else if eq_ignore_ascii_case cmd ''SADD'' \<and> length args = 2 then
        with_key args (\<lambda>key. js_int_result je pcall (db_set_add_single_bytes (clock 0) key (js_value_as_bytes (args ! 1)) d))
      else if eq_ignore_ascii_case cmd ''SADD'' \<and> length args \<ge> 3 then
        with_key args (\<lambda>key. js_int_result je pcall (db_set_add (clock 0) key (map js_value_as_bytes (drop 1 args)) d))
      else None)"

definition fast_call_5 ::
  "js_params \<Rightarrow> (nat \<Rightarrow> u64) \<Rightarrow> bool \<Rightarrow> bytes \<Rightarrow> js_val list \<Rightarrow> db \<Rightarrow> (db \<times> js_val) option" where
  "fast_call_5 je clock pcall cmd args d =
     (if eq_ignore_ascii_case cmd ''LPUSH'' \<and> length args \<ge> 2 then
        with_key args (\<lambda>key. js_int_result je pcall (db_list_push (clock 0) key (map js_value_as_bytes (drop 1 args)) True d))
      else if eq_ignore_ascii_case cmd ''RPUSH'' \<and> length args \<ge> 2 then
        with_key args (\<lambda>key. js_int_result je pcall (db_list_push (clock 0) key (map js_value_as_bytes (drop 1 args)) False d))
      else None)"

definition fast_call_6 ::
  "js_params \<Rightarrow> (bytes list \<Rightarrow> nat) \<Rightarrow> (nat \<Rightarrow> u64) \<Rightarrow> bool \<Rightarrow> bytes \<Rightarrow> js_val list \<Rightarrow> db \<Rightarrow> (db \<times> js_val) option" where
  "fast_call_6 je split clock pcall cmd args d =
     (if eq_ignore_ascii_case cmd ''LRANGE'' \<and> length args = 3 then
        with_key args (\<lambda>key. js_list_result pcall
          (db_list_range (clock 0) split key (js_i64_arg (args ! 1)) (js_i64_arg (args ! 2)) d))
      else if eq_ignore_ascii_case cmd ''INCRBY'' \<and> length args = 2 then
        with_key args (\<lambda>key. js_incr_result je pcall (db_incr_by (clock 0) key (js_i64_arg (args ! 1)) d))
      else if eq_ignore_ascii_case cmd ''DECRBY'' \<and> length args = 2 then
        with_key args (\<lambda>key. js_incr_result je pcall (db_incr_by (clock 0) key (i64_wrap (- js_i64_arg (args ! 1))) d))
      else None)"

definition fast_call_8 ::
  "(nat \<Rightarrow> u64) \<Rightarrow> bool \<Rightarrow> bytes \<Rightarrow> js_val list \<Rightarrow> db \<Rightarrow> (db \<times> js_val) option" where
  "fast_call_8 clock pcall cmd args d =
     (if eq_ignore_ascii_case cmd ''SMEMBERS'' \<and> length args = 1 then
        with_key args (\<lambda>key. js_list_result pcall (db_set_members (clock 0) key d))
      else None)"

definition redis_call_fast ::
  "js_params \<Rightarrow> (bytes list \<Rightarrow> nat) \<Rightarrow> (nat \<Rightarrow> u64) \<Rightarrow> bool \<Rightarrow> bytes \<Rightarrow> js_val list \<Rightarrow> db \<Rightarrow> (db \<times> js_val) option" where
  "redis_call_fast je split clock pcall cmd args d =
     (if length cmd = 3 then fast_call_3 je clock pcall cmd args d
      else if length cmd = 4 then fast_call_4 je clock pcall cmd args d
      else if length cmd = 5 then fast_call_5 je clock pcall cmd args d
      else if length cmd = 6 then fast_call_6 je split clock pcall cmd args d
      else if length cmd = 8 then fast_call_8 clock pcall cmd args d
      else None)"

section \<open>Model: one call\<close>

text \<open>\<open>handle_command\<close> on the database the connection has selected.\<close>

definition on_selected_db ::
  "(cmd_state \<Rightarrow> (cmd_state \<times> resp_value) outcome) \<Rightarrow> server \<times> client \<Rightarrow> ((server \<times> client) \<times> resp_value) outcome" where
  "on_selected_db f sc =
     (let (sv, cl) = sc
      in case f \<lparr>cs_h = \<lparr>h_db = sv_dbs sv ! cl_db cl, h_persist = sv_persist sv\<rparr>, cs_scripts = sv_scripts sv\<rparr> of
           Panic \<Rightarrow> Panic
         | Done (cs, r) \<Rightarrow>
             Done ((sv\<lparr>sv_dbs := (sv_dbs sv)[cl_db cl := h_db (cs_h cs)], sv_persist := h_persist (cs_h cs),
                      sv_scripts := cs_scripts cs\<rparr>, cl), r))"

text \<open>What the connections share besides the state: the SQL backend, the conversion of floats, the choice of the
  split point in \<open>LRANGE\<close>, and the JavaScript interpreter. A script is a tree of calls: it ends with a
  value or an exception and a new heap, or it makes a call and goes on with its result.\<close>

datatype js_proc =
    JsDone js_heap js_val
  | JsThrow js_heap js_val
  | JsCall bool "js_val list" "js_val \<Rightarrow> js_proc"

record env =
  en_snapshot :: "db list \<Rightarrow> snapshot_result"
  en_f64 :: "bytes \<Rightarrow> f64 option"
  en_split :: "bytes list \<Rightarrow> nat"
  en_js :: js_params
  en_eval :: "js_heap \<Rightarrow> bytes \<Rightarrow> js_val \<Rightarrow> js_val \<Rightarrow> js_proc"
  en_usage :: "js_heap \<Rightarrow> nat \<times> nat"
  en_build_ctx :: js_heap
  en_threshold_pct :: nat

definition mk_request :: "env \<Rightarrow> (nat \<Rightarrow> nat \<Rightarrow> u64) \<Rightarrow> bool \<Rightarrow> bytes \<Rightarrow> bytes list \<Rightarrow> client \<Rightarrow> request" where
  "mk_request en clk skip_aof cmd args cl =
     \<lparr>rq_cmd = cmd, rq_args = args, rq_db_index = cl_db cl, rq_skip_aof = skip_aof,
      rq_clock = clk (cl_db cl), rq_f64 = en_f64 en, rq_split = en_split en\<rparr>"

definition call_name :: "js_params \<Rightarrow> js_val \<Rightarrow> bytes" where
  "call_name je v = (case v of JStr s \<Rightarrow> if length s \<le> 16 then s else [] | _ \<Rightarrow> take 16 (js_to_cstring je v))"

definition slow_call ::
  "env \<Rightarrow> (nat \<Rightarrow> nat \<Rightarrow> u64) \<Rightarrow> bool \<Rightarrow> bytes \<Rightarrow> js_val list \<Rightarrow> server \<times> client \<Rightarrow> ((server \<times> client) \<times> js_val) outcome" where
  "slow_call en clk pcall name vals sc =
     (case parse_command name of
        None \<Rightarrow> Done (sc, JException (''ERR unknown command '' @ CHR 0x27 # utf8_lossy name @ [CHR 0x27]))
      | Some cmd \<Rightarrow>
          (let args = map (js_to_cstring (en_js en)) vals
           in case (case handle_no_db_command cmd args sc of
                      Some out \<Rightarrow> Done out
                    | None \<Rightarrow> on_selected_db (handle_command (mk_request en clk True cmd args (snd sc))) sc) of
                Panic \<Rightarrow> Panic
              | Done (sc, r) \<Rightarrow> Done (sc, resp_to_js (en_js en) pcall r)))"

definition redis_call ::
  "env \<Rightarrow> (nat \<Rightarrow> nat \<Rightarrow> u64) \<Rightarrow> nat \<Rightarrow> bool \<Rightarrow> js_val list \<Rightarrow> server \<times> client \<Rightarrow> ((server \<times> client) \<times> js_val) outcome" where
  "redis_call en clk held pcall argv sc =
     (case argv of
        [] \<Rightarrow> Done (sc, JException ''redis.call requires at least one argument'')
      | c # vals \<Rightarrow>
          (let (sv, cl) = sc; name = call_name (en_js en) c
           in case (if cl_db cl = held
                    then redis_call_fast (en_js en) (en_split en) (clk (cl_db cl)) pcall name vals (sv_dbs sv ! cl_db cl)
                    else None) of
                Some (d, v) \<Rightarrow> Done ((sv\<lparr>sv_dbs := (sv_dbs sv)[cl_db cl := d]\<rparr>, cl), v)
              | None \<Rightarrow> slow_call en clk pcall name vals sc))"

section \<open>Model: one script\<close>

primrec run_proc ::
  "env \<Rightarrow> req_clock \<Rightarrow> nat \<Rightarrow> js_proc \<Rightarrow> nat \<Rightarrow> server \<times> client \<Rightarrow>
   ((server \<times> client) \<times> js_heap \<times> (js_val, js_val) sum) outcome" where
  "run_proc en clk held (JsDone heap v) n sc = Done (sc, heap, Inr v)"
| "run_proc en clk held (JsThrow heap v) n sc = Done (sc, heap, Inl v)"
| "run_proc en clk held (JsCall pcall argv k) n sc =
     (case redis_call en (clk n) held pcall argv sc of
        Panic \<Rightarrow> Panic
      | Done (sc, v) \<Rightarrow> run_proc en clk held (k v) (Suc n) sc)"

text \<open>\<open>KEYS\<close> and \<open>ARGV\<close> count from one.\<close>

definition keys_argv :: "bytes list \<Rightarrow> js_val" where
  "keys_argv ks = JArr (if ks = [] then [] else JUndefined # map JStr ks)"

definition maybe_reset :: "env \<Rightarrow> js_heap \<Rightarrow> js_heap" where
  "maybe_reset en heap =
     (let (used, total) = en_usage en heap; threshold = max 1 (min (en_threshold_pct en) 100)
      in if total > 0 \<and> used * 100 \<ge> total * threshold then en_build_ctx en else heap)"

definition eval_wrapped_script ::
  "env \<Rightarrow> req_clock \<Rightarrow> js_heap \<Rightarrow> bytes \<Rightarrow> bytes list \<Rightarrow> server \<times> client \<Rightarrow> ((server \<times> client) \<times> resp_value) outcome" where
  "eval_wrapped_script en clk heap script args sc =
     (case split_keys_argv args of
        Panic \<Rightarrow> Panic
      | Done None \<Rightarrow> Done (sc, StaticError ''ERR invalid number of keys'')
      | Done (Some (ks, argv)) \<Rightarrow>
          (case run_proc en clk (cl_db (snd sc)) (en_eval en (maybe_reset en heap) script (keys_argv ks) (keys_argv argv)) 0 sc of
             Panic \<Rightarrow> Panic
           | Done ((sv, cl), heap, res) \<Rightarrow>
               Done ((sv, cl\<lparr>cl_script := Some heap\<rparr>),
                     case res of Inl exc \<Rightarrow> Error (js_to_cstring (en_js en) exc) | Inr v \<Rightarrow> js_to_resp (en_js en) v)))"

definition eval_script ::
  "env \<Rightarrow> req_clock \<Rightarrow> js_heap \<Rightarrow> bytes list \<Rightarrow> server \<times> client \<Rightarrow> ((server \<times> client) \<times> resp_value) outcome" where
  "eval_script en clk heap args sc =
     (case args of
        script # n # rest \<Rightarrow>
          if \<not> utf8_ok script then Done (sc, StaticError ''ERR invalid script'')
          else (let (sv, cl) = sc;
                    sv = sv\<lparr>sv_scripts := hm_put (sha1_hex script) script (sv_scripts sv)\<rparr>
                in eval_wrapped_script en clk heap script (n # rest) (sv, cl))
      | _ \<Rightarrow> Done (sc, StaticError (wrong_args ''EVAL'')))"

definition eval_script_sha ::
  "env \<Rightarrow> req_clock \<Rightarrow> js_heap \<Rightarrow> bytes list \<Rightarrow> server \<times> client \<Rightarrow> ((server \<times> client) \<times> resp_value) outcome" where
  "eval_script_sha en clk heap args sc =
     (case args of
        sha # n # rest \<Rightarrow>
          (case evalsha_lookup sha (sv_scripts (fst sc)) of
             Inl e \<Rightarrow> Done (sc, StaticError e)
           | Inr script \<Rightarrow> eval_wrapped_script en clk heap script (n # rest) sc)
      | _ \<Rightarrow> Done (sc, StaticError (wrong_args ''EVALSHA'')))"

definition handle_eval_command ::
  "env \<Rightarrow> req_clock \<Rightarrow> bytes \<Rightarrow> bytes list \<Rightarrow> server \<times> client \<Rightarrow> ((server \<times> client) \<times> resp_value) outcome" where
  "handle_eval_command en clk cmd args sc =
     (let (sv, cl) = sc;
          heap = (case cl_script cl of Some heap \<Rightarrow> heap | None \<Rightarrow> en_build_ctx en);
          sc = (sv, cl\<lparr>cl_script := Some heap\<rparr>)
      in if cmd = ''EVAL'' then eval_script en clk heap args sc else eval_script_sha en clk heap args sc)"

end
