(* ===== verification/Server.thy ===== *)
theory Server
  imports Script_Calls
begin

text \<open>
  What a connection does with one request (\<open>handle_client\<close> in \<open>src/muon_cache/server.rs\<close>): four frequent commands
  have short cuts past the dispatcher, the other commands go through a chain of handlers, and a
  connection queues commands between \<open>MULTI\<close> and \<open>EXEC\<close>.

  Requests of several connections interleave, and the source takes no lock around \<open>EXEC\<close>; so a
  connection that executes a transaction runs its queued commands one step at a time
  (\<open>exec_step\<close>), \<open>client_loop\<close> is a connection that is alone, and the theory \<open>Server_Safety\<close> lets the steps of all connections interleave.
\<close>

section \<open>Model: one command\<close>

text \<open>The chain of handlers, the same for a queued command and for one that runs at once.\<close>

definition run_command ::
  "env \<Rightarrow> req_clock \<Rightarrow> bytes \<Rightarrow> bytes list \<Rightarrow> server \<times> client \<Rightarrow> ((server \<times> client) \<times> resp_value) outcome" where
  "run_command en clk cmd args sc =
     (let (sv, cl) = sc
      in case handle_save_like_command (en_snapshot en) clk cmd args sv of
           Some (sv, r) \<Rightarrow> Done ((sv, cl), r)
         | None \<Rightarrow>
             (case handle_no_db_command cmd args (sv, cl) of
                Some out \<Rightarrow> Done out
              | None \<Rightarrow>
                  if cmd = ''FLUSHALL'' then
                    (let (sv, r) = handle_flushall_command args (no_persist sv) sv in Done ((sv, cl), r))
                  else if cmd = ''EVAL'' \<or> cmd = ''EVALSHA'' then handle_eval_command en clk cmd args (sv, cl)
                  else on_selected_db (handle_command (mk_request en (clk 0) (no_persist sv) cmd args cl)) (sv, cl)))"

section \<open>Model: one request of a connection\<close>

datatype fast_response = Value resp_value | BlobArray "bytes list"

definition handle_lrange_fast ::
  "env \<Rightarrow> req_clock \<Rightarrow> bytes list \<Rightarrow> server \<times> client \<Rightarrow> (server \<times> client) \<times> fast_response" where
  "handle_lrange_fast en clk args sc =
     (let (sv, cl) = sc
      in case args of
           key # start # stop # _ \<Rightarrow>
             (case db_list_range (clk 0 (cl_db cl) 0) (en_split en) key
                     (unwrap_or (parse_i64 start) 0) (unwrap_or (parse_i64 stop) (- 1)) (sv_dbs sv ! cl_db cl) of
                (d, r) \<Rightarrow>
                  ((sv\<lparr>sv_dbs := (sv_dbs sv)[cl_db cl := d]\<rparr>, cl),
                   case r of Ok vs \<Rightarrow> BlobArray vs | Err \<Rightarrow> Value (Error WRONGTYPE)))
         | _ \<Rightarrow> (sc, Value (arity_error ''LRANGE'')))"

text \<open>The short cuts for \<open>SET key value\<close>, \<open>GET key\<close> and \<open>HSET key field value\<close>.\<close>

definition on_db_of :: "(db \<Rightarrow> db \<times> 'r) \<Rightarrow> server \<times> client \<Rightarrow> (server \<times> client) \<times> 'r" where
  "on_db_of f sc =
     (let (sv, cl) = sc; (d, r) = f (sv_dbs sv ! cl_db cl)
      in ((sv\<lparr>sv_dbs := (sv_dbs sv)[cl_db cl := d]\<rparr>, cl), r))"

definition fast_path :: "req_clock \<Rightarrow> bytes \<Rightarrow> bytes list \<Rightarrow> server \<times> client \<Rightarrow> ((server \<times> client) \<times> fast_response) option" where
  "fast_path clk cmd args sc =
     (let now = clk 0 (cl_db (snd sc)) 0
      in if cmd = ''SET'' \<and> length args = 2 \<and> no_persist (fst sc) then
           Some (fst (on_db_of (db_set_string_ref (args ! 0) (args ! 1) None) sc), Value (StaticSimple ''OK''))
         else if cmd = ''GET'' \<and> length args = 1 then
           (case on_db_of (db_get_string now (args ! 0)) sc of (sc, r) \<Rightarrow> Some (sc, Value (string_reply r)))
         else if cmd = ''HSET'' \<and> length args = 3 \<and> no_persist (fst sc) then
           (case on_db_of (db_hash_set_ref now (args ! 0) (args ! 1) (args ! 2)) sc of (sc, r) \<Rightarrow>
              Some (sc, Value (case r of Ok is_new \<Rightarrow> flag is_new | Err \<Rightarrow> StaticError WRONGTYPE)))
         else None)"

text \<open>The commands of a transaction that are still to be run, and the replies so far.\<close>

record exec_run =
  ex_rest :: "(bytes \<times> bytes list) list"
  ex_results :: "resp_value list"

text \<open>What a command makes of the connection: a reply, or the start of a transaction's execution.\<close>

datatype action = Reply fast_response | Execute exec_run

definition done_reply :: "((server \<times> client) \<times> resp_value) outcome \<Rightarrow> ((server \<times> client) \<times> action) outcome" where
  "done_reply r = (case r of Panic \<Rightarrow> Panic | Done (sc, v) \<Rightarrow> Done (sc, Reply (Value v)))"

definition client_command ::
  "env \<Rightarrow> req_clock \<Rightarrow> bytes \<Rightarrow> bytes list \<Rightarrow> server \<times> client \<Rightarrow> ((server \<times> client) \<times> action) outcome" where
  "client_command en clk cmd args sc =
     (let (sv, cl) = sc; value = (\<lambda>sc r. Done (sc, Reply (Value r)))
      in if cmd = ''SUBSCRIBE'' then (let (sv, r) = handle_subscribe (cl_id cl) args sv in value (sv, cl) r)
         else if cmd = ''PUBLISH'' then (let (sv, r) = handle_publish args sv in value (sv, cl) r)
         else if \<not> cl_in_multi cl \<and> fast_path clk cmd args sc \<noteq> None then
           (case fast_path clk cmd args sc of Some (sc, r) \<Rightarrow> Done (sc, Reply r))
         else if cmd = ''LRANGE'' \<and> \<not> cl_in_multi cl then
           (let (sc, r) = handle_lrange_fast en clk args sc in Done (sc, Reply r))
         else if cl_in_multi cl \<and> cmd \<noteq> ''EXEC'' \<and> cmd \<noteq> ''DISCARD'' \<and> cmd \<noteq> ''MULTI'' then
           value (sv, cl\<lparr>cl_queued := cl_queued cl @ [(cmd, args)]\<rparr>) (StaticSimple ''QUEUED'')
         else if cmd = ''MULTI'' then
           (if cl_in_multi cl then value sc (StaticError ''ERR MULTI calls can not be nested'')
            else value (sv, cl\<lparr>cl_in_multi := True, cl_queued := []\<rparr>) (StaticSimple ''OK''))
         else if cmd = ''DISCARD'' then
           (if \<not> cl_in_multi cl then value sc (StaticError ''ERR DISCARD without MULTI'')
            else value (sv, cl\<lparr>cl_in_multi := False, cl_queued := []\<rparr>) (StaticSimple ''OK''))
         else if cmd = ''EXEC'' then
           (if \<not> cl_in_multi cl then value sc (StaticError ''ERR EXEC without MULTI'')
            else Done ((sv, cl\<lparr>cl_in_multi := False, cl_queued := []\<rparr>),
                       Execute \<lparr>ex_rest = cl_queued cl, ex_results = []\<rparr>))
         else done_reply (run_command en clk cmd args sc))"

text \<open>One step of the loop of \<open>EXEC\<close>.\<close>

definition exec_step ::
  "env \<Rightarrow> req_clock \<Rightarrow> exec_run \<Rightarrow> server \<times> client \<Rightarrow> ((server \<times> client) \<times> action) outcome" where
  "exec_step en clk ex sc =
     (case ex_rest ex of
        [] \<Rightarrow> Done (sc, Reply (Value (Array (ex_results ex))))
      | (cmd, args) # rest \<Rightarrow>
          (case run_command en clk cmd args sc of
             Panic \<Rightarrow> Panic
           | Done (sc, r) \<Rightarrow> Done (sc, Execute \<lparr>ex_rest = rest, ex_results = ex_results ex @ [r]\<rparr>)))"

text \<open>The whole of \<open>EXEC\<close> when no other connection comes in between.\<close>

fun exec_loop ::
  "env \<Rightarrow> (nat \<Rightarrow> req_clock) \<Rightarrow> nat \<Rightarrow> (bytes \<times> bytes list) list \<Rightarrow> resp_value list \<Rightarrow> server \<times> client \<Rightarrow>
   ((server \<times> client) \<times> resp_value) outcome" where
  "exec_loop en clks i [] results sc = Done (sc, Array results)"
| "exec_loop en clks i ((cmd, args) # rest) results sc =
     (case run_command en (clks i) cmd args sc of
        Panic \<Rightarrow> Panic
      | Done (sc, r) \<Rightarrow> exec_loop en clks (Suc i) rest (results @ [r]) sc)"

subsection \<open>The loop of a connection\<close>

text \<open>One request when no other connection comes in between; \<open>eclks\<close> are the clocks of the commands that an \<open>EXEC\<close>
  runs.\<close>

definition handle_request ::
  "env \<Rightarrow> req_clock \<Rightarrow> (nat \<Rightarrow> req_clock) \<Rightarrow> bytes \<Rightarrow> bytes list \<Rightarrow> server \<times> client \<Rightarrow>
   ((server \<times> client) \<times> fast_response) outcome" where
  "handle_request en clk eclks cmd args sc =
     (case client_command en clk cmd args sc of
        Panic \<Rightarrow> Panic
      | Done (sc, Reply r) \<Rightarrow> Done (sc, r)
      | Done (sc, Execute ex) \<Rightarrow>
          (case exec_loop en eclks 0 (ex_rest ex) (ex_results ex) sc of
             Panic \<Rightarrow> Panic
           | Done (sc, v) \<Rightarrow> Done (sc, Value v)))"

text \<open>The requests of a connection, with their replies. Once a \<open>QUIT\<close> has been answered, also with \<open>QUEUED\<close>, the
  connection ends: what the client has sent after it is not read.\<close>

fun client_loop ::
  "env \<Rightarrow> (nat \<Rightarrow> req_clock) \<Rightarrow> (nat \<Rightarrow> nat \<Rightarrow> req_clock) \<Rightarrow> nat \<Rightarrow> (bytes \<times> bytes list) list \<Rightarrow> server \<times> client \<Rightarrow>
   ((server \<times> client) \<times> fast_response list) outcome" where
  "client_loop en clks eclks i [] sc = Done (sc, [])"
| "client_loop en clks eclks i ((cmd, args) # rest) sc =
     (case handle_request en (clks i) (eclks i) cmd args sc of
        Panic \<Rightarrow> Panic
      | Done (sc, r) \<Rightarrow>
          if cmd = ''QUIT'' then Done (sc, [r])
          else (case client_loop en clks eclks (Suc i) rest sc of
                  Panic \<Rightarrow> Panic
                | Done (sc, rs) \<Rightarrow> Done (sc, r # rs)))"

subsection \<open>What is written\<close>

definition reply_bytes :: "fast_response \<Rightarrow> bytes" where
  "reply_bytes r =
     (case r of Value v \<Rightarrow> write_value_buf v [] | BlobArray vs \<Rightarrow> write_array_of_blobs_buf vs [])"

text \<open>After the reply the messages that have arrived are written.\<close>

definition drain_inbox :: "nat \<Rightarrow> server \<Rightarrow> server \<times> bytes" where
  "drain_inbox me sv =
     (let ib = sv_inbox sv me
      in (sv\<lparr>sv_inbox := (sv_inbox sv)(me := ib\<lparr>ib_queue := []\<rparr>)\<rparr>,
          concat (map (\<lambda>m. write_value_buf m []) (ib_queue ib))))"

text \<open>From the received value to the command: three ways to be refused before anything runs.\<close>

definition request_of_value :: "resp_value \<Rightarrow> (resp_value, bytes \<times> bytes list) sum" where
  "request_of_value v =
     (case value_to_args v of
        Inl e \<Rightarrow> Inl (Error e)
      | Inr [] \<Rightarrow> Inl (StaticError ''ERR empty command'')
      | Inr (name # args) \<Rightarrow>
          (case parse_command name of
             None \<Rightarrow> Inl (unknown_command (utf8_lossy name))
           | Some cmd \<Rightarrow> Inr (cmd, args)))"

end
