(* ===== verification/Script_Facts.thy ===== *)
theory Script_Facts
  imports Script_Calls
begin

text \<open>
  The fast path of \<open>redis.call\<close> against the dispatcher: on arguments that are numbers or UTF-8 strings the two
  give the same value to the script and leave the same database.
\<close>

section \<open>Numbers and strings\<close>

lemma digits_back_eq: "digits_back n out = (if n = 0 then out else dec_of_nat n @ out)"
proof (induction n out rule: digits_back.induct)
  case (1 n out)
  have "n < 10 \<Longrightarrow> n div 10 = 0" "n < 10 \<Longrightarrow> n mod 10 = n" by simp_all
  moreover have "n div 10 = 0 \<Longrightarrow> n < 10" by linarith
  ultimately show ?case
    using 1 by (cases "n = 0") (auto simp: digits_back.simps [of n] digits_back.simps [of 0] dec_of_nat.simps [of n])
qed

lemma i32_to_stack_bytes_eq: "i32_to_stack_bytes n = i64_to_string n" "int_to_decimal_bytes n = i64_to_string n"
  by (auto simp: i32_to_stack_bytes_def int_to_decimal_bytes_def i64_to_string_def digits_back_eq
      dec_of_nat.simps [of 0] digit_char_def)

lemma utf8_ok_i64: "utf8_ok (i64_to_string n)"
proof (rule utf8_ok_ascii)
  have "list_all (byte_in 0 0x7F) (dec_of_nat k)" for k
    using digits_dec_of_nat [of k] by (auto simp: list_all_iff is_digit_iff byte_in_def)
  then show "list_all (byte_in 0 0x7F) (i64_to_string n)"
    by (auto simp: i64_to_string_def byte_in_def)
qed

lemma i64_from_str_in_i64: "i64_from_str s = Ok n \<Longrightarrow> in_i64 n"
  by (auto dest!: i64_from_str_OkD simp: signed_decimal_def)

lemma in_i64_0: "in_i64 0"
  by (simp add: in_i64_iff)

text \<open>The arguments for which the two conversions agree.\<close>

fun plain :: "js_val \<Rightarrow> bool" where
  "plain (JInt n) = in_i64 n"
| "plain (JStr s) = utf8_ok s"
| "plain _ = False"

lemma plain_bytes: "plain v \<Longrightarrow> js_to_cstring je v = js_value_as_bytes v"
  by (cases v) (simp_all add: js_to_cstring_def js_value_as_bytes_def i32_to_stack_bytes_eq utf8_ok_i64)

lemma plain_bytes_map: "\<forall>v \<in> set vs. plain v \<Longrightarrow> map (js_to_cstring je) vs = map js_value_as_bytes vs"
  by (simp add: plain_bytes)

lemma plain_i64: "plain v \<Longrightarrow> js_i64_arg v = unwrap_or (parse_i64 (js_value_as_bytes v)) 0"
  by (cases v) (simp_all add: js_i64_arg_def js_value_as_bytes_def i32_to_stack_bytes_eq parse_i64_def utf8_ok_i64
      i64_from_str_to_string unwrap_or_def)

section \<open>Commands of the tables\<close>

definition tables_list :: "(bytes \<times> (request \<Rightarrow> hstate \<Rightarrow> hstate \<times> resp_value)) list list" where
  "tables_list = [key_table, string_table, hash_table, list_table, set_table, zset_table, stream_table]"

lemma data_command_of_table:
  assumes "i < 7" and "(rq_cmd rq, h) \<in> set (tables_list ! i)"
  shows "data_command rq st = Some (Done (h rq st))"
proof -
  have "length tables_list = 7" by (simp add: tables_list_def)
  with assms(1) have len: "length tables_list = 7" "tables_list ! i \<in> set tables_list" by simp_all
  have "distinct (map fst tb)" if "tb \<in> set tables_list" for tb
    using group_names_distinct that unfolding group_names_def tables_list_def by auto
  then have key: "map_of (tables_list ! i) (rq_cmd rq) = Some h"
    using assms(2) len(2) by simp
  have no: "rq_cmd rq \<noteq> ''SCAN''" "rq_cmd rq \<noteq> ''LTRIM''"
    using assms(2) len(2) by (auto simp: tables_list_def tables)
  have "group_results rq st = map (\<lambda>tb. map_option (\<lambda>h. Done (h rq st)) (map_of tb (rq_cmd rq))) tables_list"
    using no by (simp add: group_results_def done_of_def key_cmds_def string_cmds_def hash_cmds_def list_cmds_def
        set_cmds_def zset_cmds_def stream_cmds_def option.map_comp comp_def tables_list_def)
  then have "group_results rq st ! i = Some (Done (h rq st))"
    using assms(1) len(1) key by simp
  with assms(1) show ?thesis by (auto simp: data_command_groups)
qed

lemma log_cmd_skip: "rq_skip_aof rq \<Longrightarrow> log_cmd rq st = st"
  by (simp add: log_cmd_def)

text \<open>The names that the connection or the script handles before the dispatcher are not in the tables.\<close>

lemma tables_front:
  assumes "i < 7" and "(cmd, h) \<in> set (tables_list ! i)"
  shows "cmd \<notin> {''SAVE'', ''BGSAVE'', ''PING'', ''ECHO'', ''SELECT'', ''INFO'', ''SCRIPT'', ''CONFIG'', ''FUNCTION'', ''CLIENT'',
    ''SLOWLOG'', ''REPLICAOF'', ''QUIT'', ''FLUSHALL'', ''EVAL'', ''EVALSHA''}"
proof -
  have "tables_list ! i \<in> set tables_list" using assms(1) by (simp add: tables_list_def nth_mem del: set_simps)
  then show ?thesis using assms(2) by (auto simp: tables_list_def tables)
qed

lemma selected_table:
  assumes "i < 7" and "(rq_cmd rq, h) \<in> set (tables_list ! i)"
  shows "on_selected_db (handle_command rq) (sv, cl) =
    (case h rq \<lparr>h_db = sv_dbs sv ! cl_db cl, h_persist = sv_persist sv\<rparr> of
       (st, r) \<Rightarrow> Done ((sv\<lparr>sv_dbs := (sv_dbs sv)[cl_db cl := h_db st], sv_persist := h_persist st\<rparr>, cl), r))"
  using data_command_of_table [OF assms]
  by (simp add: on_selected_db_def handle_command_def case_prod_beta)

lemma no_db_table:
  assumes "i < 7" and "(cmd, h) \<in> set (tables_list ! i)"
  shows "handle_no_db_command cmd args sc = None"
  using tables_front [OF assms] by (simp add: handle_no_db_command_def case_prod_beta)

lemma slow_call_table:
  assumes "i < 7" and "(cmd, h) \<in> set (tables_list ! i)" and "parse_command name = Some cmd"
  shows "slow_call en clk pcall name vals (sv, cl) =
    (case h (mk_request en clk True cmd (map (js_to_cstring (en_js en)) vals) cl)
            \<lparr>h_db = sv_dbs sv ! cl_db cl, h_persist = sv_persist sv\<rparr> of
       (st, r) \<Rightarrow> Done ((sv\<lparr>sv_dbs := (sv_dbs sv)[cl_db cl := h_db st], sv_persist := h_persist st\<rparr>, cl),
                     resp_to_js (en_js en) pcall r))"
  using no_db_table [OF assms(1,2)] assms(2)
    selected_table [OF assms(1), of "mk_request en clk True cmd (map (js_to_cstring (en_js en)) vals) cl" h sv cl]
  by (simp add: slow_call_def assms(3) Let_def mk_request_def case_prod_beta)

lemma in_tables:
  "(''GET'', cmd_get) \<in> set (tables_list ! 1)"
  "(''SET'', cmd_set) \<in> set (tables_list ! 0)"
  "(''DEL'', cmd_del) \<in> set (tables_list ! 0)"
  "(''HSET'', cmd_hset) \<in> set (tables_list ! 2)"
  "(''HGET'', cmd_hget) \<in> set (tables_list ! 2)"
  "(''INCR'', cmd_incr) \<in> set (tables_list ! 1)"
  "(''INCRBY'', cmd_incrby) \<in> set (tables_list ! 1)"
  "(''DECRBY'', cmd_decrby) \<in> set (tables_list ! 1)"
  "(''LPUSH'', cmd_push) \<in> set (tables_list ! 3)"
  "(''RPUSH'', cmd_push) \<in> set (tables_list ! 3)"
  "(''LRANGE'', cmd_lrange) \<in> set (tables_list ! 3)"
  "(''SADD'', cmd_sadd) \<in> set (tables_list ! 4)"
  "(''SMEMBERS'', cmd_smembers) \<in> set (tables_list ! 4)"
  by (simp_all add: tables_list_def tables)

lemma parse_ignore_case:
  assumes "eq_ignore_ascii_case name cmd" and "cmd \<in> set COMMANDS" and "map to_ascii_uppercase cmd = cmd" and "length cmd \<le> 16"
  shows "parse_command name = Some cmd"
proof -
  have "length name = length cmd" using assms(1) by (metis eq_ignore_ascii_case_def length_map)
  with assms show ?thesis by (simp add: parse_command_def eq_ignore_ascii_case_def)
qed

section \<open>The fast path and the dispatcher\<close>

text \<open>The call was answered with the same value, and the selected database, if not the same term, is
  well-formed and maps the same keys to the same entries; nothing else changed.\<close>

definition same_call :: "((server \<times> client) \<times> js_val) outcome \<Rightarrow> server \<times> client \<Rightarrow> db \<times> js_val \<Rightarrow> bool" where
  "same_call out sc fast \<longleftrightarrow>
     (\<exists>d. out = Done (((fst sc)\<lparr>sv_dbs := (sv_dbs (fst sc))[cl_db (snd sc) := d]\<rparr>, snd sc), snd fast) \<and>
        db_ok d \<and> db_ok (fst fast) \<and> db_get d = db_get (fst fast))"

lemma same_callI:
  assumes tab: "i < 7" "(cmd, h) \<in> set (tables_list ! i)" "parse_command name = Some cmd"
    and loc: "db_local k f g" "db_local k f' g" and ok: "db_ok (sv_dbs sv ! cl_db cl)"
    and h: "\<And>st. h (mk_request en clk True cmd (map (js_to_cstring (en_js en)) vals) cl) st =
      (st\<lparr>h_db := fst (f (h_db st))\<rparr>, body (snd (f (h_db st))))"
    and body: "\<And>r. resp_to_js (en_js en) pcall (body r) = body' r"
  shows "same_call (slow_call en clk pcall name vals (sv, cl)) (sv, cl)
    (case f' (sv_dbs sv ! cl_db cl) of (d, r) \<Rightarrow> (d, body' r))"
proof -
  note l = db_localD [OF loc(1) ok] db_localD [OF loc(2) ok]
  show ?thesis
    unfolding same_call_def slow_call_table [OF tab]
    by (rule exI [of _ "fst (f (sv_dbs sv ! cl_db cl))"]) (simp add: h body l case_prod_beta)
qed

lemma mk_request_simps [simp]:
  "rq_args (mk_request en clk skip cmd args cl) = args"
  "rq_cmd (mk_request en clk skip cmd args cl) = cmd"
  "rq_clock (mk_request en clk skip cmd args cl) = clk (cl_db cl)"
  "rq_split (mk_request en clk skip cmd args cl) = en_split en"
  "log_cmd (mk_request en clk True cmd args cl) st = st"
  by (simp_all add: mk_request_def log_cmd_skip)

lemmas one_call_simps = on_db_eq plain_bytes plain_i64 case_prod_beta with_key_def js_int_result_def js_string_result_def js_list_result_def
  js_incr_result_def Let_def

lemma same_get:
  assumes "db_ok (sv_dbs sv ! cl_db cl)" and "plain k" and "parse_command name = Some ''GET''"
  shows "same_call (slow_call en clk pcall name [k] (sv, cl)) (sv, cl)
    (js_string_result pcall (db_get_string (clk (cl_db cl) 0) (js_value_as_bytes k) (sv_dbs sv ! cl_db cl)))"
  unfolding js_string_result_def
  by (rule same_callI [OF _ in_tables(1) assms(3) db_local_get_string db_local_get_string assms(1)])
    (auto simp: one_call_simps assms(2) cmd_get_def string_reply_def blob_or_null_def wrongtype_error_def split: result.split option.split)

lemma resp_to_js_results:
  "resp_to_js je pcall (int_reply r) = (case r of Ok n \<Rightarrow> js_new_int64 je n | Err \<Rightarrow> wrongtype_error pcall)"
  "resp_to_js je pcall (string_reply s) = (case s of Ok (Some v) \<Rightarrow> JStr v | Ok None \<Rightarrow> JNull | Err \<Rightarrow> wrongtype_error pcall)"
  "resp_to_js je pcall (blobs_reply l) = (case l of Ok vs \<Rightarrow> JArr (map JStr vs) | Err \<Rightarrow> wrongtype_error pcall)"
  by (auto simp: int_reply_def string_reply_def blob_or_null_def blobs_reply_def wrongtype_error_def
      split: result.split option.split)

lemma same_set:
  assumes "db_ok (sv_dbs sv ! cl_db cl)" and "plain k" and "plain v" and "parse_command name = Some ''SET''"
  shows "same_call (slow_call en clk pcall name [k, v] (sv, cl)) (sv, cl)
    (fst (db_set_string_from_slices (js_value_as_bytes k) (js_value_as_bytes v) None (sv_dbs sv ! cl_db cl)), JStr ''OK'')"
  using same_callI [OF _ in_tables(2) assms(4) db_local_set_string_ref db_local_set_string_from_slices assms(1),
      where body = "\<lambda>_. StaticSimple ''OK''" and body' = "\<lambda>_. JStr ''OK''"]
  by (simp add: one_call_simps assms(2,3) cmd_set_def)

lemma same_hget:
  assumes "db_ok (sv_dbs sv ! cl_db cl)" and "plain k" and "plain f" and "parse_command name = Some ''HGET''"
  shows "same_call (slow_call en clk pcall name [k, f] (sv, cl)) (sv, cl)
    (js_string_result pcall (db_hash_get (clk (cl_db cl) 0) (js_value_as_bytes k) (js_value_as_bytes f) (sv_dbs sv ! cl_db cl)))"
  unfolding js_string_result_def
  by (rule same_callI [OF _ in_tables(5) assms(4) db_local_hash_get db_local_hash_get assms(1)])
    (auto simp: one_call_simps assms(2,3) cmd_hget_def resp_to_js_results)

lemma same_incr:
  assumes "db_ok (sv_dbs sv ! cl_db cl)" and "in_i64 delta" and tab: "i < 7" "(cmd, h) \<in> set (tables_list ! i)"
    "parse_command name = Some cmd"
    and "\<And>st. h (mk_request en clk True cmd (map (js_to_cstring (en_js en)) vals) cl) st =
      incr_reply (mk_request en clk True cmd (map (js_to_cstring (en_js en)) vals) cl) (js_value_as_bytes k) delta st"
  shows "same_call (slow_call en clk pcall name vals (sv, cl)) (sv, cl)
    (js_incr_result (en_js en) pcall (db_incr_by (clk (cl_db cl) 0) (js_value_as_bytes k) delta (sv_dbs sv ! cl_db cl)))"
  unfolding js_incr_result_def
  by (rule same_callI [OF tab db_local_incr_by [OF assms(2)] db_local_incr_by [OF assms(2)] assms(1),
        where body = "\<lambda>r. case r of Ok n \<Rightarrow> Integer n | Err \<Rightarrow> StaticError NOT_INTEGER"])
    (auto simp: one_call_simps assms(6) incr_reply_def int_range_error_def split: result.split)

lemma same_push:
  assumes "db_ok (sv_dbs sv ! cl_db cl)" and "plain k" and "\<forall>v \<in> set vs. plain v" and "vs \<noteq> []"
    and "parse_command name = Some cmd" and "(cmd = ''LPUSH'' \<and> left) \<or> (cmd = ''RPUSH'' \<and> \<not> left)"
  shows "same_call (slow_call en clk pcall name (k # vs) (sv, cl)) (sv, cl)
    (js_int_result (en_js en) pcall
      (db_list_push (clk (cl_db cl) 0) (js_value_as_bytes k) (map js_value_as_bytes vs) left (sv_dbs sv ! cl_db cl)))"
proof -
  have tab: "(cmd, cmd_push) \<in> set (tables_list ! 3)" using assms(6) in_tables(9,10) by auto
  obtain w ws where vs: "vs = w # ws" using assms(4) by (cases vs) auto
  show ?thesis
    unfolding js_int_result_def
    by (rule same_callI [OF _ tab assms(5) db_local_list_push db_local_list_push assms(1), where body = int_reply])
      (use assms(2,3,6) in \<open>auto simp: one_call_simps plain_bytes_map vs cmd_push_def resp_to_js_results int_reply_def wrongtype_error_def split: result.split\<close>)
qed

lemma same_sadd:
  assumes "db_ok (sv_dbs sv ! cl_db cl)" and "plain k" and "\<forall>v \<in> set vs. plain v" and "vs \<noteq> []"
    and "parse_command name = Some ''SADD''"
    and "db_local (js_value_as_bytes k) f' (spec_set_add (clk (cl_db cl) 0) (map js_value_as_bytes vs))"
  shows "same_call (slow_call en clk pcall name (k # vs) (sv, cl)) (sv, cl)
    (js_int_result (en_js en) pcall (f' (sv_dbs sv ! cl_db cl)))"
proof -
  obtain w ws where vs: "vs = w # ws" using assms(4) by (cases vs) auto
  have ne: "map js_value_as_bytes vs \<noteq> []" using assms(4) by simp
  show ?thesis
    unfolding js_int_result_def
    by (rule same_callI [OF _ in_tables(12) assms(5) db_local_set_add [OF ne] assms(6,1), where body = int_reply])
      (use assms(2,3) in \<open>auto simp: one_call_simps plain_bytes_map vs cmd_sadd_def resp_to_js_results int_reply_def wrongtype_error_def split: result.split\<close>)
qed

lemma same_lrange:
  assumes "db_ok (sv_dbs sv ! cl_db cl)" and "plain k" and "plain a" and "plain b"
    and "parse_i64 (js_value_as_bytes b) \<noteq> None" and "parse_command name = Some ''LRANGE''"
  shows "same_call (slow_call en clk pcall name [k, a, b] (sv, cl)) (sv, cl)
    (js_list_result pcall (db_list_range (clk (cl_db cl) 0) (en_split en) (js_value_as_bytes k)
      (js_i64_arg a) (js_i64_arg b) (sv_dbs sv ! cl_db cl)))"
  unfolding js_list_result_def
  by (rule same_callI [OF _ in_tables(11) assms(6) db_local_list_range db_local_list_range assms(1), where body = blobs_reply])
    (use assms(2-5) in \<open>auto simp: one_call_simps cmd_lrange_def resp_to_js_results unwrap_or_def\<close>)

lemma same_smembers:
  assumes "db_ok (sv_dbs sv ! cl_db cl)" and "plain k" and "parse_command name = Some ''SMEMBERS''"
  shows "same_call (slow_call en clk pcall name [k] (sv, cl)) (sv, cl)
    (js_list_result pcall (db_set_members (clk (cl_db cl) 0) (js_value_as_bytes k) (sv_dbs sv ! cl_db cl)))"
  unfolding js_list_result_def
  by (rule same_callI [OF _ in_tables(13) assms(3) db_local_set_members db_local_set_members assms(1), where body = blobs_reply])
    (auto simp: one_call_simps assms(2) cmd_smembers_def resp_to_js_results)

text \<open>The two loops.\<close>

lemma unchanged_hstate:
  "db_ok (h_db st) \<Longrightarrow> db_get (h_db st) = db_get d \<Longrightarrow> \<exists>d'. st = st\<lparr>h_db := d'\<rparr> \<and> db_ok d' \<and> db_get d' = db_get d"
  by (rule exI [of _ "h_db st"]) simp

lemma fast_hset_loop_same:
  assumes "\<forall>v \<in> set vs. plain v" and "db_ok d" and "db_ok (h_db st)" and "db_get (h_db st) = db_get d"
  shows "\<exists>d'. hset_loop clock i key (map js_value_as_bytes vs) n st =
      (st\<lparr>h_db := d'\<rparr>, snd (fast_hset_loop clock i key vs n d)) \<and>
    db_ok d' \<and> db_ok (fst (fast_hset_loop clock i key vs n d)) \<and> db_get d' = db_get (fst (fast_hset_loop clock i key vs n d))"
  using assms
proof (induction clock i key vs n d arbitrary: st rule: fast_hset_loop.induct)
  case (1 clock i key f v rest n d)
  let ?f = "js_value_as_bytes f" and ?v = "js_value_as_bytes v"
  note ref = db_localD [OF db_local_hash_set_ref 1(4), of "clock i" key ?f ?v]
  note own = db_localD [OF db_local_hash_set 1(3), of "clock i" key ?f ?v]
  obtain d1 r where d1: "db_hash_set (clock i) key ?f ?v d = (d1, r)" by fastforce
  obtain d2 r2 where d2: "db_hash_set_ref (clock i) key ?f ?v (h_db st) = (d2, r2)" by fastforce
  have eq: "r2 = r" "db_ok d1" "db_ok d2" "db_get d2 = db_get d1" using ref own d1 d2 1(5) by simp_all
  show ?case
  proof (cases r)
    case (Ok is_new)
    with 1(1) [OF d1 [symmetric] Ok _ eq(2), of "st\<lparr>h_db := d2\<rparr>"] 1(2) eq show ?thesis
      by (simp add: d1 d2 on_db_eq)
  next
    case Err
    with eq d1 d2 show ?thesis by (auto simp: on_db_eq)
  qed
qed (simp_all add: unchanged_hstate)

lemma same_hset_one:
  assumes "db_ok (sv_dbs sv ! cl_db cl)" and "plain k" "plain f" "plain v" and "parse_command name = Some ''HSET''"
  shows "same_call (slow_call en clk pcall name [k, f, v] (sv, cl)) (sv, cl)
    (case db_hash_set_bytes (clk (cl_db cl) 0) (js_value_as_bytes k) (js_value_as_bytes f) (js_value_as_bytes v)
            (sv_dbs sv ! cl_db cl) of
       (d, r) \<Rightarrow> (d, case r of Ok is_new \<Rightarrow> js_new_int64 (en_js en) (if is_new then 1 else 0) | Err \<Rightarrow> wrongtype_error pcall))"
  by (rule same_callI [OF _ in_tables(4) assms(5) db_local_hash_set_ref db_local_hash_set_bytes assms(1),
        where body = "\<lambda>r. case r of Ok b \<Rightarrow> Integer (if b then 1 else 0) | Err \<Rightarrow> StaticError WRONGTYPE"])
    (use assms(2-4) in \<open>auto simp: one_call_simps cmd_hset_def wrongtype_error_def split: result.split\<close>)

lemma same_hset_many:
  assumes "db_ok (sv_dbs sv ! cl_db cl)" and "plain k" and "\<forall>v \<in> set vs. plain v" and "vs \<noteq> []" "even (length vs)"
    and "parse_command name = Some ''HSET''"
  shows "same_call (slow_call en clk pcall name (k # vs) (sv, cl)) (sv, cl)
    (js_int_result (en_js en) pcall (fast_hset_loop (clk (cl_db cl)) 0 (js_value_as_bytes k) vs 0 (sv_dbs sv ! cl_db cl)))"
proof -
  have args: "js_to_cstring je k = js_value_as_bytes k" "map (js_to_cstring je) vs = map js_value_as_bytes vs" for je
    using assms(2,3) by (simp_all add: plain_bytes)
  have len: "\<not> (Suc (length vs) < 3 \<or> Suc (length vs) mod 2 = 0)"
    using assms(4,5) by (cases vs) (auto simp: numeral_eq_Suc, presburger)
  obtain d' where d': "hset_loop (clk (cl_db cl)) 0 (js_value_as_bytes k) (map js_value_as_bytes vs) 0
      \<lparr>h_db = sv_dbs sv ! cl_db cl, h_persist = sv_persist sv\<rparr> =
      (\<lparr>h_db = d', h_persist = sv_persist sv\<rparr>,
       snd (fast_hset_loop (clk (cl_db cl)) 0 (js_value_as_bytes k) vs 0 (sv_dbs sv ! cl_db cl)))"
    "db_ok d'" "db_ok (fst (fast_hset_loop (clk (cl_db cl)) 0 (js_value_as_bytes k) vs 0 (sv_dbs sv ! cl_db cl)))"
    "db_get d' = db_get (fst (fast_hset_loop (clk (cl_db cl)) 0 (js_value_as_bytes k) vs 0 (sv_dbs sv ! cl_db cl)))"
    using fast_hset_loop_same [OF assms(3,1), of "\<lparr>h_db = sv_dbs sv ! cl_db cl, h_persist = sv_persist sv\<rparr>"
        "clk (cl_db cl)" 0 "js_value_as_bytes k" 0] assms(1) by auto
  show ?thesis
    unfolding same_call_def slow_call_table [OF _ in_tables(4) assms(6), simplified]
    by (rule exI [of _ d'])
      (use len d' in \<open>simp add: args cmd_hset_def js_int_result_def case_prod_beta wrongtype_error_def split: result.split\<close>)
qed

lemma fast_del_loop_same:
  assumes "\<forall>v \<in> set vs. js_value_as_bytes v \<noteq> []" and "db_ok d" and "h_db st = d"
  shows "del_loop (map js_value_as_bytes vs) n st = (st\<lparr>h_db := fst (fast_del_loop vs n d)\<rparr>, snd (fast_del_loop vs n d)) \<and>
    db_ok (fst (fast_del_loop vs n d))"
  using assms
proof (induction vs n d arbitrary: st rule: fast_del_loop.induct)
  case (2 v rest n d)
  obtain d' b where d: "db_remove (js_value_as_bytes v) d = (d', b)" by fastforce
  have "db_ok d'" using db_localD(1) [OF db_local_remove 2(4), of "js_value_as_bytes v"] d by simp
  with 2(2) [OF refl _ d [symmetric], of "st\<lparr>h_db := d'\<rparr>"] 2(3,5) d show ?case by (simp add: on_db_eq)
qed auto

lemma same_del:
  assumes "db_ok (sv_dbs sv ! cl_db cl)" and "\<forall>v \<in> set vs. plain v \<and> js_value_as_bytes v \<noteq> []"
    and "parse_command name = Some ''DEL''"
  shows "same_call (slow_call en clk pcall name vs (sv, cl)) (sv, cl)
    (case fast_del_loop vs 0 (sv_dbs sv ! cl_db cl) of (d, removed) \<Rightarrow> (d, js_new_int64 (en_js en) removed))"
proof -
  have args: "map (js_to_cstring je) vs = map js_value_as_bytes vs" for je
    using assms(2) by (simp add: plain_bytes)
  have "\<forall>v \<in> set vs. js_value_as_bytes v \<noteq> []" using assms(2) by blast
  from fast_del_loop_same [OF this assms(1), of "\<lparr>h_db = sv_dbs sv ! cl_db cl, h_persist = sv_persist sv\<rparr>" 0]
  show ?thesis
    unfolding same_call_def slow_call_table [OF _ in_tables(3) assms(3), simplified]
    by (simp add: args cmd_del_def case_prod_beta) blast
qed

end
