(* ===== verification/Script_Equiv.thy ===== *)
theory Script_Equiv
  imports Script_Facts
begin

text \<open>
  The equivalence of the fast path of \<open>redis.call\<close> with the dispatcher, put together from the calls one by one.
\<close>

section \<open>The five groups of names\<close>

lemma len_args:
  "length xs = Suc 0 \<longleftrightarrow> (\<exists>a. xs = [a])" "length xs = 2 \<longleftrightarrow> (\<exists>a b. xs = [a, b])" "length xs = 3 \<longleftrightarrow> (\<exists>a b c. xs = [a, b, c])"
  by (auto simp: length_Suc_conv numeral_eq_Suc)

lemma with_key_SomeD: "with_key args f = Some out \<Longrightarrow> out = f (js_value_as_bytes (args ! 0))"
  by (auto simp: with_key_def Let_def split: if_splits)

lemma fast_names:
  "eq_ignore_ascii_case name cmd \<Longrightarrow> cmd \<in> {''GET'', ''SET'', ''DEL'', ''HSET'', ''HGET'', ''INCR'', ''SADD'', ''LPUSH'', ''RPUSH'',
     ''LRANGE'', ''INCRBY'', ''DECRBY'', ''SMEMBERS''} \<Longrightarrow> parse_command name = Some cmd"
  by (rule parse_ignore_case) (auto simp: COMMANDS_def to_ascii_uppercase_def is_ascii_lowercase_def)

lemma fast_call_3_same:
  assumes "fast_call_3 (en_js en) (clk (cl_db cl)) pcall name vals (sv_dbs sv ! cl_db cl) = Some out"
    and "db_ok (sv_dbs sv ! cl_db cl)" and "\<forall>v \<in> set vals. plain v"
    and "parse_command name = Some ''DEL'' \<Longrightarrow> \<forall>v \<in> set vals. js_value_as_bytes v \<noteq> []"
  shows "same_call (slow_call en clk pcall name vals (sv, cl)) (sv, cl) out"
proof -
  from assms(1) consider
    (get) k where "parse_command name = Some ''GET''" "vals = [k]"
      "out = js_string_result pcall (db_get_string (clk (cl_db cl) 0) (js_value_as_bytes k) (sv_dbs sv ! cl_db cl))"
  | (set) k v where "parse_command name = Some ''SET''" "vals = [k, v]"
      "out = (fst (db_set_string_from_slices (js_value_as_bytes k) (js_value_as_bytes v) None (sv_dbs sv ! cl_db cl)), JStr ''OK'')"
  | (del) "parse_command name = Some ''DEL''"
      "out = (case fast_del_loop vals 0 (sv_dbs sv ! cl_db cl) of (d, removed) \<Rightarrow> (d, js_new_int64 (en_js en) removed))"
    by (auto simp: fast_call_3_def len_args fast_names split: if_splits dest!: with_key_SomeD)
  then show ?thesis
  proof cases
    case get
    with same_get [OF assms(2) _ get(1)] assms(3) show ?thesis by simp
  next
    case set
    with same_set [OF assms(2) _ _ set(1)] assms(3) show ?thesis by simp
  next
    case del
    with same_del [OF assms(2) _ del(1)] assms(3) assms(4) [OF del(1)] show ?thesis by simp
  qed
qed

lemma six_cases:
  "\<lbrakk>A \<Longrightarrow> P; \<not> A \<Longrightarrow> B \<Longrightarrow> P; \<not> A \<Longrightarrow> \<not> B \<Longrightarrow> C \<Longrightarrow> P; \<not> A \<Longrightarrow> \<not> B \<Longrightarrow> \<not> C \<Longrightarrow> D \<Longrightarrow> P;
    \<not> A \<Longrightarrow> \<not> B \<Longrightarrow> \<not> C \<Longrightarrow> \<not> D \<Longrightarrow> E \<Longrightarrow> P; \<not> A \<Longrightarrow> \<not> B \<Longrightarrow> \<not> C \<Longrightarrow> \<not> D \<Longrightarrow> \<not> E \<Longrightarrow> F \<Longrightarrow> P;
    \<not> A \<Longrightarrow> \<not> B \<Longrightarrow> \<not> C \<Longrightarrow> \<not> D \<Longrightarrow> \<not> E \<Longrightarrow> \<not> F \<Longrightarrow> P\<rbrakk> \<Longrightarrow> P"
  by blast

lemma fast_call_4_same:
  assumes "fast_call_4 (en_js en) (clk (cl_db cl)) pcall name vals (sv_dbs sv ! cl_db cl) = Some out"
    and "db_ok (sv_dbs sv ! cl_db cl)" and "\<forall>v \<in> set vals. plain v"
  shows "same_call (slow_call en clk pcall name vals (sv, cl)) (sv, cl) out"
proof -
  let ?A = "eq_ignore_ascii_case name ''HSET'' \<and> length vals = 3"
  let ?B = "eq_ignore_ascii_case name ''HSET'' \<and> length vals \<ge> 5 \<and> odd (length vals)"
  let ?C = "eq_ignore_ascii_case name ''HGET'' \<and> length vals = 2"
  let ?D = "eq_ignore_ascii_case name ''INCR'' \<and> length vals = 1"
  let ?E = "eq_ignore_ascii_case name ''SADD'' \<and> length vals = 2"
  let ?F = "eq_ignore_ascii_case name ''SADD'' \<and> length vals \<ge> 3"
  note def = assms(1) [unfolded fast_call_4_def]
  show ?thesis
  proof (cases rule: six_cases [where A = ?A and B = ?B and C = ?C and D = ?D and E = ?E and F = ?F])
    case 1
    then obtain k f v where vals: "vals = [k, f, v]" by (auto simp: len_args)
    from def 1 have "out = (case db_hash_set_bytes (clk (cl_db cl) 0) (js_value_as_bytes k) (js_value_as_bytes f) (js_value_as_bytes v)
            (sv_dbs sv ! cl_db cl) of
       (d, r) \<Rightarrow> (d, case r of Ok is_new \<Rightarrow> js_new_int64 (en_js en) (if is_new then 1 else 0) | Err \<Rightarrow> wrongtype_error pcall))"
      by (simp only: simp_thms if_True vals) (drule with_key_SomeD, simp)
    moreover have "same_call (slow_call en clk pcall name [k, f, v] (sv, cl)) (sv, cl)
      (case db_hash_set_bytes (clk (cl_db cl) 0) (js_value_as_bytes k) (js_value_as_bytes f) (js_value_as_bytes v)
            (sv_dbs sv ! cl_db cl) of
       (d, r) \<Rightarrow> (d, case r of Ok is_new \<Rightarrow> js_new_int64 (en_js en) (if is_new then 1 else 0) | Err \<Rightarrow> wrongtype_error pcall))"
      by (rule same_hset_one [OF assms(2)]) (use 1 assms(3) fast_names in \<open>simp_all add: vals\<close>)
    ultimately show ?thesis by (simp only: vals)
  next
    case 2
    have len: "length vals \<ge> 5" "odd (length vals)" using 2(2) by blast+
    from len(1) obtain k vs where "vals = k # vs" by (cases vals) auto
    with len have vals: "vals = k # vs" "vs \<noteq> []" "even (length vs)" by auto
    from def 2 have "out = js_int_result (en_js en) pcall
        (fast_hset_loop (clk (cl_db cl)) 0 (js_value_as_bytes k) vs 0 (sv_dbs sv ! cl_db cl))"
      by (simp only: simp_thms if_True if_False) (drule with_key_SomeD, simp add: vals)
    moreover have "same_call (slow_call en clk pcall name (k # vs) (sv, cl)) (sv, cl) (js_int_result (en_js en) pcall
        (fast_hset_loop (clk (cl_db cl)) 0 (js_value_as_bytes k) vs 0 (sv_dbs sv ! cl_db cl)))"
      by (rule same_hset_many [OF assms(2) _ _ vals(2,3)]) (use 2 assms(3) fast_names in \<open>simp_all add: vals(1)\<close>)
    ultimately show ?thesis by (simp only: vals(1))
  next
    case 3
    then obtain k f where vals: "vals = [k, f]" by (auto simp: len_args)
    from def 3 have "out = js_string_result pcall
        (db_hash_get (clk (cl_db cl) 0) (js_value_as_bytes k) (js_value_as_bytes f) (sv_dbs sv ! cl_db cl))"
      by (simp only: simp_thms if_True if_False) (drule with_key_SomeD, simp add: vals)
    moreover have "same_call (slow_call en clk pcall name [k, f] (sv, cl)) (sv, cl) (js_string_result pcall
        (db_hash_get (clk (cl_db cl) 0) (js_value_as_bytes k) (js_value_as_bytes f) (sv_dbs sv ! cl_db cl)))"
      by (rule same_hget [OF assms(2)]) (use 3 assms(3) fast_names in \<open>simp_all add: vals\<close>)
    ultimately show ?thesis by (simp only: vals)
  next
    case 4
    then obtain k where vals: "vals = [k]" by (auto simp: len_args)
    from def 4 have out: "out = js_incr_result (en_js en) pcall (db_incr_by (clk (cl_db cl) 0) (js_value_as_bytes k) 1 (sv_dbs sv ! cl_db cl))"
      by (simp only: simp_thms if_True if_False) (drule with_key_SomeD, simp add: vals)
    have name: "parse_command name = Some ''INCR''" using 4 fast_names by simp
    have pl: "plain k" using assms(3) by (simp add: vals)
    show ?thesis unfolding vals out
      by (rule same_incr [OF assms(2) _ _ in_tables(6) name]) (use pl in \<open>simp_all add: cmd_incr_def plain_bytes in_i64_iff\<close>)
  next
    case 5
    then obtain k m where vals: "vals = [k, m]" by (auto simp: len_args)
    from def 5 have "out = js_int_result (en_js en) pcall
        (db_set_add_single_bytes (clk (cl_db cl) 0) (js_value_as_bytes k) (js_value_as_bytes m) (sv_dbs sv ! cl_db cl))"
      by (simp only: simp_thms if_True if_False) (drule with_key_SomeD, simp add: vals)
    moreover have "same_call (slow_call en clk pcall name [k, m] (sv, cl)) (sv, cl) (js_int_result (en_js en) pcall
        (db_set_add_single_bytes (clk (cl_db cl) 0) (js_value_as_bytes k) (js_value_as_bytes m) (sv_dbs sv ! cl_db cl)))"
      by (rule same_sadd [OF assms(2)])
        (use 5 assms(3) fast_names db_local_set_add_single_bytes in \<open>simp_all add: vals\<close>)
    ultimately show ?thesis by (simp only: vals)
next
    case 6
    have len: "length vals \<ge> 3" using 6(6) by blast
    then obtain k vs where "vals = k # vs" by (cases vals) auto
    with len have vals: "vals = k # vs" "vs \<noteq> []" by auto
    from def 6 have "out = js_int_result (en_js en) pcall
        (db_set_add (clk (cl_db cl) 0) (js_value_as_bytes k) (map js_value_as_bytes vs) (sv_dbs sv ! cl_db cl))"
      by (simp only: simp_thms if_True if_False) (drule with_key_SomeD, simp add: vals)
    moreover have "same_call (slow_call en clk pcall name (k # vs) (sv, cl)) (sv, cl) (js_int_result (en_js en) pcall
        (db_set_add (clk (cl_db cl) 0) (js_value_as_bytes k) (map js_value_as_bytes vs) (sv_dbs sv ! cl_db cl)))"
      by (rule same_sadd [OF assms(2) _ _ vals(2) _ db_local_set_add])
        (use 6 assms(3) fast_names vals(2) in \<open>simp_all add: vals(1)\<close>)
    ultimately show ?thesis by (simp only: vals(1))
  next
    case 7
    with def show ?thesis by (simp only: simp_thms if_False option.distinct)
  qed
qed

lemma js_i64_arg_bound: "plain v \<Longrightarrow> in_i64 (js_i64_arg v)"
  by (cases v) (auto simp: js_i64_arg_def unwrap_or_def parse_i64_def in_i64_0 dest: i64_from_str_in_i64
      split: option.split result.splits)

lemma fast_call_5_same:
  assumes "fast_call_5 (en_js en) (clk (cl_db cl)) pcall name vals (sv_dbs sv ! cl_db cl) = Some out"
    and "db_ok (sv_dbs sv ! cl_db cl)" and "\<forall>v \<in> set vals. plain v"
  shows "same_call (slow_call en clk pcall name vals (sv, cl)) (sv, cl) out"
proof -
  have len: "length vals \<ge> 2" using assms(1) by (auto simp: fast_call_5_def split: if_splits)
  then obtain k vs where "vals = k # vs" by (cases vals) auto
  with len have vals: "vals = k # vs" "vs \<noteq> []" by auto
  have push: "same_call (slow_call en clk pcall name (k # vs) (sv, cl)) (sv, cl)
      (js_int_result (en_js en) pcall (db_list_push (clk (cl_db cl) 0) (js_value_as_bytes k) (map js_value_as_bytes vs) left
         (sv_dbs sv ! cl_db cl)))"
    if "eq_ignore_ascii_case name cmd" "cmd = ''LPUSH'' \<and> left \<or> cmd = ''RPUSH'' \<and> \<not> left" for cmd left
  proof (rule same_push [OF assms(2) _ _ vals(2) _ that(2)])
    show "plain k" "\<forall>v \<in> set vs. plain v" using assms(3) by (simp_all add: vals(1))
    show "parse_command name = Some cmd" using that(2) by (intro fast_names [OF that(1)]) auto
  qed
  show ?thesis
  proof (cases "eq_ignore_ascii_case name ''LPUSH'' \<and> length vals \<ge> 2")
    case True
    with assms(1) have "out = js_int_result (en_js en) pcall
        (db_list_push (clk (cl_db cl) 0) (js_value_as_bytes k) (map js_value_as_bytes vs) True (sv_dbs sv ! cl_db cl))"
      unfolding fast_call_5_def by (simp only: simp_thms if_True) (drule with_key_SomeD, simp add: vals)
    with push [of "''LPUSH''" True] True show ?thesis by (simp add: vals(1))
  next
    case False
    with assms(1) have "eq_ignore_ascii_case name ''RPUSH''" by (auto simp: fast_call_5_def split: if_splits)
    moreover from this False assms(1) len have "out = js_int_result (en_js en) pcall
        (db_list_push (clk (cl_db cl) 0) (js_value_as_bytes k) (map js_value_as_bytes vs) False (sv_dbs sv ! cl_db cl))"
      unfolding fast_call_5_def by (simp only: simp_thms if_True if_False split: if_split_asm) (drule with_key_SomeD, simp add: vals)
    ultimately show ?thesis using push [of "''RPUSH''" False] by (simp add: vals(1))
  qed
qed

lemma fast_call_6_same:
  assumes "fast_call_6 (en_js en) (en_split en) (clk (cl_db cl)) pcall name vals (sv_dbs sv ! cl_db cl) = Some out"
    and "db_ok (sv_dbs sv ! cl_db cl)" and "\<forall>v \<in> set vals. plain v"
    and "parse_command name = Some ''LRANGE'' \<Longrightarrow> length vals = 3 \<Longrightarrow> parse_i64 (js_value_as_bytes (vals ! 2)) \<noteq> None"
  shows "same_call (slow_call en clk pcall name vals (sv, cl)) (sv, cl) out"
proof -
  let ?A = "eq_ignore_ascii_case name ''LRANGE'' \<and> length vals = 3"
  let ?B = "eq_ignore_ascii_case name ''INCRBY'' \<and> length vals = 2"
  let ?C = "eq_ignore_ascii_case name ''DECRBY'' \<and> length vals = 2"
  note def = assms(1) [unfolded fast_call_6_def]
  consider ?A | "\<not> ?A" ?B | "\<not> ?A" "\<not> ?B" ?C | "\<not> ?A" "\<not> ?B" "\<not> ?C" by argo
  then show ?thesis
  proof cases
    case 1
    then obtain k a b where vals: "vals = [k, a, b]" by (auto simp: len_args)
    from def 1 have out: "out = js_list_result pcall (db_list_range (clk (cl_db cl) 0) (en_split en) (js_value_as_bytes k)
        (js_i64_arg a) (js_i64_arg b) (sv_dbs sv ! cl_db cl))"
      by (simp only: simp_thms if_True) (drule with_key_SomeD, simp add: vals)
    have name: "parse_command name = Some ''LRANGE''" using 1 fast_names by simp
    show ?thesis unfolding vals out
      by (rule same_lrange [OF assms(2) _ _ _ _ name]) (use assms(3) assms(4) [OF name] in \<open>simp_all add: vals\<close>)
  next
    case 2
    then obtain k a where vals: "vals = [k, a]" by (auto simp: len_args)
    from def 2 have out: "out = js_incr_result (en_js en) pcall
        (db_incr_by (clk (cl_db cl) 0) (js_value_as_bytes k) (js_i64_arg a) (sv_dbs sv ! cl_db cl))"
      by (simp only: simp_thms if_True if_False) (drule with_key_SomeD, simp add: vals)
    have name: "parse_command name = Some ''INCRBY''" using 2 fast_names by simp
    have pl: "plain k" "plain a" using assms(3) by (simp_all add: vals)
    show ?thesis unfolding vals out
      by (rule same_incr [OF assms(2) js_i64_arg_bound [OF pl(2)] _ in_tables(7) name])
        (use pl in \<open>simp_all add: cmd_incrby_def plain_bytes plain_i64\<close>)
  next
    case 3
    then obtain k a where vals: "vals = [k, a]" by (auto simp: len_args)
    from def 3 have out: "out = js_incr_result (en_js en) pcall
        (db_incr_by (clk (cl_db cl) 0) (js_value_as_bytes k) (i64_wrap (- js_i64_arg a)) (sv_dbs sv ! cl_db cl))"
      by (simp only: simp_thms if_True if_False) (drule with_key_SomeD, simp add: vals)
    have name: "parse_command name = Some ''DECRBY''" using 3 fast_names by simp
    have pl: "plain k" "plain a" using assms(3) by (simp_all add: vals)
    show ?thesis unfolding vals out
      by (rule same_incr [OF assms(2) in_i64_wrap _ in_tables(8) name])
        (use pl in \<open>simp_all add: cmd_decrby_def plain_bytes plain_i64\<close>)
  next
    case 4
    with def show ?thesis by (simp only: simp_thms if_False option.distinct)
  qed
qed

lemma fast_call_8_same:
  assumes "fast_call_8 (clk (cl_db cl)) pcall name vals (sv_dbs sv ! cl_db cl) = Some out"
    and "db_ok (sv_dbs sv ! cl_db cl)" and "\<forall>v \<in> set vals. plain v"
  shows "same_call (slow_call en clk pcall name vals (sv, cl)) (sv, cl) out"
proof -
  from assms(1) obtain k where k: "parse_command name = Some ''SMEMBERS''" "vals = [k]"
    "out = js_list_result pcall (db_set_members (clk (cl_db cl) 0) (js_value_as_bytes k) (sv_dbs sv ! cl_db cl))"
    by (auto simp: fast_call_8_def len_args fast_names split: if_splits dest!: with_key_SomeD)
  with same_smembers [OF assms(2) _ k(1)] assms(3) show ?thesis by simp
qed

lemma redis_call_fast_plain:
  assumes "redis_call_fast (en_js en) (en_split en) (clk (cl_db cl)) pcall name vals (sv_dbs sv ! cl_db cl) = Some (d, v)"
    and "db_ok (sv_dbs sv ! cl_db cl)" and "\<forall>v \<in> set vals. plain v"
    and "parse_command name = Some ''DEL'' \<Longrightarrow> \<forall>v \<in> set vals. js_value_as_bytes v \<noteq> []"
    and "parse_command name = Some ''LRANGE'' \<Longrightarrow> length vals = 3 \<Longrightarrow> parse_i64 (js_value_as_bytes (vals ! 2)) \<noteq> None"
  shows "\<exists>d'. slow_call en clk pcall name vals (sv, cl) = Done ((sv\<lparr>sv_dbs := (sv_dbs sv)[cl_db cl := d']\<rparr>, cl), v) \<and>
    db_ok d \<and> db_ok d' \<and> db_get d' = db_get d"
proof -
  note fast = assms(1) [unfolded redis_call_fast_def]
  consider "length name = 3" | "length name = 4" | "length name = 5" | "length name = 6" | "length name = 8"
    using fast by (auto split: if_split_asm)
  then have "same_call (slow_call en clk pcall name vals (sv, cl)) (sv, cl) (d, v)"
  proof cases
    case 1
    with fast show ?thesis using fast_call_3_same [OF _ assms(2,3,4)] by simp
  next
    case 2
    with fast show ?thesis using fast_call_4_same [OF _ assms(2,3)] by simp
  next
    case 3
    with fast show ?thesis using fast_call_5_same [OF _ assms(2,3)] by simp
  next
    case 4
    with fast show ?thesis using fast_call_6_same [OF _ assms(2,3,5)] by simp
  next
    case 5
    with fast show ?thesis using fast_call_8_same [OF _ assms(2,3)] by simp
  qed
  then show ?thesis by (auto simp: same_call_def)
qed

section \<open>Arguments of other types\<close>

text \<open>What the fast path sees of an argument: integers and strings as they are, everything else (floats, booleans,
  \<open>null\<close>, arrays, objects) as the empty string.\<close>

definition fast_view :: "js_val \<Rightarrow> js_val" where
  "fast_view v = (case v of JInt n \<Rightarrow> JInt n | JStr s \<Rightarrow> JStr s | _ \<Rightarrow> JStr [])"

lemma fast_view_bytes [simp]: "js_value_as_bytes (fast_view v) = js_value_as_bytes v"
  by (simp add: fast_view_def js_value_as_bytes_def split: js_val.split)

lemma fast_view_i64 [simp]: "js_i64_arg (fast_view v) = js_i64_arg v"
  by (simp add: fast_view_def js_i64_arg_def js_value_as_bytes_def split: js_val.split)

lemma fast_view_plain: "plain v \<Longrightarrow> fast_view v = v"
  by (cases v) (simp_all add: fast_view_def)

lemma fast_view_comp [simp]: "js_value_as_bytes \<circ> fast_view = js_value_as_bytes"
  by (simp add: fun_eq_iff)

lemma fast_del_view [simp]: "fast_del_loop (map fast_view vs) n d = fast_del_loop vs n d"
  by (induction vs arbitrary: n d) (simp_all add: Let_def split: prod.split)

lemma fast_hset_view [simp]: "fast_hset_loop clock i key (map fast_view vs) m d = fast_hset_loop clock i key vs m d"
  by (induction clock i key vs m d rule: fast_hset_loop.induct) (auto split: prod.split result.split)

lemma with_key_view [simp]: "vs \<noteq> [] \<Longrightarrow> with_key (map fast_view vs) f = with_key vs f"
  by (simp add: with_key_def)

lemma redis_call_fast_view:
  "redis_call_fast je split clock pcall name (map fast_view vs) d = redis_call_fast je split clock pcall name vs d"
proof -
  have drop: "drop n (map fast_view vs) = map fast_view (drop n vs)" for n by (rule drop_map)
  have ne: "length vs = k \<Longrightarrow> 0 < k \<Longrightarrow> vs \<noteq> []" "k \<le> length vs \<Longrightarrow> 0 < k \<Longrightarrow> vs \<noteq> []" for k by auto
  have 3: "fast_call_3 je clock pcall name (map fast_view vs) d = fast_call_3 je clock pcall name vs d"
    unfolding fast_call_3_def length_map by (intro if_cong refl) (auto simp: ne)
  have 4: "fast_call_4 je clock pcall name (map fast_view vs) d = fast_call_4 je clock pcall name vs d"
    unfolding fast_call_4_def length_map drop by (intro if_cong refl) (auto simp: ne)
  have 5: "fast_call_5 je clock pcall name (map fast_view vs) d = fast_call_5 je clock pcall name vs d"
    unfolding fast_call_5_def length_map drop by (intro if_cong refl) (auto simp: ne)
  have 6: "fast_call_6 je split clock pcall name (map fast_view vs) d = fast_call_6 je split clock pcall name vs d"
    unfolding fast_call_6_def length_map by (intro if_cong refl) (auto simp: ne)
  have 8: "fast_call_8 clock pcall name (map fast_view vs) d = fast_call_8 clock pcall name vs d"
    unfolding fast_call_8_def length_map by (intro if_cong refl) (auto simp: ne)
  show ?thesis unfolding redis_call_fast_def 3 4 5 6 8 ..
qed

section \<open>Properties\<close>

text \<open>C3: The fast path of \<open>redis.call\<close> is the dispatcher for integers and UTF-8 strings: whenever it answers a call,
  the dispatcher would have given the script the same value (also the same error) and left the same database,
  had every argument that is neither an integer nor a string been the empty string. For a call whose arguments are
  integers and strings this is the call itself; a float is lost on the fast path (theorem
  \<open>float_argument_lost\<close>). Two calls are excepted: \<open>DEL\<close> with an empty key, which the fast path skips, and
  \<open>LRANGE\<close> whose last index is not a number, which the fast path reads as 0 and the dispatcher as -1.\<close>

theorem redis_call_fast_equivalence:
  assumes "redis_call_fast (en_js en) (en_split en) (clk (cl_db cl)) pcall name vals (sv_dbs sv ! cl_db cl) = Some (d, v)"
    and "db_ok (sv_dbs sv ! cl_db cl)" and "\<forall>v \<in> set vals. plain (fast_view v)"
    and "parse_command name = Some ''DEL'' \<Longrightarrow> \<forall>v \<in> set vals. js_value_as_bytes v \<noteq> []"
    and "parse_command name = Some ''LRANGE'' \<Longrightarrow> length vals = 3 \<Longrightarrow> parse_i64 (js_value_as_bytes (vals ! 2)) \<noteq> None"
  shows "(\<exists>d'. slow_call en clk pcall name (map fast_view vals) (sv, cl) =
        Done ((sv\<lparr>sv_dbs := (sv_dbs sv)[cl_db cl := d']\<rparr>, cl), v) \<and>
      db_ok d \<and> db_ok d' \<and> db_get d' = db_get d) \<and>
    ((\<forall>v \<in> set vals. plain v) \<longrightarrow> map fast_view vals = vals)"
proof
  show "\<exists>d'. slow_call en clk pcall name (map fast_view vals) (sv, cl) =
      Done ((sv\<lparr>sv_dbs := (sv_dbs sv)[cl_db cl := d']\<rparr>, cl), v) \<and> db_ok d \<and> db_ok d' \<and> db_get d' = db_get d"
    using assms by (intro redis_call_fast_plain) (auto simp: redis_call_fast_view)
qed (simp add: fast_view_plain map_idI)

definition sample_js :: js_params where
  "sample_js = \<lparr>je_float_str = (\<lambda>_. ''0.5''), je_prim = (\<lambda>_. None), je_of_int = word_of_int, je_as_int = (\<lambda>_. None)\<rparr>"

definition sample_env :: env where
  "sample_env = \<lparr>en_snapshot = (\<lambda>_. Saved), en_f64 = (\<lambda>_. None), en_split = length, en_js = sample_js,
     en_eval = (\<lambda>heap script keys argv. JsCall False [JStr ''SET'', JStr ''k'', JInt 7] (\<lambda>v. JsDone heap v)),
     en_usage = (\<lambda>_. (0, 1024)), en_build_ctx = [], en_threshold_pct = 75\<rparr>"

definition sample_server :: server where
  "sample_server = \<lparr>sv_dbs = [db_new], sv_persist = None, sv_scripts = [], sv_pubsub = [],
     sv_inbox = (\<lambda>_. \<lparr>ib_queue = [], ib_open = True\<rparr>)\<rparr>"

definition sample_client :: client where
  "sample_client = \<lparr>cl_id = 0, cl_db = 0, cl_in_multi = False, cl_queued = [], cl_script = None\<rparr>"

lemma upper_set: "map to_ascii_uppercase ''set'' = ''SET''" "map to_ascii_uppercase ''GET'' = ''GET''"
  "map to_ascii_uppercase ''SET'' = ''SET''" "digit_char 7 = CHR ''7''"
  by code_simp+

lemma sample_set:
  "redis_call_fast (en_js sample_env) (en_split sample_env) (\<lambda>_. 0) False ''set'' [JStr ''k'', JInt 7] db_new =
     Some (fst (db_set_string_from_slices ''k'' ''7'' None db_new), JStr ''OK'')"
  by (simp only: redis_call_fast_def fast_call_3_def eq_ignore_ascii_case_def upper_set)
    (simp add: with_key_def js_value_as_bytes_def i32_to_stack_bytes_eq i64_to_string_def dec_of_nat.simps [of 7] upper_set)

theorem redis_call_fast_equivalence_witness:
  "\<exists>d'. slow_call sample_env (\<lambda>_ _. 0) False ''set'' [JStr ''k'', JInt 7] (sample_server, sample_client) =
      Done ((sample_server\<lparr>sv_dbs := [d']\<rparr>, sample_client), JStr ''OK'') \<and>
    db_get d' = db_get (fst (db_set_string_from_slices ''k'' ''7'' None db_new))"
proof -
  have name: "parse_command ''set'' = Some ''SET''"
    by (rule parse_ignore_case) (simp_all only: eq_ignore_ascii_case_def upper_set, simp_all add: COMMANDS_def)
  have "plain (JStr ''k'')" by (simp add: utf8_ok_ascii byte_in_def)
  moreover have "plain (JInt 7)" by (simp add: in_i64_iff)
  ultimately have "\<forall>v \<in> set [JStr ''k'', JInt 7]. plain v" by simp
  with redis_call_fast_equivalence [of sample_env "\<lambda>_ _. 0" sample_client False "''set''" "[JStr ''k'', JInt 7]" sample_server] sample_set
  show ?thesis by (auto simp: sample_server_def sample_client_def db_ok_new name fast_view_def)
qed

text \<open>The same call with a float: the fast path stores the empty string, the dispatcher the text of the float.\<close>

theorem float_argument_lost:
  "redis_call_fast (en_js sample_env) (en_split sample_env) (\<lambda>_. 0) False ''set'' [JStr ''k'', JFloat x] db_new =
     Some (fst (db_set_string_from_slices ''k'' [] None db_new), JStr ''OK'') \<and>
   same_call (slow_call sample_env (\<lambda>_ _. 0) False ''set'' [JStr ''k'', JFloat x] (sample_server, sample_client))
     (sample_server, sample_client) (fst (db_set_string_from_slices ''k'' ''0.5'' None db_new), JStr ''OK'')"
proof
  show "redis_call_fast (en_js sample_env) (en_split sample_env) (\<lambda>_. 0) False ''set'' [JStr ''k'', JFloat x] db_new =
      Some (fst (db_set_string_from_slices ''k'' [] None db_new), JStr ''OK'')"
    by (simp only: redis_call_fast_def fast_call_3_def eq_ignore_ascii_case_def upper_set)
      (simp add: with_key_def js_value_as_bytes_def upper_set)
  have "js_to_cstring (en_js sample_env) (JFloat x) = js_to_cstring (en_js sample_env) (JStr ''0.5'')"
    by (simp add: js_to_cstring_def sample_env_def sample_js_def)
  then have "slow_call sample_env clk False name [JStr ''k'', JFloat x] sc = slow_call sample_env clk False name [JStr ''k'', JStr ''0.5''] sc"
    for clk name sc by (simp only: slow_call_def list.map)
  moreover have "parse_command ''set'' = Some ''SET''"
    by (rule parse_ignore_case) (simp_all only: eq_ignore_ascii_case_def upper_set, simp_all add: COMMANDS_def)
  ultimately show "same_call (slow_call sample_env (\<lambda>_ _. 0) False ''set'' [JStr ''k'', JFloat x] (sample_server, sample_client))
     (sample_server, sample_client) (fst (db_set_string_from_slices ''k'' ''0.5'' None db_new), JStr ''OK'')"
    using same_set [of sample_server sample_client "JStr ''k''" "JStr ''0.5''" "''set''" sample_env "\<lambda>_ _. 0" False]
    by (simp add: sample_server_def sample_client_def db_ok_new utf8_ok_ascii byte_in_def js_value_as_bytes_def)
qed

end
