(* ===== verification/Server_Facts.thy ===== *)
theory Server_Facts
  imports Server Script_Equiv
begin

text \<open>
  What a connection can rely on when no other connection comes in between: the short cuts give the
  replies of the dispatcher, a transaction gives the replies of its commands sent one by one, a snapshot
  copies the live contents of every database, and a published message reaches every subscriber that has
  room for it.
\<close>

section \<open>Short cuts\<close>

lemma reply_bytes_eq:
  "reply_bytes (BlobArray vs) = reply_bytes (Value (Array (map Blob vs)))"
  "reply_bytes (Value (Error e)) = reply_bytes (Value (StaticError e))"
  by (simp_all add: reply_bytes_def write_array_of_blobs_buf_def write_value_buf_def encode_array_of_blobs_def blob_loop_eq)

text \<open>A command of one of the tables passes the handlers in front of the dispatcher.\<close>

lemma run_command_table:
  assumes "i < 7" and "(cmd, h) \<in> set (tables_list ! i)"
  shows "run_command en clk cmd args (sv, cl) =
    (case h (mk_request en (clk 0) (no_persist sv) cmd args cl) \<lparr>h_db = sv_dbs sv ! cl_db cl, h_persist = sv_persist sv\<rparr> of
       (st, r) \<Rightarrow> Done ((sv\<lparr>sv_dbs := (sv_dbs sv)[cl_db cl := h_db st], sv_persist := h_persist st\<rparr>, cl), r))"
  using tables_front [OF assms] no_db_table [OF assms] assms(2)
    selected_table [OF assms(1), of "mk_request en (clk 0) (no_persist sv) cmd args cl" h sv cl]
  by (simp add: run_command_def handle_save_like_command_def)

lemma set_run:
  "no_persist sv \<Longrightarrow> run_command en clk ''SET'' [k, v] (sv, cl) =
     Done (fst (on_db_of (db_set_string_ref k v None) (sv, cl)), StaticSimple ''OK'')"
  by (simp add: run_command_table [OF _ in_tables(2)] cmd_set_def on_db_of_def on_db_eq 
      case_prod_beta)

lemma get_run:
  "run_command en clk ''GET'' [k] (sv, cl) =
     (case on_db_of (db_get_string (clk 0 (cl_db cl) 0) k) (sv, cl) of (sc, r) \<Rightarrow> Done (sc, string_reply r))"
  by (simp add: run_command_table [OF _ in_tables(1)] cmd_get_def on_db_of_def on_db_eq case_prod_beta)

lemma hset_run:
  "no_persist sv \<Longrightarrow> run_command en clk ''HSET'' [k, f, v] (sv, cl) =
     (case on_db_of (db_hash_set_ref (clk 0 (cl_db cl) 0) k f v) (sv, cl) of
        (sc, r) \<Rightarrow> Done (sc, case r of Ok is_new \<Rightarrow> flag is_new | Err \<Rightarrow> StaticError WRONGTYPE))"
  by (simp add: run_command_table [OF _ in_tables(4)] cmd_hset_def on_db_of_def on_db_eq 
      case_prod_beta flag_def split: result.splits)

lemma fast_path_run:
  assumes "fast_path clk cmd args sc = Some (sc', r)"
  shows "\<exists>v. run_command en clk cmd args sc = Done (sc', v) \<and> reply_bytes r = reply_bytes (Value v)"
  using assms
  by (cases sc) (auto simp: fast_path_def Let_def length_Suc_conv numeral_eq_Suc set_run get_run hset_run
      split: if_splits prod.splits)

lemma lrange_run:
  assumes "handle_lrange_fast en clk args sc = (sc', r)"
  shows "\<exists>v. run_command en clk ''LRANGE'' args sc = Done (sc', v) \<and> reply_bytes r = reply_bytes (Value v)"
proof -
  obtain sv cl where sc: "sc = (sv, cl)" by (cases sc)
  note defs = handle_lrange_fast_def run_command_table [OF _ in_tables(11)] cmd_lrange_def on_db_eq
    blobs_reply_def reply_bytes_eq case_prod_beta
  show ?thesis
  proof (cases "\<exists>key start stop rest. args = key # start # stop # rest")
    case True
    then obtain key start stop rest where args: "args = key # start # stop # rest" by blast
    let ?r = "snd (db_list_range (clk 0 (cl_db cl) 0) (en_split en) key (unwrap_or (parse_i64 start) 0)
      (unwrap_or (parse_i64 stop) (- 1)) (sv_dbs sv ! cl_db cl))"
    show ?thesis using assms unfolding sc args by (cases ?r) (auto simp: defs)
  next
    case False
    then show ?thesis using assms unfolding sc by (auto simp: defs split: list.splits)
  qed
qed

section \<open>Transactions\<close>

text \<open>The commands that are queued between \<open>MULTI\<close> and \<open>EXEC\<close>.\<close>

definition queueable :: "bytes \<Rightarrow> bool" where
  "queueable cmd \<longleftrightarrow> cmd \<notin> {''SUBSCRIBE'', ''PUBLISH'', ''MULTI'', ''EXEC'', ''DISCARD''}"

text \<open>A command changes the selected database and the interpreter of its connection, nothing else.\<close>

definition moved :: "client \<Rightarrow> client \<Rightarrow> bool" where
  "moved cl cl' \<longleftrightarrow> (\<exists>i heap. cl' = cl\<lparr>cl_db := i, cl_script := heap\<rparr>)"

lemma moved_refl [simp, intro]: "moved cl cl"
  unfolding moved_def by (intro exI [of _ "cl_db cl"] exI [of _ "cl_script cl"]) simp

lemma moved_trans: "moved cl cl' \<Longrightarrow> moved cl' cl'' \<Longrightarrow> moved cl cl''"
  unfolding moved_def by (elim exE) (intro exI, simp)

lemma moved_db [simp, intro]: "moved cl (cl\<lparr>cl_db := i\<rparr>)"
  unfolding moved_def by (intro exI [of _ i] exI [of _ "cl_script cl"]) simp

lemma moved_script [simp, intro]: "moved cl (cl\<lparr>cl_script := heap\<rparr>)"
  unfolding moved_def by (intro exI [of _ "cl_db cl"] exI [of _ heap]) simp

lemma moved_keeps: "moved cl cl' \<Longrightarrow> cl_in_multi cl' = cl_in_multi cl \<and> cl_queued cl' = cl_queued cl \<and> cl_id cl' = cl_id cl"
  by (auto simp: moved_def)

lemma no_db_frame: "handle_no_db_command cmd args (sv, cl) = Some ((sv', cl'), r) \<Longrightarrow> moved cl cl'"
  by (auto simp: handle_no_db_command_def Let_def split: if_splits prod.splits option.splits)

lemma selected_frame: "on_selected_db f (sv, cl) = Done ((sv', cl'), r) \<Longrightarrow> moved cl cl'"
  by (auto simp: on_selected_db_def split: outcome.splits)

lemma slow_call_frame: "slow_call en clk pcall name vals (sv, cl) = Done ((sv', cl'), v) \<Longrightarrow> moved cl cl'"
  by (auto simp: slow_call_def Let_def split: option.splits outcome.splits dest: no_db_frame selected_frame)

lemma redis_call_frame: "redis_call en clk held pcall argv (sv, cl) = Done ((sv', cl'), v) \<Longrightarrow> moved cl cl'"
  by (auto simp: redis_call_def Let_def split: list.splits option.splits dest: slow_call_frame)

lemma run_proc_frame: "run_proc en clk held p n (sv, cl) = Done ((sv', cl'), out) \<Longrightarrow> moved cl cl'"
proof (induction p arbitrary: n sv cl)
  case (JsCall pcall argv k)
  then obtain sv1 cl1 v where step: "redis_call en (clk n) held pcall argv (sv, cl) = Done ((sv1, cl1), v)"
    and rest: "run_proc en clk held (k v) (Suc n) (sv1, cl1) = Done ((sv', cl'), out)"
    by (auto split: outcome.splits)
  from redis_call_frame [OF step] JsCall.IH [OF rangeI rest] show ?case by (rule moved_trans)
qed simp_all

lemma eval_wrapped_frame: "eval_wrapped_script en clk heap script args (sv, cl) = Done ((sv', cl'), r) \<Longrightarrow> moved cl cl'"
  by (auto simp: eval_wrapped_script_def split: outcome.splits option.splits dest!: run_proc_frame
      intro: moved_trans [OF _ moved_script])

lemma eval_frame:
  assumes "handle_eval_command en clk cmd args (sv, cl) = Done ((sv', cl'), r)"
  shows "moved cl cl'"
proof -
  obtain heap where "eval_script en clk heap args (sv, cl\<lparr>cl_script := Some heap\<rparr>) = Done ((sv', cl'), r) \<or>
      eval_script_sha en clk heap args (sv, cl\<lparr>cl_script := Some heap\<rparr>) = Done ((sv', cl'), r)"
    using assms by (auto simp: handle_eval_command_def Let_def split: if_splits)
  then have "moved (cl\<lparr>cl_script := Some heap\<rparr>) cl'"
    by (auto simp: eval_script_def eval_script_sha_def Let_def split: list.splits if_splits sum.splits dest: eval_wrapped_frame)
  with moved_script show ?thesis by (rule moved_trans)
qed

lemma run_command_frame:
  assumes "run_command en clk cmd args (sv, cl) = Done ((sv', cl'), r)"
  shows "moved cl cl'"
  using assms no_db_frame [of cmd args sv cl] eval_frame selected_frame
  by (auto simp: run_command_def Let_def split: option.splits if_splits prod.splits)

lemma client_command_runs:
  assumes "queueable cmd" and "\<not> cl_in_multi (snd sc)"
  shows "(run_command en clk cmd args sc = Panic \<and> client_command en clk cmd args sc = Panic) \<or>
    (\<exists>sc' v r. run_command en clk cmd args sc = Done (sc', v) \<and> client_command en clk cmd args sc = Done (sc', Reply r) \<and>
       reply_bytes r = reply_bytes (Value v))"
proof (cases "fast_path clk cmd args sc")
  case (Some out)
  obtain sc' r where out: "out = (sc', r)" by (cases out)
  have "client_command en clk cmd args sc = Done (sc', Reply r)"
    using assms Some out by (auto simp: client_command_def queueable_def case_prod_beta)
  with fast_path_run [OF Some [unfolded out], of en] show ?thesis by blast
next
  case None
  show ?thesis
  proof (cases "cmd = ''LRANGE''")
    case True
    obtain sc' r where lr: "handle_lrange_fast en clk args sc = (sc', r)" by fastforce
    have "client_command en clk cmd args sc = Done (sc', Reply r)"
      using assms None lr True by (auto simp: client_command_def case_prod_beta)
    with lrange_run [OF lr] show ?thesis unfolding True by blast
  next
    case False
    have "client_command en clk cmd args sc = done_reply (run_command en clk cmd args sc)"
      using assms None False by (auto simp: client_command_def queueable_def case_prod_beta)
    then show ?thesis
      by (cases "run_command en clk cmd args sc") (auto simp: done_reply_def)
  qed
qed

lemma handle_request_runs:
  assumes "queueable cmd" and "\<not> cl_in_multi (snd sc)"
  shows "(run_command en clk cmd args sc = Panic \<and> handle_request en clk eclks cmd args sc = Panic) \<or>
    (\<exists>sc' v r. run_command en clk cmd args sc = Done (sc', v) \<and> handle_request en clk eclks cmd args sc = Done (sc', r) \<and>
       reply_bytes r = reply_bytes (Value v))"
  using client_command_runs [OF assms, of en clk args] by (auto simp: handle_request_def)

text \<open>\<open>EXEC\<close>, step by step.\<close>

fun exec_steps ::
  "env \<Rightarrow> (nat \<Rightarrow> req_clock) \<Rightarrow> nat \<Rightarrow> nat \<Rightarrow> exec_run \<Rightarrow> server \<times> client \<Rightarrow> ((server \<times> client) \<times> action) outcome" where
  "exec_steps en clks i 0 ex sc = Done (sc, Execute ex)"
| "exec_steps en clks i (Suc n) ex sc =
     (case exec_step en (clks i) ex sc of
        Panic \<Rightarrow> Panic
      | Done (sc, Execute ex) \<Rightarrow> exec_steps en clks (Suc i) n ex sc
      | Done (sc, Reply r) \<Rightarrow> Done (sc, Reply r))"

lemma exec_step_simps:
  "exec_step en clk \<lparr>ex_rest = [], ex_results = rs\<rparr> sc = Done (sc, Reply (Value (Array rs)))"
  "exec_step en clk \<lparr>ex_rest = (cmd, args) # q, ex_results = rs\<rparr> sc =
     (case run_command en clk cmd args sc of
        Panic \<Rightarrow> Panic
      | Done (sc, r) \<Rightarrow> Done (sc, Execute \<lparr>ex_rest = q, ex_results = rs @ [r]\<rparr>))"
  by (auto simp: exec_step_def split: outcome.split)

lemma exec_steps_loop:
  "exec_steps en clks i (Suc (length q)) \<lparr>ex_rest = q, ex_results = rs\<rparr> sc = done_reply (exec_loop en clks i q rs sc)"
proof (induction q arbitrary: i rs sc)
  case Nil
  then show ?case by (simp add: exec_step_simps done_reply_def)
next
  case (Cons c q)
  obtain cmd args where c: "c = (cmd, args)" by (cases c)
  show ?case
  proof (cases "run_command en (clks i) cmd args sc")
    case (Done out)
    obtain sc1 v where out: "out = (sc1, v)" by (cases out)
    have "exec_steps en clks i (Suc (length (c # q))) \<lparr>ex_rest = c # q, ex_results = rs\<rparr> sc =
        exec_steps en clks (Suc i) (Suc (length q)) \<lparr>ex_rest = q, ex_results = rs @ [v]\<rparr> sc1"
      using Done out by (simp only: exec_steps.simps(2) length_Cons exec_step_simps c) simp
    with Cons.IH [of "Suc i" "rs @ [v]" sc1] Done out show ?thesis by (simp add: c)
  qed (simp add: c exec_step_simps done_reply_def)
qed

lemma exec_loop_requests:
  assumes "\<forall>c \<in> set q. queueable (fst c) \<and> fst c \<noteq> ''QUIT''" and "\<not> cl_in_multi (snd sc)"
  shows "(client_loop en clks eclks i q sc = Panic \<and> exec_loop en clks i q rs sc = Panic) \<or>
    (\<exists>sc' acts vs. client_loop en clks eclks i q sc = Done (sc', acts) \<and> exec_loop en clks i q rs sc = Done (sc', Array (rs @ vs)) \<and>
       map reply_bytes acts = map (\<lambda>v. reply_bytes (Value v)) vs)"
  using assms
proof (induction q arbitrary: i rs sc)
  case (Cons c q)
  obtain cmd args where c: "c = (cmd, args)" by (cases c)
  with Cons.prems have "queueable cmd" "cmd \<noteq> ''QUIT''" by simp_all
  from handle_request_runs [OF this(1) Cons.prems(2), of en "clks i" args "eclks i"] show ?case
  proof (elim disjE conjE exE)
    fix sc1 v r
    assume run: "run_command en (clks i) cmd args sc = Done (sc1, v)"
      "handle_request en (clks i) (eclks i) cmd args sc = Done (sc1, r)" "reply_bytes r = reply_bytes (Value v)"
    have "\<not> cl_in_multi (snd sc1)"
      using run_command_frame [of en "clks i" cmd args "fst sc" "snd sc" "fst sc1" "snd sc1" v] moved_keeps run(1) Cons.prems(2) by auto
    with Cons.IH [of sc1 "Suc i" "rs @ [v]"] Cons.prems(1) show ?case
      using run \<open>cmd \<noteq> ''QUIT''\<close> by (force simp: c)
  qed (simp add: c)
qed simp

lemma queue_command:
  assumes "queueable cmd" and "cl_in_multi cl"
  shows "client_command en clk cmd args (sv, cl) =
    Done ((sv, cl\<lparr>cl_queued := cl_queued cl @ [(cmd, args)]\<rparr>), Reply (Value (StaticSimple ''QUEUED'')))"
  using assms by (auto simp: client_command_def queueable_def)

lemma exec_command:
  "cl_in_multi cl \<Longrightarrow> client_command en clk ''EXEC'' args (sv, cl) =
     Done ((sv, cl\<lparr>cl_in_multi := False, cl_queued := []\<rparr>), Execute \<lparr>ex_rest = cl_queued cl, ex_results = []\<rparr>)"
  by (auto simp: client_command_def)

lemma multi_command:
  "\<not> cl_in_multi cl \<Longrightarrow> client_command en clk ''MULTI'' args (sv, cl) =
     Done ((sv, cl\<lparr>cl_in_multi := True, cl_queued := []\<rparr>), Reply (Value (StaticSimple ''OK'')))"
  by (simp add: client_command_def fast_path_def)

definition prepend :: "'r list \<Rightarrow> ('s \<times> 'r list) outcome \<Rightarrow> ('s \<times> 'r list) outcome" where
  "prepend xs out = (case out of Panic \<Rightarrow> Panic | Done (s, ys) \<Rightarrow> Done (s, xs @ ys))"

lemma queue_requests:
  assumes "\<forall>c \<in> set q. queueable (fst c) \<and> fst c \<noteq> ''QUIT''" and "cl_in_multi cl"
  shows "client_loop en clks eclks i (q @ rest) (sv, cl) =
    prepend (replicate (length q) (Value (StaticSimple ''QUEUED'')))
      (client_loop en clks eclks (i + length q) rest (sv, cl\<lparr>cl_queued := cl_queued cl @ q\<rparr>))"
  using assms
proof (induction q arbitrary: i cl)
  case Nil
  then show ?case by (simp add: prepend_def split: outcome.split)
next
  case (Cons c q)
  then show ?case
    by (cases c) (simp add: queue_command handle_request_def prepend_def split: outcome.split)
qed

section \<open>Snapshots\<close>

lemma restore_entries:
  assumes "db_ok c" and "\<forall>(k, e) \<in> set ps. value_ok (e_value e)" and "distinct (map fst ps)"
  shows "db_ok (fold (\<lambda>(k, v, x) c. fst (db_set_with_expire_at k v x c)) (map (\<lambda>(k, e). (k, e_value e, expires_at e)) ps) c) \<and>
    db_get (fold (\<lambda>(k, v, x) c. fst (db_set_with_expire_at k v x c)) (map (\<lambda>(k, e). (k, e_value e, expires_at e)) ps) c) =
      db_get c ++ map_of ps"
  using assms
proof (induction ps arbitrary: c)
  case (Cons p ps)
  obtain k e where p: "p = (k, e)" by (cases p)
  have "value_ok (e_value e)" using Cons.prems(2) p by simp
  note loc = db_localD [OF db_local_set_with_expire_at [OF this] Cons.prems(1), of k "expires_at e"]
  have eta: "\<lparr>e_value = e_value e, expires_at = expires_at e\<rparr> = e" by simp
  have "k \<notin> dom (map_of ps)" using Cons.prems(3) by (simp add: p dom_map_of_conv_image_fst)
  then have "(db_get c)(k \<mapsto> e) ++ map_of ps = db_get c ++ map_of (p # ps)"
    by (simp add: p map_add_upd_left del: fun_upd_apply)
  moreover have "db_get (fst (db_set_with_expire_at k (e_value e) (expires_at e) c)) = (db_get c)(k \<mapsto> e)"
    using loc(2) by (simp add: spec_set_def eta)
  ultimately show ?case
    using Cons.IH [OF loc(1)] Cons.prems(2,3) by (simp add: p del: fun_upd_apply)
qed simp

lemma snapshot_db_exact:
  assumes "db_ok d"
  shows "fst (snapshot_db clock d) = db_purge_expired_all clock d"
    and "db_ok (snd (snapshot_db clock d))"
    and "db_get (snd (snapshot_db clock d)) = db_get (db_purge_expired_all clock d)"
proof -
  let ?ps = "concat (map data (shards (db_purge_expired_all clock d)))"
  note pp = purged_pairs [OF assms, of clock]
  have "value_ok (e_value e)" if "(k, e) \<in> set ?ps" for k e
  proof -
    have "db_get (db_purge_expired_all clock d) k = Some e" using that pp by (metis map_of_is_SomeI)
    then show ?thesis using db_ok_cell [OF db_purge(1) [OF assms], of clock k] by simp
  qed
  then have vals: "\<forall>(k, e) \<in> set ?ps. value_ok (e_value e)" by blast
  have snap: "snapshot_db clock d = (db_purge_expired_all clock d,
      fold (\<lambda>(k, v, x) c. fst (db_set_with_expire_at k v x c)) (map (\<lambda>(k, e). (k, e_value e, expires_at e)) ?ps) db_new)"
    by (simp add: snapshot_db_def case_prod_beta [of _ "db_snapshot_items clock d"] Let_def db_readers_purge db_readers_collect(1))
  note res = restore_entries [OF db_ok_new vals pp(1)]
  show "fst (snapshot_db clock d) = db_purge_expired_all clock d" by (simp add: snap)
  show "db_ok (snd (snapshot_db clock d))" using res by (simp add: snap)
  show "db_get (snd (snapshot_db clock d)) = db_get (db_purge_expired_all clock d)"
    using res pp(2) by (simp add: snap db_get_new)
qed

section \<open>Publish and subscribe\<close>

definition subscribers :: "bytes \<Rightarrow> server \<Rightarrow> nat list" where
  "subscribers ch sv = (case hm_get (sv_pubsub sv) ch of Some l \<Rightarrow> l | None \<Rightarrow> [])"

lemma subscribe_loop_get:
  "(case hm_get (fst (subscribe_loop me chs m n)) ch of Some l \<Rightarrow> l | None \<Rightarrow> []) =
     (case hm_get m ch of Some l \<Rightarrow> l | None \<Rightarrow> []) @ replicate (count_list chs ch) me \<and>
   snd (subscribe_loop me chs m n) = n + int (length chs)"
  by (induction me chs m n rule: subscribe_loop.induct) (auto split: option.splits)

lemma subscribe_loop_ok: "hm_ok m \<Longrightarrow> hm_ok (fst (subscribe_loop me chs m n))"
  by (induction me chs m n rule: subscribe_loop.induct) auto

text \<open>How many copies of a message the inbox of a connection takes.\<close>

definition inbox_taken :: "nat list \<Rightarrow> inbox \<Rightarrow> nat \<Rightarrow> nat" where
  "inbox_taken rs ib i = (if ib_open ib then min (count_list rs i) (PUBSUB_CHANNEL_CAPACITY - length (ib_queue ib)) else 0)"

lemma inbox_taken_Cons:
  "inbox_taken (j # rs) ib i = (if i = j \<and> snd (try_send msg ib) then Suc (inbox_taken rs (fst (try_send msg ib)) i) else inbox_taken rs ib i)"
  by (auto simp: inbox_taken_def try_send_def)

lemma publish_loop_inbox:
  "fst (publish_loop msg rs inb n) i = (inb i)\<lparr>ib_queue := ib_queue (inb i) @ replicate (inbox_taken rs (inb i) i) msg\<rparr>"
proof (induction msg rs inb n rule: publish_loop.induct)
  case (2 msg tx rest inb n)
  obtain ib ok where ts: "try_send msg (inb tx) = (ib, ok)" by (cases "try_send msg (inb tx)")
  have ib: "ib = (inb tx)\<lparr>ib_queue := ib_queue (inb tx) @ (if ok then [msg] else [])\<rparr>"
    using ts by (auto simp: try_send_def split: if_splits)
  define inb' where "inb' = inb(tx := ib)"
  have "fst (publish_loop msg (tx # rest) inb n) i =
      (inb' i)\<lparr>ib_queue := ib_queue (inb' i) @ replicate (inbox_taken rest (inb' i) i) msg\<rparr>"
    using 2 [OF ts [symmetric], folded inb'_def] ts by (simp add: inb'_def [symmetric])
  with ib ts show ?case
    by (simp add: inbox_taken_Cons [of tx rest _ i msg] inb'_def)
qed (simp add: inbox_taken_def)

lemma publish_loop_delivered:
  assumes "finite S" and "set rs \<subseteq> S"
  shows "snd (publish_loop msg rs inb n) = n + (\<Sum>i \<in> S. int (inbox_taken rs (inb i) i))"
  using assms
proof (induction msg rs inb n rule: publish_loop.induct)
  case (1 msg inb n)
  have "inbox_taken [] ib i = 0" for ib i by (simp add: inbox_taken_def)
  then show ?case by simp
next
  case (2 msg tx rest inb n)
  obtain ib ok where ts: "try_send msg (inb tx) = (ib, ok)" by (cases "try_send msg (inb tx)")
  define inb' where "inb' = inb(tx := ib)"
  have tx: "tx \<in> S" using 2(3) by simp
  have "int (inbox_taken (tx # rest) (inb i) i) = (if i = tx then of_bool ok else 0) + int (inbox_taken rest (inb' i) i)" for i
    using ts by (auto simp: inb'_def inbox_taken_Cons [of tx rest _ i msg] try_send_def split: if_splits)
  then have "(\<Sum>i \<in> S. int (inbox_taken (tx # rest) (inb i) i)) = of_bool ok + (\<Sum>i \<in> S. int (inbox_taken rest (inb' i) i))"
    using 2(2) tx by (simp add: sum.distrib)
  with 2(1) [OF ts [symmetric] 2(2), folded inb'_def] 2(3) ts show ?case by (simp add: inb'_def [symmetric])
qed

section \<open>Properties\<close>

text \<open>C19: Outside a transaction a command is answered with the bytes that the dispatcher's reply has, and leaves the
  state that the dispatcher leaves, whether or not one of the short cuts (\<open>SET\<close>, \<open>GET\<close>, \<open>HSET\<close>, \<open>LRANGE\<close>)
  took it.\<close>

theorem fast_path_equivalence:
  assumes "queueable cmd" and "\<not> cl_in_multi (snd sc)"
  shows "(run_command en clk cmd args sc = Panic \<and> client_command en clk cmd args sc = Panic) \<or>
    (\<exists>sc' v r. run_command en clk cmd args sc = Done (sc', v) \<and> client_command en clk cmd args sc = Done (sc', Reply r) \<and>
       reply_bytes r = reply_bytes (Value v))"
  by (rule client_command_runs [OF assms])

theorem fast_path_equivalence_witness:
  "\<exists>sc' r. client_command sample_env (\<lambda>_ _ _. 0) ''SET'' [''k'', ''v''] (sample_server, sample_client) = Done (sc', Reply r) \<and>
     reply_bytes r = reply_bytes (Value (StaticSimple ''OK''))"
proof -
  have "run_command sample_env (\<lambda>_ _ _. 0) ''SET'' [''k'', ''v''] (sample_server, sample_client) =
      Done (fst (on_db_of (db_set_string_ref ''k'' ''v'' None) (sample_server, sample_client)), StaticSimple ''OK'')"
    by (rule set_run) (simp add: no_persist_def sample_server_def)
  with fast_path_equivalence [of "''SET''" "(sample_server, sample_client)" sample_env "\<lambda>_ _ _. 0" "[''k'', ''v'']"]
  show ?thesis by (auto simp: queueable_def sample_client_def)
qed

text \<open>C4: A transaction that no other connection interrupts is its commands sent one by one: \<open>MULTI\<close> is answered with
  \<open>OK\<close>, every command with \<open>QUEUED\<close>, and \<open>EXEC\<close> with the array of the replies that the commands would have
  had (byte for byte), and it leaves the same server and connection; it panics exactly if one of the
  commands would. The commands are those that a transaction can hold, without \<open>QUIT\<close>: when a \<open>QUIT\<close> is queued, the
  connection ends and nothing is executed.\<close>

theorem transaction_equivalence:
  assumes "\<forall>c \<in> set cmds. queueable (fst c) \<and> fst c \<noteq> ''QUIT''" and "\<not> cl_in_multi cl" and "cl_queued cl = []"
  shows "(case client_loop en clks eclks 0 cmds (sv, cl) of
       Panic \<Rightarrow> client_loop en clks' (\<lambda>_. clks) j ((''MULTI'', []) # cmds @ [(''EXEC'', [])]) (sv, cl) = Panic
     | Done (sc', rs) \<Rightarrow>
         (\<exists>vs. client_loop en clks' (\<lambda>_. clks) j ((''MULTI'', []) # cmds @ [(''EXEC'', [])]) (sv, cl) =
            Done (sc', Value (StaticSimple ''OK'') # replicate (length cmds) (Value (StaticSimple ''QUEUED'')) @ [Value (Array vs)]) \<and>
            map reply_bytes rs = map (\<lambda>v. reply_bytes (Value v)) vs)) \<and>
    client_loop en clks' eclks' j ((''MULTI'', []) # cmds @ (''QUIT'', args) # behind) (sv, cl) =
      Done ((sv, cl\<lparr>cl_in_multi := True, cl_queued := cmds @ [(''QUIT'', args)]\<rparr>),
        Value (StaticSimple ''OK'') # replicate (length cmds) (Value (StaticSimple ''QUEUED'')) @ [Value (StaticSimple ''QUEUED'')])"
proof
  have same: "cl\<lparr>cl_in_multi := False, cl_queued := []\<rparr> = cl" using assms(2,3) by simp
  have "client_loop en clks' (\<lambda>_. clks) j ((''MULTI'', []) # cmds @ [(''EXEC'', [])]) (sv, cl) =
      prepend (Value (StaticSimple ''OK'') # replicate (length cmds) (Value (StaticSimple ''QUEUED'')))
        (case exec_loop en clks 0 cmds [] (sv, cl) of Panic \<Rightarrow> Panic | Done (sc, v) \<Rightarrow> Done (sc, [Value v]))"
    using assms(1,2) same
    by (simp add: handle_request_def multi_command queue_requests exec_command prepend_def split: outcome.split)
  then show "case client_loop en clks eclks 0 cmds (sv, cl) of
       Panic \<Rightarrow> client_loop en clks' (\<lambda>_. clks) j ((''MULTI'', []) # cmds @ [(''EXEC'', [])]) (sv, cl) = Panic
     | Done (sc', rs) \<Rightarrow>
         (\<exists>vs. client_loop en clks' (\<lambda>_. clks) j ((''MULTI'', []) # cmds @ [(''EXEC'', [])]) (sv, cl) =
            Done (sc', Value (StaticSimple ''OK'') # replicate (length cmds) (Value (StaticSimple ''QUEUED'')) @ [Value (Array vs)]) \<and>
            map reply_bytes rs = map (\<lambda>v. reply_bytes (Value v)) vs)"
    using exec_loop_requests [OF assms(1), of "(sv, cl)" en clks eclks 0 "[]"] assms(2)
    by (auto simp: prepend_def)
next
  have "queueable ''QUIT''" by (simp add: queueable_def)
  then show "client_loop en clks' eclks' j ((''MULTI'', []) # cmds @ (''QUIT'', args) # behind) (sv, cl) =
      Done ((sv, cl\<lparr>cl_in_multi := True, cl_queued := cmds @ [(''QUIT'', args)]\<rparr>),
        Value (StaticSimple ''OK'') # replicate (length cmds) (Value (StaticSimple ''QUEUED'')) @ [Value (StaticSimple ''QUEUED'')])"
    using assms(1,2)
    by (simp add: handle_request_def multi_command queue_requests queue_command prepend_def)
qed

theorem transaction_equivalence_witness:
  "\<exists>sc' r. client_loop sample_env (\<lambda>_ _ _ _. 0) (\<lambda>_ _ _ _ _. 0) 0
      [(''MULTI'', []), (''SET'', [''k'', ''v'']), (''EXEC'', [])] (sample_server, sample_client) =
    Done (sc', [Value (StaticSimple ''OK''), Value (StaticSimple ''QUEUED''), Value (Array [r])]) \<and>
    reply_bytes (Value r) = reply_bytes (Value (StaticSimple ''OK''))"
proof -
  let ?clk = "\<lambda>(_ :: nat) (_ :: nat) (_ :: nat) (_ :: nat). 0 :: u64"
  have "no_persist sample_server" by (simp add: no_persist_def sample_server_def)
  then obtain sc1 where run: "client_loop sample_env ?clk (\<lambda>_. ?clk) 0 [(''SET'', [''k'', ''v''])] (sample_server, sample_client) =
      Done (sc1, [Value (StaticSimple ''OK'')])"
    by (simp add: handle_request_def client_command_def fast_path_def sample_client_def)
  have "\<forall>c \<in> set [(''SET'', [''k'', ''v''])]. queueable (fst c) \<and> fst c \<noteq> ''QUIT''" "\<not> cl_in_multi sample_client" "cl_queued sample_client = []"
    by (simp_all add: queueable_def sample_client_def)
  from conjunct1 [OF transaction_equivalence [where en = sample_env and clks = ?clk and eclks = "\<lambda>_. ?clk"
      and sv = sample_server and clks' = ?clk and j = 0, OF this], unfolded run]
  obtain vs where "client_loop sample_env ?clk (\<lambda>_. ?clk) 0 ((''MULTI'', []) # [(''SET'', [''k'', ''v''])] @ [(''EXEC'', [])])
        (sample_server, sample_client) = Done (sc1, Value (StaticSimple ''OK'') #
          replicate (length [(''SET'', [''k'', ''v''])]) (Value (StaticSimple ''QUEUED'')) @ [Value (Array vs)])"
      "map reply_bytes [Value (StaticSimple ''OK'')] = map (\<lambda>v. reply_bytes (Value v)) vs"
    by auto
  moreover from this(2) obtain r where "vs = [r]" "reply_bytes (Value r) = reply_bytes (Value (StaticSimple ''OK''))"
    by (auto simp: Cons_eq_map_conv)
  ultimately show ?thesis by (simp del: client_loop.simps)
qed

text \<open>The copies that \<open>SAVE\<close> hands to the snapshot are exact: database by database, the copy and the
  original (which is swept by the copying) are well-formed and hold the same entries, namely those that are
  alive when their bucket is read, with their values and expiry times.\<close>

theorem snapshot_exact:
  assumes "\<forall>d \<in> set ds. db_ok d" and "snapshot_dbs_for_persistence clk ds = (ds', copies)"
  shows "length ds' = length ds \<and> length copies = length ds \<and>
    (\<forall>i < length ds. db_ok (ds' ! i) \<and> db_ok (copies ! i) \<and> db_get (copies ! i) = db_get (ds' ! i) \<and>
       (\<forall>k. db_get (copies ! i) k = live (clk 0 i (shard_index k)) (db_get (ds ! i) k)))"
proof -
  have "ds' = map (\<lambda>i. fst (snapshot_db (clk 0 i) (ds ! i))) [0..<length ds]"
    "copies = map (\<lambda>i. snd (snapshot_db (clk 0 i) (ds ! i))) [0..<length ds]"
    using assms(2) by (auto simp: snapshot_dbs_for_persistence_def Let_def comp_def)
  with assms(1) show ?thesis by (simp add: snapshot_db_exact db_purge)
qed

theorem snapshot_exact_witness:
  "\<exists>ds' copies. snapshot_dbs_for_persistence (\<lambda>_ _ _. 5) [db_new] = (ds', copies) \<and> length copies = 1 \<and>
     db_get (copies ! 0) = Map.empty"
proof -
  obtain ds' copies where s: "snapshot_dbs_for_persistence (\<lambda>_ _ _. 5) [db_new] = (ds', copies)" by fastforce
  have "\<forall>d \<in> set [db_new]. db_ok d" by (simp add: db_ok_new)
  from snapshot_exact [OF this s] have "length copies = 1" "db_get (copies ! 0) = Map.empty"
    by (auto simp: db_get_new live_def)
  with s show ?thesis by blast
qed

text \<open>C26: A subscription adds the connection once per channel it names; a published message is appended to the
  inbox of every subscriber, once per subscription, as long as the connection is open and the inbox has
  room (1024 messages); nothing else changes, and the reply is the number of messages appended.\<close>

theorem publish_delivers:
  "subscribers ch (fst (handle_subscribe me chs sv)) = subscribers ch sv @ replicate (count_list chs ch) me \<and>
   fst (handle_publish [ch, m] sv) =
     sv\<lparr>sv_inbox := \<lambda>i. (sv_inbox sv i)\<lparr>ib_queue := ib_queue (sv_inbox sv i) @
       replicate (inbox_taken (subscribers ch sv) (sv_inbox sv i) i) (Array [Blob ''message'', Blob ch, Blob m])\<rparr>\<rparr> \<and>
   snd (handle_publish [ch, m] sv) =
     Integer (\<Sum>i \<in> set (subscribers ch sv). int (inbox_taken (subscribers ch sv) (sv_inbox sv i) i))"
  using subscribe_loop_get [of me chs "sv_pubsub sv" 0 ch]
    publish_loop_inbox [of "Array [Blob ''message'', Blob ch, Blob m]" "subscribers ch sv" "sv_inbox sv" 0]
    publish_loop_delivered [of "set (subscribers ch sv)" "subscribers ch sv"
      "Array [Blob ''message'', Blob ch, Blob m]" "sv_inbox sv" 0]
  by (auto simp: subscribers_def handle_subscribe_def handle_publish_def Let_def case_prod_beta fun_eq_iff
      split: list.split option.split)

end
