(* ===== verification/Server_Safety.thy ===== *)
theory Server_Safety
  imports Server_Facts
begin

text \<open>
  The server with all of its connections (\<open>serve\<close> and \<open>handle_client\<close> in \<open>src/muon_cache/server.rs\<close>): every
  connection is a task, and the tasks take turns. A task that executes a transaction takes one command at a time.
  The invariant of all reachable states: a connection has selected a database that exists, it queues commands only
  inside a transaction and never one of those that control transactions, the inboxes are bounded, and publishers
  reach exactly the connections that are still there.
\<close>

section \<open>Model\<close>

text \<open>A task reads the next request or is inside the loop of \<open>EXEC\<close>.\<close>

datatype conn_mode = Reading | Executing exec_run

record connection =
  cn_client :: client
  cn_mode :: conn_mode

record system =
  sy_server :: server
  sy_conns :: "nat \<Rightarrow> connection option"
  sy_next :: nat

definition new_client :: "nat \<Rightarrow> client" where
  "new_client me = \<lparr>cl_id = me, cl_db = 0, cl_in_multi = False, cl_queued = [], cl_script = None\<rparr>"

text \<open>The server starts with the databases it has loaded and no connection.\<close>

definition start_system :: "server \<Rightarrow> system" where
  "start_system sv =
     \<lparr>sy_server = sv\<lparr>sv_scripts := [], sv_pubsub := [], sv_inbox := (\<lambda>_. \<lparr>ib_queue = [], ib_open = False\<rparr>)\<rparr>,
      sy_conns = (\<lambda>_. None), sy_next = 0\<rparr>"

text \<open>A new connection comes with a channel of its own.\<close>

definition accept_conn :: "system \<Rightarrow> system" where
  "accept_conn s =
     (let me = sy_next s; sv = sy_server s
      in s\<lparr>sy_server := sv\<lparr>sv_inbox := (sv_inbox sv)(me := \<lparr>ib_queue = [], ib_open = True\<rparr>)\<rparr>,
           sy_conns := (sy_conns s)(me \<mapsto> \<lparr>cn_client = new_client me, cn_mode = Reading\<rparr>),
           sy_next := Suc me\<rparr>)"

text \<open>The end of a task drops the receiving end of its channel; the senders stay in the table of subscribers.\<close>

definition close_conn :: "nat \<Rightarrow> system \<Rightarrow> system" where
  "close_conn me s =
     (let sv = sy_server s
      in s\<lparr>sy_server := sv\<lparr>sv_inbox := (sv_inbox sv)(me := \<lparr>ib_queue = [], ib_open = False\<rparr>)\<rparr>,
           sy_conns := (sy_conns s)(me := None)\<rparr>)"

text \<open>The rest of an iteration once the reply is known.\<close>

definition reply_conn :: "nat \<Rightarrow> bool \<Rightarrow> fast_response \<Rightarrow> server \<times> client \<Rightarrow> system \<Rightarrow> system \<times> bytes" where
  "reply_conn me quit r sc s =
     (let (sv, out) = drain_inbox me (fst sc);
          s = s\<lparr>sy_server := sv, sy_conns := (sy_conns s)(me \<mapsto> \<lparr>cn_client = snd sc, cn_mode = Reading\<rparr>)\<rparr>
      in (if quit then close_conn me s else s, reply_bytes r @ out))"

text \<open>One step of one task, with the bytes it writes.\<close>

inductive sys_step :: "env \<Rightarrow> system \<Rightarrow> nat \<times> bytes \<Rightarrow> system \<Rightarrow> bool" for en where
  accept: "sys_step en s (sy_next s, []) (accept_conn s)"
| hangup: "sy_conns s me = Some \<lparr>cn_client = cl, cn_mode = Reading\<rparr> \<Longrightarrow> sys_step en s (me, []) (close_conn me s)"
| refuse: "sy_conns s me = Some \<lparr>cn_client = cl, cn_mode = Reading\<rparr> \<Longrightarrow> request_of_value v = Inl r \<Longrightarrow>
    sys_step en s (me, write_value_buf r []) s"
| command: "sy_conns s me = Some \<lparr>cn_client = cl, cn_mode = Reading\<rparr> \<Longrightarrow> request_of_value v = Inr (cmd, args) \<Longrightarrow>
    client_command en clk cmd args (sy_server s, cl) = Done (sc, Reply r) \<Longrightarrow>
    reply_conn me (cmd = ''QUIT'') r sc s = (s', out) \<Longrightarrow> sys_step en s (me, out) s'"
| exec_begin: "sy_conns s me = Some \<lparr>cn_client = cl, cn_mode = Reading\<rparr> \<Longrightarrow> request_of_value v = Inr (cmd, args) \<Longrightarrow>
    client_command en clk cmd args (sy_server s, cl) = Done ((sv, cl'), Execute ex) \<Longrightarrow>
    sys_step en s (me, [])
      (s\<lparr>sy_server := sv, sy_conns := (sy_conns s)(me \<mapsto> \<lparr>cn_client = cl', cn_mode = Executing ex\<rparr>)\<rparr>)"
| exec_next: "sy_conns s me = Some \<lparr>cn_client = cl, cn_mode = Executing ex\<rparr> \<Longrightarrow>
    exec_step en clk ex (sy_server s, cl) = Done ((sv, cl'), Execute ex') \<Longrightarrow>
    sys_step en s (me, [])
      (s\<lparr>sy_server := sv, sy_conns := (sy_conns s)(me \<mapsto> \<lparr>cn_client = cl', cn_mode = Executing ex'\<rparr>)\<rparr>)"
| exec_end: "sy_conns s me = Some \<lparr>cn_client = cl, cn_mode = Executing ex\<rparr> \<Longrightarrow>
    exec_step en clk ex (sy_server s, cl) = Done (sc, Reply r) \<Longrightarrow>
    reply_conn me False r sc s = (s', out) \<Longrightarrow> sys_step en s (me, out) s'"

text \<open>The states of a server and what its connections have been sent.\<close>

inductive sys_run :: "env \<Rightarrow> server \<Rightarrow> (nat \<times> bytes) list \<Rightarrow> system \<Rightarrow> bool" for en sv where
  start: "sys_run en sv [] (start_system sv)"
| step: "sys_run en sv evs s \<Longrightarrow> sys_step en s ev s' \<Longrightarrow> sys_run en sv (evs @ [ev]) s'"

section \<open>A command keeps the frame of the server\<close>

definition frame :: "server \<times> client \<Rightarrow> server \<times> client \<Rightarrow> bool" where
  "frame sc sc' \<longleftrightarrow>
     length (sv_dbs (fst sc')) = length (sv_dbs (fst sc)) \<and>
     sv_pubsub (fst sc') = sv_pubsub (fst sc) \<and> sv_inbox (fst sc') = sv_inbox (fst sc) \<and>
     (cl_db (snd sc) < length (sv_dbs (fst sc)) \<longrightarrow> cl_db (snd sc') < length (sv_dbs (fst sc')))"

lemma frame_refl [simp]: "frame sc sc"
  by (simp add: frame_def)

lemma frame_trans: "frame a b \<Longrightarrow> frame b c \<Longrightarrow> frame a c"
  unfolding frame_def by metis

lemma frame_script [simp]: "frame sc (sv, cl\<lparr>cl_script := h\<rparr>) \<longleftrightarrow> frame sc (sv, cl)"
  by (simp add: frame_def)

lemma frame_selected: "on_selected_db f sc = Done (sc', r) \<Longrightarrow> frame sc sc'"
  by (cases sc) (auto simp: on_selected_db_def frame_def split: outcome.splits)

lemma frame_no_db: "handle_no_db_command cmd args sc = Some (sc', r) \<Longrightarrow> frame sc sc'"
  by (cases sc) (auto simp: handle_no_db_command_def frame_def Let_def split: if_splits option.splits prod.splits)

lemma frame_slow: "slow_call en clk pcall name vals sc = Done (sc', v) \<Longrightarrow> frame sc sc'"
  by (auto simp: slow_call_def Let_def split: option.splits outcome.splits dest: frame_selected frame_no_db)

lemma frame_call: "redis_call en clk held pcall argv (sv, cl) = Done (sc', v) \<Longrightarrow> frame (sv, cl) sc'"
  by (auto simp: redis_call_def Let_def frame_def [of _ "(sv\<lparr>sv_dbs := _\<rparr>, cl)"] split: list.splits option.splits dest: frame_slow)

lemma frame_proc: "run_proc en clk held p n sc = Done (sc', out) \<Longrightarrow> frame sc sc'"
proof (induction p arbitrary: n sc)
  case (JsCall pcall argv k)
  obtain sc1 v where c: "redis_call en (clk n) held pcall argv sc = Done (sc1, v)"
    using JsCall.prems by (cases "redis_call en (clk n) held pcall argv sc") auto
  have "run_proc en clk held (k v) (Suc n) sc1 = Done (sc', out)" using JsCall.prems c by simp
  then have "frame sc1 sc'" using JsCall.IH [of "k v"] by blast
  moreover have "frame sc sc1" using frame_call [of en "clk n" held pcall argv "fst sc" "snd sc"] c by simp
  ultimately show ?case using frame_trans by blast
qed simp_all

lemma frame_wrapped: "eval_wrapped_script en clk heap script args sc = Done (sc', r) \<Longrightarrow> frame sc sc'"
  by (auto simp: eval_wrapped_script_def split: outcome.splits option.splits dest!: frame_proc)

lemma frame_cache [simp]: "frame (sv\<lparr>sv_scripts := x\<rparr>, cl) sc \<longleftrightarrow> frame (sv, cl) sc"
  by (simp add: frame_def)

lemma frame_eval_script: "eval_script en clk heap args (sv, cl) = Done (sc', r) \<Longrightarrow> frame (sv, cl) sc'"
  by (auto simp: eval_script_def Let_def split: list.splits if_splits dest!: frame_wrapped)

lemma frame_eval_sha: "eval_script_sha en clk heap args sc = Done (sc', r) \<Longrightarrow> frame sc sc'"
  by (auto simp: eval_script_sha_def split: list.splits sum.splits dest!: frame_wrapped)

lemma frame_eval:
  assumes "handle_eval_command en clk cmd args (sv, cl) = Done (sc', r)"
  shows "frame (sv, cl) sc'"
proof -
  obtain heap where "frame (sv, cl\<lparr>cl_script := Some heap\<rparr>) sc'"
    using assms by (auto simp: handle_eval_command_def Let_def split: if_splits dest: frame_eval_script frame_eval_sha)
  then show ?thesis by (auto simp: frame_def)
qed

lemma frame_save: "handle_save_like_command sql clk cmd args sv = Some (sv', r) \<Longrightarrow> frame (sv, cl) (sv', cl)"
  by (auto simp: handle_save_like_command_def snapshot_dbs_for_persistence_def frame_def Let_def split: if_splits)

lemma frame_flushall: "frame (sv, cl) (fst (handle_flushall_command args b sv), cl)"
  by (auto simp: handle_flushall_command_def frame_def Let_def split: option.splits)

lemma frame_command:
  assumes "run_command en clk cmd args (sv, cl) = Done (sc', r)"
  shows "frame (sv, cl) sc'"
proof (cases "handle_save_like_command (en_snapshot en) clk cmd args sv")
  case save: None
  show ?thesis
  proof (cases "handle_no_db_command cmd args (sv, cl)")
    case None
    with assms save show ?thesis
      using frame_flushall [of sv cl args "no_persist sv"]
      by (auto simp: run_command_def Let_def case_prod_beta split: if_splits dest: frame_eval frame_selected)
  qed (use assms save in \<open>auto simp: run_command_def dest: frame_no_db\<close>)
qed (use assms in \<open>auto simp: run_command_def dest: frame_save\<close>)

section \<open>The invariant\<close>

text \<open>The commands that a transaction keeps.\<close>

definition queue_ok :: "(bytes \<times> bytes list) list \<Rightarrow> bool" where
  "queue_ok q \<longleftrightarrow> (\<forall>c \<in> set q. queueable (fst c))"

definition client_ok :: "nat \<Rightarrow> nat \<Rightarrow> client \<Rightarrow> bool" where
  "client_ok n me cl \<longleftrightarrow>
     cl_id cl = me \<and> cl_db cl < n \<and> queue_ok (cl_queued cl) \<and> (cl_in_multi cl \<or> cl_queued cl = [])"

fun mode_ok :: "client \<Rightarrow> conn_mode \<Rightarrow> bool" where
  "mode_ok cl Reading \<longleftrightarrow> True"
| "mode_ok cl (Executing ex) \<longleftrightarrow> \<not> cl_in_multi cl \<and> queue_ok (ex_rest ex)"

definition conn_ok :: "nat \<Rightarrow> nat \<Rightarrow> connection \<Rightarrow> bool" where
  "conn_ok n me c \<longleftrightarrow> client_ok n me (cn_client c) \<and> mode_ok (cn_client c) (cn_mode c)"

text \<open>The shared part of the state: only connections that were accepted are subscribed, and an inbox takes
  messages exactly while its connection is there.\<close>

definition channels_ok :: "(nat \<Rightarrow> connection option) \<Rightarrow> nat \<Rightarrow> server \<Rightarrow> bool" where
  "channels_ok conns next sv \<longleftrightarrow>
     (\<forall>i. ib_open (sv_inbox sv i) = (conns i \<noteq> None)) \<and>
     (\<forall>i. length (ib_queue (sv_inbox sv i)) \<le> PUBSUB_CHANNEL_CAPACITY) \<and>
     (\<forall>i. conns i = None \<longrightarrow> ib_queue (sv_inbox sv i) = []) \<and>
     (\<forall>ch. \<forall>i \<in> set (subscribers ch sv). i < next)"

definition system_ok :: "nat \<Rightarrow> system \<Rightarrow> bool" where
  "system_ok n s \<longleftrightarrow>
     length (sv_dbs (sy_server s)) = n \<and> (\<forall>i \<ge> sy_next s. sy_conns s i = None) \<and>
     channels_ok (sy_conns s) (sy_next s) (sy_server s) \<and>
     (\<forall>i c. sy_conns s i = Some c \<longrightarrow> conn_ok n i c)"

subsection \<open>One request\<close>

lemma try_send_keeps:
  "ib_open (fst (try_send msg ib)) = ib_open ib"
  "length (ib_queue ib) \<le> PUBSUB_CHANNEL_CAPACITY \<Longrightarrow> length (ib_queue (fst (try_send msg ib))) \<le> PUBSUB_CHANNEL_CAPACITY"
  "\<not> ib_open ib \<Longrightarrow> fst (try_send msg ib) = ib"
  by (simp_all add: try_send_def)

text \<open>What a step of a connection may do to the shared part.\<close>

definition inboxes_ok :: "(nat \<Rightarrow> connection option) \<Rightarrow> (nat \<Rightarrow> inbox) \<Rightarrow> bool" where
  "inboxes_ok conns inb \<longleftrightarrow>
     (\<forall>i. ib_open (inb i) = (conns i \<noteq> None) \<and> length (ib_queue (inb i)) \<le> PUBSUB_CHANNEL_CAPACITY \<and>
          (conns i = None \<longrightarrow> ib_queue (inb i) = []))"

lemma channels_inboxes:
  "channels_ok conns next sv \<longleftrightarrow> inboxes_ok conns (sv_inbox sv) \<and> (\<forall>ch. \<forall>i \<in> set (subscribers ch sv). i < next)"
  by (auto simp: channels_ok_def inboxes_ok_def)

lemma publish_loop_ok: "inboxes_ok conns inb \<Longrightarrow> inboxes_ok conns (fst (publish_loop msg rs inb n))"
proof (induction rs arbitrary: inb n)
  case (Cons tx rest)
  have "inboxes_ok conns (inb(tx := fst (try_send msg (inb tx))))"
    using Cons.prems try_send_keeps [where ib = "inb tx" and msg = msg] by (simp add: inboxes_ok_def)
  note IH = Cons.IH [OF this]
  show ?case unfolding publish_loop.simps case_prod_beta by (rule IH)
qed simp

lemma publish_ok:
  assumes "channels_ok conns next sv"
  shows "channels_ok conns next (fst (handle_publish args sv)) \<and> sv_dbs (fst (handle_publish args sv)) = sv_dbs sv"
  using assms publish_loop_ok [of conns "sv_inbox sv"]
  by (auto simp: handle_publish_def channels_inboxes subscribers_def Let_def case_prod_beta split: list.split)

lemma subscribe_ok:
  assumes "channels_ok conns next sv" and "me < next"
  shows "channels_ok conns next (fst (handle_subscribe me chs sv)) \<and> sv_dbs (fst (handle_subscribe me chs sv)) = sv_dbs sv"
proof -
  have "set (subscribers ch (fst (handle_subscribe me chs sv))) \<subseteq> insert me (set (subscribers ch sv))" for ch
    using subscribe_loop_get [of me chs "sv_pubsub sv" 0 ch]
    by (cases chs) (auto simp: handle_subscribe_def subscribers_def Let_def case_prod_beta)
  moreover have "sv_inbox (fst (handle_subscribe me chs sv)) = sv_inbox sv"
    "sv_dbs (fst (handle_subscribe me chs sv)) = sv_dbs sv"
    by (auto simp: handle_subscribe_def Let_def case_prod_beta split: list.split)
  ultimately show ?thesis using assms unfolding channels_inboxes by fastforce
qed

lemma frame_channels:
  "frame (sv, cl) (sv', cl') \<Longrightarrow> channels_ok conns next sv' \<longleftrightarrow> channels_ok conns next sv"
  by (simp add: frame_def channels_inboxes subscribers_def)

text \<open>A step of a connection keeps the shared part and its own part.\<close>

definition keeps :: "(nat \<Rightarrow> connection option) \<Rightarrow> nat \<Rightarrow> nat \<Rightarrow> nat \<Rightarrow> server \<times> client \<Rightarrow> action \<Rightarrow> bool" where
  "keeps conns next n me sc a \<longleftrightarrow>
     length (sv_dbs (fst sc)) = n \<and> channels_ok conns next (fst sc) \<and> client_ok n me (snd sc) \<and>
     (case a of Reply _ \<Rightarrow> True | Execute ex \<Rightarrow> mode_ok (snd sc) (Executing ex))"

lemma run_keeps:
  assumes "run_command en clk cmd args (sv, cl) = Done ((sv', cl'), v)"
    and "keeps conns next n me (sv, cl) (Reply r)"
  shows "keeps conns next n me (sv', cl') (Reply r) \<and> cl_in_multi cl' = cl_in_multi cl"
proof -
  have "frame (sv, cl) (sv', cl')" using assms(1) by (rule frame_command)
  moreover have "cl_in_multi cl' = cl_in_multi cl \<and> cl_queued cl' = cl_queued cl \<and> cl_id cl' = cl_id cl"
    using run_command_frame [OF assms(1)] by (rule moved_keeps)
  ultimately show ?thesis
    using assms(2) frame_channels [of sv cl sv' cl'] by (auto simp: keeps_def client_ok_def frame_def)
qed

lemma fast_keeps:
  assumes "fast_path clk cmd args (sv, cl) = Some ((sv', cl'), r)" and "keeps conns next n me (sv, cl) a"
  shows "keeps conns next n me (sv', cl') (Reply r')"
proof -
  obtain v where "run_command undefined clk cmd args (sv, cl) = Done ((sv', cl'), v)"
    using fast_path_run [OF assms(1)] by blast
  then show ?thesis using run_keeps assms(2) by (auto simp: keeps_def)
qed

lemma lrange_keeps:
  assumes "handle_lrange_fast en clk args (sv, cl) = ((sv', cl'), r)" and "keeps conns next n me (sv, cl) a"
  shows "keeps conns next n me (sv', cl') (Reply r')"
proof -
  obtain v where "run_command en clk ''LRANGE'' args (sv, cl) = Done ((sv', cl'), v)"
    using lrange_run [OF assms(1)] by blast
  then show ?thesis using run_keeps assms(2) by (auto simp: keeps_def)
qed

lemma keeps_same_server:
  "keeps conns next n me (sv, cl) a \<Longrightarrow> client_ok n me cl' \<Longrightarrow> keeps conns next n me (sv, cl') (Reply r)"
  by (simp add: keeps_def)

text \<open>The branches of a request.\<close>

lemma client_command_cases:
  assumes "client_command en clk cmd args (sv, cl) = Done (sc', a)"
  obtains (subscribe) r where "sc' = (fst (handle_subscribe (cl_id cl) args sv), cl)" "a = Reply r"
  | (publish) r where "sc' = (fst (handle_publish args sv), cl)" "a = Reply r"
  | (fast) r where "fast_path clk cmd args (sv, cl) = Some (sc', r)" "a = Reply r"
  | (lrange) r where "handle_lrange_fast en clk args (sv, cl) = (sc', r)" "a = Reply r"
  | (queue) r where "cl_in_multi cl" "queueable cmd" "sc' = (sv, cl\<lparr>cl_queued := cl_queued cl @ [(cmd, args)]\<rparr>)" "a = Reply r"
  | (control) r b where "sc' = (sv, cl) \<or> sc' = (sv, cl\<lparr>cl_in_multi := b, cl_queued := []\<rparr>)" "a = Reply r"
  | (exec) "sc' = (sv, cl\<lparr>cl_in_multi := False, cl_queued := []\<rparr>)" "a = Execute \<lparr>ex_rest = cl_queued cl, ex_results = []\<rparr>"
  | (run) v where "run_command en clk cmd args (sv, cl) = Done (sc', v)" "a = Reply (Value v)"
proof -
  have five: "cmd = ''SUBSCRIBE'' \<or> cmd = ''PUBLISH'' \<or> cmd = ''MULTI'' \<or> cmd = ''DISCARD'' \<or> cmd = ''EXEC'' \<or> queueable cmd"
    by (auto simp: queueable_def)
  show ?thesis
  proof (cases "queueable cmd")
    case False
    then consider "cmd = ''SUBSCRIBE''" | "cmd = ''PUBLISH''" | "cmd = ''MULTI''" | "cmd = ''DISCARD''" | "cmd = ''EXEC''"
      using five by blast
    then show ?thesis
    proof cases
      case 1
      then show ?thesis using assms subscribe by (auto simp: client_command_def case_prod_beta Let_def)
    next
      case 2
      then show ?thesis using assms publish by (auto simp: client_command_def case_prod_beta Let_def)
    next
      case 3
      then show ?thesis using assms control by (auto simp: client_command_def fast_path_def Let_def split: if_splits)
    next
      case 4
      then show ?thesis using assms control by (auto simp: client_command_def fast_path_def Let_def split: if_splits)
    next
      case 5
      then show ?thesis using assms control exec by (auto simp: client_command_def fast_path_def Let_def split: if_splits)
    qed
  next
    case q: True
    show ?thesis
    proof (cases "cl_in_multi cl")
      case True
      then have "sc' = (sv, cl\<lparr>cl_queued := cl_queued cl @ [(cmd, args)]\<rparr>)" "a = Reply (Value (StaticSimple ''QUEUED''))"
        using assms q by (simp_all add: queue_command)
      then show ?thesis using queue True q by blast
    next
      case idle: False
      have other: "cmd \<noteq> ''SUBSCRIBE''" "cmd \<noteq> ''PUBLISH''" "cmd \<noteq> ''MULTI''" "cmd \<noteq> ''DISCARD''" "cmd \<noteq> ''EXEC''"
        using q by (simp_all add: queueable_def)
      show ?thesis
      proof (cases "fast_path clk cmd args (sv, cl)")
        case (Some r)
        then show ?thesis using assms fast idle other by (cases r) (simp add: client_command_def)
      next
        case None
        show ?thesis
        proof (cases "cmd = ''LRANGE''")
          case True
          then have "handle_lrange_fast en clk args (sv, cl) = (sc', snd (handle_lrange_fast en clk args (sv, cl)))"
            and "a = Reply (snd (handle_lrange_fast en clk args (sv, cl)))"
            using assms idle None by (auto simp: client_command_def case_prod_beta Let_def)
          then show ?thesis by (rule lrange)
        next
          case False
          then have "done_reply (run_command en clk cmd args (sv, cl)) = Done (sc', a)"
            using assms idle other None by (simp add: client_command_def)
          then show ?thesis using run by (auto simp: done_reply_def split: outcome.splits)
        qed
      qed
    qed
  qed
qed

lemma client_command_keeps:
  assumes "client_command en clk cmd args (sv, cl) = Done (sc', a)"
    and keep: "keeps conns next n me (sv, cl) (Reply r)" and "me < next"
  shows "keeps conns next n me sc' a"
proof -
  have id: "cl_id cl = me" using keep by (simp add: keeps_def client_ok_def)
  obtain sv' cl' where sc': "sc' = (sv', cl')" by (cases sc')
  from assms(1) show ?thesis
  proof (cases rule: client_command_cases)
    case subscribe
    then show ?thesis using keep subscribe_ok [of conns "next" sv me args] assms(3) by (simp add: keeps_def id)
  next
    case publish
    then show ?thesis using keep publish_ok [of conns "next" sv args] by (simp add: keeps_def)
  next
    case fast
    then show ?thesis using fast_keeps keep unfolding sc' by blast
  next
    case lrange
    then show ?thesis using lrange_keeps keep unfolding sc' by blast
  next
    case queue
    then show ?thesis using keep by (auto simp: keeps_def client_ok_def queue_ok_def)
  next
    case control
    then show ?thesis using keep by (auto simp: keeps_def client_ok_def queue_ok_def)
  next
    case exec
    then show ?thesis using keep by (auto simp: keeps_def client_ok_def queue_ok_def)
  next
    case (run v)
    then show ?thesis using run_keeps [OF run(1) [unfolded sc'] keep] by (simp add: keeps_def sc')
  qed
qed

lemma exec_step_keeps:
  assumes "exec_step en clk ex (sv, cl) = Done (sc', a)" and keep: "keeps conns next n me (sv, cl) (Execute ex)"
  shows "keeps conns next n me sc' a"
proof (cases "ex_rest ex")
  case Nil
  then show ?thesis using assms by (auto simp: exec_step_def keeps_def)
next
  case (Cons c rest)
  obtain cmd args where c: "c = (cmd, args)" by (cases c)
  obtain sv' cl' where sc': "sc' = (sv', cl')" by (cases sc')
  from assms(1) obtain v where run: "run_command en clk cmd args (sv, cl) = Done ((sv', cl'), v)"
    and a: "a = Execute \<lparr>ex_rest = rest, ex_results = ex_results ex @ [v]\<rparr>"
    by (auto simp: exec_step_def Cons c sc' split: outcome.splits)
  have "keeps conns next n me (sv, cl) (Reply (Value v))" using keep by (simp add: keeps_def)
  from run_keeps [OF run this] show ?thesis
    using keep by (simp add: keeps_def a sc' queue_ok_def Cons)
qed

subsection \<open>The system\<close>

lemma reply_conn_ok:
  assumes ok: "system_ok n s" and me: "me < sy_next s"
    and keep: "keeps (sy_conns s) (sy_next s) n me sc (Reply r)" and "sy_conns s me \<noteq> None"
    and "reply_conn me quit r sc s = (s', out)"
  shows "system_ok n s'"
proof -
  let ?sv = "fst (drain_inbox me (fst sc))"
  let ?s = "s\<lparr>sy_server := ?sv, sy_conns := (sy_conns s)(me \<mapsto> \<lparr>cn_client = snd sc, cn_mode = Reading\<rparr>)\<rparr>"
  have "subscribers ch ?sv = subscribers ch (fst sc)" "sv_dbs ?sv = sv_dbs (fst sc)" for ch
    by (simp_all add: drain_inbox_def subscribers_def Let_def)
  moreover have "inboxes_ok (sy_conns ?s) (sv_inbox ?sv)"
    using keep assms(4) by (auto simp: keeps_def channels_inboxes inboxes_ok_def drain_inbox_def Let_def)
  ultimately have "system_ok n ?s"
    using ok keep me by (auto simp: system_ok_def keeps_def channels_inboxes conn_ok_def)
  moreover from this have "system_ok n (close_conn me ?s)"
    by (auto simp: system_ok_def channels_inboxes inboxes_ok_def close_conn_def subscribers_def Let_def)
  ultimately show ?thesis using assms(5) by (auto simp: reply_conn_def case_prod_beta Let_def split: if_splits)
qed

lemma put_conn_ok:
  assumes "system_ok n s" and "me < sy_next s" and "keeps (sy_conns s) (sy_next s) n me (sv, cl) (Execute ex)"
    and "sy_conns s me \<noteq> None"
  shows "system_ok n (s\<lparr>sy_server := sv, sy_conns := (sy_conns s)(me \<mapsto> \<lparr>cn_client = cl, cn_mode = Executing ex\<rparr>)\<rparr>)"
  using assms by (auto simp: system_ok_def keeps_def channels_inboxes inboxes_ok_def conn_ok_def)

lemma system_okD:
  assumes "system_ok n s" and "sy_conns s me = Some \<lparr>cn_client = cl, cn_mode = m\<rparr>"
  shows "me < sy_next s" and "keeps (sy_conns s) (sy_next s) n me (sy_server s, cl) (Reply r)"
    and "m = Executing ex \<Longrightarrow> keeps (sy_conns s) (sy_next s) n me (sy_server s, cl) (Execute ex)"
proof -
  show "me < sy_next s" using assms by (metis system_ok_def not_le option.distinct(1))
  have "conn_ok n me \<lparr>cn_client = cl, cn_mode = m\<rparr>" using assms by (simp add: system_ok_def)
  then show "keeps (sy_conns s) (sy_next s) n me (sy_server s, cl) (Reply r)"
    "m = Executing ex \<Longrightarrow> keeps (sy_conns s) (sy_next s) n me (sy_server s, cl) (Execute ex)"
    using assms(1) by (simp_all add: system_ok_def keeps_def conn_ok_def)
qed

lemma sys_step_ok: "sys_step en s ev s' \<Longrightarrow> system_ok n s \<Longrightarrow> 0 < n \<Longrightarrow> system_ok n s'"
proof (induction rule: sys_step.induct)
  case (accept s)
  then show ?case
    by (auto simp: system_ok_def accept_conn_def channels_inboxes inboxes_ok_def subscribers_def conn_ok_def client_ok_def
        new_client_def queue_ok_def Let_def less_SucI)
next
  case (hangup s me cl)
  then show ?case
    by (auto simp: system_ok_def channels_inboxes inboxes_ok_def close_conn_def subscribers_def Let_def)
next
  case (command s me cl v cmd args clk sc r s' out)
  note d = system_okD [OF command.prems(1) command.hyps(1)]
  have "keeps (sy_conns s) (sy_next s) n me sc (Reply r)"
    by (rule client_command_keeps [OF command.hyps(3) d(2) d(1)])
  from reply_conn_ok [OF command.prems(1) d(1) this _ command.hyps(4)] command.hyps(1) show ?case by simp
next
  case (exec_begin s me cl v cmd args clk sv cl' ex)
  note d = system_okD [OF exec_begin.prems(1) exec_begin.hyps(1)]
  have "keeps (sy_conns s) (sy_next s) n me (sv, cl') (Execute ex)"
    by (rule client_command_keeps [OF exec_begin.hyps(3) d(2) d(1)])
  from put_conn_ok [OF exec_begin.prems(1) d(1) this] exec_begin.hyps(1) show ?case by simp
next
  case (exec_next s me cl ex clk sv cl' ex')
  note d = system_okD [OF exec_next.prems(1) exec_next.hyps(1)]
  have "keeps (sy_conns s) (sy_next s) n me (sv, cl') (Execute ex')"
    by (rule exec_step_keeps [OF exec_next.hyps(2) d(3) [OF refl]])
  from put_conn_ok [OF exec_next.prems(1) d(1) this] exec_next.hyps(1) show ?case by simp
next
  case (exec_end s me cl ex clk sc r s' out)
  note d = system_okD [OF exec_end.prems(1) exec_end.hyps(1)]
  have "keeps (sy_conns s) (sy_next s) n me sc (Reply r)"
    by (rule exec_step_keeps [OF exec_end.hyps(2) d(3) [OF refl]])
  from reply_conn_ok [OF exec_end.prems(1) d(1) this _ exec_end.hyps(3)] exec_end.hyps(1) show ?case by simp
qed

lemma start_system_ok: "system_ok (length (sv_dbs sv)) (start_system sv)"
  by (simp add: system_ok_def start_system_def channels_inboxes inboxes_ok_def subscribers_def hm_get_def)

section \<open>Properties\<close>

text \<open>In every state that a server with at least one database reaches, whatever its connections send and in whatever
  order their steps come, the number of databases is the same and every connection has selected one that exists (so
  no index into them is out of range); a connection queues commands only between \<open>MULTI\<close> and \<open>EXEC\<close>, never one of
  \<open>SUBSCRIBE\<close>, \<open>PUBLISH\<close>, \<open>MULTI\<close>, \<open>EXEC\<close> and \<open>DISCARD\<close>, and one that executes has left the transaction; an inbox never
  holds more than 1024 messages and takes messages exactly while its connection is there; and only connections that
  were accepted are subscribed.\<close>

theorem connections_invariant:
  assumes "sys_run en sv evs s" and "sv_dbs sv \<noteq> []"
  shows "system_ok (length (sv_dbs sv)) s"
  using assms(1)
proof (induction rule: sys_run.induct)
  case (step evs s ev s')
  then show ?case using sys_step_ok assms(2) by blast
qed (rule start_system_ok)

end
