(* ===== verification/JS_Text.thy ===== *)
theory JS_Text
  imports Utf8 Decimal "HOL-Library.Sublist"
begin

text \<open>
  Operations on source text that the compiler uses: the white space of \<open>str::trim\<close>, search for a part,
  integers in a radix, the UTF-8 encoding of a character, and the predicates of \<open>src/helpers.rs\<close>. A \<open>&str\<close> is its
  bytes; positions are byte offsets, as in the source.
\<close>

section \<open>White space\<close>

text \<open>The length of the white-space character at the front (0 when there is none), and at the end of a
  text given backwards.\<close>

definition ascii_ws :: "byte \<Rightarrow> bool" where
  "ascii_ws c \<longleftrightarrow> byte_in 9 13 c \<or> c = CHR '' ''"

definition ws_three :: "byte \<Rightarrow> byte \<Rightarrow> byte \<Rightarrow> bool" where
  "ws_three a b c \<longleftrightarrow>
     a = CHR 0xE1 \<and> b = CHR 0x9A \<and> c = CHR 0x80 \<or>
     a = CHR 0xE2 \<and> b = CHR 0x80 \<and> (byte_in 0x80 0x8A c \<or> c = CHR 0xA8 \<or> c = CHR 0xA9 \<or> c = CHR 0xAF) \<or>
     a = CHR 0xE2 \<and> b = CHR 0x81 \<and> c = CHR 0x9F \<or>
     a = CHR 0xE3 \<and> b = CHR 0x80 \<and> c = CHR 0x80"

definition ws_two :: "byte \<Rightarrow> byte \<Rightarrow> bool" where
  "ws_two a b \<longleftrightarrow> a = CHR 0xC2 \<and> (b = CHR 0x85 \<or> b = CHR 0xA0)"

definition ws_front :: "bytes \<Rightarrow> nat" where
  "ws_front s =
     (case s of
        [] \<Rightarrow> 0
      | a # r \<Rightarrow>
          if ascii_ws a then 1
          else (case r of
                  [] \<Rightarrow> 0
                | b # r2 \<Rightarrow> if ws_two a b then 2 else (case r2 of c # _ \<Rightarrow> if ws_three a b c then 3 else 0 | [] \<Rightarrow> 0)))"

definition ws_back :: "bytes \<Rightarrow> nat" where
  "ws_back s =
     (case s of
        [] \<Rightarrow> 0
      | c # r \<Rightarrow>
          if ascii_ws c then 1
          else (case r of
                  [] \<Rightarrow> 0
                | b # r2 \<Rightarrow> if ws_two b c then 2 else (case r2 of a # _ \<Rightarrow> if ws_three a b c then 3 else 0 | [] \<Rightarrow> 0)))"

function drop_ws :: "(bytes \<Rightarrow> nat) \<Rightarrow> bytes \<Rightarrow> bytes" where
  "drop_ws ws s = (if s = [] \<or> ws s = 0 then s else drop_ws ws (drop (ws s) s))"
  by pat_completeness auto
termination by (relation "measure (length \<circ> snd)") auto

declare drop_ws.simps [simp del]

definition trim_start :: "bytes \<Rightarrow> bytes" where "trim_start s = drop_ws ws_front s"
definition trim_end :: "bytes \<Rightarrow> bytes" where "trim_end s = rev (drop_ws ws_back (rev s))"
definition trim :: "bytes \<Rightarrow> bytes" where "trim s = trim_end (trim_start s)"

section \<open>Parts and numbers\<close>

text \<open>\<open>str::find\<close> of a non-empty part, \<open>strip_prefix\<close>, and \<open>trim_end_matches\<close> of one character.\<close>

fun find_part :: "bytes \<Rightarrow> bytes \<Rightarrow> nat option" where
  "find_part p [] = None"
| "find_part p (c # s) = (if prefix p (c # s) then Some 0 else map_option Suc (find_part p s))"

definition strip_prefix :: "bytes \<Rightarrow> bytes \<Rightarrow> bytes option" where
  "strip_prefix p s = (if prefix p s then Some (drop (length p) s) else None)"

definition trim_end_char :: "byte \<Rightarrow> bytes \<Rightarrow> bytes" where
  "trim_end_char c s = rev (dropWhile (\<lambda>d. d = c) (rev s))"

text \<open>\<open>from_str_radix\<close> for an unsigned type of \<open>w\<close> bits: an optional plus sign, then digits, without overflow.\<close>

definition radix_digit :: "nat \<Rightarrow> byte \<Rightarrow> nat option" where
  "radix_digit r c =
     (let v = (if is_digit c then Some (digit_val c)
               else if byte_in 97 122 c then Some (of_char c - 87)
               else if byte_in 65 90 c then Some (of_char c - 55) else None)
      in case v of Some d \<Rightarrow> if d < r then Some d else None | None \<Rightarrow> None)"

fun radix_loop :: "nat \<Rightarrow> bytes \<Rightarrow> nat \<Rightarrow> nat option" where
  "radix_loop r [] v = Some v"
| "radix_loop r (c # s) v = (case radix_digit r c of None \<Rightarrow> None | Some d \<Rightarrow> radix_loop r s (v * r + d))"

definition from_str_radix :: "nat \<Rightarrow> nat \<Rightarrow> bytes \<Rightarrow> nat option" where
  "from_str_radix w r s =
     (let ds = (case s of c # cs \<Rightarrow> if c = CHR ''+'' then cs else s | [] \<Rightarrow> []) in
      if ds = [] then None
      else case radix_loop r ds 0 of None \<Rightarrow> None | Some v \<Rightarrow> if v < 2 ^ w then Some v else None)"

text \<open>\<open>str::parse::<i32>\<close>.\<close>

definition i32_from_str :: "bytes \<Rightarrow> int option" where
  "i32_from_str s =
     (let neg = (case s of c # _ \<Rightarrow> c = CHR ''-'' | [] \<Rightarrow> False);
          ds = (case s of c # cs \<Rightarrow> if c = CHR ''-'' \<or> c = CHR ''+'' then cs else s | [] \<Rightarrow> [])
      in if ds = [] then None
         else case radix_loop 10 ds 0 of
                None \<Rightarrow> None
              | Some v \<Rightarrow>
                  let i = (if neg then - int v else int v)
                  in if - (2 ^ 31) \<le> i \<and> i < 2 ^ 31 then Some i else None)"

text \<open>\<open>char::from_u32\<close> and the bytes of a character.\<close>

definition char_from_u32 :: "nat \<Rightarrow> nat option" where
  "char_from_u32 n = (if n < 0xD800 \<or> 0xDFFF < n \<and> n < 0x110000 then Some n else None)"

definition utf8_encode :: "nat \<Rightarrow> bytes" where
  "utf8_encode n =
     (if n < 0x80 then [char_of n]
      else if n < 0x800 then [char_of (0xC0 + n div 0x40), char_of (0x80 + n mod 0x40)]
      else if n < 0x10000 then
        [char_of (0xE0 + n div 0x1000), char_of (0x80 + n div 0x40 mod 0x40), char_of (0x80 + n mod 0x40)]
      else
        [char_of (0xF0 + n div 0x40000), char_of (0x80 + n div 0x1000 mod 0x40),
         char_of (0x80 + n div 0x40 mod 0x40), char_of (0x80 + n mod 0x40)])"

section \<open>Helpers of the engine\<close>

definition is_ident_start :: "byte \<Rightarrow> bool" where
  "is_ident_start c \<longleftrightarrow> byte_in 97 122 c \<or> byte_in 65 90 c \<or> c = CHR ''_'' \<or> c = CHR ''$''"

definition is_identifier :: "bytes \<Rightarrow> bool" where
  "is_identifier s \<longleftrightarrow>
     (case s of [] \<Rightarrow> False | c # r \<Rightarrow> is_ident_start c \<and> list_all (\<lambda>b. is_ident_start b \<or> is_digit b) r)"

definition is_simple_string_literal :: "bytes \<Rightarrow> bool" where
  "is_simple_string_literal s \<longleftrightarrow>
     (if length s < 2 then False
      else hd s = CHR ''\"'' \<and> last s = CHR ''\"'' \<or> hd s = CHR 0x27 \<and> last s = CHR 0x27)"

section \<open>Trimmed text\<close>

lemma trim_plain: "ws_front s = 0 \<Longrightarrow> ws_back (rev s) = 0 \<Longrightarrow> trim s = s"
  by (simp add: trim_def trim_start_def trim_end_def drop_ws.simps [of _ s] drop_ws.simps [of _ "rev s"])

lemma drop_ws_done: "drop_ws ws s = [] \<or> ws (drop_ws ws s) = 0"
proof (induction ws s rule: drop_ws.induct)
  case (1 ws s)
  then show ?case by (subst (1 2) drop_ws.simps) auto
qed

lemma drop_ws_suffix: "\<exists>u. s = u @ drop_ws ws s"
proof (induction ws s rule: drop_ws.induct)
  case (1 ws s)
  show ?case
  proof (cases "s = [] \<or> ws s = 0")
    case True
    then show ?thesis by (subst drop_ws.simps) auto
  next
    case False
    from 1 [OF False] obtain u where "drop (ws s) s = u @ drop_ws ws (drop (ws s) s)" by (elim exE)
    then have "s = (take (ws s) s @ u) @ drop_ws ws (drop (ws s) s)" by (metis append.assoc append_take_drop_id)
    moreover have "drop_ws ws s = drop_ws ws (drop (ws s) s)" using False by (subst drop_ws.simps) simp
    ultimately show ?thesis by metis
  qed
qed

lemma ws_front_prefix: "ws_front (x @ y) = 0 \<Longrightarrow> ws_front x = 0"
  by (cases x rule: list.exhaust; cases "tl x"; cases "tl (tl x)")
    (auto simp: ws_front_def split: list.splits if_splits)

lemma trim_ends: "ws_front (trim s) = 0" "ws_back (rev (trim s)) = 0"
proof -
  have nil: "ws_front [] = 0" "ws_back [] = 0" by (simp_all add: ws_front_def ws_back_def)
  let ?t = "trim_start s"
  obtain u where u: "rev ?t = u @ drop_ws ws_back (rev ?t)" using drop_ws_suffix by blast
  then have "?t = trim_end ?t @ rev u" unfolding trim_end_def by (metis rev_append rev_rev_ident)
  moreover have "ws_front ?t = 0" using drop_ws_done [of ws_front s] nil by (auto simp: trim_start_def)
  ultimately show "ws_front (trim s) = 0" unfolding trim_def by (metis ws_front_prefix)
  show "ws_back (rev (trim s)) = 0"
    using drop_ws_done [of ws_back "rev ?t"] nil by (auto simp: trim_def trim_end_def)
qed

lemma trim_trim: "trim (trim s) = trim s"
  by (rule trim_plain) (rule trim_ends)+

lemma ws_ascii:
  assumes "\<not> ascii_ws b \<and> (of_char b :: nat) < 128"
  shows "ws_front (b # r) = 0" "ws_back (b # r) = 0"
proof -
  have "\<not> ws_two b x" "\<not> ws_three b x y" "\<not> ws_two x b" "\<not> ws_three x y b" for x y
    using assms by (auto simp: ws_two_def ws_three_def byte_in_def)
  then show "ws_front (b # r) = 0" "ws_back (b # r) = 0"
    using assms by (simp_all add: ws_front_def ws_back_def split: list.split)
qed

lemma trim_ascii:
  assumes "s \<noteq> []" "\<not> ascii_ws (hd s) \<and> (of_char (hd s) :: nat) < 128" "\<not> ascii_ws (last s) \<and> (of_char (last s) :: nat) < 128"
  shows "trim s = s"
proof (rule trim_plain)
  show "ws_front s = 0" using ws_ascii(1) [OF assms(2), of "tl s"] assms(1) by simp
  have "rev s = last s # rev (butlast s)"
    using assms(1) append_butlast_last_id [of s] rev_append [of "butlast s" "[last s]"] by simp
  then show "ws_back (rev s) = 0" using ws_ascii(2) [OF assms(3)] by (simp only:)
qed

section \<open>Lengths\<close>

lemma length_drop_ws: "length (drop_ws ws s) \<le> length s"
proof (induction ws s rule: drop_ws.induct)
  case (1 ws s)
  then show ?case by (subst drop_ws.simps) (auto intro: order_trans)
qed

lemma length_trim_start: "length (trim_start s) \<le> length s"
  by (simp add: trim_start_def length_drop_ws)

lemma length_trim: "length (trim s) \<le> length s"
  using length_drop_ws [of ws_back "rev (trim_start s)"] length_trim_start [of s]
  by (simp add: trim_def trim_end_def)

end
