(* ===== verification/F64.thy ===== *)
theory F64
  imports Complex_Main Shard
begin

text \<open>
  The arithmetic of \<open>f64\<close> that the JavaScript engine uses: IEEE 754 double precision on bit patterns, with
  exact arithmetic on ratios and one rounding to the nearest, ties to even. A NaN result is the quiet NaN of
  positive sign. The lemmas say that on integers the arithmetic is exact, so that the integer paths of the
  virtual machine can be compared with its floating-point paths.
\<close>

unbundle bit_operations_syntax

named_theorems f64_facts "facts on conversions between integers and floats"

section \<open>Decoding\<close>

definition f64_inf :: nat where "f64_inf = 0x7FF0000000000000"
definition f64_nan :: f64 where "f64_nan = 0x7FF8000000000000"

definition f64_sign :: "f64 \<Rightarrow> bool" where
  "f64_sign w \<longleftrightarrow> unat w \<ge> 2 ^ 63"

definition f64_is_inf :: "f64 \<Rightarrow> bool" where
  "f64_is_inf w \<longleftrightarrow> f64_magnitude w = f64_inf"

definition f64_is_zero :: "f64 \<Rightarrow> bool" where
  "f64_is_zero w \<longleftrightarrow> f64_magnitude w = 0"

text \<open>A finite number is its mantissa times two to its exponent.\<close>

definition f64_mant :: "f64 \<Rightarrow> nat" where
  "f64_mant w = (let e = f64_magnitude w div 2 ^ 52; m = f64_magnitude w mod 2 ^ 52 in
     if e = 0 then m else 2 ^ 52 + m)"

definition f64_exp :: "f64 \<Rightarrow> int" where
  "f64_exp w = (let e = f64_magnitude w div 2 ^ 52 in (if e = 0 then 1 else int e) - 1075)"

section \<open>Rounding a ratio\<close>

fun bit_len :: "nat \<Rightarrow> nat" where
  "bit_len n = (if n = 0 then 0 else Suc (bit_len (n div 2)))"

declare bit_len.simps [simp del]

text \<open>The integer part of the binary logarithm of \<open>n / d\<close>.\<close>

definition ratio_log :: "nat \<Rightarrow> nat \<Rightarrow> int" where
  "ratio_log n d =
     (let l = int (bit_len n) - int (bit_len d) in
      if (if l \<ge> 0 then d * 2 ^ nat l \<le> n else d \<le> n * 2 ^ nat (- l)) then l else l - 1)"

definition round_even :: "nat \<Rightarrow> nat \<Rightarrow> nat" where
  "round_even n d =
     (let m = n div d; r = n mod d in if 2 * r > d \<or> (2 * r = d \<and> odd m) then m + 1 else m)"

text \<open>\<open>n / d\<close> in units of two to the \<open>q\<close>, rounded.\<close>

definition round_at :: "int \<Rightarrow> nat \<Rightarrow> nat \<Rightarrow> nat" where
  "round_at q n d = (if q \<ge> 0 then round_even n (d * 2 ^ nat q) else round_even (n * 2 ^ nat (- q)) d)"

text \<open>The mantissa has 53 bits, or fewer at the smallest exponent; a carry out of the mantissa moves into
  the exponent field by itself.\<close>

definition f64_round :: "bool \<Rightarrow> nat \<Rightarrow> nat \<Rightarrow> f64" where
  "f64_round s n d =
     (let q = max (ratio_log n d - 52) (- 1074);
          b = nat (q + 1074) * 2 ^ 52 + round_at q n d
      in word_of_nat ((if s then 2 ^ 63 else 0) + (if n = 0 then 0 else min b f64_inf)))"

definition f64_zero :: "bool \<Rightarrow> f64" where "f64_zero s = f64_round s 0 1"
definition f64_infinity :: "bool \<Rightarrow> f64" where
  "f64_infinity s = word_of_nat ((if s then 2 ^ 63 else 0) + f64_inf)"

text \<open>\<open>m\<close> times two to the \<open>q\<close>, and an integer.\<close>

definition f64_scaled :: "bool \<Rightarrow> nat \<Rightarrow> int \<Rightarrow> f64" where
  "f64_scaled s m q = (if q \<ge> 0 then f64_round s (m * 2 ^ nat q) 1 else f64_round s m (2 ^ nat (- q)))"

definition f64_of_int :: "int \<Rightarrow> f64" where
  "f64_of_int i = f64_round (i < 0) (nat \<bar>i\<bar>) 1"

section \<open>Arithmetic\<close>

definition f64_neg :: "f64 \<Rightarrow> f64" where
  "f64_neg w = word_of_nat ((if f64_sign w then 0 else 2 ^ 63) + f64_magnitude w)"

text \<open>The signed mantissa of a finite number at an exponent not above its own.\<close>

definition f64_at :: "int \<Rightarrow> f64 \<Rightarrow> int" where
  "f64_at e w = (if f64_sign w then - 1 else 1) * int (f64_mant w * 2 ^ nat (f64_exp w - e))"

definition f64_add :: "f64 \<Rightarrow> f64 \<Rightarrow> f64" where
  "f64_add a b =
     (if f64_is_nan a \<or> f64_is_nan b then f64_nan
      else if f64_is_inf a then (if f64_is_inf b \<and> f64_sign a \<noteq> f64_sign b then f64_nan else a)
      else if f64_is_inf b then b
      else let e = min (f64_exp a) (f64_exp b); s = f64_at e a + f64_at e b in
        if s = 0 then f64_zero (f64_sign a \<and> f64_sign b) else f64_scaled (s < 0) (nat \<bar>s\<bar>) e)"

definition f64_sub :: "f64 \<Rightarrow> f64 \<Rightarrow> f64" where
  "f64_sub a b = f64_add a (f64_neg b)"

definition f64_mul :: "f64 \<Rightarrow> f64 \<Rightarrow> f64" where
  "f64_mul a b =
     (let s = (f64_sign a \<noteq> f64_sign b) in
      if f64_is_nan a \<or> f64_is_nan b then f64_nan
      else if f64_is_inf a \<or> f64_is_inf b then
        (if f64_is_zero a \<or> f64_is_zero b then f64_nan else f64_infinity s)
      else f64_scaled s (f64_mant a * f64_mant b) (f64_exp a + f64_exp b))"

definition f64_div :: "f64 \<Rightarrow> f64 \<Rightarrow> f64" where
  "f64_div a b =
     (let s = (f64_sign a \<noteq> f64_sign b); q = f64_exp a - f64_exp b in
      if f64_is_nan a \<or> f64_is_nan b then f64_nan
      else if f64_is_inf a then (if f64_is_inf b then f64_nan else f64_infinity s)
      else if f64_is_inf b then f64_zero s
      else if f64_is_zero b then (if f64_is_zero a then f64_nan else f64_infinity s)
      else f64_round s (f64_mant a * 2 ^ nat q) (f64_mant b * 2 ^ nat (- q)))"

text \<open>The remainder of truncating division, which has the sign of the dividend.\<close>

definition f64_rem :: "f64 \<Rightarrow> f64 \<Rightarrow> f64" where
  "f64_rem a b =
     (if f64_is_nan a \<or> f64_is_nan b \<or> f64_is_inf a \<or> f64_is_zero b then f64_nan
      else if f64_is_inf b then a
      else let e = min (f64_exp a) (f64_exp b) in
        f64_scaled (f64_sign a) (nat (\<bar>f64_at e a\<bar> mod \<bar>f64_at e b\<bar>)) e)"

definition f64_eq :: "f64 \<Rightarrow> f64 \<Rightarrow> bool" where "f64_eq a b \<longleftrightarrow> f64_partial_cmp a b = Some Equal"
definition f64_lt :: "f64 \<Rightarrow> f64 \<Rightarrow> bool" where "f64_lt a b \<longleftrightarrow> f64_partial_cmp a b = Some Less"
definition f64_le :: "f64 \<Rightarrow> f64 \<Rightarrow> bool" where "f64_le a b \<longleftrightarrow> f64_lt a b \<or> f64_eq a b"

text \<open>The casts \<open>as i32\<close> and \<open>as u32\<close>: the integer part, saturating; a NaN gives zero.\<close>

definition f64_trunc :: "f64 \<Rightarrow> int" where
  "f64_trunc w = (if f64_sign w then - 1 else 1) *
     int (if f64_exp w \<ge> 0 then f64_mant w * 2 ^ nat (f64_exp w) else f64_mant w div 2 ^ nat (- f64_exp w))"

definition f64_cast :: "int \<Rightarrow> int \<Rightarrow> f64 \<Rightarrow> int" where
  "f64_cast lo hi w =
     (if f64_is_nan w then 0
      else if f64_is_inf w then (if f64_sign w then lo else hi)
      else max lo (min hi (f64_trunc w)))"

definition i32_min :: int where "i32_min = - (2 ^ 31)"
definition i32_max :: int where "i32_max = 2 ^ 31 - 1"
definition in_i32 :: "int \<Rightarrow> bool" where "in_i32 i \<longleftrightarrow> i32_min \<le> i \<and> i \<le> i32_max"

definition f64_to_i32 :: "f64 \<Rightarrow> int" where "f64_to_i32 = f64_cast i32_min i32_max"
definition f64_to_u32 :: "f64 \<Rightarrow> int" where "f64_to_u32 = f64_cast 0 (2 ^ 32 - 1)"

section \<open>Reading a decimal fraction\<close>

text \<open>\<open>str::parse::<f64>\<close>: an optional sign, then \<open>inf\<close>, \<open>infinity\<close>, \<open>nan\<close> in any case, or digits with an optional
  fraction and an optional exponent, with at least one digit before the exponent.\<close>

definition span_digits :: "bytes \<Rightarrow> bytes \<times> bytes" where
  "span_digits s = (takeWhile is_digit s, dropWhile is_digit s)"

definition parse_exponent :: "bytes \<Rightarrow> int option" where
  "parse_exponent s =
     (case s of
        [] \<Rightarrow> Some 0
      | c # rest \<Rightarrow>
          if c \<noteq> CHR ''e'' \<and> c \<noteq> CHR ''E'' then None
          else let neg = (case rest of d # _ \<Rightarrow> d = CHR ''-'' | [] \<Rightarrow> False);
                   ds = (case rest of d # ds \<Rightarrow> if d = CHR ''-'' \<or> d = CHR ''+'' then ds else rest | [] \<Rightarrow> [])
            in if ds = [] \<or> \<not> list_all is_digit ds then None
               else Some (if neg then - int (nat_of_dec ds) else int (nat_of_dec ds)))"

definition f64_of_decimal :: "bool \<Rightarrow> nat \<Rightarrow> int \<Rightarrow> f64" where
  "f64_of_decimal s n e = (if e \<ge> 0 then f64_round s (n * 10 ^ nat e) 1 else f64_round s n (10 ^ nat (- e)))"

definition lower_byte :: "byte \<Rightarrow> byte" where
  "lower_byte c = (if CHR ''A'' \<le> c \<and> c \<le> CHR ''Z'' then char_of (of_char c + 32 :: nat) else c)"

definition f64_from_str :: "bytes \<Rightarrow> f64 option" where
  "f64_from_str s =
     (let neg = (case s of c # _ \<Rightarrow> c = CHR ''-'' | [] \<Rightarrow> False);
          body = (case s of c # cs \<Rightarrow> if c = CHR ''-'' \<or> c = CHR ''+'' then cs else s | [] \<Rightarrow> []);
          low = map lower_byte body;
          (ip, r) = span_digits body;
          (fp, r') = (case r of c # cs \<Rightarrow> if c = CHR ''.'' then span_digits cs else ([], r) | [] \<Rightarrow> ([], []))
      in if low = ''inf'' \<or> low = ''infinity'' then Some (f64_infinity neg)
         else if low = ''nan'' then Some f64_nan
         else if ip = [] \<and> fp = [] then None
         else map_option (\<lambda>e. f64_of_decimal neg (nat_of_dec (ip @ fp)) (e - int (length fp))) (parse_exponent r'))"

section \<open>The logarithm and the rounding of a ratio\<close>

lemma bit_len_bounds: "0 < n \<Longrightarrow> 2 ^ bit_len n \<le> 2 * n \<and> n < 2 ^ bit_len n"
proof (induction n rule: bit_len.induct)
  case (1 n)
  show ?case
  proof (cases "n div 2 = 0")
    case True
    then have "n = 1" using 1(2) by simp
    then show ?thesis by (simp add: bit_len.simps)
  next
    case False
    then have "2 ^ bit_len (n div 2) \<le> 2 * (n div 2) \<and> n div 2 < 2 ^ bit_len (n div 2)"
      using 1 by simp
    moreover have "bit_len n = Suc (bit_len (n div 2))" using 1(2) by (simp add: bit_len.simps [of n])
    moreover have "2 * (n div 2) \<le> n" "n < 2 * (n div 2) + 2" by simp_all
    ultimately show ?thesis by (simp only: power_Suc) linarith
  qed
qed

text \<open>\<open>k\<close> is the integer part of the binary logarithm of a positive real.\<close>

definition is_log2 :: "real \<Rightarrow> int \<Rightarrow> bool" where
  "is_log2 x k \<longleftrightarrow> 2 powi k \<le> x \<and> x < 2 powi (k + 1)"

lemma powi_mono_iff: "(2 :: real) powi a \<le> 2 powi b \<longleftrightarrow> a \<le> b"
  using power_int_increasing [of a b "2 :: real"] power_int_strict_increasing [of b a "2 :: real"]
  by (cases "a \<le> b") auto

lemma is_log2_unique:
  assumes "is_log2 x a" "is_log2 x b"
  shows "a = b"
proof -
  have "(2 :: real) powi a < 2 powi (b + 1)" "(2 :: real) powi b < 2 powi (a + 1)"
    using assms by (auto simp: is_log2_def)
  then have "\<not> (2 :: real) powi (b + 1) \<le> 2 powi a" "\<not> (2 :: real) powi (a + 1) \<le> 2 powi b" by simp_all
  then show ?thesis by (simp add: powi_mono_iff)
qed

lemma powi_nat: "(2 :: real) powi l = (if l \<ge> 0 then 2 ^ nat l else 1 / 2 ^ nat (- l))"
  by (simp add: power_int_def field_simps)

lemma ratio_le_iff:
  assumes "0 < d"
  shows "(if l \<ge> 0 then d * 2 ^ nat l \<le> n else d \<le> n * 2 ^ nat (- l)) \<longleftrightarrow> 2 powi l \<le> real n / real d"
proof (cases "l \<ge> 0")
  case True
  have "d * 2 ^ nat l \<le> n \<longleftrightarrow> real (d * 2 ^ nat l) \<le> real n" by (simp only: of_nat_le_iff)
  then show ?thesis using True assms by (simp add: powi_nat field_simps)
next
  case False
  have "d \<le> n * 2 ^ nat (- l) \<longleftrightarrow> real d \<le> real (n * 2 ^ nat (- l))" by (simp only: of_nat_le_iff)
  then show ?thesis using False assms by (simp add: powi_nat field_simps)
qed

lemma ratio_log_is_log2:
  assumes "0 < n" "0 < d"
  shows "is_log2 (real n / real d) (ratio_log n d)"
proof -
  let ?a = "bit_len n" and ?b = "bit_len d"
  define l where "l = int ?a - int ?b"
  have n: "2 ^ ?a \<le> 2 * real n" "real n < 2 ^ ?a" and d: "2 ^ ?b \<le> 2 * real d" "real d < 2 ^ ?b"
    using bit_len_bounds [OF assms(1)] bit_len_bounds [OF assms(2)]
    by (simp_all only: of_nat_le_iff [symmetric, where 'a = real] of_nat_less_iff [symmetric, where 'a = real]
        of_nat_power of_nat_mult of_nat_numeral)
  have "2 ^ ?a / 2 ^ ?b \<le> 2 * real n / real d"
    by (rule frac_le) (use n d assms in simp_all)
  moreover have "real n / real d < 2 ^ ?a / (2 ^ ?b / 2)"
    by (rule frac_less) (use n d in simp_all)
  moreover have "(2 :: real) ^ ?a / 2 ^ ?b = 2 powi l"
    by (simp add: l_def power_int_diff)
  ultimately have lo: "2 powi (l - 1) \<le> real n / real d" and hi: "real n / real d < 2 powi (l + 1)"
    by (simp_all add: power_int_add power_int_diff mult.commute)
  show ?thesis
    unfolding ratio_log_def Let_def l_def [symmetric] ratio_le_iff [OF assms(2)]
    using lo hi by (auto simp: is_log2_def)
qed

lemma ratio_log_eqI: "0 < n \<Longrightarrow> 0 < d \<Longrightarrow> is_log2 (real n / real d) k \<Longrightarrow> ratio_log n d = k"
  by (rule is_log2_unique [OF ratio_log_is_log2])

lemma ratio_log_cancel: "0 < n \<Longrightarrow> 0 < d \<Longrightarrow> 0 < c \<Longrightarrow> ratio_log (n * c) (d * c) = ratio_log n d"
  by (rule ratio_log_eqI) (use ratio_log_is_log2 [of n d] in simp_all)

lemma round_even_cancel: "0 < c \<Longrightarrow> round_even (n * c) (d * c) = round_even n d"
  unfolding round_even_def Let_def
  by (simp add: mult_mod_left [symmetric] flip: mult.assoc)

lemma round_at_cancel: "0 < c \<Longrightarrow> round_at q (n * c) (d * c) = round_at q n d"
  using round_even_cancel [of c n "d * 2 ^ nat q"] round_even_cancel [of c "n * 2 ^ nat (- q)" d]
  by (simp add: round_at_def mult_ac)

lemma f64_round_cancel:
  assumes "0 < d" "0 < c"
  shows "f64_round s (n * c) (d * c) = f64_round s n d"
  using assms by (cases "n = 0") (simp_all add: f64_round_def ratio_log_cancel round_at_cancel)

section \<open>Integers\<close>

lemma unat_f64_bits:
  assumes "b < 2 ^ 63"
  shows "unat (word_of_nat ((if s then 2 ^ 63 else 0) + b) :: f64) = (if s then 2 ^ 63 else 0) + b"
  using assms by (subst unat_of_nat) (simp add: take_bit_nat_def)

lemma f64_fields:
  fixes s :: bool
  assumes "b < 2 ^ 63"
  defines "w \<equiv> word_of_nat ((if s then 2 ^ 63 else 0) + b) :: f64"
  shows "f64_sign w = s" "f64_magnitude w = b"
  unfolding w_def f64_sign_def f64_magnitude_def unat_f64_bits [OF assms(1)] using assms(1) by simp_all

lemma round_even_1 [simp]: "round_even n 1 = n" "round_even n (Suc 0) = n"
  by (simp_all add: round_even_def)

lemma f64_field_split:
  assumes "2 ^ 52 \<le> m" "m < 2 ^ 53"
  shows "((k + 1022) * 2 ^ 52 + m) div 2 ^ 52 = k + 1023" "((k + 1022) * 2 ^ 52 + m) mod 2 ^ 52 = m - (2 ^ 52 :: nat)"
proof -
  obtain r where r: "m = 2 ^ 52 + r" "r < 2 ^ 52" using assms by (auto simp: le_iff_add)
  have e: "(k + 1022) * 2 ^ 52 + m = r + 2 ^ 52 * (k + 1023)" using r(1) by simp
  show "((k + 1022) * 2 ^ 52 + m) div 2 ^ 52 = k + 1023" "((k + 1022) * 2 ^ 52 + m) mod 2 ^ 52 = m - 2 ^ 52"
    unfolding e mod_mult_self2 div_mult_self2 [OF power_not_zero [of 2 52]] using r by simp_all
qed

lemma f64_round_bits:
  fixes s :: bool
  assumes "0 < n" "n < 2 ^ 53"
  obtains k where "k \<le> 52" "2 ^ k \<le> n" "n < 2 ^ (k + 1)" "f64_sign (f64_round s n 1) = s"
    "f64_magnitude (f64_round s n 1) = (k + 1022) * 2 ^ 52 + n * 2 ^ (52 - k)"
    "2 ^ 52 \<le> n * 2 ^ (52 - k)" "n * 2 ^ (52 - k) < 2 ^ 53"
proof -
  define k where "k = nat (ratio_log n 1)"
  have log: "is_log2 (real n) (ratio_log n 1)" using ratio_log_is_log2 [of n 1] assms by simp
  have "0 \<le> ratio_log n 1"
  proof (rule ccontr)
    assume "\<not> 0 \<le> ratio_log n 1"
    then have "(2 :: real) powi (ratio_log n 1 + 1) \<le> 2 powi 0" by (simp only: powi_mono_iff)
    then show False using log assms by (simp add: is_log2_def)
  qed
  then have k: "ratio_log n 1 = int k" by (simp add: k_def)
  have "real (2 ^ k) \<le> real n" "real n < real (2 ^ (k + 1))"
    using log unfolding k is_log2_def by (simp_all add: powi_nat nat_add_distrib)
  then have kn: "2 ^ k \<le> n" "n < 2 ^ (k + 1)" by (simp_all only: of_nat_le_iff of_nat_less_iff)
  then have "(2 :: nat) ^ k < 2 ^ 53" using assms(2) by linarith
  then have k52: "k \<le> 52" by (simp only: power_strict_increasing_iff)
  define m where "m = n * 2 ^ (52 - k)"
  have "(2 :: nat) ^ 52 = 2 ^ k * 2 ^ (52 - k)" "(2 :: nat) ^ 53 = 2 ^ (k + 1) * 2 ^ (52 - k)"
    using k52 by (simp_all only: power_add [symmetric]) simp_all
  then have m: "2 ^ 52 \<le> m" "m < 2 ^ 53" using kn by (simp_all only: m_def mult_le_mono1 mult_less_mono1) simp_all
  have at: "round_at (int k - 52) n 1 = m"
    using k52 by (cases "k = 52") (simp_all add: round_at_def m_def nat_diff_distrib)
  let ?b = "(k + 1022) * 2 ^ 52 + m"
  have b: "?b < f64_inf" using m(2) k52 by (simp add: f64_inf_def)
  have q: "max (int k - 52) (- 1074) = int k - 52" and e: "nat (int k - 52 + 1074) = k + 1022" by simp_all
  have "f64_round s n 1 = word_of_nat ((if s then 2 ^ 63 else 0) + ?b)"
    unfolding f64_round_def k Let_def q at
    using assms(1) b by (simp only: if_False e min_absorb1 less_imp_le neq0_conv [THEN iffD2])
  then have w: "f64_sign (f64_round s n 1) = s" "f64_magnitude (f64_round s n 1) = ?b"
    using f64_fields [of ?b s] b by (simp_all add: f64_inf_def)
  show thesis by (rule that [OF k52 kn w(1)]) (use w(2) m m_def in simp_all)
qed

lemma f64_round_0:
  shows "f64_sign (f64_round s 0 1) = s" "f64_magnitude (f64_round s 0 1) = 0"
proof -
  have "f64_round s 0 1 = word_of_nat ((if s then 2 ^ 63 else 0) + 0)" by (simp add: f64_round_def)
  then show "f64_sign (f64_round s 0 1) = s" "f64_magnitude (f64_round s 0 1) = 0"
    using f64_fields [of 0 s] by simp_all
qed

text \<open>An integer below two to the 53 is a finite number whose mantissa is the integer shifted.\<close>

lemma f64_round_int:
  fixes s :: bool
  assumes "n < 2 ^ 53"
  defines "w \<equiv> f64_round s n 1"
  shows "f64_sign w = s" "f64_exp w \<le> 0" "f64_mant w = n * 2 ^ nat (- f64_exp w)"
    "\<not> f64_is_nan w" "\<not> f64_is_inf w" "f64_is_zero w \<longleftrightarrow> n = 0"
proof -
  have "f64_sign w = s \<and> f64_exp w \<le> 0 \<and> f64_mant w = n * 2 ^ nat (- f64_exp w) \<and>
    \<not> f64_is_nan w \<and> \<not> f64_is_inf w \<and> (f64_is_zero w \<longleftrightarrow> n = 0)"
  proof (cases "n = 0")
    case True
    then show ?thesis using f64_round_0 [of s]
      by (simp add: w_def f64_exp_def f64_mant_def f64_is_nan_def f64_is_inf_def f64_is_zero_def f64_inf_def)
  next
    case False
    then obtain k where k: "k \<le> 52" "f64_sign w = s" "f64_magnitude w = (k + 1022) * 2 ^ 52 + n * 2 ^ (52 - k)"
      "2 ^ 52 \<le> n * 2 ^ (52 - k)" "n * 2 ^ (52 - k) < 2 ^ 53"
      using f64_round_bits [of n s] assms by auto
    show ?thesis
      using k False f64_field_split [OF k(4,5), of k]
      by (simp add: f64_exp_def f64_mant_def f64_is_nan_def f64_is_inf_def f64_is_zero_def f64_inf_def
          nat_diff_distrib)
  qed
  then show "f64_sign w = s" "f64_exp w \<le> 0" "f64_mant w = n * 2 ^ nat (- f64_exp w)"
    "\<not> f64_is_nan w" "\<not> f64_is_inf w" "f64_is_zero w \<longleftrightarrow> n = 0" by simp_all
qed

lemma f64_magnitude_mono:
  assumes "m < n" "n < 2 ^ 53"
  shows "f64_magnitude (f64_round s m 1) < f64_magnitude (f64_round t n 1)"
proof (rule f64_round_bits [of n t])
  show "0 < n" "n < 2 ^ 53" using assms by simp_all
  fix k
  assume k: "k \<le> 52" "2 ^ k \<le> n" "n < 2 ^ (k + 1)"
    "f64_magnitude (f64_round t n 1) = (k + 1022) * 2 ^ 52 + n * 2 ^ (52 - k)" "2 ^ 52 \<le> n * 2 ^ (52 - k)"
  show ?thesis
  proof (cases "m = 0")
    case True
    then show ?thesis using k(4,5) f64_round_0(2) [of s] by simp
  next
    case False
    show ?thesis
    proof (rule f64_round_bits [of m s])
      show "0 < m" "m < 2 ^ 53" using assms False by simp_all
      fix j
      assume j: "j \<le> 52" "2 ^ j \<le> m"
        "f64_magnitude (f64_round s m 1) = (j + 1022) * 2 ^ 52 + m * 2 ^ (52 - j)" "m * 2 ^ (52 - j) < 2 ^ 53"
      have "(2 :: nat) ^ j < 2 ^ (k + 1)" using j(2) k(3) assms(1) by linarith
      then have "j < k + 1" by (simp only: power_strict_increasing_iff)
      then consider "j = k" | "j + 1 \<le> k" by linarith
      then show ?thesis
      proof cases
        case 1
        then show ?thesis using assms(1) unfolding j(3) k(4) by simp
      next
        case 2
        have "(j + 1022) * 2 ^ 52 + m * 2 ^ (52 - j) < (j + 1022) * 2 ^ 52 + 2 ^ 53" using j(4) by (rule add_strict_left_mono)
        also have "\<dots> = (j + 1 + 1022) * 2 ^ 52 + 2 ^ 52" by simp
        also have "\<dots> \<le> (k + 1022) * 2 ^ 52 + n * 2 ^ (52 - k)"
          by (rule add_mono [OF mult_le_mono1 k(5)]) (use 2 in simp)
        finally show ?thesis unfolding j(3) k(4) .
      qed
    qed
  qed
qed

lemma f64_magnitude_less_iff:
  assumes "m < 2 ^ 53" "n < 2 ^ 53"
  shows "f64_magnitude (f64_round s m 1) < f64_magnitude (f64_round t n 1) \<longleftrightarrow> m < n"
    and "f64_magnitude (f64_round s m 1) = f64_magnitude (f64_round t n 1) \<longleftrightarrow> m = n"
proof -
  have *: "f64_magnitude (f64_round s m 1) = f64_magnitude (f64_round t m 1)" if "m < 2 ^ 53" for s t and m :: nat
  proof (cases "m = 0")
    case False
    show ?thesis
    proof (rule f64_round_bits [of m s])
      show "0 < m" "m < 2 ^ 53" using that False by simp_all
      fix j
      assume j: "2 ^ j \<le> m" "m < 2 ^ (j + 1)"
        "f64_magnitude (f64_round s m 1) = (j + 1022) * 2 ^ 52 + m * 2 ^ (52 - j)"
      show ?thesis
      proof (rule f64_round_bits [of m t])
        show "0 < m" "m < 2 ^ 53" using that False by simp_all
        fix k
        assume k: "2 ^ k \<le> m" "m < 2 ^ (k + 1)"
          "f64_magnitude (f64_round t m 1) = (k + 1022) * 2 ^ 52 + m * 2 ^ (52 - k)"
        have "(2 :: nat) ^ j < 2 ^ (k + 1)" "(2 :: nat) ^ k < 2 ^ (j + 1)" using j k by linarith+
        then have "j = k" by (simp only: power_strict_increasing_iff)
        then show ?thesis by (simp only: j(3) k(3))
      qed
    qed
  qed (simp only: f64_round_0)
  show "f64_magnitude (f64_round s m 1) < f64_magnitude (f64_round t n 1) \<longleftrightarrow> m < n"
    "f64_magnitude (f64_round s m 1) = f64_magnitude (f64_round t n 1) \<longleftrightarrow> m = n"
    using f64_magnitude_mono [of m n s t] f64_magnitude_mono [of n m t s] * [of m s t] assms
    by (cases m n rule: linorder_cases; simp)+
qed

definition f64_small :: "int \<Rightarrow> bool" where "f64_small i \<longleftrightarrow> \<bar>i\<bar> < 2 ^ 53"

lemma f64_small_i32: "in_i32 i \<Longrightarrow> f64_small i"
  by (auto simp: in_i32_def i32_min_def i32_max_def f64_small_def)

lemma f64_small_0: "f64_small 0"
  by (simp add: f64_small_def)

lemma f64_small_nat: "f64_small i \<Longrightarrow> nat \<bar>i\<bar> < 2 ^ 53"
  by (simp add: f64_small_def nat_less_iff)

lemmas f64_of_int_props =
  f64_round_int [OF f64_small_nat, of i "i < 0" for i, folded f64_of_int_def]

lemma f64_of_int_fields [f64_facts]:
  assumes "f64_small i"
  shows "f64_sign (f64_of_int i) \<longleftrightarrow> i < 0" "f64_is_nan (f64_of_int i) = False" "f64_is_inf (f64_of_int i) = False"
    "f64_is_zero (f64_of_int i) \<longleftrightarrow> i = 0"
  using f64_of_int_props [OF assms] by simp_all

lemma f64_at_int:
  assumes "f64_small i" "e \<le> f64_exp (f64_of_int i)"
  shows "f64_at e (f64_of_int i) = i * 2 ^ nat (- e)"
proof -
  have exp: "f64_exp (f64_of_int i) \<le> 0" by (rule f64_of_int_props [OF assms(1)])
  have "2 ^ nat (- f64_exp (f64_of_int i)) * 2 ^ nat (f64_exp (f64_of_int i) - e) = (2 :: int) ^ nat (- e)"
    using assms(2) exp by (simp flip: power_add nat_add_distrib)
  moreover have "int (f64_mant (f64_of_int i)) = \<bar>i\<bar> * 2 ^ nat (- f64_exp (f64_of_int i))"
    using f64_of_int_props(3) [OF assms(1)] by simp
  ultimately show ?thesis
    using assms(1) by (simp add: f64_at_def f64_of_int_fields mult.assoc)
qed

lemma f64_scaled_int:
  assumes "e \<le> 0"
  shows "f64_scaled s (n * 2 ^ nat (- e)) e = f64_round s n 1"
  using f64_round_cancel [of 1 "2 ^ nat (- e)" s n] assms by (cases "e = 0") (simp_all add: f64_scaled_def)

lemma nat_abs_mult_power: "nat \<bar>i * 2 ^ k\<bar> = nat \<bar>i\<bar> * 2 ^ k"
  by (simp add: abs_mult nat_mult_distrib nat_power_eq)

lemma f64_scaled_of_int:
  "e \<le> 0 \<Longrightarrow> f64_scaled (i * 2 ^ nat (- e) < 0) (nat \<bar>i * 2 ^ nat (- e)\<bar>) e = f64_of_int i"
  unfolding nat_abs_mult_power f64_scaled_int f64_of_int_def by (simp add: f64_scaled_int mult_less_0_iff)

lemma f64_zero_False: "f64_zero False = f64_of_int 0"
  by (simp add: f64_zero_def f64_of_int_def)

lemma f64_add_int [f64_facts]:
  assumes "f64_small i" "f64_small j"
  shows "f64_add (f64_of_int i) (f64_of_int j) = f64_of_int (i + j)"
proof -
  let ?e = "min (f64_exp (f64_of_int i)) (f64_exp (f64_of_int j))"
  have e: "?e \<le> 0" using f64_of_int_props(2) [OF assms(1)] by (simp add: min_le_iff_disj)
  have s: "f64_at ?e (f64_of_int i) + f64_at ?e (f64_of_int j) = (i + j) * 2 ^ nat (- ?e)"
    by (simp add: f64_at_int assms distrib_right)
  have "f64_zero (i < 0 \<and> j < 0) = f64_of_int (i + j)" if "i + j = 0"
  proof -
    have "(i < 0 \<and> j < 0) = False" using that by auto
    then show ?thesis by (simp only: that f64_zero_False)
  qed
  then show ?thesis
    unfolding f64_add_def Let_def s f64_scaled_of_int [OF e] by (simp add: f64_of_int_fields assms)
qed

lemma f64_neg_round: "f64_neg (f64_round s n d) = f64_round (\<not> s) n d"
proof -
  define b where "b = (if n = 0 then 0 else min (nat (max (ratio_log n d - 52) (- 1074) + 1074) * 2 ^ 52 +
    round_at (max (ratio_log n d - 52) (- 1074)) n d) f64_inf)"
  have b: "b < 2 ^ 63" by (auto simp: b_def f64_inf_def min_less_iff_disj)
  have r: "f64_round t n d = word_of_nat ((if t then 2 ^ 63 else 0) + b)" for t
    by (simp only: f64_round_def Let_def b_def)
  show ?thesis unfolding f64_neg_def r f64_fields [OF b] by (simp cong: if_cong)
qed

lemma f64_neg_int [f64_facts]: "i \<noteq> 0 \<Longrightarrow> f64_neg (f64_of_int i) = f64_of_int (- i)"
  by (cases "i < 0") (simp_all add: f64_of_int_def f64_neg_round)

lemma f64_neg_0 [f64_facts]: "f64_neg (f64_of_int 0) = f64_zero True"
  by (simp add: f64_of_int_def f64_neg_round f64_zero_def)

lemma f64_add_neg_zero:
  assumes "f64_small i"
  shows "f64_add (f64_of_int i) (f64_zero True) = f64_of_int i"
proof -
  have z: "f64_sign (f64_zero True)" "f64_mant (f64_zero True) = 0" "\<not> f64_is_nan (f64_zero True)"
    "\<not> f64_is_inf (f64_zero True)" "f64_exp (f64_zero True) \<le> 0"
    using f64_round_int [of 0 True] by (simp_all add: f64_zero_def)
  let ?e = "min (f64_exp (f64_of_int i)) (f64_exp (f64_zero True))"
  have e: "?e \<le> 0" using z by (simp add: min_le_iff_disj)
  have s: "f64_at ?e (f64_of_int i) + f64_at ?e (f64_zero True) = i * 2 ^ nat (- ?e)"
    using f64_at_int [OF assms, of ?e] z by (simp add: f64_at_def [of _ "f64_zero True"])
  show ?thesis
    unfolding f64_add_def Let_def s f64_scaled_of_int [OF e] using z f64_zero_False
    by (simp add: f64_of_int_fields assms f64_small_0)
qed

lemma f64_sub_int [f64_facts]:
  assumes "f64_small i" "f64_small j"
  shows "f64_sub (f64_of_int i) (f64_of_int j) = f64_of_int (i - j)"
proof (cases "j = 0")
  case True
  then show ?thesis using assms by (simp add: f64_sub_def f64_neg_0 f64_add_neg_zero)
next
  case False
  have "f64_small (- j)" using assms(2) by (simp add: f64_small_def)
  then show ?thesis using False assms(1) by (simp add: f64_sub_def f64_neg_int f64_add_int)
qed

lemma f64_mul_int [f64_facts]:
  assumes "f64_small i" "f64_small j"
  shows "f64_mul (f64_of_int i) (f64_of_int j) = (if i * j = 0 then f64_zero ((i < 0) \<noteq> (j < 0)) else f64_of_int (i * j))"
proof -
  let ?a = "f64_exp (f64_of_int i)" and ?b = "f64_exp (f64_of_int j)"
  have e: "?a \<le> 0" "?b \<le> 0" using f64_of_int_props(2) assms by simp_all
  have "f64_mant (f64_of_int i) * f64_mant (f64_of_int j) = nat \<bar>i * j\<bar> * 2 ^ nat (- (?a + ?b))"
    unfolding f64_of_int_props(3) [OF assms(1)] f64_of_int_props(3) [OF assms(2)]
    using e by (simp add: abs_mult nat_mult_distrib) (simp flip: power_add nat_add_distrib)
  then have s: "f64_scaled s (f64_mant (f64_of_int i) * f64_mant (f64_of_int j)) (?a + ?b) = f64_round s (nat \<bar>i * j\<bar>) 1" for s
    using e by (simp only: f64_scaled_int add_nonpos_nonpos)
  have "f64_round ((i < 0) \<noteq> (j < 0)) (nat \<bar>i * j\<bar>) 1 =
      (if i * j = 0 then f64_zero ((i < 0) \<noteq> (j < 0)) else f64_of_int (i * j))"
  proof (cases "i * j = 0")
    case True
    then show ?thesis by (simp only: f64_zero_def) simp
  next
    case False
    then have "((i < 0) \<noteq> (j < 0)) = (i * j < 0)" by (simp add: mult_less_0_iff) linarith
    then show ?thesis using False by (simp only: f64_of_int_def if_False)
  qed
  then show ?thesis
    unfolding f64_mul_def Let_def s f64_of_int_fields [OF assms(1)] f64_of_int_fields [OF assms(2)]
    by (simp only: if_False simp_thms)
qed

lemma f64_mant_int:
  "f64_small i \<Longrightarrow> f64_mant (f64_of_int i) = nat \<bar>i\<bar> * 2 ^ nat (- f64_exp (f64_of_int i))"
  by (rule f64_of_int_props)

text \<open>The quotient is one rounding of the ratio; it is exact where the division is.\<close>

lemma f64_div_int:
  assumes "f64_small i" "f64_small j" "j \<noteq> 0"
  shows "f64_div (f64_of_int i) (f64_of_int j) = f64_round ((i < 0) \<noteq> (j < 0)) (nat \<bar>i\<bar>) (nat \<bar>j\<bar>)"
proof -
  let ?a = "f64_exp (f64_of_int i)" and ?b = "f64_exp (f64_of_int j)"
  have e: "?a \<le> 0" "?b \<le> 0" using f64_of_int_props(2) assms by simp_all
  define c where "c = max (nat (- ?a)) (nat (- ?b))"
  have c: "nat (- ?a) + nat (?a - ?b) = c" "nat (- ?b) + nat (- (?a - ?b)) = c"
    using e by (auto simp: c_def max_def)
  have "f64_mant (f64_of_int i) * 2 ^ nat (?a - ?b) = nat \<bar>i\<bar> * 2 ^ c"
    "f64_mant (f64_of_int j) * 2 ^ nat (- (?a - ?b)) = nat \<bar>j\<bar> * 2 ^ c"
    unfolding f64_mant_int [OF assms(1)] f64_mant_int [OF assms(2)] mult.assoc power_add [symmetric] c by simp_all
  then show ?thesis
    unfolding f64_div_def Let_def
    by (simp add: f64_of_int_fields assms f64_round_cancel)
qed

lemma f64_div_exact [f64_facts]:
  assumes "f64_small i" "f64_small j" "j \<noteq> 0" "i mod j = 0" "i \<noteq> 0"
  shows "f64_div (f64_of_int i) (f64_of_int j) = f64_of_int (i div j)"
proof -
  obtain t where t: "i = j * t" using assms(4) by (auto simp: mod_eq_0_iff_dvd)
  have "nat \<bar>i\<bar> = nat \<bar>t\<bar> * nat \<bar>j\<bar>" by (simp add: t abs_mult nat_mult_distrib)
  then have "f64_round s (nat \<bar>i\<bar>) (nat \<bar>j\<bar>) = f64_round s (nat \<bar>t\<bar>) 1" for s
    using f64_round_cancel [of 1 "nat \<bar>j\<bar>" s "nat \<bar>t\<bar>"] assms(3) by simp
  moreover have "((i < 0) \<noteq> (j < 0)) = (t < 0)" using assms(3,5) by (auto simp: t mult_less_0_iff zero_less_mult_iff)
  ultimately show ?thesis
    using assms(3) unfolding f64_div_int [OF assms(1-3)] by (simp add: f64_of_int_def t)
qed

lemma f64_rem_int [f64_facts]:
  assumes "f64_small i" "f64_small j" "j \<noteq> 0"
  shows "f64_rem (f64_of_int i) (f64_of_int j) = f64_round (i < 0) (nat (\<bar>i\<bar> mod \<bar>j\<bar>)) 1"
proof -
  let ?e = "min (f64_exp (f64_of_int i)) (f64_exp (f64_of_int j))"
  have e: "?e \<le> 0" using f64_of_int_props(2) [OF assms(1)] by (simp add: min_le_iff_disj)
  have "\<bar>f64_at ?e (f64_of_int i)\<bar> mod \<bar>f64_at ?e (f64_of_int j)\<bar> = (\<bar>i\<bar> mod \<bar>j\<bar>) * 2 ^ nat (- ?e)"
    by (simp add: f64_at_int assms abs_mult mult_mod_left)
  moreover have "nat ((\<bar>i\<bar> mod \<bar>j\<bar>) * 2 ^ nat (- ?e)) = nat (\<bar>i\<bar> mod \<bar>j\<bar>) * 2 ^ nat (- ?e)"
    using assms(3) by (simp add: nat_mult_distrib nat_power_eq)
  ultimately show ?thesis
    unfolding f64_rem_def Let_def
    by (simp only: f64_of_int_fields assms f64_scaled_int [OF e] simp_thms if_False)
qed

lemma f64_trunc_int:
  assumes "f64_small i"
  shows "f64_trunc (f64_of_int i) = i"
  using f64_of_int_props(2) [OF assms] f64_mant_int [OF assms]
  by (simp add: f64_trunc_def f64_of_int_fields assms)

lemma f64_cast_int [f64_facts]:
  "f64_small i \<Longrightarrow> lo \<le> i \<Longrightarrow> i \<le> hi \<Longrightarrow> f64_cast lo hi (f64_of_int i) = i"
  by (simp add: f64_cast_def f64_of_int_fields f64_trunc_int)

lemma f64_to_i32_int [f64_facts]: "in_i32 i \<Longrightarrow> f64_to_i32 (f64_of_int i) = i"
  using f64_cast_int [OF f64_small_i32] by (simp add: f64_to_i32_def in_i32_def)

lemma f64_cmp_int:
  assumes "f64_small i" "f64_small j"
  shows "f64_partial_cmp (f64_of_int i) (f64_of_int j) = Some (cmp_of i j)"
proof -
  have key: "f64_key (f64_of_int k) = (if k < 0 then - int (f64_magnitude (f64_of_int k)) else int (f64_magnitude (f64_of_int k)))"
    if "f64_small k" for k
  proof -
    have "unat (f64_of_int k) < 2 ^ 63 \<longleftrightarrow> \<not> k < 0"
      using f64_of_int_fields(1) [OF that] unfolding f64_sign_def by linarith
    then show ?thesis by (simp only: f64_key_def if_not_P if_P) simp
  qed
  have mag: "f64_magnitude (f64_of_int i) < f64_magnitude (f64_of_int j) \<longleftrightarrow> \<bar>i\<bar> < \<bar>j\<bar>"
    "f64_magnitude (f64_of_int i) = f64_magnitude (f64_of_int j) \<longleftrightarrow> \<bar>i\<bar> = \<bar>j\<bar>"
    unfolding f64_of_int_def f64_magnitude_less_iff [OF f64_small_nat [OF assms(1)] f64_small_nat [OF assms(2)]]
    by linarith+
  have zero: "f64_magnitude (f64_of_int k) = 0 \<longleftrightarrow> k = 0" if "f64_small k" for k
    using f64_of_int_fields(4) [OF that] by (simp add: f64_is_zero_def)
  have "cmp_of (f64_key (f64_of_int i)) (f64_key (f64_of_int j)) = cmp_of i j"
    using mag zero [OF assms(1)] zero [OF assms(2)]
    by (auto simp: cmp_of_def key assms)
  then show ?thesis by (simp add: f64_partial_cmp_def f64_of_int_fields assms)
qed

lemma f64_eq_int [f64_facts]: "f64_small i \<Longrightarrow> f64_small j \<Longrightarrow> f64_eq (f64_of_int i) (f64_of_int j) \<longleftrightarrow> i = j"
  and f64_lt_int [f64_facts]: "f64_small i \<Longrightarrow> f64_small j \<Longrightarrow> f64_lt (f64_of_int i) (f64_of_int j) \<longleftrightarrow> i < j"
  and f64_le_int [f64_facts]: "f64_small i \<Longrightarrow> f64_small j \<Longrightarrow> f64_le (f64_of_int i) (f64_of_int j) \<longleftrightarrow> i \<le> j"
  by (auto simp: f64_eq_def f64_lt_def f64_le_def f64_cmp_int cmp_of_def)

end
