(* ===== verification/JS_Convert.thy ===== *)
theory JS_Convert
  imports JS_Context JS_Text F64
begin

text \<open>
  Values on the engine's heap and their conversions (\<open>src/api/mod.rs\<close>, \<open>number_to_value\<close> of \<open>src/helpers.rs\<close>,
  \<open>is_truthy\<close> of \<open>src/evals.rs\<close>, and the allocation of strings and floats of \<open>src/context.rs\<close>). What runs JavaScript
  code (methods of objects, getters, calls) and the decimal form of a float are the parameters in \<open>engine\<close>. A
  conversion that fails always fails with the exception value, so it gives \<open>None\<close>.
\<close>

section \<open>Parameters\<close>

record engine =
  en_float_string :: "f64 \<Rightarrow> bytes"
  en_to_primitive :: "js_value \<Rightarrow> bool \<Rightarrow> js_ctx \<Rightarrow> js_ctx \<times> js_value option"
  en_get_str :: "js_value \<Rightarrow> bytes \<Rightarrow> js_ctx \<Rightarrow> js_ctx \<times> js_value"
  en_get_index :: "js_value \<Rightarrow> u32 \<Rightarrow> js_ctx \<Rightarrow> js_ctx \<times> js_value"
  en_set_str :: "js_value \<Rightarrow> bytes \<Rightarrow> js_value \<Rightarrow> js_ctx \<Rightarrow> js_ctx \<times> js_value"
  en_eval_value :: "bytes \<Rightarrow> js_ctx \<Rightarrow> js_ctx \<times> js_value option"
  en_call_c :: "i32 \<Rightarrow> js_value \<Rightarrow> js_value \<Rightarrow> js_value list \<Rightarrow> js_ctx \<Rightarrow> js_ctx \<times> js_value"
  en_call :: "js_value \<Rightarrow> js_value \<Rightarrow> js_value list \<Rightarrow> js_ctx \<Rightarrow> js_ctx \<times> js_value option"

section \<open>Allocation\<close>

definition alloc_cell :: "nat \<Rightarrow> heap_cell \<Rightarrow> js_ctx \<Rightarrow> js_ctx \<times> u64 option" where
  "alloc_cell sz cell c =
     (case mem_alloc (of_nat sz) 8 (mem c) of
        None \<Rightarrow> (c, None)
      | Some (p, m) \<Rightarrow>
          (c\<lparr>mem := m, gc_objects := gc_objects c @ [p], cells := (cells c)(p \<mapsto> cell)\<rparr>, Some p))"

definition js_throw_out_of_memory :: "js_ctx \<Rightarrow> js_ctx \<times> js_value" where
  "js_throw_out_of_memory c = (c\<lparr>last_exception := JS_UNDEFINED\<rparr>, JS_EXCEPTION)"

definition alloc_string_value :: "bytes \<Rightarrow> js_ctx \<Rightarrow> js_ctx \<times> u64 option" where
  "alloc_string_value bs c = alloc_cell (8 + length bs + 1) (HString bs) c"

definition alloc_float :: "f64 \<Rightarrow> js_ctx \<Rightarrow> js_ctx \<times> u64 option" where
  "alloc_float n c = alloc_cell 16 (HFloat n) c"

definition js_new_string_len :: "bytes \<Rightarrow> js_ctx \<Rightarrow> js_ctx \<times> js_value" where
  "js_new_string_len bs c =
     (case alloc_string_value bs c of
        (c, Some p) \<Rightarrow> (c, from_ptr p)
      | (c, None) \<Rightarrow> js_throw_out_of_memory c)"

definition js_new_float64 :: "f64 \<Rightarrow> js_ctx \<Rightarrow> js_ctx \<times> js_value" where
  "js_new_float64 n c =
     (case alloc_float n c of
        (c, Some p) \<Rightarrow> (c, from_ptr p)
      | (c, None) \<Rightarrow> js_throw_out_of_memory c)"

definition alloc_string_concat_val :: "js_value \<Rightarrow> bytes \<Rightarrow> js_ctx \<Rightarrow> js_ctx \<times> u64 option" where
  "alloc_string_concat_val v extra c =
     (case cells c (as_ptr v) of
        Some (HString bs) \<Rightarrow> alloc_cell (8 + (length bs + length extra) + 1) (HString (bs @ extra)) c
      | _ \<Rightarrow> (c, None))"

definition float_value :: "js_ctx \<Rightarrow> js_value \<Rightarrow> f64 option" where
  "float_value c v =
     (if \<not> is_ptr v then None else case cells c (as_ptr v) of Some (HFloat n) \<Rightarrow> Some n | _ \<Rightarrow> None)"

definition object_class_id :: "js_ctx \<Rightarrow> js_value \<Rightarrow> u32 option" where
  "object_class_id c v = map_option (\<lambda>(p, ob). class_id ob) (object_ptr c v)"

definition CLASS_C_FUNCTION :: u32 where "CLASS_C_FUNCTION = 2"
definition CLASS_CLOSURE :: u32 where "CLASS_CLOSURE = 3"

definition c_function_info :: "js_ctx \<Rightarrow> js_value \<Rightarrow> (i32 \<times> js_value) option" where
  "c_function_info c v =
     (case object_ptr c v of
        None \<Rightarrow> None
      | Some (p, ob) \<Rightarrow> if class_id ob \<noteq> CLASS_C_FUNCTION then None else Some (func_idx ob, func_params ob))"

text \<open>A number is an integer value when the cast to \<open>i32\<close> loses nothing and it is not the negative zero.\<close>

definition number_to_value :: "f64 \<Rightarrow> js_ctx \<Rightarrow> js_ctx \<times> js_value" where
  "number_to_value n c =
     (let i = f64_to_i32 n in
      if f64_eq (f64_of_int i) n \<and> (\<not> f64_is_zero n \<or> \<not> f64_sign n) then (c, from_int32 (word_of_int i))
      else js_new_float64 n c)"

definition value_int :: "js_value \<Rightarrow> int" where
  "value_int v = (case int32 v of Some n \<Rightarrow> sint n | None \<Rightarrow> 0)"

section \<open>Conversions\<close>

text \<open>The fast path for short decimal strings, then the literals with a radix, then \<open>parse::<f64>\<close>.\<close>

definition string_to_number :: "bytes \<Rightarrow> f64" where
  "string_to_number bs =
     (let neg = (bs \<noteq> [] \<and> hd bs = CHR ''-''); ds = (if neg then tl bs else bs) in
      if bs \<noteq> [] \<and> length bs \<le> 10 \<and> ds \<noteq> [] \<and> list_all is_digit ds
      then f64_of_int (if neg then - int (nat_of_dec ds) else int (nat_of_dec ds))
      else if \<not> utf8_ok bs then f64_nan
      else
        let t = trim bs;
            radix = (\<lambda>p q r. case (case strip_prefix p t of Some s \<Rightarrow> Some s | None \<Rightarrow> strip_prefix q t) of
                       Some rest \<Rightarrow> from_str_radix 64 r rest | None \<Rightarrow> None)
        in if t = [] then f64_of_int 0
           else if t = ''Infinity'' \<or> t = ''+Infinity'' then f64_infinity False
           else if t = ''-Infinity'' then f64_infinity True
           else if t = ''NaN'' then f64_nan
           else case radix ''0x'' ''0X'' 16 of Some v \<Rightarrow> f64_of_int (int v)
              | None \<Rightarrow> (case radix ''0o'' ''0O'' 8 of Some v \<Rightarrow> f64_of_int (int v)
              | None \<Rightarrow> (case radix ''0b'' ''0B'' 2 of Some v \<Rightarrow> f64_of_int (int v)
              | None \<Rightarrow> (case f64_from_str t of Some n \<Rightarrow> n | None \<Rightarrow> f64_nan))))"

definition primitive_to_number :: "js_ctx \<Rightarrow> js_value \<Rightarrow> f64 option" where
  "primitive_to_number c v =
     (case int32 v of
        Some n \<Rightarrow> Some (f64_of_int (sint n))
      | None \<Rightarrow>
          (case float_value c v of
             Some f \<Rightarrow> Some f
           | None \<Rightarrow>
               if is_bool v then Some (f64_of_int (if v = JS_TRUE then 1 else 0))
               else if is_null v then Some (f64_of_int 0)
               else if is_undefined v then Some f64_nan
               else map_option string_to_number (string_bytes c v)))"

definition js_to_number :: "engine \<Rightarrow> js_value \<Rightarrow> js_ctx \<Rightarrow> js_ctx \<times> f64 option" where
  "js_to_number en v c =
     (case primitive_to_number c v of
        Some n \<Rightarrow> (c, Some n)
      | None \<Rightarrow>
          if object_class_id c v = None then (c, None)
          else (case en_to_primitive en v True c of
                  (c, prim) \<Rightarrow>
                    (case prim of
                       Some p \<Rightarrow>
                         if is_exception p then (c, None)
                         else if object_class_id c p = None then (c, primitive_to_number c p)
                         else (c, if last_exception c \<noteq> JS_UNDEFINED then None else Some f64_nan)
                     | None \<Rightarrow> (c, if last_exception c \<noteq> JS_UNDEFINED then None else Some f64_nan))))"

definition primitive_to_string :: "engine \<Rightarrow> js_value \<Rightarrow> js_ctx \<Rightarrow> js_ctx \<times> js_value" where
  "primitive_to_string en v c =
     (if is_int v then js_new_string_len (int_to_decimal_bytes (value_int v)) c
      else case float_value c v of
        Some f \<Rightarrow> js_new_string_len (en_float_string en f) c
      | None \<Rightarrow>
          if string_bytes c v \<noteq> None then (c, v)
          else if is_bool v then js_new_string_len (if v = JS_TRUE then ''true'' else ''false'') c
          else if is_null v then js_new_string_len ''null'' c
          else if is_undefined v then js_new_string_len ''undefined'' c
          else (c, JS_UNDEFINED))"

definition js_to_string_value :: "engine \<Rightarrow> js_value \<Rightarrow> js_ctx \<Rightarrow> js_ctx \<times> js_value" where
  "js_to_string_value en v c =
     (case object_class_id c v of
        None \<Rightarrow> primitive_to_string en v c
      | Some cls \<Rightarrow>
          (case en_to_primitive en v False c of
             (c, prim) \<Rightarrow>
               (case prim of
                  Some p \<Rightarrow>
                    if object_class_id c p = None then primitive_to_string en p c
                    else js_new_string_len (if cls = CLASS_ARRAY then ''[object Array]'' else ''[object Object]'') c
                | None \<Rightarrow>
                    js_new_string_len (if cls = CLASS_ARRAY then ''[object Array]'' else ''[object Object]'') c)))"

text \<open>The atom of the string form, as an \<open>i32\<close>; -1 when there is none.\<close>

definition js_value_to_atom :: "engine \<Rightarrow> js_value \<Rightarrow> js_ctx \<Rightarrow> js_ctx \<times> int" where
  "js_value_to_atom en v c =
     (case (if string_bytes c v = None then js_to_string_value en v c else (c, v)) of
        (c, sv) \<Rightarrow>
          (case string_bytes c sv of
             Some bs \<Rightarrow> (case intern bs c of (c, Some a) \<Rightarrow> (c, sint (word_of_nat a :: i32)) | (c, None) \<Rightarrow> (c, - 1))
           | None \<Rightarrow> (c, - 1)))"

definition is_truthy :: "js_ctx \<Rightarrow> js_value \<Rightarrow> bool" where
  "is_truthy c v =
     (if is_bool v then v = JS_TRUE
      else case int32 v of
        Some n \<Rightarrow> n \<noteq> 0
      | None \<Rightarrow>
          if is_null v \<or> is_undefined v then False
          else case float_value c v of
            Some f \<Rightarrow> \<not> f64_is_zero f \<and> \<not> f64_is_nan f
          | None \<Rightarrow> (case string_bytes c v of Some bs \<Rightarrow> bs \<noteq> [] | None \<Rightarrow> True))"

definition js_is_number :: "js_ctx \<Rightarrow> js_value \<Rightarrow> bool" where
  "js_is_number c v \<longleftrightarrow> is_number v \<or> float_value c v \<noteq> None"

definition js_is_function :: "engine \<Rightarrow> js_value \<Rightarrow> js_ctx \<Rightarrow> js_ctx \<times> bool" where
  "js_is_function en v c =
     (if object_class_id c v = Some CLASS_C_FUNCTION \<or> object_class_id c v = Some CLASS_CLOSURE then (c, True)
      else if (case string_bytes c v of Some bs \<Rightarrow> utf8_ok bs \<and> prefix ''__builtin_'' bs | None \<Rightarrow> False) then (c, True)
      else case en_get_str en v ''__closure__'' c of (c, m) \<Rightarrow> (c, m = JS_TRUE))"

end
