(* ===== verification/Bytecode.thy ===== *)
theory Bytecode
  imports JS_Convert
begin

text \<open>
  The bytecode of the engine (\<open>src/bytecode.rs\<close>): instructions with two operands of 32 bits, and a function with
  its constant pool and the names of its local slots.
\<close>

datatype op_code =
    Nop | Const | LoadGlobal | StoreGlobal | LoadLocal | StoreLocal
  | Add | Sub | Mul | Div | Mod | Eq | Neq | StrictEq | StrictNeq | Lt | Gt | Le | Ge
  | Not | And | Or | Drop | Dup | Jump | JumpIfFalse | JumpIfTrue | Return | Call
  | GetProp | SetProp | GetElem | Concat | ToNumber | Typeof | Neg
  | BitAnd | BitOr | BitXor | Shl | Shr | UShr | BitNot | IncLocal | Pop | CallMethod

record instruction =
  i_op :: op_code
  i_a :: u32
  i_b :: u32

abbreviation instr :: "op_code \<Rightarrow> u32 \<Rightarrow> instruction" where
  "instr p a \<equiv> \<lparr>i_op = p, i_a = a, i_b = 0\<rparr>"

record bytecode_function =
  bf_code :: "instruction list"
  bf_constants :: "js_value list"
  bf_locals :: "bytes list"

definition bytecode_function_new :: bytecode_function where
  "bytecode_function_new = \<lparr>bf_code = [], bf_constants = [], bf_locals = []\<rparr>"

end
