(* ===== verification/VM.thy ===== *)
theory VM
  imports Bytecode
begin

text \<open>
  The bytecode virtual machine (\<open>src/vm.rs\<close>): one step per instruction on a stack of values, with the fast paths for
  integers and strings, the equality tests and the markers of built-in objects. The stack is a list with its
  top in front. The loop of \<open>run_module_with_locals\<close> may run forever, so it takes fuel.
\<close>

section \<open>Results\<close>

text \<open>How a run ends: with a value, with an error that the machine throws, with the exception that a conversion
  left behind, or with a panic.\<close>

datatype error_class = InternalError | TypeError

datatype vm_exit = Returned js_value | Thrown error_class bytes | Raised | Panicked

text \<open>What an operation gives: a value to push, or the end of the run.\<close>

datatype vm_value = Value js_value js_ctx | Stop vm_exit js_ctx

definition push_number :: "f64 \<Rightarrow> js_ctx \<Rightarrow> vm_value" where
  "push_number n c = (case number_to_value n c of (c, v) \<Rightarrow> Value v c)"

definition push_new :: "js_ctx \<times> js_value \<Rightarrow> vm_value" where
  "push_new r = (case r of (c, v) \<Rightarrow> Value v c)"

definition with_number :: "engine \<Rightarrow> js_value \<Rightarrow> (f64 \<Rightarrow> js_ctx \<Rightarrow> vm_value) \<Rightarrow> js_ctx \<Rightarrow> vm_value" where
  "with_number en v k c = (case js_to_number en v c of (c, Some n) \<Rightarrow> k n c | (c, None) \<Rightarrow> Stop Raised c)"

definition with_numbers ::
  "engine \<Rightarrow> js_value \<Rightarrow> js_value \<Rightarrow> (f64 \<Rightarrow> f64 \<Rightarrow> js_ctx \<Rightarrow> vm_value) \<Rightarrow> js_ctx \<Rightarrow> vm_value" where
  "with_numbers en a b k c = with_number en a (\<lambda>x. with_number en b (k x)) c"

definition int_value :: "int \<Rightarrow> js_value" where "int_value i = from_int32 (word_of_int i)"

section \<open>Arithmetic\<close>

definition int_pair :: "js_value \<Rightarrow> js_value \<Rightarrow> bool" where "int_pair a b \<longleftrightarrow> is_int a \<and> is_int b"

definition out_of_memory :: vm_exit where "out_of_memory = Thrown InternalError ''out of memory''"

text \<open>The two ways to append to a string: an integer is written behind a copy of it, anything else is
  converted first.\<close>

definition concat_int :: "js_value \<Rightarrow> js_value \<Rightarrow> js_ctx \<Rightarrow> vm_value" where
  "concat_int a b c =
     (case alloc_string_concat_val a (int_to_decimal_bytes (value_int b)) c of
        (c, Some p) \<Rightarrow> Value (from_ptr p) c
      | (c, None) \<Rightarrow> Stop out_of_memory c)"

definition concat_strings :: "engine \<Rightarrow> js_value \<Rightarrow> js_value \<Rightarrow> js_ctx \<Rightarrow> vm_value" where
  "concat_strings en a b c =
     (case js_to_string_value en a c of (c, ls) \<Rightarrow> case js_to_string_value en b c of (c, rs) \<Rightarrow>
        let lb = (case string_bytes c ls of Some s \<Rightarrow> s | None \<Rightarrow> []);
            rb = (case string_bytes c rs of Some s \<Rightarrow> s | None \<Rightarrow> [])
        in push_new (js_new_string_len (lb @ rb) c))"

definition op_add :: "engine \<Rightarrow> js_value \<Rightarrow> js_value \<Rightarrow> js_ctx \<Rightarrow> vm_value" where
  "op_add en a b c =
     (if int_pair a b then
        (let s = value_int a + value_int b in
         if in_i32 s then Value (int_value s) c
         else push_number (f64_add (f64_of_int (value_int a)) (f64_of_int (value_int b))) c)
      else if string_bytes c a \<noteq> None \<and> is_int b then concat_int a b c
      else if string_bytes c a \<noteq> None \<or> string_bytes c b \<noteq> None then concat_strings en a b c
      else with_numbers en a b (\<lambda>x y. push_number (f64_add x y)) c)"

definition op_sub :: "engine \<Rightarrow> js_value \<Rightarrow> js_value \<Rightarrow> js_ctx \<Rightarrow> vm_value" where
  "op_sub en a b c =
     (if int_pair a b then
        (let s = value_int a - value_int b in
         if in_i32 s then Value (int_value s) c
         else push_number (f64_sub (f64_of_int (value_int a)) (f64_of_int (value_int b))) c)
      else with_numbers en a b (\<lambda>x y. push_number (f64_sub x y)) c)"

definition op_mul :: "engine \<Rightarrow> js_value \<Rightarrow> js_value \<Rightarrow> js_ctx \<Rightarrow> vm_value" where
  "op_mul en a b c =
     (if int_pair a b then
        (let r = value_int a * value_int b in
         if in_i32 r then Value (int_value r) c else push_number (f64_of_int r) c)
      else with_numbers en a b (\<lambda>x y. push_number (f64_mul x y)) c)"

text \<open>Division of \<open>i32\<close> truncates, and overflow of the remainder panics in every build.\<close>

definition i32_div :: "int \<Rightarrow> int \<Rightarrow> int" where "i32_div a b = sgn a * sgn b * (\<bar>a\<bar> div \<bar>b\<bar>)"
definition i32_rem :: "int \<Rightarrow> int \<Rightarrow> int" where "i32_rem a b = sgn a * (\<bar>a\<bar> mod \<bar>b\<bar>)"
definition rem_overflows :: "int \<Rightarrow> int \<Rightarrow> bool" where "rem_overflows a b \<longleftrightarrow> a = i32_min \<and> b = - 1"

definition op_div :: "engine \<Rightarrow> js_value \<Rightarrow> js_value \<Rightarrow> js_ctx \<Rightarrow> vm_value" where
  "op_div en a b c =
     (if int_pair a b then
        (let x = value_int a; y = value_int b in
         if y \<noteq> 0 \<and> rem_overflows x y then Stop Panicked c
         else if y \<noteq> 0 \<and> i32_rem x y = 0 then Value (int_value (i32_div x y)) c
         else push_number (f64_div (f64_of_int x) (f64_of_int y)) c)
      else with_numbers en a b (\<lambda>x y. push_number (f64_div x y)) c)"

definition op_mod :: "engine \<Rightarrow> js_value \<Rightarrow> js_value \<Rightarrow> js_ctx \<Rightarrow> vm_value" where
  "op_mod en a b c =
     (if int_pair a b then
        (let x = value_int a; y = value_int b in
         if y = 0 then push_number f64_nan c
         else if rem_overflows x y then Stop Panicked c
         else Value (int_value (i32_rem x y)) c)
      else with_numbers en a b (\<lambda>x y. push_number (f64_rem x y)) c)"

definition op_neg :: "engine \<Rightarrow> js_value \<Rightarrow> js_ctx \<Rightarrow> vm_value" where
  "op_neg en v c =
     (if is_int v then
        (if value_int v = i32_min then push_number (f64_neg (f64_of_int (value_int v))) c
         else Value (int_value (- value_int v)) c)
      else with_number en v (\<lambda>n. push_number (f64_neg n)) c)"

definition op_to_number :: "engine \<Rightarrow> js_value \<Rightarrow> js_ctx \<Rightarrow> vm_value" where
  "op_to_number en v c = (if is_int v then Value v c else with_number en v push_number c)"

section \<open>Bits\<close>

definition value_bits :: "js_value \<Rightarrow> i32" where "value_bits v = (case int32 v of Some n \<Rightarrow> n | None \<Rightarrow> 0)"
definition f64_bits32 :: "f64 \<Rightarrow> i32" where "f64_bits32 n = word_of_int (f64_to_i32 n)"
definition f64_ubits32 :: "f64 \<Rightarrow> i32" where "f64_ubits32 n = word_of_int (f64_to_u32 n)"

definition shift_count :: "i32 \<Rightarrow> nat" where "shift_count w = unat (w AND 31)"

text \<open>The operation on words, and how the operands of the slow path are cast.\<close>

definition bit_op ::
  "(i32 \<Rightarrow> i32 \<Rightarrow> i32) \<Rightarrow> (f64 \<Rightarrow> i32) \<Rightarrow> (f64 \<Rightarrow> i32) \<Rightarrow> engine \<Rightarrow> js_value \<Rightarrow> js_value \<Rightarrow> js_ctx \<Rightarrow> vm_value" where
  "bit_op f left right en a b c =
     (if int_pair a b then Value (from_int32 (f (value_bits a) (value_bits b))) c
      else with_numbers en a b (\<lambda>x y. Value (from_int32 (f (left x) (right y)))) c)"

definition op_bit_not :: "engine \<Rightarrow> js_value \<Rightarrow> js_ctx \<Rightarrow> vm_value" where
  "op_bit_not en v c =
     (if is_int v then Value (from_int32 (NOT (value_bits v))) c
      else with_number en v (\<lambda>n. Value (from_int32 (NOT (f64_bits32 n)))) c)"

section \<open>Comparison\<close>

definition compare ::
  "(int \<Rightarrow> int \<Rightarrow> bool) \<Rightarrow> (bytes \<Rightarrow> bytes \<Rightarrow> bool) \<Rightarrow> (f64 \<Rightarrow> f64 \<Rightarrow> bool) \<Rightarrow>
     engine \<Rightarrow> js_value \<Rightarrow> js_value \<Rightarrow> js_ctx \<Rightarrow> vm_value" where
  "compare int_cmp str_cmp num_cmp en a b c =
     (if int_pair a b then Value (new_bool (int_cmp (value_int a) (value_int b))) c
      else case (string_bytes c a, string_bytes c b) of
        (Some la, Some lb) \<Rightarrow> Value (new_bool (str_cmp la lb)) c
      | _ \<Rightarrow> with_numbers en a b (\<lambda>x y. Value (new_bool (num_cmp x y))) c)"

definition numbers_equal :: "engine \<Rightarrow> js_value \<Rightarrow> js_value \<Rightarrow> js_ctx \<Rightarrow> js_ctx \<times> bool" where
  "numbers_equal en a b c =
     (case js_to_number en a c of (c, l) \<Rightarrow> case js_to_number en b c of (c, r) \<Rightarrow>
        (c, case (l, r) of (Some x, Some y) \<Rightarrow> f64_eq x y | _ \<Rightarrow> False))"

definition vm_loose_eq :: "engine \<Rightarrow> js_value \<Rightarrow> js_value \<Rightarrow> js_ctx \<Rightarrow> js_ctx \<times> bool" where
  "vm_loose_eq en a b c =
     (if a = b then (c, True)
      else if is_null a \<and> is_undefined b \<or> is_undefined a \<and> is_null b then (c, True)
      else case (string_bytes c a, string_bytes c b) of
        (Some la, Some lb) \<Rightarrow> (c, la = lb)
      | _ \<Rightarrow> numbers_equal en a b c)"

definition js_type_tag :: "js_ctx \<Rightarrow> js_value \<Rightarrow> nat" where
  "js_type_tag c v =
     (if is_undefined v then 0 else if is_null v then 1 else if is_bool v then 2
      else if is_int v \<or> float_value c v \<noteq> None then 3 else if string_bytes c v \<noteq> None then 4 else 5)"

definition vm_strict_eq :: "engine \<Rightarrow> js_value \<Rightarrow> js_value \<Rightarrow> js_ctx \<Rightarrow> js_ctx \<times> bool" where
  "vm_strict_eq en a b c =
     (if a = b then (c, True)
      else case (string_bytes c a, string_bytes c b) of
        (Some la, Some lb) \<Rightarrow> (c, la = lb)
      | _ \<Rightarrow> if js_type_tag c a \<noteq> js_type_tag c b then (c, False) else numbers_equal en a b c)"

definition push_bool :: "(bool \<Rightarrow> bool) \<Rightarrow> js_ctx \<times> bool \<Rightarrow> vm_value" where
  "push_bool f r = (case r of (c, b) \<Rightarrow> Value (new_bool (f b)) c)"

definition op_and :: "js_value \<Rightarrow> js_value \<Rightarrow> js_ctx \<Rightarrow> vm_value" where
  "op_and a b c = Value (if is_truthy c a then b else a) c"

definition op_or :: "js_value \<Rightarrow> js_value \<Rightarrow> js_ctx \<Rightarrow> vm_value" where
  "op_or a b c = Value (if is_truthy c a then a else b) c"

definition op_typeof :: "engine \<Rightarrow> js_value \<Rightarrow> js_ctx \<Rightarrow> vm_value" where
  "op_typeof en v c =
     (if is_bool v then push_new (js_new_string_len ''boolean'' c)
      else if js_is_number c v then push_new (js_new_string_len ''number'' c)
      else if string_bytes c v \<noteq> None then push_new (js_new_string_len ''string'' c)
      else if is_undefined v then push_new (js_new_string_len ''undefined'' c)
      else if is_null v then push_new (js_new_string_len ''object'' c)
      else case js_is_function en v c of (c, f) \<Rightarrow>
        push_new (js_new_string_len (if f then ''function'' else if is_ptr v then ''object'' else ''undefined'') c))"

section \<open>Properties\<close>

definition is_builtin_marker :: "bytes \<Rightarrow> bool" where
  "is_builtin_marker b \<longleftrightarrow> 13 \<le> length b \<and> prefix ''__builtin_'' b \<and> suffix ''__'' b"

definition math_constant :: "bytes \<Rightarrow> f64 option" where
  "math_constant prop =
     (if prop = ''PI'' then Some 0x400921FB54442D18 else if prop = ''E'' then Some 0x4005BF0A8B145769
      else if prop = ''LN2'' then Some 0x3FE62E42FEFA39EF else if prop = ''LN10'' then Some 0x40026BB1BBB55516
      else if prop = ''LOG2E'' then Some 0x3FF71547652B82FE else if prop = ''LOG10E'' then Some 0x3FDBCB7B1526E50E
      else if prop = ''SQRT2'' then Some 0x3FF6A09E667F3BCD else None)"

text \<open>The buffers have 32 bytes for the name of the object and 80 for the marker. A longer name is not copied,
  but its bytes are still taken from the buffer of 32: that slice is out of range and panics.\<close>

definition resolve_builtin_marker_prop :: "js_value \<Rightarrow> bytes \<Rightarrow> js_ctx \<Rightarrow> vm_value" where
  "resolve_builtin_marker_prop obj prop c =
     (let ob = (case string_bytes c obj of Some b \<Rightarrow> b | None \<Rightarrow> []);
          base_len = (if length ob \<ge> 12 then length ob - 12 else 0);
          base = take base_len (drop 10 ob);
          needed = 10 + base_len + 1 + length prop + 2
      in case (if base_len = 4 \<and> base = ''Math'' then math_constant prop else None) of
           Some n \<Rightarrow> push_number n c
         | None \<Rightarrow>
             if needed \<le> 80 \<and> base_len > 0 then
               (if base_len > 32 then Stop Panicked c
                else push_new (js_new_string_len (''__builtin_'' @ base @ ''_'' @ prop @ ''__'') c))
             else Value JS_UNDEFINED c)"

definition resolve_string_method_marker :: "bytes \<Rightarrow> js_ctx \<Rightarrow> vm_value" where
  "resolve_string_method_marker name c =
     (if 17 + length name + 2 \<le> 80 then push_new (js_new_string_len (''__builtin_string_'' @ name @ ''__'') c)
      else Value JS_UNDEFINED c)"

definition utf8_or_empty :: "bytes \<Rightarrow> bytes" where "utf8_or_empty b = (if utf8_ok b then b else [])"

definition op_get_prop :: "engine \<Rightarrow> js_value \<Rightarrow> js_value \<Rightarrow> js_ctx \<Rightarrow> vm_value" where
  "op_get_prop en obj key c =
     (case string_bytes c key of
        Some kb \<Rightarrow>
          if (case string_bytes c obj of Some b \<Rightarrow> is_builtin_marker b | None \<Rightarrow> False)
          then resolve_builtin_marker_prop obj kb c
          else (case en_get_str en obj (utf8_or_empty kb) c of (c, v) \<Rightarrow>
                  if is_undefined v \<and> string_bytes c obj \<noteq> None then resolve_string_method_marker kb c else Value v c)
      | None \<Rightarrow>
          if is_int key then push_new (en_get_index en obj (value_bits key) c)
          else (case js_to_string_value en key c of (c, ks) \<Rightarrow>
                  push_new (en_get_str en obj
                    (utf8_or_empty (case string_bytes c ks of Some b \<Rightarrow> b | None \<Rightarrow> [])) c)))"

definition op_set_prop :: "engine \<Rightarrow> js_value \<Rightarrow> js_value \<Rightarrow> js_value \<Rightarrow> js_ctx \<Rightarrow> vm_value" where
  "op_set_prop en obj key v c =
     (case string_bytes c key of
        Some kb \<Rightarrow> (case en_set_str en obj (utf8_or_empty kb) v c of (c, _) \<Rightarrow> Value v c)
      | None \<Rightarrow> Value v c)"

definition op_get_elem :: "engine \<Rightarrow> js_value \<Rightarrow> js_value \<Rightarrow> js_ctx \<Rightarrow> vm_value" where
  "op_get_elem en obj idx c =
     (if is_int idx then push_new (en_get_index en obj (value_bits idx) c)
      else case string_bytes c idx of
        Some ib \<Rightarrow> push_new (en_get_str en obj (utf8_or_empty ib) c)
      | None \<Rightarrow> with_number en idx (\<lambda>n c. push_new (en_get_index en obj (f64_ubits32 n) c)) c)"

definition op_concat :: "engine \<Rightarrow> js_value \<Rightarrow> js_value \<Rightarrow> js_ctx \<Rightarrow> vm_value" where
  "op_concat en a b c =
     (if string_bytes c a \<noteq> None \<and> is_int b then concat_int a b c else concat_strings en a b c)"

section \<open>The machine\<close>

record vm =
  v_pc :: nat
  v_stack :: "js_value list"
  v_locals :: "js_value list"
  v_ctx :: js_ctx

datatype vm_step = Goto vm | Exit vm_exit js_ctx

definition STACK_UNDERFLOW :: bytes where "STACK_UNDERFLOW = ''bytecode stack underflow''"
definition CONST_RANGE :: bytes where "CONST_RANGE = ''bytecode const out of range''"
definition CALL_UNDERFLOW :: bytes where "CALL_UNDERFLOW = ''bytecode stack underflow in call''"
definition METHOD_UNDERFLOW :: bytes where "METHOD_UNDERFLOW = ''bytecode stack underflow in call_method''"

definition throw :: "error_class \<Rightarrow> bytes \<Rightarrow> vm \<Rightarrow> vm_step" where "throw e m vm = Exit (Thrown e m) (v_ctx vm)"

text \<open>\<open>pop!\<close>, and the end of an instruction that pushes.\<close>

definition pop1 :: "vm \<Rightarrow> (js_value \<Rightarrow> vm \<Rightarrow> vm_step) \<Rightarrow> vm_step" where
  "pop1 vm k = (case v_stack vm of v # s \<Rightarrow> k v (vm\<lparr>v_stack := s\<rparr>) | [] \<Rightarrow> throw InternalError STACK_UNDERFLOW vm)"

definition next_pc :: "vm \<Rightarrow> vm_step" where "next_pc vm = Goto (vm\<lparr>v_pc := v_pc vm + 1\<rparr>)"

definition push :: "js_value \<Rightarrow> vm \<Rightarrow> vm" where "push v vm = vm\<lparr>v_stack := v # v_stack vm\<rparr>"

definition deliver :: "vm_value \<Rightarrow> vm \<Rightarrow> vm_step" where
  "deliver r vm = (case r of Value v c \<Rightarrow> next_pc (push v (vm\<lparr>v_ctx := c\<rparr>)) | Stop e c \<Rightarrow> Exit e c)"

definition binary_step :: "(js_value \<Rightarrow> js_value \<Rightarrow> js_ctx \<Rightarrow> vm_value) \<Rightarrow> vm \<Rightarrow> vm_step" where
  "binary_step f vm = pop1 vm (\<lambda>b vm. pop1 vm (\<lambda>a vm. deliver (f a b (v_ctx vm)) vm))"

definition unary_step :: "(js_value \<Rightarrow> js_ctx \<Rightarrow> vm_value) \<Rightarrow> vm \<Rightarrow> vm_step" where
  "unary_step f vm = pop1 vm (\<lambda>v vm. deliver (f v (v_ctx vm)) vm)"

definition jump_when :: "bool \<Rightarrow> nat \<Rightarrow> vm \<Rightarrow> vm_step" where
  "jump_when wanted target vm =
     pop1 vm (\<lambda>v vm. if is_truthy (v_ctx vm) v = wanted then Goto (vm\<lparr>v_pc := target\<rparr>) else next_pc vm)"

definition local_of :: "vm \<Rightarrow> nat \<Rightarrow> js_value" where
  "local_of vm slot = (if slot < length (v_locals vm) then v_locals vm ! slot else JS_UNDEFINED)"

definition store_step :: "nat \<Rightarrow> vm \<Rightarrow> vm_step" where
  "store_step slot vm =
     pop1 vm (\<lambda>v vm. next_pc (push v (vm\<lparr>v_locals := (v_locals vm)[slot := v]\<rparr>)))"

definition inc_step :: "engine \<Rightarrow> nat \<Rightarrow> i32 \<Rightarrow> vm \<Rightarrow> vm_step" where
  "inc_step en slot amount vm =
     (if slot < length (v_locals vm) then
        let old = v_locals vm ! slot;
            set_local = (\<lambda>v c. next_pc (vm\<lparr>v_locals := (v_locals vm)[slot := v], v_ctx := c\<rparr>))
        in if is_int old then set_local (from_int32 (value_bits old + amount)) (v_ctx vm)
           else case with_number en old (\<lambda>n. push_number (f64_add n (f64_of_int (sint amount)))) (v_ctx vm) of
                  Value v c \<Rightarrow> set_local v c
                | Stop e c \<Rightarrow> Exit e c
      else next_pc vm)"

text \<open>Globals. A name that is not in the global object may be the name of a built-in.\<close>

definition with_global_name ::
  "engine \<Rightarrow> js_value list \<Rightarrow> nat \<Rightarrow> vm \<Rightarrow> (js_value \<Rightarrow> nat \<Rightarrow> vm \<Rightarrow> vm_step) \<Rightarrow> vm_step" where
  "with_global_name en consts i vm k =
     (if i < length consts then
        (case js_value_to_atom en (consts ! i) (v_ctx vm) of
           (c, atom) \<Rightarrow>
             if atom \<le> 0 then throw InternalError ''bytecode global name not string'' (vm\<lparr>v_ctx := c\<rparr>)
             else k (consts ! i) (nat atom) (vm\<lparr>v_ctx := c\<rparr>))
      else throw InternalError CONST_RANGE vm)"

definition load_global :: "engine \<Rightarrow> js_value \<Rightarrow> js_value \<Rightarrow> nat \<Rightarrow> js_ctx \<Rightarrow> js_ctx \<times> js_value" where
  "load_global en global name atom c =
     (let val = (case get_property_atom_id c global atom of Some v \<Rightarrow> v | None \<Rightarrow> JS_UNDEFINED) in
      if \<not> is_undefined val then (c, val)
      else case string_bytes c name of
             None \<Rightarrow> (c, val)
           | Some nb \<Rightarrow>
               (case has_property_str c global nb of
                  (c, has) \<Rightarrow>
                    if has \<or> \<not> utf8_ok nb then (c, val)
                    else (case en_eval_value en nb c of (c, Some r) \<Rightarrow> (c, r) | (c, None) \<Rightarrow> (c, val))))"

definition store_global :: "js_value \<Rightarrow> nat \<Rightarrow> vm \<Rightarrow> vm_step" where
  "store_global global atom vm =
     pop1 vm (\<lambda>v vm.
       case set_property_atom_id global atom v (v_ctx vm) of
         (c, True) \<Rightarrow> next_pc (push v (vm\<lparr>v_ctx := c\<rparr>))
       | (c, False) \<Rightarrow> throw TypeError ''property set failed'' (vm\<lparr>v_ctx := c\<rparr>))"

text \<open>Calls: the arguments are above the function, which for a method is above its object.\<close>

definition call_value :: "engine \<Rightarrow> js_value \<Rightarrow> js_value \<Rightarrow> js_value list \<Rightarrow> js_ctx \<Rightarrow> vm_value" where
  "call_value en func this args c =
     (case c_function_info c func of
        Some (idx, params) \<Rightarrow> push_new (en_call_c en idx params this args c)
      | None \<Rightarrow>
          (case en_call en func this args c of
             (c, Some v) \<Rightarrow> Value v c
           | (c, None) \<Rightarrow> Stop (Thrown TypeError ''not a function'') c))"

definition call_function :: "engine \<Rightarrow> js_value \<Rightarrow> js_value \<Rightarrow> js_value list \<Rightarrow> js_ctx \<Rightarrow> vm_value" where
  "call_function en func global args c =
     (if c_function_info c func = None \<and> length args = 1 \<and> string_bytes c func = Some ''__builtin_Number__''
      then op_to_number en (hd args) c
      else call_value en func global args c)"

definition call_step :: "engine \<Rightarrow> js_value \<Rightarrow> nat \<Rightarrow> vm \<Rightarrow> vm_step" where
  "call_step en global argc vm =
     (if length (v_stack vm) < argc + 1 then throw InternalError CALL_UNDERFLOW vm
      else let s = v_stack vm; below = drop (argc + 1) s in
        deliver (call_function en (s ! argc) global (rev (take argc s)) (v_ctx vm)) (vm\<lparr>v_stack := below\<rparr>))"

definition method_step :: "engine \<Rightarrow> nat \<Rightarrow> vm \<Rightarrow> vm_step" where
  "method_step en argc vm =
     (if length (v_stack vm) < argc + 2 then throw InternalError METHOD_UNDERFLOW vm
      else let s = v_stack vm; below = drop (argc + 2) s in
        deliver (call_value en (s ! argc) (s ! (argc + 1)) (rev (take argc s)) (v_ctx vm)) (vm\<lparr>v_stack := below\<rparr>))"

text \<open>One instruction.\<close>

definition vm_exec :: "engine \<Rightarrow> js_value list \<Rightarrow> js_value \<Rightarrow> instruction \<Rightarrow> vm \<Rightarrow> vm_step" where
  "vm_exec en consts global i vm =
     (let a = unat (i_a i) in
      case i_op i of
        Nop \<Rightarrow> next_pc vm
      | Const \<Rightarrow> if a < length consts then next_pc (push (consts ! a) vm) else throw InternalError CONST_RANGE vm
      | LoadLocal \<Rightarrow> next_pc (push (local_of vm a) vm)
      | StoreLocal \<Rightarrow> store_step a vm
      | IncLocal \<Rightarrow> inc_step en a (i_b i) vm
      | LoadGlobal \<Rightarrow> with_global_name en consts a vm (\<lambda>name atom vm.
          case load_global en global name atom (v_ctx vm) of (c, v) \<Rightarrow> next_pc (push v (vm\<lparr>v_ctx := c\<rparr>)))
      | StoreGlobal \<Rightarrow> with_global_name en consts a vm (\<lambda>name atom vm. store_global global atom vm)
      | Add \<Rightarrow> binary_step (op_add en) vm
      | Sub \<Rightarrow> binary_step (op_sub en) vm
      | Mul \<Rightarrow> binary_step (op_mul en) vm
      | Div \<Rightarrow> binary_step (op_div en) vm
      | Mod \<Rightarrow> binary_step (op_mod en) vm
      | Neg \<Rightarrow> unary_step (op_neg en) vm
      | Eq \<Rightarrow> binary_step (\<lambda>a b c. push_bool (\<lambda>r. r) (vm_loose_eq en a b c)) vm
      | Neq \<Rightarrow> binary_step (\<lambda>a b c. push_bool (\<lambda>r. \<not> r) (vm_loose_eq en a b c)) vm
      | StrictEq \<Rightarrow> binary_step (\<lambda>a b c. push_bool (\<lambda>r. r) (vm_strict_eq en a b c)) vm
      | StrictNeq \<Rightarrow> binary_step (\<lambda>a b c. push_bool (\<lambda>r. \<not> r) (vm_strict_eq en a b c)) vm
      | Lt \<Rightarrow> binary_step (compare (\<lambda>x y. x < y) (\<lambda>x y. x < y) f64_lt en) vm
      | Gt \<Rightarrow> binary_step (compare (\<lambda>x y. x > y) (\<lambda>x y. x > y) (\<lambda>x y. f64_lt y x) en) vm
      | Le \<Rightarrow> binary_step (compare (\<lambda>x y. x \<le> y) (\<lambda>x y. x \<le> y) f64_le en) vm
      | Ge \<Rightarrow> binary_step (compare (\<lambda>x y. x \<ge> y) (\<lambda>x y. x \<ge> y) (\<lambda>x y. f64_le y x) en) vm
      | Not \<Rightarrow> unary_step (\<lambda>v c. Value (new_bool (\<not> is_truthy c v)) c) vm
      | And \<Rightarrow> binary_step op_and vm
      | Or \<Rightarrow> binary_step op_or vm
      | Drop \<Rightarrow> next_pc (vm\<lparr>v_stack := tl (v_stack vm)\<rparr>)
      | Pop \<Rightarrow> next_pc (vm\<lparr>v_stack := tl (v_stack vm)\<rparr>)
      | Dup \<Rightarrow> pop1 vm (\<lambda>v vm. next_pc (push v (push v vm)))
      | Jump \<Rightarrow> Goto (vm\<lparr>v_pc := a\<rparr>)
      | JumpIfFalse \<Rightarrow> jump_when False a vm
      | JumpIfTrue \<Rightarrow> jump_when True a vm
      | Call \<Rightarrow> call_step en global a vm
      | CallMethod \<Rightarrow> method_step en a vm
      | GetProp \<Rightarrow> binary_step (op_get_prop en) vm
      | SetProp \<Rightarrow> pop1 vm (\<lambda>v vm. binary_step (\<lambda>obj key. op_set_prop en obj key v) vm)
      | GetElem \<Rightarrow> binary_step (op_get_elem en) vm
      | Concat \<Rightarrow> binary_step (op_concat en) vm
      | ToNumber \<Rightarrow> unary_step (op_to_number en) vm
      | Typeof \<Rightarrow> unary_step (op_typeof en) vm
      | BitAnd \<Rightarrow> binary_step (bit_op (\<lambda>x y. x AND y) f64_bits32 f64_bits32 en) vm
      | BitOr \<Rightarrow> binary_step (bit_op (\<lambda>x y. x OR y) f64_bits32 f64_bits32 en) vm
      | BitXor \<Rightarrow> binary_step (bit_op (\<lambda>x y. x XOR y) f64_bits32 f64_bits32 en) vm
      | Shl \<Rightarrow> binary_step (bit_op (\<lambda>x y. push_bit (shift_count y) x) f64_bits32 f64_ubits32 en) vm
      | Shr \<Rightarrow> binary_step (bit_op (\<lambda>x y. signed_drop_bit (shift_count y) x) f64_bits32 f64_ubits32 en) vm
      | UShr \<Rightarrow> binary_step (bit_op (\<lambda>x y. drop_bit (shift_count y) x) f64_ubits32 f64_ubits32 en) vm
      | BitNot \<Rightarrow> unary_step (op_bit_not en) vm
      | Return \<Rightarrow> Exit (Returned (case v_stack vm of v # s \<Rightarrow> v | [] \<Rightarrow> JS_UNDEFINED)) (v_ctx vm))"

definition vm_step1 :: "engine \<Rightarrow> bytecode_function \<Rightarrow> js_value \<Rightarrow> vm \<Rightarrow> vm_step" where
  "vm_step1 en f global vm =
     (if v_pc vm < length (bf_code f) then vm_exec en (bf_constants f) global (bf_code f ! v_pc vm) vm
      else Exit (Returned JS_UNDEFINED) (v_ctx vm))"

primrec vm_run :: "engine \<Rightarrow> bytecode_function \<Rightarrow> js_value \<Rightarrow> nat \<Rightarrow> vm \<Rightarrow> (vm_exit \<times> js_ctx) option" where
  "vm_run en f global 0 vm = None"
| "vm_run en f global (Suc n) vm =
     (case vm_step1 en f global vm of Goto vm \<Rightarrow> vm_run en f global n vm | Exit e c \<Rightarrow> Some (e, c))"

text \<open>The locals start with the values of the parameters.\<close>

definition vm_start :: "bytecode_function \<Rightarrow> js_value list \<Rightarrow> js_ctx \<Rightarrow> vm" where
  "vm_start f params c =
     (let n = length (bf_locals f) in
      \<lparr>v_pc = 0, v_stack = [], v_locals = take n params @ replicate (n - length params) JS_UNDEFINED, v_ctx = c\<rparr>)"

definition run_module :: "engine \<Rightarrow> nat \<Rightarrow> bytecode_function \<Rightarrow> js_value list \<Rightarrow> js_ctx \<Rightarrow> (vm_exit \<times> js_ctx) option" where
  "run_module en n f params c = vm_run en f (global_object c) n (vm_start f params c)"

end
