(* ===== verification/Compiler_Text.thy ===== *)
theory Compiler_Text
  imports JS_Text
begin

text \<open>
  How the bytecode compiler cuts source text (\<open>src/compiler.rs\<close>): the assignment sign of a declaration, the closing
  parenthesis of a header, the body in braces, the statements of a body, the three parts of a \<open>for\<close> header and the
  \<open>else\<close> behind a body. Each scan is one pass over the bytes that tracks quotes and nesting; a quote preceded
  by a backslash does not close a string.
\<close>

section \<open>Quotes\<close>

text \<open>What a scan does with a byte inside a string: it stays inside, or leaves it. The state is the pair of the
  flags \<open>in_sq\<close> and \<open>in_dq\<close>; the previous byte is \<open>None\<close> at position 0.\<close>

datatype quotes = Outside | InSingle | InDouble

definition SQ :: byte where "SQ = CHR 0x27"
definition DQ :: byte where "DQ = CHR 0x22"
definition BACKSLASH :: byte where "BACKSLASH = CHR 0x5C"
definition NEWLINE :: byte where "NEWLINE = CHR 0x0A"

definition in_quotes :: "byte \<Rightarrow> byte option \<Rightarrow> byte \<Rightarrow> quotes \<Rightarrow> quotes" where
  "in_quotes q prev b here = (if b = q \<and> prev \<noteq> Some BACKSLASH then Outside else here)"

section \<open>Scans\<close>

text \<open>\<open>find_assignment_eq\<close>: the first \<open>=\<close> that is not part of a comparison or a compound assignment by the
  byte before it or by an \<open>=\<close> behind it.\<close>

fun find_eq_loop :: "byte option \<Rightarrow> nat \<Rightarrow> bytes \<Rightarrow> nat option" where
  "find_eq_loop prev i [] = None"
| "find_eq_loop prev i (b # s) =
     (if b = CHR ''='' then
        if s \<noteq> [] \<and> hd s = CHR ''='' then find_eq_loop (Some b) (Suc i) s
        else if (case prev of Some p \<Rightarrow> p \<in> set ''!<>+-*/'' | None \<Rightarrow> False) then find_eq_loop (Some b) (Suc i) s
        else Some i
      else find_eq_loop (Some b) (Suc i) s)"

definition find_assignment_eq :: "bytes \<Rightarrow> nat option" where
  "find_assignment_eq s = find_eq_loop None 0 s"

fun matching_paren_loop :: "byte option \<Rightarrow> quotes \<Rightarrow> int \<Rightarrow> nat \<Rightarrow> bytes \<Rightarrow> nat option" where
  "matching_paren_loop prev q depth i [] = None"
| "matching_paren_loop prev q depth i (b # s) =
     (case q of
        InSingle \<Rightarrow> matching_paren_loop (Some b) (in_quotes SQ prev b InSingle) depth (Suc i) s
      | InDouble \<Rightarrow> matching_paren_loop (Some b) (in_quotes DQ prev b InDouble) depth (Suc i) s
      | Outside \<Rightarrow>
          if b = SQ then matching_paren_loop (Some b) InSingle depth (Suc i) s
          else if b = DQ then matching_paren_loop (Some b) InDouble depth (Suc i) s
          else if b = CHR ''('' then matching_paren_loop (Some b) q (depth + 1) (Suc i) s
          else if b = CHR '')'' then (if depth = 0 then Some i else matching_paren_loop (Some b) q (depth - 1) (Suc i) s)
          else matching_paren_loop (Some b) q depth (Suc i) s)"

definition find_matching_paren :: "bytes \<Rightarrow> nat option" where
  "find_matching_paren s = matching_paren_loop None Outside 0 0 s"

text \<open>The position of the brace that brings the depth back to 0.\<close>

fun closing_brace_loop :: "byte option \<Rightarrow> quotes \<Rightarrow> int \<Rightarrow> nat \<Rightarrow> bytes \<Rightarrow> nat option" where
  "closing_brace_loop prev q depth i [] = None"
| "closing_brace_loop prev q depth i (b # s) =
     (case q of
        InSingle \<Rightarrow> closing_brace_loop (Some b) (in_quotes SQ prev b InSingle) depth (Suc i) s
      | InDouble \<Rightarrow> closing_brace_loop (Some b) (in_quotes DQ prev b InDouble) depth (Suc i) s
      | Outside \<Rightarrow>
          if b = SQ then closing_brace_loop (Some b) InSingle depth (Suc i) s
          else if b = DQ then closing_brace_loop (Some b) InDouble depth (Suc i) s
          else if b = CHR ''{'' then closing_brace_loop (Some b) q (depth + 1) (Suc i) s
          else if b = CHR ''}'' then (if depth = 1 then Some i else closing_brace_loop (Some b) q (depth - 1) (Suc i) s)
          else closing_brace_loop (Some b) q depth (Suc i) s)"

type_synonym compile_error = bytes

definition extract_braced_body :: "bytes \<Rightarrow> compile_error + bytes" where
  "extract_braced_body s0 =
     (let s = trim s0 in
      if \<not> prefix ''{'' s then Inl (''expected '' @ [SQ] @ ''{'' @ [SQ])
      else case closing_brace_loop None Outside 0 0 s of
             Some i \<Rightarrow> Inr (take (i - 1) (drop 1 s))
           | None \<Rightarrow> Inl (''unmatched '' @ [SQ] @ ''{'' @ [SQ]))"

text \<open>\<open>simple_split_statements\<close>: \<open>cur\<close> holds the bytes since \<open>start\<close>, backwards. A statement ends at a semicolon
  or line break outside all brackets, or behind a closing brace that closes the last bracket.\<close>

definition push_statement :: "bytes \<Rightarrow> bytes list \<Rightarrow> bytes list" where
  "push_statement cur stmts = (let s = trim (rev cur) in if s = [] then stmts else stmts @ [s])"

fun split_loop :: "byte option \<Rightarrow> quotes \<Rightarrow> int \<Rightarrow> int \<Rightarrow> int \<Rightarrow> bytes \<Rightarrow> bytes list \<Rightarrow> bytes \<Rightarrow> bytes list" where
  "split_loop prev q dp db dk cur stmts [] = push_statement cur stmts"
| "split_loop prev q dp db dk cur stmts (b # s) =
     (case q of
        InSingle \<Rightarrow> split_loop (Some b) (in_quotes SQ prev b InSingle) dp db dk (b # cur) stmts s
      | InDouble \<Rightarrow> split_loop (Some b) (in_quotes DQ prev b InDouble) dp db dk (b # cur) stmts s
      | Outside \<Rightarrow>
          if b = SQ then split_loop (Some b) InSingle dp db dk (b # cur) stmts s
          else if b = DQ then split_loop (Some b) InDouble dp db dk (b # cur) stmts s
          else if b = CHR ''('' then split_loop (Some b) q (dp + 1) db dk (b # cur) stmts s
          else if b = CHR '')'' then split_loop (Some b) q (dp - 1) db dk (b # cur) stmts s
          else if b = CHR ''{'' then split_loop (Some b) q dp (db + 1) dk (b # cur) stmts s
          else if b = CHR ''}'' then
            (if dp = 0 \<and> db - 1 = 0 \<and> dk = 0
             then split_loop (Some b) q dp (db - 1) dk [] (push_statement (b # cur) stmts) s
             else split_loop (Some b) q dp (db - 1) dk (b # cur) stmts s)
          else if b = CHR ''['' then split_loop (Some b) q dp db (dk + 1) (b # cur) stmts s
          else if b = CHR '']'' then split_loop (Some b) q dp db (dk - 1) (b # cur) stmts s
          else if (b = CHR '';'' \<or> b = NEWLINE) \<and> dp = 0 \<and> db = 0 \<and> dk = 0 then
            split_loop (Some b) q dp db dk [] (push_statement cur stmts) s
          else split_loop (Some b) q dp db dk (b # cur) stmts s)"

definition simple_split_statements :: "bytes \<Rightarrow> bytes list" where
  "simple_split_statements body = split_loop None Outside 0 0 0 [] [] body"

fun header_loop :: "byte option \<Rightarrow> quotes \<Rightarrow> int \<Rightarrow> bytes \<Rightarrow> bytes \<Rightarrow> bytes list" where
  "header_loop prev q depth cur [] = [rev cur]"
| "header_loop prev q depth cur (b # s) =
     (case q of
        InSingle \<Rightarrow> header_loop (Some b) (in_quotes SQ prev b InSingle) depth (b # cur) s
      | InDouble \<Rightarrow> header_loop (Some b) (in_quotes DQ prev b InDouble) depth (b # cur) s
      | Outside \<Rightarrow>
          if b = SQ then header_loop (Some b) InSingle depth (b # cur) s
          else if b = DQ then header_loop (Some b) InDouble depth (b # cur) s
          else if b = CHR ''('' then header_loop (Some b) q (depth + 1) (b # cur) s
          else if b = CHR '')'' then header_loop (Some b) q (depth - 1) (b # cur) s
          else if b = CHR '';'' \<and> depth = 0 then rev cur # header_loop (Some b) q depth [] s
          else header_loop (Some b) q depth (b # cur) s)"

definition split_for_header :: "bytes \<Rightarrow> compile_error + bytes \<times> bytes \<times> bytes" where
  "split_for_header header =
     (case header_loop None Outside 0 [] header of
        [a, b, c] \<Rightarrow> Inr (a, b, c)
      | parts \<Rightarrow> Inl (''for header must have 3 parts, got '' @ dec_of_nat (length parts)))"

text \<open>\<open>find_else_after_brace\<close>: behind the body, the word \<open>else\<close> followed by nothing, a blank, a brace or a line break.\<close>

definition find_else_after_brace :: "bytes \<Rightarrow> nat option" where
  "find_else_after_brace s =
     (case closing_brace_loop None Outside 0 0 s of
        None \<Rightarrow> None
      | Some i \<Rightarrow>
          let after = trim_start (drop (i + 1) s) in
          case strip_prefix ''else'' after of
            None \<Rightarrow> None
          | Some r \<Rightarrow>
              if r = [] \<or> prefix '' '' r \<or> prefix ''{'' r \<or> prefix [NEWLINE] r
              then Some (length s - length after + 4) else None)"

end
