(* ===== verification/Compiler.thy ===== *)
theory Compiler
  imports Bytecode Compiler_Text
begin

text \<open>
  The bytecode compiler (\<open>src/compiler.rs\<close>): a recursive-descent parser that emits code as it reads
  (\<open>ExprCompiler\<close>), and the statements around it (\<open>StmtCompiler\<close>). A method of the source is a function of the same
  name. The methods call each other and loop; here each of them is a definition that takes the parser for its
  calls, a loop is a nonterminal of its own, and \<open>parse\<close> ties the knot with fuel. The result is \<open>None\<close> when the
  fuel runs out, which \<open>Compiler_Facts\<close> shows not to happen, and otherwise an error message or the new state.
\<close>

section \<open>State and emission\<close>

record cst =
  cs_func :: bytecode_function
  cs_ctx :: js_ctx
  cs_input :: bytes
  cs_pos :: nat

type_synonym cres = "(compile_error + cst) option"

definition ok :: "cst \<Rightarrow> cres" where "ok st = Some (Inr st)"
definition fail :: "bytes \<Rightarrow> cres" where "fail e = Some (Inl e)"

text \<open>The operator \<open>?\<close>: an error ends the caller.\<close>

definition and_then :: "cres \<Rightarrow> (cst \<Rightarrow> cres) \<Rightarrow> cres" where
  "and_then r f = (case r of Some (Inr st) \<Rightarrow> f st | Some (Inl e) \<Rightarrow> Some (Inl e) | None \<Rightarrow> None)"

abbreviation code_of :: "cst \<Rightarrow> instruction list" where "code_of st \<equiv> bf_code (cs_func st)"
abbreviation consts_of :: "cst \<Rightarrow> js_value list" where "consts_of st \<equiv> bf_constants (cs_func st)"
abbreviation locals_of :: "cst \<Rightarrow> bytes list" where "locals_of st \<equiv> bf_locals (cs_func st)"

definition push_instr :: "instruction \<Rightarrow> cst \<Rightarrow> cst" where
  "push_instr i st = st\<lparr>cs_func := (cs_func st)\<lparr>bf_code := code_of st @ [i]\<rparr>\<rparr>"

definition emit_op :: "op_code \<Rightarrow> cst \<Rightarrow> cst" where "emit_op p = push_instr (instr p 0)"
definition emit_inst :: "op_code \<Rightarrow> nat \<Rightarrow> cst \<Rightarrow> cst" where "emit_inst p a = push_instr (instr p (of_nat a))"

definition push_const :: "js_value \<Rightarrow> cst \<Rightarrow> cst" where
  "push_const v st = st\<lparr>cs_func := (cs_func st)\<lparr>bf_constants := consts_of st @ [v]\<rparr>\<rparr>"

text \<open>A constant that is found in the pool, or else is added to it; then its index.\<close>

definition pooled :: "(js_value \<Rightarrow> bool) \<Rightarrow> (cst \<Rightarrow> cst) \<Rightarrow> cst \<Rightarrow> cst \<times> nat" where
  "pooled same add st =
     (case position same (consts_of st) of Some i \<Rightarrow> (st, i) | None \<Rightarrow> (add st, length (consts_of st)))"

definition add_undefined_const :: "cst \<Rightarrow> cst \<times> nat" where
  "add_undefined_const st = pooled is_undefined (push_const JS_UNDEFINED) st"

definition add_number_const :: "f64 \<Rightarrow> cst \<Rightarrow> cst \<times> nat" where
  "add_number_const n st =
     (case number_to_value n (cs_ctx st) of
        (c, v) \<Rightarrow> pooled (\<lambda>w. w = v) (push_const v) (st\<lparr>cs_ctx := c\<rparr>))"

definition add_string_const :: "bytes \<Rightarrow> cst \<Rightarrow> cst \<times> nat" where
  "add_string_const s st =
     pooled (\<lambda>w. string_bytes (cs_ctx st) w = Some s)
       (\<lambda>st. case js_new_string_len s (cs_ctx st) of (c, v) \<Rightarrow> push_const v (st\<lparr>cs_ctx := c\<rparr>)) st"

definition emit_pooled :: "op_code \<Rightarrow> cst \<times> nat \<Rightarrow> cst" where
  "emit_pooled p r = (case r of (st, i) \<Rightarrow> emit_inst p i st)"

definition emit_const :: "f64 \<Rightarrow> cst \<Rightarrow> cst" where
  "emit_const n st = emit_pooled Const (add_number_const n st)"

definition emit_string_const :: "bytes \<Rightarrow> cst \<Rightarrow> cst" where
  "emit_string_const s st = emit_pooled Const (add_string_const s st)"

definition patch_jump :: "nat \<Rightarrow> cst \<Rightarrow> cst" where
  "patch_jump i st =
     st\<lparr>cs_func := (cs_func st)\<lparr>bf_code := (code_of st)[i := (code_of st ! i)\<lparr>i_a := of_nat (length (code_of st))\<rparr>]\<rparr>\<rparr>"

definition find_local :: "bytes \<Rightarrow> cst \<Rightarrow> nat option" where
  "find_local name st = position (\<lambda>n. n = name) (locals_of st)"

definition ensure_local :: "bytes \<Rightarrow> cst \<Rightarrow> cst \<times> nat" where
  "ensure_local name st =
     (case find_local name st of
        Some i \<Rightarrow> (st, i)
      | None \<Rightarrow> (st\<lparr>cs_func := (cs_func st)\<lparr>bf_locals := locals_of st @ [name]\<rparr>\<rparr>, length (locals_of st)))"

section \<open>Reading\<close>

definition rest_of :: "cst \<Rightarrow> bytes" where "rest_of st = drop (cs_pos st) (cs_input st)"

definition advance :: "nat \<Rightarrow> cst \<Rightarrow> cst" where "advance n st = st\<lparr>cs_pos := cs_pos st + n\<rparr>"

definition peek :: "cst \<Rightarrow> byte option" where
  "peek st = (if cs_pos st < length (cs_input st) then Some (cs_input st ! cs_pos st) else None)"

definition source_ws :: "byte \<Rightarrow> bool" where
  "source_ws c \<longleftrightarrow> c = CHR '' '' \<or> c = NEWLINE \<or> c = CHR 0x0D \<or> c = CHR 0x09"

definition skip_ws :: "cst \<Rightarrow> cst" where
  "skip_ws st = advance (length (takeWhile source_ws (rest_of st))) st"

definition consume :: "byte \<Rightarrow> cst \<Rightarrow> cst option" where
  "consume b st = (if peek st = Some b then Some (advance 1 st) else None)"

definition consume_seq :: "bytes \<Rightarrow> cst \<Rightarrow> cst option" where
  "consume_seq s st = (if prefix s (rest_of st) then Some (advance (length s) st) else None)"

definition parse_identifier :: "cst \<Rightarrow> cst \<times> bytes option" where
  "parse_identifier st =
     (let st = skip_ws st in
      case rest_of st of
        [] \<Rightarrow> (st, None)
      | c # r \<Rightarrow>
          if \<not> is_ident_start c then (st, None)
          else let name = c # takeWhile (\<lambda>b. is_ident_start b \<or> is_digit b) r
               in (advance (length name) st, Some name))"

text \<open>The bytes of a number: digits with a fraction and an exponent.\<close>

definition number_span :: "bytes \<Rightarrow> nat" where
  "number_span s =
     (let digits = (\<lambda>r. length (takeWhile is_digit r));
          a = (if prefix ''.'' s then 1 + digits (drop 1 s)
               else let d = digits s in if prefix ''.'' (drop d s) then d + 1 + digits (drop (d + 1) s) else d);
          r = drop a s
      in if prefix ''e'' r \<or> prefix ''E'' r then
           let b = (if prefix ''+'' (drop 1 r) \<or> prefix ''-'' (drop 1 r) then 2 else 1) in a + b + digits (drop b r)
         else a)"

definition parse_number :: "cst \<Rightarrow> (compile_error + cst \<times> f64)" where
  "parse_number st =
     (let st = skip_ws st; n = number_span (rest_of st) in
      if n = 0 then Inl ''expected number''
      else case f64_from_str (take n (rest_of st)) of
             Some x \<Rightarrow> Inr (advance n st, x)
           | None \<Rightarrow> Inl ''invalid number'')"

text \<open>What an escape stands for and what is left behind it. A byte of the source that is not an escape is pushed
  as the character of its number, which has two bytes when it is not ASCII.\<close>

definition push_code :: "nat option \<Rightarrow> bytes" where
  "push_code n = (case n of Some k \<Rightarrow> utf8_encode k | None \<Rightarrow> [])"

definition code_point :: "bytes \<Rightarrow> nat option" where
  "code_point hex = (case from_str_radix 32 16 hex of Some n \<Rightarrow> char_from_u32 n | None \<Rightarrow> None)"

definition simple_escape :: "byte \<Rightarrow> bytes" where
  "simple_escape c =
     (if c = CHR ''n'' then [NEWLINE] else if c = CHR ''r'' then [CHR 0x0D] else if c = CHR ''t'' then [CHR 0x09]
      else if c = CHR ''b'' then [CHR 0x08] else if c = CHR ''f'' then [CHR 0x0C] else if c = CHR ''v'' then [CHR 0x0B]
      else if c = BACKSLASH then [BACKSLASH] else if c = SQ then [SQ] else if c = DQ then [DQ]
      else if c = CHR ''0'' then [CHR 0x00]
      else BACKSLASH # utf8_encode (of_char c))"

definition escape :: "byte \<Rightarrow> bytes \<Rightarrow> bytes \<times> bytes" where
  "escape c r =
     (if c = CHR ''x'' then
        (if length r \<ge> 2 then (push_code (from_str_radix 8 16 (take 2 r)), drop 2 r) else ([], drop 1 r))
      else if c = CHR ''u'' then
        (if prefix ''{'' r then
           (push_code (code_point (takeWhile (\<lambda>b. b \<noteq> CHR ''}'') (tl r))), drop 1 (dropWhile (\<lambda>b. b \<noteq> CHR ''}'') (tl r)))
         else if length r \<ge> 4 then (push_code (code_point (take 4 r)), drop 4 r)
         else ([], drop 1 r))
      else (simple_escape c, r))"

lemma escape_length: "length (snd (escape c r)) \<le> length r"
proof -
  have "length (dropWhile P (tl r)) - 1 \<le> length r" for P :: "byte \<Rightarrow> bool"
    using length_dropWhile_le [of P "tl r"] by simp
  then show ?thesis unfolding escape_def by simp
qed

function literal_loop :: "byte \<Rightarrow> bytes \<Rightarrow> bytes \<Rightarrow> (bytes \<times> bytes) option" where
  "literal_loop quote acc s =
     (case s of
        [] \<Rightarrow> None
      | b # r \<Rightarrow>
          if b = quote then Some (acc, r)
          else if b = BACKSLASH \<and> r \<noteq> [] then
            literal_loop quote (acc @ fst (escape (hd r) (tl r))) (snd (escape (hd r) (tl r)))
          else literal_loop quote (acc @ utf8_encode (of_char b)) r)"
  by pat_completeness auto
termination
proof (relation "measure (\<lambda>(q, acc, s). length s)")
  fix quote acc s b and r :: bytes
  assume "s = b # r" "b = BACKSLASH \<and> r \<noteq> []"
  then show "((quote, acc @ fst (escape (hd r) (tl r)), snd (escape (hd r) (tl r))), quote, acc, s)
      \<in> measure (\<lambda>(q, acc, s). length s)"
    using escape_length [of "hd r" "tl r"] by simp
qed auto

declare literal_loop.simps [simp del]

definition parse_string_literal :: "cst \<Rightarrow> (compile_error + cst \<times> bytes)" where
  "parse_string_literal st =
     (case literal_loop (cs_input st ! cs_pos st) [] (drop 1 (rest_of st)) of
        Some (s, r) \<Rightarrow> Inr (st\<lparr>cs_pos := length (cs_input st) - length r\<rparr>, s)
      | None \<Rightarrow> Inl ''unterminated string'')"

section \<open>Expressions\<close>

text \<open>The methods of \<open>ExprCompiler\<close> and their loops. \<open>NArgs\<close> and \<open>NArgsLoop\<close> read call arguments behind the opening
  parenthesis, for the call instruction they end with.\<close>

datatype nonterm =
    NComma | NCommaLoop | NConditional | NOr | NOrLoop | NAnd | NAndLoop | NComparison | NComparisonLoop
  | NAssignment | NExpr | NExprLoop | NTerm | NTermLoop | NFactor | NPostfix | NPostfixLoop
  | NArgs op_code | NArgsLoop op_code nat | NPrimary

type_synonym parser = "nonterm \<Rightarrow> cst \<Rightarrow> cres"

text \<open>A loop over binary operators: the first operator of the list that comes next, its operand, its code.\<close>

fun first_op :: "(bytes \<times> op_code) list \<Rightarrow> cst \<Rightarrow> (op_code \<times> cst) option" where
  "first_op [] st = None"
| "first_op ((s, p) # ops) st = (case consume_seq s st of Some st \<Rightarrow> Some (p, st) | None \<Rightarrow> first_op ops st)"

definition op_loop :: "(bytes \<times> op_code) list \<Rightarrow> nonterm \<Rightarrow> nonterm \<Rightarrow> parser \<Rightarrow> cst \<Rightarrow> cres" where
  "op_loop ops operand again p st =
     (let st = skip_ws st in
      case first_op ops st of
        Some (c, st) \<Rightarrow> and_then (p operand st) (\<lambda>st. p again (emit_op c st))
      | None \<Rightarrow> ok st)"

definition parse_comma :: "parser \<Rightarrow> cst \<Rightarrow> cres" where
  "parse_comma p st = and_then (p NConditional st) (p NCommaLoop)"

definition comma_loop :: "parser \<Rightarrow> cst \<Rightarrow> cres" where
  "comma_loop p st =
     (let st = skip_ws st in
      case consume (CHR '','') st of
        Some st \<Rightarrow> and_then (p NConditional (emit_op Drop st)) (p NCommaLoop)
      | None \<Rightarrow> ok st)"

definition parse_conditional :: "parser \<Rightarrow> cst \<Rightarrow> cres" where
  "parse_conditional p st =
     and_then (p NOr st) (\<lambda>st. let st = skip_ws st in
       case consume (CHR ''?'') st of
         None \<Rightarrow> ok st
       | Some st \<Rightarrow>
           let jump_if_false = length (code_of st) in
           and_then (p NConditional (emit_op JumpIfFalse st)) (\<lambda>st.
             let jump_end = length (code_of st);
                 st = skip_ws (patch_jump jump_if_false (emit_op Jump st))
             in case consume (CHR '':'') st of
                  None \<Rightarrow> fail (''missing '' @ [SQ] @ '':'' @ [SQ])
                | Some st \<Rightarrow> and_then (p NConditional st) (\<lambda>st. ok (patch_jump jump_end st))))"

definition or_ops :: "(bytes \<times> op_code) list" where "or_ops = [(''||'', Or)]"
definition and_ops :: "(bytes \<times> op_code) list" where "and_ops = [(''&&'', And)]"
definition comparison_ops :: "(bytes \<times> op_code) list" where
  "comparison_ops =
     [(''==='', StrictEq), (''!=='', StrictNeq), (''=='', Eq), (''!='', Neq), (''<='', Le), (''>='', Ge), (''<'', Lt),
      (''>'', Gt)]"
definition term_ops :: "(bytes \<times> op_code) list" where "term_ops = [(''*'', Mul), (''/'', Div), (''%'', Mod)]"

definition parse_logical_or :: "parser \<Rightarrow> cst \<Rightarrow> cres" where
  "parse_logical_or p st = and_then (p NAnd st) (p NOrLoop)"
definition parse_logical_and :: "parser \<Rightarrow> cst \<Rightarrow> cres" where
  "parse_logical_and p st = and_then (p NComparison st) (p NAndLoop)"
definition parse_comparison :: "parser \<Rightarrow> cst \<Rightarrow> cres" where
  "parse_comparison p st = and_then (p NAssignment st) (p NComparisonLoop)"

text \<open>Assignment: a local slot keeps the value by a copy, a global store leaves it on the stack.\<close>

definition store_local :: "nat \<Rightarrow> cst \<Rightarrow> cst" where
  "store_local slot st = emit_op Drop (emit_inst StoreLocal slot (emit_op Dup st))"

definition compound_assignment :: "parser \<Rightarrow> op_code \<Rightarrow> bytes \<Rightarrow> cst \<Rightarrow> cres" where
  "compound_assignment p c name st =
     (case find_local name st of
        Some slot \<Rightarrow> and_then (p NExpr (emit_inst LoadLocal slot st)) (\<lambda>st. ok (store_local slot (emit_op c st)))
      | None \<Rightarrow>
          if c = Sub then fail ''unsupported global -=''
          else and_then (p NExpr (emit_pooled LoadGlobal (add_string_const name st)))
                 (\<lambda>st. ok (emit_pooled StoreGlobal (add_string_const name (emit_op c st)))))"

definition parse_assignment :: "parser \<Rightarrow> cst \<Rightarrow> cres" where
  "parse_assignment p st0 =
     (let start = skip_ws st0 in
      case parse_identifier start of
        (_, None) \<Rightarrow> p NExpr start
      | (st, Some name) \<Rightarrow>
          let st = skip_ws st in
          case consume_seq ''+='' st of
            Some st \<Rightarrow> compound_assignment p Add name st
          | None \<Rightarrow>
            (case consume_seq ''-='' st of
               Some st \<Rightarrow> compound_assignment p Sub name st
             | None \<Rightarrow>
               (case consume (CHR ''='') st of
                  Some st \<Rightarrow>
                    if peek st = Some (CHR ''='') then p NExpr start
                    else and_then (p NAssignment st) (\<lambda>st.
                      case find_local name st of
                        Some slot \<Rightarrow> ok (store_local slot st)
                      | None \<Rightarrow> ok (emit_pooled StoreGlobal (add_string_const name st)))
                | None \<Rightarrow> p NExpr start)))"

definition parse_expr :: "parser \<Rightarrow> cst \<Rightarrow> cres" where
  "parse_expr p st = and_then (p NTerm st) (p NExprLoop)"

definition sum_step :: "parser \<Rightarrow> byte \<Rightarrow> op_code \<Rightarrow> cst \<Rightarrow> cres" where
  "sum_step p sign c st =
     (if peek st = Some sign then fail ([sign, sign] @ '' not supported in bytecode'')
      else and_then (p NTerm st) (\<lambda>st. p NExprLoop (emit_op c st)))"

definition expr_loop :: "parser \<Rightarrow> cst \<Rightarrow> cres" where
  "expr_loop p st =
     (let st = skip_ws st in
      case consume (CHR ''+'') st of
        Some st \<Rightarrow> sum_step p (CHR ''+'') Add st
      | None \<Rightarrow> (case consume (CHR ''-'') st of Some st \<Rightarrow> sum_step p (CHR ''-'') Sub st | None \<Rightarrow> ok st))"

definition parse_term :: "parser \<Rightarrow> cst \<Rightarrow> cres" where
  "parse_term p st = and_then (p NFactor st) (p NTermLoop)"

definition unary_ops :: "(bytes \<times> op_code) list" where
  "unary_ops = [(''-'', Neg), (''!'', Not), (''~'', BitNot)]"

definition parse_factor :: "parser \<Rightarrow> cst \<Rightarrow> cres" where
  "parse_factor p st =
     (let st = skip_ws st in
      case consume (CHR ''+'') st of
        Some st \<Rightarrow> p NFactor st
      | None \<Rightarrow>
          (case first_op unary_ops st of
             Some (c, st) \<Rightarrow> and_then (p NFactor st) (\<lambda>st. ok (emit_op c st))
           | None \<Rightarrow> p NPostfix st))"

definition parse_postfix :: "parser \<Rightarrow> cst \<Rightarrow> cres" where
  "parse_postfix p st = and_then (p NPrimary st) (p NPostfixLoop)"

definition expect_byte :: "byte \<Rightarrow> (cst \<Rightarrow> cres) \<Rightarrow> cst \<Rightarrow> cres" where
  "expect_byte b k st =
     (case consume b (skip_ws st) of
        Some st \<Rightarrow> k st
      | None \<Rightarrow> fail (''expected '' @ [SQ] @ [b] @ [SQ]))"

definition parse_args :: "parser \<Rightarrow> op_code \<Rightarrow> cst \<Rightarrow> cres" where
  "parse_args p c st =
     (let st = skip_ws st in
      if peek st = Some (CHR '')'') then expect_byte (CHR '')'') (\<lambda>st. ok (emit_inst c 0 st)) st
      else and_then (p NConditional st) (p (NArgsLoop c 1)))"

definition call_args_loop :: "parser \<Rightarrow> op_code \<Rightarrow> nat \<Rightarrow> cst \<Rightarrow> cres" where
  "call_args_loop p c argc st =
     (let st = skip_ws st in
      case consume (CHR '','') st of
        Some st \<Rightarrow> and_then (p NConditional st) (p (NArgsLoop c (argc + 1)))
      | None \<Rightarrow> expect_byte (CHR '')'') (\<lambda>st. ok (emit_inst c argc st)) st)"

definition postfix_loop :: "parser \<Rightarrow> cst \<Rightarrow> cres" where
  "postfix_loop p st =
     (let st = skip_ws st in
      case consume (CHR ''.'') st of
        Some st \<Rightarrow>
          (case parse_identifier st of
             (_, None) \<Rightarrow> fail (''expected property name after '' @ [SQ] @ ''.'' @ [SQ])
           | (st, Some prop) \<Rightarrow>
               let st = skip_ws st in
               case consume (CHR ''('') st of
                 Some _ \<Rightarrow>
                   and_then (p (NArgs CallMethod) (advance 1 (emit_op GetProp (emit_string_const prop (emit_op Dup st)))))
                     (p NPostfixLoop)
               | None \<Rightarrow> p NPostfixLoop (emit_op GetProp (emit_string_const prop st)))
      | None \<Rightarrow>
          (case consume (CHR ''['') st of
             Some st \<Rightarrow> and_then (p NComma st) (expect_byte (CHR '']'') (\<lambda>st. p NPostfixLoop (emit_op GetElem st)))
           | None \<Rightarrow>
               (case consume (CHR ''('') st of
                  Some st \<Rightarrow> and_then (p (NArgs Call) st) (p NPostfixLoop)
                | None \<Rightarrow> ok st)))"

definition literal_const :: "js_value \<Rightarrow> cst \<Rightarrow> cst" where
  "literal_const v st = emit_inst Const (length (consts_of st)) (push_const v st)"

definition parse_name :: "parser \<Rightarrow> bytes \<Rightarrow> cst \<Rightarrow> cres" where
  "parse_name p name st =
     (if name = ''true'' then ok (literal_const JS_TRUE st)
      else if name = ''false'' then ok (literal_const JS_FALSE st)
      else if name = ''null'' then ok (literal_const JS_NULL st)
      else if name = ''undefined'' then ok (emit_pooled Const (add_undefined_const st))
      else if name = ''Number'' then
        (let st = skip_ws st in
         case consume (CHR ''('') st of
           Some st \<Rightarrow> and_then (p NComma st) (expect_byte (CHR '')'') (\<lambda>st. ok (emit_op ToNumber st)))
         | None \<Rightarrow> ok (emit_pooled LoadGlobal (add_string_const ''Number'' st)))
      else case find_local name st of
             Some slot \<Rightarrow> ok (emit_inst LoadLocal slot st)
           | None \<Rightarrow> ok (emit_pooled LoadGlobal (add_string_const name st)))"

definition parse_primary :: "parser \<Rightarrow> cst \<Rightarrow> cres" where
  "parse_primary p st =
     (let st = skip_ws st in
      case consume (CHR ''('') st of
        Some st \<Rightarrow> and_then (p NComma st) (expect_byte (CHR '')'') ok)
      | None \<Rightarrow>
          if peek st = Some SQ \<or> peek st = Some DQ then
            (case parse_string_literal st of Inr (st, s) \<Rightarrow> ok (emit_string_const s st) | Inl e \<Rightarrow> fail e)
          else if (case peek st of Some b \<Rightarrow> is_digit b \<or> b = CHR ''.'' | None \<Rightarrow> False) then
            (case parse_number st of Inr (st, n) \<Rightarrow> ok (emit_const n st) | Inl e \<Rightarrow> fail e)
          else
            (case parse_identifier st of
               (st, Some name) \<Rightarrow> parse_name p name st
             | (st, None) \<Rightarrow> fail (''unexpected token at pos '' @ dec_of_nat (cs_pos st))))"

definition parse_body :: "parser \<Rightarrow> parser" where
  "parse_body p nt =
     (case nt of
        NComma \<Rightarrow> parse_comma p | NCommaLoop \<Rightarrow> comma_loop p | NConditional \<Rightarrow> parse_conditional p
      | NOr \<Rightarrow> parse_logical_or p | NOrLoop \<Rightarrow> op_loop or_ops NAnd NOrLoop p
      | NAnd \<Rightarrow> parse_logical_and p | NAndLoop \<Rightarrow> op_loop and_ops NComparison NAndLoop p
      | NComparison \<Rightarrow> parse_comparison p | NComparisonLoop \<Rightarrow> op_loop comparison_ops NAssignment NComparisonLoop p
      | NAssignment \<Rightarrow> parse_assignment p
      | NExpr \<Rightarrow> parse_expr p | NExprLoop \<Rightarrow> expr_loop p
      | NTerm \<Rightarrow> parse_term p | NTermLoop \<Rightarrow> op_loop term_ops NFactor NTermLoop p
      | NFactor \<Rightarrow> parse_factor p | NPostfix \<Rightarrow> parse_postfix p | NPostfixLoop \<Rightarrow> postfix_loop p
      | NArgs c \<Rightarrow> parse_args p c | NArgsLoop c n \<Rightarrow> call_args_loop p c n | NPrimary \<Rightarrow> parse_primary p)"

primrec parse :: "nat \<Rightarrow> parser" where
  "parse 0 = (\<lambda>nt st. None)"
| "parse (Suc n) = parse_body (parse n)"

end
