(* ===== verification/Compiler_Stmts.thy ===== *)
theory Compiler_Stmts
  imports Compiler
begin

text \<open>
  The statements of the bytecode compiler (\<open>StmtCompiler\<close> and \<open>Compiler\<close> in \<open>src/compiler.rs\<close>): declarations, \<open>return\<close>,
  \<open>for\<close>, \<open>if\<close> and expression statements, and the compilation of a list of statements or of one expression to
  a function. A module has this function alone.
\<close>

section \<open>Expressions of a statement\<close>

text \<open>The fuel for an expression: a level for every method, for every byte.\<close>

definition parse_fuel :: "bytes \<Rightarrow> nat" where "parse_fuel src = 20 * length src + 20"

definition at_source :: "bytes \<Rightarrow> cst \<Rightarrow> cst" where "at_source src st = st\<lparr>cs_input := src, cs_pos := 0\<rparr>"

definition compile_full_expr :: "bytes \<Rightarrow> cst \<Rightarrow> cres" where
  "compile_full_expr src st =
     and_then (parse (parse_fuel src) NComma (at_source src st)) (\<lambda>st.
       let st = skip_ws st in
       if cs_pos st \<noteq> length (cs_input st)
       then fail (''unexpected trailing: '' @ [SQ] @ drop (cs_pos st) src @ [SQ])
       else ok st)"

definition return_undefined :: "cst \<Rightarrow> cst" where
  "return_undefined st = emit_op Return (emit_pooled Const (add_undefined_const st))"

definition is_valid_identifier :: "bytes \<Rightarrow> bool" where
  "is_valid_identifier s \<longleftrightarrow>
     (case s of [] \<Rightarrow> False | c # r \<Rightarrow> is_ident_start c \<and> list_all (\<lambda>b. is_ident_start b \<or> is_digit b) r)"

definition compile_var_decl :: "bytes \<Rightarrow> cst \<Rightarrow> cres" where
  "compile_var_decl rest0 st =
     (let rest = trim rest0 in
      case find_assignment_eq rest of
        Some eq_pos \<Rightarrow>
          let name = trim (take eq_pos rest); expr = trim (drop (eq_pos + 1) rest) in
          if \<not> is_valid_identifier name then fail (''invalid var name: '' @ name)
          else (case ensure_local name st of
                  (st, slot) \<Rightarrow>
                    and_then (compile_full_expr expr st) (\<lambda>st. ok (emit_op Drop (emit_inst StoreLocal slot st))))
      | None \<Rightarrow>
          let name = trim (trim_end_char (CHR '';'') rest) in
          if \<not> is_valid_identifier name then fail (''invalid var name: '' @ name)
          else ok (fst (ensure_local name st)))"

section \<open>Updates of a loop variable\<close>

definition inc_local :: "bytes \<Rightarrow> int option \<Rightarrow> cst \<Rightarrow> cst option" where
  "inc_local name amount st =
     (if is_valid_identifier name then
        (case find_local name st of
           Some slot \<Rightarrow>
             map_option (\<lambda>n. push_instr \<lparr>i_op = IncLocal, i_a = of_nat slot, i_b = word_of_int n\<rparr> st) amount
         | None \<Rightarrow> None)
      else None)"

text \<open>The forms are tried in the order of the source; one that does not apply falls through to the next.\<close>

fun first_of :: "'a option list \<Rightarrow> 'a option" where
  "first_of [] = None"
| "first_of (Some x # xs) = Some x"
| "first_of (None # xs) = first_of xs"

text \<open>The shortcut for the update of a loop. In \<open>i -= -2147483648\<close> the source negates the least \<open>i32\<close>; the model is the
  release build, where the negation wraps around (the word of the amount is the same); a debug build panics.\<close>

definition try_compile_inc_update :: "bytes \<Rightarrow> cst \<Rightarrow> cst option" where
  "try_compile_inc_update update0 st =
     (let u = trim update0;
          long = length u \<ge> 3;
          front = trim (take (length u - 2) u); back = trim (drop 2 u);
          step = (\<lambda>p sgn. case find_part p u of
                    Some i \<Rightarrow>
                      inc_local (trim (take i u)) (map_option (\<lambda>n. sgn * n) (i32_from_str (trim (drop (i + 2) u)))) st
                  | None \<Rightarrow> None)
      in first_of
           [if long \<and> suffix ''++'' u then inc_local front (Some 1) st else None,
            if long \<and> suffix ''--'' u then inc_local front (Some (- 1)) st else None,
            if long \<and> prefix ''++'' u then inc_local back (Some 1) st else None,
            if long \<and> prefix ''--'' u then inc_local back (Some (- 1)) st else None,
            step ''+='' 1, step ''-='' (- 1)])"

section \<open>Compound statements\<close>

text \<open>\<open>TStmt\<close> is a call of \<open>compile_stmt\<close>, \<open>TIf\<close> one of \<open>compile_if_stmt\<close>.\<close>

datatype task = TStmt bytes | TIf bytes

type_synonym stmt_compiler = "task \<Rightarrow> cst \<Rightarrow> cres"

primrec compile_list :: "stmt_compiler \<Rightarrow> bytes list \<Rightarrow> cst \<Rightarrow> cres" where
  "compile_list p [] st = ok st"
| "compile_list p (s # ss) st = and_then (p (TStmt s) st) (compile_list p ss)"

definition compile_block :: "stmt_compiler \<Rightarrow> bytes \<Rightarrow> cst \<Rightarrow> cres" where
  "compile_block p src st =
     (case extract_braced_body src of
        Inl e \<Rightarrow> fail e
      | Inr body \<Rightarrow> compile_list p (simple_split_statements body) st)"

text \<open>\<open>for\<close> or \<open>if\<close>, the text in the parentheses behind it, and what follows.\<close>

definition split_header :: "bytes \<Rightarrow> bytes \<Rightarrow> compile_error + bytes \<times> bytes" where
  "split_header keyword s =
     (case strip_prefix ''('' (trim (drop (length keyword) s)) of
        None \<Rightarrow> Inl (''expected '' @ [SQ] @ ''('' @ [SQ] @ '' after '' @ keyword)
      | Some rest \<Rightarrow>
          (case find_matching_paren rest of
             None \<Rightarrow> Inl (''unmatched '' @ [SQ] @ ''('' @ [SQ] @ '' in '' @ keyword)
           | Some close \<Rightarrow> Inr (take close rest, trim (drop (close + 1) rest))))"

definition compile_discard :: "bytes \<Rightarrow> cst \<Rightarrow> cres" where
  "compile_discard s st = and_then (compile_full_expr s st) (\<lambda>st. ok (emit_op Drop st))"

definition compile_init :: "bytes \<Rightarrow> cst \<Rightarrow> cres" where
  "compile_init init0 st =
     (let init = trim init0 in
      if init = [] then ok st
      else if prefix ''var '' init then compile_var_decl (drop 4 init) st
      else compile_discard init st)"

definition compile_update :: "bytes \<Rightarrow> cst \<Rightarrow> cres" where
  "compile_update update0 st =
     (let update = trim update0 in
      if update = [] then ok st
      else case try_compile_inc_update update st of Some st \<Rightarrow> ok st | None \<Rightarrow> compile_discard update st)"

definition jump_back :: "nat \<Rightarrow> nat option \<Rightarrow> cst \<Rightarrow> cst" where
  "jump_back loop_start jump_end st =
     (let st = emit_inst Jump loop_start st in
      case jump_end of Some i \<Rightarrow> patch_jump i st | None \<Rightarrow> st)"

definition compile_for_loop :: "stmt_compiler \<Rightarrow> bytes \<Rightarrow> cst \<Rightarrow> cres" where
  "compile_for_loop p s st =
     (case split_header ''for'' s of
        Inl e \<Rightarrow> fail e
      | Inr (header, after) \<Rightarrow>
          (case split_for_header header of
             Inl e \<Rightarrow> fail e
           | Inr (init, cond, update) \<Rightarrow>
               and_then (compile_init init st) (\<lambda>st.
                 let loop_start = length (code_of st) in
                 if trim cond = [] then
                   and_then (compile_block p after st) (\<lambda>st.
                     and_then (compile_update update st) (\<lambda>st. ok (jump_back loop_start None st)))
                 else
                   and_then (compile_full_expr (trim cond) st) (\<lambda>st.
                     let jump_end = length (code_of st) in
                     and_then (compile_block p after (emit_op JumpIfFalse st)) (\<lambda>st.
                       and_then (compile_update update st) (\<lambda>st. ok (jump_back loop_start (Some jump_end) st)))))))"

definition compile_if_stmt :: "stmt_compiler \<Rightarrow> bytes \<Rightarrow> cst \<Rightarrow> cres" where
  "compile_if_stmt p s st =
     (case split_header ''if'' s of
        Inl e \<Rightarrow> fail e
      | Inr (cond, after) \<Rightarrow>
          and_then (compile_full_expr cond st) (\<lambda>st.
            let jump_else = length (code_of st) in
            and_then (compile_block p after (emit_op JumpIfFalse st)) (\<lambda>st.
              case find_else_after_brace after of
                None \<Rightarrow> ok (patch_jump jump_else st)
              | Some else_start \<Rightarrow>
                  let else_part = trim (drop else_start after);
                      jump_end = length (code_of st);
                      st = patch_jump jump_else (emit_op Jump st)
                  in and_then
                       (if prefix ''if '' else_part \<or> prefix ''if('' else_part then p (TIf else_part) st
                        else compile_block p else_part st)
                       (\<lambda>st. ok (patch_jump jump_end st)))))"

definition compile_stmt :: "stmt_compiler \<Rightarrow> bytes \<Rightarrow> cst \<Rightarrow> cres" where
  "compile_stmt p stmt st =
     (let s = trim stmt in
      if s = [] then ok st
      else if prefix ''var '' s then compile_var_decl (drop 4 s) st
      else if s = ''return'' then ok (return_undefined st)
      else if prefix ''return '' s \<or> prefix (''return'' @ [CHR 0x09]) s then
        (let expr = trim (drop 7 s) in
         if expr = [] then ok (return_undefined st)
         else and_then (compile_full_expr expr st) (\<lambda>st. ok (emit_op Return st)))
      else if prefix ''for '' s \<or> prefix ''for('' s then compile_for_loop p s st
      else if prefix ''if '' s \<or> prefix ''if('' s then compile_if_stmt p s st
      else compile_discard s st)"

primrec run_task :: "nat \<Rightarrow> stmt_compiler" where
  "run_task 0 = (\<lambda>t st. None)"
| "run_task (Suc n) = (\<lambda>t. case t of TStmt s \<Rightarrow> compile_stmt (run_task n) s | TIf s \<Rightarrow> compile_if_stmt (run_task n) s)"

text \<open>A statement needs a level for itself and one for an \<open>if\<close> behind an \<open>else\<close>, for every byte.\<close>

definition stmt_fuel :: "bytes \<Rightarrow> nat" where "stmt_fuel s = 2 * length s + 2"

section \<open>Whole functions\<close>

definition new_compiler :: "js_ctx \<Rightarrow> cst" where
  "new_compiler c = \<lparr>cs_func = bytecode_function_new, cs_ctx = c, cs_input = [], cs_pos = 0\<rparr>"

definition add_params :: "bytes list \<Rightarrow> cst \<Rightarrow> cst" where
  "add_params names st = foldl (\<lambda>st name. fst (ensure_local name st)) st names"

fun compile_all :: "bytes list \<Rightarrow> cst \<Rightarrow> cres" where
  "compile_all [] st = ok st"
| "compile_all (s # ss) st =
     (if trim s = [] then compile_all ss st
      else and_then (run_task (stmt_fuel s) (TStmt (trim s)) st) (compile_all ss))"

definition compile_stmts :: "bytes list \<Rightarrow> cst \<Rightarrow> cres" where
  "compile_stmts stmts st = and_then (compile_all stmts st) (\<lambda>st. ok (return_undefined st))"

definition compile_program :: "bytes \<Rightarrow> js_ctx \<Rightarrow> cres" where
  "compile_program src c =
     (let s = trim src; st = new_compiler c in
      if is_simple_string_literal s then
        (case js_new_string_len (take (length s - 2) (drop 1 s)) c of
           (c, v) \<Rightarrow> ok (emit_op Return (emit_inst Const 0 (push_const v (st\<lparr>cs_ctx := c\<rparr>)))))
      else
        and_then (parse (parse_fuel s) NComma (at_source s st)) (\<lambda>st.
          let st = skip_ws st in
          if cs_pos st \<noteq> length (cs_input st) then fail ''unsupported bytecode expression''
          else ok (emit_op Return st)))"

end
