(* ===== verification/Typing.thy ===== *)
theory Typing
  imports Compiler_Stmts
begin

text \<open>
  The stack discipline of bytecode: what each instruction takes from the operand stack and puts there, and
  when a piece of code is well typed, that is, when every program point has one stack height, every
  instruction finds its operands, its constant and its slot, and every jump stays inside the piece and meets
  the height of its target. Pieces compose; the control structures of the compiler are pieces of pieces.
\<close>

section \<open>Effects\<close>

fun effect :: "op_code \<Rightarrow> nat \<Rightarrow> nat \<times> nat" where
  "effect Nop a = (0, 0)"
| "effect Const a = (0, 1)"
| "effect LoadGlobal a = (0, 1)"
| "effect StoreGlobal a = (1, 1)"
| "effect LoadLocal a = (0, 1)"
| "effect StoreLocal a = (1, 1)"
| "effect IncLocal a = (0, 0)"
| "effect Drop a = (1, 0)"
| "effect Pop a = (1, 0)"
| "effect Dup a = (1, 2)"
| "effect Jump a = (0, 0)"
| "effect JumpIfFalse a = (1, 0)"
| "effect JumpIfTrue a = (1, 0)"
| "effect Return a = (1, 0)"
| "effect Call a = (a + 1, 1)"
| "effect CallMethod a = (a + 2, 1)"
| "effect SetProp a = (3, 1)"
| "effect Not a = (1, 1)"
| "effect Neg a = (1, 1)"
| "effect BitNot a = (1, 1)"
| "effect ToNumber a = (1, 1)"
| "effect Typeof a = (1, 1)"
| "effect p a = (2, 1)"

definition operand_ok :: "nat \<Rightarrow> nat \<Rightarrow> instruction \<Rightarrow> bool" where
  "operand_ok nc nl i \<longleftrightarrow>
     (i_op i \<in> {Const, LoadGlobal, StoreGlobal} \<longrightarrow> unat (i_a i) < nc) \<and>
     (i_op i \<in> {LoadLocal, StoreLocal, IncLocal} \<longrightarrow> unat (i_a i) < nl)"

definition jumps :: "op_code \<Rightarrow> bool" where "jumps p \<longleftrightarrow> p = Jump \<or> p = JumpIfFalse \<or> p = JumpIfTrue"
definition falls :: "op_code \<Rightarrow> bool" where "falls p \<longleftrightarrow> p \<noteq> Jump \<and> p \<noteq> Return"

definition after_instr :: "instruction \<Rightarrow> nat \<Rightarrow> nat" where
  "after_instr i d = (case effect (i_op i) (unat (i_a i)) of (takes, puts) \<Rightarrow> d - takes + puts)"

text \<open>The instruction at \<open>pc\<close>, in a piece from \<open>lo\<close> to \<open>hi\<close> with heights \<open>D\<close>.\<close>

definition instr_ok :: "nat \<Rightarrow> nat \<Rightarrow> (nat \<Rightarrow> nat) \<Rightarrow> nat \<Rightarrow> nat \<Rightarrow> nat \<Rightarrow> instruction \<Rightarrow> bool" where
  "instr_ok nc nl D lo hi pc i \<longleftrightarrow>
     fst (effect (i_op i) (unat (i_a i))) \<le> D pc \<and> operand_ok nc nl i \<and>
     (jumps (i_op i) \<longrightarrow> lo \<le> unat (i_a i) \<and> unat (i_a i) \<le> hi \<and> D (unat (i_a i)) = after_instr i (D pc)) \<and>
     (falls (i_op i) \<longrightarrow> D (pc + 1) = after_instr i (D pc))"

definition typed_by :: "(nat \<Rightarrow> nat) \<Rightarrow> nat \<Rightarrow> nat \<Rightarrow> nat \<Rightarrow> instruction list \<Rightarrow> bool" where
  "typed_by D nc nl lo cs \<longleftrightarrow> (\<forall>n < length cs. instr_ok nc nl D lo (lo + length cs) (lo + n) (cs ! n))"

definition typed :: "nat \<Rightarrow> nat \<Rightarrow> nat \<Rightarrow> instruction list \<Rightarrow> nat \<Rightarrow> nat \<Rightarrow> bool" where
  "typed nc nl lo cs d d' \<longleftrightarrow> (\<exists>D. D lo = d \<and> D (lo + length cs) = d' \<and> typed_by D nc nl lo cs)"

section \<open>Composition\<close>

lemma instr_ok_widen:
  assumes "instr_ok nc nl D lo hi pc i" "lo' \<le> lo" "hi \<le> hi'" "nc \<le> nc'" "nl \<le> nl'"
    and "\<And>x. lo \<le> x \<Longrightarrow> x \<le> hi \<Longrightarrow> D' x = D x" "lo \<le> pc" "pc < hi"
  shows "instr_ok nc' nl' D' lo' hi' pc i"
proof -
  have "D' pc = D pc" "D' (pc + 1) = D (pc + 1)" by (rule assms(6); use assms(7,8) in simp)+
  moreover have "operand_ok nc' nl' i"
  proof -
    have "operand_ok nc nl i" using assms(1) by (simp only: instr_ok_def simp_thms)
    then show ?thesis
      unfolding operand_ok_def using assms(4,5) less_le_trans by blast
  qed
  moreover have "D' (unat (i_a i)) = D (unat (i_a i)) \<and> lo' \<le> unat (i_a i) \<and> unat (i_a i) \<le> hi'" if "jumps (i_op i)"
  proof -
    have "lo \<le> unat (i_a i)" "unat (i_a i) \<le> hi" using assms(1) that by (simp_all only: instr_ok_def simp_thms)
    then show ?thesis using assms(2,3) assms(6) [of "unat (i_a i)"] by linarith
  qed
  ultimately show ?thesis using assms(1) unfolding instr_ok_def by (metis)
qed

lemma typed_by_widen:
  assumes "typed_by D nc nl lo cs" "lo' \<le> lo" "lo + length cs \<le> hi'" "nc \<le> nc'" "nl \<le> nl'"
    and "\<And>x. lo \<le> x \<Longrightarrow> x \<le> lo + length cs \<Longrightarrow> D' x = D x" "n < length cs"
  shows "instr_ok nc' nl' D' lo' hi' (lo + n) (cs ! n)"
  by (rule instr_ok_widen [where D = D and lo = lo and hi = "lo + length cs" and nc = nc and nl = nl])
    (use assms in \<open>auto simp: typed_by_def\<close>)

lemma typed_mono:
  assumes "typed nc nl lo cs d d'" "nc \<le> nc'" "nl \<le> nl'"
  shows "typed nc' nl' lo cs d d'"
proof -
  obtain D where "D lo = d" "D (lo + length cs) = d'" "typed_by D nc nl lo cs" using assms(1) by (auto simp: typed_def)
  then show ?thesis
    using typed_by_widen [of D nc nl lo cs lo "lo + length cs" nc' nl' D] assms(2,3)
    unfolding typed_def typed_by_def by blast
qed

lemma typed_Nil: "typed nc nl lo [] d d"
  by (auto simp: typed_def typed_by_def)

text \<open>An instruction that does not jump.\<close>

lemma typed_one:
  assumes "\<not> jumps (i_op i)" "operand_ok nc nl i" "fst (effect (i_op i) (unat (i_a i))) \<le> d"
    and "i_op i = Return \<or> d' = after_instr i d"
  shows "typed nc nl lo [i] d d'"
  using assms unfolding typed_def typed_by_def
  by (intro exI [of _ "\<lambda>x. if x = lo then d else d'"]) (auto simp: instr_ok_def falls_def)

text \<open>A property of every instruction of a list that starts at a program point.\<close>

primrec all_from :: "(nat \<Rightarrow> instruction \<Rightarrow> bool) \<Rightarrow> nat \<Rightarrow> instruction list \<Rightarrow> bool" where
  "all_from P lo [] \<longleftrightarrow> True"
| "all_from P lo (c # cs) \<longleftrightarrow> P lo c \<and> all_from P (lo + 1) cs"

lemma all_from_append: "all_from P lo (a @ b) \<longleftrightarrow> all_from P lo a \<and> all_from P (lo + length a) b"
  by (induction a arbitrary: lo) (simp_all add: add.assoc)

lemma all_from_iff: "all_from P lo cs \<longleftrightarrow> (\<forall>n < length cs. P (lo + n) (cs ! n))"
proof (induction cs arbitrary: lo)
  case (Cons c cs)
  have "(\<forall>n < Suc (length cs). P (lo + n) ((c # cs) ! n)) \<longleftrightarrow> P lo c \<and> (\<forall>n < length cs. P (lo + 1 + n) (cs ! n))"
    by (simp add: All_less_Suc2)
  then show ?case by (simp add: Cons.IH)
qed simp

lemma typedI:
  assumes "D lo = d" "D (lo + length cs) = d'" "all_from (instr_ok nc nl D lo (lo + length cs)) lo cs"
  shows "typed nc nl lo cs d d'"
  using assms by (auto simp: typed_def typed_by_def all_from_iff)

lemma piece:
  assumes "typed_by D nc nl lo cs" "lo' \<le> lo" "lo + length cs \<le> hi'"
    and "\<And>x. lo \<le> x \<Longrightarrow> x \<le> lo + length cs \<Longrightarrow> E x = D x"
  shows "all_from (instr_ok nc nl E lo' hi') lo cs"
  unfolding all_from_iff using typed_by_widen [OF assms(1-3) order_refl order_refl assms(4)] by simp

lemma typed_append:
  assumes "typed nc nl lo cs d d'" "typed nc nl (lo + length cs) cs' d' d''"
  shows "typed nc nl lo (cs @ cs') d d''"
proof -
  obtain D D' where D: "D lo = d" "D (lo + length cs) = d'" "typed_by D nc nl lo cs"
    and D': "D' (lo + length cs) = d'" "D' (lo + length cs + length cs') = d''" "typed_by D' nc nl (lo + length cs) cs'"
    using assms by (auto simp: typed_def)
  define E where "E x = (if x \<le> lo + length cs then D x else D' x)" for x
  show ?thesis
    by (rule typedI [of E], unfold all_from_append)
      (use D D' in \<open>auto simp: E_def add.assoc intro!: piece [OF D(3)] piece [OF D'(3)]\<close>)
qed

text \<open>The heights after the operand is tested by a conditional jump.\<close>

lemma jump_if_false_ok:
  assumes "lo \<le> unat a" "unat a \<le> hi" "D (unat a) = d" "D (pc + 1) = d" "D pc = Suc d"
  shows "instr_ok nc nl D lo hi pc (instr JumpIfFalse a)"
  using assms by (simp add: instr_ok_def operand_ok_def after_instr_def)

lemma jump_ok:
  assumes "lo \<le> unat a" "unat a \<le> hi" "D (unat a) = D pc"
  shows "instr_ok nc nl D lo hi pc (instr Jump a)"
  using assms by (simp add: instr_ok_def operand_ok_def after_instr_def falls_def)

text \<open>A condition, the code for true, a jump over the code for false.\<close>

lemma typed_branch:
  assumes "typed nc nl lo c d (Suc d)" "typed nc nl (lo + length c + 1) t d r"
    and "typed nc nl (lo + length c + length t + 2) e d r"
    and "unat a = lo + length c + length t + 2" "unat b = lo + length c + length t + 2 + length e"
  shows "typed nc nl lo (c @ instr JumpIfFalse a # t @ instr Jump b # e) d r"
proof -
  let ?t = "lo + length c + 1" and ?e = "lo + length c + length t + 2"
  obtain C T E where C: "C lo = d" "C (lo + length c) = Suc d" "typed_by C nc nl lo c"
    and T: "T ?t = d" "T (?t + length t) = r" "typed_by T nc nl ?t t"
    and E: "E ?e = d" "E (?e + length e) = r" "typed_by E nc nl ?e e"
    using assms(1-3) by (auto simp: typed_def)
  define D where "D x = (if x \<le> lo + length c then C x else if x < ?e then T x else E x)" for x
  have D: "D lo = d" "D (lo + length c) = Suc d" "D ?t = d" "D (?t + length t) = r" "D ?e = d" "D (?e + length e) = r"
    using C T E by (simp_all add: D_def)
  show ?thesis
  proof (rule typedI [of D])
    show "D lo = d" "D (lo + length (c @ instr JumpIfFalse a # t @ instr Jump b # e)) = r"
      using D by (simp_all add: algebra_simps)
    let ?hi = "lo + length (c @ instr JumpIfFalse a # t @ instr Jump b # e)"
    have "all_from (instr_ok nc nl D lo ?hi) lo c" by (rule piece [OF C(3)]) (simp_all add: D_def)
    moreover have "all_from (instr_ok nc nl D lo ?hi) ?t t" by (rule piece [OF T(3)]) (simp_all add: D_def)
    moreover have "all_from (instr_ok nc nl D lo ?hi) ?e e" by (rule piece [OF E(3)]) (simp_all add: D_def)
    moreover have "instr_ok nc nl D lo ?hi (lo + length c) (instr JumpIfFalse a)"
      by (rule jump_if_false_ok [where d = d]) (use D assms(4) in simp_all)
    moreover have "instr_ok nc nl D lo ?hi (?t + length t) (instr Jump b)"
      by (rule jump_ok) (use D assms(5) in simp_all)
    ultimately show "all_from (instr_ok nc nl D lo ?hi) lo (c @ instr JumpIfFalse a # t @ instr Jump b # e)"
      by (simp add: all_from_append algebra_simps)
  qed
qed

text \<open>A condition and the code for true.\<close>

lemma typed_when:
  assumes "typed nc nl lo c d (Suc d)" "typed nc nl (lo + length c + 1) t d d"
    and "unat a = lo + length c + length t + 1"
  shows "typed nc nl lo (c @ instr JumpIfFalse a # t) d d"
proof -
  let ?t = "lo + length c + 1"
  obtain C T where C: "C lo = d" "C (lo + length c) = Suc d" "typed_by C nc nl lo c"
    and T: "T ?t = d" "T (?t + length t) = d" "typed_by T nc nl ?t t"
    using assms(1,2) by (auto simp: typed_def)
  define D where "D x = (if x \<le> lo + length c then C x else T x)" for x
  have D: "D lo = d" "D (lo + length c) = Suc d" "D ?t = d" "D (?t + length t) = d"
    using C T by (simp_all add: D_def)
  show ?thesis
  proof (rule typedI [of D])
    let ?hi = "lo + length (c @ instr JumpIfFalse a # t)"
    show "D lo = d" "D ?hi = d" using D by (simp_all add: algebra_simps)
    have "all_from (instr_ok nc nl D lo ?hi) lo c" by (rule piece [OF C(3)]) (simp_all add: D_def)
    moreover have "all_from (instr_ok nc nl D lo ?hi) ?t t" by (rule piece [OF T(3)]) (simp_all add: D_def)
    moreover have "instr_ok nc nl D lo ?hi (lo + length c) (instr JumpIfFalse a)"
      by (rule jump_if_false_ok [where d = d]) (use D assms(3) in simp_all)
    ultimately show "all_from (instr_ok nc nl D lo ?hi) lo (c @ instr JumpIfFalse a # t)"
      by (simp add: all_from_append algebra_simps)
  qed
qed

text \<open>A body with a jump back to its start, and with a condition in front.\<close>

lemma typed_forever:
  assumes "typed nc nl lo c d d" "unat a = lo"
  shows "typed nc nl lo (c @ [instr Jump a]) d d"
proof -
  obtain C where C: "C lo = d" "C (lo + length c) = d" "typed_by C nc nl lo c" using assms(1) by (auto simp: typed_def)
  define D where "D x = (if x \<le> lo + length c then C x else d)" for x
  show ?thesis
  proof (rule typedI [of D])
    let ?hi = "lo + length (c @ [instr Jump a])"
    show "D lo = d" "D ?hi = d" using C by (simp_all add: D_def)
    have "all_from (instr_ok nc nl D lo ?hi) lo c" by (rule piece [OF C(3)]) (simp_all add: D_def)
    moreover have "instr_ok nc nl D lo ?hi (lo + length c) (instr Jump a)"
      by (rule jump_ok) (use C assms(2) in \<open>simp_all add: D_def\<close>)
    ultimately show "all_from (instr_ok nc nl D lo ?hi) lo (c @ [instr Jump a])" by (simp add: all_from_append)
  qed
qed

lemma typed_while:
  assumes "typed nc nl lo c d (Suc d)" "typed nc nl (lo + length c + 1) t d d"
    and "unat a = lo + length c + length t + 2" "unat b = lo"
  shows "typed nc nl lo (c @ instr JumpIfFalse a # t @ [instr Jump b]) d d"
proof -
  let ?t = "lo + length c + 1"
  obtain C T where C: "C lo = d" "C (lo + length c) = Suc d" "typed_by C nc nl lo c"
    and T: "T ?t = d" "T (?t + length t) = d" "typed_by T nc nl ?t t"
    using assms(1,2) by (auto simp: typed_def)
  define D where "D x = (if x \<le> lo + length c then C x else if x \<le> ?t + length t then T x else d)" for x
  have D: "D lo = d" "D (lo + length c) = Suc d" "D ?t = d" "D (?t + length t) = d" "D (?t + length t + 1) = d"
    using C T by (simp_all add: D_def)
  show ?thesis
  proof (rule typedI [of D])
    let ?hi = "lo + length (c @ instr JumpIfFalse a # t @ [instr Jump b])"
    show "D lo = d" "D ?hi = d" using D by (simp_all add: algebra_simps)
    have "all_from (instr_ok nc nl D lo ?hi) lo c" by (rule piece [OF C(3)]) (simp_all add: D_def)
    moreover have "all_from (instr_ok nc nl D lo ?hi) ?t t" by (rule piece [OF T(3)]) (simp_all add: D_def)
    moreover have "instr_ok nc nl D lo ?hi (lo + length c) (instr JumpIfFalse a)"
      by (rule jump_if_false_ok [where d = d]) (use D assms(3) in \<open>simp_all add: algebra_simps\<close>)
    moreover have "instr_ok nc nl D lo ?hi (?t + length t) (instr Jump b)"
      by (rule jump_ok) (use D assms(4) in simp_all)
    ultimately show "all_from (instr_ok nc nl D lo ?hi) lo (c @ instr JumpIfFalse a # t @ [instr Jump b])"
      by (simp add: all_from_append algebra_simps)
  qed
qed

end
