(* ===== verification/Compiler_Facts.thy ===== *)
theory Compiler_Facts
  imports Typing
begin

text \<open>
  What the expression compiler guarantees: code only grows at its end (a forward jump is patched inside the piece
  its method emitted), every method consumes source, its code takes the stack from one height to the next one,
  and \<open>20\<close> levels of fuel per byte are enough.
\<close>

section \<open>Growth\<close>

text \<open>Operands are words of 32 bits.\<close>

definition fits :: "cst \<Rightarrow> bool" where
  "fits st \<longleftrightarrow> length (code_of st) < 2 ^ 32 \<and> length (consts_of st) < 2 ^ 32 \<and> length (locals_of st) < 2 ^ 32"

definition extends :: "cst \<Rightarrow> cst \<Rightarrow> instruction list \<Rightarrow> bool" where
  "extends st st' new \<longleftrightarrow>
     code_of st' = code_of st @ new \<and> prefix (consts_of st) (consts_of st') \<and> prefix (locals_of st) (locals_of st')"

definition typed_in :: "cst \<Rightarrow> nat \<Rightarrow> instruction list \<Rightarrow> nat \<Rightarrow> nat \<Rightarrow> bool" where
  "typed_in st lo new d d' \<longleftrightarrow> (fits st \<longrightarrow> typed (length (consts_of st)) (length (locals_of st)) lo new d d')"

text \<open>From \<open>st\<close> to \<open>st'\<close> the compiler added code that takes the stack from height \<open>d\<close> to \<open>d'\<close>.\<close>

definition grows :: "cst \<Rightarrow> cst \<Rightarrow> nat \<Rightarrow> nat \<Rightarrow> bool" where
  "grows st st' d d' \<longleftrightarrow> (\<exists>new. extends st st' new \<and> typed_in st' (length (code_of st)) new d d')"

lemma extends_refl: "code_of st' = code_of st \<Longrightarrow> consts_of st' = consts_of st \<Longrightarrow> locals_of st' = locals_of st \<Longrightarrow>
    extends st st' []"
  by (simp add: extends_def)

lemma extends_trans: "extends a b x \<Longrightarrow> extends b c y \<Longrightarrow> extends a c (x @ y)"
  by (auto simp: extends_def)

lemma extends_lengths:
  assumes "extends a b x"
  shows "length (code_of b) = length (code_of a) + length x" "length (consts_of a) \<le> length (consts_of b)"
    "length (locals_of a) \<le> length (locals_of b)"
  using assms by (auto simp: extends_def prefix_length_le)

lemma extends_fits: "extends a b x \<Longrightarrow> fits b \<Longrightarrow> fits a"
  using extends_lengths [of a b x] by (auto simp: fits_def)

lemma typed_in_extends: "extends a b x \<Longrightarrow> typed_in a lo new d d' \<Longrightarrow> typed_in b lo new d d'"
  unfolding typed_in_def using extends_fits extends_lengths(2,3) typed_mono by blast

lemma grows_trans:
  assumes "grows a b d d'" "grows b c d' d''"
  shows "grows a c d d''"
proof -
  obtain x y where x: "extends a b x" "typed_in b (length (code_of a)) x d d'"
    and y: "extends b c y" "typed_in c (length (code_of b)) y d' d''" using assms by (auto simp: grows_def)
  have "typed_in c (length (code_of a)) (x @ y) d d''"
    using typed_in_extends [OF y(1) x(2)] y(2) extends_lengths(1) [OF x(1)]
    by (auto simp: typed_in_def intro: typed_append)
  then show ?thesis using extends_trans [OF x(1) y(1)] by (auto simp: grows_def)
qed

lemma grows_same: "code_of st' = code_of st \<Longrightarrow> consts_of st' = consts_of st \<Longrightarrow> locals_of st' = locals_of st \<Longrightarrow>
    grows st st' d d"
  using extends_refl [of st' st] by (auto simp: grows_def typed_in_def intro: typed_Nil)

lemma grows_length: "grows a b d d' \<Longrightarrow> length (code_of a) \<le> length (code_of b)"
  by (auto simp: grows_def extends_def)

lemma grows_fits: "grows a b d d' \<Longrightarrow> fits b \<Longrightarrow> fits a"
  by (auto simp: grows_def intro: extends_fits)

section \<open>Emission\<close>

lemma push_instr_fields [simp]:
  "code_of (push_instr i st) = code_of st @ [i]" "consts_of (push_instr i st) = consts_of st"
  "locals_of (push_instr i st) = locals_of st" "cs_input (push_instr i st) = cs_input st"
  "cs_pos (push_instr i st) = cs_pos st" "cs_ctx (push_instr i st) = cs_ctx st"
  by (simp_all add: push_instr_def)

lemma push_const_fields [simp]:
  "code_of (push_const v st) = code_of st" "consts_of (push_const v st) = consts_of st @ [v]"
  "locals_of (push_const v st) = locals_of st" "cs_input (push_const v st) = cs_input st"
  "cs_pos (push_const v st) = cs_pos st" "cs_ctx (push_const v st) = cs_ctx st"
  by (simp_all add: push_const_def)

lemma extends_push: "extends st (push_instr i st) [i]"
  by (simp add: extends_def)

lemma grows_push:
  assumes "\<not> jumps (i_op i)" "fits st \<Longrightarrow> fst (effect (i_op i) (unat (i_a i))) \<le> d"
    and "fits st \<Longrightarrow> operand_ok (length (consts_of st)) (length (locals_of st)) i"
    and "fits st \<Longrightarrow> i_op i = Return \<or> d' = after_instr i d"
  shows "grows st (push_instr i st) d d'"
proof -
  have "fits (push_instr i st) \<Longrightarrow> fits st" by (rule extends_fits [OF extends_push])
  then show ?thesis
    unfolding grows_def typed_in_def using extends_push [of st i] assms typed_one [OF assms(1)]
    by (intro exI [of _ "[i]"]) simp
qed

text \<open>Instructions without an operand in the pools.\<close>

lemma grows_emit_op:
  assumes "p \<notin> {Const, LoadGlobal, StoreGlobal, LoadLocal, StoreLocal, IncLocal}" "\<not> jumps p" "fst (effect p 0) \<le> d"
    and "p = Return \<or> d' = d - fst (effect p 0) + snd (effect p 0)"
  shows "grows st (emit_op p st) d d'"
  unfolding emit_op_def
  by (rule grows_push) (use assms in \<open>auto simp: operand_ok_def after_instr_def split: prod.splits\<close>)

lemma unat_of_nat_fits: "n < 2 ^ 32 \<Longrightarrow> unat (of_nat n :: u32) = n"
  by (simp add: unat_of_nat take_bit_nat_eq_self)

lemma grows_const: "i < length (consts_of st) \<Longrightarrow> grows st (emit_inst Const i st) d (Suc d)"
  unfolding emit_inst_def
  by (rule grows_push) (auto simp: jumps_def operand_ok_def after_instr_def fits_def unat_of_nat_fits)

lemma grows_load_global: "i < length (consts_of st) \<Longrightarrow> grows st (emit_inst LoadGlobal i st) d (Suc d)"
  unfolding emit_inst_def
  by (rule grows_push) (auto simp: jumps_def operand_ok_def after_instr_def fits_def unat_of_nat_fits)

lemma grows_store_global: "i < length (consts_of st) \<Longrightarrow> grows st (emit_inst StoreGlobal i st) (Suc d) (Suc d)"
  unfolding emit_inst_def
  by (rule grows_push) (auto simp: jumps_def operand_ok_def after_instr_def fits_def unat_of_nat_fits)

lemma grows_load_local: "i < length (locals_of st) \<Longrightarrow> grows st (emit_inst LoadLocal i st) d (Suc d)"
  unfolding emit_inst_def
  by (rule grows_push) (auto simp: jumps_def operand_ok_def after_instr_def fits_def unat_of_nat_fits)

lemma grows_store_local_instr: "i < length (locals_of st) \<Longrightarrow> grows st (emit_inst StoreLocal i st) (Suc d) (Suc d)"
  unfolding emit_inst_def
  by (rule grows_push) (auto simp: jumps_def operand_ok_def after_instr_def fits_def unat_of_nat_fits)

text \<open>The instructions that end a call: the function and, for a method, its object are below the arguments.\<close>

definition call_base :: "op_code \<Rightarrow> nat" where "call_base c = (if c = CallMethod then 2 else 1)"
definition is_call :: "op_code \<Rightarrow> bool" where "is_call c \<longleftrightarrow> c = Call \<or> c = CallMethod"

lemma grows_call:
  assumes "is_call c" "n \<le> length (code_of st)"
  shows "grows st (emit_inst c n st) (d + call_base c + n) (Suc d)"
  unfolding emit_inst_def
  by (rule grows_push)
    (use assms in \<open>auto simp: is_call_def call_base_def jumps_def operand_ok_def after_instr_def fits_def unat_of_nat_fits\<close>)

section \<open>Constants\<close>

definition same_text :: "cst \<Rightarrow> cst \<Rightarrow> bool" where
  "same_text st st' \<longleftrightarrow> cs_input st' = cs_input st \<and> cs_pos st' = cs_pos st \<and> code_of st' = code_of st \<and>
     locals_of st' = locals_of st"

text \<open>Looking up or adding a constant extends the pool and gives an index in it.\<close>

lemma pooled_spec:
  assumes "pooled same add st = (st', i)"
    and "\<And>st. same_text st (add st) \<and> (\<exists>v. consts_of (add st) = consts_of st @ [v])"
  shows "same_text st st' \<and> prefix (consts_of st) (consts_of st') \<and> i < length (consts_of st')"
proof (cases "position same (consts_of st)")
  case None
  obtain v where "same_text st (add st)" "consts_of (add st) = consts_of st @ [v]" using assms(2) [of st] by blast
  then show ?thesis using assms(1) None by (auto simp: pooled_def)
next
  case (Some j)
  then show ?thesis using assms(1) position_SomeD [OF Some] by (auto simp: pooled_def same_text_def)
qed

lemma add_const_specs:
  "add_undefined_const st = (st', i) \<Longrightarrow> same_text st st' \<and> prefix (consts_of st) (consts_of st') \<and> i < length (consts_of st')"
  "add_number_const n st = (st', i) \<Longrightarrow> same_text st st' \<and> prefix (consts_of st) (consts_of st') \<and> i < length (consts_of st')"
  "add_string_const s st = (st', i) \<Longrightarrow> same_text st st' \<and> prefix (consts_of st) (consts_of st') \<and> i < length (consts_of st')"
proof -
  show "add_undefined_const st = (st', i) \<Longrightarrow> same_text st st' \<and> prefix (consts_of st) (consts_of st') \<and> i < length (consts_of st')"
    unfolding add_undefined_const_def by (erule pooled_spec) (simp add: same_text_def)
  show "same_text st st' \<and> prefix (consts_of st) (consts_of st') \<and> i < length (consts_of st')"
    if "add_number_const n st = (st', i)"
  proof -
    obtain c v where "number_to_value n (cs_ctx st) = (c, v)" by (rule prod.exhaust)
    with that have "pooled (\<lambda>w. w = v) (push_const v) (st\<lparr>cs_ctx := c\<rparr>) = (st', i)" by (simp add: add_number_const_def)
    from pooled_spec [OF this] show ?thesis by (simp add: same_text_def)
  qed
  show "add_string_const s st = (st', i) \<Longrightarrow> same_text st st' \<and> prefix (consts_of st) (consts_of st') \<and> i < length (consts_of st')"
    unfolding add_string_const_def by (erule pooled_spec) (simp add: same_text_def split: prod.splits)
qed

lemma same_text_extends:
  "same_text st st' \<Longrightarrow> prefix (consts_of st) (consts_of st') \<Longrightarrow> grows st st' d d"
  unfolding grows_def
  by (intro exI [of _ "[]"]) (auto simp: extends_def same_text_def typed_in_def intro: typed_Nil)

text \<open>What emission leaves in place: the source and the position in it.\<close>

definition same_place :: "cst \<Rightarrow> cst \<Rightarrow> bool" where
  "same_place st st' \<longleftrightarrow> cs_input st' = cs_input st \<and> cs_pos st' = cs_pos st"

lemma emit_pooled_spec:
  assumes "same_text st (fst r) \<and> prefix (consts_of st) (consts_of (fst r)) \<and> snd r < length (consts_of (fst r))"
    and "\<And>i st. i < length (consts_of st) \<Longrightarrow> grows st (emit_inst p i st) d d'"
  shows "grows st (emit_pooled p r) d d' \<and> same_place st (emit_pooled p r)"
proof -
  obtain st' i where r: "r = (st', i)" by (rule prod.exhaust)
  have "grows st st' d d" using assms(1) same_text_extends by (simp add: r)
  then have "grows st (emit_inst p i st') d d'" by (rule grows_trans) (use assms in \<open>simp add: r\<close>)
  then show ?thesis using assms(1) by (simp add: r emit_pooled_def emit_inst_def same_text_def same_place_def)
qed

lemma emit_constants:
  "grows st (emit_pooled Const (add_undefined_const st)) d (Suc d) \<and> same_place st (emit_pooled Const (add_undefined_const st))"
  "grows st (emit_const n st) d (Suc d) \<and> same_place st (emit_const n st)"
  "grows st (emit_string_const s st) d (Suc d) \<and> same_place st (emit_string_const s st)"
  "grows st (emit_pooled LoadGlobal (add_string_const s st)) d (Suc d) \<and>
    same_place st (emit_pooled LoadGlobal (add_string_const s st))"
  "grows st (emit_pooled StoreGlobal (add_string_const s st)) (Suc d) (Suc d) \<and>
    same_place st (emit_pooled StoreGlobal (add_string_const s st))"
  unfolding emit_const_def emit_string_const_def
  by (rule emit_pooled_spec; use add_const_specs grows_const grows_load_global grows_store_global in \<open>metis prod.collapse\<close>)+

section \<open>Reading\<close>

definition rem_of :: "cst \<Rightarrow> nat" where "rem_of st = length (rest_of st)"

lemma rem_of_diff: "rem_of st = length (cs_input st) - cs_pos st"
  by (simp add: rem_of_def rest_of_def)

text \<open>Progress: code of a known effect, and at least \<open>k\<close> bytes of source.\<close>

definition adv :: "nat \<Rightarrow> cst \<Rightarrow> cst \<Rightarrow> nat \<Rightarrow> nat \<Rightarrow> bool" where
  "adv k st st' d d' \<longleftrightarrow> grows st st' d d' \<and> rem_of st' + k \<le> rem_of st"

lemma adv_trans: "adv j a b d d' \<Longrightarrow> adv k b c d' d'' \<Longrightarrow> adv (j + k) a c d d''"
  by (auto simp: adv_def intro: grows_trans)

lemma adv_weaken: "adv j a b d d' \<Longrightarrow> k \<le> j \<Longrightarrow> adv k a b d d'"
  by (simp add: adv_def)

lemma adv_chain: "adv j a b d d' \<Longrightarrow> adv k b c d' d'' \<Longrightarrow> n \<le> j + k \<Longrightarrow> adv n a c d d''"
  by (blast intro: adv_weaken adv_trans)

lemma adv_emit: "grows st st' d d' \<and> same_place st st' \<Longrightarrow> adv 0 st st' d d'"
  by (simp add: adv_def same_place_def rem_of_diff)

lemma advance_fields [simp]: "cs_func (advance n st) = cs_func st" "cs_ctx (advance n st) = cs_ctx st"
  "cs_input (advance n st) = cs_input st" "cs_pos (advance n st) = cs_pos st + n"
  by (simp_all add: advance_def)

lemma adv_advance: "n \<le> rem_of st \<Longrightarrow> adv n st (advance n st) d d"
  by (auto simp: adv_def rem_of_diff intro: grows_same)

lemma adv_skip_ws: "adv 0 st (skip_ws st) d d"
  unfolding skip_ws_def by (rule adv_weaken [OF adv_advance]) (simp_all add: rem_of_def length_takeWhile_le)

lemma peek_rem: "peek st = Some b \<Longrightarrow> 0 < rem_of st"
  by (simp add: peek_def rem_of_diff split: if_splits)

lemma adv_consume: "consume b st = Some st' \<Longrightarrow> adv 1 st st' d d"
  by (auto simp: consume_def split: if_splits dest!: peek_rem intro: adv_advance)

lemma adv_consume_seq: "consume_seq s st = Some st' \<Longrightarrow> s \<noteq> [] \<Longrightarrow> adv 1 st st' d d"
  unfolding consume_seq_def
  by (auto simp: rem_of_def Suc_le_eq dest: prefix_length_le split: if_splits intro!: adv_weaken [OF adv_advance])

lemma first_op_spec:
  "first_op ops st = Some (c, st') \<Longrightarrow> \<forall>(s, c) \<in> set ops. s \<noteq> [] \<Longrightarrow> c \<in> snd ` set ops \<and> adv 1 st st' d d"
proof (induction ops)
  case (Cons o1 ops)
  obtain s c1 where o1: "o1 = (s, c1)" by (rule prod.exhaust)
  show ?case
  proof (cases "consume_seq s st")
    case None
    then show ?thesis using Cons by (auto simp: o1)
  next
    case (Some st1)
    then show ?thesis using Cons.prems adv_consume_seq [OF Some, of d] by (auto simp: o1)
  qed
qed simp

lemma parse_identifier_spec:
  "parse_identifier st = (st', Some name) \<Longrightarrow> adv 1 st st' d d"
  "parse_identifier st = (st', None) \<Longrightarrow> adv 0 st st' d d"
proof -
  let ?s = "skip_ws st"
  have s: "adv 0 st ?s d d" by (rule adv_skip_ws)
  show "adv 1 st st' d d" if r: "parse_identifier st = (st', Some name)"
  proof -
    from r obtain c rest where rest: "rest_of ?s = c # rest" and name: "name = c # takeWhile (\<lambda>b. is_ident_start b \<or> is_digit b) rest"
      and st': "st' = advance (length name) ?s"
      by (auto simp: parse_identifier_def Let_def split: list.splits if_splits)
    have "length name \<le> rem_of ?s" by (simp add: rem_of_def rest name length_takeWhile_le)
    from adv_chain [OF s adv_advance [OF this]] show ?thesis by (simp add: st' name)
  qed
  show "adv 0 st st' d d" if "parse_identifier st = (st', None)"
    using that s by (auto simp: parse_identifier_def Let_def split: list.splits if_splits)
qed

lemma adv_pos_ge:
  assumes "0 < rem_of st" "0 < n"
  shows "adv 1 st (advance n st) d d"
  using assms by (auto simp: adv_def rem_of_diff intro: grows_same)

lemma parse_number_spec:
  assumes "parse_number st = Inr (st', x)"
  shows "adv 1 st st' d d"
proof -
  let ?s = "skip_ws st"
  from assms have n: "0 < number_span (rest_of ?s)" and st': "st' = advance (number_span (rest_of ?s)) ?s"
    by (auto simp: parse_number_def Let_def split: if_splits option.splits)
  have "rest_of ?s \<noteq> []" using n by (auto simp: number_span_def)
  then have "adv 1 ?s st' d d" unfolding st' by (intro adv_pos_ge) (use n in \<open>simp_all add: rem_of_def\<close>)
  from adv_chain [OF adv_skip_ws this] show ?thesis by simp
qed

lemma literal_loop_Nil: "literal_loop q acc [] = None"
  by (simp add: literal_loop.simps)

lemma literal_loop_Cons:
  "literal_loop q acc (b # r) =
     (if b = q then Some (acc, r)
      else if b = BACKSLASH \<and> r \<noteq> [] then
        literal_loop q (acc @ fst (escape (hd r) (tl r))) (snd (escape (hd r) (tl r)))
      else literal_loop q (acc @ utf8_encode (of_char b)) r)"
  by (subst literal_loop.simps) (simp only: list.case)

lemma literal_loop_length: "literal_loop q acc s = Some (t, r) \<Longrightarrow> length r < length s"
proof (induction q acc s rule: literal_loop.induct)
  case (1 q acc s)
  show ?case
  proof (cases s)
    case Nil
    then show ?thesis using 1(3) by (simp add: literal_loop_Nil)
  next
    case (Cons b rest)
    consider "b = q" | "b \<noteq> q" "b = BACKSLASH \<and> rest \<noteq> []" | "b \<noteq> q" "\<not> (b = BACKSLASH \<and> rest \<noteq> [])" by blast
    then show ?thesis
    proof cases
      case 1
      then show ?thesis using \<open>literal_loop q acc s = Some (t, r)\<close> Cons by (simp add: literal_loop_Cons)
    next
      case 2
      then have "length r < length (snd (escape (hd rest) (tl rest)))"
        using 1(1) [OF Cons 2] 1(3) by (simp add: Cons literal_loop_Cons)
      then show ?thesis using escape_length [of "hd rest" "tl rest"] Cons by simp
    next
      case 3
      then have "length r < length rest"
        using 1(2) [OF Cons 3] 1(3) by (simp only: Cons literal_loop_Cons if_False simp_thms)
      then show ?thesis by (simp add: Cons)
    qed
  qed
qed

lemma parse_string_literal_spec:
  assumes "parse_string_literal st = Inr (st', s)"
  shows "adv 1 st st' d d"
proof -
  obtain r where r: "literal_loop (cs_input st ! cs_pos st) [] (drop 1 (rest_of st)) = Some (s, r)"
    and st': "st' = st\<lparr>cs_pos := length (cs_input st) - length r\<rparr>"
    using assms by (auto simp: parse_string_literal_def split: option.splits)
  have "length r < length (drop 1 (rest_of st))" by (rule literal_loop_length [OF r])
  then show ?thesis by (auto simp: adv_def st' rem_of_diff rest_of_def intro: grows_same)
qed

section \<open>Jumps\<close>

lemma code_of_func: "cs_func a = cs_func b \<Longrightarrow> code_of a = code_of b \<and> consts_of a = consts_of b \<and> locals_of a = locals_of b"
  by simp

lemma skip_ws_func [simp]: "cs_func (skip_ws st) = cs_func st"
  by (simp add: skip_ws_def)

lemma consume_func: "consume b st = Some st' \<Longrightarrow> cs_func st' = cs_func st"
  by (auto simp: consume_def split: if_splits)

text \<open>A patch reaches the jump that was emitted behind \<open>xs\<close>.\<close>

lemma patch_code:
  assumes "code_of st = xs @ instr p 0 # ys" "i = length xs"
  shows "code_of (patch_jump i st) = xs @ instr p (of_nat (length xs + length ys + 1)) # ys"
  using assms by (simp add: patch_jump_def)

lemma patch_pools [simp]: "consts_of (patch_jump i st) = consts_of st" "locals_of (patch_jump i st) = locals_of st"
  "cs_input (patch_jump i st) = cs_input st" "cs_pos (patch_jump i st) = cs_pos st"
  by (simp_all add: patch_jump_def)

lemma typed_in_to:
  assumes "typed_in a lo new d d'" "fits b \<Longrightarrow> fits a" "length (consts_of a) \<le> length (consts_of b)"
    "length (locals_of a) \<le> length (locals_of b)" "fits b"
  shows "typed (length (consts_of b)) (length (locals_of b)) lo new d d'"
  using assms typed_mono by (auto simp: typed_in_def)

lemma grows_branch:
  assumes c: "extends st s1 c" "typed_in s1 (length (code_of st)) c d (Suc d)"
    and s2: "cs_func s2 = cs_func (emit_op JumpIfFalse s1)"
    and t: "extends s2 s3 t" "typed_in s3 (length (code_of s2)) t d r"
    and s4: "cs_func s4 = cs_func (patch_jump (length (code_of s1)) (emit_op Jump s3))"
    and e: "extends s4 s5 e" "typed_in s5 (length (code_of s4)) e d r"
    and s6: "cs_func s6 = cs_func (patch_jump (length (code_of s3)) s5)"
  shows "grows st s6 d r"
proof -
  let ?lo = "length (code_of st)"
  define A where "A = (of_nat (?lo + length c + length t + 2) :: u32)"
  define B where "B = (of_nat (?lo + length c + length t + 2 + length e) :: u32)"
  let ?new = "c @ instr JumpIfFalse A # t @ instr Jump B # e"
  have "code_of (emit_op Jump s3) = (code_of st @ c) @ instr JumpIfFalse 0 # (t @ [instr Jump 0])"
    using c(1) t(1) s2 by (simp add: extends_def emit_op_def)
  from patch_code [OF this, of "length (code_of s1)"] c(1) s4
  have code4: "code_of s4 = (code_of st @ c) @ instr JumpIfFalse A # t @ [instr Jump 0]"
    by (simp add: extends_def A_def add.assoc)
  then have "code_of s5 = (code_of st @ c @ instr JumpIfFalse A # t) @ instr Jump 0 # e"
    using e(1) by (simp add: extends_def)
  from patch_code [OF this, of "length (code_of s3)"] c(1) t(1) s2 s6
  have code6: "code_of s6 = code_of st @ ?new"
    by (simp add: extends_def emit_op_def B_def add.assoc add.commute add.left_commute)
  have pools: "consts_of s6 = consts_of s5" "locals_of s6 = locals_of s5" using s6 by simp_all
  have pre: "prefix (consts_of st) (consts_of s1)" "prefix (consts_of s1) (consts_of s3)" "prefix (consts_of s3) (consts_of s5)"
    "prefix (locals_of st) (locals_of s1)" "prefix (locals_of s1) (locals_of s3)" "prefix (locals_of s3) (locals_of s5)"
    using c(1) t(1) e(1) s2 s4 by (simp_all add: extends_def emit_op_def)
  have ext: "extends st s6 ?new"
    unfolding extends_def code6 pools using pre by (blast intro: prefix_order.trans)
  have len: "length (consts_of s1) \<le> length (consts_of s6)" "length (consts_of s3) \<le> length (consts_of s6)"
    "length (consts_of s5) \<le> length (consts_of s6)" "length (locals_of s1) \<le> length (locals_of s6)"
    "length (locals_of s3) \<le> length (locals_of s6)" "length (locals_of s5) \<le> length (locals_of s6)"
    using pre [THEN prefix_length_le] pools by simp_all
  have code: "length (code_of s1) \<le> length (code_of s6)" "length (code_of s3) \<le> length (code_of s6)"
    "length (code_of s5) \<le> length (code_of s6)"
    using c(1) t(1) s2 code6 \<open>code_of s5 = _\<close> by (simp_all add: extends_def emit_op_def)
  have "typed (length (consts_of s6)) (length (locals_of s6)) ?lo ?new d r" if "fits s6"
  proof (rule typed_branch)
    show "typed (length (consts_of s6)) (length (locals_of s6)) ?lo c d (Suc d)"
      by (rule typed_in_to [OF c(2)]) (use len code that in \<open>auto simp: fits_def\<close>)
    have "length (code_of s2) = ?lo + length c + 1" using s2 c(1) by (simp add: extends_def emit_op_def)
    then show "typed (length (consts_of s6)) (length (locals_of s6)) (?lo + length c + 1) t d r"
      using typed_in_to [OF t(2), of s6] len code that by (auto simp: fits_def)
    have "length (code_of s4) = ?lo + length c + length t + 2" using code4 by simp
    then show "typed (length (consts_of s6)) (length (locals_of s6)) (?lo + length c + length t + 2) e d r"
      using typed_in_to [OF e(2), of s6] len code that by (auto simp: fits_def)
    show "unat A = ?lo + length c + length t + 2" "unat B = ?lo + length c + length t + 2 + length e"
      unfolding A_def B_def by (rule unat_of_nat_fits; use that code6 in \<open>simp add: fits_def\<close>)+
  qed
  then show ?thesis using ext by (auto simp: grows_def typed_in_def)
qed

end
