(* ===== verification/Compiler_Sound.thy ===== *)
theory Compiler_Sound
  imports Compiler_Facts
begin

text \<open>
  Every method of the expression compiler meets its specification: an expression consumes source and its code
  puts one value on the stack; a loop takes the value that is there to another one; the arguments of a call become
  the result. And the fuel that \<open>compile_full_expr\<close> gives is enough, so compilation ends on every input.
\<close>

section \<open>Specification\<close>

text \<open>One value more.\<close>

definition puts_value :: "cst \<Rightarrow> cst \<Rightarrow> bool" where
  "puts_value st st' \<longleftrightarrow> (\<forall>d. adv 1 st st' d (Suc d)) \<and> length (code_of st) < length (code_of st')"

fun nt_spec :: "nonterm \<Rightarrow> cst \<Rightarrow> cst \<Rightarrow> bool" where
  "nt_spec (NArgs c) st st' \<longleftrightarrow> (is_call c \<longrightarrow> (\<forall>d. adv 1 st st' (d + call_base c) (Suc d)))"
| "nt_spec (NArgsLoop c n) st st' \<longleftrightarrow>
     (is_call c \<and> n \<le> length (code_of st) \<longrightarrow> (\<forall>d. adv 1 st st' (d + call_base c + n) (Suc d)))"
| "nt_spec NCommaLoop st st' \<longleftrightarrow> (\<forall>d. adv 0 st st' (Suc d) (Suc d))"
| "nt_spec NOrLoop st st' \<longleftrightarrow> (\<forall>d. adv 0 st st' (Suc d) (Suc d))"
| "nt_spec NAndLoop st st' \<longleftrightarrow> (\<forall>d. adv 0 st st' (Suc d) (Suc d))"
| "nt_spec NComparisonLoop st st' \<longleftrightarrow> (\<forall>d. adv 0 st st' (Suc d) (Suc d))"
| "nt_spec NExprLoop st st' \<longleftrightarrow> (\<forall>d. adv 0 st st' (Suc d) (Suc d))"
| "nt_spec NTermLoop st st' \<longleftrightarrow> (\<forall>d. adv 0 st st' (Suc d) (Suc d))"
| "nt_spec NPostfixLoop st st' \<longleftrightarrow> (\<forall>d. adv 0 st st' (Suc d) (Suc d))"
| "nt_spec nt st st' \<longleftrightarrow> puts_value st st'"

definition sound :: "parser \<Rightarrow> bool" where
  "sound p \<longleftrightarrow> (\<forall>nt st st'. p nt st = Some (Inr st') \<longrightarrow> nt_spec nt st st')"

lemma soundD: "sound p \<Longrightarrow> p nt st = Some (Inr st') \<Longrightarrow> nt_spec nt st st'"
  by (simp add: sound_def)

lemma adv_then: "adv j a b d d' \<Longrightarrow> adv k b c d' d'' \<Longrightarrow> adv 0 a c d d''"
  by (rule adv_chain [where j = j and k = k]) simp_all

lemma adv_then1: "adv j a b d d' \<Longrightarrow> adv 1 b c d' d'' \<Longrightarrow> adv 1 a c d d''"
  by (rule adv_chain [where j = j and k = 1]) simp_all

lemma adv_first1: "adv 1 a b d d' \<Longrightarrow> adv k b c d' d'' \<Longrightarrow> adv 1 a c d d''"
  by (rule adv_chain [where j = 1 and k = k]) simp_all

section \<open>Results\<close>

lemma and_then_Inr [simp]: "and_then r f = Some (Inr x) \<longleftrightarrow> (\<exists>st. r = Some (Inr st) \<and> f st = Some (Inr x))"
  by (auto simp: and_then_def split: option.splits sum.splits)

lemma ok_Inr [simp]: "ok st = Some (Inr x) \<longleftrightarrow> st = x"
  by (auto simp: ok_def)

lemma fail_Inr [simp]: "fail e \<noteq> Some (Inr x)"
  by (simp add: fail_def)

lemma adv_length: "adv k st st' d d' \<Longrightarrow> length (code_of st) \<le> length (code_of st')"
  by (auto simp: adv_def dest: grows_length)

lemma puts_valueD:
  assumes "puts_value st st'"
  shows "adv 1 st st' d (Suc d)" "length (code_of st) < length (code_of st')"
  using assms by (auto simp: puts_value_def)

text \<open>Before and after a value there may be more.\<close>

lemma puts_value_pre:
  assumes "\<And>d. adv k st st1 d d" "puts_value st1 st2"
  shows "puts_value st st2"
  unfolding puts_value_def
proof (intro conjI allI)
  show "adv 1 st st2 d (Suc d)" for d by (rule adv_chain [OF assms(1) puts_valueD(1) [OF assms(2)]]) simp
  show "length (code_of st) < length (code_of st2)"
    using adv_length [OF assms(1)] puts_valueD(2) [OF assms(2)] by (rule le_less_trans)
qed

lemma puts_value_post:
  assumes "puts_value st st1" "\<And>d. adv k st1 st2 (Suc d) (Suc d)"
  shows "puts_value st st2"
  unfolding puts_value_def
proof (intro conjI allI)
  show "adv 1 st st2 d (Suc d)" for d by (rule adv_chain [OF puts_valueD(1) [OF assms(1)] assms(2)]) simp
  show "length (code_of st) < length (code_of st2)"
    using puts_valueD(2) [OF assms(1)] adv_length [OF assms(2)] by (rule less_le_trans)
qed

lemma puts_value_const:
  assumes "\<And>d. adv k st st1 d d" "0 < k" "\<And>d. adv 0 st1 st2 d (Suc d)" "length (code_of st1) < length (code_of st2)"
  shows "puts_value st st2"
  unfolding puts_value_def
proof (intro conjI allI)
  show "adv 1 st st2 d (Suc d)" for d by (rule adv_chain [OF assms(1,3)]) (use assms(2) in simp)
  show "length (code_of st) < length (code_of st2)" using adv_length [OF assms(1)] assms(4) by (rule le_less_trans)
qed

lemma adv_emit_op:
  assumes "p \<notin> {Const, LoadGlobal, StoreGlobal, LoadLocal, StoreLocal, IncLocal}" "\<not> jumps p" "p \<noteq> Return"
  shows "adv 0 st (emit_op p st) (fst (effect p 0) + d) (snd (effect p 0) + d)"
  by (rule adv_emit, rule conjI, rule grows_emit_op) (use assms in \<open>simp_all add: same_place_def emit_op_def\<close>)

text \<open>Operators that take two values or one.\<close>

definition binary :: "op_code \<Rightarrow> bool" where
  "binary p \<longleftrightarrow> p \<notin> {Const, LoadGlobal, StoreGlobal, LoadLocal, StoreLocal, IncLocal, Return} \<and> \<not> jumps p \<and> effect p 0 = (2, 1)"

definition unary :: "op_code \<Rightarrow> bool" where
  "unary p \<longleftrightarrow> p \<notin> {Const, LoadGlobal, StoreGlobal, LoadLocal, StoreLocal, IncLocal, Return} \<and> \<not> jumps p \<and> effect p 0 = (1, 1)"

lemma adv_binary: "binary p \<Longrightarrow> adv 0 st (emit_op p st) (Suc (Suc d)) (Suc d)"
  using adv_emit_op [of p st d] by (auto simp: binary_def)

lemma adv_unary: "unary p \<Longrightarrow> adv 0 st (emit_op p st) (Suc d) (Suc d)"
  using adv_emit_op [of p st d] by (auto simp: unary_def)

lemma adv_drop: "adv 0 st (emit_op Drop st) (Suc d) d"
  using adv_emit_op [of Drop st d] by (simp add: jumps_def)

lemma adv_dup: "adv 0 st (emit_op Dup st) (Suc d) (Suc (Suc d))"
  using adv_emit_op [of Dup st d] by (simp add: jumps_def)

lemma operator_kinds:
  "\<forall>(s, c) \<in> set or_ops. s \<noteq> []" "snd ` set or_ops \<subseteq> Collect binary"
  "\<forall>(s, c) \<in> set and_ops. s \<noteq> []" "snd ` set and_ops \<subseteq> Collect binary"
  "\<forall>(s, c) \<in> set comparison_ops. s \<noteq> []" "snd ` set comparison_ops \<subseteq> Collect binary"
  "\<forall>(s, c) \<in> set term_ops. s \<noteq> []" "snd ` set term_ops \<subseteq> Collect binary"
  "\<forall>(s, c) \<in> set unary_ops. s \<noteq> []" "snd ` set unary_ops \<subseteq> Collect unary"
  by (simp_all add: or_ops_def and_ops_def comparison_ops_def term_ops_def unary_ops_def binary_def unary_def jumps_def)

lemma adv_emit_local:
  "i < length (locals_of st) \<Longrightarrow> adv 0 st (emit_inst LoadLocal i st) d (Suc d)"
  "i < length (locals_of st) \<Longrightarrow> adv 0 st (emit_inst StoreLocal i st) (Suc d) (Suc d)"
  "i < length (consts_of st) \<Longrightarrow> adv 0 st (emit_inst Const i st) d (Suc d)"
  "is_call c \<Longrightarrow> n \<le> length (code_of st) \<Longrightarrow> adv 0 st (emit_inst c n st) (d + call_base c + n) (Suc d)"
  by (rule adv_emit, rule conjI, simp_all add: grows_load_local grows_store_local_instr grows_const grows_call,
      simp add: same_place_def emit_inst_def)+

lemmas adv_constants = emit_constants [THEN adv_emit]

lemma emit_length:
  "length (code_of (emit_op p st)) = Suc (length (code_of st))"
  "length (code_of (emit_inst p i st)) = Suc (length (code_of st))"
  by (simp_all add: emit_op_def emit_inst_def)

lemma emit_pooled_length: "same_text st (fst r) \<Longrightarrow> length (code_of (emit_pooled p r)) = Suc (length (code_of st))"
  by (cases r) (simp add: emit_pooled_def emit_length same_text_def)

lemma pooled_lengths:
  "length (code_of (emit_pooled p (add_undefined_const st))) = Suc (length (code_of st))"
  "length (code_of (emit_const x st)) = Suc (length (code_of st))"
  "length (code_of (emit_string_const s st)) = Suc (length (code_of st))"
  "length (code_of (emit_pooled p (add_string_const s st))) = Suc (length (code_of st))"
  unfolding emit_const_def emit_string_const_def
  by (rule emit_pooled_length; use add_const_specs in \<open>metis prod.collapse\<close>)+

section \<open>Loops over operators\<close>

lemma op_loop_sound:
  assumes p: "sound p" and r: "op_loop ops operand again p st = Some (Inr st')"
    and ops: "\<forall>(s, c) \<in> set ops. s \<noteq> []" "snd ` set ops \<subseteq> Collect binary"
    and operand: "\<And>a b. nt_spec operand a b \<Longrightarrow> puts_value a b"
    and again: "\<And>a b. nt_spec again a b \<longleftrightarrow> (\<forall>d. adv 0 a b (Suc d) (Suc d))"
  shows "adv 0 st st' (Suc d) (Suc d)"
proof (cases "first_op ops (skip_ws st)")
  case None
  then show ?thesis using r adv_skip_ws [of st "Suc d"] by (auto simp: op_loop_def)
next
  case (Some cs)
  obtain c s1 where cs: "cs = (c, s1)" by (rule prod.exhaust)
  with Some r obtain s2 where s2: "p operand s1 = Some (Inr s2)" and s3: "p again (emit_op c s2) = Some (Inr st')"
    by (auto simp: op_loop_def)
  have c: "binary c" and s1: "adv 1 (skip_ws st) s1 (Suc d) (Suc d)"
    using first_op_spec [OF Some [unfolded cs] ops(1), of "Suc d"] ops(2) by auto
  have "adv 1 s1 s2 (Suc d) (Suc (Suc d))" using operand [OF soundD [OF p s2]] by (rule puts_valueD)
  moreover have "adv 0 (emit_op c s2) st' (Suc d) (Suc d)" using soundD [OF p s3] again by blast
  ultimately show ?thesis
    by - (rule adv_then [OF adv_skip_ws adv_then [OF s1 adv_then [OF _ adv_then [OF adv_binary [OF c]]]]])
qed

lemma comma_loop_sound:
  assumes p: "sound p" and r: "comma_loop p st = Some (Inr st')"
  shows "adv 0 st st' (Suc d) (Suc d)"
proof (cases "consume (CHR '','') (skip_ws st)")
  case None
  then show ?thesis using r adv_skip_ws [of st "Suc d"] by (auto simp: comma_loop_def)
next
  case (Some s1)
  with r obtain s2 where s2: "p NConditional (emit_op Drop s1) = Some (Inr s2)" and s3: "p NCommaLoop s2 = Some (Inr st')"
    by (auto simp: comma_loop_def)
  have "adv 1 (emit_op Drop s1) s2 d (Suc d)" using soundD [OF p s2] by (simp add: puts_value_def)
  moreover have "adv 0 s2 st' (Suc d) (Suc d)" using soundD [OF p s3] by simp
  ultimately show ?thesis
    by - (rule adv_then [OF adv_skip_ws adv_then [OF adv_consume [OF Some] adv_then [OF adv_drop adv_then]]])
qed

lemma sum_step_sound:
  assumes p: "sound p" and r: "sum_step p sign c st = Some (Inr st')" and c: "binary c"
  shows "adv 0 st st' (Suc d) (Suc d)"
proof -
  from r obtain s2 where s2: "p NTerm st = Some (Inr s2)" and s3: "p NExprLoop (emit_op c s2) = Some (Inr st')"
    by (auto simp: sum_step_def split: if_splits)
  have "adv 1 st s2 (Suc d) (Suc (Suc d))" using soundD [OF p s2] by (simp add: puts_value_def)
  moreover have "adv 0 (emit_op c s2) st' (Suc d) (Suc d)" using soundD [OF p s3] by simp
  ultimately show ?thesis by - (rule adv_then [OF _ adv_then [OF adv_binary [OF c]]])
qed

lemma binary_sum: "binary Add" "binary Sub"
  by (simp_all add: binary_def jumps_def)

lemma expr_loop_sound:
  assumes p: "sound p" and r: "expr_loop p st = Some (Inr st')"
  shows "adv 0 st st' (Suc d) (Suc d)"
proof (cases "consume (CHR ''+'') (skip_ws st)")
  case (Some s1)
  then have "sum_step p (CHR ''+'') Add s1 = Some (Inr st')" using r by (simp add: expr_loop_def)
  from adv_then [OF adv_skip_ws adv_then [OF adv_consume [OF Some] sum_step_sound [OF p this binary_sum(1)]]]
  show ?thesis .
next
  case plus: None
  show ?thesis
  proof (cases "consume (CHR ''-'') (skip_ws st)")
    case (Some s1)
    then have "sum_step p (CHR ''-'') Sub s1 = Some (Inr st')" using r plus by (simp add: expr_loop_def)
    from adv_then [OF adv_skip_ws adv_then [OF adv_consume [OF Some] sum_step_sound [OF p this binary_sum(2)]]]
    show ?thesis .
  next
    case None
    then show ?thesis using r plus adv_skip_ws [of st "Suc d"] by (auto simp: expr_loop_def)
  qed
qed

text \<open>An operand and a loop behind it.\<close>

lemma operand_loop_sound:
  assumes p: "sound p" and r: "and_then (p operand st) (p again) = Some (Inr st')"
    and operand: "\<And>a b. nt_spec operand a b \<Longrightarrow> puts_value a b"
    and again: "\<And>a b. nt_spec again a b \<Longrightarrow> (\<forall>d. adv 0 a b (Suc d) (Suc d))"
  shows "puts_value st st'"
proof -
  from r obtain s1 where s1: "p operand st = Some (Inr s1)" and s2: "p again s1 = Some (Inr st')" by auto
  show ?thesis
    by (rule puts_value_post [OF operand [OF soundD [OF p s1]]]) (use again [OF soundD [OF p s2]] in blast)
qed

section \<open>Expressions\<close>

lemma expect_byte_Inr:
  "expect_byte b k st = Some (Inr st') \<longleftrightarrow> (\<exists>s. consume b (skip_ws st) = Some s \<and> k s = Some (Inr st'))"
  by (simp add: expect_byte_def split: option.splits)

lemma adv_expected: "consume b (skip_ws st) = Some s \<Longrightarrow> adv 1 st s d d"
  by (rule adv_then1 [OF adv_skip_ws adv_consume])

lemma parse_args_sound:
  assumes p: "sound p" and r: "parse_args p c st = Some (Inr st')" and c: "is_call c"
  shows "adv 1 st st' (d + call_base c) (Suc d)"
proof (cases "peek (skip_ws st) = Some (CHR '')'')")
  case True
  with r obtain s where s: "consume (CHR '')'') (skip_ws (skip_ws st)) = Some s" and st': "st' = emit_inst c 0 s"
    by (auto simp: parse_args_def Let_def expect_byte_Inr)
  have "adv 0 s st' (d + call_base c) (Suc d)" using adv_emit_local(4) [OF c, of 0 s d] by (simp add: st')
  then show ?thesis by (rule adv_first1 [OF adv_then1 [OF adv_skip_ws adv_expected [OF s]]])
next
  case False
  with r obtain s1 where s1: "p NConditional (skip_ws st) = Some (Inr s1)" and s2: "p (NArgsLoop c 1) s1 = Some (Inr st')"
    by (auto simp: parse_args_def)
  have v: "puts_value (skip_ws st) s1" using soundD [OF p s1] by simp
  then have "1 \<le> length (code_of s1)" by (simp add: puts_value_def)
  then have "adv 1 s1 st' (d + call_base c + 1) (Suc d)" using soundD [OF p s2] c by simp
  moreover have "adv 1 (skip_ws st) s1 (d + call_base c) (d + call_base c + 1)" using puts_valueD(1) [OF v] by simp
  ultimately show ?thesis by - (rule adv_then1 [OF adv_skip_ws adv_then1])
qed

lemma args_loop_sound:
  assumes p: "sound p" and r: "call_args_loop p c n st = Some (Inr st')" and c: "is_call c" and n: "n \<le> length (code_of st)"
  shows "adv 1 st st' (d + call_base c + n) (Suc d)"
proof (cases "consume (CHR '','') (skip_ws st)")
  case None
  with r obtain s where s: "consume (CHR '')'') (skip_ws (skip_ws st)) = Some s" and st': "st' = emit_inst c n s"
    by (auto simp: call_args_loop_def Let_def expect_byte_Inr)
  have to: "adv 1 st s d d" for d by (rule adv_then1 [OF adv_skip_ws adv_expected [OF s]])
  have "n \<le> length (code_of s)" using n adv_length [OF to] by (rule le_trans)
  from adv_first1 [OF to adv_emit_local(4) [OF c this]] show ?thesis by (simp add: st')
next
  case (Some s)
  with r obtain s1 where s1: "p NConditional s = Some (Inr s1)" and s2: "p (NArgsLoop c (n + 1)) s1 = Some (Inr st')"
    by (auto simp: call_args_loop_def)
  have to: "adv 1 st s d d" for d by (rule adv_expected [OF Some])
  have v: "puts_value s s1" using soundD [OF p s1] by simp
  have "n + 1 \<le> length (code_of s1)" using n adv_length [OF to] puts_valueD(2) [OF v] by simp
  then have "adv 1 s1 st' (d + call_base c + (n + 1)) (Suc d)" using soundD [OF p s2] c by simp
  moreover have "adv 1 s s1 (d + call_base c + n) (d + call_base c + (n + 1))" using puts_valueD(1) [OF v] by simp
  ultimately show ?thesis by - (rule adv_then1 [OF to adv_then1])
qed

lemma parse_factor_sound:
  assumes p: "sound p" and r: "parse_factor p st = Some (Inr st')"
  shows "puts_value st st'"
proof (cases "consume (CHR ''+'') (skip_ws st)")
  case (Some s)
  then have "p NFactor s = Some (Inr st')" using r by (simp add: parse_factor_def)
  then have "puts_value s st'" using soundD [OF p] by fastforce
  then show ?thesis by (rule puts_value_pre [OF adv_expected [OF Some]])
next
  case plus: None
  show ?thesis
  proof (cases "first_op unary_ops (skip_ws st)")
    case None
    then have "p NPostfix (skip_ws st) = Some (Inr st')" using r plus by (simp add: parse_factor_def)
    then have "puts_value (skip_ws st) st'" using soundD [OF p] by fastforce
    then show ?thesis by (rule puts_value_pre [OF adv_skip_ws])
  next
    case (Some cs)
    obtain c s where cs: "cs = (c, s)" by (rule prod.exhaust)
    with Some r plus obtain s1 where s1: "p NFactor s = Some (Inr s1)" and st': "st' = emit_op c s1"
      by (auto simp: parse_factor_def)
    have c: "unary c" and s: "adv 1 (skip_ws st) s d d" for d
      using first_op_spec [OF Some [unfolded cs] operator_kinds(9)] operator_kinds(10) by auto
    have "puts_value s s1" using soundD [OF p s1] by simp
    then have "puts_value s st'" unfolding st' by (rule puts_value_post) (rule adv_unary [OF c])
    then show ?thesis by (rule puts_value_pre [OF adv_then [OF adv_skip_ws s]])
  qed
qed

lemma adv_rem: "adv k a b d d' \<Longrightarrow> rem_of b + k \<le> rem_of a"
  by (simp add: adv_def)

lemma adv_grows: "adv k a b d d' \<Longrightarrow> grows a b d d'"
  by (simp add: adv_def)

lemma rem_of_func: "cs_input a = cs_input b \<Longrightarrow> cs_pos a = cs_pos b \<Longrightarrow> rem_of a = rem_of b"
  by (simp add: rem_of_diff)

lemma parse_conditional_sound:
  assumes p: "sound p" and r: "parse_conditional p st = Some (Inr st')"
  shows "puts_value st st'"
proof -
  from r obtain s1 where s1: "p NOr st = Some (Inr s1)" by (auto simp: parse_conditional_def)
  have v1: "puts_value st s1" using soundD [OF p s1] by simp
  show ?thesis
  proof (cases "consume (CHR ''?'') (skip_ws s1)")
    case None
    then have "st' = skip_ws s1" using r s1 by (simp add: parse_conditional_def and_then_def ok_def)
    then show ?thesis using puts_value_post [OF v1 adv_skip_ws] by simp
  next
    case (Some s2)
    define s3 where "s3 = emit_op JumpIfFalse s2"
    from r s1 Some obtain s4 where s4: "p NConditional s3 = Some (Inr s4)"
      by (auto simp: parse_conditional_def s3_def)
    define s5 where "s5 = patch_jump (length (code_of s2)) (emit_op Jump s4)"
    from r s1 Some s4 obtain s6 where s6: "consume (CHR '':'') (skip_ws s5) = Some s6"
      by (auto simp: parse_conditional_def s3_def s5_def Let_def split: option.splits)
    with r s1 Some s4 obtain s7 where s7: "p NConditional s6 = Some (Inr s7)"
      and st': "st' = patch_jump (length (code_of s4)) s7"
      by (auto simp: parse_conditional_def s3_def s5_def Let_def)
    have f: "cs_func s2 = cs_func s1" "cs_func s6 = cs_func s5"
      using consume_func [OF Some] consume_func [OF s6] by simp_all
    have v2: "puts_value s3 s4" and v3: "puts_value s6 s7" using soundD [OF p s4] soundD [OF p s7] by simp_all
    have g: "grows st st' d (Suc d)" for d
    proof -
      obtain c t e where c: "extends st s1 c" "typed_in s1 (length (code_of st)) c d (Suc d)"
        and t: "extends s3 s4 t" "typed_in s4 (length (code_of s3)) t d (Suc d)"
        and e: "extends s6 s7 e" "typed_in s7 (length (code_of s6)) e d (Suc d)"
        using adv_grows [OF puts_valueD(1) [OF v1, of d]] adv_grows [OF puts_valueD(1) [OF v2, of d]]
          adv_grows [OF puts_valueD(1) [OF v3, of d]] unfolding grows_def by blast
      show ?thesis
        by (rule grows_branch [OF c _ t _ e]) (use f in \<open>simp_all add: s3_def s5_def st' emit_op_def push_instr_def patch_jump_def\<close>)
    qed
    have "rem_of s1 + 1 \<le> rem_of st" "rem_of s2 \<le> rem_of s1" "rem_of s3 = rem_of s2" "rem_of s4 \<le> rem_of s3"
      "rem_of s5 = rem_of s4" "rem_of s6 \<le> rem_of s5" "rem_of s7 \<le> rem_of s6" "rem_of st' = rem_of s7"
      using adv_rem [OF puts_valueD(1) [OF v1, of 0]] adv_rem [OF adv_expected [OF Some, of 0]]
        adv_rem [OF puts_valueD(1) [OF v2, of 0]] adv_rem [OF adv_expected [OF s6, of 0]]
        adv_rem [OF puts_valueD(1) [OF v3, of 0]]
      by (simp_all add: s3_def s5_def st' rem_of_diff emit_op_def)
    then have "adv 1 st st' d (Suc d)" for d using g by (simp add: adv_def)
    moreover have "length (code_of st) < length (code_of st')"
      using puts_valueD(2) [OF v1] puts_valueD(2) [OF v2] puts_valueD(2) [OF v3] f
      by (simp add: s3_def s5_def st' emit_op_def patch_jump_def)
    ultimately show ?thesis by (simp add: puts_value_def)
  qed
qed

lemma postfix_loop_sound:
  assumes p: "sound p" and r: "postfix_loop p st = Some (Inr st')"
  shows "adv 0 st st' (Suc d) (Suc d)"
proof -
  have again: "adv 0 a st' (Suc d) (Suc d)" if "p NPostfixLoop a = Some (Inr st')" for a
    using soundD [OF p that] by simp
  have get: "adv 0 a (emit_op GetProp a) (Suc (Suc e)) (Suc e)" "adv 0 a (emit_op GetElem a) (Suc (Suc e)) (Suc e)" for a e
    by (rule adv_binary, simp add: binary_def jumps_def)+
  show ?thesis
  proof (cases "consume (CHR ''.'') (skip_ws st)")
    case (Some s1)
    note to1 = adv_expected [OF Some, of "Suc d"]
    from r Some obtain s2 name where s2: "parse_identifier s1 = (s2, Some name)"
      by (auto simp: postfix_loop_def split: prod.splits option.splits)
    let ?s = "skip_ws s2"
    have to: "adv 0 st ?s (Suc d) (Suc d)"
      by (rule adv_then [OF to1 adv_then [OF parse_identifier_spec(1) [OF s2] adv_skip_ws]])
    show ?thesis
    proof (cases "consume (CHR ''('') ?s")
      case None
      then have "p NPostfixLoop (emit_op GetProp (emit_string_const name ?s)) = Some (Inr st')"
        using r Some s2 by (simp add: postfix_loop_def)
      from adv_then [OF to adv_then [OF adv_constants(3) adv_then [OF get(1) again [OF this]]]] show ?thesis .
    next
      case paren: (Some s3)
      let ?g = "emit_op GetProp (emit_string_const name (emit_op Dup ?s))"
      from r Some s2 paren obtain s4 where s4: "p (NArgs CallMethod) (advance 1 ?g) = Some (Inr s4)"
        and s5: "p NPostfixLoop s4 = Some (Inr st')" by (auto simp: postfix_loop_def)
      have g: "adv 0 ?s ?g (Suc d) (d + 2)"
        using adv_then [OF adv_dup adv_then [OF adv_constants(3) get(1)]] by simp
      have "0 < rem_of ?s" using paren peek_rem by (auto simp: consume_def split: if_splits)
      moreover have "same_place ?s ?g"
        using emit_constants(3) [of "emit_op Dup ?s" name] by (auto simp: same_place_def emit_op_def)
      ultimately have "0 < rem_of ?g" by (simp add: same_place_def rem_of_diff)
      then have a: "adv 1 ?g (advance 1 ?g) (d + 2) (d + 2)" by (intro adv_advance) simp
      have "adv 1 (advance 1 ?g) s4 (d + 2) (Suc d)" using soundD [OF p s4] by (simp add: is_call_def call_base_def)
      from adv_then [OF to adv_then [OF g adv_then [OF a adv_then [OF this again [OF s5]]]]] show ?thesis .
    qed
  next
    case dot: None
    show ?thesis
    proof (cases "consume (CHR ''['') (skip_ws st)")
      case (Some s1)
      with r dot obtain s2 s3 where s2: "p NComma s1 = Some (Inr s2)" and s3: "consume (CHR '']'') (skip_ws s2) = Some s3"
        and s4: "p NPostfixLoop (emit_op GetElem s3) = Some (Inr st')"
        by (auto simp: postfix_loop_def expect_byte_Inr)
      have "adv 1 s1 s2 (Suc d) (Suc (Suc d))" using soundD [OF p s2] by (simp add: puts_value_def)
      from adv_then [OF adv_expected [OF Some] adv_then [OF this adv_then [OF adv_expected [OF s3] adv_then [OF get(2) again [OF s4]]]]]
      show ?thesis .
    next
      case bracket: None
      show ?thesis
      proof (cases "consume (CHR ''('') (skip_ws st)")
        case (Some s1)
        with r dot bracket obtain s2 where s2: "p (NArgs Call) s1 = Some (Inr s2)" and s3: "p NPostfixLoop s2 = Some (Inr st')"
          by (auto simp: postfix_loop_def)
        have "adv 1 s1 s2 (Suc d) (Suc d)" using soundD [OF p s2] by (simp add: is_call_def call_base_def)
        from adv_then [OF adv_expected [OF Some] adv_then [OF this again [OF s3]]] show ?thesis .
      next
        case None
        then show ?thesis using r dot bracket adv_skip_ws [of st "Suc d"] by (auto simp: postfix_loop_def)
      qed
    qed
  qed
qed

text \<open>One instruction, or one constant, that puts a value.\<close>

lemma puts_value_emit:
  "(\<And>d. adv 0 st st' d (Suc d)) \<Longrightarrow> length (code_of st') = Suc (length (code_of st)) \<Longrightarrow>
     (\<And>d. adv 1 a st d d) \<Longrightarrow> puts_value a st'"
  by (rule puts_value_const [where k = 1 and ?st1.0 = st]) simp_all

lemma find_local_lt: "find_local name st = Some i \<Longrightarrow> i < length (locals_of st)"
  unfolding find_local_def using position_SomeD by blast

lemma literal_const_adv: "adv 0 st (literal_const v st) d (Suc d)"
proof -
  have "adv 0 st (push_const v st) d d"
    by (rule adv_emit) (auto simp: same_place_def intro: same_text_extends simp: same_text_def)
  moreover have "adv 0 (push_const v st) (literal_const v st) d (Suc d)"
    unfolding literal_const_def by (rule adv_emit_local(3)) simp
  ultimately show ?thesis by (rule adv_then)
qed

lemma literal_const_length: "length (code_of (literal_const v st)) = Suc (length (code_of st))"
  by (simp add: literal_const_def emit_length)

lemma parse_name_sound:
  assumes p: "sound p" and r: "parse_name p name st = Some (Inr st')" and a: "\<And>d. adv 1 a st d d"
  shows "puts_value a st'"
proof -
  note emit = puts_value_emit [OF _ _ a]
  consider "st' = literal_const JS_TRUE st \<or> st' = literal_const JS_FALSE st \<or> st' = literal_const JS_NULL st"
    | "st' = emit_pooled Const (add_undefined_const st)"
    | s where "consume (CHR ''('') (skip_ws st) = Some s"
        "and_then (p NComma s) (expect_byte (CHR '')'') (\<lambda>st. ok (emit_op ToNumber st))) = Some (Inr st')"
    | "st' = emit_pooled LoadGlobal (add_string_const ''Number'' (skip_ws st))"
    | slot where "find_local name st = Some slot" "st' = emit_inst LoadLocal slot st"
    | "st' = emit_pooled LoadGlobal (add_string_const name st)"
    using r unfolding parse_name_def Let_def by (auto split: if_splits option.splits)
  then show ?thesis
  proof cases
    case 1
    then show ?thesis by (auto intro!: emit literal_const_adv simp: literal_const_length)
  next
    case 2
    then show ?thesis by (auto intro!: emit adv_constants simp: pooled_lengths)
  next
    case (3 s)
    then obtain s1 s2 where s1: "p NComma s = Some (Inr s1)" and s2: "consume (CHR '')'') (skip_ws s1) = Some s2"
      and st': "st' = emit_op ToNumber s2" by (auto simp: expect_byte_Inr)
    have u: "unary ToNumber" by (simp add: unary_def jumps_def)
    have "puts_value s s1" using soundD [OF p s1] by simp
    then have "puts_value s st'"
      unfolding st' by (rule puts_value_post) (rule adv_then [OF adv_expected [OF s2] adv_unary [OF u]])
    then show ?thesis
      by (rule puts_value_pre [OF adv_then [OF a adv_expected [OF 3(1)]]])
  next
    case 4
    show ?thesis unfolding 4
      by (rule puts_value_emit [OF adv_constants(4) pooled_lengths(4) adv_first1 [OF a adv_skip_ws]])
  next
    case (5 slot)
    then show ?thesis by (auto intro!: emit adv_emit_local find_local_lt simp: emit_length)
  next
    case 6
    then show ?thesis by (auto intro!: emit adv_constants simp: pooled_lengths)
  qed
qed

lemma parse_primary_sound:
  assumes p: "sound p" and r: "parse_primary p st = Some (Inr st')"
  shows "puts_value st st'"
proof (cases "consume (CHR ''('') (skip_ws st)")
  case (Some s)
  with r obtain s1 where s1: "p NComma s = Some (Inr s1)" and s2: "consume (CHR '')'') (skip_ws s1) = Some st'"
    by (auto simp: parse_primary_def expect_byte_Inr)
  have "puts_value s s1" using soundD [OF p s1] by simp
  then have "puts_value s st'" by (rule puts_value_post) (rule adv_expected [OF s2])
  then show ?thesis by (rule puts_value_pre [OF adv_expected [OF Some]])
next
  case None
  let ?s = "skip_ws st"
  consider s1 t where "parse_string_literal ?s = Inr (s1, t)" "st' = emit_string_const t s1"
    | s1 x where "parse_number ?s = Inr (s1, x)" "st' = emit_const x s1"
    | s1 name where "parse_identifier ?s = (s1, Some name)" "parse_name p name s1 = Some (Inr st')"
    using r None unfolding parse_primary_def Let_def
    by (auto split: if_splits option.splits sum.splits prod.splits)
  then show ?thesis
  proof cases
    case (1 s1 t)
    have "adv 1 st s1 d d" for d by (rule adv_then1 [OF adv_skip_ws parse_string_literal_spec [OF 1(1)]])
    then show ?thesis unfolding 1 by (intro puts_value_emit [OF adv_constants(3) pooled_lengths(3)])
  next
    case (2 s1 x)
    have "adv 1 st s1 d d" for d by (rule adv_then1 [OF adv_skip_ws parse_number_spec [OF 2(1)]])
    then show ?thesis unfolding 2 by (intro puts_value_emit [OF adv_constants(2) pooled_lengths(2)])
  next
    case (3 s1 name)
    have "adv 1 st s1 d d" for d by (rule adv_then1 [OF adv_skip_ws parse_identifier_spec(1) [OF 3(1)]])
    then show ?thesis by (rule parse_name_sound [OF p 3(2)])
  qed
qed

lemma store_local_adv: "i < length (locals_of st) \<Longrightarrow> adv 0 st (store_local i st) (Suc d) (Suc d)"
  unfolding store_local_def
  by (rule adv_then [OF adv_dup adv_then [OF adv_emit_local(2) adv_drop]]) (simp add: emit_op_def)

lemma puts_value_locals:
  assumes "puts_value a b" "i < length (locals_of a)"
  shows "i < length (locals_of b)"
proof -
  obtain new where "extends a b new" using adv_grows [OF puts_valueD(1) [OF assms(1)]] by (auto simp: grows_def)
  from extends_lengths(3) [OF this] assms(2) show ?thesis by simp
qed

lemma compound_assignment_sound:
  assumes p: "sound p" and r: "compound_assignment p c name st = Some (Inr st')" and c: "binary c"
    and a: "\<And>d. adv 1 a st d d"
  shows "puts_value a st'"
proof (cases "find_local name st")
  case (Some slot)
  let ?s = "emit_inst LoadLocal slot st"
  from r Some obtain s1 where s1: "p NExpr ?s = Some (Inr s1)" and st': "st' = store_local slot (emit_op c s1)"
    by (auto simp: compound_assignment_def)
  have slot: "slot < length (locals_of st)" by (rule find_local_lt [OF Some])
  have v: "puts_value ?s s1" using soundD [OF p s1] by simp
  have "slot < length (locals_of (emit_op c s1))"
    using puts_value_locals [OF v] slot by (simp add: emit_inst_def emit_op_def)
  then have "adv 0 st st' d (Suc d)" for d
    unfolding st'
    by (intro adv_then [OF adv_emit_local(1) [OF slot] adv_then [OF puts_valueD(1) [OF v] adv_then [OF adv_binary [OF c] store_local_adv]]])
  moreover have "length (code_of st) < length (code_of st')"
    using puts_valueD(2) [OF v] by (simp add: st' store_local_def emit_length)
  ultimately show ?thesis by (intro puts_value_const [OF a]) simp_all
next
  case None
  let ?s = "emit_pooled LoadGlobal (add_string_const name st)"
  from r None obtain s1 where s1: "p NExpr ?s = Some (Inr s1)"
    and st': "st' = emit_pooled StoreGlobal (add_string_const name (emit_op c s1))"
    by (auto simp: compound_assignment_def split: if_splits)
  have v: "puts_value ?s s1" using soundD [OF p s1] by simp
  have "adv 0 st st' d (Suc d)" for d
    unfolding st'
    by (rule adv_then [OF adv_constants(4) adv_then [OF puts_valueD(1) [OF v] adv_then [OF adv_binary [OF c] adv_constants(5)]]])
  moreover have "length (code_of st) < length (code_of st')"
    using puts_valueD(2) [OF v] by (simp add: st' pooled_lengths emit_length)
  ultimately show ?thesis by (intro puts_value_const [OF a]) simp_all
qed

lemma parse_assignment_sound:
  assumes p: "sound p" and r: "parse_assignment p st = Some (Inr st')"
  shows "puts_value st st'"
proof -
  let ?s = "skip_ws st"
  have plain: "puts_value st st'" if "p NExpr ?s = Some (Inr st')"
  proof -
    have "puts_value ?s st'" using soundD [OF p that] by simp
    then show ?thesis by (rule puts_value_pre [OF adv_skip_ws])
  qed
  show ?thesis
  proof (cases "parse_identifier ?s")
    case (Pair s1 n)
    show ?thesis
    proof (cases n)
      case None
      then show ?thesis using plain r Pair by (simp add: parse_assignment_def)
    next
      case name: (Some name)
      let ?s1 = "skip_ws s1"
      have to: "adv 1 st ?s1 d d" for d
        by (rule adv_then1 [OF adv_skip_ws adv_first1 [OF parse_identifier_spec(1) adv_skip_ws]]) (use Pair name in simp)
      show ?thesis
      proof (cases "consume_seq ''+='' ?s1")
        case (Some s2)
        then have "compound_assignment p Add name s2 = Some (Inr st')" using r Pair name by (simp add: parse_assignment_def)
        then show ?thesis
          by (rule compound_assignment_sound [OF p _ binary_sum(1)]) (rule adv_first1 [OF to adv_consume_seq [OF Some]], simp)
      next
        case plus: None
        show ?thesis
        proof (cases "consume_seq ''-='' ?s1")
          case (Some s2)
          then have "compound_assignment p Sub name s2 = Some (Inr st')"
            using r Pair name plus by (simp add: parse_assignment_def)
          then show ?thesis
            by (rule compound_assignment_sound [OF p _ binary_sum(2)]) (rule adv_first1 [OF to adv_consume_seq [OF Some]], simp)
        next
          case minus: None
          show ?thesis
          proof (cases "consume (CHR ''='') ?s1")
            case None
            then show ?thesis using plain r Pair name plus minus by (simp add: parse_assignment_def)
          next
            case (Some s2)
            show ?thesis
            proof (cases "peek s2 = Some (CHR ''='')")
              case True
              then show ?thesis using plain r Pair name plus minus Some by (simp add: parse_assignment_def)
            next
              case False
              with r Pair name plus minus Some obtain s3 where s3: "p NAssignment s2 = Some (Inr s3)"
                and st': "st' = (case find_local name s3 of Some slot \<Rightarrow> store_local slot s3
                  | None \<Rightarrow> emit_pooled StoreGlobal (add_string_const name s3))"
                by (auto simp: parse_assignment_def split: option.splits)
              have "puts_value s2 s3" using soundD [OF p s3] by simp
              moreover have "adv 0 s3 st' (Suc d) (Suc d)" for d
                using store_local_adv find_local_lt adv_constants(5) by (auto simp: st' split: option.splits)
              ultimately have "puts_value s2 st'" by (rule puts_value_post)
              then show ?thesis
                by (rule puts_value_pre [OF adv_first1 [OF to adv_consume [OF Some]]])
            qed
          qed
        qed
      qed
    qed
  qed
qed

lemma sound_body: "sound p \<Longrightarrow> sound (parse_body p)"
proof (unfold sound_def [of "parse_body p"], intro allI impI)
  fix nt st st'
  assume p: "sound p" and r: "parse_body p nt st = Some (Inr st')"
  note loop = op_loop_sound [OF p]
  show "nt_spec nt st st'"
  proof (cases nt)
    case NComma
    then show ?thesis using r operand_loop_sound [OF p, of NConditional st NCommaLoop]
      by (simp add: parse_body_def parse_comma_def)
  next
    case NCommaLoop
    then show ?thesis using r comma_loop_sound [OF p] by (simp add: parse_body_def)
  next
    case NConditional
    then show ?thesis using r parse_conditional_sound [OF p] by (simp add: parse_body_def)
  next
    case NOr
    then show ?thesis using r operand_loop_sound [OF p, of NAnd st NOrLoop]
      by (simp add: parse_body_def parse_logical_or_def)
  next
    case NOrLoop
    then show ?thesis using r loop [of or_ops NAnd NOrLoop st] operator_kinds(1,2) by (simp add: parse_body_def)
  next
    case NAnd
    then show ?thesis using r operand_loop_sound [OF p, of NComparison st NAndLoop]
      by (simp add: parse_body_def parse_logical_and_def)
  next
    case NAndLoop
    then show ?thesis using r loop [of and_ops NComparison NAndLoop st] operator_kinds(3,4) by (simp add: parse_body_def)
  next
    case NComparison
    then show ?thesis using r operand_loop_sound [OF p, of NAssignment st NComparisonLoop]
      by (simp add: parse_body_def parse_comparison_def)
  next
    case NComparisonLoop
    then show ?thesis using r loop [of comparison_ops NAssignment NComparisonLoop st] operator_kinds(5,6)
      by (simp add: parse_body_def)
  next
    case NAssignment
    then show ?thesis using r parse_assignment_sound [OF p] by (simp add: parse_body_def)
  next
    case NExpr
    then show ?thesis using r operand_loop_sound [OF p, of NTerm st NExprLoop] by (simp add: parse_body_def parse_expr_def)
  next
    case NExprLoop
    then show ?thesis using r expr_loop_sound [OF p] by (simp add: parse_body_def)
  next
    case NTerm
    then show ?thesis using r operand_loop_sound [OF p, of NFactor st NTermLoop] by (simp add: parse_body_def parse_term_def)
  next
    case NTermLoop
    then show ?thesis using r loop [of term_ops NFactor NTermLoop st] operator_kinds(7,8) by (simp add: parse_body_def)
  next
    case NFactor
    then show ?thesis using r parse_factor_sound [OF p] by (simp add: parse_body_def)
  next
    case NPostfix
    then show ?thesis using r operand_loop_sound [OF p, of NPrimary st NPostfixLoop]
      by (simp add: parse_body_def parse_postfix_def)
  next
    case NPostfixLoop
    then show ?thesis using r postfix_loop_sound [OF p] by (simp add: parse_body_def)
  next
    case (NArgs c)
    then show ?thesis using r parse_args_sound [OF p] by (simp add: parse_body_def)
  next
    case (NArgsLoop c n)
    then show ?thesis using r args_loop_sound [OF p] by (simp add: parse_body_def)
  next
    case NPrimary
    then show ?thesis using r parse_primary_sound [OF p] by (simp add: parse_body_def)
  qed
qed

lemma sound_parse: "sound (parse n)"
proof (induction n)
  case 0
  show ?case by (simp add: sound_def)
next
  case (Suc n)
  then show ?case by (simp add: sound_body)
qed

section \<open>Fuel\<close>

text \<open>A call of a method without reading first goes to one of lower rank; everything else has read a byte.\<close>

fun nt_rank :: "nonterm \<Rightarrow> nat" where
  "nt_rank NPrimary = 1" | "nt_rank NPostfix = 2" | "nt_rank NFactor = 3" | "nt_rank NTerm = 4"
| "nt_rank NExpr = 5" | "nt_rank NAssignment = 6" | "nt_rank NComparison = 7" | "nt_rank NAnd = 8"
| "nt_rank NOr = 9" | "nt_rank NConditional = 10" | "nt_rank NComma = 11" | "nt_rank (NArgs c) = 11"
| "nt_rank nt = 1"

lemma nt_rank_bounds: "1 \<le> nt_rank nt" "nt_rank nt \<le> 11"
  by (cases nt; simp)+

definition needs :: "nonterm \<Rightarrow> cst \<Rightarrow> nat" where "needs nt st = 20 * rem_of st + nt_rank nt"

text \<open>A parser that answers wherever the fuel \<open>n\<close> is enough, for the calls the source makes.\<close>

definition call_nt :: "nonterm \<Rightarrow> bool" where
  "call_nt nt \<longleftrightarrow> (case nt of NArgs c \<Rightarrow> is_call c | NArgsLoop c n \<Rightarrow> is_call c | _ \<Rightarrow> True)"

definition answers :: "nat \<Rightarrow> parser \<Rightarrow> bool" where
  "answers n p \<longleftrightarrow> (\<forall>nt st. call_nt nt \<longrightarrow> needs nt st \<le> n \<longrightarrow> p nt st \<noteq> None)"

lemma ok_None [simp]: "ok st \<noteq> None" and fail_None [simp]: "fail e \<noteq> None"
  by (simp_all add: ok_def fail_def)

lemma and_then_None: "r \<noteq> None \<Longrightarrow> (\<And>st. r = Some (Inr st) \<Longrightarrow> f st \<noteq> None) \<Longrightarrow> and_then r f \<noteq> None"
  by (auto simp: and_then_def split: option.splits sum.splits)

lemma expect_byte_None: "(\<And>s. consume b (skip_ws st) = Some s \<Longrightarrow> k s \<noteq> None) \<Longrightarrow> expect_byte b k st \<noteq> None"
  by (cases "consume b (skip_ws st)") (simp_all add: expect_byte_def del: not_None_eq)

lemma answersD:
  "answers n p \<Longrightarrow> call_nt nt \<Longrightarrow> needs nt st \<le> n \<Longrightarrow> p nt st \<noteq> None"
  by (simp add: answers_def)

text \<open>After a byte was read, any call is covered.\<close>

lemma answers_less:
  assumes "answers n p" "call_nt nt" "20 * R + 1 \<le> Suc n" "rem_of st < R"
  shows "p nt st \<noteq> None"
  using assms(3,4) nt_rank_bounds(2) [of nt] by (intro answersD [OF assms(1,2)]) (simp add: needs_def)

text \<open>Below, \<open>p\<close> answers with fuel \<open>n\<close>, and \<open>st\<close> has at most \<open>R\<close> bytes left, which the fuel of the caller covers.\<close>

lemma puts_value_rem: "puts_value a b \<Longrightarrow> rem_of b < rem_of a"
  using adv_rem [OF puts_valueD(1)] by fastforce

lemma operand_loop_answers:
  assumes p: "sound p" "answers n p" and f: "20 * rem_of st + r \<le> Suc n" "nt_rank operand < r" "1 \<le> r"
    and operand: "\<And>a b. nt_spec operand a b \<Longrightarrow> puts_value a b" "call_nt operand" and again: "call_nt again"
  shows "and_then (p operand st) (p again) \<noteq> None"
proof (rule and_then_None)
  show "p operand st \<noteq> None" by (rule answersD [OF p(2) operand(2)]) (use f in \<open>simp add: needs_def\<close>)
  fix s assume s: "p operand st = Some (Inr s)"
  show "p again s \<noteq> None"
    by (rule answers_less [OF p(2) again, of "rem_of st"])
      (use f puts_value_rem [OF operand(1) [OF soundD [OF p(1) s]]] in simp_all)
qed

lemma op_loop_answers:
  assumes p: "sound p" "answers n p" and f: "20 * rem_of st + 1 \<le> Suc n"
    and ops: "\<forall>(s, c) \<in> set ops. s \<noteq> []"
    and operand: "\<And>a b. nt_spec operand a b \<Longrightarrow> puts_value a b" "call_nt operand" and again: "call_nt again"
  shows "op_loop ops operand again p st \<noteq> None"
proof (cases "first_op ops (skip_ws st)")
  case None
  then show ?thesis by (simp add: op_loop_def del: not_None_eq)
next
  case (Some cs)
  obtain c s1 where cs: "cs = (c, s1)" by (rule prod.exhaust)
  have s1: "rem_of s1 < rem_of st"
    using adv_rem [OF adv_then1 [OF adv_skip_ws first_op_spec [OF Some [unfolded cs] ops, THEN conjunct2]]] by simp
  have "and_then (p operand s1) (\<lambda>st. p again (emit_op c st)) \<noteq> None"
  proof (rule and_then_None)
    show "p operand s1 \<noteq> None" by (rule answers_less [OF p(2) operand(2) f s1])
    fix s assume s: "p operand s1 = Some (Inr s)"
    have "rem_of (emit_op c s) < rem_of st"
      using puts_value_rem [OF operand(1) [OF soundD [OF p(1) s]]] s1 by (simp add: rem_of_diff emit_op_def)
    then show "p again (emit_op c s) \<noteq> None" by (rule answers_less [OF p(2) again f])
  qed
  then show ?thesis using Some by (simp add: op_loop_def cs del: not_None_eq)
qed

lemma rem_skip: "rem_of (skip_ws st) \<le> rem_of st"
  using adv_rem [OF adv_skip_ws [of st 0]] by simp

lemma rem_consume: "consume b (skip_ws st) = Some s \<Longrightarrow> rem_of s < rem_of st"
  using adv_rem [OF adv_expected [of b st s 0]] by simp

lemma rem_emit [simp]: "rem_of (emit_op c st) = rem_of st" "rem_of (patch_jump i st) = rem_of st"
  by (simp_all add: rem_of_diff emit_op_def)

lemma rem_pooled [simp]:
  "rem_of (emit_string_const s st) = rem_of st" "rem_of (emit_pooled LoadGlobal (add_string_const s st)) = rem_of st"
  "rem_of (emit_inst c i st) = rem_of st"
  using emit_constants(3) [of st s] emit_constants(4) [of st s] by (simp_all add: same_place_def rem_of_diff emit_inst_def)

lemma comma_loop_answers:
  assumes p: "sound p" "answers n p" and f: "20 * rem_of st + 1 \<le> Suc n"
  shows "comma_loop p st \<noteq> None"
proof (cases "consume (CHR '','') (skip_ws st)")
  case None
  then show ?thesis by (simp add: comma_loop_def del: not_None_eq)
next
  case (Some s1)
  note less = answers_less [OF p(2) _ f]
  have s1: "rem_of s1 < rem_of st" by (rule rem_consume [OF Some])
  have "and_then (p NConditional (emit_op Drop s1)) (p NCommaLoop) \<noteq> None"
  proof (rule and_then_None)
    show "p NConditional (emit_op Drop s1) \<noteq> None" by (rule less) (simp_all add: call_nt_def s1)
    fix s assume s: "p NConditional (emit_op Drop s1) = Some (Inr s)"
    show "p NCommaLoop s \<noteq> None"
      by (rule less) (use puts_value_rem [of "emit_op Drop s1" s] soundD [OF p(1) s] s1 in \<open>simp_all add: call_nt_def\<close>)
  qed
  then show ?thesis using Some by (simp add: comma_loop_def del: not_None_eq)
qed

lemma sum_step_answers:
  assumes p: "sound p" "answers n p" and f: "20 * R + 1 \<le> Suc n" and st: "rem_of st < R"
  shows "sum_step p sign c st \<noteq> None"
proof -
  note less = answers_less [OF p(2) _ f]
  have "and_then (p NTerm st) (\<lambda>st. p NExprLoop (emit_op c st)) \<noteq> None"
  proof (rule and_then_None)
    show "p NTerm st \<noteq> None" by (rule less) (simp_all add: call_nt_def st)
    fix s assume s: "p NTerm st = Some (Inr s)"
    show "p NExprLoop (emit_op c s) \<noteq> None"
      by (rule less) (use puts_value_rem [of st s] soundD [OF p(1) s] st in \<open>simp_all add: call_nt_def\<close>)
  qed
  then show ?thesis by (simp add: sum_step_def del: not_None_eq)
qed

lemma expr_loop_answers:
  assumes p: "sound p" "answers n p" and f: "20 * rem_of st + 1 \<le> Suc n"
  shows "expr_loop p st \<noteq> None"
proof (cases "consume (CHR ''+'') (skip_ws st)")
  case (Some s)
  then show ?thesis using sum_step_answers [OF p f rem_consume [OF Some]] by (simp add: expr_loop_def del: not_None_eq)
next
  case plus: None
  show ?thesis
  proof (cases "consume (CHR ''-'') (skip_ws st)")
    case (Some s)
    then show ?thesis
      using plus sum_step_answers [OF p f rem_consume [OF Some]] by (simp add: expr_loop_def del: not_None_eq)
  next
    case None
    then show ?thesis using plus by (simp add: expr_loop_def del: not_None_eq)
  qed
qed

lemma parse_conditional_answers:
  assumes p: "sound p" "answers n p" and f: "20 * rem_of st + 10 \<le> Suc n"
  shows "parse_conditional p st \<noteq> None"
  unfolding parse_conditional_def
proof (rule and_then_None)
  have f1: "20 * rem_of st + 1 \<le> Suc n" using f by simp
  note less = answers_less [OF p(2) _ f1]
  show "p NOr st \<noteq> None" by (rule answersD [OF p(2)]) (use f in \<open>simp_all add: needs_def call_nt_def\<close>)
  fix s assume s: "p NOr st = Some (Inr s)"
  have s_rem: "rem_of s < rem_of st" using puts_value_rem [of st s] soundD [OF p(1) s] by simp
  show "(let st = skip_ws s in case consume (CHR ''?'') st of None \<Rightarrow> ok st
       | Some st \<Rightarrow> let jump_if_false = length (code_of st) in
           and_then (p NConditional (emit_op JumpIfFalse st)) (\<lambda>st.
             let jump_end = length (code_of st); st = skip_ws (patch_jump jump_if_false (emit_op Jump st))
             in case consume (CHR '':'') st of None \<Rightarrow> fail (''missing '' @ [SQ] @ '':'' @ [SQ])
                | Some st \<Rightarrow> and_then (p NConditional st) (\<lambda>st. ok (patch_jump jump_end st)))) \<noteq> None"
  proof (cases "consume (CHR ''?'') (skip_ws s)")
    case (Some s2)
    have s2: "rem_of s2 < rem_of st" using rem_consume [OF Some] s_rem by simp
    show ?thesis
      unfolding Let_def Some option.case
    proof (rule and_then_None)
      show "p NConditional (emit_op JumpIfFalse s2) \<noteq> None" by (rule less) (simp_all add: call_nt_def s2)
      fix s4 assume s4: "p NConditional (emit_op JumpIfFalse s2) = Some (Inr s4)"
      have s4': "rem_of s4 < rem_of st" using puts_value_rem [of "emit_op JumpIfFalse s2" s4] soundD [OF p(1) s4] s2 by simp
      show "(case consume (CHR '':'') (skip_ws (patch_jump (length (code_of s2)) (emit_op Jump s4))) of
          None \<Rightarrow> fail (''missing '' @ [SQ] @ '':'' @ [SQ])
        | Some st \<Rightarrow> and_then (p NConditional st) (\<lambda>st. ok (patch_jump (length (code_of s4)) st))) \<noteq> None"
      proof (cases "consume (CHR '':'') (skip_ws (patch_jump (length (code_of s2)) (emit_op Jump s4)))")
        case (Some s6)
        have "rem_of s6 < rem_of st" using rem_consume [OF Some] s4' by simp
        then have "p NConditional s6 \<noteq> None" by (intro less) (simp_all add: call_nt_def)
        then show ?thesis unfolding Some option.case by (rule and_then_None) simp
      qed (simp del: not_None_eq)
    qed
  qed (simp del: not_None_eq)
qed

lemma parse_args_answers:
  assumes p: "sound p" "answers n p" and f: "20 * rem_of st + 11 \<le> Suc n" and c: "is_call c"
  shows "parse_args p c st \<noteq> None"
proof -
  have "and_then (p NConditional (skip_ws st)) (p (NArgsLoop c 1)) \<noteq> None"
  proof (rule and_then_None)
    show "p NConditional (skip_ws st) \<noteq> None"
      by (rule answersD [OF p(2)]) (use f rem_skip [of st] in \<open>simp_all add: needs_def call_nt_def\<close>)
    fix s assume s: "p NConditional (skip_ws st) = Some (Inr s)"
    show "p (NArgsLoop c 1) s \<noteq> None"
      by (rule answers_less [OF p(2), of _ "rem_of st"])
        (use f c puts_value_rem [of "skip_ws st" s] soundD [OF p(1) s] rem_skip [of st] in \<open>simp_all add: call_nt_def\<close>)
  qed
  moreover have "expect_byte (CHR '')'') (\<lambda>st. ok (emit_inst c 0 st)) (skip_ws st) \<noteq> None"
    by (rule expect_byte_None) (rule ok_None)
  ultimately show ?thesis by (simp add: parse_args_def Let_def del: not_None_eq)
qed

lemma args_loop_answers:
  assumes p: "sound p" "answers n p" and f: "20 * rem_of st + 1 \<le> Suc n" and c: "is_call c"
  shows "call_args_loop p c k st \<noteq> None"
proof (cases "consume (CHR '','') (skip_ws st)")
  case None
  have "expect_byte (CHR '')'') (\<lambda>st. ok (emit_inst c k st)) (skip_ws st) \<noteq> None"
    by (rule expect_byte_None) (rule ok_None)
  then show ?thesis using None by (simp add: call_args_loop_def Let_def del: not_None_eq)
next
  case (Some s1)
  note less = answers_less [OF p(2) _ f]
  have s1: "rem_of s1 < rem_of st" by (rule rem_consume [OF Some])
  have "and_then (p NConditional s1) (p (NArgsLoop c (k + 1))) \<noteq> None"
  proof (rule and_then_None)
    show "p NConditional s1 \<noteq> None" by (rule less) (simp_all add: call_nt_def s1)
    fix s assume s: "p NConditional s1 = Some (Inr s)"
    show "p (NArgsLoop c (k + 1)) s \<noteq> None"
      by (rule less) (use c puts_value_rem [of s1 s] soundD [OF p(1) s] s1 in \<open>simp_all add: call_nt_def\<close>)
  qed
  then show ?thesis using Some by (simp add: call_args_loop_def del: not_None_eq)
qed

lemma parse_factor_answers:
  assumes p: "sound p" "answers n p" and f: "20 * rem_of st + 3 \<le> Suc n"
  shows "parse_factor p st \<noteq> None"
proof -
  have f1: "20 * rem_of st + 1 \<le> Suc n" using f by simp
  note less = answers_less [OF p(2) _ f1]
  show ?thesis
  proof (cases "consume (CHR ''+'') (skip_ws st)")
    case (Some s)
    then show ?thesis using less [of NFactor s] rem_consume [OF Some] by (simp add: parse_factor_def call_nt_def del: not_None_eq)
  next
    case plus: None
    show ?thesis
    proof (cases "first_op unary_ops (skip_ws st)")
      case None
      have "p NPostfix (skip_ws st) \<noteq> None"
        by (rule answersD [OF p(2)]) (use f rem_skip [of st] in \<open>simp_all add: needs_def call_nt_def\<close>)
      then show ?thesis using plus None by (simp add: parse_factor_def del: not_None_eq)
    next
      case (Some cs)
      obtain c s where cs: "cs = (c, s)" by (rule prod.exhaust)
      have "rem_of s < rem_of st"
        using adv_rem [OF adv_then1 [OF adv_skip_ws first_op_spec [OF Some [unfolded cs] operator_kinds(9), THEN conjunct2]]]
        by simp
      then have "p NFactor s \<noteq> None" by (intro less) (simp_all add: call_nt_def)
      then have "and_then (p NFactor s) (\<lambda>st. ok (emit_op c st)) \<noteq> None" by (rule and_then_None) simp
      then show ?thesis using plus Some by (simp add: parse_factor_def cs del: not_None_eq)
    qed
  qed
qed

lemma rem_identifier: "parse_identifier st = (s, Some name) \<Longrightarrow> rem_of s < rem_of st"
  using adv_rem [OF parse_identifier_spec(1) [of st s name 0]] by simp

lemma postfix_loop_answers:
  assumes p: "sound p" "answers n p" and f: "20 * rem_of st + 1 \<le> Suc n"
  shows "postfix_loop p st \<noteq> None"
proof -
  note less = answers_less [OF p(2) _ f]
  have loop: "p NPostfixLoop s \<noteq> None" if "rem_of s < rem_of st" for s by (rule less) (use that in \<open>simp_all add: call_nt_def\<close>)
  have args: "and_then (p (NArgs c) s) (p NPostfixLoop) \<noteq> None" if "is_call c" "rem_of s < rem_of st" for c s
  proof (rule and_then_None)
    show "p (NArgs c) s \<noteq> None" by (rule less) (use that in \<open>simp_all add: call_nt_def\<close>)
    fix s' assume s': "p (NArgs c) s = Some (Inr s')"
    have "\<forall>d. adv 1 s s' (d + call_base c) (Suc d)" using soundD [OF p(1) s'] that(1) by simp
    from adv_rem [OF this [THEN spec, of 0]] that(2) show "p NPostfixLoop s' \<noteq> None" by (intro loop) simp
  qed
  show ?thesis
  proof (cases "consume (CHR ''.'') (skip_ws st)")
    case (Some s1)
    have s1: "rem_of s1 < rem_of st" by (rule rem_consume [OF Some])
    show ?thesis
    proof (cases "parse_identifier s1")
      case (Pair s2 name)
      show ?thesis
      proof (cases name)
        case None
        then show ?thesis using Some Pair by (simp add: postfix_loop_def del: not_None_eq)
      next
        case (Some nm)
        have s2: "rem_of (skip_ws s2) < rem_of st"
          using rem_identifier [of s1 s2 nm] Pair Some s1 rem_skip [of s2] by simp
        let ?g = "emit_op GetProp (emit_string_const nm (emit_op Dup (skip_ws s2)))"
        have "rem_of (advance 1 ?g) \<le> rem_of ?g" by (simp add: rem_of_diff)
        then have "and_then (p (NArgs CallMethod) (advance 1 ?g)) (p NPostfixLoop) \<noteq> None"
          by (intro args) (use s2 in \<open>simp_all add: is_call_def\<close>)
        moreover have "p NPostfixLoop (emit_op GetProp (emit_string_const nm (skip_ws s2))) \<noteq> None"
          by (rule loop) (simp add: s2)
        ultimately show ?thesis
          using \<open>consume (CHR ''.'') (skip_ws st) = Some s1\<close> Pair Some
          by (cases "consume (CHR ''('') (skip_ws s2)") (simp_all add: postfix_loop_def del: not_None_eq)
      qed
    qed
  next
    case dot: None
    show ?thesis
    proof (cases "consume (CHR ''['') (skip_ws st)")
      case (Some s1)
      have s1: "rem_of s1 < rem_of st" by (rule rem_consume [OF Some])
      have "and_then (p NComma s1) (expect_byte (CHR '']'') (\<lambda>st. p NPostfixLoop (emit_op GetElem st))) \<noteq> None"
      proof (rule and_then_None)
        show "p NComma s1 \<noteq> None" by (rule less) (simp_all add: call_nt_def s1)
        fix s2 assume s2: "p NComma s1 = Some (Inr s2)"
        show "expect_byte (CHR '']'') (\<lambda>st. p NPostfixLoop (emit_op GetElem st)) s2 \<noteq> None"
        proof (rule expect_byte_None)
          fix s assume "consume (CHR '']'') (skip_ws s2) = Some s"
          from rem_consume [OF this] puts_value_rem [of s1 s2] soundD [OF p(1) s2] s1
          show "p NPostfixLoop (emit_op GetElem s) \<noteq> None" by (intro loop) simp
        qed
      qed
      then show ?thesis using dot Some by (simp add: postfix_loop_def del: not_None_eq)
    next
      case bracket: None
      show ?thesis
      proof (cases "consume (CHR ''('') (skip_ws st)")
        case (Some s1)
        have "and_then (p (NArgs Call) s1) (p NPostfixLoop) \<noteq> None"
          by (rule args) (simp_all add: is_call_def rem_consume [OF Some])
        then show ?thesis using dot bracket Some by (simp add: postfix_loop_def del: not_None_eq)
      next
        case None
        then show ?thesis using dot bracket by (simp add: postfix_loop_def del: not_None_eq)
      qed
    qed
  qed
qed

lemma comma_paren_answers:
  assumes p: "sound p" "answers n p" and f: "20 * R + 1 \<le> Suc n" "rem_of st < R" and k: "\<And>s. k s \<noteq> None"
  shows "and_then (p NComma st) (expect_byte b k) \<noteq> None"
proof (rule and_then_None)
  show "p NComma st \<noteq> None" by (rule answers_less [OF p(2) _ f]) (simp add: call_nt_def)
  show "expect_byte b k s \<noteq> None" for s by (rule expect_byte_None) (rule k)
qed

lemma parse_name_answers:
  assumes p: "sound p" "answers n p" and f: "20 * R + 1 \<le> Suc n" "rem_of st < R"
  shows "parse_name p name st \<noteq> None"
proof -
  have "and_then (p NComma s) (expect_byte (CHR '')'') (\<lambda>st. ok (emit_op ToNumber st))) \<noteq> None"
    if "consume (CHR ''('') (skip_ws st) = Some s" for s
    using comma_paren_answers [OF p f(1) _ ok_None] rem_consume [OF that] f(2) by (meson less_trans)
  then show ?thesis
    unfolding parse_name_def Let_def by (simp split: option.split del: not_None_eq)
qed

lemma parse_primary_answers:
  assumes p: "sound p" "answers n p" and f: "20 * rem_of st + 1 \<le> Suc n"
  shows "parse_primary p st \<noteq> None"
proof (cases "consume (CHR ''('') (skip_ws st)")
  case (Some s)
  have "and_then (p NComma s) (expect_byte (CHR '')'') ok) \<noteq> None"
    by (rule comma_paren_answers [OF p f rem_consume [OF Some]]) simp
  then show ?thesis using Some by (simp add: parse_primary_def del: not_None_eq)
next
  case None
  have "parse_name p name s \<noteq> None" if "parse_identifier (skip_ws st) = (s, Some name)" for s name
    using parse_name_answers [OF p f] rem_identifier [OF that] rem_skip [of st] by (meson less_le_trans)
  then show ?thesis
    unfolding parse_primary_def Let_def None
    by (auto split: sum.splits prod.splits option.splits simp del: not_None_eq)
qed

lemma compound_assignment_answers:
  assumes p: "sound p" "answers n p" and f: "20 * R + 1 \<le> Suc n" "rem_of st < R"
  shows "compound_assignment p c name st \<noteq> None"
proof -
  have "and_then (p NExpr s) (\<lambda>st. ok (g st)) \<noteq> None" if "rem_of s = rem_of st" for s g
  proof (rule and_then_None)
    show "p NExpr s \<noteq> None" by (rule answers_less [OF p(2) _ f(1)]) (use f(2) that in \<open>simp_all add: call_nt_def\<close>)
  qed (rule ok_None)
  then show ?thesis
    unfolding compound_assignment_def by (simp split: option.split del: not_None_eq)
qed

lemma rem_consume_seq: "consume_seq s st = Some st' \<Longrightarrow> s \<noteq> [] \<Longrightarrow> rem_of st' < rem_of st"
  using adv_rem [OF adv_consume_seq [of s st st' 0]] by simp

lemma parse_assignment_answers:
  assumes p: "sound p" "answers n p" and f: "20 * rem_of st + 6 \<le> Suc n"
  shows "parse_assignment p st \<noteq> None"
proof -
  have f1: "20 * rem_of st + 1 \<le> Suc n" using f by simp
  have plain: "p NExpr (skip_ws st) \<noteq> None"
    by (rule answersD [OF p(2)]) (use f rem_skip [of st] in \<open>simp_all add: needs_def call_nt_def\<close>)
  have main: "(let s = skip_ws s1 in
      case consume_seq ''+='' s of Some s \<Rightarrow> compound_assignment p Add name s
      | None \<Rightarrow> (case consume_seq ''-='' s of Some s \<Rightarrow> compound_assignment p Sub name s
        | None \<Rightarrow> (case consume (CHR ''='') s of
            Some s \<Rightarrow> if peek s = Some (CHR ''='') then p NExpr (skip_ws st)
              else and_then (p NAssignment s) (\<lambda>s. case find_local name s of
                Some slot \<Rightarrow> ok (store_local slot s) | None \<Rightarrow> ok (emit_pooled StoreGlobal (add_string_const name s)))
          | None \<Rightarrow> p NExpr (skip_ws st)))) \<noteq> None" if "rem_of s1 < rem_of st" for s1 name
  proof -
    let ?s = "skip_ws s1"
    have s: "rem_of ?s < rem_of st" using that rem_skip [of s1] by simp
    have c: "compound_assignment p c name s2 \<noteq> None" if "consume_seq q ?s = Some s2" "q \<noteq> []" for c q s2
      using compound_assignment_answers [OF p f1] rem_consume_seq [OF that] s by (meson less_trans)
    have a: "and_then (p NAssignment s2) (\<lambda>s. case find_local name s of
        Some slot \<Rightarrow> ok (store_local slot s) | None \<Rightarrow> ok (emit_pooled StoreGlobal (add_string_const name s))) \<noteq> None"
      if "consume (CHR ''='') ?s = Some s2" for s2
    proof (rule and_then_None)
      have "rem_of s2 < rem_of st" using adv_rem [OF adv_consume [OF that, of 0]] s by simp
      then show "p NAssignment s2 \<noteq> None" by (rule answers_less [OF p(2) _ f1, rotated]) (simp add: call_nt_def)
    qed (simp split: option.split del: not_None_eq)
    show ?thesis using plain c a by (simp add: Let_def split: option.split del: not_None_eq)
  qed
  show ?thesis
  proof (cases "parse_identifier (skip_ws st)")
    case (Pair s1 n)
    show ?thesis
    proof (cases n)
      case None
      then show ?thesis using plain Pair by (simp add: parse_assignment_def del: not_None_eq)
    next
      case (Some name)
      have "rem_of s1 < rem_of st" using rem_identifier [of "skip_ws st" s1 name] Pair Some rem_skip [of st] by simp
      from main [OF this, of name] show ?thesis
        unfolding parse_assignment_def Let_def Pair Some prod.case option.case .
    qed
  qed
qed

lemma answers_body: "sound p \<Longrightarrow> answers n p \<Longrightarrow> answers (Suc n) (parse_body p)"
proof (unfold answers_def [of "Suc n"], intro allI impI)
  fix nt st
  assume p: "sound p" "answers n p" and c: "call_nt nt" and f: "needs nt st \<le> Suc n"
  have f1: "20 * rem_of st + 1 \<le> Suc n" using f nt_rank_bounds(1) [of nt] by (simp add: needs_def)
  note first = operand_loop_answers [OF p]
  note loop = op_loop_answers [OF p f1]
  show "parse_body p nt st \<noteq> None"
  proof (cases nt)
    case NComma
    then show ?thesis using first [of st 11 NConditional NCommaLoop] f
      by (simp add: parse_body_def parse_comma_def needs_def call_nt_def del: not_None_eq)
  next
    case NCommaLoop
    then show ?thesis using comma_loop_answers [OF p f1] by (simp add: parse_body_def del: not_None_eq)
  next
    case NConditional
    then show ?thesis using parse_conditional_answers [OF p] f by (simp add: parse_body_def needs_def del: not_None_eq)
  next
    case NOr
    then show ?thesis using first [of st 9 NAnd NOrLoop] f
      by (simp add: parse_body_def parse_logical_or_def needs_def call_nt_def del: not_None_eq)
  next
    case NOrLoop
    then show ?thesis using loop [of or_ops NAnd NOrLoop] operator_kinds(1)
      by (simp add: parse_body_def call_nt_def del: not_None_eq)
  next
    case NAnd
    then show ?thesis using first [of st 8 NComparison NAndLoop] f
      by (simp add: parse_body_def parse_logical_and_def needs_def call_nt_def del: not_None_eq)
  next
    case NAndLoop
    then show ?thesis using loop [of and_ops NComparison NAndLoop] operator_kinds(3)
      by (simp add: parse_body_def call_nt_def del: not_None_eq)
  next
    case NComparison
    then show ?thesis using first [of st 7 NAssignment NComparisonLoop] f
      by (simp add: parse_body_def parse_comparison_def needs_def call_nt_def del: not_None_eq)
  next
    case NComparisonLoop
    then show ?thesis using loop [of comparison_ops NAssignment NComparisonLoop] operator_kinds(5)
      by (simp add: parse_body_def call_nt_def del: not_None_eq)
  next
    case NAssignment
    then show ?thesis using parse_assignment_answers [OF p] f by (simp add: parse_body_def needs_def del: not_None_eq)
  next
    case NExpr
    then show ?thesis using first [of st 5 NTerm NExprLoop] f
      by (simp add: parse_body_def parse_expr_def needs_def call_nt_def del: not_None_eq)
  next
    case NExprLoop
    then show ?thesis using expr_loop_answers [OF p f1] by (simp add: parse_body_def del: not_None_eq)
  next
    case NTerm
    then show ?thesis using first [of st 4 NFactor NTermLoop] f
      by (simp add: parse_body_def parse_term_def needs_def call_nt_def del: not_None_eq)
  next
    case NTermLoop
    then show ?thesis using loop [of term_ops NFactor NTermLoop] operator_kinds(7)
      by (simp add: parse_body_def call_nt_def del: not_None_eq)
  next
    case NFactor
    then show ?thesis using parse_factor_answers [OF p] f by (simp add: parse_body_def needs_def del: not_None_eq)
  next
    case NPostfix
    then show ?thesis using first [of st 2 NPrimary NPostfixLoop] f
      by (simp add: parse_body_def parse_postfix_def needs_def call_nt_def del: not_None_eq)
  next
    case NPostfixLoop
    then show ?thesis using postfix_loop_answers [OF p f1] by (simp add: parse_body_def del: not_None_eq)
  next
    case (NArgs d)
    then show ?thesis using parse_args_answers [OF p, of st d] f c
      by (simp add: parse_body_def needs_def call_nt_def del: not_None_eq)
  next
    case (NArgsLoop d k)
    then show ?thesis using args_loop_answers [OF p f1, of d k] c by (simp add: parse_body_def call_nt_def del: not_None_eq)
  next
    case NPrimary
    then show ?thesis using parse_primary_answers [OF p f1] by (simp add: parse_body_def del: not_None_eq)
  qed
qed

lemma answers_parse: "answers n (parse n)"
proof (induction n)
  case 0
  have "\<not> needs nt st \<le> 0" for nt st using nt_rank_bounds(1) [of nt] by (simp add: needs_def)
  then show ?case unfolding answers_def by blast
next
  case (Suc n)
  then show ?case using answers_body [OF sound_parse] by simp
qed

lemma parse_enough: "parse (parse_fuel src) NComma (at_source src st) \<noteq> None"
  by (rule answersD [OF answers_parse])
    (simp_all add: needs_def parse_fuel_def at_source_def rem_of_diff call_nt_def)

section \<open>A full expression\<close>

lemma compile_full_expr_answers: "compile_full_expr src st \<noteq> None"
  unfolding compile_full_expr_def
  by (rule and_then_None [OF parse_enough]) (simp add: Let_def del: not_None_eq)

lemma compile_full_expr_grows:
  assumes "compile_full_expr src st = Some (Inr st')"
  shows "grows st st' d (Suc d)"
proof -
  from assms obtain s where s: "parse (parse_fuel src) NComma (at_source src st) = Some (Inr s)" and st': "st' = skip_ws s"
    by (auto simp: compile_full_expr_def Let_def split: if_splits)
  have "puts_value (at_source src st) s" using soundD [OF sound_parse s] by simp
  then have "grows (at_source src st) s d (Suc d)" by (rule adv_grows [OF puts_valueD(1)])
  moreover have "grows s st' (Suc d) (Suc d)" unfolding st' by (rule adv_grows [OF adv_skip_ws])
  moreover have "grows st (at_source src st) d d" by (rule grows_same) (simp_all add: at_source_def)
  ultimately show ?thesis by (blast intro: grows_trans)
qed

end
