(* ===== verification/Compiler_Typed.thy ===== *)
theory Compiler_Typed
  imports Compiler_Sound
begin

text \<open>
  Statements and whole functions: a statement leaves the stack as it finds it, the fuel by length is enough, and
  the code of a compiled function is well typed from the empty stack.
\<close>

section \<open>Control structures\<close>

lemma grows_when:
  assumes c: "extends st s1 c" "typed_in s1 (length (code_of st)) c d (Suc d)"
    and s2: "cs_func s2 = cs_func (emit_op JumpIfFalse s1)"
    and t: "extends s2 s3 t" "typed_in s3 (length (code_of s2)) t d d"
    and s4: "cs_func s4 = cs_func (patch_jump (length (code_of s1)) s3)"
  shows "grows st s4 d d"
proof -
  let ?lo = "length (code_of st)"
  define A where "A = (of_nat (?lo + length c + length t + 1) :: u32)"
  let ?new = "c @ instr JumpIfFalse A # t"
  have code3: "code_of s3 = (code_of st @ c) @ instr JumpIfFalse 0 # t"
    using c(1) t(1) s2 by (simp add: extends_def emit_op_def)
  from patch_code [OF this, of "length (code_of s1)"] c(1) s4 have code4: "code_of s4 = code_of st @ ?new"
    by (simp add: extends_def A_def add.assoc)
  have pools: "consts_of s4 = consts_of s3" "locals_of s4 = locals_of s3" using s4 by simp_all
  have pre: "prefix (consts_of st) (consts_of s1)" "prefix (consts_of s1) (consts_of s3)"
    "prefix (locals_of st) (locals_of s1)" "prefix (locals_of s1) (locals_of s3)"
    using c(1) t(1) s2 by (simp_all add: extends_def emit_op_def)
  have ext: "extends st s4 ?new"
    unfolding extends_def code4 pools using pre by (blast intro: prefix_order.trans)
  have len: "length (consts_of s1) \<le> length (consts_of s4)" "length (consts_of s3) \<le> length (consts_of s4)"
    "length (locals_of s1) \<le> length (locals_of s4)" "length (locals_of s3) \<le> length (locals_of s4)"
    "length (code_of s1) \<le> length (code_of s4)" "length (code_of s3) \<le> length (code_of s4)"
    using pre [THEN prefix_length_le] pools c(1) code3 code4 by (simp_all add: extends_def)
  have "typed (length (consts_of s4)) (length (locals_of s4)) ?lo ?new d d" if "fits s4"
  proof (rule typed_when)
    show "typed (length (consts_of s4)) (length (locals_of s4)) ?lo c d (Suc d)"
      by (rule typed_in_to [OF c(2)]) (use len that in \<open>auto simp: fits_def\<close>)
    have "length (code_of s2) = ?lo + length c + 1" using s2 c(1) by (simp add: extends_def emit_op_def)
    then show "typed (length (consts_of s4)) (length (locals_of s4)) (?lo + length c + 1) t d d"
      using typed_in_to [OF t(2), of s4] len that by (auto simp: fits_def)
    show "unat A = ?lo + length c + length t + 1"
      unfolding A_def by (rule unat_of_nat_fits) (use that code4 in \<open>simp add: fits_def\<close>)
  qed
  then show ?thesis using ext by (auto simp: grows_def typed_in_def)
qed

lemma grows_while:
  assumes c: "extends st s1 c" "typed_in s1 (length (code_of st)) c d (Suc d)"
    and s2: "cs_func s2 = cs_func (emit_op JumpIfFalse s1)"
    and t: "extends s2 s3 t" "typed_in s3 (length (code_of s2)) t d d"
    and s4: "s4 = jump_back (length (code_of st)) (Some (length (code_of s1))) s3"
  shows "grows st s4 d d"
proof -
  let ?lo = "length (code_of st)"
  define A where "A = (of_nat (?lo + length c + length t + 2) :: u32)"
  define B where "B = (of_nat ?lo :: u32)"
  let ?new = "c @ instr JumpIfFalse A # t @ [instr Jump B]"
  have code3: "code_of s3 = code_of st @ c @ instr JumpIfFalse 0 # t"
    using c(1) t(1) s2 by (simp add: extends_def emit_op_def)
  then have "code_of (emit_inst Jump ?lo s3) = (code_of st @ c) @ instr JumpIfFalse 0 # (t @ [instr Jump B])"
    by (simp add: emit_inst_def B_def)
  from patch_code [OF this, of "length (code_of s1)"] c(1) s4 have code4: "code_of s4 = code_of st @ ?new"
    by (simp add: extends_def A_def add.assoc jump_back_def Let_def)
  have pools: "consts_of s4 = consts_of s3" "locals_of s4 = locals_of s3"
    using s4 by (simp_all add: jump_back_def Let_def emit_inst_def)
  have pre: "prefix (consts_of st) (consts_of s1)" "prefix (consts_of s1) (consts_of s3)"
    "prefix (locals_of st) (locals_of s1)" "prefix (locals_of s1) (locals_of s3)"
    using c(1) t(1) s2 by (simp_all add: extends_def emit_op_def)
  have ext: "extends st s4 ?new"
    unfolding extends_def code4 pools using pre by (blast intro: prefix_order.trans)
  have len: "length (consts_of s1) \<le> length (consts_of s4)" "length (consts_of s3) \<le> length (consts_of s4)"
    "length (locals_of s1) \<le> length (locals_of s4)" "length (locals_of s3) \<le> length (locals_of s4)"
    "length (code_of s1) \<le> length (code_of s4)" "length (code_of s3) \<le> length (code_of s4)"
    using pre [THEN prefix_length_le] pools c(1) code3 code4 by (simp_all add: extends_def)
  have "typed (length (consts_of s4)) (length (locals_of s4)) ?lo ?new d d" if "fits s4"
  proof (rule typed_while)
    show "typed (length (consts_of s4)) (length (locals_of s4)) ?lo c d (Suc d)"
      by (rule typed_in_to [OF c(2)]) (use len that in \<open>auto simp: fits_def\<close>)
    have "length (code_of s2) = ?lo + length c + 1" using s2 c(1) by (simp add: extends_def emit_op_def)
    then show "typed (length (consts_of s4)) (length (locals_of s4)) (?lo + length c + 1) t d d"
      using typed_in_to [OF t(2), of s4] len that by (auto simp: fits_def)
    show "unat A = ?lo + length c + length t + 2" "unat B = ?lo"
      unfolding A_def B_def by (rule unat_of_nat_fits; use that code4 in \<open>simp add: fits_def\<close>)+
  qed
  then show ?thesis using ext by (auto simp: grows_def typed_in_def)
qed

lemma grows_forever:
  assumes t: "extends st s1 t" "typed_in s1 (length (code_of st)) t d d"
  shows "grows st (jump_back (length (code_of st)) None s1) d d"
proof -
  let ?lo = "length (code_of st)" and ?s = "jump_back (length (code_of st)) None s1"
  let ?new = "t @ [instr Jump (of_nat ?lo)]"
  have fields: "code_of ?s = code_of st @ ?new" "consts_of ?s = consts_of s1" "locals_of ?s = locals_of s1"
    using t(1) by (simp_all add: jump_back_def emit_inst_def extends_def)
  have ext: "extends st ?s ?new" using t(1) fields by (simp add: extends_def)
  have "typed (length (consts_of ?s)) (length (locals_of ?s)) ?lo ?new d d" if "fits ?s"
  proof (rule typed_forever)
    show "typed (length (consts_of ?s)) (length (locals_of ?s)) ?lo t d d"
      using typed_in_to [OF t(2), of ?s] that fields t(1) by (auto simp: fits_def extends_def)
    show "unat (of_nat ?lo :: u32) = ?lo" by (rule unat_of_nat_fits) (use that fields in \<open>simp add: fits_def\<close>)
  qed
  then show ?thesis using ext by (auto simp: grows_def typed_in_def)
qed

section \<open>Statements\<close>

definition keeps :: "cst \<Rightarrow> cst \<Rightarrow> bool" where "keeps st st' \<longleftrightarrow> (\<forall>d. grows st st' d d)"

lemma code_keeps_refl: "keeps st st"
  by (simp add: keeps_def grows_same)

lemma code_keeps_trans: "keeps a b \<Longrightarrow> keeps b c \<Longrightarrow> keeps a c"
  unfolding keeps_def using grows_trans by blast

lemma grows_drop: "grows st (emit_op Drop st) (Suc d) d"
  by (rule adv_grows [OF adv_drop])

lemma compile_discard_keeps: "compile_discard s st = Some (Inr st') \<Longrightarrow> keeps st st'"
  unfolding keeps_def compile_discard_def
  by (auto intro: grows_trans [OF compile_full_expr_grows grows_drop])

lemma ensure_local_spec:
  assumes "ensure_local name st = (st', i)"
  shows "keeps st st'" "i < length (locals_of st')"
proof -
  have "extends st st' []" using assms by (auto simp: ensure_local_def extends_def split: option.splits)
  then show "keeps st st'" by (auto simp: keeps_def grows_def typed_in_def intro: typed_Nil)
  show "i < length (locals_of st')"
    using assms find_local_lt by (auto simp: ensure_local_def split: option.splits)
qed

lemma compile_var_decl_keeps:
  assumes "compile_var_decl rest st = Some (Inr st')"
  shows "keeps st st'"
proof (cases "find_assignment_eq (trim rest)")
  case None
  then show ?thesis
    using assms ensure_local_spec(1) [of _ st "fst (ensure_local _ st)"]
    by (auto simp: compile_var_decl_def Let_def split: if_splits) (metis ensure_local_spec(1) prod.collapse)
next
  case (Some eq_pos)
  let ?name = "trim (take eq_pos (trim rest))"
  obtain s1 slot where s1: "ensure_local ?name st = (s1, slot)" by (rule prod.exhaust)
  with Some assms obtain s2 where s2: "compile_full_expr (trim (drop (eq_pos + 1) (trim rest))) s1 = Some (Inr s2)"
    and st': "st' = emit_op Drop (emit_inst StoreLocal slot s2)"
    by (auto simp: compile_var_decl_def Let_def split: if_splits)
  have slot: "slot < length (locals_of s2)"
    using ensure_local_spec(2) [OF s1] compile_full_expr_grows [OF s2, of 0] extends_lengths(3)
    by (auto simp: grows_def intro: less_le_trans)
  show ?thesis
    unfolding keeps_def st'
  proof
    fix d
    have "grows s2 (emit_op Drop (emit_inst StoreLocal slot s2)) (Suc d) d"
      by (rule grows_trans [OF grows_store_local_instr [OF slot] grows_drop])
    then show "grows st (emit_op Drop (emit_inst StoreLocal slot s2)) d d"
      using ensure_local_spec(1) [OF s1] compile_full_expr_grows [OF s2, of d] grows_trans unfolding keeps_def by blast
  qed
qed

lemma return_undefined_keeps: "keeps st (return_undefined st)"
proof -
  have "grows s (emit_op Return s) (Suc d) d" for s d by (rule grows_emit_op) (simp_all add: jumps_def)
  then show ?thesis
    unfolding keeps_def return_undefined_def using emit_constants(1) grows_trans by blast
qed

lemma inc_local_keeps:
  assumes "inc_local name amount st = Some st'"
  shows "keeps st st'"
proof -
  from assms obtain slot n where slot: "find_local name st = Some slot"
    and st': "st' = push_instr \<lparr>i_op = IncLocal, i_a = of_nat slot, i_b = word_of_int n\<rparr> st"
    by (auto simp: inc_local_def split: if_splits option.splits)
  have "slot < length (locals_of st)" by (rule find_local_lt [OF slot])
  then show ?thesis
    unfolding keeps_def st'
    by (intro allI grows_push) (auto simp: jumps_def operand_ok_def after_instr_def fits_def unat_of_nat_fits)
qed

lemma first_of_mem: "first_of xs = Some x \<Longrightarrow> Some x \<in> set xs"
  by (induction xs rule: first_of.induct) auto

lemma try_inc_keeps:
  assumes "try_compile_inc_update u st = Some st'"
  shows "keeps st st'"
  using first_of_mem [OF assms [unfolded try_compile_inc_update_def Let_def]] inc_local_keeps
  by (auto split: if_splits option.splits)

lemma compile_init_keeps: "compile_init s st = Some (Inr st') \<Longrightarrow> keeps st st'"
  by (auto simp: compile_init_def Let_def code_keeps_refl split: if_splits intro: compile_var_decl_keeps compile_discard_keeps)

lemma compile_update_keeps: "compile_update s st = Some (Inr st') \<Longrightarrow> keeps st st'"
  by (auto simp: compile_update_def Let_def code_keeps_refl split: if_splits option.splits
      intro: try_inc_keeps compile_discard_keeps)

section \<open>Compound statements\<close>

definition stmt_sound :: "stmt_compiler \<Rightarrow> bool" where
  "stmt_sound p \<longleftrightarrow> (\<forall>t st st'. p t st = Some (Inr st') \<longrightarrow> keeps st st')"

lemma compile_list_keeps: "stmt_sound p \<Longrightarrow> compile_list p ss st = Some (Inr st') \<Longrightarrow> keeps st st'"
proof (induction ss arbitrary: st)
  case (Cons s ss)
  from Cons.prems obtain s1 where "p (TStmt s) st = Some (Inr s1)" "compile_list p ss s1 = Some (Inr st')" by auto
  then show ?case using Cons.IH [OF Cons.prems(1)] Cons.prems(1) code_keeps_trans unfolding stmt_sound_def by blast
qed (simp add: code_keeps_refl)

lemma compile_block_keeps: "stmt_sound p \<Longrightarrow> compile_block p src st = Some (Inr st') \<Longrightarrow> keeps st st'"
  by (auto simp: compile_block_def split: sum.splits intro: compile_list_keeps)

lemma keeps_piece: "keeps st st' \<Longrightarrow> \<exists>new. extends st st' new \<and> typed_in st' (length (code_of st)) new d d"
  by (simp add: keeps_def grows_def)

lemma compile_for_keeps:
  assumes p: "stmt_sound p" and r: "compile_for_loop p s st = Some (Inr st')"
  shows "keeps st st'"
proof -
  from r obtain header after init cond update s0 where
    split: "split_header ''for'' s = Inr (header, after)" "split_for_header header = Inr (init, cond, update)"
    and s0: "compile_init init st = Some (Inr s0)"
    by (auto simp: compile_for_loop_def split: sum.splits)
  have k0: "keeps st s0" by (rule compile_init_keeps [OF s0])
  have "keeps s0 st'"
  proof (cases "trim cond = []")
    case True
    with r split s0 obtain s1 s2 where s1: "compile_block p after s0 = Some (Inr s1)"
      and s2: "compile_update update s1 = Some (Inr s2)" and st': "st' = jump_back (length (code_of s0)) None s2"
      by (auto simp: compile_for_loop_def Let_def)
    have "keeps s0 s2" by (rule code_keeps_trans [OF compile_block_keeps [OF p s1] compile_update_keeps [OF s2]])
    from keeps_piece [OF this] show ?thesis unfolding keeps_def st' using grows_forever by blast
  next
    case False
    with r split s0 obtain s1 s2 s3 where s1: "compile_full_expr (trim cond) s0 = Some (Inr s1)"
      and s2: "compile_block p after (emit_op JumpIfFalse s1) = Some (Inr s2)"
      and s3: "compile_update update s2 = Some (Inr s3)"
      and st': "st' = jump_back (length (code_of s0)) (Some (length (code_of s1))) s3"
      by (auto simp: compile_for_loop_def Let_def)
    have k: "keeps (emit_op JumpIfFalse s1) s3"
      by (rule code_keeps_trans [OF compile_block_keeps [OF p s2] compile_update_keeps [OF s3]])
    show ?thesis
      unfolding keeps_def
    proof
      fix d
      obtain c t where "extends s0 s1 c" "typed_in s1 (length (code_of s0)) c d (Suc d)"
        "extends (emit_op JumpIfFalse s1) s3 t" "typed_in s3 (length (code_of (emit_op JumpIfFalse s1))) t d d"
        using compile_full_expr_grows [OF s1, of d] keeps_piece [OF k, of d] unfolding grows_def by blast
      from grows_while [OF this(1,2) refl this(3,4) st'] show "grows s0 st' d d" .
    qed
  qed
  then show ?thesis by (rule code_keeps_trans [OF k0])
qed

lemma compile_if_keeps:
  assumes p: "stmt_sound p" and r: "compile_if_stmt p s st = Some (Inr st')"
  shows "keeps st st'"
proof -
  from r obtain cond after s1 s2 where split: "split_header ''if'' s = Inr (cond, after)"
    and s1: "compile_full_expr cond st = Some (Inr s1)"
    and s2: "compile_block p after (emit_op JumpIfFalse s1) = Some (Inr s2)"
    by (auto simp: compile_if_stmt_def Let_def split: sum.splits)
  have k: "keeps (emit_op JumpIfFalse s1) s2" by (rule compile_block_keeps [OF p s2])
  have c: "\<exists>c. extends st s1 c \<and> typed_in s1 (length (code_of st)) c d (Suc d)" for d
    using compile_full_expr_grows [OF s1, of d] by (simp add: grows_def)
  show ?thesis
  proof (cases "find_else_after_brace after")
    case None
    with r split s1 s2 have st': "st' = patch_jump (length (code_of s1)) s2"
      by (simp add: compile_if_stmt_def and_then_def ok_def Let_def)
    show ?thesis
      unfolding keeps_def st' using c keeps_piece [OF k] grows_when [OF _ _ refl _ _ refl] by blast
  next
    case (Some e)
    let ?s3 = "patch_jump (length (code_of s1)) (emit_op Jump s2)"
    from r split s1 s2 Some obtain s4 where
      s4: "(if prefix ''if '' (trim (drop e after)) \<or> prefix ''if('' (trim (drop e after)) then p (TIf (trim (drop e after))) ?s3
        else compile_block p (trim (drop e after)) ?s3) = Some (Inr s4)"
      and st': "st' = patch_jump (length (code_of s2)) s4"
      unfolding compile_if_stmt_def by (auto simp: Let_def simp del: if_split)
    have k4: "keeps ?s3 s4"
      using s4 p compile_block_keeps [OF p] unfolding stmt_sound_def by (simp split: if_splits)
    show ?thesis
      unfolding keeps_def st'
      using c keeps_piece [OF k] keeps_piece [OF k4] grows_branch [OF _ _ refl _ _ refl _ _ refl] by blast
  qed
qed

lemma compile_stmt_keeps:
  assumes p: "stmt_sound p" and r: "compile_stmt p stmt st = Some (Inr st')"
  shows "keeps st st'"
proof -
  have ret: "keeps st (emit_op Return s)" if "compile_full_expr e st = Some (Inr s)" for e s
  proof -
    have "grows s (emit_op Return s) (Suc d) d" for d by (rule grows_emit_op) (simp_all add: jumps_def)
    then show ?thesis unfolding keeps_def using compile_full_expr_grows [OF that] grows_trans by blast
  qed
  show ?thesis
    using r ret unfolding compile_stmt_def Let_def
    by (auto split: if_splits intro: code_keeps_refl compile_var_decl_keeps return_undefined_keeps compile_for_keeps [OF p]
        compile_if_keeps [OF p] compile_discard_keeps)
qed

lemma run_task_sound: "stmt_sound (run_task n)"
proof (induction n)
  case 0
  show ?case by (simp add: stmt_sound_def)
next
  case (Suc n)
  show ?case
    unfolding stmt_sound_def
    by (auto split: task.splits intro: compile_stmt_keeps [OF Suc] compile_if_keeps [OF Suc])
qed

section \<open>Fuel by length\<close>

lemma matching_paren_lt: "matching_paren_loop prev q depth i s = Some k \<Longrightarrow> i \<le> k \<and> k < i + length s"
proof (induction s arbitrary: prev q depth i)
  case (Cons b s)
  have "k = i \<or> (\<exists>prev' q' depth'. matching_paren_loop prev' q' depth' (Suc i) s = Some k)"
    using Cons.prems by (cases q) (auto split: if_splits)
  then show ?case
  proof
    assume "\<exists>prev' q' depth'. matching_paren_loop prev' q' depth' (Suc i) s = Some k"
    then show ?case using Cons.IH [of _ _ _ "Suc i"] by fastforce
  qed simp
qed simp

lemma closing_brace_lt: "closing_brace_loop prev q depth i s = Some k \<Longrightarrow> i \<le> k \<and> k < i + length s"
proof (induction s arbitrary: prev q depth i)
  case (Cons b s)
  have "k = i \<or> (\<exists>prev' q' depth'. closing_brace_loop prev' q' depth' (Suc i) s = Some k)"
    using Cons.prems by (cases q) (auto split: if_splits)
  then show ?case
  proof
    assume "\<exists>prev' q' depth'. closing_brace_loop prev' q' depth' (Suc i) s = Some k"
    then show ?case using Cons.IH [of _ _ _ "Suc i"] by fastforce
  qed simp
qed simp

lemma push_statement_length:
  "x \<in> set (push_statement cur stmts) \<Longrightarrow> x \<in> set stmts \<or> length x \<le> length cur"
  using length_trim [of "rev cur"] by (auto simp: push_statement_def Let_def split: if_splits)

lemma split_loop_length:
  "x \<in> set (split_loop prev q dp db dk cur stmts s) \<Longrightarrow> x \<in> set stmts \<or> length x \<le> length cur + length s"
proof (induction s arbitrary: prev q dp db dk cur stmts)
  case Nil
  then show ?case using push_statement_length by fastforce
next
  case (Cons b s)
  have "(\<exists>prev q dp db dk. x \<in> set (split_loop prev q dp db dk (b # cur) stmts s)) \<or>
      (\<exists>prev q dp db dk c. length c \<le> Suc (length cur) \<and> x \<in> set (split_loop prev q dp db dk [] (push_statement c stmts) s))"
  proof (cases q)
    case Outside
    have "length (b # cur) \<le> Suc (length cur)" "length cur \<le> Suc (length cur)" by simp_all
    then show ?thesis using Cons.prems unfolding split_loop.simps Outside quotes.case by (simp only: split: if_splits) blast+
  qed (use Cons.prems in auto)
  then show ?case
  proof (elim disjE exE conjE)
    fix prev q dp db dk
    assume "x \<in> set (split_loop prev q dp db dk (b # cur) stmts s)"
    from Cons.IH [OF this] show ?case by auto
  next
    fix prev q dp db dk c
    assume c: "length c \<le> Suc (length cur)" "x \<in> set (split_loop prev q dp db dk [] (push_statement c stmts) s)"
    from Cons.IH [OF c(2)] show ?case using push_statement_length [of x c stmts] c(1) by auto
  qed
qed

lemma simple_split_length: "x \<in> set (simple_split_statements body) \<Longrightarrow> length x \<le> length body"
  using split_loop_length [of x None Outside 0 0 0 "[]" "[]" body] by (simp add: simple_split_statements_def)

lemma extract_body_length:
  assumes "extract_braced_body s = Inr body"
  shows "length body + 1 \<le> length s"
proof -
  from assms obtain i where "closing_brace_loop None Outside 0 0 (trim s) = Some i" "body = take (i - 1) (drop 1 (trim s))"
    "prefix ''{'' (trim s)"
    by (auto simp: extract_braced_body_def Let_def split: if_splits option.splits)
  then show ?thesis using closing_brace_lt [of None Outside 0 0 "trim s" i] length_trim [of s] by auto
qed

lemma split_header_length:
  assumes "split_header kw s = Inr (header, after)"
  shows "length after + 1 \<le> length s"
proof -
  from assms obtain rest close where rest: "strip_prefix ''('' (trim (drop (length kw) s)) = Some rest"
    and close: "find_matching_paren rest = Some close" and after: "after = trim (drop (close + 1) rest)"
    by (auto simp: split_header_def split: option.splits)
  have "length rest + 1 \<le> length (trim (drop (length kw) s))"
    using rest by (auto simp: strip_prefix_def prefix_def split: if_splits)
  also have "\<dots> \<le> length s" using length_trim [of "drop (length kw) s"] by simp
  finally show ?thesis using length_trim [of "drop (close + 1) rest"] by (simp add: after)
qed

fun task_fuel :: "task \<Rightarrow> nat" where
  "task_fuel (TStmt s) = 2 * length s + 2"
| "task_fuel (TIf s) = 2 * length s + 1"

definition stmt_answers :: "nat \<Rightarrow> stmt_compiler \<Rightarrow> bool" where
  "stmt_answers n p \<longleftrightarrow> (\<forall>t st. task_fuel t \<le> n \<longrightarrow> p t st \<noteq> None)"

lemma compile_list_answers:
  "stmt_answers n p \<Longrightarrow> \<forall>s \<in> set ss. 2 * length s + 2 \<le> n \<Longrightarrow> compile_list p ss st \<noteq> None"
proof (induction ss arbitrary: st)
  case (Cons s ss)
  have "p (TStmt s) st \<noteq> None" using Cons.prems by (simp add: stmt_answers_def del: not_None_eq)
  then show ?case unfolding compile_list.simps by (rule and_then_None) (use Cons in \<open>simp del: not_None_eq\<close>)
qed (simp del: not_None_eq)

lemma compile_block_answers:
  assumes "stmt_answers n p" "2 * length src \<le> n"
  shows "compile_block p src st \<noteq> None"
proof (cases "extract_braced_body src")
  case (Inl e)
  then show ?thesis by (simp add: compile_block_def del: not_None_eq)
next
  case (Inr body)
  have "compile_list p (simple_split_statements body) st \<noteq> None"
    by (rule compile_list_answers [OF assms(1)])
      (use assms(2) extract_body_length [OF Inr] simple_split_length [of _ body] in fastforce)
  then show ?thesis using Inr by (simp add: compile_block_def del: not_None_eq)
qed

lemma compile_discard_answers: "compile_discard s st \<noteq> None"
  unfolding compile_discard_def by (rule and_then_None [OF compile_full_expr_answers]) simp

lemma compile_var_decl_answers: "compile_var_decl s st \<noteq> None"
proof -
  have "and_then (compile_full_expr e s1) (\<lambda>st. ok (emit_op Drop (emit_inst StoreLocal i st))) \<noteq> None" for e s1 i
    by (rule and_then_None [OF compile_full_expr_answers]) (rule ok_None)
  then show ?thesis
    unfolding compile_var_decl_def Let_def by (simp split: option.split prod.split del: not_None_eq)
qed

lemma compile_init_answers: "compile_init s st \<noteq> None"
  unfolding compile_init_def Let_def
  using compile_var_decl_answers compile_discard_answers by (simp del: not_None_eq)

lemma compile_update_answers: "compile_update s st \<noteq> None"
  unfolding compile_update_def Let_def
  using compile_discard_answers by (simp split: option.split del: not_None_eq)

lemma compile_for_answers:
  assumes p: "stmt_answers n p" "2 * length s \<le> n"
  shows "compile_for_loop p s st \<noteq> None"
proof (cases "split_header ''for'' s")
  case (Inl e)
  then show ?thesis by (simp add: compile_for_loop_def del: not_None_eq)
next
  case (Inr ha)
  obtain header after where ha: "ha = (header, after)" by (rule prod.exhaust)
  have block: "compile_block p after st \<noteq> None" for st
    by (rule compile_block_answers [OF p(1)]) (use p(2) split_header_length [OF Inr [unfolded ha]] in simp)
  have rest: "and_then (compile_block p after s1) (\<lambda>st. and_then (compile_update u st) (\<lambda>st. ok (f st))) \<noteq> None" for s1 u f
    by (rule and_then_None [OF block], rule and_then_None [OF compile_update_answers], rule ok_None)
  show ?thesis
  proof (cases "split_for_header header")
    case (Inl e)
    then show ?thesis using Inr ha by (simp add: compile_for_loop_def del: not_None_eq)
  next
    case parts: (Inr icu)
    obtain init cond update where icu: "icu = (init, cond, update)" by (cases icu)
    have "and_then (compile_init init st) (\<lambda>st.
                 let loop_start = length (code_of st) in
                 if trim cond = [] then
                   and_then (compile_block p after st) (\<lambda>st.
                     and_then (compile_update update st) (\<lambda>st. ok (jump_back loop_start None st)))
                 else
                   and_then (compile_full_expr (trim cond) st) (\<lambda>st.
                     let jump_end = length (code_of st) in
                     and_then (compile_block p after (emit_op JumpIfFalse st)) (\<lambda>st.
                       and_then (compile_update update st) (\<lambda>st. ok (jump_back loop_start (Some jump_end) st))))) \<noteq> None"
    proof (rule and_then_None [OF compile_init_answers])
      fix s0
      have "and_then (compile_full_expr (trim cond) s0) (\<lambda>st.
          and_then (compile_block p after (emit_op JumpIfFalse st)) (\<lambda>s1.
            and_then (compile_update update s1) (\<lambda>s2. ok (jump_back (length (code_of s0)) (Some (length (code_of st))) s2)))) \<noteq> None"
        by (rule and_then_None [OF compile_full_expr_answers], rule rest)
      then show "(let loop_start = length (code_of s0) in
                 if trim cond = [] then
                   and_then (compile_block p after s0) (\<lambda>st.
                     and_then (compile_update update st) (\<lambda>st. ok (jump_back loop_start None st)))
                 else
                   and_then (compile_full_expr (trim cond) s0) (\<lambda>st.
                     let jump_end = length (code_of st) in
                     and_then (compile_block p after (emit_op JumpIfFalse st)) (\<lambda>st.
                       and_then (compile_update update st) (\<lambda>st. ok (jump_back loop_start (Some jump_end) st))))) \<noteq> None"
        using rest [of s0 update "jump_back (length (code_of s0)) None"] by (simp add: Let_def del: not_None_eq)
    qed
    then show ?thesis
      unfolding compile_for_loop_def Inr ha parts icu sum.case prod.case .
  qed
qed

lemma compile_if_answers:
  assumes p: "stmt_answers n p" "2 * length s \<le> n"
  shows "compile_if_stmt p s st \<noteq> None"
proof (cases "split_header ''if'' s")
  case (Inl e)
  then show ?thesis by (simp add: compile_if_stmt_def del: not_None_eq)
next
  case (Inr ca)
  obtain cond after where ca: "ca = (cond, after)" by (rule prod.exhaust)
  have len: "length after + 1 \<le> length s" by (rule split_header_length [OF Inr [unfolded ca]])
  have block: "compile_block p src st \<noteq> None" if "length src \<le> length after" for src st
    by (rule compile_block_answers [OF p(1)]) (use p(2) len that in simp)
  have else_part: "length (trim (drop i after)) \<le> length after" for i
    using length_trim [of "drop i after"] by simp
  have "p (TIf (trim (drop i after))) st \<noteq> None" for i st
    using p else_part [of i] len by (simp add: stmt_answers_def del: not_None_eq)
  then have branch: "and_then (if b then p (TIf (trim (drop i after))) s1 else compile_block p (trim (drop i after)) s1)
      (\<lambda>st. ok (f st)) \<noteq> None" for b i s1 f
    using block [OF else_part] by (intro and_then_None) (simp_all del: not_None_eq)
  show ?thesis
    unfolding compile_if_stmt_def Inr ca sum.case prod.case Let_def
    by (rule and_then_None [OF compile_full_expr_answers], rule and_then_None [OF block [OF order_refl]])
      (simp add: branch split: option.split del: not_None_eq if_split)
qed

lemma compile_stmt_answers:
  assumes p: "stmt_answers n p" "2 * length s \<le> n"
  shows "compile_stmt p s st \<noteq> None"
proof -
  have le: "2 * length (trim s) \<le> n" using length_trim [of s] p(2) by simp
  have "and_then (compile_full_expr e st) (\<lambda>st. ok (emit_op Return st)) \<noteq> None" for e
    by (rule and_then_None [OF compile_full_expr_answers]) (rule ok_None)
  then show ?thesis
    unfolding compile_stmt_def Let_def
    using compile_for_answers [OF p(1) le] compile_if_answers [OF p(1) le] compile_discard_answers compile_var_decl_answers
    by (simp del: not_None_eq)
qed

lemma run_task_answers: "stmt_answers n (run_task n)"
proof (induction n)
  case 0
  have "\<not> task_fuel t \<le> 0" for t by (cases t) simp_all
  then show ?case unfolding stmt_answers_def by blast
next
  case (Suc n)
  show ?case
    unfolding stmt_answers_def
  proof (intro allI impI)
    fix t st
    assume "task_fuel t \<le> Suc n"
    then show "run_task (Suc n) t st \<noteq> None"
      using compile_stmt_answers [OF Suc] compile_if_answers [OF Suc] by (cases t) (simp_all del: not_None_eq)
  qed
qed

section \<open>Functions\<close>

lemma compile_all_keeps: "compile_all ss st = Some (Inr st') \<Longrightarrow> keeps st st'"
proof (induction ss arbitrary: st)
  case (Cons s ss)
  show ?case
  proof (cases "trim s = []")
    case False
    then obtain s1 where "run_task (stmt_fuel s) (TStmt (trim s)) st = Some (Inr s1)" "compile_all ss s1 = Some (Inr st')"
      using Cons.prems by auto
    then show ?thesis using Cons.IH run_task_sound code_keeps_trans unfolding stmt_sound_def by blast
  qed (use Cons in simp)
qed (simp add: code_keeps_refl)

lemma compile_all_answers: "compile_all ss st \<noteq> None"
proof (induction ss arbitrary: st)
  case (Cons s ss)
  have "run_task (stmt_fuel s) (TStmt (trim s)) st \<noteq> None"
  proof -
    have "task_fuel (TStmt (trim s)) \<le> stmt_fuel s" using length_trim [of s] by (simp add: stmt_fuel_def)
    then show ?thesis using run_task_answers [of "stmt_fuel s"] unfolding stmt_answers_def by blast
  qed
  then have "and_then (run_task (stmt_fuel s) (TStmt (trim s)) st) (compile_all ss) \<noteq> None"
    by (rule and_then_None) (rule Cons.IH)
  then show ?case using Cons.IH by (simp del: not_None_eq)
qed (simp del: not_None_eq)

lemma compile_stmts_answers: "compile_stmts ss st \<noteq> None"
  unfolding compile_stmts_def by (rule and_then_None [OF compile_all_answers]) (rule ok_None)

lemma compile_stmts_keeps:
  assumes "compile_stmts ss st = Some (Inr st')"
  shows "keeps st st'"
proof -
  from assms obtain s where "compile_all ss st = Some (Inr s)" "st' = return_undefined s"
    by (auto simp: compile_stmts_def)
  then show ?thesis using compile_all_keeps return_undefined_keeps code_keeps_trans by blast
qed

lemma add_params_keeps: "keeps st (add_params names st)"
proof (induction names arbitrary: st)
  case (Cons name names)
  have "keeps st (fst (ensure_local name st))" by (rule ensure_local_spec(1)) (rule prod.collapse [symmetric])
  then show ?case using Cons.IH code_keeps_trans by (auto simp: add_params_def)
qed (simp add: add_params_def code_keeps_refl)

text \<open>The code of a function: well typed from the empty stack.\<close>

definition well_typed :: "bytecode_function \<Rightarrow> bool" where
  "well_typed f \<longleftrightarrow> (\<exists>d. typed (length (bf_constants f)) (length (bf_locals f)) 0 (bf_code f) 0 d)"

lemma new_compiler_code [simp]: "code_of (new_compiler c) = []"
  by (simp add: new_compiler_def bytecode_function_new_def)

lemma grows_well_typed:
  assumes "grows st st' 0 d" "code_of st = []" "fits st'"
  shows "well_typed (cs_func st')"
  using assms by (auto simp: grows_def extends_def typed_in_def well_typed_def)

lemma add_params_code: "code_of (add_params names st) = code_of st"
proof (induction names arbitrary: st)
  case (Cons name names)
  have "code_of (fst (ensure_local name st)) = code_of st" by (simp add: ensure_local_def split: option.split)
  then show ?case using Cons.IH by (simp add: add_params_def)
qed (simp add: add_params_def)

lemma compile_program_typed:
  assumes "compile_program src c = Some (Inr st)" "fits st"
  shows "well_typed (cs_func st)"
proof (cases "is_simple_string_literal (trim src)")
  case True
  obtain c' v where "js_new_string_len (take (length (trim src) - 2) (drop 1 (trim src))) c = (c', v)" by (rule prod.exhaust)
  with assms True have st: "st = emit_op Return (emit_inst Const 0 (push_const v ((new_compiler c)\<lparr>cs_ctx := c'\<rparr>)))"
    by (simp add: compile_program_def Let_def)
  have "grows (push_const v ((new_compiler c)\<lparr>cs_ctx := c'\<rparr>)) st 0 0"
    unfolding st
    by (rule grows_trans [OF grows_const grows_emit_op]) (simp_all add: jumps_def)
  then show ?thesis by (rule grows_well_typed) (simp_all add: assms(2) new_compiler_def bytecode_function_new_def)
next
  case False
  with assms obtain s where s: "parse (parse_fuel (trim src)) NComma (at_source (trim src) (new_compiler c)) = Some (Inr s)"
    and st: "st = emit_op Return (skip_ws s)"
    by (auto simp: compile_program_def Let_def split: if_splits)
  let ?a = "at_source (trim src) (new_compiler c)"
  have "puts_value ?a s" using soundD [OF sound_parse s] by simp
  from adv_grows [OF puts_valueD(1) [OF this]] have "grows ?a s 0 (Suc 0)" .
  moreover have "grows s (skip_ws s) (Suc 0) (Suc 0)" by (rule adv_grows [OF adv_skip_ws])
  moreover have "grows (skip_ws s) st (Suc 0) 0" unfolding st by (rule grows_emit_op) (simp_all add: jumps_def)
  ultimately have "grows ?a st 0 0" by (blast intro: grows_trans)
  then show ?thesis
    by (rule grows_well_typed) (simp_all add: assms(2) at_source_def)
qed

lemma compile_stmts_typed:
  assumes "compile_stmts ss (add_params names (new_compiler c)) = Some (Inr st)" "fits st"
  shows "well_typed (cs_func st)"
  using compile_stmts_keeps [OF assms(1)] assms(2)
  by (intro grows_well_typed [of "add_params names (new_compiler c)" st 0]) (simp_all add: keeps_def add_params_code)

lemma compile_program_answers: "compile_program src c \<noteq> None"
  unfolding compile_program_def Let_def
  by (simp add: and_then_None [OF parse_enough] split: prod.split del: not_None_eq)

end
