(* ===== verification/VM_Facts.thy ===== *)
theory VM_Facts
  imports VM Compiler_Typed
begin

text \<open>
  Well-typed code does not go wrong: the virtual machine never runs out of operands, constants or slots on the
  code of the compiler. On integers its fast paths agree with the arithmetic on floats, but for the negative
  zero and the one division that panics.
\<close>

section \<open>Faults\<close>

definition machine_fault :: "vm_exit \<Rightarrow> bool" where
  "machine_fault e \<longleftrightarrow>
     (\<exists>m. e = Thrown InternalError m \<and> m \<in> {STACK_UNDERFLOW, CONST_RANGE, CALL_UNDERFLOW, METHOD_UNDERFLOW})"

definition clean :: "vm_value \<Rightarrow> bool" where
  "clean r \<longleftrightarrow> (case r of Value v c \<Rightarrow> True | Stop e c \<Rightarrow> \<not> machine_fault e)"

lemmas message_defs = STACK_UNDERFLOW_def CONST_RANGE_def CALL_UNDERFLOW_def METHOD_UNDERFLOW_def

lemma no_fault [simp]: "\<not> machine_fault Raised" "\<not> machine_fault Panicked" "\<not> machine_fault (Returned v)"
  "\<not> machine_fault (Thrown TypeError m)" "\<not> machine_fault out_of_memory"
  "\<not> machine_fault (Thrown InternalError ''bytecode global name not string'')"
  by (simp_all add: machine_fault_def out_of_memory_def message_defs)

lemma clean_simps [simp]: "clean (Value v c)" "clean (Stop e c) \<longleftrightarrow> \<not> machine_fault e" "clean (push_number n c)"
  "clean (push_new r)" "clean (push_bool f b)"
  by (simp_all add: clean_def push_number_def push_new_def push_bool_def split: prod.splits)

lemma clean_with_number: "(\<And>n c. clean (k n c)) \<Longrightarrow> clean (with_number en v k c)"
  by (auto simp: with_number_def split: prod.splits option.splits)

lemma clean_with_numbers: "(\<And>x y c. clean (k x y c)) \<Longrightarrow> clean (with_numbers en a b k c)"
  unfolding with_numbers_def by (intro clean_with_number)

lemma clean_concat: "clean (concat_int a b c)" "clean (concat_strings en a b c)"
  by (auto simp: concat_int_def concat_strings_def Let_def split: prod.splits option.splits)

lemma clean_ops:
  "clean (op_add en a b c)" "clean (op_sub en a b c)" "clean (op_mul en a b c)" "clean (op_div en a b c)"
  "clean (op_mod en a b c)" "clean (op_neg en a c)" "clean (op_to_number en a c)"
  "clean (bit_op f l r en a b c)" "clean (op_bit_not en a c)" "clean (compare ic sc nc en a b c)"
  "clean (op_and a b c)" "clean (op_or a b c)" "clean (op_typeof en a c)" "clean (op_get_prop en a b c)"
  "clean (op_set_prop en a b v c)" "clean (op_get_elem en a b c)" "clean (op_concat en a b c)"
  "clean (call_value en a b args c)" "clean (call_function en a b args c)"
  unfolding op_add_def op_sub_def op_mul_def op_div_def op_mod_def op_neg_def op_to_number_def bit_op_def op_bit_not_def
    compare_def op_and_def op_or_def op_typeof_def op_get_prop_def op_set_prop_def op_get_elem_def op_concat_def
    call_function_def call_value_def resolve_builtin_marker_prop_def resolve_string_method_marker_def Let_def
  by (auto simp: clean_concat split: prod.splits option.splits intro!: clean_with_number clean_with_numbers)

section \<open>One step\<close>

text \<open>A step that takes \<open>takes\<close> values and puts \<open>puts\<close>, and goes on behind the instruction.\<close>

definition steps_by :: "nat \<Rightarrow> nat \<Rightarrow> vm \<Rightarrow> vm_step \<Rightarrow> bool" where
  "steps_by takes puts vm r \<longleftrightarrow>
     (case r of
        Goto vm' \<Rightarrow> v_pc vm' = v_pc vm + 1 \<and> length (v_stack vm') = length (v_stack vm) - takes + puts \<and>
          length (v_locals vm') = length (v_locals vm)
      | Exit e c \<Rightarrow> \<not> machine_fault e)"

lemma steps_by_next:
  "length (v_stack vm') + takes = length (v_stack vm) + puts \<Longrightarrow> takes \<le> length (v_stack vm) \<Longrightarrow>
     v_pc vm' = v_pc vm \<Longrightarrow> length (v_locals vm') = length (v_locals vm) \<Longrightarrow> steps_by takes puts vm (next_pc vm')"
  by (simp add: steps_by_def next_pc_def)

lemma steps_by_deliver:
  assumes "clean r" "length (v_stack vm') + takes = length (v_stack vm)" "v_pc vm' = v_pc vm"
    "length (v_locals vm') = length (v_locals vm)"
  shows "steps_by takes 1 vm (deliver r vm')"
proof (cases r)
  case (Value v c)
  then show ?thesis using assms by (auto simp: deliver_def push_def intro!: steps_by_next)
next
  case (Stop e c)
  then show ?thesis using assms by (simp add: deliver_def steps_by_def)
qed

lemma steps_by_pop1:
  assumes "0 < length (v_stack vm)"
    and "\<And>v s. v_stack vm = v # s \<Longrightarrow> steps_by takes puts (vm\<lparr>v_stack := s\<rparr>) (k v (vm\<lparr>v_stack := s\<rparr>))"
  shows "steps_by (Suc takes) puts vm (pop1 vm k)"
proof -
  obtain v s where s: "v_stack vm = v # s" using assms(1) by (cases "v_stack vm") simp_all
  show ?thesis using assms(2) [OF s] s by (auto simp: pop1_def steps_by_def split: vm_step.splits)
qed

lemma steps_by_pop_deliver:
  assumes "\<And>v c. clean (f v c)" "0 < length (v_stack vm)"
  shows "steps_by (Suc 0) 1 vm (pop1 vm (\<lambda>v vm. deliver (f v (v_ctx vm)) vm))"
  by (rule steps_by_pop1 [OF assms(2)], rule steps_by_deliver) (simp_all add: assms(1))

lemma steps_by_unary: "(\<And>v c. clean (f v c)) \<Longrightarrow> 1 \<le> length (v_stack vm) \<Longrightarrow> steps_by 1 1 vm (unary_step f vm)"
  unfolding unary_step_def One_nat_def by (rule steps_by_pop_deliver [unfolded One_nat_def]) auto

lemma steps_by_binary:
  assumes "\<And>a b c. clean (f a b c)" "2 \<le> length (v_stack vm)"
  shows "steps_by 2 1 vm (binary_step f vm)"
  unfolding binary_step_def numeral_2_eq_2
proof (rule steps_by_pop1)
  fix b s assume s: "v_stack vm = b # s"
  show "steps_by (Suc 0) 1 (vm\<lparr>v_stack := s\<rparr>)
      (pop1 (vm\<lparr>v_stack := s\<rparr>) (\<lambda>a vm. deliver (f a b (v_ctx vm)) vm))"
    by (rule steps_by_pop_deliver) (use assms s in \<open>auto simp: Suc_le_eq\<close>)
qed (use assms(2) in auto)

lemma steps_by_set_prop:
  assumes "3 \<le> length (v_stack vm)"
  shows "steps_by 3 1 vm (pop1 vm (\<lambda>v vm. binary_step (\<lambda>obj key. op_set_prop en obj key v) vm))"
  unfolding numeral_3_eq_3
proof (rule steps_by_pop1)
  fix v s assume "v_stack vm = v # s"
  then show "steps_by (Suc (Suc 0)) 1 (vm\<lparr>v_stack := s\<rparr>) (binary_step (\<lambda>obj key. op_set_prop en obj key v) (vm\<lparr>v_stack := s\<rparr>))"
    using steps_by_binary [of "\<lambda>obj key. op_set_prop en obj key v" "vm\<lparr>v_stack := s\<rparr>"] assms clean_ops
    by (simp add: numeral_2_eq_2)
qed (use assms in auto)

lemma steps_by_store: "1 \<le> length (v_stack vm) \<Longrightarrow> steps_by 1 1 vm (store_step slot vm)"
  unfolding store_step_def One_nat_def by (rule steps_by_pop1) (auto simp: push_def intro!: steps_by_next)

lemma steps_by_inc: "steps_by 0 0 vm (inc_step en slot amount vm)"
proof -
  have "clean (with_number en v (\<lambda>n. push_number (f64_add n (f64_of_int (sint amount)))) c)" for v c
    by (rule clean_with_number) simp
  then show ?thesis
    unfolding inc_step_def Let_def
    by (auto simp: clean_def steps_by_def next_pc_def split: vm_value.split) (metis vm_value.simps(6))
qed

lemma steps_by_global_name:
  assumes "i < length consts" "\<And>name atom c. steps_by takes puts (vm\<lparr>v_ctx := c\<rparr>) (k name atom (vm\<lparr>v_ctx := c\<rparr>))"
  shows "steps_by takes puts vm (with_global_name en consts i vm k)"
proof -
  obtain c atom where a: "js_value_to_atom en (consts ! i) (v_ctx vm) = (c, atom)" by (rule prod.exhaust)
  show ?thesis
    using assms(1) assms(2) [of c "consts ! i" "nat atom"]
    by (auto simp: with_global_name_def a steps_by_def throw_def split: vm_step.splits)
qed

lemma steps_by_call: "argc + 1 \<le> length (v_stack vm) \<Longrightarrow> steps_by (argc + 1) 1 vm (call_step en global argc vm)"
  unfolding call_step_def Let_def by (simp only: not_less [THEN iffD2] if_False) (rule steps_by_deliver, simp_all add: clean_ops)

lemma steps_by_method: "argc + 2 \<le> length (v_stack vm) \<Longrightarrow> steps_by (argc + 2) 1 vm (method_step en argc vm)"
  unfolding method_step_def Let_def by (simp only: not_less [THEN iffD2] if_False) (rule steps_by_deliver, simp_all add: clean_ops)

lemma steps_by_store_global: "1 \<le> length (v_stack vm) \<Longrightarrow> steps_by 1 1 vm (store_global global atom vm)"
  unfolding store_global_def One_nat_def
proof (rule steps_by_pop1)
  fix v s assume "v_stack vm = v # s"
  obtain c b where "set_property_atom_id global atom v (v_ctx (vm\<lparr>v_stack := s\<rparr>)) = (c, b)" by (rule prod.exhaust)
  then show "steps_by 0 (Suc 0) (vm\<lparr>v_stack := s\<rparr>)
      (case set_property_atom_id global atom v (v_ctx (vm\<lparr>v_stack := s\<rparr>)) of
         (c, True) \<Rightarrow> next_pc (push v (vm\<lparr>v_stack := s\<rparr>\<lparr>v_ctx := c\<rparr>))
       | (c, False) \<Rightarrow> throw TypeError ''property set failed'' (vm\<lparr>v_stack := s\<rparr>\<lparr>v_ctx := c\<rparr>))"
    by (cases b) (auto simp: push_def throw_def steps_by_def next_pc_def)
qed auto

text \<open>Every instruction that does not jump and is not a return.\<close>

lemma vm_exec_steps:
  assumes "\<not> jumps (i_op i)" "i_op i \<noteq> Return" "fst (effect (i_op i) (unat (i_a i))) \<le> length (v_stack vm)"
    and "operand_ok (length consts) nl i"
  shows "steps_by (fst (effect (i_op i) (unat (i_a i)))) (snd (effect (i_op i) (unat (i_a i)))) vm
    (vm_exec en consts global i vm)"
proof -
  note binary = steps_by_binary [simplified] and unary = steps_by_unary [simplified]
  note ops = clean_ops clean_simps
  show ?thesis
  proof (cases "i_op i")
    case Const
    then show ?thesis using assms by (auto simp: vm_exec_def operand_ok_def push_def intro!: steps_by_next)
  next
    case LoadGlobal
    then show ?thesis
      using assms by (auto simp: vm_exec_def operand_ok_def push_def split: prod.split intro!: steps_by_global_name steps_by_next)
  next
    case StoreGlobal
    have "steps_by 1 1 (vm\<lparr>v_ctx := c\<rparr>) (store_global global atom (vm\<lparr>v_ctx := c\<rparr>))" for c atom
      by (rule steps_by_store_global) (use assms(3) StoreGlobal in simp)
    then show ?thesis using assms StoreGlobal by (auto simp: vm_exec_def operand_ok_def intro!: steps_by_global_name)
  next
    case LoadLocal
    then show ?thesis by (auto simp: vm_exec_def push_def intro!: steps_by_next)
  next
    case StoreLocal
    then show ?thesis using assms(3) steps_by_store by (simp add: vm_exec_def)
  next
    case Nop
    then show ?thesis by (auto simp: vm_exec_def intro!: steps_by_next)
  next
    case Drop
    then show ?thesis using assms(3) by (auto simp: vm_exec_def intro!: steps_by_next)
  next
    case Pop
    then show ?thesis using assms(3) by (auto simp: vm_exec_def intro!: steps_by_next)
  next
    case Dup
    then show ?thesis
      using assms(3) unfolding vm_exec_def
      by (auto simp: push_def intro!: steps_by_pop1 [of _ 0, simplified] steps_by_next)
  next
    case SetProp
    then show ?thesis using assms(3) steps_by_set_prop by (simp add: vm_exec_def)
  next
    case IncLocal
    then show ?thesis using steps_by_inc by (simp add: vm_exec_def)
  next
    case Call
    then show ?thesis using assms(3) steps_by_call [of "unat (i_a i)" vm] by (simp add: vm_exec_def)
  next
    case CallMethod
    then show ?thesis using assms(3) steps_by_method [of "unat (i_a i)" vm] by (simp add: vm_exec_def)
  qed (use assms(1-3) in \<open>simp_all add: vm_exec_def jumps_def binary unary ops\<close>)
qed

section \<open>Well-typed code does not go wrong\<close>

definition vm_ok :: "bytecode_function \<Rightarrow> (nat \<Rightarrow> nat) \<Rightarrow> vm \<Rightarrow> bool" where
  "vm_ok f D vm \<longleftrightarrow> v_pc vm \<le> length (bf_code f) \<and> length (v_stack vm) = D (v_pc vm) \<and>
     length (v_locals vm) = length (bf_locals f)"

lemma jump_when_ok:
  assumes "v_stack vm \<noteq> []"
  shows "\<exists>vm'. jump_when w t vm = Goto vm' \<and> v_pc vm' \<in> {t, v_pc vm + 1} \<and>
    length (v_stack vm') = length (v_stack vm) - 1 \<and> v_locals vm' = v_locals vm"
  using assms by (cases "v_stack vm") (auto simp: jump_when_def pop1_def next_pc_def)

lemma vm_step_ok:
  assumes D: "typed_by D (length (bf_constants f)) (length (bf_locals f)) 0 (bf_code f)" and vm: "vm_ok f D vm"
  shows "case vm_step1 en f global vm of Goto vm' \<Rightarrow> vm_ok f D vm' | Exit e c \<Rightarrow> \<not> machine_fault e"
proof (cases "v_pc vm < length (bf_code f)")
  case False
  then show ?thesis by (simp add: vm_step1_def)
next
  case pc: True
  define i where "i = bf_code f ! v_pc vm"
  have i: "instr_ok (length (bf_constants f)) (length (bf_locals f)) D 0 (length (bf_code f)) (v_pc vm) i"
    using D pc by (auto simp: typed_by_def i_def)
  then have need: "fst (effect (i_op i) (unat (i_a i))) \<le> length (v_stack vm)"
    and operand: "operand_ok (length (bf_constants f)) (length (bf_locals f)) i"
    using vm by (auto simp: instr_ok_def vm_ok_def)
  have step: "vm_step1 en f global vm = vm_exec en (bf_constants f) global i vm" using pc by (simp add: vm_step1_def i_def)
  consider "i_op i = Return" | "jumps (i_op i)" | "\<not> jumps (i_op i)" "i_op i \<noteq> Return" by blast
  then show ?thesis
  proof cases
    case 1
    then show ?thesis by (simp add: step vm_exec_def)
  next
    case 2
    have target: "unat (i_a i) \<le> length (bf_code f)" "D (unat (i_a i)) = after_instr i (D (v_pc vm))"
      using i 2 by (auto simp: instr_ok_def)
    have fall: "i_op i \<noteq> Jump \<Longrightarrow> D (v_pc vm + 1) = after_instr i (D (v_pc vm))"
      using i 2 by (auto simp: instr_ok_def falls_def jumps_def)
    show ?thesis
    proof (cases "i_op i = Jump")
      case True
      then show ?thesis using target vm by (simp add: step vm_exec_def vm_ok_def after_instr_def)
    next
      case False
      then obtain w where w: "vm_exec en (bf_constants f) global i vm = jump_when w (unat (i_a i)) vm"
        and e: "effect (i_op i) (unat (i_a i)) = (1, 0)"
        using 2 by (auto simp: vm_exec_def jumps_def)
      have "v_stack vm \<noteq> []" using need e by auto
      then show ?thesis
        using jump_when_ok [of vm w "unat (i_a i)"] target fall [OF False] vm pc
        by (auto simp: step w vm_ok_def after_instr_def e)
    qed
  next
    case 3
    have "D (v_pc vm + 1) = after_instr i (D (v_pc vm))" using i 3 by (auto simp: instr_ok_def falls_def jumps_def)
    then show ?thesis
      using vm_exec_steps [OF 3 need operand, of en global] vm pc
      by (auto simp: step steps_by_def vm_ok_def after_instr_def split: vm_step.splits prod.splits)
  qed
qed

lemma vm_run_ok:
  assumes "typed_by D (length (bf_constants f)) (length (bf_locals f)) 0 (bf_code f)" "vm_ok f D vm"
    and "vm_run en f global n vm = Some (e, c)"
  shows "\<not> machine_fault e"
  using assms(2,3)
proof (induction n arbitrary: vm)
  case (Suc n)
  show ?case
    using vm_step_ok [OF assms(1) Suc.prems(1), of en global] Suc
    by (cases "vm_step1 en f global vm") auto
qed simp

lemma vm_start_ok: "D 0 = 0 \<Longrightarrow> vm_ok f D (vm_start f params c)"
  by (simp add: vm_ok_def vm_start_def Let_def)

lemma run_module_safe:
  assumes "well_typed f" "run_module en n f params c = Some (e, c')"
  shows "\<not> machine_fault e"
proof -
  obtain D d where D: "D 0 = 0" "typed_by D (length (bf_constants f)) (length (bf_locals f)) 0 (bf_code f)"
    using assms(1) by (auto simp: well_typed_def typed_def)
  from vm_run_ok [OF D(2) vm_start_ok [of D, OF D(1)] assms(2) [unfolded run_module_def]] show ?thesis .
qed

section \<open>Integers\<close>

lemma value_int_range: "in_i32 (value_int v)"
proof -
  have "- (2 ^ 31) \<le> sint n \<and> sint n \<le> 2 ^ 31 - 1" for n :: i32
    using sint_greater_eq [of n] sint_less [of n] by simp
  then show ?thesis by (cases "int32 v") (auto simp: value_int_def in_i32_def i32_min_def i32_max_def)
qed

lemma js_to_number_int: "is_int v \<Longrightarrow> js_to_number en v c = (c, Some (f64_of_int (value_int v)))"
  by (simp add: js_to_number_def primitive_to_number_def int32_def value_int_def)

lemma with_numbers_int:
  "int_pair a b \<Longrightarrow> with_numbers en a b k c = k (f64_of_int (value_int a)) (f64_of_int (value_int b)) c"
  by (simp add: with_numbers_def with_number_def int_pair_def js_to_number_int)

lemma number_to_value_int:
  assumes "in_i32 i"
  shows "number_to_value (f64_of_int i) c = (c, int_value i)"
proof -
  note s = f64_small_i32 [OF assms]
  have "f64_eq (f64_of_int i) (f64_of_int i)" by (simp add: f64_eq_int s)
  moreover have "\<not> f64_is_zero (f64_of_int i) \<or> \<not> f64_sign (f64_of_int i)" by (auto simp: f64_of_int_fields s)
  ultimately show ?thesis by (simp add: number_to_value_def f64_to_i32_int assms int_value_def)
qed

lemma push_number_int: "in_i32 i \<Longrightarrow> push_number (f64_of_int i) c = Value (int_value i) c"
  by (simp add: push_number_def number_to_value_int)

lemma value_small: "f64_small (value_int v)"
  by (rule f64_small_i32 [OF value_int_range])

lemma add_fast: "int_pair a b \<Longrightarrow> op_add en a b c = with_numbers en a b (\<lambda>x y. push_number (f64_add x y)) c"
  by (simp add: op_add_def Let_def with_numbers_int f64_add_int value_small push_number_int)

lemma sub_fast: "int_pair a b \<Longrightarrow> op_sub en a b c = with_numbers en a b (\<lambda>x y. push_number (f64_sub x y)) c"
  by (simp add: op_sub_def Let_def with_numbers_int f64_sub_int value_small push_number_int)

lemma mul_fast:
  assumes "int_pair a b" "value_int a * value_int b \<noteq> 0 \<or> (value_int a < 0 \<longleftrightarrow> value_int b < 0)"
  shows "op_mul en a b c = with_numbers en a b (\<lambda>x y. push_number (f64_mul x y)) c"
  using assms
  by (auto simp: op_mul_def Let_def with_numbers_int f64_mul_int value_small push_number_int f64_zero_False)

lemma compare_fast:
  assumes "int_pair a b"
    and "\<And>i j. f64_small i \<Longrightarrow> f64_small j \<Longrightarrow> num_cmp (f64_of_int i) (f64_of_int j) \<longleftrightarrow> int_cmp i j"
  shows "compare int_cmp str_cmp num_cmp en a b c = with_numbers en a b (\<lambda>x y. Value (new_bool (num_cmp x y))) c"
  using assms by (simp add: compare_def with_numbers_int value_small)

end
