(* ===== verification/Compiled_Code.thy ===== *)
theory Compiled_Code
  imports VM_Facts
begin

text \<open>
  Compiled scripts end to end: the compiler answers on every source, its code never trips the machine, the
  integer fast paths compute what floats do, and the places where a compiled script differs from the language:
  the division that panics, the lost negative zero, shifts with negative operands, operators without a short circuit and text outside ASCII.
\<close>

section \<open>Integer division\<close>

lemma i32_rem_0: "i32_rem x y = 0 \<longleftrightarrow> x mod y = 0"
  by (auto simp: i32_rem_def sgn_if mod_eq_0_iff_dvd)

lemma i32_div_exact:
  assumes "x mod y = 0" "y \<noteq> 0"
  shows "i32_div x y = x div y"
proof -
  obtain t where t: "x = y * t" using assms(1) by (auto simp: mod_eq_0_iff_dvd)
  have q: "\<bar>x\<bar> div \<bar>y\<bar> = \<bar>t\<bar>" using assms(2) by (simp add: t abs_mult)
  have s: "sgn x * sgn y = sgn t" using assms(2) by (cases "y < 0") (simp_all add: t sgn_mult)
  have "x div y = t" using assms(2) by (simp add: t)
  then show ?thesis by (simp only: i32_div_def q s sgn_mult_abs)
qed

lemma i32_div_range:
  assumes "in_i32 x" "in_i32 y" "y \<noteq> 0" "\<not> rem_overflows x y" "x mod y = 0"
  shows "in_i32 (x div y)"
proof -
  obtain t where t: "x = y * t" using assms(5) by (auto simp: mod_eq_0_iff_dvd)
  have d: "x div y = t" using assms(3) by (simp add: t)
  show ?thesis
  proof (cases "y = - 1")
    case True
    then show ?thesis using assms(1,4) by (auto simp: d t in_i32_def rem_overflows_def i32_min_def i32_max_def)
  next
    case False
    have "\<bar>t\<bar> \<le> \<bar>x\<bar>" using assms(3) mult_right_mono [of 1 "\<bar>y\<bar>" "\<bar>t\<bar>"] by (simp add: t abs_mult)
    moreover have "t \<noteq> 2147483648"
    proof
      assume t2: "t = 2147483648"
      have "y * 2147483648 \<le> 2147483647" "- 2147483648 \<le> y * 2147483648"
        using assms(1) by (simp_all add: t t2 in_i32_def i32_min_def i32_max_def)
      then have "y < 1" "- 1 \<le> y" by simp_all
      then show False using False assms(3) by arith
    qed
    ultimately show ?thesis using assms(1) by (simp add: d in_i32_def i32_min_def i32_max_def) linarith
  qed
qed

lemma f64_zero_over: "f64_round False 0 d = f64_of_int 0"
  by (simp add: f64_of_int_def f64_round_def)

lemma op_div_int:
  assumes "int_pair a b" "value_int b \<noteq> 0 \<longrightarrow> \<not> rem_overflows (value_int a) (value_int b)"
  shows "op_div en a b c =
    (if value_int b \<noteq> 0 \<and> value_int a mod value_int b = 0 then Value (int_value (value_int a div value_int b)) c
     else push_number (f64_div (f64_of_int (value_int a)) (f64_of_int (value_int b))) c)"
proof -
  have "value_int b \<noteq> 0 \<and> value_int a mod value_int b = 0 \<Longrightarrow>
    i32_div (value_int a) (value_int b) = value_int a div value_int b"
    by (rule i32_div_exact) blast+
  then show ?thesis using assms unfolding op_div_def Let_def i32_rem_0 by argo
qed

lemma f64_div_fast:
  assumes "f64_small x" "f64_small y" "y \<noteq> 0" "x mod y = 0" "x \<noteq> 0 \<or> y \<ge> 0"
  shows "f64_div (f64_of_int x) (f64_of_int y) = f64_of_int (x div y)"
proof (cases "x = 0")
  case True
  have "\<not> y < 0" using assms(5) True by simp
  with f64_div_int [OF assms(1-3)] show ?thesis by (simp only: True) (simp add: f64_zero_over)
next
  case False
  show ?thesis by (rule f64_div_exact [OF assms(1-4) False])
qed

lemma div_fast:
  assumes "int_pair a b" "value_int b \<noteq> 0 \<longrightarrow> \<not> rem_overflows (value_int a) (value_int b)"
    and "value_int a \<noteq> 0 \<or> value_int b \<ge> 0"
  shows "op_div en a b c = with_numbers en a b (\<lambda>x y. push_number (f64_div x y)) c"
proof (cases "value_int b \<noteq> 0 \<and> value_int a mod value_int b = 0")
  case True
  then have m: "value_int b \<noteq> 0" "value_int a mod value_int b = 0" by (rule conjunct1, rule conjunct2)
  have "\<not> rem_overflows (value_int a) (value_int b)" using assms(2) m(1) by (rule mp)
  note r = i32_div_range [OF value_int_range value_int_range m(1) this m(2)]
  show ?thesis
    by (simp only: op_div_int [OF assms(1,2)] True with_numbers_int [OF assms(1)] if_True simp_thms
      f64_div_fast [OF value_small value_small m assms(3)] push_number_int [OF r])
next
  case False
  then show ?thesis by (simp only: op_div_int [OF assms(1,2)] with_numbers_int [OF assms(1)] if_False)
qed

lemma i32_rem_range: "in_i32 x \<Longrightarrow> y \<noteq> 0 \<Longrightarrow> in_i32 y \<Longrightarrow> in_i32 (i32_rem x y)"
proof -
  assume a: "in_i32 x" "y \<noteq> 0" "in_i32 y"
  have "\<bar>x\<bar> mod \<bar>y\<bar> \<le> \<bar>x\<bar>" by (simp add: zmod_le_nonneg_dividend)
  moreover have "0 \<le> \<bar>x\<bar> mod \<bar>y\<bar>" using a(2) by simp
  ultimately show ?thesis using a(1) by (auto simp: i32_rem_def in_i32_def i32_min_def i32_max_def sgn_if)
qed

lemma mod_fast:
  assumes "int_pair a b" "value_int b \<noteq> 0" "\<not> rem_overflows (value_int a) (value_int b)"
    and "value_int a \<ge> 0 \<or> value_int a mod value_int b \<noteq> 0"
  shows "op_mod en a b c = with_numbers en a b (\<lambda>x y. push_number (f64_rem x y)) c"
proof -
  let ?x = "value_int a" and ?y = "value_int b"
  have s: "f64_small ?x" "f64_small ?y" by (rule value_small)+
  have "f64_rem (f64_of_int ?x) (f64_of_int ?y) = f64_of_int (i32_rem ?x ?y)"
  proof (cases "\<bar>?x\<bar> mod \<bar>?y\<bar> = 0")
    case True
    then have "\<not> ?x < 0" using assms(4) by (auto simp: mod_eq_0_iff_dvd)
    then show ?thesis by (simp only: f64_rem_int [OF s assms(2)] i32_rem_def True) (simp add: f64_of_int_def)
  next
    case False
    have "0 < \<bar>?x\<bar> mod \<bar>?y\<bar>" using False assms(2) pos_mod_sign [of "\<bar>?y\<bar>" "\<bar>?x\<bar>"] by linarith
    moreover from False have "?x \<noteq> 0" by auto
    ultimately have "f64_round (?x < 0) (nat (\<bar>?x\<bar> mod \<bar>?y\<bar>)) 1 = f64_of_int (i32_rem ?x ?y)"
      by (auto simp: i32_rem_def f64_of_int_def sgn_if)
    then show ?thesis by (simp only: f64_rem_int [OF s assms(2)])
  qed
  then show ?thesis using assms
    by (simp add: op_mod_def Let_def with_numbers_int push_number_int i32_rem_range value_int_range)
qed

lemma neg_fast:
  assumes "is_int v" "value_int v \<noteq> 0"
  shows "op_neg en v c = with_number en v (\<lambda>n. push_number (f64_neg n)) c"
proof -
  have "value_int v \<noteq> i32_min \<Longrightarrow> in_i32 (- value_int v)"
    using value_int_range [of v] by (auto simp: in_i32_def i32_min_def i32_max_def)
  then show ?thesis using assms
    by (simp add: op_neg_def with_number_def js_to_number_int f64_neg_int push_number_int)
qed

section \<open>Where the machine panics\<close>

lemma with_numbers_panic: "(\<And>x y c. k x y c \<noteq> Stop Panicked c') \<Longrightarrow> with_numbers en a b k c \<noteq> Stop Panicked c'"
  by (auto simp: with_numbers_def with_number_def split: prod.splits option.splits)

lemma push_number_panic: "push_number n c \<noteq> Stop e c'"
  by (simp add: push_number_def split: prod.split)

lemma op_div_panics:
  "op_div en a b c = Stop Panicked c' \<longleftrightarrow> int_pair a b \<and> value_int a = i32_min \<and> value_int b = - 1 \<and> c' = c"
proof (cases "int_pair a b")
  case True
  then show ?thesis by (auto simp: op_div_def Let_def push_number_panic rem_overflows_def)
next
  case False
  have "with_numbers en a b (\<lambda>x y. push_number (f64_div x y)) c \<noteq> Stop Panicked c'"
    by (rule with_numbers_panic) (rule push_number_panic)
  then show ?thesis using False by (simp add: op_div_def)
qed

lemma op_mod_panics:
  "op_mod en a b c = Stop Panicked c' \<longleftrightarrow> int_pair a b \<and> value_int a = i32_min \<and> value_int b = - 1 \<and> c' = c"
proof (cases "int_pair a b")
  case True
  then show ?thesis by (auto simp: op_mod_def Let_def push_number_panic rem_overflows_def)
next
  case False
  have "with_numbers en a b (\<lambda>x y. push_number (f64_rem x y)) c \<noteq> Stop Panicked c'"
    by (rule with_numbers_panic) (rule push_number_panic)
  then show ?thesis using False by (simp add: op_mod_def)
qed

section \<open>String literals\<close>

lemma literal_loop_plain:
  assumes "q \<notin> set s" "BACKSLASH \<notin> set s"
  shows "literal_loop q acc (s @ q # r) = Some (acc @ concat (map (\<lambda>b. utf8_encode (of_char b)) s), r)"
  using assms
proof (induction s arbitrary: acc)
  case Nil
  show ?case by (subst literal_loop.simps) simp
next
  case (Cons b s)
  have "literal_loop q acc ((b # s) @ q # r) = literal_loop q (acc @ utf8_encode (of_char b)) (s @ q # r)"
    using Cons.prems by (subst literal_loop.simps) auto
  then show ?case using Cons by simp
qed

lemma utf8_encode_ascii: "(of_char b :: nat) < 128 \<Longrightarrow> utf8_encode (of_char b) = [b]"
  by (simp add: utf8_encode_def)

lemma utf8_encode_latin:
  assumes "128 \<le> (of_char b :: nat)"
  shows "length (utf8_encode (of_char b)) = 2"
proof -
  have "(of_char b :: nat) = of_char b mod 256" by simp
  then have "(of_char b :: nat) < 256" by (simp only: mod_less_divisor [of 256] zero_less_numeral)
  then have "(of_char b :: nat) < 0x800" by linarith
  then show ?thesis using assms by (simp add: utf8_encode_def)
qed

lemma plain_text_length:
  "length (concat (map (\<lambda>b. utf8_encode (of_char b)) s)) = length s + length (filter (\<lambda>b. 128 \<le> (of_char b :: nat)) s)"
proof (induction s)
  case (Cons b s)
  show ?case using Cons.IH utf8_encode_ascii [of b] utf8_encode_latin [of b] by (cases "128 \<le> (of_char b :: nat)") simp_all
qed simp

section \<open>A source and two integers\<close>

lemma return_source: "trim ''return'' = ''return''"
  by (rule trim_plain) (simp_all add: ws_front_def ws_back_def ascii_ws_def byte_in_def ws_two_def ws_three_def)

lemma return_code:
  "compile_stmts [''return''] (add_params [] (new_compiler c)) =
    Some (Inr \<lparr>cs_func = \<lparr>bf_code = [instr Const 0, instr Return 0, instr Const 0, instr Return 0],
      bf_constants = [JS_UNDEFINED], bf_locals = []\<rparr>, cs_ctx = c, cs_input = [], cs_pos = 0\<rparr>)"
proof -
  have run: "run_task 14 (TStmt ''return'') st = ok (return_undefined st)" for st
    by (simp add: numeral_eq_Suc compile_stmt_def return_source)
  have all: "compile_all [''return''] st = ok (return_undefined st)" for st
    by (simp add: return_source stmt_fuel_def run and_then_def ok_def del: run_task.simps)
  show ?thesis
    unfolding compile_stmts_def all
    by (simp add: add_params_def return_undefined_def new_compiler_def and_then_def ok_def
      add_undefined_const_def pooled_def bytecode_function_new_def push_const_def emit_pooled_def emit_inst_def
      push_instr_def emit_op_def is_undefined_def)
qed

lemma int_value_int: "in_i32 i \<Longrightarrow> is_int (int_value i) \<and> value_int (int_value i) = i"
proof -
  have "int32 (from_int32 w) = Some w" for w by (rule int32_from_int32)
  moreover have "is_int (from_int32 w)" for w using int32_from_int32 [of w] by (auto simp: int32_def split: if_splits)
  moreover assume "in_i32 i"
  then have "signed_take_bit 31 i = i" by (simp add: signed_take_bit_int_eq_self_iff in_i32_def i32_min_def i32_max_def)
  ultimately show ?thesis by (simp add: int_value_def value_int_def sint_sbintrunc')
qed

lemma mod_zero_fast:
  assumes "int_pair a b" "value_int b = 0"
  shows "op_mod en a b c = with_numbers en a b (\<lambda>x y. push_number (f64_rem x y)) c"
  using assms value_small [of b] by (simp add: op_mod_def with_numbers_int f64_rem_def f64_of_int_fields f64_small_0)

text \<open>Bits: the casts of the slow path give the bits of the integer, \<open>as u32\<close> when it is not negative.\<close>

lemma value_bits_int: "is_int v \<Longrightarrow> value_bits v = word_of_int (value_int v)"
  by (simp add: value_bits_def value_int_def int32_def)

lemma ubits_clamped: "f64_small i \<Longrightarrow> in_i32 i \<Longrightarrow> f64_ubits32 (f64_of_int i) = word_of_int (max 0 i)"
  by (auto simp: f64_ubits32_def f64_to_u32_def f64_cast_def f64_of_int_fields f64_trunc_int in_i32_def i32_min_def i32_max_def)

lemma cast_bits:
  "in_i32 i \<Longrightarrow> f64_bits32 (f64_of_int i) = word_of_int i"
  "in_i32 i \<Longrightarrow> 0 \<le> i \<Longrightarrow> f64_ubits32 (f64_of_int i) = word_of_int i"
  by (simp_all add: f64_bits32_def f64_to_i32_int ubits_clamped f64_small_i32 max_def)

lemma bit_fast:
  assumes "int_pair a b"
    and "left (f64_of_int (value_int a)) = word_of_int (value_int a)" "right (f64_of_int (value_int b)) = word_of_int (value_int b)"
  shows "bit_op f left right en a b c = with_numbers en a b (\<lambda>x y. Value (from_int32 (f (left x) (right y)))) c"
  using assms by (simp add: bit_op_def with_numbers_int, simp add: int_pair_def value_bits_int)

lemma bit_not_fast: "is_int v \<Longrightarrow> op_bit_not en v c = with_number en v (\<lambda>n. Value (from_int32 (NOT (f64_bits32 n)))) c"
  by (simp add: op_bit_not_def with_number_def js_to_number_int value_bits_int cast_bits value_int_range)

lemma to_number_fast: "is_int v \<Longrightarrow> int_value (value_int v) = v \<Longrightarrow> op_to_number en v c = with_number en v push_number c"
  by (simp add: op_to_number_def with_number_def js_to_number_int push_number_int value_int_range)

lemma inc_fast:
  assumes "slot < length (v_locals vm)" "v_locals vm ! slot = a" "is_int a" "in_i32 (value_int a + sint amount)"
  shows "\<exists>w. with_number en a (\<lambda>x. push_number (f64_add x (f64_of_int (sint amount)))) (v_ctx vm) = Value w (v_ctx vm) \<and>
    inc_step en slot amount vm = next_pc (vm\<lparr>v_locals := (v_locals vm)[slot := w]\<rparr>)"
proof -
  have "- (2 ^ 31) \<le> sint amount \<and> sint amount \<le> 2 ^ 31 - 1" using sint_greater_eq [of amount] sint_less [of amount] by simp
  then have "f64_small (sint amount)" by (intro f64_small_i32) (simp add: in_i32_def i32_min_def i32_max_def)
  then show ?thesis
    using assms by (intro exI [of _ "int_value (value_int a + sint amount)"])
      (simp add: with_number_def js_to_number_int f64_add_int value_small push_number_int inc_step_def value_bits_int int_value_def)
qed

section \<open>Properties\<close>

text \<open>C6: code from the compiler never trips the machine: whatever a script is compiled to, with tables that fit
  their 32-bit indices, no run of it underflows the stack, misses a constant or lacks the operands of a call.\<close>

theorem compiled_code_safe:
  assumes "compile_stmts ss (add_params names (new_compiler c)) = Some (Inr st) \<or> compile_program src c = Some (Inr st)"
    and "length (code_of st) < 2 ^ 32" "length (consts_of st) < 2 ^ 32" "length (locals_of st) < 2 ^ 32"
    and "run_module en n (cs_func st) params c1 = Some (e, c2)"
  shows "\<not> machine_fault e"
proof -
  have "fits st" using assms(2-4) by (simp add: fits_def)
  then have "well_typed (cs_func st)" using assms(1) compile_stmts_typed compile_program_typed by blast
  then show ?thesis using assms(5) by (rule run_module_safe)
qed

theorem compiled_code_safe_witness:
  "\<forall>en. \<exists>st e c2. compile_stmts [''return''] (add_params [] (new_compiler example_ctx)) = Some (Inr st) \<and>
     run_module en 2 (cs_func st) [] example_ctx = Some (e, c2) \<and> \<not> machine_fault e"
proof
  fix en
  let ?st = "\<lparr>cs_func = \<lparr>bf_code = [instr Const 0, instr Return 0, instr Const 0, instr Return 0],
      bf_constants = [JS_UNDEFINED], bf_locals = []\<rparr>, cs_ctx = example_ctx, cs_input = [], cs_pos = 0\<rparr>"
  have r: "run_module en 2 (cs_func ?st) [] example_ctx = Some (Returned JS_UNDEFINED, example_ctx)"
    by (simp add: run_module_def vm_start_def numeral_2_eq_2 vm_step1_def vm_exec_def next_pc_def push_def)
  then have "\<not> machine_fault (Returned JS_UNDEFINED)"
    by (intro compiled_code_safe [OF disjI1 [OF return_code], where params = "[]" and ?c2.0 = example_ctx]) simp_all
  with r return_code
  show "\<exists>st e c2. compile_stmts [''return''] (add_params [] (new_compiler example_ctx)) = Some (Inr st) \<and>
      run_module en 2 (cs_func st) [] example_ctx = Some (e, c2) \<and> \<not> machine_fault e"
    by blast
qed

text \<open>C24: the compiler returns on every source: a list of statements, or a program, gives code or an error
  message, and its recursion never runs out.\<close>

theorem compile_total: "compile_stmts ss st \<noteq> None \<and> compile_program src c \<noteq> None"
  by (intro conjI compile_stmts_answers compile_program_answers)

text \<open>C25: on two integers every instruction with a fast path for integers (the arithmetic, the four order tests, the bit
  operations, the shifts, the conversion to a number of an integer as \<open>from_int32\<close> builds it, and the update of a
  local variable) computes what its floating-point path does, with the same heap and the same result, outside these cases. A product, quotient, remainder or negation
  that is a negative zero becomes the integer zero. The quotient and the remainder of the least integer by -1 are not
  computed at all. A negative shift count is taken modulo 32 by the fast path and as zero by the other, and so is a
  negative left operand of the unsigned shift. An update that leaves the 32-bit range wraps around.\<close>

theorem integer_paths:
  assumes "int_pair a b"
  shows "op_add en a b c = with_numbers en a b (\<lambda>x y. push_number (f64_add x y)) c \<and>
    op_sub en a b c = with_numbers en a b (\<lambda>x y. push_number (f64_sub x y)) c \<and>
    (value_int a * value_int b \<noteq> 0 \<or> (value_int a < 0 \<longleftrightarrow> value_int b < 0) \<longrightarrow>
      op_mul en a b c = with_numbers en a b (\<lambda>x y. push_number (f64_mul x y)) c) \<and>
    ((value_int a \<noteq> i32_min \<or> value_int b \<noteq> - 1) \<and> (value_int a \<noteq> 0 \<or> value_int b \<ge> 0) \<longrightarrow>
      op_div en a b c = with_numbers en a b (\<lambda>x y. push_number (f64_div x y)) c) \<and>
    ((value_int a \<noteq> i32_min \<or> value_int b \<noteq> - 1) \<and>
       (value_int b = 0 \<or> value_int a \<ge> 0 \<or> value_int a mod value_int b \<noteq> 0) \<longrightarrow>
      op_mod en a b c = with_numbers en a b (\<lambda>x y. push_number (f64_rem x y)) c) \<and>
    (value_int a \<noteq> 0 \<longrightarrow> op_neg en a c = with_number en a (\<lambda>x. push_number (f64_neg x)) c) \<and>
    (int_value (value_int a) = a \<longrightarrow> op_to_number en a c = with_number en a push_number c) \<and>
    compare (\<lambda>i j. i < j) sl f64_lt en a b c = with_numbers en a b (\<lambda>x y. Value (new_bool (f64_lt x y))) c \<and>
    compare (\<lambda>i j. i \<le> j) sl f64_le en a b c = with_numbers en a b (\<lambda>x y. Value (new_bool (f64_le x y))) c \<and>
    compare (\<lambda>i j. i > j) sl (\<lambda>x y. f64_lt y x) en a b c = with_numbers en a b (\<lambda>x y. Value (new_bool (f64_lt y x))) c \<and>
    compare (\<lambda>i j. i \<ge> j) sl (\<lambda>x y. f64_le y x) en a b c = with_numbers en a b (\<lambda>x y. Value (new_bool (f64_le y x))) c \<and>
    bit_op f f64_bits32 f64_bits32 en a b c =
      with_numbers en a b (\<lambda>x y. Value (from_int32 (f (f64_bits32 x) (f64_bits32 y)))) c \<and>
    op_bit_not en a c = with_number en a (\<lambda>x. Value (from_int32 (NOT (f64_bits32 x)))) c \<and>
    (value_int b \<ge> 0 \<longrightarrow> bit_op f f64_bits32 f64_ubits32 en a b c =
      with_numbers en a b (\<lambda>x y. Value (from_int32 (f (f64_bits32 x) (f64_ubits32 y)))) c) \<and>
    (value_int a \<ge> 0 \<and> value_int b \<ge> 0 \<longrightarrow> bit_op f f64_ubits32 f64_ubits32 en a b c =
      with_numbers en a b (\<lambda>x y. Value (from_int32 (f (f64_ubits32 x) (f64_ubits32 y)))) c) \<and>
    (slot < length (v_locals vm) \<and> v_locals vm ! slot = a \<and> in_i32 (value_int a + sint amount) \<longrightarrow>
      (\<exists>w. with_number en a (\<lambda>x. push_number (f64_add x (f64_of_int (sint amount)))) (v_ctx vm) = Value w (v_ctx vm) \<and>
        inc_step en slot amount vm = next_pc (vm\<lparr>v_locals := (v_locals vm)[slot := w]\<rparr>)))"
proof (intro conjI impI)
  assume "(value_int a \<noteq> i32_min \<or> value_int b \<noteq> - 1) \<and> (value_int a \<noteq> 0 \<or> value_int b \<ge> 0)"
  then show "op_div en a b c = with_numbers en a b (\<lambda>x y. push_number (f64_div x y)) c"
    by (intro div_fast [OF assms]) (auto simp: rem_overflows_def)
next
  assume "(value_int a \<noteq> i32_min \<or> value_int b \<noteq> - 1) \<and>
    (value_int b = 0 \<or> value_int a \<ge> 0 \<or> value_int a mod value_int b \<noteq> 0)"
  then show "op_mod en a b c = with_numbers en a b (\<lambda>x y. push_number (f64_rem x y)) c"
    by (cases "value_int b = 0") (auto simp: rem_overflows_def mod_zero_fast [OF assms] intro: mod_fast [OF assms])
next
  have a: "is_int a" using assms by (simp add: int_pair_def)
  show "op_neg en a c = with_number en a (\<lambda>x. push_number (f64_neg x)) c" if "value_int a \<noteq> 0"
    by (rule neg_fast [OF a that])
  show "op_to_number en a c = with_number en a push_number c" if "int_value (value_int a) = a"
    by (rule to_number_fast [OF a that])
  show "op_bit_not en a c = with_number en a (\<lambda>x. Value (from_int32 (NOT (f64_bits32 x)))) c"
    by (rule bit_not_fast [OF a])
  assume "slot < length (v_locals vm) \<and> v_locals vm ! slot = a \<and> in_i32 (value_int a + sint amount)"
  then show "\<exists>w. with_number en a (\<lambda>x. push_number (f64_add x (f64_of_int (sint amount)))) (v_ctx vm) = Value w (v_ctx vm) \<and>
      inc_step en slot amount vm = next_pc (vm\<lparr>v_locals := (v_locals vm)[slot := w]\<rparr>)"
    using inc_fast [of slot vm] a by blast
next
  note r = value_int_range [of a] value_int_range [of b]
  show "bit_op f f64_bits32 f64_bits32 en a b c =
      with_numbers en a b (\<lambda>x y. Value (from_int32 (f (f64_bits32 x) (f64_bits32 y)))) c"
    by (rule bit_fast [OF assms]) (rule cast_bits r)+
  show "bit_op f f64_bits32 f64_ubits32 en a b c =
      with_numbers en a b (\<lambda>x y. Value (from_int32 (f (f64_bits32 x) (f64_ubits32 y)))) c" if "value_int b \<ge> 0"
    by (rule bit_fast [OF assms]) (rule cast_bits r that)+
  assume "value_int a \<ge> 0 \<and> value_int b \<ge> 0"
  then show "bit_op f f64_ubits32 f64_ubits32 en a b c =
      with_numbers en a b (\<lambda>x y. Value (from_int32 (f (f64_ubits32 x) (f64_ubits32 y)))) c"
    by (intro bit_fast [OF assms] cast_bits(2) r) simp_all
qed (rule add_fast sub_fast mul_fast compare_fast; (rule assms f64_lt_int f64_le_int)?; assumption?)+

theorem integer_paths_witness:
  "int_pair (int_value 6) (int_value (- 3)) \<and>
   (\<forall>en c. op_div en (int_value 6) (int_value (- 3)) c =
     with_numbers en (int_value 6) (int_value (- 3)) (\<lambda>x y. push_number (f64_div x y)) c)"
proof -
  have v: "is_int (int_value 6) \<and> value_int (int_value 6) = 6" "is_int (int_value (- 3)) \<and> value_int (int_value (- 3)) = - 3"
    by (rule int_value_int, simp add: in_i32_def i32_min_def i32_max_def)+
  then have "int_pair (int_value 6) (int_value (- 3))" by (simp add: int_pair_def)
  with integer_paths [OF this] v show ?thesis by simp
qed

text \<open>The shifts outside the range: the fast path shifts 1 by -1 to the least integer, and the other path gives
  1; \<open>-1 >>> 1\<close> is 2147483647 on the fast path and 0 on the other.\<close>

theorem shift_paths_differ:
  "bit_op (\<lambda>x y. push_bit (shift_count y) x) f64_bits32 f64_ubits32 en (int_value 1) (int_value (- 1)) c =
     Value (int_value i32_min) c \<and>
   with_numbers en (int_value 1) (int_value (- 1))
     (\<lambda>x y. Value (from_int32 (push_bit (shift_count (f64_ubits32 y)) (f64_bits32 x)))) c = Value (int_value 1) c \<and>
   bit_op (\<lambda>x y. drop_bit (shift_count y) x) f64_ubits32 f64_ubits32 en (int_value (- 1)) (int_value 1) c =
     Value (int_value i32_max) c \<and>
   with_numbers en (int_value (- 1)) (int_value 1)
     (\<lambda>x y. Value (from_int32 (drop_bit (shift_count (f64_ubits32 y)) (f64_ubits32 x)))) c = Value (int_value 0) c"
proof -
  have one: "is_int (int_value 1) \<and> value_int (int_value 1) = 1" and neg: "is_int (int_value (- 1)) \<and> value_int (int_value (- 1)) = - 1"
    by (rule int_value_int, simp add: in_i32_def i32_min_def i32_max_def)+
  then have p: "int_pair (int_value 1) (int_value (- 1))" "int_pair (int_value (- 1)) (int_value 1)"
    by (simp_all add: int_pair_def)
  have bits: "value_bits (int_value 1) = 1" "value_bits (int_value (- 1)) = - 1"
    using one neg by (simp_all add: value_bits_int)
  have small: "f64_small 1" "f64_small (- 1)" by (simp_all add: f64_small_i32 in_i32_def i32_min_def i32_max_def)
  have cast: "f64_ubits32 (f64_of_int 1) = 1" "f64_ubits32 (f64_of_int (- 1)) = 0" "f64_bits32 (f64_of_int 1) = 1"
    using cast_bits(1) [of 1] by (simp_all add: ubits_clamped small in_i32_def i32_min_def i32_max_def)
  have counts: "shift_count (- 1) = 31" "shift_count 0 = 0" "shift_count 1 = 1" by code_simp+
  have words: "word_of_int i32_min = (2 ^ 31 :: i32)" "word_of_int i32_max = (mask 31 :: i32)"
    by (simp_all add: i32_min_def i32_max_def mask_eq_exp_minus_1)
  have "bit_op f l r en (int_value i) (int_value j) c = Value (from_int32 (f (value_bits (int_value i)) (value_bits (int_value j)))) c"
    if "int_pair (int_value i) (int_value j)" for f l r i j
    using that by (simp add: bit_op_def)
  then show ?thesis using p one neg by (simp add: with_numbers_int bits counts cast) (simp add: int_value_def words)
qed

text \<open>division and remainder panic on the least integer by -1, and on nothing else.\<close>

theorem division_panics:
  "(op_div en a b c = Stop Panicked c' \<longleftrightarrow> int_pair a b \<and> value_int a = i32_min \<and> value_int b = - 1 \<and> c' = c) \<and>
   (op_mod en a b c = Stop Panicked c' \<longleftrightarrow> int_pair a b \<and> value_int a = i32_min \<and> value_int b = - 1 \<and> c' = c)"
  by (intro conjI op_div_panics op_mod_panics)

text \<open>a string literal without a backslash denotes the characters whose numbers are its bytes: ASCII text is
  kept, and every byte beyond ASCII becomes two, so that UTF-8 text is encoded twice.\<close>

theorem string_literal_text:
  assumes "q \<notin> set s" "BACKSLASH \<notin> set s"
  shows "\<exists>t. literal_loop q [] (s @ q # r) = Some (t, r) \<and>
    length t = length s + length (filter (\<lambda>b. 128 \<le> (of_char b :: nat)) s) \<and>
    ((\<forall>b \<in> set s. (of_char b :: nat) < 128) \<longrightarrow> t = s)"
proof (intro exI conjI impI)
  let ?t = "concat (map (\<lambda>b. utf8_encode (of_char b)) s)"
  show "literal_loop q [] (s @ q # r) = Some (?t, r)" using literal_loop_plain [OF assms, of "[]"] by simp
  show "length ?t = length s + length (filter (\<lambda>b. 128 \<le> (of_char b :: nat)) s)" by (rule plain_text_length)
  assume "\<forall>b \<in> set s. (of_char b :: nat) < 128"
  then have "map (\<lambda>b. utf8_encode (of_char b)) s = map (\<lambda>b. [b]) s" by (simp add: utf8_encode_ascii)
  then show "?t = s" by (simp only: concat_map_singleton list.map_id0 map_ident)
qed

theorem string_literal_text_witness:
  "\<exists>t. literal_loop SQ [] ([CHR 0xC3, CHR 0xA9] @ SQ # []) = Some (t, []) \<and> length t = 4"
  using string_literal_text [of SQ "[CHR 0xC3, CHR 0xA9]" "[]"] by (auto simp: SQ_def BACKSLASH_def)

end
