(* ===== verification/Expr_Source.thy ===== *)
theory Expr_Source
  imports Compiled_Code
begin

text \<open>
  Expressions over numbers, parameters, the unary and binary operators and the conditional, written with all their
  parentheses: their text, their value by a direct evaluator over the operations of the machine, their code, and
  the proof that the parser of the compiler reads the text and emits the code.
\<close>

section \<open>Expressions, their text and their value\<close>

datatype jexp = Num nat | Var bytes | Una bytes op_code jexp | Bin bytes op_code jexp jexp | Cond jexp jexp jexp

definition sum_ops :: "(bytes \<times> op_code) list" where "sum_ops = [(''+'', Add), (''-'', Sub)]"

definition binary_ops :: "(bytes \<times> op_code) list" where
  "binary_ops = term_ops @ sum_ops @ comparison_ops @ and_ops @ or_ops"

fun jprint :: "jexp \<Rightarrow> bytes" where
  "jprint (Num n) = dec_of_nat n"
| "jprint (Var x) = x"
| "jprint (Una s p a) = ''('' @ s @ jprint a @ '')''"
| "jprint (Bin s p a b) = ''('' @ jprint a @ s @ jprint b @ '')''"
| "jprint (Cond a b c) = ''('' @ jprint a @ ''?'' @ jprint b @ '':'' @ jprint c @ '')''"

text \<open>Numbers below two to the 31, names of parameters that are no literals, operators of the tables.\<close>

fun jexp_ok :: "bytes list \<Rightarrow> jexp \<Rightarrow> bool" where
  "jexp_ok names (Num n) \<longleftrightarrow> n < 2 ^ 31"
| "jexp_ok names (Var x) \<longleftrightarrow>
     x \<in> set names \<and> is_identifier x \<and> x \<notin> {''true'', ''false'', ''null'', ''undefined'', ''Number''}"
| "jexp_ok names (Una s p a) \<longleftrightarrow> (s, p) \<in> set unary_ops \<and> jexp_ok names a"
| "jexp_ok names (Bin s p a b) \<longleftrightarrow> (s, p) \<in> set binary_ops \<and> jexp_ok names a \<and> jexp_ok names b"
| "jexp_ok names (Cond a b c) \<longleftrightarrow> jexp_ok names a \<and> jexp_ok names b \<and> jexp_ok names c"

definition apply_unary :: "engine \<Rightarrow> op_code \<Rightarrow> js_value \<Rightarrow> js_ctx \<Rightarrow> vm_value" where
  "apply_unary en p v c =
     (case p of Neg \<Rightarrow> op_neg en v c | BitNot \<Rightarrow> op_bit_not en v c | _ \<Rightarrow> Value (new_bool (\<not> is_truthy c v)) c)"

definition apply_binary :: "engine \<Rightarrow> op_code \<Rightarrow> js_value \<Rightarrow> js_value \<Rightarrow> js_ctx \<Rightarrow> vm_value" where
  "apply_binary en p =
     (case p of
        Add \<Rightarrow> op_add en | Sub \<Rightarrow> op_sub en | Mul \<Rightarrow> op_mul en | Div \<Rightarrow> op_div en | Mod \<Rightarrow> op_mod en
      | Eq \<Rightarrow> (\<lambda>a b c. push_bool (\<lambda>r. r) (vm_loose_eq en a b c))
      | Neq \<Rightarrow> (\<lambda>a b c. push_bool (\<lambda>r. \<not> r) (vm_loose_eq en a b c))
      | StrictEq \<Rightarrow> (\<lambda>a b c. push_bool (\<lambda>r. r) (vm_strict_eq en a b c))
      | StrictNeq \<Rightarrow> (\<lambda>a b c. push_bool (\<lambda>r. \<not> r) (vm_strict_eq en a b c))
      | Lt \<Rightarrow> compare (\<lambda>x y. x < y) (\<lambda>x y. x < y) f64_lt en
      | Gt \<Rightarrow> compare (\<lambda>x y. x > y) (\<lambda>x y. x > y) (\<lambda>x y. f64_lt y x) en
      | Le \<Rightarrow> compare (\<lambda>x y. x \<le> y) (\<lambda>x y. x \<le> y) f64_le en
      | Ge \<Rightarrow> compare (\<lambda>x y. x \<ge> y) (\<lambda>x y. x \<ge> y) (\<lambda>x y. f64_le y x) en
      | And \<Rightarrow> op_and
      | _ \<Rightarrow> op_or)"

definition vm_bind :: "vm_value \<Rightarrow> (js_value \<Rightarrow> js_ctx \<Rightarrow> vm_value) \<Rightarrow> vm_value" where
  "vm_bind r k = (case r of Value v c \<Rightarrow> k v c | Stop e c \<Rightarrow> Stop e c)"

text \<open>Operands from left to right, both of them also for the logical operators.\<close>

fun jeval :: "engine \<Rightarrow> (bytes \<Rightarrow> js_value) \<Rightarrow> jexp \<Rightarrow> js_ctx \<Rightarrow> vm_value" where
  "jeval en env (Num n) c = Value (int_value (int n)) c"
| "jeval en env (Var x) c = Value (env x) c"
| "jeval en env (Una s p a) c = vm_bind (jeval en env a c) (apply_unary en p)"
| "jeval en env (Bin s p a b) c =
     vm_bind (jeval en env a c) (\<lambda>x c. vm_bind (jeval en env b c) (\<lambda>y c. apply_binary en p x y c))"
| "jeval en env (Cond a b d) c =
     vm_bind (jeval en env a c) (\<lambda>x c. if is_truthy c x then jeval en env b c else jeval en env d c)"

section \<open>The code of an expression\<close>

definition conditional_code :: "(cst \<Rightarrow> cst) \<Rightarrow> (cst \<Rightarrow> cst) \<Rightarrow> cst \<Rightarrow> cst" where
  "conditional_code f g st =
     (let st1 = f (emit_op JumpIfFalse st); st2 = g (patch_jump (length (code_of st)) (emit_op Jump st1))
      in patch_jump (length (code_of st1)) st2)"

fun jcompile :: "jexp \<Rightarrow> cst \<Rightarrow> cst" where
  "jcompile (Num n) st = emit_const (f64_of_int (int n)) st"
| "jcompile (Var x) st = (case find_local x st of Some slot \<Rightarrow> emit_inst LoadLocal slot st | None \<Rightarrow> st)"
| "jcompile (Una s p a) st = emit_op p (jcompile a st)"
| "jcompile (Bin s p a b) st = emit_op p (jcompile b (jcompile a st))"
| "jcompile (Cond a b c) st = conditional_code (jcompile b) (jcompile c) (jcompile a st)"

text \<open>Emission does not look at the source, and leaves it alone.\<close>

named_theorems emits

lemma emit_source [emits]:
  "cs_pos (push_instr i st) = cs_pos st" "cs_input (push_instr i st) = cs_input st"
  "cs_pos (emit_op p st) = cs_pos st" "cs_input (emit_op p st) = cs_input st"
  "cs_pos (emit_inst p a st) = cs_pos st" "cs_input (emit_inst p a st) = cs_input st"
  "cs_pos (patch_jump j st) = cs_pos st" "cs_input (patch_jump j st) = cs_input st"
  "cs_pos (emit_const n st) = cs_pos st" "cs_input (emit_const n st) = cs_input st"
  by (simp_all add: push_instr_def emit_op_def emit_inst_def patch_jump_def emit_const_def emit_pooled_def
    add_number_const_def pooled_def push_const_def split: prod.splits option.splits)

lemma emit_advance [emits]:
  "push_instr i (advance n st) = advance n (push_instr i st)"
  "emit_op p (advance n st) = advance n (emit_op p st)"
  "emit_inst p a (advance n st) = advance n (emit_inst p a st)"
  "patch_jump j (advance n st) = advance n (patch_jump j st)"
  "emit_const x (advance n st) = advance n (emit_const x st)"
  "find_local y (advance n st) = find_local y st"
  by (simp_all add: push_instr_def emit_op_def emit_inst_def patch_jump_def emit_const_def emit_pooled_def
    add_number_const_def pooled_def push_const_def advance_def find_local_def split: prod.splits option.splits)

lemma advance_advance [emits]: "advance m (advance n st) = advance (n + m) st"
  by (simp add: advance_def)

lemma jcompile_advance [emits]: "jcompile e (advance n st) = advance n (jcompile e st)"
  by (induction e arbitrary: st) (simp_all add: emits conditional_code_def Let_def split: option.split)

lemma jcompile_source [emits]: "cs_pos (jcompile e st) = cs_pos st" "cs_input (jcompile e st) = cs_input st"
  by (induction e arbitrary: st) (simp_all add: emits conditional_code_def Let_def split: option.split)

lemma rest_advance [simp]: "rest_of (advance n st) = drop n (rest_of st)"
  by (simp add: rest_of_def advance_def add.commute)

lemma rest_emit [simp]:
  "rest_of (emit_op p st) = rest_of st" "rest_of (emit_inst p a st) = rest_of st" "rest_of (patch_jump j st) = rest_of st"
  "rest_of (emit_const n st) = rest_of st" "rest_of (jcompile e st) = rest_of st"
  by (simp_all add: rest_of_def emits)

section \<open>Reading\<close>

text \<open>What follows, byte by byte. \<open>next_in\<close> says which bytes may come next.\<close>

definition next_in :: "bytes \<Rightarrow> bytes \<Rightarrow> bool" where
  "next_in bs r \<longleftrightarrow> r = [] \<or> hd r \<in> set bs"

lemma peek_rest: "peek st = (case rest_of st of [] \<Rightarrow> None | b # r \<Rightarrow> Some b)"
  by (auto simp: peek_def rest_of_def Cons_nth_drop_Suc [symmetric] split: list.split)

lemma consume_rest: "consume b st = (if \<exists>r. rest_of st = b # r then Some (advance 1 st) else None)"
  by (auto simp: consume_def peek_rest split: list.splits)

lemma skip_ws_same: "(\<forall>b r. rest_of st = b # r \<longrightarrow> \<not> source_ws b) \<Longrightarrow> skip_ws st = st"
  by (cases "rest_of st") (auto simp: skip_ws_def advance_def)

definition enders :: bytes where "enders = '')?:+-*/%<>=!&|,''"

lemma skip_ws_enders: "next_in enders (rest_of st) \<Longrightarrow> skip_ws st = st"
  by (rule skip_ws_same) (auto simp: next_in_def enders_def source_ws_def NEWLINE_def)

text \<open>The first byte of an operand.\<close>

definition starter :: "byte \<Rightarrow> bool" where "starter b \<longleftrightarrow> is_digit b \<or> is_ident_start b \<or> b = CHR ''(''"

definition starts :: "bytes \<Rightarrow> bool" where "starts r \<longleftrightarrow> (\<exists>b t. r = b # t \<and> starter b)"

lemma starter_not:
  assumes "starter b"
  shows "\<not> source_ws b" "b \<notin> set '')?:+-*/%<>=!&|,~.[]''" "b \<noteq> SQ" "b \<noteq> DQ"
  using assms
  by (auto simp: starter_def source_ws_def NEWLINE_def is_digit_iff is_ident_start_def byte_in_def SQ_def DQ_def)

lemma skip_ws_starts: "starts (rest_of st) \<Longrightarrow> skip_ws st = st"
  by (rule skip_ws_same) (auto simp: starts_def starter_not)

lemma first_op_starts: "starts (rest_of st) \<Longrightarrow> first_op unary_ops st = None"
  using starter_not(2) by (fastforce simp: starts_def unary_ops_def consume_seq_def)

lemma consume_starts: "starts (rest_of st) \<Longrightarrow> b \<in> set '')?:+-*/%<>=!&|,~.[]'' \<Longrightarrow> consume b st = None"
  using starter_not(2) by (fastforce simp: starts_def consume_rest)

section \<open>Operands\<close>

lemma take_digits:
  assumes "list_all is_digit ds" "next_in enders r"
  shows "takeWhile is_digit (ds @ r) = ds"
proof -
  have "takeWhile is_digit r = []"
    using assms(2) by (cases r) (auto simp: next_in_def enders_def is_digit_iff)
  then show ?thesis using assms(1) by (simp add: takeWhile_append2 list_all_iff)
qed

lemma number_span_digits:
  assumes "list_all is_digit ds" "ds \<noteq> []" "next_in enders r"
  shows "number_span (ds @ r) = length ds"
proof -
  obtain d ds' where ds: "ds = d # ds'" "is_digit d" using assms(1,2) by (cases ds) auto
  have "\<not> prefix ''.'' (ds @ r)" using ds by (auto simp: is_digit_iff)
  moreover have "\<not> prefix ''.'' r" "\<not> prefix ''e'' r" "\<not> prefix ''E'' r"
    using assms(3) by (cases r; auto simp: next_in_def enders_def)+
  ultimately show ?thesis using take_digits [OF assms(1,3)] by (simp add: number_span_def Let_def)
qed

lemma lower_digit: "is_digit d \<Longrightarrow> lower_byte d = d"
  by (auto simp: lower_byte_def is_digit_def less_eq_char_def)

lemma f64_from_digits:
  assumes "list_all is_digit ds" "ds \<noteq> []"
  shows "f64_from_str ds = Some (f64_of_int (int (nat_of_dec ds)))"
proof -
  obtain d ds' where ds: "ds = d # ds'" "is_digit d" using assms by (cases ds) auto
  have d: "d \<noteq> CHR ''-''" "d \<noteq> CHR ''+''" "d \<noteq> CHR ''i''" "d \<noteq> CHR ''n''" using ds(2) by (auto simp: is_digit_iff)
  have span: "span_digits ds = (ds, [])" using assms(1) by (simp add: span_digits_def list_all_iff)
  have low: "map lower_byte ds = d # map lower_byte ds'" using ds by (simp add: lower_digit)
  show ?thesis using d span ds(1)
    by (simp add: f64_from_str_def Let_def low lower_digit [OF ds(2)] parse_exponent_def f64_of_decimal_def f64_of_int_def)
qed

lemma jprint_starts: "jexp_ok names e \<Longrightarrow> starts (jprint e @ r)"
proof (cases e)
  case (Num n)
  then show ?thesis using dec_of_nat_hd [of n] dec_of_nat_nonempty [of n]
    by (cases "dec_of_nat n") (auto simp: starts_def starter_def simp del: dec_of_nat_nonempty)
next
  case (Var x)
  assume "jexp_ok names e"
  with Var show ?thesis by (auto simp: starts_def starter_def is_identifier_def split: list.splits)
qed (simp_all add: starts_def starter_def)

lemma parse_identifier_var:
  assumes "is_identifier x" "next_in enders r" "rest_of st = x @ r"
  shows "parse_identifier st = (advance (length x) st, Some x)"
proof -
  obtain c t where x: "x = c # t" "is_ident_start c" "list_all (\<lambda>b. is_ident_start b \<or> is_digit b) t"
    using assms(1) by (auto simp: is_identifier_def split: list.splits)
  have "starts (rest_of st)" using x assms(3) by (simp add: starts_def starter_def)
  then have ws: "skip_ws st = st" by (rule skip_ws_starts)
  have "takeWhile (\<lambda>b. is_ident_start b \<or> is_digit b) r = []"
    using assms(2) by (cases r) (auto simp: next_in_def enders_def is_digit_iff is_ident_start_def byte_in_def)
  then have "takeWhile (\<lambda>b. is_ident_start b \<or> is_digit b) (t @ r) = t"
    using x(3) by (simp add: takeWhile_append2 list_all_iff)
  then show ?thesis using ws x(1,2) assms(3) by (simp add: parse_identifier_def Let_def)
qed

text \<open>With enough fuel, a method ends in a state.\<close>

definition reads :: "nonterm \<Rightarrow> nat \<Rightarrow> cst \<Rightarrow> cst \<Rightarrow> bool" where
  "reads nt k st st' \<longleftrightarrow> (\<forall>m \<ge> k. parse m nt st = ok st')"

lemma reads_more: "reads nt k st st' \<Longrightarrow> k \<le> l \<Longrightarrow> reads nt l st st'"
  by (simp add: reads_def)

lemma reads_step:
  assumes "\<And>m. k \<le> m \<Longrightarrow> parse_body (parse m) nt st = ok st'"
  shows "reads nt (Suc k) st st'"
  unfolding reads_def
proof (intro allI impI)
  fix m assume "Suc k \<le> m"
  then obtain m' where "m = Suc m'" "k \<le> m'" by (cases m) auto
  then show "parse m nt st = ok st'" using assms by simp
qed

lemma readsD: "reads nt k st st' \<Longrightarrow> k \<le> m \<Longrightarrow> parse m nt st = ok st'"
  by (simp add: reads_def)

lemma and_then_ok [simp]: "and_then (ok st) f = f st"
  by (simp add: and_then_def ok_def)

lemma reads_number:
  assumes "rest_of st = dec_of_nat n @ r" "next_in enders r"
  shows "reads NPrimary 1 st (advance (length (dec_of_nat n)) (jcompile (Num n) st))"
proof -
  have s: "starts (rest_of st)" using jprint_starts [of "[]" "Num n" r] dec_of_nat_hd [of n] dec_of_nat_nonempty [of n]
    unfolding assms(1) by (cases "dec_of_nat n") (auto simp: starts_def starter_def simp del: dec_of_nat_nonempty)
  obtain b t where b: "dec_of_nat n = b # t" "is_digit b"
    using dec_of_nat_hd [of n] dec_of_nat_nonempty [of n] by (cases "dec_of_nat n") (auto simp del: dec_of_nat_nonempty)
  have "consume (CHR ''('') st = None" using b by (auto simp: consume_rest assms(1) is_digit_iff)
  moreover have "peek st = Some b" by (simp add: peek_rest assms(1) b)
  moreover have "b \<noteq> SQ" "b \<noteq> DQ" using b(2) starter_not(3,4) by (auto simp: starter_def)
  moreover have "parse_number st = Inr (advance (length (dec_of_nat n)) st, f64_of_int (int n))"
    using number_span_digits [OF digits_dec_of_nat dec_of_nat_nonempty assms(2)] dec_of_nat_nonempty [of n]
      f64_from_digits [OF digits_dec_of_nat dec_of_nat_nonempty]
    by (simp add: parse_number_def Let_def skip_ws_starts [OF s] assms(1))
  ultimately have "parse_primary p st = ok (advance (length (dec_of_nat n)) (jcompile (Num n) st))" for p
    using b(2) by (simp add: parse_primary_def Let_def skip_ws_starts [OF s] emits)
  then show ?thesis using reads_step [of 0 NPrimary] by (simp add: parse_body_def)
qed

lemma reads_variable:
  assumes "rest_of st = x @ r" "next_in enders r" "jexp_ok names (Var x)" "find_local x st = Some slot"
  shows "reads NPrimary 1 st (advance (length x) (jcompile (Var x) st))"
proof -
  have id: "is_identifier x" using assms(3) by simp
  have s: "starts (rest_of st)" using jprint_starts [OF assms(3), of r] by (simp add: assms(1))
  obtain b t where b: "x = b # t" "is_ident_start b" using id by (auto simp: is_identifier_def split: list.splits)
  have start: "starter b" using b(2) by (simp add: starter_def)
  have "\<not> is_digit b" "b \<noteq> CHR ''('' \<and> b \<noteq> CHR ''.''"
    using b(2) by (auto simp: is_ident_start_def byte_in_def is_digit_iff)
  moreover have "peek st = Some b" by (simp add: peek_rest assms(1) b)
  moreover have "consume (CHR ''('') st = None" using calculation(2) by (auto simp: consume_rest assms(1) b)
  moreover note starter_not(3,4) [OF start]
  moreover have "parse_name p x (advance (length x) st) = ok (advance (length x) (jcompile (Var x) st))" for p
    using assms(3,4) by (simp add: parse_name_def emits)
  ultimately have "parse_primary p st = ok (advance (length x) (jcompile (Var x) st))" for p
    by (simp add: parse_primary_def Let_def skip_ws_starts [OF s] parse_identifier_var [OF id assms(2,1)] del: jcompile.simps)
  then show ?thesis using reads_step [of 0 NPrimary] by (simp add: parse_body_def)
qed

section \<open>The ladder of precedence\<close>

text \<open>Bytes at which the methods of a level stop.\<close>

lemma next_in_mono: "next_in bs r \<Longrightarrow> set bs \<subseteq> set cs \<Longrightarrow> next_in cs r"
  by (auto simp: next_in_def)

lemma next_in_enders: "next_in bs r \<Longrightarrow> set bs \<subseteq> set enders \<Longrightarrow> next_in enders r"
  by (rule next_in_mono)

lemma stop_reading:
  assumes "next_in bs (rest_of st)"
  shows "b \<notin> set bs \<Longrightarrow> consume b st = None"
    and "list_all (\<lambda>(s, p). s \<noteq> [] \<and> hd s \<notin> set bs) ops \<Longrightarrow> first_op ops st = None"
proof -
  have n: "rest_of st = [] \<or> (\<exists>b r. rest_of st = b # r \<and> b \<in> set bs)"
    using assms by (cases "rest_of st") (auto simp: next_in_def)
  then show "consume b st = None" if "b \<notin> set bs" using that by (auto simp: consume_rest)
  show "first_op ops st = None" if "list_all (\<lambda>(s, p). s \<noteq> [] \<and> hd s \<notin> set bs) ops"
    using that
  proof (induction ops)
    case (Cons x ops)
    obtain s p where x: "x = (s, p)" by (cases x)
    with Cons.prems have s: "s \<noteq> []" "hd s \<notin> set bs" by auto
    then have "\<not> prefix s (rest_of st)" using n by (cases s) auto
    then show ?case using Cons x by (simp add: consume_seq_def)
  qed simp
qed

lemma reads_loop_stop:
  assumes "next_in bs (rest_of st)" "set bs \<subseteq> set enders" "list_all (\<lambda>(s, p). s \<noteq> [] \<and> hd s \<notin> set bs) ops"
    and "\<And>p. parse_body p nt = op_loop ops operand nt p"
  shows "reads nt 1 st st"
proof -
  have "op_loop ops operand nt p st = ok st" for p
    using stop_reading(2) [OF assms(1,3)] skip_ws_enders [OF next_in_enders [OF assms(1,2)]]
    by (simp add: op_loop_def Let_def)
  then show ?thesis using reads_step [of 0 nt st st] assms(4) by simp
qed

lemma reads_then:
  assumes "reads a k st st1" "reads b l st1 st2" "\<And>p. parse_body p nt st = and_then (p a st) (p b)"
  shows "reads nt (Suc (max k l)) st st2"
  by (rule reads_step) (simp add: assms(3) readsD [OF assms(1)] readsD [OF assms(2)])

lemma climb_postfix:
  assumes "reads NPrimary k st st'" "next_in enders (rest_of st')"
  shows "reads NPostfix (Suc (max k 1)) st st'"
proof (rule reads_then [OF assms(1)])
  have "postfix_loop p st' = ok st'" for p
    using skip_ws_enders [OF assms(2)] stop_reading(1) [OF assms(2)] by (simp add: postfix_loop_def Let_def enders_def)
  then show "reads NPostfixLoop 1 st' st'" using reads_step [of 0 NPostfixLoop st' st'] by (simp add: parse_body_def)
qed (simp add: parse_body_def parse_postfix_def)

lemma climb_factor:
  assumes "reads NPostfix k st st'" "starts (rest_of st)"
  shows "reads NFactor (Suc k) st st'"
  by (rule reads_step)
    (simp add: parse_body_def parse_factor_def Let_def skip_ws_starts [OF assms(2)] consume_starts [OF assms(2)]
      first_op_starts [OF assms(2)] readsD [OF assms(1)])

lemma term_stop: "next_in '')?:+-<>=!&|,'' (rest_of st) \<Longrightarrow> reads NTermLoop 1 st st"
  by (rule reads_loop_stop [where ops = term_ops and operand = NFactor])
    (auto simp: enders_def term_ops_def parse_body_def fun_eq_iff)

lemma climb_term:
  assumes "reads NFactor k st st'" "next_in '')?:+-<>=!&|,'' (rest_of st')"
  shows "reads NTerm (Suc (max k 1)) st st'"
  by (rule reads_then [OF assms(1) term_stop [OF assms(2)]]) (simp add: parse_body_def parse_term_def)

lemma expr_stop:
  assumes "next_in '')?:<>=!&|,'' (rest_of st)"
  shows "reads NExprLoop 1 st st"
proof -
  have "expr_loop p st = ok st" for p
    using skip_ws_enders [OF next_in_enders [OF assms]] stop_reading(1) [OF assms]
    by (simp add: expr_loop_def Let_def enders_def)
  then show ?thesis using reads_step [of 0 NExprLoop st st] by (simp add: parse_body_def)
qed

lemma climb_expr:
  assumes "reads NTerm k st st'" "next_in '')?:<>=!&|,'' (rest_of st')"
  shows "reads NExpr (Suc (max k 1)) st st'"
  by (rule reads_then [OF assms(1) expr_stop [OF assms(2)]]) (simp add: parse_body_def parse_expr_def)

text \<open>What is not an assignment: no name in front, or behind it an operator that is none of \<open>=\<close>, \<open>+=\<close>, \<open>-=\<close>.\<close>

definition op_text :: "bytes \<Rightarrow> bool" where
  "op_text r \<longleftrightarrow>
     next_in enders r \<and> \<not> prefix ''+='' r \<and> \<not> prefix ''-='' r \<and> (prefix ''='' r \<longrightarrow> prefix ''=='' r)"

definition no_assignment :: "cst \<Rightarrow> bool" where
  "no_assignment st \<longleftrightarrow> skip_ws st = st \<and>
     (case parse_identifier st of (st', None) \<Rightarrow> True | (st', Some x) \<Rightarrow> op_text (rest_of st'))"

lemma climb_assignment:
  assumes "reads NExpr k st st'" "no_assignment st"
  shows "reads NAssignment (Suc k) st st'"
proof (rule reads_step)
  fix m assume m: "k \<le> m"
  obtain s n where p: "parse_identifier st = (s, n)" by (rule prod.exhaust)
  have ws: "skip_ws st = st" using assms(2) by (simp add: no_assignment_def)
  show "parse_body (parse m) NAssignment st = ok st'"
  proof (cases n)
    case None
    then show ?thesis using readsD [OF assms(1) m] by (simp add: parse_body_def parse_assignment_def ws p)
  next
    case (Some x)
    then have o: "op_text (rest_of s)" using assms(2) by (simp add: no_assignment_def p)
    then have "skip_ws s = s" by (intro skip_ws_enders) (simp add: op_text_def)
    moreover have "consume_seq ''+='' s = None" "consume_seq ''-='' s = None"
      using o by (simp_all add: op_text_def consume_seq_def)
    moreover have "peek s1 = Some (CHR ''='')" if "consume (CHR ''='') s = Some s1" for s1
      using that o by (auto simp: consume_rest op_text_def peek_rest split: if_splits list.split)
    ultimately show ?thesis using readsD [OF assms(1) m]
      by (simp add: parse_body_def parse_assignment_def Let_def ws p Some split: option.split)
  qed
qed

lemma climb_comparison:
  assumes "reads NAssignment k st st'" "next_in '')?:&|,'' (rest_of st')"
  shows "reads NComparison (Suc (max k 1)) st st'"
proof (rule reads_then [OF assms(1)])
  show "reads NComparisonLoop 1 st' st'"
    by (rule reads_loop_stop [OF assms(2), where ops = comparison_ops and operand = NAssignment])
      (auto simp: enders_def comparison_ops_def parse_body_def fun_eq_iff)
qed (simp add: parse_body_def parse_comparison_def)

lemma climb_and:
  assumes "reads NComparison k st st'" "next_in '')?:|,'' (rest_of st')"
  shows "reads NAnd (Suc (max k 1)) st st'"
proof (rule reads_then [OF assms(1)])
  show "reads NAndLoop 1 st' st'"
    by (rule reads_loop_stop [OF assms(2), where ops = and_ops and operand = NComparison])
      (auto simp: enders_def and_ops_def parse_body_def fun_eq_iff)
qed (simp add: parse_body_def parse_logical_and_def)

lemma climb_or:
  assumes "reads NAnd k st st'" "next_in '')?:,'' (rest_of st')"
  shows "reads NOr (Suc (max k 1)) st st'"
proof (rule reads_then [OF assms(1)])
  show "reads NOrLoop 1 st' st'"
    by (rule reads_loop_stop [OF assms(2), where ops = or_ops and operand = NAnd])
      (auto simp: enders_def or_ops_def parse_body_def fun_eq_iff)
qed (simp add: parse_body_def parse_logical_or_def)

lemma climb_conditional:
  assumes "reads NOr k st st'" "next_in ''):,'' (rest_of st')"
  shows "reads NConditional (Suc k) st st'"
proof (rule reads_step)
  fix m assume m: "k \<le> m"
  have "next_in enders (rest_of st')" by (rule next_in_enders [OF assms(2)]) (simp add: enders_def)
  then have "skip_ws st' = st'" by (rule skip_ws_enders)
  moreover have "consume (CHR ''?'') st' = None" by (rule stop_reading(1) [OF assms(2)]) simp
  ultimately show "parse_body (parse m) NConditional st = ok st'"
    using readsD [OF assms(1) m] by (simp add: parse_body_def parse_conditional_def Let_def)
qed

lemma climb_comma:
  assumes "reads NConditional k st st'" "next_in '')'' (rest_of st')"
  shows "reads NComma (Suc (max k 1)) st st'"
proof (rule reads_then [OF assms(1)])
  have "comma_loop p st' = ok st'" for p
    using stop_reading(1) [OF assms(2)] skip_ws_enders [OF next_in_enders [OF assms(2)]]
    by (simp add: comma_loop_def Let_def enders_def)
  then show "reads NCommaLoop 1 st' st'" using reads_step [of 0 NCommaLoop st' st'] by (simp add: parse_body_def)
qed (simp add: parse_body_def parse_comma_def)

section \<open>Levels above an operand\<close>

lemma up:
  assumes "1 \<le> k"
  shows "reads NFactor k st st' \<Longrightarrow> next_in '')?:+-<>=!&|,'' (rest_of st') \<Longrightarrow> reads NTerm (Suc k) st st'"
    and "reads NTerm k st st' \<Longrightarrow> next_in '')?:<>=!&|,'' (rest_of st') \<Longrightarrow> reads NExpr (Suc k) st st'"
    and "reads NAssignment k st st' \<Longrightarrow> next_in '')?:&|,'' (rest_of st') \<Longrightarrow> reads NComparison (Suc k) st st'"
    and "reads NComparison k st st' \<Longrightarrow> next_in '')?:|,'' (rest_of st') \<Longrightarrow> reads NAnd (Suc k) st st'"
    and "reads NAnd k st st' \<Longrightarrow> next_in '')?:,'' (rest_of st') \<Longrightarrow> reads NOr (Suc k) st st'"
    and "reads NConditional k st st' \<Longrightarrow> next_in '')'' (rest_of st') \<Longrightarrow> reads NComma (Suc k) st st'"
  using climb_term [of k st st'] climb_expr [of k st st'] climb_comparison [of k st st'] climb_and [of k st st']
    climb_or [of k st st'] climb_comma [of k st st'] assms by (simp_all add: max_absorb1)

text \<open>An operand at every level, as far as what follows allows.\<close>

lemma operand_levels:
  assumes p: "reads NPostfix k st st'" "starts (rest_of st)" and na: "no_assignment st" and k: "1 \<le> k"
  shows "reads NFactor (k + 1) st st'"
    and "next_in '')?:+-<>=!&|,'' (rest_of st') \<Longrightarrow> reads NTerm (k + 2) st st'"
    and "next_in '')?:<>=!&|,'' (rest_of st') \<Longrightarrow> reads NAssignment (k + 4) st st'"
    and "next_in '')?:&|,'' (rest_of st') \<Longrightarrow> reads NComparison (k + 5) st st'"
    and "next_in '')?:|,'' (rest_of st') \<Longrightarrow> reads NAnd (k + 6) st st'"
    and "next_in '')?:,'' (rest_of st') \<Longrightarrow> reads NOr (k + 7) st st'"
    and "next_in ''):,'' (rest_of st') \<Longrightarrow> reads NConditional (k + 8) st st'"
proof -
  have f: "reads NFactor (k + 1) st st'" using climb_factor [OF p] by simp
  have t: "reads NTerm (k + 2) st st'" if "next_in '')?:+-<>=!&|,'' (rest_of st')"
    using up(1) [OF _ f that] by (simp add: eval_nat_numeral)
  have a: "reads NAssignment (k + 4) st st'" if n: "next_in '')?:<>=!&|,'' (rest_of st')"
  proof -
    have "reads NExpr (k + 3) st st'" using up(2) [OF _ t n] next_in_mono [OF n] by (simp add: eval_nat_numeral)
    from climb_assignment [OF this na] show ?thesis by (simp add: eval_nat_numeral)
  qed
  have c: "reads NComparison (k + 5) st st'" if n: "next_in '')?:&|,'' (rest_of st')"
    using up(3) [OF _ a n] next_in_mono [OF n] by (simp add: eval_nat_numeral)
  have d: "reads NAnd (k + 6) st st'" if n: "next_in '')?:|,'' (rest_of st')"
    using up(4) [OF _ c n] next_in_mono [OF n] by (simp add: eval_nat_numeral)
  have e: "reads NOr (k + 7) st st'" if n: "next_in '')?:,'' (rest_of st')"
    using up(5) [OF _ d n] next_in_mono [OF n] by (simp add: eval_nat_numeral)
  show "reads NConditional (k + 8) st st'" if n: "next_in ''):,'' (rest_of st')"
    using climb_conditional [OF e n] next_in_mono [OF n] by (simp add: eval_nat_numeral)
  show "reads NFactor (k + 1) st st'" by (rule f)
  show "next_in '')?:+-<>=!&|,'' (rest_of st') \<Longrightarrow> reads NTerm (k + 2) st st'" by (rule t)
  show "next_in '')?:<>=!&|,'' (rest_of st') \<Longrightarrow> reads NAssignment (k + 4) st st'" by (rule a)
  show "next_in '')?:&|,'' (rest_of st') \<Longrightarrow> reads NComparison (k + 5) st st'" by (rule c)
  show "next_in '')?:|,'' (rest_of st') \<Longrightarrow> reads NAnd (k + 6) st st'" by (rule d)
  show "next_in '')?:,'' (rest_of st') \<Longrightarrow> reads NOr (k + 7) st st'" by (rule e)
qed

section \<open>Operators\<close>

lemma parse_identifier_none:
  assumes "rest_of st = b # t" "\<not> is_ident_start b" "\<not> source_ws b"
  shows "parse_identifier st = (st, None)"
  using assms by (simp add: parse_identifier_def Let_def skip_ws_same)

lemma no_assignment_operand:
  assumes "jexp_ok names e" "rest_of st = jprint e @ r" "op_text r"
  shows "no_assignment st"
proof -
  have s: "starts (rest_of st)" using jprint_starts [OF assms(1)] by (simp add: assms(2))
  show ?thesis
  proof (cases "\<exists>x. e = Var x")
    case True
    then obtain x where x: "e = Var x" by blast
    then have "parse_identifier st = (advance (length x) st, Some x)"
      using assms by (intro parse_identifier_var [where r = r]) (simp_all add: op_text_def)
    then show ?thesis using assms by (simp add: no_assignment_def skip_ws_starts [OF s] x)
  next
    case False
    obtain b t where b: "rest_of st = b # t" "starter b" using s by (auto simp: starts_def)
    have "\<not> is_ident_start b"
    proof (cases e)
      case (Num n)
      then have "is_digit b" using b(1) assms(2) dec_of_nat_hd [of n] dec_of_nat_nonempty [of n]
        by (cases "dec_of_nat n") (auto simp del: dec_of_nat_nonempty)
      then show ?thesis by (auto simp: is_digit_iff is_ident_start_def byte_in_def)
    qed (use b(1) assms(2) False in \<open>auto simp: is_ident_start_def byte_in_def\<close>)
    then show ?thesis using parse_identifier_none [OF b(1)] starter_not(1) [OF b(2)]
      by (simp add: no_assignment_def skip_ws_starts [OF s])
  qed
qed

lemma op_text_byte: "b \<in> set '')?:,'' \<Longrightarrow> op_text (b # r)"
  by (auto simp: op_text_def next_in_def enders_def)

lemma op_text_operator: "(s, p) \<in> set binary_ops \<Longrightarrow> starts t \<Longrightarrow> op_text (s @ t)"
  using starter_not(2)
  by (fastforce simp: binary_ops_def term_ops_def sum_ops_def comparison_ops_def and_ops_def or_ops_def starts_def op_text_def
    next_in_def enders_def)

text \<open>A step of a loop over operators.\<close>

definition finds :: "(bytes \<times> op_code) list \<Rightarrow> bytes \<Rightarrow> op_code \<Rightarrow> bool" where
  "finds ops s p \<longleftrightarrow> (\<forall>st t. rest_of st = s @ t \<longrightarrow> starts t \<longrightarrow> first_op ops st = Some (p, advance (length s) st))"

lemma starts_operator: "starts t \<Longrightarrow> b \<in> set '')?:+-*/%<>=!&|,~.[]'' \<Longrightarrow> \<not> prefix (b # u) t"
  using starter_not(2) [of b] by (cases t) (auto simp only: starts_def prefix_Cons list.inject)

lemma finds_term: "(s, p) \<in> set term_ops \<Longrightarrow> finds term_ops s p"
  by (auto simp: finds_def term_ops_def consume_seq_def)

lemma finds_comparison:
  assumes "(s, p) \<in> set comparison_ops"
  shows "finds comparison_ops s p"
  unfolding finds_def
proof (intro allI impI)
  fix st t assume r: "rest_of st = s @ t" and t: "starts t"
  have n: "\<not> prefix ''='' t" "\<not> prefix ''=='' t" by (rule starts_operator [OF t], simp)+
  show "first_op comparison_ops st = Some (p, advance (length s) st)"
    using assms unfolding comparison_ops_def list.set insert_iff prod.inject empty_iff simp_thms
    by (elim disjE conjE; simp add: r n consume_seq_def)
qed

lemma finds_logical: "(s, p) \<in> set and_ops \<Longrightarrow> finds and_ops s p" "(s, p) \<in> set or_ops \<Longrightarrow> finds or_ops s p"
  by (auto simp: finds_def and_ops_def or_ops_def consume_seq_def)

lemma finds_unary: "(s, p) \<in> set unary_ops \<Longrightarrow> finds unary_ops s p"
  by (auto simp: finds_def unary_ops_def consume_seq_def)

lemma loop_step:
  assumes "finds ops s p" "rest_of st = s @ t" "starts t" "s \<noteq> []" "hd s \<in> set enders"
    and "reads operand k (advance (length s) st) st1" "reads nt l (emit_op p st1) st2"
    and "\<And>q. parse_body q nt = op_loop ops operand nt q"
  shows "reads nt (Suc (max k l)) st st2"
proof (rule reads_step)
  fix m assume "max k l \<le> m"
  then have "parse m operand (advance (length s) st) = ok st1" "parse m nt (emit_op p st1) = ok st2"
    using readsD [OF assms(6)] readsD [OF assms(7)] by simp_all
  moreover have "skip_ws st = st" using assms(2,4,5) by (intro skip_ws_enders) (auto simp: next_in_def)
  moreover have "first_op ops st = Some (p, advance (length s) st)" using assms(1-3) by (simp add: finds_def)
  ultimately show "parse_body (parse m) nt st = ok st2" by (simp add: assms(8) op_loop_def Let_def)
qed

lemma sum_step_reads:
  assumes "(s, p) \<in> set sum_ops" "rest_of st = s @ t" "starts t"
    and "reads NTerm k (advance 1 st) st1" "reads NExprLoop l (emit_op p st1) st2"
  shows "reads NExprLoop (Suc (max k l)) st st2"
proof (rule reads_step)
  fix m assume "max k l \<le> m"
  then have m: "parse m NTerm (advance 1 st) = ok st1" "parse m NExprLoop (emit_op p st1) = ok st2"
    using readsD [OF assms(4)] readsD [OF assms(5)] by simp_all
  have "skip_ws st = st" using assms(1,2) by (intro skip_ws_enders) (auto simp: next_in_def sum_ops_def enders_def)
  moreover obtain b u where t: "t = b # u" "b \<noteq> CHR ''+''" "b \<noteq> CHR ''-''"
    using assms(3) starter_not(2) by (fastforce simp: starts_def)
  have "peek (advance 1 st) = Some b" using assms(1,2) by (auto simp: peek_rest sum_ops_def t)
  ultimately show "parse_body (parse m) NExprLoop st = ok st2"
    using assms(1,2) m t(2,3) by (auto simp: parse_body_def expr_loop_def sum_step_def Let_def sum_ops_def consume_rest)
qed

section \<open>Phrases in parentheses\<close>

lemma to_comma:
  assumes k: "1 \<le> k" and n: "next_in '')'' (rest_of st')"
  shows "reads NOr k st st' \<Longrightarrow> reads NComma (k + 2) st st'"
    and "reads NAnd k st st' \<Longrightarrow> reads NComma (k + 3) st st'"
    and "reads NComparison k st st' \<Longrightarrow> reads NComma (k + 4) st st'"
    and "reads NExpr k st st' \<Longrightarrow> no_assignment st \<Longrightarrow> reads NComma (k + 6) st st'"
    and "reads NTerm k st st' \<Longrightarrow> no_assignment st \<Longrightarrow> reads NComma (k + 7) st st'"
proof -
  note m = next_in_mono [OF n]
  have c: "reads NComma (l + 2) st st'" if "reads NOr l st st'" for l
    using up(6) [OF _ climb_conditional [OF that] n] m by (simp add: eval_nat_numeral)
  have d: "reads NComma (l + 3) st st'" if "reads NAnd l st st'" "1 \<le> l" for l
    using c [OF up(5) [OF that(2,1)]] m by (simp add: eval_nat_numeral)
  have e: "reads NComma (l + 4) st st'" if "reads NComparison l st st'" "1 \<le> l" for l
    using d [OF up(4) [OF that(2,1)]] m by (simp add: eval_nat_numeral)
  have f: "reads NComma (l + 6) st st'" if "reads NExpr l st st'" "no_assignment st" for l
    using e [OF up(3) [OF _ climb_assignment [OF that]]] m by (simp add: eval_nat_numeral)
  show "reads NOr k st st' \<Longrightarrow> reads NComma (k + 2) st st'" by (rule c)
  show "reads NAnd k st st' \<Longrightarrow> reads NComma (k + 3) st st'" by (rule d [OF _ k])
  show "reads NComparison k st st' \<Longrightarrow> reads NComma (k + 4) st st'" by (rule e [OF _ k])
  show "reads NExpr k st st' \<Longrightarrow> no_assignment st \<Longrightarrow> reads NComma (k + 6) st st'" by (rule f)
  show "reads NTerm k st st' \<Longrightarrow> no_assignment st \<Longrightarrow> reads NComma (k + 7) st st'"
    using f [OF up(2) [OF k]] m by (simp add: eval_nat_numeral)
qed

lemma loop_end:
  assumes "next_in '')'' (rest_of st)"
  shows "reads NTermLoop 1 st st" "reads NExprLoop 1 st st" "reads NComparisonLoop 1 st st"
    "reads NAndLoop 1 st st" "reads NOrLoop 1 st st"
proof -
  note m = next_in_mono [OF assms]
  show "reads NTermLoop 1 st st" by (rule term_stop) (rule m, simp)
  show "reads NExprLoop 1 st st" by (rule expr_stop) (rule m, simp)
  show "reads NComparisonLoop 1 st st"
    by (rule reads_loop_stop [OF assms, where ops = comparison_ops and operand = NAssignment])
      (auto simp: enders_def comparison_ops_def parse_body_def fun_eq_iff)
  show "reads NAndLoop 1 st st"
    by (rule reads_loop_stop [OF assms, where ops = and_ops and operand = NComparison])
      (auto simp: enders_def and_ops_def parse_body_def fun_eq_iff)
  show "reads NOrLoop 1 st st"
    by (rule reads_loop_stop [OF assms, where ops = or_ops and operand = NAnd])
      (auto simp: enders_def or_ops_def parse_body_def fun_eq_iff)
qed

lemma reads_binary:
  assumes a: "reads NPostfix k st st1" "starts (rest_of st)" "no_assignment st"
    and b: "reads NPostfix k (advance (length s) st1) st2" "starts t" "no_assignment (advance (length s) st1)"
    and op: "(s, p) \<in> set binary_ops" "rest_of st1 = s @ t"
    and n: "next_in '')'' (rest_of st2)" and k: "1 \<le> k"
  shows "reads NComma (k + 12) st (emit_op p st2)"
proof -
  let ?e = "emit_op p st2"
  have n': "next_in '')'' (rest_of ?e)" using n by simp
  note le = loop_end [OF n'] and top = to_comma [OF _ n'] and mb = next_in_mono [OF n]
  have tb: "starts (rest_of (advance (length s) st1))" using b(2) op(2) by simp
  note oa = operand_levels [OF a k] and ob = operand_levels [OF b(1) tb b(3) k]
  have r1: "next_in '')?:+-*/%<>=!&|,'' (rest_of st1)"
    using op by (auto simp: next_in_def binary_ops_def term_ops_def sum_ops_def comparison_ops_def and_ops_def or_ops_def)
  have s: "s \<noteq> []" "hd s \<in> set enders"
    using op(1) by (auto simp: binary_ops_def term_ops_def sum_ops_def comparison_ops_def and_ops_def or_ops_def enders_def)
  consider "(s, p) \<in> set term_ops" | "(s, p) \<in> set sum_ops" | "(s, p) \<in> set comparison_ops" | "(s, p) \<in> set and_ops"
    | "(s, p) \<in> set or_ops" using op(1) by (auto simp: binary_ops_def)
  then show ?thesis
  proof cases
    case 1
    have "reads NTermLoop (Suc (max (k + 1) 1)) st1 ?e"
      by (rule loop_step [OF finds_term [OF 1] op(2) b(2) s ob(1) le(1)]) (simp add: parse_body_def)
    then have "reads NTerm (Suc (max (k + 1) (Suc (max (k + 1) 1)))) st ?e"
      by (rule reads_then [OF oa(1)]) (simp add: parse_body_def parse_term_def)
    then have "reads NTerm (k + 3) st ?e" by (rule reads_more) simp
    from top(5) [OF _ this a(3)] show ?thesis by (simp add: reads_more)
  next
    case 2
    have lo: "reads NExprLoop (Suc (max (k + 2) 1)) st1 ?e"
      by (rule sum_step_reads [OF 2 op(2) b(2) _ le(2)]) (use ob(2) mb 2 in \<open>auto simp: sum_ops_def\<close>)
    have op1: "reads NTerm (k + 2) st st1"
      by (rule oa(2)) (use 2 op(2) in \<open>auto simp: next_in_def sum_ops_def\<close>)
    have "reads NExpr (Suc (max (k + 2) (Suc (max (k + 2) 1)))) st ?e"
      by (rule reads_then [OF op1 lo]) (simp add: parse_body_def parse_expr_def)
    then have "reads NExpr (k + 4) st ?e" by (rule reads_more) simp
    from top(4) [OF _ this a(3)] show ?thesis by (simp add: reads_more)
  next
    case 3
    have bb: "reads NAssignment (k + 4) (advance (length s) st1) st2" by (rule ob(3)) (rule mb, simp)
    have lo: "reads NComparisonLoop (Suc (max (k + 4) 1)) st1 ?e"
      by (rule loop_step [OF finds_comparison [OF 3] op(2) b(2) s bb le(3)]) (simp add: parse_body_def)
    have op1: "reads NAssignment (k + 4) st st1"
      by (rule oa(3)) (use 3 op(2) in \<open>auto simp: next_in_def comparison_ops_def\<close>)
    have "reads NComparison (Suc (max (k + 4) (Suc (max (k + 4) 1)))) st ?e"
      by (rule reads_then [OF op1 lo]) (simp add: parse_body_def parse_comparison_def)
    then have "reads NComparison (k + 6) st ?e" by (rule reads_more) simp
    from top(3) [OF _ this] show ?thesis by (simp add: reads_more)
  next
    case 4
    have bb: "reads NComparison (k + 5) (advance (length s) st1) st2" by (rule ob(4)) (rule mb, simp)
    have lo: "reads NAndLoop (Suc (max (k + 5) 1)) st1 ?e"
      by (rule loop_step [OF finds_logical(1) [OF 4] op(2) b(2) s bb le(4)]) (simp add: parse_body_def)
    have op1: "reads NComparison (k + 5) st st1"
      by (rule oa(4)) (use 4 op(2) in \<open>auto simp: next_in_def and_ops_def\<close>)
    have "reads NAnd (Suc (max (k + 5) (Suc (max (k + 5) 1)))) st ?e"
      by (rule reads_then [OF op1 lo]) (simp add: parse_body_def parse_logical_and_def)
    then have "reads NAnd (k + 7) st ?e" by (rule reads_more) simp
    from top(2) [OF _ this] show ?thesis by (simp add: reads_more)
  next
    case 5
    have bb: "reads NAnd (k + 6) (advance (length s) st1) st2" by (rule ob(5)) (rule mb, simp)
    have lo: "reads NOrLoop (Suc (max (k + 6) 1)) st1 ?e"
      by (rule loop_step [OF finds_logical(2) [OF 5] op(2) b(2) s bb le(5)]) (simp add: parse_body_def)
    have op1: "reads NAnd (k + 6) st st1"
      by (rule oa(5)) (use 5 op(2) in \<open>auto simp: next_in_def or_ops_def\<close>)
    have "reads NOr (Suc (max (k + 6) (Suc (max (k + 6) 1)))) st ?e"
      by (rule reads_then [OF op1 lo]) (simp add: parse_body_def parse_logical_or_def)
    then have "reads NOr (k + 8) st ?e" by (rule reads_more) simp
    from top(1) [OF _ this] show ?thesis by (simp add: reads_more)
  qed
qed

lemma reads_unary:
  assumes op: "(s, p) \<in> set unary_ops" "rest_of st = s @ t" "starts t"
    and a: "reads NPostfix k (advance 1 st) st1" and n: "next_in '')'' (rest_of st1)" and k: "1 \<le> k"
  shows "reads NComma (k + 12) st (emit_op p st1)"
proof -
  obtain b where b: "s = [b]" "b \<in> set ''-!~''" using op(1) by (auto simp: unary_ops_def)
  have ws: "skip_ws st = st" using op(2) b by (intro skip_ws_same) (auto simp: source_ws_def NEWLINE_def)
  have f: "reads NFactor (Suc k) (advance 1 st) st1" by (rule climb_factor [OF a]) (use op b in simp)
  have "reads NFactor (Suc (Suc k)) st (emit_op p st1)"
  proof (rule reads_step)
    fix m assume m: "Suc k \<le> m"
    have "first_op unary_ops st = Some (p, advance 1 st)" using finds_unary [OF op(1)] op(2,3) b by (simp add: finds_def)
    moreover have "consume (CHR ''+'') st = None" using op(2) b by (auto simp: consume_rest)
    ultimately show "parse_body (parse m) NFactor st = ok (emit_op p st1)"
      using readsD [OF f m] by (simp add: parse_body_def parse_factor_def Let_def ws)
  qed
  moreover have n': "next_in '')'' (rest_of (emit_op p st1))" using n by simp
  ultimately have "reads NTerm (k + 3) st (emit_op p st1)"
    using up(1) [of "k + 2" st "emit_op p st1"] next_in_mono [OF n'] by (simp add: eval_nat_numeral)
  moreover have "no_assignment st"
    using parse_identifier_none [of st b t] op(2) b ws
    by (auto simp: no_assignment_def is_ident_start_def byte_in_def source_ws_def NEWLINE_def)
  ultimately have "reads NComma (k + 10) st (emit_op p st1)" using to_comma(5) [of "k + 3", OF _ n'] by (simp add: eval_nat_numeral)
  then show ?thesis by (rule reads_more) simp
qed

lemma reads_conditional:
  assumes a: "reads NOr k st st1" "rest_of st1 = CHR ''?'' # t"
    and b: "reads NConditional k (emit_op JumpIfFalse (advance 1 st1)) st2" "rest_of st2 = CHR '':'' # u"
    and c: "reads NConditional k (advance 1 (patch_jump (length (code_of st1)) (emit_op Jump st2))) st3"
  shows "reads NConditional (Suc k) st (patch_jump (length (code_of st2)) st3)"
proof (rule reads_step)
  fix m assume m: "k \<le> m"
  have q: "skip_ws st1 = st1" using a(2) by (intro skip_ws_same) (auto simp: source_ws_def NEWLINE_def)
  let ?s = "patch_jump (length (code_of st1)) (emit_op Jump st2)"
  have r: "rest_of ?s = CHR '':'' # u" using b(2) by simp
  then have w: "skip_ws ?s = ?s" by (intro skip_ws_same) (auto simp: source_ws_def NEWLINE_def)
  have "consume (CHR ''?'') st1 = Some (advance 1 st1)" "consume (CHR '':'') ?s = Some (advance 1 ?s)"
    using a(2) r by (simp_all add: consume_rest)
  then show "parse_body (parse m) NConditional st = ok (patch_jump (length (code_of st2)) st3)"
    using readsD [OF a(1) m] readsD [OF b(1) m] readsD [OF c m]
    by (simp add: parse_body_def parse_conditional_def Let_def q w)
qed

lemma reads_parens:
  assumes "reads NComma k (advance 1 st) st1" "rest_of st = CHR ''('' # t" "rest_of st1 = CHR '')'' # r" "next_in enders r"
  shows "reads NPostfix (k + 2) st (advance 1 st1)"
proof -
  have ws: "skip_ws st = st" "skip_ws st1 = st1"
    using assms(2,3) by (auto intro!: skip_ws_same simp: source_ws_def NEWLINE_def)
  have "reads NPrimary (Suc k) st (advance 1 st1)"
  proof (rule reads_step)
    fix m assume m: "k \<le> m"
    have "consume (CHR ''('') st = Some (advance 1 st)" "consume (CHR '')'') st1 = Some (advance 1 st1)"
      using assms(2,3) by (simp_all add: consume_rest)
    then show "parse_body (parse m) NPrimary st = ok (advance 1 st1)"
      using readsD [OF assms(1) m] by (simp add: parse_body_def parse_primary_def expect_byte_def Let_def ws)
  qed
  from climb_postfix [OF this] show ?thesis using assms(3,4) by (simp add: eval_nat_numeral)
qed

section \<open>The parser on the text of an expression\<close>

lemma emit_locals [simp]:
  "locals_of (emit_op p st) = locals_of st" "locals_of (emit_inst p i st) = locals_of st"
  "locals_of (emit_const x st) = locals_of st" "locals_of (advance n st) = locals_of st"
  by (simp_all add: emit_op_def emit_inst_def emit_const_def emit_pooled_def add_number_const_def pooled_def
    split: prod.splits option.splits)

lemma jcompile_locals [simp]: "locals_of (jcompile e st) = locals_of st"
  by (induction e arbitrary: st) (simp_all add: conditional_code_def Let_def split: option.split)

lemma jprint_length: "jexp_ok names e \<Longrightarrow> 1 \<le> length (jprint e)"
  using jprint_starts [of names e "[]"] by (cases "jprint e") (auto simp: starts_def)

text \<open>The parser reads the text of an expression, whatever follows it, and emits its code.\<close>

abbreviation operand_read :: "bytes list \<Rightarrow> jexp \<Rightarrow> bool" where
  "operand_read names e \<equiv>
     (\<forall>st r. rest_of st = jprint e @ r \<longrightarrow> locals_of st = names \<longrightarrow> op_text r \<longrightarrow>
        reads NPostfix (20 * length (jprint e)) st (advance (length (jprint e)) (jcompile e st)))"

lemma op_text_next: "op_text r \<Longrightarrow> next_in enders r"
  by (simp add: op_text_def)

lemma paren_text: "next_in '')'' (CHR '')'' # r)" "op_text (CHR '')'' # r)"
  by (simp_all add: next_in_def op_text_def enders_def)

lemma operand_binary:
  assumes a: "operand_read names a" "jexp_ok names a" and b: "operand_read names b" "jexp_ok names b"
    and op: "(s, p) \<in> set binary_ops"
  shows "operand_read names (Bin s p a b)"
proof (intro allI impI)
  fix st r
  assume r: "rest_of st = jprint (Bin s p a b) @ r" and l: "locals_of st = names" and o: "op_text r"
  let ?k = "20 * (length (jprint a) + length (jprint b))"
  define st0 where "st0 = advance 1 st"
  define st1 where "st1 = advance (length (jprint a)) (jcompile a st0)"
  define st2 where "st2 = advance (length (jprint b)) (jcompile b (advance (length s) st1))"
  have r0: "rest_of st0 = jprint a @ s @ jprint b @ CHR '')'' # r" using r by (simp add: st0_def)
  have r1: "rest_of st1 = s @ jprint b @ CHR '')'' # r" by (simp add: st1_def r0)
  have r2: "rest_of st2 = CHR '')'' # r" by (simp add: st2_def r1)
  have l0: "locals_of st0 = names" "locals_of (advance (length s) st1) = names" by (simp_all add: st0_def st1_def l)
  have o0: "op_text (s @ jprint b @ CHR '')'' # r)" by (rule op_text_operator [OF op jprint_starts [OF b(2)]])
  have A: "reads NPostfix (20 * length (jprint a)) st0 st1" using a(1) r0 l0(1) o0 by (simp add: st1_def)
  have B: "reads NPostfix (20 * length (jprint b)) (advance (length s) st1) st2"
    using b(1) r1 l0(2) paren_text(2) by (simp add: st2_def)
  have "reads NComma (?k + 12) st0 (emit_op p st2)"
  proof (rule reads_binary [OF _ _ _ _ _ _ op r1])
    show "reads NPostfix ?k st0 st1" by (rule reads_more [OF A]) simp
    show "reads NPostfix ?k (advance (length s) st1) st2" by (rule reads_more [OF B]) simp
    show "starts (rest_of st0)" unfolding r0 by (rule jprint_starts [OF a(2)])
    show "no_assignment st0" by (rule no_assignment_operand [OF a(2) r0 o0])
    show "no_assignment (advance (length s) st1)"
      by (rule no_assignment_operand [OF b(2) _ paren_text(2)]) (simp add: r1)
    show "1 \<le> ?k" using jprint_length [OF a(2)] by simp
  qed (simp_all add: r2 paren_text jprint_starts [OF b(2)])
  then have "reads NPostfix (?k + 14) st (advance 1 (emit_op p st2))"
    using reads_parens [of "?k + 12" st "emit_op p st2"] r r2 op_text_next [OF o] by (simp add: st0_def eval_nat_numeral)
  moreover have "advance 1 (emit_op p st2) = advance (length (jprint (Bin s p a b))) (jcompile (Bin s p a b) st)"
    by (simp add: st2_def st1_def st0_def emits ac_simps)
  moreover have "?k + 14 \<le> 20 * length (jprint (Bin s p a b))" by simp
  ultimately show "reads NPostfix (20 * length (jprint (Bin s p a b))) st
      (advance (length (jprint (Bin s p a b))) (jcompile (Bin s p a b) st))" by (metis reads_more)
qed

lemma operand_unary:
  assumes a: "operand_read names a" "jexp_ok names a" and op: "(s, p) \<in> set unary_ops"
  shows "operand_read names (Una s p a)"
proof (intro allI impI)
  fix st r
  assume r: "rest_of st = jprint (Una s p a) @ r" and l: "locals_of st = names" and o: "op_text r"
  let ?k = "20 * length (jprint a)"
  have s: "length s = 1" using op by (auto simp: unary_ops_def)
  define st0 where "st0 = advance 1 st"
  define st1 where "st1 = advance (length (jprint a)) (jcompile a (advance 1 st0))"
  have r0: "rest_of st0 = s @ jprint a @ CHR '')'' # r" using r by (simp add: st0_def)
  have r1: "rest_of st1 = CHR '')'' # r" by (simp add: st1_def r0 s)
  have A: "reads NPostfix ?k (advance 1 st0) st1"
    using a(1) r0 l paren_text(2) s by (simp add: st1_def st0_def)
  have "reads NComma (?k + 12) st0 (emit_op p st1)"
    by (rule reads_unary [OF op r0 jprint_starts [OF a(2)] A]) (use jprint_length [OF a(2)] in \<open>simp_all add: r1 paren_text\<close>)
  then have "reads NPostfix (?k + 14) st (advance 1 (emit_op p st1))"
    using reads_parens [of "?k + 12" st "emit_op p st1"] r r1 op_text_next [OF o] by (simp add: st0_def eval_nat_numeral)
  moreover have "advance 1 (emit_op p st1) = advance (length (jprint (Una s p a))) (jcompile (Una s p a) st)"
    by (simp add: st1_def st0_def emits ac_simps s)
  moreover have "?k + 14 \<le> 20 * length (jprint (Una s p a))" by simp
  ultimately show "reads NPostfix (20 * length (jprint (Una s p a))) st
      (advance (length (jprint (Una s p a))) (jcompile (Una s p a) st))" by (metis reads_more)
qed

lemma operand_conditional:
  assumes a: "operand_read names a" "jexp_ok names a" and b: "operand_read names b" "jexp_ok names b"
    and c: "operand_read names c" "jexp_ok names c"
  shows "operand_read names (Cond a b c)"
proof (intro allI impI)
  fix st r
  assume r: "rest_of st = jprint (Cond a b c) @ r" and l: "locals_of st = names" and o: "op_text r"
  let ?k = "20 * (length (jprint a) + length (jprint b) + length (jprint c))"
  define st0 where "st0 = advance 1 st"
  define st1 where "st1 = advance (length (jprint a)) (jcompile a st0)"
  define sb where "sb = emit_op JumpIfFalse (advance 1 st1)"
  define st2 where "st2 = advance (length (jprint b)) (jcompile b sb)"
  define sc where "sc = advance 1 (patch_jump (length (code_of st1)) (emit_op Jump st2))"
  define st3 where "st3 = advance (length (jprint c)) (jcompile c sc)"
  let ?e = "patch_jump (length (code_of st2)) st3"
  have r0: "rest_of st0 = jprint a @ CHR ''?'' # jprint b @ CHR '':'' # jprint c @ CHR '')'' # r" using r by (simp add: st0_def)
  have r1: "rest_of st1 = CHR ''?'' # jprint b @ CHR '':'' # jprint c @ CHR '')'' # r" by (simp add: st1_def r0)
  have rb: "rest_of sb = jprint b @ CHR '':'' # jprint c @ CHR '')'' # r" by (simp add: sb_def r1)
  have r2: "rest_of st2 = CHR '':'' # jprint c @ CHR '')'' # r" by (simp add: st2_def rb)
  have rc: "rest_of sc = jprint c @ CHR '')'' # r" by (simp add: sc_def r2)
  have r3: "rest_of ?e = CHR '')'' # r" by (simp add: st3_def rc)
  have l: "locals_of st0 = names" "locals_of sb = names" "locals_of sc = names"
    by (simp_all add: sc_def st2_def sb_def st1_def st0_def l)
  have o: "op_text (CHR ''?'' # t)" "op_text (CHR '':'' # t)" "next_in enders r" for t
    using op_text_next [OF o] by (simp_all add: op_text_byte)
  have A: "reads NPostfix ?k st0 st1"
    by (rule reads_more [of _ "20 * length (jprint a)"]) (use a(1) r0 l(1) o(1) in \<open>simp_all add: st1_def\<close>)
  have B: "reads NPostfix ?k sb st2"
    by (rule reads_more [of _ "20 * length (jprint b)"]) (use b(1) rb l(2) o(2) in \<open>simp_all add: st2_def\<close>)
  have C: "reads NPostfix ?k sc st3"
    by (rule reads_more [of _ "20 * length (jprint c)"]) (use c(1) rc l(3) paren_text(2) in \<open>simp_all add: st3_def\<close>)
  have k: "1 \<le> ?k" using jprint_length [OF a(2)] by simp
  have sa: "starts (rest_of st0)" "starts (rest_of sb)" "starts (rest_of sc)"
    unfolding r0 rb rc using jprint_starts a(2) b(2) c(2) by blast+
  have na: "no_assignment st0" "no_assignment sb" "no_assignment sc"
    by (rule no_assignment_operand [OF a(2) r0 o(1)] no_assignment_operand [OF b(2) rb o(2)]
      no_assignment_operand [OF c(2) rc paren_text(2)])+
  have "reads NOr (?k + 7) st0 st1"
    by (rule operand_levels(6) [OF A sa(1) na(1) k]) (simp add: r1 next_in_def)
  then have A8: "reads NOr (?k + 8) st0 st1" by (rule reads_more) simp
  have B8: "reads NConditional (?k + 8) sb st2"
    by (rule operand_levels(7) [OF B sa(2) na(2) k]) (simp add: r2 next_in_def)
  have C8: "reads NConditional (?k + 8) sc st3"
    by (rule operand_levels(7) [OF C sa(3) na(3) k]) (use r3 in \<open>simp add: next_in_def\<close>)
  have "reads NConditional (Suc (?k + 8)) st0 ?e"
    by (rule reads_conditional [OF A8 r1 _ r2]) (use B8 C8 in \<open>simp_all only: sb_def sc_def\<close>)
  then have "reads NComma (?k + 10) st0 ?e"
    using up(6) [of "Suc (?k + 8)" st0 ?e] r3 by (simp add: paren_text eval_nat_numeral)
  then have "reads NPostfix (?k + 12) st (advance 1 ?e)"
    using reads_parens [of "?k + 10" st ?e] r r3 o(3) by (simp add: st0_def eval_nat_numeral)
  moreover have "advance 1 ?e = advance (length (jprint (Cond a b c))) (jcompile (Cond a b c) st)"
    by (simp add: st3_def sc_def st2_def sb_def st1_def st0_def emits ac_simps conditional_code_def Let_def)
  moreover have "?k + 12 \<le> 20 * length (jprint (Cond a b c))" by simp
  ultimately show "reads NPostfix (20 * length (jprint (Cond a b c))) st
      (advance (length (jprint (Cond a b c))) (jcompile (Cond a b c) st))" by (metis reads_more)
qed

lemma primary_operand:
  assumes "reads NPrimary 1 st (advance (length (jprint e)) (jcompile e st))" "rest_of st = jprint e @ r" "op_text r"
    and "jexp_ok names e"
  shows "reads NPostfix (20 * length (jprint e)) st (advance (length (jprint e)) (jcompile e st))"
proof -
  have "next_in enders (rest_of (advance (length (jprint e)) (jcompile e st)))"
    using op_text_next [OF assms(3)] by (simp add: assms(2))
  from climb_postfix [OF assms(1) this] show ?thesis
    by (rule reads_more) (use jprint_length [OF assms(4)] in simp)
qed

lemma operands_read: "jexp_ok names e \<Longrightarrow> operand_read names e"
proof (induction e)
  case (Num n)
  show ?case
  proof (intro allI impI)
    fix st r assume r: "rest_of st = jprint (Num n) @ r" and o: "op_text r"
    then have "reads NPrimary 1 st (advance (length (dec_of_nat n)) (jcompile (Num n) st))"
      by (intro reads_number [OF _ op_text_next]) simp_all
    then show "reads NPostfix (20 * length (jprint (Num n))) st (advance (length (jprint (Num n))) (jcompile (Num n) st))"
      by (intro primary_operand [OF _ r o Num]) simp
  qed
next
  case (Var x)
  show ?case
  proof (intro allI impI)
    fix st r assume r: "rest_of st = jprint (Var x) @ r" and l: "locals_of st = names" and o: "op_text r"
    obtain slot where "find_local x st = Some slot"
      using Var l position_None_iff [of "\<lambda>n. n = x" names] by (cases "find_local x st") (auto simp: find_local_def)
    then have "reads NPrimary 1 st (advance (length x) (jcompile (Var x) st))"
      using r o by (intro reads_variable [OF _ op_text_next Var]) simp_all
    then show "reads NPostfix (20 * length (jprint (Var x))) st (advance (length (jprint (Var x))) (jcompile (Var x) st))"
      by (intro primary_operand [OF _ r o Var]) (simp del: jcompile.simps)
  qed
qed (simp_all del: jprint.simps jcompile.simps add: operand_unary operand_binary operand_conditional)

text \<open>A \<open>return\<close> statement of an expression.\<close>

lemma compile_full_expr_text:
  assumes "jexp_ok (locals_of st) e"
  shows "\<exists>st'. compile_full_expr (jprint e) st = ok st' \<and> cs_func st' = cs_func (jcompile e (at_source (jprint e) st)) \<and>
    cs_ctx st' = cs_ctx (jcompile e (at_source (jprint e) st))"
proof -
  let ?s = "at_source (jprint e) st"
  let ?t = "advance (length (jprint e)) (jcompile e ?s)"
  have r: "rest_of ?s = jprint e @ []" by (simp add: rest_of_def at_source_def)
  have o: "op_text []" by (simp add: op_text_def next_in_def)
  have k: "1 \<le> 20 * length (jprint e)" using jprint_length [OF assms] by simp
  have "locals_of ?s = locals_of st" by (simp add: at_source_def)
  then have p: "reads NPostfix (20 * length (jprint e)) ?s ?t" using operands_read [OF assms] r o by blast
  have rt: "rest_of ?t = []" by (simp add: r)
  have "starts (rest_of ?s)" unfolding r by (rule jprint_starts [OF assms])
  from operand_levels(7) [OF p this no_assignment_operand [OF assms r o] k] rt
  have "reads NConditional (20 * length (jprint e) + 8) ?s ?t" by (simp add: next_in_def)
  then have "reads NComma (20 * length (jprint e) + 9) ?s ?t"
    using up(6) [of "20 * length (jprint e) + 8" ?s ?t] rt by (simp add: next_in_def eval_nat_numeral)
  then have "parse (parse_fuel (jprint e)) NComma ?s = ok ?t" by (rule readsD) (simp add: parse_fuel_def)
  moreover have "skip_ws ?t = ?t" using rt by (intro skip_ws_same) simp
  moreover have "cs_pos ?t = length (cs_input ?t)" by (simp add: advance_def emits at_source_def)
  ultimately have "compile_full_expr (jprint e) st = ok ?t" by (simp add: compile_full_expr_def Let_def)
  then show ?thesis by (intro exI [of _ ?t]) (simp add: advance_def)
qed

end
