(* ===== verification/Expr_Runs.thy ===== *)
theory Expr_Runs
  imports Expr_Source
begin

text \<open>
  Compiled expressions run as they evaluate: the code that the compiler emits for the text of an expression pushes
  the value of the direct evaluator, with the same heap, or stops with the same error.
\<close>

section \<open>Runs\<close>

text \<open>After a number of steps that does not depend on the fuel left, the machine is in a state, or has stopped.\<close>

definition runs :: "engine \<Rightarrow> bytecode_function \<Rightarrow> js_value \<Rightarrow> vm \<Rightarrow> vm_step \<Rightarrow> bool" where
  "runs en f g vm out \<longleftrightarrow>
     (\<exists>k. \<forall>m. vm_run en f g (k + m) vm = (case out of Goto vm' \<Rightarrow> vm_run en f g m vm' | Exit e c \<Rightarrow> Some (e, c)))"

lemma runs_refl: "runs en f g vm (Goto vm)"
  unfolding runs_def by (rule exI [of _ 0]) simp

lemma runs_trans:
  assumes "runs en f g vm (Goto vm')" "runs en f g vm' out"
  shows "runs en f g vm out"
proof -
  obtain k l where "\<And>m. vm_run en f g (k + m) vm = vm_run en f g m vm'"
    "\<And>m. vm_run en f g (l + m) vm' = (case out of Goto vm \<Rightarrow> vm_run en f g m vm | Exit e c \<Rightarrow> Some (e, c))"
    using assms by (auto simp: runs_def)
  then have "vm_run en f g (k + l + m) vm = (case out of Goto vm \<Rightarrow> vm_run en f g m vm | Exit e c \<Rightarrow> Some (e, c))" for m
    by (simp add: add.assoc)
  then show ?thesis unfolding runs_def by blast
qed

definition code_at :: "bytecode_function \<Rightarrow> nat \<Rightarrow> instruction list \<Rightarrow> bool" where
  "code_at f base new \<longleftrightarrow> prefix new (drop base (bf_code f))"

lemma code_at_append: "code_at f base (a @ b) \<longleftrightarrow> code_at f base a \<and> code_at f (base + length a) b"
proof -
  have d: "drop (base + length a) (bf_code f) = drop (length a) (drop base (bf_code f))" by (simp add: add.commute)
  show ?thesis unfolding code_at_def prefix_def d by (auto simp del: drop_drop)
qed

lemma code_at_one: "code_at f base [i] \<Longrightarrow> base < length (bf_code f) \<and> bf_code f ! base = i"
proof -
  assume "code_at f base [i]"
  then obtain r where "drop base (bf_code f) = i # r" by (auto simp: code_at_def prefix_def)
  then show ?thesis by (metis drop_eq_Nil2 hd_drop_conv_nth leI list.discI list.sel(1))
qed

lemma runs_step:
  assumes "code_at f (v_pc vm) [i]"
  shows "runs en f g vm (vm_exec en (bf_constants f) g i vm)"
proof -
  have "vm_run en f g (1 + m) vm =
    (case vm_exec en (bf_constants f) g i vm of Goto vm \<Rightarrow> vm_run en f g m vm | Exit e c \<Rightarrow> Some (e, c))" for m
    using code_at_one [OF assms] by (simp add: vm_step1_def)
  then show ?thesis unfolding runs_def by blast
qed

text \<open>From the position \<open>base\<close>, the next \<open>n\<close> instructions push what \<open>ev\<close> gives.\<close>

definition after :: "nat \<Rightarrow> vm \<Rightarrow> vm_value \<Rightarrow> vm_step" where
  "after pc vm r =
     (case r of
        Value v c \<Rightarrow> Goto (vm\<lparr>v_pc := pc, v_stack := v # v_stack vm, v_ctx := c\<rparr>)
      | Stop e c \<Rightarrow> Exit e c)"

definition computes ::
  "engine \<Rightarrow> bytecode_function \<Rightarrow> js_value \<Rightarrow> js_value list \<Rightarrow> nat \<Rightarrow> nat \<Rightarrow> (js_ctx \<Rightarrow> vm_value) \<Rightarrow> bool" where
  "computes en f g ls base n ev \<longleftrightarrow>
     (\<forall>vm. v_pc vm = base \<longrightarrow> v_locals vm = ls \<longrightarrow> runs en f g vm (after (base + n) vm (ev (v_ctx vm))))"

lemma computesI:
  "(\<And>vm. v_pc vm = base \<Longrightarrow> v_locals vm = ls \<Longrightarrow> runs en f g vm (after (base + n) vm (ev (v_ctx vm)))) \<Longrightarrow>
    computes en f g ls base n ev"
  by (simp add: computes_def)

lemma computesD:
  "computes en f g ls base n ev \<Longrightarrow> v_pc vm = base \<Longrightarrow> v_locals vm = ls \<Longrightarrow>
    runs en f g vm (after (base + n) vm (ev (v_ctx vm)))"
  by (simp add: computes_def)

lemma deliver_after: "deliver r vm = after (v_pc vm + 1) vm r"
  by (simp add: deliver_def after_def next_pc_def push_def split: vm_value.split)

lemma computes_one:
  assumes "code_at f base [i]"
    and "\<And>vm. v_pc vm = base \<Longrightarrow> v_locals vm = ls \<Longrightarrow> vm_exec en (bf_constants f) g i vm = deliver (ev (v_ctx vm)) vm"
  shows "computes en f g ls base 1 ev"
proof (rule computesI)
  fix vm :: vm assume v: "v_pc vm = base" "v_locals vm = ls"
  show "runs en f g vm (after (base + 1) vm (ev (v_ctx vm)))"
    using runs_step [of f vm i en g] assms(1) assms(2) [OF v] v by (simp add: deliver_after)
qed

text \<open>A piece, then steps that take its value from the stack.\<close>

lemma computes_then:
  assumes "computes en f g ls base n ev"
    and "\<And>v vm. v_pc vm = base + n \<Longrightarrow> v_locals vm = ls \<Longrightarrow>
      runs en f g (vm\<lparr>v_stack := v # v_stack vm\<rparr>) (after (base + n') vm (ev' v (v_ctx vm)))"
  shows "computes en f g ls base n' (\<lambda>c. vm_bind (ev c) ev')"
proof (rule computesI)
  fix vm :: vm assume v: "v_pc vm = base" "v_locals vm = ls"
  have r: "runs en f g vm (after (base + n) vm (ev (v_ctx vm)))" using computesD [OF assms(1) v] .
  show "runs en f g vm (after (base + n') vm (vm_bind (ev (v_ctx vm)) ev'))"
  proof (cases "ev (v_ctx vm)")
    case (Value x c)
    let ?vm = "vm\<lparr>v_pc := base + n, v_ctx := c\<rparr>"
    have e: "vm\<lparr>v_pc := base + n, v_stack := x # v_stack vm, v_ctx := c\<rparr> = ?vm\<lparr>v_stack := x # v_stack ?vm\<rparr>" by simp
    have "runs en f g vm (Goto (?vm\<lparr>v_stack := x # v_stack ?vm\<rparr>))"
      unfolding e [symmetric] using r Value by (simp add: after_def)
    moreover have "runs en f g (?vm\<lparr>v_stack := x # v_stack ?vm\<rparr>) (after (base + n') ?vm (ev' x c))"
      using assms(2) [of ?vm x] v(2) by simp
    moreover have "after (base + n') ?vm (ev' x c) = after (base + n') vm (ev' x c)"
      by (simp add: after_def split: vm_value.split)
    ultimately show ?thesis using Value runs_trans by (fastforce simp: vm_bind_def)
  next
    case (Stop e c)
    then show ?thesis using r by (simp add: vm_bind_def after_def)
  qed
qed

section \<open>Operators\<close>

lemma exec_unary:
  assumes "(s, p) \<in> set unary_ops"
  shows "vm_exec en consts g (instr p a) vm = unary_step (apply_unary en p) vm"
  using assms by (auto simp: unary_ops_def vm_exec_def apply_unary_def fun_eq_iff unary_step_def)

lemma exec_binary:
  assumes "(s, p) \<in> set binary_ops"
  shows "vm_exec en consts g (instr p a) vm = binary_step (apply_binary en p) vm"
  using assms
  by (auto simp: binary_ops_def term_ops_def sum_ops_def comparison_ops_def and_ops_def or_ops_def vm_exec_def apply_binary_def)

lemma computes_unary:
  assumes "computes en f g ls base n ev" "code_at f (base + n) [instr p a]" "(s, p) \<in> set unary_ops"
  shows "computes en f g ls base (n + 1) (\<lambda>c. vm_bind (ev c) (apply_unary en p))"
proof (rule computes_then [OF assms(1)])
  fix v and vm :: vm assume v: "v_pc vm = base + n" "v_locals vm = ls"
  let ?vm = "vm\<lparr>v_stack := v # v_stack vm\<rparr>"
  have "vm_exec en (bf_constants f) g (instr p a) ?vm = after (base + (n + 1)) vm (apply_unary en p v (v_ctx vm))"
    using v by (simp add: exec_unary [OF assms(3)] unary_step_def pop1_def deliver_after)
  then show "runs en f g ?vm (after (base + (n + 1)) vm (apply_unary en p v (v_ctx vm)))"
    using runs_step [of f ?vm "instr p a" en g] assms(2) v by simp
qed

lemma computes_binary:
  assumes "computes en f g ls base n ev" "computes en f g ls (base + n) n' ev'"
    and "code_at f (base + n + n') [instr p a]" "(s, p) \<in> set binary_ops"
  shows "computes en f g ls base (n + n' + 1)
    (\<lambda>c. vm_bind (ev c) (\<lambda>x c. vm_bind (ev' c) (\<lambda>y c. apply_binary en p x y c)))"
proof (rule computes_then [OF assms(1)])
  fix v and vm :: vm assume v: "v_pc vm = base + n" "v_locals vm = ls"
  let ?vm = "vm\<lparr>v_stack := v # v_stack vm\<rparr>"
  have r: "runs en f g ?vm (after (base + n + n') ?vm (ev' (v_ctx vm)))"
    using computesD [OF assms(2), of ?vm] v by simp
  show "runs en f g ?vm (after (base + (n + n' + 1)) vm (vm_bind (ev' (v_ctx vm)) (apply_binary en p v)))"
  proof (cases "ev' (v_ctx vm)")
    case (Value y c)
    let ?w = "vm\<lparr>v_pc := base + n + n', v_stack := y # v # v_stack vm, v_ctx := c\<rparr>"
    have "runs en f g ?vm (Goto ?w)" using r Value by (simp add: after_def)
    moreover have "vm_exec en (bf_constants f) g (instr p a) ?w =
        after (base + (n + n' + 1)) vm (apply_binary en p v y c)"
      by (simp add: exec_binary [OF assms(4)] binary_step_def pop1_def deliver_after after_def add.assoc split: vm_value.split)
    then have "runs en f g ?w (after (base + (n + n' + 1)) vm (apply_binary en p v y c))"
      using runs_step [of f ?w "instr p a" en g] assms(3) by simp
    ultimately show ?thesis using Value runs_trans by (fastforce simp: vm_bind_def)
  next
    case (Stop e c)
    then show ?thesis using r by (simp add: vm_bind_def after_def)
  qed
qed

lemma computes_conditional:
  assumes a: "computes en f g ls base n ev" and b: "computes en f g ls (base + n + 1) k evb"
    and c: "computes en f g ls (base + n + 1 + k + 1) l evc"
    and j: "code_at f (base + n) [instr JumpIfFalse t]" "unat t = base + n + 1 + k + 1"
    and jj: "code_at f (base + n + 1 + k) [instr Jump u]" "unat u = base + n + 1 + k + 1 + l"
  shows "computes en f g ls base (n + 1 + k + 1 + l) (\<lambda>c. vm_bind (ev c) (\<lambda>x c. if is_truthy c x then evb c else evc c))"
proof (rule computes_then [OF a])
  fix v and vm :: vm assume v: "v_pc vm = base + n" "v_locals vm = ls"
  let ?vm = "vm\<lparr>v_stack := v # v_stack vm\<rparr>" and ?pc = "base + (n + 1 + k + 1 + l)"
  have s: "runs en f g ?vm (jump_when False (unat t) ?vm)"
    using runs_step [of f ?vm "instr JumpIfFalse t" en g] j(1) v by (simp add: vm_exec_def)
  show "runs en f g ?vm (after ?pc vm (if is_truthy (v_ctx vm) v then evb (v_ctx vm) else evc (v_ctx vm)))"
  proof (cases "is_truthy (v_ctx vm) v")
    case True
    let ?w = "vm\<lparr>v_pc := base + n + 1\<rparr>"
    have "runs en f g ?vm (Goto ?w)" using s True v by (simp add: jump_when_def pop1_def next_pc_def)
    moreover have r: "runs en f g ?w (after (base + n + 1 + k) ?w (evb (v_ctx vm)))" using computesD [OF b, of ?w] v(2) by simp
    moreover have "runs en f g ?w (after ?pc vm (evb (v_ctx vm)))"
    proof (cases "evb (v_ctx vm)")
      case (Value y c)
      let ?x = "vm\<lparr>v_pc := base + n + 1 + k, v_stack := y # v_stack vm, v_ctx := c\<rparr>"
      have x: "runs en f g ?w (Goto ?x)" using r Value by (simp add: after_def)
      have "runs en f g ?x (Goto (?x\<lparr>v_pc := unat u\<rparr>))"
        using runs_step [of f ?x "instr Jump u" en g] jj(1) by (simp add: vm_exec_def)
      from runs_trans [OF x this] have "runs en f g ?w (Goto (?x\<lparr>v_pc := unat u\<rparr>))" .
      moreover have "?x\<lparr>v_pc := unat u\<rparr> = vm\<lparr>v_pc := ?pc, v_stack := y # v_stack vm, v_ctx := c\<rparr>" by (simp add: jj(2))
      ultimately show ?thesis by (simp only: Value after_def vm_value.case)
    next
      case (Stop e c)
      then show ?thesis using r by (simp add: after_def)
    qed
    ultimately show ?thesis using True runs_trans by fastforce
  next
    case False
    let ?w = "vm\<lparr>v_pc := base + n + 1 + k + 1\<rparr>"
    have "runs en f g ?vm (Goto ?w)" using s False j(2) by (simp add: jump_when_def pop1_def)
    moreover have "runs en f g ?w (after (base + n + 1 + k + 1 + l) ?w (evc (v_ctx vm)))" using computesD [OF c, of ?w] v(2) by simp
    then have "runs en f g ?w (after ?pc vm (evc (v_ctx vm)))" by (simp add: after_def add.assoc split: vm_value.splits)
    ultimately show ?thesis using False runs_trans by fastforce
  qed
qed

section \<open>The code of an expression\<close>

definition param_env :: "bytes list \<Rightarrow> js_value list \<Rightarrow> bytes \<Rightarrow> js_value" where
  "param_env names ls x =
     (case position (\<lambda>n. n = x) names of Some i \<Rightarrow> if i < length ls then ls ! i else JS_UNDEFINED | None \<Rightarrow> JS_UNDEFINED)"

definition implements :: "cst \<Rightarrow> cst \<Rightarrow> jexp \<Rightarrow> bool" where
  "implements st st' e \<longleftrightarrow>
     (\<exists>new. extends st st' new \<and>
        (\<forall>en f g ls. code_at f (length (code_of st)) new \<longrightarrow> prefix (consts_of st') (bf_constants f) \<longrightarrow>
           computes en f g ls (length (code_of st)) (length new) (jeval en (param_env (locals_of st) ls) e)))"

lemma implements_one:
  assumes "extends st st' [i]"
    and "\<And>en (f :: bytecode_function) g ls vm. prefix (consts_of st') (bf_constants f) \<Longrightarrow> v_locals vm = ls \<Longrightarrow>
      vm_exec en (bf_constants f) g i vm = deliver (jeval en (param_env (locals_of st) ls) e (v_ctx vm)) vm"
  shows "implements st st' e"
  unfolding implements_def
proof (intro exI [of _ "[i]"] conjI assms(1) allI impI)
  fix en f g ls
  assume c: "code_at f (length (code_of st)) [i]" and p: "prefix (consts_of st') (bf_constants f)"
  have "computes en f g ls (length (code_of st)) 1 (jeval en (param_env (locals_of st) ls) e)"
    by (rule computes_one [OF c]) (rule assms(2) [OF p])
  then show "computes en f g ls (length (code_of st)) (length [i]) (jeval en (param_env (locals_of st) ls) e)" by simp
qed

lemma jeval_fun:
  "jeval en env (Una s p a) = (\<lambda>c. vm_bind (jeval en env a c) (apply_unary en p))"
  "jeval en env (Bin s p a b) =
    (\<lambda>c. vm_bind (jeval en env a c) (\<lambda>x c. vm_bind (jeval en env b c) (\<lambda>y c. apply_binary en p x y c)))"
  "jeval en env (Cond a b d) =
    (\<lambda>c. vm_bind (jeval en env a c) (\<lambda>x c. if is_truthy c x then jeval en env b c else jeval en env d c))"
  by (rule ext, simp)+

lemma number_constant:
  assumes "n < 2 ^ 31"
  obtains i where "extends st (emit_const (f64_of_int (int n)) st) [instr Const (of_nat i)]"
    "i < length (consts_of (emit_const (f64_of_int (int n)) st))"
    "consts_of (emit_const (f64_of_int (int n)) st) ! i = int_value (int n)"
proof -
  have "in_i32 (int n)" using assms by (simp add: in_i32_def i32_min_def i32_max_def)
  note v = number_to_value_int [OF this, of "cs_ctx st"]
  show thesis
  proof (cases "position (\<lambda>w. w = int_value (int n)) (consts_of st)")
    case None
    then show ?thesis
      by (intro that [of "length (consts_of st)"])
        (simp_all add: emit_const_def add_number_const_def v pooled_def emit_pooled_def emit_inst_def extends_def)
  next
    case (Some i)
    then show ?thesis using position_SomeD [OF Some]
      by (intro that [of i]) (simp_all add: emit_const_def add_number_const_def v pooled_def emit_pooled_def emit_inst_def extends_def)
  qed
qed

lemma prefix_nth: "prefix xs ys \<Longrightarrow> i < length xs \<Longrightarrow> i < length ys \<and> ys ! i = xs ! i"
  by (auto simp: prefix_def nth_append)

lemma implements_number:
  assumes "n < 2 ^ 31" "fits (jcompile (Num n) st)"
  shows "implements st (jcompile (Num n) st) (Num n)"
proof -
  define s1 where "s1 = jcompile (Num n) st"
  obtain i where i: "extends st s1 [instr Const (of_nat i)]" "i < length (consts_of s1)"
    "consts_of s1 ! i = int_value (int n)"
    using number_constant [OF assms(1), of st] unfolding s1_def jcompile.simps by blast
  have "length (consts_of s1) < 2 ^ 32" using assms(2) unfolding s1_def by (simp only: fits_def)
  then have u: "unat (of_nat i :: u32) = i" using i(2) by (intro unat_of_nat_fits) simp
  show ?thesis unfolding s1_def [symmetric]
  proof (rule implements_one [OF i(1)])
    fix en g ls and f :: bytecode_function and vm :: vm
    assume "prefix (consts_of s1) (bf_constants f)"
    from prefix_nth [OF this i(2)] i(3)
    show "vm_exec en (bf_constants f) g (instr Const (of_nat i)) vm =
        deliver (jeval en (param_env (locals_of st) ls) (Num n) (v_ctx vm)) vm"
      by (simp add: vm_exec_def u deliver_def Let_def)
  qed
qed

lemma implements_variable:
  assumes "x \<in> set (locals_of st)" "fits st"
  shows "implements st (jcompile (Var x) st) (Var x)"
proof -
  obtain i where p: "position (\<lambda>n. n = x) (locals_of st) = Some i"
    using assms(1) position_None_iff [of "\<lambda>n. n = x" "locals_of st"] by (cases "position (\<lambda>n. n = x) (locals_of st)") auto
  have u: "unat (of_nat i :: u32) = i"
    using position_SomeD [OF p] assms(2) by (intro unat_of_nat_fits) (simp add: fits_def)
  have j: "jcompile (Var x) st = emit_inst LoadLocal i st" using p by (simp add: find_local_def)
  show ?thesis unfolding j
  proof (rule implements_one)
    show "extends st (emit_inst LoadLocal i st) [instr LoadLocal (of_nat i)]" by (simp add: emit_inst_def extends_push)
    fix en g ls and f :: bytecode_function and vm :: vm
    assume "v_locals vm = ls"
    then show "vm_exec en (bf_constants f) g (instr LoadLocal (of_nat i)) vm =
        deliver (jeval en (param_env (locals_of st) ls) (Var x) (v_ctx vm)) vm"
      by (simp add: vm_exec_def u deliver_def Let_def local_of_def param_env_def p)
  qed
qed

lemma extends_emit_op: "extends st (emit_op p st) [instr p 0]"
  by (simp add: emit_op_def extends_push)

lemma implementsD:
  assumes "implements st st' e"
  obtains new where "extends st st' new"
    "\<And>en f g ls. code_at f (length (code_of st)) new \<Longrightarrow> prefix (consts_of st') (bf_constants f) \<Longrightarrow>
      computes en f g ls (length (code_of st)) (length new) (jeval en (param_env (locals_of st) ls) e)"
  using assms by (auto simp: implements_def)

lemma implements_unary:
  assumes "implements st s1 e" "(s, p) \<in> set unary_ops"
  shows "implements st (emit_op p s1) (Una s p e)"
proof -
  obtain new where n: "extends st s1 new"
    "\<And>en f g ls. code_at f (length (code_of st)) new \<Longrightarrow> prefix (consts_of s1) (bf_constants f) \<Longrightarrow>
      computes en f g ls (length (code_of st)) (length new) (jeval en (param_env (locals_of st) ls) e)"
    using implementsD [OF assms(1)] by blast
  show ?thesis unfolding implements_def
  proof (intro exI [of _ "new @ [instr p 0]"] conjI allI impI)
    show "extends st (emit_op p s1) (new @ [instr p 0])" by (rule extends_trans [OF n(1) extends_emit_op])
    fix en f g ls
    assume c: "code_at f (length (code_of st)) (new @ [instr p 0])" "prefix (consts_of (emit_op p s1)) (bf_constants f)"
    then have "computes en f g ls (length (code_of st)) (length new) (jeval en (param_env (locals_of st) ls) e)"
      by (intro n(2)) (simp_all add: code_at_append emit_op_def)
    from computes_unary [OF this _ assms(2), of 0] c(1)
    show "computes en f g ls (length (code_of st)) (length (new @ [instr p 0]))
        (jeval en (param_env (locals_of st) ls) (Una s p e))" by (simp add: code_at_append jeval_fun)
  qed
qed

lemma extends_code: "extends st st' new \<Longrightarrow> length (code_of st') = length (code_of st) + length new \<and> prefix (consts_of st) (consts_of st')"
  by (auto simp: extends_def)

lemma implements_binary:
  assumes "implements st s1 a" "implements s1 s2 b" "locals_of s1 = locals_of st" "(s, p) \<in> set binary_ops"
  shows "implements st (emit_op p s2) (Bin s p a b)"
proof -
  obtain x where x: "extends st s1 x"
    "\<And>en f g ls. code_at f (length (code_of st)) x \<Longrightarrow> prefix (consts_of s1) (bf_constants f) \<Longrightarrow>
      computes en f g ls (length (code_of st)) (length x) (jeval en (param_env (locals_of st) ls) a)"
    using implementsD [OF assms(1)] by blast
  obtain y where y: "extends s1 s2 y"
    "\<And>en f g ls. code_at f (length (code_of s1)) y \<Longrightarrow> prefix (consts_of s2) (bf_constants f) \<Longrightarrow>
      computes en f g ls (length (code_of s1)) (length y) (jeval en (param_env (locals_of st) ls) b)"
    using implementsD [OF assms(2)] assms(3) by metis
  note l = extends_code [OF x(1)] extends_code [OF y(1)]
  show ?thesis unfolding implements_def
  proof (intro exI [of _ "x @ y @ [instr p 0]"] conjI allI impI)
    show "extends st (emit_op p s2) (x @ y @ [instr p 0])"
      by (rule extends_trans [OF x(1) extends_trans [OF y(1) extends_emit_op]])
    fix en f g ls
    assume c: "code_at f (length (code_of st)) (x @ y @ [instr p 0])" "prefix (consts_of (emit_op p s2)) (bf_constants f)"
    have q: "prefix (consts_of s2) (bf_constants f)" using c(2) by (simp add: emit_op_def)
    have cx: "computes en f g ls (length (code_of st)) (length x) (jeval en (param_env (locals_of st) ls) a)"
      by (rule x(2)) (use c(1) q l prefix_order.trans in \<open>auto simp: code_at_append\<close>)
    have cy: "computes en f g ls (length (code_of st) + length x) (length y) (jeval en (param_env (locals_of st) ls) b)"
      using y(2) [of f en g ls] c(1) q l by (simp add: code_at_append)
    have "computes en f g ls (length (code_of st)) (length x + length y + 1)
        (\<lambda>c. vm_bind (jeval en (param_env (locals_of st) ls) a c) (\<lambda>v c.
           vm_bind (jeval en (param_env (locals_of st) ls) b c) (\<lambda>w c. apply_binary en p v w c)))"
      by (rule computes_binary [OF cx cy _ assms(4), where a = 0]) (use c(1) in \<open>simp add: code_at_append add.assoc\<close>)
    then show "computes en f g ls (length (code_of st)) (length (x @ y @ [instr p 0]))
        (jeval en (param_env (locals_of st) ls) (Bin s p a b))" by (simp add: add.assoc jeval_fun)
  qed
qed

text \<open>The two jumps of a conditional are patched once their targets are known.\<close>

lemma patched_code:
  assumes b: "extends (emit_op JumpIfFalse s1) s2 y" and d: "extends s3 s4 z"
    and s3: "s3 = patch_jump (length (code_of s1)) (emit_op Jump s2)"
  shows "extends s1 (patch_jump (length (code_of s2)) s4)
    (instr JumpIfFalse (of_nat (length (code_of s1) + length y + 2)) # y @
      instr Jump (of_nat (length (code_of s1) + length y + 2 + length z)) # z)"
proof -
  have c2: "code_of s2 = code_of s1 @ instr JumpIfFalse 0 # y" using b by (simp add: extends_def emit_op_def)
  have e: "code_of (emit_op Jump s2) = code_of s1 @ instr JumpIfFalse 0 # y @ [instr Jump 0]" by (simp add: emit_op_def c2)
  have c3: "code_of s3 = (code_of s1 @ instr JumpIfFalse (of_nat (length (code_of s1) + length y + 2)) # y) @ [instr Jump 0]"
    unfolding s3 using patch_code [OF e refl] by simp
  have c4: "code_of s4 = (code_of s1 @ instr JumpIfFalse (of_nat (length (code_of s1) + length y + 2)) # y) @ instr Jump 0 # z"
    using d c3 by (simp add: extends_def)
  have "code_of (patch_jump (length (code_of s2)) s4) =
    (code_of s1 @ instr JumpIfFalse (of_nat (length (code_of s1) + length y + 2)) # y) @
      instr Jump (of_nat (length (code_of s1) + length y + 2 + length z)) # z"
    using patch_code [OF c4, of "length (code_of s2)"] c2 by (simp add: algebra_simps)
  moreover have "prefix (consts_of s1) (consts_of s4)" "prefix (locals_of s1) (locals_of s4)"
    using b d prefix_order.trans by (auto simp: extends_def s3 emit_op_def)
  ultimately show ?thesis by (simp add: extends_def)
qed

lemma code_at_pieces:
  assumes "code_at f b (x @ [i] @ y @ [j] @ z)"
  shows "code_at f b x" "code_at f (b + length x) [i]" "code_at f (b + length x + 1) y"
    "code_at f (b + length x + 1 + length y) [j]" "code_at f (b + length x + 1 + length y + 1) z"
  using assms unfolding code_at_append by (simp_all add: add.assoc)

lemma implements_conditional:
  assumes a: "implements st s1 e1" and b: "implements (emit_op JumpIfFalse s1) s2 e2"
    and d: "implements (patch_jump (length (code_of s1)) (emit_op Jump s2)) s4 e3"
    and l: "locals_of s1 = locals_of st" "locals_of s2 = locals_of st"
    and f: "fits (patch_jump (length (code_of s2)) s4)"
  shows "implements st (patch_jump (length (code_of s2)) s4) (Cond e1 e2 e3)"
proof -
  let ?st' = "patch_jump (length (code_of s2)) s4"
  define s3 where "s3 = patch_jump (length (code_of s1)) (emit_op Jump s2)"
  obtain x where x: "extends st s1 x"
    "\<And>en f g ls. code_at f (length (code_of st)) x \<Longrightarrow> prefix (consts_of s1) (bf_constants f) \<Longrightarrow>
      computes en f g ls (length (code_of st)) (length x) (jeval en (param_env (locals_of st) ls) e1)"
    using implementsD [OF a] by blast
  obtain y where y1: "extends (emit_op JumpIfFalse s1) s2 y"
    "\<And>en f g ls. code_at f (length (code_of (emit_op JumpIfFalse s1))) y \<Longrightarrow> prefix (consts_of s2) (bf_constants f) \<Longrightarrow>
      computes en f g ls (length (code_of (emit_op JumpIfFalse s1))) (length y)
        (jeval en (param_env (locals_of (emit_op JumpIfFalse s1)) ls) e2)"
    using implementsD [OF b] by blast
  have y: "extends (emit_op JumpIfFalse s1) s2 y"
    "\<And>en f g ls. code_at f (length (code_of s1) + 1) y \<Longrightarrow> prefix (consts_of s2) (bf_constants f) \<Longrightarrow>
      computes en f g ls (length (code_of s1) + 1) (length y) (jeval en (param_env (locals_of st) ls) e2)"
    using y1 l by (simp_all add: emit_op_def)
  have l3: "locals_of s3 = locals_of st" "length (code_of s3) = length (code_of s1) + length y + 2"
    using l y(1) by (auto simp: s3_def emit_op_def patch_jump_def extends_def)
  obtain z where z: "extends s3 s4 z"
    "\<And>en f g ls. code_at f (length (code_of s1) + length y + 2) z \<Longrightarrow> prefix (consts_of s4) (bf_constants f) \<Longrightarrow>
      computes en f g ls (length (code_of s1) + length y + 2) (length z) (jeval en (param_env (locals_of st) ls) e3)"
    using implementsD [OF d [folded s3_def]] l3 by metis
  let ?t = "of_nat (length (code_of s1) + length y + 2) :: u32"
  let ?u = "of_nat (length (code_of s1) + length y + 2 + length z) :: u32"
  let ?new = "x @ [instr JumpIfFalse ?t] @ y @ [instr Jump ?u] @ z"
  have ext: "extends s1 ?st' ([instr JumpIfFalse ?t] @ y @ [instr Jump ?u] @ z)"
    using patched_code [OF y(1) z(1) s3_def] by simp
  have pre: "prefix (consts_of s1) (consts_of s4)" "prefix (consts_of s2) (consts_of s4)"
    using y(1) z(1) prefix_order.trans by (auto simp: extends_def s3_def emit_op_def)
  have n: "length (code_of s1) = length (code_of st) + length x" using extends_code [OF x(1)] by simp
  have "length (code_of s1) + length y + 2 + length z < 2 ^ 32" using extends_code [OF ext] f by (simp add: fits_def)
  then have t: "unat ?t = length (code_of s1) + length y + 2" "unat ?u = length (code_of s1) + length y + 2 + length z"
    by (intro unat_of_nat_fits, simp)+
  show ?thesis unfolding implements_def
  proof (intro exI [of _ ?new] conjI allI impI)
    show "extends st ?st' ?new" by (rule extends_trans [OF x(1) ext])
    fix en f g ls
    assume c: "code_at f (length (code_of st)) ?new" and "prefix (consts_of ?st') (bf_constants f)"
    then have p: "prefix (consts_of s4) (bf_constants f)" "prefix (consts_of s2) (bf_constants f)"
      "prefix (consts_of s1) (bf_constants f)" using pre prefix_order.trans by auto
    let ?b = "length (code_of st)" and ?env = "param_env (locals_of st) ls"
    note ca = code_at_pieces [OF c]
    have c1: "computes en f g ls ?b (length x) (jeval en ?env e1)" by (rule x(2) [OF ca(1) p(3)])
    have c2: "computes en f g ls (?b + length x + 1) (length y) (jeval en ?env e2)"
      unfolding n [symmetric] by (rule y(2) [OF ca(3) [folded n] p(2)])
    have m: "?b + length x + 1 + length y + 1 = length (code_of s1) + length y + 2" by (simp add: n)
    have c3: "computes en f g ls (?b + length x + 1 + length y + 1) (length z) (jeval en ?env e3)"
      unfolding m by (rule z(2) [OF ca(5) [unfolded m] p(1)])
    have "computes en f g ls ?b (length x + 1 + length y + 1 + length z)
        (\<lambda>c. vm_bind (jeval en ?env e1 c) (\<lambda>x c. if is_truthy c x then jeval en ?env e2 c else jeval en ?env e3 c))"
      by (rule computes_conditional [OF c1 c2 c3 ca(2) _ ca(4)]) (simp_all only: t, simp_all add: n)
    then show "computes en f g ls ?b (length ?new) (jeval en ?env (Cond e1 e2 e3))"
      by (simp add: jeval_fun ac_simps)
  qed
qed

section \<open>Sizes\<close>

lemma fits_before: "extends st st' new \<Longrightarrow> fits st' \<Longrightarrow> fits st"
  by (rule extends_fits)

lemma emit_const_sizes:
  "length (code_of (emit_const x st)) = length (code_of st) + 1"
  "length (consts_of (emit_const x st)) \<le> length (consts_of st) + 1"
  by (auto simp: emit_const_def add_number_const_def pooled_def emit_pooled_def emit_inst_def split: prod.splits option.splits)

lemma jcompile_sizes:
  "jexp_ok names e \<Longrightarrow> length (code_of (jcompile e st)) \<le> length (code_of st) + length (jprint e) \<and>
     length (consts_of (jcompile e st)) \<le> length (consts_of st) + length (jprint e)"
proof (induction e arbitrary: st)
  case (Num n)
  show ?case using jprint_length [OF Num] emit_const_sizes [of "f64_of_int (int n)" st] by simp
next
  case (Var x)
  show ?case using jprint_length [OF Var] by (auto simp: emit_inst_def split: option.split)
next
  case (Una s p a)
  then have "length (code_of (jcompile a st)) \<le> length (code_of st) + length (jprint a) \<and>
     length (consts_of (jcompile a st)) \<le> length (consts_of st) + length (jprint a)" by simp
  then show ?case by (auto simp: emit_op_def)
next
  case (Bin s p a b)
  then have "length (code_of (jcompile a st)) \<le> length (code_of st) + length (jprint a) \<and>
     length (consts_of (jcompile a st)) \<le> length (consts_of st) + length (jprint a)"
    "length (code_of (jcompile b (jcompile a st))) \<le> length (code_of (jcompile a st)) + length (jprint b) \<and>
     length (consts_of (jcompile b (jcompile a st))) \<le> length (consts_of (jcompile a st)) + length (jprint b)" by simp_all
  then show ?case by (auto simp: emit_op_def)
next
  case (Cond a b c)
  let ?s1 = "emit_op JumpIfFalse (jcompile a st)"
  let ?s3 = "patch_jump (length (code_of (jcompile a st))) (emit_op Jump (jcompile b ?s1))"
  have "length (code_of (jcompile a st)) \<le> length (code_of st) + length (jprint a) \<and>
     length (consts_of (jcompile a st)) \<le> length (consts_of st) + length (jprint a)"
    "length (code_of (jcompile b ?s1)) \<le> length (code_of ?s1) + length (jprint b) \<and>
     length (consts_of (jcompile b ?s1)) \<le> length (consts_of ?s1) + length (jprint b)"
    "length (code_of (jcompile c ?s3)) \<le> length (code_of ?s3) + length (jprint c) \<and>
     length (consts_of (jcompile c ?s3)) \<le> length (consts_of ?s3) + length (jprint c)"
    by (rule Cond.IH; use Cond.prems in simp)+
  moreover have "length (code_of ?s3) = length (code_of (jcompile b ?s1)) + 1" "length (code_of ?s1) = length (code_of (jcompile a st)) + 1"
    "consts_of ?s3 = consts_of (jcompile b ?s1)" "consts_of ?s1 = consts_of (jcompile a st)"
    by (simp_all add: emit_op_def patch_jump_def)
  moreover have "length (code_of (patch_jump i s)) = length (code_of s)" "consts_of (patch_jump i s) = consts_of s" for i s
    by (simp_all add: patch_jump_def)
  ultimately show ?case by (simp add: conditional_code_def Let_def)
qed

text \<open>What is emitted implements the expression.\<close>

lemma jcompile_implements:
  assumes "jexp_ok (locals_of st) e"
    and "length (code_of st) + length (jprint e) < 2 ^ 32" "length (consts_of st) + length (jprint e) < 2 ^ 32"
    and "length (locals_of st) < 2 ^ 32"
  shows "implements st (jcompile e st) e"
  using assms
proof (induction e arbitrary: st)
  case (Num n)
  have "fits (jcompile (Num n) st)" unfolding fits_def using jcompile_sizes [OF Num(1), of st] Num(2-4) by simp
  then show ?case using Num(1) by (intro implements_number) simp_all
next
  case (Var x)
  then show ?case by (intro implements_variable) (simp_all add: fits_def)
next
  case (Una s p a)
  then have "implements st (jcompile a st) a" by simp
  from implements_unary [OF this] Una.prems show ?case by simp
next
  case (Bin s p a b)
  have a: "implements st (jcompile a st) a" using Bin by simp
  have "implements (jcompile a st) (jcompile b (jcompile a st)) b"
    using Bin.prems jcompile_sizes [of "locals_of st" a st] by (intro Bin.IH(2)) auto
  from implements_binary [OF a this] Bin.prems show ?case by simp
next
  case (Cond a b c)
  let ?s1 = "emit_op JumpIfFalse (jcompile a st)"
  let ?s3 = "patch_jump (length (code_of (jcompile a st))) (emit_op Jump (jcompile b ?s1))"
  have ok: "jexp_ok (locals_of st) a" "jexp_ok (locals_of st) b" "jexp_ok (locals_of st) c" using Cond.prems by simp_all
  have len: "length (code_of ?s3) = length (code_of (jcompile b ?s1)) + 1" "length (code_of ?s1) = length (code_of (jcompile a st)) + 1"
    "consts_of ?s3 = consts_of (jcompile b ?s1)" "consts_of ?s1 = consts_of (jcompile a st)"
    "locals_of ?s1 = locals_of st" "locals_of ?s3 = locals_of st"
    by (simp_all add: emit_op_def patch_jump_def)
  note sizes = jcompile_sizes [OF ok(1), of st] jcompile_sizes [OF ok(2), of ?s1] jcompile_sizes [OF ok(3), of ?s3]
  have a: "implements st (jcompile a st) a" using Cond.prems by (intro Cond.IH(1)) simp_all
  have b: "implements ?s1 (jcompile b ?s1) b"
    using Cond.prems sizes len ok by (intro Cond.IH(2)) simp_all
  have d: "implements ?s3 (jcompile c ?s3) c"
    using Cond.prems sizes len ok by (intro Cond.IH(3)) simp_all
  have "fits (patch_jump (length (code_of (jcompile b ?s1))) (jcompile c ?s3))"
    unfolding fits_def using jcompile_sizes [OF Cond.prems(1), of st] Cond.prems(2-4) len
    by (simp add: conditional_code_def Let_def)
  from implements_conditional [OF a b d _ _ this] len show ?case by (simp add: conditional_code_def Let_def)
qed

section \<open>A function that returns an expression\<close>

definition closer :: "byte \<Rightarrow> bool" where "closer b \<longleftrightarrow> is_digit b \<or> is_ident_start b \<or> b = CHR '')''"

lemma jprint_last: "jexp_ok names e \<Longrightarrow> jprint e \<noteq> [] \<and> closer (last (jprint e))"
proof (cases e)
  case (Num n)
  then show ?thesis using digits_dec_of_nat [of n] dec_of_nat_nonempty [of n] last_in_set [of "dec_of_nat n"]
    by (simp add: closer_def list_all_iff)
next
  case (Var x)
  assume "jexp_ok names e"
  with Var obtain c t where x: "x = c # t" "is_ident_start c" "list_all (\<lambda>b. is_ident_start b \<or> is_digit b) t"
    by (auto simp: is_identifier_def split: list.splits)
  then have "is_ident_start (last x) \<or> is_digit (last x)" by (auto simp: list_all_iff)
  then show ?thesis using Var x(1) by (auto simp: closer_def)
qed (simp_all add: closer_def)

lemma closer_ascii: "closer b \<Longrightarrow> \<not> ascii_ws b \<and> (of_char b :: nat) < 128"
  by (auto simp: closer_def is_digit_iff is_ident_start_def byte_in_def ascii_ws_def)

lemma starter_ascii: "starter b \<Longrightarrow> \<not> ascii_ws b \<and> (of_char b :: nat) < 128"
  by (auto simp: starter_def is_digit_iff is_ident_start_def byte_in_def ascii_ws_def)

lemma return_texts:
  assumes "jexp_ok names e"
  shows "trim (jprint e) = jprint e" "trim (''return '' @ jprint e) = ''return '' @ jprint e" "jprint e \<noteq> []"
proof -
  note l = jprint_last [OF assms]
  have "starts (jprint e)" using jprint_starts [OF assms, of "[]"] by simp
  then have h: "\<not> ascii_ws (hd (jprint e)) \<and> (of_char (hd (jprint e)) :: nat) < 128"
    using starter_ascii by (auto simp: starts_def)
  show "jprint e \<noteq> []" using l by simp
  show "trim (jprint e) = jprint e" using l h closer_ascii by (intro trim_ascii) auto
  show "trim (''return '' @ jprint e) = ''return '' @ jprint e"
    using l closer_ascii by (intro trim_ascii) (auto simp: ascii_ws_def byte_in_def)
qed

lemma add_params_locals: "distinct (locals_of st @ names) \<Longrightarrow> locals_of (add_params names st) = locals_of st @ names"
proof (induction names arbitrary: st)
  case (Cons x names)
  have "position (\<lambda>n. n = x) (locals_of st) = None" using Cons.prems by (auto simp: position_None_iff)
  then have "locals_of (fst (ensure_local x st)) = locals_of st @ [x]" by (simp add: ensure_local_def find_local_def)
  then show ?case using Cons.IH [of "fst (ensure_local x st)"] Cons.prems by (simp add: add_params_def)
qed (simp add: add_params_def)

lemma add_params_consts: "consts_of (add_params names st) = consts_of st"
proof (induction names arbitrary: st)
  case (Cons x names)
  have "consts_of (fst (ensure_local x st)) = consts_of st" by (simp add: ensure_local_def split: option.split)
  then show ?case using Cons.IH by (simp add: add_params_def)
qed (simp add: add_params_def)

lemma return_statement:
  assumes "jexp_ok (locals_of st) e"
  shows "\<exists>st'. compile_stmts [''return '' @ jprint e] st = Some (Inr st') \<and>
    prefix (code_of (jcompile e (at_source (jprint e) st)) @ [instr Return 0]) (code_of st') \<and>
    prefix (consts_of (jcompile e (at_source (jprint e) st))) (consts_of st') \<and> locals_of st' = locals_of st"
proof -
  let ?s = "''return '' @ jprint e" and ?j = "jcompile e (at_source (jprint e) st)"
  note t = return_texts [OF assms]
  obtain st1 where c: "compile_full_expr (jprint e) st = ok st1" and s1: "cs_func st1 = cs_func ?j"
    using compile_full_expr_text [OF assms] by blast
  have "compile_stmt p ?s st = ok (emit_op Return st1)" for p
    using t c by (simp add: compile_stmt_def)
  then have "run_task (stmt_fuel ?s) (TStmt ?s) st = ok (emit_op Return st1)" by (simp add: stmt_fuel_def)
  then have "compile_all [?s] st = ok (emit_op Return st1)" using t(2) by (simp add: and_then_def ok_def)
  then have k: "compile_stmts [?s] st = Some (Inr (return_undefined (emit_op Return st1)))"
    unfolding compile_stmts_def by (simp add: ok_def)
  obtain s2 i where u: "add_undefined_const (emit_op Return st1) = (s2, i)" by (rule prod.exhaust)
  from add_const_specs(1) [OF u] have s2: "code_of s2 = code_of st1 @ [instr Return 0]" "prefix (consts_of st1) (consts_of s2)"
    "locals_of s2 = locals_of st1" by (simp_all add: same_text_def emit_op_def)
  have e: "locals_of ?j = locals_of st" by (simp add: at_source_def)
  have "code_of (return_undefined (emit_op Return st1)) = code_of ?j @ [instr Return 0] @ [instr Const (of_nat i), instr Return 0]"
    "consts_of (return_undefined (emit_op Return st1)) = consts_of s2" "locals_of (return_undefined (emit_op Return st1)) = locals_of st"
    using u s2 s1 e by (simp_all add: return_undefined_def emit_pooled_def emit_op_def emit_inst_def)
  then show ?thesis using k s2(2) s1 by auto
qed

definition result_of :: "vm_value \<Rightarrow> vm_exit \<times> js_ctx" where
  "result_of r = (case r of Value v c \<Rightarrow> (Returned v, c) | Stop e c \<Rightarrow> (e, c))"

definition param_values :: "nat \<Rightarrow> js_value list \<Rightarrow> js_value list" where
  "param_values n args = take n args @ replicate (n - length args) JS_UNDEFINED"

lemma run_returns:
  assumes "computes en f g ls 0 n ev" "code_at f n [instr Return 0]" "v_pc vm = 0" "v_locals vm = ls"
  shows "\<exists>k. \<forall>m \<ge> k. vm_run en f g m vm = Some (result_of (ev (v_ctx vm)))"
proof -
  have r: "runs en f g vm (after n vm (ev (v_ctx vm)))" using computesD [OF assms(1,3,4)] by simp
  have "runs en f g vm (Exit (fst (result_of (ev (v_ctx vm)))) (snd (result_of (ev (v_ctx vm)))))"
  proof (cases "ev (v_ctx vm)")
    case (Value v c)
    let ?w = "vm\<lparr>v_pc := n, v_stack := v # v_stack vm, v_ctx := c\<rparr>"
    have "runs en f g vm (Goto ?w)" using r Value by (simp add: after_def)
    moreover have "runs en f g ?w (Exit (Returned v) c)"
      using runs_step [of f ?w "instr Return 0" en g] assms(2) by (simp add: vm_exec_def)
    ultimately show ?thesis using Value by (simp add: result_of_def runs_trans)
  next
    case (Stop e c)
    then show ?thesis using r by (simp add: after_def result_of_def)
  qed
  then obtain k where k: "\<And>m. vm_run en f g (k + m) vm = Some (result_of (ev (v_ctx vm)))" by (auto simp: runs_def)
  show ?thesis
  proof (intro exI [of _ k] allI impI)
    fix m assume "k \<le> m"
    then show "vm_run en f g m vm = Some (result_of (ev (v_ctx vm)))" using k [of "m - k"] by simp
  qed
qed

lemma return_expression_runs:
  assumes "jexp_ok names e" "distinct names" "length names < 2 ^ 32" "length (jprint e) < 2 ^ 32"
  shows "\<exists>st. compile_stmts [''return '' @ jprint e] (add_params names (new_compiler c0)) = Some (Inr st) \<and>
    (\<exists>k. \<forall>m \<ge> k. run_module en m (cs_func st) args c =
      Some (result_of (jeval en (param_env names (param_values (length names) args)) e c)))"
proof -
  let ?st = "add_params names (new_compiler c0)" and ?ls = "param_values (length names) args"
  let ?s = "at_source (jprint e) ?st"
  have l: "locals_of ?st = names"
    using add_params_locals [of "new_compiler c0" names] assms(2) by (simp add: new_compiler_def bytecode_function_new_def)
  have s: "code_of ?s = []" "consts_of ?s = []" "locals_of ?s = names"
    using l by (simp_all add: at_source_def add_params_code add_params_consts new_compiler_def bytecode_function_new_def)
  obtain st where st: "compile_stmts [''return '' @ jprint e] ?st = Some (Inr st)"
    "prefix (code_of (jcompile e ?s) @ [instr Return 0]) (code_of st)" "prefix (consts_of (jcompile e ?s)) (consts_of st)"
    "locals_of st = names" using return_statement [of ?st e] assms(1) l by auto
  have "implements ?s (jcompile e ?s) e" by (rule jcompile_implements) (use assms s in simp_all)
  then obtain new where new: "extends ?s (jcompile e ?s) new"
    "\<And>en f g ls. code_at f 0 new \<Longrightarrow> prefix (consts_of (jcompile e ?s)) (bf_constants f) \<Longrightarrow>
      computes en f g ls 0 (length new) (jeval en (param_env names ls) e)"
    by (auto simp: implements_def s)
  have "code_of (jcompile e ?s) = new" using new(1) s(1) by (simp add: extends_def)
  then have "code_at (cs_func st) 0 (new @ [instr Return 0])" using st(2) by (simp add: code_at_def)
  then have c: "code_at (cs_func st) 0 new" "code_at (cs_func st) (length new) [instr Return 0]"
    by (simp_all add: code_at_append)
  let ?vm = "vm_start (cs_func st) args c"
  have "v_locals ?vm = ?ls" "v_pc ?vm = 0" "v_ctx ?vm = c" by (simp_all add: vm_start_def Let_def st(4) param_values_def)
  with run_returns [OF new(2) [OF c(1) st(3)] c(2), of ?vm ?ls] st(1) show ?thesis by (auto simp: run_module_def)
qed

section \<open>Properties\<close>

text \<open>C5: a function that returns an expression is compiled correctly: for an expression over numbers, parameters,
  unary and binary operators and the conditional, the compiler accepts its text, and the code, on any arguments and
  any heap, returns what the expression evaluates to with the operations of the machine, or ends with its error.\<close>

theorem compiled_expression_correct:
  assumes "jexp_ok names e" "distinct names" "length names < 2 ^ 32" "length (jprint e) < 2 ^ 32"
  shows "\<exists>st. compile_stmts [''return '' @ jprint e] (add_params names (new_compiler c0)) = Some (Inr st) \<and>
    (\<exists>k. \<forall>m \<ge> k. run_module en m (cs_func st) args c =
      Some (result_of (jeval en (param_env names (param_values (length names) args)) e c)))"
  by (rule return_expression_runs [OF assms])

theorem compiled_expression_correct_witness:
  "\<forall>en. \<exists>st m. compile_stmts [''return (a+2)''] (add_params [''a''] (new_compiler example_ctx)) = Some (Inr st) \<and>
     run_module en m (cs_func st) [int_value 40] example_ctx = Some (Returned (int_value 42), example_ctx)"
proof
  fix en
  let ?e = "Bin ''+'' Add (Var ''a'') (Num 2)"
  have t: "jprint ?e = ''(a+2)''" by (simp add: dec_of_nat.simps [of 2] digit_char_def char_of_def bit_0)
  have ok: "jexp_ok [''a''] ?e"
    by (simp add: binary_ops_def term_ops_def sum_ops_def is_identifier_def is_ident_start_def byte_in_def)
  have v: "is_int (int_value 40) \<and> value_int (int_value 40) = 40" "is_int (int_value 2) \<and> value_int (int_value 2) = 2"
    by (rule int_value_int, simp add: in_i32_def i32_min_def i32_max_def)+
  have "result_of (jeval en (param_env [''a''] (param_values (length [''a'']) [int_value 40])) ?e example_ctx) =
      (Returned (int_value 42), example_ctx)"
    using v by (simp add: param_values_def param_env_def vm_bind_def apply_binary_def op_add_def int_pair_def in_i32_def
      i32_min_def i32_max_def result_of_def)
  with compiled_expression_correct [OF ok, of example_ctx en "[int_value 40]" example_ctx] t
  show "\<exists>st m. compile_stmts [''return (a+2)''] (add_params [''a''] (new_compiler example_ctx)) = Some (Inr st) \<and>
      run_module en m (cs_func st) [int_value 40] example_ctx = Some (Returned (int_value 42), example_ctx)"
    by auto
qed

end
