(* ===== verification/Persist_Sql.thy ===== *)
theory Persist_Sql
  imports Server_State
begin

text \<open>
  The snapshot tables of the persistence layer (\<open>src/muon_cache/persist.rs\<close>): writing all databases inside a
  transaction, loading them at the start, and the batches of the append-only log. The SQL library is a
  parameter: a connection is a record of the statements and queries that the code uses, over a state of its own.
\<close>

section \<open>Statements and queries\<close>

datatype item_table = ListItems | SetItems | HashItems | ZsetItems | StreamEntries

text \<open>The statements about one key: \<open>INSERT OR REPLACE INTO kv\<close> with the type, the value and the expiry time, the
  deletion of a key from a table, and the insertion of one item.\<close>

datatype key_stmt =
    PutKv int bytes "int option"
  | DelKv
  | Clear item_table
  | AddList int bytes
  | AddSet bytes
  | AddHash bytes bytes
  | AddZset bytes f64
  | AddStream bytes int bytes bytes

datatype sql = Begin | Commit | Rollback | On int bytes key_stmt | LogCmd int bytes

text \<open>Executing says whether it succeeded; a query may fail, and so may reading a column of a row, which is why a
  score that is NULL is \<open>None\<close>. The rows of \<open>kv\<close> are used one by one while the query runs, so they come with the
  answer whether the query got to its end.\<close>

record 'c conn =
  c_exec :: "sql \<Rightarrow> 'c \<Rightarrow> 'c \<times> bool"
  c_kv :: "'c \<Rightarrow> (int \<times> bytes \<times> int \<times> bytes option \<times> int option) list \<times> bool"
  c_keys :: "int \<Rightarrow> 'c \<Rightarrow> bytes list option"
  c_list :: "int \<Rightarrow> bytes \<Rightarrow> 'c \<Rightarrow> bytes list option"
  c_set :: "int \<Rightarrow> bytes \<Rightarrow> 'c \<Rightarrow> bytes list option"
  c_hash :: "int \<Rightarrow> bytes \<Rightarrow> 'c \<Rightarrow> (bytes \<times> bytes) list option"
  c_zset :: "int \<Rightarrow> bytes \<Rightarrow> 'c \<Rightarrow> (bytes \<times> f64 option) list option"
  c_stream :: "int \<Rightarrow> bytes \<Rightarrow> 'c \<Rightarrow> (bytes \<times> int \<times> bytes \<times> bytes) list option"

text \<open>A sequence of statements with the operator \<open>?\<close> behind each.\<close>

fun exec_all :: "'c conn \<Rightarrow> sql list \<Rightarrow> 'c \<Rightarrow> 'c \<times> bool" where
  "exec_all cn [] c = (c, True)"
| "exec_all cn (s # ss) c =
     (case c_exec cn s c of (c, good) \<Rightarrow> if good then exec_all cn ss c else (c, False))"

section \<open>The snapshot\<close>

definition stream_stmts :: "stream_items \<Rightarrow> key_stmt list" where
  "stream_stmts xs =
     concat (map (\<lambda>(xid, flds). map (\<lambda>(i, f, v). AddStream xid (int i) f v) (enumerate 0 flds)) xs)"

definition entry_stmts :: "val \<Rightarrow> int option \<Rightarrow> key_stmt list" where
  "entry_stmts v x =
     (case v of
        String b \<Rightarrow> [PutKv 0 b x]
      | Int64 n \<Rightarrow> [PutKv 0 (write_i64_bytes n) x]
      | List xs \<Rightarrow> PutKv 1 [] x # Clear ListItems # map (\<lambda>(i, b). AddList (int i) b) (enumerate 0 xs)
      | Set xs \<Rightarrow> PutKv 2 [] x # Clear SetItems # map AddSet xs
      | Hash hs \<Rightarrow> PutKv 3 [] x # Clear HashItems # map (\<lambda>(f, b). AddHash f b) (hs_iter hs)
      | ZSet xs \<Rightarrow> PutKv 4 [] x # Clear ZsetItems # map (\<lambda>(m, s). AddZset m s) xs
      | Stream xs \<Rightarrow> PutKv 5 [] x # Clear StreamEntries # stream_stmts xs)"

text \<open>The live entries of all databases, each with the number of its database; \<open>clk i\<close> is the clock of the sweep of
  database \<open>i\<close>.\<close>

definition snapshot_entries :: "(nat \<Rightarrow> nat \<Rightarrow> u64) \<Rightarrow> db list \<Rightarrow> (int \<times> bytes \<times> val \<times> u64 option) list" where
  "snapshot_entries clk ds =
     concat (map (\<lambda>i. map (\<lambda>e. (int i, e)) (snd (db_snapshot_items (clk i) (ds ! i)))) [0..<length ds])"

definition live_pairs :: "(int \<times> bytes \<times> val \<times> u64 option) list \<Rightarrow> (int \<times> bytes) list" where
  "live_pairs es = map (\<lambda>(i, k, v, x). (i, k)) es"

definition write_stmts :: "(int \<times> bytes \<times> val \<times> u64 option) list \<Rightarrow> sql list" where
  "write_stmts es = concat (map (\<lambda>(i, k, v, x). map (On i k) (entry_stmts v (map_option sint x))) es)"

definition forget_stmts :: "int \<Rightarrow> bytes list \<Rightarrow> sql list" where
  "forget_stmts i stale =
     concat (map (\<lambda>k. map (On i k)
       [DelKv, Clear ListItems, Clear SetItems, Clear HashItems, Clear ZsetItems, Clear StreamEntries]) stale)"

fun remove_stale :: "'c conn \<Rightarrow> (int \<times> bytes) list \<Rightarrow> nat list \<Rightarrow> 'c \<Rightarrow> 'c \<times> bool" where
  "remove_stale cn alive [] c = (c, True)"
| "remove_stale cn alive (i # is) c =
     (case c_keys cn (int i) c of
        None \<Rightarrow> (c, False)
      | Some keys \<Rightarrow>
          (case exec_all cn (forget_stmts (int i) (filter (\<lambda>k. (int i, k) \<notin> set alive) keys)) c of
             (c, good) \<Rightarrow> if good then remove_stale cn alive is c else (c, False)))"

definition snapshot_inner :: "'c conn \<Rightarrow> (nat \<Rightarrow> nat \<Rightarrow> u64) \<Rightarrow> db list \<Rightarrow> 'c \<Rightarrow> 'c \<times> bool" where
  "snapshot_inner cn clk ds c =
     (let es = snapshot_entries clk ds in
      case exec_all cn (write_stmts es) c of
        (c, good) \<Rightarrow> if good then remove_stale cn (live_pairs es) [0..<length ds] c else (c, False))"

text \<open>The result of \<open>ROLLBACK\<close> is ignored; a \<open>COMMIT\<close> that fails is not rolled back.\<close>

definition snapshot :: "'c conn \<Rightarrow> (nat \<Rightarrow> nat \<Rightarrow> u64) \<Rightarrow> db list \<Rightarrow> 'c \<Rightarrow> 'c \<times> bool" where
  "snapshot cn clk ds c =
     (case c_exec cn Begin c of
        (c, False) \<Rightarrow> (c, False)
      | (c, True) \<Rightarrow>
          (case snapshot_inner cn clk ds c of
             (c, False) \<Rightarrow> (fst (c_exec cn Rollback c), False)
           | (c, True) \<Rightarrow> c_exec cn Commit c))"

section \<open>Loading\<close>

fun load_list :: "bytes list \<Rightarrow> bytes list \<Rightarrow> bytes list" where
  "load_list [] out = out"
| "load_list (b # rows) out = load_list rows (out @ [b])"

definition load_set :: "bytes list \<Rightarrow> val" where
  "load_set rows = Set (fold (\<lambda>x s. fst (hset_insert x s)) rows [])"

definition load_hash :: "(bytes \<times> bytes) list \<Rightarrow> val" where
  "load_hash rows = Hash (Map (fold (\<lambda>(f, b) m. hm_put f b m) rows []))"

fun load_zset :: "(bytes \<times> f64 option) list \<Rightarrow> (bytes, f64) hashmap \<Rightarrow> val option" where
  "load_zset [] m = Some (ZSet m)"
| "load_zset ((mem, sc) # rows) m = (case sc of Some s \<Rightarrow> load_zset rows (hm_put mem s m) | None \<Rightarrow> None)"

text \<open>Rows with the same identifier one behind the other make one entry.\<close>

definition close_entry :: "bytes option \<Rightarrow> (bytes \<times> bytes) list \<Rightarrow> stream_items \<Rightarrow> stream_items" where
  "close_entry cur flds out = (case cur of Some xid \<Rightarrow> out @ [(xid, flds)] | None \<Rightarrow> out)"

fun load_stream ::
  "(bytes \<times> int \<times> bytes \<times> bytes) list \<Rightarrow> bytes option \<Rightarrow> (bytes \<times> bytes) list \<Rightarrow> stream_items \<Rightarrow> stream_items" where
  "load_stream [] cur flds out = close_entry cur flds out"
| "load_stream ((xid, i, f, b) # rows) cur flds out =
     (let name = utf8_lossy xid in
      if cur = Some name then load_stream rows cur (flds @ [(f, b)]) out
      else load_stream rows (Some name) [(f, b)] (close_entry cur flds out))"

text \<open>The value of a row of \<open>kv\<close>: \<open>None\<close> is an error, \<open>Some None\<close> an unknown type.\<close>

definition load_value :: "'c conn \<Rightarrow> int \<Rightarrow> bytes \<Rightarrow> int \<Rightarrow> bytes option \<Rightarrow> 'c \<Rightarrow> val option option" where
  "load_value cn d k typ value c =
     (if typ = 0 then Some (Some (String (case value of Some b \<Rightarrow> b | None \<Rightarrow> [])))
      else if typ = 1 then map_option (\<lambda>rows. Some (List (load_list rows []))) (c_list cn d k c)
      else if typ = 2 then map_option (\<lambda>rows. Some (load_set rows)) (c_set cn d k c)
      else if typ = 3 then map_option (\<lambda>rows. Some (load_hash rows)) (c_hash cn d k c)
      else if typ = 4 then
        (case c_zset cn d k c of Some rows \<Rightarrow> map_option Some (load_zset rows []) | None \<Rightarrow> None)
      else if typ = 5 then map_option (\<lambda>rows. Some (Stream (load_stream rows None [] []))) (c_stream cn d k c)
      else Some None)"

fun load_rows ::
  "'c conn \<Rightarrow> (int \<times> bytes \<times> int \<times> bytes option \<times> int option) list \<Rightarrow> 'c \<Rightarrow> db list \<Rightarrow> db list \<times> bool" where
  "load_rows cn [] c ds = (ds, True)"
| "load_rows cn ((d, k, typ, value, x) # rows) c ds =
     (if d < 0 \<or> length ds \<le> nat d then load_rows cn rows c ds
      else case load_value cn d k typ value c of
             None \<Rightarrow> (ds, False)
           | Some None \<Rightarrow> load_rows cn rows c ds
           | Some (Some v) \<Rightarrow>
               load_rows cn rows c
                 (ds[nat d := fst (db_set_with_expire_at k v (map_option word_of_int x) (ds ! nat d))]))"

definition load :: "'c conn \<Rightarrow> 'c \<Rightarrow> db list \<Rightarrow> db list \<times> bool" where
  "load cn c ds =
     (case c_kv cn c of (rows, complete) \<Rightarrow>
        (case load_rows cn rows c ds of (ds, good) \<Rightarrow> (ds, good \<and> complete)))"

section \<open>The batches of the append-only log\<close>

definition flush_aof_batch :: "'c conn \<Rightarrow> aof_entry list \<Rightarrow> 'c \<Rightarrow> 'c \<times> bool" where
  "flush_aof_batch cn batch c =
     (if batch = [] then (c, True)
      else case c_exec cn Begin c of
        (c, False) \<Rightarrow> (c, False)
      | (c, True) \<Rightarrow>
          (case exec_all cn (map (\<lambda>e. LogCmd (ae_db e) (ae_encoded e)) batch) c of
             (c, False) \<Rightarrow> (fst (c_exec cn Rollback c), False)
           | (c, True) \<Rightarrow>
               (case c_exec cn Commit c of
                  (c, False) \<Rightarrow> (fst (c_exec cn Rollback c), False)
                | (c, True) \<Rightarrow> (c, True))))"

definition AOF_BATCH_MAX :: nat where "AOF_BATCH_MAX = 256"

text \<open>The worker: timing decides where the stream of entries is cut, \<open>cuts\<close> gives the lengths, which end at the
  maximum. A batch that fails is reported and forgotten.\<close>

fun run_aof_worker :: "'c conn \<Rightarrow> nat list \<Rightarrow> aof_entry list \<Rightarrow> 'c \<Rightarrow> 'c" where
  "run_aof_worker cn cuts [] c = c"
| "run_aof_worker cn [] es c = c"
| "run_aof_worker cn (n # cuts) es c =
     (let m = max 1 (min n AOF_BATCH_MAX) in
      run_aof_worker cn cuts (drop m es) (fst (flush_aof_batch cn (take m es) c)))"

end
