(* ===== verification/Persist_Tables.thy ===== *)
theory Persist_Tables
  imports Persist_Sql "HOL-Library.Product_Lexorder"
begin

text \<open>
  What the persistence layer relies on in the SQL library: the tables as maps, the effect of every statement on them,
  transactions that fall back as a whole, and queries that return the rows. \<open>sql_laws\<close> says that a connection behaves
  so; \<open>mem_conn\<close> is a connection that does.
\<close>

section \<open>The tables\<close>

text \<open>The rows of all tables that belong to one key of one database.\<close>

record krows =
  kr_kv :: "(int \<times> bytes \<times> int option) option"
  kr_list :: "int \<rightharpoonup> bytes"
  kr_set :: "bytes set"
  kr_hash :: "bytes \<rightharpoonup> bytes"
  kr_zset :: "bytes \<rightharpoonup> f64 option"
  kr_stream :: "bytes \<times> int \<rightharpoonup> bytes \<times> bytes"

definition no_rows :: krows where
  "no_rows = \<lparr>kr_kv = None, kr_list = Map.empty, kr_set = {}, kr_hash = Map.empty, kr_zset = Map.empty,
     kr_stream = Map.empty\<rparr>"

text \<open>All rows, and the append-only log.\<close>

type_synonym store = "(int \<times> bytes \<Rightarrow> krows) \<times> (int \<times> bytes) list"

text \<open>With an open transaction, also the contents before it.\<close>

type_synonym sql_state = "store \<times> store option"

text \<open>An insertion under a primary key that is taken violates the constraint.\<close>

definition add_row :: "'k \<Rightarrow> 'v \<Rightarrow> ('k \<rightharpoonup> 'v) \<Rightarrow> ('k \<rightharpoonup> 'v) option" where
  "add_row k v m = (if m k = None then Some (m(k \<mapsto> v)) else None)"

text \<open>\<open>sc\<close> is what a column of type \<open>REAL\<close> gives back for a number, \<open>None\<close> for \<open>NULL\<close>.\<close>

fun row_effect :: "(f64 \<Rightarrow> f64 option) \<Rightarrow> key_stmt \<Rightarrow> krows \<Rightarrow> krows option" where
  "row_effect sc (PutKv t b x) r = Some (r\<lparr>kr_kv := Some (t, b, x)\<rparr>)"
| "row_effect sc DelKv r = Some (r\<lparr>kr_kv := None\<rparr>)"
| "row_effect sc (Clear ListItems) r = Some (r\<lparr>kr_list := Map.empty\<rparr>)"
| "row_effect sc (Clear SetItems) r = Some (r\<lparr>kr_set := {}\<rparr>)"
| "row_effect sc (Clear HashItems) r = Some (r\<lparr>kr_hash := Map.empty\<rparr>)"
| "row_effect sc (Clear ZsetItems) r = Some (r\<lparr>kr_zset := Map.empty\<rparr>)"
| "row_effect sc (Clear StreamEntries) r = Some (r\<lparr>kr_stream := Map.empty\<rparr>)"
| "row_effect sc (AddList i b) r = map_option (\<lambda>m. r\<lparr>kr_list := m\<rparr>) (add_row i b (kr_list r))"
| "row_effect sc (AddSet b) r = (if b \<in> kr_set r then None else Some (r\<lparr>kr_set := insert b (kr_set r)\<rparr>))"
| "row_effect sc (AddHash f b) r = map_option (\<lambda>m. r\<lparr>kr_hash := m\<rparr>) (add_row f b (kr_hash r))"
| "row_effect sc (AddZset e s) r = map_option (\<lambda>m. r\<lparr>kr_zset := m\<rparr>) (add_row e (sc s) (kr_zset r))"
| "row_effect sc (AddStream xid i f b) r =
     map_option (\<lambda>m. r\<lparr>kr_stream := m\<rparr>) (add_row (xid, i) (f, b) (kr_stream r))"

fun rows_effect :: "(f64 \<Rightarrow> f64 option) \<Rightarrow> key_stmt list \<Rightarrow> krows \<Rightarrow> krows option" where
  "rows_effect sc [] r = Some r"
| "rows_effect sc (s # ss) r = Option.bind (row_effect sc s r) (rows_effect sc ss)"

fun stmt_effect :: "(f64 \<Rightarrow> f64 option) \<Rightarrow> sql \<Rightarrow> sql_state \<Rightarrow> sql_state option" where
  "stmt_effect sc Begin (S, None) = Some (S, Some S)"
| "stmt_effect sc Begin (S, Some S0) = None"
| "stmt_effect sc Commit (S, None) = None"
| "stmt_effect sc Commit (S, Some S0) = Some (S, None)"
| "stmt_effect sc Rollback (S, None) = None"
| "stmt_effect sc Rollback (S, Some S0) = Some (S0, None)"
| "stmt_effect sc (On d k st) ((T, L), saved) =
     map_option (\<lambda>r. ((T((d, k) := r), L), saved)) (row_effect sc st (T (d, k)))"
| "stmt_effect sc (LogCmd d e) ((T, L), saved) = Some ((T, L @ [(d, e)]), saved)"

fun stmts_effect :: "(f64 \<Rightarrow> f64 option) \<Rightarrow> sql list \<Rightarrow> sql_state \<Rightarrow> sql_state option" where
  "stmts_effect sc [] a = Some a"
| "stmts_effect sc (s # ss) a = Option.bind (stmt_effect sc s a) (stmts_effect sc ss)"

section \<open>The laws\<close>

text \<open>A statement that fails changes nothing, unless the failure has rolled the open transaction back.\<close>

definition fell_back :: "sql_state \<Rightarrow> sql_state \<Rightarrow> bool" where
  "fell_back a a' \<longleftrightarrow> a' = a \<or> (\<exists>S. snd a = Some S \<and> a' = (S, None))"

definition exec_law :: "(f64 \<Rightarrow> f64 option) \<Rightarrow> sql \<Rightarrow> sql_state \<Rightarrow> sql_state \<times> bool \<Rightarrow> bool" where
  "exec_law sc s a out \<longleftrightarrow>
     (if snd out then stmt_effect sc s a = Some (fst out) else fell_back a (fst out)) \<and>
     (s = Rollback \<longrightarrow> snd (fst out) = None)"

text \<open>The rows that a query has to return: every row once, in the order of the primary key where the query has
  \<open>ORDER BY\<close> with all of its columns.\<close>

definition is_rows :: "('k \<rightharpoonup> 'v) \<Rightarrow> ('k \<times> 'v) list \<Rightarrow> bool" where
  "is_rows m rows \<longleftrightarrow> distinct (map fst rows) \<and> map_of rows = m"

definition is_ordered_rows :: "('k::linorder \<rightharpoonup> 'v) \<Rightarrow> ('k \<times> 'v) list \<Rightarrow> bool" where
  "is_ordered_rows m rows \<longleftrightarrow> sorted_wrt (<) (map fst rows) \<and> map_of rows = m"

definition kv_table :: "(int \<times> bytes \<Rightarrow> krows) \<Rightarrow> int \<times> bytes \<rightharpoonup> int \<times> bytes option \<times> int option" where
  "kv_table T p = map_option (\<lambda>(t, b, x). (t, Some b, x)) (kr_kv (T p))"

definition query_laws :: "'c conn \<Rightarrow> 'c \<Rightarrow> (int \<times> bytes \<Rightarrow> krows) \<Rightarrow> bool" where
  "query_laws cn c T \<longleftrightarrow>
     (\<forall>rows. c_kv cn c = (rows, True) \<longrightarrow> is_rows (kv_table T) (map (\<lambda>(d, k, r). ((d, k), r)) rows)) \<and>
     (\<forall>d ks. c_keys cn d c = Some ks \<longrightarrow> set ks = {k. kr_kv (T (d, k)) \<noteq> None}) \<and>
     (\<forall>d k rows. c_list cn d k c = Some rows \<longrightarrow>
        (\<exists>irows. is_ordered_rows (kr_list (T (d, k))) irows \<and> rows = map snd irows)) \<and>
     (\<forall>d k rows. c_set cn d k c = Some rows \<longrightarrow> distinct rows \<and> set rows = kr_set (T (d, k))) \<and>
     (\<forall>d k rows. c_hash cn d k c = Some rows \<longrightarrow> is_rows (kr_hash (T (d, k))) rows) \<and>
     (\<forall>d k rows. c_zset cn d k c = Some rows \<longrightarrow> is_rows (kr_zset (T (d, k))) rows) \<and>
     (\<forall>d k rows. c_stream cn d k c = Some rows \<longrightarrow>
        is_ordered_rows (kr_stream (T (d, k))) (map (\<lambda>(xid, i, f, b). ((xid, i), f, b)) rows))"

text \<open>\<open>\<alpha>\<close> is the state of the tables that a connection stands for.\<close>

definition sql_laws :: "(f64 \<Rightarrow> f64 option) \<Rightarrow> 'c conn \<Rightarrow> ('c \<Rightarrow> sql_state) \<Rightarrow> bool" where
  "sql_laws sc cn \<alpha> \<longleftrightarrow>
     (\<forall>s c. exec_law sc s (\<alpha> c) (map_prod \<alpha> id (c_exec cn s c))) \<and>
     (\<forall>c. query_laws cn c (fst (fst (\<alpha> c))))"

text \<open>A connection that fails only where a statement has no effect, and whose queries return.\<close>

definition reliable :: "(f64 \<Rightarrow> f64 option) \<Rightarrow> 'c conn \<Rightarrow> ('c \<Rightarrow> sql_state) \<Rightarrow> bool" where
  "reliable sc cn \<alpha> \<longleftrightarrow>
     (\<forall>s c. stmt_effect sc s (\<alpha> c) \<noteq> None \<longrightarrow> snd (c_exec cn s c)) \<and>
     (\<forall>c. snd (c_kv cn c) \<and>
        (\<forall>d k. c_keys cn d c \<noteq> None \<and> c_list cn d k c \<noteq> None \<and> c_set cn d k c \<noteq> None \<and>
           c_hash cn d k c \<noteq> None \<and> c_zset cn d k c \<noteq> None \<and> c_stream cn d k c \<noteq> None))"

text \<open>What is on disk: while a transaction is open, the contents before it.\<close>

definition durable :: "sql_state \<Rightarrow> store" where
  "durable a = (case snd a of Some S \<Rightarrow> S | None \<Rightarrow> fst a)"

section \<open>Sequences of statements\<close>

lemma fell_back_durable: "fell_back a a' \<Longrightarrow> durable a' = durable a"
  by (auto simp: fell_back_def durable_def)

lemma law_done: "sql_laws sc cn \<alpha> \<Longrightarrow> c_exec cn s c = (c', True) \<Longrightarrow> stmt_effect sc s (\<alpha> c) = Some (\<alpha> c')"
  unfolding sql_laws_def exec_law_def by (metis fst_conv id_apply map_prod_simp snd_conv)

lemma law_failed: "sql_laws sc cn \<alpha> \<Longrightarrow> c_exec cn s c = (c', False) \<Longrightarrow> fell_back (\<alpha> c) (\<alpha> c')"
  unfolding sql_laws_def exec_law_def by (metis fst_conv id_apply map_prod_simp snd_conv)

lemma law_rollback:
  assumes "sql_laws sc cn \<alpha>" and "c_exec cn Rollback c = (c', dn)"
  shows "snd (\<alpha> c') = None" and "fst (\<alpha> c') = durable (\<alpha> c)"
proof -
  show none: "snd (\<alpha> c') = None"
    using assms unfolding sql_laws_def exec_law_def by (metis fst_conv map_prod_simp)
  obtain S saved where a: "\<alpha> c = (S, saved)" by fastforce
  show "fst (\<alpha> c') = durable (\<alpha> c)"
  proof (cases dn)
    case True
    then have "stmt_effect sc Rollback (\<alpha> c) = Some (\<alpha> c')" using law_done [OF assms(1)] assms(2) by simp
    then show ?thesis by (cases saved) (auto simp: a durable_def dest: sym)
  next
    case False
    then have "fell_back (\<alpha> c) (\<alpha> c')" using law_failed [OF assms(1)] assms(2) by simp
    then show ?thesis using none by (auto simp: fell_back_def durable_def a)
  qed
qed

lemma law_reliable: "reliable sc cn \<alpha> \<Longrightarrow> stmt_effect sc s (\<alpha> c) \<noteq> None \<Longrightarrow> snd (c_exec cn s c)"
  by (simp add: reliable_def)

text \<open>The statements inside a transaction.\<close>

definition in_transaction :: "sql \<Rightarrow> bool" where
  "in_transaction s \<longleftrightarrow> s \<notin> {Begin, Commit, Rollback}"

lemma in_transaction_simps [simp]: "in_transaction (On d k st)" "in_transaction (LogCmd d e)"
  by (simp_all add: in_transaction_def)

lemma in_transaction_saved: "in_transaction s \<Longrightarrow> stmt_effect sc s a = Some a' \<Longrightarrow> snd a' = snd a"
  by (cases "(sc, s, a)" rule: stmt_effect.cases) (auto simp: in_transaction_def)

lemma stmts_saved: "list_all in_transaction ss \<Longrightarrow> stmts_effect sc ss a = Some a' \<Longrightarrow> snd a' = snd a"
proof (induction ss arbitrary: a)
  case (Cons s ss)
  then show ?case by (cases "stmt_effect sc s a") (auto dest: in_transaction_saved)
qed simp

lemma exec_all_done:
  assumes "sql_laws sc cn \<alpha>"
  shows "exec_all cn ss c = (c', True) \<Longrightarrow> stmts_effect sc ss (\<alpha> c) = Some (\<alpha> c')"
proof (induction ss arbitrary: c)
  case (Cons s ss)
  then show ?case using law_done [OF assms, of s c] by (auto split: prod.splits if_splits)
qed simp

lemma exec_all_failed:
  assumes "sql_laws sc cn \<alpha>"
  shows "exec_all cn ss c = (c', False) \<Longrightarrow> list_all in_transaction ss \<Longrightarrow> snd (\<alpha> c) \<noteq> None \<Longrightarrow>
    durable (\<alpha> c') = durable (\<alpha> c)"
proof (induction ss arbitrary: c)
  case (Cons s ss)
  obtain c1 dn where s: "c_exec cn s c = (c1, dn)" by fastforce
  show ?case
  proof (cases dn)
    case True
    have same: "snd (\<alpha> c1) = snd (\<alpha> c)"
      using in_transaction_saved [of s sc "\<alpha> c"] law_done [OF assms] s True Cons.prems(2) by auto
    then have "durable (\<alpha> c1) = durable (\<alpha> c)" using Cons.prems(3) by (auto simp: durable_def)
    then show ?thesis using Cons.IH [of c1] Cons.prems same s True by simp
  next
    case False
    then show ?thesis using Cons.prems(1) s fell_back_durable law_failed [OF assms] by auto
  qed
qed simp

lemma exec_all_reliable:
  assumes "sql_laws sc cn \<alpha>" and "reliable sc cn \<alpha>"
  shows "stmts_effect sc ss (\<alpha> c) \<noteq> None \<Longrightarrow> snd (exec_all cn ss c)"
proof (induction ss arbitrary: c)
  case (Cons s ss)
  obtain c1 dn where s: "c_exec cn s c = (c1, dn)" by fastforce
  have "stmt_effect sc s (\<alpha> c) \<noteq> None" using Cons.prems by (cases "stmt_effect sc s (\<alpha> c)") auto
  then have dn using law_reliable [OF assms(2)] s by fastforce
  then have "stmt_effect sc s (\<alpha> c) = Some (\<alpha> c1)" using law_done [OF assms(1)] s by simp
  then show ?case using Cons.IH [of c1] Cons.prems s \<open>dn\<close> by simp
qed simp

lemma stmts_effect_append:
  "stmts_effect sc (xs @ ys) a = Option.bind (stmts_effect sc xs a) (stmts_effect sc ys)"
  by (induction xs arbitrary: a) (auto split: bind_splits)

lemma stmts_on_key:
  "stmts_effect sc (map (On d k) ss) ((T, L), saved) =
     map_option (\<lambda>r. ((T((d, k) := r), L), saved)) (rows_effect sc ss (T (d, k)))"
proof (induction ss arbitrary: T)
  case (Cons s ss)
  then show ?case by (cases "row_effect sc s (T (d, k))") (auto simp: option.map_comp comp_def fun_upd_same simp del: fun_upd_apply)
qed simp

lemma stmts_log: "stmts_effect sc (map (\<lambda>e. LogCmd (f e) (g e)) es) ((T, L), saved) =
    Some ((T, L @ map (\<lambda>e. (f e, g e)) es), saved)"
  by (induction es arbitrary: L) simp_all

lemma rows_effect_append:
  "rows_effect sc (xs @ ys) r = Option.bind (rows_effect sc xs r) (rows_effect sc ys)"
  by (induction xs arbitrary: r) (auto split: bind_splits)

end
