(* ===== verification/Persist_Facts.thy ===== *)
theory Persist_Facts
  imports Persist_Tables
begin

text \<open>
  \<open>SAVE\<close> and the load at the start, over any SQL library that follows \<open>sql_laws\<close>: a snapshot is written as a whole or
  not at all, and loading it gives the databases back.
\<close>

section \<open>What the statements of one key write\<close>

fun add_rows :: "('k \<times> 'v) list \<Rightarrow> ('k \<rightharpoonup> 'v) \<Rightarrow> ('k \<rightharpoonup> 'v) option" where
  "add_rows [] m = Some m"
| "add_rows ((k, v) # ps) m = Option.bind (add_row k v m) (add_rows ps)"

lemma add_rows_Some:
  "add_rows ps m = Some m' \<longleftrightarrow> distinct (map fst ps) \<and> fst ` set ps \<inter> dom m = {} \<and> m' = m ++ map_of ps"
proof (induction ps arbitrary: m)
  case (Cons p ps)
  obtain k v where p: "p = (k, v)" by fastforce
  have "k \<notin> fst ` set ps \<Longrightarrow> m(k \<mapsto> v) ++ map_of ps = m ++ map_of (p # ps)"
    by (simp add: p map_add_upd_left dom_map_of_conv_image_fst del: fun_upd_apply)
  then show ?case
    by (cases "m k") (auto simp: p add_row_def Cons.IH simp del: fun_upd_apply)
qed auto

lemma rows_list:
  "rows_effect sc (map (\<lambda>(i, b). AddList (int i) b) ps) r =
     map_option (\<lambda>m. r\<lparr>kr_list := m\<rparr>) (add_rows (map (\<lambda>(i, b). (int i, b)) ps) (kr_list r))"
proof (induction ps arbitrary: r)
  case (Cons p ps)
  then show ?case by (cases p; cases "add_row (int (fst p)) (snd p) (kr_list r)") (auto simp: option.map_comp comp_def)
qed simp

lemma rows_hash:
  "rows_effect sc (map (\<lambda>(f, b). AddHash f b) ps) r = map_option (\<lambda>m. r\<lparr>kr_hash := m\<rparr>) (add_rows ps (kr_hash r))"
proof (induction ps arbitrary: r)
  case (Cons p ps)
  then show ?case by (cases p; cases "add_row (fst p) (snd p) (kr_hash r)") (auto simp: option.map_comp comp_def)
qed simp

lemma rows_zset:
  "rows_effect sc (map (\<lambda>(e, s). AddZset e s) ps) r =
     map_option (\<lambda>m. r\<lparr>kr_zset := m\<rparr>) (add_rows (map (\<lambda>(e, s). (e, sc s)) ps) (kr_zset r))"
proof (induction ps arbitrary: r)
  case (Cons p ps)
  then show ?case by (cases p; cases "add_row (fst p) (sc (snd p)) (kr_zset r)") (auto simp: option.map_comp comp_def)
qed simp

text \<open>The rows of a stream: one for each field.\<close>

definition entry_rows :: "bytes \<Rightarrow> (bytes \<times> bytes) list \<Rightarrow> ((bytes \<times> int) \<times> bytes \<times> bytes) list" where
  "entry_rows xid flds = map (\<lambda>(i, f, b). ((xid, int i), f, b)) (enumerate 0 flds)"

definition stream_rows :: "stream_items \<Rightarrow> ((bytes \<times> int) \<times> bytes \<times> bytes) list" where
  "stream_rows xs = concat (map (\<lambda>(xid, flds). entry_rows xid flds) xs)"

lemma stream_stmts_rows: "stream_stmts xs = map (\<lambda>((xid, i), f, b). AddStream xid i f b) (stream_rows xs)"
  unfolding stream_stmts_def stream_rows_def map_concat map_map
  by (intro arg_cong [where f = concat] map_cong refl) (auto simp: entry_rows_def)

lemma rows_stream:
  "rows_effect sc (map (\<lambda>((xid, i), f, b). AddStream xid i f b) ps) r =
     map_option (\<lambda>m. r\<lparr>kr_stream := m\<rparr>) (add_rows ps (kr_stream r))"
proof (induction ps arbitrary: r)
  case (Cons p ps)
  obtain xid i f b where p: "p = ((xid, i), f, b)" by (metis surj_pair)
  show ?case by (cases "add_row (xid, i) (f, b) (kr_stream r)") (auto simp: p Cons.IH option.map_comp comp_def)
qed simp

lemma rows_set:
  "rows_effect sc (map AddSet xs) r =
     (if distinct xs \<and> set xs \<inter> kr_set r = {} then Some (r\<lparr>kr_set := kr_set r \<union> set xs\<rparr>) else None)"
  by (induction xs arbitrary: r) auto

fun type_tag :: "val \<Rightarrow> int" where
  "type_tag (String b) = 0" | "type_tag (Int64 n) = 0" | "type_tag (List xs) = 1" | "type_tag (Set xs) = 2"
| "type_tag (Hash h) = 3" | "type_tag (ZSet m) = 4" | "type_tag (Stream xs) = 5"

fun kv_blob :: "val \<Rightarrow> bytes" where
  "kv_blob (String b) = b" | "kv_blob (Int64 n) = i64_to_string n" | "kv_blob v = []"

text \<open>The rows of a key hold a value.\<close>

fun item_rows :: "(f64 \<Rightarrow> f64 option) \<Rightarrow> val \<Rightarrow> krows \<Rightarrow> bool" where
  "item_rows sc (String b) r \<longleftrightarrow> True"
| "item_rows sc (Int64 n) r \<longleftrightarrow> True"
| "item_rows sc (List xs) r \<longleftrightarrow> kr_list r = map_of (map (\<lambda>(i, b). (int i, b)) (enumerate 0 xs))"
| "item_rows sc (Set xs) r \<longleftrightarrow> kr_set r = set xs"
| "item_rows sc (Hash h) r \<longleftrightarrow> kr_hash r = hs_get h"
| "item_rows sc (ZSet m) r \<longleftrightarrow> kr_zset r = (\<lambda>e. map_option sc (hm_get m e))"
| "item_rows sc (Stream xs) r \<longleftrightarrow> distinct (map fst (stream_rows xs)) \<and> kr_stream r = map_of (stream_rows xs)"

definition stored :: "(f64 \<Rightarrow> f64 option) \<Rightarrow> val \<Rightarrow> int option \<Rightarrow> krows \<Rightarrow> bool" where
  "stored sc v x r \<longleftrightarrow> kr_kv r = Some (type_tag v, kv_blob v, x) \<and> item_rows sc v r"

lemma map_of_scores: "map_of (map (\<lambda>(e, s). (e, sc s)) m) = (\<lambda>e. map_option sc (hm_get m e))"
  by (induction m) (auto simp: hm_get_def fun_eq_iff)

lemma entry_stmts_stored:
  assumes "rows_effect sc (entry_stmts v x) r = Some r'"
  shows "stored sc v x r'"
  using assms
  by (cases v)
    (auto simp: entry_stmts_def stored_def write_i64_bytes_eq rows_list rows_hash rows_zset rows_set stream_stmts_rows
      rows_stream add_rows_Some hs_get_iter map_of_scores split: if_splits)

text \<open>Only the constraint on stream entries can be violated, by an identifier that occurs twice.\<close>

fun keyed :: "val \<Rightarrow> bool" where
  "keyed (Stream xs) \<longleftrightarrow> distinct (map fst xs)"
| "keyed v \<longleftrightarrow> True"

lemma enumerate_keys:
  "map fst (map (\<lambda>(i, f, b). ((xid, int i), f, b)) (enumerate n flds)) = map (\<lambda>i. (xid, int i)) [n..<n + length flds]"
  by (induction flds arbitrary: n) (auto simp: upt_rec)

lemma entry_rows_keys: "map fst (entry_rows xid flds) = map (\<lambda>i. (xid, int i)) [0..<length flds]"
  using enumerate_keys [of xid 0 flds] by (simp only: entry_rows_def add_0)

lemma entry_rows_set: "fst ` set (entry_rows xid flds) = (\<lambda>i. (xid, int i)) ` {0..<length flds}"
  using arg_cong [OF entry_rows_keys [of xid flds], of set] by (simp only: set_map set_upt)

lemma stream_rows_simps [simp]:
  "stream_rows [] = []"
  "stream_rows ((xid, flds) # xs) = entry_rows xid flds @ stream_rows xs"
  by (simp_all add: stream_rows_def)

lemma stream_rows_keys: "fst ` set (stream_rows xs) = {(xid, int i) | xid flds i. (xid, flds) \<in> set xs \<and> i < length flds}"
proof (induction xs)
  case (Cons e xs)
  then show ?case by (cases e) (auto simp: image_Un entry_rows_set)
qed simp

lemma stream_rows_distinct: "distinct (map fst xs) \<Longrightarrow> distinct (map fst (stream_rows xs))"
proof (induction xs)
  case (Cons e xs)
  obtain xid flds where e: "e = (xid, flds)" by fastforce
  have "distinct (map fst (entry_rows xid flds))"
    by (simp add: entry_rows_keys distinct_map inj_on_def)
  moreover have "fst ` set (entry_rows xid flds) \<inter> fst ` set (stream_rows xs) = {}"
    using Cons.prems by (auto simp: e entry_rows_set stream_rows_keys image_iff)
  ultimately show ?case using Cons by (simp add: e)
qed simp

lemma list_rows_distinct: "distinct (map fst (map (\<lambda>(i, b). (int i, b)) (enumerate n xs)))"
proof -
  have "map fst (map (\<lambda>(i, b). (int i, b)) (enumerate n xs)) = map int [n..<n + length xs]"
    by (induction xs arbitrary: n) (auto simp: upt_rec)
  then show ?thesis by (simp add: distinct_map)
qed

lemma add_rows_empty: "distinct (map fst ps) \<Longrightarrow> add_rows ps Map.empty = Some (map_of ps)"
  by (simp add: add_rows_Some)

lemma entry_stmts_possible:
  assumes "value_ok v" and "keyed v"
  shows "rows_effect sc (entry_stmts v x) r \<noteq> None"
  using assms
proof (cases v)
  case (ZSet m)
  have "map fst (map (\<lambda>(e, s). (e, sc s)) m) = map fst m" by (induction m) auto
  then have "distinct (map fst (map (\<lambda>(e, s). (e, sc s)) m))" using assms ZSet by (simp add: hm_ok_def del: map_map)
  then show ?thesis by (simp add: ZSet entry_stmts_def rows_zset add_rows_empty del: map_map)
next
  case (Hash h)
  then have "distinct (map fst (hs_iter h))" using assms(1) by (cases h) (auto simp: hm_ok_def)
  then show ?thesis by (simp add: Hash entry_stmts_def rows_hash add_rows_empty)
next
  case (List xs)
  then show ?thesis by (simp add: entry_stmts_def rows_list add_rows_empty [OF list_rows_distinct])
next
  case (Stream xs)
  then have "distinct (map fst (stream_rows xs))" using assms(2) stream_rows_distinct by simp
  then show ?thesis by (simp add: Stream entry_stmts_def stream_stmts_rows rows_stream add_rows_empty)
qed (auto simp: entry_stmts_def rows_set)

section \<open>The snapshot\<close>

text \<open>What the upserts leave: the rows of the entries, and the rest as it was.\<close>

lemma write_stmts_Cons:
  "write_stmts ((i, k, v, x) # es) = map (On i k) (entry_stmts v (map_option sint x)) @ write_stmts es"
  by (simp add: write_stmts_def)

lemma live_pairs_Cons: "live_pairs ((i, k, v, x) # es) = (i, k) # live_pairs es"
  by (simp add: live_pairs_def)

lemma write_stored:
  assumes "stmts_effect sc (write_stmts es) ((T, L), saved) = Some a" and "distinct (live_pairs es)"
  shows "\<exists>T'. a = ((T', L), saved) \<and> (\<forall>p. p \<notin> set (live_pairs es) \<longrightarrow> T' p = T p) \<and>
    (\<forall>(i, k, v, x) \<in> set es. stored sc v (map_option sint x) (T' (i, k)))"
  using assms
proof (induction es arbitrary: T)
  case Nil
  then show ?case by (auto simp: write_stmts_def)
next
  case (Cons e es)
  obtain i k v x where e: "e = (i, k, v, x)" by (cases e)
  obtain r where r: "rows_effect sc (entry_stmts v (map_option sint x)) (T (i, k)) = Some r"
    using Cons.prems(1) by (cases "rows_effect sc (entry_stmts v (map_option sint x)) (T (i, k))")
      (auto simp: e write_stmts_Cons stmts_effect_append stmts_on_key)
  have rest: "stmts_effect sc (write_stmts es) ((T((i, k) := r), L), saved) = Some a"
    using Cons.prems(1) by (simp add: e write_stmts_Cons stmts_effect_append stmts_on_key r del: fun_upd_apply)
  have new: "(i, k) \<notin> set (live_pairs es)" and dis: "distinct (live_pairs es)"
    using Cons.prems(2) by (simp_all add: e live_pairs_Cons)
  obtain T' where T': "a = ((T', L), saved)" "\<And>p. p \<notin> set (live_pairs es) \<Longrightarrow> T' p = (T((i, k) := r)) p"
    "\<forall>(i, k, v, x) \<in> set es. stored sc v (map_option sint x) (T' (i, k))"
    using Cons.IH [OF rest dis] by blast
  have "stored sc v (map_option sint x) (T' (i, k))"
    using entry_stmts_stored [OF r] T'(2) [OF new] by simp
  moreover have "T' p = T p" if "p \<notin> set (live_pairs (e # es))" for p
    using T'(2) [of p] that by (auto simp: e live_pairs_Cons)
  ultimately show ?case using T'(1,3) by (auto simp: e)
qed

lemma write_possible:
  assumes "\<forall>(i, k, v, x) \<in> set es. value_ok v \<and> keyed v"
  shows "stmts_effect sc (write_stmts es) ((T, L), saved) \<noteq> None"
  using assms
proof (induction es arbitrary: T)
  case Nil
  then show ?case by (simp add: write_stmts_def)
next
  case (Cons e es)
  obtain i k v x where e: "e = (i, k, v, x)" by (cases e)
  have "rows_effect sc (entry_stmts v (map_option sint x)) (T (i, k)) \<noteq> None"
    using entry_stmts_possible Cons.prems by (simp add: e)
  then obtain r where r: "rows_effect sc (entry_stmts v (map_option sint x)) (T (i, k)) = Some r" by blast
  have "stmts_effect sc (write_stmts es) ((T((i, k) := r), L), saved) \<noteq> None"
    using Cons.IH Cons.prems by (simp add: e)
  then show ?case by (simp add: e write_stmts_Cons stmts_effect_append stmts_on_key r)
qed

lemma in_transaction_write: "list_all in_transaction (write_stmts es)"
  by (auto simp: write_stmts_def list_all_iff)

text \<open>Forgetting keys.\<close>

lemma forget_effect:
  "stmts_effect sc (forget_stmts i ks) ((T, L), saved) =
     Some ((\<lambda>p. if fst p = i \<and> snd p \<in> set ks then no_rows else T p, L), saved)"
proof (induction ks arbitrary: T)
  case Nil
  then show ?case by (simp add: forget_stmts_def)
next
  case (Cons k ks)
  have one: "rows_effect sc [DelKv, Clear ListItems, Clear SetItems, Clear HashItems, Clear ZsetItems, Clear StreamEntries] r =
      Some no_rows" for r
    by (simp add: no_rows_def)
  have "forget_stmts i (k # ks) = map (On i k)
      [DelKv, Clear ListItems, Clear SetItems, Clear HashItems, Clear ZsetItems, Clear StreamEntries] @ forget_stmts i ks"
    by (simp add: forget_stmts_def)
  then show ?case
    by (simp only: stmts_effect_append stmts_on_key one option.map bind.bind_lunit Cons.IH) (auto simp: fun_eq_iff)
qed

lemma in_transaction_forget: "list_all in_transaction (forget_stmts i ks)"
  by (auto simp: forget_stmts_def list_all_iff)

lemma keys_law: "sql_laws sc cn \<alpha> \<Longrightarrow> c_keys cn d c = Some ks \<Longrightarrow>
    set ks = {k. kr_kv (fst (fst (\<alpha> c)) (d, k)) \<noteq> None}"
  by (simp add: sql_laws_def query_laws_def)

lemma remove_stale_done:
  assumes "sql_laws sc cn \<alpha>"
  shows "remove_stale cn alive js c = (c', True) \<Longrightarrow> \<alpha> c = ((T, L), saved) \<Longrightarrow>
    \<exists>T'. \<alpha> c' = ((T', L), saved) \<and> (\<forall>p \<in> set alive. T' p = T p) \<and>
      (\<forall>i k. (kr_kv (T (i, k)) = None \<or> (\<exists>j \<in> set js. i = int j)) \<and> (i, k) \<notin> set alive \<longrightarrow> kr_kv (T' (i, k)) = None)"
proof (induction js arbitrary: c T)
  case (Cons i js)
  obtain keys where keys: "c_keys cn (int i) c = Some keys"
    using Cons.prems(1) by (auto split: option.splits)
  let ?ss = "forget_stmts (int i) (filter (\<lambda>k. (int i, k) \<notin> set alive) keys)"
  obtain c1 dn where ex: "exec_all cn ?ss c = (c1, dn)" by fastforce
  have dn and rest: "remove_stale cn alive js c1 = (c', True)"
    using Cons.prems(1) keys ex by (auto split: if_splits)
  let ?T = "\<lambda>p. if fst p = int i \<and> snd p \<in> set (filter (\<lambda>k. (int i, k) \<notin> set alive) keys) then no_rows else T p"
  have "\<alpha> c1 = ((?T, L), saved)"
    using exec_all_done [OF assms, of ?ss c c1] ex \<open>dn\<close> Cons.prems(2) forget_effect by simp
  from Cons.IH [OF rest this] obtain T' where T': "\<alpha> c' = ((T', L), saved)" "\<forall>p \<in> set alive. T' p = ?T p"
    "\<forall>i k. (kr_kv (?T (i, k)) = None \<or> (\<exists>j \<in> set js. i = int j)) \<and> (i, k) \<notin> set alive \<longrightarrow> kr_kv (T' (i, k)) = None"
    by blast
  have set_keys: "set keys = {k. kr_kv (T (int i, k)) \<noteq> None}"
    using keys_law [OF assms keys] Cons.prems(2) by simp
  have a: "\<forall>p \<in> set alive. T' p = T p" using T'(2) by auto
  have b: "kr_kv (T' (j, k)) = None"
    if "kr_kv (T (j, k)) = None \<or> (\<exists>l \<in> set (i # js). j = int l)" and "(j, k) \<notin> set alive" for j k
  proof (cases "j = int i")
    case True
    then have "kr_kv (?T (j, k)) = None" using that set_keys
      by (cases "kr_kv (T (int i, k))") (auto simp: no_rows_def)
    with that(2) show ?thesis by (intro T'(3) [rule_format] conjI disjI1)
  next
    case False
    then have "kr_kv (?T (j, k)) = None \<or> (\<exists>l \<in> set js. j = int l)" using that by auto
    with that(2) show ?thesis by (intro T'(3) [rule_format] conjI)
  qed
  show ?case
    by (intro exI [of _ T'] conjI allI impI T'(1) a b) auto
qed auto

lemma remove_stale_failed:
  assumes "sql_laws sc cn \<alpha>"
  shows "remove_stale cn alive js c = (c', False) \<Longrightarrow> snd (\<alpha> c) \<noteq> None \<Longrightarrow> durable (\<alpha> c') = durable (\<alpha> c)"
proof (induction js arbitrary: c)
  case (Cons i js)
  show ?case
  proof (cases "c_keys cn (int i) c")
    case None
    then show ?thesis using Cons.prems by simp
  next
    case (Some keys)
    let ?ss = "forget_stmts (int i) (filter (\<lambda>k. (int i, k) \<notin> set alive) keys)"
    obtain c1 dn where ex: "exec_all cn ?ss c = (c1, dn)" by fastforce
    show ?thesis
    proof (cases dn)
      case True
      have "exec_all cn ?ss c = (c1, True)" using ex True by simp
      then have "snd (\<alpha> c1) = snd (\<alpha> c)"
        by (rule stmts_saved [OF in_transaction_forget exec_all_done [OF assms]])
      moreover from this have "durable (\<alpha> c1) = durable (\<alpha> c)" using Cons.prems(2) by (auto simp: durable_def)
      ultimately show ?thesis using Cons.IH [of c1] Cons.prems ex Some True by simp
    next
      case False
      then show ?thesis
        using exec_all_failed [OF assms, of ?ss c c1] in_transaction_forget ex Some Cons.prems by simp
    qed
  qed
qed simp

lemma remove_stale_reliable:
  assumes "sql_laws sc cn \<alpha>" and "reliable sc cn \<alpha>"
  shows "snd (remove_stale cn alive js c)"
proof (induction js arbitrary: c)
  case (Cons i js)
  have "c_keys cn (int i) c \<noteq> None" using assms(2) unfolding reliable_def by blast
  then obtain keys where keys: "c_keys cn (int i) c = Some keys" by blast
  obtain T L saved where a: "\<alpha> c = ((T, L), saved)" by (metis surj_pair)
  have "snd (exec_all cn (forget_stmts (int i) (filter (\<lambda>k. (int i, k) \<notin> set alive) keys)) c)"
    using exec_all_reliable [OF assms] by (simp add: a forget_effect)
  then show ?case using Cons.IH keys by (auto split: prod.splits)
qed simp

subsection \<open>The entries of all databases\<close>

text \<open>The entry of a key that a snapshot takes: swept with the clock of its bucket.\<close>

definition swept :: "(nat \<Rightarrow> nat \<Rightarrow> u64) \<Rightarrow> nat \<Rightarrow> bytes \<Rightarrow> db list \<Rightarrow> entry option" where
  "swept clk i k ds = live (clk i (shard_index k)) (db_get (ds ! i) k)"

lemma db_entries:
  assumes "db_ok d"
  shows "distinct (map fst (snd (db_snapshot_items clock d)))"
    and "(k, v, x) \<in> set (snd (db_snapshot_items clock d)) \<longleftrightarrow>
      live (clock (shard_index k)) (db_get d k) = Some \<lparr>e_value = v, expires_at = x\<rparr>"
proof -
  let ?ps = "concat (map data (shards (db_purge_expired_all clock d)))"
  note pp = purged_pairs [OF assms, of clock]
  show "distinct (map fst (snd (db_snapshot_items clock d)))"
    using pp(1) by (simp add: db_readers_collect comp_def case_prod_beta)
  have "(k, v, x) \<in> set (snd (db_snapshot_items clock d)) \<longleftrightarrow> (k, \<lparr>e_value = v, expires_at = x\<rparr>) \<in> set ?ps"
    unfolding db_readers_collect by (rule in_snapshot)
  also have "\<dots> \<longleftrightarrow> db_get (db_purge_expired_all clock d) k = Some \<lparr>e_value = v, expires_at = x\<rparr>"
    using pp by (metis map_of_eq_Some_iff)
  finally show "(k, v, x) \<in> set (snd (db_snapshot_items clock d)) \<longleftrightarrow>
      live (clock (shard_index k)) (db_get d k) = Some \<lparr>e_value = v, expires_at = x\<rparr>"
    by (simp only: db_purge(2) [OF assms])
qed

lemma in_snapshot_entries:
  assumes "\<forall>d \<in> set ds. db_ok d"
  shows "(j, k, v, x) \<in> set (snapshot_entries clk ds) \<longleftrightarrow>
    (\<exists>i < length ds. j = int i \<and> swept clk i k ds = Some \<lparr>e_value = v, expires_at = x\<rparr>)"
proof -
  have "(j, k, v, x) \<in> set (snapshot_entries clk ds) \<longleftrightarrow>
      (\<exists>i < length ds. j = int i \<and> (k, v, x) \<in> set (snd (db_snapshot_items (clk i) (ds ! i))))"
    by (auto simp: snapshot_entries_def)
  also have "\<dots> \<longleftrightarrow> (\<exists>i < length ds. j = int i \<and> swept clk i k ds = Some \<lparr>e_value = v, expires_at = x\<rparr>)"
    using assms db_entries(2) by (simp add: swept_def) (metis nth_mem)
  finally show ?thesis .
qed

lemma some_entry: "(\<exists>v x. c = Some \<lparr>e_value = v, expires_at = x\<rparr>) \<longleftrightarrow> c \<noteq> None"
proof (cases c)
  case (Some e)
  then have "c = Some \<lparr>e_value = e_value e, expires_at = expires_at e\<rparr>" by simp
  then show ?thesis using Some by blast
qed simp

lemma live_pairs_swept:
  assumes "\<forall>d \<in> set ds. db_ok d"
  shows "distinct (live_pairs (snapshot_entries clk ds))"
    and "(j, k) \<in> set (live_pairs (snapshot_entries clk ds)) \<longleftrightarrow> (\<exists>i < length ds. j = int i \<and> swept clk i k ds \<noteq> None)"
proof -
  have "distinct (live_pairs (concat (map (\<lambda>i. map (\<lambda>e. (int i, e)) (snd (db_snapshot_items (clk i) (ds ! i)))) [0..<n])))"
    if "n \<le> length ds" for n
    using that
  proof (induction n)
    case (Suc n)
    have "distinct (map fst (snd (db_snapshot_items (clk n) (ds ! n))))"
      using db_entries(1) assms Suc.prems by simp
    moreover have "live_pairs (map (\<lambda>e. (int n, e)) es) = map (Pair (int n)) (map fst es)" for es
      by (induction es) (auto simp: live_pairs_def)
    moreover have "live_pairs (xs @ ys) = live_pairs xs @ live_pairs ys" for xs ys
      by (simp add: live_pairs_def)
    ultimately show ?case
      using Suc by (auto simp: distinct_map inj_on_def) (auto simp: live_pairs_def)
  qed (simp add: live_pairs_def)
  from this [of "length ds"] show "distinct (live_pairs (snapshot_entries clk ds))"
    by (simp add: snapshot_entries_def)
  have "(j, k) \<in> set (live_pairs (snapshot_entries clk ds)) \<longleftrightarrow> (\<exists>v x. (j, k, v, x) \<in> set (snapshot_entries clk ds))"
    by (force simp: live_pairs_def)
  also have "\<dots> \<longleftrightarrow> (\<exists>i < length ds. j = int i \<and> (\<exists>v x. swept clk i k ds = Some \<lparr>e_value = v, expires_at = x\<rparr>))"
    using in_snapshot_entries [OF assms] by blast
  also have "\<dots> \<longleftrightarrow> (\<exists>i < length ds. j = int i \<and> swept clk i k ds \<noteq> None)"
    by (simp add: some_entry)
  finally show "(j, k) \<in> set (live_pairs (snapshot_entries clk ds)) \<longleftrightarrow>
      (\<exists>i < length ds. j = int i \<and> swept clk i k ds \<noteq> None)" .
qed

text \<open>The rows of a key hold the entry of the key, or nothing.\<close>

fun holds :: "(f64 \<Rightarrow> f64 option) \<Rightarrow> entry option \<Rightarrow> krows \<Rightarrow> bool" where
  "holds sc None r \<longleftrightarrow> kr_kv r = None"
| "holds sc (Some e) r \<longleftrightarrow> stored sc (e_value e) (map_option sint (expires_at e)) r"

lemma snapshot_inner_done:
  assumes "sql_laws sc cn \<alpha>" and "\<forall>d \<in> set ds. db_ok d"
    and "snapshot_inner cn clk ds c = (c', True)" and "\<alpha> c = ((T, L), saved)"
  shows "\<exists>T'. \<alpha> c' = ((T', L), saved) \<and> (\<forall>i < length ds. \<forall>k. holds sc (swept clk i k ds) (T' (int i, k)))"
proof -
  let ?es = "snapshot_entries clk ds"
  obtain c1 where ex: "exec_all cn (write_stmts ?es) c = (c1, True)"
    and rm: "remove_stale cn (live_pairs ?es) [0..<length ds] c1 = (c', True)"
    using assms(3) by (auto simp: snapshot_inner_def Let_def split: prod.splits if_splits)
  note lp = live_pairs_swept [OF assms(2)]
  obtain T1 where T1: "\<alpha> c1 = ((T1, L), saved)"
    "\<forall>(i, k, v, x) \<in> set ?es. stored sc v (map_option sint x) (T1 (i, k))"
    using write_stored [OF exec_all_done [OF assms(1) ex, unfolded assms(4)] lp(1)] by blast
  obtain T' where T': "\<alpha> c' = ((T', L), saved)" "\<forall>p \<in> set (live_pairs ?es). T' p = T1 p"
    "\<forall>i k. (kr_kv (T1 (i, k)) = None \<or> (\<exists>j \<in> set [0..<length ds]. i = int j)) \<and> (i, k) \<notin> set (live_pairs ?es) \<longrightarrow>
       kr_kv (T' (i, k)) = None"
    using remove_stale_done [OF assms(1) rm T1(1)] by blast
  have "holds sc (swept clk i k ds) (T' (int i, k))" if i: "i < length ds" for i k
  proof (cases "swept clk i k ds")
    case None
    then have "(int i, k) \<notin> set (live_pairs ?es)" using lp(2) [of "int i" k clk] by auto
    then show ?thesis using T'(3) i None by simp
  next
    case (Some e)
    then have "(int i, k) \<in> set (live_pairs ?es)" using lp(2) i by blast
    moreover have "(int i, k, e_value e, expires_at e) \<in> set ?es"
      using in_snapshot_entries [OF assms(2)] i Some by auto
    ultimately show ?thesis using T1(2) T'(2) Some by fastforce
  qed
  then show ?thesis using T'(1) by blast
qed

lemma snapshot_inner_failed:
  assumes "sql_laws sc cn \<alpha>" and "snapshot_inner cn clk ds c = (c', False)" and "snd (\<alpha> c) \<noteq> None"
  shows "durable (\<alpha> c') = durable (\<alpha> c)"
proof -
  let ?es = "snapshot_entries clk ds"
  obtain c1 dn where ex: "exec_all cn (write_stmts ?es) c = (c1, dn)" by fastforce
  show ?thesis
  proof (cases dn)
    case True
    have "stmts_effect sc (write_stmts ?es) (\<alpha> c) = Some (\<alpha> c1)"
      using exec_all_done [OF assms(1)] ex True by simp
    then have "snd (\<alpha> c1) = snd (\<alpha> c)"
      using stmts_saved in_transaction_write by blast
    then have "durable (\<alpha> c1) = durable (\<alpha> c)" "snd (\<alpha> c1) \<noteq> None" using assms(3) by (auto simp: durable_def)
    then show ?thesis
      using remove_stale_failed [OF assms(1), of _ _ c1 c'] assms(2) ex True by (simp add: snapshot_inner_def Let_def)
  next
    case False
    then show ?thesis
      using exec_all_failed [OF assms(1) _ in_transaction_write assms(3)] assms(2) ex
      by (simp add: snapshot_inner_def Let_def)
  qed
qed

text \<open>The property of one call: from the state before to the state after, and whether it succeeded.\<close>

lemma snapshot_outcome:
  assumes "sql_laws sc cn \<alpha>" and "\<forall>d \<in> set ds. db_ok d" and "snapshot cn clk ds c = (c', dn)"
  shows "if dn then snd (\<alpha> c') = None \<and> snd (fst (\<alpha> c')) = snd (fst (\<alpha> c)) \<and>
      (\<forall>i < length ds. \<forall>k. holds sc (swept clk i k ds) (fst (fst (\<alpha> c')) (int i, k)))
    else durable (\<alpha> c') = durable (\<alpha> c)"
proof -
  obtain c1 d1 where b: "c_exec cn Begin c = (c1, d1)" by fastforce
  obtain c2 d2 where i: "snapshot_inner cn clk ds c1 = (c2, d2)" by fastforce
  obtain T L saved where a: "\<alpha> c = ((T, L), saved)" by (metis surj_pair)
  consider "\<not> d1" | "d1" "\<not> d2" | "d1" "d2" by blast
  then show ?thesis
  proof cases
    case 1
    then have "c' = c1" "\<not> dn" using assms(3) b by (simp_all add: snapshot_def)
    then show ?thesis using fell_back_durable law_failed [OF assms(1)] b 1 by simp
  next
    case 2
    then have "stmt_effect sc Begin (\<alpha> c) = Some (\<alpha> c1)" using law_done [OF assms(1)] b by simp
    then have a1: "\<alpha> c1 = ((T, L), Some (T, L))" and "saved = None" by (cases saved; simp add: a)+
    have c': "c' = fst (c_exec cn Rollback c2)" "\<not> dn" using assms(3) b i 2 by (simp_all add: snapshot_def)
    have "c_exec cn Rollback c2 = (c', snd (c_exec cn Rollback c2))" by (simp add: c')
    from law_rollback [OF assms(1) this] have "durable (\<alpha> c') = durable (\<alpha> c2)" by (simp add: durable_def)
    also have "\<dots> = durable (\<alpha> c1)" using snapshot_inner_failed [OF assms(1)] i 2 a1 by simp
    also have "\<dots> = durable (\<alpha> c)" by (simp add: a a1 \<open>saved = None\<close> durable_def)
    finally show ?thesis using c' by simp
  next
    case 3
    then have "stmt_effect sc Begin (\<alpha> c) = Some (\<alpha> c1)" using law_done [OF assms(1)] b by simp
    then have a1: "\<alpha> c1 = ((T, L), Some (T, L))" and "saved = None" by (cases saved; simp add: a)+
    have "snapshot_inner cn clk ds c1 = (c2, True)" using i 3 by simp
    then obtain T' where a2: "\<alpha> c2 = ((T', L), Some (T, L))"
      and holds: "\<forall>i < length ds. \<forall>k. holds sc (swept clk i k ds) (T' (int i, k))"
      using snapshot_inner_done [OF assms(1,2) _ a1] by blast
    have com: "c_exec cn Commit c2 = (c', dn)" using assms(3) b i 3 by (simp add: snapshot_def)
    show ?thesis
    proof (cases dn)
      case True
      then have "stmt_effect sc Commit (\<alpha> c2) = Some (\<alpha> c')" using law_done [OF assms(1)] com by simp
      then have "\<alpha> c' = ((T', L), None)" by (simp add: a2)
      then show ?thesis using holds True by (simp add: a)
    next
      case False
      then have "fell_back (\<alpha> c2) (\<alpha> c')" using law_failed [OF assms(1)] com by simp
      then have "durable (\<alpha> c') = durable (\<alpha> c2)" by (rule fell_back_durable)
      then show ?thesis using False by (simp add: a a2 \<open>saved = None\<close> durable_def)
    qed
  qed
qed

text \<open>With a reliable library, only a repeated stream identifier can make it fail.\<close>

lemma snapshot_succeeds:
  assumes "sql_laws sc cn \<alpha>" and "reliable sc cn \<alpha>" and "\<forall>d \<in> set ds. db_ok d" and "snd (\<alpha> c) = None"
    and "\<And>i k e. i < length ds \<Longrightarrow> swept clk i k ds = Some e \<Longrightarrow> keyed (e_value e)"
  shows "snd (snapshot cn clk ds c)"
proof -
  let ?es = "snapshot_entries clk ds"
  obtain T L where a: "\<alpha> c = ((T, L), None)" using assms(4) by (cases "\<alpha> c"; cases "fst (\<alpha> c)") simp
  obtain c1 where b: "c_exec cn Begin c = (c1, True)"
    using law_reliable [OF assms(2), of Begin c] by (cases "c_exec cn Begin c") (simp add: a)
  have a1: "\<alpha> c1 = ((T, L), Some (T, L))" using law_done [OF assms(1) b] by (simp add: a)
  have "value_ok v \<and> keyed v" if m: "(j, k, v, x) \<in> set ?es" for j k v x
  proof -
    obtain i where i: "i < length ds" and s: "swept clk i k ds = Some \<lparr>e_value = v, expires_at = x\<rparr>"
      using m unfolding in_snapshot_entries [OF assms(3)] by blast
    have "db_ok (ds ! i)" using assms(3) i by simp
    then have "cell_ok (swept clk i k ds)" unfolding swept_def by (intro cell_ok_live db_ok_cell)
    then show ?thesis using assms(5) [OF i s] by (simp add: s)
  qed
  then have "stmts_effect sc (write_stmts ?es) (\<alpha> c1) \<noteq> None" unfolding a1 by (intro write_possible) auto
  then have "snd (exec_all cn (write_stmts ?es) c1)" by (rule exec_all_reliable [OF assms(1,2)])
  then obtain c3 where ex: "exec_all cn (write_stmts ?es) c1 = (c3, True)" by (cases "exec_all cn (write_stmts ?es) c1") simp
  have "snd (snapshot_inner cn clk ds c1)"
    using remove_stale_reliable [OF assms(1,2)] by (simp add: snapshot_inner_def ex)
  then obtain c2 where i: "snapshot_inner cn clk ds c1 = (c2, True)" by (cases "snapshot_inner cn clk ds c1") simp
  obtain T' where "\<alpha> c2 = ((T', L), Some (T, L))"
    using snapshot_inner_done [OF assms(1,3) i a1] by blast
  then have "snd (c_exec cn Commit c2)" using law_reliable [OF assms(2), of Commit c2] by simp
  then show ?thesis by (simp add: snapshot_def b i)
qed

end
