(* ===== verification/Persist_Load.thy ===== *)
theory Persist_Load
  imports Persist_Facts
begin

text \<open>
  Loading what a snapshot wrote: each value comes back from its rows, and the databases hold the same entries.
\<close>

section \<open>Rows in order\<close>

lemma rows_by_keys: "distinct (map fst rows) \<Longrightarrow> rows = map (\<lambda>k. (k, the (map_of rows k))) (map fst rows)"
  by (simp add: comp_def) (rule map_idI [symmetric], auto simp: map_of_is_SomeI)

lemma ordered_rows_unique:
  assumes "is_ordered_rows m rows" and "is_ordered_rows m rows'"
  shows "rows = rows'"
proof -
  have keys: "map fst rows = map fst rows'"
    using assms dom_map_of_conv_image_fst [of rows] dom_map_of_conv_image_fst [of rows']
    by (intro strict_sorted_equal) (auto simp: is_ordered_rows_def)
  have "distinct (map fst rows)" "distinct (map fst rows')"
    using assms by (simp_all add: is_ordered_rows_def strict_sorted_iff)
  then have "rows = map (\<lambda>k. (k, the (m k))) (map fst rows)" "rows' = map (\<lambda>k. (k, the (m k))) (map fst rows')"
    using rows_by_keys assms by (metis is_ordered_rows_def)+
  then show ?thesis using keys by metis
qed

lemma list_rows_ordered: "sorted_wrt (<) (map fst (map (\<lambda>(i, b). (int i, b)) (enumerate n xs)))"
proof -
  have "map fst (map (\<lambda>(i, b). (int i, b)) (enumerate n xs)) = map int [n..<n + length xs]"
    by (induction xs arbitrary: n) (auto simp: upt_rec)
  then show ?thesis by (simp add: sorted_wrt_map)
qed

lemma list_rows_values: "map snd (map (\<lambda>(i, b). (int i, b)) (enumerate n xs)) = xs"
  by (induction xs arbitrary: n) auto

subsection \<open>The entries of a stream\<close>

definition flat_row :: "(bytes \<times> int) \<times> bytes \<times> bytes \<Rightarrow> bytes \<times> int \<times> bytes \<times> bytes" where
  "flat_row = (\<lambda>((xid, i), f, b). (xid, i, f, b))"

text \<open>What a stream looks like after the load: without the entries that have no field, in the order of the bytes of
  the identifiers.\<close>

definition reloaded_stream :: "stream_items \<Rightarrow> stream_items" where
  "reloaded_stream xs = sort_key fst (filter (\<lambda>(xid, flds). flds \<noteq> []) xs)"

lemma stream_rows_filter: "set (stream_rows (filter (\<lambda>(xid, flds). flds \<noteq> []) xs)) = set (stream_rows xs)"
proof (induction xs)
  case (Cons e xs)
  obtain xid flds where e: "e = (xid, flds)" by fastforce
  have "entry_rows xid [] = []" by (simp add: entry_rows_def)
  then show ?case using Cons by (cases "flds = []") (simp_all add: e)
qed simp

lemma stream_rows_set: "set (stream_rows xs) = (\<Union>(xid, flds) \<in> set xs. set (entry_rows xid flds))"
  by (induction xs) auto

lemma stream_rows_ordered: "sorted_wrt (<) (map fst xs) \<Longrightarrow> sorted_wrt (<) (map fst (stream_rows xs))"
proof (induction xs)
  case (Cons e xs)
  obtain xid flds where e: "e = (xid, flds)" by fastforce
  have one: "sorted_wrt (<) (map fst (entry_rows xid flds))"
    by (simp add: entry_rows_keys sorted_wrt_map)
  have "p < q" if p: "p \<in> fst ` set (entry_rows xid flds)" and q: "q \<in> fst ` set (stream_rows xs)" for p q
  proof -
    obtain i where i: "p = (xid, int i)" using p by (auto simp: entry_rows_set)
    obtain y fs j where y: "q = (y, int j)" "(y, fs) \<in> set xs" using q by (auto simp: stream_rows_keys)
    have "xid < y" using Cons.prems y(2) by (force simp: e)
    then show ?thesis by (simp add: i y(1) less_prod_def)
  qed
  then show ?case using one Cons by (auto simp: e sorted_wrt_append)
qed simp

lemma reloaded_stream_facts:
  assumes "distinct (map fst xs)"
  shows "sorted_wrt (<) (map fst (reloaded_stream xs))"
    and "map_of (stream_rows (reloaded_stream xs)) = map_of (stream_rows xs)"
    and "set (reloaded_stream xs) = {(xid, flds) \<in> set xs. flds \<noteq> []}"
proof -
  have dis: "distinct (map fst (filter (\<lambda>(xid, flds). flds \<noteq> []) xs))"
    using assms by (rule distinct_map_filter)
  have "mset (map fst (reloaded_stream xs)) = mset (map fst (filter (\<lambda>(xid, flds). flds \<noteq> []) xs))"
    unfolding reloaded_stream_def mset_map by simp
  then have dis': "distinct (map fst (reloaded_stream xs))" using dis mset_eq_imp_distinct_iff by blast
  then show ord: "sorted_wrt (<) (map fst (reloaded_stream xs))"
    by (simp add: strict_sorted_iff reloaded_stream_def)
  show mem: "set (reloaded_stream xs) = {(xid, flds) \<in> set xs. flds \<noteq> []}"
    by (auto simp: reloaded_stream_def)
  have "set (stream_rows (reloaded_stream xs)) = set (stream_rows xs)"
    by (subst stream_rows_filter [symmetric]) (simp add: stream_rows_set reloaded_stream_def)
  moreover have "distinct (map fst (stream_rows (reloaded_stream xs)))"
    using stream_rows_distinct dis' by blast
  ultimately show "map_of (stream_rows (reloaded_stream xs)) = map_of (stream_rows xs)"
    using stream_rows_distinct [OF assms] by (simp add: map_of_inject_set)
qed

lemma load_fields:
  assumes "utf8_lossy xid = xid"
  shows "load_stream (map (\<lambda>(i, f, b). (xid, int i, f, b)) (enumerate n flds) @ rows) (Some xid) acc out =
    load_stream rows (Some xid) (acc @ flds) out"
  using assms by (induction flds arbitrary: n acc) auto

lemma flat_entry_rows: "map flat_row (entry_rows xid flds) = map (\<lambda>(i, f, b). (xid, int i, f, b)) (enumerate 0 flds)"
  by (simp add: entry_rows_def flat_row_def case_prod_beta)

lemma load_entries:
  assumes "distinct (map fst xs)" and "\<forall>(xid, flds) \<in> set xs. flds \<noteq> [] \<and> utf8_lossy xid = xid"
    and "\<forall>xid. cur = Some xid \<longrightarrow> xid \<notin> fst ` set xs"
  shows "load_stream (map flat_row (stream_rows xs)) cur acc out = close_entry cur acc out @ xs"
  using assms
proof (induction xs arbitrary: cur acc out)
  case (Cons e xs)
  obtain xid flds where e: "e = (xid, flds)" by fastforce
  obtain f b more_flds where flds: "flds = (f, b) # more_flds" using Cons.prems(2) by (cases flds) (auto simp: e)
  have lossy: "utf8_lossy xid = xid" and "cur \<noteq> Some xid" using Cons.prems by (auto simp: e)
  then have "load_stream (map flat_row (stream_rows (e # xs))) cur acc out =
      load_stream (map flat_row (stream_rows xs)) (Some xid) flds (close_entry cur acc out)"
    using load_fields [OF lossy, of 1 more_flds "map flat_row (stream_rows xs)" "[(f, b)]" "close_entry cur acc out"]
    by (simp add: e flat_entry_rows flds)
  then show ?case
    using Cons.IH [of "Some xid" flds "close_entry cur acc out"] Cons.prems by (auto simp: e close_entry_def)
qed simp

subsection \<open>Maps built from rows\<close>

lemma fold_hm_put:
  "distinct (map fst rows) \<Longrightarrow> hm_ok m \<Longrightarrow> hm_ok (fold (\<lambda>(k, v) m. hm_put k v m) rows m) \<and>
    hm_get (fold (\<lambda>(k, v) m. hm_put k v m) rows m) = hm_get m ++ map_of rows"
proof (induction rows arbitrary: m)
  case (Cons p rows)
  obtain k v where p: "p = (k, v)" by fastforce
  have "k \<notin> dom (map_of rows)" using Cons.prems(1) by (simp add: p dom_map_of_conv_image_fst)
  then have "(hm_get m)(k \<mapsto> v) ++ map_of rows = hm_get m ++ map_of (p # rows)"
    by (simp add: p map_add_upd_left del: fun_upd_apply)
  then show ?case using Cons by (simp add: p del: fun_upd_apply)
qed simp

lemma load_zset_rows:
  "distinct (map fst rows) \<Longrightarrow> hm_ok m \<Longrightarrow> \<forall>(e, s) \<in> set rows. s \<noteq> None \<Longrightarrow>
    \<exists>m'. load_zset rows m = Some (ZSet m') \<and> hm_ok m' \<and>
      (\<forall>e. hm_get m' e = (case map_of rows e of Some s \<Rightarrow> s | None \<Rightarrow> hm_get m e))"
proof (induction rows arbitrary: m)
  case (Cons p rows)
  obtain e s where p: "p = (e, Some s)" using Cons.prems(3) by (cases p) auto
  have "e \<notin> dom (map_of rows)" using Cons.prems(1) by (simp add: p dom_map_of_conv_image_fst)
  moreover have "\<exists>m'. load_zset rows (hm_put e s m) = Some (ZSet m') \<and> hm_ok m' \<and>
      (\<forall>x. hm_get m' x = (case map_of rows x of Some s \<Rightarrow> s | None \<Rightarrow> hm_get (hm_put e s m) x))"
    by (rule Cons.IH) (use Cons.prems in \<open>auto simp: p\<close>)
  then obtain m' where "load_zset rows (hm_put e s m) = Some (ZSet m')" "hm_ok m'"
    "\<forall>x. hm_get m' x = (case map_of rows x of Some s \<Rightarrow> s | None \<Rightarrow> hm_get (hm_put e s m) x)"
    by blast
  ultimately show ?case by (intro exI [of _ m']) (auto simp: p domIff split: option.splits)
qed simp

section \<open>A value from its rows\<close>

text \<open>What comes back: integers as decimal strings, hashes in the map representation, scores as the column gives
  them back, and a stream without empty entries and ordered by identifier.\<close>

fun same_value :: "(f64 \<Rightarrow> f64 option) \<Rightarrow> val \<Rightarrow> val \<Rightarrow> bool" where
  "same_value sc (String b) v \<longleftrightarrow> v = String b"
| "same_value sc (Int64 n) v \<longleftrightarrow> v = String (i64_to_string n)"
| "same_value sc (List xs) v \<longleftrightarrow> v = List xs"
| "same_value sc (Set xs) v \<longleftrightarrow> (\<exists>ys. v = Set ys \<and> distinct ys \<and> set ys = set xs)"
| "same_value sc (Hash h) v \<longleftrightarrow> (\<exists>m. v = Hash (Map m) \<and> hm_ok m \<and> hm_get m = hs_get h)"
| "same_value sc (ZSet m) v \<longleftrightarrow> (\<exists>m'. v = ZSet m' \<and> hm_ok m' \<and> (\<forall>e. hm_get m' e = Option.bind (hm_get m e) sc))"
| "same_value sc (Stream xs) v \<longleftrightarrow> v = Stream (reloaded_stream xs)"

text \<open>No score that is stored as \<open>NULL\<close>, stream identifiers that are text and different.\<close>

fun storable :: "(f64 \<Rightarrow> f64 option) \<Rightarrow> val \<Rightarrow> bool" where
  "storable sc (ZSet m) \<longleftrightarrow> (\<forall>(e, s) \<in> set m. sc s \<noteq> None)"
| "storable sc (Stream xs) \<longleftrightarrow> distinct (map fst xs) \<and> (\<forall>(xid, flds) \<in> set xs. utf8_lossy xid = xid)"
| "storable sc v \<longleftrightarrow> True"

lemma storable_keyed: "storable sc v \<Longrightarrow> keyed v"
  by (cases v) auto

lemma row_laws:
  assumes "sql_laws sc cn \<alpha>" and "r = fst (fst (\<alpha> c)) (d, k)"
  shows "c_list cn d k c = Some lrows \<Longrightarrow> \<exists>irows. is_ordered_rows (kr_list r) irows \<and> lrows = map snd irows"
    and "c_set cn d k c = Some srows \<Longrightarrow> distinct srows \<and> set srows = kr_set r"
    and "c_hash cn d k c = Some hrows \<Longrightarrow> is_rows (kr_hash r) hrows"
    and "c_zset cn d k c = Some zrows \<Longrightarrow> is_rows (kr_zset r) zrows"
    and "c_stream cn d k c = Some xrows \<Longrightarrow>
      is_ordered_rows (kr_stream r) (map (\<lambda>(xid, i, f, b). ((xid, i), f, b)) xrows)"
  using assms by (simp_all add: sql_laws_def query_laws_def)

lemma reliable_queries:
  assumes "reliable sc cn \<alpha>"
  shows "\<exists>y. c_list cn d k c = Some y" and "\<exists>y. c_set cn d k c = Some y" and "\<exists>y. c_hash cn d k c = Some y"
    and "\<exists>y. c_zset cn d k c = Some y" and "\<exists>y. c_stream cn d k c = Some y"
  using assms unfolding reliable_def by blast+

text \<open>One lemma per type of item.\<close>

lemma load_list_eq [simp]: "load_list rows out = out @ rows"
  by (induction rows arbitrary: out) auto

lemma load_list_rows:
  assumes "is_ordered_rows (map_of (map (\<lambda>(i, b). (int i, b)) (enumerate 0 xs))) irows"
  shows "map snd irows = xs"
proof -
  have "is_ordered_rows (map_of (map (\<lambda>(i, b). (int i, b)) (enumerate 0 xs))) (map (\<lambda>(i, b). (int i, b)) (enumerate 0 xs))"
    unfolding is_ordered_rows_def by (intro conjI list_rows_ordered refl)
  from ordered_rows_unique [OF assms this] show ?thesis by (simp only: list_rows_values)
qed

lemma hm_get_empty: "hm_get [] = Map.empty"
  by (simp add: fun_eq_iff)

lemma load_hash_rows:
  assumes "is_rows (hs_get h) rows"
  shows "same_value sc (Hash h) (load_hash rows)"
  using fold_hm_put [of rows "[]"] assms by (auto simp: load_hash_def is_rows_def hm_get_empty)

lemma load_set_rows:
  assumes "set rows = set xs"
  shows "same_value sc (Set xs) (load_set rows)"
  using fold_hset_insert(1) [of "[]" rows] fold_hset_insert(2) [of rows "[]"] assms by (simp add: load_set_def)

lemma load_zset_value:
  assumes "is_rows (\<lambda>e. map_option sc (hm_get m e)) rows" and "storable sc (ZSet m)"
  shows "\<exists>v. load_zset rows [] = Some v \<and> same_value sc (ZSet m) v"
proof -
  have dis: "distinct (map fst rows)" and mo: "map_of rows = (\<lambda>e. map_option sc (hm_get m e))"
    using assms(1) by (simp_all add: is_rows_def)
  have "s \<noteq> None" if "(e, s) \<in> set rows" for e s
  proof -
    have "map_of rows e = Some s" using that dis by simp
    then obtain s0 where "hm_get m e = Some s0" "s = sc s0" by (auto simp: mo)
    then show ?thesis using assms(2) map_of_SomeD by (fastforce simp: hm_get_def)
  qed
  then obtain m' where "load_zset rows [] = Some (ZSet m')" "hm_ok m'"
    "\<forall>e. hm_get m' e = (case map_of rows e of Some s \<Rightarrow> s | None \<Rightarrow> hm_get [] e)"
    using load_zset_rows [OF dis hm_ok_Nil] by blast
  moreover have "(case map_option sc (hm_get m e) of Some s \<Rightarrow> s | None \<Rightarrow> hm_get [] e) = Option.bind (hm_get m e) sc" for e
    by (cases "hm_get m e") simp_all
  ultimately show ?thesis by (simp add: mo)
qed

lemma load_stream_rows:
  assumes "is_ordered_rows (map_of (stream_rows xs)) (map (\<lambda>(xid, i, f, b). ((xid, i), f, b)) rows)"
    and "storable sc (Stream xs)"
  shows "load_stream rows None [] [] = reloaded_stream xs"
proof -
  have dis: "distinct (map fst xs)" using assms(2) by simp
  note rf = reloaded_stream_facts [OF dis]
  have "is_ordered_rows (map_of (stream_rows xs)) (stream_rows (reloaded_stream xs))"
    using stream_rows_ordered [OF rf(1)] rf(2) by (simp add: is_ordered_rows_def)
  then have "map (\<lambda>(xid, i, f, b). ((xid, i), f, b)) rows = stream_rows (reloaded_stream xs)"
    by (rule ordered_rows_unique [OF assms(1)])
  then have "map flat_row (map (\<lambda>(xid, i, f, b). ((xid, i), f, b)) rows) = map flat_row (stream_rows (reloaded_stream xs))"
    by simp
  then have rows: "rows = map flat_row (stream_rows (reloaded_stream xs))"
    by (simp add: flat_row_def comp_def case_prod_beta)
  have "load_stream rows None [] [] = close_entry None [] [] @ reloaded_stream xs"
    unfolding rows using rf assms(2) by (intro load_entries) (auto simp: strict_sorted_iff)
  then show ?thesis by (simp add: close_entry_def)
qed

lemma load_value_stored:
  assumes "sql_laws sc cn \<alpha>" and "reliable sc cn \<alpha>" and "stored sc v x (fst (fst (\<alpha> c)) (d, k))" and "storable sc v"
  shows "\<exists>v'. load_value cn d k (type_tag v) (Some (kv_blob v)) c = Some (Some v') \<and> same_value sc v v'"
proof -
  let ?r = "fst (fst (\<alpha> c)) (d, k)"
  have items: "item_rows sc v ?r" using assms(3) by (simp add: stored_def)
  note laws = row_laws [OF assms(1) refl, where c = c and d = d and k = k] and qs = reliable_queries [OF assms(2), where c = c and d = d and k = k]
  show ?thesis
  proof (cases v)
    case (List xs)
    obtain rows where "c_list cn d k c = Some rows" using qs(1) by blast
    moreover from this have "rows = xs" using laws(1) load_list_rows items by (fastforce simp: List)
    ultimately show ?thesis by (simp add: List load_value_def)
  next
    case (Set xs)
    obtain rows where "c_set cn d k c = Some rows" using qs(2) by blast
    then show ?thesis using laws(2) load_set_rows [of rows xs sc] items by (simp add: Set load_value_def)
  next
    case (Hash h)
    obtain rows where "c_hash cn d k c = Some rows" using qs(3) by blast
    then show ?thesis using laws(3) load_hash_rows [of h rows sc] items by (simp add: Hash load_value_def)
  next
    case (ZSet m)
    obtain rows where rows: "c_zset cn d k c = Some rows" using qs(4) by blast
    have "is_rows (\<lambda>e. map_option sc (hm_get m e)) rows" using laws(4) [OF rows] items by (simp add: ZSet)
    then obtain v' where "load_zset rows [] = Some v'" "same_value sc (ZSet m) v'"
      using load_zset_value assms(4) ZSet by blast
    then show ?thesis using rows by (simp add: ZSet load_value_def)
  next
    case (Stream xs)
    obtain rows where rows: "c_stream cn d k c = Some rows" using qs(5) by blast
    have "load_stream rows None [] [] = reloaded_stream xs"
      using laws(5) [OF rows] items assms(4) load_stream_rows [of xs rows sc] by (simp add: Stream)
    then show ?thesis using rows by (simp add: Stream load_value_def)
  qed (simp_all add: load_value_def)
qed

lemma same_value_ok:
  assumes "same_value sc v v'" and "value_ok v" and "storable sc v"
  shows "value_ok v'"
proof (cases v)
  case (Hash h)
  then obtain m where m: "v' = Hash (Map m)" "hm_ok m" "hm_get m = hs_get h" using assms(1) by auto
  have "hs_iter h \<noteq> []" using assms(2) by (cases h) (auto simp: Hash)
  then have "hs_get h \<noteq> Map.empty" by (cases "hs_iter h") (auto simp: hs_get_iter)
  then show ?thesis using m by (cases m) (auto simp: hm_get_empty)
next
  case (ZSet m)
  then obtain m' where m': "v' = ZSet m'" "hm_ok m'" "\<forall>e. hm_get m' e = Option.bind (hm_get m e) sc" using assms(1) by auto
  obtain e s where "(e, s) \<in> set m" using assms(2) by (cases m) (auto simp: ZSet)
  then have "hm_get m e = Some s" "sc s \<noteq> None"
    using assms(2,3) by (auto simp: ZSet hm_pairs_iff [symmetric])
  then have "hm_get m' e \<noteq> None" using m'(3) by simp
  then show ?thesis using m' by (cases m') auto
qed (use assms in auto)

section \<open>All rows\<close>

definition row_map :: "(int \<times> bytes \<times> 'r) list \<Rightarrow> ((int \<times> bytes) \<times> 'r) list" where
  "row_map rows = map (\<lambda>(d, k, r). ((d, k), r)) rows"

lemma row_map_simps [simp]: "row_map [] = []" "row_map ((d, k, r) # rows) = ((d, k), r) # row_map rows"
  by (simp_all add: row_map_def)

lemma load_rows_stored:
  assumes "distinct (map fst (row_map rows))" and "\<forall>d \<in> set ds. db_ok d"
    and "\<And>d k t b x. (d, k, t, b, x) \<in> set rows \<Longrightarrow> 0 \<le> d \<Longrightarrow> nat d < length ds \<Longrightarrow>
      load_value cn d k t b c = Some (Some (F (d, k))) \<and> value_ok (F (d, k))"
  shows "\<exists>ds'. load_rows cn rows c ds = (ds', True) \<and> length ds' = length ds \<and>
    (\<forall>i < length ds. \<forall>k. db_get (ds' ! i) k =
       (case map_of (row_map rows) (int i, k) of
          Some (t, b, x) \<Rightarrow> Some \<lparr>e_value = F (int i, k), expires_at = map_option word_of_int x\<rparr>
        | None \<Rightarrow> db_get (ds ! i) k))"
  using assms
proof (induction rows arbitrary: ds)
  case (Cons row rows)
  obtain d k t b x where row: "row = (d, k, t, b, x)" by (cases row)
  have fresh: "map_of (row_map rows) (d, k) = None" and dis: "distinct (map fst (row_map rows))"
    using Cons.prems(1) by (auto simp: row map_of_eq_None_iff)
  have sub: "load_value cn d k t b c = Some (Some (F (d, k))) \<and> value_ok (F (d, k))"
    if "(d, k, t, b, x) \<in> set rows" and "0 \<le> d" and "nat d < length ds" for d k t b x
    using Cons.prems(3) [OF list.set_intros(2)] that by blast
  show ?case
  proof (cases "0 \<le> d \<and> nat d < length ds")
    case False
    then have skip: "load_rows cn (row # rows) c ds = load_rows cn rows c ds" by (auto simp: row)
    have "\<exists>ds'. load_rows cn rows c ds = (ds', True) \<and> length ds' = length ds \<and>
        (\<forall>i < length ds. \<forall>k. db_get (ds' ! i) k =
           (case map_of (row_map rows) (int i, k) of
              Some (t, b, x) \<Rightarrow> Some \<lparr>e_value = F (int i, k), expires_at = map_option word_of_int x\<rparr>
            | None \<Rightarrow> db_get (ds ! i) k))"
      by (rule Cons.IH [OF dis Cons.prems(2) sub])
    then show ?thesis unfolding skip using False by (fastforce simp: row)
  next
    case True
    then have lv: "load_value cn d k t b c = Some (Some (F (d, k)))" and ok: "value_ok (F (d, k))"
      using Cons.prems(3) [of d k t b x] by (simp_all add: row)
    let ?x = "map_option word_of_int x :: u64 option"
    let ?d = "fst (db_set_with_expire_at k (F (d, k)) ?x (ds ! nat d))"
    let ?ds = "ds[nat d := ?d]"
    have old: "db_ok (ds ! nat d)" using Cons.prems(2) True by simp
    note set = db_localD [OF db_local_set_with_expire_at [OF ok] old, of k ?x]
    have "\<forall>d \<in> set ?ds. db_ok d" using Cons.prems(2) set(1) set_update_subset_insert by fastforce
    then have "\<exists>ds'. load_rows cn rows c ?ds = (ds', True) \<and> length ds' = length ?ds \<and>
        (\<forall>i < length ?ds. \<forall>k. db_get (ds' ! i) k =
           (case map_of (row_map rows) (int i, k) of
              Some (t, b, x) \<Rightarrow> Some \<lparr>e_value = F (int i, k), expires_at = map_option word_of_int x\<rparr>
            | None \<Rightarrow> db_get (?ds ! i) k))"
      by (rule Cons.IH [OF dis]) (simp_all only: length_list_update, rule sub)
    then obtain ds' where ds': "load_rows cn rows c ?ds = (ds', True)" "length ds' = length ds"
      "\<And>i y. i < length ds \<Longrightarrow> db_get (ds' ! i) y =
         (case map_of (row_map rows) (int i, y) of
            Some (t, b, x) \<Rightarrow> Some \<lparr>e_value = F (int i, y), expires_at = map_option word_of_int x\<rparr>
          | None \<Rightarrow> db_get (?ds ! i) y)"
      by auto
    have "load_rows cn (row # rows) c ds = (ds', True)" using True by (simp add: row lv ds'(1))
    moreover have "db_get (ds' ! i) y =
        (case map_of (row_map (row # rows)) (int i, y) of
           Some (t, b, x) \<Rightarrow> Some \<lparr>e_value = F (int i, y), expires_at = map_option word_of_int x\<rparr>
         | None \<Rightarrow> db_get (ds ! i) y)" if "i < length ds" for i y
    proof (cases "int i = d")
      case True
      then have "nat d = i" by auto
      then show ?thesis
        using ds'(3) [OF that] set(2) fresh that True by (auto simp: row spec_set_def split: option.splits)
    next
      case False
      then have "nat d \<noteq> i" using True by auto
      then have "?ds ! i = ds ! i" by simp
      then show ?thesis using ds'(3) [OF that, of y] False by (auto simp: row split: option.split)
    qed
    ultimately show ?thesis using ds'(2) by blast
  qed
qed simp

text \<open>An entry after the load.\<close>

fun reloaded :: "(f64 \<Rightarrow> f64 option) \<Rightarrow> entry option \<Rightarrow> entry option \<Rightarrow> bool" where
  "reloaded sc None c \<longleftrightarrow> c = None"
| "reloaded sc (Some e) c \<longleftrightarrow> (\<exists>v. c = Some \<lparr>e_value = v, expires_at = expires_at e\<rparr> \<and> same_value sc (e_value e) v)"

lemma kv_law:
  assumes "sql_laws sc cn \<alpha>" and "c_kv cn c = (rows, True)"
  shows "distinct (map fst (row_map rows))" and "map_of (row_map rows) = kv_table (fst (fst (\<alpha> c)))"
  using assms by (simp_all add: sql_laws_def query_laws_def is_rows_def row_map_def)

lemma word_of_sint_option: "map_option (word_of_int \<circ> sint) (x :: u64 option) = x"
  by (cases x) simp_all

lemma load_stored:
  assumes "sql_laws sc cn \<alpha>" and "reliable sc cn \<alpha>"
    and "\<And>i k. i < n \<Longrightarrow> holds sc (E i k) (fst (fst (\<alpha> c)) (int i, k))"
    and "\<And>i k e. i < n \<Longrightarrow> E i k = Some e \<Longrightarrow> storable sc (e_value e) \<and> value_ok (e_value e)"
  shows "\<exists>ds'. load cn c (replicate n db_new) = (ds', True) \<and> length ds' = n \<and>
    (\<forall>i < n. \<forall>k. reloaded sc (E i k) (db_get (ds' ! i) k))"
proof -
  let ?T = "fst (fst (\<alpha> c))"
  have "snd (c_kv cn c)" using assms(2) unfolding reliable_def by blast
  then obtain rows where rows: "c_kv cn c = (rows, True)" by (cases "c_kv cn c") simp
  note kv = kv_law [OF assms(1) rows]
  define F where "F p = (case E (nat (fst p)) (snd p) of
      Some e \<Rightarrow> (SOME v'. load_value cn (fst p) (snd p) (type_tag (e_value e)) (Some (kv_blob (e_value e))) c = Some (Some v') \<and>
        same_value sc (e_value e) v')
    | None \<Rightarrow> String [])" for p
  have F: "load_value cn (int i) k (type_tag (e_value e)) (Some (kv_blob (e_value e))) c = Some (Some (F (int i, k))) \<and>
      same_value sc (e_value e) (F (int i, k)) \<and> value_ok (F (int i, k))"
    if "i < n" and "E i k = Some e" for i k e
  proof -
    have "stored sc (e_value e) (map_option sint (expires_at e)) (?T (int i, k))"
      using assms(3) [OF that(1), of k] that(2) by simp
    then have "\<exists>v'. load_value cn (int i) k (type_tag (e_value e)) (Some (kv_blob (e_value e))) c = Some (Some v') \<and>
        same_value sc (e_value e) v'"
      using load_value_stored [OF assms(1,2)] assms(4) [OF that] by blast
    from someI_ex [OF this]
    have *: "load_value cn (int i) k (type_tag (e_value e)) (Some (kv_blob (e_value e))) c = Some (Some (F (int i, k))) \<and>
        same_value sc (e_value e) (F (int i, k))"
      by (simp add: F_def that(2))
    then show ?thesis using same_value_ok assms(4) [OF that] by blast
  qed
  have row: "kv_table ?T (int i, k) = (case E i k of
      Some e \<Rightarrow> Some (type_tag (e_value e), Some (kv_blob (e_value e)), map_option sint (expires_at e)) | None \<Rightarrow> None)"
    if "i < n" for i k
    using assms(3) [OF that, of k] by (cases "E i k") (auto simp: kv_table_def stored_def)
  have val: "load_value cn d k t b c = Some (Some (F (d, k))) \<and> value_ok (F (d, k))"
    if m: "(d, k, t, b, x) \<in> set rows" and pos: "0 \<le> d" and lt: "nat d < n" for d k t b x
  proof -
    have "((d, k), t, b, x) \<in> set (row_map rows)" using m by (force simp: row_map_def)
    then have "map_of (row_map rows) (d, k) = Some (t, b, x)" using kv(1) by simp
    then have "kv_table ?T (int (nat d), k) = Some (t, b, x)" using kv(2) pos by simp
    then obtain e where e: "E (nat d) k = Some e" and tb: "t = type_tag (e_value e)" "b = Some (kv_blob (e_value e))"
      unfolding row [OF lt] by (auto split: option.splits)
    show ?thesis using F [OF lt e] pos by (simp add: tb)
  qed
  have "\<exists>ds'. load_rows cn rows c (replicate n db_new) = (ds', True) \<and> length ds' = length (replicate n db_new) \<and>
    (\<forall>i < length (replicate n db_new). \<forall>k. db_get (ds' ! i) k =
       (case map_of (row_map rows) (int i, k) of
          Some (t, b, x) \<Rightarrow> Some \<lparr>e_value = F (int i, k), expires_at = map_option word_of_int x\<rparr>
        | None \<Rightarrow> db_get (replicate n db_new ! i) k))"
    by (rule load_rows_stored [OF kv(1)]) (simp add: db_ok_new, unfold length_replicate, rule val)
  then obtain ds' where ds': "load cn c (replicate n db_new) = (ds', True)" "length ds' = n"
    "\<And>i k. i < n \<Longrightarrow> db_get (ds' ! i) k =
       (case kv_table ?T (int i, k) of
          Some (t, b, x) \<Rightarrow> Some \<lparr>e_value = F (int i, k), expires_at = map_option word_of_int x\<rparr>
        | None \<Rightarrow> db_get (replicate n db_new ! i) k)"
    by (auto simp: load_def rows kv(2))
  have "reloaded sc (E i k) (db_get (ds' ! i) k)" if "i < n" for i k
    using ds'(3) [OF that, of k] row [OF that, of k] F [OF that, of k] that
    by (cases "E i k") (simp_all add: db_get_new option.map_comp word_of_sint_option)
  then show ?thesis using ds'(1,2) by blast
qed

end
