(* ===== verification/Persist_Journal.thy ===== *)
theory Persist_Journal
  imports Persist_Tables
begin

text \<open>
  A connection that follows the laws: its state is the list of the statements it was given, newest first, and its tables
  are what they make of empty tables.
\<close>

section \<open>Replaying a journal\<close>

fun replay :: "sql list \<Rightarrow> sql_state" where
  "replay [] = ((\<lambda>_. no_rows, []), None)"
| "replay (s # older) = (case stmt_effect Some s (replay older) of Some a \<Rightarrow> a | None \<Rightarrow> replay older)"

text \<open>The keys that a journal mentions.\<close>

fun journal_keys :: "sql list \<Rightarrow> (int \<times> bytes) list" where
  "journal_keys [] = []"
| "journal_keys (On d k st # c) = (d, k) # journal_keys c"
| "journal_keys (s # c) = journal_keys c"

fun on_key :: "int \<Rightarrow> bytes \<Rightarrow> sql list \<Rightarrow> key_stmt list" where
  "on_key d k [] = []"
| "on_key d k (On d' k' st # c) = (if d' = d \<and> k' = k then st # on_key d k c else on_key d k c)"
| "on_key d k (s # c) = on_key d k c"

definition list_keys :: "key_stmt list \<Rightarrow> int list" where
  "list_keys ss = concat (map (\<lambda>s. case s of AddList i b \<Rightarrow> [i] | _ \<Rightarrow> []) ss)"

definition set_keys :: "key_stmt list \<Rightarrow> bytes list" where
  "set_keys ss = concat (map (\<lambda>s. case s of AddSet b \<Rightarrow> [b] | _ \<Rightarrow> []) ss)"

definition hash_keys :: "key_stmt list \<Rightarrow> bytes list" where
  "hash_keys ss = concat (map (\<lambda>s. case s of AddHash f b \<Rightarrow> [f] | _ \<Rightarrow> []) ss)"

definition zset_keys :: "key_stmt list \<Rightarrow> bytes list" where
  "zset_keys ss = concat (map (\<lambda>s. case s of AddZset e sc \<Rightarrow> [e] | _ \<Rightarrow> []) ss)"

definition stream_keys :: "key_stmt list \<Rightarrow> (bytes \<times> int) list" where
  "stream_keys ss = concat (map (\<lambda>s. case s of AddStream xid i f b \<Rightarrow> [(xid, i)] | _ \<Rightarrow> []) ss)"

lemma item_keys_Cons:
  "list_keys (s # ss) = (case s of AddList i b \<Rightarrow> [i] | _ \<Rightarrow> []) @ list_keys ss"
  "set_keys (s # ss) = (case s of AddSet b \<Rightarrow> [b] | _ \<Rightarrow> []) @ set_keys ss"
  "hash_keys (s # ss) = (case s of AddHash f b \<Rightarrow> [f] | _ \<Rightarrow> []) @ hash_keys ss"
  "zset_keys (s # ss) = (case s of AddZset e sc \<Rightarrow> [e] | _ \<Rightarrow> []) @ zset_keys ss"
  "stream_keys (s # ss) = (case s of AddStream xid i f b \<Rightarrow> [(xid, i)] | _ \<Rightarrow> []) @ stream_keys ss"
  by (simp_all add: list_keys_def set_keys_def hash_keys_def zset_keys_def stream_keys_def)

definition present :: "('k::linorder \<rightharpoonup> 'v) \<Rightarrow> 'k list \<Rightarrow> ('k \<times> 'v) list" where
  "present m ks = map (\<lambda>k. (k, the (m k))) (filter (\<lambda>k. m k \<noteq> None) (sort (remdups ks)))"

definition mem_conn :: "sql list conn" where
  "mem_conn =
     \<lparr>c_exec = (\<lambda>s c. (s # c, stmt_effect Some s (replay c) \<noteq> None)),
      c_kv = (\<lambda>c. (map (\<lambda>((d, k), r). (d, k, r)) (present (kv_table (fst (fst (replay c)))) (journal_keys c)), True)),
      c_keys = (\<lambda>d c. Some (filter (\<lambda>k. kr_kv (fst (fst (replay c)) (d, k)) \<noteq> None)
        (map snd (filter (\<lambda>p. fst p = d) (journal_keys c))))),
      c_list = (\<lambda>d k c. Some (map snd (present (kr_list (fst (fst (replay c)) (d, k))) (list_keys (on_key d k c))))),
      c_set = (\<lambda>d k c. Some (filter (\<lambda>x. x \<in> kr_set (fst (fst (replay c)) (d, k))) (remdups (set_keys (on_key d k c))))),
      c_hash = (\<lambda>d k c. Some (present (kr_hash (fst (fst (replay c)) (d, k))) (hash_keys (on_key d k c)))),
      c_zset = (\<lambda>d k c. Some (present (kr_zset (fst (fst (replay c)) (d, k))) (zset_keys (on_key d k c)))),
      c_stream = (\<lambda>d k c. Some (map (\<lambda>((xid, i), f, b). (xid, i, f, b))
        (present (kr_stream (fst (fst (replay c)) (d, k))) (stream_keys (on_key d k c)))))\<rparr>"

section \<open>It follows the laws\<close>

lemma present_ordered:
  assumes "dom m \<subseteq> set ks"
  shows "is_ordered_rows m (present m ks)"
proof -
  let ?ks = "filter (\<lambda>k. m k \<noteq> None) (sort (remdups ks))"
  have "sorted_wrt (<) (sort (remdups ks))" by (simp add: strict_sorted_iff)
  then have "sorted_wrt (<) ?ks" by (rule sorted_wrt_filter)
  moreover have "map_of (map (\<lambda>k. (k, the (m k))) ?ks) x = m x" for x
    using assms by (cases "m x") (auto simp: map_of_map_restrict restrict_map_def comp_def)
  ultimately show ?thesis by (simp add: is_ordered_rows_def present_def comp_def fun_eq_iff)
qed

lemma ordered_is_rows: "is_ordered_rows m rows \<Longrightarrow> is_rows m rows"
  by (simp add: is_ordered_rows_def is_rows_def strict_sorted_iff)

definition cover :: "key_stmt list \<Rightarrow> krows \<Rightarrow> bool" where
  "cover ss r \<longleftrightarrow> dom (kr_list r) \<subseteq> set (list_keys ss) \<and> kr_set r \<subseteq> set (set_keys ss) \<and>
     dom (kr_hash r) \<subseteq> set (hash_keys ss) \<and> dom (kr_zset r) \<subseteq> set (zset_keys ss) \<and>
     dom (kr_stream r) \<subseteq> set (stream_keys ss)"

lemma row_cover: "row_effect sc st r = Some r' \<Longrightarrow> cover ss r \<Longrightarrow> cover (st # ss) r'"
  by (cases "(sc, st, r)" rule: row_effect.cases)
    (auto simp: cover_def item_keys_Cons add_row_def dom_def subset_iff split: if_splits)

definition covers :: "sql list \<Rightarrow> store \<Rightarrow> bool" where
  "covers c S \<longleftrightarrow> (\<forall>d k. cover (on_key d k c) (fst S (d, k)) \<and> (kr_kv (fst S (d, k)) \<noteq> None \<longrightarrow> (d, k) \<in> set (journal_keys c)))"

lemma cover_more: "cover ss r \<Longrightarrow> cover (st # ss) r"
  by (auto simp: cover_def item_keys_Cons)

lemma covers_more: "covers c S \<Longrightarrow> covers (s # c) S"
  by (cases s) (auto simp: covers_def cover_more)

lemma covers_on:
  assumes "covers c (T, L)" and "row_effect sc st (T (d, k)) = Some r"
  shows "covers (On d k st # c) (T((d, k) := r), L)"
  using assms row_cover [OF assms(2)] by (auto simp: covers_def cover_more)

lemma covers_replay: "covers c (fst (replay c)) \<and> (\<forall>S. snd (replay c) = Some S \<longrightarrow> covers c S)"
proof (induction c)
  case Nil
  then show ?case by (auto simp: covers_def cover_def no_rows_def)
next
  case (Cons s c)
  obtain T L saved where a: "replay c = ((T, L), saved)" by (metis surj_pair)
  have now: "covers (s # c) (T, L)" and before: "\<And>S. saved = Some S \<Longrightarrow> covers (s # c) S"
    using Cons covers_more by (auto simp: a)
  show ?case
  proof (cases "stmt_effect Some s (replay c)")
    case None
    then show ?thesis using now before by (simp add: a)
  next
    case (Some a')
    show ?thesis
    proof (cases s)
      case Begin
      then show ?thesis using Some now before by (cases saved) (auto simp: a)
    next
      case Commit
      then show ?thesis using Some now before by (cases saved) (auto simp: a)
    next
      case Rollback
      then show ?thesis using Some now before by (cases saved) (auto simp: a)
    next
      case (On d k st)
      then obtain r where r: "row_effect Some st (T (d, k)) = Some r" "a' = ((T((d, k) := r), L), saved)"
        using Some by (auto simp: a)
      then show ?thesis using covers_on [of c T L Some st d k r] Cons before Some by (simp add: a On)
    next
      case (LogCmd d e)
      then show ?thesis using Some now before by (auto simp: a covers_def)
    qed
  qed
qed

theorem mem_conn_laws: "sql_laws Some mem_conn replay"
proof -
  have exec: "exec_law Some s (replay c) (map_prod replay id (c_exec mem_conn s c))" for s c
  proof -
    obtain S saved where a: "replay c = (S, saved)" by fastforce
    show ?thesis
      by (cases "stmt_effect Some s (replay c)"; cases saved)
        (auto simp: exec_law_def mem_conn_def fell_back_def a)
  qed
  have query: "query_laws mem_conn c (fst (fst (replay c)))" for c
  proof -
    let ?T = "fst (fst (replay c))"
    have cov: "cover (on_key d k c) (?T (d, k))" and kv: "kr_kv (?T (d, k)) \<noteq> None \<Longrightarrow> (d, k) \<in> set (journal_keys c)" for d k
      using covers_replay [of c] by (simp_all add: covers_def)
    have "dom (kv_table ?T) \<subseteq> set (journal_keys c)" using kv by (auto simp: kv_table_def)
    then have kvs: "is_rows (kv_table ?T) (present (kv_table ?T) (journal_keys c))"
      by (rule ordered_is_rows [OF present_ordered])
    have keys: "set (filter (\<lambda>k. kr_kv (?T (d, k)) \<noteq> None) (map snd (filter (\<lambda>p. fst p = d) (journal_keys c)))) =
        {k. kr_kv (?T (d, k)) \<noteq> None}" for d
      using kv [of d] by (auto simp: image_iff)
    have items: "is_ordered_rows (kr_list (?T (d, k))) (present (kr_list (?T (d, k))) (list_keys (on_key d k c)))"
      "set (filter (\<lambda>x. x \<in> kr_set (?T (d, k))) (remdups (set_keys (on_key d k c)))) = kr_set (?T (d, k))"
      "is_rows (kr_hash (?T (d, k))) (present (kr_hash (?T (d, k))) (hash_keys (on_key d k c)))"
      "is_rows (kr_zset (?T (d, k))) (present (kr_zset (?T (d, k))) (zset_keys (on_key d k c)))"
      "is_ordered_rows (kr_stream (?T (d, k))) (present (kr_stream (?T (d, k))) (stream_keys (on_key d k c)))" for d k
      using cov [of d k] by (auto simp: cover_def intro!: present_ordered ordered_is_rows)
    have ordered: "\<exists>irows. is_ordered_rows (kr_list (?T (d, k))) irows \<and>
        map snd (present (kr_list (?T (d, k))) (list_keys (on_key d k c))) = map snd irows" for d k
      using items(1) by blast
    show ?thesis
      unfolding query_laws_def mem_conn_def using kvs keys ordered items(2-)
      by (intro conjI allI impI) (auto simp: comp_def case_prod_beta simp del: set_filter set_remdups)
  qed
  show ?thesis using exec query by (simp add: sql_laws_def)
qed

theorem mem_conn_reliable: "reliable Some mem_conn replay"
  by (simp add: reliable_def mem_conn_def)

end
