(* ===== verification/Persist_Sound.thy ===== *)
theory Persist_Sound
  imports Persist_Load Persist_Journal "HOL-Library.Sublist"
begin

text \<open>
  The properties of the persistence layer: a snapshot is all or nothing, what it saves is what the next load gives back,
  and the log holds whole batches in their order.
\<close>

section \<open>Snapshots\<close>

text \<open>C7: A snapshot is all or nothing, whichever statement or query of the SQL library fails: when it reports success,
  the tables hold exactly the live entries of every database and the log is untouched; when it reports an error,
  what is on disk is what was there before.\<close>

theorem snapshot_all_or_nothing:
  assumes "sql_laws sc cn \<alpha>" and "\<forall>d \<in> set ds. db_ok d" and "snapshot cn clk ds c = (c', good)"
  shows "if good then snd (\<alpha> c') = None \<and> snd (fst (\<alpha> c')) = snd (fst (\<alpha> c)) \<and>
      (\<forall>i < length ds. \<forall>k. holds sc (swept clk i k ds) (fst (fst (\<alpha> c')) (int i, k)))
    else durable (\<alpha> c') = durable (\<alpha> c)"
  by (rule snapshot_outcome [OF assms])

definition one_key :: db where
  "one_key = fst (db_set ''k'' (Int64 7) None db_new)"

lemma one_key_ok: "db_ok one_key" and one_key_get: "db_get one_key = [''k'' \<mapsto> \<lparr>e_value = Int64 7, expires_at = None\<rparr>]"
  using db_localD [OF db_local_set [of "Int64 7" "''k''" None] db_ok_new]
  by (simp_all add: one_key_def in_i64_iff spec_set_def db_get_new)

lemma one_key_swept: "swept (\<lambda>_ _. 5) 0 k [one_key] = (if k = ''k'' then Some \<lparr>e_value = Int64 7, expires_at = None\<rparr> else None)"
  by (simp add: swept_def one_key_get live_def expired_def)

lemma one_key_saved: "snd (snapshot mem_conn (\<lambda>_ _. 5) [one_key] [])"
  by (rule snapshot_succeeds [OF mem_conn_laws mem_conn_reliable])
    (auto simp: one_key_ok one_key_swept split: if_splits)

lemma seven: "i64_to_string 7 = ''7''" by code_simp

theorem snapshot_all_or_nothing_witness:
  "kr_kv (fst (fst (replay (fst (snapshot mem_conn (\<lambda>_ _. 5) [one_key] [])))) (0, ''k'')) = Some (0, ''7'', None)"
  using snapshot_all_or_nothing [OF mem_conn_laws _ prod.collapse [symmetric], of "[one_key]" "\<lambda>_ _. 5" "[]"] one_key_saved
  by (auto simp: one_key_ok one_key_swept stored_def seven dest!: spec [of _ "''k''"])

text \<open>A stream in which an identifier occurs twice cannot be saved: while it is there, no snapshot succeeds.\<close>

theorem repeated_id_refuses_save:
  assumes "sql_laws sc cn \<alpha>" and "\<forall>d \<in> set ds. db_ok d" and "i < length ds"
    and "swept clk i k ds = Some e" and "e_value e = Stream xs" and "\<not> distinct (map fst (stream_rows xs))"
  shows "\<not> snd (snapshot cn clk ds c)"
proof
  assume "snd (snapshot cn clk ds c)"
  then have "snapshot cn clk ds c = (fst (snapshot cn clk ds c), True)" by (metis prod.collapse)
  from snapshot_outcome [OF assms(1,2) this]
  have "holds sc (swept clk i k ds) (fst (fst (\<alpha> (fst (snapshot cn clk ds c)))) (int i, k))"
    using assms(3) by simp
  then show False using assms(4-6) by (simp add: stored_def)
qed

section \<open>Snapshot and load\<close>

text \<open>C8: What is saved is what is loaded: with a reliable SQL library, saving databases whose scores and stream
  identifiers can be stored succeeds, loading the tables into fresh databases succeeds, and every key has its value and
  its expiry time again, except that an integer is now its decimal string, that a stream has lost its entries without
  fields and is ordered by the bytes of its identifiers, and that a score is what a \<open>REAL\<close> column gives back.\<close>

theorem save_then_load:
  assumes "sql_laws sc cn \<alpha>" and "reliable sc cn \<alpha>" and "snd (\<alpha> c) = None" and "\<forall>d \<in> set ds. db_ok d"
    and "\<And>i k e. i < length ds \<Longrightarrow> swept clk i k ds = Some e \<Longrightarrow> storable sc (e_value e)"
  shows "\<exists>c' ds'. snapshot cn clk ds c = (c', True) \<and> load cn c' (replicate (length ds) db_new) = (ds', True) \<and>
    length ds' = length ds \<and> (\<forall>i < length ds. \<forall>k. reloaded sc (swept clk i k ds) (db_get (ds' ! i) k))"
proof -
  have "snd (snapshot cn clk ds c)"
    using snapshot_succeeds [OF assms(1,2,4,3)] assms(5) storable_keyed by blast
  then obtain c' where c': "snapshot cn clk ds c = (c', True)" by (metis prod.collapse)
  have holds: "holds sc (swept clk i k ds) (fst (fst (\<alpha> c')) (int i, k))" if "i < length ds" for i k
    using snapshot_outcome [OF assms(1,4) c'] that by simp
  have vals: "storable sc (e_value e) \<and> value_ok (e_value e)" if i: "i < length ds" and s: "swept clk i k ds = Some e" for i k e
  proof -
    have "db_ok (ds ! i)" using assms(4) i by simp
    then have "cell_ok (swept clk i k ds)" unfolding swept_def by (intro cell_ok_live db_ok_cell)
    then show ?thesis using assms(5) [OF i s] by (simp add: s)
  qed
  have "\<exists>ds'. load cn c' (replicate (length ds) db_new) = (ds', True) \<and> length ds' = length ds \<and>
      (\<forall>i < length ds. \<forall>k. reloaded sc (swept clk i k ds) (db_get (ds' ! i) k))"
    by (rule load_stored [OF assms(1,2)]) (fact holds, fact vals)
  then show ?thesis using c' by blast
qed

theorem save_then_load_witness:
  "\<exists>c' ds'. snapshot mem_conn (\<lambda>_ _. 5) [one_key] [] = (c', True) \<and> load mem_conn c' [db_new] = (ds', True) \<and>
    db_get (ds' ! 0) = [''k'' \<mapsto> \<lparr>e_value = String ''7'', expires_at = None\<rparr>]"
proof -
  have "\<exists>c' ds'. snapshot mem_conn (\<lambda>_ _. 5) [one_key] [] = (c', True) \<and>
      load mem_conn c' (replicate (length [one_key]) db_new) = (ds', True) \<and> length ds' = length [one_key] \<and>
      (\<forall>i < length [one_key]. \<forall>k. reloaded Some (swept (\<lambda>_ _. 5) i k [one_key]) (db_get (ds' ! i) k))"
    by (rule save_then_load [OF mem_conn_laws mem_conn_reliable])
      (auto simp: one_key_ok one_key_swept split: if_splits)
  then obtain c' ds' where r: "snapshot mem_conn (\<lambda>_ _. 5) [one_key] [] = (c', True)" "load mem_conn c' [db_new] = (ds', True)"
    "\<forall>k. reloaded Some (swept (\<lambda>_ _. 5) 0 k [one_key]) (db_get (ds' ! 0) k)"
    by auto
  have "db_get (ds' ! 0) k = [''k'' \<mapsto> \<lparr>e_value = String ''7'', expires_at = None\<rparr>] k" for k
    using r(3) by (cases "k = ''k''") (auto simp: one_key_swept seven dest: spec [of _ k])
  then show ?thesis using r(1,2) by blast
qed

text \<open>The order of identifiers as bytes is not the order of their numbers.\<close>

theorem load_reorders_stream:
  "reloaded_stream [(''9-0'', [(''f'', ''a'')]), (''10-0'', [(''f'', ''b'')])] =
    [(''10-0'', [(''f'', ''b'')]), (''9-0'', [(''f'', ''a'')])]"
  by (simp add: reloaded_stream_def)

section \<open>The log\<close>

text \<open>The batches that a worker makes of the entries.\<close>

fun aof_batches :: "nat list \<Rightarrow> aof_entry list \<Rightarrow> aof_entry list list" where
  "aof_batches cuts [] = []"
| "aof_batches [] es = []"
| "aof_batches (n # cuts) es =
     (let m = max 1 (min n AOF_BATCH_MAX) in take m es # aof_batches cuts (drop m es))"

definition log_rows :: "aof_entry list \<Rightarrow> (int \<times> bytes) list" where
  "log_rows es = map (\<lambda>e. (ae_db e, ae_encoded e)) es"

lemma log_stmts_in_transaction: "list_all in_transaction (map (\<lambda>e. LogCmd (f e) (g e)) es)"
  by (simp add: list_all_iff)

lemma flush_outcome:
  assumes "sql_laws sc cn \<alpha>" and "\<alpha> c = ((T, L), None)" and "flush_aof_batch cn b c = (c', good)"
  shows "\<alpha> c' = ((T, if good then L @ log_rows b else L), None)"
proof (cases "b = []")
  case True
  then show ?thesis using assms by (auto simp: flush_aof_batch_def log_rows_def)
next
  case False
  let ?ss = "map (\<lambda>e. LogCmd (ae_db e) (ae_encoded e)) b"
  obtain c1 d1 where b: "c_exec cn Begin c = (c1, d1)" by fastforce
  obtain c2 d2 where e: "exec_all cn ?ss c1 = (c2, d2)" by fastforce
  obtain c3 d3 where m: "c_exec cn Commit c2 = (c3, d3)" by fastforce
  have rolled: "\<alpha> (fst (c_exec cn Rollback x)) = ((T, L), None)" if "durable (\<alpha> x) = (T, L)" for x
    using law_rollback [OF assms(1) prod.collapse [symmetric]] that by (metis prod.collapse)
  show ?thesis
  proof (cases d1)
    case False
    then have "fell_back (\<alpha> c) (\<alpha> c1)" using law_failed [OF assms(1)] b by simp
    moreover have "c' = c1" "\<not> good" using assms(3) b \<open>b \<noteq> []\<close> False by (auto simp: flush_aof_batch_def)
    ultimately show ?thesis using assms(2) by (auto simp: fell_back_def)
  next
    case True
    then have "stmt_effect sc Begin (\<alpha> c) = Some (\<alpha> c1)" using law_done [OF assms(1)] b by simp
    then have a1: "\<alpha> c1 = ((T, L), Some (T, L))" by (simp add: assms(2))
    show ?thesis
    proof (cases d2)
      case False
      then have "durable (\<alpha> c2) = (T, L)"
        using exec_all_failed [OF assms(1) _ log_stmts_in_transaction, of _ _ b c1 c2] e a1 by (simp add: durable_def)
      moreover have "c' = fst (c_exec cn Rollback c2)" "\<not> good"
        using assms(3) b e \<open>b \<noteq> []\<close> \<open>d1\<close> False by (auto simp: flush_aof_batch_def)
      ultimately show ?thesis using rolled by simp
    next
      case True
      then have "stmts_effect sc ?ss (\<alpha> c1) = Some (\<alpha> c2)" using exec_all_done [OF assms(1)] e by simp
      then have a2: "\<alpha> c2 = ((T, L @ log_rows b), Some (T, L))" by (simp add: a1 stmts_log log_rows_def)
      show ?thesis
      proof (cases d3)
        case False
        then have "durable (\<alpha> c3) = (T, L)"
          using fell_back_durable [OF law_failed [OF assms(1)]] m a2 by (simp add: durable_def)
        moreover have "c' = fst (c_exec cn Rollback c3)" "\<not> good"
          using assms(3) b e m \<open>b \<noteq> []\<close> \<open>d1\<close> \<open>d2\<close> False by (auto simp: flush_aof_batch_def)
        ultimately show ?thesis using rolled by simp
      next
        case True
        then have "stmt_effect sc Commit (\<alpha> c2) = Some (\<alpha> c3)" using law_done [OF assms(1)] m by simp
        moreover have "c' = c3" "good"
          using assms(3) b e m \<open>b \<noteq> []\<close> \<open>d1\<close> \<open>d2\<close> True by (auto simp: flush_aof_batch_def)
        ultimately show ?thesis by (simp add: a2)
      qed
    qed
  qed
qed

lemma flush_reliable:
  assumes "sql_laws sc cn \<alpha>" and "reliable sc cn \<alpha>" and "\<alpha> c = ((T, L), None)"
  shows "snd (flush_aof_batch cn b c)"
proof (cases "b = []")
  case False
  let ?ss = "map (\<lambda>e. LogCmd (ae_db e) (ae_encoded e)) b"
  obtain c1 where b: "c_exec cn Begin c = (c1, True)"
    using law_reliable [OF assms(2), of Begin c] by (cases "c_exec cn Begin c") (simp add: assms(3))
  have a1: "\<alpha> c1 = ((T, L), Some (T, L))" using law_done [OF assms(1) b] by (simp add: assms(3))
  have "snd (exec_all cn ?ss c1)" using exec_all_reliable [OF assms(1,2)] by (simp add: a1 stmts_log)
  then obtain c2 where e: "exec_all cn ?ss c1 = (c2, True)" by (cases "exec_all cn ?ss c1") simp
  have a2: "\<alpha> c2 = ((T, L @ log_rows b), Some (T, L))"
    using exec_all_done [OF assms(1) e] by (simp add: a1 stmts_log log_rows_def)
  obtain c3 where "c_exec cn Commit c2 = (c3, True)"
    using law_reliable [OF assms(2), of Commit c2] by (cases "c_exec cn Commit c2") (simp add: a2)
  then show ?thesis using False by (simp add: flush_aof_batch_def b e)
qed (simp add: flush_aof_batch_def)

text \<open>C28: The append-only log holds whole batches in the order in which the commands were sent: a batch that fails is
  missing as a whole, nothing else of the tables changes, and with a reliable SQL library no batch is missing.\<close>

theorem aof_log_batches:
  assumes "sql_laws sc cn \<alpha>" and "\<alpha> c = ((T, L), None)"
  shows "\<exists>kept. subseq kept (aof_batches cuts es) \<and>
    \<alpha> (run_aof_worker cn cuts es c) = ((T, L @ log_rows (concat kept)), None) \<and>
    (reliable sc cn \<alpha> \<longrightarrow> kept = aof_batches cuts es)"
  using assms(2)
proof (induction cuts es arbitrary: c L rule: aof_batches.induct)
  case (3 n cuts e es)
  let ?m = "max 1 (min n AOF_BATCH_MAX)" and ?es = "e # es"
  obtain c1 good where f: "flush_aof_batch cn (take ?m ?es) c = (c1, good)" by fastforce
  note out = flush_outcome [OF assms(1) "3.prems" f]
  obtain kept where kept: "subseq kept (aof_batches cuts (drop ?m ?es))"
    "\<alpha> (run_aof_worker cn cuts (drop ?m ?es) c1) =
       ((T, (if good then L @ log_rows (take ?m ?es) else L) @ log_rows (concat kept)), None)"
    "reliable sc cn \<alpha> \<longrightarrow> kept = aof_batches cuts (drop ?m ?es)"
    using "3.IH" [OF refl out] by blast
  have rel: "reliable sc cn \<alpha> \<Longrightarrow> good" using flush_reliable [OF assms(1) _ "3.prems", of "take ?m ?es"] f by simp
  show ?case
    by (rule exI [of _ "if good then take ?m ?es # kept else kept"])
      (use kept rel f in \<open>auto simp: Let_def log_rows_def simp del: take_Suc_Cons drop_Suc_Cons\<close>)
qed (auto simp: log_rows_def)

theorem aof_log_batches_witness:
  "snd (fst (replay (run_aof_worker mem_conn [1, 2] [\<lparr>ae_db = 0, ae_encoded = ''a''\<rparr>, \<lparr>ae_db = 3, ae_encoded = ''b''\<rparr>] []))) =
    [(0, ''a''), (3, ''b'')]"
  using aof_log_batches [OF mem_conn_laws replay.simps(1), of "[1, 2]"
      "[\<lparr>ae_db = 0, ae_encoded = ''a''\<rparr>, \<lparr>ae_db = 3, ae_encoded = ''b''\<rparr>]"] mem_conn_reliable
  by (auto simp: log_rows_def AOF_BATCH_MAX_def)

end
