(* ===== verification/Script_Scan.thy ===== *)
theory Script_Scan
  imports Compiler_Text
begin

text \<open>
  The scans of the script parser (\<open>src/parser.rs\<close>): bodies in brackets, the end of a statement, the keywords of a
  loop header, the cases of a \<open>switch\<close>, and the operators at which an expression is split. A scan walks over the bytes
  with the nesting depth and, inside a string, the quote that opened it.
\<close>

section \<open>Brackets and quotes\<close>

definition opens :: "byte \<Rightarrow> bool" where
  "opens b \<longleftrightarrow> b \<in> {CHR ''('', CHR ''['', CHR ''{''}"

definition closes :: "byte \<Rightarrow> bool" where
  "closes b \<longleftrightarrow> b \<in> {CHR '')'', CHR '']'', CHR ''}''}"

definition nest :: "byte \<Rightarrow> int \<Rightarrow> int" where
  "nest b depth = (if opens b then depth + 1 else if closes b then depth - 1 else depth)"

definition is_quote :: "byte \<Rightarrow> bool" where
  "is_quote b \<longleftrightarrow> b = SQ \<or> b = DQ"

definition BACKTICK :: byte where "BACKTICK = CHR 0x60"

text \<open>The first byte outside strings and brackets that satisfies \<open>p\<close>: the loop of \<open>find_case_colon\<close>, of
  \<open>extract_statement\<close>, of the two halves of \<open>split_ternary\<close> and of \<open>has_top_level_comma\<close>. A backslash in a string has
  no effect in any of them.\<close>

fun find_top_level :: "(byte \<Rightarrow> bool) \<Rightarrow> byte option \<Rightarrow> int \<Rightarrow> nat \<Rightarrow> bytes \<Rightarrow> nat option" where
  "find_top_level p q depth i [] = None"
| "find_top_level p q depth i (b # s) =
     (case q of
        Some d \<Rightarrow> find_top_level p (if b = d then None else q) depth (Suc i) s
      | None \<Rightarrow>
          if is_quote b then find_top_level p (Some b) depth (Suc i) s
          else if opens b then find_top_level p None (depth + 1) (Suc i) s
          else if closes b then find_top_level p None (depth - 1) (Suc i) s
          else if p b \<and> depth = 0 then Some i
          else find_top_level p None depth (Suc i) s)"

section \<open>Bodies\<close>

text \<open>\<open>extract_paren\<close> and \<open>extract_bracket\<close> are the same loop with other brackets; it counts only its own kind and
  ignores backslashes. \<open>extract_braces\<close> skips whole strings with their escapes.\<close>

fun close_loop :: "byte \<Rightarrow> byte \<Rightarrow> byte option \<Rightarrow> int \<Rightarrow> nat \<Rightarrow> bytes \<Rightarrow> nat option" where
  "close_loop left right q depth i [] = None"
| "close_loop left right q depth i (b # s) =
     (case q of
        Some d \<Rightarrow> close_loop left right (if b = d then None else q) depth (Suc i) s
      | None \<Rightarrow>
          if is_quote b then close_loop left right (Some b) depth (Suc i) s
          else if b = left then close_loop left right None (depth + 1) (Suc i) s
          else if b = right then
            (if depth - 1 = 0 then Some i else close_loop left right None (depth - 1) (Suc i) s)
          else close_loop left right None depth (Suc i) s)"

definition cut_body :: "nat option \<Rightarrow> bytes \<Rightarrow> (bytes \<times> bytes) option" where
  "cut_body pos s = map_option (\<lambda>i. (take (i - 1) (drop 1 s), drop (Suc i) s)) pos"

definition extract_paren :: "bytes \<Rightarrow> (bytes \<times> bytes) option" where
  "extract_paren s =
     (if prefix ''('' s then cut_body (close_loop (CHR ''('') (CHR '')'') None 0 0 s) s else None)"

definition extract_bracket :: "bytes \<Rightarrow> (bytes \<times> bytes) option" where
  "extract_bracket s =
     (if prefix ''['' s then cut_body (close_loop (CHR ''['') (CHR '']'') None 0 0 s) s else None)"

text \<open>How many bytes behind an opening quote come before the closing one, or before the end.\<close>

fun skip_string :: "byte \<Rightarrow> bytes \<Rightarrow> nat" where
  "skip_string q [] = 0"
| "skip_string q [c] = (if c = q then 0 else 1)"
| "skip_string q (c # c2 # s) =
     (if c = BACKSLASH then 2 + skip_string q s
      else if c = q then 0 else Suc (skip_string q (c2 # s)))"

function braces_loop :: "int \<Rightarrow> nat \<Rightarrow> bytes \<Rightarrow> nat option" where
  "braces_loop depth i [] = None"
| "braces_loop depth i (b # s) =
     (if b = CHR ''{'' then braces_loop (depth + 1) (Suc i) s
      else if b = CHR ''}'' then (if depth - 1 = 0 then Some i else braces_loop (depth - 1) (Suc i) s)
      else if is_quote b then
        (let n = skip_string b s in braces_loop depth (Suc (Suc (i + n))) (drop (Suc n) s))
      else braces_loop depth (Suc i) s)"
  by pat_completeness auto
termination by (relation "measure (\<lambda>(depth, i, s). length s)") auto

definition extract_braces :: "bytes \<Rightarrow> (bytes \<times> bytes) option" where
  "extract_braces s = (if prefix ''{'' s then cut_body (braces_loop 0 0 s) s else None)"

section \<open>Statements and loop headers\<close>

definition extract_statement :: "bytes \<Rightarrow> (bytes \<times> bytes) option" where
  "extract_statement src =
     (let s = trim_start src in
      if s = [] then None
      else case find_top_level (\<lambda>b. b = CHR '';'' \<or> b = NEWLINE) None 0 0 s of
             Some i \<Rightarrow> Some (trim (take i s), trim_start (drop (Suc i) s))
           | None \<Rightarrow> Some (trim s, []))"

definition alnum_or_underscore :: "byte \<Rightarrow> bool" where
  "alnum_or_underscore b \<longleftrightarrow> byte_in 65 90 b \<or> byte_in 97 122 b \<or> is_digit b \<or> b = CHR ''_''"

text \<open>The byte at a position, or the default when the text ends before it.\<close>

definition byte_at :: "bytes \<Rightarrow> nat \<Rightarrow> byte \<Rightarrow> byte" where
  "byte_at s i d = (if i < length s then s ! i else d)"

function do_while_loop :: "byte \<Rightarrow> byte option \<Rightarrow> int \<Rightarrow> nat \<Rightarrow> bytes \<Rightarrow> nat option" where
  "do_while_loop prev q depth i [] = None"
| "do_while_loop prev q depth i (b # s) =
     (if length (b # s) < 5 then None
      else case q of
        Some d \<Rightarrow>
          if b = d then do_while_loop b None depth (Suc i) s
          else if b = BACKSLASH then do_while_loop (hd s) q depth (Suc (Suc i)) (drop 1 s)
          else do_while_loop b q depth (Suc i) s
      | None \<Rightarrow>
          if is_quote b \<or> b = BACKTICK then do_while_loop b (Some b) depth (Suc i) s
          else if nest b depth = 0 \<and> prefix ''while'' (b # s) \<and> \<not> alnum_or_underscore prev \<and>
            \<not> alnum_or_underscore (byte_at (b # s) 5 (CHR '' '')) then Some i
          else do_while_loop b None (nest b depth) (Suc i) s)"
  by pat_completeness auto
termination by (relation "measure (\<lambda>(prev, q, depth, i, s). length s)") auto

definition split_do_while_body :: "bytes \<Rightarrow> (bytes \<times> bytes) option" where
  "split_do_while_body src =
     (let s = trim_start src in
      if s = [] then None
      else map_option (\<lambda>i. (trim_end (take i s), trim_start (drop i s))) (do_while_loop (CHR '' '') None 0 0 s))"

function for_in_loop :: "byte option \<Rightarrow> int \<Rightarrow> nat \<Rightarrow> bytes \<Rightarrow> nat option" where
  "for_in_loop q depth i [] = None"
| "for_in_loop q depth i (b # s) =
     (case q of
        Some d \<Rightarrow>
          if b = d then for_in_loop None depth (Suc i) s
          else if b = BACKSLASH \<and> s \<noteq> [] then for_in_loop q depth (Suc (Suc i)) (drop 1 s)
          else for_in_loop q depth (Suc i) s
      | None \<Rightarrow>
          if is_quote b then for_in_loop (Some b) depth (Suc i) s
          else if nest b depth = 0 \<and> prefix '' in '' (b # s) then Some i
          else for_in_loop None (nest b depth) (Suc i) s)"
  by pat_completeness auto
termination by (relation "measure (\<lambda>(q, depth, i, s). length s)") auto

definition find_for_in_keyword :: "bytes \<Rightarrow> nat option" where
  "find_for_in_keyword header = for_in_loop None 0 0 header"

text \<open>The loop runs up to \<open>len - 4\<close>, exclusive; the position is the one of the letter \<open>o\<close>.\<close>

fun for_of_loop :: "nat \<Rightarrow> bytes \<Rightarrow> nat option" where
  "for_of_loop i [] = None"
| "for_of_loop i (b # s) =
     (if length (b # s) \<le> 4 then None else if prefix '' of '' (b # s) then Some (Suc i) else for_of_loop (Suc i) s)"

definition find_for_of_keyword :: "bytes \<Rightarrow> nat option" where
  "find_for_of_keyword header = for_of_loop 0 header"

section \<open>The cases of a switch\<close>

definition find_case_colon :: "bytes \<Rightarrow> nat option" where
  "find_case_colon s = find_top_level (\<lambda>b. b = CHR '':'') None 0 0 s"

function case_end_loop :: "byte option \<Rightarrow> int \<Rightarrow> nat \<Rightarrow> bytes \<Rightarrow> nat" where
  "case_end_loop q depth i [] = i"
| "case_end_loop q depth i (b # s) =
     (case q of
        Some d \<Rightarrow>
          if b = d then case_end_loop None depth (Suc i) s
          else if b = BACKSLASH \<and> s \<noteq> [] then case_end_loop q depth (Suc (Suc i)) (drop 1 s)
          else case_end_loop q depth (Suc i) s
      | None \<Rightarrow>
          if is_quote b then case_end_loop (Some b) depth (Suc i) s
          else if b = CHR ''}'' \<and> depth = 0 then i
          else let depth = (if b = CHR ''{'' then depth + 1 else if b = CHR ''}'' then depth - 1 else depth)
               in if depth = 0 \<and> (prefix ''case '' (b # s) \<or> prefix ''default'' (b # s)) then i
                  else case_end_loop None depth (Suc i) s)"
  by pat_completeness auto
termination by (relation "measure (\<lambda>(q, depth, i, s). length s)") auto

definition find_case_body_end :: "bytes \<Rightarrow> nat" where
  "find_case_body_end s = case_end_loop None 0 0 s"

function switch_cases_loop :: "bytes \<Rightarrow> (bytes option \<times> bytes) list \<Rightarrow> (bytes option \<times> bytes) list option" where
  "switch_cases_loop rest0 acc =
     (let rest = trim_start rest0 in
      if prefix ''case '' rest then
        (let after = drop 5 rest in
         case find_case_colon after of
           None \<Rightarrow> None
         | Some c \<Rightarrow>
             let rest = drop (Suc c) after; e = find_case_body_end rest
             in switch_cases_loop (drop e rest) (acc @ [(Some (trim (take c after)), trim (take e rest))]))
      else if prefix ''default'' rest then
        (let after = trim_start (drop 7 rest) in
         if \<not> prefix '':'' after then None
         else let rest = drop 1 after; e = find_case_body_end rest
              in switch_cases_loop (drop e rest) (acc @ [(None, trim (take e rest))]))
      else Some acc)"
  by pat_completeness auto
termination
proof (relation "measure (length \<circ> fst)", simp, goal_cases)
  case (1 rest0 acc rest after c after' e)
  have "0 < length rest" using 1(2) by (auto simp: prefix_def)
  moreover have "length (drop e after') \<le> length rest - 5" using 1 by simp
  moreover have "length rest \<le> length rest0" using 1 length_trim_start [of rest0] by simp
  ultimately show ?case by (simp only: in_measure comp_def fst_conv; linarith)
next
  case (2 rest0 acc rest after after' e)
  have "0 < length rest" using 2(3) by (auto simp: prefix_def)
  moreover have "length (drop e after') \<le> length rest - 7" using 2 length_trim_start [of "drop 7 rest"] by simp
  moreover have "length rest \<le> length rest0" using 2 length_trim_start [of rest0] by simp
  ultimately show ?case by (simp only: in_measure comp_def fst_conv; linarith)
qed

declare switch_cases_loop.simps [simp del]

definition parse_switch_cases :: "bytes \<Rightarrow> (bytes option \<times> bytes) list option" where
  "parse_switch_cases body = switch_cases_loop (trim body) []"

section \<open>Expressions\<close>

text \<open>The identifiers of the parser have no dollar sign.\<close>

definition is_ident_start :: "byte \<Rightarrow> bool" where
  "is_ident_start b \<longleftrightarrow> byte_in 65 90 b \<or> byte_in 97 122 b \<or> b = CHR ''_''"

definition parse_identifier :: "bytes \<Rightarrow> (bytes \<times> bytes) option" where
  "parse_identifier s =
     (case s of
        [] \<Rightarrow> None
      | c # r \<Rightarrow>
          if \<not> is_ident_start c then None
          else let e = Suc (length (takeWhile alnum_or_underscore r)) in Some (take e s, drop e s))"

definition is_identifier :: "bytes \<Rightarrow> bool" where
  "is_identifier s = (case parse_identifier s of None \<Rightarrow> False | Some (name, rest) \<Rightarrow> name \<noteq> [] \<and> trim rest = [])"

text \<open>Both sides of an operator have to be non-empty.\<close>

definition two_sides :: "bytes \<Rightarrow> bytes \<Rightarrow> (bytes \<times> bytes) option" where
  "two_sides lhs rhs = (if trim lhs = [] \<or> trim rhs = [] then None else Some (trim lhs, trim rhs))"

text \<open>The first \<open>=\<close> at top level that belongs to no other operator.\<close>

fun assignment_loop :: "byte \<Rightarrow> byte option \<Rightarrow> int \<Rightarrow> nat \<Rightarrow> bytes \<Rightarrow> nat option" where
  "assignment_loop prev q depth i [] = None"
| "assignment_loop prev q depth i (b # s) =
     (case q of
        Some d \<Rightarrow> assignment_loop b (if b = d then None else q) depth (Suc i) s
      | None \<Rightarrow>
          if is_quote b then assignment_loop b (Some b) depth (Suc i) s
          else if b = CHR ''='' \<and> depth = 0 \<and>
            \<not> (byte_at s 0 (CHR 0x00) \<in> {CHR ''>'', CHR ''=''} \<or> prev \<in> {CHR ''='', CHR ''!'', CHR ''<'', CHR ''>''})
          then Some i
          else assignment_loop b None (nest b depth) (Suc i) s)"

definition split_assignment :: "bytes \<Rightarrow> (bytes \<times> bytes) option" where
  "split_assignment src =
     (case assignment_loop (CHR 0x00) None 0 0 src of
        None \<Rightarrow> None
      | Some i \<Rightarrow> two_sides (take i src) (drop (Suc i) src))"

definition split_ternary :: "bytes \<Rightarrow> (bytes \<times> bytes \<times> bytes) option" where
  "split_ternary src =
     (case find_top_level (\<lambda>b. b = CHR ''?'') None 0 0 src of
        None \<Rightarrow> None
      | Some p \<Rightarrow>
          (let behind = drop (Suc p) src in
           case find_top_level (\<lambda>b. b = CHR '':'') None 0 0 behind of
             None \<Rightarrow> None
           | Some i \<Rightarrow>
               let cond = trim (take p src); yes = trim (take i behind); no = trim (drop (Suc i) behind)
               in if cond \<noteq> [] \<and> yes \<noteq> [] \<and> no \<noteq> [] then Some (cond, yes, no) else None))"

text \<open>The first dot before a name, parenthesis or bracket that is not at the start.\<close>

fun tail_loop :: "byte option \<Rightarrow> int \<Rightarrow> nat \<Rightarrow> bytes \<Rightarrow> nat option" where
  "tail_loop q depth i [] = None"
| "tail_loop q depth i (b # s) =
     (case q of
        Some d \<Rightarrow> tail_loop (if b = d then None else q) depth (Suc i) s
      | None \<Rightarrow>
          if is_quote b then tail_loop (Some b) depth (Suc i) s
          else if depth = 0 \<and> b = CHR ''.'' \<and> s \<noteq> [] \<and> is_ident_start (hd s) then Some i
          else if (b = CHR ''('' \<or> b = CHR ''['') \<and> depth = 0 \<and> 0 < i then Some i
          else tail_loop None (nest b depth) (Suc i) s)"

definition split_base_and_tail :: "bytes \<Rightarrow> (bytes \<times> bytes) option" where
  "split_base_and_tail src =
     (let s = trim src in
      if s = [] then None
      else case tail_loop None 0 0 s of
             None \<Rightarrow> Some (s, [])
           | Some i \<Rightarrow> if trim (take i s) = [] then None else Some (trim (take i s), drop i s))"

text \<open>The loop of \<open>split_instanceof\<close> and \<open>split_in_operator\<close>: the first place at top level where the token stands;
  \<open>word\<close> says whether the bytes around it must not belong to an identifier.\<close>

function token_loop :: "bytes \<Rightarrow> bool \<Rightarrow> byte option \<Rightarrow> byte option \<Rightarrow> int \<Rightarrow> nat \<Rightarrow> bytes \<Rightarrow> nat option" where
  "token_loop token word prev q depth i [] = None"
| "token_loop token word prev q depth i (b # s) =
     (if length (b # s) < length token then None
      else case q of
        Some d \<Rightarrow>
          if b = d then token_loop token word (Some b) None depth (Suc i) s
          else if b = BACKSLASH then
            token_loop token word (case s of c # _ \<Rightarrow> Some c | [] \<Rightarrow> None) q depth (Suc (Suc i)) (drop 1 s)
          else token_loop token word (Some b) q depth (Suc i) s
      | None \<Rightarrow>
          if is_quote b then token_loop token word (Some b) (Some b) depth (Suc i) s
          else if opens b \<or> closes b then token_loop token word (Some b) None (nest b depth) (Suc i) s
          else if depth = 0 \<and> prefix token (b # s) then
            (if word \<and> ((case prev of Some c \<Rightarrow> alnum_or_underscore c | None \<Rightarrow> False) \<or>
                length token < length (b # s) \<and> alnum_or_underscore ((b # s) ! length token))
             then token_loop token word (Some b) None depth (Suc i) s else Some i)
          else token_loop token word (Some b) None depth (Suc i) s)"
  by pat_completeness auto
termination by (relation "measure (\<lambda>(token, word, prev, q, depth, i, s). length s)") auto

definition split_instanceof :: "bytes \<Rightarrow> (bytes \<times> bytes) option" where
  "split_instanceof src =
     (let s = trim src in
      if s = [] then None
      else case token_loop ''instanceof'' True None None 0 0 s of
             None \<Rightarrow> None
           | Some i \<Rightarrow> two_sides (take i s) (drop (i + 10) s))"

definition split_in_operator :: "bytes \<Rightarrow> (bytes \<times> bytes) option" where
  "split_in_operator src =
     (let s = trim src in
      if s = [] then None
      else case token_loop '' in '' False None None 0 0 s of
             None \<Rightarrow> None
           | Some i \<Rightarrow> two_sides (take i s) (drop (i + 4) s))"

end
