(* ===== verification/Script_Split.thy ===== *)
theory Script_Split
  imports Script_Scan
begin

text \<open>
  The text passes of the script evaluator (\<open>src/evals.rs\<close>): comments are blanked, lines that belong together are
  joined, and the text is cut into statements; lists are cut at top-level commas.
\<close>

section \<open>Comments\<close>

text \<open>Inside a block comment, behind its opening: the blanked bytes and what follows the comment.\<close>

fun block_loop :: "bytes \<Rightarrow> bytes \<Rightarrow> (bytes \<times> bytes) option" where
  "block_loop out [] = None"
| "block_loop out [b] = None"
| "block_loop out (a # b # s) =
     (if a = CHR ''*'' \<and> b = CHR ''/'' then Some (out @ ''  '', s)
      else block_loop (out @ [if a = NEWLINE then NEWLINE else CHR '' '']) (b # s))"

definition line_rest :: "bytes \<Rightarrow> bytes" where
  "line_rest s = dropWhile (\<lambda>b. b \<noteq> NEWLINE) s"

definition blank_line :: "bytes \<Rightarrow> bytes" where
  "blank_line s = ''  '' @ replicate (length (takeWhile (\<lambda>b. b \<noteq> NEWLINE) s)) (CHR '' '')"

lemma block_loop_length: "block_loop out s = Some (out', r) \<Longrightarrow> length r < length s"
  by (induction out s rule: block_loop.induct) (auto split: if_splits)

lemma line_rest_length: "line_rest s = c # r \<Longrightarrow> length r < length s"
  unfolding line_rest_def using length_dropWhile_le [of "\<lambda>b. b \<noteq> NEWLINE" s] by simp

text \<open>The error is the offset of a block comment that is not closed.\<close>

function strip_loop :: "byte option \<Rightarrow> nat \<Rightarrow> bytes \<Rightarrow> bytes \<Rightarrow> nat + bytes" where
  "strip_loop q i out [] = Inr out"
| "strip_loop q i out (b # s) =
     (case q of
        Some d \<Rightarrow>
          if b = BACKSLASH \<and> s \<noteq> [] then strip_loop q (i + 2) (out @ [b, hd s]) (drop 1 s)
          else strip_loop (if b \<noteq> BACKSLASH \<and> b = d then None else q) (Suc i) (out @ [b]) s
      | None \<Rightarrow>
          if is_quote b then strip_loop (Some b) (Suc i) (out @ [b]) s
          else if b = CHR ''/'' \<and> s \<noteq> [] \<and> hd s = CHR ''/'' then
            (let out = out @ blank_line (drop 1 s); i = i + length (blank_line (drop 1 s)) in
             case line_rest (drop 1 s) of
               [] \<Rightarrow> Inr out
             | _ # r \<Rightarrow> strip_loop None (Suc i) (out @ [NEWLINE]) r)
          else if b = CHR ''/'' \<and> s \<noteq> [] \<and> hd s = CHR ''*'' then
            (case block_loop ''  '' (drop 1 s) of
               None \<Rightarrow> Inl i
             | Some (blank, r) \<Rightarrow> strip_loop None (i + length blank) (out @ blank) r)
          else strip_loop None (Suc i) (out @ [b]) s)"
  by pat_completeness auto
termination
  by (relation "measure (\<lambda>(q, i, out, s). length s)") (auto dest!: block_loop_length line_rest_length)

text \<open>A text without a slash is returned as it is; \<open>String::from_utf8\<close> is the last step.\<close>

definition strip_comments_checked :: "bytes \<Rightarrow> nat + bytes" where
  "strip_comments_checked src =
     (if CHR ''/'' \<notin> set src then Inr src
      else case strip_loop None 0 [] src of
             Inl i \<Rightarrow> Inl i
           | Inr out \<Rightarrow> if utf8_ok out then Inr out else Inl 0)"

definition strip_comments :: "bytes \<Rightarrow> bytes" where
  "strip_comments src = (case strip_comments_checked src of Inr s \<Rightarrow> s | Inl _ \<Rightarrow> src)"

section \<open>Lines\<close>

text \<open>\<open>str::lines\<close>: a carriage return before the line break belongs to the break.\<close>

fun str_lines :: "bytes \<Rightarrow> bytes \<Rightarrow> bytes list" where
  "str_lines cur [] = (if cur = [] then [] else [rev cur])"
| "str_lines cur (b # s) =
     (if b = NEWLINE then
        rev (case cur of c # r \<Rightarrow> if c = CHR 0x0D then r else cur | [] \<Rightarrow> []) # str_lines [] s
      else str_lines (b # cur) s)"

definition line_ends_with_operator :: "bytes \<Rightarrow> bool" where
  "line_ends_with_operator line =
     (case rev (trim_end line) of
        [] \<Rightarrow> False
      | l # r \<Rightarrow>
          if l = CHR ''+'' \<or> l = CHR ''-'' then \<not> (r \<noteq> [] \<and> hd r = l)
          else l \<in> set ''*/%&|^<>=?:,.'')"

fun paren_end_loop :: "int \<Rightarrow> nat \<Rightarrow> bytes \<Rightarrow> nat option" where
  "paren_end_loop depth i [] = None"
| "paren_end_loop depth i (b # s) =
     (if b = CHR ''('' then paren_end_loop (depth + 1) (Suc i) s
      else if b = CHR '')'' then (if depth - 1 = 0 then Some i else paren_end_loop (depth - 1) (Suc i) s)
      else paren_end_loop depth (Suc i) s)"

definition starts_with_any :: "bytes list \<Rightarrow> bytes \<Rightarrow> bool" where
  "starts_with_any ps s = list_ex (\<lambda>p. prefix p s) ps"

definition is_control :: "bytes \<Rightarrow> bool" where
  "is_control t = starts_with_any
     [''if '', ''if('', ''else'', ''function '', ''while '', ''while('', ''for '', ''for('', ''try'', ''catch''] t"

definition has_inline_body :: "bytes \<Rightarrow> bool" where
  "has_inline_body t =
     (if starts_with_any [''if'', ''while'', ''for''] t then
        (case find_part ''('' t of
           None \<Rightarrow> False
         | Some start \<Rightarrow>
             (case paren_end_loop 0 start (drop start t) of
                Some e \<Rightarrow> trim (drop (Suc e) t) \<noteq> []
              | None \<Rightarrow> False))
      else if prefix ''else'' t then t \<noteq> ''else''
      else if prefix ''do'' t then t \<noteq> ''do''
      else False)"

definition ends_with :: "byte \<Rightarrow> bytes \<Rightarrow> bool" where
  "ends_with c s \<longleftrightarrow> s \<noteq> [] \<and> last s = c"

definition joined :: "bytes \<Rightarrow> bytes \<Rightarrow> bytes" where
  "joined current next_line = current @ CHR '' '' # trim_start next_line"

text \<open>One line with the lines that it takes in, and the lines behind them.\<close>

fun join_loop :: "bytes \<Rightarrow> bytes list \<Rightarrow> bytes \<times> bytes list" where
  "join_loop current [] = (current, [])"
| "join_loop current (next_line # lines) =
     (let t = trim_start current in
      if is_control t \<and> CHR ''{'' \<notin> set t \<and> \<not> ends_with (CHR '';'') (trim_end t) \<and> \<not> has_inline_body t then
        join_loop (joined current next_line) lines
      else if find_part ''function'' t \<noteq> None \<and> ends_with (CHR '')'') (trim_end t) \<and> prefix ''{'' (trim_start next_line) then
        join_loop (joined current next_line) lines
      else if line_ends_with_operator current then join_loop (joined current next_line) lines
      else (current, next_line # lines))"

lemma join_loop_length: "length (snd (join_loop current lines)) \<le> length lines"
  by (induction current lines rule: join_loop.induct) (auto simp: Let_def)

function normalize_loop :: "bytes list \<Rightarrow> bytes \<Rightarrow> bytes" where
  "normalize_loop [] out = out"
| "normalize_loop (l # lines) out =
     (case join_loop l lines of (current, lines') \<Rightarrow> normalize_loop lines' (out @ current @ [NEWLINE]))"
  by pat_completeness auto
termination
  by (relation "measure (length \<circ> fst)") (simp_all, metis join_loop_length le_imp_less_Suc snd_conv)

definition normalize_line_continuations :: "bytes \<Rightarrow> bytes" where
  "normalize_line_continuations src =
     (if NEWLINE \<notin> set src then src else normalize_loop (str_lines [] src) [])"

section \<open>Lists and arrows\<close>

definition has_top_level_comma :: "bytes \<Rightarrow> bool" where
  "has_top_level_comma s \<longleftrightarrow> find_top_level (\<lambda>b. b = CHR '','') None 0 0 s \<noteq> None"

text \<open>\<open>cur\<close> holds the bytes since \<open>start\<close>, backwards; a bracket that closes nothing and an end inside brackets are
  errors.\<close>

fun top_level_loop :: "byte option \<Rightarrow> int \<Rightarrow> bytes \<Rightarrow> bytes list \<Rightarrow> bytes \<Rightarrow> bytes list option" where
  "top_level_loop q depth cur out [] =
     (if depth \<noteq> 0 then None
      else let part = trim (rev cur) in Some (if part = [] then out else out @ [part]))"
| "top_level_loop q depth cur out (b # s) =
     (case q of
        Some d \<Rightarrow> top_level_loop (if b = d then None else q) depth (b # cur) out s
      | None \<Rightarrow>
          if is_quote b then top_level_loop (Some b) depth (b # cur) out s
          else if opens b then top_level_loop None (depth + 1) (b # cur) out s
          else if closes b then
            (if depth - 1 < 0 then None else top_level_loop None (depth - 1) (b # cur) out s)
          else if b = CHR '','' \<and> depth = 0 then top_level_loop None depth [] (out @ [trim (rev cur)]) s
          else top_level_loop None depth (b # cur) out s)"

definition split_top_level :: "bytes \<Rightarrow> bytes list option" where
  "split_top_level src = (let s = trim src in if s = [] then Some [] else top_level_loop None 0 [] [] s)"

definition parse_parameter_list :: "bytes \<Rightarrow> bytes list option" where
  "parse_parameter_list s = map_option (\<lambda>ps. filter (\<lambda>p. p \<noteq> []) (map trim ps)) (split_top_level s)"

function arrow_loop :: "byte option \<Rightarrow> int \<Rightarrow> nat \<Rightarrow> bytes \<Rightarrow> nat option" where
  "arrow_loop q depth i [] = None"
| "arrow_loop q depth i [b] = None"
| "arrow_loop q depth i (b # c # s) =
     (case q of
        Some d \<Rightarrow>
          if b = BACKSLASH then arrow_loop q depth (i + 2) s
          else arrow_loop (if b = d then None else q) depth (Suc i) (c # s)
      | None \<Rightarrow>
          if is_quote b then arrow_loop (Some b) depth (Suc i) (c # s)
          else if nest b depth = 0 \<and> b = CHR ''='' \<and> c = CHR ''>'' then Some i
          else arrow_loop None (nest b depth) (Suc i) (c # s))"
  by pat_completeness auto
termination by (relation "measure (\<lambda>(q, depth, i, s). length s)") auto

definition find_arrow_top_level :: "bytes \<Rightarrow> nat option" where
  "find_arrow_top_level s = arrow_loop None 0 0 s"

section \<open>Statements\<close>

definition slice :: "bytes \<Rightarrow> nat \<Rightarrow> nat \<Rightarrow> bytes" where
  "slice s a b = take (b - a) (drop a s)"

text \<open>The heads after which a closing brace ends a statement, and those after which a line break does not.\<close>

definition block_heads :: "bytes list" where
  "block_heads = [''if '', ''if('', ''while '', ''while('', ''for '', ''for('', ''function '']"

definition header_line :: "bytes \<Rightarrow> bool" where
  "header_line p \<longleftrightarrow>
     p = ''else'' \<or> p = ''do'' \<or>
     starts_with_any [''if '', ''if('', ''while '', ''while('', ''for '', ''for(''] p \<and> ends_with (CHR '')'') p"

fun statements_loop :: "bytes \<Rightarrow> nat \<Rightarrow> byte option \<Rightarrow> int \<Rightarrow> nat \<Rightarrow> bytes list \<Rightarrow> bytes \<Rightarrow> bytes list option" where
  "statements_loop s start q depth i out [] =
     (if depth \<noteq> 0 then None
      else let part = trim (drop start s) in Some (if part = [] then out else out @ [part]))"
| "statements_loop s start q depth i out (b # r) =
     (case q of
        Some d \<Rightarrow> statements_loop s start (if b = d then None else q) depth (Suc i) out r
      | None \<Rightarrow>
          if is_quote b then statements_loop s start (Some b) depth (Suc i) out r
          else if opens b then statements_loop s start None (depth + 1) (Suc i) out r
          else if closes b then
            (if depth - 1 < 0 then None
             else if depth - 1 = 0 \<and> b = CHR ''}'' then
               (if starts_with_any [''else '', ''else{''] (trim_start r) then
                  statements_loop s start None (depth - 1) (Suc i) out r
                else let part = trim (slice s start (Suc i)) in
                  if starts_with_any block_heads part then
                    statements_loop s (Suc i) None (depth - 1) (Suc i) (if part = [] then out else out @ [part]) r
                  else statements_loop s start None (depth - 1) (Suc i) out r)
             else statements_loop s start None (depth - 1) (Suc i) out r)
          else if (b = CHR '';'' \<or> b = NEWLINE) \<and> depth = 0 then
            (let p = trim (trim (slice s start i)) in
             if prefix ''else'' (trim_start r) then statements_loop s start None depth (Suc i) out r
             else if b = NEWLINE \<and> header_line p then statements_loop s start None depth (Suc i) out r
             else statements_loop s (Suc i) None depth (Suc i) (if p = [] then out else out @ [p]) r)
          else statements_loop s start None depth (Suc i) out r)"

definition split_statements :: "bytes \<Rightarrow> bytes list option" where
  "split_statements s = (if trim s = [] then Some [] else statements_loop s 0 None 0 0 [] s)"

fun offsets_loop ::
  "bytes \<Rightarrow> nat \<Rightarrow> byte option \<Rightarrow> int \<Rightarrow> nat \<Rightarrow> (nat \<times> bytes) list \<Rightarrow> bytes \<Rightarrow> (nat \<times> bytes) list option" where
  "offsets_loop s start q depth i out [] =
     (if depth \<noteq> 0 then None
      else let part = drop start s in Some (if trim part = [] then out else out @ [(start, part)]))"
| "offsets_loop s start q depth i out (b # r) =
     (case q of
        Some d \<Rightarrow> offsets_loop s start (if b = d then None else q) depth (Suc i) out r
      | None \<Rightarrow>
          if is_quote b then offsets_loop s start (Some b) depth (Suc i) out r
          else if opens b then offsets_loop s start None (depth + 1) (Suc i) out r
          else if closes b then
            (if depth - 1 < 0 then None
             else if depth - 1 = 0 \<and> b = CHR ''}'' then
               (if starts_with_any [''else '', ''else{''] (trim_start r) then
                  offsets_loop s start None (depth - 1) (Suc i) out r
                else let part = slice s start (Suc i); trimmed = trim part in
                  if starts_with_any block_heads trimmed then
                    offsets_loop s (Suc i) None (depth - 1) (Suc i) (if trimmed = [] then out else out @ [(start, part)]) r
                  else offsets_loop s start None (depth - 1) (Suc i) out r)
             else offsets_loop s start None (depth - 1) (Suc i) out r)
          else if (b = CHR '';'' \<or> b = NEWLINE) \<and> depth = 0 then
            (let part = slice s start i; p = trim part in
             if prefix ''else'' (trim_start r) then offsets_loop s start None depth (Suc i) out r
             else if b = NEWLINE \<and> header_line p then offsets_loop s start None depth (Suc i) out r
             else offsets_loop s (Suc i) None depth (Suc i) (if p = [] then out else out @ [(start, part)]) r)
          else offsets_loop s start None depth (Suc i) out r)"

definition split_statements_with_offsets :: "bytes \<Rightarrow> (nat \<times> bytes) list option" where
  "split_statements_with_offsets s = (if trim s = [] then Some [] else offsets_loop s 0 None 0 0 [] s)"

end
