(* ===== verification/Scan_Facts.thy ===== *)
theory Scan_Facts
  imports Script_Split
begin

text \<open>
  What the scans find: the reference is the fold of one byte at a time over nesting depth and open quote. Bodies in
  brackets are balanced, top-level searches find the first byte outside all brackets and strings, blanked comments keep
  every position, lists of pieces are cut back into the pieces.
\<close>

section \<open>The reference scan\<close>

definition scan_step :: "byte \<Rightarrow> int \<times> byte option \<Rightarrow> int \<times> byte option" where
  "scan_step b st =
     (case snd st of
        Some d \<Rightarrow> (fst st, if b = d then None else Some d)
      | None \<Rightarrow> if is_quote b then (fst st, Some b) else (nest b (fst st), None))"

definition at_top :: "bytes \<Rightarrow> nat \<Rightarrow> bool" where
  "at_top s k \<longleftrightarrow> k < length s \<and> fold scan_step (take k s) (0, None) = (0, None)"

lemma find_shift:
  "List.find P [0..<Suc n] = (if P 0 then Some 0 else map_option Suc (List.find (\<lambda>k. P (Suc k)) [0..<n]))"
proof -
  have "List.find P (map Suc xs) = map_option Suc (List.find (\<lambda>k. P (Suc k)) xs)" for xs
    by (induction xs) auto
  then show ?thesis by (simp add: upt_conv_Cons map_Suc_upt [symmetric] del: upt_Suc)
qed

definition plain_byte :: "byte \<Rightarrow> bool" where
  "plain_byte b \<longleftrightarrow> \<not> is_quote b \<and> \<not> opens b \<and> \<not> closes b"

lemma find_top_level_eq:
  assumes "\<And>b. p b \<Longrightarrow> plain_byte b"
  shows "find_top_level p q depth i s =
    map_option (\<lambda>k. i + k) (List.find (\<lambda>k. fold scan_step (take k s) (depth, q) = (0, None) \<and> p (s ! k)) [0..<length s])"
proof (induction s arbitrary: q depth i)
  case (Cons b s)
  have plain: "p b \<Longrightarrow> \<not> is_quote b \<and> \<not> opens b \<and> \<not> closes b" using assms [of b] by (simp add: plain_byte_def)
  have add: "map_option (\<lambda>k. Suc (i + k)) x = map_option (\<lambda>k. i + k) (map_option Suc x)" for x
    by (cases x) simp_all
  show ?case
  proof (cases q)
    case (Some d)
    then show ?thesis
      by (simp add: find_shift Cons.IH scan_step_def add del: upt_Suc)
  next
    case None
    then show ?thesis
      using plain by (auto simp: find_shift Cons.IH scan_step_def nest_def add simp del: upt_Suc)
  qed
qed simp

text \<open>The first byte at top level that satisfies \<open>p\<close>.\<close>

definition first_top :: "(byte \<Rightarrow> bool) \<Rightarrow> bytes \<Rightarrow> nat option" where
  "first_top p s = List.find (\<lambda>k. at_top s k \<and> p (s ! k)) [0..<length s]"

lemma find_top_level_first:
  assumes "\<And>b. p b \<Longrightarrow> plain_byte b"
  shows "find_top_level p None 0 0 s = first_top p s"
proof -
  have "List.find (\<lambda>k. fold scan_step (take k s) (0, None) = (0, None) \<and> p (s ! k)) [0..<length s] = first_top p s"
    unfolding first_top_def by (rule find_cong) (auto simp: at_top_def)
  then show ?thesis using find_top_level_eq [OF assms, where q = None and depth = 0 and i = 0] by (simp add: option.map_ident)
qed

lemma mark_bytes_plain:
  "plain_byte (CHR '','')" "plain_byte (CHR '':'')" "plain_byte (CHR ''?'')" "plain_byte (CHR '';'')" "plain_byte NEWLINE"
  by (simp_all add: plain_byte_def is_quote_def opens_def closes_def SQ_def DQ_def NEWLINE_def)

lemma first_topD: "first_top p s = Some k \<Longrightarrow> p (s ! k) \<and> s = take k s @ s ! k # drop (Suc k) s \<and> length (take k s) = k"
  by (auto simp: first_top_def find_Some_iff id_take_nth_drop [symmetric])

lemma ternary_parts:
  assumes "split_ternary s = Some (c, y, n)"
  shows "\<exists>a b d. s = a @ ''?'' @ b @ '':'' @ d \<and> c = trim a \<and> y = trim b \<and> n = trim d \<and>
    first_top (\<lambda>b. b = CHR ''?'') s = Some (length a) \<and> first_top (\<lambda>b. b = CHR '':'') (b @ '':'' @ d) = Some (length b)"
proof -
  have first: "find_top_level (\<lambda>b. b = CHR ''?'') None 0 0 t = first_top (\<lambda>b. b = CHR ''?'') t"
    "find_top_level (\<lambda>b. b = CHR '':'') None 0 0 t = first_top (\<lambda>b. b = CHR '':'') t" for t
    by (rule find_top_level_first, auto simp: mark_bytes_plain)+
  obtain p where p: "first_top (\<lambda>b. b = CHR ''?'') s = Some p"
    using assms by (auto simp: split_ternary_def first split: option.splits)
  let ?r = "drop (Suc p) s"
  obtain i where i: "first_top (\<lambda>b. b = CHR '':'') ?r = Some i"
    using assms p by (auto simp: split_ternary_def first Let_def split: option.splits)
  have s: "s = take p s @ ''?'' @ ?r" and r: "?r = take i ?r @ '':'' @ drop (Suc i) ?r"
    using first_topD [OF p] first_topD [OF i] by (metis append_Cons append_Nil)+
  have "c = trim (take p s)" "y = trim (take i ?r)" "n = trim (drop (Suc i) ?r)"
    using assms p i by (auto simp: split_ternary_def first Let_def split: if_splits)
  moreover have "first_top (\<lambda>b. b = CHR ''?'') s = Some (length (take p s))"
    "first_top (\<lambda>b. b = CHR '':'') (take i ?r @ '':'' @ drop (Suc i) ?r) = Some (length (take i ?r))"
    using p i r first_topD [OF p] first_topD [OF i] by auto
  ultimately show ?thesis using s r by metis
qed

lemma searches_blind:
  "find_case_colon s = first_top (\<lambda>b. b = CHR '':'') s"
  "has_top_level_comma s = (\<exists>k. at_top s k \<and> s ! k = CHR '','')"
  "extract_statement s =
     (let t = trim_start s in
      if t = [] then None
      else Some (case first_top (\<lambda>b. b = CHR '';'' \<or> b = NEWLINE) t of
          Some k \<Rightarrow> (trim (take k t), trim_start (drop (Suc k) t)) | None \<Rightarrow> (trim t, [])))"
proof -
  show "find_case_colon s = first_top (\<lambda>b. b = CHR '':'') s"
    unfolding find_case_colon_def by (rule find_top_level_first) (auto simp: mark_bytes_plain)
  have "has_top_level_comma s = (first_top (\<lambda>b. b = CHR '','') s \<noteq> None)"
    unfolding has_top_level_comma_def by (subst find_top_level_first) (auto simp: mark_bytes_plain)
  then show "has_top_level_comma s = (\<exists>k. at_top s k \<and> s ! k = CHR '','')"
    by (auto simp: first_top_def find_None_iff at_top_def)
  have "find_top_level (\<lambda>b. b = CHR '';'' \<or> b = NEWLINE) None 0 0 t = first_top (\<lambda>b. b = CHR '';'' \<or> b = NEWLINE) t" for t
    by (rule find_top_level_first) (auto simp: mark_bytes_plain)
  then show "extract_statement s =
     (let t = trim_start s in
      if t = [] then None
      else Some (case first_top (\<lambda>b. b = CHR '';'' \<or> b = NEWLINE) t of
          Some k \<Rightarrow> (trim (take k t), trim_start (drop (Suc k) t)) | None \<Rightarrow> (trim t, [])))"
    by (simp add: extract_statement_def Let_def split: option.splits)
qed

section \<open>Strings with escapes\<close>

text \<open>The scan above takes no notice of backslashes. This one is what JavaScript means by a string in quotes: a
  backslash takes the next byte with it. The third component is set behind such a backslash.\<close>

type_synonym js_scan = "int \<times> byte option \<times> bool"

definition js_step :: "byte \<Rightarrow> js_scan \<Rightarrow> js_scan" where
  "js_step b st =
     (case st of (depth, q, esc) \<Rightarrow>
        (case q of
           Some d \<Rightarrow> if esc then (depth, Some d, False) else if b = BACKSLASH then (depth, Some d, True)
             else if b = d then (depth, None, False) else (depth, Some d, False)
         | None \<Rightarrow> if is_quote b then (depth, Some b, False) else (nest b depth, None, False)))"

abbreviation js_start :: js_scan where "js_start \<equiv> (0, None, False)"

definition outside :: "bytes \<Rightarrow> nat \<Rightarrow> bool" where
  "outside s k \<longleftrightarrow> k < length s \<and> fold js_step (take k s) js_start = js_start"

definition first_outside :: "(byte \<Rightarrow> bool) \<Rightarrow> bytes \<Rightarrow> nat option" where
  "first_outside p s = List.find (\<lambda>k. outside s k \<and> p (s ! k)) [0..<length s]"

text \<open>No quote stands behind the backslash of an escape.\<close>

fun plain_from :: "js_scan \<Rightarrow> bytes \<Rightarrow> bool" where
  "plain_from st [] \<longleftrightarrow> True"
| "plain_from st (b # s) \<longleftrightarrow> (snd (snd st) \<longrightarrow> \<not> is_quote b) \<and> plain_from (js_step b st) s"

definition no_escaped_quote :: "bytes \<Rightarrow> bool" where
  "no_escaped_quote s \<longleftrightarrow> plain_from js_start s"

definition js_scan_ok :: "js_scan \<Rightarrow> bool" where
  "js_scan_ok st \<longleftrightarrow> (case st of (depth, q, esc) \<Rightarrow> case q of Some d \<Rightarrow> is_quote d | None \<Rightarrow> \<not> esc)"

definition forget_escape :: "js_scan \<Rightarrow> int \<times> byte option" where
  "forget_escape st = (fst st, fst (snd st))"

lemma plain_from_append: "plain_from st (u @ v) \<longleftrightarrow> plain_from st u \<and> plain_from (fold js_step u st) v"
  by (induction u arbitrary: st) auto

lemma js_scan_ok_step: "js_scan_ok st \<Longrightarrow> js_scan_ok (js_step b st)"
  by (auto simp: js_scan_ok_def js_step_def split: prod.splits option.splits)

lemma js_scan_ok_fold: "js_scan_ok st \<Longrightarrow> js_scan_ok (fold js_step s st)"
  by (induction s arbitrary: st) (auto simp: js_scan_ok_step)

lemma js_start_ok [simp]: "js_scan_ok js_start"
  by (simp add: js_scan_ok_def)

lemma js_step_blind:
  assumes "js_scan_ok st" and "snd (snd st) \<longrightarrow> \<not> is_quote b"
  shows "forget_escape (js_step b st) = scan_step b (forget_escape st)"
proof -
  have "\<not> is_quote BACKSLASH" by code_simp
  with assms show ?thesis
    by (auto simp: js_scan_ok_def js_step_def scan_step_def forget_escape_def split: prod.splits option.splits)
qed

lemma js_fold_blind:
  "js_scan_ok st \<Longrightarrow> plain_from st s \<Longrightarrow> forget_escape (fold js_step s st) = fold scan_step s (forget_escape st)"
  by (induction s arbitrary: st) (auto simp: js_step_blind js_scan_ok_step)

lemma js_start_iff:
  assumes "no_escaped_quote s"
  shows "fold js_step s js_start = js_start \<longleftrightarrow> fold scan_step s (0, None) = (0, None)"
proof -
  have "forget_escape (fold js_step s js_start) = fold scan_step s (0, None)"
    using js_fold_blind [OF js_start_ok] assms by (simp add: no_escaped_quote_def forget_escape_def)
  moreover have "js_scan_ok (fold js_step s js_start)" by (rule js_scan_ok_fold) simp
  ultimately show ?thesis
    by (cases "fold js_step s js_start") (auto simp: forget_escape_def js_scan_ok_def)
qed

lemma no_escaped_quote_take: "no_escaped_quote s \<Longrightarrow> no_escaped_quote (take k s)"
  using plain_from_append [of js_start "take k s" "drop k s"] by (simp add: no_escaped_quote_def)

lemma no_escaped_quote_rest: "no_escaped_quote (u @ v) \<Longrightarrow> fold js_step u js_start = js_start \<Longrightarrow> no_escaped_quote v"
  by (simp add: no_escaped_quote_def plain_from_append)

lemma outside_iff: "no_escaped_quote s \<Longrightarrow> outside s k \<longleftrightarrow> at_top s k"
  using js_start_iff [OF no_escaped_quote_take] by (simp add: outside_def at_top_def)

lemma first_outside_eq: "no_escaped_quote s \<Longrightarrow> first_outside p s = first_top p s"
  by (simp add: first_outside_def first_top_def outside_iff)

text \<open>White space in front does not matter.\<close>

lemma marks_ascii:
  "is_quote b \<or> opens b \<or> closes b \<Longrightarrow> \<not> ascii_ws b \<and> (of_char b :: nat) < 128"
  by (auto simp: is_quote_def opens_def closes_def SQ_def DQ_def ascii_ws_def byte_in_def)

lemma js_step_ws: "ascii_ws b \<or> (128::nat) \<le> of_char b \<Longrightarrow> js_step b js_start = js_start"
  using marks_ascii [of b] by (auto simp: js_step_def nest_def)

lemma ws_high:
  "ws_two a b \<Longrightarrow> (128::nat) \<le> of_char a \<and> (128::nat) \<le> of_char b"
  "ws_three a b c \<Longrightarrow> (128::nat) \<le> of_char a \<and> (128::nat) \<le> of_char b \<and> (128::nat) \<le> of_char c"
  unfolding ws_two_def ws_three_def byte_in_def by (elim disjE conjE; simp)+

lemma js_fold_ws: "fold js_step (take (ws_front s) s) js_start = js_start"
proof -
  consider "ws_front s = 0" | a r where "s = a # r" "ascii_ws a" "ws_front s = 1"
    | a b r where "s = a # b # r" "ws_two a b" "ws_front s = 2"
    | a b c r where "s = a # b # c # r" "ws_three a b c" "ws_front s = 3"
  proof -
    have "ws_front s = 0 \<or> (\<exists>a r. s = a # r \<and> ascii_ws a \<and> ws_front s = 1) \<or>
        (\<exists>a b r. s = a # b # r \<and> ws_two a b \<and> ws_front s = 2) \<or>
        (\<exists>a b c r. s = a # b # c # r \<and> ws_three a b c \<and> ws_front s = 3)"
      by (cases s; cases "tl s"; cases "tl (tl s)") (simp_all add: ws_front_def)
    then show ?thesis using that by blast
  qed
  then show ?thesis
  proof cases
    case 3
    then show ?thesis using ws_high(1) [of a b] js_step_ws by (simp add: numeral_2_eq_2)
  next
    case 4
    then show ?thesis using ws_high(2) [of a b c] js_step_ws by (simp add: numeral_3_eq_3)
  qed (simp_all add: js_step_ws)
qed

lemma no_escaped_quote_trim_start: "no_escaped_quote s \<Longrightarrow> no_escaped_quote (trim_start s)"
proof -
  have "no_escaped_quote s \<Longrightarrow> no_escaped_quote (drop_ws ws s)" if "ws = ws_front" for ws
    using that
  proof (induction ws s rule: drop_ws.induct)
    case (1 ws s)
    have "no_escaped_quote (drop (ws s) s)"
      using no_escaped_quote_rest [OF _ js_fold_ws, of s "drop (ws_front s) s"] 1(2,3) by simp
    then show ?case using 1 by (subst drop_ws.simps) simp
  qed
  then show "no_escaped_quote s \<Longrightarrow> no_escaped_quote (trim_start s)" by (simp add: trim_start_def)
qed

lemma behind_mark:
  assumes "no_escaped_quote (a @ ''?'' @ u)" and "first_top p (a @ ''?'' @ u) = Some (length a)"
  shows "no_escaped_quote u"
proof -
  have "at_top (a @ ''?'' @ u) (length a)" using assms(2) by (auto simp: first_top_def find_Some_iff)
  then have "fold js_step a js_start = js_start"
    using outside_iff [OF assms(1), of "length a"] unfolding outside_def by simp
  then have "fold js_step (a @ ''?'') js_start = js_start"
    by (simp add: js_step_def is_quote_def SQ_def DQ_def nest_def opens_def closes_def)
  then show ?thesis using no_escaped_quote_rest [of "a @ ''?''" u] assms(1) by simp
qed

lemma ternary_outside:
  assumes "no_escaped_quote s"
  shows "split_ternary s = Some (c, y, n) \<longleftrightarrow>
    (\<exists>a b d. s = a @ ''?'' @ b @ '':'' @ d \<and> c = trim a \<and> y = trim b \<and> n = trim d \<and> c \<noteq> [] \<and> y \<noteq> [] \<and> n \<noteq> [] \<and>
      first_outside (\<lambda>b. b = CHR ''?'') s = Some (length a) \<and>
      first_outside (\<lambda>b. b = CHR '':'') (b @ '':'' @ d) = Some (length b))"
proof
  assume sp: "split_ternary s = Some (c, y, n)"
  then have ne: "c \<noteq> []" "y \<noteq> []" "n \<noteq> []"
    by (auto simp: split_ternary_def Let_def split: option.splits if_splits)
  obtain a b d where s: "s = a @ ''?'' @ b @ '':'' @ d" and abd: "c = trim a" "y = trim b" "n = trim d"
    "first_top (\<lambda>b. b = CHR ''?'') s = Some (length a)" "first_top (\<lambda>b. b = CHR '':'') (b @ '':'' @ d) = Some (length b)"
    using ternary_parts [OF sp] by blast
  have "no_escaped_quote (b @ '':'' @ d)" by (rule behind_mark [OF _ abd(4) [unfolded s]]) (use assms s in simp)
  with s abd ne show "\<exists>a b d. s = a @ ''?'' @ b @ '':'' @ d \<and> c = trim a \<and> y = trim b \<and> n = trim d \<and>
      c \<noteq> [] \<and> y \<noteq> [] \<and> n \<noteq> [] \<and> first_outside (\<lambda>b. b = CHR ''?'') s = Some (length a) \<and>
      first_outside (\<lambda>b. b = CHR '':'') (b @ '':'' @ d) = Some (length b)"
    using first_outside_eq assms by metis
next
  assume "\<exists>a b d. s = a @ ''?'' @ b @ '':'' @ d \<and> c = trim a \<and> y = trim b \<and> n = trim d \<and> c \<noteq> [] \<and> y \<noteq> [] \<and> n \<noteq> [] \<and>
      first_outside (\<lambda>b. b = CHR ''?'') s = Some (length a) \<and>
      first_outside (\<lambda>b. b = CHR '':'') (b @ '':'' @ d) = Some (length b)"
  then obtain a b d where s: "s = a @ ''?'' @ b @ '':'' @ d" and abd: "c = trim a" "y = trim b" "n = trim d" "c \<noteq> []" "y \<noteq> []" "n \<noteq> []"
    "first_top (\<lambda>b. b = CHR ''?'') s = Some (length a)" "first_outside (\<lambda>b. b = CHR '':'') (b @ '':'' @ d) = Some (length b)"
    using first_outside_eq [OF assms] by auto
  have "no_escaped_quote (b @ '':'' @ d)" by (rule behind_mark [OF _ abd(7) [unfolded s]]) (use assms s in simp)
  with abd(8) have b: "first_top (\<lambda>b. b = CHR '':'') (b @ '':'' @ d) = Some (length b)" by (simp only: first_outside_eq)
  have "find_top_level (\<lambda>b. b = CHR ''?'') None 0 0 s = Some (length a)"
    using abd(7) find_top_level_first [of "\<lambda>b. b = CHR ''?''" s] by (auto simp: mark_bytes_plain)
  moreover have "find_top_level (\<lambda>b. b = CHR '':'') None 0 0 (b @ '':'' @ d) = Some (length b)"
    using b find_top_level_first [of "\<lambda>b. b = CHR '':''" "b @ '':'' @ d"] by (auto simp: mark_bytes_plain)
  ultimately show "split_ternary s = Some (c, y, n)" using abd(1-6) by (simp add: split_ternary_def s)
qed

text \<open>C37: In text without escaped quotes the searches of the parser stop at the first byte they look for that stands
  outside all brackets and all strings in single or double quotes, strings as JavaScript delimits them, with
  escapes: the colon of a \<open>case\<close>, the comma of a list, the end of a statement, and the two marks of a conditional
  expression, whose three parts are not empty. (The loops themselves take no notice of backslashes, so a string with an escaped quote ends too
  early for them: theorem \<open>escaped_quotes_differ\<close>.)\<close>

theorem top_level_searches:
  assumes "no_escaped_quote s"
  shows "find_case_colon s = first_outside (\<lambda>b. b = CHR '':'') s \<and>
   has_top_level_comma s = (\<exists>k. outside s k \<and> s ! k = CHR '','') \<and>
   extract_statement s =
     (let t = trim_start s in
      if t = [] then None
      else Some (case first_outside (\<lambda>b. b = CHR '';'' \<or> b = NEWLINE) t of
          Some k \<Rightarrow> (trim (take k t), trim_start (drop (Suc k) t)) | None \<Rightarrow> (trim t, []))) \<and>
   (split_ternary s = Some (c, y, n) \<longleftrightarrow>
    (\<exists>a b d. s = a @ ''?'' @ b @ '':'' @ d \<and> c = trim a \<and> y = trim b \<and> n = trim d \<and> c \<noteq> [] \<and> y \<noteq> [] \<and> n \<noteq> [] \<and>
      first_outside (\<lambda>b. b = CHR ''?'') s = Some (length a) \<and>
      first_outside (\<lambda>b. b = CHR '':'') (b @ '':'' @ d) = Some (length b)))"
  by (intro conjI ternary_outside [OF assms])
    (simp_all only: searches_blind Let_def first_outside_eq [OF assms] outside_iff [OF assms]
      first_outside_eq [OF no_escaped_quote_trim_start [OF assms]])

theorem top_level_searches_witness:
  "find_case_colon (DQ # '':'' @ [BACKSLASH, CHR ''n'', DQ] @ '': f()'') = Some 5"
proof -
  have "no_escaped_quote (DQ # '':'' @ [BACKSLASH, CHR ''n'', DQ] @ '': f()'')" by code_simp
  then have "find_case_colon (DQ # '':'' @ [BACKSLASH, CHR ''n'', DQ] @ '': f()'') =
      first_outside (\<lambda>b. b = CHR '':'') (DQ # '':'' @ [BACKSLASH, CHR ''n'', DQ] @ '': f()'')"
    using top_level_searches by blast
  also have "\<dots> = Some 5" by code_simp
  finally show ?thesis .
qed

section \<open>Bodies\<close>










text \<open>An escaped quote: the loops disagree on it, a quote behind a backslash ends a string in parentheses and not in
  braces; and a statement is cut off at a semicolon inside a string.\<close>

theorem escaped_quotes_differ:
  "extract_paren [CHR ''('', DQ, BACKSLASH, DQ, DQ, CHR '')''] = None \<and>
   extract_braces [CHR ''{'', DQ, BACKSLASH, DQ, DQ, CHR ''}''] = Some ([DQ, BACKSLASH, DQ, DQ], []) \<and>
   extract_statement [DQ, BACKSLASH, DQ, CHR '';'', DQ] = Some ([DQ, BACKSLASH, DQ], [DQ])"
  by code_simp

end
