(* ===== verification/Split_Facts.thy ===== *)
theory Split_Facts
  imports Scan_Facts JS_Source
begin

text \<open>
  What the text passes of the evaluator keep: comments are blanked without moving a byte, so that line and column of
  every position stay the same; the statements are consecutive pieces of the source; a list of pieces joined by
  commas is cut into the pieces.
\<close>

section \<open>Comments\<close>

text \<open>A byte and what it is replaced by.\<close>

definition blanked :: "byte \<Rightarrow> byte \<Rightarrow> bool" where
  "blanked a b \<longleftrightarrow> b = a \<or> b = CHR '' '' \<and> a \<noteq> NEWLINE"

lemma blanked_same [simp]: "blanked a a"
  by (simp add: blanked_def)

lemma blanked_all_same [simp]: "list_all2 blanked s s"
  by (simp add: list_all2_refl)

text \<open>A text that opens a block comment and never closes it.\<close>

definition unclosed :: "bytes \<Rightarrow> bool" where
  "unclosed s \<longleftrightarrow> (\<exists>r. s = ''/*'' @ r \<and> (\<nexists>u v. r = u @ ''*/'' @ v))"

lemma block_loop_blank:
  "block_loop out s = Some (out', r) \<Longrightarrow> \<exists>o1 c. out' = out @ o1 \<and> s = c @ r \<and> list_all2 blanked c o1"
proof (induction out s rule: block_loop.induct)
  case (3 out a b s)
  show ?case
  proof (cases "a = CHR ''*'' \<and> b = CHR ''/''")
    case True
    then have "out' = out @ ''  ''" "r = s" using "3.prems" by simp_all
    then show ?thesis using True
      by (intro exI [of _ "''  ''"] exI [of _ "''*/''"]) (simp add: blanked_def NEWLINE_def)
  next
    case False
    let ?o = "if a = NEWLINE then NEWLINE else CHR '' ''"
    have ext: "block_loop (out @ [?o]) (b # s) = Some (out', r)" using "3.prems" False by (simp split: if_splits)
    from "3.IH" [OF False this] obtain o1 c where "out' = (out @ [?o]) @ o1" "b # s = c @ r" "list_all2 blanked c o1"
      by blast
    then have "out' = out @ (?o # o1)" "a # b # s = (a # c) @ r" "list_all2 blanked (a # c) (?o # o1)"
      by (simp_all add: blanked_def)
    then show ?thesis by blast
  qed
qed simp_all

lemma block_loop_unclosed: "block_loop out s = None \<Longrightarrow> \<nexists>u v. s = u @ ''*/'' @ v"
proof (induction out s rule: block_loop.induct)
  case (3 out a b s)
  then show ?case by (auto simp: Cons_eq_append_conv split: if_splits)
qed (auto simp: Cons_eq_append_conv)

lemma line_split: "s = takeWhile (\<lambda>b. b \<noteq> NEWLINE) s @ line_rest s"
  by (simp add: line_rest_def)

lemma blank_line_blank: "list_all2 blanked (''//'' @ takeWhile (\<lambda>b. b \<noteq> NEWLINE) s) (blank_line s)"
proof -
  have "list_all2 blanked t (replicate (length t) (CHR '' ''))" if "NEWLINE \<notin> set t" for t
    using that by (induction t) (auto simp: blanked_def)
  moreover have "NEWLINE \<notin> set (takeWhile (\<lambda>b. b \<noteq> NEWLINE) s)" by (auto dest: set_takeWhileD)
  ultimately show ?thesis by (simp add: blank_line_def) (simp add: blanked_def NEWLINE_def)
qed

definition strip_ok :: "nat \<Rightarrow> bytes \<Rightarrow> bytes \<Rightarrow> nat + bytes \<Rightarrow> bool" where
  "strip_ok i out s x \<longleftrightarrow>
     (case x of
        Inr out' \<Rightarrow> \<exists>o1. out' = out @ o1 \<and> list_all2 blanked s o1
      | Inl k \<Rightarrow> \<exists>u v. s = u @ v \<and> k = i + length u \<and> unclosed v)"

lemma strip_ok_more:
  assumes "list_all2 blanked c o1" and "strip_ok (i + length c) (out @ o1) r x"
  shows "strip_ok i out (c @ r) x"
proof (cases x)
  case (Inl k)
  then obtain u v where "r = u @ v" "k = i + length c + length u" "unclosed v" using assms(2) by (auto simp: strip_ok_def)
  then have "c @ r = (c @ u) @ v \<and> k = i + length (c @ u) \<and> unclosed v" by simp
  then show ?thesis unfolding strip_ok_def Inl sum.case by blast
next
  case (Inr out')
  then obtain o2 where "out' = (out @ o1) @ o2" "list_all2 blanked r o2" using assms(2) by (auto simp: strip_ok_def)
  then have "out' = out @ (o1 @ o2) \<and> list_all2 blanked (c @ r) (o1 @ o2)" using assms(1) by (simp add: list_all2_appendI)
  then show ?thesis unfolding strip_ok_def Inr by auto
qed

lemma strip_loop_ok: "strip_ok i out s (strip_loop q i out s)"
proof (induction s arbitrary: q i out rule: length_induct)
  case (1 s)
  have same: "strip_ok i out (c @ r) (strip_loop q' (i + length c) (out @ c) r)" if "s = c @ r" and "c \<noteq> []" for c r q'
    using that 1 by (intro strip_ok_more [of _ c]) auto
  show ?case
  proof (cases s)
    case Nil
    then show ?thesis by (simp add: strip_ok_def)
  next
    case (Cons b t)
    show ?thesis
    proof (cases q)
      case (Some d)
      then show ?thesis
        using same [of "[b]" t] same [of "[b, hd t]" "drop 1 t"] by (cases t) (auto simp: Cons)
    next
      case None
      consider (line) "b = CHR ''/''" "t \<noteq> []" "hd t = CHR ''/''" | (block) "b = CHR ''/''" "t \<noteq> []" "hd t = CHR ''*''"
        | (other) "is_quote b \<or> \<not> (b = CHR ''/'' \<and> t \<noteq> [] \<and> (hd t = CHR ''/'' \<or> hd t = CHR ''*''))" by blast
      then show ?thesis
      proof cases
        case line
        then obtain u where t: "t = CHR ''/'' # u" by (cases t) auto
        have nq: "\<not> is_quote (CHR ''/'')" by (simp add: is_quote_def SQ_def DQ_def)
        let ?c = "''//'' @ takeWhile (\<lambda>b. b \<noteq> NEWLINE) u"
        have s: "s = ?c @ line_rest u" using line_split [of u] by (simp add: Cons line(1) t)
        have len: "length (blank_line u) = length ?c" by (simp add: blank_line_def)
        show ?thesis
        proof (cases "line_rest u")
          case Nil
          then have "strip_loop q i out s = Inr (out @ blank_line u)" by (simp add: Cons None line(1) t nq Let_def)
          then show ?thesis using blank_line_blank [of u] s Nil by (auto simp: strip_ok_def)
        next
          case (Cons n r)
          have "n = NEWLINE" using hd_dropWhile [of "\<lambda>b. b \<noteq> NEWLINE" u] Cons by (metis line_rest_def list.sel(1) list.discI)
          have "strip_loop q i out s = strip_loop None (Suc (i + length ?c)) ((out @ blank_line u) @ [NEWLINE]) r"
            using \<open>s = b # t\<close> by (simp add: None line(1) t nq Let_def Cons len)
          moreover have "strip_ok (i + length ?c) (out @ blank_line u) ([n] @ r)
              (strip_loop None (i + length ?c + length [n]) ((out @ blank_line u) @ [n]) r)"
            using 1 s Cons by (intro strip_ok_more [of _ "[n]"]) auto
          ultimately have "strip_ok i out (?c @ ([n] @ r)) (strip_loop q i out s)"
            using \<open>n = NEWLINE\<close> by (intro strip_ok_more [OF blank_line_blank]) simp
          then show ?thesis using s Cons by simp
        qed
      next
        case block
        then obtain u where t: "t = CHR ''*'' # u" by (cases t) auto
        have nq: "\<not> is_quote (CHR ''/'')" by (simp add: is_quote_def SQ_def DQ_def)
        show ?thesis
        proof (cases "block_loop ''  '' u")
          case None
          then have "strip_loop q i out s = Inl i" using \<open>q = None\<close> by (simp add: Cons block(1) t nq)
          moreover have "unclosed s" unfolding unclosed_def using block_loop_unclosed [OF None]
            by (intro exI [of _ u]) (simp add: Cons block(1) t)
          ultimately show ?thesis by (auto simp: strip_ok_def)
        next
          case (Some p)
          obtain bl r where p: "p = (bl, r)" by fastforce
          obtain o1 c where o1: "bl = ''  '' @ o1" "u = c @ r" "list_all2 blanked c o1"
            using block_loop_blank Some p by blast
          have bl: "list_all2 blanked (''/*'' @ c) bl" using o1 by (simp add: blanked_def NEWLINE_def)
          have s: "s = (''/*'' @ c) @ r" by (simp add: Cons block(1) t o1(2))
          have "strip_loop q i out s = strip_loop None (i + length bl) (out @ bl) r"
            using \<open>q = None\<close> Some p by (simp add: Cons block(1) t nq)
          also have "length bl = length (''/*'' @ c)" using list_all2_lengthD [OF bl] by simp
          finally have run: "strip_loop q i out s = strip_loop None (i + length (''/*'' @ c)) (out @ bl) r" .
          have "strip_ok (i + length (''/*'' @ c)) (out @ bl) r (strip_loop None (i + length (''/*'' @ c)) (out @ bl) r)"
            using 1 s by auto
          then have "strip_ok i out ((''/*'' @ c) @ r) (strip_loop q i out s)"
            unfolding run by (rule strip_ok_more [OF bl])
          then show ?thesis using s by simp
        qed
      next
        case other
        then have "strip_loop q i out s = strip_loop (if is_quote b then Some b else None) (Suc i) (out @ [b]) t"
          using None by (auto simp: Cons)
        then show ?thesis using same [of "[b]" t] by (simp add: Cons)
      qed
    qed
  qed
qed

text \<open>Positions depend on the line breaks only.\<close>

lemma blanked_breaks:
  assumes "list_all2 blanked s t"
  shows "length t = length s" and "\<And>i. i < length s \<Longrightarrow> t ! i = NL \<longleftrightarrow> s ! i = NL"
proof -
  show "length t = length s" using assms by (simp add: list_all2_lengthD)
  show "t ! i = NL \<longleftrightarrow> s ! i = NL" if "i < length s" for i
    using list_all2_nthD [OF assms that] by (auto simp: blanked_def NEWLINE_def)
qed

lemma same_positions:
  assumes "list_all2 blanked s t"
  shows "compute_line_col (set_current_source f t) k = compute_line_col (set_current_source f s) k"
proof -
  have "fold (\<lambda>i starts. if t ! i = NL \<and> i + 1 < length t then starts @ [i + 1] else starts) [0..<length t] [0] =
      fold (\<lambda>i starts. if s ! i = NL \<and> i + 1 < length s then starts @ [i + 1] else starts) [0..<length s] [0]"
    by (rule fold_cong) (use blanked_breaks [OF assms] in auto)
  then have "line_start_loop t = line_start_loop s" by (simp only: line_start_loop_def)
  then show ?thesis using blanked_breaks(1) [OF assms]
    by (simp add: compute_line_col_def set_current_source_def Let_def)
qed

text \<open>C33: Blanking the comments of a script moves nothing: the result has the length of the source, only blanks in place
  of bytes other than line breaks, and the same line and column at every offset. The error is the offset of a block
  comment that is never closed (or 0 for a text that is not UTF-8).\<close>

theorem comments_keep_positions:
  "case strip_comments_checked src of
     Inr out \<Rightarrow> list_all2 blanked src out \<and>
       (\<forall>k. compute_line_col (set_current_source f out) k = compute_line_col (set_current_source f src) k)
   | Inl k \<Rightarrow> k \<le> length src \<and> unclosed (drop k src) \<or>
       k = 0 \<and> (\<exists>out. list_all2 blanked src out \<and> \<not> utf8_ok out)"
proof (cases "CHR ''/'' \<in> set src")
  case False
  then show ?thesis by (simp add: strip_comments_checked_def)
next
  case True
  have ok: "strip_ok 0 [] src (strip_loop None 0 [] src)" by (rule strip_loop_ok)
  show ?thesis
  proof (cases "strip_loop None 0 [] src")
    case (Inl k)
    then obtain u v where "src = u @ v" "k = length u" "unclosed v" using ok by (auto simp: strip_ok_def)
    then show ?thesis using True Inl by (simp add: strip_comments_checked_def)
  next
    case (Inr out)
    then have "list_all2 blanked src out" using ok by (simp add: strip_ok_def)
    then show ?thesis using True Inr same_positions by (auto simp: strip_comments_checked_def)
  qed
qed

section \<open>Statements\<close>

text \<open>The two copies of the loop agree.\<close>

lemma statements_loop_offsets:
  "statements_loop s start q depth i (map (\<lambda>(k, p). trim p) out) r =
     map_option (map (\<lambda>(k, p). trim p)) (offsets_loop s start q depth i out r)"
proof (induction r arbitrary: start q depth i out)
  case Nil
  then show ?case by (simp add: Let_def)
next
  case (Cons b r)
  show ?case
  proof (cases q)
    case None
    then show ?thesis by (simp add: Cons.IH [symmetric] Let_def trim_trim)
  next
    case (Some d)
    then show ?thesis by (simp add: Cons.IH)
  qed
qed

text \<open>What may stand between two statements: white space and semicolons.\<close>

definition gap :: "bytes \<Rightarrow> bool" where
  "gap g \<longleftrightarrow> (\<exists>us. g = concat us \<and> (\<forall>u \<in> set us. trim u = [] \<or> u = '';''))"

text \<open>The statements with their offsets and the gaps between them make the text.\<close>

fun laid_out :: "nat \<Rightarrow> (nat \<times> bytes) list \<Rightarrow> bytes \<Rightarrow> bool" where
  "laid_out p [] s \<longleftrightarrow> gap s"
| "laid_out p ((k, part) # out) s \<longleftrightarrow>
     (\<exists>g r. s = g @ part @ r \<and> gap g \<and> k = p + length g \<and> laid_out (k + length part) out r)"

lemma gap_Nil [simp]: "gap []"
  by (auto simp: gap_def intro: exI [of _ "[]"])

lemma gap_append: "gap g \<Longrightarrow> gap h \<Longrightarrow> gap (g @ h)"
  unfolding gap_def by (metis Un_iff concat_append set_append)

lemma gap_one: "trim u = [] \<or> u = '';'' \<Longrightarrow> gap u"
  unfolding gap_def by (intro exI [of _ "[u]"]) simp

lemma laid_out_ConsI:
  "gap g \<Longrightarrow> laid_out (p + length g + length part) out r \<Longrightarrow> laid_out p ((p + length g, part) # out) (g @ part @ r)"
  by auto

lemma laid_out_gap: "laid_out p out s \<Longrightarrow> gap g \<Longrightarrow> laid_out p out (s @ g)"
proof (induction out arbitrary: p s)
  case (Cons e out)
  obtain k part where e: "e = (k, part)" by fastforce
  then obtain h r where h: "s = h @ part @ r" "gap h" "k = p + length h" "laid_out (k + length part) out r"
    using Cons.prems(1) by auto
  have "laid_out (p + length h + length part) out (r @ g)" using Cons.IH [OF h(4) Cons.prems(2)] h(3) by simp
  from laid_out_ConsI [OF h(2) this] show ?case by (simp add: e h(1,3) del: laid_out.simps)
qed (simp add: gap_append)

lemma laid_out_part: "laid_out p out s \<Longrightarrow> laid_out p (out @ [(p + length s, part)]) (s @ part)"
proof (induction out arbitrary: p s)
  case Nil
  then show ?case using laid_out_ConsI [of s p part "[]" "[]"] by simp
next
  case (Cons e out)
  obtain k part' where e: "e = (k, part')" by fastforce
  then obtain h r where h: "s = h @ part' @ r" "gap h" "k = p + length h" "laid_out (k + length part') out r"
    using Cons.prems by auto
  then have "laid_out (p + length h + length part') (out @ [(p + length s, part)]) (r @ part)"
    using Cons.IH [of "k + length part'" r] by (simp add: add.assoc)
  from laid_out_ConsI [OF h(2) this] show ?case by (simp add: e h(1,3) del: laid_out.simps)
qed

lemma slice_take: "a \<le> b \<Longrightarrow> b \<le> length s \<Longrightarrow> take a s @ slice s a b = take b s"
  unfolding slice_def by (metis le_add_diff_inverse take_add)

lemma trim_newline: "trim [NEWLINE] = []"
  by (simp add: trim_def trim_start_def trim_end_def drop_ws.simps ws_front_def ws_back_def ascii_ws_def byte_in_def NEWLINE_def)

lemma offsets_laid_out:
  "offsets_loop s start q depth i out r = Some out' \<Longrightarrow> laid_out 0 out (take start s) \<Longrightarrow> start \<le> i \<Longrightarrow>
    s = take i s @ r \<Longrightarrow> i \<le> length s \<Longrightarrow> laid_out 0 out' s"
proof (induction r arbitrary: start q depth i out)
  case Nil
  let ?part = "drop start s"
  have s: "take start s @ ?part = s" by simp
  show ?case
  proof (cases "trim ?part = []")
    case True
    then show ?thesis using Nil laid_out_gap [OF Nil.prems(2) gap_one [of ?part]] s by (auto split: if_splits)
  next
    case False
    then have "out' = out @ [(start, ?part)]" using Nil by (auto simp: Let_def split: if_splits)
    moreover have "length (take start s) = start" using Nil.prems(3,5) by simp
    ultimately show ?thesis using laid_out_part [OF Nil.prems(2), of ?part] s by simp
  qed
next
  case (Cons b r)
  have s: "s = take i s @ b # r" and len: "length (take i s) = i" using Cons.prems(4,5) by simp_all
  then have "length s = i + Suc (length r)" by (metis length_Cons length_append)
  moreover have bi: "s ! i = b" using s len by (metis nth_append_length)
  ultimately have here: "s = take (Suc i) s @ r" "Suc i \<le> length s"
    using s by (simp_all add: take_Suc_conv_app_nth)
  have cut: "laid_out 0 (out @ [(start, slice s start e)]) (take e s)" if "start \<le> e" "e \<le> length s" for e
  proof -
    have "length (take start s) = start" using that by simp
    then show ?thesis using laid_out_part [OF Cons.prems(2), of "slice s start e"] slice_take [OF that] by simp
  qed
  have skip: "laid_out 0 out (take e s)" if "start \<le> e" "e \<le> length s" "trim (slice s start e) = []" for e
    using laid_out_gap [OF Cons.prems(2) gap_one] slice_take [of start e s] that by metis
  have step: "laid_out 0 o1 (take (Suc i) s)" if "laid_out 0 o1 (take i s)" "b = CHR '';'' \<or> b = NEWLINE" for o1
  proof -
    have "gap [b]" using that(2) trim_newline by (intro gap_one) auto
    moreover have "take (Suc i) s = take i s @ [b]" using here(2) bi by (simp add: take_Suc_conv_app_nth)
    ultimately show ?thesis using laid_out_gap [OF that(1)] by simp
  qed
  have IH: "laid_out 0 out' s" if "offsets_loop s st q' d' (Suc i) o1 r = Some out'" "laid_out 0 o1 (take st s)" "st \<le> Suc i"
    for st q' d' o1
    using Cons.IH [OF that here] .
  have stay: "offsets_loop s start q' d' (Suc i) out r = Some out' \<Longrightarrow> laid_out 0 out' s" for q' d'
    using IH [OF _ Cons.prems(2)] Cons.prems(3) by simp
  have brace: "offsets_loop s (Suc i) q' d' (Suc i)
      (if trim (slice s start (Suc i)) = [] then out else out @ [(start, slice s start (Suc i))]) r = Some out' \<Longrightarrow>
      laid_out 0 out' s" for q' d'
    by (erule IH) (use cut [of "Suc i"] skip [of "Suc i"] Cons.prems(3) here(2) in auto)
  have semi: "offsets_loop s (Suc i) q' d' (Suc i)
      (if trim (slice s start i) = [] then out else out @ [(start, slice s start i)]) r = Some out' \<Longrightarrow>
      laid_out 0 out' s" if "b = CHR '';'' \<or> b = NEWLINE" for q' d'
    by (erule IH) (use step [OF cut [of i] that] step [OF skip [of i] that] Cons.prems(3,5) in auto)
  show ?case
  proof (cases q)
    case (Some d)
    then show ?thesis using Cons.prems(1) stay by simp
  next
    case None
    note run = Cons.prems(1) [unfolded offsets_loop.simps None option.case Let_def]
    show ?thesis
      using run stay brace semi by (fastforce split: if_splits)
  qed
qed

text \<open>C34: The two statement splitters agree, and neither loses text: the pieces with their offsets stand in the source in
  this order, with nothing between them but white space and semicolons.\<close>

theorem statements_in_place:
  "split_statements s = map_option (map (\<lambda>(k, p). trim p)) (split_statements_with_offsets s) \<and>
   (case split_statements_with_offsets s of Some out \<Rightarrow> laid_out 0 out s | None \<Rightarrow> True)"
proof (cases "trim s = []")
  case True
  then show ?thesis using gap_one [of s] by (simp add: split_statements_def split_statements_with_offsets_def)
next
  case False
  have "laid_out 0 out s" if "offsets_loop s 0 None 0 0 [] s = Some out" for out
    using offsets_laid_out [OF that] by simp
  then show ?thesis using False statements_loop_offsets [of s 0 None 0 0 "[]" s]
    by (auto simp: split_statements_def split_statements_with_offsets_def split: option.split)
qed

text \<open>A line that begins with a name like \<open>elsewhere\<close> is taken for an \<open>else\<close> and not cut off; in the joining of
  lines, a name like \<open>tryCount\<close> is taken for a keyword and the next line is pulled up.\<close>

theorem keywords_by_prefix:
  "split_statements ''a = 1; elsewhere = 2'' = Some [''a = 1; elsewhere = 2''] \<and>
   normalize_line_continuations (''tryCount = 1'' @ [NEWLINE] @ ''f()'') = ''tryCount = 1 f()'' @ [NEWLINE]"
  by code_simp

section \<open>Lists\<close>

text \<open>A piece of a list: it neither begins nor ends with white space, its brackets close, and it has no comma at top
  level; as the scan sees it, and as JavaScript sees it, whose strings have escapes.\<close>

definition scanned_piece :: "bytes \<Rightarrow> bool" where
  "scanned_piece p \<longleftrightarrow> p \<noteq> [] \<and> ws_front p = 0 \<and> ws_back (rev p) = 0 \<and> fold scan_step p (0, None) = (0, None) \<and>
     list_all (\<lambda>k. 0 \<le> fst (fold scan_step (take k p) (0, None)) \<and>
       \<not> (fold scan_step (take k p) (0, None) = (0, None) \<and> p ! k = CHR '','')) [0..<length p]"

definition piece :: "bytes \<Rightarrow> bool" where
  "piece p \<longleftrightarrow> p \<noteq> [] \<and> ws_front p = 0 \<and> ws_back (rev p) = 0 \<and> fold js_step p js_start = js_start \<and>
     list_all (\<lambda>k. 0 \<le> fst (fold js_step (take k p) js_start) \<and> \<not> (outside p k \<and> p ! k = CHR '','')) [0..<length p]"

lemma piece_scanned: "piece p \<Longrightarrow> no_escaped_quote p \<Longrightarrow> scanned_piece p"
proof -
  assume p: "piece p" "no_escaped_quote p"
  have depth: "fst (fold js_step (take k p) js_start) = fst (fold scan_step (take k p) (0, None))" for k
    using arg_cong [OF js_fold_blind [OF js_start_ok, of "take k p"], of fst] no_escaped_quote_take [OF p(2)]
    by (simp add: no_escaped_quote_def forget_escape_def)
  show "scanned_piece p"
    using p(1) outside_iff [OF p(2)] js_start_iff [OF p(2)]
    unfolding piece_def scanned_piece_def depth by (auto simp: list_all_iff at_top_def)
qed

fun join_commas :: "bytes list \<Rightarrow> bytes" where
  "join_commas [] = []"
| "join_commas [p] = p"
| "join_commas (p # ps) = p @ '', '' @ join_commas ps"

lemma top_level_loop_piece:
  assumes "\<And>k. k < length p \<Longrightarrow> 0 \<le> fst (fold scan_step (take k p) (d, q)) \<and>
      \<not> (fold scan_step (take k p) (d, q) = (0, None) \<and> p ! k = CHR '','')"
    and "0 \<le> fst (fold scan_step p (d, q))"
  shows "top_level_loop q d cur out (p @ rest) =
    top_level_loop (snd (fold scan_step p (d, q))) (fst (fold scan_step p (d, q))) (rev p @ cur) out rest"
  using assms
proof (induction p arbitrary: d q cur)
  case (Cons b p)
  obtain d1 q1 where st: "scan_step b (d, q) = (d1, q1)" by fastforce
  have sub: "0 \<le> fst (fold scan_step (take k p) (d1, q1)) \<and>
      \<not> (fold scan_step (take k p) (d1, q1) = (0, None) \<and> p ! k = CHR '','')" if "k < length p" for k
    using Cons.prems(1) [of "Suc k"] that st by simp
  have last: "0 \<le> fst (fold scan_step p (d1, q1))" using Cons.prems(2) st by simp
  note IH = Cons.IH [OF sub last]
  have now: "\<not> ((d, q) = (0, None) \<and> b = CHR '','')" using Cons.prems(1) [of 0] by simp
  have pos: "0 \<le> d1"
  proof (cases p)
    case Nil
    then show ?thesis using last by simp
  next
    case (Cons c p')
    then show ?thesis using sub [of 0] by simp
  qed
  have "top_level_loop q d cur out (b # p @ rest) = top_level_loop q1 d1 (b # cur) out (p @ rest)"
    using st now pos by (cases "d1 = 0") (auto simp: scan_step_def nest_def split: option.splits if_splits)
  then show ?case using IH [of "b # cur"] st by simp
qed simp

lemma ws_ext:
  assumes "(of_char c :: nat) < 128" and "p \<noteq> []"
  shows "ws_front p = 0 \<Longrightarrow> ws_front (p @ c # r) = 0" and "ws_back p = 0 \<Longrightarrow> ws_back (p @ c # r) = 0"
proof -
  have no: "\<not> ws_two b c" "\<not> ws_three a c b" "\<not> ws_three a b c" "\<not> ws_two c b" "\<not> ws_three c a b" for a b
    using assms(1) by (auto simp: ws_two_def ws_three_def byte_in_def)
  obtain a p' where p: "p = a # p'" using assms(2) by (cases p) auto
  show "ws_front p = 0 \<Longrightarrow> ws_front (p @ c # r) = 0"
    using no by (cases p'; cases "tl p'") (auto simp: p ws_front_def split: list.splits if_splits)
  show "ws_back p = 0 \<Longrightarrow> ws_back (p @ c # r) = 0"
    using no by (cases p'; cases "tl p'") (auto simp: p ws_back_def split: list.splits if_splits)
qed

lemma trim_blank: "ws_front p = 0 \<Longrightarrow> ws_back (rev p) = 0 \<Longrightarrow> trim (CHR '' '' # p) = p"
proof -
  assume a: "ws_front p = 0" "ws_back (rev p) = 0"
  have "ws_front (CHR '' '' # p) = 1" by (simp add: ws_front_def ascii_ws_def)
  then have "trim_start (CHR '' '' # p) = p" using a by (simp add: trim_start_def drop_ws.simps)
  then show ?thesis using a by (simp add: trim_def trim_end_def drop_ws.simps)
qed

lemma join_commas_ends:
  assumes "\<forall>p \<in> set ps. scanned_piece p" and "ps \<noteq> []"
  shows "ws_front (join_commas ps) = 0" and "ws_back (rev (join_commas ps)) = 0" and "join_commas ps \<noteq> []"
  using assms
proof (induction ps rule: join_commas.induct)
  case (3 p p2 ps)
  {
    case 1
    then show ?case using ws_ext(1) [of "CHR '',''" p] by (simp add: scanned_piece_def)
  next
    case 2
    then have "ws_back (rev (join_commas (p2 # ps))) = 0" "rev (join_commas (p2 # ps)) \<noteq> []" using 3 by simp_all
    then show ?case using ws_ext(2) [of "CHR '' ''" "rev (join_commas (p2 # ps))"] by simp
  next
    case 3
    then show ?case by simp
  }
qed (simp_all add: scanned_piece_def)

lemma top_level_loop_pieces:
  assumes "\<forall>p \<in> set ps. scanned_piece p" and "ps \<noteq> []" and "cur = [] \<or> cur = '' ''"
  shows "top_level_loop None 0 cur out (join_commas ps) = Some (out @ ps)"
  using assms
proof (induction ps arbitrary: cur out rule: join_commas.induct)
  case (2 p)
  then have p: "scanned_piece p" by simp
  then have "top_level_loop None 0 cur out (p @ []) = top_level_loop None 0 (rev p @ cur) out []"
    by (subst top_level_loop_piece) (auto simp: scanned_piece_def list_all_iff)
  moreover have "trim (rev cur @ p) = p" using 2 p trim_blank trim_plain by (auto simp: scanned_piece_def)
  ultimately show ?case using p by (simp add: scanned_piece_def Let_def)
next
  case (3 p p2 ps)
  then have p: "scanned_piece p" by simp
  let ?rest = "join_commas (p2 # ps)"
  have "top_level_loop None 0 cur out (p @ '', '' @ ?rest) = top_level_loop None 0 (rev p @ cur) out ('', '' @ ?rest)"
    using p by (subst top_level_loop_piece) (auto simp: scanned_piece_def list_all_iff)
  also have "\<dots> = top_level_loop None 0 '' '' (out @ [trim (rev cur @ p)]) ?rest"
    by (simp add: is_quote_def SQ_def DQ_def opens_def closes_def)
  also have "trim (rev cur @ p) = p" using 3 p trim_blank trim_plain by (auto simp: scanned_piece_def)
  finally show ?case using "3.IH" [of "'' ''" "out @ [p]"] "3.prems" by simp
qed simp

lemma split_scanned:
  assumes "\<forall>p \<in> set ps. scanned_piece p"
  shows "split_top_level (join_commas ps) = Some ps"
proof (cases "ps = []")
  case True
  then show ?thesis by (simp add: split_top_level_def trim_def trim_start_def trim_end_def drop_ws.simps)
next
  case False
  have "trim (join_commas ps) = join_commas ps" using join_commas_ends(1,2) [OF assms False] by (rule trim_plain)
  then show ?thesis
    using join_commas_ends(3) [OF assms False] top_level_loop_pieces [OF assms False, of "[]" "[]"]
    by (simp add: split_top_level_def)
qed

text \<open>C35: A list of pieces joined by commas is cut back into its pieces: arguments, elements and parameters are found
  whatever brackets they contain, and whatever strings in single or double quotes without an escaped quote.
  (With an escaped quote they are not: theorem \<open>escaped_quote_splits\<close>.)\<close>

theorem split_joined:
  assumes "\<forall>p \<in> set ps. piece p \<and> no_escaped_quote p"
  shows "split_top_level (join_commas ps) = Some ps"
  by (rule split_scanned) (use assms piece_scanned in blast)

theorem split_joined_witness:
  "split_top_level (''f('' @ [DQ] @ ''a,)'' @ [BACKSLASH, CHR ''n'', DQ] @ '', [1, 2]), y'') =
     Some [''f('' @ [DQ] @ ''a,)'' @ [BACKSLASH, CHR ''n'', DQ] @ '', [1, 2])'', ''y'']"
proof -
  let ?p = "''f('' @ [DQ] @ ''a,)'' @ [BACKSLASH, CHR ''n'', DQ] @ '', [1, 2])''"
  have "piece ?p" "no_escaped_quote ?p" "piece ''y''" "no_escaped_quote ''y''" by code_simp+
  then show ?thesis using split_joined [of "[?p, ''y'']"] by simp
qed

text \<open>One string with an escaped quote is cut at the comma inside it.\<close>

theorem escaped_quote_splits:
  "split_top_level [DQ, CHR ''a'', BACKSLASH, DQ, CHR '','', CHR ''b'', DQ] =
     Some [[DQ, CHR ''a'', BACKSLASH, DQ], [CHR ''b'', DQ]]"
  by code_simp

end
