(* ===== verification/Spec2Isabelle.thy ===== *)
theory Spec2Isabelle
  imports Core Db_Multi Resp JS_Source JS_Context Server_Safety Expr_Runs Persist_Sound Split_Facts
begin

text \<open>
  A verification library for muon-js: a Redis-like in-memory cache (\<open>src/muon_cache\<close>) and a small
  JavaScript engine (\<open>src/context.rs\<close>, \<open>src/value.rs\<close> and the files around them). File names below are
  relative to the crate.

  \<^bold>\<open>The program.\<close> A server reads commands in the RESP protocol (\<open>resp.rs\<close>), runs them on a database
  (\<open>Db\<close> in \<open>store.rs\<close>) that spreads its keys over 64 buckets (\<open>Shard\<close>), and writes the replies. A bucket maps
  keys to entries, a value with an optional expiry time; every command first removes its key when it has
  expired. Values are strings, counters, lists, sets, hashes (\<open>HashStore\<close>, a linear array that becomes a hash
  map after eight fields), sorted sets and streams. \<open>core.rs\<close> is an embeddable executor over the same
  database, with metrics. \<open>persist.rs\<close> writes snapshots of all databases and a log of the commands into SQL
  tables and loads the snapshot at the start. The JavaScript engine keeps its objects in a bump-allocated
  region, values as tagged 64-bit words, property names as interned atoms, and marks reachable cells. Its
  evaluator cuts source text with scans (\<open>parser.rs\<close>, \<open>evals.rs\<close>); functions of a simple form are compiled
  in one pass from text to bytecode (\<open>compiler.rs\<close>, \<open>bytecode.rs\<close>) that a stack machine runs (\<open>vm.rs\<close>).

  \<^bold>\<open>Theories and the code they model.\<close>
  \<^item> \<open>Prelude\<close>: machine types, results and panics, \<open>HashMap\<close> as an association list, the interface of a key-value
    map as the locale \<open>kv_map\<close>.
  \<^item> \<open>Decimal\<close>: \<open>parse_i64_bytes\<close>, \<open>write_i64_bytes\<close> (\<open>store.rs\<close>), \<open>push_usize\<close>, \<open>push_i64\<close>, \<open>parse_i64_bytes\<close> (\<open>resp.rs\<close>).
  \<^item> \<open>Hash_Store\<close>: \<open>HashStore\<close> with both representations; it interprets \<open>kv_map\<close>.
  \<^item> \<open>Glob\<close>: \<open>Shard::glob_match\<close> and \<open>glob_class_match\<close> against a declarative relation.
  \<^item> \<open>Shard\<close>, \<open>Store_Keys\<close>, \<open>Store_Lists\<close>, \<open>Store_Hashes\<close>, \<open>Store_Sets\<close>, \<open>Store_Zsets\<close>: one bucket and every command
    on it, a function \<open>sh_<name>\<close> per method of \<open>Shard\<close>. \<open>key_local\<close> is the contract of a command: it reads and
    writes one cell, as a specification on cells says. \<open>Cell_View\<close> has the locale \<open>collection\<close>, interpreted for
    hashes, sets and sorted sets, in which the commands are specified on the abstract content.
  \<^item> \<open>Sharding\<close>, \<open>Store_Db\<close>, \<open>Db_Multi\<close>: \<open>Db\<close>, a function \<open>db_<name>\<close> per method. The locale \<open>sharded\<close> shows once that
    routing a key-local operation to its bucket is the operation on one map; \<open>Store_Db\<close> interprets it on the FNV
    routing. \<open>Db_Multi\<close> has the commands on several keys.
  \<^item> \<open>Core\<close>: commands, responses, metrics and batches of \<open>CoreExecutor\<close>, refined to one map.
  \<^item> \<open>Utf8\<close>, \<open>Resp\<close>: \<open>from_utf8_lossy\<close>, the RESP encoder and the iterative reader with its explicit stack.
  \<^item> \<open>Server_Parse\<close>: option and argument parsing of the commands (\<open>server.rs\<close>, \<open>cmd_handlers.rs\<close>).
    \<open>Handler_Base\<close>, \<open>Handlers_Keys\<close>, \<open>Handlers_Colls\<close>: a function \<open>cmd_<name>\<close> per command of \<open>cmd_handlers.rs\<close>, over
    the contracts of \<open>Colls_Contract\<close>. \<open>Dispatch\<close>: \<open>handle_command\<close>, the groups it tries in order, and the log of
    write commands. \<open>Command_Facts\<close>: what whole commands do.
  \<^item> \<open>Scripts\<close>, \<open>Script_Calls\<close>: the script cache, EVAL and EVALSHA, \<open>redis.call\<close> with its fast path and its slow path
    through the dispatcher. A script is the tree of calls it makes; what it computes between calls is arbitrary.
    \<open>Script_Facts\<close> and \<open>Script_Equiv\<close> compare the two paths on every command.
  \<^item> \<open>Server_State\<close>, \<open>Server\<close>: the shared state (databases, logs, channels), one client connection, commands outside
    the databases (SUBSCRIBE, PUBLISH, SAVE, FLUSHALL and the like), MULTI and EXEC with their queue, the fast
    path for single commands, the loop of a connection up to a QUIT. \<open>Server_Facts\<close>: the fast path is the
    dispatcher, a transaction is its commands in order, a snapshot is the databases, a message reaches exactly the
    subscribers. \<open>Server_Safety\<close>: all connections with their steps interleaved (\<open>sys_step\<close>), and the invariant of every
    state they reach.
  \<^item> \<open>JS_Value\<close>: the tagged words of \<open>value.rs\<close>. \<open>JS_Source\<close>: line and column of an offset.
  \<^item> \<open>JS_Memory\<close>, \<open>JS_Props\<close>, \<open>JS_Array\<close>, \<open>JS_Atoms\<close>, \<open>JS_Context\<close>: the region, the property list of an object with
    its overflow map, arrays, atoms, and the object heap with property access along prototypes and marking
    (\<open>context.rs\<close>).
  \<^item> \<open>Persist_Sql\<close>: \<open>snapshot\<close>, \<open>load\<close> and \<open>flush_aof_batch\<close> (\<open>persist.rs\<close>) as sequences of statements and queries on a
    connection that is a parameter. \<open>Persist_Tables\<close>: the effect of each statement on the tables, and \<open>sql_laws\<close>, what
    the code relies on: a statement has its effect or fails without one, a rollback restores, a query returns
    the rows. \<open>Persist_Journal\<close>: a connection that follows the laws. \<open>Persist_Facts\<close>, \<open>Persist_Load\<close>, \<open>Persist_Sound\<close>:
    a snapshot is all or nothing, what is saved is loaded, the log holds whole batches.
  \<^item> \<open>JS_Text\<close>, \<open>F64\<close>, \<open>JS_Convert\<close>: white space and numbers in text, IEEE 754 arithmetic on bit patterns, conversions of heap
    values (\<open>helpers.rs\<close>, \<open>api/mod.rs\<close>).
  \<^item> \<open>Script_Scan\<close>, \<open>Script_Split\<close>: the scans of \<open>parser.rs\<close> and \<open>evals.rs\<close>, one function per loop over the bytes.
    \<open>Scan_Facts\<close>, \<open>Split_Facts\<close>: bodies are what brackets enclose, searches stop at the first byte outside brackets
    and strings when no string has an escaped quote, blanked comments keep every position, statements are pieces of the source in order, lists are
    cut where they were joined.
  \<^item> \<open>Bytecode\<close>, \<open>Compiler_Text\<close>, \<open>Compiler\<close>, \<open>Compiler_Stmts\<close>: instructions and the compiler, a function per method of
    \<open>ExprCompiler\<close> and \<open>StmtCompiler\<close>; the state is the rest of the source with the function under construction. \<open>VM\<close>:
    one step per instruction, \<open>run_module\<close>. \<open>Typing\<close>: the depth of the stack at every position of a code.
    \<open>Compiler_Facts\<close>, \<open>Compiler_Sound\<close>, \<open>Compiler_Typed\<close>, \<open>VM_Facts\<close>, \<open>Compiled_Code\<close>: every code the compiler emits has such a
    typing, code with a typing never underflows the stack or misses a constant, the compiler always returns,
    and the integer paths of the machine agree with the floating-point path. \<open>Expr_Source\<close>, \<open>Expr_Runs\<close>: printed
    expressions are parsed as they were meant, and their code computes what a direct evaluator gives.

  \<^bold>\<open>State and time.\<close> State is passed explicitly; an operation returns the new state and its result. The clock is
  an argument: a command sees one reading, a sweep over all buckets one reading per bucket. Rust errors are
  \<open>Err\<close>, panics are the outcome \<open>Panic\<close>, arithmetic that wraps or saturates in a release build does so here.
  Loops are structural or have a termination proof: the glob matcher, the RESP reader, the line search and
  the mark loop end on every input, without fuel. The prototype walk has the source's own limit of 64. The
  recursive descent of the compiler has fuel, 20 for each byte left and 20 more for an expression, 2 for each byte and 2
  more for the statements; that it is never used up is proved in \<open>Compiled_Code\<close>. A run of the machine is a
  bounded number of steps, since scripts may loop; what is stated holds for every bound.

  \<^bold>\<open>What is shown.\<close> Each storage command meets its specification on every branch and touches no other key; the
  sharded database is one map; batches through the executor are sequential runs on it; the hash with two
  representations, the overflow map of an object, arrays and atoms refine maps and lists; protocol values
  and integers survive the round trip; the allocator never overlaps blocks; marking is reachability; a
  snapshot is atomic and is restored by the next load; compiled code is well-typed and computes the value of
  its expression; the scans of the parser cut text where a byte-wise reference scan says; of two integers the fast paths of the
  machine compute what floats do, outside the listed cases. Where the code does
  not do what it means to, the theorem says exactly when.

  \<^bold>\<open>Bounds.\<close> Host words have 64 bits. List lengths are below \<open>2^63\<close> where the code converts them to \<open>i64\<close>; a heap region
  is below \<open>2^35\<close> bytes, so that array lengths fit a \<open>u32\<close>; property counts are below \<open>2^32\<close>. Nesting depths and
  operands of instructions are unbounded integers; compiled expressions are taken to be shorter than \<open>2^32\<close>
  instructions. Overflow is that of a release build. Nothing is claimed for the order of a sorted set with scores that
  are NaN, nor for calls of a script with strings that are not UTF-8 or with values that are no strings and no integers, except
  that the fast path takes the latter for empty strings.

  \<^bold>\<open>Not modelled.\<close> The server runs one command per step here; locks, the scheduler of the asynchronous runtime,
  files and sockets are outside. The SQL library, the script interpreter of EVAL, the text of floats, and what
  the machine calls in the evaluator (functions, properties of other objects) are parameters.
  Memory exhaustion of the Rust heap, the tree-walking evaluator with its built-in library (\<open>api/\<close>, the evaluating
  functions of \<open>parser.rs\<close> and \<open>evals.rs\<close>), JSON, typed arrays, call frames and environments (\<open>context.rs\<close>),
  command-line tools and bindings are not modelled: the evaluator works on source text and host state at once and has
  no interface at which a part of it could be stated.
\<close>

end
